(* ===== verification/Prelude.thy ===== *)
theory Prelude
  imports Main "HOL-Library.Word" "HOL-Library.List_Lexorder" "HOL-Library.Char_ord"
    "HOL-Library.Sublist"
begin

text \<open>
  Shared vocabulary of the development: what the JoshBot sources use of the Go language and of
  its standard library, and the list lemmas the component theories need.

  \<^item> A Go \<^verbatim>\<open>string\<close> or \<^verbatim>\<open>[]byte\<close> is a HOL \<^typ>\<open>string\<close>: a HOL \<^typ>\<open>char\<close> is one byte, and
    lengths count bytes. Predicates that the sources run over runes and that only single out ASCII
    code points are run over bytes: in UTF-8 no byte of a multi-byte sequence is an ASCII byte.
  \<^item> A Go \<^verbatim>\<open>time.Time\<close> is an \<^typ>\<open>int\<close>, the nanoseconds since the zero time, so that
    \<^verbatim>\<open>IsZero\<close> is \<open>t = 0\<close>; a \<^verbatim>\<open>time.Duration\<close> is an \<^typ>\<open>int\<close> of nanoseconds. \<^verbatim>\<open>Time.Sub\<close>
    saturates at the 64-bit range as the library's does.
  \<^item> A Go \<^verbatim>\<open>(value, error)\<close> pair is a sum: \<open>Inl\<close> the error, \<open>Inr\<close> the value.
\<close>

named_theorems go_simps "equations of the Go library functions the models call"

type_synonym go_time = int
type_synonym duration = int

section \<open>Time\<close>

definition nanosecond :: duration where "nanosecond = 1"
definition second :: duration where "second = 1000000000"
definition minute :: duration where "minute = 60 * second"
definition hour :: duration where "hour = 60 * minute"

lemmas duration_units = nanosecond_def second_def minute_def hour_def

definition max_int64 :: int where "max_int64 = 9223372036854775807"
definition min_int64 :: int where "min_int64 = - 9223372036854775808"

text \<open>\<^verbatim>\<open>Time.Sub\<close>: the difference as a duration, saturated at the 64-bit range.\<close>

definition time_Sub :: "go_time \<Rightarrow> go_time \<Rightarrow> duration" where
  "time_Sub t u = max min_int64 (min max_int64 (t - u))"

lemma time_Sub_pos_iff: "0 < time_Sub t u \<longleftrightarrow> u < t"
  by (auto simp: time_Sub_def min_int64_def max_int64_def)

lemma time_Sub_le: "u \<le> t \<Longrightarrow> time_Sub t u \<le> t - u"
  by (auto simp: time_Sub_def min_int64_def max_int64_def)

section \<open>Bytes and strings\<close>

definition byte_of :: "char \<Rightarrow> nat" where
  "byte_of c = of_char c"

lemma byte_of_less: "byte_of c < 256"
  unfolding byte_of_def by (cases c) simp

lemma byte_of_inject [simp]: "byte_of c = byte_of d \<longleftrightarrow> c = d"
  by (simp add: byte_of_def)

lemma char_of_byte_of [simp]: "char_of (byte_of c) = c"
  by (simp add: byte_of_def)

lemma byte_of_char_of: "n < 256 \<Longrightarrow> byte_of (char_of n) = n"
  by (simp add: byte_of_def)

text \<open>The first-found split of \<^verbatim>\<open>strings.Cut\<close> at a one-byte separator: (before, after, found).\<close>

definition Cut :: "string \<Rightarrow> char \<Rightarrow> string \<times> string \<times> bool" where
  "Cut s sep =
     (case dropWhile (\<lambda>c. c \<noteq> sep) s of
        [] \<Rightarrow> (s, [], False)
      | _ # after \<Rightarrow> (takeWhile (\<lambda>c. c \<noteq> sep) s, after, True))"

text \<open>\<^verbatim>\<open>strings.Split\<close> at a one-byte separator.\<close>

fun Split :: "string \<Rightarrow> char \<Rightarrow> string list" where
  "Split [] sep = [[]]"
| "Split (c # s) sep =
     (if c = sep then [] # Split s sep
      else (case Split s sep of [] \<Rightarrow> [[c]] | w # ws \<Rightarrow> (c # w) # ws))"

text \<open>\<^verbatim>\<open>strings.Trim\<close> with a cutset of ASCII bytes.\<close>

definition TrimLeft :: "string \<Rightarrow> string \<Rightarrow> string" where
  "TrimLeft s cutset = dropWhile (\<lambda>c. c \<in> set cutset) s"

definition TrimRight :: "string \<Rightarrow> string \<Rightarrow> string" where
  "TrimRight s cutset = rev (dropWhile (\<lambda>c. c \<in> set cutset) (rev s))"

definition Trim :: "string \<Rightarrow> string \<Rightarrow> string" where
  "Trim s cutset = TrimRight (TrimLeft s cutset) cutset"

definition HasPrefix :: "string \<Rightarrow> string \<Rightarrow> bool" where
  "HasPrefix s pre \<longleftrightarrow> take (length pre) s = pre"

definition HasSuffix :: "string \<Rightarrow> string \<Rightarrow> bool" where
  "HasSuffix s suf \<longleftrightarrow> length suf \<le> length s \<and> drop (length s - length suf) s = suf"

definition TrimSuffix :: "string \<Rightarrow> string \<Rightarrow> string" where
  "TrimSuffix s suf = (if HasSuffix s suf then take (length s - length suf) s else s)"

definition TrimPrefix :: "string \<Rightarrow> string \<Rightarrow> string" where
  "TrimPrefix s pre = (if HasPrefix s pre then drop (length pre) s else s)"

lemma HasSuffix_append [simp]: "HasSuffix (s @ suf) suf"
  by (simp add: HasSuffix_def)

lemma TrimSuffix_append [simp]: "TrimSuffix (s @ suf) suf = s"
  by (simp add: TrimSuffix_def)

lemma HasSuffix_D: "HasSuffix s suf \<Longrightarrow> s = TrimSuffix s suf @ suf"
  by (metis HasSuffix_def TrimSuffix_def append_take_drop_id)

lemma Cut_found: "sep \<in> set s \<Longrightarrow> \<exists>a b. Cut s sep = (a, b, True) \<and> s = a @ sep # b \<and> sep \<notin> set a"
proof -
  assume "sep \<in> set s"
  then obtain d where d: "dropWhile (\<lambda>c. c \<noteq> sep) s = sep # d"
    by (metis (mono_tags, lifting) dropWhile_eq_Nil_conv hd_dropWhile list.collapse)
  moreover have "s = takeWhile (\<lambda>c. c \<noteq> sep) s @ sep # d"
    by (metis d takeWhile_dropWhile_id)
  moreover have "sep \<notin> set (takeWhile (\<lambda>c. c \<noteq> sep) s)"
    by (auto dest: set_takeWhileD)
  ultimately show ?thesis by (simp add: Cut_def)
qed

lemma Cut_not_found: "sep \<notin> set s \<Longrightarrow> Cut s sep = (s, [], False)"
  unfolding Cut_def by (metis (mono_tags, lifting) dropWhile_eq_Nil_conv list.simps(4))

lemma Split_nonempty [simp]: "Split s sep \<noteq> []"
  by (induction s) (auto split: list.splits)

lemma Split_no_sep: "w \<in> set (Split s sep) \<Longrightarrow> sep \<notin> set w"
proof (induction s arbitrary: w)
  case (Cons c s)
  then show ?case by (cases "Split s sep") (auto split: if_splits)
qed simp

section \<open>ASCII classes, case folding and UTF-8\<close>

definition is_upper :: "char \<Rightarrow> bool" where
  "is_upper c \<longleftrightarrow> 65 \<le> byte_of c \<and> byte_of c \<le> 90"

definition is_lower :: "char \<Rightarrow> bool" where
  "is_lower c \<longleftrightarrow> 97 \<le> byte_of c \<and> byte_of c \<le> 122"

definition is_digit :: "char \<Rightarrow> bool" where
  "is_digit c \<longleftrightarrow> 48 \<le> byte_of c \<and> byte_of c \<le> 57"

definition to_lower :: "char \<Rightarrow> char" where
  "to_lower c = (if is_upper c then char_of (byte_of c + 32) else c)"

text \<open>
  \<^verbatim>\<open>strings.EqualFold\<close> against an ASCII constant. Simple Unicode folding identifies the ASCII
  letters with their other case and, beyond ASCII, only U+017F (bytes C5 BF) with \<open>s\<close> and U+212A
  (bytes E2 84 AA) with \<open>k\<close>; no other non-ASCII rune folds to an ASCII one.
\<close>

fun fold_runes :: "string \<Rightarrow> string" where
  "fold_runes [] = []"
| "fold_runes (a # b # c # s) =
     (if byte_of a = 197 \<and> byte_of b = 191 then CHR ''s'' # fold_runes (c # s)
      else if byte_of a = 226 \<and> byte_of b = 132 \<and> byte_of c = 170 then CHR ''k'' # fold_runes s
      else to_lower a # fold_runes (b # c # s))"
| "fold_runes [a, b] =
     (if byte_of a = 197 \<and> byte_of b = 191 then [CHR ''s''] else [to_lower a, to_lower b])"
| "fold_runes [a] = [to_lower a]"

definition EqualFold :: "string \<Rightarrow> string \<Rightarrow> bool" where
  "EqualFold s ascii \<longleftrightarrow> fold_runes s = map to_lower ascii"

text \<open>
  The size of the UTF-8 sequence a string starts with (\<^verbatim>\<open>utf8.DecodeRuneInString\<close>), 0 when it
  starts with none: the byte ranges of the Unicode standard, without overlong forms, surrogates and
  values above U+10FFFF.
\<close>

definition in_range :: "nat \<Rightarrow> nat \<Rightarrow> char \<Rightarrow> bool" where
  "in_range lo hi c \<longleftrightarrow> lo \<le> byte_of c \<and> byte_of c \<le> hi"

definition rune2 :: "char \<Rightarrow> char \<Rightarrow> bool" where
  "rune2 a b \<longleftrightarrow> in_range 194 223 a \<and> in_range 128 191 b"

definition rune3 :: "char \<Rightarrow> char \<Rightarrow> char \<Rightarrow> bool" where
  "rune3 a b c \<longleftrightarrow>
     in_range 224 239 a \<and>
     in_range (if byte_of a = 224 then 160 else 128) (if byte_of a = 237 then 159 else 191) b \<and>
     in_range 128 191 c"

definition rune4 :: "char \<Rightarrow> char \<Rightarrow> char \<Rightarrow> char \<Rightarrow> bool" where
  "rune4 a b c d \<longleftrightarrow>
     in_range 240 244 a \<and>
     in_range (if byte_of a = 240 then 144 else 128) (if byte_of a = 244 then 143 else 191) b \<and>
     in_range 128 191 c \<and> in_range 128 191 d"

definition rune_size :: "string \<Rightarrow> nat" where
  "rune_size s =
     (case s of
        [] \<Rightarrow> 0
      | a # r \<Rightarrow>
          if byte_of a < 128 then 1
          else (case r of
                  [] \<Rightarrow> 0
                | b # r' \<Rightarrow>
                    if rune2 a b then 2
                    else (case r' of
                            [] \<Rightarrow> 0
                          | c # r'' \<Rightarrow>
                              if rune3 a b c then 3
                              else (case r'' of
                                      [] \<Rightarrow> 0
                                    | d # _ \<Rightarrow> if rune4 a b c d then 4 else 0))))"

lemma rune_bytes:
  "rune2 a b \<Longrightarrow> 128 \<le> byte_of a \<and> 128 \<le> byte_of b"
  "rune3 a b c \<Longrightarrow> 128 \<le> byte_of a \<and> 128 \<le> byte_of b \<and> 128 \<le> byte_of c"
  "rune4 a b c d \<Longrightarrow> 128 \<le> byte_of a \<and> 128 \<le> byte_of b \<and> 128 \<le> byte_of c \<and> 128 \<le> byte_of d"
  by (auto simp: rune2_def rune3_def rune4_def in_range_def split: if_splits)

lemma rune_size_le: "rune_size s \<le> length s"
  by (auto simp: rune_size_def split: list.splits)

lemma rune_size_ascii: "byte_of a < 128 \<Longrightarrow> rune_size (a # s) = 1"
  by (simp add: rune_size_def)

lemma rune_bytes_high:
  "128 \<le> byte_of c \<Longrightarrow> x \<in> set (take (rune_size (c # s)) (c # s)) \<Longrightarrow> 128 \<le> byte_of x"
  by (auto simp: rune_size_def rune_bytes split: list.splits if_splits)

function utf8_Valid :: "string \<Rightarrow> bool" where
  "utf8_Valid s =
     (if s = [] then True
      else if rune_size s = 0 then False
      else utf8_Valid (drop (rune_size s) s))"
  by pat_completeness auto
termination
  by (relation "measure length") (use rune_size_le in auto)

declare utf8_Valid.simps [simp del]

lemma utf8_Valid_ascii: "list_all (\<lambda>c. byte_of c < 128) s \<Longrightarrow> utf8_Valid s"
proof (induction s)
  case (Cons a s)
  then show ?case by (simp add: utf8_Valid.simps [of "a # s"] rune_size_ascii)
qed (simp add: utf8_Valid.simps)

section \<open>Decimal numbers\<close>

definition digit_value :: "char \<Rightarrow> nat" where
  "digit_value c = byte_of c - 48"

definition dec_value :: "string \<Rightarrow> nat" where
  "dec_value s = foldl (\<lambda>n c. 10 * n + digit_value c) 0 s"

lemma foldl_dec_value:
  "foldl (\<lambda>n c. 10 * n + digit_value c) a s = a * 10 ^ length s + dec_value s"
proof (induction s arbitrary: a)
  case (Cons c s)
  show ?case
    using Cons [of "10 * a + digit_value c"] Cons [of "digit_value c"]
    by (simp add: dec_value_def algebra_simps)
qed (simp add: dec_value_def)

lemma dec_value_Nil [simp]: "dec_value [] = 0"
  by (simp add: dec_value_def)

lemma dec_value_Cons: "dec_value (c # s) = digit_value c * 10 ^ length s + dec_value s"
  using foldl_dec_value [of "digit_value c" s] by (simp add: dec_value_def)

lemma digit_value_less: "is_digit c \<Longrightarrow> digit_value c < 10"
  by (auto simp: is_digit_def digit_value_def)

lemma dec_value_less: "list_all is_digit s \<Longrightarrow> dec_value s < 10 ^ length s"
proof (induction s)
  case (Cons c s)
  then have "digit_value c \<le> 9" and less: "dec_value s < 10 ^ length s"
    using digit_value_less [of c] by auto
  then have "digit_value c * 10 ^ length s \<le> 9 * 10 ^ length s"
    by (intro mult_right_mono) auto
  with less have "digit_value c * 10 ^ length s + dec_value s < 9 * 10 ^ length s + 10 ^ length s"
    by (rule add_le_less_mono [rotated])
  then show ?case by (simp add: dec_value_Cons)
qed simp

text \<open>
  \<^verbatim>\<open>strconv.ParseUint(s, 10, bits)\<close>: \<open>None\<close> for a syntax error (an empty string or a byte that is no
  digit) and for a value out of range.
\<close>

definition ParseUint :: "nat \<Rightarrow> string \<Rightarrow> nat option" where
  "ParseUint bits s =
     (if s = [] \<or> \<not> list_all is_digit s then None
      else if dec_value s < 2 ^ bits then Some (dec_value s) else None)"

text \<open>\<^verbatim>\<open>strconv.ParseInt(s, 10, 64)\<close>: an optional sign, then an unsigned number in range.\<close>

definition ParseInt64 :: "string \<Rightarrow> int option" where
  "ParseInt64 s =
     (let neg = (case s of c # _ \<Rightarrow> c = CHR ''-'' | [] \<Rightarrow> False);
          digits = (case s of c # r \<Rightarrow> if c = CHR ''-'' \<or> c = CHR ''+'' then r else s | [] \<Rightarrow> [])
      in case ParseUint 64 digits of
           None \<Rightarrow> None
         | Some n \<Rightarrow>
             if \<not> neg \<and> int n \<le> max_int64 then Some (int n)
             else if neg \<and> min_int64 \<le> - int n then Some (- int n)
             else None)"

lemma ParseUint_bound: "ParseUint bits s = Some n \<Longrightarrow> n < 2 ^ bits"
  by (auto simp: ParseUint_def split: if_splits)

lemma ParseInt64_bounds: "ParseInt64 s = Some n \<Longrightarrow> min_int64 \<le> n \<and> n \<le> max_int64"
  by (auto simp: ParseInt64_def Let_def min_int64_def max_int64_def split: option.splits if_splits)

text \<open>\<^verbatim>\<open>strconv.FormatUint(n, 10)\<close>.\<close>

fun FormatUint :: "nat \<Rightarrow> string" where
  "FormatUint n =
     (if n < 10 then [char_of (48 + n)] else FormatUint (n div 10) @ [char_of (48 + n mod 10)])"

declare FormatUint.simps [simp del]

lemma digit_char: "k < 10 \<Longrightarrow> is_digit (char_of (48 + k)) \<and> digit_value (char_of (48 + k)) = k"
  by (simp add: is_digit_def digit_value_def byte_of_char_of)

lemma FormatUint_digits: "FormatUint n \<noteq> [] \<and> list_all is_digit (FormatUint n)"
proof (induction n rule: FormatUint.induct)
  case (1 n)
  then show ?case
    by (cases "n < 10") (auto simp: FormatUint.simps [of n] digit_char)
qed

lemma dec_value_append: "dec_value (s @ [c]) = 10 * dec_value s + digit_value c"
  by (simp add: dec_value_def)

lemma dec_value_FormatUint: "dec_value (FormatUint n) = n"
proof (induction n rule: FormatUint.induct)
  case (1 n)
  show ?case
  proof (cases "n < 10")
    case True
    then show ?thesis by (simp add: FormatUint.simps [of n] dec_value_Cons digit_char)
  next
    case False
    with 1 show ?thesis by (simp add: FormatUint.simps [of n] dec_value_append digit_char)
  qed
qed

section \<open>White space\<close>

text \<open>
  \<^verbatim>\<open>strings.TrimSpace\<close>: \<open>space_size\<close> is the size of the Unicode white-space rune a string starts
  with (0 for none): the ASCII spaces, U+0085, U+00A0, U+1680, U+2000 to U+200A, U+2028, U+2029,
  U+202F, U+205F and U+3000. Each multi-byte form starts with a lead byte, so reading it from the
  right finds the same rune.
\<close>

definition ascii_space :: "char \<Rightarrow> bool" where
  "ascii_space c \<longleftrightarrow> in_range 9 13 c \<or> byte_of c = 32"

definition space2 :: "char \<Rightarrow> char \<Rightarrow> bool" where
  "space2 a b \<longleftrightarrow> byte_of a = 194 \<and> (byte_of b = 133 \<or> byte_of b = 160)"

definition space3 :: "char \<Rightarrow> char \<Rightarrow> char \<Rightarrow> bool" where
  "space3 a b c \<longleftrightarrow>
     byte_of a = 225 \<and> byte_of b = 154 \<and> byte_of c = 128 \<or>
     byte_of a = 226 \<and> byte_of b = 128 \<and> (in_range 128 138 c \<or> byte_of c \<in> {168, 169, 175}) \<or>
     byte_of a = 226 \<and> byte_of b = 129 \<and> byte_of c = 159 \<or>
     byte_of a = 227 \<and> byte_of b = 128 \<and> byte_of c = 128"

definition space_size :: "string \<Rightarrow> nat" where
  "space_size s =
     (case s of a # r \<Rightarrow>
        if ascii_space a then 1
        else (case r of b # r' \<Rightarrow>
                if space2 a b then 2
                else (case r' of c # _ \<Rightarrow> if space3 a b c then 3 else 0 | [] \<Rightarrow> 0)
              | [] \<Rightarrow> 0)
      | [] \<Rightarrow> 0)"

definition space_size_rev :: "string \<Rightarrow> nat" where
  "space_size_rev s =
     (case s of a # r \<Rightarrow>
        if ascii_space a then 1
        else (case r of b # r' \<Rightarrow>
                if space2 b a then 2
                else (case r' of c # _ \<Rightarrow> if space3 c b a then 3 else 0 | [] \<Rightarrow> 0)
              | [] \<Rightarrow> 0)
      | [] \<Rightarrow> 0)"

function trim_while :: "(string \<Rightarrow> nat) \<Rightarrow> string \<Rightarrow> string" where
  "trim_while sz s = (if s = [] \<or> sz s = 0 then s else trim_while sz (drop (sz s) s))"
  by pat_completeness auto
termination
  by (relation "measure (\<lambda>(sz, s). length s)") auto

declare trim_while.simps [simp del]

definition TrimSpace :: "string \<Rightarrow> string" where
  "TrimSpace s = rev (trim_while space_size_rev (rev (trim_while space_size s)))"

lemma trim_while_id: "sz s = 0 \<Longrightarrow> trim_while sz s = s"
  by (simp add: trim_while.simps)

lemma TrimSpace_id: "space_size s = 0 \<Longrightarrow> space_size_rev (rev s) = 0 \<Longrightarrow> TrimSpace s = s"
  by (simp add: TrimSpace_def trim_while_id)

lemma digit_no_space: "is_digit c \<Longrightarrow> \<not> ascii_space c \<and> \<not> space2 a c \<and> \<not> space2 c a \<and>
    \<not> space3 a b c \<and> \<not> space3 c a b"
  by (auto simp: is_digit_def ascii_space_def space2_def space3_def in_range_def)

lemma TrimSpace_digits: "list_all is_digit s \<Longrightarrow> TrimSpace s = s"
proof (rule TrimSpace_id)
  assume digits: "list_all is_digit s"
  then show "space_size s = 0"
    by (auto simp: space_size_def digit_no_space split: list.splits)
  from digits have "list_all is_digit (rev s)" by simp
  then show "space_size_rev (rev s) = 0"
    by (auto simp: space_size_rev_def digit_no_space split: list.splits)
qed

section \<open>Errors\<close>

text \<open>
  A Go error value: a package-level sentinel, identified by its message, or an error that wraps
  others (\<^verbatim>\<open>fmt.Errorf\<close> with \<^verbatim>\<open>%w\<close>, \<^verbatim>\<open>errors.Join\<close>). \<^verbatim>\<open>errors.Is\<close> searches the tree.
\<close>

datatype go_error = Sentinel string | Wrap string "go_error list"

fun errors_Is :: "go_error \<Rightarrow> go_error \<Rightarrow> bool" where
  "errors_Is (Sentinel m) target = (Sentinel m = target)"
| "errors_Is (Wrap m es) target = (Wrap m es = target \<or> list_ex (\<lambda>e. errors_Is e target) es)"

definition Canceled :: go_error where "Canceled = Sentinel ''context canceled''"
definition DeadlineExceeded :: go_error where
  "DeadlineExceeded = Sentinel ''context deadline exceeded''"

text \<open>
  What a body reader yields: its bytes, and then the end of the stream or an error.
  \<open>ReadAll_limited\<close> is \<^verbatim>\<open>io.ReadAll(io.LimitReader(body, n))\<close>: at most \<open>n\<close> bytes, and the error only
  when it comes before the limit is reached.
\<close>

datatype body = Body (body_bytes: string) (body_error: "go_error option")

definition ReadAll_limited :: "body \<Rightarrow> nat \<Rightarrow> go_error + string" where
  "ReadAll_limited b n =
     (if length (body_bytes b) \<ge> n then Inr (take n (body_bytes b))
      else (case body_error b of Some e \<Rightarrow> Inl e | None \<Rightarrow> Inr (body_bytes b)))"

lemma ReadAll_limited_length: "ReadAll_limited b n = Inr s \<Longrightarrow> length s \<le> n"
  by (auto simp: ReadAll_limited_def split: if_splits option.splits)

section \<open>Lists\<close>

lemma foldl_invariant:
  "P a \<Longrightarrow> (\<And>a x. P a \<Longrightarrow> x \<in> set xs \<Longrightarrow> P (f a x)) \<Longrightarrow> P (foldl f a xs)"
  by (induction xs arbitrary: a) auto

lemma fold_invariant_mem:
  "P a \<Longrightarrow> (\<And>a x. P a \<Longrightarrow> x \<in> set xs \<Longrightarrow> P (f x a)) \<Longrightarrow> P (fold f xs a)"
  by (induction xs arbitrary: a) auto

text \<open>The first occurrences of the elements of a list, in order: what a loop with a set of seen keys keeps.\<close>

primrec firsts :: "'a list \<Rightarrow> 'a list" where
  "firsts [] = []"
| "firsts (x # xs) = x # filter (\<lambda>y. y \<noteq> x) (firsts xs)"

lemma set_firsts [simp]: "set (firsts xs) = set xs"
  by (induction xs) auto

lemma distinct_firsts [simp]: "distinct (firsts xs)"
  by (induction xs) auto

lemma filter_firsts_insert:
  "filter (\<lambda>y. y \<notin> insert x S) (firsts xs) = filter (\<lambda>y. y \<notin> S) (filter (\<lambda>y. y \<noteq> x) (firsts xs))"
  by (simp add: conj_commute)

lemma filter_firsts_skip:
  "x \<in> S \<Longrightarrow> filter (\<lambda>y. y \<notin> S) (filter (\<lambda>y. y \<noteq> x) (firsts xs)) = filter (\<lambda>y. y \<notin> S) (firsts xs)"
  by (auto intro!: filter_cong)

section \<open>Loops that run until they are stopped\<close>

text \<open>
  The loop of a service: it takes turns until one ends in an error. A turn that starts when the service was told to stop
  ends in that error at once, and whatever ends a turn is a reason of the service's own. Such a loop returns once it is
  told to stop.
\<close>

locale turn_loop =
  fixes turn :: "'w \<Rightarrow> 'e option \<times> 'w"
    and loop :: "'w \<Rightarrow> ('e \<times> 'w) option"
    and stop :: "'w \<Rightarrow> 'e option"
    and reason :: "'e \<Rightarrow> 'w \<Rightarrow> bool"
  assumes loop_turns: "loop w = (case turn w of (Some e, w') \<Rightarrow> Some (e, w') | (None, w') \<Rightarrow> loop w')"
    and stopped: "stop w = Some e \<Longrightarrow> turn w = (Some e, w)"
    and ended: "turn w = (Some e, w') \<Longrightarrow> reason e w'"
begin

lemma loop_ends:
  assumes "stop (((\<lambda>w. snd (turn w)) ^^ n) w) \<noteq> None"
  shows "\<exists>e w'. loop w = Some (e, w') \<and> reason e w'"
  using assms
proof (induction n arbitrary: w)
  case 0
  then obtain e where "stop w = Some e" by auto
  with stopped [OF this] ended [OF stopped [OF this]] show ?case by (subst loop_turns) simp
next
  case (Suc n)
  obtain r w1 where t: "turn w = (r, w1)" by fastforce
  show ?case
  proof (cases r)
    case None
    with Suc.prems t have "stop (((\<lambda>w. snd (turn w)) ^^ n) w1) \<noteq> None"
      by (simp add: funpow_Suc_right del: funpow.simps)
    from Suc.IH [OF this] show ?thesis using t None by (subst loop_turns) simp
  next
    case (Some e)
    with t ended [OF t [unfolded Some]] show ?thesis by (subst loop_turns) simp
  qed
qed

end

end
