(* ===== verification/Retry.thy ===== *)
theory Retry
  imports Prelude Complex_Main
begin

text \<open>
  The retry policy of \<^verbatim>\<open>internal/retry/policy.go\<close>: failure categories, the classification of HTTP
  statuses, Retry-After parsing and the durable backoff schedule.
\<close>

section \<open>Categories\<close>

type_synonym category = string

abbreviation (input) CategoryNone :: category where "CategoryNone \<equiv> ''''"
abbreviation CategoryDNS :: category where "CategoryDNS \<equiv> ''dns''"
abbreviation CategoryTransport :: category where "CategoryTransport \<equiv> ''transport''"
abbreviation CategoryTimeout :: category where "CategoryTimeout \<equiv> ''timeout''"
abbreviation CategoryRobotsTemporary :: category where "CategoryRobotsTemporary \<equiv> ''robots_temporary''"
abbreviation CategoryHTTP408 :: category where "CategoryHTTP408 \<equiv> ''http_408''"
abbreviation CategoryHTTP429 :: category where "CategoryHTTP429 \<equiv> ''http_429''"
abbreviation CategoryHTTP4xx :: category where "CategoryHTTP4xx \<equiv> ''http_4xx''"
abbreviation CategoryHTTP5xx :: category where "CategoryHTTP5xx \<equiv> ''http_5xx''"
abbreviation CategoryDeclarationUnavailable :: category where
  "CategoryDeclarationUnavailable \<equiv> ''declaration_unavailable''"
abbreviation CategoryProcessor :: category where "CategoryProcessor \<equiv> ''processor''"
abbreviation CategoryStore :: category where "CategoryStore \<equiv> ''store''"
abbreviation CategoryUnsafeAddress :: category where "CategoryUnsafeAddress \<equiv> ''unsafe_address''"
abbreviation CategoryPolicyBlocked :: category where "CategoryPolicyBlocked \<equiv> ''policy_blocked''"
abbreviation CategoryRobotsDenied :: category where "CategoryRobotsDenied \<equiv> ''robots_denied''"
abbreviation CategoryMalformedOrigin :: category where "CategoryMalformedOrigin \<equiv> ''malformed_origin''"
abbreviation CategoryUnsupportedOrigin :: category where
  "CategoryUnsupportedOrigin \<equiv> ''unsupported_origin''"
abbreviation CategoryOversizedContent :: category where
  "CategoryOversizedContent \<equiv> ''oversized_content''"
abbreviation CategoryUnsupportedContent :: category where
  "CategoryUnsupportedContent \<equiv> ''unsupported_content''"
abbreviation CategoryBudgetExhausted :: category where "CategoryBudgetExhausted \<equiv> ''budget_exhausted''"
abbreviation CategoryDeclarationInvalid :: category where
  "CategoryDeclarationInvalid \<equiv> ''declaration_invalid''"
abbreviation CategoryDeclarationUnsupported :: category where
  "CategoryDeclarationUnsupported \<equiv> ''declaration_unsupported''"
abbreviation CategoryCrossOriginRedirect :: category where
  "CategoryCrossOriginRedirect \<equiv> ''cross_origin_redirect''"
abbreviation CategoryDeclarationAbsent :: category where
  "CategoryDeclarationAbsent \<equiv> ''declaration_absent''"

definition Transient :: "category \<Rightarrow> bool" where
  "Transient category \<longleftrightarrow>
     category \<in> set [CategoryDNS, CategoryTransport, CategoryTimeout, CategoryRobotsTemporary,
       CategoryHTTP408, CategoryHTTP429, CategoryHTTP5xx, CategoryDeclarationUnavailable,
       CategoryProcessor, CategoryStore]"

definition category_Valid :: "category \<Rightarrow> bool" where
  "category_Valid category \<longleftrightarrow>
     category \<in> set [CategoryNone, CategoryDNS, CategoryTransport, CategoryTimeout,
       CategoryRobotsTemporary, CategoryHTTP408, CategoryHTTP429, CategoryHTTP4xx, CategoryHTTP5xx,
       CategoryDeclarationUnavailable, CategoryProcessor, CategoryStore, CategoryUnsafeAddress,
       CategoryPolicyBlocked, CategoryRobotsDenied, CategoryMalformedOrigin,
       CategoryUnsupportedOrigin, CategoryOversizedContent, CategoryUnsupportedContent,
       CategoryBudgetExhausted, CategoryDeclarationInvalid, CategoryDeclarationUnsupported,
       CategoryCrossOriginRedirect, CategoryDeclarationAbsent]"

definition HTTPStatusCategory :: "int \<Rightarrow> category \<times> bool" where
  "HTTPStatusCategory status =
     (if status = 408 then (CategoryHTTP408, True)
      else if status = 429 then (CategoryHTTP429, True)
      else if status \<ge> 500 \<and> status \<le> 599 then (CategoryHTTP5xx, True)
      else if status = 404 \<or> status = 410 then (CategoryDeclarationAbsent, False)
      else if status \<ge> 400 \<and> status \<le> 499 then (CategoryHTTP4xx, False)
      else (CategoryDeclarationUnavailable, False))"

section \<open>Delays\<close>

definition MaxAttemptsPerCycle :: nat where
  "MaxAttemptsPerCycle = 2"

definition MaxDelay :: duration where
  "MaxDelay = 24 * hour"

definition capDuration :: "duration \<Rightarrow> duration" where
  "capDuration d = (if d \<le> 0 then 0 else if d > MaxDelay then MaxDelay else d)"

text \<open>
  \<^verbatim>\<open>http.ParseTime\<close>, which reads the three HTTP date formats, is the argument \<open>http_ParseTime\<close>
  (\<open>None\<close> is its error); nothing below depends on which strings it accepts.
\<close>

definition ParseRetryAfter :: "(string \<Rightarrow> go_time option) \<Rightarrow> string \<Rightarrow> go_time \<Rightarrow> duration" where
  "ParseRetryAfter http_ParseTime rawValue now =
     (let value = TrimSpace rawValue in
      if value = [] then 0
      else (case ParseInt64 value of
              Some seconds \<Rightarrow>
                if seconds \<le> 0 then 0
                else if seconds > MaxDelay div second then MaxDelay
                else seconds * second
            | None \<Rightarrow>
                (case http_ParseTime value of
                   None \<Rightarrow> 0
                 | Some when \<Rightarrow>
                     if \<not> now < when then 0 else capDuration (time_Sub when now))))"

definition schedule :: "duration list" where
  "schedule = [5 * minute, 30 * minute, 2 * hour, 12 * hour, 24 * hour]"

definition scheduleAt :: "int \<Rightarrow> duration" where
  "scheduleAt consecutiveFailures =
     (let index = consecutiveFailures - 1;
          lowered = (if index < 0 then 0 else index);
          bounded = (if lowered \<ge> int (length schedule) then int (length schedule) - 1 else lowered)
      in schedule ! nat bounded)"

text \<open>
  \<open>jitter\<close> is the sample that the policy's jitter source returns, \<open>None\<close> when the policy has no source.
  The scaling \<^verbatim>\<open>time.Duration(float64(delay) * (0.8 + sample*0.4))\<close> is the argument \<open>scale\<close>: the Go
  specification lets the product and the sum be fused, so its last bits depend on the platform.
\<close>

definition Delay ::
  "(duration \<Rightarrow> rat \<Rightarrow> duration) \<Rightarrow> rat option \<Rightarrow> int \<Rightarrow> duration \<Rightarrow> duration" where
  "Delay scale jitter consecutiveFailures retryAfter =
     (let base = scheduleAt consecutiveFailures;
          jittered = (case jitter of
                        None \<Rightarrow> base
                      | Some sample \<Rightarrow>
                          scale base (if sample < 0 then 0 else if sample > 1 then 1 else sample));
          delay = (if retryAfter > jittered then retryAfter else jittered)
      in capDuration delay)"

section \<open>Lemmas\<close>

lemma Transient_Valid: "Transient c \<Longrightarrow> category_Valid c"
  by (auto simp: Transient_def category_Valid_def)

lemma capDuration_bounds: "0 \<le> capDuration d \<and> capDuration d \<le> MaxDelay"
  by (auto simp: capDuration_def MaxDelay_def duration_units)

lemma capDuration_mono: "d \<le> e \<Longrightarrow> capDuration d \<le> capDuration e"
  by (auto simp: capDuration_def MaxDelay_def duration_units)

lemma capDuration_id: "0 \<le> d \<Longrightarrow> d \<le> MaxDelay \<Longrightarrow> capDuration d = d"
  by (auto simp: capDuration_def)

lemma ParseRetryAfter_bounds:
  "0 \<le> ParseRetryAfter pt value now \<and> ParseRetryAfter pt value now \<le> MaxDelay"
  using capDuration_bounds
  by (auto simp: ParseRetryAfter_def Let_def MaxDelay_def duration_units split: option.splits)

text \<open>The rung of the ladder for a failure count.\<close>

definition rung :: "int \<Rightarrow> duration" where
  "rung n = (if n \<le> 1 then 5 * minute else if n = 2 then 30 * minute else if n = 3 then 2 * hour
             else if n = 4 then 12 * hour else 24 * hour)"

lemma schedule_rung: "scheduleAt n = rung n"
proof -
  have "n \<le> 1 \<or> n = 2 \<or> n = 3 \<or> n = 4 \<or> n = 5 \<or> n \<ge> 6" by arith
  then show ?thesis by (auto simp: scheduleAt_def schedule_def rung_def Let_def)
qed

lemma rung_bounds: "5 * minute \<le> rung n \<and> rung n \<le> MaxDelay"
  by (auto simp: rung_def MaxDelay_def duration_units)

lemma rung_mono: "m \<le> n \<Longrightarrow> rung m \<le> rung n"
  by (auto simp: rung_def duration_units)

lemma Delay_rung: "Delay scale None n retryAfter = min MaxDelay (max (rung n) retryAfter)"
proof -
  have "Delay scale None n retryAfter = capDuration (max (rung n) retryAfter)"
    by (simp add: Delay_def schedule_rung Let_def max_def)
  also have "\<dots> = min MaxDelay (max (rung n) retryAfter)"
    using rung_bounds [of n] by (auto simp: capDuration_def MaxDelay_def duration_units)
  finally show ?thesis .
qed

lemma Delay_bounds: "0 \<le> Delay scale jitter n r \<and> Delay scale jitter n r \<le> MaxDelay"
  by (simp add: Delay_def Let_def capDuration_bounds)

section \<open>Properties\<close>

text \<open>
  The ladder: without jitter (as the production queue runs it) the delay after \<open>n\<close> consecutive
  failures is the documented rung 5m, 30m, 2h, 12h, 24h, 24h, ..., raised to the server's Retry-After and
  cut at 24 hours; and with any jitter source and any float rounding it stays within 0 and 24 hours.
\<close>
theorem Delay_ladder:
  "Delay scale None n retryAfter = min MaxDelay (max (rung n) retryAfter) \<and>
   0 \<le> Delay scale jitter n retryAfter \<and> Delay scale jitter n retryAfter \<le> MaxDelay"
  using Delay_rung Delay_bounds by simp

text \<open>
  Backoff is monotone: more failures or a larger Retry-After never shorten the delay, and a delay is
  never below five minutes.
\<close>
theorem Delay_monotone:
  assumes "m \<le> n" and "r \<le> r'"
  shows "5 * minute \<le> Delay scale None m r \<and> Delay scale None m r \<le> Delay scale None n r'"
  using rung_mono [OF assms(1)] assms(2) rung_bounds [of m] by (auto simp: Delay_rung)

theorem Delay_monotone_witness:
  "(1 :: int) \<le> 3 \<and> (0 :: int) \<le> 7 * hour \<and>
   5 * minute \<le> Delay (\<lambda>d s. d) None 1 0 \<and> Delay (\<lambda>d s. d) None 1 0 \<le> Delay (\<lambda>d s. d) None 3 (7 * hour)"
proof -
  have h: "(1 :: int) \<le> 3" "(0 :: int) \<le> 7 * hour" by (auto simp: duration_units)
  from h Delay_monotone [OF h] show ?thesis by blast
qed

lemma digits_seconds:
  assumes v: "value \<noteq> []" "list_all is_digit value" "int (dec_value value) \<le> max_int64"
  shows "ParseRetryAfter pt value now = min MaxDelay (int (dec_value value) * second)"
proof -
  have head: "hd value \<noteq> CHR ''-''" "hd value \<noteq> CHR ''+''"
    using v by (auto simp: neq_Nil_conv is_digit_def byte_of_def)
  have "ParseInt64 value = Some (int (dec_value value))"
    using v head by (auto simp: ParseInt64_def ParseUint_def Let_def max_int64_def neq_Nil_conv)
  with v show ?thesis
    by (auto simp: ParseRetryAfter_def TrimSpace_digits Let_def MaxDelay_def duration_units)
qed

text \<open>
  Retry-After: the result is always within 0 and 24 hours whatever the header holds, and a decimal
  number of seconds that fits in 64 bits gives exactly that many seconds, cut at 24 hours.
\<close>
theorem ParseRetryAfter_spec:
  "0 \<le> ParseRetryAfter pt value now \<and> ParseRetryAfter pt value now \<le> MaxDelay \<and>
   (value \<noteq> [] \<and> list_all is_digit value \<and> int (dec_value value) \<le> max_int64 \<longrightarrow>
      ParseRetryAfter pt value now = min MaxDelay (int (dec_value value) * second))"
  using ParseRetryAfter_bounds digits_seconds by blast

theorem ParseRetryAfter_spec_witness:
  "ParseRetryAfter (\<lambda>_. None) ''120'' 0 = min MaxDelay (int (dec_value ''120'') * second) \<and>
   dec_value ''120'' = 120"
proof -
  have v: "dec_value ''120'' = 120"
    by (simp add: dec_value_def digit_value_def byte_of_def)
  have "list_all is_digit ''120''"
    by (simp add: is_digit_def byte_of_def)
  with v show ?thesis
    using ParseRetryAfter_spec [of "\<lambda>_. None" "''120''" 0] by (simp add: max_int64_def)
qed

lemma ParseInt64_overflow:
  "list_all is_digit value \<Longrightarrow> max_int64 < int (dec_value value) \<Longrightarrow> ParseInt64 value = None"
  by (cases "value") (auto simp: ParseInt64_def ParseUint_def Let_def max_int64_def is_digit_def byte_of_def)

text \<open>
  C37. A number of seconds beyond 64 bits is not cut at 24 hours: for every string of digits whose value exceeds
  \<open>2^63 - 1\<close>, surrounded by blanks or not, the integer parser rejects it, and since it is no HTTP date either the
  header counts as no delay at all, whereas the greatest number that fits gives 24 hours.
\<close>
theorem ParseRetryAfter_overflow:
  assumes "TrimSpace header = digits" and "list_all is_digit digits"
    and "http_ParseTime digits = None"
  shows "ParseRetryAfter http_ParseTime header now =
     (if int (dec_value digits) > max_int64 then 0 else min MaxDelay (int (dec_value digits) * second))"
proof (cases "digits = []")
  case True
  with assms show ?thesis
    by (simp add: ParseRetryAfter_def dec_value_def max_int64_def MaxDelay_def duration_units)
next
  case False
  have same: "ParseRetryAfter http_ParseTime header now = ParseRetryAfter http_ParseTime digits now"
    using assms by (simp add: ParseRetryAfter_def TrimSpace_digits Let_def)
  show ?thesis
  proof (cases "int (dec_value digits) > max_int64")
    case True
    with assms False show ?thesis
      unfolding same by (simp add: ParseRetryAfter_def TrimSpace_digits ParseInt64_overflow Let_def)
  next
    case below: False
    then show ?thesis
      unfolding same using digits_seconds [OF False assms(2)] by simp
  qed
qed

theorem ParseRetryAfter_overflow_witness:
  "ParseRetryAfter (\<lambda>_. None) '' 9223372036854775808'' 0 = 0 \<and>
   ParseRetryAfter (\<lambda>_. None) '' 9223372036854775807'' 0 = MaxDelay"
proof -
  have trim: "TrimSpace '' 9223372036854775808'' = ''9223372036854775808''"
      "TrimSpace '' 9223372036854775807'' = ''9223372036854775807''" by code_simp+
  have digits: "list_all is_digit ''9223372036854775808''" "list_all is_digit ''9223372036854775807''"
    by (simp_all add: is_digit_def byte_of_def)
  have "dec_value ''9223372036854775808'' = 9223372036854775808" "dec_value ''9223372036854775807'' = 9223372036854775807"
    by (simp_all add: dec_value_def digit_value_def byte_of_def)
  then show ?thesis
    using ParseRetryAfter_overflow [OF trim(1) digits(1), of "\<lambda>_. None" 0]
      ParseRetryAfter_overflow [OF trim(2) digits(2), of "\<lambda>_. None" 0]
    by (simp add: max_int64_def MaxDelay_def duration_units)
qed

text \<open>
  Status classification: exactly 408, 429 and the 5xx statuses are transient, every transient status
  gets a category of the transient set, and every category the classifier returns is a valid one.
\<close>
theorem HTTPStatusCategory_spec:
  "(case HTTPStatusCategory status of (category, transient) \<Rightarrow>
      (transient = (status = 408 \<or> status = 429 \<or> 500 \<le> status \<and> status \<le> 599)) \<and>
      category_Valid category \<and>
      (if transient then Transient category
       else category \<in> {CategoryDeclarationAbsent, CategoryHTTP4xx, CategoryDeclarationUnavailable}))"
  by (auto simp: HTTPStatusCategory_def category_Valid_def Transient_def)

end
