(* ===== verification/Urls.thy ===== *)
theory Urls
  imports Prelude
begin

text \<open>
  The parts of Go's \<^verbatim>\<open>net/url\<close> that the sources read: the fields of a parsed \<^verbatim>\<open>url.URL\<close> and the
  methods \<^verbatim>\<open>Hostname\<close>, \<^verbatim>\<open>Port\<close> and \<^verbatim>\<open>EscapedPath\<close>. Parsing a reference is not fixed here: the models
  that call \<^verbatim>\<open>url.Parse\<close> take it as an argument, and their theorems hold for every such function.
\<close>

text \<open>The userinfo of \<open>u_User\<close> is its encoded text; the sources only test whether it is present.\<close>

record url =
  u_Scheme :: string
  u_User :: "string option"
  u_Host :: string
  u_Path :: string
  u_RawPath :: string
  u_ForceQuery :: bool
  u_RawQuery :: string
  u_Fragment :: string
  u_RawFragment :: string

section \<open>Percent encoding\<close>

text \<open>
  The byte helpers \<^verbatim>\<open>isHex\<close>, \<^verbatim>\<open>hexValue\<close>, \<^verbatim>\<open>isUnreserved\<close> and \<^verbatim>\<open>writePercentEncoded\<close> of
  \<^verbatim>\<open>internal/robots/robots.go\<close>; \<^verbatim>\<open>net/url\<close> escapes and unescapes with the same tables. A shift by four and a
  mask with 15 are a division and a remainder by 16.
\<close>

definition isHex :: "char \<Rightarrow> bool" where
  "isHex c \<longleftrightarrow> in_range 48 57 c \<or> in_range 65 70 c \<or> in_range 97 102 c"

definition hexValue :: "char \<Rightarrow> nat" where
  "hexValue c =
     (if in_range 48 57 c then byte_of c - 48
      else if in_range 65 70 c then byte_of c - 65 + 10
      else byte_of c - 97 + 10)"

definition isUnreserved :: "char \<Rightarrow> bool" where
  "isUnreserved c \<longleftrightarrow>
     in_range 65 90 c \<or> in_range 97 122 c \<or> in_range 48 57 c \<or>
     c = CHR ''-'' \<or> c = CHR ''.'' \<or> c = CHR ''_'' \<or> c = CHR ''~''"

definition hexadecimal :: string where
  "hexadecimal = ''0123456789ABCDEF''"

definition percentEncoded :: "char \<Rightarrow> string" where
  "percentEncoded c = [CHR ''%'', hexadecimal ! (byte_of c div 16), hexadecimal ! (byte_of c mod 16)]"

definition hexOctet :: "char \<Rightarrow> char \<Rightarrow> char" where
  "hexOctet a b = char_of (16 * hexValue a + hexValue b)"

lemma hexValue_less: "isHex c \<Longrightarrow> hexValue c < 16"
  by (auto simp: isHex_def hexValue_def in_range_def)

lemma hexDigits: "list_all (\<lambda>n. isHex (hexadecimal ! n) \<and> hexValue (hexadecimal ! n) = n) [0..<16]"
  by code_simp

lemma hexDigit_cases: "n < 16 \<Longrightarrow> isHex (hexadecimal ! n) \<and> hexValue (hexadecimal ! n) = n"
  using hexDigits by (simp add: list_all_iff)

lemma percentEncoded_octet:
  "isHex (hexadecimal ! (byte_of c div 16)) \<and> isHex (hexadecimal ! (byte_of c mod 16)) \<and>
   hexOctet (hexadecimal ! (byte_of c div 16)) (hexadecimal ! (byte_of c mod 16)) = c"
proof -
  have "byte_of c div 16 < 16" and "byte_of c mod 16 < 16"
    using byte_of_less [of c] by auto
  then show ?thesis by (simp add: hexDigit_cases hexOctet_def)
qed

section \<open>The methods of a URL\<close>

text \<open>\<^verbatim>\<open>shouldEscape(c, encodePath)\<close>.\<close>

definition shouldEscapePath :: "char \<Rightarrow> bool" where
  "shouldEscapePath c =
     (if isUnreserved c then False
      else if c \<in> set ''$&+,/:;=?@'' then c = CHR ''?''
      else True)"

definition validEncodedPath :: "string \<Rightarrow> bool" where
  "validEncodedPath s \<longleftrightarrow>
     list_all (\<lambda>c. c \<in> set ''!$&()*+,;=:@[]%'' \<or> c = CHR 0x27 \<or> \<not> shouldEscapePath c) s"

fun unescapePath :: "string \<Rightarrow> string option" where
  "unescapePath [] = Some []"
| "unescapePath (c # s) =
     (if c = CHR ''%'' then
        (case s of
           a # b # r \<Rightarrow>
             if isHex a \<and> isHex b then map_option (\<lambda>t. hexOctet a b # t) (unescapePath r) else None
         | _ \<Rightarrow> None)
      else map_option (\<lambda>t. c # t) (unescapePath s))"

definition escapePath :: "string \<Rightarrow> string" where
  "escapePath s = concat (map (\<lambda>c. if shouldEscapePath c then percentEncoded c else [c]) s)"

definition EscapedPath :: "url \<Rightarrow> string" where
  "EscapedPath u =
     (if u_RawPath u \<noteq> [] \<and> validEncodedPath (u_RawPath u) \<and>
         unescapePath (u_RawPath u) = Some (u_Path u)
      then u_RawPath u
      else if u_Path u = ''*'' then ''*''
      else escapePath (u_Path u))"

text \<open>\<^verbatim>\<open>splitHostPort\<close>: the port after the last colon when it is a valid optional port.\<close>

definition validOptionalPort :: "string \<Rightarrow> bool" where
  "validOptionalPort port =
     (case port of [] \<Rightarrow> True | c # r \<Rightarrow> c = CHR '':'' \<and> list_all is_digit r)"

definition splitHostPort :: "string \<Rightarrow> string \<times> string" where
  "splitHostPort hostPort =
     (let tail = takeWhile (\<lambda>c. c \<noteq> CHR '':'') (rev hostPort);
          n = length hostPort - length tail;
          colon = n \<noteq> 0;
          split = colon \<and> validOptionalPort (drop (n - 1) hostPort);
          host = (if split then take (n - 1) hostPort else hostPort);
          port = (if split then drop n hostPort else [])
      in (if HasPrefix host ''['' \<and> HasSuffix host '']''
          then (butlast (tl host), port) else (host, port)))"

definition Hostname :: "url \<Rightarrow> string" where
  "Hostname u = fst (splitHostPort (u_Host u))"

definition Port :: "url \<Rightarrow> string" where
  "Port u = snd (splitHostPort (u_Host u))"

lemma Port_digits: "list_all is_digit (Port u)"
proof -
  let ?h = "u_Host u"
  let ?n = "length ?h - length (takeWhile (\<lambda>c. c \<noteq> CHR '':'') (rev ?h))"
  show ?thesis
  proof (cases "?n \<noteq> 0 \<and> validOptionalPort (drop (?n - 1) ?h)")
    case True
    then have n: "?n - 1 < length ?h" and nz: "Suc (?n - 1) = ?n" by auto
    then have "drop (?n - 1) ?h = ?h ! (?n - 1) # drop ?n ?h"
      by (metis Cons_nth_drop_Suc)
    with True have "list_all is_digit (drop ?n ?h)"
      by (simp add: validOptionalPort_def)
    with True show ?thesis
      by (simp add: Port_def splitHostPort_def Let_def)
  next
    case False
    then show ?thesis by (auto simp: Port_def splitHostPort_def Let_def)
  qed
qed

end
