(* ===== verification/Addresses.thy ===== *)
theory Addresses
  imports Prelude "HOL-Library.Product_Lexorder"
begin

unbundle bit_operations_syntax

text \<open>
  IP addresses as Go's \<^verbatim>\<open>net/netip\<close> has them: the invalid zero value, an IPv4 address of 32 bits, and
  an IPv6 address of 128 bits with an optional zone; prefixes and their membership test; and the total
  order \<^verbatim>\<open>Addr.Compare\<close>, as an instance of the library's class \<open>linorder\<close>.
\<close>

datatype addr = AddrInvalid | Addr4 "32 word" | Addr6 "128 word" string

fun IsValid :: "addr \<Rightarrow> bool" where
  "IsValid AddrInvalid = False"
| "IsValid _ = True"

fun Is4 :: "addr \<Rightarrow> bool" where
  "Is4 (Addr4 _) = True"
| "Is4 _ = False"

fun Is6 :: "addr \<Rightarrow> bool" where
  "Is6 (Addr6 _ _) = True"
| "Is6 _ = False"

fun Zone :: "addr \<Rightarrow> string" where
  "Zone (Addr6 _ z) = z"
| "Zone _ = []"

text \<open>\<^verbatim>\<open>Unmap\<close> turns an IPv4-mapped IPv6 address (\<open>::ffff:0:0/96\<close>) into its IPv4 address.\<close>

definition Is4In6 :: "128 word \<Rightarrow> bool" where
  "Is4In6 w \<longleftrightarrow> drop_bit 32 w = 65535"

fun Unmap :: "addr \<Rightarrow> addr" where
  "Unmap (Addr6 w z) = (if Is4In6 w then Addr4 (ucast w) else Addr6 w z)"
| "Unmap a = a"

definition map4 :: "32 word \<Rightarrow> 128 word" where
  "map4 a = push_bit 32 65535 + ucast a"

datatype ip_prefix = Prefix4 "32 word" nat | Prefix6 "128 word" nat

fun Contains :: "ip_prefix \<Rightarrow> addr \<Rightarrow> bool" where
  "Contains (Prefix4 p n) (Addr4 a) = (drop_bit (32 - n) (a XOR p) = 0)"
| "Contains (Prefix6 p n) (Addr6 a z) = (z = [] \<and> drop_bit (128 - n) (a XOR p) = 0)"
| "Contains _ _ = False"

text \<open>The value of a dotted quad and of the leading groups of an IPv6 address, as numbers.\<close>

definition quad :: "nat \<Rightarrow> nat \<Rightarrow> nat \<Rightarrow> nat \<Rightarrow> nat" where
  "quad a b c d = ((a * 256 + b) * 256 + c) * 256 + d"

definition groups6 :: "nat list \<Rightarrow> nat" where
  "groups6 gs = foldl (\<lambda>n g. n * 65536 + g) 0 gs * 65536 ^ (8 - length gs)"

definition prefix4 :: "nat \<Rightarrow> nat \<Rightarrow> nat \<Rightarrow> nat \<Rightarrow> nat \<Rightarrow> ip_prefix" where
  "prefix4 a b c d n = Prefix4 (word_of_nat (quad a b c d)) n"

definition prefix6 :: "nat list \<Rightarrow> nat \<Rightarrow> ip_prefix" where
  "prefix6 gs n = Prefix6 (word_of_nat (groups6 gs)) n"

section \<open>Prefixes as intervals\<close>

lemma drop_bit_xor_zero:
  fixes a p :: "'a :: len word"
  shows "drop_bit k a XOR drop_bit k p = 0 \<longleftrightarrow> unat a div 2 ^ k = unat p div 2 ^ k"
proof -
  have "drop_bit k a XOR drop_bit k p = 0 \<longleftrightarrow> drop_bit k a = drop_bit k p"
    unfolding bit_eq_iff [of _ 0] bit_eq_iff [of "drop_bit k a"] by (auto simp: bit_xor_iff)
  also have "\<dots> \<longleftrightarrow> unat (drop_bit k a) = unat (drop_bit k p)"
    by (simp add: word_unat_eq_iff)
  also have "\<dots> \<longleftrightarrow> unat a div 2 ^ k = unat p div 2 ^ k"
    unfolding unat_drop_bit_eq drop_bit_nat_def ..
  finally show ?thesis .
qed

lemma div_eq_interval:
  fixes n p d :: nat
  assumes "0 < d" and "d dvd p"
  shows "n div d = p div d \<longleftrightarrow> p \<le> n \<and> n < p + d"
proof -
  from assms(2) obtain q where p: "p = d * q" by (elim dvdE)
  have "n div d = q \<longleftrightarrow> d * q \<le> n \<and> n < d * q + d"
    using assms(1) div_nat_eqI [of d q n] times_div_less_eq_dividend [of d n]
      dividend_less_times_div [of d n]
    by (auto simp: mult.commute)
  with p assms(1) show ?thesis by simp
qed

lemma Contains_prefix4:
  assumes "quad a b c d < 2 ^ 32" and "2 ^ (32 - n) dvd quad a b c d"
  shows "Contains (prefix4 a b c d n) (Addr4 w) \<longleftrightarrow>
         quad a b c d \<le> unat w \<and> unat w < quad a b c d + 2 ^ (32 - n)"
proof -
  have "unat (word_of_nat (quad a b c d) :: 32 word) = quad a b c d"
    using assms(1) by (simp add: unat_of_nat take_bit_eq_mod)
  then show ?thesis
    using div_eq_interval [OF _ assms(2), of "unat w"]
    by (simp add: prefix4_def drop_bit_xor_zero)
qed

lemma Contains_prefix6:
  assumes "groups6 gs < 2 ^ 128" and "2 ^ (128 - n) dvd groups6 gs"
  shows "Contains (prefix6 gs n) (Addr6 w []) \<longleftrightarrow>
         groups6 gs \<le> unat w \<and> unat w < groups6 gs + 2 ^ (128 - n)"
proof -
  have "unat (word_of_nat (groups6 gs) :: 128 word) = groups6 gs"
    using assms(1) by (simp add: unat_of_nat take_bit_eq_mod)
  then show ?thesis
    using div_eq_interval [OF _ assms(2), of "unat w"]
    by (simp add: prefix6_def drop_bit_xor_zero)
qed

lemma unat_map4: "unat (map4 a) = 65535 * 2 ^ 32 + unat a"
proof -
  have a: "unat a < 2 ^ 32" using unsigned_less [of a, where ?'a = nat] by simp
  have p: "unat (push_bit 32 (65535 :: 128 word)) = 65535 * 2 ^ 32" by simp
  have "unat (ucast a :: 128 word) = unat a" using a by (simp add: unsigned_ucast_eq take_bit_nat_eq_self)
  with a p show ?thesis
    unfolding map4_def by (subst unat_add_lem [THEN iffD1]) auto
qed

lemma Unmap_map4 [simp]: "Unmap (Addr6 (map4 a) z) = Addr4 a"
proof -
  have a: "unat a < 2 ^ 32" using unsigned_less [of a, where ?'a = nat] by simp
  have "unat (drop_bit 32 (map4 a)) = 65535"
    unfolding unat_drop_bit_eq drop_bit_nat_def unat_map4 using a by simp
  then have m: "Is4In6 (map4 a)"
    by (simp add: Is4In6_def word_unat_eq_iff)
  have "unat (ucast (map4 a) :: 32 word) = unat (map4 a) mod 2 ^ 32"
    by (simp add: unsigned_ucast_eq take_bit_eq_mod)
  also have "\<dots> = unat a"
    unfolding unat_map4 using a by (metis mod_less mod_mult_self3)
  finally show ?thesis using m by (simp add: word_unat_eq_iff)
qed

lemma Unmap_Unmap [simp]: "Unmap (Unmap a) = Unmap a"
  by (cases a) auto

section \<open>The order\<close>

text \<open>\<^verbatim>\<open>Addr.Compare\<close>: by bit length (0, 32, 128), then by value, then by zone.\<close>

fun addr_key :: "addr \<Rightarrow> nat \<times> nat \<times> string" where
  "addr_key AddrInvalid = (0, 0, [])"
| "addr_key (Addr4 a) = (32, unat a, [])"
| "addr_key (Addr6 a z) = (128, unat a, z)"

lemma addr_key_inject: "addr_key a = addr_key b \<Longrightarrow> a = b"
  by (cases a; cases b) (auto simp: word_unat_eq_iff)

instantiation addr :: linorder
begin

definition less_eq_addr :: "addr \<Rightarrow> addr \<Rightarrow> bool" where
  "less_eq_addr a b \<longleftrightarrow> addr_key a \<le> addr_key b"

definition less_addr :: "addr \<Rightarrow> addr \<Rightarrow> bool" where
  "less_addr a b \<longleftrightarrow> addr_key a < addr_key b"

instance
  by standard (auto simp: less_eq_addr_def less_addr_def intro: addr_key_inject)

end

end
