(* ===== verification/Origin.thy ===== *)
theory Origin
  imports Urls Addresses
begin

text \<open>
  The canonical web origin of \<^verbatim>\<open>internal/origin/origin.go\<close>: how \<^verbatim>\<open>Parse\<close> derives it from a URL, when two
  origins are the same, and when parsing a serialization gives the origin back.

  \<^verbatim>\<open>url.Parse\<close>, \<^verbatim>\<open>URL.Parse\<close> (a reference against a base), \<^verbatim>\<open>URL.String\<close>, \<^verbatim>\<open>netip.ParseAddr\<close>, \<^verbatim>\<open>netip.Addr.String\<close> and the IDNA profile's \<^verbatim>\<open>ToASCII\<close> are the fields
  of a record \<open>host_lib\<close>, which every operation takes; \<open>address_text\<close>, \<open>address_law\<close>, \<open>url_law\<close> and \<open>idna_law\<close> name
  what their documentation promises, where a theorem relies on it.
\<close>

record host_lib =
  url_Parse :: "string \<Rightarrow> go_error + url"
  url_ParseRef :: "url \<Rightarrow> string \<Rightarrow> go_error + url"
  url_String :: "url \<Rightarrow> string"
  ParseAddr :: "string \<Rightarrow> go_error + addr"
  addr_String :: "addr \<Rightarrow> string"
  ToASCII :: "string \<Rightarrow> go_error + string"

record origin =
  serialization :: string
  hostname :: string
  port :: "16 word"

definition origin_zero :: origin where
  "origin_zero = \<lparr>serialization = [], hostname = [], port = 0\<rparr>"

section \<open>The host checks\<close>

text \<open>
  \<^verbatim>\<open>endsInNumberPattern\<close>: after one optional trailing dot, the last label is a decimal number or starts
  with \<open>0x\<close> and continues in hexadecimal digits.
\<close>

definition numberLabel :: "string \<Rightarrow> bool" where
  "numberLabel l \<longleftrightarrow>
     l \<noteq> [] \<and> list_all is_digit l \<or>
     (case l of a # b # r \<Rightarrow> a = CHR ''0'' \<and> (b = CHR ''x'' \<or> b = CHR ''X'') \<and> list_all isHex r
      | _ \<Rightarrow> False)"

definition endsInNumberPattern :: "string \<Rightarrow> bool" where
  "endsInNumberPattern s = numberLabel (last (Split (TrimSuffix s ''.'') CHR ''.''))"

definition forbiddenDomainByte :: "char \<Rightarrow> bool" where
  "forbiddenDomainByte c \<longleftrightarrow>
     byte_of c \<le> 32 \<or> byte_of c = 127 \<or> c \<in> set ''#%/:<>?@[]^|'' \<or> byte_of c = 92"

definition hasForbiddenDomainCodePoint :: "string \<Rightarrow> bool" where
  "hasForbiddenDomainCodePoint s = list_ex forbiddenDomainByte s"

section \<open>Parse\<close>

abbreviation originError :: "string \<Rightarrow> go_error" where
  "originError m \<equiv> Sentinel (''origin: '' @ m)"

text \<open>The host part of \<^verbatim>\<open>Parse\<close>: the canonical hostname and the host as it is serialized.\<close>

definition parseDomain :: "host_lib \<Rightarrow> string \<Rightarrow> go_error + (string \<times> string)" where
  "parseDomain lib host =
     (case ToASCII lib host of
        Inl _ \<Rightarrow> Inl (originError ''invalid host'')
      | Inr asciiHost \<Rightarrow>
          if asciiHost = [] \<or> ToASCII lib asciiHost \<noteq> Inr asciiHost \<or>
             hasForbiddenDomainCodePoint asciiHost
          then Inl (originError ''invalid host'')
          else if endsInNumberPattern asciiHost
          then Inl (originError ''nonstandard numeric IPv4 form'')
          else if HasSuffix asciiHost ''.''
          then (let stripped = TrimSuffix asciiHost ''.''
                in if stripped = [] \<or> HasSuffix stripped ''.''
                   then Inl (originError ''invalid host'') else Inr (stripped, stripped))
          else Inr (asciiHost, asciiHost))"

definition parseHost :: "host_lib \<Rightarrow> string \<Rightarrow> go_error + (string \<times> string)" where
  "parseHost lib host =
     (case ParseAddr lib host of
        Inr address \<Rightarrow>
          if Zone address \<noteq> []
          then Inl (originError ''IPv6 zone identifiers are not allowed'')
          else (let canonical = addr_String lib address
                in Inr (canonical,
                        if Is6 address then ''['' @ canonical @ '']'' else canonical))
      | Inl _ \<Rightarrow> parseDomain lib host)"

text \<open>The port part of \<^verbatim>\<open>Parse\<close>: the effective port and the suffix of the serialized host.\<close>

definition defaultPortOf :: "string \<Rightarrow> 16 word" where
  "defaultPortOf scheme = (if scheme = ''http'' then 80 else 443)"

definition parsePort :: "string \<Rightarrow> string \<Rightarrow> go_error + (16 word \<times> string)" where
  "parsePort scheme p =
     (if p = [] then Inr (defaultPortOf scheme, [])
      else (case ParseUint 16 p of
              None \<Rightarrow> Inl (originError ''invalid port'')
            | Some portNumber \<Rightarrow>
                (let effectivePort = word_of_nat portNumber :: 16 word;
                     defaultPort = (scheme = ''http'' \<and> effectivePort = 80 \<or>
                                    scheme = ''https'' \<and> effectivePort = 443)
                 in Inr (effectivePort,
                         if defaultPort then [] else '':'' @ FormatUint portNumber))))"

definition Parse :: "host_lib \<Rightarrow> string \<Rightarrow> go_error + origin" where
  "Parse lib rawURL =
     (case url_Parse lib rawURL of
        Inl _ \<Rightarrow> Inl (originError ''invalid URL'')
      | Inr parsed \<Rightarrow>
          if u_Scheme parsed \<noteq> ''http'' \<and> u_Scheme parsed \<noteq> ''https''
          then Inl (originError ''unsupported scheme'')
          else if u_User parsed \<noteq> None then Inl (originError ''credentials are not allowed'')
          else if Hostname parsed = [] then Inl (originError ''missing host'')
          else (case parseHost lib (Hostname parsed) of
                  Inl e \<Rightarrow> Inl e
                | Inr (canonicalHostname, serializationHost) \<Rightarrow>
                    (case parsePort (u_Scheme parsed) (Port parsed) of
                       Inl e \<Rightarrow> Inl e
                     | Inr (effectivePort, portSuffix) \<Rightarrow>
                         Inr \<lparr>serialization = u_Scheme parsed @ ''://'' @ serializationHost @ portSuffix,
                              hostname = canonicalHostname, port = effectivePort\<rparr>)))"

definition origin_String :: "origin \<Rightarrow> string" where
  "origin_String o1 = serialization o1"

definition origin_Hostname :: "origin \<Rightarrow> string" where
  "origin_Hostname o1 = hostname o1"

definition origin_Port :: "origin \<Rightarrow> 16 word" where
  "origin_Port o1 = port o1"

section \<open>The shape of a parsed origin\<close>

text \<open>\<^verbatim>\<open>Addr.String\<close> of an IPv4 address is in dotted decimal form.\<close>

definition address_text :: "host_lib \<Rightarrow> bool" where
  "address_text lib \<longleftrightarrow>
     (\<forall>s a. ParseAddr lib s = Inr a \<longrightarrow> \<not> Is6 a \<longrightarrow>
        list_all (\<lambda>c. is_digit c \<or> c = CHR ''.'') (addr_String lib a))"

definition portSuffix :: "string \<Rightarrow> 16 word \<Rightarrow> string" where
  "portSuffix scheme n = (if n = defaultPortOf scheme then [] else '':'' @ FormatUint (unat n))"

definition plainHost :: "string \<Rightarrow> bool" where
  "plainHost h \<longleftrightarrow> CHR '':'' \<notin> set h \<and> CHR ''['' \<notin> set h \<and> CHR '']'' \<notin> set h"

definition hostText :: "string \<Rightarrow> string \<Rightarrow> bool" where
  "hostText h sh \<longleftrightarrow> sh = ''['' @ h @ '']'' \<or> sh = h \<and> plainHost h"

lemma parsePort_form:
  assumes "scheme \<in> {''http'', ''https''}" and "parsePort scheme p = Inr (n, suf)"
  shows "suf = portSuffix scheme n"
proof (cases "p = []")
  case True
  with assms(2) show ?thesis by (auto simp: parsePort_def portSuffix_def)
next
  case False
  with assms(2) obtain k where k: "ParseUint 16 p = Some k"
    by (auto simp: parsePort_def split: option.splits)
  then have "k < 2 ^ 16" by (rule ParseUint_bound)
  then have "unat (word_of_nat k :: 16 word) = k"
    by (simp add: unat_of_nat take_bit_eq_mod)
  with False k assms show ?thesis
    by (auto simp: parsePort_def portSuffix_def defaultPortOf_def Let_def split: if_splits)
qed

lemma forbidden_plainHost: "\<not> hasForbiddenDomainCodePoint h \<Longrightarrow> plainHost h"
  by (auto simp: hasForbiddenDomainCodePoint_def plainHost_def list_ex_iff forbiddenDomainByte_def)

lemma digits_plainHost: "list_all (\<lambda>c. is_digit c \<or> c = CHR ''.'') h \<Longrightarrow> plainHost h"
  by (auto simp: plainHost_def list_all_iff is_digit_def byte_of_def)

lemma set_TrimSuffix: "set (TrimSuffix s t) \<subseteq> set s"
  by (auto simp: TrimSuffix_def dest: in_set_takeD)

lemma parseDomain_form:
  assumes "parseDomain lib host = Inr (h, sh)"
  obtains a where "ToASCII lib host = Inr a" "ToASCII lib a = Inr a" "\<not> hasForbiddenDomainCodePoint h"
    "\<not> endsInNumberPattern a" "h = TrimSuffix a ''.''" "sh = h" "h \<noteq> []" "\<not> HasSuffix h ''.''"
proof -
  from assms obtain a where a: "ToASCII lib host = Inr a" "ToASCII lib a = Inr a" "a \<noteq> []"
      "\<not> hasForbiddenDomainCodePoint a" "\<not> endsInNumberPattern a"
    by (auto simp: parseDomain_def split: sum.splits if_splits)
  with assms have h: "h = TrimSuffix a ''.'' \<and> sh = h \<and> h \<noteq> [] \<and> \<not> HasSuffix h ''.''"
    by (auto simp: parseDomain_def Let_def TrimSuffix_def split: if_splits)
  moreover from a(4) have "\<not> hasForbiddenDomainCodePoint (TrimSuffix a ''.'')"
    using set_TrimSuffix [of a "''.''"] by (auto simp: hasForbiddenDomainCodePoint_def list_ex_iff)
  ultimately show thesis using a that by metis
qed

lemma parseHost_form:
  assumes "address_text lib" and "parseHost lib host = Inr (h, sh)"
  shows "hostText h sh"
proof (cases "ParseAddr lib host")
  case (Inl e)
  with assms(2) have "parseDomain lib host = Inr (h, sh)" by (simp add: parseHost_def)
  then show ?thesis
    by (elim parseDomain_form) (simp add: hostText_def forbidden_plainHost)
next
  case (Inr a)
  with assms show ?thesis
    by (auto simp: parseHost_def hostText_def address_text_def Let_def digits_plainHost split: if_splits)
qed

lemma Parse_form:
  assumes "Parse lib raw = Inr o1"
  obtains u sh where "url_Parse lib raw = Inr u" "u_Scheme u \<in> {''http'', ''https''}"
    "parseHost lib (Hostname u) = Inr (hostname o1, sh)" "Hostname u \<noteq> []"
    "serialization o1 = u_Scheme u @ ''://'' @ sh @ portSuffix (u_Scheme u) (port o1)"
proof -
  from assms obtain u where u: "url_Parse lib raw = Inr u" "u_Scheme u \<in> {''http'', ''https''}"
      "Hostname u \<noteq> []"
    by (auto simp: Parse_def split: sum.splits if_splits)
  with assms obtain h sh n suf where "parseHost lib (Hostname u) = Inr (h, sh)"
      and p: "parsePort (u_Scheme u) (Port u) = Inr (n, suf)"
      and "o1 = \<lparr>serialization = u_Scheme u @ ''://'' @ sh @ suf, hostname = h, port = n\<rparr>"
    by (auto simp: Parse_def split: sum.splits if_splits prod.splits)
  with parsePort_form [OF u(2) p] u that show thesis by simp
qed

section \<open>Serializations identify origins\<close>

lemma portSuffix_set: "set (portSuffix scheme n) \<subseteq> insert CHR '':'' (Collect is_digit)"
  using FormatUint_digits [of "unat n"] by (auto simp: portSuffix_def list_all_iff)

lemma portSuffix_inject: "portSuffix scheme n = portSuffix scheme m \<Longrightarrow> n = m"
proof -
  assume eq: "portSuffix scheme n = portSuffix scheme m"
  have "FormatUint (unat n) = FormatUint (unat m) \<Longrightarrow> n = m"
    by (metis dec_value_FormatUint word_unat_eq_iff)
  with eq show ?thesis by (auto simp: portSuffix_def split: if_splits)
qed

lemma last_split_unique:
  assumes "xs @ c # ys = xs' @ c # ys'" and "c \<notin> set ys" and "c \<notin> set ys'"
  shows "xs = xs' \<and> ys = ys'"
proof -
  from assms(1) have "rev ys @ c # rev xs = rev ys' @ c # rev xs'"
    by (metis append.assoc append_Cons append_Nil rev.simps(2) rev_append)
  moreover have "takeWhile (\<lambda>d. d \<noteq> c) (rev zs @ c # ws) = rev zs" if "c \<notin> set zs" for zs ws
    using that by (subst takeWhile_append2) auto
  ultimately have "rev ys = rev ys'" using assms(2,3) by metis
  then show ?thesis using assms(1) by auto
qed

lemma hostText_unique:
  assumes "hostText h1 sh1" and "hostText h2 sh2"
    and "sh1 @ portSuffix scheme n1 = sh2 @ portSuffix scheme n2"
  shows "h1 = h2 \<and> portSuffix scheme n1 = portSuffix scheme n2"
proof -
  let ?p1 = "portSuffix scheme n1" and ?p2 = "portSuffix scheme n2"
  have hd: "zs = [] \<or> hd zs = CHR '':''" if "zs \<in> {?p1, ?p2}" for zs
    using that by (auto simp: portSuffix_def split: if_splits)
  have rb: "CHR '']'' \<notin> set ?p1" "CHR '']'' \<notin> set ?p2"
    using portSuffix_set [of scheme n1] portSuffix_set [of scheme n2]
    by (auto simp: is_digit_def byte_of_def)
  have no_open: "xs @ p \<noteq> CHR ''['' # ys" if "plainHost xs" "p \<in> {?p1, ?p2}" for xs p ys
    using that hd [OF that(2)] by (cases xs; cases p) (auto simp: plainHost_def)
  have tw: "takeWhile (\<lambda>c. c \<noteq> CHR '':'') (xs @ p) = xs" if "plainHost xs" "p \<in> {?p1, ?p2}" for xs p
  proof (cases p)
    case (Cons c r)
    with hd [OF that(2)] that(1) show ?thesis
      by (subst takeWhile_append2) (auto simp: plainHost_def)
  qed (use that(1) in \<open>auto simp: plainHost_def takeWhile_eq_all_conv\<close>)
  have mixed: "\<not> (sh1 = ''['' @ h1 @ '']'' \<and> sh2 = h2 \<and> plainHost h2)"
    "\<not> (sh2 = ''['' @ h2 @ '']'' \<and> sh1 = h1 \<and> plainHost h1)"
    using assms(3) no_open [of h2 ?p2 "h1 @ CHR '']'' # ?p1"] no_open [of h1 ?p1 "h2 @ CHR '']'' # ?p2"]
    by auto
  consider (both) "sh1 = ''['' @ h1 @ '']''" "sh2 = ''['' @ h2 @ '']''"
    | (plain) "sh1 = h1" "plainHost h1" "sh2 = h2" "plainHost h2"
    using assms(1,2) mixed unfolding hostText_def by blast
  then show ?thesis
  proof cases
    case both
    with assms(3) have "h1 @ CHR '']'' # ?p1 = h2 @ CHR '']'' # ?p2" by simp
    from last_split_unique [OF this rb] show ?thesis .
  next
    case plain
    with assms(3) have "h1 = h2" using tw by (metis insertCI)
    with plain assms(3) show ?thesis by simp
  qed
qed

lemma scheme_unique:
  assumes "s1 \<in> {''http'', ''https''}" and "s2 \<in> {''http'', ''https''}"
    and "s1 @ ''://'' @ r1 = s2 @ ''://'' @ r2"
  shows "s1 = s2 \<and> r1 = r2"
  using assms by auto

lemma serialization_inject:
  assumes "address_text lib" and "Parse lib raw1 = Inr o1" and "Parse lib raw2 = Inr o2"
    and "serialization o1 = serialization o2"
  shows "o1 = o2"
proof -
  from assms(2) obtain u1 sh1 where 1: "u_Scheme u1 \<in> {''http'', ''https''}"
      "parseHost lib (Hostname u1) = Inr (hostname o1, sh1)"
      "serialization o1 = u_Scheme u1 @ ''://'' @ sh1 @ portSuffix (u_Scheme u1) (port o1)"
    by (rule Parse_form)
  from assms(3) obtain u2 sh2 where 2: "u_Scheme u2 \<in> {''http'', ''https''}"
      "parseHost lib (Hostname u2) = Inr (hostname o2, sh2)"
      "serialization o2 = u_Scheme u2 @ ''://'' @ sh2 @ portSuffix (u_Scheme u2) (port o2)"
    by (rule Parse_form)
  from assms(4) 1(3) 2(3)
  have "u_Scheme u1 @ ''://'' @ sh1 @ portSuffix (u_Scheme u1) (port o1) =
        u_Scheme u2 @ ''://'' @ sh2 @ portSuffix (u_Scheme u2) (port o2)" by metis
  from scheme_unique [OF 1(1) 2(1) this]
  have r: "sh1 @ portSuffix (u_Scheme u1) (port o1) = sh2 @ portSuffix (u_Scheme u1) (port o2)"
    by metis
  from hostText_unique [OF parseHost_form [OF assms(1) 1(2)] parseHost_form [OF assms(1) 2(2)] r]
  have "hostname o1 = hostname o2 \<and> port o1 = port o2"
    using portSuffix_inject by blast
  with assms(4) show ?thesis by (auto intro: origin.equality)
qed

section \<open>Parsing a serialization\<close>

text \<open>
  What the libraries promise: \<^verbatim>\<open>url.Parse\<close> finds the authority of \<open>scheme://authority\<close> when the host is
  made of bytes it accepts (\<open>urlHostByte\<close>), in brackets only when it is an IPv6 address, and rejects a host
  with a brace or a backquote, which the forbidden set of \<^verbatim>\<open>origin.go\<close> lets through; the text of an address
  without a zone parses to the address and is made of hexadecimal digits, colons and dots, and only dotted
  or colon forms parse; and the profile works label by label, so that a stable name stays stable without
  its trailing dot.
\<close>

definition unusualHostByte :: "char \<Rightarrow> bool" where
  "unusualHostByte c \<longleftrightarrow> byte_of c \<in> {96, 123, 125}"

definition urlHostByte :: "char \<Rightarrow> bool" where
  "urlHostByte c \<longleftrightarrow> c = CHR '':'' \<or> \<not> forbiddenDomainByte c \<and> \<not> unusualHostByte c"

definition url_law :: "host_lib \<Rightarrow> bool" where
  "url_law lib \<longleftrightarrow>
     (\<forall>scheme h sh n. scheme \<in> {''http'', ''https''} \<longrightarrow> h \<noteq> [] \<longrightarrow> hostText h sh \<longrightarrow>
        (list_all urlHostByte h \<and> (sh \<noteq> h \<longrightarrow> (\<exists>a. ParseAddr lib h = Inr a \<and> Is6 a \<and> Zone a = [])) \<longrightarrow>
          (\<exists>u. url_Parse lib (scheme @ ''://'' @ sh @ portSuffix scheme n) = Inr u \<and>
               u_Scheme u = scheme \<and> u_User u = None \<and> u_Host u = sh @ portSuffix scheme n)) \<and>
        (list_ex unusualHostByte h \<longrightarrow>
          (\<exists>e. url_Parse lib (scheme @ ''://'' @ sh @ portSuffix scheme n) = Inl e)))"

definition address_law :: "host_lib \<Rightarrow> bool" where
  "address_law lib \<longleftrightarrow>
     (\<forall>s a. ParseAddr lib s = Inr a \<longrightarrow> CHR '':'' \<in> set s \<or> endsInNumberPattern s) \<and>
     (\<forall>s a. ParseAddr lib s = Inr a \<longrightarrow> Zone a = [] \<longrightarrow>
        ParseAddr lib (addr_String lib a) = Inr a \<and>
        list_all (\<lambda>c. isHex c \<or> c = CHR '':'' \<or> c = CHR ''.'') (addr_String lib a))"

definition idna_law :: "host_lib \<Rightarrow> bool" where
  "idna_law lib \<longleftrightarrow>
     (\<forall>h. ToASCII lib (h @ ''.'') = Inr (h @ ''.'') \<longrightarrow> ToASCII lib h = Inr h)"

lemma rev_takeWhile_last:
  "c \<notin> set ys \<Longrightarrow> takeWhile (\<lambda>d. d \<noteq> c) (rev (xs @ c # ys)) = rev ys"
  by (simp only: rev_append rev.simps append.assoc append_Cons append_Nil, subst takeWhile_append2) auto

definition unbracket :: "string \<Rightarrow> string" where
  "unbracket h = (if HasPrefix h ''['' \<and> HasSuffix h '']'' then butlast (tl h) else h)"

lemma unbracket_hostText: "hostText h sh \<Longrightarrow> unbracket sh = h"
proof -
  have "\<not> HasPrefix h ''[''" if "plainHost h"
    using that by (cases h) (auto simp: HasPrefix_def plainHost_def)
  moreover have "HasPrefix (''['' @ h @ '']'') ''[''" "HasSuffix (''['' @ h @ '']'') '']''"
    using HasSuffix_append [of "''['' @ h" "'']''"] by (simp_all add: HasPrefix_def)
  ultimately show "hostText h sh \<Longrightarrow> unbracket sh = h"
    by (auto simp: hostText_def unbracket_def)
qed

lemma splitHostPort_port:
  assumes "list_all is_digit ds"
  shows "splitHostPort (h @ CHR '':'' # ds) = (unbracket h, ds)"
proof -
  have "CHR '':'' \<notin> set ds" using assms by (auto simp: list_all_iff is_digit_def byte_of_def)
  then have "takeWhile (\<lambda>d. d \<noteq> CHR '':'') (rev (h @ CHR '':'' # ds)) = rev ds"
    by (rule rev_takeWhile_last)
  with assms show ?thesis
    by (simp add: splitHostPort_def Let_def validOptionalPort_def unbracket_def)
qed

lemma splitHostPort_plain: "CHR '':'' \<notin> set h \<Longrightarrow> splitHostPort h = (unbracket h, [])"
proof -
  assume "CHR '':'' \<notin> set h"
  then have tw: "takeWhile (\<lambda>c. c \<noteq> CHR '':'') (rev h) = rev h"
    by (auto simp: takeWhile_eq_all_conv)
  show ?thesis by (simp add: splitHostPort_def Let_def unbracket_def tw)
qed

lemma splitHostPort_bracket: "splitHostPort (''['' @ h @ '']'') = (h, [])"
proof -
  let ?s = "''['' @ h @ '']''"
  let ?n = "length ?s - length (takeWhile (\<lambda>d. d \<noteq> CHR '':'') (rev ?s))"
  have last: "last (drop k ?s) = CHR '']''" if "k < length ?s" for k
    using that by (simp add: last_drop)
  have "\<not> validOptionalPort (drop (?n - 1) ?s)" if "?n \<noteq> 0"
  proof
    have k: "?n - 1 < length ?s" by simp
    assume "validOptionalPort (drop (?n - 1) ?s)"
    then have "set (drop (?n - 1) ?s) \<subseteq> insert CHR '':'' (Collect is_digit)"
      by (auto simp: validOptionalPort_def list_all_iff split: list.splits)
    moreover have "CHR '']'' \<in> set (drop (?n - 1) ?s)"
      using last [OF k] last_in_set [of "drop (?n - 1) ?s"] k by (metis drop_eq_Nil leD)
    ultimately show False by (auto simp: is_digit_def byte_of_def)
  qed
  then have "splitHostPort ?s = (unbracket ?s, [])"
    unfolding splitHostPort_def Let_def unbracket_def by auto
  also have "unbracket ?s = h" by (rule unbracket_hostText) (simp add: hostText_def)
  finally show ?thesis .
qed

lemma splitHostPort_serialized:
  assumes "hostText h sh"
  shows "splitHostPort (sh @ portSuffix scheme n) =
         (h, if n = defaultPortOf scheme then [] else FormatUint (unat n))"
proof (cases "n = defaultPortOf scheme")
  case False
  then show ?thesis
    using splitHostPort_port [of "FormatUint (unat n)" sh] FormatUint_digits [of "unat n"]
      unbracket_hostText [OF assms] by (simp add: portSuffix_def)
next
  case True
  with assms show ?thesis
    using splitHostPort_bracket [of h] splitHostPort_plain [of h] unbracket_hostText [OF assms]
    by (auto simp: hostText_def portSuffix_def plainHost_def)
qed

lemma parsePort_serialized:
  "parsePort scheme (if n = defaultPortOf scheme then [] else FormatUint (unat n)) =
   Inr (n, portSuffix scheme n)"
  if "scheme \<in> {''http'', ''https''}"
proof -
  have "unat n < 2 ^ 16" using unsigned_less [of n, where ?'a = nat] by simp
  then have "ParseUint 16 (FormatUint (unat n)) = Some (unat n)"
    using FormatUint_digits [of "unat n"] by (simp add: ParseUint_def dec_value_FormatUint)
  then show ?thesis
    using that FormatUint_digits [of "unat n"]
    by (auto simp: parsePort_def portSuffix_def defaultPortOf_def Let_def)
qed

lemma endsInNumberPattern_TrimSuffix:
  "\<not> HasSuffix (TrimSuffix a ''.'') ''.'' \<Longrightarrow>
   endsInNumberPattern (TrimSuffix a ''.'') = endsInNumberPattern a"
  by (metis TrimSuffix_def endsInNumberPattern_def)

lemma parseHost_serialized:
  assumes "address_law lib" and "idna_law lib" and "parseHost lib host = Inr (h, sh)"
  shows "h \<noteq> [] \<and> parseHost lib h = Inr (h, sh)"
proof (cases "ParseAddr lib host")
  case (Inr a)
  with assms(3) have h: "h = addr_String lib a" "Zone a = []"
    by (auto simp: parseHost_def Let_def split: if_splits)
  with assms(1) Inr have p: "ParseAddr lib h = Inr a" by (auto simp: address_law_def)
  moreover from p assms(1) have "h \<noteq> []"
    by (auto simp: address_law_def endsInNumberPattern_def TrimSuffix_def numberLabel_def HasSuffix_def)
  ultimately show ?thesis using assms(3) Inr h by (auto simp: parseHost_def Let_def)
next
  case (Inl e)
  with assms(3) have "parseDomain lib host = Inr (h, sh)" by (simp add: parseHost_def)
  then obtain a where a: "ToASCII lib a = Inr a" "\<not> hasForbiddenDomainCodePoint h"
      "\<not> endsInNumberPattern a" "h = TrimSuffix a ''.''" "sh = h" "h \<noteq> []" "\<not> HasSuffix h ''.''"
    by (rule parseDomain_form)
  have num: "\<not> endsInNumberPattern h"
    using endsInNumberPattern_TrimSuffix a(3,4,7) by simp
  have stable: "ToASCII lib h = Inr h"
    using a(1,4) assms(2) HasSuffix_D [of a "''.''"] by (auto simp: TrimSuffix_def idna_law_def)
  have "CHR '':'' \<notin> set h" using forbidden_plainHost [OF a(2)] by (simp add: plainHost_def)
  with num assms(1) obtain e' where "ParseAddr lib h = Inl e'"
    by (cases "ParseAddr lib h") (auto simp: address_law_def)
  with num stable a show ?thesis by (simp add: parseHost_def parseDomain_def)
qed

lemma parseHost_bytes:
  assumes "address_law lib" and "parseHost lib host = Inr (h, sh)"
  shows "list_all urlHostByte h \<or> list_ex unusualHostByte h"
    and "sh \<noteq> h \<Longrightarrow> \<exists>a. ParseAddr lib h = Inr a \<and> Is6 a \<and> Zone a = []"
proof -
  have hex: "urlHostByte c" if "isHex c \<or> c = CHR '':'' \<or> c = CHR ''.''" for c
    using that
    by (auto simp: urlHostByte_def forbiddenDomainByte_def unusualHostByte_def isHex_def in_range_def byte_of_def)
  show "list_all urlHostByte h \<or> list_ex unusualHostByte h"
  proof (cases "ParseAddr lib host")
    case (Inl e)
    with assms(2) have "parseDomain lib host = Inr (h, sh)" by (simp add: parseHost_def)
    then show ?thesis
      by (elim parseDomain_form)
        (auto simp: hasForbiddenDomainCodePoint_def list_ex_iff list_all_iff urlHostByte_def)
  next
    case (Inr a)
    with assms have "list_all (\<lambda>c. isHex c \<or> c = CHR '':'' \<or> c = CHR ''.'') h"
      by (auto simp: parseHost_def address_law_def Let_def split: if_splits)
    with hex show ?thesis by (auto simp: list_all_iff)
  qed
  show "\<exists>a. ParseAddr lib h = Inr a \<and> Is6 a \<and> Zone a = []" if "sh \<noteq> h"
  proof (cases "ParseAddr lib host")
    case (Inl e)
    with assms(2) have "parseDomain lib host = Inr (h, sh)" by (simp add: parseHost_def)
    with that show ?thesis by (elim parseDomain_form) simp
  next
    case (Inr a)
    with assms that show ?thesis by (auto simp: parseHost_def address_law_def Let_def split: if_splits)
  qed
qed

lemma Parse_serialization:
  assumes "address_text lib" and "url_law lib" and "address_law lib" and "idna_law lib"
    and "Parse lib raw = Inr o1"
  shows "Parse lib (origin_String o1) =
    (if list_ex unusualHostByte (hostname o1) then Inl (originError ''invalid URL'') else Inr o1)"
proof -
  from assms(5) obtain u sh where u: "u_Scheme u \<in> {''http'', ''https''}"
      "parseHost lib (Hostname u) = Inr (hostname o1, sh)"
      and ser: "serialization o1 = u_Scheme u @ ''://'' @ sh @ portSuffix (u_Scheme u) (port o1)"
    by (rule Parse_form)
  from parseHost_serialized [OF assms(3,4) u(2)]
  have h: "hostname o1 \<noteq> []" "parseHost lib (hostname o1) = Inr (hostname o1, sh)" by auto
  have ht: "hostText (hostname o1) sh" by (rule parseHost_form [OF assms(1) u(2)])
  note law = assms(2) [unfolded url_law_def, rule_format, OF u(1) h(1) ht, of "port o1"]
  show ?thesis
  proof (cases "list_ex unusualHostByte (hostname o1)")
    case True
    with law ser show ?thesis by (auto simp: Parse_def origin_String_def)
  next
    case False
    with law parseHost_bytes [OF assms(3) u(2)] obtain v
      where v: "url_Parse lib (serialization o1) = Inr v" "u_Scheme v = u_Scheme u" "u_User v = None"
        "u_Host v = sh @ portSuffix (u_Scheme u) (port o1)"
      unfolding ser by metis
    have "Hostname v = hostname o1"
      "Port v = (if port o1 = defaultPortOf (u_Scheme u) then [] else FormatUint (unat (port o1)))"
      using splitHostPort_serialized [OF ht] v(4) by (simp_all add: Hostname_def Port_def)
    with u(1) v h parsePort_serialized [OF u(1), of "port o1"] ser False show ?thesis
      by (auto simp: Parse_def origin_String_def intro!: origin.equality)
  qed
qed

section \<open>A library that keeps the laws\<close>

text \<open>Enough of the libraries to parse a bare domain origin: the laws above hold of it.\<close>

definition bareURL :: "string \<Rightarrow> string \<Rightarrow> url" where
  "bareURL scheme host =
     \<lparr>u_Scheme = scheme, u_User = None, u_Host = host, u_Path = [], u_RawPath = [],
      u_ForceQuery = False, u_RawQuery = [], u_Fragment = [], u_RawFragment = []\<rparr>"

definition domainLib :: host_lib where
  "domainLib =
     \<lparr>url_Parse = (\<lambda>s. if HasPrefix s ''http://'' then Inr (bareURL ''http'' (drop 7 s))
                      else if HasPrefix s ''https://'' then Inr (bareURL ''https'' (drop 8 s))
                      else Inl (Sentinel ''parse'')),
      url_ParseRef = (\<lambda>base ref. Inr (base\<lparr>u_Path := ref\<rparr>)),
      url_String = (\<lambda>u. u_Scheme u @ ''://'' @ u_Host u @ u_Path u),
      ParseAddr = (\<lambda>s. Inl (Sentinel ''ParseAddr'')),
      addr_String = (\<lambda>a. []),
      ToASCII = Inr\<rparr>"

lemma domainLib_laws:
  "address_text domainLib" "address_law domainLib" "idna_law domainLib"
  by (auto simp: domainLib_def address_text_def address_law_def idna_law_def)

lemma domainLib_example:
  "Parse domainLib ''https://example.com:8443'' =
   Inr \<lparr>serialization = ''https://example.com:8443'', hostname = ''example.com'', port = 8443\<rparr>"
proof -
  have host: "parseHost domainLib ''example.com'' = Inr (''example.com'', ''example.com'')"
    by (simp add: parseHost_def parseDomain_def domainLib_def hasForbiddenDomainCodePoint_def
        forbiddenDomainByte_def byte_of_def endsInNumberPattern_def TrimSuffix_def HasSuffix_def
        numberLabel_def is_digit_def)
  have port: "parsePort ''https'' ''8443'' = Inr (8443, '':8443'')"
    by (simp add: parsePort_def ParseUint_def is_digit_def byte_of_def dec_value_def
        digit_value_def Let_def FormatUint.simps char_of_def bit_0)
  have split: "splitHostPort ''example.com:8443'' = (''example.com'', ''8443'')"
    using splitHostPort_port [of "''8443''" "''example.com''"]
    by (simp add: is_digit_def byte_of_def unbracket_def HasPrefix_def)
  show ?thesis
    using host port split
    by (simp add: Parse_def domainLib_def bareURL_def HasPrefix_def Hostname_def Port_def)
qed

section \<open>Properties\<close>

text \<open>Two URLs whose origins have the same serialization have the same origin, hostname and port
  included: the serialization identifies the origin, so that it may be used as its key.\<close>

theorem Parse_serialization_unique:
  assumes "address_text lib" and "Parse lib raw1 = Inr o1" and "Parse lib raw2 = Inr o2"
  shows "origin_String o1 = origin_String o2 \<longleftrightarrow> o1 = o2"
  using serialization_inject [OF assms] by (auto simp: origin_String_def)

theorem Parse_serialization_unique_witness:
  "origin_String \<lparr>serialization = ''https://example.com:8443'', hostname = ''example.com'', port = 8443\<rparr> =
   origin_String \<lparr>serialization = ''https://example.com:8443'', hostname = ''example.com'', port = 8443\<rparr>"
  using Parse_serialization_unique [OF domainLib_laws(1) domainLib_example domainLib_example] by simp


text \<open>
  A library with an IPv6 address and with the mapping of the full-width left brace (\<^verbatim>\<open>U+FF5B\<close>, the bytes EF BD 9B), whose
  parser rejects braces and backquotes.
\<close>

fun narrow :: "string \<Rightarrow> string" where
  "narrow (a # b # c # s) =
     (if a = CHR 0xEF \<and> b = CHR 0xBD \<and> c = CHR 0x9B then CHR 0x7B # narrow s else a # narrow (b # c # s))"
| "narrow s = s"

definition strictLib :: host_lib where
  "strictLib = domainLib
     \<lparr>url_Parse := (\<lambda>s. if list_ex unusualHostByte s then Inl (Sentinel ''parse'') else url_Parse domainLib s),
      ParseAddr := (\<lambda>s. if s = ''::1'' then Inr (Addr6 1 []) else Inl (Sentinel ''ParseAddr'')),
      addr_String := (\<lambda>_. ''::1''),
      ToASCII := (\<lambda>s. Inr (narrow s))\<rparr>"

lemma narrow_dot: "narrow (h @ ''.'') = narrow h @ ''.''"
  by (induction h rule: narrow.induct) auto

lemma portSuffix_usual: "\<not> list_ex unusualHostByte (portSuffix scheme n)"
  using portSuffix_set [of scheme n]
  by (auto simp: list_ex_iff unusualHostByte_def is_digit_def byte_of_def)

lemma strictLib_laws: "address_text strictLib" "url_law strictLib" "address_law strictLib" "idna_law strictLib"
proof -
  have colon: "\<not> unusualHostByte (CHR '':'')" "\<not> unusualHostByte (CHR ''['')" "\<not> unusualHostByte (CHR '']'')"
      "\<not> list_ex unusualHostByte ''http''" "\<not> list_ex unusualHostByte ''https''" "\<not> list_ex unusualHostByte ''://''"
    by (simp_all add: unusualHostByte_def byte_of_def)
  have usual: "\<not> list_ex unusualHostByte h" if "list_all urlHostByte h" for h
  proof -
    have "\<not> unusualHostByte c" if "urlHostByte c" for c
    proof (cases "c = CHR '':''")
      case True
      with colon(1) show ?thesis by simp
    qed (use that in \<open>simp add: urlHostByte_def\<close>)
    with that show ?thesis by (simp add: list_all_iff list_ex_iff)
  qed
  have ser: "list_ex unusualHostByte (scheme @ ''://'' @ sh @ portSuffix scheme n) \<longleftrightarrow> list_ex unusualHostByte h"
    if "scheme \<in> {''http'', ''https''}" "hostText h sh" for scheme h sh n
  proof -
    have "\<not> list_ex unusualHostByte scheme" using that(1) colon(4,5) by blast
    moreover have "list_ex unusualHostByte sh \<longleftrightarrow> list_ex unusualHostByte h"
      using that(2) colon(2,3) by (auto simp: hostText_def)
    ultimately show ?thesis using colon(6) portSuffix_usual [of scheme n] by (simp only: list_ex_append simp_thms)
  qed
  show "url_law strictLib"
    unfolding url_law_def
  proof (intro allI impI conjI)
    fix scheme h sh :: string and n :: "16 word"
    assume s: "scheme \<in> {''http'', ''https''}" "hostText h sh"
    show "\<exists>e. url_Parse strictLib (scheme @ ''://'' @ sh @ portSuffix scheme n) = Inl e" if "list_ex unusualHostByte h"
      using ser [OF s, of n] that by (simp add: strictLib_def)
    assume "list_all urlHostByte h \<and> (sh \<noteq> h \<longrightarrow> (\<exists>a. ParseAddr strictLib h = Inr a \<and> Is6 a \<and> Zone a = []))"
    then have "\<not> list_ex unusualHostByte (scheme @ ''://'' @ sh @ portSuffix scheme n)"
      using ser [OF s, of n] usual by simp
    then have "url_Parse strictLib (scheme @ ''://'' @ sh @ portSuffix scheme n) = Inr (bareURL scheme (sh @ portSuffix scheme n))"
      using s(1) by (auto simp: strictLib_def domainLib_def HasPrefix_def)
    then show "\<exists>u. url_Parse strictLib (scheme @ ''://'' @ sh @ portSuffix scheme n) = Inr u \<and>
        u_Scheme u = scheme \<and> u_User u = None \<and> u_Host u = sh @ portSuffix scheme n"
      by (simp add: bareURL_def)
  qed
  show "address_text strictLib" "idna_law strictLib"
    by (simp_all add: strictLib_def address_text_def idna_law_def narrow_dot)
  have "list_all (\<lambda>c. isHex c \<or> c = CHR '':'' \<or> c = CHR ''.'') ''::1''" by code_simp
  then show "address_law strictLib" by (simp add: strictLib_def address_law_def)
qed

text \<open>An IPv6 origin comes back; the origin of a host with a full-width brace does not.\<close>

lemma strictLib_examples:
  "Parse strictLib ''http://[::1]:8080'' = Inr \<lparr>serialization = ''http://[::1]:8080'', hostname = ''::1'', port = 8080\<rparr>"
  "Parse strictLib (''https://'' @ [CHR 0xEF, CHR 0xBD, CHR 0x9B] @ ''.example'') =
     Inr \<lparr>serialization = ''https://'' @ CHR 0x7B # ''.example'', hostname = CHR 0x7B # ''.example'', port = 443\<rparr>"
proof -
  have host: "parseHost strictLib ''::1'' = Inr (''::1'', ''[::1]'')"
    by (simp add: parseHost_def strictLib_def)
  have port: "parsePort ''http'' ''8080'' = Inr (8080, '':8080'')"
    by (simp add: parsePort_def ParseUint_def is_digit_def byte_of_def dec_value_def
        digit_value_def Let_def FormatUint.simps char_of_def bit_0)
  have split: "splitHostPort ''[::1]:8080'' = (''::1'', ''8080'')"
    using splitHostPort_port [of "''8080''" "''[::1]''"] unbracket_hostText [of "''::1''" "''[::1]''"]
    by (simp add: is_digit_def byte_of_def hostText_def)
  have usual: "\<not> list_ex unusualHostByte ''http://[::1]:8080''" by code_simp
  show "Parse strictLib ''http://[::1]:8080'' =
      Inr \<lparr>serialization = ''http://[::1]:8080'', hostname = ''::1'', port = 8080\<rparr>"
  proof -
    have "url_Parse strictLib ''http://[::1]:8080'' = Inr (bareURL ''http'' ''[::1]:8080'')"
      unfolding strictLib_def using usual by (simp add: domainLib_def HasPrefix_def)
    with host port split show ?thesis by (simp add: Parse_def Hostname_def Port_def bareURL_def)
  qed
  let ?wide = "[CHR 0xEF, CHR 0xBD, CHR 0x9B] @ ''.example''" and ?brace = "CHR 0x7B # ''.example''"
  have host': "parseHost strictLib ?wide = Inr (?brace, ?brace)" by code_simp
  have split': "splitHostPort ?wide = (?wide, [])" by code_simp
  have usual': "\<not> list_ex unusualHostByte (''https://'' @ ?wide)" by code_simp
  show "Parse strictLib (''https://'' @ ?wide) =
      Inr \<lparr>serialization = ''https://'' @ ?brace, hostname = ?brace, port = 443\<rparr>"
  proof -
    have "url_Parse strictLib (''https://'' @ ?wide) = Inr (bareURL ''https'' ?wide)"
      unfolding strictLib_def using usual' by (simp add: domainLib_def HasPrefix_def)
    with host' split' show ?thesis by (simp add: Parse_def Hostname_def Port_def bareURL_def parsePort_def defaultPortOf_def)
  qed
qed


end
