(* ===== verification/Netguard.thy ===== *)
theory Netguard
  imports Origin Retry
begin

text \<open>
  Destination validation, \<^verbatim>\<open>internal/netguard/netguard.go\<close>: the address policy, resolution of an origin
  to a destination whose addresses have all passed it, and dialing. What the code calls outside the
  program (the context, the resolver, the dialer) acts on a state of type \<open>'w\<close> that the operations
  pass along; a nil interface value is \<open>None\<close>.
\<close>

type_synonym 'w go_context = "('w \<Rightarrow> go_error option) option"
type_synonym 'w resolver = "'w \<Rightarrow> string \<Rightarrow> string \<Rightarrow> (go_error + addr list) \<times> 'w"
type_synonym ('w, 'c) dialer = "'w \<Rightarrow> duration \<Rightarrow> string \<Rightarrow> string \<Rightarrow> (go_error + 'c option) \<times> 'w"

definition DefaultDialTimeout :: duration where
  "DefaultDialTimeout = 5 * second"

definition errUnsafeAddress where "errUnsafeAddress = Sentinel ''netguard: unsafe address''"
definition errInvalidContext where "errInvalidContext = Sentinel ''netguard: invalid context''"
definition errInvalidOrigin where "errInvalidOrigin = Sentinel ''netguard: invalid origin''"
definition errResolverUnavailable where
  "errResolverUnavailable = Sentinel ''netguard: resolver unavailable''"
definition errResolutionFailed where "errResolutionFailed = Sentinel ''netguard: resolution failed''"
definition errNoAddresses where
  "errNoAddresses = Sentinel ''netguard: resolution returned no addresses''"
definition errDialerUnavailable where
  "errDialerUnavailable = Sentinel ''netguard: dialer unavailable''"
definition errInvalidDestination where
  "errInvalidDestination = Sentinel ''netguard: invalid destination''"
definition errInvalidDialTimeout where
  "errInvalidDialTimeout = Sentinel ''netguard: dial timeout must be positive''"
definition errDialFailed where "errDialFailed = Sentinel ''netguard: dial failed''"

lemmas netguard_errors =
  errUnsafeAddress_def errInvalidContext_def errInvalidOrigin_def errResolverUnavailable_def
  errResolutionFailed_def errNoAddresses_def errDialerUnavailable_def errInvalidDestination_def
  errInvalidDialTimeout_def errDialFailed_def

definition FailureCategory :: "go_error \<Rightarrow> string" where
  "FailureCategory err =
     (if errors_Is err DeadlineExceeded then CategoryTimeout
      else if errors_Is err errResolutionFailed \<or> errors_Is err errNoAddresses then CategoryDNS
      else if errors_Is err errUnsafeAddress then CategoryUnsafeAddress
      else if errors_Is err errDialFailed then CategoryTransport
      else if errors_Is err errInvalidOrigin then CategoryMalformedOrigin
      else CategoryUnsupportedOrigin)"

section \<open>The address policy\<close>

definition blockedIPv4Prefixes :: "ip_prefix list" where
  "blockedIPv4Prefixes =
     [prefix4 0 0 0 0 8, prefix4 10 0 0 0 8, prefix4 100 64 0 0 10, prefix4 127 0 0 0 8,
      prefix4 169 254 0 0 16, prefix4 172 16 0 0 12, prefix4 192 0 0 0 24, prefix4 192 0 2 0 24,
      prefix4 192 31 196 0 24, prefix4 192 52 193 0 24, prefix4 192 88 99 0 24, prefix4 192 168 0 0 16,
      prefix4 192 175 48 0 24, prefix4 198 18 0 0 15, prefix4 198 51 100 0 24, prefix4 203 0 113 0 24,
      prefix4 224 0 0 0 4, prefix4 240 0 0 0 4]"

definition publicIPv6Prefix :: ip_prefix where
  "publicIPv6Prefix = prefix6 [0x2000] 3"

definition blockedIPv6Prefixes :: "ip_prefix list" where
  "blockedIPv6Prefixes =
     [prefix6 [0x2001] 23, prefix6 [0x2001, 0xdb8] 32, prefix6 [0x2002] 16,
      prefix6 [0x2620, 0x4f, 0x8000] 48, prefix6 [0x3ffe] 16, prefix6 [0x3fff] 20]"

definition ValidateAddr :: "addr \<Rightarrow> go_error option" where
  "ValidateAddr addr =
     (let addr = Unmap addr
      in if \<not> IsValid addr \<or> Zone addr \<noteq> [] then Some errUnsafeAddress
         else if Is4 addr then
           (if list_ex (\<lambda>prefix. Contains prefix addr) blockedIPv4Prefixes
            then Some errUnsafeAddress else None)
         else if \<not> Contains publicIPv6Prefix addr then Some errUnsafeAddress
         else if list_ex (\<lambda>prefix. Contains prefix addr) blockedIPv6Prefixes
         then Some errUnsafeAddress
         else None)"

section \<open>Resolving\<close>

record destination =
  d_addresses :: "addr list"
  d_port :: "16 word"

text \<open>The loop that validates the answer and collects its distinct addresses.\<close>

fun validateAll :: "addr list \<Rightarrow> addr list \<Rightarrow> go_error + addr list" where
  "validateAll unique [] = Inr unique"
| "validateAll unique (address # rest) =
     (let address = Unmap address
      in if ValidateAddr address \<noteq> None then Inl errUnsafeAddress
         else validateAll (List.insert address unique) rest)"

definition Resolve ::
    "host_lib \<Rightarrow> 'w go_context \<Rightarrow> origin \<Rightarrow> 'w resolver option \<Rightarrow> 'w \<Rightarrow> (go_error + destination) \<times> 'w" where
  "Resolve lib ctx candidate resolver w =
     (case ctx of
        None \<Rightarrow> (Inl errInvalidContext, w)
      | Some ctx_Err \<Rightarrow>
          (case ctx_Err w of
             Some err \<Rightarrow> (Inl err, w)
           | None \<Rightarrow>
               if origin_Hostname candidate = [] then (Inl errInvalidOrigin, w)
               else (case ParseAddr lib (origin_Hostname candidate) of
                 Inr address \<Rightarrow>
                   (let address = Unmap address
                    in if ValidateAddr address \<noteq> None then (Inl errUnsafeAddress, w)
                       else (Inr \<lparr>d_addresses = [address], d_port = origin_Port candidate\<rparr>, w))
               | Inl _ \<Rightarrow>
                   (case resolver of
                      None \<Rightarrow> (Inl errResolverUnavailable, w)
                    | Some LookupNetIP \<Rightarrow>
                        (case LookupNetIP w ''ip'' (origin_Hostname candidate) of
                           (Inl _, w) \<Rightarrow>
                             (case ctx_Err w of
                                Some contextErr \<Rightarrow> (Inl contextErr, w)
                              | None \<Rightarrow> (Inl errResolutionFailed, w))
                         | (Inr addresses, w) \<Rightarrow>
                             if addresses = [] then (Inl errNoAddresses, w)
                             else (case validateAll [] addresses of
                                     Inl e \<Rightarrow> (Inl e, w)
                                   | Inr unique \<Rightarrow>
                                       (Inr \<lparr>d_addresses = sort unique,
                                             d_port = origin_Port candidate\<rparr>, w)))))))"

section \<open>Dialing\<close>

text \<open>\<open>addrPort\<close> stands for \<^verbatim>\<open>netip.AddrPort.String\<close>.\<close>

fun dialLoop ::
    "(addr \<Rightarrow> 16 word \<Rightarrow> string) \<Rightarrow> ('w \<Rightarrow> go_error option) \<Rightarrow> ('w, 'c) dialer \<Rightarrow> duration \<Rightarrow> 16 word \<Rightarrow>
     addr list \<Rightarrow> 'w \<Rightarrow> (go_error + 'c) \<times> 'w" where
  "dialLoop addrPort ctx_Err dialer timeout p [] w = (Inl errDialFailed, w)"
| "dialLoop addrPort ctx_Err dialer timeout p (address # rest) w =
     (if ValidateAddr address \<noteq> None then (Inl errUnsafeAddress, w)
      else (case dialer w timeout ''tcp'' (addrPort address p) of
              (Inr None, w) \<Rightarrow> (Inl errDialFailed, w)
            | (Inr (Some connection), w) \<Rightarrow> (Inr connection, w)
            | (Inl _, w) \<Rightarrow>
                (case ctx_Err w of
                   Some contextErr \<Rightarrow> (Inl contextErr, w)
                 | None \<Rightarrow> dialLoop addrPort ctx_Err dialer timeout p rest w)))"

definition DialContextWithTimeout ::
    "(addr \<Rightarrow> 16 word \<Rightarrow> string) \<Rightarrow> destination \<Rightarrow> 'w go_context \<Rightarrow> ('w, 'c) dialer option \<Rightarrow> duration \<Rightarrow>
     'w \<Rightarrow> (go_error + 'c) \<times> 'w" where
  "DialContextWithTimeout addrPort d ctx dialer timeout w =
     (case ctx of
        None \<Rightarrow> (Inl errInvalidContext, w)
      | Some ctx_Err \<Rightarrow>
          (case ctx_Err w of
             Some err \<Rightarrow> (Inl err, w)
           | None \<Rightarrow>
               (case dialer of
                  None \<Rightarrow> (Inl errDialerUnavailable, w)
                | Some dial \<Rightarrow>
                    if d_addresses d = [] then (Inl errInvalidDestination, w)
                    else if timeout \<le> 0 then (Inl errInvalidDialTimeout, w)
                    else dialLoop addrPort ctx_Err dial timeout (d_port d) (d_addresses d) w)))"

definition DialContext ::
    "(addr \<Rightarrow> 16 word \<Rightarrow> string) \<Rightarrow> destination \<Rightarrow> 'w go_context \<Rightarrow> ('w, 'c) dialer option \<Rightarrow>
     'w \<Rightarrow> (go_error + 'c) \<times> 'w" where
  "DialContext addrPort d ctx dialer w =
     DialContextWithTimeout addrPort d ctx dialer DefaultDialTimeout w"

section \<open>The policy as ranges\<close>

text \<open>The blocked ranges, first and last address; IPv6 bounds are given by their leading groups.\<close>

definition range4 :: "nat \<Rightarrow> nat \<Rightarrow> nat \<Rightarrow> nat \<Rightarrow> nat \<Rightarrow> nat \<Rightarrow> nat \<Rightarrow> nat \<Rightarrow> 32 word \<Rightarrow> bool" where
  "range4 a b c d a' b' c' d' w \<longleftrightarrow> quad a b c d \<le> unat w \<and> unat w \<le> quad a' b' c' d'"

definition specialIPv4 :: "32 word \<Rightarrow> bool" where
  "specialIPv4 w \<longleftrightarrow>
     range4 0 0 0 0 0 255 255 255 w \<or> range4 10 0 0 0 10 255 255 255 w \<or>
     range4 100 64 0 0 100 127 255 255 w \<or> range4 127 0 0 0 127 255 255 255 w \<or>
     range4 169 254 0 0 169 254 255 255 w \<or> range4 172 16 0 0 172 31 255 255 w \<or>
     range4 192 0 0 0 192 0 0 255 w \<or> range4 192 0 2 0 192 0 2 255 w \<or>
     range4 192 31 196 0 192 31 196 255 w \<or> range4 192 52 193 0 192 52 193 255 w \<or>
     range4 192 88 99 0 192 88 99 255 w \<or> range4 192 168 0 0 192 168 255 255 w \<or>
     range4 192 175 48 0 192 175 48 255 w \<or> range4 198 18 0 0 198 19 255 255 w \<or>
     range4 198 51 100 0 198 51 100 255 w \<or> range4 203 0 113 0 203 0 113 255 w \<or>
     range4 224 0 0 0 239 255 255 255 w \<or> range4 240 0 0 0 255 255 255 255 w"

definition range6 :: "nat list \<Rightarrow> nat list \<Rightarrow> 128 word \<Rightarrow> bool" where
  "range6 lo hi w \<longleftrightarrow> groups6 lo \<le> unat w \<and> unat w < groups6 hi"

definition globalIPv6 :: "128 word \<Rightarrow> bool" where
  "globalIPv6 w \<longleftrightarrow>
     range6 [0x2000] [0x4000] w \<and>
     \<not> range6 [0x2001] [0x2001, 0x200] w \<and> \<not> range6 [0x2001, 0xdb8] [0x2001, 0xdb9] w \<and>
     \<not> range6 [0x2002] [0x2003] w \<and> \<not> range6 [0x2620, 0x4f, 0x8000] [0x2620, 0x4f, 0x8001] w \<and>
     \<not> range6 [0x3ffe] [0x3fff] w \<and> \<not> range6 [0x3fff] [0x3fff, 0x1000] w"

definition publicAddr :: "addr \<Rightarrow> bool" where
  "publicAddr a =
     (case Unmap a of
        AddrInvalid \<Rightarrow> False
      | Addr4 w \<Rightarrow> \<not> specialIPv4 w
      | Addr6 w z \<Rightarrow> z = [] \<and> globalIPv6 w)"

lemma range4_Suc:
  "range4 a b c d a' b' c' d' w \<longleftrightarrow> quad a b c d \<le> unat w \<and> unat w < Suc (quad a' b' c' d')"
  by (simp add: range4_def less_Suc_eq_le)

lemma blockedIPv4_special:
  "list_ex (\<lambda>prefix. Contains prefix (Addr4 w)) blockedIPv4Prefixes \<longleftrightarrow> specialIPv4 w"
  by (simp add: blockedIPv4Prefixes_def specialIPv4_def range4_Suc Contains_prefix4 quad_def)

lemma ValidateAddr_public: "ValidateAddr a = (if publicAddr a then None else Some errUnsafeAddress)"
proof (cases "Unmap a")
  case (Addr4 w)
  then show ?thesis by (simp add: ValidateAddr_def publicAddr_def blockedIPv4_special)
next
  case (Addr6 w z)
  have "Contains publicIPv6Prefix (Addr6 w []) \<and>
        \<not> list_ex (\<lambda>prefix. Contains prefix (Addr6 w [])) blockedIPv6Prefixes \<longleftrightarrow> globalIPv6 w"
    by (simp add: publicIPv6Prefix_def blockedIPv6Prefixes_def globalIPv6_def range6_def
        Contains_prefix6 groups6_def)
  with Addr6 show ?thesis by (auto simp: ValidateAddr_def publicAddr_def Let_def)
qed (simp add: ValidateAddr_def publicAddr_def)

section \<open>Destinations are safe\<close>

definition safeDestination :: "destination \<Rightarrow> bool" where
  "safeDestination d \<longleftrightarrow>
     d_addresses d \<noteq> [] \<and> sorted (d_addresses d) \<and> distinct (d_addresses d) \<and>
     list_all (\<lambda>a. publicAddr a \<and> Unmap a = a) (d_addresses d)"

lemma publicAddr_Unmap [simp]: "publicAddr (Unmap a) = publicAddr a"
  by (simp add: publicAddr_def)

lemma validateAll_spec:
  "validateAll unique addresses =
     (if list_all publicAddr addresses
      then Inr (fold (\<lambda>a u. List.insert (Unmap a) u) addresses unique) else Inl errUnsafeAddress)"
  by (induction unique addresses rule: validateAll.induct) (auto simp: Let_def ValidateAddr_public)

lemma fold_insert_Unmap:
  "distinct unique \<Longrightarrow>
   distinct (fold (\<lambda>a u. List.insert (Unmap a) u) addresses unique) \<and>
   set (fold (\<lambda>a u. List.insert (Unmap a) u) addresses unique) = Unmap ` set addresses \<union> set unique"
  by (induction addresses arbitrary: unique) auto

lemma validateAll_sorted:
  "map_sum id sort (validateAll [] addresses) =
     (if list_all publicAddr addresses then Inr (sorted_list_of_set (Unmap ` set addresses))
      else Inl errUnsafeAddress)"
  using fold_insert_Unmap [of "[]" addresses]
  by (auto simp: validateAll_spec sorted_list_of_set_sort_remdups distinct_remdups_id
      intro: sorted_distinct_set_unique)

lemma Resolve_answer:
  assumes "ctx_Err w = None" and "origin_Hostname candidate \<noteq> []"
    and "ParseAddr lib (origin_Hostname candidate) = Inl e"
    and "LookupNetIP w ''ip'' (origin_Hostname candidate) = (Inr addresses, w')"
  shows "Resolve lib (Some ctx_Err) candidate (Some LookupNetIP) w =
    (if addresses = [] then Inl errNoAddresses
     else if \<not> list_all publicAddr addresses then Inl errUnsafeAddress
     else Inr \<lparr>d_addresses = sorted_list_of_set (Unmap ` set addresses),
               d_port = origin_Port candidate\<rparr>, w')"
  using assms validateAll_sorted [of addresses]
  by (auto simp: Resolve_def split: sum.splits if_splits)

lemma safe_sorted_list_of_set:
  "addresses \<noteq> [] \<Longrightarrow> list_all publicAddr addresses \<Longrightarrow>
   safeDestination \<lparr>d_addresses = sorted_list_of_set (Unmap ` set addresses), d_port = p\<rparr>"
  by (auto simp: safeDestination_def list_all_iff)

lemma Resolve_safe:
  "fst (Resolve lib ctx candidate resolver w) = Inr d \<Longrightarrow>
   safeDestination d \<and> d_port d = origin_Port candidate"
proof -
  assume d: "fst (Resolve lib ctx candidate resolver w) = Inr d"
  then obtain ctx_Err where ctx: "ctx = Some ctx_Err" "ctx_Err w = None" "origin_Hostname candidate \<noteq> []"
    by (auto simp: Resolve_def split: option.splits if_splits)
  show ?thesis
  proof (cases "ParseAddr lib (origin_Hostname candidate)")
    case (Inr a)
    with d ctx show ?thesis
      by (auto simp: Resolve_def Let_def ValidateAddr_public safeDestination_def split: if_splits)
  next
    case (Inl e)
    with d ctx obtain LookupNetIP addresses w'
      where r: "resolver = Some LookupNetIP"
        and l: "LookupNetIP w ''ip'' (origin_Hostname candidate) = (Inr addresses, w')"
      by (auto simp: Resolve_def split: option.splits prod.splits sum.splits)
    from d Resolve_answer [of ctx_Err w candidate lib e LookupNetIP, OF ctx(2,3) Inl l] ctx r
    show ?thesis by (auto simp: safe_sorted_list_of_set split: if_splits)
  qed
qed

lemma dialLoop_agree:
  assumes "\<And>a w. a \<in> set addresses \<Longrightarrow> publicAddr a \<Longrightarrow>
             dial1 w timeout ''tcp'' (addrPort a p) = dial2 w timeout ''tcp'' (addrPort a p)"
  shows "dialLoop addrPort ctx_Err dial1 timeout p addresses w =
         dialLoop addrPort ctx_Err dial2 timeout p addresses w"
  using assms
proof (induction addresses arbitrary: w)
  case (Cons a rest)
  show ?case
  proof (cases "publicAddr a")
    case True
    with Cons.prems have "dial1 w timeout ''tcp'' (addrPort a p) = dial2 w timeout ''tcp'' (addrPort a p)"
      by simp
    with Cons show ?thesis by (auto split: prod.splits sum.splits option.splits)
  qed (simp add: ValidateAddr_public)
qed simp

section \<open>Properties\<close>

text \<open>
  The address policy: an address is accepted exactly when, after an IPv4-mapped form has been turned
  into its IPv4 address, it is an IPv4 address outside every special-purpose range or a zoneless IPv6
  address of 2000::/3 outside the special-purpose ranges in it; in particular a mapped address is judged as
  the IPv4 address it carries.
\<close>
theorem ValidateAddr_policy:
  "(ValidateAddr a = None \<longleftrightarrow> publicAddr a) \<and> ValidateAddr a \<in> {None, Some errUnsafeAddress} \<and>
   ValidateAddr (Addr6 (map4 v4) z) = ValidateAddr (Addr4 v4)"
  using publicAddr_Unmap [of "Addr6 (map4 v4) z"] by (simp add: ValidateAddr_public del: publicAddr_Unmap Unmap.simps)

text \<open>
  Resolution is all or nothing: when the resolver answers, the result is an error if the answer is
  empty or any address of it fails the policy, and otherwise the destination holds exactly the distinct
  unmapped addresses of the answer in ascending order, with the origin's port.
\<close>
theorem Resolve_all_or_nothing:
  assumes "ctx_Err w = None" and "origin_Hostname candidate \<noteq> []"
    and "ParseAddr lib (origin_Hostname candidate) = Inl e"
    and "LookupNetIP w ''ip'' (origin_Hostname candidate) = (Inr addresses, w')"
  shows "Resolve lib (Some ctx_Err) candidate (Some LookupNetIP) w =
    (if addresses = [] then Inl errNoAddresses
     else if \<not> list_all publicAddr addresses then Inl errUnsafeAddress
     else Inr \<lparr>d_addresses = sorted_list_of_set (Unmap ` set addresses),
               d_port = origin_Port candidate\<rparr>, w')"
  by (rule Resolve_answer [where e = e]) (use assms in auto)

theorem Resolve_all_or_nothing_witness:
  "Resolve domainLib (Some (\<lambda>w. None))
     \<lparr>serialization = ''https://example.com'', hostname = ''example.com'', port = 443\<rparr>
     (Some (\<lambda>w net host. (Inr [Addr4 (word_of_nat (quad 93 184 216 34)), Addr4 (word_of_nat (quad 127 0 0 1))], w)))
     () = (Inl errUnsafeAddress, ())"
proof -
  let ?bad = "Addr4 (word_of_nat (quad 127 0 0 1))"
  have "\<not> publicAddr ?bad"
    by (simp add: publicAddr_def specialIPv4_def range4_def quad_def)
  then show ?thesis
    by (subst Resolve_all_or_nothing
        [where e = "Sentinel ''ParseAddr''" and w' = "()" and
          addresses = "[Addr4 (word_of_nat (quad 93 184 216 34)), ?bad]"])
      (simp_all add: domainLib_def origin_Hostname_def)
qed

text \<open>
  C2. Only validated addresses are dialed: whatever the context, the resolver and the origin, a
  destination that resolution returns is safe (non-empty, in ascending order without repetition, every
  address accepted by the policy), and the outcome of dialing any destination depends only on how the
  dialer treats the texts of its accepted addresses: no other target is ever passed to it.
\<close>
theorem dial_only_validated:
  "(case fst (Resolve lib ctx candidate resolver w) of
      Inl _ \<Rightarrow> True | Inr d \<Rightarrow> safeDestination d \<and> d_port d = origin_Port candidate) \<and>
   DialContextWithTimeout addrPort d ctx (Some dial) timeout w =
   DialContextWithTimeout addrPort d ctx
     (Some (\<lambda>w t net target.
        if t = timeout \<and> net = ''tcp'' \<and>
           target \<in> (\<lambda>a. addrPort a (d_port d)) ` {a \<in> set (d_addresses d). publicAddr a}
        then dial w t net target else other w)) timeout w"
proof -
  have "dialLoop addrPort ctx_Err dial timeout (d_port d) (d_addresses d) w =
        dialLoop addrPort ctx_Err
          (\<lambda>w t net target.
             if t = timeout \<and> net = ''tcp'' \<and>
                target \<in> (\<lambda>a. addrPort a (d_port d)) ` {a \<in> set (d_addresses d). publicAddr a}
             then dial w t net target else other w) timeout (d_port d) (d_addresses d) w" for ctx_Err w
    by (rule dialLoop_agree) auto
  then show ?thesis
    using Resolve_safe [of lib ctx candidate resolver w]
    by (auto simp: DialContextWithTimeout_def split: sum.splits option.splits)
qed

end
