(* ===== verification/Http.thy ===== *)
theory Http
  imports Netguard
begin

text \<open>
  What the HTTP clients of the sources share: responses, getters that act on a state of type \<open>'w\<close>, and
  the interface of a loop that follows redirects. \<open>redirect_loop\<close> is the contract both
  \<^verbatim>\<open>robots.obtainPolicy\<close> and \<^verbatim>\<open>Verifier.Verify\<close> keep: one hop either ends the loop or names the next URL,
  it names one only below a fixed limit, and then only an authorized one. The rules proved in the locale
  carry invariants through such a loop; its interpretations are in the theories of the two clients.
\<close>

record response =
  r_StatusCode :: int
  r_Header :: "string \<Rightarrow> string"
  r_Body :: "body option"

type_synonym 'w getter = "'w \<Rightarrow> url option \<Rightarrow> (go_error + response option) \<times> 'w"

definition nilDereference :: go_error where
  "nilDereference = Sentinel ''runtime error: invalid memory address or nil pointer dereference''"

locale redirect_loop =
  fixes hop :: "nat \<Rightarrow> 'u \<Rightarrow> 'w \<Rightarrow> ('r + 'u) \<times> 'w"
    and loop :: "nat \<Rightarrow> 'u \<Rightarrow> 'w \<Rightarrow> 'r \<times> 'w"
    and limit :: nat
    and authorized :: "'u \<Rightarrow> bool"
  assumes loop_unfold:
      "loop n u w = (case hop n u w of (Inl r, w') \<Rightarrow> (r, w') | (Inr u', w') \<Rightarrow> loop (Suc n) u' w')"
    and hop_limit: "hop n u w = (Inr u', w') \<Longrightarrow> n < limit"
    and hop_authorized: "hop n u w = (Inr u', w') \<Longrightarrow> authorized u'"
begin

lemma loop_done: "hop n u w = (Inl r, w') \<Longrightarrow> loop n u w = (r, w')"
  by (simp add: loop_unfold)

lemma loop_next: "hop n u w = (Inr u', w') \<Longrightarrow> loop n u w = loop (Suc n) u' w'"
  by (subst loop_unfold) simp

lemma loop_rule:
  assumes "I n u w"
    and step: "\<And>n u w u' w'. I n u w \<Longrightarrow> hop n u w = (Inr u', w') \<Longrightarrow> n < limit \<Longrightarrow> authorized u' \<Longrightarrow>
                 I (Suc n) u' w'"
    and finish: "\<And>n u w r w'. I n u w \<Longrightarrow> hop n u w = (Inl r, w') \<Longrightarrow> Q r w'"
  shows "case loop n u w of (r, w') \<Rightarrow> Q r w'"
  using assms(1)
proof (induction "limit - n" arbitrary: n u w rule: less_induct)
  case less
  obtain x w' where h: "hop n u w = (x, w')" by fastforce
  show ?case
  proof (cases x)
    case (Inl r)
    with h less.prems finish show ?thesis by (simp add: loop_done)
  next
    case (Inr u')
    with h have n: "n < limit" and "authorized u'"
      by (auto dest: hop_limit hop_authorized)
    with h Inr less.prems step have "I (Suc n) u' w'" by blast
    with less.hyps [of "Suc n"] n h Inr show ?thesis by (simp add: loop_next)
  qed
qed

text \<open>A log of the requested targets grows by one authorized target per hop, at most \<open>limit + 1\<close> in all.\<close>

lemma loop_log:
  assumes log: "\<And>n u w x w'. hop n u w = (x, w') \<Longrightarrow> logOf w' = logOf w @ [u]"
    and start: "authorized u" and fresh: "logOf w = []"
  shows "case loop 0 u w of (r, w') \<Rightarrow> length (logOf w') \<le> Suc limit \<and> list_all authorized (logOf w')"
proof (rule loop_rule [where I = "\<lambda>n u w. n \<le> limit \<and> authorized u \<and> length (logOf w) = n \<and>
                                            list_all authorized (logOf w)"])
  show "0 \<le> limit \<and> authorized u \<and> length (logOf w) = 0 \<and> list_all authorized (logOf w)"
    using start fresh by simp
next
  fix n u w u' w'
  assume "n \<le> limit \<and> authorized u \<and> length (logOf w) = n \<and> list_all authorized (logOf w)"
    and "hop n u w = (Inr u', w')" and "n < limit" and "authorized u'"
  then show "Suc n \<le> limit \<and> authorized u' \<and> length (logOf w') = Suc n \<and> list_all authorized (logOf w')"
    using log by fastforce
next
  fix n u w r w'
  assume "n \<le> limit \<and> authorized u \<and> length (logOf w) = n \<and> list_all authorized (logOf w)"
    and "hop n u w = (Inl r, w')"
  then show "length (logOf w') \<le> Suc limit \<and> list_all authorized (logOf w')"
    using log by fastforce
qed

end

end
