(* ===== verification/Links.thy ===== *)
theory Links
  imports Retry Http
begin

text \<open>
  Link extraction, \<^verbatim>\<open>internal/discovery/discovery.go\<close>, and the sanitizers of \<^verbatim>\<open>telemetry.go\<close>: which pages of
  a source and which other origins one HTML page links to. The HTML parser, the charset decoder, the media-type
  parser and the content sniffer are the fields of a record \<open>link_lib\<close>; the theorems hold for all of them. A
  parsed document is the list of its nodes in the order in which \<^verbatim>\<open>Descendants\<close> visits them.

  \<^verbatim>\<open>canonicalPageURL\<close> dereferences the parsed serialization of the source, so a serialization that does not
  parse is a panic: \<open>None\<close> in the results below.
\<close>

definition MaxRawBody :: nat where "MaxRawBody = 1024 * 1024"
definition MaxDecodedBody :: nat where "MaxDecodedBody = 2 * 1024 * 1024"

definition errGetterUnavailable where "errGetterUnavailable = Sentinel ''discovery: getter unavailable''"
definition errInvalidDiscoveryContext where
  "errInvalidDiscoveryContext = Sentinel ''discovery: invalid context''"
definition errInvalidSource where "errInvalidSource = Sentinel ''discovery: invalid source''"
definition errInvalidPageURL where "errInvalidPageURL = Sentinel ''discovery: invalid page URL''"

text \<open>\<^verbatim>\<open>KindOther\<close> stands for the values of the byte that name no kind.\<close>

datatype kind = KindLink | KindRedirect | KindOther

datatype page_status =
  StatusComplete | StatusRedirected | StatusRobotsDenied | StatusUnavailable | StatusUnsupportedContent
  | StatusTooLarge

record candidate =
  c_Origin :: origin
  c_Kind :: kind

record page_links =
  pl_Internal :: "url list"
  pl_Candidates :: "candidate list"

definition page_links_zero :: page_links where
  "page_links_zero = \<lparr>pl_Internal = [], pl_Candidates = []\<rparr>"

text \<open>An HTML node: whether it is an element, its name, and its attributes in order.\<close>

record html_node =
  hn_element :: bool
  hn_Data :: string
  hn_Attr :: "(string \<times> string) list"

record link_lib =
  lk_host :: host_lib
  lk_ParseMediaType :: "string \<Rightarrow> go_error + string"
  lk_DetectContentType :: "string \<Rightarrow> string"
  lk_charset_NewReader :: "string \<Rightarrow> string \<Rightarrow> go_error + body"
  lk_html_Parse :: "string \<Rightarrow> go_error + html_node list"

section \<open>Bodies and content types\<close>

text \<open>The bytes and whether they exceed the limit.\<close>

definition readBounded :: "body \<Rightarrow> nat \<Rightarrow> go_error + string \<times> bool" where
  "readBounded reader limit =
     (case ReadAll_limited reader (limit + 1) of
        Inl err \<Rightarrow> Inl err
      | Inr data \<Rightarrow> if length data > limit then Inr ([], True) else Inr (data, False))"

definition decodeHTML :: "link_lib \<Rightarrow> string \<Rightarrow> string \<Rightarrow> go_error + string \<times> bool" where
  "decodeHTML lib b contentType =
     (case lk_charset_NewReader lib b contentType of
        Inl err \<Rightarrow> Inl err
      | Inr decodedReader \<Rightarrow> readBounded decodedReader MaxDecodedBody)"

text \<open>A media type is a token, so \<^verbatim>\<open>strings.ToLower\<close> only meets ASCII.\<close>

definition isHTMLContentType :: "link_lib \<Rightarrow> string \<Rightarrow> bool" where
  "isHTMLContentType lib contentType =
     (case lk_ParseMediaType lib contentType of
        Inl _ \<Rightarrow> False
      | Inr mediaType \<Rightarrow> map to_lower mediaType \<in> {''text/html'', ''application/xhtml+xml''})"

definition isPageRedirect :: "int \<Rightarrow> bool" where
  "isPageRedirect status \<longleftrightarrow> status \<in> {301, 302, 303, 307, 308}"

section \<open>URLs\<close>

definition pageRedirectTarget :: "host_lib \<Rightarrow> url \<Rightarrow> response \<Rightarrow> go_error + url" where
  "pageRedirectTarget lib current response =
     (let location = r_Header response ''Location''
      in if location = [] then Inl errInvalidPageURL
         else (case url_ParseRef lib current location of
                 Inl _ \<Rightarrow> Inl errInvalidPageURL
               | Inr next \<Rightarrow>
                   (let next = next\<lparr>u_Fragment := [], u_RawFragment := []\<rparr>
                    in case Origin.Parse lib (url_String lib next) of
                         Inl _ \<Rightarrow> Inl errInvalidPageURL | Inr _ \<Rightarrow> Inr next)))"

definition attributeValue :: "html_node \<Rightarrow> string \<Rightarrow> string option" where
  "attributeValue node name = map_of (hn_Attr node) name"

fun documentBaseURL :: "host_lib \<Rightarrow> html_node list \<Rightarrow> url \<Rightarrow> url" where
  "documentBaseURL lib [] pageURL = pageURL"
| "documentBaseURL lib (node # nodes) pageURL =
     (if \<not> hn_element node \<or> hn_Data node \<noteq> ''base'' then documentBaseURL lib nodes pageURL
      else (case attributeValue node ''href'' of
              None \<Rightarrow> documentBaseURL lib nodes pageURL
            | Some href \<Rightarrow>
                (case url_ParseRef lib pageURL (TrimSpace href) of
                   Inl _ \<Rightarrow> pageURL
                 | Inr resolved \<Rightarrow>
                     (case Origin.Parse lib (url_String lib resolved) of
                        Inl _ \<Rightarrow> pageURL | Inr _ \<Rightarrow> resolved))))"

definition canonicalPageURL :: "host_lib \<Rightarrow> origin \<Rightarrow> url \<Rightarrow> url option" where
  "canonicalPageURL lib source pageURL =
     (case url_Parse lib (origin_String source) of
        Inl _ \<Rightarrow> None
      | Inr sourceURL \<Rightarrow>
          Some (pageURL\<lparr>u_Scheme := u_Scheme sourceURL, u_Host := u_Host sourceURL, u_User := None,
                        u_Fragment := [], u_RawFragment := [],
                        u_Path := ''/'' @ TrimPrefix (u_Path pageURL) ''/''\<rparr>))"

definition safeTelemetryURL :: "host_lib \<Rightarrow> url \<Rightarrow> string" where
  "safeTelemetryURL lib pageURL =
     url_String lib (pageURL\<lparr>u_User := None, u_RawQuery := [], u_ForceQuery := False, u_Fragment := [],
                             u_RawFragment := []\<rparr>)"

definition safeTelemetryContentType :: "link_lib \<Rightarrow> string \<Rightarrow> string" where
  "safeTelemetryContentType lib value =
     (case lk_ParseMediaType lib value of
        Inl _ \<Rightarrow> [] | Inr mediaType \<Rightarrow> if length mediaType > 256 then [] else mediaType)"

section \<open>Extraction\<close>

text \<open>The destination of one node (lines 173-211): its origin and the resolved URL without fragment.\<close>

definition linkTarget :: "host_lib \<Rightarrow> url \<Rightarrow> html_node \<Rightarrow> (origin \<times> url) option" where
  "linkTarget lib baseURL node =
     (if \<not> hn_element node \<or> hn_Data node \<noteq> ''a'' \<and> hn_Data node \<noteq> ''area'' then None
      else (case attributeValue node ''href'' of
              None \<Rightarrow> None
            | Some href \<Rightarrow>
                (case url_ParseRef lib baseURL (TrimSpace href) of
                   Inl _ \<Rightarrow> None
                 | Inr resolved \<Rightarrow>
                     (let resolved = resolved\<lparr>u_Fragment := [], u_RawFragment := []\<rparr>
                      in case Origin.Parse lib (url_String lib resolved) of
                           Inl _ \<Rightarrow> None | Inr destination \<Rightarrow> Some (destination, resolved)))))"

fun collectLinks ::
    "host_lib \<Rightarrow> origin \<Rightarrow> url \<Rightarrow> string set \<Rightarrow> origin set \<Rightarrow> page_links \<Rightarrow> html_node list \<Rightarrow> page_links option" where
  "collectLinks lib source baseURL internalSeen candidateSeen links [] = Some links"
| "collectLinks lib source baseURL internalSeen candidateSeen links (node # nodes) =
     (case linkTarget lib baseURL node of
        None \<Rightarrow> collectLinks lib source baseURL internalSeen candidateSeen links nodes
      | Some (destination, resolved) \<Rightarrow>
          if destination = source then
            (case canonicalPageURL lib source resolved of
               None \<Rightarrow> None
             | Some internal \<Rightarrow>
                 (let canonical = url_String lib internal
                  in if canonical \<in> internalSeen
                     then collectLinks lib source baseURL internalSeen candidateSeen links nodes
                     else collectLinks lib source baseURL (insert canonical internalSeen) candidateSeen
                            (links\<lparr>pl_Internal := pl_Internal links @ [internal]\<rparr>) nodes))
          else if destination \<in> candidateSeen
          then collectLinks lib source baseURL internalSeen candidateSeen links nodes
          else collectLinks lib source baseURL internalSeen (insert destination candidateSeen)
                 (links\<lparr>pl_Candidates := pl_Candidates links @ [\<lparr>c_Origin = destination, c_Kind = KindLink\<rparr>]\<rparr>)
                 nodes)"

definition extractPageLinks ::
    "link_lib \<Rightarrow> origin \<Rightarrow> url option \<Rightarrow> string \<Rightarrow> string \<Rightarrow> (go_error + page_links \<times> page_status) option" where
  "extractPageLinks lib source pageURL contentType b =
     (if origin_String source = [] then Some (Inl errInvalidSource)
      else (case pageURL of
              None \<Rightarrow> Some (Inl errInvalidPageURL)
            | Some pageURL \<Rightarrow>
                if Origin.Parse (lk_host lib) (url_String (lk_host lib) pageURL) \<noteq> Inr source
                then Some (Inl errInvalidPageURL)
                else if length b > MaxRawBody then Some (Inr (page_links_zero, StatusTooLarge))
                else (let effectiveContentType =
                            (if contentType = [] then lk_DetectContentType lib b else contentType)
                      in if \<not> isHTMLContentType lib effectiveContentType
                         then Some (Inr (page_links_zero, StatusUnsupportedContent))
                         else (case decodeHTML lib b effectiveContentType of
                                 Inl _ \<Rightarrow> Some (Inr (page_links_zero, StatusUnavailable))
                               | Inr (decoded, tooLarge) \<Rightarrow>
                                   if tooLarge then Some (Inr (page_links_zero, StatusTooLarge))
                                   else (case lk_html_Parse lib decoded of
                                           Inl _ \<Rightarrow> Some (Inr (page_links_zero, StatusUnavailable))
                                         | Inr document \<Rightarrow>
                                             (let baseURL = documentBaseURL (lk_host lib) document pageURL
                                              in case collectLinks (lk_host lib) source baseURL {} {}
                                                        page_links_zero document of
                                                   None \<Rightarrow> None
                                                 | Some links \<Rightarrow> Some (Inr (links, StatusComplete))))))))"

text \<open>Candidates sorted by serialization; distinct origins have distinct serializations, so ties do not occur.\<close>

definition ExtractPageLinks ::
    "link_lib \<Rightarrow> origin \<Rightarrow> url option \<Rightarrow> string \<Rightarrow> string \<Rightarrow> (go_error + page_links \<times> page_status) option" where
  "ExtractPageLinks lib source pageURL contentType b =
     (case extractPageLinks lib source pageURL contentType b of
        None \<Rightarrow> None
      | Some (Inl err) \<Rightarrow> Some (Inl err)
      | Some (Inr (links, status)) \<Rightarrow>
          Some (Inr (links\<lparr>pl_Candidates := sort_key (\<lambda>c. origin_String (c_Origin c)) (pl_Candidates links)\<rparr>,
                     status)))"

section \<open>What is extracted\<close>

definition linkTargets :: "host_lib \<Rightarrow> url \<Rightarrow> html_node list \<Rightarrow> (origin \<times> url) list" where
  "linkTargets lib baseURL nodes = List.map_filter (linkTarget lib baseURL) nodes"

abbreviation internalTargets :: "origin \<Rightarrow> (origin \<times> url) list \<Rightarrow> url list" where
  "internalTargets source targets \<equiv> map snd (filter (\<lambda>t. fst t = source) targets)"

abbreviation externalTargets :: "origin \<Rightarrow> (origin \<times> url) list \<Rightarrow> origin list" where
  "externalTargets source targets \<equiv> filter (\<lambda>d. d \<noteq> source) (map fst targets)"

lemma linkTargets_simps [simp]:
  "linkTargets lib baseURL [] = []"
  "linkTargets lib baseURL (node # nodes) =
     (case linkTarget lib baseURL node of None \<Rightarrow> [] | Some t \<Rightarrow> [t]) @ linkTargets lib baseURL nodes"
  by (auto simp: linkTargets_def map_filter_simps split: option.splits)

lemma canonicalPageURL_Some:
  "canonicalPageURL lib source u = Some v \<Longrightarrow> \<exists>s. url_Parse lib (origin_String source) = Inr s \<and>
     u_Scheme v = u_Scheme s \<and> u_Host v = u_Host s \<and> u_User v = None \<and> u_Fragment v = [] \<and> HasPrefix (u_Path v) ''/''"
  by (auto simp: canonicalPageURL_def HasPrefix_def split: sum.splits)

lemma collectLinks_internal:
  assumes "collectLinks lib source baseURL iseen cseen links nodes = Some out"
  shows "map (url_String lib) (pl_Internal out) = map (url_String lib) (pl_Internal links) @
      filter (\<lambda>k. k \<notin> iseen) (firsts (map (\<lambda>u. url_String lib (the (canonicalPageURL lib source u)))
        (internalTargets source (linkTargets lib baseURL nodes)))) \<and>
    set (pl_Internal out) \<subseteq> set (pl_Internal links) \<union> {v. \<exists>u. canonicalPageURL lib source u = Some v}"
  using assms
proof (induction nodes arbitrary: iseen cseen links)
  case (Cons node nodes)
  show ?case
  proof (cases "linkTarget lib baseURL node")
    case None
    with Cons show ?thesis by simp
  next
    case (Some t)
    obtain d u where t: "t = (d, u)" by fastforce
    show ?thesis
    proof (cases "d = source")
      case True
      with Cons.prems Some t obtain v where v: "canonicalPageURL lib source u = Some v"
        by (auto split: option.splits)
      show ?thesis
      proof (cases "url_String lib v \<in> iseen")
        case seen: True
        with Cons.prems Some t True v have "collectLinks lib source baseURL iseen cseen links nodes = Some out"
          by (simp add: Let_def)
        from Cons.IH [OF this] seen show ?thesis
          using Some t True v by (simp add: filter_firsts_skip del: filter_filter)
      next
        case fresh: False
        with Cons.prems Some t True v
        have "collectLinks lib source baseURL (insert (url_String lib v) iseen) cseen
            (links\<lparr>pl_Internal := pl_Internal links @ [v]\<rparr>) nodes = Some out"
          by (simp add: Let_def)
        from Cons.IH [OF this] fresh show ?thesis
          using Some t True v by (auto simp: conj_commute)
      qed
    next
      case False
      with Cons.prems Some t Cons.IH show ?thesis by (fastforce split: if_splits)
    qed
  qed
qed simp

lemma collectLinks_candidates:
  assumes "collectLinks lib source baseURL iseen cseen links nodes = Some out"
  shows "pl_Candidates out = pl_Candidates links @ map (\<lambda>d. \<lparr>c_Origin = d, c_Kind = KindLink\<rparr>)
      (filter (\<lambda>d. d \<notin> cseen) (firsts (externalTargets source (linkTargets lib baseURL nodes))))"
  using assms
proof (induction nodes arbitrary: iseen cseen links)
  case (Cons node nodes)
  show ?case
  proof (cases "linkTarget lib baseURL node")
    case None
    with Cons show ?thesis by simp
  next
    case (Some t)
    obtain d u where t: "t = (d, u)" by fastforce
    consider "d = source" | "d \<noteq> source" "d \<in> cseen" | "d \<noteq> source" "d \<notin> cseen" by blast
    then show ?thesis
    proof cases
      case 1
      with Cons.prems Some t Cons.IH show ?thesis
        by (fastforce simp: Let_def split: option.splits if_splits)
    next
      case 2
      with Cons.prems Some t have "collectLinks lib source baseURL iseen cseen links nodes = Some out" by simp
      from Cons.IH [OF this] 2 show ?thesis
        using Some t by (simp add: filter_firsts_skip del: filter_filter)
    next
      case 3
      with Cons.prems Some t Cons.IH show ?thesis by (fastforce simp: conj_commute)
    qed
  qed
qed simp

lemma collectLinks_panic:
  "collectLinks lib source baseURL iseen cseen links nodes = None \<Longrightarrow>
   url_Parse lib (origin_String source) \<in> range Inl"
  by (induction nodes arbitrary: iseen cseen links)
    (auto simp: Let_def canonicalPageURL_def split: option.splits if_splits sum.splits)

lemma readBounded_length: "readBounded r limit = Inr (data, large) \<Longrightarrow> length data \<le> limit"
  by (auto simp: readBounded_def split: sum.splits if_splits)

lemma extractPageLinks_complete:
  assumes "extractPageLinks lib source pageURL contentType b = Some (Inr (links, StatusComplete))"
  obtains page decoded document where "pageURL = Some page"
    "Origin.Parse (lk_host lib) (url_String (lk_host lib) page) = Inr source" "length b \<le> MaxRawBody"
    "length decoded \<le> MaxDecodedBody"
    "isHTMLContentType lib (if contentType = [] then lk_DetectContentType lib b else contentType)"
    "lk_html_Parse lib decoded = Inr document"
    "collectLinks (lk_host lib) source (documentBaseURL (lk_host lib) document page) {} {} page_links_zero document =
       Some links"
proof -
  let ?ct = "if contentType = [] then lk_DetectContentType lib b else contentType"
  from assms obtain page decoded where p: "pageURL = Some page"
      "Origin.Parse (lk_host lib) (url_String (lk_host lib) page) = Inr source" "length b \<le> MaxRawBody"
      "isHTMLContentType lib ?ct" "decodeHTML lib b ?ct = Inr (decoded, False)"
    unfolding extractPageLinks_def Let_def
    by (auto split: if_splits option.splits sum.splits prod.splits)
  moreover from p(5) have "length decoded \<le> MaxDecodedBody"
    unfolding decodeHTML_def by (auto split: sum.splits dest: readBounded_length)
  moreover from assms p obtain document where "lk_html_Parse lib decoded = Inr document"
      "collectLinks (lk_host lib) source (documentBaseURL (lk_host lib) document page) {} {} page_links_zero document =
         Some links"
    unfolding extractPageLinks_def Let_def by (auto split: if_splits option.splits sum.splits)
  ultimately show thesis by (intro that) auto
qed

lemma extractPageLinks_incomplete:
  "extractPageLinks lib source pageURL contentType b = Some (Inr (links, status)) \<Longrightarrow> status \<noteq> StatusComplete \<Longrightarrow>
   links = page_links_zero"
  unfolding extractPageLinks_def Let_def by (auto split: if_splits option.splits sum.splits prod.splits)

lemma extractPageLinks_errors:
  "extractPageLinks lib source pageURL contentType b = Some (Inl err) \<Longrightarrow> err \<in> {errInvalidSource, errInvalidPageURL}"
  "extractPageLinks lib source pageURL contentType b = None \<Longrightarrow>
   url_Parse (lk_host lib) (origin_String source) \<in> range Inl"
  unfolding extractPageLinks_def Let_def
  by (auto split: if_splits option.splits sum.splits prod.splits dest: collectLinks_panic)

section \<open>Properties\<close>

text \<open>
  What a page links to: unless a complete parse is reported, no links are returned; a complete parse read
  at most one mebibyte that decoded to at most two, of an HTML type, on a page of the source, and its result
  is, in terms of the link targets of the document in order: as internal pages, the first occurrences of the
  canonical URLs of the targets in the source, in document order; as candidates, each other origin once, in
  the order of serialization.
\<close>
theorem ExtractPageLinks_links:
  "case ExtractPageLinks lib source pageURL contentType b of
     None \<Rightarrow> url_Parse (lk_host lib) (origin_String source) \<in> range Inl
   | Some (Inl err) \<Rightarrow> err \<in> {errInvalidSource, errInvalidPageURL}
   | Some (Inr (links, status)) \<Rightarrow>
       if status \<noteq> StatusComplete then links = page_links_zero
       else \<exists>page decoded document targets.
         pageURL = Some page \<and> Origin.Parse (lk_host lib) (url_String (lk_host lib) page) = Inr source \<and>
         length b \<le> MaxRawBody \<and> length decoded \<le> MaxDecodedBody \<and>
         isHTMLContentType lib (if contentType = [] then lk_DetectContentType lib b else contentType) \<and>
         lk_html_Parse lib decoded = Inr document \<and>
         targets = linkTargets (lk_host lib) (documentBaseURL (lk_host lib) document page) document \<and>
         map (url_String (lk_host lib)) (pl_Internal links) =
           firsts (map (\<lambda>u. url_String (lk_host lib) (the (canonicalPageURL (lk_host lib) source u)))
             (internalTargets source targets)) \<and>
         set (pl_Internal links) \<subseteq> {v. \<exists>u. canonicalPageURL (lk_host lib) source u = Some v} \<and>
         sorted (map (\<lambda>c. origin_String (c_Origin c)) (pl_Candidates links)) \<and>
         distinct (pl_Candidates links) \<and>
         set (pl_Candidates links) = (\<lambda>d. \<lparr>c_Origin = d, c_Kind = KindLink\<rparr>) ` set (externalTargets source targets)"
proof (cases "extractPageLinks lib source pageURL contentType b")
  case None
  then show ?thesis using extractPageLinks_errors(2) by (simp add: ExtractPageLinks_def)
next
  case (Some r)
  show ?thesis
  proof (cases r)
    case (Inl err)
    with Some extractPageLinks_errors(1) [of lib source pageURL contentType b] show ?thesis
      by (simp add: ExtractPageLinks_def)
  next
    case (Inr p)
    obtain links status where p: "p = (links, status)" by fastforce
    note run = Some [unfolded Inr p]
    show ?thesis
    proof (cases "status = StatusComplete")
      case False
      with extractPageLinks_incomplete [OF run] run show ?thesis
        by (simp add: ExtractPageLinks_def page_links_zero_def)
    next
      case True
      with run have "extractPageLinks lib source pageURL contentType b = Some (Inr (links, StatusComplete))" by simp
      then obtain page decoded document where x: "pageURL = Some page"
          "Origin.Parse (lk_host lib) (url_String (lk_host lib) page) = Inr source" "length b \<le> MaxRawBody"
          "length decoded \<le> MaxDecodedBody"
          "isHTMLContentType lib (if contentType = [] then lk_DetectContentType lib b else contentType)"
          "lk_html_Parse lib decoded = Inr document"
          "collectLinks (lk_host lib) source (documentBaseURL (lk_host lib) document page) {} {} page_links_zero
             document = Some links"
        by (rule extractPageLinks_complete)
      let ?t = "linkTargets (lk_host lib) (documentBaseURL (lk_host lib) document page) document"
      have cands: "pl_Candidates links = map (\<lambda>d. \<lparr>c_Origin = d, c_Kind = KindLink\<rparr>) (firsts (externalTargets source ?t))"
        using collectLinks_candidates [OF x(7)] by (simp add: page_links_zero_def)
      then have "distinct (pl_Candidates links)"
        by (simp add: distinct_map inj_on_def)
      with x cands collectLinks_internal [OF x(7)] run True show ?thesis
        by (auto simp: ExtractPageLinks_def page_links_zero_def intro!: exI [of _ decoded])
    qed
  qed
qed

end
