(* ===== verification/Declaration.thy ===== *)
theory Declaration
  imports Prelude
begin

text \<open>
  \<^verbatim>\<open>internal/declaration/declaration.go\<close> and \<^verbatim>\<open>body.go\<close>: reading and validating an RFC-JOSH-0002 declaration.
  The JSON decoder is the argument \<open>unmarshal\<close>: for a document it accepts it gives the raw texts of the
  members \<^verbatim>\<open>version\<close> and \<^verbatim>\<open>josh\<close>, empty when absent.
\<close>

definition MaxBodySize :: nat where "MaxBodySize = 64 * 1024"

datatype parse_status = ParseInvalid | ParseValid | ParseUnsupportedVersion

text \<open>Identities outside the named constants are the other values of the source's \<^verbatim>\<open>uint8\<close>.\<close>

datatype identity = IdentityUndeclared | IdentityAffirmed | IdentityDeclined | IdentityOther nat

record josh_declaration =
  Version :: int
  Identity :: identity

definition declaration_zero :: josh_declaration where
  "declaration_zero = \<lparr>Version = 0, Identity = IdentityUndeclared\<rparr>"

record parse_result =
  pr_Status :: parse_status
  pr_Declaration :: josh_declaration

record wire_declaration =
  w_Version :: string
  w_Josh :: string

definition isJSONInteger :: "string \<Rightarrow> bool" where
  "isJSONInteger v =
     (if v = [] then False
      else (let digits = (if hd v = CHR ''-'' then tl v else v)
            in list_all is_digit digits \<and> digits \<noteq> []))"

definition parseFailure :: "parse_status \<Rightarrow> parse_result" where
  "parseFailure status = \<lparr>pr_Status = status, pr_Declaration = declaration_zero\<rparr>"

definition Parse :: "(string \<Rightarrow> wire_declaration option) \<Rightarrow> string \<Rightarrow> parse_result" where
  "Parse unmarshal data =
     (if length data > MaxBodySize \<or> \<not> utf8_Valid data then parseFailure ParseInvalid
      else (case unmarshal data of
              None \<Rightarrow> parseFailure ParseInvalid
            | Some wire \<Rightarrow>
                (let version = TrimSpace (w_Version wire)
                 in if \<not> isJSONInteger version then parseFailure ParseInvalid
                    else if version \<noteq> ''1'' then parseFailure ParseUnsupportedVersion
                    else (let josh = TrimSpace (w_Josh wire);
                              valid = (\<lambda>i. \<lparr>pr_Status = ParseValid,
                                             pr_Declaration = \<lparr>Version = 1, Identity = i\<rparr>\<rparr>)
                          in if josh = [] then valid IdentityUndeclared
                             else if josh = ''true'' then valid IdentityAffirmed
                             else if josh = ''false'' then valid IdentityDeclined
                             else parseFailure ParseInvalid))))"

definition errDeclarationBodyTooLarge where
  "errDeclarationBodyTooLarge = Sentinel ''declaration: response body too large''"

definition readDeclarationBody :: "body \<Rightarrow> go_error + string" where
  "readDeclarationBody b =
     (case ReadAll_limited b (MaxBodySize + 1) of
        Inl err \<Rightarrow> Inl (Wrap ''declaration: read response body'' [err])
      | Inr data \<Rightarrow> if length data > MaxBodySize then Inl errDeclarationBodyTooLarge else Inr data)"

section \<open>Properties\<close>

lemma readDeclarationBody_length: "readDeclarationBody b = Inr data \<Longrightarrow> length data \<le> MaxBodySize"
  by (auto simp: readDeclarationBody_def split: sum.splits if_splits)

text \<open>
  A declaration is accepted exactly when its body fits in 64 KiB, is valid UTF-8, decodes, has the
  version 1 and a josh member that is absent, true or false; what is accepted has version 1 and the
  identity the member names, and an unsupported version is reported exactly for another JSON integer.
\<close>
theorem Parse_declaration:
  "Parse unmarshal data =
     (if length data \<le> 65536 \<and> utf8_Valid data then
        (case map_option (\<lambda>w. (TrimSpace (w_Version w), TrimSpace (w_Josh w))) (unmarshal data) of
           None \<Rightarrow> parseFailure ParseInvalid
         | Some (v, j) \<Rightarrow>
             if v = ''1'' \<and> j \<in> {'''', ''true'', ''false''}
             then \<lparr>pr_Status = ParseValid,
                   pr_Declaration = \<lparr>Version = 1,
                     Identity = (if j = '''' then IdentityUndeclared
                                 else if j = ''true'' then IdentityAffirmed else IdentityDeclined)\<rparr>\<rparr>
             else if isJSONInteger v \<and> v \<noteq> ''1'' then parseFailure ParseUnsupportedVersion
             else parseFailure ParseInvalid)
      else parseFailure ParseInvalid)"
proof -
  have "isJSONInteger ''1''" by (simp add: isJSONInteger_def is_digit_def byte_of_def)
  then show ?thesis
    by (auto simp: Parse_def Let_def MaxBodySize_def split: option.splits)
qed

end
