(* ===== verification/Robots_Policy.thy ===== *)
theory Robots_Policy
  imports Urls
begin

text \<open>
  The robots exclusion policy of \<^verbatim>\<open>internal/robots/robots.go\<close> and \<^verbatim>\<open>internal/robots/body.go\<close>: parsing
  a robots.txt body into groups, selecting the groups that apply to JoshBot, the crawl delay, and the
  decision whether a target is allowed.
\<close>

section \<open>Data\<close>

definition ProductToken :: string where
  "ProductToken = ''Joshternet-Joshbot''"

definition ErrInvalidCrawlDelay :: go_error where
  "ErrInvalidCrawlDelay = Sentinel ''robots: invalid crawl-delay''"

record rule =
  rule_pattern :: string
  rule_allow :: bool
  rule_specificity :: int

record group =
  userAgents :: "string list"
  group_rules :: "rule list"
  group_crawlDelays :: "string list"
  hasDirectives :: bool

record policy =
  policy_rules :: "rule list"
  policy_crawlDelays :: "string list"

definition empty_group :: group where
  "empty_group = \<lparr>userAgents = [], group_rules = [], group_crawlDelays = [], hasDirectives = False\<rparr>"

section \<open>Records and tokens\<close>

definition hasControlCharacter :: "string \<Rightarrow> bool" where
  "hasControlCharacter value \<longleftrightarrow>
     list_ex (\<lambda>c. byte_of c < 32 \<and> byte_of c \<noteq> 9 \<or> byte_of c = 127) value"

definition parseRecord :: "string \<Rightarrow> (string \<times> string) option" where
  "parseRecord rawLine =
     (let trimmed = TrimSuffix rawLine [CHR 0x0D] in
      if \<not> utf8_Valid trimmed \<or> hasControlCharacter trimmed then None
      else
        (case Cut trimmed CHR ''#'' of (content, _, _) \<Rightarrow>
         (case Cut content CHR '':'' of (field, value, found) \<Rightarrow>
            if \<not> found then None
            else Some (Trim field [CHR '' '', CHR 0x09], Trim value [CHR '' '', CHR 0x09]))))"

definition validProductToken :: "string \<Rightarrow> bool" where
  "validProductToken token =
     (if token = ''*'' then True
      else if list_ex (\<lambda>c. \<not> in_range 65 90 c \<and> \<not> in_range 97 122 c \<and>
                          c \<noteq> CHR ''-'' \<and> c \<noteq> CHR ''_'') token
      then False
      else token \<noteq> [])"

section \<open>Normalisation of match values\<close>

text \<open>
  The index loop of \<^verbatim>\<open>normalizeMatchValue\<close> as recursion over the remaining bytes; \<open>None\<close> is its
  \<^verbatim>\<open>false\<close> result.
\<close>

function normalizeMatchValue :: "string \<Rightarrow> bool \<Rightarrow> string option" where
  "normalizeMatchValue value encodeSpecial =
     (case value of
        [] \<Rightarrow> Some []
      | character # rest \<Rightarrow>
          if character = CHR ''%'' then
            (case rest of
               a # b # rest' \<Rightarrow>
                 if \<not> isHex a \<or> \<not> isHex b then None
                 else map_option
                        (\<lambda>out. (if isUnreserved (hexOctet a b) then [hexOctet a b]
                                else percentEncoded (hexOctet a b)) @ out)
                        (normalizeMatchValue rest' encodeSpecial)
             | _ \<Rightarrow> None)
          else if byte_of character \<ge> 128 then
            (if rune_size value = 0 then None
             else map_option
                    (\<lambda>out. concat (map percentEncoded (take (rune_size value) value)) @ out)
                    (normalizeMatchValue (drop (rune_size value) value) encodeSpecial))
          else if byte_of character < 32 \<or> byte_of character = 127 then None
          else if encodeSpecial \<and> (character = CHR ''*'' \<or> character = CHR ''$'') then
            map_option (\<lambda>out. percentEncoded character @ out)
              (normalizeMatchValue rest encodeSpecial)
          else map_option (\<lambda>out. character # out) (normalizeMatchValue rest encodeSpecial))"
  by pat_completeness auto
termination
  by (relation "measure (\<lambda>(value, encodeSpecial). length value)")
     (use rune_size_le in \<open>auto split: list.splits\<close>)

declare normalizeMatchValue.simps [simp del]

definition makeRule :: "bool \<Rightarrow> string \<Rightarrow> rule option" where
  "makeRule allow pattern =
     (case pattern of
        [] \<Rightarrow> None
      | c # _ \<Rightarrow>
          if c \<noteq> CHR ''/'' \<and> c \<noteq> CHR ''*'' then None
          else (case normalizeMatchValue pattern False of
                  None \<Rightarrow> None
                | Some normalized \<Rightarrow>
                    Some \<lparr>rule_pattern = normalized, rule_allow = allow,
                          rule_specificity = int (length normalized)\<rparr>))"

section \<open>Groups\<close>

text \<open>
  \<^verbatim>\<open>parseGroups\<close> keeps a slice of groups and a pointer \<^verbatim>\<open>current\<close>, which is nil before the first
  group and otherwise points at the last one: the state here is the list, and \<open>update_current\<close> writes
  through the pointer.
\<close>

definition update_current :: "(group \<Rightarrow> group) \<Rightarrow> group list \<Rightarrow> group list" where
  "update_current f groups = butlast groups @ [f (last groups)]"

definition addUserAgent :: "group list \<Rightarrow> string \<Rightarrow> group list" where
  "addUserAgent groups value =
     (if validProductToken value then
        (let opened = (if groups = [] \<or> hasDirectives (last groups)
                       then groups @ [empty_group] else groups)
         in update_current (\<lambda>g. g\<lparr>userAgents := userAgents g @ [value]\<rparr>) opened)
      else groups @ [empty_group])"

definition addRule :: "group list \<Rightarrow> bool \<Rightarrow> string \<Rightarrow> group list" where
  "addRule groups allow value =
     (if groups \<noteq> [] \<and> userAgents (last groups) \<noteq> [] then
        update_current
          (\<lambda>g. case makeRule allow value of
                 None \<Rightarrow> g\<lparr>hasDirectives := True\<rparr>
               | Some r \<Rightarrow> g\<lparr>hasDirectives := True, group_rules := group_rules g @ [r]\<rparr>)
          groups
      else groups)"

definition addCrawlDelay :: "group list \<Rightarrow> string \<Rightarrow> group list" where
  "addCrawlDelay groups value =
     (if groups \<noteq> [] \<and> userAgents (last groups) \<noteq> [] then
        update_current
          (\<lambda>g. g\<lparr>hasDirectives := True, group_crawlDelays := group_crawlDelays g @ [value]\<rparr>)
          groups
      else groups)"

definition parseLine :: "group list \<Rightarrow> string \<Rightarrow> group list" where
  "parseLine groups line =
     (case parseRecord line of
        None \<Rightarrow> groups
      | Some (field, value) \<Rightarrow>
          if EqualFold field ''user-agent'' then addUserAgent groups value
          else if EqualFold field ''allow'' \<or> EqualFold field ''disallow'' then
            addRule groups (EqualFold field ''allow'') value
          else if EqualFold field ''crawl-delay'' then addCrawlDelay groups value
          else groups)"

definition parseGroups :: "string \<Rightarrow> group list" where
  "parseGroups data = foldl parseLine [] (Split data CHR 0x0A)"

text \<open>
  The selection loop of \<^verbatim>\<open>Parse\<close>: the accumulators of the exact and of the wildcard groups, and
  whether an exact group was seen. A group that names JoshBot and \<open>*\<close> counts as exact only.
\<close>

record selection =
  exactRules :: "rule list"
  exactCrawlDelays :: "string list"
  wildcardRules :: "rule list"
  wildcardCrawlDelays :: "string list"
  exactMatched :: bool

definition group_exact :: "group \<Rightarrow> bool" where
  "group_exact g \<longleftrightarrow> list_ex (\<lambda>ua. EqualFold ua ProductToken) (userAgents g)"

definition group_wildcard :: "group \<Rightarrow> bool" where
  "group_wildcard g \<longleftrightarrow>
     list_ex (\<lambda>ua. \<not> EqualFold ua ProductToken \<and> ua = ''*'') (userAgents g)"

definition selectGroup :: "selection \<Rightarrow> group \<Rightarrow> selection" where
  "selectGroup s candidate =
     (if group_exact candidate then
        s\<lparr>exactMatched := True,
          exactRules := exactRules s @ group_rules candidate,
          exactCrawlDelays := exactCrawlDelays s @ group_crawlDelays candidate\<rparr>
      else if group_wildcard candidate then
        s\<lparr>wildcardRules := wildcardRules s @ group_rules candidate,
          wildcardCrawlDelays := wildcardCrawlDelays s @ group_crawlDelays candidate\<rparr>
      else s)"

definition empty_selection :: selection where
  "empty_selection = \<lparr>exactRules = [], exactCrawlDelays = [], wildcardRules = [],
     wildcardCrawlDelays = [], exactMatched = False\<rparr>"

definition Parse :: "string \<Rightarrow> policy" where
  "Parse data =
     (let s = foldl selectGroup empty_selection (parseGroups data) in
      if exactMatched s
      then \<lparr>policy_rules = exactRules s, policy_crawlDelays = exactCrawlDelays s\<rparr>
      else \<lparr>policy_rules = wildcardRules s, policy_crawlDelays = wildcardCrawlDelays s\<rparr>)"

section \<open>Crawl delays\<close>

text \<open>
  \<^verbatim>\<open>parseCrawlDelay\<close> computes in \<^verbatim>\<open>uint64\<close>; the model keeps the width, so that a wrap-around of the
  multiplication or of the sum would show.
\<close>

definition maxDurationNanoseconds :: "64 word" where
  "maxDurationNanoseconds = 9223372036854775807"

definition nanosecondsPerSecond :: "64 word" where
  "nanosecondsPerSecond = 1000000000"

definition decimalDigits :: "string \<Rightarrow> bool" where
  "decimalDigits value \<longleftrightarrow> list_all is_digit value"

definition fractionalNanoseconds :: "string \<Rightarrow> 64 word" where
  "fractionalNanoseconds fractionalValue =
     ((\<lambda>n. n * 10) ^^ (9 - length fractionalValue))
       (foldl (\<lambda>n c. n * 10 + word_of_nat (digit_value c)) 0 fractionalValue)"

definition parseCrawlDelay :: "string \<Rightarrow> go_error + duration" where
  "parseCrawlDelay value =
     (case Cut value CHR ''.'' of (secondsValue, fractionalValue, hasFraction) \<Rightarrow>
        if secondsValue = [] \<or> \<not> decimalDigits secondsValue then Inl ErrInvalidCrawlDelay
        else if hasFraction \<and>
                (fractionalValue = [] \<or> length fractionalValue > 9 \<or>
                 \<not> decimalDigits fractionalValue)
        then Inl ErrInvalidCrawlDelay
        else (case ParseUint 64 secondsValue of
                None \<Rightarrow> Inl ErrInvalidCrawlDelay
              | Some n \<Rightarrow>
                  let seconds = (word_of_nat n :: 64 word) in
                  if seconds > maxDurationNanoseconds div nanosecondsPerSecond
                  then Inl ErrInvalidCrawlDelay
                  else
                    let totalNanoseconds = seconds * nanosecondsPerSecond in
                    if hasFraction then
                      (let fractional = fractionalNanoseconds fractionalValue in
                       if fractional > maxDurationNanoseconds - totalNanoseconds
                       then Inl ErrInvalidCrawlDelay
                       else Inr (sint (totalNanoseconds + fractional)))
                    else Inr (sint totalNanoseconds)))"

fun crawlDelay_loop :: "duration \<Rightarrow> string list \<Rightarrow> go_error + duration" where
  "crawlDelay_loop delay [] = Inr delay"
| "crawlDelay_loop delay (value # values) =
     (case parseCrawlDelay value of
        Inl err \<Rightarrow> Inl err
      | Inr parsed \<Rightarrow> crawlDelay_loop (if parsed > delay then parsed else delay) values)"

definition crawlDelay :: "policy \<Rightarrow> duration \<Rightarrow> go_error + duration" where
  "crawlDelay p limit =
     (case crawlDelay_loop 0 (policy_crawlDelays p) of
        Inl err \<Rightarrow> Inl err
      | Inr delay \<Rightarrow> Inr (min delay limit))"

definition DefaultMaxCrawlDelay :: duration where
  "DefaultMaxCrawlDelay = 30 * second"

definition CrawlDelay :: "policy \<Rightarrow> go_error + duration" where
  "CrawlDelay p = crawlDelay p DefaultMaxCrawlDelay"

section \<open>Pattern matching\<close>

text \<open>
  The loop of \<^verbatim>\<open>patternMatches\<close> with its four variables; \<open>None\<close> is \<^verbatim>\<open>starIndex = -1\<close>. After every
  step the source returns true when an unanchored pattern is used up.
\<close>

fun skipStars :: "string \<Rightarrow> bool" where
  "skipStars [] = True"
| "skipStars (c # rest) = (c = CHR ''*'' \<and> skipStars rest)"

function matchLoop ::
  "bool \<Rightarrow> string \<Rightarrow> string \<Rightarrow> nat \<Rightarrow> nat \<Rightarrow> nat option \<Rightarrow> nat \<Rightarrow> bool" where
  "matchLoop anchored pattern target patternIndex targetIndex starIndex starTargetIndex =
     (if targetIndex < length target then
        if patternIndex < length pattern \<and> pattern ! patternIndex = CHR ''*'' then
          (if \<not> anchored \<and> Suc patternIndex = length pattern then True
           else matchLoop anchored pattern target (Suc patternIndex) targetIndex
                  (Some patternIndex) targetIndex)
        else if patternIndex < length pattern \<and> pattern ! patternIndex = target ! targetIndex then
          (if \<not> anchored \<and> Suc patternIndex = length pattern then True
           else matchLoop anchored pattern target (Suc patternIndex) (Suc targetIndex)
                  starIndex starTargetIndex)
        else
          (case starIndex of
             Some star \<Rightarrow>
               if \<not> anchored \<and> Suc star = length pattern then True
               else matchLoop anchored pattern target (Suc star) (Suc starTargetIndex)
                      (Some star) (Suc starTargetIndex)
           | None \<Rightarrow> False)
      else skipStars (drop patternIndex pattern))"
  by pat_completeness auto
termination
  by (relation "measures
        [\<lambda>(a, p, t, i, j, s, k). if k \<le> j then 0 else 1,
         \<lambda>(a, p, t, i, j, s, k). length t - k,
         \<lambda>(a, p, t, i, j, s, k). length p - i]") auto

declare matchLoop.simps [simp del]

definition patternMatches :: "string \<Rightarrow> string \<Rightarrow> bool" where
  "patternMatches rawPattern target =
     (let anchored = HasSuffix rawPattern ''$'';
          pattern = (if anchored then TrimSuffix rawPattern ''$'' else rawPattern)
      in matchLoop anchored pattern target 0 0 None 0)"

section \<open>The decision\<close>

definition targetMatchValue :: "url option \<Rightarrow> string option" where
  "targetMatchValue target =
     (case target of
        None \<Rightarrow> None
      | Some u \<Rightarrow>
          if (u_Scheme u \<noteq> ''http'' \<and> u_Scheme u \<noteq> ''https'') \<or> u_Host u = [] \<or> u_User u \<noteq> None
          then None
          else
            (let escaped = EscapedPath u;
                 path = (if escaped = [] then ''/'' else escaped);
                 value = (if u_ForceQuery u \<or> u_RawQuery u \<noteq> []
                          then path @ ''?'' @ u_RawQuery u else path)
             in normalizeMatchValue value True))"

definition considerRule :: "string \<Rightarrow> bool \<times> int \<Rightarrow> rule \<Rightarrow> bool \<times> int" where
  "considerRule targetValue best candidate =
     (case best of (allowed, bestSpecificity) \<Rightarrow>
        if \<not> patternMatches (rule_pattern candidate) targetValue then best
        else if rule_specificity candidate > bestSpecificity \<or>
                rule_specificity candidate = bestSpecificity \<and> rule_allow candidate
        then (rule_allow candidate, rule_specificity candidate)
        else best)"

definition Allowed :: "policy \<Rightarrow> url option \<Rightarrow> bool" where
  "Allowed p target =
     (case targetMatchValue target of
        None \<Rightarrow> False
      | Some targetValue \<Rightarrow>
          if targetValue = ''/robots.txt'' then True
          else fst (foldl (considerRule targetValue) (True, -1) (policy_rules p)))"

section \<open>Reading a body\<close>

definition MaxBodySize :: nat where
  "MaxBodySize = 500 * 1024"

definition errBodyTooLarge :: go_error where
  "errBodyTooLarge = Sentinel ''robots: body exceeds 500 KiB''"

definition disallowAllPolicy :: policy where
  "disallowAllPolicy =
     \<lparr>policy_rules = [\<lparr>rule_pattern = ''*'', rule_allow = False, rule_specificity = 1\<rparr>],
      policy_crawlDelays = []\<rparr>"

text \<open>The policy and the error that \<^verbatim>\<open>readPolicy\<close> returns together.\<close>

definition readPolicy :: "body \<Rightarrow> policy \<times> go_error option" where
  "readPolicy b =
     (case ReadAll_limited b (MaxBodySize + 1) of
        Inl err \<Rightarrow> (disallowAllPolicy, Some (Wrap ''robots: read body'' [err]))
      | Inr data \<Rightarrow>
          if length data > MaxBodySize then (disallowAllPolicy, Some errBodyTooLarge)
          else (Parse data, None))"

section \<open>The matcher against a declarative reading of RFC 9309\<close>

text \<open>
  \<open>glob\<close>: \<^verbatim>\<open>*\<close> stands for any sequence of bytes, every other byte for itself. \<open>globAt\<close> asks for
  the whole target when the pattern is anchored and for a prefix of it otherwise; \<open>rfcMatches\<close> reads a
  final \<^verbatim>\<open>$\<close> as the anchor.
\<close>

fun glob :: "string \<Rightarrow> string \<Rightarrow> bool" where
  "glob [] t \<longleftrightarrow> t = []"
| "glob (c # p) t \<longleftrightarrow>
     (if c = CHR ''*'' then \<exists>k \<le> length t. glob p (drop k t)
      else (case t of [] \<Rightarrow> False | x # t' \<Rightarrow> c = x \<and> glob p t'))"

definition globAt :: "bool \<Rightarrow> string \<Rightarrow> string \<Rightarrow> bool" where
  "globAt anchored p t \<longleftrightarrow> (if anchored then glob p t else \<exists>k \<le> length t. glob p (take k t))"

definition rfcMatches :: "string \<Rightarrow> string \<Rightarrow> bool" where
  "rfcMatches pattern target \<longleftrightarrow>
     (if last pattern = CHR ''$'' then globAt True (butlast pattern) target
      else globAt False pattern target)"

lemma globAt_Nil: "globAt anchored [] t \<longleftrightarrow> \<not> anchored \<or> t = []"
  by (auto simp: globAt_def)

lemma globAt_star:
  "globAt anchored (CHR ''*'' # p) t \<longleftrightarrow> (\<exists>k \<le> length t. globAt anchored p (drop k t))"
proof (cases anchored)
  case False
  have "(\<exists>k \<le> length t. \<exists>j \<le> length (take k t). glob p (drop j (take k t))) \<longleftrightarrow>
        (\<exists>j \<le> length t. \<exists>k \<le> length (drop j t). glob p (take k (drop j t)))"
    (is "?L \<longleftrightarrow> ?R")
  proof
    assume ?L
    then obtain k j where "k \<le> length t" "j \<le> k" "glob p (take (k - j) (drop j t))"
      by (auto simp: drop_take)
    then show ?R by (intro exI [of _ j] exI [of _ "k - j"] conjI) auto
  next
    assume ?R
    then obtain j k where "j \<le> length t" "k \<le> length t - j" "glob p (take k (drop j t))"
      by auto
    then show ?L
      by (intro exI [of _ "j + k"] exI [of _ j] conjI) (auto simp: drop_take)
  qed
  with False show ?thesis by (simp add: globAt_def)
qed (simp add: globAt_def)

lemma globAt_literal:
  "c \<noteq> CHR ''*'' \<Longrightarrow>
   globAt anchored (c # p) t \<longleftrightarrow> (case t of [] \<Rightarrow> False | x # t' \<Rightarrow> c = x \<and> globAt anchored p t')"
proof (cases t)
  case (Cons x t')
  assume c: "c \<noteq> CHR ''*''"
  have "(\<exists>k \<le> Suc (length t'). glob (c # p) (take k (x # t'))) \<longleftrightarrow>
        (c = x \<and> (\<exists>k \<le> length t'. glob p (take k t')))" (is "?L \<longleftrightarrow> ?R")
  proof
    assume ?L
    then obtain k where k: "k \<le> Suc (length t')" "glob (c # p) (take k (x # t'))" by blast
    with c show ?R by (cases k) auto
  next
    assume ?R
    then obtain k where "c = x" "k \<le> length t'" "glob p (take k t')" by blast
    with c show ?L by (intro exI [of _ "Suc k"]) auto
  qed
  with c Cons show ?thesis by (simp add: globAt_def)
qed (simp add: globAt_def)

lemma globAt_literals:
  "CHR ''*'' \<notin> set lit \<Longrightarrow> globAt anchored (lit @ p) t \<Longrightarrow>
   length lit \<le> length t \<and> globAt anchored p (drop (length lit) t)"
  by (induction lit arbitrary: t) (auto simp: globAt_literal split: list.splits)

lemma globAt_end: "globAt anchored p [] \<longleftrightarrow> skipStars p"
proof (induction p)
  case (Cons c p)
  then show ?case
    by (cases "c = CHR ''*''") (simp_all add: globAt_star globAt_literal)
qed (simp add: globAt_Nil)

text \<open>
  What the loop knows: \<open>matchState\<close> is its invariant (between the last star and the pattern index
  there is no star, and the two indices moved in step since), \<open>matchRest\<close> says that a later start of
  the last star succeeds, and \<open>matchAccepts\<close> is the answer the loop still owes.
\<close>

definition matchState :: "bool \<Rightarrow> string \<Rightarrow> string \<Rightarrow> nat \<Rightarrow> nat \<Rightarrow> nat option \<Rightarrow> nat \<Rightarrow> bool" where
  "matchState anchored p t i j s k \<longleftrightarrow>
     i \<le> length p \<and> j \<le> length t \<and> (anchored \<or> i < length p) \<and>
     (case s of None \<Rightarrow> True
      | Some star \<Rightarrow> star < i \<and> CHR ''*'' \<notin> set (take (i - Suc star) (drop (Suc star) p)) \<and>
                     j = k + (i - Suc star))"

definition matchRest :: "bool \<Rightarrow> string \<Rightarrow> string \<Rightarrow> nat option \<Rightarrow> nat \<Rightarrow> bool" where
  "matchRest anchored p t s k \<longleftrightarrow>
     (case s of None \<Rightarrow> False
      | Some star \<Rightarrow> \<exists>m > k. m \<le> length t \<and> globAt anchored (drop (Suc star) p) (drop m t))"

definition matchAccepts :: "bool \<Rightarrow> string \<Rightarrow> string \<Rightarrow> nat \<Rightarrow> nat \<Rightarrow> nat option \<Rightarrow> nat \<Rightarrow> bool" where
  "matchAccepts anchored p t i j s k \<longleftrightarrow>
     globAt anchored (drop i p) (drop j t) \<or> matchRest anchored p t s k"

lemma matchRest_consumed:
  assumes st: "matchState anchored p t i j s k" and rest: "matchRest anchored p t s k"
  shows "\<exists>m > j. m \<le> length t \<and> globAt anchored (drop i p) (drop m t)"
proof -
  from rest obtain star m where s: "s = Some star" and m: "k < m" "m \<le> length t"
    and g: "globAt anchored (drop (Suc star) p) (drop m t)"
    by (auto simp: matchRest_def split: option.splits)
  let ?lit = "take (i - Suc star) (drop (Suc star) p)"
  from st s have i: "star < i" "i \<le> length p" and nostar: "CHR ''*'' \<notin> set ?lit"
    and j: "j = k + (i - Suc star)"
    by (auto simp: matchState_def)
  have split: "drop (Suc star) p = ?lit @ drop i p"
    using i by (metis Suc_leI append_take_drop_id drop_drop le_add_diff_inverse2)
  have len: "length ?lit = i - Suc star" using i by auto
  from g have "globAt anchored (?lit @ drop i p) (drop m t)" by (simp only: split [symmetric])
  from globAt_literals [OF nostar this, unfolded len]
  have "i - Suc star \<le> length t - m" and "globAt anchored (drop i p) (drop (m + (i - Suc star)) t)"
    by (simp_all add: add.commute)
  with m j show ?thesis
    by (intro exI [of _ "m + (i - Suc star)"]) auto
qed

lemma globAt_star_from:
  assumes "i < length p" and "p ! i = CHR ''*''" and "j \<le> length t"
  shows "globAt a (drop i p) (drop j t) \<longleftrightarrow>
         (\<exists>m \<ge> j. m \<le> length t \<and> globAt a (drop (Suc i) p) (drop m t))"
proof -
  have di: "drop i p = CHR ''*'' # drop (Suc i) p"
    using assms by (metis Cons_nth_drop_Suc)
  show ?thesis
    unfolding di globAt_star
  proof safe
    fix n assume "n \<le> length (drop j t)" "globAt a (drop (Suc i) p) (drop n (drop j t))"
    with assms show "\<exists>m \<ge> j. m \<le> length t \<and> globAt a (drop (Suc i) p) (drop m t)"
      by (intro exI [of _ "n + j"]) auto
  next
    fix m assume "j \<le> m" "m \<le> length t" "globAt a (drop (Suc i) p) (drop m t)"
    then show "\<exists>n \<le> length (drop j t). globAt a (drop (Suc i) p) (drop n (drop j t))"
      by (intro exI [of _ "m - j"]) auto
  qed
qed

lemma matchState_star:
  "matchState a p t i j s k \<Longrightarrow> i < length p \<Longrightarrow> \<not> (\<not> a \<and> Suc i = length p) \<Longrightarrow>
   matchState a p t (Suc i) j (Some i) j"
  by (auto simp: matchState_def)

lemma matchAccepts_star:
  assumes st: "matchState a p t i j s k" and star: "i < length p" "p ! i = CHR ''*''"
  shows "matchAccepts a p t i j s k \<longleftrightarrow> matchAccepts a p t (Suc i) j (Some i) j"
proof -
  have jt: "j \<le> length t" using st by (simp add: matchState_def)
  note from_star = globAt_star_from [OF star]
  have "matchRest a p t s k \<Longrightarrow> globAt a (drop i p) (drop j t)"
    using matchRest_consumed [OF st] from_star [OF jt] from_star
    by (meson le_trans less_imp_le)
  moreover have "globAt a (drop i p) (drop j t) \<longleftrightarrow> matchAccepts a p t (Suc i) j (Some i) j"
    using from_star [OF jt] jt by (auto simp: matchAccepts_def matchRest_def le_less)
  ultimately show ?thesis by (auto simp: matchAccepts_def)
qed

lemma matchState_literal:
  assumes st: "matchState a p t i j s k" and lit: "i < length p" "p ! i \<noteq> CHR ''*''"
    and jt: "j < length t" and more: "\<not> (\<not> a \<and> Suc i = length p)"
  shows "matchState a p t (Suc i) (Suc j) s k"
proof -
  have "CHR ''*'' \<notin> set (take (i - x) (drop (Suc x) p))" if "s = Some x" for x
  proof -
    from st that have x: "x < i" "CHR ''*'' \<notin> set (take (i - Suc x) (drop (Suc x) p))"
      by (auto simp: matchState_def)
    then have "take (Suc (i - Suc x)) (drop (Suc x) p) =
        take (i - Suc x) (drop (Suc x) p) @ [p ! i]"
      using lit by (subst take_Suc_conv_app_nth) auto
    with x lit show ?thesis by (simp add: Suc_diff_Suc)
  qed
  with st lit jt more show ?thesis
    by (auto simp: matchState_def split: option.splits)
qed

lemma matchAccepts_literal:
  assumes "i < length p" and "p ! i = t ! j" and "p ! i \<noteq> CHR ''*''" and "j < length t"
  shows "matchAccepts a p t i j s k \<longleftrightarrow> matchAccepts a p t (Suc i) (Suc j) s k"
proof -
  have "drop i p = p ! i # drop (Suc i) p" and "drop j t = t ! j # drop (Suc j) t"
    using assms Cons_nth_drop_Suc by metis+
  with assms show ?thesis by (simp add: matchAccepts_def globAt_literal)
qed

lemma matchAccepts_mismatch:
  assumes "matchState a p t i j s k" and "j < length t"
    and "\<not> (i < length p \<and> p ! i = CHR ''*'')" and "\<not> (i < length p \<and> p ! i = t ! j)"
  shows "matchAccepts a p t i j s k \<longleftrightarrow> matchRest a p t s k"
proof -
  have dj: "drop j t = t ! j # drop (Suc j) t"
    using assms by (simp add: Cons_nth_drop_Suc)
  have "\<not> globAt a (drop i p) (drop j t)"
  proof (cases "i < length p")
    case True
    then have "drop i p = p ! i # drop (Suc i) p" by (simp add: Cons_nth_drop_Suc)
    with True assms show ?thesis by (auto simp: dj globAt_literal)
  next
    case False
    with assms show ?thesis by (auto simp: matchState_def globAt_Nil)
  qed
  then show ?thesis by (simp add: matchAccepts_def)
qed

lemma matchState_backtrack:
  assumes "matchState a p t i j (Some x) k" and "j < length t"
  shows "matchRest a p t (Some x) k \<longleftrightarrow> matchAccepts a p t (Suc x) (Suc k) (Some x) (Suc k)"
    and "\<not> (\<not> a \<and> Suc x = length p) \<Longrightarrow> matchState a p t (Suc x) (Suc k) (Some x) (Suc k)"
proof -
  have k: "Suc k \<le> length t" and x: "x < length p"
    using assms by (auto simp: matchState_def)
  show "matchRest a p t (Some x) k \<longleftrightarrow> matchAccepts a p t (Suc x) (Suc k) (Some x) (Suc k)"
    using k by (auto simp: matchRest_def matchAccepts_def intro: Suc_lessD) (metis Suc_lessI)+
  show "\<not> (\<not> a \<and> Suc x = length p) \<Longrightarrow> matchState a p t (Suc x) (Suc k) (Some x) (Suc k)"
    using k x by (auto simp: matchState_def)
qed

lemma matchAccepts_used_up: "\<not> a \<and> i = length p \<Longrightarrow> matchAccepts a p t i j s k"
  by (simp add: matchAccepts_def globAt_Nil)

lemma matchAccepts_end:
  assumes "matchState a p t i j s k" and "\<not> j < length t"
  shows "matchAccepts a p t i j s k \<longleftrightarrow> skipStars (drop i p)"
proof -
  have "j = length t" using assms by (simp add: matchState_def)
  moreover from this have "\<not> matchRest a p t s k"
    using matchRest_consumed [OF assms(1)] by auto
  ultimately show ?thesis by (simp add: matchAccepts_def globAt_end)
qed

lemma matchLoop_correct:
  "matchState a p t i j s k \<Longrightarrow> matchLoop a p t i j s k \<longleftrightarrow> matchAccepts a p t i j s k"
proof (induction a p t i j s k rule: matchLoop.induct)
  case (1 a p t i j s k)
  note st = "1.prems" and unfold = matchLoop.simps [of a p t i j s k]
  consider (stop) "\<not> j < length t"
    | (star) "j < length t" "i < length p \<and> p ! i = CHR ''*''"
    | (literal) "j < length t" "\<not> (i < length p \<and> p ! i = CHR ''*'')" "i < length p \<and> p ! i = t ! j"
    | (mismatch) "j < length t" "\<not> (i < length p \<and> p ! i = CHR ''*'')"
        "\<not> (i < length p \<and> p ! i = t ! j)"
    by blast
  then show ?case
  proof cases
    case stop
    with matchAccepts_end [OF st] show ?thesis by (simp add: unfold)
  next
    case star
    with "1.IH"(1) [OF star] show ?thesis
      using matchAccepts_star [OF st] matchState_star [OF st] matchAccepts_used_up
      by (auto simp: unfold)
  next
    case literal
    with "1.IH"(2) [OF literal] show ?thesis
      using matchAccepts_literal matchState_literal [OF st] matchAccepts_used_up
      by (auto simp: unfold)
  next
    case mismatch
    show ?thesis
    proof (cases s)
      case None
      with mismatch matchAccepts_mismatch [OF st mismatch] show ?thesis
        by (auto simp: matchLoop.simps [of a p t i j None k] matchRest_def)
    next
      case (Some x)
      with "1.IH"(3) [OF mismatch Some] mismatch matchAccepts_mismatch [OF st mismatch] show ?thesis
        using matchState_backtrack [of a p t i j x k] st matchAccepts_used_up
        by (auto simp: matchLoop.simps [of a p t i j "Some x" k])
    qed
  qed
qed

lemma patternMatches_rfcMatches:
  "pattern \<noteq> [] \<Longrightarrow> patternMatches pattern target \<longleftrightarrow> rfcMatches pattern target"
proof -
  assume ne: "pattern \<noteq> []"
  then have suffix: "HasSuffix pattern ''$'' \<longleftrightarrow> last pattern = CHR ''$''"
    by (auto simp: HasSuffix_def last_conv_nth neq_Nil_conv Cons_nth_drop_Suc [symmetric])
       
  have trim: "HasSuffix pattern ''$'' \<Longrightarrow> TrimSuffix pattern ''$'' = butlast pattern"
    by (simp add: TrimSuffix_def butlast_conv_take)
  let ?a = "HasSuffix pattern ''$''"
  let ?p = "if ?a then TrimSuffix pattern ''$'' else pattern"
  have "matchState ?a ?p target 0 0 None 0"
    using ne by (auto simp: matchState_def)
  from matchLoop_correct [OF this] show ?thesis
    by (simp add: patternMatches_def rfcMatches_def Let_def matchAccepts_def matchRest_def suffix trim)
qed

section \<open>Well-formed rules\<close>

definition rule_wf :: "rule \<Rightarrow> bool" where
  "rule_wf r \<longleftrightarrow> rule_pattern r \<noteq> [] \<and> rule_specificity r = int (length (rule_pattern r))"

definition group_wf :: "group \<Rightarrow> bool" where
  "group_wf g \<longleftrightarrow> list_all rule_wf (group_rules g) \<and>
     (userAgents g = [] \<longrightarrow> group_rules g = [] \<and> group_crawlDelays g = [] \<and> \<not> hasDirectives g)"

lemma normalizeMatchValue_nonempty:
  "normalizeMatchValue value e = Some out \<Longrightarrow> value \<noteq> [] \<Longrightarrow> out \<noteq> []"
proof -
  have pe: "percentEncoded c \<noteq> []" for c by (simp add: percentEncoded_def)
  have run: "concat (map percentEncoded (take (rune_size (c # s)) (c # s))) \<noteq> []"
    if "rune_size (c # s) \<noteq> 0" for c s
    using that pe by (cases "rune_size (c # s)") auto
  assume "normalizeMatchValue value e = Some out" "value \<noteq> []"
  then show ?thesis
    by (subst (asm) normalizeMatchValue.simps)
       (auto simp: pe run split: list.splits if_splits)
qed

lemma makeRule_wf: "makeRule allow pattern = Some r \<Longrightarrow> rule_wf r \<and> rule_allow r = allow"
  using normalizeMatchValue_nonempty
  by (fastforce simp: makeRule_def rule_wf_def split: list.splits if_splits option.splits)

lemma group_wf_empty: "group_wf empty_group"
  by (simp add: group_wf_def empty_group_def)

lemma update_current_wf:
  "groups \<noteq> [] \<Longrightarrow> list_all group_wf groups \<Longrightarrow> group_wf (f (last groups)) \<Longrightarrow>
   list_all group_wf (update_current f groups)"
  by (auto simp: update_current_def list_all_iff dest: in_set_butlastD)

lemma addUserAgent_wf: "list_all group_wf groups \<Longrightarrow> list_all group_wf (addUserAgent groups value)"
  by (auto simp: addUserAgent_def group_wf_empty Let_def intro!: update_current_wf)
     (auto simp: group_wf_def empty_group_def list_all_iff)

lemma addRule_wf: "list_all group_wf groups \<Longrightarrow> list_all group_wf (addRule groups allow value)"
  by (auto simp: addRule_def intro!: update_current_wf split: option.splits)
     (auto simp: group_wf_def list_all_iff dest: makeRule_wf)

lemma addCrawlDelay_wf: "list_all group_wf groups \<Longrightarrow> list_all group_wf (addCrawlDelay groups value)"
  by (auto simp: addCrawlDelay_def intro!: update_current_wf)
     (auto simp: group_wf_def list_all_iff)

lemma parseLine_wf: "list_all group_wf groups \<Longrightarrow> list_all group_wf (parseLine groups line)"
  by (simp add: parseLine_def addUserAgent_wf addRule_wf addCrawlDelay_wf split: option.split)

lemma parseGroups_wf: "list_all group_wf (parseGroups data)"
  unfolding parseGroups_def
  by (rule foldl_invariant [where P = "list_all group_wf"]) (auto intro: parseLine_wf)

section \<open>Selection\<close>

lemma foldl_selectGroup:
  "foldl selectGroup s gs =
     \<lparr>exactRules = exactRules s @ concat (map group_rules (filter group_exact gs)),
      exactCrawlDelays = exactCrawlDelays s @ concat (map group_crawlDelays (filter group_exact gs)),
      wildcardRules = wildcardRules s @
        concat (map group_rules (filter (\<lambda>g. \<not> group_exact g \<and> group_wildcard g) gs)),
      wildcardCrawlDelays = wildcardCrawlDelays s @
        concat (map group_crawlDelays (filter (\<lambda>g. \<not> group_exact g \<and> group_wildcard g) gs)),
      exactMatched = (exactMatched s \<or> list_ex group_exact gs)\<rparr>"
  by (induction gs arbitrary: s) (auto simp: selectGroup_def)

definition applicableGroups :: "group list \<Rightarrow> group list" where
  "applicableGroups gs =
     (if list_ex group_exact gs then filter group_exact gs else filter group_wildcard gs)"

lemma Parse_applicable:
  "Parse data =
     \<lparr>policy_rules = concat (map group_rules (applicableGroups (parseGroups data))),
      policy_crawlDelays = concat (map group_crawlDelays (applicableGroups (parseGroups data)))\<rparr>"
proof -
  have "\<not> list_ex group_exact gs \<Longrightarrow>
        filter (\<lambda>g. \<not> group_exact g \<and> group_wildcard g) gs = filter group_wildcard gs" for gs
    by (induction gs) auto
  then show ?thesis
    by (simp add: Parse_def foldl_selectGroup empty_selection_def applicableGroups_def Let_def)
qed

definition policy_wf :: "policy \<Rightarrow> bool" where
  "policy_wf p \<longleftrightarrow> list_all rule_wf (policy_rules p)"

lemma Parse_wf: "policy_wf (Parse data)"
  using parseGroups_wf [of data]
  by (auto simp: policy_wf_def Parse_applicable applicableGroups_def list_all_iff group_wf_def)

lemma disallowAll_wf: "policy_wf disallowAllPolicy"
  by (simp add: policy_wf_def disallowAllPolicy_def rule_wf_def)

section \<open>The decision\<close>

definition bestOf :: "rule list \<Rightarrow> bool \<times> int \<Rightarrow> bool" where
  "bestOf ms best \<longleftrightarrow>
     (if ms = [] then fst best \<and> snd best = -1
      else (\<exists>r \<in> set ms. rule_specificity r = snd best) \<and>
           (\<forall>r \<in> set ms. rule_specificity r \<le> snd best) \<and>
           (fst best \<longleftrightarrow> (\<exists>r \<in> set ms. rule_specificity r = snd best \<and> rule_allow r)))"

lemma considerRule_match:
  assumes best: "bestOf ms (al, b)" and spec: "0 \<le> rule_specificity r"
    and match: "patternMatches (rule_pattern r) tv"
  shows "bestOf (ms @ [r]) (considerRule tv (al, b) r)"
proof (cases "rule_specificity r > b")
  case True
  then have "considerRule tv (al, b) r = (rule_allow r, rule_specificity r)"
    using match by (simp add: considerRule_def)
  with best True show ?thesis by (fastforce simp: bestOf_def split: if_splits)
next
  case False
  with best spec have ms: "ms \<noteq> []" by (auto simp: bestOf_def)
  have "considerRule tv (al, b) r = (al \<or> rule_specificity r = b \<and> rule_allow r, b)"
    using match False by (auto simp: considerRule_def)
  with best False ms show ?thesis by (auto simp: bestOf_def)
qed

lemma considerRule_best:
  "\<forall>r \<in> set rs. 0 \<le> rule_specificity r \<Longrightarrow>
   bestOf (filter (\<lambda>r. patternMatches (rule_pattern r) tv) rs)
     (foldl (considerRule tv) (True, -1) rs)"
proof (induction rs rule: rev_induct)
  case (snoc r rs)
  obtain al b where ab: "foldl (considerRule tv) (True, -1) rs = (al, b)" by fastforce
  with snoc show ?case
    by (cases "patternMatches (rule_pattern r) tv")
       (auto simp: considerRule_match, simp add: considerRule_def)
qed (simp add: bestOf_def)

definition longestMatchAllows :: "policy \<Rightarrow> string \<Rightarrow> bool" where
  "longestMatchAllows p tv \<longleftrightarrow>
     (let ms = filter (\<lambda>r. rfcMatches (rule_pattern r) tv) (policy_rules p) in
      ms = [] \<or> (\<exists>r \<in> set ms. rule_allow r \<and>
                    (\<forall>r' \<in> set ms. length (rule_pattern r') \<le> length (rule_pattern r))))"

lemma considerRule_longest:
  assumes wf: "policy_wf p"
  shows "fst (foldl (considerRule tv) (True, -1) (policy_rules p)) \<longleftrightarrow> longestMatchAllows p tv"
proof -
  let ?rs = "policy_rules p"
  let ?ms = "filter (\<lambda>r. patternMatches (rule_pattern r) tv) ?rs"
  have ms: "?ms = filter (\<lambda>r. rfcMatches (rule_pattern r) tv) ?rs"
    using wf by (auto simp: policy_wf_def list_all_iff rule_wf_def patternMatches_rfcMatches
                      intro!: filter_cong)
  have spec: "r \<in> set ?rs \<Longrightarrow> rule_specificity r = int (length (rule_pattern r))" for r
    using wf by (simp add: policy_wf_def list_all_iff rule_wf_def)
  obtain al b where ab: "foldl (considerRule tv) (True, -1) ?rs = (al, b)" by fastforce
  have best: "bestOf ?ms (al, b)"
    using considerRule_best [of ?rs tv] spec by (simp add: ab)
  have "al \<longleftrightarrow> ?ms = [] \<or> (\<exists>r \<in> set ?ms. rule_allow r \<and>
      (\<forall>r' \<in> set ?ms. rule_specificity r' \<le> rule_specificity r))"
    using best by (auto simp: bestOf_def split: if_splits) (metis antisym)+
  with spec show ?thesis
    unfolding ab longestMatchAllows_def ms [symmetric] Let_def by auto
qed

lemma Allowed_longest_match:
  assumes "policy_wf p"
  shows "Allowed p target \<longleftrightarrow>
    (case targetMatchValue target of
       None \<Rightarrow> False
     | Some tv \<Rightarrow> tv = ''/robots.txt'' \<or> longestMatchAllows p tv)"
  using considerRule_longest [OF assms] by (auto simp: Allowed_def split: option.splits)

lemma rfcMatches_star: "rfcMatches ''*'' t"
  by (auto simp: rfcMatches_def globAt_def)

lemma Allowed_disallowAll:
  "Allowed disallowAllPolicy target \<longleftrightarrow> targetMatchValue target = Some ''/robots.txt''"
  unfolding Allowed_longest_match [OF disallowAll_wf]
  by (auto simp: longestMatchAllows_def disallowAllPolicy_def rfcMatches_star split: option.splits)

section \<open>Crawl delays\<close>

lemma u64_of_nat: "n < 2 ^ 64 \<Longrightarrow> unat (word_of_nat n :: 64 word) = n"
  by (simp add: unat_of_nat take_bit_eq_mod)

lemma u64_less: "n < 2 ^ 64 \<Longrightarrow> m < 2 ^ 64 \<Longrightarrow> (word_of_nat n < (word_of_nat m :: 64 word)) = (n < m)"
  by (simp add: word_less_nat_alt u64_of_nat)

lemma sint_u64: "n < 2 ^ 63 \<Longrightarrow> sint (word_of_nat n :: 64 word) = int n"
proof -
  assume n: "n < 2 ^ 63"
  have "sint (word_of_int (int n) :: 64 word) = signed_take_bit 63 (int n)"
    by (subst sint_sbintrunc') simp
  also have "\<dots> = int n"
    using n by (intro signed_take_bit_int_eq_self) auto
  finally show ?thesis by simp
qed

lemma fractionalNanoseconds_eq:
  "fractionalNanoseconds f = word_of_nat (dec_value f * 10 ^ (9 - length f))"
proof -
  have digits: "foldl (\<lambda>n c. n * 10 + word_of_nat (digit_value c)) (word_of_nat a) f =
      (word_of_nat (foldl (\<lambda>n c. 10 * n + digit_value c) a f) :: 64 word)" for a
  proof (induction f arbitrary: a)
    case (Cons c f)
    have "word_of_nat a * 10 + word_of_nat (digit_value c) =
        (word_of_nat (10 * a + digit_value c) :: 64 word)"
      by (simp add: mult.commute)
    with Cons [of "10 * a + digit_value c"] show ?case
      by (simp only: foldl_Cons)
  qed simp
  have scale: "((\<lambda>n. n * 10) ^^ k) (word_of_nat a) = (word_of_nat (a * 10 ^ k) :: 64 word)" for a k
    by (induction k) (simp_all add: ac_simps)
  from digits [of 0] show ?thesis
    by (simp add: fractionalNanoseconds_def scale dec_value_def)
qed

lemma fraction_less:
  "decimalDigits f \<Longrightarrow> length f \<le> 9 \<Longrightarrow> dec_value f * 10 ^ (9 - length f) < 10 ^ 9"
proof -
  assume f: "decimalDigits f" "length f \<le> 9"
  then have "dec_value f * 10 ^ (9 - length f) < 10 ^ length f * 10 ^ (9 - length f)"
    using dec_value_less [of f] by (simp add: decimalDigits_def)
  also have "\<dots> = 10 ^ 9" using f by (simp flip: power_add)
  finally show ?thesis .
qed

definition delayNanoseconds :: "string \<Rightarrow> string \<Rightarrow> bool \<Rightarrow> nat" where
  "delayNanoseconds secs frac hasFraction =
     dec_value secs * 10 ^ 9 + (if hasFraction then dec_value frac * 10 ^ (9 - length frac) else 0)"

definition validDelaySyntax :: "string \<Rightarrow> string \<Rightarrow> bool \<Rightarrow> bool" where
  "validDelaySyntax secs frac hasFraction \<longleftrightarrow>
     secs \<noteq> [] \<and> decimalDigits secs \<and>
     (hasFraction \<longrightarrow> frac \<noteq> [] \<and> length frac \<le> 9 \<and> decimalDigits frac)"

lemma seconds_limit: "n < 2 ^ 64 \<Longrightarrow>
  (word_of_nat n > maxDurationNanoseconds div nanosecondsPerSecond) = (n > 9223372036)"
proof -
  assume n: "n < 2 ^ 64"
  have "maxDurationNanoseconds div nanosecondsPerSecond = word_of_nat 9223372036"
    by (simp add: maxDurationNanoseconds_def nanosecondsPerSecond_def)
  then show ?thesis using u64_less [OF _ n, of 9223372036] by (simp only:) simp
qed

lemma total_seconds: "(word_of_nat n :: 64 word) * nanosecondsPerSecond = word_of_nat (n * 10 ^ 9)"
  by (simp add: nanosecondsPerSecond_def)

lemma remaining_nanoseconds:
  "m \<le> 9223372036854775807 \<Longrightarrow>
   maxDurationNanoseconds - word_of_nat m = (word_of_nat (9223372036854775807 - m) :: 64 word)"
  by (simp add: maxDurationNanoseconds_def of_nat_diff)

lemma parseCrawlDelay_exact:
  "parseCrawlDelay value =
     (case Cut value CHR ''.'' of (secs, frac, hasFraction) \<Rightarrow>
        if validDelaySyntax secs frac hasFraction \<and>
           delayNanoseconds secs frac hasFraction \<le> 9223372036854775807
        then Inr (int (delayNanoseconds secs frac hasFraction))
        else Inl ErrInvalidCrawlDelay)"
proof -
  obtain secs frac hasFraction where cut: "Cut value CHR ''.'' = (secs, frac, hasFraction)"
    by (metis prod_cases3)
  let ?n = "dec_value secs"
  let ?f = "dec_value frac * 10 ^ (9 - length frac)"
  show ?thesis
  proof (cases "validDelaySyntax secs frac hasFraction \<and> ?n \<le> 9223372036")
    case False
    then show ?thesis
      by (auto simp: parseCrawlDelay_def cut ParseUint_def validDelaySyntax_def decimalDigits_def
          seconds_limit delayNanoseconds_def Let_def split: if_splits)
  next
    case True
    then have parsed: "ParseUint 64 secs = Some ?n" and n: "?n \<le> 9223372036"
      by (auto simp: ParseUint_def validDelaySyntax_def decimalDigits_def)
    have m: "?n * 10 ^ 9 \<le> 9223372036854775807" using n by simp
    have f: "hasFraction \<Longrightarrow> ?f < 10 ^ 9"
      using True fraction_less by (simp add: validDelaySyntax_def)
    have lim: "hasFraction \<Longrightarrow> (word_of_nat ?f > maxDurationNanoseconds - word_of_nat (?n * 10 ^ 9)) =
        (?f > 9223372036854775807 - ?n * 10 ^ 9)"
      using f m by (simp only: remaining_nanoseconds) (rule u64_less, auto)
    have "word_of_nat (?n * 10 ^ 9) + word_of_nat ?f = (word_of_nat (?n * 10 ^ 9 + ?f) :: 64 word)"
      by simp
    then show ?thesis
      using True parsed n m f lim
      by (auto simp: parseCrawlDelay_def cut validDelaySyntax_def seconds_limit total_seconds
          delayNanoseconds_def Let_def fractionalNanoseconds_eq sint_u64 simp del: of_nat_mult of_nat_add)
  qed
qed

section \<open>Normalised match values\<close>

inductive normalForm :: "bool \<Rightarrow> string \<Rightarrow> bool" for e where
  nf_nil: "normalForm e []"
| nf_byte: "normalForm e s \<Longrightarrow> c \<noteq> CHR ''%'' \<Longrightarrow> 32 \<le> byte_of c \<Longrightarrow> byte_of c < 127 \<Longrightarrow>
     \<not> (e \<and> (c = CHR ''*'' \<or> c = CHR ''$'')) \<Longrightarrow> normalForm e (c # s)"
| nf_octet: "normalForm e s \<Longrightarrow> \<not> isUnreserved c \<Longrightarrow> normalForm e (percentEncoded c @ s)"

lemma unreserved_byte:
  "isUnreserved c \<Longrightarrow> c \<noteq> CHR ''%'' \<and> 32 \<le> byte_of c \<and> byte_of c < 127 \<and> c \<noteq> CHR ''*'' \<and> c \<noteq> CHR ''$''"
  by (auto simp: isUnreserved_def in_range_def byte_of_def)

lemma high_byte_not_unreserved: "128 \<le> byte_of c \<Longrightarrow> \<not> isUnreserved c"
  using unreserved_byte by fastforce

lemma nf_octets:
  "normalForm e s \<Longrightarrow> \<forall>c \<in> set cs. \<not> isUnreserved c \<Longrightarrow>
   normalForm e (concat (map percentEncoded cs) @ s)"
  by (induction cs) (auto intro: nf_octet)

lemma normalizeMatchValue_Nil [simp]: "normalizeMatchValue [] e = Some []"
  by (simp add: normalizeMatchValue.simps)

lemma normalizeMatchValue_Cons_cases:
  assumes "normalizeMatchValue (c # r) e = Some out"
  obtains (octet) a b r' out' where "c = CHR ''%''" "r = a # b # r'"
      "normalizeMatchValue r' e = Some out'"
      "out = (if isUnreserved (hexOctet a b) then [hexOctet a b] else percentEncoded (hexOctet a b)) @ out'"
    | (rune) out' where "128 \<le> byte_of c" "rune_size (c # r) \<noteq> 0"
      "normalizeMatchValue (drop (rune_size (c # r)) (c # r)) e = Some out'"
      "out = concat (map percentEncoded (take (rune_size (c # r)) (c # r))) @ out'"
    | (special) out' where "c = CHR ''*'' \<or> c = CHR ''$''" "normalizeMatchValue r e = Some out'"
      "out = percentEncoded c @ out'"
    | (byte) out' where "c \<noteq> CHR ''%''" "32 \<le> byte_of c" "byte_of c < 127"
      "\<not> (e \<and> (c = CHR ''*'' \<or> c = CHR ''$''))" "normalizeMatchValue r e = Some out'"
      "out = c # out'"
proof -
  note eq = assms [unfolded normalizeMatchValue.simps [of "c # r" e] list.case]
  consider "c = CHR ''%''" | "c \<noteq> CHR ''%''" "128 \<le> byte_of c"
    | "c \<noteq> CHR ''%''" "\<not> 128 \<le> byte_of c" "e \<and> (c = CHR ''*'' \<or> c = CHR ''$'')"
    | "c \<noteq> CHR ''%''" "\<not> 128 \<le> byte_of c" "\<not> (e \<and> (c = CHR ''*'' \<or> c = CHR ''$''))"
    by blast
  then show thesis
  proof cases
    case 1
    with eq octet show thesis by (auto split: list.splits if_splits)
  next
    case 2
    with eq rune show thesis by (auto split: if_splits)
  next
    case 3
    with eq special show thesis by (auto split: if_splits)
  next
    case 4
    with eq obtain out' where "normalizeMatchValue r e = Some out'" "out = c # out'"
        "32 \<le> byte_of c" "byte_of c < 127"
      by (auto split: if_splits)
    with 4 byte show thesis by blast
  qed
qed

lemma normalizeMatchValue_nf: "normalizeMatchValue v e = Some out \<Longrightarrow> normalForm e out"
proof (induction "length v" arbitrary: v out rule: less_induct)
  case less
  show ?case
  proof (cases v)
    case Nil
    with less.prems show ?thesis by (simp add: nf_nil)
  next
    case (Cons c r)
    from less.prems [unfolded Cons] show ?thesis
    proof (cases rule: normalizeMatchValue_Cons_cases)
      case (octet a b r' out')
      then show ?thesis
        using less.hyps [of r' out'] Cons unreserved_byte by (auto intro: nf_octet nf_byte)
    next
      case (rune out')
      then show ?thesis
        using less.hyps [of "drop (rune_size v) v" out'] Cons rune_bytes_high [of c _ r]
        by (auto intro!: nf_octets simp: high_byte_not_unreserved)
    next
      case (special out')
      moreover from this have "\<not> isUnreserved c" using unreserved_byte by blast
      ultimately show ?thesis
        using less.hyps [of r out'] Cons by (auto intro: nf_octet)
    next
      case (byte out')
      then show ?thesis using less.hyps [of r out'] Cons by (auto intro: nf_byte)
    qed
  qed
qed

lemma normalForm_normalize: "normalForm e s \<Longrightarrow> normalizeMatchValue s e = Some s"
proof (induction rule: normalForm.induct)
  case nf_nil
  show ?case by simp
next
  case (nf_byte s c)
  then show ?case by (subst normalizeMatchValue.simps) auto
next
  case (nf_octet s c)
  then show ?case
    using percentEncoded_octet [of c]
    by (subst normalizeMatchValue.simps) (simp add: percentEncoded_def)
qed

lemma percentEncoded_printable:
  "x \<in> set (percentEncoded c) \<Longrightarrow> 32 \<le> byte_of x \<and> byte_of x < 127 \<and> x \<noteq> CHR ''*'' \<and> x \<noteq> CHR ''$''"
proof -
  have digit: "isHex d \<Longrightarrow> 32 \<le> byte_of d \<and> byte_of d < 127 \<and> d \<noteq> CHR ''*'' \<and> d \<noteq> CHR ''$''" for d
    by (auto simp: isHex_def in_range_def byte_of_def)
  assume "x \<in> set (percentEncoded c)"
  then show ?thesis
    using percentEncoded_octet [of c] digit
    by (auto simp: percentEncoded_def byte_of_def)
qed

definition cleanBytes :: "bool \<Rightarrow> string \<Rightarrow> bool" where
  "cleanBytes e s \<longleftrightarrow>
     list_all (\<lambda>x. 32 \<le> byte_of x \<and> byte_of x < 127 \<and> \<not> (e \<and> (x = CHR ''*'' \<or> x = CHR ''$''))) s"

lemma normalForm_clean: "normalForm e s \<Longrightarrow> cleanBytes e s"
  by (induction rule: normalForm.induct)
     (auto simp: cleanBytes_def list_all_iff dest: percentEncoded_printable)

section \<open>The applicable crawl delay\<close>

lemma parseCrawlDelay_nonneg: "parseCrawlDelay v = Inr d \<Longrightarrow> 0 \<le> d \<and> d \<le> max_int64"
  by (auto simp: parseCrawlDelay_exact max_int64_def split: prod.splits if_splits)

lemma crawlDelay_loop_eq:
  "crawlDelay_loop delay vs =
     (if list_ex (\<lambda>v. \<exists>e. parseCrawlDelay v = Inl e) vs then Inl ErrInvalidCrawlDelay
      else Inr (fold max (map (\<lambda>v. projr (parseCrawlDelay v)) vs) delay))"
proof (induction vs arbitrary: delay)
  case (Cons v vs)
  have err: "parseCrawlDelay v = Inl e \<Longrightarrow> e = ErrInvalidCrawlDelay" for e
    by (auto simp: parseCrawlDelay_exact split: prod.splits if_splits)
  show ?case
    using Cons err by (cases "parseCrawlDelay v") (auto simp: max_def)
qed simp

section \<open>Properties\<close>

text \<open>
  C6. The backtracking matcher, which remembers only the last star, decides exactly the declarative
  wildcard language of RFC 9309 (\<open>*\<close> any sequence, final \<open>$\<close> the end of the target, otherwise a
  prefix match), for every non-empty pattern; it always terminates.
\<close>
theorem patternMatches_rfc9309:
  "pattern \<noteq> [] \<Longrightarrow> patternMatches pattern target = rfcMatches pattern target"
  by (rule patternMatches_rfcMatches)

theorem patternMatches_rfc9309_witness:
  "''/a*b*c$'' \<noteq> [] \<and> patternMatches ''/a*b*c$'' ''/axbxbxc'' = rfcMatches ''/a*b*c$'' ''/axbxbxc''
   \<and> patternMatches ''/a*b*c$'' ''/axbxbxc'' \<and> \<not> patternMatches ''/a*b*c$'' ''/axbxbxcd''"
  using patternMatches_rfc9309 [of "''/a*b*c$''" "''/axbxbxc''"] by code_simp

text \<open>
  C5. The decision for a fetched robots.txt: an invalid or unsupported target is denied, the robots
  file itself is allowed, and any other target is allowed exactly when no applicable rule matches or
  some matching rule of the greatest length is an Allow rule (the longest match wins, Allow wins a tie).
\<close>
theorem Allowed_decision:
  "Allowed (Parse data) target =
     (case targetMatchValue target of
        None \<Rightarrow> False
      | Some tv \<Rightarrow> tv = ''/robots.txt'' \<or> longestMatchAllows (Parse data) tv)"
  by (rule Allowed_longest_match [OF Parse_wf])

text \<open>
  Group selection: the policy is the concatenation, in file order, of the groups that name JoshBot
  when there is one, and of the wildcard groups otherwise; and a group without a valid user agent never
  carries rules or delays.
\<close>
theorem Parse_selects_groups:
  "Parse data =
     \<lparr>policy_rules = concat (map group_rules (applicableGroups (parseGroups data))),
      policy_crawlDelays = concat (map group_crawlDelays (applicableGroups (parseGroups data)))\<rparr>
   \<and> list_all group_wf (parseGroups data)"
  by (simp add: Parse_applicable parseGroups_wf)

text \<open>
  Crawl-delay parsing is exact: the accepted values are the decimal seconds with at most nine
  fractional digits whose nanoseconds fit in a signed 64-bit duration, the result is that number of
  nanoseconds, and everything else is the error; no 64-bit operation of the computation wraps around.
\<close>
theorem parseCrawlDelay_spec:
  "parseCrawlDelay value =
     (case Cut value CHR ''.'' of (secs, frac, hasFraction) \<Rightarrow>
        if validDelaySyntax secs frac hasFraction \<and>
           delayNanoseconds secs frac hasFraction \<le> 9223372036854775807
        then Inr (int (delayNanoseconds secs frac hasFraction))
        else Inl ErrInvalidCrawlDelay)"
  by (rule parseCrawlDelay_exact)

text \<open>
  The applicable crawl delay: one malformed directive makes the whole answer the error; otherwise
  the delay is the largest directive, cut at 30 seconds, and never negative.
\<close>
theorem CrawlDelay_spec:
  "(case CrawlDelay p of
      Inl e \<Rightarrow> e = ErrInvalidCrawlDelay \<and> list_ex (\<lambda>v. isl (parseCrawlDelay v)) (policy_crawlDelays p)
    | Inr d \<Rightarrow> \<not> list_ex (\<lambda>v. isl (parseCrawlDelay v)) (policy_crawlDelays p) \<and>
        0 \<le> d \<and> d \<le> 30 * second \<and>
        d = min (fold max (map (\<lambda>v. projr (parseCrawlDelay v)) (policy_crawlDelays p)) 0) (30 * second))"
proof -
  have isl: "isl x \<longleftrightarrow> (\<exists>e. x = Inl e)" for x :: "go_error + duration" by (cases x) auto
  have "0 \<le> fold max xs (0 :: int)" for xs
    by (rule fold_invariant_mem [where P = "\<lambda>x. 0 \<le> x"]) auto
  then show ?thesis
    by (simp add: CrawlDelay_def crawlDelay_def crawlDelay_loop_eq DefaultMaxCrawlDelay_def isl
        duration_units)
qed

text \<open>
  Normalisation of patterns and targets is idempotent, its output is printable ASCII, and on a target
  the wildcard metacharacters are escaped, so that a target byte is never read as a wildcard.
\<close>
theorem normalizeMatchValue_idempotent:
  assumes "normalizeMatchValue value encodeSpecial = Some out"
  shows "normalizeMatchValue out encodeSpecial = Some out \<and> cleanBytes encodeSpecial out"
  using normalizeMatchValue_nf [OF assms] normalForm_normalize normalForm_clean by blast

theorem normalizeMatchValue_idempotent_witness:
  "normalizeMatchValue ''/%7e*%2f'' True = Some ''/~%2A%2F'' \<and>
   normalizeMatchValue ''/~%2A%2F'' True = Some ''/~%2A%2F'' \<and> cleanBytes True ''/~%2A%2F''"
proof -
  have run: "normalizeMatchValue ''/%7e*%2f'' True = Some ''/~%2A%2F''" by code_simp
  then show ?thesis using normalizeMatchValue_idempotent [OF run] by blast
qed

text \<open>
  Failing closed: the policy used when robots.txt cannot be read, or is larger than 500 KiB, denies
  every target but the robots file itself; a body of at most 500 KiB is parsed.
\<close>
theorem readPolicy_fails_closed:
  "(case readPolicy b of
      (p, Some _) \<Rightarrow> p = disallowAllPolicy \<and>
        Allowed p target = (targetMatchValue target = Some ''/robots.txt'')
    | (p, None) \<Rightarrow> p = Parse (body_bytes b) \<and> length (body_bytes b) \<le> MaxBodySize \<and>
        body_error b = None)"
  by (auto simp: readPolicy_def ReadAll_limited_def Allowed_disallowAll
      split: sum.splits if_splits option.splits)

text \<open>The agent that a line names, if it is a User-agent line.\<close>

definition agentOf :: "string \<Rightarrow> string option" where
  "agentOf line =
     (case parseRecord line of
        Some (field, value) \<Rightarrow> if EqualFold field ''user-agent'' then Some value else None
      | None \<Rightarrow> None)"

lemma parseLine_invalidAgent:
  "agentOf line = Some token \<Longrightarrow> \<not> validProductToken token \<Longrightarrow>
   parseLine groups line = groups @ [empty_group]"
  by (auto simp: agentOf_def parseLine_def addUserAgent_def split: option.splits if_splits)

lemma parseLine_detached:
  "agentOf line = None \<Longrightarrow> parseLine (groups @ [empty_group]) line = groups @ [empty_group]"
  by (auto simp: agentOf_def parseLine_def addRule_def addCrawlDelay_def empty_group_def
      split: option.splits if_splits)

lemma foldl_parseLine_detached:
  "list_all (\<lambda>line. agentOf line = None) lines \<Longrightarrow>
   foldl parseLine (groups @ [empty_group]) lines = groups @ [empty_group]"
  by (induction lines) (auto simp: parseLine_detached)

text \<open>
  C36. A User-agent line with an invalid token detaches the rules that follow it: in any file, the lines between
  such a line and the next User-agent line (every Allow, Disallow and Crawl-delay among them) have no effect, so
  that the policy is the one of the file without them, whichever agents the lines before name and whether or not
  rules of theirs came first.
\<close>
theorem invalid_token_detaches_rules:
  assumes "Split data CHR 0x0A = before @ bad # rules @ after"
    and "Split without CHR 0x0A = before @ bad # after"
    and "agentOf bad = Some token" and "\<not> validProductToken token"
    and "list_all (\<lambda>line. agentOf line = None) rules"
  shows "Parse data = Parse without"
proof -
  have "parseGroups data = parseGroups without"
    using assms by (simp add: parseGroups_def parseLine_invalidAgent foldl_parseLine_detached)
  then show ?thesis by (simp add: Parse_def)
qed

text \<open>
  A file that denies everything to JoshBot, and to every other robot, but for an invalid token: with it no rule
  is left for JoshBot, which is therefore allowed everywhere; without the invalid line it is denied.
\<close>

definition invalidTokenFile :: string where
  "invalidTokenFile =
     ''User-agent: Joshternet-Joshbot'' @ [CHR 0x0A] @ ''User-agent: other/1.0'' @ [CHR 0x0A] @
     ''Disallow: /'' @ [CHR 0x0A] @ ''User-agent: *'' @ [CHR 0x0A] @ ''Disallow: /'' @ [CHR 0x0A]"

definition ruleRemovedFile :: string where
  "ruleRemovedFile =
     ''User-agent: Joshternet-Joshbot'' @ [CHR 0x0A] @ ''User-agent: other/1.0'' @ [CHR 0x0A] @
     ''User-agent: *'' @ [CHR 0x0A] @ ''Disallow: /'' @ [CHR 0x0A]"

definition validTokenFile :: string where
  "validTokenFile =
     ''User-agent: Joshternet-Joshbot'' @ [CHR 0x0A] @
     ''Disallow: /'' @ [CHR 0x0A] @ ''User-agent: *'' @ [CHR 0x0A] @ ''Disallow: /'' @ [CHR 0x0A]"

theorem invalid_token_detaches_rules_witness:
  "Parse invalidTokenFile = Parse ruleRemovedFile \<and>
   policy_rules (Parse ruleRemovedFile) = [] \<and>
   policy_rules (Parse validTokenFile) =
     [\<lparr>rule_pattern = ''/'', rule_allow = False, rule_specificity = 1\<rparr>]"
proof (intro conjI)
  show "Parse invalidTokenFile = Parse ruleRemovedFile"
  proof (rule invalid_token_detaches_rules)
    show "Split invalidTokenFile CHR 0x0A = [''User-agent: Joshternet-Joshbot''] @ ''User-agent: other/1.0'' #
        [''Disallow: /''] @ [''User-agent: *'', ''Disallow: /'', []]" by code_simp
    show "Split ruleRemovedFile CHR 0x0A = [''User-agent: Joshternet-Joshbot''] @ ''User-agent: other/1.0'' #
        [''User-agent: *'', ''Disallow: /'', []]" by code_simp
    show "agentOf ''User-agent: other/1.0'' = Some ''other/1.0''" by code_simp
    show "\<not> validProductToken ''other/1.0''" by code_simp
    show "list_all (\<lambda>line. agentOf line = None) [''Disallow: /'']" by code_simp
  qed
qed code_simp+

end
