(* ===== verification/Robots_Http.thy ===== *)
theory Robots_Http
  imports Http Robots_Policy
begin

text \<open>
  \<^verbatim>\<open>internal/robots/http.go\<close>, \<^verbatim>\<open>http_config.go\<close> and \<^verbatim>\<open>identity.go\<close>: the guarded HTTP request, which
  resolves and validates its target before the transport may dial, and \<^verbatim>\<open>obtainPolicy\<close>, which follows at
  most five redirects to a robots.txt. \<^verbatim>\<open>http.Transport.RoundTrip\<close> is an argument: it gets the transport
  the code configures, with its dial function. Response bodies are values, so closing them and closing idle
  connections has no effect here.
\<close>

definition BotInformationURL :: string where
  "BotInformationURL = ''https://joshternet.org/joshbot''"

definition UserAgent :: string where
  "UserAgent = ProductToken @ '' (+'' @ BotInformationURL @ '')''"

definition maxRedirects :: nat where "maxRedirects = 5"

definition errInvalidContext where "errInvalidContext = Sentinel ''robots: invalid context''"
definition errInvalidInitialOrigin where
  "errInvalidInitialOrigin = Sentinel ''robots: invalid initial origin''"
definition errHTTPGetterUnavailable where
  "errHTTPGetterUnavailable = Sentinel ''robots: HTTP getter unavailable''"
definition errInvalidHTTPTarget where "errInvalidHTTPTarget = Sentinel ''robots: invalid HTTP target''"
definition errInvalidHTTPResponse where
  "errInvalidHTTPResponse = Sentinel ''robots: invalid HTTP response''"
definition errRobotsUnreachable where "errRobotsUnreachable = Sentinel ''robots: resource unreachable''"
definition errRedirectLimit where "errRedirectLimit = Sentinel ''robots: redirect limit exceeded''"
definition errInvalidRedirect where "errInvalidRedirect = Sentinel ''robots: invalid redirect''"
definition errUnexpectedStatus where "errUnexpectedStatus = Sentinel ''robots: unexpected HTTP status''"
definition ErrInvalidHTTPConfig where
  "ErrInvalidHTTPConfig = Sentinel ''robots: HTTP limits must be positive''"

section \<open>The guarded request\<close>

record http_config =
  MaxCrawlDelay :: duration
  DialTimeout :: duration
  TLSHandshakeTimeout :: duration
  ResponseHeaderTimeout :: duration

definition http_config_zero :: http_config where
  "http_config_zero =
     \<lparr>MaxCrawlDelay = 0, DialTimeout = 0, TLSHandshakeTimeout = 0, ResponseHeaderTimeout = 0\<rparr>"

definition DefaultHTTPConfig :: http_config where
  "DefaultHTTPConfig =
     \<lparr>MaxCrawlDelay = DefaultMaxCrawlDelay, DialTimeout = DefaultDialTimeout,
      TLSHandshakeTimeout = 10 * second, ResponseHeaderTimeout = 15 * second\<rparr>"

definition validHTTPConfig :: "http_config \<Rightarrow> bool" where
  "validHTTPConfig config \<longleftrightarrow>
     \<not> (MaxCrawlDelay config \<le> 0 \<or> DialTimeout config \<le> 0 \<or> TLSHandshakeTimeout config \<le> 0 \<or>
        ResponseHeaderTimeout config \<le> 0)"

record request =
  q_Method :: string
  q_URL :: url
  q_Header :: "string \<Rightarrow> string"

type_synonym 'w request_signer = "'w \<Rightarrow> request \<Rightarrow> (go_error + request) \<times> 'w"

record ('w, 'c) transport =
  t_DialContext :: "'w \<Rightarrow> (go_error + 'c) \<times> 'w"
  t_TLSHandshakeTimeout :: duration
  t_ResponseHeaderTimeout :: duration

record ('w, 'c) guardedHTTP =
  g_resolver :: "'w resolver option"
  g_dialer :: "('w, 'c) dialer option"
  g_signer :: "'w request_signer option"
  g_config :: http_config

definition newGuardedTransport ::
    "(addr \<Rightarrow> 16 word \<Rightarrow> string) \<Rightarrow> ('w \<Rightarrow> go_error option) \<Rightarrow> destination \<Rightarrow> ('w, 'c) dialer option \<Rightarrow>
     http_config \<Rightarrow> ('w, 'c) transport" where
  "newGuardedTransport addrPort ctx_Err dest dialer config =
     (let config = (if config = http_config_zero then DefaultHTTPConfig else config)
      in \<lparr>t_DialContext = (\<lambda>w. DialContextWithTimeout addrPort dest (Some ctx_Err) dialer (DialTimeout config) w),
          t_TLSHandshakeTimeout = TLSHandshakeTimeout config,
          t_ResponseHeaderTimeout = ResponseHeaderTimeout config\<rparr>)"

text \<open>
  \<^verbatim>\<open>origin.Parse\<close>'s error is dropped and the zero origin used, as in the source; a nil target panics.
\<close>

definition guarded_get ::
    "host_lib \<Rightarrow> (addr \<Rightarrow> 16 word \<Rightarrow> string) \<Rightarrow>
     (('w, 'c) transport \<Rightarrow> request \<Rightarrow> 'w \<Rightarrow> (go_error + response) \<times> 'w) \<Rightarrow>
     ('w \<Rightarrow> go_error option) \<Rightarrow> ('w, 'c) guardedHTTP \<Rightarrow> 'w getter" where
  "guarded_get lib addrPort RoundTrip ctx_Err g w target =
     (case target of
        None \<Rightarrow> (Inl nilDereference, w)
      | Some target \<Rightarrow>
          (let targetOrigin = (case Origin.Parse lib (url_String lib target) of
                                 Inl _ \<Rightarrow> origin_zero | Inr o1 \<Rightarrow> o1)
           in case Resolve lib (Some ctx_Err) targetOrigin (g_resolver g) w of
                (Inl err, w) \<Rightarrow> (Inl (Wrap ''robots: resolve target'' [err]), w)
              | (Inr dest, w) \<Rightarrow>
                  (let transport = newGuardedTransport addrPort ctx_Err dest (g_dialer g) (g_config g);
                       request = \<lparr>q_Method = ''GET'', q_URL = target,
                                  q_Header = (\<lambda>_. [])(''User-Agent'' := UserAgent)\<rparr>
                   in case (case g_signer g of None \<Rightarrow> (Inr request, w) | Some Sign \<Rightarrow> Sign w request) of
                        (Inl err, w) \<Rightarrow> (Inl (Wrap ''robots: sign HTTP request'' [err]), w)
                      | (Inr request, w) \<Rightarrow>
                          (case RoundTrip transport request w of
                             (Inl err, w) \<Rightarrow>
                               (case ctx_Err w of
                                  Some contextError \<Rightarrow> (Inl contextError, w)
                                | None \<Rightarrow> (Inl (Wrap ''robots: HTTP request'' [err]), w))
                           | (Inr response, w) \<Rightarrow> (Inr (Some response), w)))))"

section \<open>Obtaining a policy\<close>

definition isRedirectStatus :: "int \<Rightarrow> bool" where
  "isRedirectStatus status \<longleftrightarrow> status \<in> {301, 302, 303, 307, 308}"

definition redirectTarget :: "host_lib \<Rightarrow> url option \<Rightarrow> response \<Rightarrow> go_error + url" where
  "redirectTarget lib current response =
     (let location = r_Header response ''Location''
      in if location = [] then Inl errInvalidRedirect
         else (case current of
                 None \<Rightarrow> Inl nilDereference
               | Some base \<Rightarrow>
                   (case url_ParseRef lib base location of
                      Inl _ \<Rightarrow> Inl errInvalidRedirect
                    | Inr next \<Rightarrow>
                        (let next = next\<lparr>u_Fragment := [], u_RawFragment := []\<rparr>
                         in case Origin.Parse lib (url_String lib next) of
                              Inl _ \<Rightarrow> Inl errInvalidRedirect
                            | Inr _ \<Rightarrow> Inr next))))"

text \<open>One iteration of the loop of \<^verbatim>\<open>obtainPolicy\<close>: the policy and error it returns, or the next URL.\<close>

definition policyHop ::
    "host_lib \<Rightarrow> ('w \<Rightarrow> go_error option) \<Rightarrow> 'w getter \<Rightarrow> nat \<Rightarrow> url option \<Rightarrow> 'w \<Rightarrow>
     ((policy \<times> go_error option) + url option) \<times> 'w" where
  "policyHop lib ctx_Err getter redirects current w =
     (case getter w current of
        (Inl err, w) \<Rightarrow>
          (case ctx_Err w of
             Some contextError \<Rightarrow> (Inl (disallowAllPolicy, Some contextError), w)
           | None \<Rightarrow> (Inl (disallowAllPolicy, Some (Wrap ''robots: fetch policy'' [err])), w))
      | (Inr None, w) \<Rightarrow> (Inl (disallowAllPolicy, Some errInvalidHTTPResponse), w)
      | (Inr (Some response), w) \<Rightarrow>
          (case r_Body response of
             None \<Rightarrow> (Inl (disallowAllPolicy, Some errInvalidHTTPResponse), w)
           | Some body \<Rightarrow>
               (let status = r_StatusCode response
                in if isRedirectStatus status then
                     (if redirects \<ge> maxRedirects then (Inl (disallowAllPolicy, Some errRedirectLimit), w)
                      else (case redirectTarget lib current response of
                              Inl redirectError \<Rightarrow> (Inl (disallowAllPolicy, Some redirectError), w)
                            | Inr next \<Rightarrow> (Inr (Some next), w)))
                   else if 200 \<le> status \<and> status \<le> 299 then (Inl (readPolicy body), w)
                   else if 400 \<le> status \<and> status \<le> 499 then
                     (Inl (\<lparr>policy_rules = [], policy_crawlDelays = []\<rparr>, None), w)
                   else if 500 \<le> status \<and> status \<le> 599 then
                     (Inl (disallowAllPolicy, Some errRobotsUnreachable), w)
                   else (Inl (disallowAllPolicy, Some errUnexpectedStatus), w))))"

lemma policyHop_limit: "policyHop lib ctx_Err getter n u w = (Inr u', w') \<Longrightarrow> n < maxRedirects"
  by (auto simp: policyHop_def Let_def split: prod.splits sum.splits option.splits if_splits)

function policyLoop ::
    "host_lib \<Rightarrow> ('w \<Rightarrow> go_error option) \<Rightarrow> 'w getter \<Rightarrow> nat \<Rightarrow> url option \<Rightarrow> 'w \<Rightarrow>
     (policy \<times> go_error option) \<times> 'w" where
  "policyLoop lib ctx_Err getter redirects current w =
     (case policyHop lib ctx_Err getter redirects current w of
        (Inl result, w) \<Rightarrow> (result, w)
      | (Inr next, w) \<Rightarrow> policyLoop lib ctx_Err getter (Suc redirects) next w)"
  by pat_completeness auto
termination
  by (relation "measure (\<lambda>(lib, ctx_Err, getter, redirects, current, w). maxRedirects - redirects)")
    (auto dest!: policyHop_limit [OF sym])

declare policyLoop.simps [simp del]

definition obtainPolicy ::
    "host_lib \<Rightarrow> 'w go_context \<Rightarrow> origin \<Rightarrow> 'w getter option \<Rightarrow> 'w \<Rightarrow> (policy \<times> go_error option) \<times> 'w" where
  "obtainPolicy lib ctx initial getter w =
     (case ctx of
        None \<Rightarrow> ((disallowAllPolicy, Some errInvalidContext), w)
      | Some ctx_Err \<Rightarrow>
          (case ctx_Err w of
             Some err \<Rightarrow> ((disallowAllPolicy, Some err), w)
           | None \<Rightarrow>
               if origin_String initial = [] then ((disallowAllPolicy, Some errInvalidInitialOrigin), w)
               else (case getter of
                       None \<Rightarrow> ((disallowAllPolicy, Some errHTTPGetterUnavailable), w)
                     | Some get \<Rightarrow>
                         (let current = (case url_Parse lib (origin_String initial @ ''/robots.txt'') of
                                           Inl _ \<Rightarrow> None | Inr u \<Rightarrow> Some u)
                          in policyLoop lib ctx_Err get 0 current w))))"

section \<open>The loop keeps the redirect contract\<close>

definition followable :: "host_lib \<Rightarrow> url option \<Rightarrow> bool" where
  "followable lib target =
     (case target of
        None \<Rightarrow> False
      | Some u \<Rightarrow> u_Fragment u = [] \<and> \<not> isl (Origin.Parse lib (url_String lib u)))"

lemma redirectTarget_followable: "redirectTarget lib current response = Inr u \<Longrightarrow> followable lib (Some u)"
  by (auto simp: redirectTarget_def followable_def Let_def split: if_splits option.splits sum.splits)

lemma policyHop_followable:
  "policyHop lib ctx_Err getter n u w = (Inr u', w') \<Longrightarrow> followable lib u'"
  by (auto simp: policyHop_def Let_def redirectTarget_followable
      split: prod.splits sum.splits option.splits if_splits)

interpretation policy_loop:
  redirect_loop "policyHop lib ctx_Err getter" "policyLoop lib ctx_Err getter" maxRedirects
    "\<lambda>u. u = first \<or> followable lib u"
  for lib ctx_Err getter first
proof unfold_locales
  show "policyLoop lib ctx_Err getter n u w =
    (case policyHop lib ctx_Err getter n u w of
       (Inl r, w') \<Rightarrow> (r, w') | (Inr u', w') \<Rightarrow> policyLoop lib ctx_Err getter (Suc n) u' w')" for n u w
    by (subst policyLoop.simps) (rule refl)
qed (auto dest: policyHop_limit policyHop_followable)

lemma readPolicy_error: "readPolicy b = (p, Some e) \<Longrightarrow> p = disallowAllPolicy"
  by (auto simp: readPolicy_def Let_def split: sum.splits if_splits)

lemma policyHop_closed:
  "policyHop lib ctx_Err getter n u w = (Inl (p, Some e), w') \<Longrightarrow> p = disallowAllPolicy"
  by (auto simp: policyHop_def Let_def readPolicy_error
      split: prod.splits sum.splits option.splits if_splits)

lemma policyLoop_closed:
  assumes "policyLoop lib ctx_Err getter n u w = ((p, Some e), w')"
  shows "p = disallowAllPolicy"
proof -
  have "case policyLoop lib ctx_Err getter n u w of
          (r, w') \<Rightarrow> (case r of (p, e) \<Rightarrow> if e = None then True else p = disallowAllPolicy)"
    by (rule policy_loop.loop_rule [where I = "\<lambda>_ _ _. True"]) (auto dest: policyHop_closed)
  with assms show ?thesis by simp
qed

text \<open>A getter that also records the targets it was asked for.\<close>

definition logged :: "'w getter \<Rightarrow> ('w \<times> url option list) getter" where
  "logged getter wl target =
     (case getter (fst wl) target of (r, w') \<Rightarrow> (r, w', snd wl @ [target]))"

lemma policyHop_log:
  assumes "\<And>w target. logOf (snd (getter w target)) = logOf w @ [target]"
    and "policyHop lib ctx_Err getter n u w = (x, w')"
  shows "logOf w' = logOf w @ [u]"
  using assms(1) [of w u] assms(2)
  by (auto simp: policyHop_def Let_def split: prod.splits sum.splits option.splits if_splits)

definition robotsURL :: "host_lib \<Rightarrow> origin \<Rightarrow> url option" where
  "robotsURL lib initial =
     (case url_Parse lib (origin_String initial @ ''/robots.txt'') of Inl _ \<Rightarrow> None | Inr u \<Rightarrow> Some u)"

lemma obtainPolicy_log:
  assumes log: "\<And>w target. logOf (snd (getter w target)) = logOf w @ [target]" and fresh: "logOf w = []"
    and result: "obtainPolicy lib ctx initial (Some getter) w = (r, w')"
  shows "length (logOf w') \<le> 6 \<and> list_all (\<lambda>u. u = robotsURL lib initial \<or> followable lib u) (logOf w')"
proof -
  have "case policyLoop lib ctx_Err getter 0 (robotsURL lib initial) w of
      (r, w') \<Rightarrow> length (logOf w') \<le> Suc maxRedirects \<and>
        list_all (\<lambda>u. u = robotsURL lib initial \<or> followable lib u) (logOf w')" for ctx_Err
    by (rule policy_loop.loop_log) (auto intro: policyHop_log log simp: fresh)
  then have "policyLoop lib ctx_Err getter 0 (robotsURL lib initial) w = (r, w') \<Longrightarrow> ?thesis" for ctx_Err
    by (auto simp: maxRedirects_def dest!: meta_spec [of _ ctx_Err])
  with result fresh show ?thesis
    by (auto simp: obtainPolicy_def robotsURL_def Let_def split: option.splits if_splits)
qed

section \<open>Requests stay on public addresses\<close>

definition publicOnly ::
    "(addr \<Rightarrow> 16 word \<Rightarrow> string) \<Rightarrow> ('w, 'c) dialer \<Rightarrow> ('w, 'c) dialer \<Rightarrow> ('w, 'c) dialer" where
  "publicOnly addrPort dial other w t net target =
     (if \<exists>a p. publicAddr a \<and> target = addrPort a p then dial w t net target else other w t net target)"

lemma dialLoop_publicOnly:
  "dialLoop addrPort ctx_Err (publicOnly addrPort dial other) timeout p addresses w =
   dialLoop addrPort ctx_Err dial timeout p addresses w"
  by (rule dialLoop_agree) (auto simp: publicOnly_def)

lemma DialContextWithTimeout_publicOnly:
  "DialContextWithTimeout addrPort dest ctx (Some (publicOnly addrPort dial other)) timeout w =
   DialContextWithTimeout addrPort dest ctx (Some dial) timeout w"
  by (auto simp: DialContextWithTimeout_def dialLoop_publicOnly split: option.splits)

lemma newGuardedTransport_publicOnly:
  "newGuardedTransport addrPort ctx_Err dest (Some (publicOnly addrPort dial other)) config =
   newGuardedTransport addrPort ctx_Err dest (Some dial) config"
  by (simp add: newGuardedTransport_def DialContextWithTimeout_publicOnly)

lemma g_dialer_update:
  "g_resolver (g\<lparr>g_dialer := d\<rparr>) = g_resolver g" "g_signer (g\<lparr>g_dialer := d\<rparr>) = g_signer g"
  "g_config (g\<lparr>g_dialer := d\<rparr>) = g_config g" "g_dialer (g\<lparr>g_dialer := d\<rparr>) = d"
  by simp_all

section \<open>Properties\<close>

text \<open>
  A transport that behaves arbitrarily unless it is given a GET of the target that names the bot, over a
  connection whose TLS handshake and response header are awaited for a bounded time.
\<close>

definition identifiedOnly ::
    "url option \<Rightarrow> (('w, 'c) transport \<Rightarrow> request \<Rightarrow> 'w \<Rightarrow> (go_error + response) \<times> 'w) \<Rightarrow>
     (('w, 'c) transport \<Rightarrow> request \<Rightarrow> 'w \<Rightarrow> (go_error + response) \<times> 'w) \<Rightarrow>
     ('w, 'c) transport \<Rightarrow> request \<Rightarrow> 'w \<Rightarrow> (go_error + response) \<times> 'w" where
  "identifiedOnly target trip other tr q w =
     (if q_Method q = ''GET'' \<and> target = Some (q_URL q) \<and>
         q_Header q ''User-Agent'' = ''Joshternet-Joshbot (+https://joshternet.org/joshbot)'' \<and>
         0 < t_TLSHandshakeTimeout tr \<and> 0 < t_ResponseHeaderTimeout tr
      then trip tr q w else other tr q w)"

text \<open>What signing keeps: the method, the URL and the User-Agent (it sets the headers of the signature).\<close>

definition signerKeeps :: "'w request_signer \<Rightarrow> bool" where
  "signerKeeps Sign \<longleftrightarrow>
     (\<forall>w q. case Sign w q of
        (Inl _, _) \<Rightarrow> True
      | (Inr q', _) \<Rightarrow> q_Method q' = q_Method q \<and> q_URL q' = q_URL q \<and>
          q_Header q' ''User-Agent'' = q_Header q ''User-Agent'')"

lemma newGuardedTransport_limits:
  assumes "config = http_config_zero \<or> validHTTPConfig config"
  shows "0 < t_TLSHandshakeTimeout (newGuardedTransport addrPort ctx_Err dest dialer config) \<and>
    0 < t_ResponseHeaderTimeout (newGuardedTransport addrPort ctx_Err dest dialer config)"
  using assms by (auto simp: newGuardedTransport_def DefaultHTTPConfig_def validHTTPConfig_def duration_units)

lemma UserAgent_text: "UserAgent = ''Joshternet-Joshbot (+https://joshternet.org/joshbot)''"
  by (simp add: UserAgent_def ProductToken_def BotInformationURL_def)

text \<open>
  C34. What the guarded client sends, and where: with a configuration that is valid or left zero and a signer that
  keeps method, URL and User-Agent, for every target, resolver answer and transport the outcome is the same when the
  transport is replaced by one that behaves arbitrarily on every request but a GET of exactly the target with the fixed
  User-Agent and positive limits, and the dialer by one that behaves arbitrarily on every target but the texts of
  public addresses.
\<close>
theorem guarded_get_identified:
  assumes "g_config g = http_config_zero \<or> validHTTPConfig (g_config g)"
    and "\<And>Sign. g_signer g = Some Sign \<Longrightarrow> signerKeeps Sign"
  shows "guarded_get lib addrPort (identifiedOnly target trip otherTrip) ctx_Err
      (g\<lparr>g_dialer := Some (publicOnly addrPort dial otherDial)\<rparr>) w target =
    guarded_get lib addrPort trip ctx_Err (g\<lparr>g_dialer := Some dial\<rparr>) w target"
proof (cases target)
  case (Some u)
  let ?q = "\<lparr>q_Method = ''GET'', q_URL = u, q_Header = (\<lambda>_. [])(''User-Agent'' := UserAgent)\<rparr>"
  let ?sign = "\<lambda>w. case g_signer g of None \<Rightarrow> (Inr ?q, w) | Some Sign \<Rightarrow> Sign w ?q"
  have q: "q_Method q' = ''GET'' \<and> q_URL q' = u \<and> q_Header q' ''User-Agent'' = UserAgent"
    if "?sign w1 = (Inr q', w2)" for w1 w2 q'
  proof (cases "g_signer g")
    case (Some Sign)
    from assms(2) [OF this] have "\<forall>w q. case Sign w q of
        (Inl _, _) \<Rightarrow> True
      | (Inr q', _) \<Rightarrow> q_Method q' = q_Method q \<and> q_URL q' = q_URL q \<and>
          q_Header q' ''User-Agent'' = q_Header q ''User-Agent''"
      unfolding signerKeeps_def .
    from this [THEN spec [of _ w1], THEN spec [of _ ?q]] that Some show ?thesis by simp
  qed (use that in auto)
  have "identifiedOnly target trip otherTrip (newGuardedTransport addrPort ctx_Err dest dialer (g_config g)) q' w2 =
      trip (newGuardedTransport addrPort ctx_Err dest dialer (g_config g)) q' w2"
    if "?sign w1 = (Inr q', w2)" for w1 w2 q' dest and dialer :: "('a, 'b) dialer option"
    using q [OF that] newGuardedTransport_limits [OF assms(1), of addrPort ctx_Err dest dialer] Some
    by (simp add: identifiedOnly_def UserAgent_text)
  then show ?thesis
    unfolding guarded_get_def g_dialer_update newGuardedTransport_publicOnly Some option.case Let_def
    by (auto split: prod.splits sum.splits)
qed (simp add: guarded_get_def)

text \<open>A signer that adds its header.\<close>

definition addingSigner :: "unit request_signer" where
  "addingSigner w q = (Inr (q\<lparr>q_Header := (q_Header q)(''Signature'' := ''sig1=:AA==:'')\<rparr>), w)"

definition exampleGuarded :: "(unit, unit) guardedHTTP" where
  "exampleGuarded =
     \<lparr>g_resolver = Some (\<lambda>w net host. (Inr [Addr4 0x08080808], w)), g_dialer = None, g_signer = Some addingSigner,
      g_config = http_config_zero\<rparr>"

definition examplePage :: url where "examplePage = bareURL ''https'' ''example.com:8443''"

theorem guarded_get_identified_witness:
  "guarded_get domainLib (\<lambda>_ _. ''8.8.8.8:8443'')
     (identifiedOnly (Some examplePage) (\<lambda>_ _ w. (Inl (Sentinel ''sent''), w)) (\<lambda>_ _ w. (Inl (Sentinel ''other''), w)))
     (\<lambda>_. None) (exampleGuarded\<lparr>g_dialer := Some (publicOnly (\<lambda>_ _. ''8.8.8.8:8443'')
        (\<lambda>w _ _ _. (Inr None, w)) (\<lambda>w _ _ _. (Inr (Some ()), w)))\<rparr>) () (Some examplePage) =
   (Inl (Wrap ''robots: HTTP request'' [Sentinel ''sent'']), ())"
proof -
  have zero: "g_config exampleGuarded = http_config_zero" by (simp add: exampleGuarded_def)
  have keeps: "signerKeeps Sign" if "g_signer exampleGuarded = Some Sign" for Sign
    using that by (auto simp: exampleGuarded_def signerKeeps_def addingSigner_def)
  have parse: "Origin.Parse domainLib (url_String domainLib examplePage) =
      Inr \<lparr>serialization = ''https://example.com:8443'', hostname = ''example.com'', port = 8443\<rparr>"
    using domainLib_example by (simp add: examplePage_def) (simp add: domainLib_def bareURL_def)
  have public: "publicAddr (Addr4 0x08080808)"
    by (simp add: publicAddr_def specialIPv4_def range4_def quad_def)
  have answer: "ParseAddr domainLib ''example.com'' = Inl (Sentinel ''ParseAddr'')" by (simp add: domainLib_def)
  have resolve: "Resolve domainLib (Some (\<lambda>_. None)) \<lparr>serialization = ''https://example.com:8443'', hostname = ''example.com'', port = 8443\<rparr>
      (Some (\<lambda>w net host. (Inr [Addr4 0x08080808], w))) () = (Inr \<lparr>d_addresses = [Addr4 0x08080808], d_port = 8443\<rparr>, ())"
    using public answer
    by (simp add: Resolve_def origin_Hostname_def origin_Port_def ValidateAddr_public Let_def)
  have "guarded_get domainLib (\<lambda>_ _. ''8.8.8.8:8443'') (\<lambda>_ _ w. (Inl (Sentinel ''sent''), w)) (\<lambda>_. None)
      (exampleGuarded\<lparr>g_dialer := Some (\<lambda>w _ _ _. (Inr None, w))\<rparr>) () (Some examplePage) =
    (Inl (Wrap ''robots: HTTP request'' [Sentinel ''sent'']), ())"
    using parse resolve by (simp add: guarded_get_def exampleGuarded_def addingSigner_def)
  with guarded_get_identified [of exampleGuarded domainLib "\<lambda>_ _. ''8.8.8.8:8443''" "Some examplePage"
      "\<lambda>_ _ w. (Inl (Sentinel ''sent''), w)" "\<lambda>_ _ w. (Inl (Sentinel ''other''), w)" "\<lambda>_. None"
      "\<lambda>w _ _ _. (Inr None, w)" "\<lambda>w _ _ _. (Inr (Some ()), w)" "()", OF disjI1 [OF zero] keeps]
  show ?thesis by (rule trans)
qed

text \<open>
  Obtaining a policy fails closed and ends: whenever an error is returned the policy is the one that
  denies everything, and at most six requests are made, each for the origin's robots.txt or for a redirect
  target with a valid web origin and no fragment.
\<close>
theorem obtainPolicy_bounded_fails_closed:
  "(case obtainPolicy lib ctx initial getter w of
      ((p, e), _) \<Rightarrow> if e = None then True else p = disallowAllPolicy) \<and>
   (case obtainPolicy lib ctx' initial (Some (logged get)) (w', []) of
      (_, (_, targets)) \<Rightarrow>
        length targets \<le> 6 \<and> list_all (\<lambda>u. u = robotsURL lib initial \<or> followable lib u) targets)"
proof
  show "case obtainPolicy lib ctx initial getter w of
      ((p, e), _) \<Rightarrow> if e = None then True else p = disallowAllPolicy"
    by (auto simp: obtainPolicy_def Let_def dest: policyLoop_closed split: option.splits)
next
  have "snd (snd (logged get w target)) = snd w @ [target]" for w target
    by (simp add: logged_def split: prod.splits)
  from obtainPolicy_log [where logOf = snd, OF this]
  show "case obtainPolicy lib ctx' initial (Some (logged get)) (w', []) of
      (_, (_, targets)) \<Rightarrow>
        length targets \<le> 6 \<and> list_all (\<lambda>u. u = robotsURL lib initial \<or> followable lib u) targets"
    by (fastforce split: prod.splits)
qed

end
