(* ===== verification/Scheduler.thy ===== *)
theory Scheduler
  imports Robots_Http "HOL-Library.AList" "HOL-Library.Multiset"
begin

text \<open>
  The per-origin request scheduler, \<^verbatim>\<open>internal/robots/request_scheduler.go\<close>. Its two maps, from origins and
  from neighborhood keys to schedules, are association lists in iteration order; a pointer to a schedule is
  its key, since a schedule in use stays in its map (\<open>pinnedBy\<close> below). The critical sections of the code
  (each under the scheduler's mutex or the schedules' mutexes) are the operations here; \<open>sched_step\<close> then
  runs them in every order, with the clock advancing in between, to state what holds under concurrency.
  The public suffix list is a parameter.
\<close>

definition maxCacheLifetime :: duration where "maxCacheLifetime = 24 * hour"
definition maxScheduleEntries :: nat where "maxScheduleEntries = 1024"
definition errScheduleCapacity where
  "errScheduleCapacity = Sentinel ''robots: request schedule capacity reached''"
definition errInvalidRequestDelay where
  "errInvalidRequestDelay = Sentinel ''robots: invalid minimum request delay''"

record request_schedule =
  s_crawlDelay :: duration
  s_lastStart :: go_time
  s_lastAccess :: go_time
  s_users :: int

definition schedule_zero :: request_schedule where
  "schedule_zero = \<lparr>s_crawlDelay = 0, s_lastStart = 0, s_lastAccess = 0, s_users = 0\<rparr>"

type_synonym 'k entries = "('k \<times> request_schedule) list"

record scheduler =
  sc_minimum :: duration
  sc_capacity :: nat
  sc_schedules :: "origin entries"
  sc_neighborhoods :: "string entries"

definition newOriginRequestScheduler :: "duration \<Rightarrow> scheduler" where
  "newOriginRequestScheduler minimum =
     \<lparr>sc_minimum = minimum, sc_capacity = maxScheduleEntries, sc_schedules = [], sc_neighborhoods = []\<rparr>"

record suffix_list =
  PublicSuffix :: "string \<Rightarrow> string \<times> bool"
  EffectiveTLDPlusOne :: "string \<Rightarrow> go_error + string"

definition neighborhoodKey :: "host_lib \<Rightarrow> suffix_list \<Rightarrow> string \<Rightarrow> string option" where
  "neighborhoodKey lib psl host =
     (case ParseAddr lib host of
        Inr _ \<Rightarrow> None
      | Inl _ \<Rightarrow>
          (case PublicSuffix psl host of (sfx, icann) \<Rightarrow>
             if \<not> icann \<and> CHR ''.'' \<in> set sfx then Some sfx
             else (case EffectiveTLDPlusOne psl host of
                     Inl _ \<Rightarrow> None | Inr registrable \<Rightarrow> Some registrable)))"

section \<open>Pinning\<close>

definition idleSchedule :: "duration \<Rightarrow> go_time \<Rightarrow> request_schedule \<Rightarrow> bool" where
  "idleSchedule minimum now e \<longleftrightarrow>
     s_users e = 0 \<and> s_lastStart e + max minimum (s_crawlDelay e) \<le> now"

definition expiredSchedule :: "go_time \<Rightarrow> request_schedule \<Rightarrow> bool" where
  "expiredSchedule now e \<longleftrightarrow> s_lastAccess e + maxCacheLifetime \<le> now"

text \<open>One iteration of the eviction scan: the map and the oldest idle entry so far.\<close>

definition pinVisit ::
    "('k \<Rightarrow> 'k \<Rightarrow> bool) \<Rightarrow> duration \<Rightarrow> go_time \<Rightarrow> 'k entries \<times> ('k \<times> request_schedule) option \<Rightarrow>
     'k \<times> request_schedule \<Rightarrow> 'k entries \<times> ('k \<times> request_schedule) option" where
  "pinVisit lessKey minimum now st visited =
     (case (st, visited) of ((entries, oldest), (candidate, entry)) \<Rightarrow>
        if \<not> idleSchedule minimum now entry then st
        else if expiredSchedule now entry then (AList.delete candidate entries, oldest)
        else if (case oldest of
                   None \<Rightarrow> True
                 | Some (oldestKey, oldestEntry) \<Rightarrow>
                     s_lastAccess entry < s_lastAccess oldestEntry \<or>
                     s_lastAccess entry = s_lastAccess oldestEntry \<and> lessKey candidate oldestKey)
        then (entries, Some (candidate, entry))
        else st)"

definition pin ::
    "('k \<Rightarrow> 'k \<Rightarrow> bool) \<Rightarrow> duration \<Rightarrow> nat \<Rightarrow> 'k \<Rightarrow> go_time \<Rightarrow> 'k entries \<Rightarrow> go_error option \<times> 'k entries" where
  "pin lessKey minimum capacity key now entries =
     (case foldl (pinVisit lessKey minimum now) (entries, None) entries of (entries, oldest) \<Rightarrow>
        (let use = (\<lambda>e. e\<lparr>s_users := s_users e + 1, s_lastAccess := now\<rparr>)
         in case map_of entries key of
              Some e \<Rightarrow> (None, AList.update key (use e) entries)
            | None \<Rightarrow>
                if length entries \<ge> capacity then
                  (case oldest of
                     None \<Rightarrow> (Some errScheduleCapacity, entries)
                   | Some (oldestKey, _) \<Rightarrow>
                       (None, AList.update key (use schedule_zero) (AList.delete oldestKey entries)))
                else (None, AList.update key (use schedule_zero) entries)))"

definition update_schedule :: "'k \<Rightarrow> (request_schedule \<Rightarrow> request_schedule) \<Rightarrow> 'k entries \<Rightarrow> 'k entries" where
  "update_schedule key f entries =
     (case map_of entries key of None \<Rightarrow> entries | Some e \<Rightarrow> AList.update key (f e) entries)"

definition unpin :: "'k \<Rightarrow> go_time \<Rightarrow> 'k entries \<Rightarrow> 'k entries" where
  "unpin key accessed entries =
     update_schedule key (\<lambda>e. e\<lparr>s_users := s_users e - 1, s_lastAccess := accessed\<rparr>) entries"

definition lessOrigin :: "origin \<Rightarrow> origin \<Rightarrow> bool" where
  "lessOrigin left right \<longleftrightarrow> origin_String left < origin_String right"

definition acquire :: "origin \<Rightarrow> go_time \<Rightarrow> scheduler \<Rightarrow> go_error option \<times> scheduler" where
  "acquire source now s =
     (case pin lessOrigin (sc_minimum s) (sc_capacity s) source now (sc_schedules s) of
        (err, entries) \<Rightarrow> (err, s\<lparr>sc_schedules := entries\<rparr>))"

definition release :: "origin \<Rightarrow> go_time \<Rightarrow> scheduler \<Rightarrow> scheduler" where
  "release source now s = s\<lparr>sc_schedules := unpin source now (sc_schedules s)\<rparr>"

record pinned_schedules =
  p_origin :: origin
  p_neighborhood :: "string option"

text \<open>\<^verbatim>\<open>releasePinned\<close> releases the two schedules one after the other; each release reads the clock.\<close>

definition releasePinned :: "pinned_schedules \<Rightarrow> go_time \<Rightarrow> go_time \<Rightarrow> scheduler \<Rightarrow> scheduler" where
  "releasePinned pinned now now' s =
     (let s = release (p_origin pinned) now s
      in case p_neighborhood pinned of
           None \<Rightarrow> s
         | Some g \<Rightarrow> s\<lparr>sc_neighborhoods := unpin g now' (sc_neighborhoods s)\<rparr>)"

definition setCrawlDelay :: "origin \<Rightarrow> duration \<Rightarrow> scheduler \<Rightarrow> scheduler" where
  "setCrawlDelay source delay s =
     s\<lparr>sc_schedules := update_schedule source (\<lambda>e. e\<lparr>s_crawlDelay := delay\<rparr>) (sc_schedules s)\<rparr>"

text \<open>The part of \<^verbatim>\<open>acquireTarget\<close> under the mutex: both pins, the first undone when the second fails.\<close>

definition acquireBoth ::
    "origin \<Rightarrow> string option \<Rightarrow> go_time \<Rightarrow> scheduler \<Rightarrow> (go_error + pinned_schedules) \<times> scheduler" where
  "acquireBoth targetOrigin key now s =
     (case acquire targetOrigin now s of
        (Some err, s) \<Rightarrow> (Inl err, s)
      | (None, s) \<Rightarrow>
          (case key of
             None \<Rightarrow> (Inr \<lparr>p_origin = targetOrigin, p_neighborhood = None\<rparr>, s)
           | Some g \<Rightarrow>
               (case pin (<) (sc_minimum s) (sc_capacity s) g now (sc_neighborhoods s) of
                  (err, entries) \<Rightarrow>
                    (let s = s\<lparr>sc_neighborhoods := entries\<rparr>
                     in case err of
                          Some err \<Rightarrow> (Inl err, release targetOrigin now s)
                        | None \<Rightarrow> (Inr \<lparr>p_origin = targetOrigin, p_neighborhood = Some g\<rparr>, s)))))"

definition acquireTarget ::
    "host_lib \<Rightarrow> suffix_list \<Rightarrow> url option \<Rightarrow> go_time \<Rightarrow> scheduler \<Rightarrow>
     (go_error + pinned_schedules) \<times> scheduler" where
  "acquireTarget lib psl target now s =
     (case target of
        None \<Rightarrow> (Inl errInvalidHTTPTarget, s)
      | Some u \<Rightarrow>
          (case Origin.Parse lib (url_String lib u) of
             Inl _ \<Rightarrow> (Inl errInvalidHTTPTarget, s)
           | Inr targetOrigin \<Rightarrow>
               if sc_minimum s < 0 then (Inl errInvalidRequestDelay, s)
               else acquireBoth targetOrigin
                      (neighborhoodKey lib psl (origin_Hostname targetOrigin)) now s))"

section \<open>Waiting\<close>

definition remainingDelay :: "go_time \<Rightarrow> duration \<Rightarrow> go_time \<Rightarrow> duration" where
  "remainingDelay lastStart delay now =
     (if lastStart = 0 then 0
      else (let earliest = lastStart + delay
            in if earliest > now then time_Sub earliest now else 0))"

text \<open>
  One iteration of \<^verbatim>\<open>wait\<close>, from taking the mutexes to releasing them: how long the pinned schedules still
  block a request, and when they do not, the schedules with their start times set.
\<close>

definition scheduleOf :: "'k \<Rightarrow> 'k entries \<Rightarrow> request_schedule" where
  "scheduleOf key entries = (case map_of entries key of None \<Rightarrow> schedule_zero | Some e \<Rightarrow> e)"

definition remainingWait :: "pinned_schedules \<Rightarrow> go_time \<Rightarrow> scheduler \<Rightarrow> duration" where
  "remainingWait pinned now s =
     (let e = scheduleOf (p_origin pinned) (sc_schedules s);
          originDelay = (if s_crawlDelay e > sc_minimum s then s_crawlDelay e else sc_minimum s);
          wait = remainingDelay (s_lastStart e) originDelay now
      in case p_neighborhood pinned of
           None \<Rightarrow> wait
         | Some g \<Rightarrow>
             (let groupWait =
                    remainingDelay (s_lastStart (scheduleOf g (sc_neighborhoods s))) (sc_minimum s) now
              in if groupWait > wait then groupWait else wait))"

definition startRequest :: "pinned_schedules \<Rightarrow> go_time \<Rightarrow> scheduler \<Rightarrow> scheduler" where
  "startRequest pinned now s =
     (let s = s\<lparr>sc_schedules :=
                update_schedule (p_origin pinned) (\<lambda>e. e\<lparr>s_lastStart := now\<rparr>) (sc_schedules s)\<rparr>
      in case p_neighborhood pinned of
           None \<Rightarrow> s
         | Some g \<Rightarrow> s\<lparr>sc_neighborhoods :=
                         update_schedule g (\<lambda>e. e\<lparr>s_lastStart := now\<rparr>) (sc_neighborhoods s)\<rparr>)"

text \<open>The critical section of an iteration: the remaining wait, and when there is none the start of the request.\<close>

definition tryStart :: "pinned_schedules \<Rightarrow> go_time \<Rightarrow> scheduler \<Rightarrow> duration \<times> scheduler" where
  "tryStart pinned now s =
     (let wait = remainingWait pinned now s
      in if wait > 0 then (wait, s) else (wait, startRequest pinned now s))"

text \<open>
  The loop of \<^verbatim>\<open>wait\<close>, with fuel: \<open>None\<close> when the fuel runs out. The waiter acts on the scheduler too, since
  other requests run while this one waits.
\<close>

fun waitLoop ::
    "nat \<Rightarrow> ('w \<Rightarrow> go_time) \<Rightarrow> (duration \<Rightarrow> scheduler \<times> 'w \<Rightarrow> go_error option \<times> (scheduler \<times> 'w)) \<Rightarrow>
     pinned_schedules \<Rightarrow> scheduler \<times> 'w \<Rightarrow> (go_error option \<times> (scheduler \<times> 'w)) option" where
  "waitLoop 0 clockNow waiter pinned sw = None"
| "waitLoop (Suc fuel) clockNow waiter pinned sw =
     (case tryStart pinned (clockNow (snd sw)) (fst sw) of
        (wait, s) \<Rightarrow>
          if wait > 0 then
            (case waiter wait (s, snd sw) of
               (Some err, sw) \<Rightarrow> Some (Some err, sw)
             | (None, sw) \<Rightarrow> waitLoop fuel clockNow waiter pinned sw)
          else Some (None, (s, snd sw)))"

definition wait ::
    "nat \<Rightarrow> host_lib \<Rightarrow> suffix_list \<Rightarrow> ('w \<Rightarrow> go_time) \<Rightarrow>
     (duration \<Rightarrow> scheduler \<times> 'w \<Rightarrow> go_error option \<times> (scheduler \<times> 'w)) \<Rightarrow> url option \<Rightarrow>
     scheduler \<times> 'w \<Rightarrow> (go_error option \<times> (scheduler \<times> 'w)) option" where
  "wait fuel lib psl clockNow waiter target sw =
     (case acquireTarget lib psl target (clockNow (snd sw)) (fst sw) of
        (Inl err, s) \<Rightarrow> Some (Some err, (s, snd sw))
      | (Inr pinned, s) \<Rightarrow>
          map_option
            (\<lambda>(err, (s, w)). (err, (releasePinned pinned (clockNow w) (clockNow w) s, w)))
            (waitLoop fuel clockNow waiter pinned (s, snd sw)))"

text \<open>\<^verbatim>\<open>scheduledHopGetter.get\<close>: the target stays pinned while the request waits and runs.\<close>

definition scheduled_get ::
    "nat \<Rightarrow> host_lib \<Rightarrow> suffix_list \<Rightarrow> ('w \<Rightarrow> go_time) \<Rightarrow>
     (duration \<Rightarrow> scheduler \<times> 'w \<Rightarrow> go_error option \<times> (scheduler \<times> 'w)) \<Rightarrow>
     (scheduler \<times> 'w) getter \<Rightarrow> scheduler \<times> 'w \<Rightarrow> url option \<Rightarrow>
     ((go_error + response option) \<times> (scheduler \<times> 'w)) option" where
  "scheduled_get fuel lib psl clockNow waiter inner sw target =
     (case acquireTarget lib psl target (clockNow (snd sw)) (fst sw) of
        (Inl err, s) \<Rightarrow> Some (Inl err, (s, snd sw))
      | (Inr pinned, s) \<Rightarrow>
          map_option
            (\<lambda>(err, sw).
               (case (case err of Some err \<Rightarrow> (Inl err, sw) | None \<Rightarrow> inner sw target) of
                  (r, (s, w)) \<Rightarrow> (r, (releasePinned pinned (clockNow w) (clockNow w) s, w))))
            (wait fuel lib psl clockNow waiter target (s, snd sw)))"

section \<open>What pinning keeps\<close>

text \<open>
  \<open>pinnedBy\<close>: the users of an entry are the pins held on its key, so a pinned key has an entry.
  \<open>spaced\<close>: every recorded start is either on record in its entry or older than the minimum delay.
\<close>

definition pinnedBy :: "'k multiset \<Rightarrow> 'k entries \<Rightarrow> bool" where
  "pinnedBy pins entries \<longleftrightarrow>
     distinct (map fst entries) \<and>
     (\<forall>k. int (count pins k) = (case map_of entries k of None \<Rightarrow> 0 | Some e \<Rightarrow> s_users e))"

definition spaced :: "duration \<Rightarrow> go_time \<Rightarrow> ('k \<times> go_time) list \<Rightarrow> 'k entries \<Rightarrow> bool" where
  "spaced minimum now starts entries \<longleftrightarrow>
     (\<forall>(k, t) \<in> set starts.
        0 < t \<and> t \<le> now \<and>
        (t + minimum \<le> now \<or> (\<exists>e. map_of entries k = Some e \<and> t \<le> s_lastStart e)))"

text \<open>The scan only removes idle expired entries, and the oldest entry it names is idle and still there.\<close>

lemma pinVisit_scan:
  assumes "distinct (map fst entries)"
    and "foldl (pinVisit lessKey minimum now) (entries, None) entries = (kept, oldest)"
  shows "distinct (map fst kept) \<and> length kept \<le> length entries \<and>
    (\<forall>k. map_of kept k = map_of entries k \<or>
         map_of kept k = None \<and>
         (\<exists>e. map_of entries k = Some e \<and> idleSchedule minimum now e \<and> expiredSchedule now e)) \<and>
    (\<forall>k e. oldest = Some (k, e) \<longrightarrow>
         map_of entries k = Some e \<and> idleSchedule minimum now e \<and> \<not> expiredSchedule now e)"
proof -
  let ?P = "\<lambda>(kept, oldest). distinct (map fst kept) \<and> length kept \<le> length entries \<and>
    (\<forall>k. map_of kept k = map_of entries k \<or>
         map_of kept k = None \<and>
         (\<exists>e. map_of entries k = Some e \<and> idleSchedule minimum now e \<and> expiredSchedule now e)) \<and>
    (\<forall>k e. oldest = Some (k, e) \<longrightarrow>
         map_of entries k = Some e \<and> idleSchedule minimum now e \<and> \<not> expiredSchedule now e)"
  have "?P (foldl (pinVisit lessKey minimum now) (entries, None) entries)"
  proof (rule foldl_invariant)
    show "?P (entries, None)" using assms(1) by simp
  next
    fix st x
    assume P: "?P st" and "x \<in> set entries"
    obtain kept oldest k e where st: "st = (kept, oldest)" and x: "x = (k, e)"
      by (cases st; cases x) auto
    from \<open>x \<in> set entries\<close> assms(1) x have e: "map_of entries k = Some e" by simp
    have del: "length (AList.delete k kept) \<le> length kept"
      by (simp add: AList.delete_eq)
    show "?P (pinVisit lessKey minimum now st x)"
      using P e del unfolding st x
      by (auto simp: pinVisit_def AList.distinct_delete AList.delete_conv' split: option.splits)
  qed
  with assms(2) show ?thesis by simp
qed

definition dropsIdle :: "duration \<Rightarrow> go_time \<Rightarrow> 'k entries \<Rightarrow> 'k entries \<Rightarrow> bool" where
  "dropsIdle minimum now entries entries' \<longleftrightarrow>
     distinct (map fst entries') \<and>
     (\<forall>k. map_of entries' k = map_of entries k \<or>
          map_of entries' k = None \<and> (\<exists>e. map_of entries k = Some e \<and> idleSchedule minimum now e))"

lemma dropsIdle_keeps:
  assumes "dropsIdle minimum now entries entries'"
  shows "pinnedBy pins entries \<Longrightarrow> pinnedBy pins entries'"
    and "spaced minimum now starts entries \<Longrightarrow> spaced minimum now starts entries'"
proof -
  assume p: "pinnedBy pins entries"
  have "int (count pins k) = (case map_of entries' k of None \<Rightarrow> 0 | Some e \<Rightarrow> s_users e)" for k
  proof (cases "map_of entries' k = map_of entries k")
    case False
    with assms obtain e where "map_of entries' k = None" "map_of entries k = Some e" "s_users e = 0"
      by (auto simp: dropsIdle_def idleSchedule_def)
    with p show ?thesis unfolding pinnedBy_def by (metis option.simps(4,5))
  qed (use p in \<open>simp add: pinnedBy_def\<close>)
  with assms show "pinnedBy pins entries'" by (simp add: pinnedBy_def dropsIdle_def)
next
  assume sp: "spaced minimum now starts entries"
  show "spaced minimum now starts entries'"
    unfolding spaced_def
  proof (intro ballI, clarify)
    fix k t
    assume "(k, t) \<in> set starts"
    with sp have kt: "0 < t" "t \<le> now"
        "t + minimum \<le> now \<or> (\<exists>e. map_of entries k = Some e \<and> t \<le> s_lastStart e)"
      by (auto simp: spaced_def)
    have "map_of entries' k = map_of entries k \<or> t + minimum \<le> now"
      if "map_of entries k = Some e" "t \<le> s_lastStart e" for e
    proof -
      from assms that(1) have "map_of entries' k = map_of entries k \<or> idleSchedule minimum now e"
        unfolding dropsIdle_def by (metis option.inject)
      with that(2) show ?thesis by (auto simp: idleSchedule_def)
    qed
    with kt show "0 < t \<and> t \<le> now \<and>
        (t + minimum \<le> now \<or> (\<exists>e. map_of entries' k = Some e \<and> t \<le> s_lastStart e))"
      by metis
  qed
qed

lemma dropsIdle_delete:
  assumes "dropsIdle minimum now entries kept" and "map_of entries k = Some e"
    and "idleSchedule minimum now e"
  shows "dropsIdle minimum now entries (AList.delete k kept)"
  using assms by (auto simp: dropsIdle_def AList.distinct_delete AList.delete_conv')

text \<open>Rewriting the entry of a key without setting its start back.\<close>

lemma update_keeps:
  assumes "\<And>e. map_of entries key = Some e \<Longrightarrow> s_lastStart e \<le> s_lastStart e'"
  shows "spaced minimum now starts entries \<Longrightarrow> spaced minimum now starts (AList.update key e' entries)"
    and "pinnedBy pins entries \<Longrightarrow> s_users e' = int (count pins' key) \<Longrightarrow>
         (\<And>k. k \<noteq> key \<Longrightarrow> count pins' k = count pins k) \<Longrightarrow> pinnedBy pins' (AList.update key e' entries)"
proof -
  assume sp: "spaced minimum now starts entries"
  have "\<exists>e. map_of (AList.update key e' entries) k = Some e \<and> t \<le> s_lastStart e"
    if "map_of entries k = Some e" "t \<le> s_lastStart e" for k t e
    using that assms [of e] by (cases "k = key") (auto simp: AList.update_conv' intro: order_trans)
  with sp show "spaced minimum now starts (AList.update key e' entries)"
    unfolding spaced_def by (simp add: case_prod_beta) metis
next
  assume "pinnedBy pins entries" and "s_users e' = int (count pins' key)"
    and "\<And>k. k \<noteq> key \<Longrightarrow> count pins' k = count pins k"
  then show "pinnedBy pins' (AList.update key e' entries)"
    by (auto simp: pinnedBy_def AList.update_conv' AList.distinct_update)
qed

lemma length_update: "length (AList.update k v al) = (if k \<in> fst ` set al then length al else Suc (length al))"
  by (induction al) auto

lemma length_delete_mem:
  "k \<in> fst ` set al \<Longrightarrow> length (AList.delete k al) < length al"
proof -
  assume "k \<in> fst ` set al"
  then have "length (filter (\<lambda>(k', _). k \<noteq> k') al) < length al"
    by (auto intro: length_filter_less)
  then show ?thesis by (simp add: AList.delete_eq)
qed

lemma pin_keeps:
  assumes pinned: "pinnedBy pins entries" and spc: "spaced minimum now starts entries"
    and pin: "pin lessKey minimum capacity key now entries = (err, entries')"
  shows "spaced minimum now starts entries'"
    and "pinnedBy (if err = None then add_mset key pins else pins) entries'"
    and "length entries \<le> capacity \<Longrightarrow> length entries' \<le> capacity"
proof -
  let ?use = "\<lambda>e. e\<lparr>s_users := s_users e + 1, s_lastAccess := now\<rparr>"
  obtain kept oldest where scan: "foldl (pinVisit lessKey minimum now) (entries, None) entries = (kept, oldest)"
    by fastforce
  have dist: "distinct (map fst entries)" using pinned by (simp add: pinnedBy_def)
  note s = pinVisit_scan [OF dist scan]
  have drop: "dropsIdle minimum now entries kept" using s by (auto simp: dropsIdle_def)
  have use_ok: "spaced minimum now starts (AList.update key (?use e) ents) \<and>
      pinnedBy (add_mset key pins) (AList.update key (?use e) ents)"
    if "dropsIdle minimum now entries ents" "map_of ents key = Some e \<or> map_of ents key = None \<and> e = schedule_zero"
    for ents e
  proof -
    have p: "pinnedBy pins ents" and sp: "spaced minimum now starts ents"
      using dropsIdle_keeps [OF that(1)] pinned spc by auto
    have "int (count pins key) = s_users e"
      using p that(2) by (auto simp: pinnedBy_def schedule_zero_def dest: spec [of _ key])
    then have u: "s_users (?use e) = int (count (add_mset key pins) key)" by simp
    have ge: "\<And>e0. map_of ents key = Some e0 \<Longrightarrow> s_lastStart e0 \<le> s_lastStart (?use e)" using that(2) by auto
    show ?thesis
      using update_keeps(1) [OF ge sp] update_keeps(2) [OF ge p u] by simp
  qed
  have mem: "map_of kept k = Some e" if "oldest = Some (k, e)" for k e
    using s that by (metis option.inject)
  consider (found) e where "map_of kept key = Some e" "err = None" "entries' = AList.update key (?use e) kept"
    | (full) "map_of kept key = None" "oldest = None" "err = Some errScheduleCapacity" "entries' = kept"
    | (evict) k e where "map_of kept key = None" "oldest = Some (k, e)" "err = None"
        "entries' = AList.update key (?use schedule_zero) (AList.delete k kept)"
    | (fresh) "map_of kept key = None" "length kept < capacity" "err = None"
        "entries' = AList.update key (?use schedule_zero) kept"
    using pin scan by (auto simp: pin_def Let_def split: option.splits if_splits)
  then have "spaced minimum now starts entries' \<and>
      pinnedBy (if err = None then add_mset key pins else pins) entries' \<and>
      (length entries \<le> capacity \<longrightarrow> length entries' \<le> capacity)"
  proof cases
    case found
    then have "key \<in> fst ` set kept" by (metis domIff dom_map_of_conv_image_fst option.distinct(1))
    with found s use_ok [OF drop] show ?thesis by (auto simp: length_update)
  next
    case full
    with s dropsIdle_keeps [OF drop] pinned spc show ?thesis by auto
  next
    case (evict k e)
    have "dropsIdle minimum now entries (AList.delete k kept)"
      using drop s evict(2) by (intro dropsIdle_delete) auto
    moreover have "map_of (AList.delete k kept) key = None"
      using evict(1) by (simp add: AList.delete_conv')
    moreover have "length (AList.delete k kept) < length kept"
      using mem [OF evict(2)] by (intro length_delete_mem) (metis domI dom_map_of_conv_image_fst)
    ultimately show ?thesis using evict s use_ok by (auto simp: length_update)
  next
    case fresh
    with s use_ok [OF drop] show ?thesis by (auto simp: length_update)
  qed
  then show "spaced minimum now starts entries'"
    and "pinnedBy (if err = None then add_mset key pins else pins) entries'"
    and "length entries \<le> capacity \<Longrightarrow> length entries' \<le> capacity"
    by auto
qed

lemma pinnedBy_entry:
  assumes "pinnedBy pins entries" and "key \<in># pins"
  obtains e where "map_of entries key = Some e" "s_users e = int (count pins key)"
proof -
  have "int (count pins key) = (case map_of entries key of None \<Rightarrow> 0 | Some e \<Rightarrow> s_users e)"
    using assms(1) by (simp add: pinnedBy_def)
  moreover have "0 < count pins key" using assms(2) by simp
  ultimately show thesis using that by (cases "map_of entries key") auto
qed

lemma unpin_keeps:
  assumes "pinnedBy pins entries" and "key \<in># pins"
  shows "spaced minimum now starts entries \<Longrightarrow> spaced minimum now starts (unpin key t entries)"
    and "pinnedBy (pins - {#key#}) (unpin key t entries)"
    and "length (unpin key t entries) = length entries"
proof -
  obtain e where e: "map_of entries key = Some e" "s_users e = int (count pins key)"
    using pinnedBy_entry [OF assms] .
  let ?e' = "e\<lparr>s_users := s_users e - 1, s_lastAccess := t\<rparr>"
  have u: "unpin key t entries = AList.update key ?e' entries"
    using e by (simp add: unpin_def update_schedule_def)
  have ge: "\<And>e0. map_of entries key = Some e0 \<Longrightarrow> s_lastStart e0 \<le> s_lastStart ?e'" using e by simp
  show "spaced minimum now starts entries \<Longrightarrow> spaced minimum now starts (unpin key t entries)"
    unfolding u by (rule update_keeps(1) [OF ge])
  have "0 < count pins key" using assms(2) by simp
  then show "pinnedBy (pins - {#key#}) (unpin key t entries)"
    unfolding u using e by (intro update_keeps(2) [OF ge assms(1)]) auto
  have "key \<in> fst ` set entries" using e by (metis domI dom_map_of_conv_image_fst)
  then show "length (unpin key t entries) = length entries" unfolding u by (simp add: length_update)
qed

lemma setDelay_keeps:
  "spaced minimum now starts entries \<Longrightarrow>
   spaced minimum now starts (update_schedule key (\<lambda>e. e\<lparr>s_crawlDelay := d\<rparr>) entries)"
  "pinnedBy pins entries \<Longrightarrow> pinnedBy pins (update_schedule key (\<lambda>e. e\<lparr>s_crawlDelay := d\<rparr>) entries)"
  "length (update_schedule key f entries) = length entries"
proof -
  let ?f = "\<lambda>e. e\<lparr>s_crawlDelay := d\<rparr>"
  show "spaced minimum now starts entries \<Longrightarrow> spaced minimum now starts (update_schedule key ?f entries)"
    by (auto simp: update_schedule_def intro!: update_keeps(1) split: option.splits)
  have "int (count pins key) = (case map_of entries key of None \<Rightarrow> 0 | Some e \<Rightarrow> s_users e)"
    if "pinnedBy pins entries" using that by (simp add: pinnedBy_def)
  then show "pinnedBy pins entries \<Longrightarrow> pinnedBy pins (update_schedule key ?f entries)"
    by (auto simp: update_schedule_def intro!: update_keeps(2) split: option.splits)
  show "length (update_schedule key f entries) = length entries"
    using map_of_eq_None_iff [of entries key]
    by (auto simp: update_schedule_def length_update split: option.splits)
qed

text \<open>Starting a request on a pinned entry whose delay has passed.\<close>

definition delayPassed :: "duration \<Rightarrow> go_time \<Rightarrow> request_schedule \<Rightarrow> bool" where
  "delayPassed minimum now e \<longleftrightarrow> s_lastStart e = 0 \<or> s_lastStart e + minimum \<le> now"

lemma remainingDelay_passed:
  "remainingDelay (s_lastStart e) delay now \<le> 0 \<Longrightarrow> minimum \<le> delay \<Longrightarrow> delayPassed minimum now e"
  using time_Sub_pos_iff [of "s_lastStart e + delay" now]
  by (auto simp: remainingDelay_def delayPassed_def Let_def split: if_splits)

lemma start_keeps:
  assumes "pinnedBy pins entries" and "key \<in># pins" and "0 \<le> minimum" and "0 < now"
    and "spaced minimum now starts entries"
    and "delayPassed minimum now (scheduleOf key entries)"
  shows "spaced minimum now (starts @ [(key, now)]) (update_schedule key (\<lambda>e. e\<lparr>s_lastStart := now\<rparr>) entries)"
    and "pinnedBy pins (update_schedule key (\<lambda>e. e\<lparr>s_lastStart := now\<rparr>) entries)"
    and "(key, t) \<in> set starts \<Longrightarrow> t + minimum \<le> now"
proof -
  obtain e where e: "map_of entries key = Some e" "s_users e = int (count pins key)"
    using pinnedBy_entry [OF assms(1,2)] .
  let ?e' = "e\<lparr>s_lastStart := now\<rparr>"
  have u: "update_schedule key (\<lambda>e. e\<lparr>s_lastStart := now\<rparr>) entries = AList.update key ?e' entries"
    using e by (simp add: update_schedule_def)
  have passed: "delayPassed minimum now e" using assms(6) e by (simp add: scheduleOf_def)
  then have ge: "\<And>e0. map_of entries key = Some e0 \<Longrightarrow> s_lastStart e0 \<le> s_lastStart ?e'"
    using e assms(3,4) by (auto simp: delayPassed_def)
  have "spaced minimum now starts (AList.update key ?e' entries)"
    using update_keeps(1) [OF ge assms(5)] .
  then show "spaced minimum now (starts @ [(key, now)]) (update_schedule key (\<lambda>e. e\<lparr>s_lastStart := now\<rparr>) entries)"
    unfolding u using assms(4) by (auto simp: spaced_def AList.update_conv')
  show "pinnedBy pins (update_schedule key (\<lambda>e. e\<lparr>s_lastStart := now\<rparr>) entries)"
    unfolding u using e by (intro update_keeps(2) [OF ge assms(1)]) auto
  show "t + minimum \<le> now" if "(key, t) \<in> set starts"
  proof -
    from assms(5) that e have "0 < t" "t + minimum \<le> now \<or> t \<le> s_lastStart e"
      by (auto simp: spaced_def)
    with passed show ?thesis by (auto simp: delayPassed_def)
  qed
qed

lemma spaced_later:
  "spaced minimum now starts entries \<Longrightarrow> now \<le> now' \<Longrightarrow> spaced minimum now' starts entries"
  unfolding spaced_def by fastforce

section \<open>Every interleaving\<close>

text \<open>
  The scheduler shared by any number of requests: its state, the clock, what the requests hold (the origins
  the checker pinned, the targets pinned for a request, the neighborhoods of targets half released), and as a
  ghost the log of what happened: requests started, crawl delays set, and origins whose entry was evicted, so
  that their last start and their crawl delay are forgotten. Each rule is one critical section of the code.
\<close>

datatype sched_event = Started origin go_time | DelaySet origin duration | Forgotten origin go_time

record sched_state =
  st_sched :: scheduler
  st_now :: go_time
  st_held :: "origin multiset"
  st_pins :: "pinned_schedules multiset"
  st_groups :: "string multiset"
  st_log :: "sched_event list"

text \<open>What an entry remembers: the start of the last request, if any, and the crawl delay.\<close>

definition memoryOf :: "'k entries \<Rightarrow> 'k \<Rightarrow> go_time option \<times> duration" where
  "memoryOf entries k =
     (let e = scheduleOf k entries
      in (if s_lastStart e = 0 then None else Some (s_lastStart e), s_crawlDelay e))"

definition forgotten :: "go_time \<Rightarrow> origin entries \<Rightarrow> origin entries \<Rightarrow> sched_event list" where
  "forgotten now entries entries' =
     map (\<lambda>(k, e). Forgotten k now) (filter (\<lambda>(k, e). memoryOf entries' k \<noteq> memoryOf entries k) entries)"

abbreviation evicted :: "sched_state \<Rightarrow> scheduler \<Rightarrow> sched_event list" where
  "evicted st s \<equiv> forgotten (st_now st) (sc_schedules (st_sched st)) (sc_schedules s)"

inductive sched_step :: "host_lib \<Rightarrow> suffix_list \<Rightarrow> sched_state \<Rightarrow> sched_state \<Rightarrow> bool" for lib psl where
  tick: "st_now st \<le> now \<Longrightarrow> sched_step lib psl st (st\<lparr>st_now := now\<rparr>)"
| acquired: "acquire source (st_now st) (st_sched st) = (None, s) \<Longrightarrow>
    sched_step lib psl st (st\<lparr>st_sched := s, st_held := add_mset source (st_held st),
      st_log := st_log st @ evicted st s\<rparr>)"
| notAcquired: "acquire source (st_now st) (st_sched st) = (Some err, s) \<Longrightarrow>
    sched_step lib psl st (st\<lparr>st_sched := s, st_log := st_log st @ evicted st s\<rparr>)"
| target: "acquireTarget lib psl u (st_now st) (st_sched st) = (Inr p, s) \<Longrightarrow>
    sched_step lib psl st (st\<lparr>st_sched := s, st_pins := add_mset p (st_pins st),
      st_log := st_log st @ evicted st s\<rparr>)"
| noTarget: "acquireTarget lib psl u (st_now st) (st_sched st) = (Inl err, s) \<Longrightarrow>
    sched_step lib psl st (st\<lparr>st_sched := s, st_log := st_log st @ evicted st s\<rparr>)"
| released: "source \<in># st_held st \<Longrightarrow>
    sched_step lib psl st (st\<lparr>st_sched := release source (st_now st) (st_sched st),
      st_held := st_held st - {#source#}\<rparr>)"
| targetReleased: "p \<in># st_pins st \<Longrightarrow>
    sched_step lib psl st (st\<lparr>st_sched := release (p_origin p) (st_now st) (st_sched st),
      st_pins := st_pins st - {#p#},
      st_groups := (case p_neighborhood p of None \<Rightarrow> st_groups st | Some g \<Rightarrow> add_mset g (st_groups st))\<rparr>)"
| groupReleased: "g \<in># st_groups st \<Longrightarrow>
    sched_step lib psl st (st\<lparr>st_sched := (st_sched st)
        \<lparr>sc_neighborhoods := unpin g (st_now st) (sc_neighborhoods (st_sched st))\<rparr>,
      st_groups := st_groups st - {#g#}\<rparr>)"
| crawlDelaySet: "source \<in># st_held st \<Longrightarrow>
    sched_step lib psl st (st\<lparr>st_sched := setCrawlDelay source d (st_sched st),
      st_log := st_log st @ [DelaySet source d]\<rparr>)"
| tried: "p \<in># st_pins st \<Longrightarrow> tryStart p (st_now st) (st_sched st) = (remaining, s) \<Longrightarrow>
    sched_step lib psl st (st\<lparr>st_sched := s,
      st_log := st_log st @ (if remaining > 0 then [] else [Started (p_origin p) (st_now st)])\<rparr>)"

definition sched_init :: "duration \<Rightarrow> go_time \<Rightarrow> sched_state" where
  "sched_init minimum now =
     \<lparr>st_sched = newOriginRequestScheduler minimum, st_now = now, st_held = {#}, st_pins = {#},
      st_groups = {#}, st_log = []\<rparr>"

inductive sched_reachable :: "host_lib \<Rightarrow> suffix_list \<Rightarrow> duration \<Rightarrow> sched_state \<Rightarrow> bool" for lib psl minimum where
  start: "0 < now \<Longrightarrow> sched_reachable lib psl minimum (sched_init minimum now)"
| step: "sched_reachable lib psl minimum st \<Longrightarrow> sched_step lib psl st st' \<Longrightarrow> sched_reachable lib psl minimum st'"

text \<open>
  The specification, over the log alone. An observer who knows of each origin the last start and the crawl
  delay set last accepts a start only when the delay in force (the crawl delay, and at least the operator's
  minimum) has passed since the last one; and forgets an origin only when that delay has passed as well.
\<close>

type_synonym origin_memory = "origin \<Rightarrow> go_time option \<times> duration"

definition delayOver :: "duration \<Rightarrow> go_time option \<times> duration \<Rightarrow> go_time \<Rightarrow> bool" where
  "delayOver minimum memory t =
     (case memory of (prev, delay) \<Rightarrow>
        (case prev of None \<Rightarrow> True | Some t0 \<Rightarrow> t0 + max minimum delay \<le> t))"

fun remember :: "sched_event \<Rightarrow> origin_memory \<Rightarrow> origin_memory" where
  "remember (Started source t) m = m(source := (Some t, snd (m source)))"
| "remember (DelaySet source d) m = m(source := (fst (m source), d))"
| "remember (Forgotten source t) m = m(source := (None, 0))"

fun accepts :: "duration \<Rightarrow> origin_memory \<Rightarrow> sched_event \<Rightarrow> bool" where
  "accepts minimum m (Started source t) = delayOver minimum (m source) t"
| "accepts minimum m (DelaySet source d) = True"
| "accepts minimum m (Forgotten source t) = delayOver minimum (m source) t"

fun respectsDelays :: "duration \<Rightarrow> origin_memory \<Rightarrow> sched_event list \<Rightarrow> bool" where
  "respectsDelays minimum m [] = True"
| "respectsDelays minimum m (ev # evs) =
     (accepts minimum m ev \<and> respectsDelays minimum (remember ev m) evs)"

abbreviation remembered :: "sched_event list \<Rightarrow> origin_memory" where
  "remembered evs \<equiv> fold remember evs (\<lambda>_. (None, 0))"

text \<open>The requests started, by origin and by neighborhood.\<close>

fun startsOf :: "sched_event list \<Rightarrow> (origin \<times> go_time) list" where
  "startsOf [] = []"
| "startsOf (Started source t # evs) = (source, t) # startsOf evs"
| "startsOf (_ # evs) = startsOf evs"

fun groupStartsOf :: "host_lib \<Rightarrow> suffix_list \<Rightarrow> (origin \<times> go_time) list \<Rightarrow> (string \<times> go_time) list" where
  "groupStartsOf lib psl [] = []"
| "groupStartsOf lib psl ((source, t) # starts) =
     (case neighborhoodKey lib psl (origin_Hostname source) of
        None \<Rightarrow> groupStartsOf lib psl starts
      | Some g \<Rightarrow> (g, t) # groupStartsOf lib psl starts)"

definition groupPins :: "pinned_schedules multiset \<Rightarrow> string multiset" where
  "groupPins pins =
     image_mset (\<lambda>p. the (p_neighborhood p)) (filter_mset (\<lambda>p. p_neighborhood p \<noteq> None) pins)"

definition groupStart :: "pinned_schedules \<Rightarrow> go_time \<Rightarrow> (string \<times> go_time) list" where
  "groupStart pinned now = (case p_neighborhood pinned of None \<Rightarrow> [] | Some g \<Rightarrow> [(g, now)])"

definition polite :: "duration \<Rightarrow> ('k \<times> go_time) list \<Rightarrow> bool" where
  "polite minimum starts = sorted_wrt (\<lambda>(k, t) (k', t'). k = k' \<longrightarrow> t + minimum \<le> t') starts"

definition entries_inv ::
    "duration \<Rightarrow> nat \<Rightarrow> go_time \<Rightarrow> 'k multiset \<Rightarrow> ('k \<times> go_time) list \<Rightarrow> 'k entries \<Rightarrow> bool" where
  "entries_inv minimum capacity now pins starts entries \<longleftrightarrow>
     pinnedBy pins entries \<and> spaced minimum now starts entries \<and> polite minimum starts \<and>
     length entries \<le> capacity"

definition sched_inv :: "host_lib \<Rightarrow> suffix_list \<Rightarrow> duration \<Rightarrow> sched_state \<Rightarrow> bool" where
  "sched_inv lib psl minimum st \<longleftrightarrow>
     0 < st_now st \<and> sc_minimum (st_sched st) = minimum \<and> sc_capacity (st_sched st) = maxScheduleEntries \<and>
     entries_inv minimum maxScheduleEntries (st_now st) (st_held st + image_mset p_origin (st_pins st))
       (startsOf (st_log st)) (sc_schedules (st_sched st)) \<and>
     entries_inv minimum maxScheduleEntries (st_now st) (st_groups st + groupPins (st_pins st))
       (groupStartsOf lib psl (startsOf (st_log st))) (sc_neighborhoods (st_sched st)) \<and>
     (\<forall>p \<in># st_pins st. p_neighborhood p = neighborhoodKey lib psl (origin_Hostname (p_origin p))) \<and>
     respectsDelays minimum (\<lambda>_. (None, 0)) (st_log st) \<and>
     remembered (st_log st) = memoryOf (sc_schedules (st_sched st))"

section \<open>The log and the entries\<close>

lemma respectsDelays_append:
  "respectsDelays minimum m (evs @ evs') \<longleftrightarrow>
   respectsDelays minimum m evs \<and> respectsDelays minimum (fold remember evs m) evs'"
  by (induction evs arbitrary: m) auto

lemma startsOf_append: "startsOf (evs @ evs') = startsOf evs @ startsOf evs'"
  by (induction evs rule: startsOf.induct) auto

lemma groupStartsOf_append:
  "groupStartsOf lib psl (starts @ starts') = groupStartsOf lib psl starts @ groupStartsOf lib psl starts'"
  by (induction starts) (auto split: option.splits)

lemma startsOf_forgotten: "startsOf (forgotten now entries entries') = []"
proof -
  have "startsOf (map (\<lambda>(k, e). Forgotten k now) xs) = []" for xs :: "origin entries"
    by (induction xs) auto
  then show ?thesis by (simp add: forgotten_def)
qed

lemma remember_forgotten:
  "fold remember (map (\<lambda>(k, e). Forgotten k now) xs) m = (\<lambda>o1. if o1 \<in> fst ` set xs then (None, 0) else m o1)"
  by (induction xs arbitrary: m) (auto simp: fun_eq_iff)

lemma respects_forgotten:
  "(\<And>k. k \<in> fst ` set xs \<Longrightarrow> delayOver minimum (m k) now) \<Longrightarrow>
   respectsDelays minimum m (map (\<lambda>(k, e). Forgotten k now) xs)"
proof (induction xs arbitrary: m)
  case (Cons x xs)
  obtain k e where x: "x = (k, e)" by fastforce
  have "delayOver minimum ((m(k := (None, 0))) k') now" if "k' \<in> fst ` set xs" for k'
    using Cons.prems [of k'] that by (auto simp: delayOver_def)
  then show ?case using Cons.IH [of "m(k := (None, 0))"] Cons.prems [of k] by (simp add: x fun_upd_def)
qed simp

text \<open>An operation that forgets only idle entries is logged faithfully.\<close>

definition forgetsIdle :: "duration \<Rightarrow> go_time \<Rightarrow> 'k entries \<Rightarrow> 'k entries \<Rightarrow> bool" where
  "forgetsIdle minimum now entries entries' \<longleftrightarrow>
     (\<forall>k. memoryOf entries' k = memoryOf entries k \<or>
          memoryOf entries' k = (None, 0) \<and> (\<exists>e. map_of entries k = Some e \<and> idleSchedule minimum now e))"

lemma forgetsIdle_log:
  assumes "forgetsIdle minimum now entries entries'"
    and "respectsDelays minimum (\<lambda>_. (None, 0)) evs" and "remembered evs = memoryOf entries"
  shows "respectsDelays minimum (\<lambda>_. (None, 0)) (evs @ forgotten now entries entries')"
    and "remembered (evs @ forgotten now entries entries') = memoryOf entries'"
proof -
  let ?xs = "filter (\<lambda>(k, e). memoryOf entries' k \<noteq> memoryOf entries k) entries"
  have idle: "delayOver minimum (memoryOf entries k) now" "memoryOf entries' k = (None, 0)"
    if "k \<in> fst ` set ?xs" for k
  proof -
    have "memoryOf entries' k \<noteq> memoryOf entries k" using that by auto
    with assms(1) obtain e where "memoryOf entries' k = (None, 0)" "map_of entries k = Some e"
        "idleSchedule minimum now e"
      unfolding forgetsIdle_def by blast
    then show "delayOver minimum (memoryOf entries k) now" "memoryOf entries' k = (None, 0)"
      by (simp_all add: memoryOf_def scheduleOf_def idleSchedule_def delayOver_def)
  qed
  have same: "memoryOf entries' k = memoryOf entries k" if "k \<notin> fst ` set ?xs" for k
  proof (rule ccontr)
    assume ne: "memoryOf entries' k \<noteq> memoryOf entries k"
    with assms(1) obtain e where "map_of entries k = Some e" by (auto simp: forgetsIdle_def)
    then have "(k, e) \<in> set ?xs" using ne by (auto dest: map_of_SomeD)
    with that show False by force
  qed
  show "respectsDelays minimum (\<lambda>_. (None, 0)) (evs @ forgotten now entries entries')"
    using assms(2) respects_forgotten [of ?xs minimum "memoryOf entries" now, OF idle(1)]
    unfolding respectsDelays_append forgotten_def assms(3) by (rule conjI)
  show "remembered (evs @ forgotten now entries entries') = memoryOf entries'"
  proof
    fix k
    show "remembered (evs @ forgotten now entries entries') k = memoryOf entries' k"
      using idle(2) [of k] same [of k]
      unfolding fold_append o_apply forgotten_def remember_forgotten assms(3) by presburger
  qed
qed

lemma pin_forgets:
  assumes dist: "distinct (map fst entries)"
    and pin: "pin lessKey minimum capacity key now entries = (err, entries')"
  shows "forgetsIdle minimum now entries entries'"
proof -
  let ?use = "\<lambda>e. e\<lparr>s_users := s_users e + 1, s_lastAccess := now\<rparr>"
  obtain kept oldest where scan: "foldl (pinVisit lessKey minimum now) (entries, None) entries = (kept, oldest)"
    by fastforce
  note s = pinVisit_scan [OF dist scan]
  have drop: "dropsIdle minimum now entries kept" using s by (auto simp: dropsIdle_def)
  have plain: "forgetsIdle minimum now entries ents" if "dropsIdle minimum now entries ents" for ents
    unfolding forgetsIdle_def
  proof
    fix k
    show "memoryOf ents k = memoryOf entries k \<or>
        memoryOf ents k = (None, 0) \<and> (\<exists>e. map_of entries k = Some e \<and> idleSchedule minimum now e)"
      using that by (auto simp: dropsIdle_def memoryOf_def scheduleOf_def schedule_zero_def dest: spec [of _ k])
  qed
  have used: "forgetsIdle minimum now entries (AList.update key (?use e) ents)"
    if "dropsIdle minimum now entries ents" "map_of ents key = Some e \<or> map_of ents key = None \<and> e = schedule_zero"
    for ents e
  proof -
    have "memoryOf (AList.update key (?use e) ents) k = memoryOf ents k" for k
      using that(2) by (auto simp: memoryOf_def scheduleOf_def AList.update_conv' schedule_zero_def)
    with plain [OF that(1)] show ?thesis by (simp add: forgetsIdle_def)
  qed
  have evict: "dropsIdle minimum now entries (AList.delete k kept)" if "oldest = Some (k, e)" for k e
    using drop s that by (intro dropsIdle_delete) auto
  show ?thesis
    using pin scan plain [OF drop] used [OF drop] used [OF evict]
    by (auto simp: pin_def Let_def AList.delete_conv' split: option.splits if_splits)
qed

lemma memory_unpin: "memoryOf (unpin key t entries) = memoryOf entries"
  by (auto simp: unpin_def update_schedule_def memoryOf_def scheduleOf_def AList.update_conv' fun_eq_iff
      split: option.splits)

lemma memoryOf_update:
  "memoryOf (AList.update key e entries) k =
   (if k = key then (if s_lastStart e = 0 then None else Some (s_lastStart e), s_crawlDelay e)
    else memoryOf entries k)"
  by (simp add: memoryOf_def scheduleOf_def AList.update_conv')

lemma memory_delay:
  assumes "map_of entries key \<noteq> None"
  shows "memoryOf (update_schedule key (\<lambda>e. e\<lparr>s_crawlDelay := d\<rparr>) entries) =
    (memoryOf entries)(key := (fst (memoryOf entries key), d))"
proof -
  obtain e where e: "map_of entries key = Some e" using assms by blast
  then have "memoryOf entries key = (if s_lastStart e = 0 then None else Some (s_lastStart e), s_crawlDelay e)"
    by (simp add: memoryOf_def scheduleOf_def)
  with e show ?thesis by (auto simp: update_schedule_def memoryOf_update)
qed

lemma memory_start:
  assumes "map_of entries key \<noteq> None" and "0 < now"
  shows "memoryOf (update_schedule key (\<lambda>e. e\<lparr>s_lastStart := now\<rparr>) entries) =
    (memoryOf entries)(key := (Some now, snd (memoryOf entries key)))"
proof -
  obtain e where e: "map_of entries key = Some e" using assms by blast
  then have "memoryOf entries key = (if s_lastStart e = 0 then None else Some (s_lastStart e), s_crawlDelay e)"
    by (simp add: memoryOf_def scheduleOf_def)
  with e assms(2) show ?thesis by (auto simp: update_schedule_def memoryOf_update)
qed

lemma entries_inv_pin:
  "entries_inv minimum capacity now pins starts entries \<Longrightarrow>
   pin lessKey minimum capacity key now entries = (err, entries') \<Longrightarrow>
   entries_inv minimum capacity now (if err = None then add_mset key pins else pins) starts entries'"
  unfolding entries_inv_def by (metis pin_keeps)

lemma entries_inv_unpin:
  "entries_inv minimum capacity now pins starts entries \<Longrightarrow> key \<in># pins \<Longrightarrow>
   entries_inv minimum capacity now (pins - {#key#}) starts (unpin key t entries)"
  unfolding entries_inv_def by (metis unpin_keeps)

lemma entries_inv_delay:
  "entries_inv minimum capacity now pins starts entries \<Longrightarrow>
   entries_inv minimum capacity now pins starts (update_schedule key (\<lambda>e. e\<lparr>s_crawlDelay := d\<rparr>) entries)"
  unfolding entries_inv_def by (metis setDelay_keeps)

lemma entries_inv_start:
  "entries_inv minimum capacity now pins starts entries \<Longrightarrow> key \<in># pins \<Longrightarrow> 0 \<le> minimum \<Longrightarrow> 0 < now \<Longrightarrow>
   delayPassed minimum now (scheduleOf key entries) \<Longrightarrow>
   entries_inv minimum capacity now pins (starts @ [(key, now)])
     (update_schedule key (\<lambda>e. e\<lparr>s_lastStart := now\<rparr>) entries)"
  using start_keeps [of pins entries key minimum now starts]
  by (auto simp: entries_inv_def polite_def sorted_wrt_append setDelay_keeps(3))

lemma entries_inv_later:
  "entries_inv minimum capacity now pins starts entries \<Longrightarrow> now \<le> now' \<Longrightarrow>
   entries_inv minimum capacity now' pins starts entries"
  by (auto simp: entries_inv_def intro: spaced_later)

lemma groupPins_simps:
  "groupPins (add_mset p pins) =
     (case p_neighborhood p of None \<Rightarrow> groupPins pins | Some g \<Rightarrow> add_mset g (groupPins pins))"
  "p \<in># pins \<Longrightarrow> p_neighborhood p = Some g \<Longrightarrow> g \<in># groupPins pins"
  "p \<in># pins \<Longrightarrow> groupPins (pins - {#p#}) =
     (case p_neighborhood p of None \<Rightarrow> groupPins pins | Some g \<Rightarrow> groupPins pins - {#g#})"
proof -
  show add: "groupPins (add_mset p pins) =
      (case p_neighborhood p of None \<Rightarrow> groupPins pins | Some g \<Rightarrow> add_mset g (groupPins pins))" for p pins
    by (auto simp: groupPins_def split: option.splits)
  show "p \<in># pins \<Longrightarrow> p_neighborhood p = Some g \<Longrightarrow> g \<in># groupPins pins"
    by (force simp: groupPins_def)
  show "p \<in># pins \<Longrightarrow> groupPins (pins - {#p#}) =
      (case p_neighborhood p of None \<Rightarrow> groupPins pins | Some g \<Rightarrow> groupPins pins - {#g#})"
    using add [of p "pins - {#p#}"] by (auto split: option.splits)
qed

lemma image_mset_remove: "p \<in># pins \<Longrightarrow> image_mset f (pins - {#p#}) = image_mset f pins - {#f p#}"
  by (simp add: image_mset_Diff)

text \<open>The invariant on the parts of a state, so that each operation has a lemma of its own.\<close>

abbreviation sched_ok ::
    "duration \<Rightarrow> go_time \<Rightarrow> origin multiset \<Rightarrow> string multiset \<Rightarrow> (origin \<times> go_time) list \<Rightarrow>
     (string \<times> go_time) list \<Rightarrow> scheduler \<Rightarrow> bool" where
  "sched_ok minimum now pins groups starts groupStarts s \<equiv>
     sc_minimum s = minimum \<and> sc_capacity s = maxScheduleEntries \<and>
     entries_inv minimum maxScheduleEntries now pins starts (sc_schedules s) \<and>
     entries_inv minimum maxScheduleEntries now groups groupStarts (sc_neighborhoods s)"

lemma acquire_ok:
  "sched_ok minimum now pins groups starts groupStarts s \<Longrightarrow> acquire source now s = (err, s') \<Longrightarrow>
   sched_ok minimum now (if err = None then add_mset source pins else pins) groups starts groupStarts s'"
  using entries_inv_pin [of minimum maxScheduleEntries now pins starts "sc_schedules s" lessOrigin source]
  by (auto simp: acquire_def split: prod.splits)

lemma release_ok:
  "sched_ok minimum now pins groups starts groupStarts s \<Longrightarrow> source \<in># pins \<Longrightarrow>
   sched_ok minimum now (pins - {#source#}) groups starts groupStarts (release source t s)"
  using entries_inv_unpin [of minimum maxScheduleEntries now pins starts "sc_schedules s" source t]
  by (simp add: release_def)

lemma acquireBoth_ok:
  assumes ok: "sched_ok minimum now pins groups starts groupStarts s"
    and acq: "acquireBoth source key now s = (x, s')"
  shows "case x of
      Inl _ \<Rightarrow> sched_ok minimum now pins groups starts groupStarts s'
    | Inr p \<Rightarrow> p_origin p = source \<and>
        sched_ok minimum now (add_mset source pins)
          (case p_neighborhood p of None \<Rightarrow> groups | Some g \<Rightarrow> add_mset g groups) starts groupStarts s'"
proof -
  obtain err s1 where 1: "acquire source now s = (err, s1)" by fastforce
  show ?thesis
  proof (cases err)
    case (Some e)
    with acquire_ok [OF ok 1] acq 1 show ?thesis by (auto simp: acquireBoth_def)
  next
    case None
    with acquire_ok [OF ok 1]
    have ok1: "sched_ok minimum now (add_mset source pins) groups starts groupStarts s1" by simp
    show ?thesis
    proof (cases key)
      case (Some g)
      obtain err' ents where 2: "pin (<) (sc_minimum s1) (sc_capacity s1) g now (sc_neighborhoods s1) = (err', ents)"
        by fastforce
      let ?s2 = "s1\<lparr>sc_neighborhoods := ents\<rparr>"
      have ok2: "sched_ok minimum now (add_mset source pins)
          (if err' = None then add_mset g groups else groups) starts groupStarts ?s2"
        using entries_inv_pin [of minimum maxScheduleEntries now groups groupStarts "sc_neighborhoods s1"
            "(<)" g err' ents] ok1 2 by simp
      have "sched_ok minimum now (add_mset source pins - {#source#}) groups starts groupStarts (release source now ?s2)"
        if "err' \<noteq> None"
        by (rule release_ok) (use ok2 that in auto)
      with ok2 acq 1 2 None Some show ?thesis
        by (cases err') (auto simp: acquireBoth_def Let_def)
    qed (use ok1 acq 1 None in \<open>auto simp: acquireBoth_def\<close>)
  qed
qed

lemma tryStart_ok:
  assumes "sched_ok minimum now pins groups starts groupStarts s"
    and "p_origin p \<in># pins" and "\<And>g. p_neighborhood p = Some g \<Longrightarrow> g \<in># groups"
    and "0 \<le> minimum" and "0 < now" and "remainingWait p now s \<le> 0"
  shows "sched_ok minimum now pins groups
           (starts @ [(p_origin p, now)]) (groupStarts @ groupStart p now) (startRequest p now s)"
proof -
  let ?e = "scheduleOf (p_origin p) (sc_schedules s)"
  let ?d = "if s_crawlDelay ?e > sc_minimum s then s_crawlDelay ?e else sc_minimum s"
  have le: "remainingDelay (s_lastStart ?e) ?d now \<le> 0"
    using assms(6) by (auto simp: remainingWait_def Let_def split: option.splits if_splits)
  have "minimum \<le> ?d" using assms(1) by auto
  then have passed: "delayPassed minimum now ?e" by (rule remainingDelay_passed [OF le])
  have 1: "entries_inv minimum maxScheduleEntries now pins (starts @ [(p_origin p, now)])
      (update_schedule (p_origin p) (\<lambda>e. e\<lparr>s_lastStart := now\<rparr>) (sc_schedules s))"
    using assms passed by (intro entries_inv_start) auto
  show ?thesis
  proof (cases "p_neighborhood p")
    case None
    with 1 assms(1) show ?thesis by (simp add: startRequest_def groupStart_def)
  next
    case (Some g)
    have "delayPassed minimum now (scheduleOf g (sc_neighborhoods s))"
      using assms(1,6) Some
      by (intro remainingDelay_passed [where delay = "sc_minimum s"])
        (auto simp: remainingWait_def Let_def split: if_splits)
    then have "entries_inv minimum maxScheduleEntries now groups (groupStarts @ [(g, now)])
        (update_schedule g (\<lambda>e. e\<lparr>s_lastStart := now\<rparr>) (sc_neighborhoods s))"
      using assms Some by (intro entries_inv_start) auto
    with 1 assms(1) Some show ?thesis by (simp add: startRequest_def groupStart_def)
  qed
qed

lemma startRequest_origins:
  "sc_schedules (startRequest p now s) =
   update_schedule (p_origin p) (\<lambda>e. e\<lparr>s_lastStart := now\<rparr>) (sc_schedules s)"
  by (simp add: startRequest_def Let_def split: option.splits)

lemma remainingWait_delayOver:
  assumes "remainingWait p now s \<le> 0"
  shows "delayOver (sc_minimum s) (memoryOf (sc_schedules s) (p_origin p)) now"
proof -
  let ?e = "scheduleOf (p_origin p) (sc_schedules s)"
  let ?d = "if s_crawlDelay ?e > sc_minimum s then s_crawlDelay ?e else sc_minimum s"
  have "remainingDelay (s_lastStart ?e) ?d now \<le> 0"
    using assms by (auto simp: remainingWait_def Let_def split: option.splits if_splits)
  then have "delayPassed ?d now ?e" by (rule remainingDelay_passed) simp
  moreover have "?d = max (sc_minimum s) (s_crawlDelay ?e)" by simp
  ultimately show ?thesis by (auto simp: delayPassed_def delayOver_def memoryOf_def Let_def)
qed

lemma acquire_forgets:
  "entries_inv minimum capacity now' pins starts (sc_schedules s) \<Longrightarrow> acquire source now s = (err, s') \<Longrightarrow>
   forgetsIdle (sc_minimum s) now (sc_schedules s) (sc_schedules s')"
  using pin_forgets [of "sc_schedules s"]
  by (auto simp: acquire_def entries_inv_def pinnedBy_def split: prod.splits)

lemma acquireTarget_forgets:
  assumes "entries_inv minimum capacity now' pins starts (sc_schedules s)" and "acquireTarget lib psl u now s = (x, s')"
  shows "forgetsIdle (sc_minimum s) now (sc_schedules s) (sc_schedules s')"
proof -
  have same: "forgetsIdle m now es es" for m and es :: "origin entries" by (simp add: forgetsIdle_def)
  have "forgetsIdle (sc_minimum s) now (sc_schedules s) (sc_schedules s')" if "acquireBoth source key now s = (x, s')"
    for source key
  proof -
    obtain err s1 where a: "acquire source now s = (err, s1)" by fastforce
    have "sc_schedules s' = sc_schedules s1 \<or> sc_schedules s' = unpin source now (sc_schedules s1)"
      using that a by (auto simp: acquireBoth_def release_def Let_def split: option.splits prod.splits)
    with acquire_forgets [OF assms(1) a] show ?thesis by (auto simp: forgetsIdle_def memory_unpin)
  qed
  with assms(2) same show ?thesis
    by (auto simp: acquireTarget_def split: option.splits sum.splits if_splits)
qed

lemma acquireTarget_ok:
  assumes "sched_ok minimum now pins groups starts groupStarts s" and "acquireTarget lib psl u now s = (x, s')"
  shows "case x of
      Inl _ \<Rightarrow> sched_ok minimum now pins groups starts groupStarts s'
    | Inr p \<Rightarrow> p_neighborhood p = neighborhoodKey lib psl (origin_Hostname (p_origin p)) \<and>
        sched_ok minimum now (add_mset (p_origin p) pins)
          (case p_neighborhood p of None \<Rightarrow> groups | Some g \<Rightarrow> add_mset g groups) starts groupStarts s'"
proof -
  have key: "p_neighborhood p = k" if "acquireBoth source k now s = (Inr p, s')" for source k p
    using that by (auto simp: acquireBoth_def Let_def split: option.splits prod.splits)
  from assms(2) consider err where "x = Inl err" "s' = s"
    | source where "acquireBoth source (neighborhoodKey lib psl (origin_Hostname source)) now s = (x, s')"
    by (auto simp: acquireTarget_def split: option.splits sum.splits if_splits)
  then show ?thesis
  proof cases
    case 1
    with assms(1) show ?thesis by simp
  next
    case (2 source)
    from acquireBoth_ok [OF assms(1) this] key [of source] 2 show ?thesis by (cases x) auto
  qed
qed

lemma sched_step_inv:
  assumes "sched_step lib psl st st'" and inv: "sched_inv lib psl minimum st" and "0 \<le> minimum"
  shows "sched_inv lib psl minimum st'"
proof -
  let ?pins = "st_held st + image_mset p_origin (st_pins st)" and ?groups = "st_groups st + groupPins (st_pins st)"
  let ?starts = "startsOf (st_log st)" and ?s = "st_sched st" and ?now = "st_now st"
  have ok: "sched_ok minimum ?now ?pins ?groups ?starts (groupStartsOf lib psl ?starts) ?s"
    and now: "0 < ?now"
    and keys: "\<And>p. p \<in># st_pins st \<Longrightarrow> p_neighborhood p = neighborhoodKey lib psl (origin_Hostname (p_origin p))"
    and resp: "respectsDelays minimum (\<lambda>_. (None, 0)) (st_log st)"
    and mem: "remembered (st_log st) = memoryOf (sc_schedules ?s)"
    using inv by (auto simp: sched_inv_def)
  have entry: "map_of (sc_schedules ?s) o1 \<noteq> None" if "o1 \<in># ?pins" for o1
    using ok pinnedBy_entry [OF _ that, of "sc_schedules ?s"] by (metis entries_inv_def option.distinct(1))
  note forget = forgetsIdle_log [OF _ resp mem]
  note simps = sched_inv_def startsOf_append startsOf_forgotten groupPins_simps(1)
  from assms(1) show ?thesis
  proof cases
    case (tick now')
    with inv show ?thesis by (auto simp: sched_inv_def intro: entries_inv_later)
  next
    case (acquired source s)
    from acquire_ok [OF ok this(2)] acquire_forgets [OF conjunct1 [OF conjunct2 [OF conjunct2 [OF ok]]] this(2)]
    show ?thesis unfolding acquired(1) using ok now keys forget by (simp add: simps)
  next
    case (notAcquired source err s)
    from acquire_ok [OF ok this(2)] acquire_forgets [OF conjunct1 [OF conjunct2 [OF conjunct2 [OF ok]]] this(2)]
    show ?thesis unfolding notAcquired(1) using ok now keys forget by (simp add: simps)
  next
    case (target u p s)
    from acquireTarget_ok [OF ok this(2)] acquireTarget_forgets [OF conjunct1 [OF conjunct2 [OF conjunct2 [OF ok]]] this(2)]
    show ?thesis unfolding target(1) using ok now keys forget by (auto simp: simps split: option.splits)
  next
    case (noTarget u err s)
    from acquireTarget_ok [OF ok this(2)] acquireTarget_forgets [OF conjunct1 [OF conjunct2 [OF conjunct2 [OF ok]]] this(2)]
    show ?thesis unfolding noTarget(1) using ok now keys forget by (simp add: simps)
  next
    case (released source)
    have "sched_ok minimum ?now (?pins - {#source#}) ?groups ?starts (groupStartsOf lib psl ?starts)
        (release source ?now ?s)"
      by (rule release_ok [OF ok]) (use released in simp)
    with now keys resp mem show ?thesis unfolding released(1)
      using released(2) by (simp add: sched_inv_def release_def memory_unpin)
  next
    case (targetReleased p)
    have "sched_ok minimum ?now (?pins - {#p_origin p#}) ?groups ?starts (groupStartsOf lib psl ?starts)
        (release (p_origin p) ?now ?s)"
      by (rule release_ok [OF ok]) (use targetReleased in simp)
    moreover have "?pins - {#p_origin p#} = st_held st + image_mset p_origin (st_pins st - {#p#})"
      using targetReleased(2) by (simp add: image_mset_remove)
    moreover have "(case p_neighborhood p of None \<Rightarrow> st_groups st | Some g \<Rightarrow> add_mset g (st_groups st)) +
        groupPins (st_pins st - {#p#}) = ?groups"
      using groupPins_simps(3) [OF targetReleased(2)] groupPins_simps(2) [OF targetReleased(2)]
      by (auto split: option.splits)
    ultimately show ?thesis unfolding targetReleased(1)
      using now keys resp mem by (auto simp: sched_inv_def release_def memory_unpin dest: in_diffD)
  next
    case (groupReleased g)
    have "entries_inv minimum maxScheduleEntries ?now (?groups - {#g#}) (groupStartsOf lib psl ?starts)
        (unpin g ?now (sc_neighborhoods ?s))"
      using ok groupReleased by (intro entries_inv_unpin) auto
    with ok now keys resp mem show ?thesis unfolding groupReleased(1)
      using groupReleased(2) by (simp add: sched_inv_def)
  next
    case (crawlDelaySet source d)
    then have "map_of (sc_schedules ?s) source \<noteq> None" by (intro entry) simp
    from memory_delay [OF this] show ?thesis unfolding crawlDelaySet(1)
      using ok now keys resp mem
      by (simp add: simps setCrawlDelay_def entries_inv_delay respectsDelays_append)
  next
    case (tried p remaining s)
    show ?thesis
    proof (cases "remaining > 0")
      case True
      with tried have "st' = st" by (simp add: tryStart_def Let_def split: if_splits)
      with inv show ?thesis by simp
    next
      case False
      with tried(3) have s: "s = startRequest p ?now ?s" and le: "remainingWait p ?now ?s \<le> 0"
        by (auto simp: tryStart_def Let_def split: if_splits)
      have "map_of (sc_schedules ?s) (p_origin p) \<noteq> None" using tried(2) by (intro entry) simp
      note m = memory_start [OF this now]
      have "groupStartsOf lib psl [(p_origin p, ?now)] = groupStart p ?now"
        using keys [OF tried(2)] by (simp add: groupStart_def split: option.splits)
      moreover have "sched_ok minimum ?now ?pins ?groups (?starts @ [(p_origin p, ?now)])
          (groupStartsOf lib psl ?starts @ groupStart p ?now) s"
        unfolding s using tried(2) groupPins_simps(2)
        by (intro tryStart_ok [OF ok _ _ assms(3) now le]) auto
      moreover have "delayOver minimum (memoryOf (sc_schedules ?s) (p_origin p)) ?now"
        using remainingWait_delayOver [OF le] ok by simp
      ultimately show ?thesis unfolding tried(1)
        using now keys resp mem m False
        by (simp add: sched_inv_def startsOf_append groupStartsOf_append respectsDelays_append s startRequest_origins
            del: groupStartsOf.simps)
    qed
  qed
qed

lemma sched_init_inv: "0 < now \<Longrightarrow> sched_inv lib psl minimum (sched_init minimum now)"
  by (simp add: sched_inv_def sched_init_def newOriginRequestScheduler_def entries_inv_def pinnedBy_def
      spaced_def polite_def groupPins_def memoryOf_def scheduleOf_def schedule_zero_def fun_eq_iff)

lemma sched_reachable_inv:
  "sched_reachable lib psl minimum st \<Longrightarrow> 0 \<le> minimum \<Longrightarrow> sched_inv lib psl minimum st"
  by (induction rule: sched_reachable.induct) (auto intro: sched_init_inv sched_step_inv)

section \<open>Waiting ends\<close>

lemma remainingDelay_after:
  assumes "prev \<le> now" and "delay \<le> max_int64" and "remainingDelay prev delay now \<le> d" and "now + d \<le> now'"
    and "0 \<le> d"
  shows "remainingDelay prev delay now' \<le> 0"
  using assms by (auto simp: remainingDelay_def time_Sub_def Let_def min_int64_def max_int64_def split: if_splits)

definition delaysFit :: "pinned_schedules \<Rightarrow> go_time \<Rightarrow> scheduler \<Rightarrow> bool" where
  "delaysFit pinned now s \<longleftrightarrow>
     (let e = scheduleOf (p_origin pinned) (sc_schedules s)
      in s_lastStart e \<le> now \<and> s_crawlDelay e \<le> max_int64 \<and> sc_minimum s \<le> max_int64 \<and>
         (case p_neighborhood pinned of
            None \<Rightarrow> True | Some g \<Rightarrow> s_lastStart (scheduleOf g (sc_neighborhoods s)) \<le> now))"

lemma remainingWait_after:
  assumes "delaysFit pinned now s" and "0 < remainingWait pinned now s"
    and "now + remainingWait pinned now s \<le> now'"
  shows "remainingWait pinned now' s \<le> 0"
proof -
  let ?e = "scheduleOf (p_origin pinned) (sc_schedules s)"
  let ?d = "if s_crawlDelay ?e > sc_minimum s then s_crawlDelay ?e else sc_minimum s"
  have "remainingDelay (s_lastStart ?e) ?d now \<le> remainingWait pinned now s"
    by (auto simp: remainingWait_def Let_def split: option.splits)
  then have 1: "remainingDelay (s_lastStart ?e) ?d now' \<le> 0"
    using assms by (intro remainingDelay_after [where now = now]) (auto simp: delaysFit_def Let_def)
  show ?thesis
  proof (cases "p_neighborhood pinned")
    case None
    with 1 show ?thesis by (auto simp: remainingWait_def Let_def)
  next
    case (Some g)
    let ?l = "s_lastStart (scheduleOf g (sc_neighborhoods s))"
    have "remainingDelay ?l (sc_minimum s) now \<le> remainingWait pinned now s"
      using Some by (auto simp: remainingWait_def Let_def)
    then have "remainingDelay ?l (sc_minimum s) now' \<le> 0"
      using assms Some by (intro remainingDelay_after [where now = now]) (auto simp: delaysFit_def Let_def)
    with 1 Some show ?thesis by (auto simp: remainingWait_def Let_def)
  qed
qed

section \<open>Properties\<close>

text \<open>An origin and a schedule for the witnesses.\<close>

definition exampleOrigin :: origin where
  "exampleOrigin = \<lparr>serialization = ''https://example.com'', hostname = ''example.com'', port = 443\<rparr>"

definition examplePin :: pinned_schedules where
  "examplePin = \<lparr>p_origin = exampleOrigin, p_neighborhood = None\<rparr>"

definition exampleSchedule :: "go_time \<Rightarrow> scheduler" where
  "exampleSchedule prev =
     \<lparr>sc_minimum = 5, sc_capacity = maxScheduleEntries,
      sc_schedules = [(exampleOrigin, \<lparr>s_crawlDelay = 0, s_lastStart = prev, s_lastAccess = 1, s_users = 1\<rparr>)],
      sc_neighborhoods = []\<rparr>"

text \<open>A crawl delay of 20 over a minimum of 5: two requests to the origin, 20 apart.\<close>

definition pacedOrigin :: origin where
  "pacedOrigin = \<lparr>serialization = ''https://example.com:8443'', hostname = ''example.com'', port = 8443\<rparr>"

definition comSuffixes :: suffix_list where
  "comSuffixes = \<lparr>PublicSuffix = (\<lambda>_. (''com'', True)), EffectiveTLDPlusOne = (\<lambda>_. Inr ''example.com'')\<rparr>"

definition pacedPin :: pinned_schedules where
  "pacedPin = \<lparr>p_origin = pacedOrigin, p_neighborhood = Some ''example.com''\<rparr>"

definition pacedState :: "go_time \<Rightarrow> go_time \<Rightarrow> sched_event list \<Rightarrow> sched_state" where
  "pacedState now prev evs =
     \<lparr>st_sched =
        \<lparr>sc_minimum = 5, sc_capacity = maxScheduleEntries,
         sc_schedules = [(pacedOrigin, \<lparr>s_crawlDelay = 20, s_lastStart = prev, s_lastAccess = 1, s_users = 2\<rparr>)],
         sc_neighborhoods = [(''example.com'', \<lparr>s_crawlDelay = 0, s_lastStart = prev, s_lastAccess = 1, s_users = 1\<rparr>)]\<rparr>,
      st_now = now, st_held = {#pacedOrigin#}, st_pins = {#pacedPin#}, st_groups = {#}, st_log = evs\<rparr>"

lemma pacedState_start: "sched_reachable domainLib comSuffixes 5 (pacedState 1 0 [DelaySet pacedOrigin 20])"
proof -
  let ?one = "\<lparr>sc_minimum = 5, sc_capacity = maxScheduleEntries,
      sc_schedules = [(pacedOrigin, \<lparr>s_crawlDelay = 0, s_lastStart = 0, s_lastAccess = 1, s_users = 1\<rparr>)],
      sc_neighborhoods = []\<rparr>"
  let ?u = "Some (bareURL ''https'' ''example.com:8443'')"
  have acq: "acquire pacedOrigin 1 (newOriginRequestScheduler 5) = (None, ?one)"
    by (simp add: acquire_def newOriginRequestScheduler_def pin_def schedule_zero_def maxScheduleEntries_def)
  have r1: "sched_reachable domainLib comSuffixes 5
      \<lparr>st_sched = ?one, st_now = 1, st_held = {#pacedOrigin#}, st_pins = {#}, st_groups = {#}, st_log = []\<rparr>"
    (is "sched_reachable _ _ _ ?st1")
    using sched_reachable.step [OF sched_reachable.start [of 1 domainLib comSuffixes 5]
        sched_step.acquired [of pacedOrigin "sched_init 5 1" ?one]] acq
    by (simp add: sched_init_def newOriginRequestScheduler_def forgotten_def)
  have r2: "sched_reachable domainLib comSuffixes 5
      (?st1\<lparr>st_sched := setCrawlDelay pacedOrigin 20 ?one, st_log := [DelaySet pacedOrigin 20]\<rparr>)"
    (is "sched_reachable _ _ _ ?st2")
    using sched_reachable.step [OF r1 sched_step.crawlDelaySet [of pacedOrigin ?st1 domainLib comSuffixes 20]] by simp
  have parse: "Origin.Parse domainLib (url_String domainLib (bareURL ''https'' ''example.com:8443'')) = Inr pacedOrigin"
    using domainLib_example by (simp add: pacedOrigin_def) (simp add: domainLib_def bareURL_def)
  have key: "neighborhoodKey domainLib comSuffixes (origin_Hostname pacedOrigin) = Some ''example.com''"
    by (simp add: neighborhoodKey_def comSuffixes_def) (simp add: domainLib_def)
  have tgt: "acquireTarget domainLib comSuffixes ?u 1 (st_sched ?st2) =
      (Inr pacedPin, st_sched (pacedState 1 0 []))"
    using parse key
    by (simp add: acquireTarget_def acquireBoth_def acquire_def pin_def schedule_zero_def pinVisit_def
        idleSchedule_def setCrawlDelay_def update_schedule_def pacedState_def pacedPin_def maxScheduleEntries_def)
  show ?thesis
    using sched_reachable.step [OF r2 sched_step.target [of domainLib comSuffixes ?u ?st2 pacedPin
          "st_sched (pacedState 1 0 [])"]] tgt
    by (simp add: pacedState_def forgotten_def memoryOf_def scheduleOf_def setCrawlDelay_def update_schedule_def)
qed

lemma pacedState_reachable:
  "sched_reachable domainLib comSuffixes 5
     (pacedState 21 21 [DelaySet pacedOrigin 20, Started pacedOrigin 1, Started pacedOrigin 21])"
proof -
  have go: "sched_step domainLib comSuffixes (pacedState now prev evs)
      (pacedState now now (evs @ [Started pacedOrigin now]))" if "prev = 0 \<or> prev + 20 \<le> now" for now prev evs
    using sched_step.tried [of pacedPin "pacedState now prev evs" 0 "st_sched (pacedState now now evs)"
        domainLib comSuffixes] that
    by (auto simp: pacedState_def pacedPin_def tryStart_def remainingWait_def scheduleOf_def remainingDelay_def
        startRequest_def update_schedule_def Let_def)
  have "sched_reachable domainLib comSuffixes 5 (pacedState 1 1 [DelaySet pacedOrigin 20, Started pacedOrigin 1])"
    using sched_reachable.step [OF pacedState_start go [of 0 1]] by simp
  from sched_reachable.step [OF this sched_step.tick [of _ 21]]
  have "sched_reachable domainLib comSuffixes 5 (pacedState 21 1 [DelaySet pacedOrigin 20, Started pacedOrigin 1])"
    by (simp add: pacedState_def)
  from sched_reachable.step [OF this go [of 1 21]] show ?thesis by simp
qed

text \<open>
  C4. Politeness under concurrency: whatever requests share the scheduler and in whatever order their critical
  sections run, the log of starts respects the delays: a request to an origin starts only when the crawl delay
  set last for the origin, and at least the operator's minimum, has passed since the request to it before, and
  an entry is evicted, its start and crawl delay forgotten, only when that delay has passed; two requests to
  one origin, and two requests to origins of one neighborhood, start at least the minimum apart, evictions
  included; and neither map outgrows its 1024 entries.
\<close>
theorem scheduler_politeness:
  assumes "sched_reachable lib psl minimum st" and "0 \<le> minimum"
  shows "respectsDelays minimum (\<lambda>_. (None, 0)) (st_log st) \<and>
         polite minimum (startsOf (st_log st)) \<and> polite minimum (groupStartsOf lib psl (startsOf (st_log st))) \<and>
         length (sc_schedules (st_sched st)) \<le> 1024 \<and> length (sc_neighborhoods (st_sched st)) \<le> 1024"
  using sched_reachable_inv [OF assms] by (simp add: sched_inv_def entries_inv_def maxScheduleEntries_def)

theorem scheduler_politeness_witness:
  "respectsDelays 5 (\<lambda>_. (None, 0)) [DelaySet pacedOrigin 20, Started pacedOrigin 1, Started pacedOrigin 21] \<and>
   \<not> respectsDelays 5 (\<lambda>_. (None, 0)) [DelaySet pacedOrigin 20, Started pacedOrigin 1, Started pacedOrigin 20]"
  using scheduler_politeness [OF pacedState_reachable] by (simp add: pacedState_def delayOver_def)

text \<open>
  Waiting ends: when the waiter lets the time pass it was asked for, the loop of \<^verbatim>\<open>wait\<close> waits at most once,
  records the start of the request, and reports no error.
\<close>
theorem wait_ends:
  assumes "\<And>d w. waiter d (s, w) = (None, (s, after d w)) \<and> clockNow w + d \<le> clockNow (after d w)"
    and "delaysFit pinned (clockNow w) s"
  shows "\<exists>w'. waitLoop 2 clockNow waiter pinned (s, w) = Some (None, (startRequest pinned (clockNow w') s, w')) \<and>
              remainingWait pinned (clockNow w') s \<le> 0"
proof (cases "remainingWait pinned (clockNow w) s > 0")
  case True
  let ?w' = "after (remainingWait pinned (clockNow w) s) w"
  have "remainingWait pinned (clockNow ?w') s \<le> 0"
    using remainingWait_after [OF assms(2) True] assms(1) by blast
  with True assms(1) show ?thesis
    by (intro exI [of _ ?w']) (simp add: numeral_2_eq_2 tryStart_def Let_def)
next
  case False
  then show ?thesis by (intro exI [of _ w]) (simp add: numeral_2_eq_2 tryStart_def Let_def)
qed

theorem wait_ends_witness:
  "\<exists>w'. waitLoop 2 id (\<lambda>d (s, w). (None, (s, w + d))) examplePin (exampleSchedule 7, 9) =
      Some (None, (startRequest examplePin (id w') (exampleSchedule 7), w')) \<and>
    remainingWait examplePin (id w') (exampleSchedule 7) \<le> 0"
  by (rule wait_ends [where after = "\<lambda>d w. w + d"])
    (simp_all add: delaysFit_def exampleSchedule_def examplePin_def scheduleOf_def max_int64_def)

end
