(* ===== verification/Checker.thy ===== *)
theory Checker
  imports Scheduler
begin

text \<open>
  The robots checker, \<^verbatim>\<open>internal/robots/checker.go\<close>: the policy cache with its expiry and overflow eviction,
  policy acquisition, and requests that a policy must allow. The state a call acts on is the checker (cache,
  in-flight acquisitions, scheduler) together with a state \<open>'w\<close> of the outside; the hop getter acts on
  both, since it schedules its requests. The sections under the mutex are definitions of their own. A
  caller that finds an acquisition in flight waits for it; what it is then given is the argument \<open>await\<close>.
  The cache is an association list in iteration order.
\<close>

definition maxCacheEntries :: nat where "maxCacheEntries = 1024"

definition ErrDisallowed where "ErrDisallowed = Sentinel ''robots: target disallowed''"
definition ErrTemporary where "ErrTemporary = Sentinel ''robots: policy temporarily unavailable''"
definition errCheckerUnavailable where
  "errCheckerUnavailable = Sentinel ''robots: checker unavailable''"
definition errClockUnavailable where "errClockUnavailable = Sentinel ''robots: clock unavailable''"

record cache_entry =
  ce_policy :: policy
  ce_crawlDelay :: duration
  ce_expiresAt :: go_time
  ce_lastAccess :: go_time

record checker =
  c_cache :: "(origin \<times> cache_entry) list"
  c_inflight :: "origin list"
  c_scheduler :: scheduler
  c_maxCrawlDelay :: duration

section \<open>The cache\<close>

definition evictExpired :: "go_time \<Rightarrow> (origin \<times> cache_entry) list \<Rightarrow> (origin \<times> cache_entry) list" where
  "evictExpired now cache = filter (\<lambda>(key, entry). \<not> ce_expiresAt entry \<le> now) cache"

definition olderEntry ::
    "(origin \<times> go_time) option \<Rightarrow> origin \<times> cache_entry \<Rightarrow> (origin \<times> go_time) option" where
  "olderEntry found visited =
     (case (found, visited) of
        (None, (key, entry)) \<Rightarrow> Some (key, ce_lastAccess entry)
      | (Some (oldestKey, oldestAccess), (key, entry)) \<Rightarrow>
          if ce_lastAccess entry < oldestAccess then Some (key, ce_lastAccess entry) else found)"

definition oldestEntry :: "(origin \<times> cache_entry) list \<Rightarrow> (origin \<times> go_time) option" where
  "oldestEntry cache = foldl olderEntry None cache"

lemma oldestEntry_mem: "oldestEntry cache = Some (k, t) \<Longrightarrow> k \<in> fst ` set cache"
proof -
  have "case oldestEntry cache of None \<Rightarrow> True | Some (k, t) \<Rightarrow> k \<in> fst ` set cache"
    unfolding oldestEntry_def
    by (rule foldl_invariant)
      (auto simp: olderEntry_def intro: rev_image_eqI split: option.splits prod.splits if_splits)
  then show "oldestEntry cache = Some (k, t) \<Longrightarrow> k \<in> fst ` set cache" by simp
qed

function evictOverflow :: "(origin \<times> cache_entry) list \<Rightarrow> (origin \<times> cache_entry) list" where
  "evictOverflow cache =
     (if length cache \<ge> maxCacheEntries then
        (case oldestEntry cache of
           None \<Rightarrow> cache
         | Some (oldestKey, _) \<Rightarrow> evictOverflow (AList.delete oldestKey cache))
      else cache)"
  by pat_completeness auto
termination
  by (relation "measure length") (auto intro: length_delete_mem oldestEntry_mem)

declare evictOverflow.simps [simp del]

text \<open>The sections of \<^verbatim>\<open>policyFor\<close> under the mutex: the lookup, a failed acquisition, a finished one.\<close>

datatype lookup = Hit cache_entry | InFlight | Miss

definition lookupPolicy :: "origin \<Rightarrow> go_time \<Rightarrow> checker \<Rightarrow> lookup \<times> checker" where
  "lookupPolicy initial now c =
     (let cache = evictExpired now (c_cache c); c = c\<lparr>c_cache := cache\<rparr>
      in case map_of cache initial of
           Some entry \<Rightarrow>
             if now < ce_expiresAt entry then
               (let entry = entry\<lparr>ce_lastAccess := now\<rparr>
                in (Hit entry, c\<lparr>c_cache := AList.update initial entry cache\<rparr>))
             else if initial \<in> set (c_inflight c) then (InFlight, c)
             else (Miss, c\<lparr>c_inflight := initial # c_inflight c\<rparr>)
         | None \<Rightarrow>
             if initial \<in> set (c_inflight c) then (InFlight, c)
             else (Miss, c\<lparr>c_inflight := initial # c_inflight c\<rparr>))"

definition dropInflight :: "origin \<Rightarrow> checker \<Rightarrow> checker" where
  "dropInflight initial c = c\<lparr>c_inflight := removeAll initial (c_inflight c)\<rparr>"

definition storePolicy :: "origin \<Rightarrow> policy \<Rightarrow> duration \<Rightarrow> go_time \<Rightarrow> checker \<Rightarrow> checker" where
  "storePolicy initial policy delay now c =
     (let c = dropInflight initial c;
          cache = evictOverflow (evictExpired now (c_cache c))
      in c\<lparr>c_cache := AList.update initial
               \<lparr>ce_policy = policy, ce_crawlDelay = delay, ce_expiresAt = now + maxCacheLifetime,
                ce_lastAccess = now\<rparr> cache\<rparr>)"

section \<open>Policies and requests\<close>

definition setDelay :: "origin \<Rightarrow> duration \<Rightarrow> checker \<Rightarrow> checker" where
  "setDelay source d c = c\<lparr>c_scheduler := setCrawlDelay source d (c_scheduler c)\<rparr>"

definition releaseOrigin :: "('w \<Rightarrow> go_time) \<Rightarrow> origin \<Rightarrow> 'a \<times> (checker \<times> 'w) \<Rightarrow> 'a \<times> (checker \<times> 'w)" where
  "releaseOrigin clockNow source rcw =
     (case rcw of (r, (c, w)) \<Rightarrow> (r, (c\<lparr>c_scheduler := release source (clockNow w) (c_scheduler c)\<rparr>, w)))"

definition temporary :: "go_error \<Rightarrow> go_error" where
  "temporary err = Wrap '''' [ErrTemporary, err]"

text \<open>The acquisition proper, after the lookup missed.\<close>

definition acquirePolicy ::
    "host_lib \<Rightarrow> ('w \<Rightarrow> go_error option) \<Rightarrow> ('w \<Rightarrow> go_time) \<Rightarrow> (checker \<times> 'w) getter \<Rightarrow> origin \<Rightarrow>
     checker \<times> 'w \<Rightarrow> (go_error + policy) \<times> (checker \<times> 'w)" where
  "acquirePolicy lib ctx_Err clockNow getter initial cw =
     (case obtainPolicy lib (Some (\<lambda>cw. ctx_Err (snd cw))) initial (Some getter) cw of
        ((policy, Some err), (c, w)) \<Rightarrow> (Inl (temporary err), (dropInflight initial c, w))
      | ((policy, None), (c, w)) \<Rightarrow>
          (case crawlDelay policy (c_maxCrawlDelay c) of
             Inl err \<Rightarrow> (Inl (temporary err), (dropInflight initial c, w))
           | Inr delay \<Rightarrow>
               (Inr policy, (storePolicy initial policy delay (clockNow w) (setDelay initial delay c), w))))"

definition policyFor ::
    "host_lib \<Rightarrow> ('w \<Rightarrow> go_error option) \<Rightarrow> ('w \<Rightarrow> go_time) \<Rightarrow> (checker \<times> 'w) getter \<Rightarrow>
     (origin \<Rightarrow> checker \<times> 'w \<Rightarrow> (go_error + policy) \<times> (checker \<times> 'w)) \<Rightarrow> origin \<Rightarrow>
     checker \<times> 'w \<Rightarrow> (go_error + policy) \<times> (checker \<times> 'w)" where
  "policyFor lib ctx_Err clockNow getter await initial cw =
     (case cw of (c, w) \<Rightarrow>
        (case acquire initial (clockNow w) (c_scheduler c) of
           (Some err, s) \<Rightarrow> (Inl (temporary err), (c\<lparr>c_scheduler := s\<rparr>, w))
         | (None, s) \<Rightarrow>
             releaseOrigin clockNow initial
               (case lookupPolicy initial (clockNow w) (c\<lparr>c_scheduler := s\<rparr>) of
                  (Hit entry, c) \<Rightarrow> (Inr (ce_policy entry), (setDelay initial (ce_crawlDelay entry) c, w))
                | (InFlight, c) \<Rightarrow> await initial (c, w)
                | (Miss, c) \<Rightarrow> acquirePolicy lib ctx_Err clockNow getter initial (c, w))))"

definition requestOrigin ::
    "host_lib \<Rightarrow> bool \<Rightarrow> 'w go_context \<Rightarrow> ('w \<Rightarrow> go_time) option \<Rightarrow> (checker \<times> 'w) getter option \<Rightarrow>
     url option \<Rightarrow> 'w \<Rightarrow> go_error + origin" where
  "requestOrigin lib present ctx clock getter target w =
     (if \<not> present then Inl errCheckerUnavailable
      else (case ctx of
              None \<Rightarrow> Inl errInvalidContext
            | Some ctx_Err \<Rightarrow>
                (case ctx_Err w of
                   Some err \<Rightarrow> Inl err
                 | None \<Rightarrow>
                     (case target of
                        None \<Rightarrow> Inl errInvalidHTTPTarget
                      | Some u \<Rightarrow>
                          (case Origin.Parse lib (url_String lib u) of
                             Inl _ \<Rightarrow> Inl errInvalidHTTPTarget
                           | Inr initial \<Rightarrow>
                               (case getter of
                                  None \<Rightarrow> Inl errHTTPGetterUnavailable
                                | Some _ \<Rightarrow>
                                    (case clock of
                                       None \<Rightarrow> Inl errClockUnavailable
                                     | Some _ \<Rightarrow> Inr initial)))))))"

definition Checker_Allowed ::
    "host_lib \<Rightarrow> bool \<Rightarrow> 'w go_context \<Rightarrow> ('w \<Rightarrow> go_time) option \<Rightarrow> (checker \<times> 'w) getter option \<Rightarrow>
     (origin \<Rightarrow> checker \<times> 'w \<Rightarrow> (go_error + policy) \<times> (checker \<times> 'w)) \<Rightarrow> url option \<Rightarrow>
     checker \<times> 'w \<Rightarrow> (go_error + bool) \<times> (checker \<times> 'w)" where
  "Checker_Allowed lib present ctx clock getter await target cw =
     (case requestOrigin lib present ctx clock getter target (snd cw) of
        Inl err \<Rightarrow> (Inl err, cw)
      | Inr initial \<Rightarrow>
          (case policyFor lib (the ctx) (the clock) (the getter) await initial cw of
             (Inl err, cw) \<Rightarrow> (Inl err, cw)
           | (Inr policy, cw) \<Rightarrow> (Inr (Allowed policy target), cw)))"

definition fetchTarget ::
    "(checker \<times> 'w) getter \<Rightarrow> url option \<Rightarrow> checker \<times> 'w \<Rightarrow> (go_error + response) \<times> (checker \<times> 'w)" where
  "fetchTarget getter target cw =
     (case getter cw target of
        (Inl err, cw) \<Rightarrow> (Inl (Wrap ''robots: fetch protected target'' [err]), cw)
      | (Inr None, cw) \<Rightarrow> (Inl errInvalidHTTPResponse, cw)
      | (Inr (Some response), cw) \<Rightarrow>
          (case r_Body response of
             None \<Rightarrow> (Inl errInvalidHTTPResponse, cw) | Some _ \<Rightarrow> (Inr response, cw)))"

definition Checker_Get ::
    "host_lib \<Rightarrow> bool \<Rightarrow> 'w go_context \<Rightarrow> ('w \<Rightarrow> go_time) option \<Rightarrow> (checker \<times> 'w) getter option \<Rightarrow>
     (origin \<Rightarrow> checker \<times> 'w \<Rightarrow> (go_error + policy) \<times> (checker \<times> 'w)) \<Rightarrow> url option \<Rightarrow>
     checker \<times> 'w \<Rightarrow> (go_error + response) \<times> (checker \<times> 'w)" where
  "Checker_Get lib present ctx clock getter await target cw =
     (case requestOrigin lib present ctx clock getter target (snd cw) of
        Inl err \<Rightarrow> (Inl err, cw)
      | Inr initial \<Rightarrow>
          (case acquire initial (the clock (snd cw)) (c_scheduler (fst cw)) of
             (Some err, s) \<Rightarrow> (Inl (temporary err), ((fst cw)\<lparr>c_scheduler := s\<rparr>, snd cw))
           | (None, s) \<Rightarrow>
               releaseOrigin (the clock) initial
                 (case policyFor lib (the ctx) (the clock) (the getter) await initial
                         ((fst cw)\<lparr>c_scheduler := s\<rparr>, snd cw) of
                    (Inl err, cw) \<Rightarrow> (Inl err, cw)
                  | (Inr policy, cw) \<Rightarrow>
                      if \<not> Allowed policy target then (Inl ErrDisallowed, cw)
                      else fetchTarget (the getter) target cw)))"

section \<open>The cache stays bounded and fresh\<close>

definition cache_ok :: "checker \<Rightarrow> bool" where
  "cache_ok c \<longleftrightarrow> distinct (map fst (c_cache c)) \<and> length (c_cache c) \<le> maxCacheEntries"

lemma distinct_fst_filter: "distinct (map fst al) \<Longrightarrow> distinct (map fst (filter P al))"
  by (induction al) auto

lemma evictExpired_ok:
  "distinct (map fst cache) \<Longrightarrow> distinct (map fst (evictExpired now cache))"
  "length (evictExpired now cache) \<le> length cache"
  by (auto simp: evictExpired_def distinct_fst_filter)

lemma map_of_evictExpired:
  assumes "distinct (map fst cache)"
  shows "map_of (evictExpired now cache) k =
    (case map_of cache k of None \<Rightarrow> None | Some e \<Rightarrow> if now < ce_expiresAt e then Some e else None)"
proof (cases "map_of cache k")
  case None
  then have "k \<notin> fst ` set (evictExpired now cache)"
    by (auto simp: evictExpired_def map_of_eq_None_iff)
  then have "map_of (evictExpired now cache) k = None" by (simp add: map_of_eq_None_iff)
  with None show ?thesis by simp
next
  case (Some e)
  show ?thesis
  proof (cases "now < ce_expiresAt e")
    case True
    with Some have "(k, e) \<in> set (evictExpired now cache)"
      by (auto simp: evictExpired_def dest: map_of_SomeD)
    with Some True assms show ?thesis by (simp add: evictExpired_ok)
  next
    case False
    have "map_of (evictExpired now cache) k = None"
      unfolding map_of_eq_None_iff
    proof
      assume "k \<in> fst ` set (evictExpired now cache)"
      then obtain e' where "(k, e') \<in> set cache" "now < ce_expiresAt e'"
        by (auto simp: evictExpired_def)
      with assms Some False show False by simp
    qed
    with Some False show ?thesis by simp
  qed
qed

lemma evictOverflow_ok:
  "distinct (map fst cache) \<Longrightarrow> distinct (map fst (evictOverflow cache))"
  "length (evictOverflow cache) < maxCacheEntries"
proof -
  show "distinct (map fst cache) \<Longrightarrow> distinct (map fst (evictOverflow cache))"
  proof (induction cache rule: evictOverflow.induct)
    case (1 cache)
    then show ?case
      by (subst evictOverflow.simps) (auto simp: AList.distinct_delete split: option.splits)
  qed
  have some: "oldestEntry (x # xs) \<noteq> None" for x xs
  proof -
    have "foldl olderEntry (Some y) ys \<noteq> None" for y ys
      by (rule foldl_invariant) (auto simp: olderEntry_def split: prod.splits)
    moreover have "olderEntry None x = Some (fst x, ce_lastAccess (snd x))"
      by (cases x) (simp add: olderEntry_def)
    ultimately show ?thesis by (simp add: oldestEntry_def)
  qed
  show "length (evictOverflow cache) < maxCacheEntries"
  proof (induction cache rule: evictOverflow.induct)
    case (1 cache)
    show ?case
    proof (cases "length cache \<ge> maxCacheEntries")
      case True
      then obtain x xs where "cache = x # xs" by (cases cache) (auto simp: maxCacheEntries_def)
      then obtain k t where "oldestEntry cache = Some (k, t)" using some [of x xs] by auto
      with 1 True show ?thesis by (subst evictOverflow.simps) simp
    qed (subst evictOverflow.simps, simp)
  qed
qed

lemma lookupPolicy_ok: "cache_ok c \<Longrightarrow> cache_ok (snd (lookupPolicy initial now c))"
proof -
  assume ok: "cache_ok c"
  let ?cache = "evictExpired now (c_cache c)"
  have "distinct (map fst ?cache)" "length ?cache \<le> maxCacheEntries"
    using ok evictExpired_ok [where cache = "c_cache c" and now = now] by (auto simp: cache_ok_def)
  moreover have "length (AList.update initial e' ?cache) = length ?cache" if "map_of ?cache initial = Some e" for e e'
    using that by (metis domI dom_map_of_conv_image_fst length_update)
  ultimately show ?thesis
    by (auto simp: lookupPolicy_def cache_ok_def Let_def AList.distinct_update split: option.splits)
qed

lemma storePolicy_ok: "cache_ok c \<Longrightarrow> cache_ok (storePolicy initial p d now c)"
proof -
  assume ok: "cache_ok c"
  let ?cache = "evictOverflow (evictExpired now (c_cache c))"
  have "distinct (map fst ?cache)" "length ?cache < maxCacheEntries"
    using ok evictExpired_ok [where cache = "c_cache c" and now = now] evictOverflow_ok by (auto simp: cache_ok_def)
  then show ?thesis
    by (simp add: storePolicy_def cache_ok_def Let_def dropInflight_def AList.distinct_update length_update)
qed

lemma lookup_after_store:
  assumes "cache_ok c"
  shows "fst (lookupPolicy initial now' (storePolicy initial p d now c)) =
    (if now' < now + maxCacheLifetime
     then Hit \<lparr>ce_policy = p, ce_crawlDelay = d, ce_expiresAt = now + maxCacheLifetime, ce_lastAccess = now'\<rparr>
     else Miss)"
proof -
  let ?c = "storePolicy initial p d now c"
  have "distinct (map fst (c_cache ?c))" using storePolicy_ok [OF assms] by (simp add: cache_ok_def)
  moreover have "map_of (c_cache ?c) initial =
      Some \<lparr>ce_policy = p, ce_crawlDelay = d, ce_expiresAt = now + maxCacheLifetime, ce_lastAccess = now\<rparr>"
    by (simp add: storePolicy_def Let_def AList.update_conv')
  moreover have "initial \<notin> set (c_inflight ?c)"
    by (simp add: storePolicy_def Let_def dropInflight_def)
  ultimately show ?thesis
    by (auto simp: lookupPolicy_def Let_def map_of_evictExpired)
qed

section \<open>What a call requests\<close>

definition recorded :: "(checker \<times> 'w) getter \<Rightarrow> (checker \<times> ('w \<times> url option list)) getter" where
  "recorded getter cwl target =
     (case getter (fst cwl, fst (snd cwl)) target of (r, (c, w)) \<Rightarrow> (r, (c, (w, snd (snd cwl) @ [target]))))"

lemma recorded_log: "snd (snd (snd (recorded getter cwl target))) = snd (snd cwl) @ [target]"
  by (simp add: recorded_def split: prod.splits)

abbreviation robotsRequests :: "host_lib \<Rightarrow> origin \<Rightarrow> url option list \<Rightarrow> bool" where
  "robotsRequests lib initial targets \<equiv>
     length targets \<le> 6 \<and> list_all (\<lambda>u. u = robotsURL lib initial \<or> followable lib u) targets"

lemma acquirePolicy_log:
  assumes "acquirePolicy lib ctx_Err clockNow (recorded getter) initial (c, (w, [])) = (r, (c', (w', targets)))"
  shows "robotsRequests lib initial targets"
proof -
  obtain r1 c1 w1 t1 where o: "obtainPolicy lib (Some (\<lambda>cw. ctx_Err (snd cw))) initial
      (Some (recorded getter)) (c, (w, [])) = (r1, (c1, (w1, t1)))"
    by (metis prod.exhaust)
  have "robotsRequests lib initial (snd (snd (c1, (w1, t1))))"
    by (rule obtainPolicy_log [where logOf = "\<lambda>cw. snd (snd cw)", OF _ _ o]) (auto simp: recorded_log)
  moreover have "targets = t1"
    using assms o by (auto simp: acquirePolicy_def split: option.splits sum.splits prod.splits)
  ultimately show ?thesis by simp
qed

lemma policyFor_log:
  assumes await: "\<And>cw. snd (snd (snd (await initial cw))) = snd (snd cw)"
    and "policyFor lib ctx_Err clockNow (recorded getter) await initial (c, (w, [])) = (r, (c', (w', targets)))"
  shows "robotsRequests lib initial targets"
proof -
  obtain e s where a: "acquire initial (clockNow (w, [])) (c_scheduler c) = (e, s)" by fastforce
  obtain l c1 where l: "lookupPolicy initial (clockNow (w, [])) (c\<lparr>c_scheduler := s\<rparr>) = (l, c1)" by fastforce
  obtain r2 c2 w2 t2 where q: "acquirePolicy lib ctx_Err clockNow (recorded getter) initial (c1, (w, [])) =
      (r2, (c2, (w2, t2)))"
    by (metis prod.exhaust)
  have "robotsRequests lib initial t2" using acquirePolicy_log [OF q] .
  then show ?thesis
    using assms(2) a l q await [of "(c1, (w, []))"]
    by (auto simp: policyFor_def releaseOrigin_def split: option.splits lookup.splits prod.splits)
qed

text \<open>
  The policy in force for an origin, with the requests it takes to learn it, read off the state in which a call
  finds the checker: the policy of a cached entry that has not expired; without one, the result of the
  acquisition under way for the origin; without either, what robots.txt of the origin says now.
\<close>

definition entered :: "origin \<Rightarrow> go_time \<Rightarrow> checker \<Rightarrow> checker" where
  "entered initial now c =
     c\<lparr>c_scheduler := snd (acquire initial now (snd (acquire initial now (c_scheduler c)))),
       c_cache := evictExpired now (c_cache c)\<rparr>"

definition learned ::
    "host_lib \<Rightarrow> ('w \<times> url option list \<Rightarrow> go_error option) \<Rightarrow> (checker \<times> ('w \<times> url option list)) getter \<Rightarrow>
     (origin \<Rightarrow> checker \<times> ('w \<times> url option list) \<Rightarrow> (go_error + policy) \<times> (checker \<times> ('w \<times> url option list))) \<Rightarrow>
     origin \<Rightarrow> checker \<Rightarrow> 'w \<Rightarrow> policy \<Rightarrow> url option list \<Rightarrow> bool" where
  "learned lib ctx_Err getter await initial c w p robots =
     (if initial \<in> set (c_inflight c) then fst (await initial (c, (w, []))) = Inr p \<and> robots = []
      else (case obtainPolicy lib (Some (\<lambda>cw. ctx_Err (snd cw))) initial (Some getter)
                   (c\<lparr>c_inflight := initial # c_inflight c\<rparr>, (w, [])) of
              (result, (c', (w', requests))) \<Rightarrow> result = (p, None) \<and> robots = requests))"

definition inForce ::
    "host_lib \<Rightarrow> ('w \<times> url option list \<Rightarrow> go_error option) \<Rightarrow> ('w \<times> url option list \<Rightarrow> go_time) \<Rightarrow>
     (checker \<times> ('w \<times> url option list)) getter \<Rightarrow>
     (origin \<Rightarrow> checker \<times> ('w \<times> url option list) \<Rightarrow> (go_error + policy) \<times> (checker \<times> ('w \<times> url option list))) \<Rightarrow>
     origin \<Rightarrow> checker \<Rightarrow> 'w \<Rightarrow> policy \<Rightarrow> url option list \<Rightarrow> bool" where
  "inForce lib ctx_Err clockNow getter await initial c w p robots =
     (let now = clockNow (w, [])
      in case map_of (c_cache c) initial of
           Some entry \<Rightarrow>
             if now < ce_expiresAt entry then p = ce_policy entry \<and> robots = []
             else learned lib ctx_Err getter await initial (entered initial now c) w p robots
         | None \<Rightarrow> learned lib ctx_Err getter await initial (entered initial now c) w p robots)"

lemma policyFor_inForce:
  assumes await: "\<And>cw. snd (snd (snd (await initial cw))) = snd (snd cw)"
    and ok: "cache_ok c" and s: "snd (acquire initial (clockNow (w, [])) (c_scheduler c)) = s"
    and p: "policyFor lib ctx_Err clockNow getter await initial (c\<lparr>c_scheduler := s\<rparr>, (w, [])) =
      (Inr pol, (c', (w', targets)))"
  shows "inForce lib ctx_Err clockNow getter await initial c w pol targets"
proof -
  let ?now = "clockNow (w, [])" and ?c = "entered initial (clockNow (w, [])) c"
  obtain s' where a: "acquire initial ?now s = (None, s')"
    using p by (auto simp: policyFor_def split: prod.splits option.splits)
  have entered: "?c = c\<lparr>c_scheduler := s', c_cache := evictExpired ?now (c_cache c)\<rparr>"
    by (simp add: entered_def s a)
  have cache: "map_of (evictExpired ?now (c_cache c)) initial =
      (case map_of (c_cache c) initial of None \<Rightarrow> None | Some e \<Rightarrow> if ?now < ce_expiresAt e then Some e else None)"
    using ok by (intro map_of_evictExpired) (simp add: cache_ok_def)
  show ?thesis
  proof (cases "\<exists>e. map_of (c_cache c) initial = Some e \<and> ?now < ce_expiresAt e")
    case True
    then show ?thesis
      using p a cache by (auto simp: policyFor_def lookupPolicy_def inForce_def releaseOrigin_def Let_def)
  next
    case False
    have none: "map_of (evictExpired ?now (c_cache c)) initial = None"
      using False by (auto simp: cache split: option.splits)
    have "learned lib ctx_Err getter await initial ?c w pol targets"
    proof (cases "initial \<in> set (c_inflight c)")
      case True
      with p a none await [of "(?c, (w, []))"] show ?thesis
        by (auto simp: policyFor_def lookupPolicy_def learned_def releaseOrigin_def Let_def entered split: prod.splits)
    next
      case notin: False
      with p a none show ?thesis
        by (auto simp: policyFor_def lookupPolicy_def learned_def releaseOrigin_def Let_def entered acquirePolicy_def
            split: prod.splits option.splits sum.splits)
    qed
    with False show ?thesis by (auto simp: inForce_def Let_def split: option.splits)
  qed
qed

lemma policyFor_requests:
  assumes await: "\<And>cw. snd (snd (snd (await initial cw))) = snd (snd cw)"
    and ok: "cache_ok c" and s: "snd (acquire initial (clockNow (w, [])) (c_scheduler c)) = s"
    and p: "policyFor lib ctx_Err clockNow getter await initial (c\<lparr>c_scheduler := s\<rparr>, (w, [])) =
      (r, (c', (w', targets)))"
    and f: "inForce lib ctx_Err clockNow getter await initial c w pol robots"
  shows "targets = [] \<or> targets = robots"
proof (cases "fst (acquire initial (clockNow (w, [])) s)")
  case (Some e)
  with p show ?thesis by (auto simp: policyFor_def split: prod.splits option.splits)
next
  case None
  let ?now = "clockNow (w, [])" and ?c = "entered initial (clockNow (w, [])) c"
  from None obtain s' where a: "acquire initial ?now s = (None, s')" by (metis prod.collapse)
  have entered: "?c = c\<lparr>c_scheduler := s', c_cache := evictExpired ?now (c_cache c)\<rparr>"
    by (simp add: entered_def s a)
  have cache: "map_of (evictExpired ?now (c_cache c)) initial =
      (case map_of (c_cache c) initial of None \<Rightarrow> None | Some e \<Rightarrow> if ?now < ce_expiresAt e then Some e else None)"
    using ok by (intro map_of_evictExpired) (simp add: cache_ok_def)
  show ?thesis
  proof (cases "map_of (evictExpired ?now (c_cache c)) initial")
    case (Some e)
    moreover from this have "?now < ce_expiresAt e" by (auto simp: cache split: option.splits if_splits)
    ultimately show ?thesis
      using p a by (auto simp: policyFor_def lookupPolicy_def releaseOrigin_def Let_def split: if_splits prod.splits)
  next
    case none: None
    then have l: "learned lib ctx_Err getter await initial ?c w pol robots"
      using f by (auto simp: inForce_def Let_def cache split: option.splits if_splits)
    show ?thesis
    proof (cases "initial \<in> set (c_inflight c)")
      case True
      with p a none await [of "(?c, (w, []))"] show ?thesis
        by (auto simp: policyFor_def lookupPolicy_def releaseOrigin_def Let_def entered split: prod.splits)
    next
      case notin: False
      with p a none l show ?thesis
        by (auto simp: policyFor_def lookupPolicy_def learned_def releaseOrigin_def Let_def entered acquirePolicy_def
            split: prod.splits option.splits sum.splits)
    qed
  qed
qed

lemma Checker_Get_log:
  assumes await: "\<And>initial cw. snd (snd (snd (await initial cw))) = snd (snd cw)" and ok: "cache_ok c"
    and get: "Checker_Get lib present ctx clock (Some (recorded getter)) await target (c, (w, [])) =
      (r, (c', (w', targets)))"
  shows "targets = [] \<and> isl r \<or>
    (\<exists>initial robots. requestOrigin lib present ctx clock (Some (recorded getter)) target (w, []) = Inr initial \<and>
       robotsRequests lib initial robots \<and>
       (targets = robots \<and> isl r \<and>
        (\<forall>p requests. inForce lib (the ctx) (the clock) (recorded getter) await initial c w p requests \<longrightarrow>
           robots = [] \<or> robots = requests) \<or>
        targets = robots @ [target] \<and>
        (\<exists>p. inForce lib (the ctx) (the clock) (recorded getter) await initial c w p robots \<and> Allowed p target)))"
proof (cases "requestOrigin lib present ctx clock (Some (recorded getter)) target (w, [])")
  case (Inl e)
  with get show ?thesis by (auto simp: Checker_Get_def)
next
  case (Inr initial)
  obtain e s where a: "acquire initial (the clock (w, [])) (c_scheduler c) = (e, s)" by fastforce
  obtain r1 c1 w1 t1 where p: "policyFor lib (the ctx) (the clock) (recorded getter) await initial
      (c\<lparr>c_scheduler := s\<rparr>, (w, [])) = (r1, (c1, (w1, t1)))"
    by (metis prod.exhaust)
  have robots: "robotsRequests lib initial t1" by (rule policyFor_log [OF _ p]) (rule await)
  obtain r2 c2 w2 t2 where f: "fetchTarget (recorded getter) target (c1, (w1, t1)) = (r2, (c2, (w2, t2)))"
    by (metis prod.exhaust)
  have t2: "t2 = t1 @ [target]"
    using f recorded_log [of getter "(c1, (w1, t1))" target]
    by (auto simp: fetchTarget_def split: prod.splits sum.splits option.splits)
  show ?thesis
  proof (cases "e = None \<and> (\<exists>p. r1 = Inr p \<and> Allowed p target)")
    case True
    then obtain pol where pol: "r1 = Inr pol" "Allowed pol target" by auto
    have "inForce lib (the ctx) (the clock) (recorded getter) await initial c w pol t1"
      by (rule policyFor_inForce [OF await ok _ p [unfolded pol(1)]]) (simp add: a)
    moreover have "targets = t1 @ [target]"
      using get Inr a p f t2 True by (auto simp: Checker_Get_def releaseOrigin_def)
    ultimately show ?thesis using Inr robots pol(2) by blast
  next
    case False
    then have "isl r" "targets = [] \<or> targets = t1"
      using get Inr a p by (auto simp: Checker_Get_def releaseOrigin_def split: option.splits sum.splits)
    moreover have "t1 = [] \<or> t1 = requests"
      if "inForce lib (the ctx) (the clock) (recorded getter) await initial c w pol requests" for pol requests
      by (rule policyFor_requests [OF await ok _ p that]) (simp add: a)
    ultimately show ?thesis using Inr robots by blast
  qed
qed

section \<open>Properties\<close>

definition emptyChecker :: checker where
  "emptyChecker =
     \<lparr>c_cache = [], c_inflight = [], c_scheduler = newOriginRequestScheduler 0,
      c_maxCrawlDelay = DefaultMaxCrawlDelay\<rparr>"

text \<open>
  The policy cache: lookups and stores keep at most 1024 entries with distinct keys, and a stored policy
  is found by every lookup of the next 24 hours, with its crawl delay, and by none after that.
\<close>
theorem policy_cache_roundtrip:
  assumes "cache_ok c"
  shows "cache_ok (storePolicy initial p d now c) \<and> cache_ok (snd (lookupPolicy other now c)) \<and>
    fst (lookupPolicy initial now' (storePolicy initial p d now c)) =
    (if now' < now + 24 * hour
     then Hit \<lparr>ce_policy = p, ce_crawlDelay = d, ce_expiresAt = now + 24 * hour, ce_lastAccess = now'\<rparr>
     else Miss)"
  using storePolicy_ok [OF assms] lookupPolicy_ok [OF assms] lookup_after_store [OF assms]
  by (simp add: maxCacheLifetime_def)

theorem policy_cache_roundtrip_witness:
  "fst (lookupPolicy exampleOrigin 7 (storePolicy exampleOrigin disallowAllPolicy 2 5 emptyChecker)) =
   Hit \<lparr>ce_policy = disallowAllPolicy, ce_crawlDelay = 2, ce_expiresAt = 5 + 24 * hour, ce_lastAccess = 7\<rparr>"
proof -
  have "cache_ok emptyChecker" by (simp add: cache_ok_def emptyChecker_def)
  from policy_cache_roundtrip [OF this, of exampleOrigin disallowAllPolicy 2 5 exampleOrigin 7]
  show ?thesis by (simp add: duration_units)
qed

text \<open>
  C3. The target is requested only with permission: with the invariant of the cache, a call of \<^verbatim>\<open>Get\<close> makes at
  most six requests for robots.txt and its redirects, and after exactly the requests that learn the policy in
  force for the origin it requests the target at most once, only when that policy allows the target; when it
  does not make that request it returns an error, having made no requests or those that learn the policy. The
  policy in force is the cached one until it expires, or the result of an acquisition under way, or what
  robots.txt says now. Waiting for another acquisition (\<open>await\<close>) makes no requests of this call.
\<close>
theorem Checker_Get_only_allowed:
  assumes "\<And>initial cw. snd (snd (snd (await initial cw))) = snd (snd cw)" and "cache_ok c"
  shows "case Checker_Get lib present ctx clock (Some (recorded getter)) await target (c, (w, [])) of
    (r, (c', (w', targets))) \<Rightarrow>
      targets = [] \<and> isl r \<or>
      (\<exists>initial robots.
         requestOrigin lib present ctx clock (Some (recorded getter)) target (w, []) = Inr initial \<and>
         length robots \<le> 6 \<and> list_all (\<lambda>u. u = robotsURL lib initial \<or> followable lib u) robots \<and>
         (targets = robots \<and> isl r \<and>
          (\<forall>p requests. inForce lib (the ctx) (the clock) (recorded getter) await initial c w p requests \<longrightarrow>
             robots = [] \<or> robots = requests) \<or>
          targets = robots @ [target] \<and>
          (\<exists>p. inForce lib (the ctx) (the clock) (recorded getter) await initial c w p robots \<and>
               Allowed p target)))"
  using Checker_Get_log [OF assms] by (clarsimp split: prod.splits)

text \<open>With a cached policy that disallows everything, nothing is requested before the entry expires.\<close>

definition deniedOrigin :: origin where
  "deniedOrigin = \<lparr>serialization = ''https://example.com:8443'', hostname = ''example.com'', port = 8443\<rparr>"

definition denyingChecker :: checker where
  "denyingChecker =
     emptyChecker\<lparr>c_cache := [(deniedOrigin,
       \<lparr>ce_policy = disallowAllPolicy, ce_crawlDelay = 0, ce_expiresAt = 100, ce_lastAccess = 1\<rparr>)]\<rparr>"

theorem Checker_Get_only_allowed_witness:
  "case Checker_Get domainLib True (Some (\<lambda>w. None)) (Some (\<lambda>w. 99))
      (Some (recorded (\<lambda>cw target. (Inl (Sentinel ''refused''), cw)))) (\<lambda>initial cw. (Inl ErrTemporary, cw))
      (Some (bareURL ''https'' ''example.com:8443'')) (denyingChecker, ((), [])) of
    (r, (c', (w', targets))) \<Rightarrow> isl r \<and> targets = []"
proof -
  let ?target = "Some (bareURL ''https'' ''example.com:8443'')"
  let ?get = "recorded (\<lambda>cw target. (Inl (Sentinel ''refused''), cw)) :: (checker \<times> (unit \<times> url option list)) getter"
  let ?await = "\<lambda>initial cw. (Inl ErrTemporary :: go_error + policy, cw :: checker \<times> (unit \<times> url option list))"
  have origin: "requestOrigin domainLib True (Some (\<lambda>w. None)) (Some (\<lambda>w. 99)) (Some ?get) ?target ((), []) =
      Inr deniedOrigin"
    using domainLib_example
    by (simp add: requestOrigin_def deniedOrigin_def) (simp add: domainLib_def bareURL_def)
  have force: "inForce domainLib (\<lambda>w. None) (\<lambda>w. 99) ?get ?await deniedOrigin denyingChecker () p requests \<longleftrightarrow>
      p = disallowAllPolicy \<and> requests = []" for p requests
    by (simp add: inForce_def denyingChecker_def)
  have denied: "\<not> Allowed disallowAllPolicy ?target"
    unfolding Allowed_disallowAll bareURL_def by code_simp
  have ok: "cache_ok denyingChecker"
    by (simp add: cache_ok_def denyingChecker_def maxCacheEntries_def)
  show ?thesis
    using Checker_Get_only_allowed [where await = ?await and lib = domainLib and present = True and
        ctx = "Some (\<lambda>w. None)" and clock = "Some (\<lambda>w. 99)" and
        getter = "\<lambda>cw target. (Inl (Sentinel ''refused''), cw)" and target = ?target and c = denyingChecker and
        w = "()", OF _ ok] origin force denied
    by (auto split: prod.splits)
qed

end
