(* ===== verification/Verifier.thy ===== *)
theory Verifier
  imports Declaration Checker
begin

text \<open>
  \<^verbatim>\<open>internal/declaration/verifier.go\<close>: retrieving and validating the declaration of an origin. The getter (in
  production the robots checker) and the clock act on a state \<open>'w\<close>; \<open>reading\<close> is what reading a body does
  to that state, so that the context may be cancelled meanwhile.
\<close>

definition WellKnownPath :: string where "WellKnownPath = ''/.well-known/josh''"
definition maxDeclarationRedirects :: nat where "maxDeclarationRedirects = 5"

definition errVerifierUnavailable where
  "errVerifierUnavailable = Sentinel ''declaration: verifier unavailable''"
definition errDeclarationGetterUnavailable where
  "errDeclarationGetterUnavailable = Sentinel ''declaration: getter unavailable''"
definition errDeclarationClockUnavailable where
  "errDeclarationClockUnavailable = Sentinel ''declaration: clock unavailable''"
definition errInvalidDeclarationContext where
  "errInvalidDeclarationContext = Sentinel ''declaration: invalid context''"
definition errInvalidDeclarationOrigin where
  "errInvalidDeclarationOrigin = Sentinel ''declaration: invalid origin''"
definition errInvalidDeclarationRedirect where
  "errInvalidDeclarationRedirect = Sentinel ''declaration: invalid redirect''"
definition errCrossOriginDeclarationRedirect where
  "errCrossOriginDeclarationRedirect = Sentinel ''declaration: cross-origin redirect''"

text \<open>Outcomes outside the named constants are the other values of the source's \<^verbatim>\<open>uint8\<close>.\<close>

datatype outcome = OutcomeInvalid | OutcomeValid | OutcomeAbsent | OutcomeUnsupportedVersion
  | OutcomeUnavailable | OutcomeRobotsDenied | OutcomeCrossOriginRedirect | OutcomeOther nat

record verification_result =
  vr_Outcome :: outcome
  vr_Origin :: origin
  vr_Declaration :: josh_declaration
  vr_FailureCategory :: category
  vr_RetryAfter :: duration

definition resultOf :: "origin \<Rightarrow> outcome \<Rightarrow> verification_result" where
  "resultOf source oc =
     \<lparr>vr_Outcome = oc, vr_Origin = source, vr_Declaration = declaration_zero,
      vr_FailureCategory = CategoryNone, vr_RetryAfter = 0\<rparr>"

definition unavailable :: "origin \<Rightarrow> category \<Rightarrow> duration \<Rightarrow> verification_result" where
  "unavailable source cat retryAfter =
     (resultOf source OutcomeUnavailable)\<lparr>vr_FailureCategory := cat, vr_RetryAfter := retryAfter\<rparr>"

record 'w verifier =
  v_getter :: "'w getter option"
  v_clock :: "('w \<Rightarrow> go_time) option"

definition isDeclarationRedirect :: "int \<Rightarrow> bool" where
  "isDeclarationRedirect status \<longleftrightarrow> status \<in> {301, 302, 303, 307, 308}"

definition declarationRedirectTarget ::
    "host_lib \<Rightarrow> url option \<Rightarrow> response \<Rightarrow> origin \<Rightarrow> go_error + url" where
  "declarationRedirectTarget lib current response source =
     (let location = r_Header response ''Location''
      in if location = [] then Inl errInvalidDeclarationRedirect
         else (case current of
                 None \<Rightarrow> Inl nilDereference
               | Some base \<Rightarrow>
                   (case url_ParseRef lib base location of
                      Inl _ \<Rightarrow> Inl errInvalidDeclarationRedirect
                    | Inr next \<Rightarrow>
                        (let next = next\<lparr>u_Fragment := [], u_RawFragment := []\<rparr>
                         in case Origin.Parse lib (url_String lib next) of
                              Inl _ \<Rightarrow> Inl errInvalidDeclarationRedirect
                            | Inr nextOrigin \<Rightarrow>
                                if nextOrigin \<noteq> source then Inl errCrossOriginDeclarationRedirect
                                else Inr next))))"

section \<open>Verify\<close>

record 'w verify_env =
  ve_lib :: host_lib
  ve_unmarshal :: "string \<Rightarrow> wire_declaration option"
  ve_ParseTime :: "string \<Rightarrow> go_time option"
  ve_reading :: "'w \<Rightarrow> 'w"

text \<open>What a failed retrieval means (lines 158-184).\<close>

definition retrievalFailure :: "origin \<Rightarrow> go_error \<Rightarrow> verification_result" where
  "retrievalFailure source err =
     (if errors_Is err ErrDisallowed then resultOf source OutcomeRobotsDenied
      else (let cat = (if errors_Is err ErrTemporary then CategoryRobotsTemporary
                       else (let c = FailureCategory err
                             in if c = CategoryUnsupportedOrigin then CategoryTransport else c))
            in unavailable source cat 0))"

text \<open>What a successful response means (lines 239-285).\<close>

definition declarationResult ::
    "'w verify_env \<Rightarrow> ('w \<Rightarrow> go_error option) \<Rightarrow> origin \<Rightarrow> body \<Rightarrow> 'w \<Rightarrow>
     (go_error + verification_result) \<times> 'w" where
  "declarationResult env ctx_Err source b w =
     (let w = ve_reading env w
      in case readDeclarationBody b of
           Inl readError \<Rightarrow>
             (case ctx_Err w of
                Some contextError \<Rightarrow> (Inl contextError, w)
              | None \<Rightarrow>
                  if errors_Is readError errDeclarationBodyTooLarge
                  then (Inr (resultOf source OutcomeInvalid), w)
                  else (Inr (unavailable source CategoryTransport 0), w))
         | Inr data \<Rightarrow>
             (let parsed = Declaration.Parse (ve_unmarshal env) data
              in case pr_Status parsed of
                   ParseValid \<Rightarrow>
                     (Inr ((resultOf source OutcomeValid)\<lparr>vr_Declaration := pr_Declaration parsed\<rparr>), w)
                 | ParseUnsupportedVersion \<Rightarrow> (Inr (resultOf source OutcomeUnsupportedVersion), w)
                 | ParseInvalid \<Rightarrow> (Inr (resultOf source OutcomeInvalid), w)))"

text \<open>One iteration of the loop: the result, or the next URL.\<close>

definition verifyHop ::
    "'w verify_env \<Rightarrow> ('w \<Rightarrow> go_error option) \<Rightarrow> 'w getter \<Rightarrow> ('w \<Rightarrow> go_time) \<Rightarrow> origin \<Rightarrow>
     nat \<Rightarrow> url option \<Rightarrow> 'w \<Rightarrow> ((go_error + verification_result) + url option) \<times> 'w" where
  "verifyHop env ctx_Err getter clockNow source redirects current w =
     (case getter w current of
        (Inl err, w) \<Rightarrow>
          (case ctx_Err w of
             Some contextError \<Rightarrow> (Inl (Inl contextError), w)
           | None \<Rightarrow> (Inl (Inr (retrievalFailure source err)), w))
      | (Inr None, w) \<Rightarrow> (Inl (Inr (unavailable source CategoryTransport 0)), w)
      | (Inr (Some response), w) \<Rightarrow>
          (case r_Body response of
             None \<Rightarrow> (Inl (Inr (unavailable source CategoryTransport 0)), w)
           | Some b \<Rightarrow>
               (let status = r_StatusCode response
                in if isDeclarationRedirect status then
                     (if redirects \<ge> maxDeclarationRedirects
                      then (Inl (Inr (unavailable source CategoryUnsupportedOrigin 0)), w)
                      else (case declarationRedirectTarget (ve_lib env) current response source of
                              Inl redirectError \<Rightarrow>
                                if redirectError = nilDereference then (Inl (Inl nilDereference), w)
                                else if errors_Is redirectError errCrossOriginDeclarationRedirect
                                then (Inl (Inr (resultOf source OutcomeCrossOriginRedirect)), w)
                                else (Inl (Inr (unavailable source CategoryMalformedOrigin 0)), w)
                            | Inr next \<Rightarrow> (Inr (Some next), w)))
                   else if 200 \<le> status \<and> status \<le> 299 then
                     (case declarationResult env ctx_Err source b w of (r, w) \<Rightarrow> (Inl r, w))
                   else if status = 404 \<or> status = 410 then
                     (Inl (Inr (resultOf source OutcomeAbsent)), w)
                   else (case HTTPStatusCategory status of (cat, transient) \<Rightarrow>
                     (Inl (Inr (unavailable source
                        (if \<not> transient then CategoryUnsupportedOrigin else cat)
                        (ParseRetryAfter (ve_ParseTime env) (r_Header response ''Retry-After'')
                           (clockNow w)))), w)))))"

lemma verifyHop_limit:
  "verifyHop env ctx_Err getter clockNow source n u w = (Inr u', w') \<Longrightarrow> n < maxDeclarationRedirects"
  by (auto simp: verifyHop_def Let_def split: prod.splits sum.splits option.splits if_splits)

function verifyLoop ::
    "'w verify_env \<Rightarrow> ('w \<Rightarrow> go_error option) \<Rightarrow> 'w getter \<Rightarrow> ('w \<Rightarrow> go_time) \<Rightarrow> origin \<Rightarrow>
     nat \<Rightarrow> url option \<Rightarrow> 'w \<Rightarrow> (go_error + verification_result) \<times> 'w" where
  "verifyLoop env ctx_Err getter clockNow source redirects current w =
     (case verifyHop env ctx_Err getter clockNow source redirects current w of
        (Inl result, w) \<Rightarrow> (result, w)
      | (Inr next, w) \<Rightarrow> verifyLoop env ctx_Err getter clockNow source (Suc redirects) next w)"
  by pat_completeness auto
termination
  by (relation "measure (\<lambda>(env, ctx_Err, getter, clockNow, source, redirects, current, w).
                   maxDeclarationRedirects - redirects)")
    (auto dest!: verifyHop_limit [OF sym])

declare verifyLoop.simps [simp del]

definition declarationURL :: "host_lib \<Rightarrow> origin \<Rightarrow> url option" where
  "declarationURL lib source =
     (case url_Parse lib (origin_String source @ WellKnownPath) of Inl _ \<Rightarrow> None | Inr u \<Rightarrow> Some u)"

definition Verify ::
    "'w verify_env \<Rightarrow> 'w verifier option \<Rightarrow> 'w go_context \<Rightarrow> origin \<Rightarrow> 'w \<Rightarrow>
     (go_error + verification_result) \<times> 'w" where
  "Verify env v ctx source w =
     (case v of
        None \<Rightarrow> (Inl errVerifierUnavailable, w)
      | Some v \<Rightarrow>
          (case ctx of
             None \<Rightarrow> (Inl errInvalidDeclarationContext, w)
           | Some ctx_Err \<Rightarrow>
               (case ctx_Err w of
                  Some err \<Rightarrow> (Inl err, w)
                | None \<Rightarrow>
                    if origin_String source = [] then (Inl errInvalidDeclarationOrigin, w)
                    else (case v_getter v of
                            None \<Rightarrow> (Inl errDeclarationGetterUnavailable, w)
                          | Some getter \<Rightarrow>
                              (case v_clock v of
                                 None \<Rightarrow> (Inl errDeclarationClockUnavailable, w)
                               | Some clockNow \<Rightarrow>
                                   verifyLoop env ctx_Err getter clockNow source 0
                                     (declarationURL (ve_lib env) source) w)))))"

section \<open>The loop keeps the redirect contract\<close>

definition sameOrigin :: "host_lib \<Rightarrow> origin \<Rightarrow> url option \<Rightarrow> bool" where
  "sameOrigin lib source target =
     (case target of
        None \<Rightarrow> False
      | Some u \<Rightarrow> u_Fragment u = [] \<and> Origin.Parse lib (url_String lib u) = Inr source)"

lemma declarationRedirectTarget_same:
  "declarationRedirectTarget lib current response source = Inr u \<Longrightarrow> sameOrigin lib source (Some u)"
  by (auto simp: declarationRedirectTarget_def sameOrigin_def Let_def
      split: if_splits option.splits sum.splits)

lemma verifyHop_same:
  "verifyHop env ctx_Err getter clockNow source n u w = (Inr u', w') \<Longrightarrow> sameOrigin (ve_lib env) source u'"
  by (auto simp: verifyHop_def Let_def declarationRedirectTarget_same
      split: prod.splits sum.splits option.splits if_splits)

interpretation verify_loop:
  redirect_loop "verifyHop env ctx_Err getter clockNow source" "verifyLoop env ctx_Err getter clockNow source"
    maxDeclarationRedirects "\<lambda>u. u = first \<or> sameOrigin (ve_lib env) source u"
  for env ctx_Err getter clockNow source first
proof unfold_locales
  show "verifyLoop env ctx_Err getter clockNow source n u w =
    (case verifyHop env ctx_Err getter clockNow source n u w of
       (Inl r, w') \<Rightarrow> (r, w')
     | (Inr u', w') \<Rightarrow> verifyLoop env ctx_Err getter clockNow source (Suc n) u' w')" for n u w
    by (subst verifyLoop.simps) (rule refl)
qed (auto dest: verifyHop_limit verifyHop_same)

lemma verifyHop_log:
  assumes "\<And>w target. logOf (snd (getter w target)) = logOf w @ [target]"
    and "\<And>w. logOf (ve_reading env w) = logOf w"
    and "verifyHop env ctx_Err getter clockNow source n u w = (x, w')"
  shows "logOf w' = logOf w @ [u]"
proof -
  have res: "declarationResult env ctx_Err source b w = (r, w') \<Longrightarrow> logOf w' = logOf w" for b w r w'
    using assms(2) by (auto simp: declarationResult_def Let_def
        split: sum.splits option.splits if_splits parse_status.splits)
  obtain r0 w0 where g: "getter w u = (r0, w0)" by fastforce
  have "logOf w0 = logOf w @ [u]" using assms(1) [of w u] g by simp
  moreover have "logOf w' = logOf w0"
    using assms(3) g res unfolding verifyHop_def Let_def
    by (auto split: prod.splits sum.splits option.splits if_splits)
  ultimately show ?thesis by simp
qed

section \<open>Properties\<close>

definition liftEnv :: "'w verify_env \<Rightarrow> ('w \<times> url option list) verify_env" where
  "liftEnv env =
     \<lparr>ve_lib = ve_lib env, ve_unmarshal = ve_unmarshal env, ve_ParseTime = ve_ParseTime env,
      ve_reading = (\<lambda>(w, l). (ve_reading env w, l))\<rparr>"

text \<open>
  C35. Verification stays with the origin: for every getter, server behaviour and clock, at most six requests
  are made, the first for the origin's well-known path and each further one for a fragment-free URL of the
  very same origin.
\<close>
theorem Verify_same_origin_bounded:
  "case Verify (liftEnv env) (Some \<lparr>v_getter = Some (logged get), v_clock = clock\<rparr>) ctx source (w, []) of
     (_, (_, targets)) \<Rightarrow>
       length targets \<le> 6 \<and>
       list_all (\<lambda>u. u = declarationURL (ve_lib env) source \<or> sameOrigin (ve_lib env) source u) targets"
proof -
  let ?first = "declarationURL (ve_lib env) source"
  have log: "snd (snd (logged get wl target)) = snd wl @ [target]" for wl target
    by (simp add: logged_def split: prod.splits)
  have loop: "case verifyLoop (liftEnv env) ctx_Err (logged get) clockNow source 0 ?first (w, []) of
      (r, wl) \<Rightarrow> length (snd wl) \<le> Suc maxDeclarationRedirects \<and>
        list_all (\<lambda>u. u = ?first \<or> sameOrigin (ve_lib (liftEnv env)) source u) (snd wl)" for ctx_Err clockNow
  proof (rule verify_loop.loop_log)
    fix n u wl x wl'
    assume "verifyHop (liftEnv env) ctx_Err (logged get) clockNow source n u wl = (x, wl')"
    then show "snd wl' = snd wl @ [u]"
      by (rule verifyHop_log [where logOf = snd, OF log, rotated])
        (simp add: liftEnv_def split: prod.splits)
  qed simp_all
  have "verifyLoop (liftEnv env) ctx_Err (logged get) clockNow source 0 ?first (w, []) = (r, w', targets) \<Longrightarrow>
      length targets \<le> 6 \<and> list_all (\<lambda>u. u = ?first \<or> sameOrigin (ve_lib env) source u) targets"
    for ctx_Err clockNow r w' targets
    using loop [of ctx_Err clockNow] by (simp add: maxDeclarationRedirects_def liftEnv_def)
  moreover have "ve_lib (liftEnv env) = ve_lib env" by (simp add: liftEnv_def)
  ultimately show ?thesis
    by (auto simp: Verify_def split: option.splits prod.splits)
qed

end
