(* ===== verification/Store.thy ===== *)
theory Store
  imports Verifier
begin

text \<open>
  \<^verbatim>\<open>internal/store/store.go\<close>: recording verification observations and reading the state of an origin. A
  table is a map from its key to its row, the observations (with their ascending ids) a list in insertion
  order. A statement or transaction that the database rejects is an argument \<open>dbErr\<close>: with \<open>Some err\<close>
  nothing is changed and the wrapped error is returned.
\<close>

datatype effective_state = StateUnknown | StateVerified | StateNotVerified

definition errStoreUnavailable where "errStoreUnavailable = Sentinel ''store: unavailable''"
definition errPoolUnavailable where
  "errPoolUnavailable = Sentinel ''store: PostgreSQL pool is unavailable''"
definition errInvalidContext where "errInvalidContext = Sentinel ''store: context is nil''"
definition errInvalidOrigin where "errInvalidOrigin = Sentinel ''store: origin is invalid''"
definition errInvalidObservedAt where
  "errInvalidObservedAt = Sentinel ''store: observation time is invalid''"
definition errInvalidResult where "errInvalidResult = Sentinel ''store: verification result is invalid''"

record observation =
  obs_Outcome :: outcome
  obs_ObservedAt :: go_time
  obs_Declaration :: josh_declaration

record effective =
  eff_State :: effective_state
  eff_Observation :: observation

record origin_state =
  os_Origin :: origin
  os_FirstObservedAt :: go_time
  os_Latest :: observation
  os_Effective :: effective

section \<open>Texts\<close>

fun outcomeToText :: "outcome \<Rightarrow> string option" where
  "outcomeToText OutcomeValid = Some ''valid''"
| "outcomeToText OutcomeAbsent = Some ''absent''"
| "outcomeToText OutcomeInvalid = Some ''invalid''"
| "outcomeToText OutcomeUnsupportedVersion = Some ''unsupported_version''"
| "outcomeToText OutcomeUnavailable = Some ''unavailable''"
| "outcomeToText OutcomeRobotsDenied = Some ''robots_denied''"
| "outcomeToText OutcomeCrossOriginRedirect = Some ''cross_origin_redirect''"
| "outcomeToText (OutcomeOther _) = None"

text \<open>A text that is not in the source's map gives the zero value of the outcome.\<close>

definition outcomeFromText :: "string \<Rightarrow> outcome" where
  "outcomeFromText t =
     (if t = ''valid'' then OutcomeValid
      else if t = ''absent'' then OutcomeAbsent
      else if t = ''invalid'' then OutcomeInvalid
      else if t = ''unsupported_version'' then OutcomeUnsupportedVersion
      else if t = ''unavailable'' then OutcomeUnavailable
      else if t = ''robots_denied'' then OutcomeRobotsDenied
      else if t = ''cross_origin_redirect'' then OutcomeCrossOriginRedirect
      else OutcomeInvalid)"

fun identityToText :: "identity \<Rightarrow> string" where
  "identityToText IdentityUndeclared = ''undeclared''"
| "identityToText IdentityAffirmed = ''affirmed''"
| "identityToText IdentityDeclined = ''declined''"
| "identityToText (IdentityOther _) = ''''"

definition identityFromText :: "string \<Rightarrow> identity" where
  "identityFromText t =
     (if t = ''affirmed'' then IdentityAffirmed
      else if t = ''declined'' then IdentityDeclined else IdentityUndeclared)"

definition outcomeText :: "outcome \<Rightarrow> string" where
  "outcomeText oc = (case outcomeToText oc of None \<Rightarrow> '''' | Some t \<Rightarrow> t)"

section \<open>Results\<close>

definition validIdentity :: "identity \<Rightarrow> bool" where
  "validIdentity i \<longleftrightarrow> i \<in> {IdentityUndeclared, IdentityAffirmed, IdentityDeclined}"

definition validVerificationResult :: "verification_result \<Rightarrow> bool" where
  "validVerificationResult r =
     (if outcomeToText (vr_Outcome r) = None then False
      else if vr_Outcome r = OutcomeValid then
        Version (vr_Declaration r) = 1 \<and> validIdentity (Identity (vr_Declaration r)) \<and>
        vr_FailureCategory r = '''' \<and> vr_RetryAfter r = 0
      else if vr_Declaration r \<noteq> declaration_zero then False
      else if vr_Outcome r \<noteq> OutcomeUnavailable then vr_FailureCategory r = '''' \<and> vr_RetryAfter r = 0
      else category_Valid (vr_FailureCategory r) \<and> vr_RetryAfter r \<ge> 0 \<and> vr_RetryAfter r \<le> MaxDelay)"

definition storedDeclarationValues :: "verification_result \<Rightarrow> int option \<times> string option" where
  "storedDeclarationValues r =
     (if vr_Outcome r \<noteq> OutcomeValid then (None, None)
      else (Some (Version (vr_Declaration r)), Some (identityToText (Identity (vr_Declaration r)))))"

definition shouldReprobeOutcome :: "outcome \<Rightarrow> bool" where
  "shouldReprobeOutcome oc \<longleftrightarrow>
     oc \<in> {OutcomeAbsent, OutcomeInvalid, OutcomeUnsupportedVersion, OutcomeRobotsDenied,
           OutcomeCrossOriginRedirect}"

section \<open>Tables\<close>

record origin_row =
  or_first_observed_at :: go_time
  or_first_participated_at :: "go_time option"
  or_initial_version :: "int option"
  or_initial_identity :: "string option"
  or_latest_check_at :: "go_time option"
  or_latest_check_outcome :: "string option"

record observation_row =
  ob_origin :: string
  ob_observed_at :: go_time
  ob_outcome :: string
  ob_version :: "int option"
  ob_identity :: "string option"

record store_db =
  db_origins :: "string \<Rightarrow> origin_row option"
  db_reprobe :: "string \<Rightarrow> int option"
  db_observations :: "observation_row list"

text \<open>The row that the insert into \<^verbatim>\<open>origins\<close> offers, and its merge with an existing row.\<close>

definition excludedOrigin :: "observation_row \<Rightarrow> origin_row" where
  "excludedOrigin ob =
     (let valid = (ob_outcome ob = ''valid'')
      in \<lparr>or_first_observed_at = ob_observed_at ob,
          or_first_participated_at = (if valid then Some (ob_observed_at ob) else None),
          or_initial_version = (if valid then ob_version ob else None),
          or_initial_identity = (if valid then ob_identity ob else None),
          or_latest_check_at = Some (ob_observed_at ob),
          or_latest_check_outcome = Some (ob_outcome ob)\<rparr>)"

definition mergeOrigin :: "origin_row \<Rightarrow> origin_row \<Rightarrow> origin_row" where
  "mergeOrigin old excluded =
     (let earlier = (case or_first_participated_at excluded of
                       None \<Rightarrow> False
                     | Some t \<Rightarrow> (case or_first_participated_at old of None \<Rightarrow> True | Some t' \<Rightarrow> t < t'));
          newer = (case or_latest_check_at old of
                     None \<Rightarrow> True
                   | Some t' \<Rightarrow> (case or_latest_check_at excluded of None \<Rightarrow> False | Some t \<Rightarrow> t \<ge> t'))
      in \<lparr>or_first_observed_at = min (or_first_observed_at old) (or_first_observed_at excluded),
          or_first_participated_at =
            (if earlier then or_first_participated_at excluded else or_first_participated_at old),
          or_initial_version = (if earlier then or_initial_version excluded else or_initial_version old),
          or_initial_identity = (if earlier then or_initial_identity excluded else or_initial_identity old),
          or_latest_check_at = (if newer then or_latest_check_at excluded else or_latest_check_at old),
          or_latest_check_outcome =
            (if newer then or_latest_check_outcome excluded else or_latest_check_outcome old)\<rparr>)"

definition upsertOrigin :: "observation_row \<Rightarrow> origin_row option \<Rightarrow> origin_row" where
  "upsertOrigin ob row =
     (case row of None \<Rightarrow> excludedOrigin ob | Some old \<Rightarrow> mergeOrigin old (excludedOrigin ob))"

definition upsertReprobe :: "bool \<Rightarrow> int option \<Rightarrow> int" where
  "upsertReprobe reprobeMiss row =
     (let miss = (if reprobeMiss then 1 else 0) in case row of None \<Rightarrow> miss | Some n \<Rightarrow> n + miss)"

definition recordObservation :: "observation_row \<Rightarrow> bool \<Rightarrow> store_db \<Rightarrow> store_db" where
  "recordObservation ob reprobeMiss db =
     db\<lparr>db_origins := (db_origins db)(ob_origin ob \<mapsto> upsertOrigin ob (db_origins db (ob_origin ob))),
        db_reprobe := (db_reprobe db)(ob_origin ob \<mapsto> upsertReprobe reprobeMiss (db_reprobe db (ob_origin ob))),
        db_observations := db_observations db @ [ob]\<rparr>"

section \<open>Operations\<close>

text \<open>A context is nil or has an error or none; a store or pool is there or nil.\<close>

type_synonym ctx_value = "go_error option option"

definition store_validate :: "bool \<Rightarrow> ctx_value \<Rightarrow> bool \<Rightarrow> go_error option" where
  "store_validate present ctx pool =
     (if \<not> present then Some errStoreUnavailable
      else (case ctx of
              None \<Rightarrow> Some errInvalidContext
            | Some (Some err) \<Rightarrow> Some err
            | Some None \<Rightarrow> if \<not> pool then Some errPoolUnavailable else None))"

definition observationOf :: "go_time \<Rightarrow> verification_result \<Rightarrow> observation_row" where
  "observationOf observedAt result =
     (case storedDeclarationValues result of (version, identity) \<Rightarrow>
        \<lparr>ob_origin = origin_String (vr_Origin result), ob_observed_at = observedAt,
         ob_outcome = outcomeText (vr_Outcome result), ob_version = version, ob_identity = identity\<rparr>)"

definition RecordVerification ::
    "bool \<Rightarrow> ctx_value \<Rightarrow> bool \<Rightarrow> go_error option \<Rightarrow> go_time \<Rightarrow> verification_result \<Rightarrow> store_db \<Rightarrow>
     go_error option \<times> store_db" where
  "RecordVerification present ctx pool dbErr observedAt result db =
     (case store_validate present ctx pool of
        Some err \<Rightarrow> (Some err, db)
      | None \<Rightarrow>
          if origin_String (vr_Origin result) = [] then (Some errInvalidOrigin, db)
          else if observedAt = 0 then (Some errInvalidObservedAt, db)
          else if \<not> validVerificationResult result then (Some errInvalidResult, db)
          else (case dbErr of
                  Some err \<Rightarrow> (Some (Wrap ''store: record verification'' [err]), db)
                | None \<Rightarrow>
                    (None, recordObservation (observationOf observedAt result)
                             (shouldReprobeOutcome (vr_Outcome result)) db)))"

text \<open>The first row by \<^verbatim>\<open>observed_at DESC, id DESC\<close>.\<close>

definition latestObservation :: "observation_row list \<Rightarrow> observation_row option" where
  "latestObservation rows =
     foldl (\<lambda>best r. case best of
              None \<Rightarrow> Some r
            | Some b \<Rightarrow> if ob_observed_at r \<ge> ob_observed_at b then Some r else best) None rows"

definition authoritativeText :: "string \<Rightarrow> bool" where
  "authoritativeText t \<longleftrightarrow>
     t \<in> {''valid'', ''absent'', ''invalid'', ''unsupported_version'', ''cross_origin_redirect''}"

definition observationFromStored :: "observation_row \<Rightarrow> observation" where
  "observationFromStored row =
     \<lparr>obs_Outcome = outcomeFromText (ob_outcome row), obs_ObservedAt = ob_observed_at row,
      obs_Declaration =
        \<lparr>Version = (case ob_version row of None \<Rightarrow> 0 | Some v \<Rightarrow> v),
         Identity = (case ob_identity row of None \<Rightarrow> IdentityUndeclared | Some t \<Rightarrow> identityFromText t)\<rparr>\<rparr>"

definition effectiveStateForOutcome :: "outcome \<Rightarrow> effective_state" where
  "effectiveStateForOutcome oc = (if oc = OutcomeValid then StateVerified else StateNotVerified)"

definition observation_zero :: observation where
  "observation_zero =
     \<lparr>obs_Outcome = OutcomeInvalid, obs_ObservedAt = 0, obs_Declaration = declaration_zero\<rparr>"

definition effectiveOf :: "observation_row list \<Rightarrow> effective" where
  "effectiveOf rows =
     (case latestObservation (filter (\<lambda>r. authoritativeText (ob_outcome r)) rows) of
        None \<Rightarrow> \<lparr>eff_State = StateUnknown, eff_Observation = observation_zero\<rparr>
      | Some row \<Rightarrow>
          \<lparr>eff_State = effectiveStateForOutcome (outcomeFromText (ob_outcome row)),
           eff_Observation = observationFromStored row\<rparr>)"

definition OriginState ::
    "bool \<Rightarrow> ctx_value \<Rightarrow> bool \<Rightarrow> go_error option \<Rightarrow> origin \<Rightarrow> store_db \<Rightarrow> go_error + origin_state option" where
  "OriginState present ctx pool dbErr source db =
     (case store_validate present ctx pool of
        Some err \<Rightarrow> Inl err
      | None \<Rightarrow>
          if origin_String source = [] then Inl errInvalidOrigin
          else (case dbErr of
                  Some err \<Rightarrow> Inl (Wrap ''store: query origin state'' [err])
                | None \<Rightarrow>
                    (let rows = filter (\<lambda>r. ob_origin r = origin_String source) (db_observations db)
                     in case (db_origins db (origin_String source), latestObservation rows) of
                          (Some row, Some latest) \<Rightarrow>
                            Inr (Some \<lparr>os_Origin = source, os_FirstObservedAt = or_first_observed_at row,
                                       os_Latest = observationFromStored latest,
                                       os_Effective = effectiveOf rows\<rparr>)
                        | _ \<Rightarrow> Inr None)))"

section \<open>Results of a verification can be stored\<close>

lemma validVerificationResult_resultOf:
  "oc \<notin> {OutcomeValid, OutcomeUnavailable} \<Longrightarrow> outcomeToText oc \<noteq> None \<Longrightarrow>
   validVerificationResult (resultOf source oc)"
  by (cases oc) (simp_all add: validVerificationResult_def resultOf_def)

lemma validVerificationResult_unavailable:
  "category_Valid cat \<Longrightarrow> 0 \<le> d \<Longrightarrow> d \<le> MaxDelay \<Longrightarrow> validVerificationResult (unavailable source cat d)"
  by (simp add: validVerificationResult_def unavailable_def resultOf_def)

lemma MaxDelay_nonneg: "0 \<le> MaxDelay"
  by (simp add: MaxDelay_def duration_units)

lemma FailureCategory_valid: "category_Valid (FailureCategory err)"
  by (simp add: FailureCategory_def category_Valid_def)

lemma HTTPStatusCategory_valid: "HTTPStatusCategory status = (cat, True) \<Longrightarrow> category_Valid cat"
  by (auto simp: HTTPStatusCategory_def category_Valid_def split: if_splits)

lemma retrievalFailure_valid:
  "validVerificationResult (retrievalFailure source err) \<and> vr_Origin (retrievalFailure source err) = source"
proof -
  have "category_Valid CategoryRobotsTemporary" "category_Valid CategoryTransport"
    by (simp_all add: category_Valid_def)
  then show ?thesis
    using FailureCategory_valid [of err] MaxDelay_nonneg
    by (auto simp: retrievalFailure_def Let_def validVerificationResult_resultOf
        intro!: validVerificationResult_unavailable) (simp_all add: resultOf_def unavailable_def)
qed

lemma Parse_valid_declaration:
  "pr_Status (Declaration.Parse unmarshal data) = ParseValid \<Longrightarrow>
   Version (pr_Declaration (Declaration.Parse unmarshal data)) = 1 \<and>
   validIdentity (Identity (pr_Declaration (Declaration.Parse unmarshal data)))"
  by (auto simp: Declaration.Parse_def parseFailure_def validIdentity_def Let_def
      split: option.splits if_splits)

abbreviation storable :: "origin \<Rightarrow> go_error + verification_result \<Rightarrow> bool" where
  "storable source r \<equiv>
     (case r of Inl _ \<Rightarrow> True | Inr res \<Rightarrow> validVerificationResult res \<and> vr_Origin res = source)"

lemma unavailable_storable:
  "category_Valid cat \<Longrightarrow> 0 \<le> d \<Longrightarrow> d \<le> MaxDelay \<Longrightarrow> storable source (Inr (unavailable source cat d))"
  by (simp add: validVerificationResult_unavailable) (simp add: unavailable_def resultOf_def)

lemma resultOf_storable:
  "oc \<notin> {OutcomeValid, OutcomeUnavailable} \<Longrightarrow> outcomeToText oc \<noteq> None \<Longrightarrow>
   storable source (Inr (resultOf source oc))"
  using validVerificationResult_resultOf by (auto simp: resultOf_def)

lemma declarationResult_storable:
  "declarationResult env ctx_Err source b w = (r, w') \<Longrightarrow> storable source r"
proof -
  have "storable source (Inr (unavailable source CategoryTransport 0))"
    by (rule unavailable_storable) (simp_all add: category_Valid_def MaxDelay_nonneg)
  moreover have "storable source (Inr (resultOf source OutcomeInvalid))"
    "storable source (Inr (resultOf source OutcomeUnsupportedVersion))"
    by (simp_all add: resultOf_storable del: sum.case)
  moreover have "storable source (Inr ((resultOf source OutcomeValid)\<lparr>vr_Declaration := pr_Declaration p\<rparr>))"
    if "p = Declaration.Parse (ve_unmarshal env) data" "pr_Status p = ParseValid" for p data
    using Parse_valid_declaration [of "ve_unmarshal env" data] that
    by (simp add: validVerificationResult_def resultOf_def)
  note ok = calculation this
  assume res: "declarationResult env ctx_Err source b w = (r, w')"
  show "storable source r"
  proof (cases "readDeclarationBody b")
    case (Inl e)
    with res ok(1,2) show ?thesis
      by (auto simp: declarationResult_def Let_def split: option.splits if_splits)
  next
    case (Inr data)
    with res ok show ?thesis
      by (cases "pr_Status (Declaration.Parse (ve_unmarshal env) data)")
        (auto simp: declarationResult_def Let_def)
  qed
qed

lemma verifyHop_storable:
  assumes "verifyHop env ctx_Err getter clockNow source n u w = (Inl r, w')"
  shows "storable source r"
proof -
  have un: "storable source (Inr (unavailable source cat 0))"
    if "cat \<in> {CategoryTransport, CategoryUnsupportedOrigin, CategoryMalformedOrigin}" for cat
    by (rule unavailable_storable) (use that in \<open>auto simp: category_Valid_def MaxDelay_nonneg\<close>)
  have status: "storable source (Inr (unavailable source (if \<not> transient then CategoryUnsupportedOrigin else cat)
      (ParseRetryAfter pt header now)))"
    if "HTTPStatusCategory st = (cat, transient)" for st cat transient pt header now
  proof (rule unavailable_storable)
    show "category_Valid (if \<not> transient then CategoryUnsupportedOrigin else cat)"
      using HTTPStatusCategory_valid [of st cat] that by (cases transient) (auto simp: category_Valid_def)
  qed (use ParseRetryAfter_bounds [of pt header now] in auto)
  have rf: "storable source (Inr (retrievalFailure source e))" for e
    using retrievalFailure_valid [of source e] by simp
  have of: "storable source (Inr (resultOf source OutcomeAbsent))"
      "storable source (Inr (resultOf source OutcomeCrossOriginRedirect))"
    by (simp_all add: resultOf_storable del: sum.case)
  obtain r0 w0 where g: "getter w u = (r0, w0)" by fastforce
  consider (err) e where "r0 = Inl e" | (nil) "r0 = Inr None"
    | (nobody) resp where "r0 = Inr (Some resp)" "r_Body resp = None"
    | (resp) resp b where "r0 = Inr (Some resp)" "r_Body resp = Some b"
    by (metis option.exhaust sum.exhaust)
  then show ?thesis
  proof cases
    case err
    with assms g rf show ?thesis by (auto simp: verifyHop_def split: option.splits)
  next
    case (resp rs b)
    obtain r1 w1 where d: "declarationResult env ctx_Err source b w0 = (r1, w1)" by fastforce
    obtain cat transient where c: "HTTPStatusCategory (r_StatusCode rs) = (cat, transient)" by fastforce
    from assms g resp d c show ?thesis
      using un [of CategoryUnsupportedOrigin] un [of CategoryMalformedOrigin] of status [OF c] declarationResult_storable [OF d]
      by (auto simp: verifyHop_def Let_def split: if_splits sum.splits)
  qed (use assms g un [of CategoryTransport] in \<open>auto simp: verifyHop_def\<close>)
qed

lemma verifyLoop_storable: "storable source (fst (verifyLoop env ctx_Err getter clockNow source n u w))"
proof -
  have "case verifyLoop env ctx_Err getter clockNow source n u w of (r, w') \<Rightarrow> storable source r"
    by (rule verify_loop.loop_rule [where I = "\<lambda>_ _ _. True"]) (auto dest: verifyHop_storable)
  then show ?thesis by (simp split: prod.splits)
qed

lemma Verify_storable_aux: "storable source (fst (Verify env v ctx source w))"
  using verifyLoop_storable by (auto simp: Verify_def split: option.splits)

section \<open>The origins table summarizes the observations\<close>

definition earliestValid :: "observation_row list \<Rightarrow> observation_row option" where
  "earliestValid rows =
     foldl (\<lambda>best r. case best of
              None \<Rightarrow> Some r
            | Some b \<Rightarrow> if ob_observed_at r < ob_observed_at b then Some r else best) None
       (filter (\<lambda>r. ob_outcome r = ''valid'') rows)"

definition originSummary :: "observation_row list \<Rightarrow> origin_row" where
  "originSummary rows =
     \<lparr>or_first_observed_at = Min (ob_observed_at ` set rows),
      or_first_participated_at = map_option ob_observed_at (earliestValid rows),
      or_initial_version = Option.bind (earliestValid rows) ob_version,
      or_initial_identity = Option.bind (earliestValid rows) ob_identity,
      or_latest_check_at = map_option ob_observed_at (latestObservation rows),
      or_latest_check_outcome = map_option ob_outcome (latestObservation rows)\<rparr>"

definition observationsOf :: "store_db \<Rightarrow> string \<Rightarrow> observation_row list" where
  "observationsOf db o1 = filter (\<lambda>r. ob_origin r = o1) (db_observations db)"

definition summarized :: "store_db \<Rightarrow> bool" where
  "summarized db \<longleftrightarrow>
     (\<forall>o1. db_origins db o1 =
        (if observationsOf db o1 = [] then None else Some (originSummary (observationsOf db o1))))"

lemma latestObservation_append:
  "latestObservation (rows @ [ob]) =
     (case latestObservation rows of
        None \<Rightarrow> Some ob
      | Some b \<Rightarrow> if ob_observed_at ob \<ge> ob_observed_at b then Some ob else Some b)"
  by (simp add: latestObservation_def split: option.splits)

lemma latestObservation_None: "latestObservation rows = None \<longleftrightarrow> rows = []"
  by (induction rows rule: rev_induct)
    (auto simp: latestObservation_append split: option.splits, simp add: latestObservation_def)

lemma latestObservation_max:
  "latestObservation rows = Some b \<Longrightarrow> b \<in> set rows \<and> (\<forall>r \<in> set rows. ob_observed_at r \<le> ob_observed_at b)"
proof (induction rows arbitrary: b rule: rev_induct)
  case (snoc ob rows)
  show ?case
  proof (cases "latestObservation rows")
    case None
    then have "rows = []" by (simp add: latestObservation_None)
    with None snoc.prems show ?thesis by (simp add: latestObservation_def)
  next
    case (Some b')
    with snoc.IH [of b'] snoc.prems show ?thesis
      by (fastforce simp: latestObservation_append split: if_splits)
  qed
qed (simp add: latestObservation_def)

lemma earliestValid_append:
  "earliestValid (rows @ [ob]) =
     (if ob_outcome ob \<noteq> ''valid'' then earliestValid rows
      else (case earliestValid rows of
              None \<Rightarrow> Some ob
            | Some b \<Rightarrow> if ob_observed_at ob < ob_observed_at b then Some ob else Some b))"
  by (simp add: earliestValid_def split: option.splits)

lemma earliestValid_None: "earliestValid rows = None \<longleftrightarrow> (\<forall>r \<in> set rows. ob_outcome r \<noteq> ''valid'')"
  by (induction rows rule: rev_induct)
    (auto simp: earliestValid_append split: option.splits if_splits, simp add: earliestValid_def)

lemma earliestValid_min:
  "earliestValid rows = Some b \<Longrightarrow>
   b \<in> set rows \<and> ob_outcome b = ''valid'' \<and>
   (\<forall>r \<in> set rows. ob_outcome r = ''valid'' \<longrightarrow> ob_observed_at b \<le> ob_observed_at r)"
proof (induction rows arbitrary: b rule: rev_induct)
  case (snoc ob rows)
  show ?case
  proof (cases "earliestValid rows")
    case None
    then have "\<forall>r \<in> set rows. ob_outcome r \<noteq> ''valid''" by (simp add: earliestValid_None)
    with None snoc.prems show ?thesis by (auto simp: earliestValid_append split: if_splits)
  next
    case (Some b')
    with snoc.IH [of b'] snoc.prems show ?thesis
      by (fastforce simp: earliestValid_append split: if_splits)
  qed
qed (simp add: earliestValid_def)

lemma originSummary_single: "originSummary [ob] = excludedOrigin ob"
  by (simp add: originSummary_def excludedOrigin_def earliestValid_def latestObservation_def Let_def)

lemma originSummary_append:
  assumes "rows \<noteq> []"
  shows "originSummary (rows @ [ob]) = mergeOrigin (originSummary rows) (excludedOrigin ob)"
proof -
  obtain b where b: "latestObservation rows = Some b"
    using assms latestObservation_None by fastforce
  have "Min (ob_observed_at ` set (rows @ [ob])) = min (Min (ob_observed_at ` set rows)) (ob_observed_at ob)"
    using assms by (simp add: min.commute)
  then show ?thesis
    using b by (cases "earliestValid rows"; cases "ob_outcome ob = ''valid''")
      (auto simp: originSummary_def mergeOrigin_def excludedOrigin_def Let_def latestObservation_append
        earliestValid_append)
qed

lemma recordObservation_summarized:
  assumes "summarized db"
  shows "summarized (recordObservation ob miss db)"
  unfolding summarized_def
proof
  fix o1
  let ?db = "recordObservation ob miss db"
  show "db_origins ?db o1 =
      (if observationsOf ?db o1 = [] then None else Some (originSummary (observationsOf ?db o1)))"
  proof (cases "o1 = ob_origin ob")
    case False
    then have "observationsOf ?db o1 = observationsOf db o1" "db_origins ?db o1 = db_origins db o1"
      by (simp_all add: observationsOf_def recordObservation_def)
    with assms show ?thesis by (simp add: summarized_def)
  next
    case True
    then have rows: "observationsOf ?db o1 = observationsOf db o1 @ [ob]"
      by (simp add: observationsOf_def recordObservation_def)
    have "db_origins ?db o1 = Some (upsertOrigin ob (db_origins db o1))"
      using True by (simp add: recordObservation_def)
    with rows assms show ?thesis
      by (cases "observationsOf db o1 = []")
        (auto simp: summarized_def upsertOrigin_def originSummary_single originSummary_append)
  qed
qed

lemma outcome_text_inverse: "outcomeToText oc \<noteq> None \<Longrightarrow> outcomeFromText (outcomeText oc) = oc"
  by (cases oc) (simp_all add: outcomeFromText_def outcomeText_def)

lemma identity_text_inverse: "validIdentity i \<Longrightarrow> identityFromText (identityToText i) = i"
  by (auto simp: validIdentity_def identityFromText_def)

lemma observation_roundtrip:
  "validVerificationResult r \<Longrightarrow>
   observationFromStored (observationOf t r) =
     \<lparr>obs_Outcome = vr_Outcome r, obs_ObservedAt = t, obs_Declaration = vr_Declaration r\<rparr>"
  by (auto simp: observationFromStored_def observationOf_def storedDeclarationValues_def
      validVerificationResult_def outcome_text_inverse identity_text_inverse declaration_zero_def
      intro: josh_declaration.equality split: if_splits)

section \<open>Properties\<close>

definition emptyStore :: store_db where
  "emptyStore = \<lparr>db_origins = (\<lambda>_. None), db_reprobe = (\<lambda>_. None), db_observations = []\<rparr>"

definition exampleResult :: verification_result where
  "exampleResult =
     (resultOf exampleOrigin OutcomeValid)\<lparr>vr_Declaration := \<lparr>Version = 1, Identity = IdentityAffirmed\<rparr>\<rparr>"

lemma exampleResult_valid: "validVerificationResult exampleResult"
  by (simp add: validVerificationResult_def exampleResult_def resultOf_def validIdentity_def)

text \<open>
  Whatever a verification meets, its result can be stored: every result of \<^verbatim>\<open>Verify\<close>, for every getter,
  server behaviour and clock, names the verified origin and passes the validation of the store (a valid
  outcome carries a version 1 declaration, only an unavailable one a category and a delay within bounds).
\<close>
theorem Verify_result_storable:
  "case fst (Verify env v ctx source w) of
     Inl _ \<Rightarrow> True | Inr res \<Rightarrow> validVerificationResult res \<and> vr_Origin res = source"
  by (rule Verify_storable_aux)

text \<open>
  C12. The origins table is the summary of the observations: recording keeps, for every origin, the earliest
  observation time, the first participation (time, version and identity of the earliest valid observation)
  and the time and outcome of the latest check, whatever the order in which observations arrive; and the
  summary is what it says: no valid observation is earlier, no observation is later.
\<close>
theorem RecordVerification_summarizes:
  assumes "summarized db"
  shows "summarized (snd (RecordVerification present ctx pool dbErr observedAt result db)) \<and>
    (case earliestValid rows of
       None \<Rightarrow> list_all (\<lambda>r. ob_outcome r \<noteq> ''valid'') rows
     | Some b \<Rightarrow> b \<in> set rows \<and> ob_outcome b = ''valid'' \<and>
         list_all (\<lambda>r. ob_outcome r \<noteq> ''valid'' \<or> ob_observed_at b \<le> ob_observed_at r) rows) \<and>
    (case latestObservation rows of
       None \<Rightarrow> rows = []
     | Some b \<Rightarrow> b \<in> set rows \<and> list_all (\<lambda>r. ob_observed_at r \<le> ob_observed_at b) rows)"
  using recordObservation_summarized [OF assms] assms earliestValid_min [of rows]
    latestObservation_max [of rows]
  by (auto simp: RecordVerification_def list_all_iff earliestValid_None latestObservation_None
      split: option.splits)

theorem RecordVerification_summarizes_witness:
  "summarized (snd (RecordVerification True (Some None) True None 5 exampleResult emptyStore))"
proof -
  have "summarized emptyStore" by (simp add: summarized_def emptyStore_def observationsOf_def)
  from RecordVerification_summarizes [OF this] show ?thesis by blast
qed

text \<open>
  What is recorded is read back: after a recording that is not older than the origin's observations, the
  state of the origin has the recorded outcome, time and declaration as its latest observation, and as its
  effective one exactly when the outcome is authoritative; an unavailable or robots-denied result leaves the
  effective state as it was.
\<close>
theorem record_then_OriginState:
  assumes "validVerificationResult result" and "origin_String (vr_Origin result) \<noteq> []" and "observedAt \<noteq> 0"
    and "\<forall>r \<in> set (observationsOf db (origin_String (vr_Origin result))). ob_observed_at r \<le> observedAt"
    and "RecordVerification True (Some None) True None observedAt result db = (None, db')"
  shows "\<exists>st. OriginState True (Some None) True None (vr_Origin result) db' = Inr (Some st) \<and>
    os_Latest st = \<lparr>obs_Outcome = vr_Outcome result, obs_ObservedAt = observedAt,
                    obs_Declaration = vr_Declaration result\<rparr> \<and>
    os_Effective st =
      (if vr_Outcome result \<in> {OutcomeUnavailable, OutcomeRobotsDenied}
       then effectiveOf (observationsOf db (origin_String (vr_Origin result)))
       else \<lparr>eff_State = effectiveStateForOutcome (vr_Outcome result), eff_Observation = os_Latest st\<rparr>)"
proof -
  let ?o = "origin_String (vr_Origin result)"
  let ?ob = "observationOf observedAt result"
  have ob: "ob_origin ?ob = ?o" "ob_observed_at ?ob = observedAt" "ob_outcome ?ob = outcomeText (vr_Outcome result)"
    by (simp_all add: observationOf_def split: prod.splits)
  have db': "db' = recordObservation ?ob (shouldReprobeOutcome (vr_Outcome result)) db"
    using assms by (simp add: RecordVerification_def store_validate_def)
  have rows: "observationsOf db' ?o = observationsOf db ?o @ [?ob]"
    by (simp add: db' observationsOf_def recordObservation_def ob)
  have newest: "latestObservation (rs @ [?ob]) = Some ?ob" if "set rs \<subseteq> set (observationsOf db ?o)" for rs
    using that assms(4) latestObservation_max [of rs]
    by (auto simp: latestObservation_append ob split: option.splits)
  have known: "outcomeToText (vr_Outcome result) \<noteq> None"
    using assms(1) by (auto simp: validVerificationResult_def split: if_splits)
  have fromText: "outcomeFromText (ob_outcome ?ob) = vr_Outcome result"
    using outcome_text_inverse [OF known] by (simp add: ob)
  have auth: "authoritativeText (ob_outcome ?ob) \<longleftrightarrow> vr_Outcome result \<notin> {OutcomeUnavailable, OutcomeRobotsDenied}"
    using known by (cases "vr_Outcome result") (simp_all add: ob outcomeText_def authoritativeText_def)
  have eff: "effectiveOf (observationsOf db' ?o) =
      (if authoritativeText (ob_outcome ?ob)
       then \<lparr>eff_State = effectiveStateForOutcome (vr_Outcome result), eff_Observation = observationFromStored ?ob\<rparr>
       else effectiveOf (observationsOf db ?o))"
    using newest [of "filter (\<lambda>r. authoritativeText (ob_outcome r)) (observationsOf db ?o)"] fromText
    by (auto simp: effectiveOf_def rows)
  have orow: "db_origins db' ?o = Some (upsertOrigin ?ob (db_origins db ?o))"
    by (simp add: db' recordObservation_def ob)
  have latest: "latestObservation (observationsOf db' ?o) = Some ?ob"
    using newest [of "observationsOf db ?o"] rows by simp
  have "OriginState True (Some None) True None (vr_Origin result) db' =
      Inr (Some \<lparr>os_Origin = vr_Origin result,
                 os_FirstObservedAt = or_first_observed_at (upsertOrigin ?ob (db_origins db ?o)),
                 os_Latest = observationFromStored ?ob,
                 os_Effective = effectiveOf (observationsOf db' ?o)\<rparr>)"
    unfolding OriginState_def observationsOf_def [symmetric] store_validate_def Let_def
    using assms(2) orow latest by simp
  then show ?thesis
    using eff auth observation_roundtrip [OF assms(1), of observedAt] by auto
qed

theorem record_then_OriginState_witness:
  "\<exists>st. OriginState True (Some None) True None (vr_Origin exampleResult)
      (snd (RecordVerification True (Some None) True None 5 exampleResult emptyStore)) = Inr (Some st) \<and>
    eff_State (os_Effective st) = StateVerified"
proof -
  let ?db = "snd (RecordVerification True (Some None) True None 5 exampleResult emptyStore)"
  have o: "origin_String (vr_Origin exampleResult) \<noteq> []"
    by (simp add: exampleResult_def resultOf_def origin_String_def exampleOrigin_def)
  have r: "RecordVerification True (Some None) True None 5 exampleResult emptyStore = (None, ?db)"
    using exampleResult_valid o by (simp add: RecordVerification_def store_validate_def)
  have "\<forall>r \<in> set (observationsOf emptyStore (origin_String (vr_Origin exampleResult))). ob_observed_at r \<le> 5"
    by (simp add: observationsOf_def emptyStore_def)
  from record_then_OriginState [OF exampleResult_valid o _ this r]
  show ?thesis by (auto simp: exampleResult_def resultOf_def effectiveStateForOutcome_def)
qed

end
