(* ===== verification/Queue.thy ===== *)
theory Queue
  imports Store
begin

text \<open>
  The verification queue, \<^verbatim>\<open>internal/store/queue.go\<close> and \<^verbatim>\<open>queue_abandon.go\<close>. Each method runs one statement
  or one transaction, so it is one step on the tables it reads and writes (\<open>queue_db\<close>): the arguments
  \<open>clock\<close> and \<open>dbErr\<close> are what the database's clock and the database itself answer, and \<open>locked\<close> are the
  rows other transactions hold, which \<^verbatim>\<open>FOR UPDATE SKIP LOCKED\<close> passes over. The data-modifying parts of the
  completion statement are definitions of their own. Times are exact: the microsecond rounding of
  \<^verbatim>\<open>timestamptz\<close> is left out; texts are compared byte by byte.
\<close>

definition maxQueueWorkerIDLength :: nat where "maxQueueWorkerIDLength = 128"
definition defaultFirstReprobeInterval :: duration where "defaultFirstReprobeInterval = 12 * hour"
definition maxReprobeInterval :: duration where "maxReprobeInterval = 7 * 24 * hour"
definition transientRetryBackoffSteps :: int where "transientRetryBackoffSteps = 5"
definition staleParticipantRecheckInterval :: duration where
  "staleParticipantRecheckInterval = 7 * 24 * hour"

definition ErrLeaseLost where "ErrLeaseLost = Sentinel ''store: queue lease lost''"
definition errQueueUnavailable where "errQueueUnavailable = Sentinel ''store: queue is unavailable''"
definition errQueueClockUnavailable where
  "errQueueClockUnavailable = Sentinel ''store: queue clock is unavailable''"
definition errInvalidQueueConfig where
  "errInvalidQueueConfig = Sentinel ''store: queue configuration is invalid''"
definition errInvalidWorkerID where "errInvalidWorkerID = Sentinel ''store: queue worker ID is invalid''"
definition errInvalidAvailableAt where
  "errInvalidAvailableAt = Sentinel ''store: queue availability time is invalid''"
definition errInvalidLease where "errInvalidLease = Sentinel ''store: queue lease is invalid''"
definition errInvalidRecheckAfter where
  "errInvalidRecheckAfter = Sentinel ''store: recheck duration is invalid''"
definition errCompletionOriginMismatch where
  "errCompletionOriginMismatch = Sentinel ''store: verification result origin does not match lease''"

record queue_config =
  LeaseDuration :: duration
  MinOriginInterval :: duration
  FirstReprobeInterval :: duration

record lease =
  l_Origin :: origin
  l_WorkerID :: string
  l_Generation :: int
  l_ClaimedAt :: go_time
  l_ExpiresAt :: go_time

text \<open>A queue value: whether its pool and its clock are there, and its configuration.\<close>

record queue_handle =
  qh_pool :: bool
  qh_config :: queue_config
  qh_clock :: bool

datatype queue_mode = Recurring | Probe | Reprobe

record queue_row =
  q_available_at :: go_time
  q_mode :: queue_mode
  q_lease_generation :: int
  q_lease_owner :: "string option"
  q_lease_expires_at :: "go_time option"
  q_last_claimed_at :: "go_time option"
  q_consecutive_failures :: int
  q_last_failure_category :: "category option"
  q_next_attempt_at :: "go_time option"

record source_row =
  sr_crawl_blocked :: bool
  sr_seeded :: bool

record queue_db =
  qd_store :: store_db
  qd_queue :: "(string \<times> queue_row) list"
  qd_schedule :: "string \<Rightarrow> bool"
  qd_sources :: "string \<Rightarrow> source_row option"
  qd_candidates :: "string \<Rightarrow> go_time option"
  qd_paused :: bool

section \<open>Validation\<close>

definition validQueueConfig :: "queue_config \<Rightarrow> bool" where
  "validQueueConfig config \<longleftrightarrow>
     LeaseDuration config > 0 \<and> MinOriginInterval config > 0 \<and> FirstReprobeInterval config \<ge> 0"

text \<open>\<^verbatim>\<open>utf8.RuneCountInString\<close>: an invalid byte counts as one rune.\<close>

function rune_count :: "string \<Rightarrow> nat" where
  "rune_count s = (if s = [] then 0 else Suc (rune_count (drop (max 1 (rune_size s)) s)))"
  by pat_completeness auto
termination
  by (relation "measure length") auto

declare rune_count.simps [simp del]

definition validQueueWorkerID :: "string \<Rightarrow> bool" where
  "validQueueWorkerID workerID \<longleftrightarrow> workerID \<noteq> [] \<and> rune_count workerID \<le> maxQueueWorkerIDLength"

definition validQueueLease :: "lease \<Rightarrow> bool" where
  "validQueueLease l \<longleftrightarrow>
     origin_String (l_Origin l) \<noteq> [] \<and> validQueueWorkerID (l_WorkerID l) \<and> l_Generation l > 0 \<and>
     l_ClaimedAt l \<noteq> 0 \<and> l_ExpiresAt l \<noteq> 0 \<and> l_ExpiresAt l > l_ClaimedAt l"

definition queue_validate :: "queue_handle option \<Rightarrow> ctx_value \<Rightarrow> go_error option" where
  "queue_validate q ctx =
     (case q of
        None \<Rightarrow> Some errQueueUnavailable
      | Some h \<Rightarrow>
          (case ctx of
             None \<Rightarrow> Some errInvalidContext
           | Some (Some err) \<Rightarrow> Some err
           | Some None \<Rightarrow>
               if \<not> qh_pool h then Some errPoolUnavailable
               else if \<not> validQueueConfig (qh_config h) then Some errInvalidQueueConfig
               else if \<not> qh_clock h then Some errQueueClockUnavailable
               else None))"

definition newQueue :: "bool \<Rightarrow> queue_config \<Rightarrow> bool \<Rightarrow> go_error + queue_handle" where
  "newQueue pool config clock =
     (if \<not> pool then Inl errPoolUnavailable
      else if \<not> validQueueConfig config then Inl errInvalidQueueConfig
      else if \<not> clock then Inl errQueueClockUnavailable
      else Inr \<lparr>qh_pool = True, qh_config = config, qh_clock = True\<rparr>)"

section \<open>Rows\<close>

definition queue_row_of :: "queue_db \<Rightarrow> string \<Rightarrow> queue_row option" where
  "queue_row_of db o1 = map_of (qd_queue db) o1"

definition set_row :: "string \<Rightarrow> queue_row \<Rightarrow> queue_db \<Rightarrow> queue_db" where
  "set_row o1 row db = db\<lparr>qd_queue := AList.update o1 row (qd_queue db)\<rparr>"

definition delete_row :: "string \<Rightarrow> queue_db \<Rightarrow> queue_db" where
  "delete_row o1 db = db\<lparr>qd_queue := AList.delete o1 (qd_queue db)\<rparr>"

definition new_row :: "go_time \<Rightarrow> queue_mode \<Rightarrow> queue_row" where
  "new_row availableAt md =
     \<lparr>q_available_at = availableAt, q_mode = md, q_lease_generation = 0, q_lease_owner = None,
      q_lease_expires_at = None, q_last_claimed_at = None, q_consecutive_failures = 0,
      q_last_failure_category = None, q_next_attempt_at = None\<rparr>"

definition crawlBlocked :: "queue_db \<Rightarrow> string \<Rightarrow> bool" where
  "crawlBlocked db o1 = (case qd_sources db o1 of None \<Rightarrow> False | Some r \<Rightarrow> sr_crawl_blocked r)"

text \<open>The condition under which a row is released or renewed: the exact unexpired lease.\<close>

definition holdsLease :: "lease \<Rightarrow> go_time \<Rightarrow> queue_row \<Rightarrow> bool" where
  "holdsLease l now row \<longleftrightarrow>
     q_lease_owner row = Some (l_WorkerID l) \<and> q_lease_generation row = l_Generation l \<and>
     (case q_lease_expires_at row of None \<Rightarrow> False | Some t \<Rightarrow> t > now)"

definition release_lease :: "queue_row \<Rightarrow> queue_row" where
  "release_lease row = row\<lparr>q_lease_owner := None, q_lease_expires_at := None\<rparr>"

text \<open>\<^verbatim>\<open>last_claimed_at + make_interval(...)\<close> inside \<^verbatim>\<open>GREATEST\<close>, which ignores NULL.\<close>

definition greatest_after_claim :: "queue_config \<Rightarrow> queue_row \<Rightarrow> go_time \<Rightarrow> go_time" where
  "greatest_after_claim config row t =
     (case q_last_claimed_at row of None \<Rightarrow> t | Some c \<Rightarrow> max t (c + MinOriginInterval config))"

section \<open>Schedule, pause and claim\<close>

definition activeLease :: "go_time \<Rightarrow> queue_row \<Rightarrow> bool" where
  "activeLease now row \<longleftrightarrow>
     q_lease_owner row \<noteq> None \<and> (case q_lease_expires_at row of None \<Rightarrow> False | Some t \<Rightarrow> t > now)"

definition scheduledRow :: "go_time \<Rightarrow> go_time \<Rightarrow> queue_row option \<Rightarrow> queue_row" where
  "scheduledRow availableAt now row =
     (case row of
        None \<Rightarrow> new_row availableAt Recurring
      | Some r \<Rightarrow>
          (let active = activeLease now r
           in r\<lparr>q_mode := Recurring,
                q_available_at := (if active then q_available_at r else min (q_available_at r) availableAt),
                q_consecutive_failures := (if active then q_consecutive_failures r else 0),
                q_last_failure_category := (if active then q_last_failure_category r else None),
                q_next_attempt_at := (if active then q_next_attempt_at r else None)\<rparr>))"

definition Schedule ::
    "queue_handle option \<Rightarrow> ctx_value \<Rightarrow> go_error + go_time \<Rightarrow> go_error option \<Rightarrow> origin \<Rightarrow> go_time \<Rightarrow>
     queue_db \<Rightarrow> go_error option \<times> queue_db" where
  "Schedule q ctx clock dbErr source availableAt db =
     (case queue_validate q ctx of
        Some err \<Rightarrow> (Some err, db)
      | None \<Rightarrow>
          if origin_String source = [] then (Some errInvalidOrigin, db)
          else if availableAt = 0 then (Some errInvalidAvailableAt, db)
          else (case clock of
                  Inl err \<Rightarrow> (Some (Wrap ''store: read queue clock'' [err]), db)
                | Inr now \<Rightarrow>
                    (case dbErr of
                       Some err \<Rightarrow> (Some (Wrap ''store: schedule queue work'' [err]), db)
                     | None \<Rightarrow>
                         (None, set_row (origin_String source)
                            (scheduledRow availableAt now (queue_row_of db (origin_String source))) db))))"

definition VerificationPaused ::
    "queue_handle option \<Rightarrow> ctx_value \<Rightarrow> go_error option \<Rightarrow> queue_db \<Rightarrow> go_error + bool" where
  "VerificationPaused q ctx dbErr db =
     (case queue_validate q ctx of
        Some err \<Rightarrow> Inl err
      | None \<Rightarrow>
          (case dbErr of
             Some err \<Rightarrow> Inl (Wrap ''store: read queue control'' [err])
           | None \<Rightarrow> Inr (qd_paused db)))"

definition claimable :: "queue_db \<Rightarrow> (string \<Rightarrow> bool) \<Rightarrow> go_time \<Rightarrow> go_time \<Rightarrow> string \<times> queue_row \<Rightarrow> bool" where
  "claimable db locked now politeBefore entry =
     (case entry of (o1, row) \<Rightarrow>
        q_available_at row \<le> now \<and>
        (q_mode row = Recurring \<or> \<not> crawlBlocked db o1) \<and>
        (case q_next_attempt_at row of None \<Rightarrow> True | Some t \<Rightarrow> t \<le> now) \<and>
        (case q_lease_expires_at row of None \<Rightarrow> True | Some t \<Rightarrow> t \<le> now) \<and>
        (case q_last_claimed_at row of None \<Rightarrow> True | Some t \<Rightarrow> t \<le> politeBefore) \<and>
        \<not> locked o1)"

definition claimKey :: "string \<times> queue_row \<Rightarrow> nat \<times> go_time \<times> string" where
  "claimKey entry =
     (case entry of (o1, row) \<Rightarrow> (if q_mode row = Probe then 0 else 1, q_available_at row, o1))"

definition claimCandidate ::
    "queue_db \<Rightarrow> (string \<Rightarrow> bool) \<Rightarrow> go_time \<Rightarrow> go_time \<Rightarrow> (string \<times> queue_row) option" where
  "claimCandidate db locked now politeBefore =
     (case sort_key claimKey (filter (claimable db locked now politeBefore) (qd_queue db)) of
        [] \<Rightarrow> None | entry # _ \<Rightarrow> Some entry)"

definition claimedRow :: "string \<Rightarrow> go_time \<Rightarrow> go_time \<Rightarrow> queue_row \<Rightarrow> queue_row" where
  "claimedRow workerID now expiresAt row =
     row\<lparr>q_lease_generation := q_lease_generation row + 1, q_lease_owner := Some workerID,
         q_lease_expires_at := Some expiresAt, q_last_claimed_at := Some now\<rparr>"

definition claimError :: "go_error \<Rightarrow> go_error" where
  "claimError err = Wrap ''store: claim queue work'' [err]"

definition Claim ::
    "host_lib \<Rightarrow> queue_handle option \<Rightarrow> ctx_value \<Rightarrow> go_error + go_time \<Rightarrow> go_error option \<Rightarrow>
     (string \<Rightarrow> bool) \<Rightarrow> string \<Rightarrow> queue_db \<Rightarrow> (go_error + lease option) \<times> queue_db" where
  "Claim lib q ctx clock dbErr locked workerID db =
     (case queue_validate q ctx of
        Some err \<Rightarrow> (Inl err, db)
      | None \<Rightarrow>
          if \<not> validQueueWorkerID workerID then (Inl errInvalidWorkerID, db)
          else (case clock of
                  Inl err \<Rightarrow> (Inl (claimError (Wrap ''store: read queue claim clock'' [err])), db)
                | Inr now \<Rightarrow>
                    (case dbErr of
                       Some err \<Rightarrow> (Inl (claimError err), db)
                     | None \<Rightarrow>
                         if qd_paused db then (Inr None, db)
                         else (let config = qh_config (the q);
                                   expiresAt = now + LeaseDuration config;
                                   politeBefore = now - MinOriginInterval config
                               in case claimCandidate db locked now politeBefore of
                                    None \<Rightarrow> (Inr None, db)
                                  | Some (storedOrigin, row) \<Rightarrow>
                                      (case Origin.Parse lib storedOrigin of
                                         Inl err \<Rightarrow>
                                           (Inl (claimError (Wrap ''store: invalid queued origin'' [err])), db)
                                       | Inr source \<Rightarrow>
                                           (let row = claimedRow workerID now expiresAt row
                                            in (Inr (Some \<lparr>l_Origin = source, l_WorkerID = workerID,
                                                           l_Generation = q_lease_generation row,
                                                           l_ClaimedAt = now, l_ExpiresAt = expiresAt\<rparr>),
                                                set_row storedOrigin row db)))))))"

section \<open>Renew, reschedule and abandon\<close>

definition heldRow :: "lease \<Rightarrow> go_time \<Rightarrow> queue_db \<Rightarrow> queue_row option" where
  "heldRow l now db =
     (case queue_row_of db (origin_String (l_Origin l)) of
        None \<Rightarrow> None | Some row \<Rightarrow> if holdsLease l now row then Some row else None)"

definition workPermitted :: "queue_db \<Rightarrow> string \<Rightarrow> queue_row \<Rightarrow> bool" where
  "workPermitted db o1 row \<longleftrightarrow> q_mode row = Recurring \<or> \<not> crawlBlocked db o1"

definition scanNull :: go_error where
  "scanNull = Sentinel ''cannot scan NULL into *time.Time''"

definition Renew ::
    "queue_handle option \<Rightarrow> ctx_value \<Rightarrow> go_error + go_time \<Rightarrow> go_error option \<Rightarrow> lease \<Rightarrow> queue_db \<Rightarrow>
     (go_error + lease) \<times> queue_db" where
  "Renew q ctx clock dbErr l db =
     (case queue_validate q ctx of
        Some err \<Rightarrow> (Inl err, db)
      | None \<Rightarrow>
          if \<not> validQueueLease l then (Inl errInvalidLease, db)
          else (case clock of
                  Inl err \<Rightarrow> (Inl (Wrap ''store: read queue clock'' [err]), db)
                | Inr now \<Rightarrow>
                    (let candidateExpiresAt = now + LeaseDuration (qh_config (the q));
                         o1 = origin_String (l_Origin l)
                     in case dbErr of
                          Some err \<Rightarrow> (Inl (Wrap ''store: renew queue lease'' [err]), db)
                        | None \<Rightarrow>
                            (case heldRow l now db of
                               None \<Rightarrow> (Inl ErrLeaseLost, db)
                             | Some row \<Rightarrow>
                                 if \<not> workPermitted db o1 row then (Inl ErrLeaseLost, db)
                                 else (let expires = max (the (q_lease_expires_at row)) candidateExpiresAt;
                                           db = set_row o1 (row\<lparr>q_lease_expires_at := Some expires\<rparr>) db
                                       in case q_last_claimed_at row of
                                            None \<Rightarrow> (Inl (Wrap ''store: renew queue lease'' [scanNull]), db)
                                          | Some claimed \<Rightarrow>
                                              (Inr \<lparr>l_Origin = l_Origin l, l_WorkerID = the (q_lease_owner row),
                                                    l_Generation = q_lease_generation row,
                                                    l_ClaimedAt = claimed, l_ExpiresAt = expires\<rparr>, db))))))"

definition rescheduledRow :: "queue_config \<Rightarrow> go_time \<Rightarrow> queue_row \<Rightarrow> queue_row" where
  "rescheduledRow config availableAt row =
     release_lease
       (row\<lparr>q_available_at := greatest_after_claim config row availableAt, q_consecutive_failures := 0,
            q_last_failure_category := None, q_next_attempt_at := None\<rparr>)"

definition Reschedule ::
    "queue_handle option \<Rightarrow> ctx_value \<Rightarrow> go_error + go_time \<Rightarrow> go_error option \<Rightarrow> lease \<Rightarrow> go_time \<Rightarrow>
     queue_db \<Rightarrow> go_error option \<times> queue_db" where
  "Reschedule q ctx clock dbErr l availableAt db =
     (case queue_validate q ctx of
        Some err \<Rightarrow> (Some err, db)
      | None \<Rightarrow>
          if \<not> validQueueLease l then (Some errInvalidLease, db)
          else if availableAt = 0 then (Some errInvalidAvailableAt, db)
          else (case clock of
                  Inl err \<Rightarrow> (Some (Wrap ''store: read queue clock'' [err]), db)
                | Inr now \<Rightarrow>
                    (case dbErr of
                       Some err \<Rightarrow> (Some (Wrap ''store: reschedule queue work'' [err]), db)
                     | None \<Rightarrow>
                         (case heldRow l now db of
                            None \<Rightarrow> (Some ErrLeaseLost, db)
                          | Some row \<Rightarrow>
                              (None, set_row (origin_String (l_Origin l))
                                 (rescheduledRow (qh_config (the q)) availableAt row) db)))))"

definition AbandonVerification ::
    "queue_handle option \<Rightarrow> ctx_value \<Rightarrow> go_error + go_time \<Rightarrow> go_error option \<Rightarrow> lease \<Rightarrow> queue_db \<Rightarrow>
     go_error option \<times> queue_db" where
  "AbandonVerification q ctx clock dbErr l db =
     (case queue_validate q ctx of
        Some err \<Rightarrow> (Some err, db)
      | None \<Rightarrow>
          if \<not> validQueueLease l then (Some errInvalidLease, db)
          else (case clock of
                  Inl err \<Rightarrow> (Some (Wrap ''store: read queue clock'' [err]), db)
                | Inr now \<Rightarrow>
                    (case dbErr of
                       Some err \<Rightarrow> (Some (Wrap ''store: abandon verification lease'' [err]), db)
                     | None \<Rightarrow>
                         (case heldRow l now db of
                            None \<Rightarrow> (Some ErrLeaseLost, db)
                          | Some row \<Rightarrow>
                              (None, set_row (origin_String (l_Origin l)) (release_lease row) db)))))"

section \<open>Completion\<close>

definition nullableFailureCategory :: "bool \<Rightarrow> category \<Rightarrow> category option" where
  "nullableFailureCategory transient cat = (if \<not> transient then None else Some cat)"

fun reprobeLoop :: "nat \<Rightarrow> duration \<Rightarrow> duration" where
  "reprobeLoop 0 interval = interval"
| "reprobeLoop (Suc n) interval =
     (if interval \<ge> maxReprobeInterval div 2 then maxReprobeInterval else reprobeLoop n (interval * 2))"

definition reprobeInterval :: "duration \<Rightarrow> int \<Rightarrow> duration" where
  "reprobeInterval first priorMisses =
     (if first \<ge> maxReprobeInterval then maxReprobeInterval else reprobeLoop (nat priorMisses) first)"

text \<open>What the completion statement is given (its parameters 4 to 14).\<close>

record completion =
  cp_completedAt :: go_time
  cp_requestedAvailableAt :: go_time
  cp_outcome :: string
  cp_version :: "int option"
  cp_identity :: "string option"
  cp_nextFailures :: int
  cp_failureCategory :: "category option"
  cp_transient :: bool
  cp_reprobe :: bool
  cp_reprobeAvailableAt :: go_time

definition completionCategory :: "verification_result \<Rightarrow> category" where
  "completionCategory result =
     (if vr_Outcome result = OutcomeUnavailable \<and> vr_FailureCategory result = CategoryNone
      then CategoryDeclarationUnavailable else vr_FailureCategory result)"

definition completionTransient :: "verification_result \<Rightarrow> bool" where
  "completionTransient result \<longleftrightarrow>
     vr_Outcome result = OutcomeUnavailable \<and> Transient (completionCategory result)"

text \<open>
  When the work becomes available again: \<open>retryDelay\<close> is \<^verbatim>\<open>q.retryPolicy.Delay\<close>, \<open>failures\<close>, \<open>misses\<close> and
  \<open>participated\<close> are what the locking query returned.
\<close>

definition reprobeAvailableAt :: "queue_config \<Rightarrow> verification_result \<Rightarrow> go_time \<Rightarrow> duration \<Rightarrow> int \<Rightarrow> go_time" where
  "reprobeAvailableAt config result completedAt recheckAfter misses =
     (if shouldReprobeOutcome (vr_Outcome result)
      then completedAt + reprobeInterval
             (if FirstReprobeInterval config = 0 then defaultFirstReprobeInterval
              else FirstReprobeInterval config) misses
      else completedAt + recheckAfter)"

definition requestedAvailableAt ::
    "(int \<Rightarrow> duration \<Rightarrow> duration) \<Rightarrow> queue_config \<Rightarrow> lease \<Rightarrow> verification_result \<Rightarrow> go_time \<Rightarrow> duration \<Rightarrow>
     int \<Rightarrow> bool \<Rightarrow> go_time" where
  "requestedAvailableAt retryDelay config l result completedAt recheckAfter failures participated =
     (if \<not> completionTransient result then completedAt + recheckAfter
      else (let nextFailures = failures + 1;
                delay = (if participated \<and> nextFailures > transientRetryBackoffSteps
                         then staleParticipantRecheckInterval
                         else retryDelay nextFailures (vr_RetryAfter result));
                requested = completedAt + delay;
                politeAt = l_ClaimedAt l + MinOriginInterval config
            in if politeAt > requested then politeAt else requested))"

definition completionOf ::
    "(int \<Rightarrow> duration \<Rightarrow> duration) \<Rightarrow> queue_config \<Rightarrow> lease \<Rightarrow> verification_result \<Rightarrow> go_time \<Rightarrow> duration \<Rightarrow>
     int \<Rightarrow> int \<Rightarrow> bool \<Rightarrow> completion" where
  "completionOf retryDelay config l result completedAt recheckAfter failures misses participated =
     (case storedDeclarationValues result of (version, identity) \<Rightarrow>
        \<lparr>cp_completedAt = completedAt,
         cp_requestedAvailableAt =
           requestedAvailableAt retryDelay config l result completedAt recheckAfter failures participated,
         cp_outcome = outcomeText (vr_Outcome result),
         cp_version = version, cp_identity = identity,
         cp_nextFailures = (if completionTransient result then failures + 1 else 0),
         cp_failureCategory =
           nullableFailureCategory (completionTransient result) (completionCategory result),
         cp_transient = completionTransient result,
         cp_reprobe = shouldReprobeOutcome (vr_Outcome result),
         cp_reprobeAvailableAt = reprobeAvailableAt config result completedAt recheckAfter misses\<rparr>)"

text \<open>\<^verbatim>\<open>retained_queue\<close> and \<^verbatim>\<open>removed_probe\<close>: the row that stays, or \<open>None\<close> for the row that is deleted.\<close>

definition retainedMode :: "completion \<Rightarrow> queue_mode \<Rightarrow> queue_mode" where
  "retainedMode cp md =
     (if cp_outcome cp = ''valid'' then Recurring
      else if md \<in> {Probe, Reprobe} \<and> cp_reprobe cp then Reprobe else md)"

definition retainedRow :: "queue_config \<Rightarrow> completion \<Rightarrow> queue_row \<Rightarrow> queue_row option" where
  "retainedRow config cp row =
     (if q_mode row \<in> {Recurring, Reprobe} \<or> cp_outcome cp = ''valid'' \<or> cp_transient cp \<or> cp_reprobe cp
      then Some (release_lease
             (row\<lparr>q_mode := retainedMode cp (q_mode row),
                  q_available_at := greatest_after_claim config row
                    (if q_mode row \<in> {Probe, Reprobe} \<and> cp_reprobe cp then cp_reprobeAvailableAt cp
                     else cp_requestedAvailableAt cp),
                  q_consecutive_failures := cp_nextFailures cp,
                  q_last_failure_category := cp_failureCategory cp,
                  q_next_attempt_at :=
                    (if cp_transient cp
                     then Some (greatest_after_claim config row (cp_requestedAvailableAt cp)) else None)\<rparr>))
      else None)"

text \<open>\<^verbatim>\<open>recorded_origin\<close>, as this statement writes it out.\<close>

definition completedOrigin :: "completion \<Rightarrow> origin_row option \<Rightarrow> origin_row" where
  "completedOrigin cp existing =
     (let valid = (cp_outcome cp = ''valid'');
          excluded =
            \<lparr>or_first_observed_at = cp_completedAt cp,
             or_first_participated_at = (if valid then Some (cp_completedAt cp) else None),
             or_initial_version = (if valid then cp_version cp else None),
             or_initial_identity = (if valid then cp_identity cp else None),
             or_latest_check_at = Some (cp_completedAt cp),
             or_latest_check_outcome = Some (cp_outcome cp)\<rparr>
      in case existing of
           None \<Rightarrow> excluded
         | Some row \<Rightarrow>
             (let first = (valid \<and> (case or_first_participated_at row of
                                        None \<Rightarrow> True | Some t \<Rightarrow> cp_completedAt cp < t));
                  latest = (case or_latest_check_at row of
                              None \<Rightarrow> True | Some t \<Rightarrow> cp_completedAt cp \<ge> t)
              in \<lparr>or_first_observed_at = min (or_first_observed_at row) (cp_completedAt cp),
                  or_first_participated_at =
                    (if first then Some (cp_completedAt cp) else or_first_participated_at row),
                  or_initial_version = (if first then cp_version cp else or_initial_version row),
                  or_initial_identity = (if first then cp_identity cp else or_initial_identity row),
                  or_latest_check_at = (if latest then Some (cp_completedAt cp) else or_latest_check_at row),
                  or_latest_check_outcome =
                    (if latest then Some (cp_outcome cp) else or_latest_check_outcome row)\<rparr>))"

definition completedStore :: "completion \<Rightarrow> string \<Rightarrow> store_db \<Rightarrow> store_db" where
  "completedStore cp o1 st =
     st\<lparr>db_origins := (db_origins st)(o1 \<mapsto> completedOrigin cp (db_origins st o1)),
        db_reprobe := (db_reprobe st)
          (o1 \<mapsto> (let miss = (if cp_reprobe cp then 1 else 0)
                  in case db_reprobe st o1 of None \<Rightarrow> miss | Some n \<Rightarrow> n + miss)),
        db_observations := db_observations st @
          [\<lparr>ob_origin = o1, ob_observed_at = cp_completedAt cp, ob_outcome = cp_outcome cp,
            ob_version = cp_version cp, ob_identity = cp_identity cp\<rparr>]\<rparr>"

text \<open>\<^verbatim>\<open>scheduled_discovery_source\<close> and \<^verbatim>\<open>unscheduled_discovery_source\<close>.\<close>

definition completedSchedule :: "completion \<Rightarrow> string \<Rightarrow> queue_db \<Rightarrow> string \<Rightarrow> bool" where
  "completedSchedule cp o1 db =
     (let sched = qd_schedule db
      in if cp_outcome cp = ''valid'' then sched(o1 := True)
         else if cp_outcome cp \<in> {''absent'', ''invalid'', ''unsupported_version'', ''cross_origin_redirect''} \<and>
                 \<not> (case qd_sources db o1 of None \<Rightarrow> False | Some r \<Rightarrow> sr_seeded r) \<and>
                 \<not> (case qd_candidates db o1 of None \<Rightarrow> False | Some t \<Rightarrow> t > cp_completedAt cp)
         then sched(o1 := False)
         else sched)"

definition completeRow :: "queue_config \<Rightarrow> completion \<Rightarrow> string \<Rightarrow> queue_row \<Rightarrow> queue_db \<Rightarrow> queue_db" where
  "completeRow config cp o1 row db =
     (let db' = (case retainedRow config cp row of
                   Some row' \<Rightarrow> set_row o1 row' db | None \<Rightarrow> delete_row o1 db)
      in db'\<lparr>qd_store := completedStore cp o1 (qd_store db), qd_schedule := completedSchedule cp o1 db\<rparr>)"

definition CompleteVerification ::
    "(int \<Rightarrow> duration \<Rightarrow> duration) \<Rightarrow> queue_handle option \<Rightarrow> ctx_value \<Rightarrow> go_error + go_time \<Rightarrow>
     go_error option \<Rightarrow> lease \<Rightarrow> verification_result \<Rightarrow> duration \<Rightarrow> queue_db \<Rightarrow>
     go_error option \<times> queue_db" where
  "CompleteVerification retryDelay q ctx clock dbErr l result recheckAfter db =
     (case queue_validate q ctx of
        Some err \<Rightarrow> (Some err, db)
      | None \<Rightarrow>
          if \<not> validQueueLease l then (Some errInvalidLease, db)
          else if origin_String (vr_Origin result) = [] then (Some errInvalidOrigin, db)
          else if vr_Origin result \<noteq> l_Origin l then (Some errCompletionOriginMismatch, db)
          else if \<not> validVerificationResult result then (Some errInvalidResult, db)
          else if recheckAfter \<le> 0 then (Some errInvalidRecheckAfter, db)
          else (let o1 = origin_String (l_Origin l); config = qh_config (the q)
                in case clock of
                     Inl err \<Rightarrow>
                       (Some (Wrap ''store: complete verification''
                          [Wrap ''store: read queue completion clock'' [err]]), db)
                   | Inr completedAt \<Rightarrow>
                       (case dbErr of
                          Some err \<Rightarrow> (Some (Wrap ''store: complete verification'' [err]), db)
                        | None \<Rightarrow>
                            (case heldRow l completedAt db of
                               None \<Rightarrow> (Some ErrLeaseLost, db)
                             | Some row \<Rightarrow>
                                 if \<not> workPermitted db o1 row then (Some ErrLeaseLost, db)
                                 else (let misses = (case db_reprobe (qd_store db) o1 of
                                                       None \<Rightarrow> 0 | Some n \<Rightarrow> n);
                                           participated = (case db_origins (qd_store db) o1 of
                                                             None \<Rightarrow> False
                                                           | Some r \<Rightarrow> or_first_participated_at r \<noteq> None);
                                           cp = completionOf retryDelay config l result completedAt
                                                  recheckAfter (q_consecutive_failures row) misses participated
                                       in (None, completeRow config cp o1 row db))))))"

section \<open>The constraints of the tables\<close>

text \<open>
  The CHECK constraints of \<^verbatim>\<open>verification_queue\<close> (migrations 0002 and 0010): the lease pair, the worker, the
  active lease and the retry state.
\<close>

definition retryStateOk :: "queue_row \<Rightarrow> bool" where
  "retryStateOk row \<longleftrightarrow>
     (q_consecutive_failures row = 0 \<and> q_last_failure_category row = None \<and> q_next_attempt_at row = None) \<or>
     (q_consecutive_failures row > 0 \<and>
      (case q_last_failure_category row of None \<Rightarrow> False | Some c \<Rightarrow> Transient c) \<and>
      q_next_attempt_at row = Some (q_available_at row))"

definition leaseOk :: "queue_row \<Rightarrow> bool" where
  "leaseOk row \<longleftrightarrow>
     (case q_lease_owner row of
        None \<Rightarrow> q_lease_expires_at row = None
      | Some w \<Rightarrow>
          validQueueWorkerID w \<and>
          (case (q_lease_expires_at row, q_last_claimed_at row) of
             (Some e, Some c) \<Rightarrow> e > c | _ \<Rightarrow> False))"

definition queue_row_ok :: "queue_row \<Rightarrow> bool" where
  "queue_row_ok row \<longleftrightarrow> q_lease_generation row \<ge> 0 \<and> leaseOk row \<and> retryStateOk row"

definition queue_ok :: "queue_db \<Rightarrow> bool" where
  "queue_ok db \<longleftrightarrow>
     distinct (map fst (qd_queue db)) \<and> list_all (\<lambda>(o1, row). o1 \<noteq> [] \<and> queue_row_ok row) (qd_queue db)"

named_theorems queue_rows

lemma row_of_set_row [queue_rows]:
  "queue_row_of (set_row o1 row db) o2 = (if o2 = o1 then Some row else queue_row_of db o2)"
  by (simp add: queue_row_of_def set_row_def AList.update_conv')

lemma row_of_delete_row [queue_rows]:
  "queue_row_of (delete_row o1 db) o2 = (if o2 = o1 then None else queue_row_of db o2)"
  by (simp add: queue_row_of_def delete_row_def AList.delete_conv')

lemma queue_ok_row: "queue_ok db \<Longrightarrow> queue_row_of db o1 = Some row \<Longrightarrow> o1 \<noteq> [] \<and> queue_row_ok row"
  by (auto simp: queue_ok_def queue_row_of_def list_all_iff dest!: map_of_SomeD)

lemma queue_ok_iff:
  "queue_ok db \<longleftrightarrow> distinct (map fst (qd_queue db)) \<and>
     (\<forall>o1 row. queue_row_of db o1 = Some row \<longrightarrow> o1 \<noteq> [] \<and> queue_row_ok row)"
  by (auto simp: queue_ok_def queue_row_of_def list_all_iff dest: map_of_SomeD) blast

lemma queue_ok_set_row:
  "queue_ok db \<Longrightarrow> o1 \<noteq> [] \<Longrightarrow> queue_row_ok row \<Longrightarrow> queue_ok (set_row o1 row db)"
  by (auto simp: queue_ok_iff queue_rows) (simp add: set_row_def AList.distinct_update)

lemma queue_ok_delete_row: "queue_ok db \<Longrightarrow> queue_ok (delete_row o1 db)"
  by (auto simp: queue_ok_iff queue_rows split: if_splits) (simp add: delete_row_def AList.distinct_delete)

lemma heldRow_row: "heldRow l now db = Some row \<Longrightarrow>
    queue_row_of db (origin_String (l_Origin l)) = Some row \<and> holdsLease l now row"
  by (auto simp: heldRow_def split: option.splits if_splits)

lemma leaseOk_cong:
  "q_lease_owner r' = q_lease_owner r \<Longrightarrow> q_lease_expires_at r' = q_lease_expires_at r \<Longrightarrow>
   q_last_claimed_at r' = q_last_claimed_at r \<Longrightarrow> leaseOk r' = leaseOk r"
  by (simp only: leaseOk_def)

lemma new_row_ok: "queue_row_ok (new_row t md)"
  by (simp add: queue_row_ok_def leaseOk_def retryStateOk_def new_row_def)

lemma scheduledRow_ok:
  "(\<And>r. row = Some r \<Longrightarrow> queue_row_ok r) \<Longrightarrow> queue_row_ok (scheduledRow t now row)"
proof (cases row)
  case (Some r)
  moreover assume "\<And>r. row = Some r \<Longrightarrow> queue_row_ok r"
  ultimately have ok: "queue_row_ok r" by simp
  have "leaseOk (scheduledRow t now (Some r)) = leaseOk r"
    by (rule leaseOk_cong) (simp_all add: scheduledRow_def Let_def)
  moreover have "retryStateOk (scheduledRow t now (Some r))"
    using ok by (simp add: scheduledRow_def Let_def queue_row_ok_def retryStateOk_def)
  ultimately show ?thesis
    using ok Some by (simp add: queue_row_ok_def) (simp add: scheduledRow_def Let_def)
qed (simp add: scheduledRow_def new_row_ok)

lemma claimedRow_ok:
  "queue_row_ok row \<Longrightarrow> validQueueWorkerID w \<Longrightarrow> now < expires \<Longrightarrow>
   queue_row_ok (claimedRow w now expires row)"
  by (auto simp: claimedRow_def queue_row_ok_def leaseOk_def retryStateOk_def)

lemma release_lease_ok:
  "q_lease_generation row \<ge> 0 \<Longrightarrow> retryStateOk row \<Longrightarrow> queue_row_ok (release_lease row)"
  by (auto simp: release_lease_def queue_row_ok_def leaseOk_def retryStateOk_def)

lemma renewed_ok:
  "queue_row_ok row \<Longrightarrow> holdsLease l now row \<Longrightarrow>
   queue_row_ok (row\<lparr>q_lease_expires_at := Some (max (the (q_lease_expires_at row)) t)\<rparr>)"
  by (auto simp: queue_row_ok_def leaseOk_def retryStateOk_def holdsLease_def split: option.splits)

lemma rescheduledRow_ok: "queue_row_ok row \<Longrightarrow> queue_row_ok (rescheduledRow config t row)"
  unfolding rescheduledRow_def
  by (rule release_lease_ok) (simp_all add: queue_row_ok_def retryStateOk_def)

lemma completionOf_retry:
  assumes "cp = completionOf retryDelay config l result completedAt recheckAfter failures misses participated"
  shows "cp_transient cp \<Longrightarrow> \<not> cp_reprobe cp"
    and "0 \<le> failures \<Longrightarrow> cp_transient cp \<Longrightarrow> cp_nextFailures cp > 0"
    and "cp_transient cp \<Longrightarrow> \<exists>c. cp_failureCategory cp = Some c \<and> Transient c"
    and "\<not> cp_transient cp \<Longrightarrow> cp_nextFailures cp = 0 \<and> cp_failureCategory cp = None"
  unfolding assms
  by (auto simp: completionOf_def completionTransient_def shouldReprobeOutcome_def nullableFailureCategory_def
      split: prod.splits)

lemma retainedRow_ok:
  assumes "queue_row_ok row"
    and "cp = completionOf retryDelay config l result completedAt recheckAfter
                (q_consecutive_failures row) misses participated"
    and "retainedRow config cp row = Some row'"
  shows "queue_row_ok row'"
proof -
  have f: "0 \<le> q_consecutive_failures row" using assms(1) by (auto simp: queue_row_ok_def retryStateOk_def)
  note cp = completionOf_retry [OF assms(2)]
  let ?r = "row\<lparr>q_mode := retainedMode cp (q_mode row),
      q_available_at := greatest_after_claim config row
        (if q_mode row \<in> {Probe, Reprobe} \<and> cp_reprobe cp then cp_reprobeAvailableAt cp
         else cp_requestedAvailableAt cp),
      q_consecutive_failures := cp_nextFailures cp,
      q_last_failure_category := cp_failureCategory cp,
      q_next_attempt_at :=
        (if cp_transient cp
         then Some (greatest_after_claim config row (cp_requestedAvailableAt cp)) else None)\<rparr>"
  have "retryStateOk ?r"
  proof (cases "cp_transient cp")
    case True
    then obtain c where "cp_failureCategory cp = Some c" "Transient c" using cp(3) by auto
    with True cp(1) cp(2) [OF f] show ?thesis by (simp add: retryStateOk_def)
  next
    case False
    with cp(4) show ?thesis by (simp add: retryStateOk_def)
  qed
  then have "queue_row_ok (release_lease ?r)"
    using assms(1) by (intro release_lease_ok) (simp_all add: queue_row_ok_def)
  with assms(3) show ?thesis by (auto simp: retainedRow_def split: if_splits)
qed

section \<open>Every operation keeps the constraints\<close>

lemma completeRow_queue:
  "queue_row_of (completeRow config cp o1 row db) o2 =
     (if o2 = o1 then retainedRow config cp row else queue_row_of db o2)"
  "qd_queue (completeRow config cp o1 row db) =
     (case retainedRow config cp row of
        Some row' \<Rightarrow> qd_queue (set_row o1 row' db) | None \<Rightarrow> qd_queue (delete_row o1 db))"
  by (auto simp: completeRow_def queue_row_of_def Let_def set_row_def delete_row_def AList.update_conv'
      AList.delete_conv' split: option.splits)

lemma queue_ok_completeRow:
  assumes "queue_ok db" and "o1 \<noteq> []" and "queue_row_ok row"
    and "cp = completionOf retryDelay config l result completedAt recheckAfter
                (q_consecutive_failures row) misses participated"
  shows "queue_ok (completeRow config cp o1 row db)"
proof (cases "retainedRow config cp row")
  case None
  with completeRow_queue(2) [of config cp o1 row db] queue_ok_delete_row [OF assms(1), of o1]
  show ?thesis by (simp add: queue_ok_def)
next
  case (Some row')
  with completeRow_queue(2) [of config cp o1 row db]
    queue_ok_set_row [OF assms(1,2) retainedRow_ok [OF assms(3,4) Some]]
  show ?thesis by (simp add: queue_ok_def)
qed

lemma Schedule_ok:
  "queue_ok db \<Longrightarrow> queue_ok (snd (Schedule q ctx clock dbErr source t db))"
  by (auto simp: Schedule_def split: option.splits sum.splits intro!: queue_ok_set_row scheduledRow_ok
      dest: queue_ok_row)

lemma queue_validate_config:
  "queue_validate q ctx = None \<Longrightarrow> \<exists>h. q = Some h \<and> validQueueConfig (qh_config h)"
  by (auto simp: queue_validate_def split: option.splits if_splits)

lemma claimCandidate_props:
  assumes "claimCandidate db locked now politeBefore = Some (o1, row)"
  shows "(o1, row) \<in> set (qd_queue db)" and "claimable db locked now politeBefore (o1, row)"
    and "\<And>o2 row2. (o2, row2) \<in> set (qd_queue db) \<Longrightarrow> claimable db locked now politeBefore (o2, row2) \<Longrightarrow>
          claimKey (o1, row) \<le> claimKey (o2, row2)"
proof -
  let ?xs = "filter (claimable db locked now politeBefore) (qd_queue db)"
  obtain rest where r: "sort_key claimKey ?xs = (o1, row) # rest"
    using assms by (auto simp: claimCandidate_def split: list.splits)
  then have "(o1, row) \<in> set (sort_key claimKey ?xs)" by simp
  then show "(o1, row) \<in> set (qd_queue db)" and "claimable db locked now politeBefore (o1, row)"
    by auto
  fix o2 row2
  assume "(o2, row2) \<in> set (qd_queue db)" "claimable db locked now politeBefore (o2, row2)"
  then have "(o2, row2) \<in> set (sort_key claimKey ?xs)" by simp
  moreover have "sorted (map claimKey (sort_key claimKey ?xs))" by simp
  ultimately show "claimKey (o1, row) \<le> claimKey (o2, row2)" unfolding r by auto
qed

lemma claimCandidate_None:
  "claimCandidate db locked now politeBefore = None \<longleftrightarrow>
   (\<forall>entry \<in> set (qd_queue db). \<not> claimable db locked now politeBefore entry)"
proof -
  have "claimCandidate db locked now politeBefore = None \<longleftrightarrow>
      sort_key claimKey (filter (claimable db locked now politeBefore) (qd_queue db)) = []"
    by (simp add: claimCandidate_def split: list.splits)
  also have "\<dots> \<longleftrightarrow> filter (claimable db locked now politeBefore) (qd_queue db) = []"
    by (metis length_0_conv length_sort)
  finally show ?thesis by (simp add: filter_empty_conv)
qed

text \<open>What a successful claim did.\<close>

lemma Claim_success:
  assumes "Claim lib q ctx clock dbErr locked workerID db = (Inr (Some l), db')"
  obtains now h o1 row where "clock = Inr now" "q = Some h" "validQueueConfig (qh_config h)"
    "validQueueWorkerID workerID" "\<not> qd_paused db"
    "claimCandidate db locked now (now - MinOriginInterval (qh_config h)) = Some (o1, row)"
    "Origin.Parse lib o1 = Inr (l_Origin l)" "l_WorkerID l = workerID"
    "l_Generation l = q_lease_generation row + 1" "l_ClaimedAt l = now"
    "l_ExpiresAt l = now + LeaseDuration (qh_config h)"
    "db' = set_row o1 (claimedRow workerID now (now + LeaseDuration (qh_config h)) row) db"
proof -
  from assms have v: "queue_validate q ctx = None" "validQueueWorkerID workerID"
    by (auto simp: Claim_def split: option.splits if_splits)
  then obtain h where h: "q = Some h" "validQueueConfig (qh_config h)" using queue_validate_config by blast
  from assms v h obtain now where n: "clock = Inr now" "dbErr = None" "\<not> qd_paused db"
    by (auto simp: Claim_def split: sum.splits option.splits if_splits)
  from assms v h n obtain o1 row
    where c: "claimCandidate db locked now (now - MinOriginInterval (qh_config h)) = Some (o1, row)"
    by (auto simp: Claim_def Let_def split: option.splits)
  from assms v h n c that show thesis
    by (auto simp: Claim_def Let_def claimedRow_def split: sum.splits)
qed

lemma Claim_unchanged:
  "Claim lib q ctx clock dbErr locked workerID db = (r, db') \<Longrightarrow> \<not> (\<exists>l. r = Inr (Some l)) \<Longrightarrow> db' = db"
  by (auto simp: Claim_def Let_def split: option.splits sum.splits if_splits prod.splits)

lemma queue_member_row:
  "queue_ok db \<Longrightarrow> (o1, row) \<in> set (qd_queue db) \<Longrightarrow> queue_row_of db o1 = Some row"
  by (simp add: queue_ok_def queue_row_of_def)

lemma Claim_ok:
  assumes "queue_ok db"
  shows "queue_ok (snd (Claim lib q ctx clock dbErr locked workerID db))"
proof (cases "\<exists>l. fst (Claim lib q ctx clock dbErr locked workerID db) = Inr (Some l)")
  case True
  then obtain l db' where "Claim lib q ctx clock dbErr locked workerID db = (Inr (Some l), db')"
    by (metis prod.collapse)
  then show ?thesis
  proof (elim Claim_success)
    fix now h o1 row
    assume c: "claimCandidate db locked now (now - MinOriginInterval (qh_config h)) = Some (o1, row)"
      and v: "validQueueConfig (qh_config h)" "validQueueWorkerID workerID"
      and db': "db' = set_row o1 (claimedRow workerID now (now + LeaseDuration (qh_config h)) row) db"
    have "o1 \<noteq> [] \<and> queue_row_ok row"
      using queue_ok_row [OF assms queue_member_row [OF assms claimCandidate_props(1) [OF c]]] .
    then have "queue_ok db'"
      unfolding db' using assms v
      by (intro queue_ok_set_row claimedRow_ok) (auto simp: validQueueConfig_def)
    then show ?thesis
      using \<open>Claim lib q ctx clock dbErr locked workerID db = (Inr (Some l), db')\<close> by simp
  qed
next
  case False
  then show ?thesis
    using assms Claim_unchanged [of lib q ctx clock dbErr locked workerID db] by (metis prod.collapse)
qed

lemma Renew_ok: "queue_ok db \<Longrightarrow> queue_ok (snd (Renew q ctx clock dbErr l db))"
  by (auto simp: Renew_def Let_def split: option.splits sum.splits intro!: queue_ok_set_row renewed_ok
      dest!: heldRow_row dest: queue_ok_row)

lemma Reschedule_ok: "queue_ok db \<Longrightarrow> queue_ok (snd (Reschedule q ctx clock dbErr l t db))"
  by (auto simp: Reschedule_def split: option.splits sum.splits
      intro!: queue_ok_set_row rescheduledRow_ok dest!: heldRow_row dest: queue_ok_row)

lemma AbandonVerification_ok: "queue_ok db \<Longrightarrow> queue_ok (snd (AbandonVerification q ctx clock dbErr l db))"
  by (auto simp: AbandonVerification_def split: option.splits sum.splits
      intro!: queue_ok_set_row release_lease_ok dest!: heldRow_row dest: queue_ok_row)
    (auto dest: queue_ok_row simp: queue_row_ok_def)

text \<open>What a completion did: it either changed nothing, or it completed the row the lease holds.\<close>

lemma CompleteVerification_cases:
  assumes "CompleteVerification retryDelay q ctx clock dbErr l result recheckAfter db = (r, db')"
  obtains (unchanged) e where "r = Some e" "db' = db"
    | (completed) now h row misses participated where "r = None" "clock = Inr now" "q = Some h"
        "validQueueConfig (qh_config h)" "heldRow l now db = Some row"
        "workPermitted db (origin_String (l_Origin l)) row" "vr_Origin result = l_Origin l"
        "validVerificationResult result" "0 < recheckAfter"
        "misses = (case db_reprobe (qd_store db) (origin_String (l_Origin l)) of None \<Rightarrow> 0 | Some n \<Rightarrow> n)"
        "participated = (case db_origins (qd_store db) (origin_String (l_Origin l)) of
            None \<Rightarrow> False | Some r \<Rightarrow> or_first_participated_at r \<noteq> None)"
        "db' = completeRow (qh_config h)
           (completionOf retryDelay (qh_config h) l result now recheckAfter (q_consecutive_failures row)
              misses participated) (origin_String (l_Origin l)) row db"
proof (cases r)
  case (Some e)
  with assms have "db' = db"
    by (auto simp: CompleteVerification_def Let_def split: option.splits sum.splits if_splits)
  with Some show thesis by (rule unchanged)
next
  case None
  with assms have v: "queue_validate q ctx = None" "vr_Origin result = l_Origin l"
      "validVerificationResult result" "0 < recheckAfter" "validQueueLease l"
      "origin_String (vr_Origin result) \<noteq> []"
    by (auto simp: CompleteVerification_def split: option.splits if_splits)
  then obtain h where h: "q = Some h" "validQueueConfig (qh_config h)" using queue_validate_config by blast
  from assms None v h obtain now row where n: "clock = Inr now" "dbErr = None" "heldRow l now db = Some row"
      "workPermitted db (origin_String (l_Origin l)) row"
    by (auto simp: CompleteVerification_def Let_def split: sum.splits option.splits if_splits)
  from assms None v h n show thesis
    by (intro completed [OF None n(1) h n(3,4) v(2,3,4) refl refl])
      (simp add: CompleteVerification_def Let_def)
qed

lemma heldRow_nonempty: "queue_ok db \<Longrightarrow> heldRow l now db = Some row \<Longrightarrow>
    origin_String (l_Origin l) \<noteq> [] \<and> queue_row_ok row"
  using heldRow_row queue_ok_row by blast

lemma CompleteVerification_ok:
  assumes "queue_ok db"
  shows "queue_ok (snd (CompleteVerification retryDelay q ctx clock dbErr l result recheckAfter db))"
proof -
  obtain r db' where c: "CompleteVerification retryDelay q ctx clock dbErr l result recheckAfter db = (r, db')"
    by fastforce
  then show ?thesis
  proof (cases rule: CompleteVerification_cases)
    case unchanged
    with c assms show ?thesis by simp
  next
    case (completed now h row misses participated)
    with heldRow_nonempty [OF assms completed(5)] assms have "queue_ok db'"
      by (auto intro!: queue_ok_completeRow)
    with c show ?thesis by simp
  qed
qed

section \<open>Interleaved workers\<close>

text \<open>
  The queue as the workers, the operator and discovery share it. The ghosts are the complete logs of the leases
  issued and of the claims made; an entry carries the epoch of its origin, the number of times the row of that
  origin had been deleted before (only the completion of a probe deletes a row, and a later insertion starts
  from nothing). The arguments of the operations are arbitrary, forged leases included; only scheduling takes
  an origin whose serialization parses back to it (\<open>Origin.Parse_String_roundtrip\<close>).
\<close>

record queue_state =
  qs_db :: queue_db
  qs_now :: go_time
  qs_epoch :: "string \<Rightarrow> nat"
  qs_issued :: "(nat \<times> lease) list"
  qs_claims :: "((string \<times> nat) \<times> go_time) list"

abbreviation leaseKey :: "lease \<Rightarrow> string" where
  "leaseKey l \<equiv> origin_String (l_Origin l)"

definition nextEpoch :: "queue_db \<Rightarrow> queue_db \<Rightarrow> (string \<Rightarrow> nat) \<Rightarrow> string \<Rightarrow> nat" where
  "nextEpoch db db' epoch o1 =
     (if queue_row_of db o1 \<noteq> None \<and> queue_row_of db' o1 = None then Suc (epoch o1) else epoch o1)"

inductive queue_step :: "host_lib \<Rightarrow> queue_handle \<Rightarrow> queue_state \<Rightarrow> queue_state \<Rightarrow> bool" for lib h where
  tick: "qs_now st \<le> now \<Longrightarrow> queue_step lib h st (st\<lparr>qs_now := now\<rparr>)"
| others: "qd_queue db = qd_queue (qs_db st) \<Longrightarrow> queue_step lib h st (st\<lparr>qs_db := db\<rparr>)"
| admitted: "Origin.Parse lib (origin_String source) = Inr source \<Longrightarrow> origin_String source \<noteq> [] \<Longrightarrow>
    queue_row_of (qs_db st) (origin_String source) = None \<Longrightarrow>
    queue_step lib h st (st\<lparr>qs_db := set_row (origin_String source) (new_row t Probe) (qs_db st)\<rparr>)"
| scheduled: "Origin.Parse lib (origin_String source) = Inr source \<Longrightarrow>
    Schedule (Some h) ctx (Inr (qs_now st)) dbErr source t (qs_db st) = (r, db) \<Longrightarrow>
    queue_step lib h st (st\<lparr>qs_db := db\<rparr>)"
| claimed: "Claim lib (Some h) ctx (Inr (qs_now st)) dbErr locked workerID (qs_db st) = (Inr (Some l), db) \<Longrightarrow>
    queue_step lib h st (st\<lparr>qs_db := db, 
      qs_issued := qs_issued st @ [(qs_epoch st (leaseKey l), l)],
      qs_claims := qs_claims st @ [((leaseKey l, qs_epoch st (leaseKey l)), qs_now st)]\<rparr>)"
| renewed: "Renew (Some h) ctx (Inr (qs_now st)) dbErr l (qs_db st) = (r, db) \<Longrightarrow>
    queue_step lib h st (st\<lparr>qs_db := db\<rparr>)"
| rescheduled: "Reschedule (Some h) ctx (Inr (qs_now st)) dbErr l t (qs_db st) = (r, db) \<Longrightarrow>
    queue_step lib h st (st\<lparr>qs_db := db\<rparr>)"
| abandoned: "AbandonVerification (Some h) ctx (Inr (qs_now st)) dbErr l (qs_db st) = (r, db) \<Longrightarrow>
    queue_step lib h st (st\<lparr>qs_db := db\<rparr>)"
| completed: "CompleteVerification retryDelay (Some h) ctx (Inr (qs_now st)) dbErr l result d (qs_db st) = (r, db) \<Longrightarrow>
    queue_step lib h st (st\<lparr>qs_db := db, qs_epoch := nextEpoch (qs_db st) db (qs_epoch st)\<rparr>)"

definition queue_start :: "host_lib \<Rightarrow> queue_state \<Rightarrow> bool" where
  "queue_start lib st \<longleftrightarrow> qd_queue (qs_db st) = [] \<and> qs_issued st = [] \<and> qs_claims st = []"

inductive queue_reachable :: "host_lib \<Rightarrow> queue_handle \<Rightarrow> queue_state \<Rightarrow> bool" for lib h where
  start: "queue_start lib st \<Longrightarrow> queue_reachable lib h st"
| step: "queue_reachable lib h st \<Longrightarrow> queue_step lib h st st' \<Longrightarrow> queue_reachable lib h st'"

text \<open>
  A row may only move on (\<open>advances\<close>): its generation and last claim never go back, and a claim is
  the only operation that changes them.
\<close>

definition advances :: "queue_row \<Rightarrow> queue_row \<Rightarrow> bool" where
  "advances row row' \<longleftrightarrow>
     q_lease_generation row' = q_lease_generation row \<and> q_last_claimed_at row' = q_last_claimed_at row"

definition preserves :: "string set \<Rightarrow> queue_db \<Rightarrow> queue_db \<Rightarrow> bool" where
  "preserves new db db' \<longleftrightarrow>
     (\<forall>o1 row. queue_row_of db o1 = Some row \<longrightarrow> (\<exists>row'. queue_row_of db' o1 = Some row' \<and> advances row row')) \<and>
     (\<forall>o1. queue_row_of db o1 = None \<longrightarrow> queue_row_of db' o1 = None \<or> o1 \<in> new)"

lemma preserves_refl: "preserves new db db"
  by (simp add: preserves_def advances_def)

lemma preserves_set_row:
  "queue_row_of db o1 = Some row \<Longrightarrow> advances row row' \<Longrightarrow> preserves new db (set_row o1 row' db)"
  by (auto simp: preserves_def queue_rows advances_def)

lemma preserves_new_row:
  "queue_row_of db o1 = None \<Longrightarrow> preserves {o1} db (set_row o1 row db)"
  by (auto simp: preserves_def queue_rows advances_def)

lemma Schedule_preserves: "preserves {origin_String source} db (snd (Schedule q ctx clock dbErr source t db))"
proof -
  let ?o = "origin_String source"
  have "preserves {?o} db (set_row ?o (scheduledRow t now (queue_row_of db ?o)) db)" for now
  proof (cases "queue_row_of db ?o")
    case None
    then show ?thesis by (rule preserves_new_row)
  next
    case (Some r)
    then show ?thesis
      by (intro preserves_set_row [OF Some]) (simp add: scheduledRow_def advances_def Let_def)
  qed
  then show ?thesis
    by (auto simp: Schedule_def preserves_refl split: option.splits sum.splits)
qed

lemma Renew_preserves: "preserves {} db (snd (Renew q ctx clock dbErr l db))"
  by (auto simp: Renew_def Let_def preserves_refl advances_def split: option.splits sum.splits
      intro!: preserves_set_row dest!: heldRow_row)

lemma Reschedule_preserves: "preserves {} db (snd (Reschedule q ctx clock dbErr l t db))"
  by (auto simp: Reschedule_def preserves_refl advances_def rescheduledRow_def release_lease_def
      split: option.splits sum.splits intro!: preserves_set_row dest!: heldRow_row)

lemma Abandon_preserves: "preserves {} db (snd (AbandonVerification q ctx clock dbErr l db))"
  by (auto simp: AbandonVerification_def preserves_refl advances_def release_lease_def
      split: option.splits sum.splits intro!: preserves_set_row dest!: heldRow_row)

definition canonicalKeys :: "host_lib \<Rightarrow> queue_db \<Rightarrow> bool" where
  "canonicalKeys lib db \<longleftrightarrow>
     (\<forall>o1 row. queue_row_of db o1 = Some row \<longrightarrow> (\<exists>s. Origin.Parse lib o1 = Inr s \<and> origin_String s = o1))"

definition leasesFenced :: "(string \<Rightarrow> nat) \<Rightarrow> (nat \<times> lease) list \<Rightarrow> queue_db \<Rightarrow> bool" where
  "leasesFenced epoch issued db \<longleftrightarrow>
     (\<forall>(e, l) \<in> set issued. e \<le> epoch (leaseKey l) \<and>
        (e = epoch (leaseKey l) \<longrightarrow>
          (\<exists>row. queue_row_of db (leaseKey l) = Some row \<and> l_Generation l \<le> q_lease_generation row))) \<and>
     sorted_wrt (\<lambda>(e, l) (e', l'). leaseKey l = leaseKey l' \<and> e = e' \<longrightarrow> l_Generation l < l_Generation l') issued"

definition claimsSpaced ::
    "(string \<Rightarrow> nat) \<Rightarrow> duration \<Rightarrow> ((string \<times> nat) \<times> go_time) list \<Rightarrow> queue_db \<Rightarrow> bool" where
  "claimsSpaced epoch interval claims db \<longleftrightarrow>
     (\<forall>((o1, e), t) \<in> set claims. e \<le> epoch o1 \<and>
        (e = epoch o1 \<longrightarrow> (\<exists>row c. queue_row_of db o1 = Some row \<and> q_last_claimed_at row = Some c \<and> t \<le> c))) \<and>
     polite interval claims"

definition queue_inv :: "host_lib \<Rightarrow> queue_handle \<Rightarrow> queue_state \<Rightarrow> bool" where
  "queue_inv lib h st \<longleftrightarrow>
     queue_ok (qs_db st) \<and> canonicalKeys lib (qs_db st) \<and> leasesFenced (qs_epoch st) (qs_issued st) (qs_db st) \<and>
     claimsSpaced (qs_epoch st) (MinOriginInterval (qh_config h)) (qs_claims st) (qs_db st)"

lemma preserves_inv:
  assumes "preserves new db db'"
  shows "leasesFenced epoch issued db \<Longrightarrow> leasesFenced epoch issued db'"
    and "claimsSpaced epoch d claims db \<Longrightarrow> claimsSpaced epoch d claims db'"
    and "canonicalKeys lib db \<Longrightarrow> (\<And>o1. o1 \<in> new \<Longrightarrow> \<exists>s. Origin.Parse lib o1 = Inr s \<and> origin_String s = o1) \<Longrightarrow>
         canonicalKeys lib db'"
proof -
  have adv: "\<exists>row'. queue_row_of db' o1 = Some row' \<and> q_lease_generation row' = q_lease_generation row \<and>
      q_last_claimed_at row' = q_last_claimed_at row" if "queue_row_of db o1 = Some row" for o1 row
    using assms that by (auto simp: preserves_def advances_def)
  show "leasesFenced epoch issued db \<Longrightarrow> leasesFenced epoch issued db'"
    unfolding leasesFenced_def case_prod_beta using adv by metis
  show "claimsSpaced epoch d claims db \<Longrightarrow> claimsSpaced epoch d claims db'"
    unfolding claimsSpaced_def case_prod_beta using adv by metis
  assume "canonicalKeys lib db"
    and new: "\<And>o1. o1 \<in> new \<Longrightarrow> \<exists>s. Origin.Parse lib o1 = Inr s \<and> origin_String s = o1"
  then show "canonicalKeys lib db'"
    using assms unfolding canonicalKeys_def preserves_def by (metis option.exhaust)
qed

lemma queue_inv_preserves:
  assumes "queue_inv lib h st" and "queue_ok db'" and "preserves new (qs_db st) db'"
    and "\<And>o1. o1 \<in> new \<Longrightarrow> \<exists>s. Origin.Parse lib o1 = Inr s \<and> origin_String s = o1"
  shows "queue_inv lib h (st\<lparr>qs_db := db'\<rparr>)"
  using assms preserves_inv [OF assms(3)] by (auto simp: queue_inv_def)

lemma queue_inv_same:
  "queue_inv lib h st \<Longrightarrow> queue_ok db' \<Longrightarrow> preserves {} (qs_db st) db' \<Longrightarrow> queue_inv lib h (st\<lparr>qs_db := db'\<rparr>)"
  by (rule queue_inv_preserves) auto

lemma queue_inv_claimed:
  assumes inv: "queue_inv lib h st"
    and c: "Claim lib (Some h) ctx (Inr (qs_now st)) dbErr locked workerID (qs_db st) = (Inr (Some l), db')"
  shows "queue_inv lib h (st\<lparr>qs_db := db',
      qs_issued := qs_issued st @ [(qs_epoch st (leaseKey l), l)],
      qs_claims := qs_claims st @ [((leaseKey l, qs_epoch st (leaseKey l)), qs_now st)]\<rparr>)"
proof -
  let ?m = "MinOriginInterval (qh_config h)" and ?now = "qs_now st" and ?db = "qs_db st"
  let ?ep = "qs_epoch st" and ?e = "qs_epoch st (leaseKey l)"
  obtain o1 row where cand: "claimCandidate ?db locked ?now (?now - ?m) = Some (o1, row)"
      and parse: "Origin.Parse lib o1 = Inr (l_Origin l)" and gen: "l_Generation l = q_lease_generation row + 1"
      and cfg: "validQueueConfig (qh_config h)"
      and db': "db' = set_row o1 (claimedRow workerID ?now (?now + LeaseDuration (qh_config h)) row) ?db"
    using c by (elim Claim_success) auto
  have ok: "queue_ok ?db" using inv by (simp add: queue_inv_def)
  have row: "queue_row_of ?db o1 = Some row" by (rule queue_member_row [OF ok claimCandidate_props(1) [OF cand]])
  have key: "leaseKey l = o1" using inv row parse by (auto simp: queue_inv_def canonicalKeys_def)
  have polite: "t \<le> ?now - ?m" if "q_last_claimed_at row = Some t" for t
    using claimCandidate_props(2) [OF cand] that by (simp add: claimable_def)
  have pos: "0 < ?m" using cfg by (simp add: validQueueConfig_def)
  have rows: "queue_row_of db' o2 = (if o2 = o1 then
      Some (claimedRow workerID ?now (?now + LeaseDuration (qh_config h)) row) else queue_row_of ?db o2)" for o2
    by (simp add: db' queue_rows)
  have "queue_ok db'" using Claim_ok [OF ok, of lib "Some h" ctx "Inr ?now" dbErr locked workerID] c by simp
  moreover have "canonicalKeys lib db'"
    using inv row by (auto simp: queue_inv_def canonicalKeys_def rows)
  moreover have "leasesFenced ?ep (qs_issued st @ [(?e, l)]) db'"
  proof -
    have old: "e' \<le> ?ep (leaseKey l')" "e' = ?ep (leaseKey l') \<Longrightarrow>
        \<exists>r. queue_row_of ?db (leaseKey l') = Some r \<and> l_Generation l' \<le> q_lease_generation r"
      if "(e', l') \<in> set (qs_issued st)" for e' l'
      using inv that by (auto simp: queue_inv_def leasesFenced_def)
    have lt: "l_Generation l' < l_Generation l"
      if "(e', l') \<in> set (qs_issued st)" "leaseKey l' = leaseKey l" "e' = ?e" for e' l'
      using old(2) [OF that(1)] that row key gen by fastforce
    have "\<exists>r. queue_row_of db' (leaseKey l') = Some r \<and> l_Generation l' \<le> q_lease_generation r"
      if "(e', l') \<in> set (qs_issued st)" "e' = ?ep (leaseKey l')" for e' l'
      using old(2) [OF that] lt [OF that(1)] that(2) key gen row
      by (cases "leaseKey l' = o1") (auto simp: rows claimedRow_def)
    moreover have "\<exists>r. queue_row_of db' (leaseKey l) = Some r \<and> l_Generation l \<le> q_lease_generation r"
      using key gen by (simp add: rows claimedRow_def)
    ultimately show ?thesis
      using inv old(1) lt unfolding queue_inv_def leasesFenced_def by (auto simp: sorted_wrt_append)
  qed
  moreover have "claimsSpaced ?ep ?m (qs_claims st @ [((leaseKey l, ?e), ?now)]) db'"
  proof -
    have old: "e \<le> ?ep o2" "e = ?ep o2 \<Longrightarrow> \<exists>r c. queue_row_of ?db o2 = Some r \<and> q_last_claimed_at r = Some c \<and> t \<le> c"
      if "((o2, e), t) \<in> set (qs_claims st)" for o2 e t
      using inv that by (auto simp: queue_inv_def claimsSpaced_def)
    have sp: "t + ?m \<le> ?now" if "((o1, ?ep o1), t) \<in> set (qs_claims st)" for t
    proof -
      from old(2) [OF that] row obtain c where "q_last_claimed_at row = Some c" "t \<le> c" by auto
      with polite [of c] show ?thesis by simp
    qed
    have "\<exists>r c. queue_row_of db' o2 = Some r \<and> q_last_claimed_at r = Some c \<and> t \<le> c"
      if "((o2, e), t) \<in> set (qs_claims st)" "e = ?ep o2" for o2 e t
      using old(2) [OF that] sp [of t] that pos by (cases "o2 = o1") (auto simp: rows claimedRow_def)
    moreover have "polite ?m (qs_claims st @ [((leaseKey l, ?e), ?now)])"
      using inv sp key by (auto simp: queue_inv_def claimsSpaced_def polite_def sorted_wrt_append)
    ultimately show ?thesis
      using key old(1) by (auto simp: claimsSpaced_def rows claimedRow_def)
  qed
  ultimately show ?thesis by (simp add: queue_inv_def)
qed

lemma ballI2: "(\<And>a b. (a, b) \<in> A \<Longrightarrow> P a b) \<Longrightarrow> \<forall>(a, b) \<in> A. P a b"
  by auto

lemma ballI3: "(\<And>a b c. ((a, b), c) \<in> A \<Longrightarrow> P a b c) \<Longrightarrow> \<forall>((a, b), c) \<in> A. P a b c"
  by auto

lemma queue_inv_completed:
  assumes inv: "queue_inv lib h st"
    and c: "CompleteVerification retryDelay (Some h) ctx clock dbErr l result d (qs_db st) = (r, db')"
  shows "queue_inv lib h (st\<lparr>qs_db := db', qs_epoch := nextEpoch (qs_db st) db' (qs_epoch st)\<rparr>)"
proof -
  let ?db = "qs_db st" and ?ep = "qs_epoch st"
  have kept: "\<exists>row. queue_row_of ?db o1 = Some row \<and> advances row row'"
    if "queue_row_of db' o1 = Some row'" for o1 row'
    using c
  proof (cases rule: CompleteVerification_cases)
    case (completed now h' row misses participated)
    from heldRow_row [OF completed(5)] completed(12) that show ?thesis
      by (cases "o1 = leaseKey l")
        (auto simp: completeRow_queue(1) retainedRow_def advances_def release_lease_def split: if_splits)
  qed (use that in \<open>simp add: advances_def\<close>)
  have ep: "?ep o1 \<le> nextEpoch ?db db' ?ep o1" for o1 by (simp add: nextEpoch_def)
  have present: "\<exists>row'. queue_row_of db' o1 = Some row' \<and> advances row row'"
    if "queue_row_of ?db o1 = Some row" "nextEpoch ?db db' ?ep o1 = ?ep o1" for o1 row
    using that kept [of o1] by (cases "queue_row_of db' o1") (auto simp: nextEpoch_def)
  have current: "nextEpoch ?db db' ?ep o1 = ?ep o1" if "e \<le> ?ep o1" "e = nextEpoch ?db db' ?ep o1" for e o1
    using that ep [of o1] by simp
  have "queue_ok db'"
    using CompleteVerification_ok [of ?db retryDelay "Some h" ctx clock dbErr l result d] inv c
    by (simp add: queue_inv_def)
  moreover have "canonicalKeys lib db'"
    using inv kept unfolding queue_inv_def canonicalKeys_def by metis
  moreover have "leasesFenced (nextEpoch ?db db' ?ep) (qs_issued st) db'"
    unfolding leasesFenced_def
  proof (intro conjI ballI2 impI)
    fix e l' assume m: "(e, l') \<in> set (qs_issued st)"
    with inv have old: "e \<le> ?ep (leaseKey l')" "e = ?ep (leaseKey l') \<Longrightarrow>
        \<exists>row. queue_row_of ?db (leaseKey l') = Some row \<and> l_Generation l' \<le> q_lease_generation row"
      by (auto simp: queue_inv_def leasesFenced_def)
    show "e \<le> nextEpoch ?db db' ?ep (leaseKey l')" using old(1) ep by (rule order_trans)
    assume "e = nextEpoch ?db db' ?ep (leaseKey l')"
    with current [OF old(1)] old(2) present [of "leaseKey l'"]
    show "\<exists>row. queue_row_of db' (leaseKey l') = Some row \<and> l_Generation l' \<le> q_lease_generation row"
      by (auto simp: advances_def)
  qed (use inv in \<open>simp add: queue_inv_def leasesFenced_def\<close>)
  moreover have "claimsSpaced (nextEpoch ?db db' ?ep) (MinOriginInterval (qh_config h)) (qs_claims st) db'"
    unfolding claimsSpaced_def
  proof (intro conjI ballI3 impI)
    fix o1 e t assume m: "((o1, e), t) \<in> set (qs_claims st)"
    with inv have old: "e \<le> ?ep o1" "e = ?ep o1 \<Longrightarrow>
        \<exists>row c. queue_row_of ?db o1 = Some row \<and> q_last_claimed_at row = Some c \<and> t \<le> c"
      by (auto simp: queue_inv_def claimsSpaced_def)
    show "e \<le> nextEpoch ?db db' ?ep o1" using old(1) ep by (rule order_trans)
    assume "e = nextEpoch ?db db' ?ep o1"
    with current [OF old(1)] old(2) present [of o1]
    show "\<exists>row c. queue_row_of db' o1 = Some row \<and> q_last_claimed_at row = Some c \<and> t \<le> c"
      by (auto simp: advances_def)
  qed (use inv in \<open>simp add: queue_inv_def claimsSpaced_def\<close>)
  ultimately show ?thesis by (simp add: queue_inv_def)
qed

lemma queue_step_inv:
  assumes "queue_step lib h st st'" and inv: "queue_inv lib h st"
  shows "queue_inv lib h st'"
  using assms(1)
proof cases
  case (tick now)
  with inv show ?thesis by (simp add: queue_inv_def)
next
  case (others db)
  then have "queue_row_of db = queue_row_of (qs_db st)" by (auto simp: queue_row_of_def)
  with others inv show ?thesis
    by (auto simp: queue_inv_def queue_ok_def canonicalKeys_def leasesFenced_def claimsSpaced_def)
next
  case (admitted source t)
  show ?thesis unfolding admitted(1)
  proof (rule queue_inv_preserves [OF inv])
    show "queue_ok (set_row (origin_String source) (new_row t Probe) (qs_db st))"
      using inv admitted by (intro queue_ok_set_row new_row_ok) (auto simp: queue_inv_def)
  qed (use admitted in \<open>auto intro: preserves_new_row\<close>)
next
  case (scheduled source ctx dbErr t r db)
  show ?thesis unfolding scheduled(1)
  proof (rule queue_inv_preserves [OF inv, where new = "{origin_String source}"])
    show "queue_ok db"
      using Schedule_ok [of "qs_db st" "Some h" ctx "Inr (qs_now st)" dbErr source t] inv scheduled
      by (simp add: queue_inv_def)
    show "preserves {origin_String source} (qs_db st) db"
      using Schedule_preserves [of source "qs_db st" "Some h" ctx "Inr (qs_now st)" dbErr t] scheduled by simp
  qed (use scheduled in auto)
next
  case (claimed ctx dbErr locked workerID l db)
  then show ?thesis using queue_inv_claimed [OF inv] by simp
next
  case (renewed ctx dbErr l r db)
  have "queue_ok db" "preserves {} (qs_db st) db"
    using Renew_ok [of "qs_db st" "Some h" ctx "Inr (qs_now st)" dbErr l]
      Renew_preserves [of "qs_db st" "Some h" ctx "Inr (qs_now st)" dbErr l] inv renewed(2)
    by (simp_all add: queue_inv_def)
  then show ?thesis unfolding renewed(1) by (rule queue_inv_same [OF inv])
next
  case (rescheduled ctx dbErr l t r db)
  have "queue_ok db" "preserves {} (qs_db st) db"
    using Reschedule_ok [of "qs_db st" "Some h" ctx "Inr (qs_now st)" dbErr l t]
      Reschedule_preserves [of "qs_db st" "Some h" ctx "Inr (qs_now st)" dbErr l t] inv rescheduled(2)
    by (simp_all add: queue_inv_def)
  then show ?thesis unfolding rescheduled(1) by (rule queue_inv_same [OF inv])
next
  case (abandoned ctx dbErr l r db)
  have "queue_ok db" "preserves {} (qs_db st) db"
    using AbandonVerification_ok [of "qs_db st" "Some h" ctx "Inr (qs_now st)" dbErr l]
      Abandon_preserves [of "qs_db st" "Some h" ctx "Inr (qs_now st)" dbErr l] inv abandoned(2)
    by (simp_all add: queue_inv_def)
  then show ?thesis unfolding abandoned(1) by (rule queue_inv_same [OF inv])
next
  case (completed retryDelay ctx dbErr l result d r db)
  then show ?thesis using queue_inv_completed [OF inv] by simp
qed

lemma queue_reachable_inv: "queue_reachable lib h st \<Longrightarrow> queue_inv lib h st"
proof (induction rule: queue_reachable.induct)
  case (start st)
  then show ?case
    by (simp add: queue_inv_def queue_start_def queue_ok_def canonicalKeys_def leasesFenced_def
        claimsSpaced_def polite_def queue_row_of_def)
qed (auto intro: queue_step_inv)

section \<open>Intervals and rows in closed form\<close>

lemma reprobeLoop_closed:
  "0 \<le> i \<Longrightarrow> i < maxReprobeInterval \<Longrightarrow> reprobeLoop n i = min maxReprobeInterval (i * 2 ^ n)"
proof (induction n arbitrary: i)
  case (Suc n)
  show ?case
  proof (cases "i \<ge> maxReprobeInterval div 2")
    case True
    then have "maxReprobeInterval \<le> i * 2" by (simp add: maxReprobeInterval_def duration_units)
    moreover have "i * 2 \<le> i * 2 ^ Suc n" using Suc.prems by (simp add: mult_left_mono)
    ultimately show ?thesis using True by simp
  next
    case False
    then have "i * 2 < maxReprobeInterval" by (simp add: maxReprobeInterval_def duration_units)
    with False Suc show ?thesis by (simp add: mult.assoc)
  qed
qed simp

lemma reprobeInterval_closed:
  assumes "0 \<le> first"
  shows "reprobeInterval first misses = min maxReprobeInterval (first * 2 ^ nat misses)"
proof (cases "first \<ge> maxReprobeInterval")
  case True
  moreover have "first \<le> first * 2 ^ nat misses" using assms by (simp add: mult_le_cancel_left1)
  ultimately show ?thesis by (simp add: reprobeInterval_def)
next
  case False
  with assms show ?thesis by (simp add: reprobeInterval_def reprobeLoop_closed)
qed

lemma completedOrigin_upsert:
  "completedOrigin cp existing =
   upsertOrigin \<lparr>ob_origin = o1, ob_observed_at = cp_completedAt cp, ob_outcome = cp_outcome cp,
                 ob_version = cp_version cp, ob_identity = cp_identity cp\<rparr> existing"
  by (cases existing)
    (auto simp: completedOrigin_def upsertOrigin_def excludedOrigin_def mergeOrigin_def Let_def
      split: option.splits)

lemma completedStore_record:
  "completedStore cp o1 st =
   recordObservation \<lparr>ob_origin = o1, ob_observed_at = cp_completedAt cp, ob_outcome = cp_outcome cp,
                      ob_version = cp_version cp, ob_identity = cp_identity cp\<rparr> (cp_reprobe cp) st"
  by (simp add: completedStore_def recordObservation_def upsertReprobe_def completedOrigin_upsert [of cp _ o1])

lemma greatest_after_claim_ge:
  "t \<le> greatest_after_claim config row t"
  "q_last_claimed_at row = Some c \<Longrightarrow> c + MinOriginInterval config \<le> greatest_after_claim config row t"
  by (auto simp: greatest_after_claim_def split: option.splits)

lemma heldRow_claimable_None:
  assumes "queue_ok db" and "claimCandidate db locked now p = Some (leaseKey l, row)"
  shows "heldRow l now db = None"
proof -
  have "queue_row_of db (leaseKey l) = Some row"
    by (rule queue_member_row [OF assms(1) claimCandidate_props(1) [OF assms(2)]])
  moreover have "\<not> holdsLease l now row"
    using claimCandidate_props(2) [OF assms(2)] by (auto simp: claimable_def holdsLease_def split: option.splits)
  ultimately show ?thesis by (simp add: heldRow_def)
qed

lemma CompleteVerification_store:
  assumes "CompleteVerification retryDelay q ctx clock dbErr l result d db = (None, db')"
  shows "\<exists>now row. heldRow l now db = Some row \<and> clock = Inr now \<and> qd_store db' =
    recordObservation (observationOf now result) (shouldReprobeOutcome (vr_Outcome result)) (qd_store db)"
  using assms
proof (cases rule: CompleteVerification_cases)
  case (completed now h row misses participated)
  then show ?thesis
    by (simp add: completeRow_def Let_def completedStore_record observationOf_def)
      (simp add: completionOf_def split: prod.splits)
qed simp

lemma Renew_identity:
  "Renew q ctx clock dbErr l db = (Inr l', db') \<Longrightarrow>
   l_Origin l' = l_Origin l \<and> l_WorkerID l' = l_WorkerID l \<and> l_Generation l' = l_Generation l"
  by (auto simp: Renew_def Let_def holdsLease_def dest!: heldRow_row split: option.splits sum.splits if_splits)

lemma outcomeText_valid: "outcomeToText oc \<noteq> None \<Longrightarrow> outcomeText oc = ''valid'' \<longleftrightarrow> oc = OutcomeValid"
  by (cases oc) (simp_all add: outcomeText_def)

section \<open>Properties\<close>

definition exampleQueue :: queue_handle where
  "exampleQueue =
     \<lparr>qh_pool = True,
      qh_config = \<lparr>LeaseDuration = 60, MinOriginInterval = 100, FirstReprobeInterval = 0\<rparr>, qh_clock = True\<rparr>"

definition emptyQueueDb :: queue_db where
  "emptyQueueDb =
     \<lparr>qd_store = emptyStore, qd_queue = [], qd_schedule = (\<lambda>_. False), qd_sources = (\<lambda>_. None),
      qd_candidates = (\<lambda>_. None), qd_paused = False\<rparr>"

text \<open>
  The constraints of the queue table are never violated: with distinct keys and every row satisfying the
  CHECK constraints on leases, workers and retry state, each operation with any arguments keeps it so.
\<close>
theorem queue_constraints_kept:
  assumes "queue_ok db"
  shows "queue_ok (snd (Schedule q ctx clock dbErr source t db)) \<and>
    queue_ok (snd (Claim lib q ctx clock dbErr locked workerID db)) \<and>
    queue_ok (snd (Renew q ctx clock dbErr l db)) \<and>
    queue_ok (snd (Reschedule q ctx clock dbErr l t db)) \<and>
    queue_ok (snd (AbandonVerification q ctx clock dbErr l db)) \<and>
    queue_ok (snd (CompleteVerification retryDelay q ctx clock dbErr l result d db))"
  using Schedule_ok [OF assms] Claim_ok [OF assms] Renew_ok [OF assms] Reschedule_ok [OF assms]
    AbandonVerification_ok [OF assms] CompleteVerification_ok [OF assms] by simp

theorem queue_constraints_kept_witness:
  "queue_ok (snd (Schedule (Some exampleQueue) (Some None) (Inr 5) None exampleOrigin 7 emptyQueueDb))"
proof -
  have "queue_ok emptyQueueDb" by (simp add: queue_ok_def emptyQueueDb_def)
  from queue_constraints_kept [OF this] show ?thesis by blast
qed

text \<open>
  C1. Exclusive and polite work: whatever the workers, the operator and discovery do and in whatever order,
  forged leases included, the table satisfies its constraints, two claims of one origin between which its row
  was not deleted are at least the minimum interval apart, and of all the leases ever issued for one origin
  since the last deletion of its row at most one is authoritative at any moment. The epoch of a log entry is
  the number of deletions of the row before it; what a deletion forgets is \<open>deleted_row_starts_over\<close>.
\<close>
theorem queue_exclusive_polite:
  assumes "queue_reachable lib h st"
  shows "queue_ok (qs_db st) \<and> polite (MinOriginInterval (qh_config h)) (qs_claims st) \<and>
    (\<forall>(e, l) \<in> set (qs_issued st). \<forall>(e', l') \<in> set (qs_issued st).
       leaseKey l = leaseKey l' \<and> e = e' \<and> heldRow l now (qs_db st) \<noteq> None \<and> heldRow l' now (qs_db st) \<noteq> None \<longrightarrow>
       l = l')"
proof -
  have inv: "queue_inv lib h st" by (rule queue_reachable_inv [OF assms])
  have "l = l'" if "(e, l) \<in> set (qs_issued st)" "(e, l') \<in> set (qs_issued st)" "leaseKey l = leaseKey l'"
      "heldRow l now (qs_db st) \<noteq> None" "heldRow l' now (qs_db st) \<noteq> None" for e l l'
  proof -
    from that obtain row where "holdsLease l now row" "holdsLease l' now row"
      by (auto dest!: heldRow_row)
    then have gen: "l_Generation l = l_Generation l'" by (simp add: holdsLease_def)
    from that(1,2) obtain i j where ij: "i < length (qs_issued st)" "qs_issued st ! i = (e, l)"
        "j < length (qs_issued st)" "qs_issued st ! j = (e, l')"
      by (auto simp: in_set_conv_nth)
    have "sorted_wrt (\<lambda>(e, l) (e', l'). leaseKey l = leaseKey l' \<and> e = e' \<longrightarrow> l_Generation l < l_Generation l')
        (qs_issued st)"
      using inv by (simp add: queue_inv_def leasesFenced_def)
    from sorted_wrt_nth_less [OF this, of i j] sorted_wrt_nth_less [OF this, of j i]
    have "\<not> i < j" "\<not> j < i" using ij gen that(3) by auto
    with ij show ?thesis by simp
  qed
  with inv show ?thesis by (fastforce simp: queue_inv_def claimsSpaced_def)
qed

text \<open>A worker claims the work that was scheduled for an origin.\<close>

definition exampleSource :: origin where
  "exampleSource = \<lparr>serialization = ''https://example.com:8443'', hostname = ''example.com'', port = 8443\<rparr>"

definition exampleLease :: lease where
  "exampleLease =
     \<lparr>l_Origin = exampleSource, l_WorkerID = ''w1'', l_Generation = 1, l_ClaimedAt = 500, l_ExpiresAt = 560\<rparr>"

definition exampleClaimed :: queue_db where
  "exampleClaimed =
     emptyQueueDb\<lparr>qd_queue := [(''https://example.com:8443'',
       \<lparr>q_available_at = 400, q_mode = Recurring, q_lease_generation = 1, q_lease_owner = Some ''w1'',
        q_lease_expires_at = Some 560, q_last_claimed_at = Some 500, q_consecutive_failures = 0,
        q_last_failure_category = None, q_next_attempt_at = None\<rparr>)]\<rparr>"

definition exampleScheduled :: queue_db where
  "exampleScheduled = emptyQueueDb\<lparr>qd_queue := [(''https://example.com:8443'', new_row 400 Recurring)]\<rparr>"

lemma exampleQueue_valid: "queue_validate (Some exampleQueue) (Some None) = None"
  by (simp add: queue_validate_def exampleQueue_def validQueueConfig_def)

lemma exampleSource_parse: "Origin.Parse domainLib (origin_String exampleSource) = Inr exampleSource"
  using domainLib_example by (simp add: exampleSource_def origin_String_def)

lemma worker_valid: "validQueueWorkerID ''w1''"
  by (simp add: validQueueWorkerID_def maxQueueWorkerIDLength_def rune_count.simps rune_size_def byte_of_def)

lemma exampleSchedule_runs:
  "Schedule (Some exampleQueue) (Some None) (Inr 500) None exampleSource 400 emptyQueueDb = (None, exampleScheduled)"
  using exampleQueue_valid
  by (simp add: Schedule_def exampleSource_def origin_String_def queue_row_of_def emptyQueueDb_def
      scheduledRow_def set_row_def exampleScheduled_def)

lemma exampleClaim_runs:
  "Claim domainLib (Some exampleQueue) (Some None) (Inr 500) None (\<lambda>_. False) ''w1'' exampleScheduled =
   (Inr (Some exampleLease), exampleClaimed)"
proof -
  have cand: "claimCandidate exampleScheduled (\<lambda>_. False) 500 400 =
      Some (''https://example.com:8443'', new_row 400 Recurring)"
    by (simp add: claimCandidate_def exampleScheduled_def emptyQueueDb_def claimable_def new_row_def)
  have parse: "Origin.Parse domainLib ''https://example.com:8443'' = Inr exampleSource"
    using exampleSource_parse by (simp add: exampleSource_def origin_String_def)
  have cfg: "LeaseDuration (qh_config exampleQueue) = 60" "MinOriginInterval (qh_config exampleQueue) = 100"
    by (simp_all add: exampleQueue_def)
  have paused: "\<not> qd_paused exampleScheduled" by (simp add: exampleScheduled_def emptyQueueDb_def)
  show ?thesis
    using exampleQueue_valid worker_valid cand parse paused
    by (simp add: Claim_def cfg claimedRow_def exampleLease_def new_row_def set_row_def Let_def)
      (simp add: exampleScheduled_def exampleClaimed_def emptyQueueDb_def)
qed

lemma exampleClaimed_reachable:
  "queue_reachable domainLib exampleQueue
     \<lparr>qs_db = exampleClaimed, qs_now = 500, qs_epoch = (\<lambda>_. 0), qs_issued = [(0, exampleLease)],
      qs_claims = [((''https://example.com:8443'', 0), 500)]\<rparr>"
proof -
  let ?st = "\<lambda>db issued claims.
    \<lparr>qs_db = db, qs_now = 500, qs_epoch = (\<lambda>_. 0), qs_issued = issued, qs_claims = claims\<rparr>"
  have "queue_reachable domainLib exampleQueue (?st emptyQueueDb [] [])"
    by (rule queue_reachable.start) (simp add: queue_start_def emptyQueueDb_def)
  then have "queue_reachable domainLib exampleQueue (?st exampleScheduled [] [])"
    using queue_step.scheduled [of domainLib exampleSource exampleQueue "Some None" "?st emptyQueueDb [] []" None 400
        None exampleScheduled] exampleSource_parse exampleSchedule_runs
    by (auto intro: queue_reachable.step)
  then show ?thesis
    using queue_step.claimed [of domainLib exampleQueue "Some None" "?st exampleScheduled [] []" None
        "\<lambda>_. False" "''w1''" exampleLease exampleClaimed] exampleClaim_runs
    by (auto intro: queue_reachable.step simp: exampleLease_def exampleSource_def origin_String_def)
qed

theorem queue_exclusive_polite_witness:
  "queue_ok exampleClaimed \<and> heldRow exampleLease 520 exampleClaimed \<noteq> None"
proof -
  have "queue_ok exampleClaimed"
    using queue_exclusive_polite [OF exampleClaimed_reachable] by simp
  moreover have "heldRow exampleLease 520 exampleClaimed \<noteq> None"
    by (simp add: heldRow_def queue_row_of_def exampleClaimed_def exampleLease_def exampleSource_def
        origin_String_def holdsLease_def)
  ultimately show ?thesis by simp
qed

text \<open>
  A claim takes the first eligible work and only free work: nothing is claimed while paused or when no row
  is claimable; otherwise the claimed row is claimable, no claimable row comes before it (probes first, then
  by availability and origin), no lease on it is authoritative, its last claim is at least the minimum
  interval ago, and the lease has the next generation and ends one lease duration later.
\<close>
theorem Claim_takes_first_free:
  assumes "queue_ok db" and "queue_validate (Some h) ctx = None" and "validQueueWorkerID workerID"
    and "Claim lib (Some h) ctx (Inr now) None locked workerID db = (Inr r, db')"
  shows "case r of
      None \<Rightarrow> db' = db \<and> (qd_paused db \<or>
        (\<forall>entry \<in> set (qd_queue db). \<not> claimable db locked now (now - MinOriginInterval (qh_config h)) entry))
    | Some l \<Rightarrow> \<not> qd_paused db \<and> l_ClaimedAt l = now \<and> l_ExpiresAt l = now + LeaseDuration (qh_config h) \<and>
        (\<exists>o1 row. queue_row_of db o1 = Some row \<and> Origin.Parse lib o1 = Inr (l_Origin l) \<and>
           claimable db locked now (now - MinOriginInterval (qh_config h)) (o1, row) \<and>
           (\<forall>(o2, row2) \<in> set (qd_queue db).
              claimable db locked now (now - MinOriginInterval (qh_config h)) (o2, row2) \<longrightarrow>
              claimKey (o1, row) \<le> claimKey (o2, row2)) \<and>
           (\<forall>l'. leaseKey l' = o1 \<longrightarrow> heldRow l' now db = None) \<and>
           l_Generation l = q_lease_generation row + 1 \<and>
           queue_row_of db' o1 = Some (claimedRow workerID now (l_ExpiresAt l) row))"
proof (cases r)
  case None
  with assms have "qd_paused db \<or> claimCandidate db locked now (now - MinOriginInterval (qh_config h)) = None"
    by (auto simp: Claim_def Let_def split: option.splits sum.splits if_splits)
  moreover have "db' = db" using Claim_unchanged [OF assms(4)] None by simp
  ultimately show ?thesis using None by (auto simp: claimCandidate_None)
next
  case (Some l)
  from assms(4) [unfolded Some] obtain now' h' o1 row where nh: "Inr now = Inr now'" "Some h = Some h'"
      and c': "\<not> qd_paused db"
      "claimCandidate db locked now' (now' - MinOriginInterval (qh_config h')) = Some (o1, row)"
      "Origin.Parse lib o1 = Inr (l_Origin l)" "l_Generation l = q_lease_generation row + 1"
      "l_ClaimedAt l = now'" "l_ExpiresAt l = now' + LeaseDuration (qh_config h')"
      "db' = set_row o1 (claimedRow workerID now' (now' + LeaseDuration (qh_config h')) row) db"
    by (rule Claim_success) blast
  from nh have "now' = now" "h' = h" by simp_all
  note c = c' [unfolded this]
  have "queue_row_of db o1 = Some row"
    by (rule queue_member_row [OF assms(1) claimCandidate_props(1) [OF c(2)]])
  moreover have "\<forall>l'. leaseKey l' = o1 \<longrightarrow> heldRow l' now db = None"
    using heldRow_claimable_None [OF assms(1)] c(2) by blast
  moreover have "queue_row_of db' o1 = Some (claimedRow workerID now (l_ExpiresAt l) row)"
    by (simp add: c queue_rows)
  ultimately show ?thesis
    using Some c claimCandidate_props [OF c(2)] by (auto intro!: exI [of _ o1] exI [of _ row])
qed

theorem Claim_takes_first_free_witness:
  "heldRow exampleLease 500 exampleScheduled = None"
proof -
  have ok: "queue_ok exampleScheduled"
    by (simp add: queue_ok_def exampleScheduled_def emptyQueueDb_def new_row_ok)
  from Claim_takes_first_free [OF ok exampleQueue_valid worker_valid exampleClaim_runs]
  obtain o1 row where "queue_row_of exampleScheduled o1 = Some row"
      and free: "\<forall>l'. leaseKey l' = o1 \<longrightarrow> heldRow l' 500 exampleScheduled = None"
    by (simp only: option.case) blast
  then have "o1 = ''https://example.com:8443''"
    by (simp add: queue_row_of_def exampleScheduled_def split: if_splits)
  moreover have "leaseKey exampleLease = ''https://example.com:8443''"
    by (simp add: exampleLease_def exampleSource_def origin_String_def)
  ultimately show ?thesis using free by simp
qed

text \<open>
  A lease that is no longer authoritative is powerless: with a lease that has expired or been reclaimed,
  renewing, rescheduling, abandoning and completing all report a lost lease and change nothing.
\<close>
theorem stale_lease_powerless:
  assumes "heldRow l now db = None" and "validQueueLease l" and "queue_validate (Some h) ctx = None"
    and "t \<noteq> 0" and "vr_Origin result = l_Origin l" and "validVerificationResult result" and "0 < d"
  shows "Renew (Some h) ctx (Inr now) None l db = (Inl ErrLeaseLost, db) \<and>
    Reschedule (Some h) ctx (Inr now) None l t db = (Some ErrLeaseLost, db) \<and>
    AbandonVerification (Some h) ctx (Inr now) None l db = (Some ErrLeaseLost, db) \<and>
    CompleteVerification retryDelay (Some h) ctx (Inr now) None l result d db = (Some ErrLeaseLost, db)"
proof (intro conjI)
  show "Renew (Some h) ctx (Inr now) None l db = (Inl ErrLeaseLost, db)"
    unfolding Renew_def using assms(1,2,3) by simp
  show "Reschedule (Some h) ctx (Inr now) None l t db = (Some ErrLeaseLost, db)"
    unfolding Reschedule_def using assms(1-4) by simp
  show "AbandonVerification (Some h) ctx (Inr now) None l db = (Some ErrLeaseLost, db)"
    unfolding AbandonVerification_def using assms(1,2,3) by simp
  have "origin_String (l_Origin l) \<noteq> []" using assms(2) by (simp add: validQueueLease_def)
  then show "CompleteVerification retryDelay (Some h) ctx (Inr now) None l result d db = (Some ErrLeaseLost, db)"
    unfolding CompleteVerification_def using assms by simp
qed

lemma exampleLease_valid: "validQueueLease exampleLease"
  by (simp add: validQueueLease_def exampleLease_def worker_valid exampleSource_def origin_String_def)

theorem stale_lease_powerless_witness:
  "Renew (Some exampleQueue) (Some None) (Inr 560) None exampleLease exampleClaimed = (Inl ErrLeaseLost, exampleClaimed)"
proof -
  have "heldRow exampleLease 560 exampleClaimed = None"
    by (simp add: heldRow_def queue_row_of_def exampleClaimed_def exampleLease_def exampleSource_def
        origin_String_def holdsLease_def)
  from stale_lease_powerless [OF this exampleLease_valid exampleQueue_valid, of 1 "resultOf exampleSource OutcomeAbsent" 1]
  show ?thesis
    by (simp add: validVerificationResult_resultOf) (simp add: resultOf_def exampleLease_def)
qed

text \<open>
  What a completion does: the lease it completes was authoritative; other rows are untouched; the probe of
  an origin that is unavailable for a lasting reason is deleted, and every other row stays, released, with its
  generation, in the mode the outcome calls for (recurring when valid, a reprobe after a probe or reprobe that
  missed) and not available before the minimum interval after its claim; the observation is recorded exactly as
  the store records it.
\<close>
theorem CompleteVerification_effect:
  assumes "CompleteVerification retryDelay (Some h) ctx (Inr now) dbErr l result d db = (None, db')"
  shows "\<exists>row. heldRow l now db = Some row \<and>
    (\<forall>o1. o1 \<noteq> leaseKey l \<longrightarrow> queue_row_of db' o1 = queue_row_of db o1) \<and>
    (case queue_row_of db' (leaseKey l) of
       None \<Rightarrow> q_mode row = Probe \<and> vr_Outcome result = OutcomeUnavailable \<and> \<not> completionTransient result
     | Some row' \<Rightarrow>
         q_lease_owner row' = None \<and> q_lease_expires_at row' = None \<and>
         q_lease_generation row' = q_lease_generation row \<and> q_last_claimed_at row' = q_last_claimed_at row \<and>
         (case q_last_claimed_at row of
            None \<Rightarrow> True | Some c \<Rightarrow> c + MinOriginInterval (qh_config h) \<le> q_available_at row') \<and>
         q_mode row' =
           (if vr_Outcome result = OutcomeValid then Recurring
            else if q_mode row \<noteq> Recurring \<and> shouldReprobeOutcome (vr_Outcome result) then Reprobe
            else q_mode row)) \<and>
    qd_store db' = recordObservation (observationOf now result) (shouldReprobeOutcome (vr_Outcome result)) (qd_store db)"
  using assms
proof (cases rule: CompleteVerification_cases)
  case (completed now' h' row misses participated)
  then have hn: "h' = h" "now' = now" by simp_all
  let ?cp = "completionOf retryDelay (qh_config h) l result now d (q_consecutive_failures row) misses participated"
  have db': "db' = completeRow (qh_config h) ?cp (leaseKey l) row db" using completed hn by simp
  have known: "outcomeToText (vr_Outcome result) \<noteq> None"
    using completed(8) by (auto simp: validVerificationResult_def split: if_splits)
  have cp: "cp_outcome ?cp = ''valid'' \<longleftrightarrow> vr_Outcome result = OutcomeValid"
      "cp_transient ?cp = completionTransient result" "cp_reprobe ?cp = shouldReprobeOutcome (vr_Outcome result)"
    using outcomeText_valid [OF known] by (simp_all add: completionOf_def split: prod.splits)
  have md: "q_mode row \<in> {Probe, Reprobe} \<longleftrightarrow> q_mode row \<noteq> Recurring" by (cases "q_mode row") simp_all
  have gone: "q_mode row = Probe \<and> vr_Outcome result = OutcomeUnavailable \<and> \<not> completionTransient result"
    if "retainedRow (qh_config h) ?cp row = None"
  proof -
    have "q_mode row \<notin> {Recurring, Reprobe}" "vr_Outcome result \<noteq> OutcomeValid"
        "\<not> completionTransient result" "\<not> shouldReprobeOutcome (vr_Outcome result)"
      using that cp unfolding retainedRow_def by (metis option.distinct(1))+
    with known show ?thesis
      by (cases "q_mode row"; cases "vr_Outcome result") (simp_all add: shouldReprobeOutcome_def)
  qed
  have stays: "q_lease_owner row' = None \<and> q_lease_expires_at row' = None \<and>
      q_lease_generation row' = q_lease_generation row \<and> q_last_claimed_at row' = q_last_claimed_at row \<and>
      (case q_last_claimed_at row of
         None \<Rightarrow> True | Some c \<Rightarrow> c + MinOriginInterval (qh_config h) \<le> q_available_at row') \<and>
      q_mode row' =
        (if vr_Outcome result = OutcomeValid then Recurring
         else if q_mode row \<noteq> Recurring \<and> shouldReprobeOutcome (vr_Outcome result) then Reprobe
         else q_mode row)"
    if "retainedRow (qh_config h) ?cp row = Some row'" for row'
    using that greatest_after_claim_ge(2) [of row] cp md
    by (auto simp: retainedRow_def release_lease_def retainedMode_def split: if_splits option.splits)
  have store: "qd_store db' =
      recordObservation (observationOf now result) (shouldReprobeOutcome (vr_Outcome result)) (qd_store db)"
    using CompleteVerification_store [OF assms] by auto
  have rest: "\<forall>o1. o1 \<noteq> leaseKey l \<longrightarrow> queue_row_of db' o1 = queue_row_of db o1"
      and mine: "queue_row_of db' (leaseKey l) = retainedRow (qh_config h) ?cp row"
    by (simp_all add: db' completeRow_queue(1))
  have held: "heldRow l now db = Some row" using completed(5) hn by simp
  show ?thesis
  proof (intro exI [of _ row] conjI held rest store)
    show "case queue_row_of db' (leaseKey l) of
       None \<Rightarrow> q_mode row = Probe \<and> vr_Outcome result = OutcomeUnavailable \<and> \<not> completionTransient result
     | Some row' \<Rightarrow>
         q_lease_owner row' = None \<and> q_lease_expires_at row' = None \<and>
         q_lease_generation row' = q_lease_generation row \<and> q_last_claimed_at row' = q_last_claimed_at row \<and>
         (case q_last_claimed_at row of
            None \<Rightarrow> True | Some c \<Rightarrow> c + MinOriginInterval (qh_config h) \<le> q_available_at row') \<and>
         q_mode row' =
           (if vr_Outcome result = OutcomeValid then Recurring
            else if q_mode row \<noteq> Recurring \<and> shouldReprobeOutcome (vr_Outcome result) then Reprobe
            else q_mode row)"
      unfolding mine
    proof (cases "retainedRow (qh_config h) ?cp row", goal_cases)
      case 1
      show ?case unfolding 1 option.case by (rule gone [OF 1])
    next
      case (2 row')
      show ?case unfolding 2 option.case by (rule stays [OF 2])
    qed
  qed
qed simp

text \<open>
  When completed work comes back: a transient failure sets the failure count, category and next attempt, and
  is retried after the policy's delay for that count, or after seven days for a former participant beyond five
  failures; a miss of probe work waits the reprobe interval, which doubles with every earlier miss and is
  capped at seven days; anything else waits the requested recheck time; and never is the work available before
  the minimum interval after its claim.
\<close>
theorem completion_timing:
  assumes "validQueueConfig config"
  shows "reprobeAvailableAt config result completedAt recheckAfter misses =
     completedAt +
     (if shouldReprobeOutcome (vr_Outcome result)
      then min (7 * 24 * hour)
             ((if FirstReprobeInterval config = 0 then 12 * hour else FirstReprobeInterval config) * 2 ^ nat misses)
      else recheckAfter) \<and>
   requestedAvailableAt retryDelay config l result completedAt recheckAfter failures participated =
     (if completionTransient result
      then max (completedAt + (if participated \<and> failures \<ge> 5 then 7 * 24 * hour
                               else retryDelay (failures + 1) (vr_RetryAfter result)))
             (l_ClaimedAt l + MinOriginInterval config)
      else completedAt + recheckAfter) \<and>
   (case retainedRow config
      (completionOf retryDelay config l result completedAt recheckAfter failures misses participated) row of
      None \<Rightarrow> True
    | Some row' \<Rightarrow>
        q_available_at row' = greatest_after_claim config row
          (if q_mode row \<noteq> Recurring \<and> shouldReprobeOutcome (vr_Outcome result)
           then reprobeAvailableAt config result completedAt recheckAfter misses
           else requestedAvailableAt retryDelay config l result completedAt recheckAfter failures participated) \<and>
        q_consecutive_failures row' = (if completionTransient result then failures + 1 else 0) \<and>
        q_next_attempt_at row' = (if completionTransient result then Some (q_available_at row') else None))"
proof (intro conjI)
  have "0 \<le> FirstReprobeInterval config" using assms by (simp add: validQueueConfig_def)
  then show "reprobeAvailableAt config result completedAt recheckAfter misses =
     completedAt +
     (if shouldReprobeOutcome (vr_Outcome result)
      then min (7 * 24 * hour)
             ((if FirstReprobeInterval config = 0 then 12 * hour else FirstReprobeInterval config) * 2 ^ nat misses)
      else recheckAfter)"
    by (simp add: reprobeAvailableAt_def reprobeInterval_closed defaultFirstReprobeInterval_def
        maxReprobeInterval_def hour_def minute_def second_def)
  show "requestedAvailableAt retryDelay config l result completedAt recheckAfter failures participated =
     (if completionTransient result
      then max (completedAt + (if participated \<and> failures \<ge> 5 then 7 * 24 * hour
                               else retryDelay (failures + 1) (vr_RetryAfter result)))
             (l_ClaimedAt l + MinOriginInterval config)
      else completedAt + recheckAfter)"
    by (auto simp: requestedAvailableAt_def transientRetryBackoffSteps_def staleParticipantRecheckInterval_def
        Let_def)
  let ?cp = "completionOf retryDelay config l result completedAt recheckAfter failures misses participated"
  have cp: "cp_transient ?cp = completionTransient result" "cp_reprobe ?cp = shouldReprobeOutcome (vr_Outcome result)"
      "cp_nextFailures ?cp = (if completionTransient result then failures + 1 else 0)"
      "cp_requestedAvailableAt ?cp =
         requestedAvailableAt retryDelay config l result completedAt recheckAfter failures participated"
      "cp_reprobeAvailableAt ?cp = reprobeAvailableAt config result completedAt recheckAfter misses"
    by (simp_all add: completionOf_def split: prod.splits)
  have md: "q_mode row \<in> {Probe, Reprobe} \<longleftrightarrow> q_mode row \<noteq> Recurring" by (cases "q_mode row") simp_all
  have excl: "\<not> (completionTransient result \<and> shouldReprobeOutcome (vr_Outcome result))"
    by (auto simp: completionTransient_def shouldReprobeOutcome_def)
  show "case retainedRow config ?cp row of
      None \<Rightarrow> True
    | Some row' \<Rightarrow>
        q_available_at row' = greatest_after_claim config row
          (if q_mode row \<noteq> Recurring \<and> shouldReprobeOutcome (vr_Outcome result)
           then reprobeAvailableAt config result completedAt recheckAfter misses
           else requestedAvailableAt retryDelay config l result completedAt recheckAfter failures participated) \<and>
        q_consecutive_failures row' = (if completionTransient result then failures + 1 else 0) \<and>
        q_next_attempt_at row' = (if completionTransient result then Some (q_available_at row') else None)"
    using excl cp md unfolding retainedRow_def release_lease_def by auto
qed

theorem completion_timing_witness:
  "reprobeAvailableAt (qh_config exampleQueue) (resultOf exampleSource OutcomeAbsent) 520 10 3 = 520 + 96 * hour"
proof -
  have "validQueueConfig (qh_config exampleQueue)" by (simp add: exampleQueue_def validQueueConfig_def)
  from completion_timing [OF this, of "resultOf exampleSource OutcomeAbsent" 520 10 3]
  show ?thesis
    by (simp add: resultOf_def shouldReprobeOutcome_def exampleQueue_def hour_def minute_def second_def)
qed

lemma exampleComplete_runs:
  "fst (CompleteVerification (\<lambda>n r. 0) (Some exampleQueue) (Some None) (Inr 520) None exampleLease
     ((resultOf exampleSource OutcomeValid)\<lparr>vr_Declaration := \<lparr>Version = 1, Identity = IdentityAffirmed\<rparr>\<rparr>)
     10 exampleClaimed) = None"
proof -
  let ?r = "(resultOf exampleSource OutcomeValid)\<lparr>vr_Declaration := \<lparr>Version = 1, Identity = IdentityAffirmed\<rparr>\<rparr>"
  have v: "validVerificationResult ?r" "vr_Origin ?r = l_Origin exampleLease"
    by (simp_all add: validVerificationResult_def resultOf_def validIdentity_def exampleLease_def)
  have o: "origin_String (l_Origin exampleLease) \<noteq> []"
    by (simp add: exampleLease_def exampleSource_def origin_String_def)
  obtain row where row: "heldRow exampleLease 520 exampleClaimed = Some row" "q_mode row = Recurring"
    by (simp add: heldRow_def queue_row_of_def exampleClaimed_def exampleLease_def exampleSource_def
        origin_String_def holdsLease_def)
  have w: "workPermitted exampleClaimed (origin_String (l_Origin exampleLease)) row"
    using row(2) by (simp add: workPermitted_def)
  show ?thesis
    unfolding CompleteVerification_def exampleQueue_valid option.case
    using exampleLease_valid v o row(1) w by (simp add: Let_def)
qed

theorem CompleteVerification_effect_witness:
  "\<exists>row. heldRow exampleLease 520 exampleClaimed = Some row"
proof -
  let ?c = "CompleteVerification (\<lambda>n r. 0) (Some exampleQueue) (Some None) (Inr 520) None exampleLease
     ((resultOf exampleSource OutcomeValid)\<lparr>vr_Declaration := \<lparr>Version = 1, Identity = IdentityAffirmed\<rparr>\<rparr>)
     10 exampleClaimed"
  have "?c = (None, snd ?c)" using exampleComplete_runs by (metis prod.collapse)
  from CompleteVerification_effect [OF this] show ?thesis by blast
qed

text \<open>
  What a deletion forgets: when the completion of a probe (its origin unavailable for a lasting reason)
  deletes the row, an operator may schedule the origin again at any time, and the new row has no last claim and
  generation 0: it is claimable at that very moment, however recent the claim of the deleted row was, and when
  the same worker claims it, a lease of generation 1 issued before the deletion is authoritative again until
  the new lease ends.
\<close>
theorem deleted_row_starts_over:
  assumes "CompleteVerification retryDelay (Some h) ctx (Inr completedAt) dbErr l result d db = (None, db')"
    and "heldRow l completedAt db = Some row" and "q_mode row = Probe"
    and "vr_Outcome result = OutcomeUnavailable" and "\<not> completionTransient result"
    and "queue_validate (Some h) ctx' = None" and "availableAt \<noteq> 0" and "availableAt \<le> now"
    and "\<not> locked (leaseKey l)"
  shows "queue_row_of db' (leaseKey l) = None \<and>
    (\<exists>db''. Schedule (Some h) ctx' (Inr now) None (l_Origin l) availableAt db' = (None, db'') \<and>
       queue_row_of db'' (leaseKey l) = Some (new_row availableAt Recurring) \<and>
       claimable db'' locked now (now - MinOriginInterval (qh_config h)) (leaseKey l, new_row availableAt Recurring)) \<and>
    (l_Generation l = 1 \<and> later < now + LeaseDuration (qh_config h) \<longrightarrow>
       holdsLease l later
         (claimedRow (l_WorkerID l) now (now + LeaseDuration (qh_config h)) (new_row availableAt Recurring)))"
proof -
  have gone: "queue_row_of db' (leaseKey l) = None" and key: "leaseKey l \<noteq> []"
  proof -
    from assms(1) show "queue_row_of db' (leaseKey l) = None"
    proof (cases rule: CompleteVerification_cases)
      case (completed now' h' row' misses participated)
      with assms(2-5) show ?thesis
        by (simp add: completeRow_queue(1) retainedRow_def completionOf_def outcomeText_def
            shouldReprobeOutcome_def split: prod.splits)
    qed simp
    from assms(1,6) show "leaseKey l \<noteq> []"
      by (auto simp: CompleteVerification_def validQueueLease_def split: option.splits if_splits)
  qed
  let ?db = "set_row (leaseKey l) (new_row availableAt Recurring) db'"
  have "Schedule (Some h) ctx' (Inr now) None (l_Origin l) availableAt db' = (None, ?db)"
    using assms(6,7) gone key by (simp add: Schedule_def scheduledRow_def)
  moreover have "queue_row_of ?db (leaseKey l) = Some (new_row availableAt Recurring)"
    by (simp add: queue_rows)
  moreover have "claimable ?db locked now (now - MinOriginInterval (qh_config h))
      (leaseKey l, new_row availableAt Recurring)"
    using assms(8,9) by (simp add: claimable_def new_row_def)
  moreover have "holdsLease l later
      (claimedRow (l_WorkerID l) now (now + LeaseDuration (qh_config h)) (new_row availableAt Recurring))"
    if "l_Generation l = 1" "later < now + LeaseDuration (qh_config h)"
    using that by (simp add: holdsLease_def claimedRow_def new_row_def)
  ultimately show ?thesis using gone by blast
qed

text \<open>The origin claimed at 500 is claimable again at 510 although the minimum interval is 100.\<close>

definition exampleProbing :: queue_db where
  "exampleProbing =
     emptyQueueDb\<lparr>qd_queue := [(''https://example.com:8443'',
       \<lparr>q_available_at = 400, q_mode = Probe, q_lease_generation = 1, q_lease_owner = Some ''w1'',
        q_lease_expires_at = Some 560, q_last_claimed_at = Some 500, q_consecutive_failures = 0,
        q_last_failure_category = None, q_next_attempt_at = None\<rparr>)]\<rparr>"

theorem deleted_row_starts_over_witness:
  "let db' = snd (CompleteVerification (\<lambda>n r. 0) (Some exampleQueue) (Some None) (Inr 510) None exampleLease
                    (unavailable exampleSource CategoryHTTP4xx 0) 10 exampleProbing)
   in \<exists>db''. Schedule (Some exampleQueue) (Some None) (Inr 510) None exampleSource 505 db' = (None, db'') \<and>
        claimable db'' (\<lambda>_. False) 510 410 (''https://example.com:8443'', new_row 505 Recurring)"
proof -
  let ?r = "unavailable exampleSource CategoryHTTP4xx 0"
  let ?c = "CompleteVerification (\<lambda>n r. 0) (Some exampleQueue) (Some None) (Inr 510) None exampleLease ?r 10 exampleProbing"
  have v: "validVerificationResult ?r" "vr_Origin ?r = l_Origin exampleLease"
    by (simp_all add: validVerificationResult_def unavailable_def resultOf_def exampleLease_def category_Valid_def
        MaxDelay_def duration_units)
  have o: "leaseKey exampleLease = ''https://example.com:8443''"
    by (simp add: exampleLease_def exampleSource_def origin_String_def)
  obtain row where row: "heldRow exampleLease 510 exampleProbing = Some row" "q_mode row = Probe"
    by (simp add: heldRow_def queue_row_of_def exampleProbing_def exampleLease_def exampleSource_def
        origin_String_def holdsLease_def)
  have w: "workPermitted exampleProbing (leaseKey exampleLease) row"
    by (simp add: workPermitted_def crawlBlocked_def exampleProbing_def emptyQueueDb_def)
  have "fst ?c = None"
    unfolding CompleteVerification_def exampleQueue_valid option.case
    using exampleLease_valid v o row(1) w by (simp add: Let_def)
  then have "?c = (None, snd ?c)" by (metis prod.collapse)
  have u: "vr_Outcome ?r = OutcomeUnavailable" "\<not> completionTransient ?r"
    by (simp_all add: unavailable_def resultOf_def completionTransient_def completionCategory_def Transient_def)
  have f: "l_Origin exampleLease = exampleSource" "MinOriginInterval (qh_config exampleQueue) = 100"
      "origin_String exampleSource = ''https://example.com:8443''"
    by (simp_all add: exampleLease_def exampleQueue_def exampleSource_def origin_String_def)
  have "(505::go_time) \<noteq> 0" "(505::go_time) \<le> 510" by simp_all
  from deleted_row_starts_over [OF \<open>?c = _\<close> row u exampleQueue_valid \<open>505 \<noteq> 0\<close> \<open>505 \<le> 510\<close>, of "\<lambda>_. False"]
  show ?thesis unfolding Let_def f by auto
qed

end
