(* ===== verification/Worker.thy ===== *)
theory Worker
  imports Queue
begin

text \<open>
  The verification worker, \<^verbatim>\<open>internal/worker/worker.go\<close>: it claims a lease, verifies the origin with at most
  one retry, keeps enough of the lease in hand for each attempt, and completes or abandons. A worker acts on a
  state of type \<open>'w\<close>; its queue, verifier, waiter, timeout factory and observer are the functions of the Go
  interfaces, acting on that state. A context is what its \<^verbatim>\<open>Err\<close> method answers in each state.

  \<open>worker_protocol\<close> is the automaton of the calls a worker may make, \<open>worker_contract\<close> the interface it
  relies on. The contract is interpreted on the queue and the verifier of this development, with every other
  process free to change the database before each call of the queue.
\<close>

definition maxWorkerIDLength :: nat where "maxWorkerIDLength = 128"

definition ErrInsufficientLeaseBudget where
  "ErrInsufficientLeaseBudget = Sentinel ''worker: insufficient lease budget''"
definition errWorkerUnavailable where "errWorkerUnavailable = Sentinel ''worker: unavailable''"
definition errWorkerQueueUnavailable where "errWorkerQueueUnavailable = Sentinel ''worker: queue unavailable''"
definition errWorkerVerifierUnavailable where
  "errWorkerVerifierUnavailable = Sentinel ''worker: verifier unavailable''"
definition errWaiterUnavailable where "errWaiterUnavailable = Sentinel ''worker: waiter unavailable''"
definition errTimeoutFactoryUnavailable where
  "errTimeoutFactoryUnavailable = Sentinel ''worker: timeout factory unavailable''"
definition errInvalidWorkerContext where "errInvalidWorkerContext = Sentinel ''worker: invalid context''"
definition errInvalidWorkerConfig where "errInvalidWorkerConfig = Sentinel ''worker: invalid configuration''"

section \<open>Interfaces and state\<close>

type_synonym 'w ctx_err = "'w \<Rightarrow> go_error option"

record 'w worker_queue =
  wq_Claim :: "'w ctx_err \<Rightarrow> string \<Rightarrow> 'w \<Rightarrow> (go_error + lease option) \<times> 'w"
  wq_Renew :: "'w ctx_err \<Rightarrow> lease \<Rightarrow> 'w \<Rightarrow> (go_error + lease) \<times> 'w"
  wq_CompleteVerification ::
    "'w ctx_err \<Rightarrow> lease \<Rightarrow> verification_result \<Rightarrow> duration \<Rightarrow> 'w \<Rightarrow> go_error option \<times> 'w"
  wq_AbandonVerification :: "'w ctx_err \<Rightarrow> lease \<Rightarrow> 'w \<Rightarrow> go_error option \<times> 'w"
  wq_VerificationPaused :: "('w ctx_err \<Rightarrow> 'w \<Rightarrow> (go_error + bool) \<times> 'w) option"

type_synonym 'w worker_verifier =
  "'w ctx_err \<Rightarrow> origin \<Rightarrow> 'w \<Rightarrow> (go_error + verification_result) \<times> 'w"

record worker_config =
  wc_WorkerID :: string
  wc_PollInterval :: duration
  wc_JobTimeout :: duration
  wc_CompletionGrace :: duration
  wc_RecheckInterval :: duration

record 'w worker =
  wk_queue :: "'w worker_queue option"
  wk_verifier :: "'w worker_verifier option"
  wk_config :: worker_config
  wk_waiter :: "('w ctx_err \<Rightarrow> duration \<Rightarrow> 'w \<Rightarrow> go_error option \<times> 'w) option"
  wk_timeoutFactory :: "('w ctx_err \<Rightarrow> duration \<Rightarrow> 'w \<Rightarrow> 'w ctx_err) option"
  wk_observer :: "(string \<Rightarrow> origin \<Rightarrow> string \<Rightarrow> 'w \<Rightarrow> 'w) option"
  wk_now :: "('w \<Rightarrow> go_time) option"

text \<open>What the worker uses of the process: the system clock and the log line of a timeout.\<close>

record 'w worker_env =
  we_Now :: "'w \<Rightarrow> go_time"
  we_logVerificationTimeout :: "origin \<Rightarrow> string \<Rightarrow> 'w \<Rightarrow> 'w"

section \<open>Validation\<close>

definition validConfig :: "worker_config \<Rightarrow> bool" where
  "validConfig config \<longleftrightarrow>
     wc_WorkerID config \<noteq> [] \<and> rune_count (wc_WorkerID config) \<le> maxWorkerIDLength \<and>
     wc_PollInterval config > 0 \<and> wc_JobTimeout config > 0 \<and> wc_CompletionGrace config > 0 \<and>
     wc_RecheckInterval config > 0"

text \<open>The subtraction is that of \<^verbatim>\<open>int64\<close>.\<close>

definition hasCompletionBudget :: "duration \<Rightarrow> duration \<Rightarrow> duration \<Rightarrow> bool" where
  "hasCompletionBudget leaseBudget jobTimeout completionGrace \<longleftrightarrow>
     leaseBudget > 0 \<and> completionGrace < leaseBudget \<and>
     jobTimeout < sint (word_of_int (leaseBudget - completionGrace) :: 64 word)"

definition newWorker ::
    "'w worker_queue option \<Rightarrow> 'w worker_verifier option \<Rightarrow> worker_config \<Rightarrow>
     ('w ctx_err \<Rightarrow> duration \<Rightarrow> 'w \<Rightarrow> go_error option \<times> 'w) option \<Rightarrow>
     ('w ctx_err \<Rightarrow> duration \<Rightarrow> 'w \<Rightarrow> 'w ctx_err) option \<Rightarrow> go_error + 'w worker" where
  "newWorker queue verifier config waiter timeoutFactory =
     (if queue = None then Inl errWorkerQueueUnavailable
      else if verifier = None then Inl errWorkerVerifierUnavailable
      else if \<not> validConfig config then Inl errInvalidWorkerConfig
      else if waiter = None then Inl errWaiterUnavailable
      else if timeoutFactory = None then Inl errTimeoutFactoryUnavailable
      else Inr \<lparr>wk_queue = queue, wk_verifier = verifier, wk_config = config, wk_waiter = waiter,
                wk_timeoutFactory = timeoutFactory, wk_observer = None, wk_now = None\<rparr>)"

definition SetLifecycleObserver ::
    "(string \<Rightarrow> origin \<Rightarrow> string \<Rightarrow> 'w \<Rightarrow> 'w) option \<Rightarrow> 'w worker option \<Rightarrow> 'w worker option" where
  "SetLifecycleObserver obs wk = map_option (\<lambda>w. w\<lparr>wk_observer := obs\<rparr>) wk"

definition observe :: "'w worker \<Rightarrow> string \<Rightarrow> origin \<Rightarrow> string \<Rightarrow> 'w \<Rightarrow> 'w" where
  "observe wk state source message w =
     (case wk_observer wk of None \<Rightarrow> w | Some obs \<Rightarrow> obs state source message w)"

definition currentTime :: "'w worker_env \<Rightarrow> 'w worker \<Rightarrow> 'w \<Rightarrow> go_time" where
  "currentTime env wk w = (case wk_now wk of Some now \<Rightarrow> now w | None \<Rightarrow> we_Now env w)"

definition worker_validate :: "'w worker option \<Rightarrow> 'w go_context \<Rightarrow> bool \<Rightarrow> 'w \<Rightarrow> go_error option" where
  "worker_validate wk ctx requireWaiter w =
     (case wk of
        None \<Rightarrow> Some errWorkerUnavailable
      | Some wk \<Rightarrow>
          (case ctx of
             None \<Rightarrow> Some errInvalidWorkerContext
           | Some ctx_Err \<Rightarrow>
               (case ctx_Err w of
                  Some err \<Rightarrow> Some err
                | None \<Rightarrow>
                    if wk_queue wk = None then Some errWorkerQueueUnavailable
                    else if wk_verifier wk = None then Some errWorkerVerifierUnavailable
                    else if \<not> validConfig (wk_config wk) then Some errInvalidWorkerConfig
                    else if wk_timeoutFactory wk = None then Some errTimeoutFactoryUnavailable
                    else if requireWaiter \<and> wk_waiter wk = None then Some errWaiterUnavailable
                    else None)))"

section \<open>Verification under a lease\<close>

definition leaseBudget :: "'w worker_env \<Rightarrow> 'w worker \<Rightarrow> lease \<Rightarrow> 'w \<Rightarrow> bool" where
  "leaseBudget env wk l w =
     hasCompletionBudget (time_Sub (l_ExpiresAt l) (currentTime env wk w))
       (wc_JobTimeout (wk_config wk)) (wc_CompletionGrace (wk_config wk))"

text \<open>The lease comes back beside an error as well: the caller abandons it.\<close>

definition ensureVerificationLeaseBudget ::
    "'w worker_env \<Rightarrow> 'w worker \<Rightarrow> 'w ctx_err \<Rightarrow> lease \<Rightarrow> 'w \<Rightarrow> (lease \<times> go_error option) \<times> 'w" where
  "ensureVerificationLeaseBudget env wk ctx l w =
     (if leaseBudget env wk l w then ((l, None), w)
      else (case wq_Renew (the (wk_queue wk)) ctx l w of
              (Inl renewErr, w) \<Rightarrow>
                (let w = observe wk ''failed'' (l_Origin l) ''lease_renewal_failed'' w
                 in case ctx w of
                      Some contextError \<Rightarrow> ((l, Some contextError), w)
                    | None \<Rightarrow> ((l, Some (Wrap ''worker: renew lease'' [renewErr])), w))
            | (Inr renewed, w) \<Rightarrow>
                if \<not> leaseBudget env wk renewed w
                then (let w = observe wk ''failed'' (l_Origin renewed) ''insufficient_lease_budget'' w
                      in ((renewed, Some ErrInsufficientLeaseBudget), w))
                else ((renewed, None), w)))"

text \<open>
  One call of the verifier under its own timeout (lines 363-393): a result, or a hard error; an error of an
  attempt whose own timeout fired is an unavailable result.
\<close>

definition verifyAttempt ::
    "'w worker \<Rightarrow> 'w ctx_err \<Rightarrow> lease \<Rightarrow> bool \<Rightarrow> 'w \<Rightarrow>
     (go_error + verification_result \<times> bool) \<times> 'w" where
  "verifyAttempt wk ctx current anyTimeout w =
     (let jobContext = the (wk_timeoutFactory wk) ctx (wc_JobTimeout (wk_config wk)) w
      in case the (wk_verifier wk) jobContext (l_Origin current) w of
           (Inr result, w) \<Rightarrow> (Inr (result, anyTimeout), w)
         | (Inl err, w) \<Rightarrow>
             (case ctx w of
                Some contextError \<Rightarrow> (Inl contextError, w)
              | None \<Rightarrow>
                  if jobContext w = None
                  then (let w = observe wk ''failed'' (l_Origin current) ''verification_failed'' w
                        in (Inl (Wrap ''worker: verify origin'' [err]), w))
                  else (Inr (unavailable (l_Origin current) CategoryTimeout 0, True), w)))"

definition categorized :: "verification_result \<Rightarrow> verification_result" where
  "categorized result =
     (if vr_Outcome result = OutcomeUnavailable \<and> vr_FailureCategory result = CategoryNone
      then result\<lparr>vr_FailureCategory := CategoryDeclarationUnavailable\<rparr> else result)"

definition finalResult :: "verification_result \<Rightarrow> bool" where
  "finalResult result \<longleftrightarrow>
     vr_Outcome result \<noteq> OutcomeUnavailable \<or> \<not> Transient (vr_FailureCategory result)"

function verifyLoop_from ::
    "'w worker_env \<Rightarrow> 'w worker \<Rightarrow> 'w ctx_err \<Rightarrow> nat \<Rightarrow> bool \<Rightarrow> verification_result \<Rightarrow> lease \<Rightarrow> 'w \<Rightarrow>
     ((go_error + verification_result) \<times> lease \<times> bool) \<times> 'w" where
  "verifyLoop_from env wk ctx attempt anyTimeout lastResult current w =
     (if attempt > MaxAttemptsPerCycle then ((Inr lastResult, current, anyTimeout), w)
      else (case ensureVerificationLeaseBudget env wk ctx current w of
              ((ensured, Some ensureErr), w) \<Rightarrow> ((Inl ensureErr, ensured, anyTimeout), w)
            | ((current, None), w) \<Rightarrow>
                (case verifyAttempt wk ctx current anyTimeout w of
                   (Inl err, w) \<Rightarrow> ((Inl err, current, anyTimeout), w)
                 | (Inr (result, anyTimeout), w) \<Rightarrow>
                     (let result = categorized result
                      in if finalResult result then ((Inr result, current, anyTimeout), w)
                         else if attempt = MaxAttemptsPerCycle \<or> vr_RetryAfter result > 0
                         then ((Inr result, current, anyTimeout), w)
                         else verifyLoop_from env wk ctx (Suc attempt) anyTimeout result current w))))"
  by pat_completeness auto
termination
  by (relation "measure (\<lambda>(_, _, _, attempt, _). Suc MaxAttemptsPerCycle - attempt)") auto

declare verifyLoop_from.simps [simp del]

definition result_zero :: verification_result where
  "result_zero = resultOf origin_zero OutcomeInvalid"

definition verifyWithRetries ::
    "'w worker_env \<Rightarrow> 'w worker \<Rightarrow> 'w ctx_err \<Rightarrow> lease \<Rightarrow> 'w \<Rightarrow>
     ((go_error + verification_result) \<times> lease \<times> bool) \<times> 'w" where
  "verifyWithRetries env wk ctx l w = verifyLoop_from env wk ctx 1 False result_zero l w"

definition abandonHardVerifyFailure ::
    "'w worker \<Rightarrow> 'w ctx_err \<Rightarrow> lease \<Rightarrow> 'w \<Rightarrow> go_error option \<times> 'w" where
  "abandonHardVerifyFailure wk ctx l w =
     (let abandonContext = the (wk_timeoutFactory wk) ctx (wc_CompletionGrace (wk_config wk)) w
      in case wq_AbandonVerification (the (wk_queue wk)) abandonContext l w of
           (None, w) \<Rightarrow> (None, w)
         | (Some abandonErr, w) \<Rightarrow>
             (case ctx w of
                Some contextError \<Rightarrow> (Some contextError, w)
              | None \<Rightarrow> (Some (Wrap ''worker: abandon verification'' [abandonErr]), w)))"

section \<open>One unit of work\<close>

text \<open>A failed completion (lines 282-326); \<open>l\<close> is the lease, \<open>timedOut\<close> whether an attempt timed out.\<close>

definition completionFailed ::
    "'w worker_env \<Rightarrow> 'w worker \<Rightarrow> 'w ctx_err \<Rightarrow> 'w ctx_err \<Rightarrow> lease \<Rightarrow> bool \<Rightarrow> go_error \<Rightarrow> 'w \<Rightarrow>
     (bool \<times> go_error option) \<times> 'w" where
  "completionFailed env wk ctx completionContext l timedOut err w =
     (let w = observe wk ''failed'' (l_Origin l) ''completion_failed'' w
      in case ctx w of
           Some contextError \<Rightarrow> ((True, Some contextError), w)
         | None \<Rightarrow>
             (let completionError = Wrap ''worker: complete verification'' [err];
                  finish = (\<lambda>w. case completionContext w of
                                  Some contextError \<Rightarrow> ((True, Some contextError), w)
                                | None \<Rightarrow> ((True, Some completionError), w))
              in if timedOut
                 then (let abandonContext =
                             the (wk_timeoutFactory wk) ctx (wc_CompletionGrace (wk_config wk)) w
                       in case wq_AbandonVerification (the (wk_queue wk)) abandonContext l w of
                            (Some abandonError, w) \<Rightarrow>
                              (let w = we_logVerificationTimeout env (l_Origin l) ''abandon_failed'' w
                               in case ctx w of
                                    Some contextError \<Rightarrow> ((True, Some contextError), w)
                                  | None \<Rightarrow>
                                      ((True, Some (Wrap ''errors.Join''
                                         [completionError, Wrap ''worker: abandon verification'' [abandonError]])), w))
                          | (None, w) \<Rightarrow>
                              finish (we_logVerificationTimeout env (l_Origin l) ''abandoned'' w))
                 else finish w))"

definition completeWork ::
    "'w worker_env \<Rightarrow> 'w worker \<Rightarrow> 'w ctx_err \<Rightarrow> lease \<Rightarrow> verification_result \<Rightarrow> bool \<Rightarrow> 'w \<Rightarrow>
     (bool \<times> go_error option) \<times> 'w" where
  "completeWork env wk ctx l result timedOut w =
     (case ctx w of
        Some contextError \<Rightarrow> ((True, Some contextError), w)
      | None \<Rightarrow>
          (let completionContext = the (wk_timeoutFactory wk) ctx (wc_CompletionGrace (wk_config wk)) w
           in case wq_CompleteVerification (the (wk_queue wk)) completionContext l result
                     (wc_RecheckInterval (wk_config wk)) w of
                (Some err, w) \<Rightarrow> completionFailed env wk ctx completionContext l timedOut err w
              | (None, w) \<Rightarrow>
                  (let w = (if timedOut then we_logVerificationTimeout env (l_Origin l) ''completed'' w else w);
                       w = observe wk ''idle'' origin_zero [] w
                   in ((True, None), w))))"

text \<open>No work was claimed (lines 223-237).\<close>

definition idlePoll :: "'w worker \<Rightarrow> 'w ctx_err \<Rightarrow> 'w \<Rightarrow> (bool \<times> go_error option) \<times> 'w" where
  "idlePoll wk ctx w =
     (case wq_VerificationPaused (the (wk_queue wk)) of
        None \<Rightarrow> ((False, None), observe wk ''idle'' origin_zero [] w)
      | Some verificationPaused \<Rightarrow>
          (case verificationPaused ctx w of
             (Inl pauseErr, w) \<Rightarrow>
               ((False, Some pauseErr), observe wk ''failed'' origin_zero ''control_read_failed'' w)
           | (Inr paused, w) \<Rightarrow>
               ((False, None), observe wk (if paused then ''paused'' else ''idle'') origin_zero [] w)))"

definition processLease ::
    "'w worker_env \<Rightarrow> 'w worker \<Rightarrow> 'w ctx_err \<Rightarrow> lease \<Rightarrow> 'w \<Rightarrow> (bool \<times> go_error option) \<times> 'w" where
  "processLease env wk ctx l w =
     (let w = observe wk ''running'' (l_Origin l) [] w
      in case verifyWithRetries env wk ctx l w of
           ((Inl err, l, timedOut), w) \<Rightarrow>
             (case abandonHardVerifyFailure wk ctx l w of
                (Some abandonErr, w) \<Rightarrow> ((True, Some (Wrap ''errors.Join'' [err, abandonErr])), w)
              | (None, w) \<Rightarrow> ((True, Some err), w))
         | ((Inr result, l, timedOut), w) \<Rightarrow> completeWork env wk ctx l result timedOut w)"

definition RunOnce ::
    "'w worker_env \<Rightarrow> 'w worker option \<Rightarrow> 'w go_context \<Rightarrow> 'w \<Rightarrow> (bool \<times> go_error option) \<times> 'w" where
  "RunOnce env wk ctx w =
     (case worker_validate wk ctx False w of
        Some err \<Rightarrow> ((False, Some err), w)
      | None \<Rightarrow>
          (let wk = the wk; ctx = the ctx
           in case wq_Claim (the (wk_queue wk)) ctx (wc_WorkerID (wk_config wk)) w of
                (Inl err, w) \<Rightarrow>
                  ((False, Some (Wrap ''worker: claim work'' [err])),
                   observe wk ''failed'' origin_zero ''claim_failed'' w)
              | (Inr None, w) \<Rightarrow> idlePoll wk ctx w
              | (Inr (Some l), w) \<Rightarrow> processLease env wk ctx l w))"

section \<open>The worker loop\<close>

text \<open>One turn of the loop of \<^verbatim>\<open>Run\<close>: \<open>Some\<close> the error the loop returns, or \<open>None\<close> to go on.\<close>

definition runTurn ::
    "'w worker_env \<Rightarrow> 'w worker \<Rightarrow> 'w ctx_err \<Rightarrow> 'w \<Rightarrow> go_error option \<times> 'w" where
  "runTurn env wk ctx w =
     (let pause = (\<lambda>w. the (wk_waiter wk) ctx (wc_PollInterval (wk_config wk)) w)
      in case RunOnce env (Some wk) (Some ctx) w of
           ((worked, Some err), w) \<Rightarrow>
             (case ctx w of
                Some contextError \<Rightarrow> (Some contextError, w)
              | None \<Rightarrow> if worked then (None, w) else pause w)
         | ((worked, None), w) \<Rightarrow> if worked then (None, w) else pause w)"

partial_function (option) runLoop ::
    "'w worker_env \<Rightarrow> 'w worker \<Rightarrow> 'w ctx_err \<Rightarrow> 'w \<Rightarrow> (go_error \<times> 'w) option" where
  "runLoop env wk ctx w =
     (case runTurn env wk ctx w of
        (Some err, w') \<Rightarrow> Some (err, w')
      | (None, w') \<Rightarrow> runLoop env wk ctx w')"

definition Run ::
    "'w worker_env \<Rightarrow> 'w worker option \<Rightarrow> 'w go_context \<Rightarrow> 'w \<Rightarrow> (go_error \<times> 'w) option" where
  "Run env wk ctx w =
     (case worker_validate wk ctx True w of
        Some err \<Rightarrow> Some (err, w)
      | None \<Rightarrow> runLoop env (the wk) (the ctx) w)"

section \<open>The protocol of a worker\<close>

text \<open>The calls a worker makes on its queue and its verifier, with what they gave it.\<close>

datatype worker_call =
    ClaimCall "lease option"
  | RenewCall lease "lease option"
  | VerifyCall origin go_time
  | CompleteCall lease verification_result bool
  | AbandonCall lease

text \<open>
  The specification: after a claim, the worker may renew its lease and verify the origin of the lease, at most
  \<^const>\<open>MaxAttemptsPerCycle\<close> times and only while the lease outlasts the job timeout and the grace period; it
  completes once, after a verification, with a storable result for that origin; it abandons at most once, and
  never a lease it has completed.
\<close>

datatype phase =
    Ready
  | NoWork
  | Holding lease nat
  | Failing lease
  | Settled lease verification_result
  | Released lease

definition leaseIdentity :: "lease \<Rightarrow> origin \<times> string \<times> int" where
  "leaseIdentity l = (l_Origin l, l_WorkerID l, l_Generation l)"

fun protocolStep :: "worker_config \<Rightarrow> phase \<Rightarrow> worker_call \<Rightarrow> phase option" where
  "protocolStep cfg Ready (ClaimCall None) = Some NoWork"
| "protocolStep cfg Ready (ClaimCall (Some l)) =
     (if l_WorkerID l = wc_WorkerID cfg then Some (Holding l 0) else None)"
| "protocolStep cfg (Holding l n) (RenewCall l' None) = (if l' = l then Some (Failing l) else None)"
| "protocolStep cfg (Holding l n) (RenewCall l' (Some r)) =
     (if l' = l \<and> leaseIdentity r = leaseIdentity l then Some (Holding r n) else None)"
| "protocolStep cfg (Holding l n) (VerifyCall source t) =
     (if source = l_Origin l \<and> n < MaxAttemptsPerCycle \<and>
         t + wc_JobTimeout cfg + wc_CompletionGrace cfg < l_ExpiresAt l
      then Some (Holding l (Suc n)) else None)"
| "protocolStep cfg (Holding l n) (CompleteCall l' r ok) =
     (if l' = l \<and> 0 < n \<and> vr_Origin r = l_Origin l \<and> validVerificationResult r
      then Some (if ok then Settled l r else Failing l) else None)"
| "protocolStep cfg (Holding l n) (AbandonCall l') = (if l' = l then Some (Released l) else None)"
| "protocolStep cfg (Failing l) (AbandonCall l') = (if l' = l then Some (Released l) else None)"
| "protocolStep cfg _ _ = None"

definition worker_protocol :: "worker_config \<Rightarrow> worker_call list \<Rightarrow> phase option" where
  "worker_protocol cfg cs =
     foldl (\<lambda>p c. case p of None \<Rightarrow> None | Some q \<Rightarrow> protocolStep cfg q c) (Some Ready) cs"

lemma worker_protocol_Nil [simp]: "worker_protocol cfg [] = Some Ready"
  by (simp add: worker_protocol_def)

lemma worker_protocol_snoc:
  "worker_protocol cfg cs = Some p \<Longrightarrow> worker_protocol cfg (cs @ [c]) = protocolStep cfg p c"
  by (simp add: worker_protocol_def)

lemma hasCompletionBudget_exact:
  assumes "0 < g" and "b \<le> max_int64"
  shows "hasCompletionBudget b j g \<longleftrightarrow> 0 < b \<and> g < b \<and> j + g < b"
proof -
  have "sint (word_of_int (b - g) :: 64 word) = b - g" if "g < b"
  proof -
    have "- (2 ^ 63) \<le> b - g" "b - g < 2 ^ 63" using assms that by (simp_all add: max_int64_def)
    then show ?thesis
      by (subst sint_sbintrunc') (simp add: signed_take_bit_int_eq_self)
  qed
  then show ?thesis by (auto simp: hasCompletionBudget_def)
qed

lemma leaseBudget_outlasts:
  assumes "leaseBudget env wk l w" and "validConfig (wk_config wk)"
  shows "currentTime env wk w + wc_JobTimeout (wk_config wk) + wc_CompletionGrace (wk_config wk) < l_ExpiresAt l"
proof -
  let ?b = "time_Sub (l_ExpiresAt l) (currentTime env wk w)"
  have b: "?b \<le> max_int64" by (simp add: time_Sub_def min_int64_def max_int64_def)
  have g: "0 < wc_CompletionGrace (wk_config wk)" using assms(2) by (simp add: validConfig_def)
  from assms(1) hasCompletionBudget_exact [OF g b]
  have "0 < ?b" and sum: "wc_JobTimeout (wk_config wk) + wc_CompletionGrace (wk_config wk) < ?b"
    by (simp_all add: leaseBudget_def)
  then have "?b \<le> l_ExpiresAt l - currentTime env wk w"
    by (intro time_Sub_le) (simp add: time_Sub_pos_iff)
  with sum show ?thesis by linarith
qed

lemma categorized_valid:
  "validVerificationResult r \<Longrightarrow>
   validVerificationResult (categorized r) \<and> vr_Origin (categorized r) = vr_Origin r"
  by (auto simp: categorized_def validVerificationResult_def category_Valid_def split: if_splits)

lemma timeout_valid:
  "validVerificationResult (unavailable source CategoryTimeout 0) \<and>
   vr_Origin (unavailable source CategoryTimeout 0) = source"
  by (simp add: validVerificationResult_def unavailable_def resultOf_def category_Valid_def MaxDelay_def
      duration_units)

section \<open>The contract of the interfaces\<close>

locale lease_queue =
  fixes queue :: "'w worker_queue"
    and calls :: "'w \<Rightarrow> worker_call list"
    and recorded :: "lease \<Rightarrow> verification_result \<Rightarrow> 'w \<Rightarrow> bool"
  assumes claim_call: "wq_Claim queue ctx workerID w = (r, w') \<Longrightarrow>
      calls w' = calls w @ [ClaimCall (case r of Inl _ \<Rightarrow> None | Inr c \<Rightarrow> c)]"
    and claim_worker: "wq_Claim queue ctx workerID w = (Inr (Some l), w') \<Longrightarrow> l_WorkerID l = workerID"
    and renew_call: "wq_Renew queue ctx l w = (r', w') \<Longrightarrow>
      calls w' = calls w @ [RenewCall l (case r' of Inl _ \<Rightarrow> None | Inr l' \<Rightarrow> Some l')]"
    and renew_identity: "wq_Renew queue ctx l w = (Inr l', w') \<Longrightarrow> leaseIdentity l' = leaseIdentity l"
    and complete_call: "wq_CompleteVerification queue ctx l res d w = (e, w') \<Longrightarrow>
      calls w' = calls w @ [CompleteCall l res (e = None)]"
    and complete_records: "wq_CompleteVerification queue ctx l res d w = (None, w') \<Longrightarrow> recorded l res w'"
    and abandon_call: "wq_AbandonVerification queue ctx l w = (e, w') \<Longrightarrow> calls w' = calls w @ [AbandonCall l]"
    and paused_call: "wq_VerificationPaused queue = Some f \<Longrightarrow> f ctx w = (p, w') \<Longrightarrow> calls w' = calls w"

locale declaration_verifier =
  fixes verify :: "'w worker_verifier"
    and calls :: "'w \<Rightarrow> worker_call list"
    and clock :: "'w \<Rightarrow> go_time"
  assumes verify_call: "verify ctx source w = (r, w') \<Longrightarrow> calls w' = calls w @ [VerifyCall source (clock w)]"
    and verify_storable: "verify ctx source w = (Inr res, w') \<Longrightarrow>
      validVerificationResult res \<and> vr_Origin res = source"

locale worker_contract =
  lease_queue queue calls recorded + declaration_verifier verify calls "currentTime env wk"
  for queue :: "'w worker_queue" and calls recorded and verify :: "'w worker_verifier"
    and env :: "'w worker_env" and wk :: "'w worker" +
  assumes parts: "wk_queue wk = Some queue" "wk_verifier wk = Some verify"
    and observe_silent: "calls (observe wk state source message w) = calls w"
      "recorded l res w \<Longrightarrow> recorded l res (observe wk state source message w)"
    and log_silent: "calls (we_logVerificationTimeout env source action w) = calls w"
      "recorded l res w \<Longrightarrow> recorded l res (we_logVerificationTimeout env source action w)"
begin

definition reaches :: "worker_call list \<Rightarrow> 'w \<Rightarrow> phase \<Rightarrow> bool" where
  "reaches before w p \<longleftrightarrow> (\<exists>cs. calls w = before @ cs \<and> worker_protocol (wk_config wk) cs = Some p)"

lemma reaches_start: "reaches (calls w) w Ready"
  by (auto simp: reaches_def)

lemma reaches_step:
  assumes "reaches before w p" and "calls w' = calls w @ [c]" and "protocolStep (wk_config wk) p c = Some q"
  shows "reaches before w' q"
proof -
  from assms(1) obtain cs where cs: "calls w = before @ cs" "worker_protocol (wk_config wk) cs = Some p"
    by (auto simp: reaches_def)
  then have "worker_protocol (wk_config wk) (cs @ [c]) = Some q"
    using assms(3) by (simp add: worker_protocol_snoc)
  moreover have "calls w' = before @ (cs @ [c])" using assms(2) cs by simp
  ultimately show ?thesis by (auto simp: reaches_def)
qed

lemma reaches_silent: "reaches before w p \<Longrightarrow> calls w' = calls w \<Longrightarrow> reaches before w' p"
  by (simp add: reaches_def)

lemma ensure_reaches:
  assumes "reaches before w (Holding l n)"
    and "ensureVerificationLeaseBudget env wk ctx l w = ((l', e), w')"
  shows "case e of
      None \<Rightarrow> reaches before w' (Holding l' n) \<and> leaseBudget env wk l' w'
    | Some _ \<Rightarrow> reaches before w' (Holding l' n) \<or> reaches before w' (Failing l')"
proof (cases "leaseBudget env wk l w")
  case True
  with assms show ?thesis by (simp add: ensureVerificationLeaseBudget_def)
next
  case False
  obtain r w1 where r: "wq_Renew queue ctx l w = (r, w1)" by fastforce
  note call = renew_call [OF r]
  show ?thesis
  proof (cases r)
    case (Inl err)
    have "reaches before w1 (Failing l)" using assms(1) call by (rule reaches_step) (simp add: Inl)
    then have "reaches before (observe wk ''failed'' (l_Origin l) ''lease_renewal_failed'' w1) (Failing l)"
      by (rule reaches_silent) (rule observe_silent)
    with assms(2) False r Inl parts show ?thesis
      by (auto simp: ensureVerificationLeaseBudget_def Let_def split: option.splits)
  next
    case (Inr l1)
    have held: "reaches before w1 (Holding l1 n)"
      using assms(1) call by (rule reaches_step) (simp add: Inr renew_identity [OF r [unfolded Inr]])
    then have "reaches before (observe wk ''failed'' (l_Origin l1) ''insufficient_lease_budget'' w1) (Holding l1 n)"
      by (rule reaches_silent) (rule observe_silent)
    with assms(2) False r Inr held parts show ?thesis
      by (auto simp: ensureVerificationLeaseBudget_def Let_def split: if_splits)
  qed
qed

lemma attempt_reaches:
  assumes "reaches before w (Holding l n)" and "leaseBudget env wk l w" and "validConfig (wk_config wk)"
    and "n < MaxAttemptsPerCycle" and "verifyAttempt wk ctx l anyTimeout w = (r, w')"
  shows "reaches before w' (Holding l (Suc n)) \<and>
    (case r of Inl _ \<Rightarrow> True | Inr (res, _) \<Rightarrow> validVerificationResult res \<and> vr_Origin res = l_Origin l)"
proof -
  let ?job = "the (wk_timeoutFactory wk) ctx (wc_JobTimeout (wk_config wk)) w"
  obtain x w1 where x: "verify ?job (l_Origin l) w = (x, w1)" by fastforce
  have held: "reaches before w1 (Holding l (Suc n))"
    using assms(1) verify_call [OF x] by (rule reaches_step)
      (use assms(4) leaseBudget_outlasts [OF assms(2,3)] in simp)
  then have "reaches before (observe wk ''failed'' (l_Origin l) ''verification_failed'' w1) (Holding l (Suc n))"
    by (rule reaches_silent) (rule observe_silent)
  with held assms(5) x parts timeout_valid show ?thesis
    by (auto simp: verifyAttempt_def Let_def dest: verify_storable split: sum.splits option.splits if_splits)
qed

lemma loop_reaches:
  assumes "reaches before w (Holding l n)" and "validConfig (wk_config wk)" and "n < MaxAttemptsPerCycle"
    and "verifyLoop_from env wk ctx (Suc n) anyTimeout res0 l w = ((r, l', t), w')"
  shows "case r of
      Inl _ \<Rightarrow> \<exists>m. reaches before w' (Holding l' m) \<or> reaches before w' (Failing l')
    | Inr res \<Rightarrow> validVerificationResult res \<and> vr_Origin res = l_Origin l' \<and>
        (\<exists>m > 0. reaches before w' (Holding l' m))"
  using assms
proof (induction "MaxAttemptsPerCycle - n" arbitrary: n w l anyTimeout res0 rule: less_induct)
  case less
  obtain l1 e w1 where e: "ensureVerificationLeaseBudget env wk ctx l w = ((l1, e), w1)" by (metis prod.exhaust)
  note ensured = ensure_reaches [OF less.prems(1) e]
  have n: "\<not> MaxAttemptsPerCycle < Suc n" using less.prems(3) by simp
  show ?case
  proof (cases e)
    case (Some err)
    with less.prems(4) e n have "r = Inl err" "l' = l1" "w' = w1"
      by (simp_all add: verifyLoop_from.simps [of env wk ctx "Suc n"])
    with ensured Some show ?thesis by auto
  next
    case None
    with ensured have held: "reaches before w1 (Holding l1 n)" "leaseBudget env wk l1 w1" by simp_all
    obtain a w2 where a: "verifyAttempt wk ctx l1 anyTimeout w1 = (a, w2)" by fastforce
    note att = attempt_reaches [OF held less.prems(2,3) a]
    show ?thesis
    proof (cases a)
      case (Inl err)
      with less.prems(4) e None a n have "r = Inl err" "l' = l1" "w' = w2"
        by (simp_all add: verifyLoop_from.simps [of env wk ctx "Suc n"])
      with att show ?thesis by auto
    next
      case (Inr p)
      obtain res anyT where p: "p = (res, anyT)" by fastforce
      let ?res = "categorized res"
      have res: "validVerificationResult ?res" "vr_Origin ?res = l_Origin l1"
        and held2: "reaches before w2 (Holding l1 (Suc n))"
        using att Inr p categorized_valid [of res] by auto
      show ?thesis
      proof (cases "finalResult ?res \<or> Suc n = MaxAttemptsPerCycle \<or> vr_RetryAfter ?res > 0")
        case True
        with less.prems(4) e None a n Inr p have "r = Inr ?res" "l' = l1" "w' = w2"
          by (auto simp: verifyLoop_from.simps [of env wk ctx "Suc n"] Let_def split: if_splits)
        with res held2 show ?thesis by auto
      next
        case False
        then have "verifyLoop_from env wk ctx (Suc (Suc n)) anyT ?res l1 w2 = ((r, l', t), w')"
          using less.prems(4) e None a n Inr p
          by (simp add: verifyLoop_from.simps [of env wk ctx "Suc n"] Let_def)
        moreover have "Suc n < MaxAttemptsPerCycle" using False less.prems(3) by simp
        ultimately show ?thesis
          using less.hyps [OF _ held2 less.prems(2)] less.prems(3) by simp
      qed
    qed
  qed
qed

lemma abandon_reaches:
  assumes "reaches before w (Holding l m) \<or> reaches before w (Failing l)"
    and "wq_AbandonVerification queue ctx l w = (e, w')"
  shows "reaches before w' (Released l)"
  using assms(1) reaches_step [OF _ abandon_call [OF assms(2)]] by auto

text \<open>What a unit of work reports agrees with the phase its calls end in.\<close>

definition reported :: "worker_call list \<Rightarrow> (bool \<times> go_error option) \<times> 'w \<Rightarrow> bool" where
  "reported before out =
     (case out of ((worked, err), w) \<Rightarrow>
        \<exists>p. reaches before w p \<and> (worked \<longleftrightarrow> p \<notin> {Ready, NoWork}) \<and>
          (if worked \<and> err = None then \<exists>l res. p = Settled l res \<and> recorded l res w
           else \<forall>l res. p \<noteq> Settled l res))"

lemma reported_failure:
  "reaches before w p \<Longrightarrow> p \<in> {Holding l m, Failing l, Released l} \<Longrightarrow> reported before ((True, Some err), w)"
  by (auto simp: reported_def)

lemma completionFailed_reported:
  assumes "reaches before w (Failing l)"
  shows "reported before (completionFailed env wk ctx cctx l timedOut err w)"
proof -
  let ?w = "observe wk ''failed'' (l_Origin l) ''completion_failed'' w"
  let ?actx = "the (wk_timeoutFactory wk) ctx (wc_CompletionGrace (wk_config wk)) ?w"
  have f: "reaches before ?w (Failing l)" by (rule reaches_silent [OF assms observe_silent(1)])
  obtain a w1 where a: "wq_AbandonVerification queue ?actx l ?w = (a, w1)" by fastforce
  from f have "reaches before w1 (Released l)" by (intro abandon_reaches [OF _ a]) blast
  then have rel: "reaches before (we_logVerificationTimeout env (l_Origin l) action w1) (Released l)" for action
    by (rule reaches_silent) (rule log_silent)
  show ?thesis
    using reported_failure [OF f, of l] reported_failure [OF rel, of l] a parts
    by (auto simp: completionFailed_def Let_def split: option.splits)
qed

lemma completeWork_reported:
  assumes "reaches before w (Holding l m)" and "0 < m" and "validVerificationResult res"
    and "vr_Origin res = l_Origin l"
  shows "reported before (completeWork env wk ctx l res timedOut w)"
proof (cases "ctx w")
  case (Some e)
  with reported_failure [OF assms(1), of l m] show ?thesis by (simp add: completeWork_def)
next
  case None
  let ?cctx = "the (wk_timeoutFactory wk) ctx (wc_CompletionGrace (wk_config wk)) w"
  obtain e w1 where c: "wq_CompleteVerification queue ?cctx l res (wc_RecheckInterval (wk_config wk)) w = (e, w1)"
    by fastforce
  have after: "reaches before w1 (if e = None then Settled l res else Failing l)"
    using assms(1) complete_call [OF c] by (rule reaches_step) (use assms in simp)
  show ?thesis
  proof (cases e)
    case (Some err)
    with after completionFailed_reported [of before w1 l] None c parts show ?thesis
      by (simp add: completeWork_def Let_def)
  next
    case e: None
    define w2 where "w2 = observe wk ''idle'' origin_zero []
      (if timedOut then we_logVerificationTimeout env (l_Origin l) ''completed'' w1 else w1)"
    have "calls w2 = calls w1" by (simp add: w2_def observe_silent log_silent)
    then have "reaches before w2 (Settled l res)" using after e by (auto intro: reaches_silent)
    moreover have "recorded l res w2"
      using complete_records [OF c [unfolded e]] by (simp add: w2_def observe_silent log_silent)
    ultimately show ?thesis using None c e parts
      by (auto simp: completeWork_def Let_def reported_def w2_def [symmetric])
  qed
qed

lemma processLease_reported:
  assumes "reaches before w (Holding l 0)" and "validConfig (wk_config wk)"
  shows "reported before (processLease env wk ctx l w)"
proof -
  let ?w = "observe wk ''running'' (l_Origin l) [] w"
  have start: "reaches before ?w (Holding l 0)" by (rule reaches_silent [OF assms(1) observe_silent(1)])
  obtain r l1 t w1 where v: "verifyWithRetries env wk ctx l ?w = ((r, l1, t), w1)" by (metis prod.exhaust)
  have loop: "case r of
      Inl _ \<Rightarrow> \<exists>m. reaches before w1 (Holding l1 m) \<or> reaches before w1 (Failing l1)
    | Inr res \<Rightarrow> validVerificationResult res \<and> vr_Origin res = l_Origin l1 \<and>
        (\<exists>m > 0. reaches before w1 (Holding l1 m))"
    by (rule loop_reaches [OF start assms(2)])
      (use v in \<open>simp_all add: verifyWithRetries_def MaxAttemptsPerCycle_def\<close>)
  show ?thesis
  proof (cases r)
    case (Inl err)
    let ?actx = "the (wk_timeoutFactory wk) ctx (wc_CompletionGrace (wk_config wk)) w1"
    obtain a w2 where a: "wq_AbandonVerification queue ?actx l1 w1 = (a, w2)" by fastforce
    have "reaches before w2 (Released l1)" using loop Inl by (auto intro: abandon_reaches [OF _ a])
    from reported_failure [OF this, of l1] show ?thesis
      using v Inl a parts
      by (auto simp: processLease_def abandonHardVerifyFailure_def Let_def split: option.splits)
  next
    case (Inr res)
    with loop v completeWork_reported [of before w1 l1] show ?thesis
      by (auto simp: processLease_def Let_def)
  qed
qed

lemma idlePoll_reported:
  assumes "reaches before w NoWork"
  shows "reported before (idlePoll wk ctx w)"
proof -
  have nw: "reported before ((False, e), observe wk s source msg w')" if "calls w' = calls w" for e s source msg w'
    using reaches_silent [OF assms, of "observe wk s source msg w'"] that
    by (auto simp: reported_def observe_silent)
  show ?thesis
    using nw [OF refl] nw [OF paused_call] parts
    by (auto simp: idlePoll_def split: option.splits prod.splits sum.splits)
qed

lemma RunOnce_reported: "reported (calls w) (RunOnce env (Some wk) ctx w)"
proof (cases "worker_validate (Some wk) ctx False w")
  case (Some err)
  then show ?thesis using reaches_start [of w] by (auto simp: RunOnce_def reported_def)
next
  case None
  then obtain c where c: "ctx = Some c" and cfg: "validConfig (wk_config wk)"
    by (auto simp: worker_validate_def split: option.splits if_splits)
  obtain r w1 where r: "wq_Claim queue c (wc_WorkerID (wk_config wk)) w = (r, w1)" by fastforce
  note step = reaches_step [OF reaches_start claim_call [OF r]]
  consider err where "r = Inl err" | "r = Inr None" | l where "r = Inr (Some l)"
    by (metis obj_sumE option.exhaust)
  then show ?thesis
  proof cases
    case 1
    then have "reaches (calls w) (observe wk ''failed'' origin_zero ''claim_failed'' w1) NoWork"
      using step by (intro reaches_silent [OF _ observe_silent(1)]) simp
    then show ?thesis using None c r 1 parts by (auto simp: RunOnce_def reported_def)
  next
    case 2
    with step have "reaches (calls w) w1 NoWork" by simp
    from idlePoll_reported [OF this] show ?thesis using None c r 2 parts by (simp add: RunOnce_def)
  next
    case 3
    with step claim_worker [OF r [unfolded 3]] have "reaches (calls w) w1 (Holding l 0)" by simp
    from processLease_reported [OF this cfg] show ?thesis using None c r 3 parts by (simp add: RunOnce_def)
  qed
qed

end

section \<open>The worker on the queue and the verifier of this development\<close>

text \<open>
  A deployment: the queue of \<^verbatim>\<open>internal/store\<close> on a database that other processes change before every call
  (\<open>dp_others\<close>), with the answers of the database clock, its failures and the rows other transactions hold; the
  verifier of \<^verbatim>\<open>internal/declaration\<close>; and the process. Its state is the database, the rest of the world,
  and the calls made so far, which no part of the deployment reads.
\<close>

type_synonym 'e site = "(queue_db \<times> 'e) \<times> worker_call list"

record 'e deployment =
  dp_lib :: host_lib
  dp_handle :: "queue_handle option"
  dp_retryDelay :: "int \<Rightarrow> duration \<Rightarrow> duration"
  dp_others :: "queue_db \<times> 'e \<Rightarrow> queue_db \<times> 'e"
  dp_clock :: "'e \<Rightarrow> go_error + go_time"
  dp_dbErr :: "'e \<Rightarrow> go_error option"
  dp_locked :: "'e \<Rightarrow> string \<Rightarrow> bool"
  dp_verify_env :: "(queue_db \<times> 'e) verify_env"
  dp_verifier :: "(queue_db \<times> 'e) verifier option"
  dp_Now :: "'e \<Rightarrow> go_time"
  dp_observe :: "string \<Rightarrow> origin \<Rightarrow> string \<Rightarrow> 'e \<Rightarrow> 'e"
  dp_log :: "origin \<Rightarrow> string \<Rightarrow> 'e \<Rightarrow> 'e"

definition deployedQueue :: "'e deployment \<Rightarrow> 'e site worker_queue" where
  "deployedQueue dp =
     \<lparr>wq_Claim = (\<lambda>ctx workerID (x, cs).
        let (db, e) = dp_others dp x;
            (r, db) = Claim (dp_lib dp) (dp_handle dp) (Some (ctx ((db, e), cs))) (dp_clock dp e) (dp_dbErr dp e)
                        (dp_locked dp e) workerID db
        in (r, ((db, e), cs @ [ClaimCall (case r of Inl _ \<Rightarrow> None | Inr c \<Rightarrow> c)]))),
      wq_Renew = (\<lambda>ctx l (x, cs).
        let (db, e) = dp_others dp x;
            (r, db) = Renew (dp_handle dp) (Some (ctx ((db, e), cs))) (dp_clock dp e) (dp_dbErr dp e) l db
        in (r, ((db, e), cs @ [RenewCall l (case r of Inl _ \<Rightarrow> None | Inr l' \<Rightarrow> Some l')]))),
      wq_CompleteVerification = (\<lambda>ctx l res d (x, cs).
        let (db, e) = dp_others dp x;
            (r, db) = CompleteVerification (dp_retryDelay dp) (dp_handle dp) (Some (ctx ((db, e), cs)))
                        (dp_clock dp e) (dp_dbErr dp e) l res d db
        in (r, ((db, e), cs @ [CompleteCall l res (r = None)]))),
      wq_AbandonVerification = (\<lambda>ctx l (x, cs).
        let (db, e) = dp_others dp x;
            (r, db) = AbandonVerification (dp_handle dp) (Some (ctx ((db, e), cs))) (dp_clock dp e)
                        (dp_dbErr dp e) l db
        in (r, ((db, e), cs @ [AbandonCall l]))),
      wq_VerificationPaused = Some (\<lambda>ctx (x, cs).
        let (db, e) = dp_others dp x
        in (VerificationPaused (dp_handle dp) (Some (ctx ((db, e), cs))) (dp_dbErr dp e) db, ((db, e), cs)))\<rparr>"

definition deployedVerifier :: "'e deployment \<Rightarrow> 'e site worker_verifier" where
  "deployedVerifier dp = (\<lambda>ctx source (x, cs).
     let (r, x') = Verify (dp_verify_env dp) (dp_verifier dp) (Some (\<lambda>x. ctx (x, cs))) source x
     in (r, (x', cs @ [VerifyCall source (dp_Now dp (snd x))])))"

definition deployedEnv :: "'e deployment \<Rightarrow> 'e site worker_env" where
  "deployedEnv dp =
     \<lparr>we_Now = (\<lambda>((_, e), _). dp_Now dp e),
      we_logVerificationTimeout = (\<lambda>source action ((db, e), cs). ((db, dp_log dp source action e), cs))\<rparr>"

definition deployedWorker ::
    "'e deployment \<Rightarrow> worker_config \<Rightarrow> ('e site ctx_err \<Rightarrow> duration \<Rightarrow> 'e site \<Rightarrow> 'e site ctx_err) \<Rightarrow>
     'e site worker" where
  "deployedWorker dp cfg withTimeout =
     \<lparr>wk_queue = Some (deployedQueue dp), wk_verifier = Some (deployedVerifier dp), wk_config = cfg,
      wk_waiter = None, wk_timeoutFactory = Some withTimeout,
      wk_observer = Some (\<lambda>state source message ((db, e), cs). ((db, dp_observe dp state source message e), cs)),
      wk_now = None\<rparr>"

text \<open>
  The result was recorded under an authoritative lease: in the database \<open>db\<close> that the other processes left,
  at the time of its clock, the lease held its row, and the store is that of \<open>db\<close> with the observation added.
\<close>

definition resultRecorded :: "'e deployment \<Rightarrow> lease \<Rightarrow> verification_result \<Rightarrow> queue_db \<Rightarrow> bool" where
  "resultRecorded dp l res db' \<longleftrightarrow>
     (\<exists>x db e now row. dp_others dp x = (db, e) \<and> dp_clock dp e = Inr now \<and> heldRow l now db = Some row \<and>
        qd_store db' =
          recordObservation (observationOf now res) (shouldReprobeOutcome (vr_Outcome res)) (qd_store db))"

interpretation deployed_queue:
  lease_queue "deployedQueue dp" snd "\<lambda>l res w. resultRecorded dp l res (fst (fst w))" for dp
proof
  show "l_WorkerID l = workerID" if "wq_Claim (deployedQueue dp) ctx workerID w = (Inr (Some l), w')"
      for ctx workerID w l w'
    using that by (auto simp: deployedQueue_def Let_def split: prod.splits elim!: Claim_success)
  show "leaseIdentity l' = leaseIdentity l" if "wq_Renew (deployedQueue dp) ctx l w = (Inr l', w')"
      for ctx l w l' w'
    using that by (auto simp: deployedQueue_def Let_def leaseIdentity_def dest!: Renew_identity split: prod.splits)
  show "resultRecorded dp l res (fst (fst w'))"
    if "wq_CompleteVerification (deployedQueue dp) ctx l res d w = (None, w')" for ctx l res d w w'
    using that unfolding resultRecorded_def
    by (simp add: deployedQueue_def Let_def split: prod.splits)
      (use CompleteVerification_store in fastforce)
qed (auto simp: deployedQueue_def Let_def split: prod.splits)

interpretation deployed_verifier:
  declaration_verifier "deployedVerifier dp" snd "currentTime (deployedEnv dp) (deployedWorker dp cfg withTimeout)"
  for dp cfg withTimeout
proof
  show "validVerificationResult res \<and> vr_Origin res = source"
    if "deployedVerifier dp ctx source w = (Inr res, w')" for ctx source w res w'
    using that Verify_storable_aux [of source "dp_verify_env dp" "dp_verifier dp" "Some (\<lambda>x. ctx (x, snd w))" "fst w"]
    by (auto simp: deployedVerifier_def Let_def split: prod.splits)
qed (auto simp: deployedVerifier_def deployedEnv_def deployedWorker_def currentTime_def split: prod.splits)

interpretation deployed: worker_contract "deployedQueue dp" snd "\<lambda>l res w. resultRecorded dp l res (fst (fst w))"
  "deployedVerifier dp" "deployedEnv dp" "deployedWorker dp cfg withTimeout" for dp cfg withTimeout
  by unfold_locales (auto simp: deployedWorker_def deployedEnv_def observe_def split: prod.splits)

section \<open>The loop returns\<close>

interpretation worker_loop: turn_loop "runTurn env wk ctx" "runLoop env wk ctx" ctx
  "\<lambda>err w'. ctx w' = Some err \<or> (\<exists>w0. the (wk_waiter wk) ctx (wc_PollInterval (wk_config wk)) w0 = (Some err, w'))"
  for env wk ctx
proof
  show "runLoop env wk ctx w = (case runTurn env wk ctx w of (Some e, w') \<Rightarrow> Some (e, w') | (None, w') \<Rightarrow> runLoop env wk ctx w')" for w
    by (rule runLoop.simps)
qed (auto simp: runTurn_def RunOnce_def worker_validate_def Let_def split: prod.splits option.splits if_splits)

section \<open>Properties\<close>

definition exampleWorkerConfig :: worker_config where
  "exampleWorkerConfig =
     \<lparr>wc_WorkerID = ''w1'', wc_PollInterval = 10, wc_JobTimeout = 10, wc_CompletionGrace = 10, wc_RecheckInterval = 10\<rparr>"

text \<open>A deployment alone on its database, at time 500, whose verifier finds no declaration.\<close>

definition exampleDeployment :: "unit deployment" where
  "exampleDeployment =
     \<lparr>dp_lib = domainLib, dp_handle = Some exampleQueue, dp_retryDelay = (\<lambda>_ _. 0), dp_others = id,
      dp_clock = (\<lambda>_. Inr 500), dp_dbErr = (\<lambda>_. None), dp_locked = (\<lambda>_ _. False),
      dp_verify_env = \<lparr>ve_lib = domainLib, ve_unmarshal = (\<lambda>_. None), ve_ParseTime = (\<lambda>_. None), ve_reading = id\<rparr>,
      dp_verifier = Some \<lparr>v_getter = Some (\<lambda>w u. (Inr (Some \<lparr>r_StatusCode = 404, r_Header = (\<lambda>_. []),
                                                     r_Body = Some (Body [] None)\<rparr>), w)),
                          v_clock = Some (\<lambda>_. 500)\<rparr>,
      dp_Now = (\<lambda>_. 500), dp_observe = (\<lambda>_ _ _ e. e), dp_log = (\<lambda>_ _ e. e)\<rparr>"

lemma exampleWorkerConfig_valid: "validConfig exampleWorkerConfig"
  using worker_valid
  by (simp add: validConfig_def exampleWorkerConfig_def maxWorkerIDLength_def validQueueWorkerID_def
      maxQueueWorkerIDLength_def)

text \<open>
  C7. A unit of work follows the protocol of a worker, whatever the other processes, the servers and the clocks
  do: the calls it makes are accepted by the automaton (a lease of its own, at most two verifications, of the
  leased origin, each started only while the lease outlasts the job timeout plus the grace period, one
  completion with a storable result of that origin, no abandoned lease after a successful completion), it
  reports work exactly when it claimed a lease, and success exactly when the completion was accepted.
\<close>
theorem RunOnce_follows_protocol:
  "case RunOnce (deployedEnv dp) (Some (deployedWorker dp cfg withTimeout)) ctx (x, before) of
     ((worked, err), (x', after)) \<Rightarrow>
       \<exists>cs p. after = before @ cs \<and> worker_protocol cfg cs = Some p \<and> (worked \<longleftrightarrow> p \<notin> {Ready, NoWork}) \<and>
         (worked \<and> err = None \<longleftrightarrow> (\<exists>l res. p = Settled l res))"
proof -
  obtain worked err x' after' where out: "RunOnce (deployedEnv dp) (Some (deployedWorker dp cfg withTimeout)) ctx
      (x, before) = ((worked, err), (x', after'))"
    by (metis prod.exhaust)
  have "wk_config (deployedWorker dp cfg withTimeout) = cfg" by (simp add: deployedWorker_def)
  with deployed.RunOnce_reported [of dp cfg withTimeout "(x, before)" ctx] show ?thesis
    unfolding out deployed.reported_def deployed.reaches_def by (auto split: if_splits)
qed

text \<open>
  A unit of work that reports success has recorded the verification: its calls end in the completion of a
  lease issued to this worker, that lease was still authoritative in the database the other processes left,
  and the observation of exactly the completed result, at the time of the database, was added to the store.
\<close>
theorem RunOnce_success_recorded:
  assumes "RunOnce (deployedEnv dp) (Some (deployedWorker dp cfg withTimeout)) ctx (x, []) =
    ((True, None), ((db', e'), cs))"
  shows "\<exists>l res. worker_protocol cfg cs = Some (Settled l res) \<and>
    (\<exists>x db e now row. dp_others dp x = (db, e) \<and> dp_clock dp e = Inr now \<and> heldRow l now db = Some row \<and>
       qd_store db' =
         recordObservation (observationOf now res) (shouldReprobeOutcome (vr_Outcome res)) (qd_store db))"
proof -
  have "wk_config (deployedWorker dp cfg withTimeout) = cfg" by (simp add: deployedWorker_def)
  with deployed.RunOnce_reported [of dp cfg withTimeout "(x, [])" ctx] show ?thesis
    unfolding assms deployed.reported_def deployed.reaches_def resultRecorded_def [symmetric] by auto
qed

lemma exampleVerify_runs:
  "ctx x = None \<Longrightarrow> Verify (dp_verify_env exampleDeployment) (dp_verifier exampleDeployment) (Some ctx) exampleSource x =
   (Inr (resultOf exampleSource OutcomeAbsent), x)"
  by (simp add: Verify_def exampleDeployment_def exampleSource_def origin_String_def verifyLoop.simps verifyHop_def
      isDeclarationRedirect_def)

lemma exampleComplete_absent:
  "fst (CompleteVerification d (Some exampleQueue) (Some None) (Inr 500) None exampleLease
     (resultOf exampleSource OutcomeAbsent) 10 exampleClaimed) = None"
proof -
  have v: "validVerificationResult (resultOf exampleSource OutcomeAbsent)"
      "vr_Origin (resultOf exampleSource OutcomeAbsent) = l_Origin exampleLease"
    by (simp_all add: validVerificationResult_resultOf) (simp add: resultOf_def exampleLease_def)
  have o: "origin_String (l_Origin exampleLease) \<noteq> []"
    by (simp add: exampleLease_def exampleSource_def origin_String_def)
  obtain row where row: "heldRow exampleLease 500 exampleClaimed = Some row" "q_mode row = Recurring"
    by (simp add: heldRow_def queue_row_of_def exampleClaimed_def exampleLease_def exampleSource_def
        origin_String_def holdsLease_def)
  have w: "workPermitted exampleClaimed (origin_String (l_Origin exampleLease)) row"
    using row(2) by (simp add: workPermitted_def)
  show ?thesis
    unfolding CompleteVerification_def exampleQueue_valid option.case
    using exampleLease_valid v o row(1) w by (simp add: Let_def)
qed

lemma exampleRun:
  obtains db' cs where "RunOnce (deployedEnv exampleDeployment)
     (Some (deployedWorker exampleDeployment exampleWorkerConfig (\<lambda>ctx d w. ctx))) (Some (\<lambda>_. None))
     ((exampleScheduled, ()), []) = ((True, None), ((db', ()), cs))"
proof -
  let ?dp = exampleDeployment
  let ?wk = "deployedWorker ?dp exampleWorkerConfig (\<lambda>ctx d w. ctx)"
  let ?res = "resultOf exampleSource OutcomeAbsent"
  let ?c1 = "[ClaimCall (Some exampleLease)]"
  let ?c2 = "?c1 @ [VerifyCall exampleSource 500]"
  have valid: "worker_validate (Some ?wk) (Some (\<lambda>_. None)) False w = None" for w
    using exampleWorkerConfig_valid by (simp add: worker_validate_def deployedWorker_def)
  have claim: "wq_Claim (deployedQueue ?dp) (\<lambda>_. None) ''w1'' ((exampleScheduled, ()), []) =
      (Inr (Some exampleLease), ((exampleClaimed, ()), ?c1))"
    using exampleClaim_runs by (simp add: deployedQueue_def exampleDeployment_def)
  have ver: "deployedVerifier ?dp (\<lambda>_. None) exampleSource ((exampleClaimed, ()), ?c1) =
      (Inr ?res, ((exampleClaimed, ()), ?c2))"
    using exampleVerify_runs [of "\<lambda>_. None"]
    by (simp add: deployedVerifier_def) (simp add: exampleDeployment_def)
  obtain db' where db': "CompleteVerification (\<lambda>_ _. 0) (Some exampleQueue) (Some None) (Inr 500) None exampleLease
      ?res 10 exampleClaimed = (None, db')"
    using exampleComplete_absent by (metis prod.collapse)
  have compl: "wq_CompleteVerification (deployedQueue ?dp) (\<lambda>_. None) exampleLease ?res 10
      ((exampleClaimed, ()), ?c2) = (None, ((db', ()), ?c2 @ [CompleteCall exampleLease ?res True]))"
    using db' by (simp add: deployedQueue_def exampleDeployment_def)
  have budget: "leaseBudget (deployedEnv ?dp) ?wk exampleLease ((exampleClaimed, ()), ?c1)"
    by (simp add: leaseBudget_def deployedWorker_def deployedEnv_def currentTime_def exampleLease_def
        exampleDeployment_def exampleWorkerConfig_def hasCompletionBudget_exact time_Sub_def min_int64_def max_int64_def)
  have quiet: "observe ?wk st source msg w = w" for st source msg w
    by (simp add: observe_def deployedWorker_def exampleDeployment_def split: prod.splits)
  have parts: "wk_queue ?wk = Some (deployedQueue ?dp)" "wk_verifier ?wk = Some (deployedVerifier ?dp)"
      "wk_config ?wk = exampleWorkerConfig" "wk_timeoutFactory ?wk = Some (\<lambda>ctx d w. ctx)"
    by (simp_all add: deployedWorker_def)
  have cfg: "wc_WorkerID exampleWorkerConfig = ''w1''" "wc_RecheckInterval exampleWorkerConfig = 10"
    by (simp_all add: exampleWorkerConfig_def)
  have src: "l_Origin exampleLease = exampleSource" by (simp add: exampleLease_def)
  have att: "verifyAttempt ?wk (\<lambda>_. None) exampleLease False ((exampleClaimed, ()), ?c1) =
      (Inr (?res, False), ((exampleClaimed, ()), ?c2))"
    using ver by (simp add: verifyAttempt_def parts src)
  have fin: "categorized ?res = ?res" "finalResult ?res"
    by (simp_all add: categorized_def finalResult_def resultOf_def)
  have loop: "verifyWithRetries (deployedEnv ?dp) ?wk (\<lambda>_. None) exampleLease ((exampleClaimed, ()), ?c1) =
      ((Inr ?res, exampleLease, False), ((exampleClaimed, ()), ?c2))"
    unfolding verifyWithRetries_def verifyLoop_from.simps [of _ _ _ 1]
    using budget att fin by (simp add: ensureVerificationLeaseBudget_def MaxAttemptsPerCycle_def)
  have "RunOnce (deployedEnv ?dp) (Some ?wk) (Some (\<lambda>_. None)) ((exampleScheduled, ()), []) =
      ((True, None), ((db', ()), ?c2 @ [CompleteCall exampleLease ?res True]))"
    using valid claim loop compl
    by (simp add: RunOnce_def parts cfg processLease_def quiet completeWork_def)
  then show thesis by (rule that)
qed

theorem RunOnce_success_recorded_witness:
  "\<exists>db' cs l res. RunOnce (deployedEnv exampleDeployment)
     (Some (deployedWorker exampleDeployment exampleWorkerConfig (\<lambda>ctx d w. ctx))) (Some (\<lambda>_. None))
     ((exampleScheduled, ()), []) = ((True, None), ((db', ()), cs)) \<and>
     worker_protocol exampleWorkerConfig cs = Some (Settled l res)"
proof -
  obtain db' cs where run: "RunOnce (deployedEnv exampleDeployment)
     (Some (deployedWorker exampleDeployment exampleWorkerConfig (\<lambda>ctx d w. ctx))) (Some (\<lambda>_. None))
     ((exampleScheduled, ()), []) = ((True, None), ((db', ()), cs))"
    by (rule exampleRun)
  from RunOnce_success_recorded [OF run] show ?thesis using run by blast
qed

text \<open>
  The worker loop ends when it is told to: once the context is done after any number of turns, \<^verbatim>\<open>Run\<close>
  returns, and what it returns is the error of its context or of its wait, never a failure of the work.
\<close>
theorem Run_ends:
  assumes "worker_validate (Some wk) (Some ctx) True w = None"
    and "ctx (((\<lambda>w. snd (runTurn env wk ctx w)) ^^ n) w) \<noteq> None"
  shows "\<exists>err w'. Run env (Some wk) (Some ctx) w = Some (err, w') \<and>
    (ctx w' = Some err \<or> (\<exists>w0. the (wk_waiter wk) ctx (wc_PollInterval (wk_config wk)) w0 = (Some err, w')))"
  using worker_loop.loop_ends [where ctx = ctx and env = env and wk = wk and n = n and w = w, OF assms(2)] assms(1)
  by (simp add: Run_def)

text \<open>A worker on a queue without work, whose context ends at time 30: the state is the time.\<close>

definition idleWorker :: "int worker" where
  "idleWorker =
     \<lparr>wk_queue = Some \<lparr>wq_Claim = (\<lambda>_ _ t. (Inr None, t)), wq_Renew = (\<lambda>_ l t. (Inr l, t)),
                      wq_CompleteVerification = (\<lambda>_ _ _ _ t. (None, t)),
                      wq_AbandonVerification = (\<lambda>_ _ t. (None, t)), wq_VerificationPaused = None\<rparr>,
      wk_verifier = Some (\<lambda>_ source t. (Inr (resultOf source OutcomeAbsent), t)),
      wk_config = exampleWorkerConfig, wk_waiter = Some (\<lambda>_ d t. (None, t + d)),
      wk_timeoutFactory = Some (\<lambda>ctx _ _. ctx), wk_observer = None, wk_now = None\<rparr>"

definition until30 :: "int ctx_err" where
  "until30 t = (if t \<ge> 30 then Some Canceled else None)"

lemma idleWorker_valid: "t < 30 \<Longrightarrow> worker_validate (Some idleWorker) (Some until30) waits t = None"
  using exampleWorkerConfig_valid by (simp add: worker_validate_def idleWorker_def until30_def)

lemma idleWorker_turn: "t < 30 \<Longrightarrow> runTurn env idleWorker until30 t = (None, t + 10)"
  using idleWorker_valid [of t False]
  by (simp add: runTurn_def RunOnce_def Let_def)
    (simp add: idleWorker_def idlePoll_def observe_def exampleWorkerConfig_def)

theorem Run_ends_witness:
  "\<exists>err t'. Run \<lparr>we_Now = (\<lambda>t. t), we_logVerificationTimeout = (\<lambda>_ _ t. t)\<rparr> (Some idleWorker) (Some until30) 0 = Some (err, t')"
proof -
  let ?env = "\<lparr>we_Now = (\<lambda>t. t), we_logVerificationTimeout = (\<lambda>_ _ t. t)\<rparr>"
  have "until30 (((\<lambda>t. snd (runTurn ?env idleWorker until30 t)) ^^ 3) 0) \<noteq> None"
    by (simp add: eval_nat_numeral idleWorker_turn) (simp add: until30_def)
  from Run_ends [where wk = idleWorker and ctx = until30 and w = 0 and env = ?env and n = 3, OF idleWorker_valid this] show ?thesis by auto
qed

end
