(* ===== verification/Crawler.thy ===== *)
theory Crawler
  imports Links Worker Checker
begin

text \<open>
  The breadth-first crawl of one source, \<^verbatim>\<open>internal/discovery/crawler.go\<close>, with the telemetry values of
  \<^verbatim>\<open>telemetry.go\<close>. A crawler acts on a state of type \<open>'w\<close> through its getter, sink, telemetry, waiter and
  clock; what the runtime adds (reading and closing a body, the detached context of the deferred report) is
  \<open>crawl_env\<close>. The maps of the source that only hold keys are sets. A panic of \<^verbatim>\<open>canonicalPageURL\<close> is \<open>None\<close>;
  the deferred report still runs on it, as it does in Go.
\<close>

definition MaxCrawlPages :: int where "MaxCrawlPages = 10000"

definition errMultiPageCrawlerUnavailable where
  "errMultiPageCrawlerUnavailable = Sentinel ''discovery: multi-page crawler unavailable''"
definition errCandidateSinkUnavailable where
  "errCandidateSinkUnavailable = Sentinel ''discovery: candidate sink unavailable''"
definition errInvalidCrawlConfig where
  "errInvalidCrawlConfig = Sentinel ''discovery: invalid crawl configuration''"
definition errCrawlWaiterUnavailable where
  "errCrawlWaiterUnavailable = Sentinel ''discovery: waiter unavailable''"
definition errCrawlTimeoutFactoryUnavailable where
  "errCrawlTimeoutFactoryUnavailable = Sentinel ''discovery: timeout factory unavailable''"
definition errCrawlTelemetryUnavailable where
  "errCrawlTelemetryUnavailable = Sentinel ''discovery: crawl telemetry unavailable''"

section \<open>Telemetry values\<close>

datatype crawl_run_outcome = CrawlRunComplete | CrawlRunBudgetExhausted | CrawlRunCanceled | CrawlRunFailed

datatype page_outcome =
  PageComplete | PageRedirected | PageRobotsDenied | PageUnsupportedContent | PageTooLarge | PageHTTPError
  | PageTimeout | PageNetworkError | PageInvalidResponse

datatype robots_decision = RobotsAllowed | RobotsDenied | RobotsUnknown

record page_attempt =
  pa_Sequence :: int
  pa_RequestedURL :: string
  pa_FinalURL :: string
  pa_Depth :: int
  pa_StartedAt :: go_time
  pa_Duration :: duration
  pa_StatusCode :: "int option"
  pa_ResponseBytes :: int
  pa_ContentType :: string
  pa_RedirectCount :: int
  pa_RobotsDecision :: robots_decision
  pa_InternalLinkCount :: int
  pa_ExternalLinkCount :: int
  pa_Outcome :: page_outcome
  pa_FailureCategory :: category
  pa_URLsFound :: int
  pa_URLsEnqueued :: int

section \<open>Interfaces and state\<close>

record crawl_config =
  cc_MaxDepth :: int
  cc_MaxPages :: int
  cc_MaxPageBytes :: int
  cc_RequestDelay :: duration
  cc_RedirectLimit :: int
  cc_PageTimeout :: duration
  cc_MaxAutomaticPromotionsPerRun :: int

record crawl_result =
  cr_Source :: origin
  cr_PagesAttempted :: int
  cr_PagesParsed :: int
  cr_CandidatesDiscovered :: int
  cr_BudgetExhausted :: bool
  cr_FailureCategory :: category
  cr_RetryAfter :: duration

type_synonym run_id = int

type_synonym 'w page_getter = "'w ctx_err \<Rightarrow> url \<Rightarrow> 'w \<Rightarrow> (go_error + response option) \<times> 'w"

record 'w candidate_sink =
  cs_RecordCandidates :: "'w ctx_err \<Rightarrow> origin \<Rightarrow> candidate list \<Rightarrow> 'w \<Rightarrow> go_error option \<times> 'w"
  cs_RecordCandidatesForRun ::
    "('w ctx_err \<Rightarrow> run_id \<Rightarrow> origin \<Rightarrow> candidate list \<Rightarrow> 'w \<Rightarrow> go_error option \<times> 'w) option"
  cs_FinalizeCandidates :: "('w ctx_err \<Rightarrow> run_id \<Rightarrow> 'w \<Rightarrow> go_error option \<times> 'w) option"

record 'w crawl_telemetry =
  ct_BeginCrawl :: "'w ctx_err \<Rightarrow> origin \<Rightarrow> crawl_config \<Rightarrow> 'w \<Rightarrow> (go_error + run_id) \<times> 'w"
  ct_RecordPageAttempt :: "'w ctx_err \<Rightarrow> run_id \<Rightarrow> page_attempt \<Rightarrow> 'w \<Rightarrow> go_error option \<times> 'w"
  ct_FinishCrawl ::
    "'w ctx_err \<Rightarrow> run_id \<Rightarrow> crawl_result \<Rightarrow> crawl_run_outcome \<Rightarrow> string \<Rightarrow> 'w \<Rightarrow> go_error option \<times> 'w"
  ct_FinishCrawlSummary ::
    "('w ctx_err \<Rightarrow> run_id \<Rightarrow> crawl_result \<Rightarrow> crawl_run_outcome \<Rightarrow> string \<Rightarrow> int \<Rightarrow> 'w \<Rightarrow>
      go_error option \<times> 'w) option"

record 'w crawler =
  cw_getter :: "'w page_getter option"
  cw_sink :: "'w candidate_sink option"
  cw_config :: crawl_config
  cw_waiter :: "('w ctx_err \<Rightarrow> duration \<Rightarrow> 'w \<Rightarrow> go_error option \<times> 'w) option"
  cw_timeoutFactory :: "('w ctx_err \<Rightarrow> duration \<Rightarrow> 'w \<Rightarrow> 'w ctx_err) option"
  cw_telemetry :: "'w crawl_telemetry option"
  cw_clock :: "'w \<Rightarrow> go_time"
  cw_finishTimeout :: duration

record 'w crawl_env =
  ce_lib :: link_lib
  ce_ParseTime :: "string \<Rightarrow> go_time option"
  ce_reading :: "'w \<Rightarrow> 'w"
  ce_Close :: "response \<Rightarrow> 'w \<Rightarrow> go_error option \<times> 'w"
  ce_finishContext :: "duration \<Rightarrow> 'w \<Rightarrow> 'w ctx_err"

record frontier_entry =
  fe_pageURL :: url
  fe_depth :: int

record crawled_page =
  pg_links :: page_links
  pg_parsed :: bool
  pg_attempt :: page_attempt
  pg_failureCategory :: category
  pg_retryAfter :: duration

definition crawlRetryClock :: "('w \<Rightarrow> go_time) \<Rightarrow> ('w \<Rightarrow> go_time) option \<Rightarrow> 'w \<Rightarrow> go_time" where
  "crawlRetryClock systemClock clock = (case clock of Some c \<Rightarrow> c | None \<Rightarrow> systemClock)"

definition validCrawlConfig :: "crawl_config \<Rightarrow> bool" where
  "validCrawlConfig config \<longleftrightarrow>
     cc_MaxDepth config \<ge> 0 \<and> cc_MaxPages config > 0 \<and> cc_MaxPages config \<le> MaxCrawlPages \<and>
     cc_MaxPageBytes config > 0 \<and> cc_RequestDelay config \<ge> 0 \<and> cc_RedirectLimit config > 0 \<and>
     cc_PageTimeout config > 0 \<and> cc_MaxAutomaticPromotionsPerRun config \<ge> 0"

definition newMultiPageCrawler ::
    "('w \<Rightarrow> go_time) \<Rightarrow> ('w \<Rightarrow> go_time) option \<Rightarrow> 'w page_getter option \<Rightarrow> 'w candidate_sink option \<Rightarrow>
     crawl_config \<Rightarrow> ('w ctx_err \<Rightarrow> duration \<Rightarrow> 'w \<Rightarrow> go_error option \<times> 'w) option \<Rightarrow>
     ('w ctx_err \<Rightarrow> duration \<Rightarrow> 'w \<Rightarrow> 'w ctx_err) option \<Rightarrow> 'w crawl_telemetry option \<Rightarrow>
     go_error + 'w crawler" where
  "newMultiPageCrawler systemClock retryClock getter sink config waiter timeoutFactory telemetry =
     (if getter = None then Inl errGetterUnavailable
      else if sink = None then Inl errCandidateSinkUnavailable
      else if \<not> validCrawlConfig config then Inl errInvalidCrawlConfig
      else if waiter = None then Inl errCrawlWaiterUnavailable
      else if timeoutFactory = None then Inl errCrawlTimeoutFactoryUnavailable
      else if telemetry = None then Inl errCrawlTelemetryUnavailable
      else Inr \<lparr>cw_getter = getter, cw_sink = sink, cw_config = config, cw_waiter = waiter,
                cw_timeoutFactory = timeoutFactory, cw_telemetry = telemetry,
                cw_clock = crawlRetryClock systemClock retryClock, cw_finishTimeout = 5 * second\<rparr>)"

definition crawl_validate :: "'w crawler option \<Rightarrow> 'w go_context \<Rightarrow> origin \<Rightarrow> 'w \<Rightarrow> go_error option" where
  "crawl_validate c ctx source w =
     (case c of
        None \<Rightarrow> Some errMultiPageCrawlerUnavailable
      | Some c \<Rightarrow>
          (case ctx of
             None \<Rightarrow> Some errInvalidDiscoveryContext
           | Some ctx_Err \<Rightarrow>
               (case ctx_Err w of
                  Some err \<Rightarrow> Some err
                | None \<Rightarrow>
                    if origin_String source = [] then Some errInvalidSource
                    else if cw_getter c = None then Some errGetterUnavailable
                    else if cw_sink c = None then Some errCandidateSinkUnavailable
                    else if \<not> validCrawlConfig (cw_config c) then Some errInvalidCrawlConfig
                    else if cw_waiter c = None then Some errCrawlWaiterUnavailable
                    else if cw_timeoutFactory c = None then Some errCrawlTimeoutFactoryUnavailable
                    else if cw_telemetry c = None then Some errCrawlTelemetryUnavailable
                    else None)))"

section \<open>Fetching one page\<close>

text \<open>The local state of \<^verbatim>\<open>fetchPage\<close>: the current URL, the hops of this attempt, the attempt so far.\<close>

record fetch_state =
  fs_current :: url
  fs_hops :: "string set"
  fs_attempt :: page_attempt

definition crawled_page_zero :: "page_attempt \<Rightarrow> crawled_page" where
  "crawled_page_zero a =
     \<lparr>pg_links = page_links_zero, pg_parsed = False, pg_attempt = a, pg_failureCategory = CategoryNone,
      pg_retryAfter = 0\<rparr>"

abbreviation failedPage :: "page_attempt \<Rightarrow> category \<Rightarrow> crawled_page" where
  "failedPage a cat \<equiv> (crawled_page_zero a)\<lparr>pg_failureCategory := cat\<rparr>"

text \<open>A failed request (lines 483-505).\<close>

definition getFailure :: "go_error \<Rightarrow> bool \<Rightarrow> page_attempt \<Rightarrow> crawled_page" where
  "getFailure err expired a =
     (if errors_Is err ErrDisallowed
      then failedPage (a\<lparr>pa_RobotsDecision := RobotsDenied, pa_Outcome := PageRobotsDenied\<rparr>) CategoryRobotsDenied
      else if expired then failedPage (a\<lparr>pa_Outcome := PageTimeout\<rparr>) CategoryTimeout
      else if errors_Is err ErrTemporary
      then failedPage (a\<lparr>pa_Outcome := PageNetworkError\<rparr>) CategoryRobotsTemporary
      else (let cat = FailureCategory err
            in failedPage (a\<lparr>pa_Outcome := PageNetworkError\<rparr>)
                 (if cat = CategoryUnsupportedOrigin then CategoryTransport else cat)))"

text \<open>A response outside the 2xx range (lines 579-598).\<close>

definition httpFailure ::
    "(string \<Rightarrow> go_time option) \<Rightarrow> response \<Rightarrow> go_time \<Rightarrow> page_attempt \<Rightarrow> crawled_page" where
  "httpFailure http_ParseTime response now a =
     (let status = r_StatusCode response; (cat, transient) = HTTPStatusCategory status;
          cat = (if status \<ge> 400 \<and> status < 500 \<and> status \<noteq> 408 \<and> status \<noteq> 429 then CategoryHTTP4xx
                 else if \<not> transient then CategoryUnsupportedOrigin else cat)
      in (failedPage (a\<lparr>pa_Outcome := PageHTTPError\<rparr>) cat)
           \<lparr>pg_retryAfter := ParseRetryAfter http_ParseTime (r_Header response ''Retry-After'') now\<rparr>)"

text \<open>
  A 2xx page after it was read (lines 612-650): \<open>None\<close> is the panic, the flag says whether the hops of the
  attempt are committed to the visited pages.
\<close>

definition extractedPage ::
    "link_lib \<Rightarrow> origin \<Rightarrow> url \<Rightarrow> string \<Rightarrow> string \<Rightarrow> page_attempt \<Rightarrow> (crawled_page \<times> bool) option" where
  "extractedPage lib source current contentType b a =
     (case ExtractPageLinks lib source (Some current) contentType b of
        None \<Rightarrow> None
      | Some (Inr (links, StatusComplete)) \<Rightarrow>
          Some ((crawled_page_zero (a\<lparr>pa_InternalLinkCount := int (length (pl_Internal links)),
                                     pa_ExternalLinkCount := int (length (pl_Candidates links)),
                                     pa_Outcome := PageComplete\<rparr>))
                  \<lparr>pg_links := links, pg_parsed := True\<rparr>, True)
      | Some (Inr (_, StatusTooLarge)) \<Rightarrow>
          Some (failedPage (a\<lparr>pa_Outcome := PageTooLarge\<rparr>) CategoryOversizedContent, False)
      | Some (Inr (_, StatusUnavailable)) \<Rightarrow>
          Some (failedPage (a\<lparr>pa_Outcome := PageNetworkError\<rparr>) CategoryTransport, False)
      | Some _ \<Rightarrow> Some (failedPage (a\<lparr>pa_Outcome := PageUnsupportedContent\<rparr>) CategoryUnsupportedContent, False))"

text \<open>A redirect response (lines 519-572): the page of another origin, the next state, or a failure.\<close>

definition redirectStep ::
    "host_lib \<Rightarrow> origin \<Rightarrow> int \<Rightarrow> string set \<Rightarrow> int \<Rightarrow> response \<Rightarrow> fetch_state \<Rightarrow>
     ((crawled_page \<times> bool) + fetch_state) option" where
  "redirectStep lib source limit visited redirects response fs =
     (let failure = Some (Inl (failedPage (fs_attempt fs) CategoryMalformedOrigin, False))
      in case pageRedirectTarget lib (fs_current fs) response of
           Inl _ \<Rightarrow> failure
         | Inr next \<Rightarrow>
             (case Origin.Parse lib (url_String lib next) of
                Inl _ \<Rightarrow> failure
              | Inr nextOrigin \<Rightarrow>
                  if nextOrigin \<noteq> source
                  then Some (Inl ((crawled_page_zero
                          ((fs_attempt fs)\<lparr>pa_RedirectCount := redirects + 1,
                             pa_FinalURL := safeTelemetryURL lib next, pa_Outcome := PageRedirected\<rparr>))
                        \<lparr>pg_links := \<lparr>pl_Internal = [],
                                      pl_Candidates = [\<lparr>c_Origin = nextOrigin, c_Kind = KindRedirect\<rparr>]\<rparr>\<rparr>, True))
                  else (case canonicalPageURL lib source next of
                          None \<Rightarrow> None
                        | Some next \<Rightarrow>
                            (let key = url_String lib next
                             in if redirects < limit \<and> key \<notin> fs_hops fs \<and> key \<notin> visited
                                then Some (Inr \<lparr>fs_current = next, fs_hops = insert key (fs_hops fs),
                                                fs_attempt = (fs_attempt fs)\<lparr>pa_RedirectCount := redirects + 1,
                                                   pa_FinalURL := safeTelemetryURL lib next\<rparr>\<rparr>)
                                else failure))))"

text \<open>A response that is not a redirect (lines 571-650).\<close>

definition readPage ::
    "'w crawl_env \<Rightarrow> 'w crawler \<Rightarrow> 'w ctx_err \<Rightarrow> origin \<Rightarrow> url \<Rightarrow> response \<Rightarrow> body \<Rightarrow> page_attempt \<Rightarrow> 'w \<Rightarrow>
     (crawled_page \<times> bool) option \<times> 'w" where
  "readPage env c ctx source current response b a w =
     (let w = ce_reading env w; (closeErr, w) = ce_Close env response w;
          read = readBounded b (nat (cc_MaxPageBytes (cw_config c)));
          data = (case read of Inl _ \<Rightarrow> [] | Inr (data, _) \<Rightarrow> data);
          a = a\<lparr>pa_ResponseBytes := int (length data)\<rparr>
      in (if r_StatusCode response < 200 \<or> r_StatusCode response \<ge> 300
          then Some (httpFailure (ce_ParseTime env) response (cw_clock c w) a, False)
          else if isl read \<or> closeErr \<noteq> None
          then Some (if ctx w \<noteq> None then failedPage (a\<lparr>pa_Outcome := PageTimeout\<rparr>) CategoryTimeout
                     else failedPage (a\<lparr>pa_Outcome := PageNetworkError\<rparr>) CategoryTransport, False)
          else if snd (projr read)
          then Some (failedPage (a\<lparr>pa_Outcome := PageTooLarge\<rparr>) CategoryOversizedContent, False)
          else extractedPage (ce_lib env) source current (r_Header response ''Content-Type'') data a, w))"

text \<open>
  One turn of the loop: \<open>Inr\<close> the next state; \<open>Inl\<close> the page (with the state whose hops it may commit) or a
  panic.
\<close>

definition pageOf :: "fetch_state \<Rightarrow> (crawled_page \<times> bool) option \<Rightarrow> (crawled_page \<times> bool \<times> fetch_state) option" where
  "pageOf fs r = map_option (\<lambda>(page, commit). (page, commit, fs)) r"

definition fetchHop ::
    "'w crawl_env \<Rightarrow> 'w crawler \<Rightarrow> 'w ctx_err \<Rightarrow> origin \<Rightarrow> string set \<Rightarrow> nat \<Rightarrow> fetch_state \<Rightarrow> 'w \<Rightarrow>
     ((crawled_page \<times> bool \<times> fetch_state) option + fetch_state) \<times> 'w" where
  "fetchHop env c ctx source visited redirects fs w =
     (let host = lk_host (ce_lib env); a = fs_attempt fs
      in case the (cw_getter c) ctx (fs_current fs) w of
           (Inl err, w) \<Rightarrow> (Inl (pageOf fs (Some (getFailure err (ctx w \<noteq> None) a, False))), w)
         | (Inr None, w) \<Rightarrow> (Inl (pageOf fs (Some (failedPage a CategoryTransport, False))), w)
         | (Inr (Some response), w) \<Rightarrow>
             (case r_Body response of
                None \<Rightarrow> (Inl (pageOf fs (Some (failedPage a CategoryTransport, False))), w)
              | Some b \<Rightarrow>
                  (let a = a\<lparr>pa_RobotsDecision := RobotsAllowed, pa_StatusCode := Some (r_StatusCode response),
                             pa_FinalURL := safeTelemetryURL host (fs_current fs),
                             pa_ContentType :=
                               safeTelemetryContentType (ce_lib env) (r_Header response ''Content-Type'')\<rparr>
                   in if isPageRedirect (r_StatusCode response) then
                        (let w = snd (ce_Close env response w)
                         in case redirectStep host source (cc_RedirectLimit (cw_config c)) visited (int redirects)
                                   response (fs\<lparr>fs_attempt := a\<rparr>) of
                              None \<Rightarrow> (Inl None, w)
                            | Some (Inl page) \<Rightarrow> (Inl (pageOf fs (Some page)), w)
                            | Some (Inr next) \<Rightarrow> (Inr next, w))
                      else (case readPage env c ctx source (fs_current fs) response b a w of
                              (r, w) \<Rightarrow> (Inl (pageOf fs r), w)))))"

lemma redirectStep_next:
  "redirectStep lib source limit visited n response fs = Some (Inr fs') \<Longrightarrow>
   n < limit \<and> (\<exists>u. canonicalPageURL lib source u = Some (fs_current fs'))"
  by (auto simp: redirectStep_def Let_def split: sum.splits if_splits option.splits)

lemma fetchHop_next:
  assumes "fetchHop env c ctx source visited n fs w = (Inr fs', w')"
  shows "n < nat (cc_RedirectLimit (cw_config c))"
    "\<exists>u. canonicalPageURL (lk_host (ce_lib env)) source u = Some (fs_current fs')"
proof -
  from assms obtain response fs1 where
    "redirectStep (lk_host (ce_lib env)) source (cc_RedirectLimit (cw_config c)) visited (int n) response fs1 =
       Some (Inr fs')"
    unfolding fetchHop_def Let_def by (auto split: prod.splits sum.splits option.splits if_splits)
  from redirectStep_next [OF this]
  show "n < nat (cc_RedirectLimit (cw_config c))"
    "\<exists>u. canonicalPageURL (lk_host (ce_lib env)) source u = Some (fs_current fs')" by auto
qed

function fetchLoop ::
    "'w crawl_env \<Rightarrow> 'w crawler \<Rightarrow> 'w ctx_err \<Rightarrow> origin \<Rightarrow> string set \<Rightarrow> nat \<Rightarrow> fetch_state \<Rightarrow> 'w \<Rightarrow>
     (crawled_page \<times> bool \<times> fetch_state) option \<times> 'w" where
  "fetchLoop env c ctx source visited redirects fs w =
     (case fetchHop env c ctx source visited redirects fs w of
        (Inl result, w) \<Rightarrow> (result, w)
      | (Inr next, w) \<Rightarrow> fetchLoop env c ctx source visited (Suc redirects) next w)"
  by pat_completeness auto
termination
  by (relation "measure (\<lambda>(_, c, _, _, _, redirects, _). nat (cc_RedirectLimit (cw_config c)) - redirects)")
    (auto dest!: fetchHop_next(1) [OF sym])

declare fetchLoop.simps [simp del]

definition startAttempt :: "host_lib \<Rightarrow> url \<Rightarrow> go_time \<Rightarrow> page_attempt" where
  "startAttempt lib current started =
     \<lparr>pa_Sequence = 0, pa_RequestedURL = safeTelemetryURL lib current, pa_FinalURL = safeTelemetryURL lib current,
      pa_Depth = 0, pa_StartedAt = started, pa_Duration = 0, pa_StatusCode = None, pa_ResponseBytes = 0,
      pa_ContentType = [], pa_RedirectCount = 0, pa_RobotsDecision = RobotsUnknown, pa_InternalLinkCount = 0,
      pa_ExternalLinkCount = 0, pa_Outcome = PageInvalidResponse, pa_FailureCategory = CategoryNone,
      pa_URLsFound = 0, pa_URLsEnqueued = 0\<rparr>"

text \<open>The page and the visited pages afterwards.\<close>

definition fetchPage ::
    "'w crawl_env \<Rightarrow> 'w crawler \<Rightarrow> 'w ctx_err \<Rightarrow> origin \<Rightarrow> url \<Rightarrow> string set \<Rightarrow> 'w \<Rightarrow>
     (crawled_page \<times> string set) option \<times> 'w" where
  "fetchPage env c ctx source initial visited w =
     (let host = lk_host (ce_lib env); started = cw_clock c w
      in case canonicalPageURL host source initial of
           None \<Rightarrow> (None, w)
         | Some current \<Rightarrow>
             (case fetchLoop env c ctx source visited 0
                     \<lparr>fs_current = current, fs_hops = {url_String host current},
                      fs_attempt = startAttempt host current started\<rparr> w of
                (None, w) \<Rightarrow> (None, w)
              | (Some (page, commit, fs), w) \<Rightarrow>
                  (Some (page\<lparr>pg_attempt := (pg_attempt page)\<lparr>pa_Duration := time_Sub (cw_clock c w) started\<rparr>\<rparr>,
                         if commit then visited \<union> fs_hops fs else visited), w)))"

section \<open>The crawl\<close>

text \<open>At most \<^const>\<open>MaxAttemptsPerCycle\<close> fetches of one page (lines 285-310): also the error of the last page context.\<close>

function fetchAttempts ::
    "'w crawl_env \<Rightarrow> 'w crawler \<Rightarrow> 'w ctx_err \<Rightarrow> origin \<Rightarrow> url \<Rightarrow> nat \<Rightarrow> string set \<Rightarrow> 'w \<Rightarrow>
     (crawled_page \<times> go_error option \<times> string set) option \<times> 'w" where
  "fetchAttempts env c ctx source pageURL attempt visited w =
     (let pageContext = the (cw_timeoutFactory c) ctx (cc_PageTimeout (cw_config c)) w
      in case fetchPage env c pageContext source pageURL visited w of
           (None, w) \<Rightarrow> (None, w)
         | (Some (page, visited), w) \<Rightarrow>
             if \<not> Transient (pg_failureCategory page) \<or> attempt \<ge> MaxAttemptsPerCycle \<or> pg_retryAfter page > 0
             then (Some (page, pageContext w, visited), w)
             else fetchAttempts env c ctx source pageURL (Suc attempt) visited w)"
  by pat_completeness auto
termination
  by (relation "measure (\<lambda>(_, _, _, _, _, attempt, _). MaxAttemptsPerCycle - attempt)") auto

declare fetchAttempts.simps [simp del]

record crawl_state =
  st_frontier :: "frontier_entry list"
  st_queued :: "string set"
  st_visited :: "string set"
  st_candidateSeen :: "origin set"
  st_result :: crawl_result
  st_remaining :: int

datatype crawl_turn = Continue | Break | Return go_error | Panic

text \<open>The failure of a page in the result (lines 317-327).\<close>

definition noteFailure :: "crawled_page \<Rightarrow> crawl_result \<Rightarrow> crawl_result" where
  "noteFailure page result =
     (if pg_failureCategory page = CategoryNone then result
      else result\<lparr>cr_FailureCategory :=
                    (if cr_FailureCategory result = CategoryNone \<or> Transient (pg_failureCategory page)
                     then pg_failureCategory page else cr_FailureCategory result),
                  cr_RetryAfter := max (cr_RetryAfter result) (pg_retryAfter page)\<rparr>)"

text \<open>The attempt that is reported (lines 311-312 and 329-344).\<close>

definition reportedAttempt ::
    "host_lib \<Rightarrow> crawl_config \<Rightarrow> string set \<Rightarrow> string set \<Rightarrow> int \<Rightarrow> int \<Rightarrow> crawled_page \<Rightarrow> page_attempt" where
  "reportedAttempt lib config visited queued sequence depth page =
     (pg_attempt page)\<lparr>pa_Sequence := sequence, pa_Depth := depth,
        pa_FailureCategory := pg_failureCategory page,
        pa_URLsFound := int (length (pl_Internal (pg_links page))) + int (length (pl_Candidates (pg_links page))),
        pa_URLsEnqueued :=
          (if pg_parsed page
           then int (length (filter (\<lambda>u. url_String lib u \<notin> visited \<and> url_String lib u \<notin> queued \<and>
                                          depth + 1 \<le> cc_MaxDepth config) (pl_Internal (pg_links page))))
           else 0)\<rparr>"

definition recordFresh ::
    "'w crawler \<Rightarrow> 'w ctx_err \<Rightarrow> run_id \<Rightarrow> origin \<Rightarrow> candidate list \<Rightarrow> 'w \<Rightarrow> go_error option \<times> 'w" where
  "recordFresh c ctx runID source freshCandidates w =
     (case cs_RecordCandidatesForRun (the (cw_sink c)) of
        Some recordForRun \<Rightarrow>
          if runID > 0 then recordForRun ctx runID source freshCandidates w
          else cs_RecordCandidates (the (cw_sink c)) ctx source freshCandidates w
      | None \<Rightarrow> cs_RecordCandidates (the (cw_sink c)) ctx source freshCandidates w)"

fun enqueueInternal :: "host_lib \<Rightarrow> crawl_config \<Rightarrow> int \<Rightarrow> url list \<Rightarrow> crawl_state \<Rightarrow> crawl_state" where
  "enqueueInternal lib config nextDepth [] st = st"
| "enqueueInternal lib config nextDepth (internal # rest) st =
     (let canonical = url_String lib internal
      in if canonical \<in> st_visited st \<or> canonical \<in> st_queued st
         then enqueueInternal lib config nextDepth rest st
         else if nextDepth > cc_MaxDepth config
         then enqueueInternal lib config nextDepth rest
                (st\<lparr>st_result := (st_result st)\<lparr>cr_BudgetExhausted := True\<rparr>\<rparr>)
         else enqueueInternal lib config nextDepth rest
                (st\<lparr>st_queued := insert canonical (st_queued st),
                    st_frontier := st_frontier st @ [\<lparr>fe_pageURL = internal, fe_depth = nextDepth\<rparr>]\<rparr>))"

text \<open>A fetched page whose attempt was reported and whose context did not end (lines 363-432).\<close>

definition countParsed :: "crawled_page \<Rightarrow> crawl_state \<Rightarrow> crawl_state" where
  "countParsed page st =
     (if pg_parsed page
      then st\<lparr>st_result := (st_result st)\<lparr>cr_PagesParsed := cr_PagesParsed (st_result st) + 1\<rparr>\<rparr> else st)"

definition freshOf :: "crawl_state \<Rightarrow> crawled_page \<Rightarrow> candidate list" where
  "freshOf st page = filter (\<lambda>cand. c_Origin cand \<notin> st_candidateSeen st) (pl_Candidates (pg_links page))"

definition noteCandidates :: "candidate list \<Rightarrow> crawl_state \<Rightarrow> crawl_state" where
  "noteCandidates xs st =
     st\<lparr>st_candidateSeen := st_candidateSeen st \<union> set (map c_Origin xs),
        st_result := (st_result st)\<lparr>cr_CandidatesDiscovered :=
          cr_CandidatesDiscovered (st_result st) + int (length xs)\<rparr>\<rparr>"

definition enqueuePage :: "host_lib \<Rightarrow> crawl_config \<Rightarrow> int \<Rightarrow> crawled_page \<Rightarrow> crawl_state \<Rightarrow> crawl_state" where
  "enqueuePage lib config depth page st =
     (if \<not> pg_parsed page then st
      else (let st = enqueueInternal lib config (depth + 1) (pl_Internal (pg_links page)) st
            in st\<lparr>st_remaining := int (length (st_frontier st))\<rparr>))"

definition processPage ::
    "'w crawl_env \<Rightarrow> 'w crawler \<Rightarrow> 'w ctx_err \<Rightarrow> run_id \<Rightarrow> origin \<Rightarrow> int \<Rightarrow> crawled_page \<Rightarrow> crawl_state \<Rightarrow> 'w \<Rightarrow>
     crawl_turn \<times> crawl_state \<times> 'w" where
  "processPage env c ctx runID source depth page st w =
     (let st = countParsed page st; freshCandidates = freshOf st page
      in case (if freshCandidates = [] then (None, w) else recordFresh c ctx runID source freshCandidates w) of
           (Some err, w) \<Rightarrow> (Return (Wrap ''discovery: record candidates'' [err]), st, w)
         | (None, w) \<Rightarrow>
             (Continue, enqueuePage (lk_host (ce_lib env)) (cw_config c) depth page
                          (noteCandidates freshCandidates st), w))"

text \<open>The delay before every page but the first (lines 266-275).\<close>

definition pageDelay :: "'w crawler \<Rightarrow> 'w ctx_err \<Rightarrow> int \<Rightarrow> 'w \<Rightarrow> go_error option \<times> 'w" where
  "pageDelay c ctx pagesAttempted w =
     (if pagesAttempted > 0 \<and> cc_RequestDelay (cw_config c) > 0
      then the (cw_waiter c) ctx (cc_RequestDelay (cw_config c)) w else (None, w))"

text \<open>Reporting a fetched page (lines 317-361), then processing it.\<close>

definition reportPage ::
    "'w crawl_env \<Rightarrow> 'w crawler \<Rightarrow> 'w ctx_err \<Rightarrow> run_id \<Rightarrow> origin \<Rightarrow> int \<Rightarrow> crawled_page \<Rightarrow> go_error option \<Rightarrow>
     crawl_state \<Rightarrow> 'w \<Rightarrow> crawl_turn \<times> crawl_state \<times> 'w" where
  "reportPage env c ctx runID source depth page pageContextErr st w =
     (let st = st\<lparr>st_result := noteFailure page (st_result st)\<rparr>
      in case ct_RecordPageAttempt (the (cw_telemetry c)) ctx runID
                (reportedAttempt (lk_host (ce_lib env)) (cw_config c) (st_visited st) (st_queued st)
                   (cr_PagesAttempted (st_result st)) depth page) w of
           (Some err, w) \<Rightarrow> (Return (Wrap ''discovery: record crawl telemetry'' [err]), st, w)
         | (None, w) \<Rightarrow>
             if Transient (pg_failureCategory page) \<and> pg_retryAfter page > 0 then (Break, st, w)
             else if pageContextErr \<noteq> None then (Continue, st, w)
             else processPage env c ctx runID source depth page st w)"

text \<open>The turn for an entry that is fetched (lines 266-432); \<open>st\<close> is the state after the entry was removed.\<close>

definition fetchEntry ::
    "'w crawl_env \<Rightarrow> 'w crawler \<Rightarrow> 'w ctx_err \<Rightarrow> run_id \<Rightarrow> origin \<Rightarrow> frontier_entry \<Rightarrow> crawl_state \<Rightarrow> 'w \<Rightarrow>
     crawl_turn \<times> crawl_state \<times> 'w" where
  "fetchEntry env c ctx runID source entry st w =
     (case pageDelay c ctx (cr_PagesAttempted (st_result st)) w of
        (Some err, w) \<Rightarrow> (Return err, st, w)
      | (None, w) \<Rightarrow>
          (let st = st\<lparr>st_result := (st_result st)\<lparr>cr_PagesAttempted := cr_PagesAttempted (st_result st) + 1\<rparr>\<rparr>
           in case fetchAttempts env c ctx source (fe_pageURL entry) 1 (st_visited st) w of
                (None, w) \<Rightarrow> (Panic, st, w)
              | (Some (page, pageContextErr, visited), w) \<Rightarrow>
                  (let st = st\<lparr>st_visited := visited\<rparr>
                   in case ctx w of
                        Some parentErr \<Rightarrow> (Return parentErr, st, w)
                      | None \<Rightarrow> reportPage env c ctx runID source (fe_depth entry) page pageContextErr st w)))"

definition crawlTurn ::
    "'w crawl_env \<Rightarrow> 'w crawler \<Rightarrow> 'w ctx_err \<Rightarrow> run_id \<Rightarrow> origin \<Rightarrow> crawl_state \<Rightarrow> 'w \<Rightarrow>
     crawl_turn \<times> crawl_state \<times> 'w" where
  "crawlTurn env c ctx runID source st w =
     (let entry = hd (st_frontier st);
          st = st\<lparr>st_frontier := tl (st_frontier st), st_remaining := int (length (tl (st_frontier st)))\<rparr>
      in if url_String (lk_host (ce_lib env)) (fe_pageURL entry) \<in> st_visited st then (Continue, st, w)
         else if cr_PagesAttempted (st_result st) \<ge> cc_MaxPages (cw_config c)
         then (Break, st\<lparr>st_result := (st_result st)\<lparr>cr_BudgetExhausted := True\<rparr>,
                        st_remaining := int (length (st_frontier st)) + 1\<rparr>, w)
         else fetchEntry env c ctx runID source entry st w)"

text \<open>What a turn that goes on has done to the budget: it dropped a visited entry, or it spent one page.\<close>

lemma enqueueInternal_result:
  "cr_PagesAttempted (st_result (enqueueInternal lib config d us st)) = cr_PagesAttempted (st_result st)"
  "st_visited (enqueueInternal lib config d us st) = st_visited st"
  "st_candidateSeen (enqueueInternal lib config d us st) = st_candidateSeen st"
  by (induction us arbitrary: st) (simp_all add: Let_def)

lemma noteFailure_attempted [simp]: "cr_PagesAttempted (noteFailure page r) = cr_PagesAttempted r"
  by (simp add: noteFailure_def)

lemma processPage_parts [simp]:
  "cr_PagesAttempted (st_result (countParsed page st)) = cr_PagesAttempted (st_result st)"
  "st_candidateSeen (countParsed page st) = st_candidateSeen st" "st_frontier (countParsed page st) = st_frontier st"
  "cr_PagesAttempted (st_result (noteCandidates xs st)) = cr_PagesAttempted (st_result st)"
  "st_candidateSeen (noteCandidates xs st) = st_candidateSeen st \<union> set (map c_Origin xs)"
  "st_frontier (noteCandidates xs st) = st_frontier st"
  "cr_PagesAttempted (st_result (enqueuePage lib config d page st)) = cr_PagesAttempted (st_result st)"
  "st_candidateSeen (enqueuePage lib config d page st) = st_candidateSeen st"
  by (simp_all add: countParsed_def noteCandidates_def enqueuePage_def enqueueInternal_result Let_def)

lemma processPage_attempted:
  "processPage env c ctx runID source d page st w = (t, st', w') \<Longrightarrow>
   cr_PagesAttempted (st_result st') = cr_PagesAttempted (st_result st)"
  by (auto simp: processPage_def Let_def split: prod.splits option.splits if_splits)

lemma fetchEntry_attempted:
  assumes "fetchEntry env c ctx runID source entry st w = (t, st', w')"
  shows "cr_PagesAttempted (st_result st') \<in> {cr_PagesAttempted (st_result st), cr_PagesAttempted (st_result st) + 1}"
    and "t = Continue \<Longrightarrow> cr_PagesAttempted (st_result st') = cr_PagesAttempted (st_result st) + 1"
  using assms unfolding fetchEntry_def reportPage_def Let_def
  by (auto split: prod.splits option.splits if_splits dest!: processPage_attempted)

lemma crawlTurn_continues:
  assumes "crawlTurn env c ctx runID source st w = (Continue, st', w')"
  shows "st_frontier st' = tl (st_frontier st) \<and> cr_PagesAttempted (st_result st') = cr_PagesAttempted (st_result st) \<or>
    cr_PagesAttempted (st_result st) < cc_MaxPages (cw_config c) \<and>
    cr_PagesAttempted (st_result st') = cr_PagesAttempted (st_result st) + 1"
  using assms unfolding crawlTurn_def Let_def
  by (auto split: if_splits dest: fetchEntry_attempted(2))

function crawlLoop ::
    "'w crawl_env \<Rightarrow> 'w crawler \<Rightarrow> 'w ctx_err \<Rightarrow> run_id \<Rightarrow> origin \<Rightarrow> crawl_state \<Rightarrow> 'w \<Rightarrow>
     crawl_turn \<times> crawl_state \<times> 'w" where
  "crawlLoop env c ctx runID source st w =
     (if st_frontier st = [] then (Break, st, w)
      else (case crawlTurn env c ctx runID source st w of
              (Continue, st, w) \<Rightarrow> crawlLoop env c ctx runID source st w
            | (t, st, w) \<Rightarrow> (t, st, w)))"
  by pat_completeness auto
termination
proof (relation "measures [\<lambda>(_, c, _, _, _, st, _). nat (cc_MaxPages (cw_config c) - cr_PagesAttempted (st_result st)),
    \<lambda>(_, _, _, _, _, st, _). length (st_frontier st)]")
  fix env :: "'w crawl_env" and c ctx runID source st w t p st' w'
  assume "st_frontier st \<noteq> []" and "(t, p) = crawlTurn env c ctx runID source st w" and "(st', w') = p"
    and "t = Continue"
  then show "((env, c, ctx, runID, source, st', w'), env, c, ctx, runID, source, st, w)
      \<in> measures [\<lambda>(_, c, _, _, _, st, _). nat (cc_MaxPages (cw_config c) - cr_PagesAttempted (st_result st)),
                  \<lambda>(_, _, _, _, _, st, _). length (st_frontier st)]"
    using crawlTurn_continues [of env c ctx runID source st w st' w'] by auto
qed simp

declare crawlLoop.simps [simp del]

lemma crawlLoop_rule:
  assumes "I st w"
    and "\<And>st w st' w'. I st w \<Longrightarrow> st_frontier st \<noteq> [] \<Longrightarrow>
           crawlTurn env c ctx runID source st w = (Continue, st', w') \<Longrightarrow> I st' w'"
    and "\<And>st w t st' w'. I st w \<Longrightarrow> st_frontier st \<noteq> [] \<Longrightarrow>
           crawlTurn env c ctx runID source st w = (t, st', w') \<Longrightarrow> t \<noteq> Continue \<Longrightarrow> Q t st' w'"
    and "\<And>st w. I st w \<Longrightarrow> st_frontier st = [] \<Longrightarrow> Q Break st w"
  shows "case crawlLoop env c ctx runID source st w of (t, st', w') \<Rightarrow> Q t st' w'"
  using assms
proof (induction env c ctx runID source st w rule: crawlLoop.induct)
  case (1 env c ctx runID source st w)
  show ?case
  proof (cases "st_frontier st = []")
    case True
    with "1.prems"(1,4) show ?thesis by (subst crawlLoop.simps) simp
  next
    case False
    obtain t st1 w1 where t: "crawlTurn env c ctx runID source st w = (t, st1, w1)" by (metis prod.exhaust)
    show ?thesis
    proof (cases "t = Continue")
      case True
      have "case crawlLoop env c ctx runID source st1 w1 of (t, st', w') \<Rightarrow> Q t st' w'"
        by (rule "1.IH" [OF False t [symmetric] True refl "1.prems"(2) [OF "1.prems"(1) False t [unfolded True]]])
          (use "1.prems"(2-4) in blast)+
      with False t True show ?thesis by (subst crawlLoop.simps) simp
    next
      case no: False
      with "1.prems"(3) [OF "1.prems"(1) False t] False t show ?thesis
        by (subst crawlLoop.simps) (cases t; simp)
    qed
  qed
qed

text \<open>The deferred report of the crawl (lines 189-233): the error it leaves.\<close>

definition crawlOutcome :: "bool \<Rightarrow> go_error option \<Rightarrow> crawl_result \<Rightarrow> crawl_run_outcome \<times> string" where
  "crawlOutcome canceled crawlErr result =
     (if canceled then (CrawlRunCanceled, ''context_canceled'')
      else if crawlErr \<noteq> None then (CrawlRunFailed, ''crawler_error'')
      else if cr_BudgetExhausted result then (CrawlRunBudgetExhausted, ''crawl_budget'')
      else if cr_FailureCategory result \<noteq> CategoryNone
      then (CrawlRunFailed, if cr_PagesParsed result > 0 then ''partial_failure'' else ''root_failure'')
      else (CrawlRunComplete, ''frontier_exhausted''))"

definition finishCrawl ::
    "'w crawl_env \<Rightarrow> 'w crawler \<Rightarrow> 'w ctx_err \<Rightarrow> run_id \<Rightarrow> crawl_result \<Rightarrow> int \<Rightarrow> go_error option \<Rightarrow> 'w \<Rightarrow>
     go_error option \<times> 'w" where
  "finishCrawl env c ctx runID result remaining crawlErr w =
     (let (outcome, reason) = crawlOutcome (ctx w \<noteq> None) crawlErr result;
          finishContext = ce_finishContext env (cw_finishTimeout c) w;
          (finishErr, w) =
            (case ct_FinishCrawlSummary (the (cw_telemetry c)) of
               Some finishSummary \<Rightarrow> finishSummary finishContext runID result outcome reason remaining w
             | None \<Rightarrow> ct_FinishCrawl (the (cw_telemetry c)) finishContext runID result outcome reason w)
      in (case finishErr of
            Some err \<Rightarrow>
              if crawlErr = None then Some (Wrap ''discovery: finish crawl telemetry'' [err]) else crawlErr
          | None \<Rightarrow> crawlErr, w))"

definition finalizeCandidates ::
    "'w crawler \<Rightarrow> 'w ctx_err \<Rightarrow> run_id \<Rightarrow> 'w \<Rightarrow> go_error option \<times> 'w" where
  "finalizeCandidates c ctx runID w =
     (case cs_FinalizeCandidates (the (cw_sink c)) of
        Some finalizer \<Rightarrow>
          if runID > 0
          then (case finalizer ctx runID w of
                  (Some err, w) \<Rightarrow> (Some (Wrap ''discovery: finalize candidates'' [err]), w)
                | (None, w) \<Rightarrow> (None, w))
          else (None, w)
      | None \<Rightarrow> (None, w))"

definition crawl_result_zero :: "origin \<Rightarrow> crawl_result" where
  "crawl_result_zero source =
     \<lparr>cr_Source = source, cr_PagesAttempted = 0, cr_PagesParsed = 0, cr_CandidatesDiscovered = 0,
      cr_BudgetExhausted = False, cr_FailureCategory = CategoryNone, cr_RetryAfter = 0\<rparr>"

definition crawlStart :: "host_lib \<Rightarrow> origin \<Rightarrow> url \<Rightarrow> crawl_state" where
  "crawlStart lib source rootURL =
     \<lparr>st_frontier = [\<lparr>fe_pageURL = rootURL, fe_depth = 0\<rparr>], st_queued = {url_String lib rootURL}, st_visited = {},
      st_candidateSeen = {}, st_result = crawl_result_zero source, st_remaining = 0\<rparr>"

text \<open>The result and the error; \<open>None\<close> for a panic, with the state the deferred report left.\<close>

definition Crawl ::
    "'w crawl_env \<Rightarrow> 'w crawler option \<Rightarrow> 'w go_context \<Rightarrow> origin \<Rightarrow> 'w \<Rightarrow>
     (crawl_result \<times> go_error option) option \<times> 'w" where
  "Crawl env crawler ctx source w =
     (case crawl_validate crawler ctx source w of
        Some err \<Rightarrow> (Some (crawl_result_zero origin_zero, Some err), w)
      | None \<Rightarrow>
          (let c = the crawler; ctx = the ctx; host = lk_host (ce_lib env)
           in case ct_BeginCrawl (the (cw_telemetry c)) ctx source (cw_config c) w of
                (Inl err, w) \<Rightarrow>
                  (Some (crawl_result_zero source, Some (Wrap ''discovery: begin crawl telemetry'' [err])), w)
              | (Inr runID, w) \<Rightarrow>
                  (case url_Parse host (origin_String source @ ''/'') of
                     Inl _ \<Rightarrow> (None, snd (finishCrawl env c ctx runID (crawl_result_zero source) 0 None w))
                   | Inr rootURL \<Rightarrow>
                       (case crawlLoop env c ctx runID source (crawlStart host source rootURL) w of
                          (Panic, st, w) \<Rightarrow>
                            (None, snd (finishCrawl env c ctx runID (st_result st) (st_remaining st) None w))
                        | (Return err, st, w) \<Rightarrow>
                            (case finishCrawl env c ctx runID (st_result st) (st_remaining st) (Some err) w of
                               (crawlErr, w) \<Rightarrow> (Some (st_result st, crawlErr), w))
                        | (_, st, w) \<Rightarrow>
                            (case finalizeCandidates c ctx runID w of
                               (finalErr, w) \<Rightarrow>
                                 (case finishCrawl env c ctx runID (st_result st) (st_remaining st) finalErr w of
                                    (crawlErr, w) \<Rightarrow> (Some (st_result st, crawlErr), w)))))))"

section \<open>The fetch loop keeps the redirect contract\<close>

definition onSource :: "host_lib \<Rightarrow> origin \<Rightarrow> url \<Rightarrow> bool" where
  "onSource lib source u =
     (case url_Parse lib (origin_String source) of
        Inl _ \<Rightarrow> False
      | Inr s \<Rightarrow> u_Scheme u = u_Scheme s \<and> u_Host u = u_Host s \<and> u_User u = None \<and> u_Fragment u = [] \<and>
               HasPrefix (u_Path u) ''/'')"

lemma canonical_onSource: "canonicalPageURL lib source u = Some v \<Longrightarrow> onSource lib source v"
  by (drule canonicalPageURL_Some) (auto simp: onSource_def)

interpretation fetch_loop: redirect_loop "fetchHop env c ctx source visited" "fetchLoop env c ctx source visited"
  "nat (cc_RedirectLimit (cw_config c))" "\<lambda>fs. onSource (lk_host (ce_lib env)) source (fs_current fs)"
  for env c ctx source visited
proof
  show "fetchLoop env c ctx source visited n u w =
      (case fetchHop env c ctx source visited n u w of (Inl r, w') \<Rightarrow> (r, w')
       | (Inr u', w') \<Rightarrow> fetchLoop env c ctx source visited (Suc n) u' w')" for n u w
    by (subst fetchLoop.simps) rule
qed (auto dest: fetchHop_next canonical_onSource)

text \<open>The candidates of a page are other origins, each once, and its internal pages are pages of the source.\<close>

definition pageSound :: "host_lib \<Rightarrow> origin \<Rightarrow> crawled_page \<Rightarrow> bool" where
  "pageSound lib source page \<longleftrightarrow>
     distinct (map c_Origin (pl_Candidates (pg_links page))) \<and>
     source \<notin> set (map c_Origin (pl_Candidates (pg_links page)))"

lemma pageSound_zero [simp]: "pageSound lib source (crawled_page_zero a)"
  "pageSound lib source (failedPage a cat)"
  by (simp_all add: pageSound_def crawled_page_zero_def page_links_zero_def)

lemma ExtractPageLinks_candidates:
  assumes "ExtractPageLinks lib source page ct b = Some (Inr (links, st))"
  shows "distinct (map c_Origin (pl_Candidates links)) \<and> source \<notin> set (map c_Origin (pl_Candidates links))"
proof -
  let ?key = "\<lambda>c. origin_String (c_Origin c)"
  from assms obtain links0 where l0: "extractPageLinks lib source page ct b = Some (Inr (links0, st))"
      and l: "pl_Candidates links = sort_key ?key (pl_Candidates links0)"
    by (auto simp: ExtractPageLinks_def split: option.splits sum.splits prod.splits)
  have "distinct (map c_Origin (pl_Candidates links0)) \<and> source \<notin> set (map c_Origin (pl_Candidates links0))"
  proof (cases "st = StatusComplete")
    case False
    with extractPageLinks_incomplete [OF l0] show ?thesis by (simp add: page_links_zero_def)
  next
    case True
    from l0 [unfolded True] obtain u document where
        "collectLinks (lk_host lib) source u {} {} page_links_zero document = Some links0"
      by (rule extractPageLinks_complete)
    from collectLinks_candidates [OF this] show ?thesis
      by (auto simp: page_links_zero_def comp_def)
  qed
  moreover have "mset (map c_Origin (pl_Candidates links)) = mset (map c_Origin (pl_Candidates links0))"
    by (simp add: l)
  ultimately show ?thesis by (metis mset_eq_imp_distinct_iff mset_eq_setD)
qed

lemma readPage_sound:
  "readPage env c ctx source current response b a w = (Some (page, commit), w') \<Longrightarrow>
   pageSound (lk_host (ce_lib env)) source page"
  unfolding readPage_def extractedPage_def httpFailure_def Let_def
  by (auto simp: pageSound_def crawled_page_zero_def page_links_zero_def
      split: prod.splits if_splits option.splits sum.splits page_status.splits dest!: ExtractPageLinks_candidates)

lemma redirectStep_sound:
  "redirectStep lib source limit visited n response fs = Some (Inl (page, commit)) \<Longrightarrow> pageSound lib source page"
  by (auto simp: redirectStep_def pageSound_def crawled_page_zero_def page_links_zero_def Let_def
      split: sum.splits if_splits option.splits)

lemma fetchHop_sound:
  "fetchHop env c ctx source visited n fs w = (Inl (Some (page, commit, fs')), w') \<Longrightarrow>
   pageSound (lk_host (ce_lib env)) source page"
  unfolding fetchHop_def Let_def pageOf_def getFailure_def
  by (auto split: prod.splits sum.splits option.splits if_splits dest: readPage_sound redirectStep_sound)

lemma fetchPage_sound:
  assumes "fetchPage env c ctx source u visited w = (Some (page, visited'), w')"
  shows "pageSound (lk_host (ce_lib env)) source page"
proof -
  let ?Q = "\<lambda>r w'. \<forall>page commit fs'. r = Some (page, commit, fs') \<longrightarrow> pageSound (lk_host (ce_lib env)) source page"
  have "case fetchLoop env c ctx source visited 0 fs w of (r, w') \<Rightarrow> ?Q r w'" for fs
    by (rule fetch_loop.loop_rule [where I = "\<lambda>_ _ _. True"]) (auto dest: fetchHop_sound)
  with assms show ?thesis
    by (fastforce simp: fetchPage_def Let_def pageSound_def split: option.splits prod.splits)
qed

lemma fetchAttempts_sound:
  "fetchAttempts env c ctx source u n visited w = (Some (page, e, visited'), w') \<Longrightarrow>
   pageSound (lk_host (ce_lib env)) source page"
proof (induction "MaxAttemptsPerCycle - n" arbitrary: n visited w rule: less_induct)
  case less
  from less.prems show ?case
    by (subst (asm) fetchAttempts.simps)
      (fastforce simp: Let_def split: prod.splits option.splits if_splits dest: fetchPage_sound less.hyps [rotated])
qed

section \<open>The calls of a crawl\<close>

datatype crawl_call = GetCall url | PageCall page_attempt | CandidateCall "candidate list"

definition requestsOf :: "crawl_call list \<Rightarrow> url list" where
  "requestsOf cs = concat (map (\<lambda>c. case c of GetCall u \<Rightarrow> [u] | _ \<Rightarrow> []) cs)"

definition attemptsOf :: "crawl_call list \<Rightarrow> page_attempt list" where
  "attemptsOf cs = concat (map (\<lambda>c. case c of PageCall a \<Rightarrow> [a] | _ \<Rightarrow> []) cs)"

definition recordedOf :: "crawl_call list \<Rightarrow> candidate list" where
  "recordedOf cs = concat (map (\<lambda>c. case c of CandidateCall xs \<Rightarrow> xs | _ \<Rightarrow> []) cs)"

lemmas callsOf = requestsOf_def attemptsOf_def recordedOf_def

lemma callsOf_append:
  "requestsOf (cs @ cs') = requestsOf cs @ requestsOf cs'"
  "attemptsOf (cs @ cs') = attemptsOf cs @ attemptsOf cs'"
  "recordedOf (cs @ cs') = recordedOf cs @ recordedOf cs'"
  by (simp_all add: callsOf)

lemma callsOf_gets [simp]:
  "requestsOf (map GetCall us) = us" "attemptsOf (map GetCall us) = []" "recordedOf (map GetCall us) = []"
  by (induction us) (simp_all add: callsOf)

lemma callsOf_one [simp]:
  "requestsOf [PageCall a] = []" "attemptsOf [PageCall a] = [a]" "recordedOf [PageCall a] = []"
  "requestsOf [CandidateCall xs] = []" "attemptsOf [CandidateCall xs] = []" "recordedOf [CandidateCall xs] = xs"
  "requestsOf [] = []" "attemptsOf [] = []" "recordedOf [] = []"
  by (simp_all add: callsOf)

lemma sorted_le_last: "sorted xs \<Longrightarrow> x \<in> set xs \<Longrightarrow> x \<le> last xs"
  by (induction xs) (auto split: if_splits)

text \<open>Appending the next depth keeps the order of a breadth-first frontier.\<close>

lemma frontier_extends:
  fixes ds :: "int list"
  assumes "sorted (ds @ fs)" and "ds \<noteq> []" and "last ds = d" and "list_all (\<lambda>x. x \<le> d + 1) fs"
    and "list_all (\<lambda>x. x = d + 1 \<and> d + 1 \<le> m) es" and "0 \<le> d"
  shows "sorted (ds @ fs @ es)" and "list_all (\<lambda>x. x \<le> d + 1) (fs @ es)" and "list_all (\<lambda>x. 0 \<le> x \<and> x \<le> m) es"
proof -
  have "list_all (\<lambda>x. x \<le> d) ds"
    using assms(1,3) sorted_le_last [of ds] by (auto simp: sorted_append list_all_iff)
  moreover have "\<forall>x \<in> set es. x = d + 1 \<Longrightarrow> sorted es" by (induction es) auto
  then have "sorted es" using assms(5) by (simp add: list_all_iff)
  ultimately show "sorted (ds @ fs @ es)"
    using assms by (fastforce simp: sorted_append list_all_iff)
  show "list_all (\<lambda>x. x \<le> d + 1) (fs @ es)" "list_all (\<lambda>x. 0 \<le> x \<and> x \<le> m) es"
    using assms(4,5,6) by (auto simp: list_all_iff)
qed

text \<open>
  What the monitored interfaces promise: each call of the getter, of the page report and of the sink is noted,
  and nothing else changes the note.
\<close>

locale crawl_monitor =
  fixes env :: "'w crawl_env" and c :: "'w crawler" and calls :: "'w \<Rightarrow> crawl_call list"
    and getter :: "'w page_getter" and sink :: "'w candidate_sink" and telemetry :: "'w crawl_telemetry"
    and waiter :: "'w ctx_err \<Rightarrow> duration \<Rightarrow> 'w \<Rightarrow> go_error option \<times> 'w"
  assumes parts: "cw_getter c = Some getter" "cw_sink c = Some sink" "cw_telemetry c = Some telemetry"
      "cw_waiter c = Some waiter"
    and get_call: "getter ctx u w = (r, w') \<Longrightarrow> calls w' = calls w @ [GetCall u]"
    and page_call: "ct_RecordPageAttempt telemetry ctx runID a w = (e, w') \<Longrightarrow> calls w' = calls w @ [PageCall a]"
    and sink_call: "cs_RecordCandidates sink ctx source xs w = (e, w') \<Longrightarrow> calls w' = calls w @ [CandidateCall xs]"
      "cs_RecordCandidatesForRun sink = Some f \<Longrightarrow> f ctx runID source xs w = (e, w') \<Longrightarrow>
       calls w' = calls w @ [CandidateCall xs]"
    and silent: "calls (ce_reading env w) = calls w" "calls (snd (ce_Close env response w)) = calls w"
      "calls (snd (waiter ctx d w)) = calls w"
      "ct_BeginCrawl telemetry ctx source config w = (b, w') \<Longrightarrow> calls w' = calls w"
      "calls (snd (ct_FinishCrawl telemetry ctx runID result outcome reason w)) = calls w"
      "ct_FinishCrawlSummary telemetry = Some g \<Longrightarrow>
       calls (snd (g ctx runID result outcome reason remaining w)) = calls w"
      "cs_FinalizeCandidates sink = Some h \<Longrightarrow> calls (snd (h ctx runID w)) = calls w"
begin

abbreviation limit :: nat where "limit \<equiv> nat (cc_RedirectLimit (cw_config c))"

abbreviation host :: host_lib where "host \<equiv> lk_host (ce_lib env)"

definition fetched :: "origin \<Rightarrow> nat \<Rightarrow> 'w \<Rightarrow> 'w \<Rightarrow> bool" where
  "fetched source n w w' \<longleftrightarrow>
     (\<exists>us. calls w' = calls w @ map GetCall us \<and> length us \<le> n \<and> list_all (onSource host source) us)"

lemma fetched_refl: "fetched source n w w"
  by (auto simp: fetched_def intro!: exI [of _ "[]"])

lemma fetched_trans: "fetched source n w w1 \<Longrightarrow> fetched source m w1 w2 \<Longrightarrow> fetched source (n + m) w w2"
  unfolding fetched_def by (metis (no_types, lifting) add_mono append.assoc length_append list_all_append map_append)

lemma readPage_silent: "readPage env c ctx source current response b a w = (r, w') \<Longrightarrow> calls w' = calls w"
  unfolding readPage_def Let_def using silent(1,2) by (auto split: prod.splits) (metis snd_conv)

lemma hop_call: "fetchHop env c ctx source visited n fs w = (x, w') \<Longrightarrow> calls w' = calls w @ [GetCall (fs_current fs)]"
  unfolding fetchHop_def Let_def parts option.sel
  by (auto simp: silent split: prod.splits sum.splits option.splits if_splits dest!: get_call readPage_silent)

lemma loop_fetched:
  assumes "onSource host source (fs_current fs)"
  shows "fetched source (Suc limit) w (snd (fetchLoop env c ctx source visited 0 fs w))"
proof -
  let ?log = "\<lambda>w'. drop (length (calls w)) (calls w')"
  have "case fetchLoop env c ctx source visited 0 fs w of (r, w') \<Rightarrow> fetched source (Suc limit) w w'"
  proof (rule fetch_loop.loop_rule [where I = "\<lambda>n fs w'. n \<le> limit \<and> onSource host source (fs_current fs) \<and>
      fetched source n w w'"])
    show "0 \<le> limit \<and> onSource host source (fs_current fs) \<and> fetched source 0 w w"
      using assms fetched_refl by simp
  next
    fix n fs w1 fs' w2
    assume I: "n \<le> limit \<and> onSource host source (fs_current fs) \<and> fetched source n w w1"
      and h: "fetchHop env c ctx source visited n fs w1 = (Inr fs', w2)" and n: "n < limit"
      and a: "onSource host source (fs_current fs')"
    have "fetched source 1 w1 w2"
      using hop_call [OF h] I by (auto simp: fetched_def intro!: exI [of _ "[fs_current fs]"])
    with fetched_trans I have "fetched source (n + 1) w w2" by blast
    with a n show "Suc n \<le> limit \<and> onSource host source (fs_current fs') \<and> fetched source (Suc n) w w2" by simp
  next
    fix n fs w1 r w2
    assume I: "n \<le> limit \<and> onSource host source (fs_current fs) \<and> fetched source n w w1"
      and h: "fetchHop env c ctx source visited n fs w1 = (Inl r, w2)"
    have "fetched source 1 w1 w2"
      using hop_call [OF h] I by (auto simp: fetched_def intro!: exI [of _ "[fs_current fs]"])
    with fetched_trans I have "fetched source (n + 1) w w2" by blast
    with I show "fetched source (Suc limit) w w2" unfolding fetched_def by fastforce
  qed
  then show ?thesis by (auto split: prod.splits)
qed

lemma fetchPage_fetched: "fetched source (Suc limit) w (snd (fetchPage env c ctx source u visited w))"
proof (cases "canonicalPageURL host source u")
  case None
  then show ?thesis by (simp add: fetchPage_def fetched_refl)
next
  case (Some v)
  let ?fs = "\<lparr>fs_current = v, fs_hops = {url_String host v}, fs_attempt = startAttempt host v (cw_clock c w)\<rparr>"
  have "fetched source (Suc limit) w (snd (fetchLoop env c ctx source visited 0 ?fs w))"
    by (rule loop_fetched) (simp add: canonical_onSource [OF Some])
  with Some show ?thesis
    by (auto simp: fetchPage_def Let_def split: prod.splits option.splits)
qed

lemma fetchAttempts_fetched:
  "fetched source ((Suc MaxAttemptsPerCycle - n) * Suc limit) w
     (snd (fetchAttempts env c ctx source u n visited w))" if "n \<le> MaxAttemptsPerCycle"
  using that
proof (induction "MaxAttemptsPerCycle - n" arbitrary: n visited w rule: less_induct)
  case less
  let ?pc = "the (cw_timeoutFactory c) ctx (cc_PageTimeout (cw_config c)) w"
  obtain r w1 where p: "fetchPage env c ?pc source u visited w = (r, w1)" by fastforce
  have one: "fetched source (Suc limit) w w1" using fetchPage_fetched [of source w ?pc u visited] p by simp
  have more: "fetched source ((Suc MaxAttemptsPerCycle - n) * Suc limit) w w1"
    using one less.prems unfolding fetched_def
    by (metis (no_types, lifting) Suc_diff_le le_add1 le_trans mult_Suc)
  show ?case
  proof (cases "\<exists>page v. r = Some (page, v) \<and>
      \<not> (\<not> Transient (pg_failureCategory page) \<or> n \<ge> MaxAttemptsPerCycle \<or> pg_retryAfter page > 0)")
    case True
    then obtain page v where r: "r = Some (page, v)" "Transient (pg_failureCategory page)"
        "n < MaxAttemptsPerCycle" "\<not> pg_retryAfter page > 0" by auto
    have "fetched source ((Suc MaxAttemptsPerCycle - Suc n) * Suc limit) w1
        (snd (fetchAttempts env c ctx source u (Suc n) v w1))"
      by (rule less.hyps) (use r in auto)
    from fetched_trans [OF one this] r p
    have "fetched source (Suc limit + (Suc MaxAttemptsPerCycle - Suc n) * Suc limit) w
        (snd (fetchAttempts env c ctx source u n visited w))"
      by (subst fetchAttempts.simps) simp
    moreover have "Suc limit + (Suc MaxAttemptsPerCycle - Suc n) * Suc limit = (Suc MaxAttemptsPerCycle - n) * Suc limit"
      using r(3) by (simp add: Suc_diff_le)
    ultimately show ?thesis by simp
  next
    case False
    with more p show ?thesis
      by (subst fetchAttempts.simps) (auto simp: Let_def split: option.splits prod.splits)
  qed
qed

text \<open>What the calls made so far satisfy, when \<open>k\<close> pages have been attempted.\<close>

definition sound :: "origin \<Rightarrow> int \<Rightarrow> 'w \<Rightarrow> bool" where
  "sound source k w \<longleftrightarrow>
     (let cs = calls w; attempts = attemptsOf cs in
        0 \<le> k \<and> k \<le> max 0 (cc_MaxPages (cw_config c)) \<and>
        length (requestsOf cs) \<le> nat k * (MaxAttemptsPerCycle * Suc limit) \<and>
        list_all (onSource host source) (requestsOf cs) \<and> length attempts \<le> nat k \<and>
        map pa_Sequence attempts = map (\<lambda>i. int (Suc i)) [0..<length attempts] \<and>
        sorted (map pa_Depth attempts) \<and>
        list_all (\<lambda>d. 0 \<le> d \<and> d \<le> cc_MaxDepth (cw_config c)) (map pa_Depth attempts) \<and>
        distinct (map c_Origin (recordedOf cs)) \<and> source \<notin> set (map c_Origin (recordedOf cs)))"

definition loop_inv :: "origin \<Rightarrow> crawl_state \<Rightarrow> 'w \<Rightarrow> bool" where
  "loop_inv source st w \<longleftrightarrow>
     (let attempts = attemptsOf (calls w); frontier = map fe_depth (st_frontier st) in
        sound source (cr_PagesAttempted (st_result st)) w \<and>
        int (length attempts) = cr_PagesAttempted (st_result st) \<and>
        sorted (map pa_Depth attempts @ frontier) \<and>
        list_all (\<lambda>d. 0 \<le> d \<and> d \<le> cc_MaxDepth (cw_config c)) frontier \<and>
        list_all (\<lambda>d. d \<le> (if attempts = [] then 0 else pa_Depth (last attempts) + 1)) frontier \<and>
        set (map c_Origin (recordedOf (calls w))) \<subseteq> st_candidateSeen st)"

lemma sound_cong: "calls w' = calls w \<Longrightarrow> sound source k w' = sound source k w"
  by (simp add: sound_def)

lemma sound_fetched:
  assumes "sound source k w" and "fetched source (MaxAttemptsPerCycle * Suc limit) w w'"
    and "k < cc_MaxPages (cw_config c)"
  shows "sound source (k + 1) w'"
proof -
  from assms(2) obtain us where us: "calls w' = calls w @ map GetCall us"
      "length us \<le> MaxAttemptsPerCycle * Suc limit" "list_all (onSource host source) us"
    by (auto simp: fetched_def)
  have "0 \<le> k" using assms(1) by (simp add: sound_def Let_def)
  then have "nat (k + 1) = Suc (nat k)" by simp
  with assms(1,3) us show ?thesis
    by (auto simp: sound_def Let_def callsOf_append max_def)
qed

lemma sound_page:
  assumes "sound source k w" and "calls w' = calls w @ [PageCall a]"
    and "int (length (attemptsOf (calls w))) + 1 = k" and "pa_Sequence a = k"
    and "sorted (map pa_Depth (attemptsOf (calls w)) @ [pa_Depth a])"
    and "0 \<le> pa_Depth a" and "pa_Depth a \<le> cc_MaxDepth (cw_config c)"
  shows "sound source k w'"
  using assms by (auto simp: sound_def Let_def callsOf_append)

lemma sound_candidates:
  assumes "sound source k w" and "calls w' = calls w @ [CandidateCall xs]"
    and "distinct (map c_Origin xs)" and "source \<notin> set (map c_Origin xs)"
    and "set (map c_Origin (recordedOf (calls w))) \<inter> set (map c_Origin xs) = {}"
  shows "sound source k w'"
  using assms by (auto simp: sound_def Let_def callsOf_append)

lemma recordFresh_call:
  "recordFresh c ctx runID source xs w = (e, w') \<Longrightarrow> calls w' = calls w @ [CandidateCall xs]"
  unfolding recordFresh_def parts option.sel
  by (auto split: option.splits if_splits dest: sink_call)

lemma enqueue_frontier:
  "\<exists>es. st_frontier (enqueueInternal lib config d us st) = st_frontier st @ es \<and>
     list_all (\<lambda>e. fe_depth e = d \<and> d \<le> cc_MaxDepth config) es"
proof (induction us arbitrary: st)
  case (Cons u us)
  consider "url_String lib u \<in> st_visited st \<or> url_String lib u \<in> st_queued st"
    | "\<not> (url_String lib u \<in> st_visited st \<or> url_String lib u \<in> st_queued st)" "d > cc_MaxDepth config"
    | "\<not> (url_String lib u \<in> st_visited st \<or> url_String lib u \<in> st_queued st)" "d \<le> cc_MaxDepth config"
    by linarith
  then show ?case
  proof cases
    case 2
    with Cons.IH [of "st\<lparr>st_result := (st_result st)\<lparr>cr_BudgetExhausted := True\<rparr>\<rparr>"]
    show ?thesis by (simp add: Let_def)
  next
    case 3
    with Cons.IH [of "st\<lparr>st_queued := insert (url_String lib u) (st_queued st),
        st_frontier := st_frontier st @ [\<lparr>fe_pageURL = u, fe_depth = d\<rparr>]\<rparr>"]
    show ?thesis by (auto simp: Let_def)
  qed (use Cons.IH in \<open>auto simp: Let_def\<close>)
qed simp

lemma enqueuePage_frontier:
  obtains es where "st_frontier (enqueuePage lib config d page st) = st_frontier st @ es"
    "list_all (\<lambda>e. fe_depth e = d + 1 \<and> d + 1 \<le> cc_MaxDepth config) es"
proof (cases "pg_parsed page")
  case True
  with enqueue_frontier [of lib config "d + 1" "pl_Internal (pg_links page)" st] that show thesis
    by (auto simp: enqueuePage_def Let_def)
next
  case False
  with that [of "[]"] show thesis by (simp add: enqueuePage_def)
qed

text \<open>The invariant after an entry was removed and reported: \<open>d\<close> is the depth of the page.\<close>

lemma processPage_inv:
  assumes p: "processPage env c ctx runID source d page st w = (t, st', w')"
    and inv: "loop_inv source st w" and page: "pageSound host source page"
    and last: "attemptsOf (calls w) \<noteq> []" "pa_Depth (last (attemptsOf (calls w))) = d"
  shows "sound source (cr_PagesAttempted (st_result st')) w' \<and> (t = Continue \<longrightarrow> loop_inv source st' w')"
proof -
  define xs where "xs = freshOf (countParsed page st) page"
  obtain e w1 where r: "(if xs = [] then (None, w) else recordFresh c ctx runID source xs w) = (e, w1)" by fastforce
  have w': "w' = w1" and st': "t = Continue \<Longrightarrow>
      st' = enqueuePage host (cw_config c) d page (noteCandidates xs (countParsed page st))"
    using p r unfolding processPage_def Let_def xs_def [symmetric] by (auto split: option.splits)
  have calls: "calls w1 = calls w \<or> calls w1 = calls w @ [CandidateCall xs]"
      and logs: "recordedOf (calls w1) = recordedOf (calls w) @ xs" "attemptsOf (calls w1) = attemptsOf (calls w)"
    using r recordFresh_call by (auto simp: callsOf_append split: if_splits)
  have sound: "sound source (cr_PagesAttempted (st_result st)) w"
      and seen: "set (map c_Origin (recordedOf (calls w))) \<subseteq> st_candidateSeen st"
    using inv by (simp_all add: loop_inv_def Let_def)
  have "distinct (map c_Origin xs)" "source \<notin> set (map c_Origin xs)"
      "set (map c_Origin (recordedOf (calls w))) \<inter> set (map c_Origin xs) = {}"
    using page seen by (auto simp: xs_def freshOf_def pageSound_def distinct_map_filter)
  with calls sound_candidates [OF sound] sound_cong [of w1 w] sound
  have s1: "sound source (cr_PagesAttempted (st_result st)) w1" by metis
  have att: "cr_PagesAttempted (st_result st') = cr_PagesAttempted (st_result st)"
    by (rule processPage_attempted [OF p])
  have "loop_inv source st' w'" if cont: "t = Continue"
  proof -
    obtain es where es: "st_frontier st' = st_frontier st @ es"
        "list_all (\<lambda>e. fe_depth e = d + 1 \<and> d + 1 \<le> cc_MaxDepth (cw_config c)) es"
      using enqueuePage_frontier [of host "cw_config c" d page "noteCandidates xs (countParsed page st)"] st' [OF cont]
      by (metis processPage_parts(3,6))
    have d: "0 \<le> d" "last (map pa_Depth (attemptsOf (calls w))) = d"
        "list_all (\<lambda>x. x \<le> d + 1) (map fe_depth (st_frontier st))"
        "sorted (map pa_Depth (attemptsOf (calls w)) @ map fe_depth (st_frontier st))"
      using inv last last_in_set [OF last(1)]
      by (auto simp: loop_inv_def sound_def Let_def list_all_iff last_map)
    have ext: "sorted (map pa_Depth (attemptsOf (calls w)) @ map fe_depth (st_frontier st) @ map fe_depth es)"
        "list_all (\<lambda>x. x \<le> d + 1) (map fe_depth (st_frontier st) @ map fe_depth es)"
        "list_all (\<lambda>x. 0 \<le> x \<and> x \<le> cc_MaxDepth (cw_config c)) (map fe_depth es)"
      using frontier_extends [OF d(4) _ d(2,3) _ d(1), where es = "map fe_depth es" and m = "cc_MaxDepth (cw_config c)"] es last
      by (simp_all add: list_all_iff)
    have "st_candidateSeen st' = st_candidateSeen st \<union> set (map c_Origin xs)" using st' [OF cont] by simp
    with inv last s1 att logs seen es w' ext show ?thesis
      unfolding loop_inv_def Let_def by (auto simp: list_all_iff)
  qed
  with s1 att w' show ?thesis by simp
qed

lemma reportPage_inv:
  assumes r: "reportPage env c ctx runID source d page perr st w = (t, st', w')"
    and sound: "sound source (cr_PagesAttempted (st_result st)) w" and page: "pageSound host source page"
    and count: "int (length (attemptsOf (calls w))) + 1 = cr_PagesAttempted (st_result st)"
    and sorted: "sorted (map pa_Depth (attemptsOf (calls w)) @ d # map fe_depth (st_frontier st))"
    and depths: "list_all (\<lambda>x. 0 \<le> x \<and> x \<le> cc_MaxDepth (cw_config c)) (d # map fe_depth (st_frontier st))"
    and near: "list_all (\<lambda>x. x \<le> d + 1) (map fe_depth (st_frontier st))"
    and seen: "set (map c_Origin (recordedOf (calls w))) \<subseteq> st_candidateSeen st"
  shows "sound source (cr_PagesAttempted (st_result st')) w' \<and> (t = Continue \<longrightarrow> loop_inv source st' w')"
proof -
  define st1 where "st1 = st\<lparr>st_result := noteFailure page (st_result st)\<rparr>"
  define pa where "pa = reportedAttempt host (cw_config c) (st_visited st1) (st_queued st1)
    (cr_PagesAttempted (st_result st1)) d page"
  have pa: "pa_Sequence pa = cr_PagesAttempted (st_result st)" "pa_Depth pa = d"
    by (simp_all add: pa_def reportedAttempt_def st1_def)
  obtain e w1 where rec: "ct_RecordPageAttempt telemetry ctx runID pa w = (e, w1)" by fastforce
  note c1 = page_call [OF rec]
  have s1: "sound source (cr_PagesAttempted (st_result st1)) w1"
    using sound_page [OF sound c1 count] pa sorted depths by (auto simp: st1_def sorted_append)
  have inv1: "loop_inv source st1 w1"
    using s1 c1 count sorted depths near seen pa
    by (auto simp: loop_inv_def Let_def callsOf_append st1_def sorted_append)
  have turn: "(t, st', w') = (case e of Some err \<Rightarrow> (Return (Wrap ''discovery: record crawl telemetry'' [err]), st1, w1)
      | None \<Rightarrow> if Transient (pg_failureCategory page) \<and> pg_retryAfter page > 0 then (Break, st1, w1)
          else if perr \<noteq> None then (Continue, st1, w1) else processPage env c ctx runID source d page st1 w1)"
    using r rec unfolding reportPage_def Let_def st1_def [symmetric] pa_def [symmetric] parts option.sel
    by (auto split: option.splits)
  have "sound source (cr_PagesAttempted (st_result st')) w' \<and> (t = Continue \<longrightarrow> loop_inv source st' w')"
    if "processPage env c ctx runID source d page st1 w1 = (t, st', w')"
    by (rule processPage_inv [OF that inv1 page]) (simp_all add: c1 callsOf_append pa)
  with turn s1 inv1 show ?thesis by (auto split: option.splits if_splits)
qed

text \<open>A page of the frontier is fetched, reported and processed.\<close>

lemma fetchEntry_inv:
  assumes f: "fetchEntry env c ctx runID source entry st w = (t, st', w')"
    and inv: "loop_inv source (st\<lparr>st_frontier := entry # st_frontier st\<rparr>) w"
    and budget: "cr_PagesAttempted (st_result st) < cc_MaxPages (cw_config c)"
  shows "sound source (cr_PagesAttempted (st_result st')) w' \<and> (t = Continue \<longrightarrow> loop_inv source st' w')"
proof -
  define k where "k = cr_PagesAttempted (st_result st)"
  have s: "sound source k w" using inv by (simp add: loop_inv_def Let_def k_def)
  obtain waitErr w0 where wait: "pageDelay c ctx k w = (waitErr, w0)" by fastforce
  then have c0: "calls w0 = calls w"
    using silent(3) [of ctx "cc_RequestDelay (cw_config c)" w] parts by (auto simp: pageDelay_def split: if_splits)
  then have s0: "sound source k w0" using s sound_cong by blast
  define st1 where "st1 = st\<lparr>st_result := (st_result st)\<lparr>cr_PagesAttempted := k + 1\<rparr>\<rparr>"
  obtain r w1 where a: "fetchAttempts env c ctx source (fe_pageURL entry) 1 (st_visited st1) w0 = (r, w1)" by fastforce
  have got: "fetched source (MaxAttemptsPerCycle * Suc limit) w0 w1"
    using fetchAttempts_fetched [of 1 source w0 ctx "fe_pageURL entry" "st_visited st1"] a
    by (simp add: MaxAttemptsPerCycle_def)
  then have s1: "sound source (k + 1) w1" using sound_fetched [OF s0] budget by (simp add: k_def)
  have log1: "attemptsOf (calls w1) = attemptsOf (calls w)" "recordedOf (calls w1) = recordedOf (calls w)"
    using got c0 by (auto simp: fetched_def callsOf_append)
  have turn: "(t, st', w') = (case waitErr of Some err \<Rightarrow> (Return err, st, w0) | None \<Rightarrow>
      (case r of None \<Rightarrow> (Panic, st1, w1)
       | Some (page, perr, visited) \<Rightarrow>
           (case ctx w1 of Some parentErr \<Rightarrow> (Return parentErr, st1\<lparr>st_visited := visited\<rparr>, w1)
            | None \<Rightarrow> reportPage env c ctx runID source (fe_depth entry) page perr (st1\<lparr>st_visited := visited\<rparr>) w1)))"
    using f wait a unfolding fetchEntry_def Let_def k_def [symmetric] st1_def [symmetric]
    by (auto split: option.splits)
  have report: "sound source (cr_PagesAttempted (st_result st')) w' \<and> (t = Continue \<longrightarrow> loop_inv source st' w')"
    if "reportPage env c ctx runID source (fe_depth entry) page perr (st1\<lparr>st_visited := visited\<rparr>) w1 = (t, st', w')"
      and "r = Some (page, perr, visited)" for page perr visited
  proof (rule reportPage_inv [OF that(1)])
    show "pageSound host source page" using fetchAttempts_sound [OF a [unfolded that(2)]] .
    have "list_all (\<lambda>x. x \<le> fe_depth entry + 1) (map fe_depth (st_frontier st))"
      using inv sorted_le_last [of "map pa_Depth (attemptsOf (calls w)) @ [fe_depth entry]"]
      by (auto simp: loop_inv_def Let_def list_all_iff sorted_append split: if_splits)
        (smt (verit, best) image_eqI last_in_set)+
    then show "list_all (\<lambda>x. x \<le> fe_depth entry + 1) (map fe_depth (st_frontier (st1\<lparr>st_visited := visited\<rparr>)))"
      by (simp add: st1_def)
  qed (use inv s1 log1 in \<open>auto simp: loop_inv_def Let_def st1_def k_def\<close>)
  from turn s0 s1 report show ?thesis
    by (auto simp: st1_def k_def split: option.splits)
qed

lemma crawlTurn_inv:
  assumes t: "crawlTurn env c ctx runID source st w = (t, st', w')" and inv: "loop_inv source st w"
    and "st_frontier st \<noteq> []"
  shows "sound source (cr_PagesAttempted (st_result st')) w' \<and> (t = Continue \<longrightarrow> loop_inv source st' w')"
proof -
  obtain entry rest where front: "st_frontier st = entry # rest" using assms(3) by (cases "st_frontier st") auto
  define st1 where "st1 = st\<lparr>st_frontier := rest, st_remaining := int (length rest)\<rparr>"
  have inv1: "loop_inv source st1 w" and inv0: "loop_inv source (st1\<lparr>st_frontier := entry # st_frontier st1\<rparr>) w"
    using inv front by (auto simp: loop_inv_def Let_def st1_def sorted_append)
  show ?thesis
  proof (cases "url_String host (fe_pageURL entry) \<notin> st_visited st \<and>
      cr_PagesAttempted (st_result st) < cc_MaxPages (cw_config c)")
    case True
    then have "fetchEntry env c ctx runID source entry st1 w = (t, st', w')"
      using t front by (simp add: crawlTurn_def Let_def st1_def)
    from fetchEntry_inv [OF this inv0] True show ?thesis by (simp add: st1_def)
  next
    case False
    with t front inv1 show ?thesis
      by (auto simp: crawlTurn_def Let_def st1_def loop_inv_def sound_def split: if_splits)
  qed
qed

lemma crawlLoop_sound:
  assumes "loop_inv source st w"
  shows "case crawlLoop env c ctx runID source st w of (t, st', w') \<Rightarrow>
    sound source (cr_PagesAttempted (st_result st')) w'"
  by (rule crawlLoop_rule [where I = "loop_inv source"])
    (use assms crawlTurn_inv in \<open>auto simp: loop_inv_def Let_def\<close>)

lemma finish_silent: "calls (snd (finishCrawl env c ctx runID result remaining e w)) = calls w"
  unfolding finishCrawl_def Let_def parts option.sel
  using silent(5,6) by (auto split: prod.splits option.splits) (metis snd_conv)+

lemma finalize_silent: "calls (snd (finalizeCandidates c ctx runID w)) = calls w"
  unfolding finalizeCandidates_def parts option.sel
  using silent(7) by (auto split: prod.splits option.splits) (metis snd_conv)+

lemma Crawl_sound:
  assumes "calls w = []"
  shows "\<exists>k. sound source k (snd (Crawl env (Some c) ctx source w))"
proof (cases "crawl_validate (Some c) ctx source w")
  case (Some err)
  have "sound source 0 w" using assms by (simp add: sound_def Let_def)
  with Some show ?thesis by (auto simp: Crawl_def)
next
  case None
  then obtain cx where cx: "ctx = Some cx" and cfg: "validCrawlConfig (cw_config c)"
    by (auto simp: crawl_validate_def split: option.splits if_splits)
  obtain b w1 where b: "ct_BeginCrawl telemetry cx source (cw_config c) w = (b, w1)" by fastforce
  have c1: "calls w1 = []" using silent(4) [OF b] assms by simp
  then have zero: "sound source 0 w1" by (simp add: sound_def Let_def)
  show ?thesis
  proof (cases b)
    case (Inl err)
    with zero None cx b parts show ?thesis by (auto simp: Crawl_def Let_def)
  next
    case (Inr runID)
    show ?thesis
    proof (cases "url_Parse host (origin_String source @ ''/'')")
      case (Inl err)
      have "snd (Crawl env (Some c) ctx source w) =
          snd (finishCrawl env c cx runID (crawl_result_zero source) 0 None w1)"
        using None cx b \<open>b = Inr runID\<close> Inl parts by (simp add: Crawl_def)
      then have "calls (snd (Crawl env (Some c) ctx source w)) = calls w1" by (simp add: finish_silent)
      with zero sound_cong show ?thesis by blast
    next
      case root: (Inr rootURL)
      obtain t st2 w2 where l: "crawlLoop env c cx runID source (crawlStart host source rootURL) w1 = (t, st2, w2)"
        by (metis prod.exhaust)
      have "loop_inv source (crawlStart host source rootURL) w1"
        using zero c1 cfg by (simp add: loop_inv_def Let_def crawlStart_def crawl_result_zero_def validCrawlConfig_def)
      from crawlLoop_sound [OF this, of cx runID] l
      have s2: "sound source (cr_PagesAttempted (st_result st2)) w2" by simp
      have "calls (snd (Crawl env (Some c) ctx source w)) = calls w2"
        using None cx b Inr root l parts
        by (cases t) (simp_all add: Crawl_def case_prod_beta finish_silent finalize_silent)
      with s2 sound_cong show ?thesis by blast
    qed
  qed
qed

end

section \<open>A monitored crawler\<close>

text \<open>
  Any crawler with a note of its calls beside its state: the parts act on the state exactly as before, the note
  is only written.
\<close>

type_synonym 'w noted = "'w \<times> crawl_call list"

definition unnoted :: "'w noted ctx_err \<Rightarrow> crawl_call list \<Rightarrow> 'w ctx_err" where
  "unnoted ctx cs = (\<lambda>w. ctx (w, cs))"

definition noting :: "('w \<Rightarrow> 'r \<times> 'w) \<Rightarrow> crawl_call list \<Rightarrow> 'w noted \<Rightarrow> 'r \<times> 'w noted" where
  "noting f new wn = (case wn of (w, cs) \<Rightarrow> (case f w of (r, w') \<Rightarrow> (r, (w', cs @ new))))"

definition notedGetter :: "'w page_getter \<Rightarrow> 'w noted page_getter" where
  "notedGetter g = (\<lambda>ctx u wn. noting (g (unnoted ctx (snd wn)) u) [GetCall u] wn)"

definition notedSink :: "'w candidate_sink \<Rightarrow> 'w noted candidate_sink" where
  "notedSink s =
     \<lparr>cs_RecordCandidates = (\<lambda>ctx source xs wn.
        noting (cs_RecordCandidates s (unnoted ctx (snd wn)) source xs) [CandidateCall xs] wn),
      cs_RecordCandidatesForRun = map_option (\<lambda>f ctx runID source xs wn.
        noting (f (unnoted ctx (snd wn)) runID source xs) [CandidateCall xs] wn) (cs_RecordCandidatesForRun s),
      cs_FinalizeCandidates = map_option (\<lambda>f ctx runID wn.
        noting (f (unnoted ctx (snd wn)) runID) [] wn) (cs_FinalizeCandidates s)\<rparr>"

definition notedTelemetry :: "'w crawl_telemetry \<Rightarrow> 'w noted crawl_telemetry" where
  "notedTelemetry t =
     \<lparr>ct_BeginCrawl = (\<lambda>ctx source config wn.
        noting (ct_BeginCrawl t (unnoted ctx (snd wn)) source config) [] wn),
      ct_RecordPageAttempt = (\<lambda>ctx runID a wn.
        noting (ct_RecordPageAttempt t (unnoted ctx (snd wn)) runID a) [PageCall a] wn),
      ct_FinishCrawl = (\<lambda>ctx runID result outcome reason wn.
        noting (ct_FinishCrawl t (unnoted ctx (snd wn)) runID result outcome reason) [] wn),
      ct_FinishCrawlSummary = map_option (\<lambda>f ctx runID result outcome reason remaining wn.
        noting (f (unnoted ctx (snd wn)) runID result outcome reason remaining) [] wn) (ct_FinishCrawlSummary t)\<rparr>"

definition notedEnv :: "'w crawl_env \<Rightarrow> 'w noted crawl_env" where
  "notedEnv env =
     \<lparr>ce_lib = ce_lib env, ce_ParseTime = ce_ParseTime env, ce_reading = (\<lambda>(w, cs). (ce_reading env w, cs)),
      ce_Close = (\<lambda>response. noting (ce_Close env response) []),
      ce_finishContext = (\<lambda>d (w, cs) (w', cs'). ce_finishContext env d w w')\<rparr>"

definition notedCrawler ::
    "'w page_getter \<Rightarrow> 'w candidate_sink \<Rightarrow> crawl_config \<Rightarrow> ('w ctx_err \<Rightarrow> duration \<Rightarrow> 'w \<Rightarrow> go_error option \<times> 'w) \<Rightarrow>
     ('w noted ctx_err \<Rightarrow> duration \<Rightarrow> 'w noted \<Rightarrow> 'w noted ctx_err) \<Rightarrow> 'w crawl_telemetry \<Rightarrow> ('w \<Rightarrow> go_time) \<Rightarrow>
     'w noted crawler" where
  "notedCrawler getter sink config waiter timeoutFactory telemetry clock =
     \<lparr>cw_getter = Some (notedGetter getter), cw_sink = Some (notedSink sink), cw_config = config,
      cw_waiter = Some (\<lambda>ctx d wn. noting (waiter (unnoted ctx (snd wn)) d) [] wn),
      cw_timeoutFactory = Some timeoutFactory, cw_telemetry = Some (notedTelemetry telemetry),
      cw_clock = clock \<circ> fst, cw_finishTimeout = 5 * second\<rparr>"

lemma noting_calls: "noting f new wn = (r, wn') \<Longrightarrow> snd wn' = snd wn @ new"
  "snd (snd (noting f new wn)) = snd wn @ new"
  by (auto simp: noting_def split: prod.splits)

interpretation noted: crawl_monitor "notedEnv env" "notedCrawler getter sink config waiter timeoutFactory telemetry clock"
  snd "notedGetter getter" "notedSink sink" "notedTelemetry telemetry"
  "\<lambda>ctx d wn. noting (waiter (unnoted ctx (snd wn)) d) [] wn"
  for env getter sink config waiter timeoutFactory telemetry clock
  by unfold_locales
    (auto simp: notedCrawler_def notedGetter_def notedSink_def notedTelemetry_def notedEnv_def noting_calls
      split: prod.splits dest: noting_calls(1))

lemma notedCrawl_sound:
  assumes "Crawl (notedEnv env) (Some (notedCrawler getter sink config waiter timeoutFactory telemetry clock)) ctx
    source (w, []) = (r, (w', calls))"
  shows "\<exists>k. k \<le> nat (cc_MaxPages config) \<and> length (requestsOf calls) \<le> k * (2 * Suc (nat (cc_RedirectLimit config))) \<and>
    list_all (onSource (lk_host (ce_lib env)) source) (requestsOf calls) \<and> length (attemptsOf calls) \<le> k \<and>
    map pa_Sequence (attemptsOf calls) = map (\<lambda>i. int (Suc i)) [0..<length (attemptsOf calls)] \<and>
    sorted (map pa_Depth (attemptsOf calls)) \<and>
    list_all (\<lambda>d. 0 \<le> d \<and> d \<le> cc_MaxDepth config) (map pa_Depth (attemptsOf calls)) \<and>
    distinct (map c_Origin (recordedOf calls)) \<and> source \<notin> set (map c_Origin (recordedOf calls))"
proof -
  let ?c = "notedCrawler getter sink config waiter timeoutFactory telemetry clock"
  from noted.Crawl_sound [of "(w, [])" env getter sink config waiter timeoutFactory telemetry clock source ctx]
  obtain k where s: "noted.sound env getter sink config waiter timeoutFactory telemetry clock source k (w', calls)"
    unfolding assms by auto
  have cfg: "cw_config ?c = config" "ce_lib (notedEnv env) = ce_lib env"
    by (simp_all add: notedCrawler_def notedEnv_def)
  from s show ?thesis
    unfolding noted.sound_def Let_def cfg MaxAttemptsPerCycle_def
    by (intro exI [of _ "nat k"]) (auto simp: max_def split: if_splits)
qed

section \<open>Properties\<close>

text \<open>
  C10. A crawl stays within its source and its budget, whatever the servers, the store and the clock do: every
  request goes to the scheme and host of the source, without credentials and fragment; at most
  \<open>MaxPages\<close> pages are reported, and at most \<open>2 * (RedirectLimit + 1)\<close> requests are made per page.
\<close>
theorem Crawl_bounded_in_source:
  "case Crawl (notedEnv env) (Some (notedCrawler getter sink config waiter timeoutFactory telemetry clock)) ctx source
          (w, []) of
     (_, (_, calls)) \<Rightarrow>
       list_all (onSource (lk_host (ce_lib env)) source) (requestsOf calls) \<and>
       length (attemptsOf calls) \<le> nat (cc_MaxPages config) \<and>
       length (requestsOf calls) \<le> nat (cc_MaxPages config) * (2 * Suc (nat (cc_RedirectLimit config)))"
proof -
  obtain r w' calls where out: "Crawl (notedEnv env)
      (Some (notedCrawler getter sink config waiter timeoutFactory telemetry clock)) ctx source (w, []) = (r, (w', calls))"
    by (metis prod.exhaust)
  from notedCrawl_sound [OF out] obtain k where k: "k \<le> nat (cc_MaxPages config)"
      "length (requestsOf calls) \<le> k * (2 * Suc (nat (cc_RedirectLimit config)))"
      "list_all (onSource (lk_host (ce_lib env)) source) (requestsOf calls)" "length (attemptsOf calls) \<le> k" by blast
  moreover have "k * (2 * Suc (nat (cc_RedirectLimit config))) \<le>
      nat (cc_MaxPages config) * (2 * Suc (nat (cc_RedirectLimit config)))"
    using k(1) by (rule mult_le_mono1)
  ultimately show ?thesis unfolding out by simp
qed

text \<open>
  A crawl is breadth-first and reports its pages in order: the attempts carry the numbers 1, 2, 3 and so on,
  their depths never decrease, and no depth exceeds the configured one.
\<close>
theorem Crawl_breadth_first:
  "case Crawl (notedEnv env) (Some (notedCrawler getter sink config waiter timeoutFactory telemetry clock)) ctx source
          (w, []) of
     (_, (_, calls)) \<Rightarrow>
       map pa_Sequence (attemptsOf calls) = map (\<lambda>i. int (Suc i)) [0..<length (attemptsOf calls)] \<and>
       sorted (map pa_Depth (attemptsOf calls)) \<and>
       list_all (\<lambda>d. 0 \<le> d \<and> d \<le> cc_MaxDepth config) (map pa_Depth (attemptsOf calls))"
  using notedCrawl_sound by (fastforce split: prod.splits)

text \<open>
  Discovery reports every other origin at most once per crawl: over all batches a crawl sends to its sink,
  by whichever method, no origin occurs twice, and the source itself never occurs.
\<close>
theorem Crawl_candidates_once:
  "case Crawl (notedEnv env) (Some (notedCrawler getter sink config waiter timeoutFactory telemetry clock)) ctx source
          (w, []) of
     (_, (_, calls)) \<Rightarrow>
       distinct (map c_Origin (recordedOf calls)) \<and> source \<notin> set (map c_Origin (recordedOf calls))"
  using notedCrawl_sound by (fastforce split: prod.splits)

end
