(* ===== verification/Discovery_Store.thy ===== *)
theory Discovery_Store
  imports Queue Links
begin

text \<open>
  The discovery store, \<^verbatim>\<open>internal/store/discovery.go\<close> and \<^verbatim>\<open>crawl_block_policy.go\<close>: its tables, its
  configuration, the exclusion of hosts from automatic crawling, the blocking of sources and the curated seeds.
  Tables are association lists by their primary key (the origins table is the map of the verification store).
  A statement or transaction that the database rejects is an argument; the advisory locks only order the
  transactions, which are steps here. \<open>lower\<close> stands for \<^verbatim>\<open>strings.ToLower\<close>, whose Unicode tables are not
  modelled: on ASCII it is \<open>map to_lower\<close>.
\<close>

definition defaultAutomaticCrawlMaxPendingProbes :: int where "defaultAutomaticCrawlMaxPendingProbes = 1000"
definition defaultAutomaticPromotionsPerRun :: int where "defaultAutomaticPromotionsPerRun = 100"

definition errDiscoveryStoreUnavailable where
  "errDiscoveryStoreUnavailable = Sentinel ''store: discovery store is unavailable''"
definition errDiscoveryClockUnavailable where
  "errDiscoveryClockUnavailable = Sentinel ''store: discovery clock is unavailable''"
definition errInvalidDiscoveryInterval where
  "errInvalidDiscoveryInterval = Sentinel ''store: discovery interval is invalid''"
definition errInvalidDiscoveryCandidate where
  "errInvalidDiscoveryCandidate = Sentinel ''store: discovery candidate is invalid''"
definition errDiscoverySourceUnknown where
  "errDiscoverySourceUnknown = Sentinel ''store: discovery source is unknown''"

text \<open>\<^verbatim>\<open>pgx.CollectRows\<close>: the first row that cannot be scanned ends the collection.\<close>

fun CollectRows :: "('a \<Rightarrow> go_error + 'b) \<Rightarrow> 'a list \<Rightarrow> go_error + 'b list" where
  "CollectRows scan [] = Inr []"
| "CollectRows scan (r # rs) =
     (case scan r of
        Inl err \<Rightarrow> Inl err
      | Inr x \<Rightarrow> (case CollectRows scan rs of Inl err \<Rightarrow> Inl err | Inr xs \<Rightarrow> Inr (x # xs)))"

section \<open>Configuration\<close>

record automatic_config =
  ac_Enabled :: bool
  ac_MaxPendingProbes :: int
  ac_MaxAutomaticPromotionsPerRun :: int
  ac_ExcludedHostSuffixes :: string

definition automatic_config_zero :: automatic_config where
  "automatic_config_zero =
     \<lparr>ac_Enabled = False, ac_MaxPendingProbes = 0, ac_MaxAutomaticPromotionsPerRun = 0, ac_ExcludedHostSuffixes = []\<rparr>"

text \<open>A discovery store: whether its pool and its clock are there, and its configuration.\<close>

record discovery_handle =
  dh_pool :: bool
  dh_clock :: bool
  dh_automatic :: automatic_config

definition maxPendingProbes :: "automatic_config \<Rightarrow> int" where
  "maxPendingProbes config =
     (if ac_MaxPendingProbes config > 0 then ac_MaxPendingProbes config else defaultAutomaticCrawlMaxPendingProbes)"

definition maxAutomaticPromotionsPerRun :: "automatic_config \<Rightarrow> int" where
  "maxAutomaticPromotionsPerRun config =
     (if ac_MaxAutomaticPromotionsPerRun config > 0 then ac_MaxAutomaticPromotionsPerRun config
      else defaultAutomaticPromotionsPerRun)"

primrec Contains :: "string \<Rightarrow> string \<Rightarrow> bool" where
  "Contains [] sub \<longleftrightarrow> sub = []"
| "Contains (c # s) sub \<longleftrightarrow> HasPrefix (c # s) sub \<or> Contains s sub"

definition ContainsAny :: "string \<Rightarrow> string \<Rightarrow> bool" where
  "ContainsAny s chars \<longleftrightarrow> list_ex (\<lambda>c. c \<in> set chars) s"

definition validSuffix :: "(string \<Rightarrow> string) \<Rightarrow> string \<Rightarrow> bool" where
  "validSuffix lower suffix1 \<longleftrightarrow>
     (let family = TrimSuffix suffix1 ''.*''
      in \<not> (lower suffix1 \<noteq> suffix1 \<or> HasPrefix suffix1 ''.'' \<or> HasSuffix family ''.'' \<or> family = [] \<or>
            ContainsAny family (''/:@?#*_%'' @ [CHR 0x5C]) \<or> Contains suffix1 ''*'' \<and> suffix1 \<noteq> family @ ''.*''))"

definition validExcludedHostSuffixes :: "(string \<Rightarrow> string) \<Rightarrow> string \<Rightarrow> bool" where
  "validExcludedHostSuffixes lower value1 \<longleftrightarrow>
     list_all (\<lambda>s. TrimSpace s = [] \<or> validSuffix lower (TrimSpace s)) (Split value1 CHR '','')"

definition suffixExcludes :: "string \<Rightarrow> string \<Rightarrow> bool" where
  "suffixExcludes host suffix1 =
     (let family = TrimSuffix suffix1 ''.*''
      in if family \<noteq> suffix1 then HasPrefix host (family @ ''.'') \<or> Contains host (''.'' @ family @ ''.'')
         else host = suffix1 \<or> HasSuffix host (''.'' @ suffix1))"

definition excludes :: "(string \<Rightarrow> string) \<Rightarrow> string \<Rightarrow> string \<Rightarrow> bool" where
  "excludes lower patterns1 host \<longleftrightarrow>
     (let host1 = lower (TrimSuffix host ''.'')
      in list_ex (\<lambda>s. TrimSpace s \<noteq> [] \<and> suffixExcludes host1 (TrimSpace s)) (Split patterns1 CHR '',''))"

definition newDiscoveryStoreWithConfig ::
    "(string \<Rightarrow> string) \<Rightarrow> bool \<Rightarrow> bool \<Rightarrow> automatic_config \<Rightarrow> go_error + discovery_handle" where
  "newDiscoveryStoreWithConfig lower pool clock config =
     (if \<not> pool then Inl errPoolUnavailable
      else if \<not> clock then Inl errDiscoveryClockUnavailable
      else if ac_MaxPendingProbes config < 0 then Inl errInvalidQueueConfig
      else if ac_MaxAutomaticPromotionsPerRun config < 0 then Inl errInvalidQueueConfig
      else if \<not> validExcludedHostSuffixes lower (ac_ExcludedHostSuffixes config) then Inl errInvalidQueueConfig
      else Inr \<lparr>dh_pool = pool, dh_clock = clock, dh_automatic = config\<rparr>)"

definition newDiscoveryStore :: "(string \<Rightarrow> string) \<Rightarrow> bool \<Rightarrow> bool \<Rightarrow> go_error + discovery_handle" where
  "newDiscoveryStore lower pool clock = newDiscoveryStoreWithConfig lower pool clock automatic_config_zero"

definition discovery_validate :: "discovery_handle option \<Rightarrow> ctx_value \<Rightarrow> go_error option" where
  "discovery_validate s ctx =
     (case s of
        None \<Rightarrow> Some errDiscoveryStoreUnavailable
      | Some h \<Rightarrow>
          (case ctx of
             None \<Rightarrow> Some errInvalidContext
           | Some (Some err) \<Rightarrow> Some err
           | Some None \<Rightarrow>
               if \<not> dh_pool h then Some errPoolUnavailable
               else if \<not> dh_clock h then Some errDiscoveryClockUnavailable else None))"

section \<open>Tables\<close>

record source_state =
  ss_seeded :: bool
  ss_automatically_discovered :: bool
  ss_operator_blocked :: bool
  ss_crawl_blocked :: bool
  ss_last_attempted_at :: "go_time option"
  ss_consecutive_failures :: int
  ss_last_failure_category :: "category option"
  ss_next_attempt_at :: "go_time option"
  ss_lease_generation :: int
  ss_lease_owner :: "string option"
  ss_last_claimed_at :: "go_time option"
  ss_lease_expires_at :: "go_time option"

definition source_state_default :: source_state where
  "source_state_default =
     \<lparr>ss_seeded = False, ss_automatically_discovered = False, ss_operator_blocked = False, ss_crawl_blocked = False,
      ss_last_attempted_at = None, ss_consecutive_failures = 0, ss_last_failure_category = None,
      ss_next_attempt_at = None, ss_lease_generation = 0, ss_lease_owner = None, ss_last_claimed_at = None,
      ss_lease_expires_at = None\<rparr>"

record candidate_row =
  cd_first_discovered_at :: go_time
  cd_last_discovered_at :: go_time
  cd_consecutive_failures :: int
  cd_last_failure_category :: "category option"
  cd_next_attempt_at :: "go_time option"

record edge_row =
  ed_first_discovered_at :: go_time
  ed_last_discovered_at :: go_time

record run_row =
  rn_source_origin :: string
  rn_started_at :: go_time
  rn_finished_at :: "go_time option"
  rn_outcome :: string
  rn_stop_reason :: string
  rn_max_automatic_promotions :: int
  rn_automatic_promotions :: int
  rn_promotions_admitted :: int
  rn_promotions_deferred :: int

record batch_row =
  bt_discovered_run_id :: int
  bt_outcome :: string
  bt_consecutive_failures :: int
  bt_last_failure_category :: "category option"
  bt_next_attempt_at :: "go_time option"

record control_row =
  cn_discovery_paused :: bool
  cn_verification_paused :: bool
  cn_automatic_expansion_paused :: bool

record audit_event =
  au_OccurredAt :: go_time
  au_Action :: string
  au_Target :: string
  au_Caller :: string
  au_Actor :: string
  au_Result :: string
  au_Reason :: string

record discovery_db =
  dd_store :: store_db
  dd_queue :: "(string \<times> queue_row) list"
  dd_schedule :: "string list"
  dd_sources :: "(string \<times> source_state) list"
  dd_candidates :: "(string \<times> candidate_row) list"
  dd_edges :: "((string \<times> string \<times> string) \<times> edge_row) list"
  dd_runs :: "(int \<times> run_row) list"
  dd_run_candidates :: "(int \<times> string \<times> string) list"
  dd_batches :: "((int \<times> string) \<times> batch_row) list"
  dd_admissions :: "(string \<times> (string \<times> go_time)) list"
  dd_avoid :: "string list"
  dd_control :: control_row
  dd_audit :: "audit_event list"

text \<open>The tables as the verification queue sees them.\<close>

definition queueView :: "discovery_db \<Rightarrow> queue_db" where
  "queueView db =
     \<lparr>qd_store = dd_store db, qd_queue = dd_queue db, qd_schedule = (\<lambda>o1. o1 \<in> set (dd_schedule db)),
      qd_sources = (\<lambda>o1. map_option (\<lambda>r. \<lparr>sr_crawl_blocked = ss_crawl_blocked r, sr_seeded = ss_seeded r\<rparr>)
                           (map_of (dd_sources db) o1)),
      qd_candidates = (\<lambda>o1. map_option cd_last_discovered_at (map_of (dd_candidates db) o1)),
      qd_paused = cn_verification_paused (dd_control db)\<rparr>"

text \<open>\<^verbatim>\<open>COALESCE\<close> over the columns of an outer join with the source state.\<close>

definition sourceFlag :: "(source_state \<Rightarrow> bool) \<Rightarrow> discovery_db \<Rightarrow> string \<Rightarrow> bool" where
  "sourceFlag f db o1 = (case map_of (dd_sources db) o1 of None \<Rightarrow> False | Some r \<Rightarrow> f r)"

definition sourceOf :: "discovery_db \<Rightarrow> string \<Rightarrow> source_state" where
  "sourceOf db o1 = (case map_of (dd_sources db) o1 of None \<Rightarrow> source_state_default | Some r \<Rightarrow> r)"

text \<open>The outer join \<open>effective\<close>: the latest authoritative observation of an origin.\<close>

definition effectiveRow :: "store_db \<Rightarrow> string \<Rightarrow> observation_row option" where
  "effectiveRow db o1 =
     latestObservation (filter (\<lambda>r. authoritativeText (ob_outcome r))
       (filter (\<lambda>r. ob_origin r = o1) (db_observations db)))"

definition participated :: "discovery_db \<Rightarrow> string \<Rightarrow> bool" where
  "participated db o1 =
     (case db_origins (dd_store db) o1 of None \<Rightarrow> False | Some r \<Rightarrow> or_first_participated_at r \<noteq> None)"

definition insertSchedule :: "string \<Rightarrow> discovery_db \<Rightarrow> discovery_db" where
  "insertSchedule o1 db = (if o1 \<in> set (dd_schedule db) then db else db\<lparr>dd_schedule := dd_schedule db @ [o1]\<rparr>)"

definition updateSource :: "string \<Rightarrow> source_state \<Rightarrow> discovery_db \<Rightarrow> discovery_db" where
  "updateSource o1 row db = db\<lparr>dd_sources := AList.update o1 row (dd_sources db)\<rparr>"

section \<open>Exclusions\<close>

primrec Join :: "string list \<Rightarrow> string \<Rightarrow> string" where
  "Join [] sep = []"
| "Join (x # xs) sep = (if xs = [] then x else x @ sep @ Join xs sep)"

definition automaticExclusions :: "discovery_db \<Rightarrow> automatic_config \<Rightarrow> string" where
  "automaticExclusions db config =
     (let configured = TrimSpace (ac_ExcludedHostSuffixes config)
      in Join (sort (dd_avoid db) @ (if configured \<noteq> [] then [configured] else [])) '','')"

definition automaticExclusionPatterns :: "string \<Rightarrow> string list" where
  "automaticExclusionPatterns patterns1 = filter (\<lambda>p. p \<noteq> []) (map TrimSpace (Split patterns1 CHR '',''))"

text \<open>
  The test of the admission statements: the host is cut out of the serialized origin by the regular
  expression \<^verbatim>\<open>^https?://(\[[^]]+\]|[^:]+)\<close>, its brackets are trimmed, and it is compared by \<^verbatim>\<open>LIKE\<close> with the
  escaped pattern. (A pattern that ends in the escape character does not occur: every one is escaped.)
\<close>

definition sqlHostPart :: "string \<Rightarrow> string" where
  "sqlHostPart rest =
     (let inner = takeWhile (\<lambda>c. c \<noteq> CHR '']'') (drop 1 rest)
      in if HasPrefix rest ''['' \<and> inner \<noteq> [] \<and> length inner + 1 < length rest then ''['' @ inner @ '']''
         else takeWhile (\<lambda>c. c \<noteq> CHR '':'') rest)"

definition sqlHostname :: "string \<Rightarrow> string" where
  "sqlHostname serialized =
     map to_lower (Trim (sqlHostPart
       (if HasPrefix serialized ''https://'' then drop 8 serialized else drop 7 serialized)) ''[]'')"

fun sqlLike :: "string \<Rightarrow> string \<Rightarrow> bool" where
  "sqlLike [] s \<longleftrightarrow> s = []"
| "sqlLike (p # ps) s \<longleftrightarrow>
     (if p = CHR ''%'' then sqlLike ps s \<or> (case s of [] \<Rightarrow> False | _ # s' \<Rightarrow> sqlLike (p # ps) s')
      else if p = CHR ''_'' then (case s of [] \<Rightarrow> False | _ # s' \<Rightarrow> sqlLike ps s')
      else if p = CHR 0x5C then
        (case ps of [] \<Rightarrow> False | q # qs \<Rightarrow> (case s of [] \<Rightarrow> False | c # s' \<Rightarrow> c = q \<and> sqlLike qs s'))
      else (case s of [] \<Rightarrow> False | c # s' \<Rightarrow> c = p \<and> sqlLike ps s'))"

definition sqlReplace :: "string \<Rightarrow> char \<Rightarrow> string \<Rightarrow> string" where
  "sqlReplace s c r = concat (map (\<lambda>x. if x = c then r else [x]) s)"

definition sqlEscape :: "string \<Rightarrow> string" where
  "sqlEscape s =
     sqlReplace (sqlReplace (sqlReplace s CHR 0x5C [CHR 0x5C, CHR 0x5C]) CHR ''%'' [CHR 0x5C, CHR ''%''])
       CHR ''_'' [CHR 0x5C, CHR ''_'']"

definition sqlExcluded :: "string list \<Rightarrow> string \<Rightarrow> bool" where
  "sqlExcluded patterns serialized \<longleftrightarrow>
     list_ex (\<lambda>p. let host = sqlHostname serialized;
                       wild = HasSuffix p ''.*'';
                       like = sqlEscape (if wild then take (length p - 2) p else p)
                   in wild \<and> (sqlLike (like @ ''.%'') host \<or> sqlLike (''%.'' @ like @ ''.%'') host) \<or>
                      \<not> wild \<and> (host = p \<or> sqlLike (''%.'' @ like) host))
       patterns"

section \<open>Blocking\<close>

definition setExactCrawlBlock ::
    "(string \<Rightarrow> string) \<Rightarrow> automatic_config \<Rightarrow> origin \<Rightarrow> bool \<Rightarrow> discovery_db \<Rightarrow> discovery_db" where
  "setExactCrawlBlock lower config source blocked db =
     (let o1 = origin_String source;
          row = (sourceOf db o1)\<lparr>ss_operator_blocked := blocked, ss_crawl_blocked := blocked\<rparr>;
          effectiveBlocked =
            (if ss_automatically_discovered row \<and> \<not> ss_seeded row
             then blocked \<or> excludes lower (automaticExclusions db config) (origin_Hostname source)
             else blocked)
      in updateSource o1 (row\<lparr>ss_crawl_blocked := effectiveBlocked\<rparr>) db)"

definition SetCrawlBlocked ::
    "(string \<Rightarrow> string) \<Rightarrow> discovery_handle option \<Rightarrow> ctx_value \<Rightarrow> go_error option \<Rightarrow> origin \<Rightarrow> bool \<Rightarrow> discovery_db \<Rightarrow>
     go_error option \<times> discovery_db" where
  "SetCrawlBlocked lower s ctx dbErr source blocked db =
     (case discovery_validate s ctx of
        Some err \<Rightarrow> (Some err, db)
      | None \<Rightarrow>
          if origin_String source = [] then (Some errInvalidOrigin, db)
          else (case dbErr of
                  Some err \<Rightarrow> (Some (Wrap ''store: set crawl block'' [err]), db)
                | None \<Rightarrow> (None, setExactCrawlBlock lower (dh_automatic (the s)) source blocked db)))"

text \<open>A stored origin that does not parse any more is blocked.\<close>

definition recomputeBlock ::
    "host_lib \<Rightarrow> (string \<Rightarrow> string) \<Rightarrow> string \<Rightarrow> string \<times> source_state \<Rightarrow> int \<times> discovery_db \<Rightarrow> int \<times> discovery_db" where
  "recomputeBlock lib lower exclusions entry acc =
     (case (entry, acc) of ((raw, state), (changed, db)) \<Rightarrow>
        let set_block = (\<lambda>b. updateSource raw ((sourceOf db raw)\<lparr>ss_crawl_blocked := b\<rparr>) db)
        in case Origin.Parse lib raw of
             Inl _ \<Rightarrow> if \<not> ss_crawl_blocked state then (changed + 1, set_block True) else (changed, db)
           | Inr source \<Rightarrow>
               (let effectiveBlocked = (ss_operator_blocked state \<or> excludes lower exclusions (origin_Hostname source))
                in if effectiveBlocked = ss_crawl_blocked state then (changed, db)
                   else (changed + 1, set_block effectiveBlocked)))"

definition recomputeAutomaticCrawlBlocks ::
    "host_lib \<Rightarrow> (string \<Rightarrow> string) \<Rightarrow> automatic_config \<Rightarrow> discovery_db \<Rightarrow> int \<times> discovery_db" where
  "recomputeAutomaticCrawlBlocks lib lower config db =
     fold (recomputeBlock lib lower (automaticExclusions db config))
       (sort_key fst (filter (\<lambda>(_, r). ss_automatically_discovered r \<and> \<not> ss_seeded r) (dd_sources db)))
       (0, db)"

definition ReconcileAutomaticCrawlPolicy ::
    "host_lib \<Rightarrow> (string \<Rightarrow> string) \<Rightarrow> discovery_handle option \<Rightarrow> ctx_value \<Rightarrow> go_error option \<Rightarrow> discovery_db \<Rightarrow>
     (go_error + int) \<times> discovery_db" where
  "ReconcileAutomaticCrawlPolicy lib lower s ctx dbErr db =
     (case discovery_validate s ctx of
        Some err \<Rightarrow> (Inl err, db)
      | None \<Rightarrow>
          if \<not> ac_Enabled (dh_automatic (the s)) then (Inr 0, db)
          else (case dbErr of
                  Some err \<Rightarrow> (Inl (Wrap ''store: reconcile automatic crawl policy'' [err]), db)
                | None \<Rightarrow>
                    (case recomputeAutomaticCrawlBlocks lib lower (dh_automatic (the s)) db of
                       (changed, db') \<Rightarrow> (Inr changed, db'))))"

section \<open>Seeds\<close>

definition AddCrawlSeed ::
    "discovery_handle option \<Rightarrow> ctx_value \<Rightarrow> go_error option \<Rightarrow> origin \<Rightarrow> discovery_db \<Rightarrow> go_error option \<times> discovery_db" where
  "AddCrawlSeed s ctx dbErr source db =
     (case discovery_validate s ctx of
        Some err \<Rightarrow> (Some err, db)
      | None \<Rightarrow>
          if origin_String source = [] then (Some errInvalidOrigin, db)
          else (case dbErr of
                  Some err \<Rightarrow> (Some (Wrap ''store: add crawl seed'' [err]), db)
                | None \<Rightarrow>
                    (let o1 = origin_String source
                     in (None, updateSource o1 ((sourceOf db o1)\<lparr>ss_seeded := True\<rparr>) (insertSchedule o1 db)))))"

text \<open>Whether a source keeps its place in the schedule when it is no seed any more.\<close>

definition staysScheduled :: "discovery_db \<Rightarrow> string \<Rightarrow> bool \<Rightarrow> bool" where
  "staysScheduled db o1 automatic \<longleftrightarrow>
     (let effective = effectiveRow (dd_store db) o1
      in (case effective of None \<Rightarrow> False | Some r \<Rightarrow> ob_outcome r = ''valid'') \<or>
         automatic \<and> effective = None \<or>
         (automatic \<or> participated db o1) \<and>
           (case (effective, map_of (dd_candidates db) o1) of
              (Some r, Some c) \<Rightarrow> cd_last_discovered_at c > ob_observed_at r
            | _ \<Rightarrow> False))"

definition removeSeed :: "string \<Rightarrow> discovery_db \<Rightarrow> discovery_db" where
  "removeSeed o1 db =
     (case map_of (dd_sources db) o1 of
        None \<Rightarrow> db
      | Some row \<Rightarrow>
          (let db' = updateSource o1 (row\<lparr>ss_seeded := False\<rparr>) db
           in if staysScheduled db o1 (ss_automatically_discovered row) then db'
              else db'\<lparr>dd_schedule := filter (\<lambda>x. x \<noteq> o1) (dd_schedule db')\<rparr>))"

definition RemoveCrawlSeed ::
    "discovery_handle option \<Rightarrow> ctx_value \<Rightarrow> go_error option \<Rightarrow> origin \<Rightarrow> discovery_db \<Rightarrow> go_error option \<times> discovery_db" where
  "RemoveCrawlSeed s ctx dbErr source db =
     (case discovery_validate s ctx of
        Some err \<Rightarrow> (Some err, db)
      | None \<Rightarrow>
          if origin_String source = [] then (Some errInvalidOrigin, db)
          else (case dbErr of
                  Some err \<Rightarrow> (Some (Wrap ''store: remove crawl seed'' [err]), db)
                | None \<Rightarrow> (None, removeSeed (origin_String source) db)))"

definition seededOrigins :: "discovery_db \<Rightarrow> string list" where
  "seededOrigins db = sort (map fst (filter (\<lambda>(_, r). ss_seeded r) (dd_sources db)))"

definition CrawlSeeds ::
    "host_lib \<Rightarrow> discovery_handle option \<Rightarrow> ctx_value \<Rightarrow> go_error option \<Rightarrow> discovery_db \<Rightarrow> go_error + origin list" where
  "CrawlSeeds lib s ctx dbErr db =
     (case discovery_validate s ctx of
        Some err \<Rightarrow> Inl err
      | None \<Rightarrow>
          (case dbErr of
             Some err \<Rightarrow> Inl (Wrap ''store: list crawl seeds'' [err])
           | None \<Rightarrow>
               CollectRows (\<lambda>raw. case Origin.Parse lib raw of
                                     Inl err \<Rightarrow> Inl (Wrap ''store: invalid crawl seed'' [err])
                                   | Inr seed \<Rightarrow> Inr seed) (seededOrigins db)))"

definition EnsureSeededSourcesScheduled ::
    "discovery_handle option \<Rightarrow> ctx_value \<Rightarrow> go_error option \<Rightarrow> discovery_db \<Rightarrow> (go_error + int) \<times> discovery_db" where
  "EnsureSeededSourcesScheduled s ctx dbErr db =
     (case discovery_validate s ctx of
        Some err \<Rightarrow> (Inl err, db)
      | None \<Rightarrow>
          (case dbErr of
             Some err \<Rightarrow> (Inl (Wrap ''store: ensure seeded sources scheduled'' [err]), db)
           | None \<Rightarrow>
               (let db' = fold insertSchedule (seededOrigins db) db
                in (Inr (int (length (dd_schedule db')) - int (length (dd_schedule db))), db'))))"

section \<open>Listing the sources\<close>

record crawl_source =
  cs_Origin :: origin
  cs_Seeded :: bool
  cs_AutomaticallyDiscovered :: bool
  cs_Blocked :: bool
  cs_Verified :: bool
  cs_FirstDiscoveredAt :: "go_time option"
  cs_LastDiscoveredAt :: "go_time option"

definition scanCrawlSource ::
    "host_lib \<Rightarrow> (string \<Rightarrow> go_error option) \<Rightarrow> discovery_db \<Rightarrow> string \<Rightarrow> go_error + crawl_source" where
  "scanCrawlSource lib rowErr db raw =
     (case rowErr raw of
        Some err \<Rightarrow> Inl err
      | None \<Rightarrow>
          (case Origin.Parse lib raw of
             Inl err \<Rightarrow> Inl (Wrap ''invalid origin'' [err])
           | Inr parsed \<Rightarrow>
               Inr \<lparr>cs_Origin = parsed, cs_Seeded = sourceFlag ss_seeded db raw,
                    cs_AutomaticallyDiscovered = sourceFlag ss_automatically_discovered db raw,
                    cs_Blocked = sourceFlag ss_crawl_blocked db raw,
                    cs_Verified = (case effectiveRow (dd_store db) raw of
                                     None \<Rightarrow> False | Some r \<Rightarrow> ob_outcome r = ''valid''),
                    cs_FirstDiscoveredAt = map_option cd_first_discovered_at (map_of (dd_candidates db) raw),
                    cs_LastDiscoveredAt = map_option cd_last_discovered_at (map_of (dd_candidates db) raw)\<rparr>))"

definition CrawlSources ::
    "host_lib \<Rightarrow> discovery_handle option \<Rightarrow> ctx_value \<Rightarrow> go_error option \<Rightarrow> (string \<Rightarrow> go_error option) \<Rightarrow> discovery_db \<Rightarrow>
     go_error + crawl_source list" where
  "CrawlSources lib s ctx dbErr rowErr db =
     (case discovery_validate s ctx of
        Some err \<Rightarrow> Inl err
      | None \<Rightarrow>
          (case dbErr of
             Some err \<Rightarrow> Inl (Wrap ''store: list crawl sources'' [err])
           | None \<Rightarrow>
               (case CollectRows (scanCrawlSource lib rowErr db)
                       (sort (remdups (map fst (dd_sources db) @ dd_schedule db))) of
                  Inl err \<Rightarrow> Inl (Wrap ''store: collect crawl sources'' [err])
                | Inr sources \<Rightarrow> Inr sources)))"

section \<open>Patterns\<close>

lemma HasPrefix_iff: "HasPrefix s p \<longleftrightarrow> (\<exists>t. s = p @ t)"
  by (auto simp: HasPrefix_def) (metis append_take_drop_id)

lemma HasSuffix_iff: "HasSuffix s p \<longleftrightarrow> (\<exists>t. s = t @ p)"
  by (auto dest: HasSuffix_D)

lemma Contains_iff: "Contains s sub \<longleftrightarrow> (\<exists>a b. s = a @ sub @ b)"
proof (induction s)
  case (Cons c s)
  have "(\<exists>a b. c # s = a @ sub @ b) \<longleftrightarrow> (\<exists>b. c # s = sub @ b) \<or> (\<exists>a b. s = a @ sub @ b)"
    by (metis append_Cons append_Nil list.exhaust list.inject)
  with Cons show ?case by (simp add: HasPrefix_iff)
qed simp

lemma sqlEscape_concat:
  "sqlEscape s = concat (map (\<lambda>c. if c \<in> {CHR 0x5C, CHR ''%'', CHR ''_''} then [CHR 0x5C, c] else [c]) s)"
  by (induction s) (auto simp: sqlEscape_def sqlReplace_def)

lemma sqlLike_escaped: "sqlLike (sqlEscape p @ q) s \<longleftrightarrow> (\<exists>t. s = p @ t \<and> sqlLike q t)"
proof (induction p arbitrary: s)
  case (Cons c p)
  have "sqlLike (sqlEscape (c # p) @ q) s \<longleftrightarrow> (\<exists>s'. s = c # s' \<and> sqlLike (sqlEscape p @ q) s')"
    by (cases s) (auto simp: sqlEscape_concat)
  with Cons show ?case by auto
qed (simp add: sqlEscape_concat)

lemma sqlLike_percent: "sqlLike (CHR ''%'' # q) s \<longleftrightarrow> (\<exists>a b. s = a @ b \<and> sqlLike q b)"
proof (induction s)
  case (Cons c s)
  have "(\<exists>a b. c # s = a @ b \<and> sqlLike q b) \<longleftrightarrow> sqlLike q (c # s) \<or> (\<exists>a b. s = a @ b \<and> sqlLike q b)"
    by (metis append_Cons append_Nil list.exhaust list.inject)
  with Cons show ?case by simp
qed simp

lemma sqlLike_dot: "sqlLike (CHR ''.'' # q) s \<longleftrightarrow> (\<exists>t. s = CHR ''.'' # t \<and> sqlLike q t)"
  by (cases s) auto

declare sqlLike.simps(2) [simp del]

lemma sqlLike_end: "sqlLike (sqlEscape p) s \<longleftrightarrow> s = p"
  using sqlLike_escaped [of p "[]" s] by (simp add: sqlLike.simps)

lemma sqlLike_rest: "sqlLike ''.%'' s \<longleftrightarrow> (\<exists>t. s = CHR ''.'' # t)"
  by (auto simp: sqlLike_dot sqlLike_percent sqlLike.simps(1))

lemma TrimSuffix_changes: "TrimSuffix s suf \<noteq> s \<longleftrightarrow> HasSuffix s suf \<and> suf \<noteq> []"
  by (auto simp: TrimSuffix_def HasSuffix_def)

lemma pattern_equiv:
  "suffixExcludes host p \<longleftrightarrow>
     (let wild = HasSuffix p ''.*''; like = sqlEscape (if wild then take (length p - 2) p else p)
      in wild \<and> (sqlLike (like @ ''.%'') host \<or> sqlLike (''%.'' @ like @ ''.%'') host) \<or>
         \<not> wild \<and> (host = p \<or> sqlLike (''%.'' @ like) host))"
proof (cases "HasSuffix p ''.*''")
  case True
  then obtain f where f: "p = f @ ''.*''" by (auto simp: HasSuffix_iff)
  then have "TrimSuffix p ''.*'' = f" "take (length p - 2) p = f" "f \<noteq> p" by simp_all
  moreover have "HasPrefix host (f @ ''.'') \<longleftrightarrow> sqlLike (sqlEscape f @ ''.%'') host"
    by (auto simp: HasPrefix_iff sqlLike_escaped sqlLike_rest)
  moreover have "Contains host (''.'' @ f @ ''.'') \<longleftrightarrow> sqlLike (''%.'' @ sqlEscape f @ ''.%'') host"
    by (simp add: Contains_iff sqlLike_percent [of "CHR ''.'' # q" for q] sqlLike_dot sqlLike_escaped)
      (auto simp: sqlLike_percent, metis append_Nil2)
  ultimately show ?thesis using True by (simp add: suffixExcludes_def Let_def)
next
  case False
  then have "TrimSuffix p ''.*'' = p" using TrimSuffix_changes by blast
  moreover have "HasSuffix host (''.'' @ p) \<longleftrightarrow> sqlLike (''%.'' @ sqlEscape p) host"
    by (auto simp: HasSuffix_iff sqlLike_percent sqlLike_dot sqlLike_end)
  ultimately show ?thesis using False by (simp add: suffixExcludes_def Let_def)
qed

lemma excludes_patterns:
  "sqlHostname serialized = lower (TrimSuffix host ''.'') \<Longrightarrow>
   excludes lower patterns1 host \<longleftrightarrow> sqlExcluded (automaticExclusionPatterns patterns1) serialized"
  unfolding excludes_def sqlExcluded_def automaticExclusionPatterns_def pattern_equiv
  by (auto simp: list_ex_iff Let_def)

text \<open>A canonical host name: no brackets, no final dot.\<close>

definition canonicalHost :: "string \<Rightarrow> bool" where
  "canonicalHost h \<longleftrightarrow>
     h \<noteq> [] \<and> list_all (\<lambda>c. byte_of c < 128 \<and> c \<noteq> CHR ''['' \<and> c \<noteq> CHR '']'') h \<and> \<not> HasSuffix h ''.''"

lemma takeWhile_stop: "c \<notin> set h \<Longrightarrow> takeWhile (\<lambda>x. x \<noteq> c) (h @ c # t) = h"
  by (induction h) auto

lemma no_brackets:
  "CHR ''['' \<notin> set h \<Longrightarrow> CHR '']'' \<notin> set h \<Longrightarrow> dropWhile (\<lambda>c. c = CHR ''['' \<or> c = CHR '']'') h = h"
  by (cases h) auto

lemma Trim_brackets: "CHR ''['' \<notin> set h \<Longrightarrow> CHR '']'' \<notin> set h \<Longrightarrow> Trim h ''[]'' = h"
  by (simp add: Trim_def TrimLeft_def TrimRight_def no_brackets)

lemma sqlHostname_parsed:
  assumes "address_text lib" and "Origin.Parse lib raw = Inr o1" and "canonicalHost (origin_Hostname o1)"
  shows "sqlHostname (origin_String o1) = map to_lower (origin_Hostname o1)"
proof -
  obtain u sh where u: "u_Scheme u \<in> {''http'', ''https''}" "parseHost lib (Hostname u) = Inr (hostname o1, sh)"
      "serialization o1 = u_Scheme u @ ''://'' @ sh @ portSuffix (u_Scheme u) (port o1)"
    by (rule Parse_form [OF assms(2)])
  let ?h = "hostname o1" and ?p = "portSuffix (u_Scheme u) (port o1)"
  have h: "?h \<noteq> []" "CHR ''['' \<notin> set ?h" "CHR '']'' \<notin> set ?h"
    using assms(3) by (auto simp: canonicalHost_def list_all_iff origin_Hostname_def)
  have rest: "(if HasPrefix (origin_String o1) ''https://'' then drop 8 (origin_String o1) else drop 7 (origin_String o1)) =
      sh @ ?p"
    using u(1,3) by (auto simp: origin_String_def HasPrefix_def)
  have p: "?p = [] \<or> (\<exists>t. ?p = CHR '':'' # t)" by (simp add: portSuffix_def)
  consider "sh = ''['' @ ?h @ '']''" | "sh = ?h" "plainHost ?h"
    using parseHost_form [OF assms(1) u(2)] by (auto simp: hostText_def)
  then show ?thesis
  proof cases
    case 1
    then have "sqlHostPart (sh @ ?p) = ''['' @ ?h @ '']''"
      using h takeWhile_stop [of "CHR '']''" ?h ?p] by (simp add: sqlHostPart_def HasPrefix_def)
    moreover have "Trim (''['' @ ?h @ '']'') ''[]'' = ?h"
      using h no_brackets [of "rev ?h"] by (cases ?h) (auto simp: Trim_def TrimLeft_def TrimRight_def)
    ultimately show ?thesis by (simp add: sqlHostname_def rest origin_Hostname_def)
  next
    case 2
    then have "takeWhile (\<lambda>c. c \<noteq> CHR '':'') (?h @ ?p) = ?h"
      using p by (auto simp: plainHost_def takeWhile_stop takeWhile_eq_all_conv)
    moreover have "\<not> HasPrefix (?h @ ?p) ''[''" using h by (cases ?h) (auto simp: HasPrefix_def)
    ultimately show ?thesis
      using h 2 Trim_brackets [of ?h] by (simp add: sqlHostname_def sqlHostPart_def rest origin_Hostname_def Let_def)
  qed
qed


definition lower_law :: "(string \<Rightarrow> string) \<Rightarrow> bool" where
  "lower_law lower \<longleftrightarrow> (\<forall>s. list_all (\<lambda>c. byte_of c < 128) s \<longrightarrow> lower s = map to_lower s)"

section \<open>Effective blocks\<close>

definition automaticSource :: "source_state \<Rightarrow> bool" where
  "automaticSource r \<longleftrightarrow> ss_automatically_discovered r \<and> \<not> ss_seeded r"

text \<open>The block an automatic source has to have.\<close>

definition dueBlock :: "host_lib \<Rightarrow> (string \<Rightarrow> string) \<Rightarrow> string \<Rightarrow> string \<Rightarrow> source_state \<Rightarrow> bool" where
  "dueBlock lib lower exclusions raw r \<longleftrightarrow>
     (case Origin.Parse lib raw of
        Inl _ \<Rightarrow> True | Inr source \<Rightarrow> ss_operator_blocked r \<or> excludes lower exclusions (origin_Hostname source))"

definition reblocked :: "host_lib \<Rightarrow> (string \<Rightarrow> string) \<Rightarrow> string \<Rightarrow> string \<Rightarrow> source_state \<Rightarrow> source_state" where
  "reblocked lib lower exclusions raw r =
     (if automaticSource r then r\<lparr>ss_crawl_blocked := dueBlock lib lower exclusions raw r\<rparr> else r)"

lemma updateSource_other [simp]:
  "dd_store (updateSource o1 row db) = dd_store db" "dd_queue (updateSource o1 row db) = dd_queue db"
  "dd_schedule (updateSource o1 row db) = dd_schedule db" "dd_candidates (updateSource o1 row db) = dd_candidates db"
  "dd_avoid (updateSource o1 row db) = dd_avoid db" "dd_runs (updateSource o1 row db) = dd_runs db"
  "dd_edges (updateSource o1 row db) = dd_edges db" "dd_run_candidates (updateSource o1 row db) = dd_run_candidates db"
  "dd_batches (updateSource o1 row db) = dd_batches db" "dd_admissions (updateSource o1 row db) = dd_admissions db"
  "dd_control (updateSource o1 row db) = dd_control db" "dd_audit (updateSource o1 row db) = dd_audit db"
  "map_of (dd_sources (updateSource o1 row db)) = (map_of (dd_sources db))(o1 \<mapsto> row)"
  by (simp_all add: updateSource_def update_conv')

lemma recomputeBlock_step:
  assumes "map_of (dd_sources db) raw = Some r" and "automaticSource r"
  shows "recomputeBlock lib lower exclusions (raw, r) (n, db) =
    (if dueBlock lib lower exclusions raw r = ss_crawl_blocked r then (n, db)
     else (n + 1, updateSource raw (reblocked lib lower exclusions raw r) db))"
  using assms
  by (auto simp: recomputeBlock_def dueBlock_def reblocked_def sourceOf_def Let_def split: sum.splits)

lemma reblocked_same: "dueBlock lib lower exclusions raw r = ss_crawl_blocked r \<Longrightarrow> reblocked lib lower exclusions raw r = r"
  by (auto simp: reblocked_def)

lemma recompute_fold:
  assumes "distinct (map fst es)"
    and "\<And>raw r. (raw, r) \<in> set es \<Longrightarrow> map_of (dd_sources db) raw = Some r \<and> automaticSource r"
  shows "case fold (recomputeBlock lib lower exclusions) es (n, db) of (n', db') \<Rightarrow>
      n' = n + int (length (filter (\<lambda>(raw, r). dueBlock lib lower exclusions raw r \<noteq> ss_crawl_blocked r) es)) \<and>
      db'\<lparr>dd_sources := dd_sources db\<rparr> = db \<and>
      map_of (dd_sources db') = (\<lambda>raw. case map_of es raw of
          None \<Rightarrow> map_of (dd_sources db) raw | Some r \<Rightarrow> Some (reblocked lib lower exclusions raw r))"
  using assms
proof (induction es arbitrary: n db)
  case (Cons e es)
  obtain raw r where e: "e = (raw, r)" by (cases e)
  have row: "map_of (dd_sources db) raw = Some r" "automaticSource r" using Cons.prems(2) [of raw r] e by auto
  let ?due = "dueBlock lib lower exclusions raw r = ss_crawl_blocked r"
  let ?db = "if ?due then db else updateSource raw (reblocked lib lower exclusions raw r) db"
  let ?n = "if ?due then n else n + 1"
  have map: "map_of (dd_sources ?db) = (map_of (dd_sources db))(raw \<mapsto> reblocked lib lower exclusions raw r)"
    using row(1) reblocked_same [of lib lower exclusions raw r] by auto
  have step: "fold (recomputeBlock lib lower exclusions) (e # es) (n, db) = fold (recomputeBlock lib lower exclusions) es (?n, ?db)"
    by (simp add: e recomputeBlock_step [OF row])
  have rows: "(raw', r') \<in> set es \<Longrightarrow> map_of (dd_sources ?db) raw' = Some r' \<and> automaticSource r'" for raw' r'
    using Cons.prems e by (force simp: map)
  have keep: "?db\<lparr>dd_sources := dd_sources db\<rparr> = db" by (simp add: updateSource_def)
  have new: "map_of es raw = None" using Cons.prems(1) e by (auto simp: map_of_eq_None_iff)
  obtain n' db' where out: "fold (recomputeBlock lib lower exclusions) es (?n, ?db) = (n', db')" by fastforce
  have IH: "n' = ?n + int (length (filter (\<lambda>(raw, r). dueBlock lib lower exclusions raw r \<noteq> ss_crawl_blocked r) es))"
      "db'\<lparr>dd_sources := dd_sources ?db\<rparr> = ?db"
      "map_of (dd_sources db') = (\<lambda>raw. case map_of es raw of
          None \<Rightarrow> map_of (dd_sources ?db) raw | Some r \<Rightarrow> Some (reblocked lib lower exclusions raw r))"
    using Cons.IH [OF _ rows, of ?n] Cons.prems(1) e unfolding out by auto
  have "db'\<lparr>dd_sources := dd_sources db\<rparr> = (db'\<lparr>dd_sources := dd_sources ?db\<rparr>)\<lparr>dd_sources := dd_sources db\<rparr>" by simp
  also have "\<dots> = db" unfolding IH(2) by (rule keep)
  finally have "db'\<lparr>dd_sources := dd_sources db\<rparr> = db" .
  moreover have "map_of (dd_sources db') = (\<lambda>raw. case map_of (e # es) raw of
          None \<Rightarrow> map_of (dd_sources db) raw | Some r \<Rightarrow> Some (reblocked lib lower exclusions raw r))"
    unfolding IH(3) map using new by (auto simp: e fun_eq_iff split: option.splits)
  ultimately show ?case unfolding step out using IH(1) by (simp add: e)
qed simp


lemma updateSource_keys:
  "set (map fst (dd_sources (updateSource o1 row db))) = insert o1 (set (map fst (dd_sources db)))"
  "distinct (map fst (dd_sources db)) \<Longrightarrow> distinct (map fst (dd_sources (updateSource o1 row db)))"
  by (auto simp: updateSource_def dom_update distinct_update)

lemma recompute_effect:
  assumes keys: "distinct (map fst (dd_sources db))"
    and out: "recomputeAutomaticCrawlBlocks lib lower config db = (n, db')"
  defines "exclusions \<equiv> automaticExclusions db config"
  shows "n = int (length (filter (\<lambda>(raw, r). automaticSource r \<and> dueBlock lib lower exclusions raw r \<noteq> ss_crawl_blocked r)
                            (dd_sources db)))"
    and "db'\<lparr>dd_sources := dd_sources db\<rparr> = db"
    and "map_of (dd_sources db') raw = map_option (reblocked lib lower exclusions raw) (map_of (dd_sources db) raw)"
proof -
  let ?auto = "\<lambda>(_, r). ss_automatically_discovered r \<and> \<not> ss_seeded r"
  let ?es = "sort_key fst (filter ?auto (dd_sources db))"
  have "mset (map fst ?es) = mset (map fst (filter ?auto (dd_sources db)))" by simp
  then have dist: "distinct (map fst ?es)"
    using mset_eq_imp_distinct_iff distinct_map_filter [OF keys, of ?auto] by blast
  have mem: "(raw, r) \<in> set ?es \<longleftrightarrow> map_of (dd_sources db) raw = Some r \<and> automaticSource r" for raw r
    using keys by (auto simp: automaticSource_def)
  have "fold (recomputeBlock lib lower exclusions) ?es (0, db) = (n, db')"
    using out by (simp add: recomputeAutomaticCrawlBlocks_def exclusions_def)
  with recompute_fold [OF dist, where db = db and lib = lib and lower = lower and exclusions = exclusions and n = 0] mem
  have f: "n = int (length (filter (\<lambda>(raw, r). dueBlock lib lower exclusions raw r \<noteq> ss_crawl_blocked r) ?es))"
      "db'\<lparr>dd_sources := dd_sources db\<rparr> = db"
      "map_of (dd_sources db') = (\<lambda>raw. case map_of ?es raw of
          None \<Rightarrow> map_of (dd_sources db) raw | Some r \<Rightarrow> Some (reblocked lib lower exclusions raw r))"
    by auto
  have "length (filter P ?es) = length (filter (\<lambda>x. ?auto x \<and> P x) (dd_sources db))" for P
    by (simp add: filter_sort)
  then show "n = int (length (filter (\<lambda>(raw, r). automaticSource r \<and>
      dueBlock lib lower exclusions raw r \<noteq> ss_crawl_blocked r) (dd_sources db)))"
    by (simp add: f(1) automaticSource_def case_prod_beta' conj_assoc)
  show "db'\<lparr>dd_sources := dd_sources db\<rparr> = db" by (rule f(2))
  show "map_of (dd_sources db') raw = map_option (reblocked lib lower exclusions raw) (map_of (dd_sources db) raw)"
  proof (cases "map_of ?es raw")
    case None
    then have "(raw, r) \<notin> set ?es" for r using weak_map_of_SomeI [of raw r ?es] by auto
    then have "map_of (dd_sources db) raw = Some r \<Longrightarrow> \<not> automaticSource r" for r using mem by blast
    with None show ?thesis by (cases "map_of (dd_sources db) raw") (auto simp: f(3) reblocked_def)
  next
    case (Some r)
    then have "map_of (dd_sources db) raw = Some r" using mem map_of_SomeD [OF Some] by blast
    with Some show ?thesis by (simp add: f(3))
  qed
qed


lemma reblocked_facts [simp]:
  "dueBlock lib lower e raw (reblocked lib' lower' e' raw' r) = dueBlock lib lower e raw r"
  "automaticSource (reblocked lib' lower' e' raw' r) = automaticSource r"
  "ss_operator_blocked (reblocked lib' lower' e' raw' r) = ss_operator_blocked r"
  "ss_crawl_blocked (reblocked lib' lower' e' raw' r) =
     (if automaticSource r then dueBlock lib' lower' e' raw' r else ss_crawl_blocked r)"
  by (simp_all add: reblocked_def dueBlock_def automaticSource_def split: sum.splits)

lemma recompute_exclusions:
  assumes "distinct (map fst (dd_sources db))" and "recomputeAutomaticCrawlBlocks lib lower config db = (n, db')"
  shows "automaticExclusions db' config = automaticExclusions db config"
proof -
  have "dd_avoid (db'\<lparr>dd_sources := dd_sources db\<rparr>) = dd_avoid db"
    unfolding recompute_effect(2) [OF assms] ..
  then show ?thesis by (simp add: automaticExclusions_def)
qed

lemma recompute_keys:
  assumes "distinct (map fst (dd_sources db))"
  shows "distinct (map fst (dd_sources (snd (recomputeAutomaticCrawlBlocks lib lower config db))))"
  unfolding recomputeAutomaticCrawlBlocks_def
  by (rule fold_invariant [where P = "\<lambda>acc. distinct (map fst (dd_sources (snd acc)))" and Q = "\<lambda>_. True"])
    (auto simp: assms recomputeBlock_def Let_def updateSource_keys split: sum.splits prod.splits)

text \<open>What the policy asks of every source: the operator's block is effective, and so is that of an automatic one.\<close>

definition blocksHold :: "host_lib \<Rightarrow> (string \<Rightarrow> string) \<Rightarrow> automatic_config \<Rightarrow> discovery_db \<Rightarrow> bool" where
  "blocksHold lib lower config db \<longleftrightarrow>
     (\<forall>raw r. map_of (dd_sources db) raw = Some r \<longrightarrow>
        (ss_operator_blocked r \<longrightarrow> ss_crawl_blocked r) \<and>
        (automaticSource r \<longrightarrow> ss_crawl_blocked r = dueBlock lib lower (automaticExclusions db config) raw r))"

lemma blocksHold_update:
  assumes "blocksHold lib lower config db"
    and "ss_operator_blocked r \<Longrightarrow> ss_crawl_blocked r"
    and "automaticSource r \<Longrightarrow> ss_crawl_blocked r = dueBlock lib lower (automaticExclusions db config) raw r"
  shows "blocksHold lib lower config (updateSource raw r db)"
  using assms by (auto simp: blocksHold_def automaticExclusions_def)

lemma blocksHold_recompute:
  assumes "distinct (map fst (dd_sources db))" and "recomputeAutomaticCrawlBlocks lib lower config db = (n, db')"
    and "\<And>raw r. map_of (dd_sources db) raw = Some r \<Longrightarrow> ss_operator_blocked r \<Longrightarrow> ss_crawl_blocked r"
  shows "blocksHold lib lower config db'"
proof -
  have "automaticExclusions db' config = automaticExclusions db config"
    using recompute_exclusions [OF assms(1,2)] .
  moreover have "ss_operator_blocked r \<Longrightarrow> dueBlock lib lower e raw r" for e raw r
    by (simp add: dueBlock_def split: sum.splits)
  ultimately show ?thesis
    unfolding blocksHold_def recompute_effect(3) [OF assms(1,2)]
    using assms(3) by auto
qed

lemma setExactCrawlBlock_holds:
  assumes "blocksHold lib lower config db" and "Origin.Parse lib (origin_String source) = Inr source"
  shows "blocksHold lib lower config (setExactCrawlBlock lower config source blocked db)"
  unfolding setExactCrawlBlock_def Let_def
  by (rule blocksHold_update [OF assms(1)])
    (auto simp: automaticSource_def dueBlock_def assms(2) split: if_splits)

section \<open>Properties\<close>

text \<open>
  The two implementations of the avoid list agree: for every parsed origin with a canonical host, the test in
  the admission statements (regular expression, trimming and \<^verbatim>\<open>LIKE\<close> with the escaped pattern) excludes exactly the
  origins that \<^verbatim>\<open>excludes\<close> excludes, whatever characters the patterns contain.
\<close>
theorem exclusion_tests_agree:
  assumes "address_text lib" and "lower_law lower"
    and "Origin.Parse lib raw = Inr o1" and "canonicalHost (origin_Hostname o1)"
  shows "sqlExcluded (automaticExclusionPatterns (automaticExclusions db config)) (origin_String o1) \<longleftrightarrow>
    excludes lower (automaticExclusions db config) (origin_Hostname o1)"
proof -
  have "TrimSuffix (origin_Hostname o1) ''.'' = origin_Hostname o1"
    using assms(4) by (simp add: canonicalHost_def TrimSuffix_def)
  moreover have "lower (origin_Hostname o1) = map to_lower (origin_Hostname o1)"
    using assms(2,4) by (simp add: lower_law_def canonicalHost_def list_all_iff)
  ultimately show ?thesis
    using excludes_patterns sqlHostname_parsed [OF assms(1,3,4)] by simp
qed

text \<open>
  C39. Reconciling the policy makes every automatic source's block the one its operator block, the avoid rules and
  the configured exclusions call for (a stored origin that does not parse is blocked), touches no seed, no
  other column and no other table (queued probes stay), reports how many blocks it changed, and a second run
  changes nothing.
\<close>
theorem recompute_applies_policy:
  assumes "distinct (map fst (dd_sources db))" and "recomputeAutomaticCrawlBlocks lib lower config db = (n, db')"
  shows "map_of (dd_sources db') raw =
      map_option (\<lambda>r. if ss_automatically_discovered r \<and> \<not> ss_seeded r
                       then r\<lparr>ss_crawl_blocked := dueBlock lib lower (automaticExclusions db config) raw r\<rparr> else r)
        (map_of (dd_sources db) raw) \<and>
    db'\<lparr>dd_sources := dd_sources db\<rparr> = db \<and>
    n = int (length (filter (\<lambda>(raw, r). automaticSource r \<and>
               dueBlock lib lower (automaticExclusions db config) raw r \<noteq> ss_crawl_blocked r) (dd_sources db))) \<and>
    fst (recomputeAutomaticCrawlBlocks lib lower config db') = 0"
proof -
  note effect = recompute_effect [OF assms]
  have same: "automaticExclusions db' config = automaticExclusions db config"
    using recompute_exclusions [OF assms] .
  obtain m db'' where again: "recomputeAutomaticCrawlBlocks lib lower config db' = (m, db'')" by fastforce
  have keys: "distinct (map fst (dd_sources db'))"
    using recompute_keys [OF assms(1), of lib lower config] assms(2) by simp
  have "\<not> (automaticSource r \<and> dueBlock lib lower (automaticExclusions db config) raw r \<noteq> ss_crawl_blocked r)"
    if "(raw, r) \<in> set (dd_sources db')" for raw r
  proof -
    have "map_of (dd_sources db') raw = Some r" using keys that by simp
    then show ?thesis by (auto simp: effect(3))
  qed
  then have "m = 0" unfolding recompute_effect(1) [OF keys again] same by (auto simp: filter_empty_conv)
  then show ?thesis
    using effect again by (simp add: reblocked_def [abs_def] automaticSource_def [abs_def])
qed

text \<open>An automatic source on the avoid list.\<close>

definition exampleSources :: discovery_db where
  "exampleSources =
     \<lparr>dd_store = emptyStore, dd_queue = [], dd_schedule = [origin_String exampleSource],
      dd_sources = [(origin_String exampleSource, source_state_default\<lparr>ss_automatically_discovered := True\<rparr>)],
      dd_candidates = [], dd_edges = [], dd_runs = [], dd_run_candidates = [], dd_batches = [], dd_admissions = [],
      dd_avoid = [''example.com''],
      dd_control = \<lparr>cn_discovery_paused = False, cn_verification_paused = False, cn_automatic_expansion_paused = False\<rparr>,
      dd_audit = []\<rparr>"

lemma example_TrimSpace: "TrimSpace ''example.com'' = ''example.com''" "TrimSpace [] = []"
  by code_simp+

lemma exampleSources_excluded:
  "excludes (map to_lower) (automaticExclusions exampleSources automatic_config_zero) (origin_Hostname exampleSource)"
  by (simp add: excludes_def automaticExclusions_def exampleSources_def automatic_config_zero_def example_TrimSpace
      suffixExcludes_def exampleSource_def origin_Hostname_def TrimSuffix_def HasSuffix_def to_lower_def is_upper_def
      byte_of_def)

theorem exclusion_tests_agree_witness:
  "sqlExcluded (automaticExclusionPatterns (automaticExclusions exampleSources automatic_config_zero))
     (origin_String exampleSource)"
proof -
  have "lower_law (map to_lower)" by (simp add: lower_law_def)
  moreover have "canonicalHost (origin_Hostname exampleSource)"
    by (simp add: canonicalHost_def exampleSource_def origin_Hostname_def byte_of_def HasSuffix_def)
  ultimately show ?thesis
    using exclusion_tests_agree [OF domainLib_laws(1) _ exampleSource_parse] exampleSources_excluded by blast
qed

lemma exampleSources_due:
  "dueBlock domainLib (map to_lower) (automaticExclusions exampleSources automatic_config_zero)
     (origin_String exampleSource) r"
  using exampleSource_parse exampleSources_excluded by (simp add: dueBlock_def)

lemma exampleSources_recompute:
  "fst (recomputeAutomaticCrawlBlocks domainLib (map to_lower) automatic_config_zero exampleSources) = 1"
proof -
  have keys: "distinct (map fst (dd_sources exampleSources))" by (simp add: exampleSources_def)
  have rows: "dd_sources exampleSources =
      [(origin_String exampleSource, source_state_default\<lparr>ss_automatically_discovered := True\<rparr>)]"
    by (simp add: exampleSources_def)
  show ?thesis
    unfolding recompute_effect(1) [OF keys prod.collapse [symmetric]] rows
    by (simp add: exampleSources_due automaticSource_def source_state_default_def)
qed

lemma exampleSources_not_held: "\<not> blocksHold domainLib (map to_lower) automatic_config_zero exampleSources"
  using exampleSources_due
  by (simp add: blocksHold_def) (simp add: exampleSources_def automaticSource_def source_state_default_def)

theorem recompute_applies_policy_witness:
  "fst (recomputeAutomaticCrawlBlocks domainLib (map to_lower) automatic_config_zero exampleSources) = 1 \<and>
   map_option ss_crawl_blocked (map_of (dd_sources
     (snd (recomputeAutomaticCrawlBlocks domainLib (map to_lower) automatic_config_zero exampleSources)))
       (origin_String exampleSource)) = Some True"
proof -
  have keys: "distinct (map fst (dd_sources exampleSources))"
    and row: "map_of (dd_sources exampleSources) (origin_String exampleSource) =
      Some (source_state_default\<lparr>ss_automatically_discovered := True\<rparr>)"
    by (simp_all add: exampleSources_def)
  show ?thesis
    using recompute_applies_policy [OF keys prod.collapse [symmetric], where raw = "origin_String exampleSource"]
      exampleSources_recompute exampleSources_due
    by (simp add: row source_state_default_def)
qed

text \<open>
  C40. Removing a seed does not apply the avoid list: an automatic source that was seeded when its domain went on
  the avoid list is unblocked and still scheduled after its seed is removed, although it is now an automatic
  source on an avoided domain. Only the next reconciliation blocks it.
\<close>
theorem RemoveCrawlSeed_keeps_excluded_source:
  "\<exists>db. blocksHold domainLib (map to_lower) automatic_config_zero db \<and>
     (case RemoveCrawlSeed (Some \<lparr>dh_pool = True, dh_clock = True, dh_automatic = automatic_config_zero\<rparr>) (Some None) None
             exampleSource db of
        (err, db') \<Rightarrow> err = None \<and> \<not> blocksHold domainLib (map to_lower) automatic_config_zero db' \<and>
          origin_String exampleSource \<in> set (dd_schedule db') \<and>
          fst (recomputeAutomaticCrawlBlocks domainLib (map to_lower) automatic_config_zero db') = 1)"
proof -
  let ?o = "origin_String exampleSource" and ?row = "source_state_default\<lparr>ss_automatically_discovered := True\<rparr>"
  let ?h = "\<lparr>dh_pool = True, dh_clock = True, dh_automatic = automatic_config_zero\<rparr>"
  let ?db = "exampleSources\<lparr>dd_sources := [(?o, ?row\<lparr>ss_seeded := True\<rparr>)]\<rparr>"
  have o1: "?o \<noteq> []" by (simp add: exampleSource_def origin_String_def)
  have "map_of (dd_sources ?db) ?o = Some (?row\<lparr>ss_seeded := True\<rparr>)" "staysScheduled ?db ?o True"
    by (simp_all add: staysScheduled_def effectiveRow_def exampleSources_def emptyStore_def latestObservation_def)
  then have "removeSeed ?o ?db = exampleSources"
    by (simp add: removeSeed_def updateSource_def exampleSources_def source_state_default_def)
  then have removed: "RemoveCrawlSeed (Some ?h) (Some None) None exampleSource ?db = (None, exampleSources)"
    using o1 by (simp add: RemoveCrawlSeed_def discovery_validate_def)
  have before: "blocksHold domainLib (map to_lower) automatic_config_zero ?db"
    by (auto simp: blocksHold_def automaticSource_def source_state_default_def)
  have changed: "fst (recomputeAutomaticCrawlBlocks domainLib (map to_lower) automatic_config_zero exampleSources) = 1"
    and after: "\<not> blocksHold domainLib (map to_lower) automatic_config_zero exampleSources"
    using exampleSources_recompute exampleSources_not_held by blast+
  have "?o \<in> set (dd_schedule exampleSources)" by (simp add: exampleSources_def)
  with removed before changed after show ?thesis by (intro exI [of _ ?db]) simp
qed

end
