(* ===== verification/Discovery_Lease.thy ===== *)
theory Discovery_Lease
  imports Discovery_Store
begin

text \<open>
  The leases of crawl sources: \<^verbatim>\<open>internal/store/discovery_lease.go\<close>, \<^verbatim>\<open>discovery_lease_completion.go\<close> and the
  lease value of \<^verbatim>\<open>internal/discovery/source_lease.go\<close>. Each method is one transaction, so one step on the
  tables; \<open>clock\<close> and \<open>dbErr\<close> are what the database's clock and the database answer, \<open>locked\<close> the schedule
  rows other transactions hold. The rows of the source state are never deleted, so the generation of a source
  fences its leases for good.
\<close>

definition ErrDiscoverySourceLeaseLost where
  "ErrDiscoverySourceLeaseLost = Sentinel ''store: discovery source lease lost''"
definition errInvalidDiscoveryLeaseDuration where
  "errInvalidDiscoveryLeaseDuration = Sentinel ''store: discovery lease duration is invalid''"
definition errInvalidDiscoveryLeaseOwner where
  "errInvalidDiscoveryLeaseOwner = Sentinel ''store: discovery lease owner is invalid''"
definition errInvalidDiscoverySourceLease where
  "errInvalidDiscoverySourceLease = Sentinel ''store: discovery source lease is invalid''"

record source_lease =
  sl_Origin :: origin
  sl_Generation :: int
  sl_ClaimedAt :: go_time
  sl_ExpiresAt :: go_time

definition validDiscoverySourceLease :: "source_lease \<Rightarrow> bool" where
  "validDiscoverySourceLease l \<longleftrightarrow>
     origin_String (sl_Origin l) \<noteq> [] \<and> sl_Generation l > 0 \<and> sl_ClaimedAt l \<noteq> 0 \<and> sl_ExpiresAt l \<noteq> 0 \<and>
     sl_ExpiresAt l > sl_ClaimedAt l"

section \<open>Claiming\<close>

text \<open>\<^verbatim>\<open>activeProbeCapacityWhere\<close>, and the count of the pending probes cut off at the limit.\<close>

definition activeProbe :: "go_time \<Rightarrow> queue_row \<Rightarrow> bool" where
  "activeProbe now row \<longleftrightarrow>
     q_mode row = Probe \<and>
     (q_available_at row \<le> now \<or> (case q_lease_expires_at row of None \<Rightarrow> False | Some t \<Rightarrow> t > now))"

definition pendingProbes :: "go_time \<Rightarrow> discovery_db \<Rightarrow> int" where
  "pendingProbes now db = int (length (filter (\<lambda>(_, row). activeProbe now row) (dd_queue db)))"

definition sourceDue :: "duration \<Rightarrow> go_time \<Rightarrow> source_state \<Rightarrow> bool" where
  "sourceDue interval now r \<longleftrightarrow>
     (case ss_next_attempt_at r of
        Some t \<Rightarrow> t \<le> now
      | None \<Rightarrow> (case ss_last_attempted_at r of None \<Rightarrow> True | Some t \<Rightarrow> t \<le> now - interval))"

definition leaseFree :: "go_time \<Rightarrow> source_state \<Rightarrow> bool" where
  "leaseFree now r \<longleftrightarrow> (case ss_lease_expires_at r of None \<Rightarrow> True | Some t \<Rightarrow> t \<le> now)"

definition currentlyVerified :: "discovery_db \<Rightarrow> string \<Rightarrow> bool" where
  "currentlyVerified db o1 \<longleftrightarrow>
     (case effectiveRow (dd_store db) o1 of None \<Rightarrow> False | Some r \<Rightarrow> ob_outcome r = ''valid'')"

definition sourceClaimable ::
    "automatic_config \<Rightarrow> duration \<Rightarrow> go_time \<Rightarrow> (string \<Rightarrow> bool) \<Rightarrow> discovery_db \<Rightarrow> string \<Rightarrow> bool" where
  "sourceClaimable config interval now locked db o1 \<longleftrightarrow>
     (let r = sourceOf db o1;
          automatic = (ac_Enabled config \<and> \<not> cn_automatic_expansion_paused (dd_control db));
          limit = maxPendingProbes config
      in \<not> ss_crawl_blocked r \<and> sourceDue interval now r \<and> leaseFree now r \<and>
         (ss_seeded r \<or> currentlyVerified db o1 \<or> automatic \<and> min (pendingProbes now db) limit < limit) \<and>
         \<not> locked o1)"

text \<open>\<^verbatim>\<open>ORDER BY last_attempted_at ASC NULLS FIRST, source_origin ASC\<close>.\<close>

definition sourceKey :: "discovery_db \<Rightarrow> string \<Rightarrow> nat \<times> go_time \<times> string" where
  "sourceKey db o1 =
     (case ss_last_attempted_at (sourceOf db o1) of None \<Rightarrow> (0, 0, o1) | Some t \<Rightarrow> (1, t, o1))"

definition sourceCandidate ::
    "automatic_config \<Rightarrow> duration \<Rightarrow> go_time \<Rightarrow> (string \<Rightarrow> bool) \<Rightarrow> discovery_db \<Rightarrow> string option" where
  "sourceCandidate config interval now locked db =
     (case sort_key (sourceKey db) (filter (sourceClaimable config interval now locked db) (dd_schedule db)) of
        [] \<Rightarrow> None | o1 # _ \<Rightarrow> Some o1)"

definition claimedSource :: "string \<Rightarrow> go_time \<Rightarrow> go_time \<Rightarrow> source_state \<Rightarrow> source_state" where
  "claimedSource owner now expiresAt r =
     r\<lparr>ss_lease_generation := ss_lease_generation r + 1, ss_lease_owner := Some owner,
       ss_last_claimed_at := Some now, ss_lease_expires_at := Some expiresAt\<rparr>"

text \<open>Runs that are still running are finished as canceled.\<close>

definition cancelRun :: "go_time \<Rightarrow> string \<Rightarrow> run_row \<Rightarrow> run_row" where
  "cancelRun now reason run =
     run\<lparr>rn_finished_at := Some now, rn_outcome := ''canceled'', rn_stop_reason := reason\<rparr>"

definition cancelRuns :: "(run_row \<Rightarrow> bool) \<Rightarrow> go_time \<Rightarrow> string \<Rightarrow> discovery_db \<Rightarrow> discovery_db" where
  "cancelRuns which now reason db =
     db\<lparr>dd_runs := map (\<lambda>(n, run). (n, if rn_outcome run = ''running'' \<and> rn_finished_at run = None \<and> which run
                                       then cancelRun now reason run else run)) (dd_runs db)\<rparr>"

definition leased :: "go_time \<Rightarrow> discovery_db \<Rightarrow> string \<Rightarrow> bool" where
  "leased now db o1 \<longleftrightarrow>
     (case map_of (dd_sources db) o1 of None \<Rightarrow> False | Some r \<Rightarrow> \<not> leaseFree now r)"

definition claimSource :: "string \<Rightarrow> go_time \<Rightarrow> go_time \<Rightarrow> string \<Rightarrow> discovery_db \<Rightarrow> discovery_db" where
  "claimSource owner now expiresAt o1 db =
     (let db1 = updateSource o1 (claimedSource owner now expiresAt (sourceOf db o1)) db;
          db2 = cancelRuns (\<lambda>run. rn_source_origin run = o1) now ''lease_reclaimed'' db1
      in cancelRuns (\<lambda>run. \<not> leased now db2 (rn_source_origin run)) now ''abandoned'' db2)"

definition claimSourceError :: "go_error \<Rightarrow> go_error" where
  "claimSourceError err = Wrap ''store: claim discovery source lease'' [err]"

definition ClaimDiscoverySourceLease ::
    "host_lib \<Rightarrow> discovery_handle option \<Rightarrow> ctx_value \<Rightarrow> go_error + go_time \<Rightarrow> go_error option \<Rightarrow> (string \<Rightarrow> bool) \<Rightarrow>
     string \<Rightarrow> duration \<Rightarrow> duration \<Rightarrow> discovery_db \<Rightarrow> (go_error + source_lease option) \<times> discovery_db" where
  "ClaimDiscoverySourceLease lib s ctx clock dbErr locked leaseOwner interval leaseDuration db =
     (case discovery_validate s ctx of
        Some err \<Rightarrow> (Inl err, db)
      | None \<Rightarrow>
          if \<not> validQueueWorkerID leaseOwner then (Inl errInvalidDiscoveryLeaseOwner, db)
          else if interval \<le> 0 then (Inl errInvalidDiscoveryInterval, db)
          else if leaseDuration \<le> 0 then (Inl errInvalidDiscoveryLeaseDuration, db)
          else (case clock of
                  Inl err \<Rightarrow> (Inl (claimSourceError (Wrap ''store: read discovery clock'' [err])), db)
                | Inr now \<Rightarrow>
                    (case dbErr of
                       Some err \<Rightarrow> (Inl (claimSourceError err), db)
                     | None \<Rightarrow>
                         if cn_discovery_paused (dd_control db) then (Inr None, db)
                         else (case sourceCandidate (dh_automatic (the s)) interval now locked db of
                                 None \<Rightarrow> (Inr None, db)
                               | Some storedOrigin \<Rightarrow>
                                   (case Origin.Parse lib storedOrigin of
                                      Inl err \<Rightarrow>
                                        (Inl (claimSourceError (Wrap ''store: invalid discovery source'' [err])), db)
                                    | Inr source \<Rightarrow>
                                        (Inr (Some \<lparr>sl_Origin = source,
                                                    sl_Generation = ss_lease_generation (sourceOf db storedOrigin) + 1,
                                                    sl_ClaimedAt = now, sl_ExpiresAt = now + leaseDuration\<rparr>),
                                         claimSource leaseOwner now (now + leaseDuration) storedOrigin db))))))"

section \<open>Renewing and completing\<close>

definition heldSource :: "source_lease \<Rightarrow> go_time \<Rightarrow> discovery_db \<Rightarrow> source_state option" where
  "heldSource l now db =
     (case map_of (dd_sources db) (origin_String (sl_Origin l)) of
        None \<Rightarrow> None
      | Some r \<Rightarrow>
          if ss_lease_generation r = sl_Generation l \<and>
             (case ss_lease_expires_at r of None \<Rightarrow> False | Some t \<Rightarrow> t > now)
          then Some r else None)"

definition RenewDiscoverySourceLease ::
    "discovery_handle option \<Rightarrow> ctx_value \<Rightarrow> go_error + go_time \<Rightarrow> go_error option \<Rightarrow> source_lease \<Rightarrow> duration \<Rightarrow>
     discovery_db \<Rightarrow> (go_error + source_lease) \<times> discovery_db" where
  "RenewDiscoverySourceLease s ctx clock dbErr l leaseDuration db =
     (let failed = (\<lambda>err. Inl (Wrap ''store: renew discovery source lease'' [err])) in
      case discovery_validate s ctx of
        Some err \<Rightarrow> (Inl err, db)
      | None \<Rightarrow>
          if \<not> validDiscoverySourceLease l then (Inl errInvalidDiscoverySourceLease, db)
          else if leaseDuration \<le> 0 then (Inl errInvalidDiscoveryLeaseDuration, db)
          else (case clock of
                  Inl err \<Rightarrow> (failed (Wrap ''store: read discovery clock'' [err]), db)
                | Inr now \<Rightarrow>
                    (case dbErr of
                       Some err \<Rightarrow> (failed (Wrap ''store: update discovery source lease'' [err]), db)
                     | None \<Rightarrow>
                         (case heldSource l now db of
                            None \<Rightarrow> (failed ErrDiscoverySourceLeaseLost, db)
                          | Some r \<Rightarrow>
                              (let expiresAt = max (the (ss_lease_expires_at r)) (now + leaseDuration)
                               in case ss_last_claimed_at r of
                                    None \<Rightarrow> (failed (Wrap ''store: update discovery source lease'' [scanNull]), db)
                                  | Some claimedAt \<Rightarrow>
                                      (Inr \<lparr>sl_Origin = sl_Origin l, sl_Generation = ss_lease_generation r,
                                            sl_ClaimedAt = claimedAt, sl_ExpiresAt = expiresAt\<rparr>,
                                       updateSource (origin_String (sl_Origin l))
                                         (r\<lparr>ss_lease_expires_at := Some expiresAt\<rparr>) db))))))"

definition completedSource ::
    "(int \<Rightarrow> duration \<Rightarrow> duration) \<Rightarrow> category \<Rightarrow> duration \<Rightarrow> go_time \<Rightarrow> source_state \<Rightarrow> source_state" where
  "completedSource retryDelay cat retryAfter completedAt r =
     (let transient = Transient cat;
          nextFailures = (if transient then ss_consecutive_failures r + 1 else 0)
      in r\<lparr>ss_last_attempted_at := Some completedAt, ss_consecutive_failures := nextFailures,
           ss_last_failure_category := (if transient then Some cat else None),
           ss_next_attempt_at := (if transient then Some (completedAt + retryDelay nextFailures retryAfter) else None),
           ss_lease_owner := None, ss_lease_expires_at := None\<rparr>)"

definition CompleteDiscoverySourceLeaseRetry ::
    "(int \<Rightarrow> duration \<Rightarrow> duration) \<Rightarrow> discovery_handle option \<Rightarrow> ctx_value \<Rightarrow> go_error + go_time \<Rightarrow> go_error option \<Rightarrow>
     source_lease \<Rightarrow> category \<Rightarrow> duration \<Rightarrow> discovery_db \<Rightarrow> go_error option \<times> discovery_db" where
  "CompleteDiscoverySourceLeaseRetry retryDelay s ctx clock dbErr l cat retryAfter db =
     (let failed = (\<lambda>err. Some (Wrap ''store: complete discovery source lease'' [err])) in
      case discovery_validate s ctx of
        Some err \<Rightarrow> (Some err, db)
      | None \<Rightarrow>
          if \<not> validDiscoverySourceLease l then (Some errInvalidDiscoverySourceLease, db)
          else if \<not> category_Valid cat \<or> retryAfter < 0 \<or> retryAfter > MaxDelay then (Some errInvalidDiscoveryCandidate, db)
          else (case clock of
                  Inl err \<Rightarrow> (failed (Wrap ''store: read discovery clock'' [err]), db)
                | Inr completedAt \<Rightarrow>
                    (case dbErr of
                       Some err \<Rightarrow> (failed err, db)
                     | None \<Rightarrow>
                         (case heldSource l completedAt db of
                            None \<Rightarrow> (failed ErrDiscoverySourceLeaseLost, db)
                          | Some r \<Rightarrow>
                              (let o1 = origin_String (sl_Origin l)
                               in (None, cancelRuns (\<lambda>run. rn_source_origin run = o1) completedAt ''abandoned''
                                    (updateSource o1 (completedSource retryDelay cat retryAfter completedAt r) db)))))))"


section \<open>A generation counter fences leases\<close>

text \<open>
  What a store of leases promises: a claim of a key raises the key's generation by one, nothing else changes a
  generation. A lease is a key with the generation its claim gave; it has authority only while that is the
  current one.
\<close>

locale generation_fence =
  fixes gen :: "'s \<Rightarrow> 'k \<Rightarrow> int"
    and claims :: "'s \<Rightarrow> 'k \<Rightarrow> 's \<Rightarrow> bool"
    and others :: "'s \<Rightarrow> 's \<Rightarrow> bool"
  assumes claim_next: "claims s k s' \<Longrightarrow> gen s' k = gen s k + 1"
    and claim_only: "claims s k s' \<Longrightarrow> k' \<noteq> k \<Longrightarrow> gen s' k' = gen s k'"
    and others_keep: "others s s' \<Longrightarrow> gen s' k = gen s k"
begin

definition fenced :: "('k \<times> int) list \<Rightarrow> 's \<Rightarrow> bool" where
  "fenced issued s \<longleftrightarrow>
     list_all (\<lambda>(k, g). g \<le> gen s k) issued \<and> sorted_wrt (\<lambda>(k, g) (k', g'). k = k' \<longrightarrow> g < g') issued"

lemma fenced_start: "fenced [] s"
  by (simp add: fenced_def)

lemma fenced_others: "fenced issued s \<Longrightarrow> others s s' \<Longrightarrow> fenced issued s'"
  by (simp add: fenced_def others_keep)

lemma fenced_claim:
  assumes "fenced issued s" and "claims s k s'"
  shows "fenced (issued @ [(k, gen s' k)]) s'"
proof -
  have bound: "g \<le> gen s k'" if "(k', g) \<in> set issued" for k' g
    using assms(1) that by (auto simp: fenced_def list_all_iff)
  have "g \<le> gen s' k'" if "(k', g) \<in> set issued" for k' g
    using bound [OF that] claim_next [OF assms(2)] claim_only [OF assms(2)] by (cases "k' = k") auto
  moreover have "g < gen s' k" if "(k, g) \<in> set issued" for g
    using bound [OF that] claim_next [OF assms(2)] by simp
  ultimately show ?thesis
    using assms(1) by (auto simp: fenced_def list_all_iff sorted_wrt_append)
qed

lemma superseded:
  assumes "fenced issued s" and "i < j" and "j < length issued" and "fst (issued ! i) = fst (issued ! j)"
  shows "snd (issued ! i) < snd (issued ! j) \<and> snd (issued ! i) \<noteq> gen s (fst (issued ! i))"
proof -
  have "snd (issued ! i) < snd (issued ! j)"
    using sorted_wrt_nth_less [of _ issued i j] assms by (fastforce simp: fenced_def case_prod_beta)
  moreover have "snd (issued ! j) \<le> gen s (fst (issued ! j))"
    using assms(1,3) by (force simp: fenced_def list_all_length case_prod_beta)
  ultimately show ?thesis using assms(4) by simp
qed

end

section \<open>The steps of the operations\<close>

text \<open>The columns of a lease; the operations that are not about leases leave them as they are.\<close>

definition sameLeases :: "discovery_db \<Rightarrow> discovery_db \<Rightarrow> bool" where
  "sameLeases db db' \<longleftrightarrow>
     (\<forall>o1. ss_lease_generation (sourceOf db' o1) = ss_lease_generation (sourceOf db o1) \<and>
           ss_last_claimed_at (sourceOf db' o1) = ss_last_claimed_at (sourceOf db o1) \<and>
           ss_lease_expires_at (sourceOf db' o1) = ss_lease_expires_at (sourceOf db o1))"

lemma sourceOf_updateSource: "sourceOf (updateSource o1 r db) o2 = (if o2 = o1 then r else sourceOf db o2)"
  by (simp add: sourceOf_def)

lemma sourceOf_cancelRuns [simp]: "sourceOf (cancelRuns which now reason db) = sourceOf db"
  by (auto simp: sourceOf_def cancelRuns_def)

lemma sourceOf_insertSchedule [simp]: "sourceOf (insertSchedule o1 db) = sourceOf db"
  by (auto simp: sourceOf_def insertSchedule_def)

lemma sameLeases_refl [simp]: "sameLeases db db"
  by (simp add: sameLeases_def)

lemma sameLeases_update:
  "ss_lease_generation r = ss_lease_generation (sourceOf db o1) \<Longrightarrow>
   ss_last_claimed_at r = ss_last_claimed_at (sourceOf db o1) \<Longrightarrow>
   ss_lease_expires_at r = ss_lease_expires_at (sourceOf db o1) \<Longrightarrow> sameLeases db (updateSource o1 r db)"
  by (simp add: sameLeases_def sourceOf_updateSource)

lemma sameLeases_sources: "dd_sources db' = dd_sources db \<Longrightarrow> sameLeases db db'"
  by (simp add: sameLeases_def sourceOf_def)

lemma sameLeases_trans: "sameLeases db db' \<Longrightarrow> sameLeases db' db'' \<Longrightarrow> sameLeases db db''"
  by (simp add: sameLeases_def)

lemma AddCrawlSeed_leases: "sameLeases db (snd (AddCrawlSeed s ctx dbErr source db))"
  by (auto simp: AddCrawlSeed_def Let_def sameLeases_def sourceOf_updateSource split: option.splits)

lemma removeSeed_leases: "sameLeases db (removeSeed o1 db)"
proof (cases "map_of (dd_sources db) o1")
  case (Some r)
  then have "sameLeases db (updateSource o1 (r\<lparr>ss_seeded := False\<rparr>) db)"
    by (intro sameLeases_update) (simp_all add: sourceOf_def)
  moreover have "sameLeases db1 (db1\<lparr>dd_schedule := xs\<rparr>)" for db1 xs by (intro sameLeases_sources) simp
  ultimately show ?thesis using Some by (auto simp: removeSeed_def Let_def intro: sameLeases_trans)
qed (simp add: removeSeed_def)

lemma setExactCrawlBlock_leases: "sameLeases db (setExactCrawlBlock lower config source blocked db)"
  unfolding setExactCrawlBlock_def Let_def by (rule sameLeases_update) simp_all

lemma recompute_leases: "sameLeases db (snd (recomputeAutomaticCrawlBlocks lib lower config db))"
proof -
  have "sameLeases db1 (updateSource raw ((sourceOf db1 raw)\<lparr>ss_crawl_blocked := b\<rparr>) db1)" for db1 raw b
    by (rule sameLeases_update) simp_all
  then show ?thesis
    unfolding recomputeAutomaticCrawlBlocks_def
    by (intro fold_invariant [where P = "\<lambda>acc. sameLeases db (snd acc)" and Q = "\<lambda>_. True"])
      (auto simp: recomputeBlock_def Let_def intro: sameLeases_trans split: sum.splits prod.splits)
qed

lemma claimSource_source:
  "sourceOf (claimSource owner now expiresAt o1 db) o2 =
     (if o2 = o1 then claimedSource owner now expiresAt (sourceOf db o1) else sourceOf db o2)"
  by (simp add: claimSource_def Let_def sourceOf_updateSource)

lemma claimSource_rows:
  "map_of (dd_sources (claimSource owner now expiresAt o1 db)) =
     (map_of (dd_sources db))(o1 \<mapsto> claimedSource owner now expiresAt (sourceOf db o1))"
  by (simp add: claimSource_def cancelRuns_def Let_def)

lemma cancelRuns_sources [simp]: "dd_sources (cancelRuns which now reason db) = dd_sources db"
  by (simp add: cancelRuns_def)

lemma ClaimDiscoverySourceLease_success:
  assumes "ClaimDiscoverySourceLease lib s ctx clock dbErr locked owner interval leaseDuration db = (Inr (Some l), db')"
  obtains h now o1 where "s = Some h" "clock = Inr now" "0 < leaseDuration" "\<not> cn_discovery_paused (dd_control db)"
    "sourceCandidate (dh_automatic h) interval now locked db = Some o1"
    "Origin.Parse lib o1 = Inr (sl_Origin l)" "sl_Generation l = ss_lease_generation (sourceOf db o1) + 1"
    "sl_ClaimedAt l = now" "sl_ExpiresAt l = now + leaseDuration"
    "db' = claimSource owner now (now + leaseDuration) o1 db"
  using assms
  by (auto simp: ClaimDiscoverySourceLease_def discovery_validate_def split: option.splits sum.splits if_splits)

lemma heldSource_Some:
  "heldSource l now db = Some r \<longleftrightarrow>
     map_of (dd_sources db) (origin_String (sl_Origin l)) = Some r \<and> ss_lease_generation r = sl_Generation l \<and>
     (\<exists>t. ss_lease_expires_at r = Some t \<and> now < t)"
  by (auto simp: heldSource_def split: option.splits if_splits)

lemma RenewDiscoverySourceLease_cases:
  assumes "RenewDiscoverySourceLease s ctx clock dbErr l leaseDuration db = (res, db')"
  obtains (failed) err where "res = Inl err" "db' = db"
    | (renewed) now r t c where "clock = Inr now" "heldSource l now db = Some r" "ss_lease_expires_at r = Some t"
      "ss_last_claimed_at r = Some c" "0 < leaseDuration"
      "res = Inr \<lparr>sl_Origin = sl_Origin l, sl_Generation = sl_Generation l, sl_ClaimedAt = c,
                  sl_ExpiresAt = max t (now + leaseDuration)\<rparr>"
      "db' = updateSource (origin_String (sl_Origin l)) (r\<lparr>ss_lease_expires_at := Some (max t (now + leaseDuration))\<rparr>) db"
proof (cases "discovery_validate s ctx = None \<and> validDiscoverySourceLease l \<and> 0 < leaseDuration \<and> \<not> isl clock \<and> dbErr = None")
  case True
  then obtain now where now: "clock = Inr now" by (cases clock) auto
  show thesis
  proof (cases "heldSource l now db")
    case None
    with True now assms have "res = Inl (Wrap ''store: renew discovery source lease'' [ErrDiscoverySourceLeaseLost])" "db' = db"
      by (simp_all add: RenewDiscoverySourceLease_def)
    then show thesis by (rule failed)
  next
    case (Some r)
    then obtain t where t: "ss_lease_expires_at r = Some t" "ss_lease_generation r = sl_Generation l"
      by (auto simp: heldSource_Some)
    show thesis
    proof (cases "ss_last_claimed_at r")
      case None
      with Some True now assms have "res = Inl (Wrap ''store: renew discovery source lease''
          [Wrap ''store: update discovery source lease'' [scanNull]])" "db' = db"
        by (simp_all add: RenewDiscoverySourceLease_def)
      then show thesis by (rule failed)
    next
      case (Some c)
      show thesis
        by (rule renewed [OF now \<open>heldSource l now db = Some r\<close> t(1) Some])
          (use True now assms t Some \<open>heldSource l now db = Some r\<close> in \<open>simp_all add: RenewDiscoverySourceLease_def Let_def\<close>)
    qed
  qed
next
  case False
  with assms have "\<exists>e. res = Inl e \<and> db' = db"
    by (auto simp: RenewDiscoverySourceLease_def split: option.splits sum.splits if_splits)
  with failed show thesis by blast
qed

lemma CompleteDiscoverySourceLeaseRetry_cases:
  assumes "CompleteDiscoverySourceLeaseRetry retryDelay s ctx clock dbErr l cat retryAfter db = (err, db')"
  obtains (failed) e where "err = Some e" "db' = db"
    | (completed) now r where "err = None" "clock = Inr now" "heldSource l now db = Some r"
      "category_Valid cat" "0 \<le> retryAfter" "retryAfter \<le> MaxDelay"
      "db' = cancelRuns (\<lambda>run. rn_source_origin run = origin_String (sl_Origin l)) now ''abandoned''
               (updateSource (origin_String (sl_Origin l)) (completedSource retryDelay cat retryAfter now r) db)"
proof (cases "discovery_validate s ctx = None \<and> validDiscoverySourceLease l \<and> category_Valid cat \<and> 0 \<le> retryAfter \<and>
    retryAfter \<le> MaxDelay \<and> \<not> isl clock \<and> dbErr = None")
  case True
  then obtain now where now: "clock = Inr now" by (cases clock) auto
  show thesis
  proof (cases "heldSource l now db")
    case None
    with True now assms have "err = Some (Wrap ''store: complete discovery source lease'' [ErrDiscoverySourceLeaseLost])" "db' = db"
      by (simp_all add: CompleteDiscoverySourceLeaseRetry_def not_less)
    then show thesis by (rule failed)
  next
    case (Some r)
    show thesis
      by (rule completed [OF _ now Some])
        (use True now assms Some in \<open>simp_all add: CompleteDiscoverySourceLeaseRetry_def not_less Let_def\<close>)
  qed
next
  case False
  with assms have "\<exists>e. err = Some e \<and> db' = db"
    by (cases "discovery_validate s ctx")
      (auto simp: CompleteDiscoverySourceLeaseRetry_def dest: sym split: option.splits sum.splits if_splits)
  with failed show thesis by blast
qed


section \<open>Interleaved runners\<close>

text \<open>
  The discovery store as the runners, the operator and the other operations share it; a ghost lists the leases
  issued. The arguments of the operations are arbitrary, forged leases included. The scheduled origins are
  canonical: they parse back to themselves (\<open>Origin.Parse_String_roundtrip\<close>).
\<close>

record discovery_state =
  dl_db :: discovery_db
  dl_now :: go_time
  dl_issued :: "source_lease list"

definition canonicalSchedule :: "host_lib \<Rightarrow> discovery_db \<Rightarrow> bool" where
  "canonicalSchedule lib db \<longleftrightarrow>
     list_all (\<lambda>o1. case Origin.Parse lib o1 of Inl _ \<Rightarrow> False | Inr source \<Rightarrow> origin_String source = o1) (dd_schedule db)"

inductive discovery_step :: "host_lib \<Rightarrow> discovery_handle \<Rightarrow> discovery_state \<Rightarrow> discovery_state \<Rightarrow> bool" for lib h where
  tick: "dl_now st \<le> now \<Longrightarrow> discovery_step lib h st (st\<lparr>dl_now := now\<rparr>)"
| others: "sameLeases (dl_db st) db \<Longrightarrow> canonicalSchedule lib db \<Longrightarrow> discovery_step lib h st (st\<lparr>dl_db := db\<rparr>)"
| claimed: "ClaimDiscoverySourceLease lib (Some h) ctx (Inr (dl_now st)) dbErr locked owner interval d (dl_db st) =
      (Inr (Some l), db) \<Longrightarrow>
    discovery_step lib h st (st\<lparr>dl_db := db, dl_issued := dl_issued st @ [l]\<rparr>)"
| renewed: "RenewDiscoverySourceLease (Some h) ctx (Inr (dl_now st)) dbErr l d (dl_db st) = (r, db) \<Longrightarrow>
    discovery_step lib h st (st\<lparr>dl_db := db\<rparr>)"
| completed: "CompleteDiscoverySourceLeaseRetry retryDelay (Some h) ctx (Inr (dl_now st)) dbErr l cat d (dl_db st) = (e, db) \<Longrightarrow>
    discovery_step lib h st (st\<lparr>dl_db := db\<rparr>)"

inductive discovery_reachable :: "host_lib \<Rightarrow> discovery_handle \<Rightarrow> discovery_state \<Rightarrow> bool" for lib h where
  start: "canonicalSchedule lib (dl_db st) \<Longrightarrow> dl_issued st = [] \<Longrightarrow> discovery_reachable lib h st"
| step: "discovery_reachable lib h st \<Longrightarrow> discovery_step lib h st st' \<Longrightarrow> discovery_reachable lib h st'"

definition sourceGeneration :: "discovery_db \<Rightarrow> string \<Rightarrow> int" where
  "sourceGeneration db o1 = ss_lease_generation (sourceOf db o1)"

definition claimsSource :: "discovery_db \<Rightarrow> string \<Rightarrow> discovery_db \<Rightarrow> bool" where
  "claimsSource db o1 db' \<longleftrightarrow> (\<exists>owner now expiresAt. db' = claimSource owner now expiresAt o1 db)"

definition keepsGenerations :: "discovery_db \<Rightarrow> discovery_db \<Rightarrow> bool" where
  "keepsGenerations db db' \<longleftrightarrow> sourceGeneration db' = sourceGeneration db"

interpretation source_fence: generation_fence sourceGeneration claimsSource keepsGenerations
  by unfold_locales
    (auto simp: sourceGeneration_def claimsSource_def keepsGenerations_def claimSource_source claimedSource_def)

lemma sameLeases_keeps: "sameLeases db db' \<Longrightarrow> keepsGenerations db db'"
  by (auto simp: sameLeases_def keepsGenerations_def sourceGeneration_def)

lemma keeps_update:
  "map_of (dd_sources db) o1 = Some r \<Longrightarrow> ss_lease_generation r' = ss_lease_generation r \<Longrightarrow>
   keepsGenerations db (updateSource o1 r' db)"
  by (auto simp: keepsGenerations_def sourceGeneration_def fun_eq_iff sourceOf_def)

lemma Renew_keeps:
  "RenewDiscoverySourceLease s ctx clock dbErr l d db = (r, db') \<Longrightarrow> keepsGenerations db db'"
  by (elim RenewDiscoverySourceLease_cases) (auto simp: heldSource_Some keepsGenerations_def [of db db] intro!: keeps_update)

lemma Complete_keeps:
  assumes "CompleteDiscoverySourceLeaseRetry retryDelay s ctx clock dbErr l cat d db = (e, db')"
  shows "keepsGenerations db db'"
  using assms
proof (cases rule: CompleteDiscoverySourceLeaseRetry_cases)
  case (completed now r)
  then have "keepsGenerations db (updateSource (origin_String (sl_Origin l)) (completedSource retryDelay cat d now r) db)"
    by (intro keeps_update [of _ _ r]) (auto simp: heldSource_Some completedSource_def Let_def)
  with completed show ?thesis by (simp add: keepsGenerations_def sourceGeneration_def fun_eq_iff)
qed (simp add: keepsGenerations_def)

lemma schedule_kept:
  "RenewDiscoverySourceLease s ctx clock dbErr l d db = (r, db') \<Longrightarrow> dd_schedule db' = dd_schedule db"
  "CompleteDiscoverySourceLeaseRetry retryDelay s ctx clock dbErr l cat d db = (e, db') \<Longrightarrow> dd_schedule db' = dd_schedule db"
  "dd_schedule (claimSource owner now expiresAt o1 db) = dd_schedule db"
  by (auto elim!: RenewDiscoverySourceLease_cases CompleteDiscoverySourceLeaseRetry_cases
      simp: cancelRuns_def claimSource_def Let_def)

abbreviation leaseOf :: "source_lease \<Rightarrow> string \<times> int" where
  "leaseOf l \<equiv> (origin_String (sl_Origin l), sl_Generation l)"

lemma sourceCandidate_props:
  assumes "sourceCandidate config interval now locked db = Some o1"
  shows "o1 \<in> set (dd_schedule db)" "sourceClaimable config interval now locked db o1"
    and "o2 \<in> set (dd_schedule db) \<Longrightarrow> sourceClaimable config interval now locked db o2 \<Longrightarrow> sourceKey db o1 \<le> sourceKey db o2"
proof -
  let ?xs = "filter (sourceClaimable config interval now locked db) (dd_schedule db)"
  obtain rest where sorted: "sort_key (sourceKey db) ?xs = o1 # rest"
    using assms by (auto simp: sourceCandidate_def split: list.splits)
  then have mem: "set (o1 # rest) = set ?xs" by (metis set_sort)
  then show "o1 \<in> set (dd_schedule db)" "sourceClaimable config interval now locked db o1" by auto
  assume "o2 \<in> set (dd_schedule db)" "sourceClaimable config interval now locked db o2"
  with mem have "o2 \<in> set (o1 # rest)" by simp
  moreover have "sorted (map (sourceKey db) (o1 # rest))" using sorted by (metis sorted_sort_key)
  ultimately show "sourceKey db o1 \<le> sourceKey db o2" by auto
qed

lemma canonicalScheduleD:
  "canonicalSchedule lib db \<Longrightarrow> o1 \<in> set (dd_schedule db) \<Longrightarrow> Origin.Parse lib o1 = Inr source \<Longrightarrow> origin_String source = o1"
  by (auto simp: canonicalSchedule_def list_all_iff split: sum.splits)

lemma discovery_reachable_fenced:
  "discovery_reachable lib h st \<Longrightarrow>
   canonicalSchedule lib (dl_db st) \<and> source_fence.fenced (map leaseOf (dl_issued st)) (dl_db st)"
proof (induction rule: discovery_reachable.induct)
  case (start st)
  then show ?case by (simp add: source_fence.fenced_start)
next
  case (step st st')
  from step(2) step.IH show ?case
  proof cases
    case (claimed ctx dbErr locked owner interval d l db)
    from claimed(2) obtain now o1 where c: "sourceCandidate (dh_automatic h) interval now locked (dl_db st) = Some o1"
        "Origin.Parse lib o1 = Inr (sl_Origin l)" "sl_Generation l = sourceGeneration (dl_db st) o1 + 1"
        "db = claimSource owner now (now + d) o1 (dl_db st)"
      by (elim ClaimDiscoverySourceLease_success) (auto simp: sourceGeneration_def)
    have key: "origin_String (sl_Origin l) = o1"
      using step.IH canonicalScheduleD [OF _ sourceCandidate_props(1) [OF c(1)] c(2)] by blast
    have claims: "claimsSource (dl_db st) o1 db" using c(4) by (auto simp: claimsSource_def)
    show ?thesis
      using source_fence.fenced_claim [OF _ claims, of "map leaseOf (dl_issued st)"] step.IH c(3,4) key
        source_fence.claim_next [OF claims]
      unfolding claimed(1) by (simp add: canonicalSchedule_def schedule_kept)
  qed (auto intro: source_fence.fenced_others sameLeases_keeps Renew_keeps Complete_keeps
      simp: canonicalSchedule_def schedule_kept)
qed

section \<open>The constraints of the source table\<close>

text \<open>The CHECK constraints of \<^verbatim>\<open>discovery_source_state\<close> and \<^verbatim>\<open>discovery_source_schedule\<close>, and the primary key.\<close>

definition sourceLeaseOk :: "source_state \<Rightarrow> bool" where
  "sourceLeaseOk r \<longleftrightarrow>
     (case ss_last_claimed_at r of
        None \<Rightarrow> ss_lease_generation r = 0 \<and> ss_lease_expires_at r = None
      | Some c \<Rightarrow> ss_lease_generation r > 0 \<and>
          (case ss_lease_expires_at r of None \<Rightarrow> True | Some e \<Rightarrow> e > c)) \<and>
     (case ss_lease_owner r of None \<Rightarrow> True | Some w \<Rightarrow> validQueueWorkerID w \<and> ss_lease_expires_at r \<noteq> None)"

definition sourceRetryOk :: "source_state \<Rightarrow> bool" where
  "sourceRetryOk r \<longleftrightarrow>
     (if ss_consecutive_failures r = 0 then ss_last_failure_category r = None \<and> ss_next_attempt_at r = None
      else ss_consecutive_failures r > 0 \<and> ss_next_attempt_at r \<noteq> None \<and>
        (case ss_last_failure_category r of None \<Rightarrow> False | Some c \<Rightarrow> Transient c))"

definition sources_ok :: "discovery_db \<Rightarrow> bool" where
  "sources_ok db \<longleftrightarrow>
     distinct (map fst (dd_sources db)) \<and> [] \<notin> set (dd_schedule db) \<and>
     list_all (\<lambda>(o1, r). o1 \<noteq> [] \<and> sourceLeaseOk r \<and> sourceRetryOk r) (dd_sources db)"

lemma sources_ok_row:
  "sources_ok db \<Longrightarrow> map_of (dd_sources db) o1 = Some r \<Longrightarrow> o1 \<noteq> [] \<and> sourceLeaseOk r \<and> sourceRetryOk r"
  by (auto simp: sources_ok_def list_all_iff dest!: map_of_SomeD)

lemma sources_ok_sourceOf: "sources_ok db \<Longrightarrow> sourceLeaseOk (sourceOf db o1) \<and> sourceRetryOk (sourceOf db o1)"
  by (cases "map_of (dd_sources db) o1")
    (auto simp: sourceOf_def source_state_default_def sourceLeaseOk_def sourceRetryOk_def dest: sources_ok_row)

lemma sources_ok_update:
  assumes "sources_ok db" and "o1 \<noteq> []" and "sourceLeaseOk r" and "sourceRetryOk r"
  shows "sources_ok (updateSource o1 r db)"
proof -
  have "distinct (map fst (dd_sources (updateSource o1 r db)))"
    using assms(1) updateSource_keys(2) by (simp add: sources_ok_def)
  moreover from this have "list_all (\<lambda>(o1, r). o1 \<noteq> [] \<and> sourceLeaseOk r \<and> sourceRetryOk r) (dd_sources (updateSource o1 r db))"
    using assms(2-4)
    by (auto simp: list_all_iff simp flip: map_of_eq_Some_iff split: if_splits dest: sources_ok_row [OF assms(1)])
  ultimately show ?thesis using assms(1) by (simp add: sources_ok_def)
qed

lemma sources_ok_same:
  "sources_ok db \<Longrightarrow> dd_sources db' = dd_sources db \<Longrightarrow> dd_schedule db' = dd_schedule db \<Longrightarrow> sources_ok db'"
  by (auto simp: sources_ok_def)

lemma sourceOk_cong:
  "ss_last_claimed_at r' = ss_last_claimed_at r \<Longrightarrow> ss_lease_generation r' = ss_lease_generation r \<Longrightarrow>
   ss_lease_expires_at r' = ss_lease_expires_at r \<Longrightarrow> ss_lease_owner r' = ss_lease_owner r \<Longrightarrow>
   sourceLeaseOk r' = sourceLeaseOk r"
  "ss_consecutive_failures r' = ss_consecutive_failures r \<Longrightarrow> ss_last_failure_category r' = ss_last_failure_category r \<Longrightarrow>
   ss_next_attempt_at r' = ss_next_attempt_at r \<Longrightarrow> sourceRetryOk r' = sourceRetryOk r"
  by (simp_all only: sourceLeaseOk_def sourceRetryOk_def)

text \<open>An operation that changes only the flags of a row keeps the constraints.\<close>

lemma sources_ok_flags:
  assumes "sources_ok db" and "key \<noteq> []"
    and "ss_last_claimed_at r = ss_last_claimed_at (sourceOf db key)" "ss_lease_generation r = ss_lease_generation (sourceOf db key)"
      "ss_lease_expires_at r = ss_lease_expires_at (sourceOf db key)" "ss_lease_owner r = ss_lease_owner (sourceOf db key)"
      "ss_consecutive_failures r = ss_consecutive_failures (sourceOf db key)"
      "ss_last_failure_category r = ss_last_failure_category (sourceOf db key)"
      "ss_next_attempt_at r = ss_next_attempt_at (sourceOf db key)"
  shows "sources_ok (updateSource key r db)"
  using sources_ok_sourceOf [OF assms(1), of key] sourceOk_cong [of r "sourceOf db key"] assms(3-)
  by (intro sources_ok_update [OF assms(1,2)]) simp_all

lemma Claim_sources_ok:
  assumes "sources_ok db"
  shows "sources_ok (snd (ClaimDiscoverySourceLease lib s ctx clock dbErr locked owner interval d db))"
proof -
  have ok: "sources_ok (claimSource owner now (now + d) o1 db)" if "o1 \<noteq> []" "validQueueWorkerID owner" "0 < d" for now o1
  proof -
    have "sources_ok (updateSource o1 (claimedSource owner now (now + d) (sourceOf db o1)) db)"
      using sources_ok_sourceOf [OF assms, of o1] that
      by (intro sources_ok_update [OF assms])
        (auto simp: sourceLeaseOk_def sourceRetryOk_def claimedSource_def split: option.splits)
    then show ?thesis
      by (elim sources_ok_same) (simp_all add: claimSource_def cancelRuns_def Let_def)
  qed
  have "o1 \<noteq> []" if "sourceCandidate config interval now locked db = Some o1" for config now o1
    using sourceCandidate_props(1) [OF that] assms by (auto simp: sources_ok_def)
  then show ?thesis
    using ok assms by (auto simp: ClaimDiscoverySourceLease_def split: option.splits sum.splits)
qed

lemma Renew_sources_ok:
  assumes "sources_ok db"
  shows "sources_ok (snd (RenewDiscoverySourceLease s ctx clock dbErr l d db))"
proof (rule RenewDiscoverySourceLease_cases [OF prod.collapse [symmetric]])
  fix now r t c
  assume r: "heldSource l now db = Some r" "ss_lease_expires_at r = Some t" "ss_last_claimed_at r = Some c"
    and db': "snd (RenewDiscoverySourceLease s ctx clock dbErr l d db) =
      updateSource (origin_String (sl_Origin l)) (r\<lparr>ss_lease_expires_at := Some (max t (now + d))\<rparr>) db"
  then have "origin_String (sl_Origin l) \<noteq> [] \<and> sourceLeaseOk r \<and> sourceRetryOk r"
    using sources_ok_row [OF assms] by (auto simp: heldSource_Some)
  then show ?thesis
    unfolding db' using r(2,3)
    by (intro sources_ok_update [OF assms]) (auto simp: sourceLeaseOk_def sourceRetryOk_def split: option.splits)
qed (use assms in simp)

lemma Complete_sources_ok:
  assumes "sources_ok db"
  shows "sources_ok (snd (CompleteDiscoverySourceLeaseRetry retryDelay s ctx clock dbErr l cat d db))"
proof (rule CompleteDiscoverySourceLeaseRetry_cases [OF prod.collapse [symmetric]])
  fix now r
  let ?o = "origin_String (sl_Origin l)"
  assume r: "heldSource l now db = Some r"
    and db': "snd (CompleteDiscoverySourceLeaseRetry retryDelay s ctx clock dbErr l cat d db) =
      cancelRuns (\<lambda>run. rn_source_origin run = ?o) now ''abandoned''
        (updateSource ?o (completedSource retryDelay cat d now r) db)"
  then have row: "?o \<noteq> [] \<and> sourceLeaseOk r \<and> sourceRetryOk r"
    using sources_ok_row [OF assms] by (auto simp: heldSource_Some)
  then have "0 \<le> ss_consecutive_failures r" by (auto simp: sourceRetryOk_def split: if_splits)
  with row have "sources_ok (updateSource ?o (completedSource retryDelay cat d now r) db)"
    by (intro sources_ok_update [OF assms])
      (auto simp: sourceLeaseOk_def sourceRetryOk_def completedSource_def Let_def split: option.splits)
  then show ?thesis
    unfolding db' by (elim sources_ok_same) (simp_all add: cancelRuns_def)
qed (use assms in simp)

lemma AddCrawlSeed_sources_ok:
  assumes "sources_ok db"
  shows "sources_ok (snd (AddCrawlSeed s ctx dbErr source db))"
proof -
  have "sources_ok (insertSchedule o1 db)" if "o1 \<noteq> []" for o1
    using assms that by (auto simp: insertSchedule_def sources_ok_def)
  then have "sources_ok (updateSource o1 ((sourceOf db o1)\<lparr>ss_seeded := True\<rparr>) (insertSchedule o1 db))" if "o1 \<noteq> []" for o1
    using that by (intro sources_ok_flags) auto
  then show ?thesis using assms by (auto simp: AddCrawlSeed_def Let_def split: option.splits)
qed

lemma RemoveCrawlSeed_sources_ok:
  assumes "sources_ok db"
  shows "sources_ok (snd (RemoveCrawlSeed s ctx dbErr source db))"
proof -
  have "sources_ok (removeSeed o1 db)" if "o1 \<noteq> []" for o1
  proof (cases "map_of (dd_sources db) o1")
    case (Some r)
    then have "sources_ok (updateSource o1 (r\<lparr>ss_seeded := False\<rparr>) db)"
      using that assms by (intro sources_ok_flags) (auto simp: sourceOf_def)
    then show ?thesis using Some by (auto simp: removeSeed_def Let_def sources_ok_def)
  qed (simp add: removeSeed_def assms)
  then show ?thesis using assms by (auto simp: RemoveCrawlSeed_def split: option.splits)
qed

lemma setExactCrawlBlock_sources_ok:
  "sources_ok db \<Longrightarrow> origin_String source \<noteq> [] \<Longrightarrow> sources_ok (setExactCrawlBlock lower config source blocked db)"
  unfolding setExactCrawlBlock_def Let_def by (intro sources_ok_flags) auto

lemma SetCrawlBlocked_sources_ok:
  "sources_ok db \<Longrightarrow> sources_ok (snd (SetCrawlBlocked lower s ctx dbErr source blocked db))"
  by (auto simp: SetCrawlBlocked_def setExactCrawlBlock_sources_ok split: option.splits)

lemma recompute_sources_ok:
  assumes "sources_ok db"
  shows "sources_ok (snd (recomputeAutomaticCrawlBlocks lib lower config db))"
proof -
  have "sources_ok (snd (recomputeBlock lib lower e x acc))" if "sources_ok (snd acc)" "fst x \<noteq> []" for e x acc
    using that
    by (auto simp: recomputeBlock_def Let_def intro!: sources_ok_flags split: prod.splits sum.splits)
  moreover have "fst x \<noteq> []" if "x \<in> set (dd_sources db)" for x
    using assms that by (auto simp: sources_ok_def list_all_iff)
  ultimately show ?thesis
    unfolding recomputeAutomaticCrawlBlocks_def
    by (intro fold_invariant [where P = "\<lambda>acc. sources_ok (snd acc)" and Q = "\<lambda>x. fst x \<noteq> []"]) (auto simp: assms)
qed

lemma Delay_max: "\<exists>j. Delay scale jitter n d = capDuration (max d j)"
proof -
  let ?j = "case jitter of None \<Rightarrow> scheduleAt n
    | Some sample \<Rightarrow> scale (scheduleAt n) (if sample < 0 then 0 else if sample > 1 then 1 else sample)"
  have "Delay scale jitter n d = capDuration (max d ?j)"
    unfolding Delay_def Let_def by (rule arg_cong [where f = capDuration]) (simp add: max_def)
  then show ?thesis by blast
qed

section \<open>Properties\<close>

text \<open>
  C8. In every interleaving of runners, operator and other operations, a crawl source has at most one lease with
  authority: of two leases issued for one source the later has the larger generation, and the earlier one can
  neither renew nor complete any more, at whatever time and whatever happened in between.
\<close>
theorem discovery_lease_exclusive:
  assumes "discovery_reachable lib h st" and "i < j" and "j < length (dl_issued st)"
    and "sl_Origin (dl_issued st ! i) = sl_Origin (dl_issued st ! j)"
  shows "sl_Generation (dl_issued st ! i) < sl_Generation (dl_issued st ! j) \<and>
    heldSource (dl_issued st ! i) now (dl_db st) = None"
proof -
  have "snd (leaseOf (dl_issued st ! i)) < snd (leaseOf (dl_issued st ! j)) \<and>
      snd (leaseOf (dl_issued st ! i)) \<noteq> sourceGeneration (dl_db st) (fst (leaseOf (dl_issued st ! i)))"
    using source_fence.superseded [of "map leaseOf (dl_issued st)" "dl_db st" i j]
      discovery_reachable_fenced [OF assms(1)] assms(2-4) by simp
  then show ?thesis by (auto simp: heldSource_def sourceGeneration_def sourceOf_def split: option.splits)
qed


text \<open>A seeded source, claimed at 10 for 5 and again at 20.\<close>

definition exampleSeeds :: discovery_db where
  "exampleSeeds = exampleSources\<lparr>dd_sources := [(origin_String exampleSource, source_state_default\<lparr>ss_seeded := True\<rparr>)]\<rparr>"

definition exampleHandle :: discovery_handle where
  "exampleHandle = \<lparr>dh_pool = True, dh_clock = True, dh_automatic = automatic_config_zero\<rparr>"

definition exampleSourceLease :: "int \<Rightarrow> go_time \<Rightarrow> source_lease" where
  "exampleSourceLease n now = \<lparr>sl_Origin = exampleSource, sl_Generation = n, sl_ClaimedAt = now, sl_ExpiresAt = now + 5\<rparr>"

lemma example_claim:
  assumes "dd_schedule db = [origin_String exampleSource]" and "\<not> cn_discovery_paused (dd_control db)"
    and "sourceOf db (origin_String exampleSource) = r" and "ss_seeded r" and "\<not> ss_crawl_blocked r"
    and "sourceDue 1 now r" and "leaseFree now r"
  shows "ClaimDiscoverySourceLease domainLib (Some exampleHandle) (Some None) (Inr now) None (\<lambda>_. False) ''w1'' 1 5 db =
    (Inr (Some (exampleSourceLease (ss_lease_generation r + 1) now)),
     claimSource ''w1'' now (now + 5) (origin_String exampleSource) db)"
proof -
  have "sourceClaimable automatic_config_zero 1 now (\<lambda>_. False) db (origin_String exampleSource)"
    using assms(3-7) by (simp add: sourceClaimable_def Let_def)
  then have "sourceCandidate automatic_config_zero 1 now (\<lambda>_. False) db = Some (origin_String exampleSource)"
    using assms(1) by (simp add: sourceCandidate_def)
  moreover have "validQueueWorkerID ''w1''" by code_simp
  ultimately show ?thesis
    using assms(2,3) exampleSource_parse
    by (simp add: ClaimDiscoverySourceLease_def discovery_validate_def exampleHandle_def exampleSourceLease_def)
qed

lemma example_reachable:
  "\<exists>db. discovery_reachable domainLib exampleHandle
     \<lparr>dl_db = db, dl_now = 20, dl_issued = [exampleSourceLease 1 10, exampleSourceLease 2 20]\<rparr>"
proof -
  let ?o = "origin_String exampleSource" and ?st = "\<lambda>db now ls. \<lparr>dl_db = db, dl_now = now, dl_issued = ls\<rparr>"
  let ?db1 = "claimSource ''w1'' 10 (10 + 5) ?o exampleSeeds"
  let ?db2 = "claimSource ''w1'' 20 (20 + 5) ?o ?db1"
  have row: "sourceOf exampleSeeds ?o = source_state_default\<lparr>ss_seeded := True\<rparr>"
    by (simp add: exampleSeeds_def sourceOf_def)
  have sched: "dd_schedule exampleSeeds = [?o]" "dd_control ?db1 = dd_control exampleSeeds"
    "\<not> cn_discovery_paused (dd_control exampleSeeds)"
    by (simp_all add: exampleSeeds_def exampleSources_def claimSource_def cancelRuns_def Let_def)
  have "discovery_reachable domainLib exampleHandle (?st exampleSeeds 10 [])"
    using exampleSource_parse by (intro discovery_reachable.start) (simp_all add: canonicalSchedule_def sched)
  moreover have "ClaimDiscoverySourceLease domainLib (Some exampleHandle) (Some None) (Inr 10) None (\<lambda>_. False) ''w1'' 1 5
      exampleSeeds = (Inr (Some (exampleSourceLease 1 10)), ?db1)"
    using example_claim [OF sched(1,3) row, of 10]
    by (simp add: source_state_default_def sourceDue_def leaseFree_def)
  ultimately have "discovery_reachable domainLib exampleHandle (?st ?db1 10 [exampleSourceLease 1 10])"
    using discovery_step.claimed [of domainLib exampleHandle "Some None" "?st exampleSeeds 10 []" None "\<lambda>_. False" "''w1''" 1 5]
    by (auto intro: discovery_reachable.step)
  then have "discovery_reachable domainLib exampleHandle (?st ?db1 20 [exampleSourceLease 1 10])"
    using discovery_step.tick [of "?st ?db1 10 [exampleSourceLease 1 10]" 20 domainLib exampleHandle]
    by (auto intro: discovery_reachable.step)
  moreover have "ClaimDiscoverySourceLease domainLib (Some exampleHandle) (Some None) (Inr 20) None (\<lambda>_. False) ''w1'' 1 5
      ?db1 = (Inr (Some (exampleSourceLease 2 20)), ?db2)"
    using example_claim [of ?db1 "claimedSource ''w1'' 10 (10 + 5) (source_state_default\<lparr>ss_seeded := True\<rparr>)" 20] row sched
    by (simp add: schedule_kept claimSource_source claimedSource_def source_state_default_def sourceDue_def leaseFree_def)
  ultimately have "discovery_reachable domainLib exampleHandle (?st ?db2 20 [exampleSourceLease 1 10, exampleSourceLease 2 20])"
    using discovery_step.claimed [of domainLib exampleHandle "Some None" "?st ?db1 20 [exampleSourceLease 1 10]" None
        "\<lambda>_. False" "''w1''" 1 5]
    by (auto intro: discovery_reachable.step)
  then show ?thesis by blast
qed

theorem discovery_lease_exclusive_witness:
  "\<exists>db. discovery_reachable domainLib exampleHandle
     \<lparr>dl_db = db, dl_now = 20, dl_issued = [exampleSourceLease 1 10, exampleSourceLease 2 20]\<rparr> \<and>
     heldSource (exampleSourceLease 1 10) 20 db = None"
proof -
  obtain db where db: "discovery_reachable domainLib exampleHandle
     \<lparr>dl_db = db, dl_now = 20, dl_issued = [exampleSourceLease 1 10, exampleSourceLease 2 20]\<rparr>"
    using example_reachable by blast
  from discovery_lease_exclusive [OF db, of 0 1 20] have "heldSource (exampleSourceLease 1 10) 20 db = None"
    by (simp add: exampleSourceLease_def)
  with db show ?thesis by blast
qed

text \<open>
  A claim of a crawl source is fair and authorized: nothing is claimed while discovery is paused; what is
  claimed is scheduled, not blocked, due, free of a live lease, and a seed, verified, or an automatic source
  while expansion is on and below the probe limit; among all such sources it is one attempted least recently.
  Its lease has authority until it expires, its interval is not consumed, and no run of a source without a live
  lease is left running.
\<close>
theorem ClaimDiscoverySourceLease_fair:
  assumes "ClaimDiscoverySourceLease lib (Some h) ctx (Inr now) dbErr locked owner interval d db = (Inr (Some l), db')"
    and "canonicalSchedule lib db"
  shows "\<not> cn_discovery_paused (dd_control db) \<and> origin_String (sl_Origin l) \<in> set (dd_schedule db) \<and>
    (let r = sourceOf db (origin_String (sl_Origin l))
     in \<not> ss_crawl_blocked r \<and> sourceDue interval now r \<and> leaseFree now r \<and>
        (ss_seeded r \<or> currentlyVerified db (origin_String (sl_Origin l)) \<or>
         ac_Enabled (dh_automatic h) \<and> \<not> cn_automatic_expansion_paused (dd_control db) \<and>
         pendingProbes now db < maxPendingProbes (dh_automatic h))) \<and>
    (\<forall>o2 \<in> set (dd_schedule db). sourceClaimable (dh_automatic h) interval now locked db o2 \<longrightarrow>
       sourceKey db (origin_String (sl_Origin l)) \<le> sourceKey db o2) \<and>
    (\<forall>t < sl_ExpiresAt l. heldSource l t db' \<noteq> None) \<and>
    (\<forall>o2. ss_last_attempted_at (sourceOf db' o2) = ss_last_attempted_at (sourceOf db o2)) \<and>
    (\<forall>(n, run) \<in> set (dd_runs db'). rn_outcome run = ''running'' \<longrightarrow> rn_finished_at run = None \<longrightarrow>
       leased now db' (rn_source_origin run))"
proof -
  obtain h' now' o1 where c': "Some h = Some h'" "Inr now = (Inr now' :: go_error + go_time)"
      "sourceCandidate (dh_automatic h') interval now' locked db = Some o1"
      "db' = claimSource owner now' (now' + d) o1 db" "sl_ExpiresAt l = now' + d"
      and c: "\<not> cn_discovery_paused (dd_control db)"
      "Origin.Parse lib o1 = Inr (sl_Origin l)" "sl_Generation l = ss_lease_generation (sourceOf db o1) + 1"
    by (rule ClaimDiscoverySourceLease_success [OF assms(1)])
  have cand': "sourceCandidate (dh_automatic h) interval now locked db = Some o1"
    and db': "db' = claimSource owner now (now + d) o1 db" and expires: "sl_ExpiresAt l = now + d"
    using c' by simp_all
  note cand = sourceCandidate_props [OF cand']
  have key: "origin_String (sl_Origin l) = o1" by (rule canonicalScheduleD [OF assms(2) cand(1) c(2)])
  have held: "\<forall>t < sl_ExpiresAt l. heldSource l t db' \<noteq> None"
    by (auto simp: heldSource_def key c(3) db' expires claimSource_rows claimedSource_def)
  have attempted: "\<forall>o2. ss_last_attempted_at (sourceOf db' o2) = ss_last_attempted_at (sourceOf db o2)"
    by (simp add: db' claimSource_source claimedSource_def)
  have runs: "\<forall>(n, run) \<in> set (dd_runs db'). rn_outcome run = ''running'' \<longrightarrow> rn_finished_at run = None \<longrightarrow>
       leased now db' (rn_source_origin run)"
    by (auto simp: db' claimSource_def cancelRuns_def Let_def cancelRun_def leased_def split: if_splits)
  have eligible: "let r = sourceOf db o1 in \<not> ss_crawl_blocked r \<and> sourceDue interval now r \<and> leaseFree now r \<and>
      (ss_seeded r \<or> currentlyVerified db o1 \<or>
       ac_Enabled (dh_automatic h) \<and> \<not> cn_automatic_expansion_paused (dd_control db) \<and>
       pendingProbes now db < maxPendingProbes (dh_automatic h))"
    using cand(2) by (auto simp: sourceClaimable_def Let_def min_less_iff_disj)
  show ?thesis unfolding key using c(1) cand(1,3) eligible held attempted runs by blast
qed


lemma example_first_claim:
  "ClaimDiscoverySourceLease domainLib (Some exampleHandle) (Some None) (Inr 10) None (\<lambda>_. False) ''w1'' 1 5 exampleSeeds =
     (Inr (Some (exampleSourceLease 1 10)), claimSource ''w1'' 10 15 (origin_String exampleSource) exampleSeeds)"
  using example_claim [of exampleSeeds "source_state_default\<lparr>ss_seeded := True\<rparr>" 10]
  by (simp add: exampleSeeds_def exampleSources_def sourceOf_def source_state_default_def sourceDue_def leaseFree_def)

lemma exampleSeeds_canonical: "canonicalSchedule domainLib exampleSeeds"
  using exampleSource_parse by (simp add: canonicalSchedule_def exampleSeeds_def exampleSources_def)

theorem ClaimDiscoverySourceLease_fair_witness:
  "origin_String exampleSource \<in> set (dd_schedule exampleSeeds) \<and>
   heldSource (exampleSourceLease 1 10) 14 (claimSource ''w1'' 10 15 (origin_String exampleSource) exampleSeeds) \<noteq> None"
  using ClaimDiscoverySourceLease_fair [OF example_first_claim exampleSeeds_canonical]
  by (simp add: exampleSourceLease_def)

text \<open>
  Completing a crawl paces its source: only the lease with authority completes, everything else changes
  nothing; then the lease is gone, so that neither this nor an older lease has authority, and the source is due
  again after its retry delay when the failure is transient, and after the discovery interval otherwise. With
  the retry policy the delay is between the policy's and 24 hours and never shorter than the server's
  Retry-After.
\<close>
theorem CompleteDiscoverySourceLeaseRetry_paces:
  assumes "CompleteDiscoverySourceLeaseRetry (Delay scale jitter) s ctx (Inr now) dbErr l cat retryAfter db = (err, db')"
  shows "if heldSource l now db = None then err \<noteq> None \<and> db' = db
    else if err \<noteq> None then db' = db
    else (let r = sourceOf db (origin_String (sl_Origin l)); r' = sourceOf db' (origin_String (sl_Origin l));
              delay = Delay scale jitter (ss_consecutive_failures r + 1) retryAfter
          in heldSource l t db' = None \<and> leaseFree t r' \<and>
             (sourceDue interval t r' \<longleftrightarrow> (if Transient cat then now + delay \<le> t else now + interval \<le> t)) \<and>
             ss_consecutive_failures r' = (if Transient cat then ss_consecutive_failures r + 1 else 0) \<and>
             retryAfter \<le> delay \<and> delay \<le> MaxDelay \<and>
             (\<forall>o2. o2 \<noteq> origin_String (sl_Origin l) \<longrightarrow> sourceOf db' o2 = sourceOf db o2))"
  using assms
proof (cases rule: CompleteDiscoverySourceLeaseRetry_cases)
  case (completed now' r)
  let ?o = "origin_String (sl_Origin l)" and ?r = "completedSource (Delay scale jitter) cat retryAfter now r"
  have now': "now' = now" using completed(2) by simp
  have r: "sourceOf db ?o = r" using completed(3) by (simp add: heldSource_Some sourceOf_def)
  have rows: "map_of (dd_sources db') = (map_of (dd_sources db))(?o \<mapsto> ?r)"
    using completed(7) now' by simp
  then have r': "sourceOf db' ?o = ?r" and others: "\<forall>o2. o2 \<noteq> ?o \<longrightarrow> sourceOf db' o2 = sourceOf db o2"
    by (simp_all add: sourceOf_def)
  have free: "heldSource l t db' = None" "leaseFree t ?r"
    by (simp_all add: heldSource_def rows leaseFree_def completedSource_def Let_def)
  have due: "sourceDue interval t ?r \<longleftrightarrow>
      (if Transient cat then now + Delay scale jitter (ss_consecutive_failures r + 1) retryAfter \<le> t else now + interval \<le> t)"
    by (auto simp: sourceDue_def completedSource_def Let_def)
  have fails: "ss_consecutive_failures ?r = (if Transient cat then ss_consecutive_failures r + 1 else 0)"
    by (simp add: completedSource_def Let_def)
  have delay: "retryAfter \<le> Delay scale jitter n retryAfter" "Delay scale jitter n retryAfter \<le> MaxDelay" for n
  proof -
    obtain j where j: "Delay scale jitter n retryAfter = capDuration (max retryAfter j)"
      using Delay_max by blast
    show "retryAfter \<le> Delay scale jitter n retryAfter"
      using capDuration_mono [of retryAfter "max retryAfter j"] capDuration_id [of retryAfter] completed(5,6) by (simp add: j)
    show "Delay scale jitter n retryAfter \<le> MaxDelay" using capDuration_bounds by (simp add: j)
  qed
  show ?thesis
    using completed(1,3) now' free due fails delay others by (simp add: r r' Let_def)
qed simp_all


theorem CompleteDiscoverySourceLeaseRetry_paces_witness:
  "let db = claimSource ''w1'' 10 15 (origin_String exampleSource) exampleSeeds;
       db' = snd (CompleteDiscoverySourceLeaseRetry (Delay (\<lambda>d _. d) None) (Some exampleHandle) (Some None) (Inr 12) None
                    (exampleSourceLease 1 10) CategoryNone 0 db)
   in heldSource (exampleSourceLease 1 10) 13 db' = None \<and>
      sourceDue 100 112 (sourceOf db' (origin_String exampleSource)) \<and>
      \<not> sourceDue 100 111 (sourceOf db' (origin_String exampleSource))"
proof -
  let ?db = "claimSource ''w1'' 10 15 (origin_String exampleSource) exampleSeeds"
  let ?out = "CompleteDiscoverySourceLeaseRetry (Delay (\<lambda>d _. d) None) (Some exampleHandle) (Some None) (Inr 12) None
                (exampleSourceLease 1 10) CategoryNone 0 ?db"
  have held: "heldSource (exampleSourceLease 1 10) 12 ?db \<noteq> None"
    by (simp add: heldSource_def exampleSourceLease_def claimSource_rows claimedSource_def exampleSeeds_def
        sourceOf_def source_state_default_def)
  have "category_Valid CategoryNone" "\<not> Transient CategoryNone" "0 \<le> MaxDelay"
    by (simp_all add: category_Valid_def Transient_def MaxDelay_nonneg)
  moreover from this held have "fst ?out = None"
    by (auto simp: CompleteDiscoverySourceLeaseRetry_def discovery_validate_def exampleHandle_def Let_def
        validDiscoverySourceLease_def exampleSourceLease_def exampleSource_def origin_String_def not_less)
  moreover have out: "?out = (fst ?out, snd ?out)" by simp
  moreover have l: "sl_Origin (exampleSourceLease 1 10) = exampleSource" by (simp add: exampleSourceLease_def)
  ultimately show ?thesis
    using held CompleteDiscoverySourceLeaseRetry_paces [OF out, where t = 13 and interval = 100]
      CompleteDiscoverySourceLeaseRetry_paces [OF out, where t = 112 and interval = 100]
      CompleteDiscoverySourceLeaseRetry_paces [OF out, where t = 111 and interval = 100]
    unfolding Let_def by (simp only: l if_False if_True simp_thms not_True_eq_False) auto
qed

text \<open>Every operation of the discovery store that changes the source table keeps its constraints.\<close>

theorem source_constraints_kept:
  assumes "sources_ok db"
  shows "sources_ok (snd (ClaimDiscoverySourceLease lib s ctx clock dbErr locked owner interval d db)) \<and>
    sources_ok (snd (RenewDiscoverySourceLease s ctx clock dbErr l d db)) \<and>
    sources_ok (snd (CompleteDiscoverySourceLeaseRetry retryDelay s ctx clock dbErr l cat d db)) \<and>
    sources_ok (snd (AddCrawlSeed s ctx dbErr source db)) \<and>
    sources_ok (snd (RemoveCrawlSeed s ctx dbErr source db)) \<and>
    sources_ok (snd (SetCrawlBlocked lower s ctx dbErr source blocked db)) \<and>
    sources_ok (snd (ReconcileAutomaticCrawlPolicy lib lower s ctx dbErr db))"
  using assms recompute_sources_ok [OF assms, of lib lower "dh_automatic (the s)"]
  by (auto simp: Claim_sources_ok Renew_sources_ok Complete_sources_ok AddCrawlSeed_sources_ok RemoveCrawlSeed_sources_ok
      SetCrawlBlocked_sources_ok ReconcileAutomaticCrawlPolicy_def split: option.splits prod.splits)

theorem source_constraints_kept_witness:
  "sources_ok (snd (AddCrawlSeed (Some exampleHandle) (Some None) None exampleSource exampleSeeds))"
proof -
  have "sources_ok exampleSeeds"
    by (simp add: sources_ok_def exampleSeeds_def exampleSources_def sourceLeaseOk_def sourceRetryOk_def
        source_state_default_def exampleSource_def origin_String_def)
  then show ?thesis using source_constraints_kept by blast
qed

end
