(* ===== verification/Admission.thy ===== *)
theory Admission
  imports Discovery_Lease
begin

text \<open>
  The candidates of a crawl, \<^verbatim>\<open>internal/store/discovery.go\<close>: their evidence is recorded, probes of their
  declarations are queued within a capacity, and some are promoted to automatic crawl sources within the budget
  of a run. Every transaction is one step on the tables. A statement that inserts or updates several rows reads
  only the rows of the origin it writes, so it is a fold over the origins. \<open>stamp\<close> is
  \<^verbatim>\<open>statement_timestamp()\<close>, \<open>clock\<close> the answer of the database clock, \<open>dbErr\<close> a transaction the database rejects.
\<close>

definition errInvalidCrawlRun where "errInvalidCrawlRun = Sentinel ''store: crawl run is invalid''"
definition errUnknownCrawlRun where "errUnknownCrawlRun = Sentinel ''store: crawl run is unknown''"
definition errInvalidServiceState where
  "errInvalidServiceState = Sentinel ''store: crawl service state is invalid''"

text \<open>\<^verbatim>\<open>pgx.ErrNoRows\<close>.\<close>

definition errNoRows where "errNoRows = Sentinel ''no rows in result set''"

section \<open>Preparing candidates\<close>

fun discoveryKindText :: "kind \<Rightarrow> string option" where
  "discoveryKindText KindLink = Some ''link''"
| "discoveryKindText KindRedirect = Some ''redirect''"
| "discoveryKindText KindOther = None"

definition prepareDiscoveryCandidates :: "origin \<Rightarrow> candidate list \<Rightarrow> go_error + candidate list" where
  "prepareDiscoveryCandidates source candidates =
     (if origin_String source = [] then Inl errInvalidOrigin
      else if list_ex (\<lambda>c. origin_String (c_Origin c) = [] \<or> c_Origin c = source \<or> discoveryKindText (c_Kind c) = None)
                candidates \<or> \<not> distinct (map c_Origin candidates)
      then Inl errInvalidDiscoveryCandidate
      else Inr (sort_key (\<lambda>c. origin_String (c_Origin c)) candidates))"

definition prepareAdmissionCandidates :: "candidate list \<Rightarrow> go_error + candidate list" where
  "prepareAdmissionCandidates candidates =
     (if list_ex (\<lambda>c. origin_String (c_Origin c) = [] \<or> discoveryKindText (c_Kind c) = None) candidates \<or>
         \<not> distinct (map c_Origin candidates)
      then Inl errInvalidDiscoveryCandidate
      else Inr (sort_key (\<lambda>c. origin_String (c_Origin c)) candidates))"

section \<open>Probes\<close>

text \<open>The rows a probe statement may insert: not blocked, and not queued yet.\<close>

definition probeEligible :: "discovery_db \<Rightarrow> string \<Rightarrow> bool" where
  "probeEligible db o1 \<longleftrightarrow> \<not> sourceFlag ss_crawl_blocked db o1 \<and> o1 \<notin> set (map fst (dd_queue db))"

text \<open>\<^verbatim>\<open>ON CONFLICT (origin) DO NOTHING\<close>.\<close>

definition insertProbe :: "go_time \<Rightarrow> string \<Rightarrow> discovery_db \<Rightarrow> discovery_db" where
  "insertProbe availableAt o1 db =
     (if o1 \<in> set (map fst (dd_queue db)) then db
      else db\<lparr>dd_queue := dd_queue db @ [(o1, new_row availableAt Probe)]\<rparr>)"

definition admitProbes ::
    "automatic_config \<Rightarrow> go_time \<Rightarrow> go_time \<Rightarrow> string list \<Rightarrow> discovery_db \<Rightarrow> int \<times> discovery_db" where
  "admitProbes config stamp availableAt eligible db =
     (let room = max (maxPendingProbes config - pendingProbes stamp db) 0;
          chosen = take (nat room) (sort (filter (probeEligible db) eligible));
          db' = fold (insertProbe availableAt) chosen db
      in (int (length (dd_queue db')) - int (length (dd_queue db)), db'))"

text \<open>
  What the database answers while probes are scheduled. The avoid list is read before the transaction of the
  insertion; \<open>pb_others\<close> is what other transactions commit in between.
\<close>

record probe_answers =
  pb_exclusionErr :: "go_error option"
  pb_others :: "discovery_db \<Rightarrow> discovery_db"
  pb_clock :: "go_error + go_time"
  pb_dbErr :: "go_error option"
  pb_stamp :: go_time

text \<open>Without \<open>availableAt\<close> the clock of the transaction is used.\<close>

definition scheduleProbeCandidatesCounted ::
    "(string \<Rightarrow> string) \<Rightarrow> discovery_handle \<Rightarrow> probe_answers \<Rightarrow> candidate list \<Rightarrow> go_time option \<Rightarrow> discovery_db \<Rightarrow>
     (go_error + int) \<times> discovery_db" where
  "scheduleProbeCandidatesCounted lower h pb candidates availableAt db =
     (case pb_exclusionErr pb of
        Some err \<Rightarrow> (Inl (Wrap ''store: read crawl domain avoid rules'' [err]), db)
      | None \<Rightarrow>
          (let exclusions = automaticExclusions db (dh_automatic h);
               eligible = map (\<lambda>c. origin_String (c_Origin c))
                 (filter (\<lambda>c. \<not> excludes lower exclusions (origin_Hostname (c_Origin c))) candidates)
           in if eligible = [] then (Inr 0, db)
              else (let db = pb_others pb db
                    in case (case availableAt of
                               Some t \<Rightarrow> Inr t
                             | None \<Rightarrow> (case pb_clock pb of
                                          Inl err \<Rightarrow> Inl (Wrap ''store: read discovery probe drain clock'' [err])
                                        | Inr now \<Rightarrow> Inr now)) of
                         Inl err \<Rightarrow> (Inl err, db)
                       | Inr probeAvailableAt \<Rightarrow>
                           (case pb_dbErr pb of
                              Some err \<Rightarrow> (Inl (Wrap ''store: admit discovery probes'' [err]), db)
                            | None \<Rightarrow>
                                (case admitProbes (dh_automatic h) (pb_stamp pb) probeAvailableAt eligible db of
                                   (scheduled, db) \<Rightarrow> (Inr scheduled, db))))))"

definition scheduleProbeCandidates ::
    "(string \<Rightarrow> string) \<Rightarrow> discovery_handle \<Rightarrow> probe_answers \<Rightarrow> candidate list \<Rightarrow> go_time \<Rightarrow> discovery_db \<Rightarrow>
     go_error option \<times> discovery_db" where
  "scheduleProbeCandidates lower h pb candidates availableAt db =
     (case scheduleProbeCandidatesCounted lower h pb candidates (Some availableAt) db of
        (Inl err, db) \<Rightarrow> (Some err, db)
      | (Inr _, db) \<Rightarrow> (None, db))"

definition hasEdge :: "string \<Rightarrow> discovery_db \<Rightarrow> string \<Rightarrow> bool" where
  "hasEdge k db o1 \<longleftrightarrow> list_ex (\<lambda>((_, candidate, kind1), _). candidate = o1 \<and> kind1 = k) (dd_edges db)"

text \<open>No authoritative observation, or one that is not valid and older than the latest evidence.\<close>

definition freshEvidence :: "discovery_db \<Rightarrow> string \<Rightarrow> candidate_row \<Rightarrow> bool" where
  "freshEvidence db o1 c \<longleftrightarrow>
     (case effectiveRow (dd_store db) o1 of
        None \<Rightarrow> True
      | Some r \<Rightarrow> ob_outcome r \<noteq> ''valid'' \<and> cd_last_discovered_at c > ob_observed_at r)"

definition pendingProbeOrigins :: "discovery_db \<Rightarrow> string list" where
  "pendingProbeOrigins db =
     sort (map fst (filter (\<lambda>(o1, c). hasEdge ''link'' db o1 \<and> probeEligible db o1 \<and> freshEvidence db o1 c)
       (dd_candidates db)))"

definition linkCandidate :: "host_lib \<Rightarrow> string \<Rightarrow> go_error + candidate" where
  "linkCandidate lib raw =
     (case Origin.Parse lib raw of
        Inl err \<Rightarrow> Inl err
      | Inr o1 \<Rightarrow> Inr \<lparr>c_Origin = o1, c_Kind = KindLink\<rparr>)"

definition SchedulePendingDiscoveryProbes ::
    "host_lib \<Rightarrow> (string \<Rightarrow> string) \<Rightarrow> discovery_handle option \<Rightarrow> ctx_value \<Rightarrow> go_error option \<Rightarrow> probe_answers \<Rightarrow>
     (discovery_db \<Rightarrow> discovery_db) \<Rightarrow> discovery_db \<Rightarrow> (go_error + int) \<times> discovery_db" where
  "SchedulePendingDiscoveryProbes lib lower s ctx dbErr pb others db =
     (case discovery_validate s ctx of
        Some err \<Rightarrow> (Inl err, db)
      | None \<Rightarrow>
          (case dbErr of
             Some err \<Rightarrow> (Inl (Wrap ''store: list pending discovery probes'' [err]), db)
           | None \<Rightarrow>
               (case CollectRows (linkCandidate lib) (pendingProbeOrigins db) of
                  Inl err \<Rightarrow> (Inl (Wrap ''store: pending discovery probe origin'' [err]), db)
                | Inr candidates \<Rightarrow>
                    if candidates = [] then (Inr 0, db)
                    else scheduleProbeCandidatesCounted lower (the s) pb candidates None (others db))))"

section \<open>Recording evidence\<close>

definition knownSource :: "discovery_db \<Rightarrow> string \<Rightarrow> bool" where
  "knownSource db o1 \<longleftrightarrow> db_origins (dd_store db) o1 \<noteq> None \<or> map_of (dd_sources db) o1 \<noteq> None"

definition activeRun :: "discovery_db \<Rightarrow> int \<Rightarrow> run_row option" where
  "activeRun db runID =
     (case map_of (dd_runs db) runID of
        None \<Rightarrow> None | Some run \<Rightarrow> if rn_finished_at run = None then Some run else None)"

text \<open>The rows of \<^verbatim>\<open>valid_run\<close>.\<close>

definition validRuns :: "discovery_db \<Rightarrow> int \<Rightarrow> nat" where
  "validRuns db runID = (if runID = 0 then 1 else 0) + (if activeRun db runID \<noteq> None then 1 else 0)"

definition storedCandidate :: "go_time \<Rightarrow> candidate_row option \<Rightarrow> candidate_row" where
  "storedCandidate now row =
     (case row of
        None \<Rightarrow> \<lparr>cd_first_discovered_at = now, cd_last_discovered_at = now, cd_consecutive_failures = 0,
                 cd_last_failure_category = None, cd_next_attempt_at = None\<rparr>
      | Some c \<Rightarrow> c\<lparr>cd_first_discovered_at := min (cd_first_discovered_at c) now,
                    cd_last_discovered_at := max (cd_last_discovered_at c) now\<rparr>)"

definition storedEdge :: "go_time \<Rightarrow> edge_row option \<Rightarrow> edge_row" where
  "storedEdge now row =
     (case row of
        None \<Rightarrow> \<lparr>ed_first_discovered_at = now, ed_last_discovered_at = now\<rparr>
      | Some e \<Rightarrow> e\<lparr>ed_first_discovered_at := min (ed_first_discovered_at e) now,
                    ed_last_discovered_at := max (ed_last_discovered_at e) now\<rparr>)"

text \<open>
  One candidate: its row, its reactivation in the schedule (by the same condition by which a former seed stays
  scheduled, over the evidence just stored), its edge and its attribution to the run.
\<close>

definition storeEvidence :: "go_time \<Rightarrow> string \<Rightarrow> discovery_db \<Rightarrow> discovery_db" where
  "storeEvidence now o1 db =
     db\<lparr>dd_candidates := AList.update o1 (storedCandidate now (map_of (dd_candidates db) o1)) (dd_candidates db)\<rparr>"

definition reactivate :: "string \<Rightarrow> discovery_db \<Rightarrow> discovery_db" where
  "reactivate o1 db =
     (if staysScheduled db o1 (sourceFlag ss_automatically_discovered db o1) then insertSchedule o1 db else db)"

definition storeEdge :: "go_time \<Rightarrow> string \<times> string \<times> string \<Rightarrow> discovery_db \<Rightarrow> discovery_db" where
  "storeEdge now key db = db\<lparr>dd_edges := AList.update key (storedEdge now (map_of (dd_edges db) key)) (dd_edges db)\<rparr>"

definition attribute :: "int \<Rightarrow> string \<Rightarrow> string \<Rightarrow> discovery_db \<Rightarrow> discovery_db" where
  "attribute runID o1 k db =
     (if runID > 0 \<and> (runID, o1, k) \<notin> set (dd_run_candidates db)
      then db\<lparr>dd_run_candidates := dd_run_candidates db @ [(runID, o1, k)]\<rparr> else db)"

definition recordCandidate :: "string \<Rightarrow> int \<Rightarrow> go_time \<Rightarrow> candidate \<Rightarrow> discovery_db \<Rightarrow> discovery_db" where
  "recordCandidate source runID now c db =
     (let o1 = origin_String (c_Origin c); k = the (discoveryKindText (c_Kind c))
      in attribute runID o1 k (storeEdge now (source, o1, k) (reactivate o1 (storeEvidence now o1 db))))"

definition recordFailed :: "go_error \<Rightarrow> go_error" where
  "recordFailed err = Wrap ''store: record discovery'' [err]"

definition recordDiscovery ::
    "(string \<Rightarrow> string) \<Rightarrow> discovery_handle option \<Rightarrow> ctx_value \<Rightarrow> go_error + go_time \<Rightarrow> go_error option \<Rightarrow> probe_answers \<Rightarrow>
     (discovery_db \<Rightarrow> discovery_db) \<Rightarrow> int \<Rightarrow> origin \<Rightarrow> candidate list \<Rightarrow> discovery_db \<Rightarrow> (go_error + int) \<times> discovery_db" where
  "recordDiscovery lower s ctx clock dbErr pb others runID source candidates db =
     (case discovery_validate s ctx of
        Some err \<Rightarrow> (Inl err, db)
      | None \<Rightarrow>
          (case prepareDiscoveryCandidates source candidates of
             Inl err \<Rightarrow> (Inl err, db)
           | Inr prepared \<Rightarrow>
               if prepared = [] then (Inr 0, db)
               else (case clock of
                       Inl err \<Rightarrow> (Inl (recordFailed (Wrap ''store: read discovery clock'' [err])), db)
                     | Inr recordedAt \<Rightarrow>
                         (case dbErr of
                            Some err \<Rightarrow> (Inl (recordFailed err), db)
                          | None \<Rightarrow>
                              if \<not> knownSource db (origin_String source) then (Inl errDiscoverySourceUnknown, db)
                              else if validRuns db runID \<noteq> 1 then (Inl (recordFailed errUnknownCrawlRun), db)
                              else (let recorded = fold (recordCandidate (origin_String source) runID recordedAt) prepared db
                                    in case scheduleProbeCandidates lower (the s) pb prepared recordedAt (others recorded) of
                                         (Some err, db) \<Rightarrow> (Inl err, db)
                                       | (None, db) \<Rightarrow> (Inr (int (length prepared)), db))))))"

definition RecordDiscovery ::
    "(string \<Rightarrow> string) \<Rightarrow> discovery_handle option \<Rightarrow> ctx_value \<Rightarrow> go_error + go_time \<Rightarrow> go_error option \<Rightarrow> probe_answers \<Rightarrow>
     (discovery_db \<Rightarrow> discovery_db) \<Rightarrow> origin \<Rightarrow> candidate list \<Rightarrow> discovery_db \<Rightarrow> (go_error + int) \<times> discovery_db" where
  "RecordDiscovery lower s ctx clock dbErr pb others source candidates db =
     recordDiscovery lower s ctx clock dbErr pb others 0 source candidates db"

definition RecordDiscoveryForRun ::
    "(string \<Rightarrow> string) \<Rightarrow> discovery_handle option \<Rightarrow> ctx_value \<Rightarrow> go_error + go_time \<Rightarrow> go_error option \<Rightarrow> probe_answers \<Rightarrow>
     (discovery_db \<Rightarrow> discovery_db) \<Rightarrow> int \<Rightarrow> origin \<Rightarrow> candidate list \<Rightarrow> discovery_db \<Rightarrow> (go_error + int) \<times> discovery_db" where
  "RecordDiscoveryForRun lower s ctx clock dbErr pb others runID source candidates db =
     (if runID \<le> 0 then (Inl errInvalidCrawlRun, db)
      else recordDiscovery lower s ctx clock dbErr pb others runID source candidates db)"

section \<open>Admission batches\<close>

definition batchesOf :: "int \<Rightarrow> discovery_db \<Rightarrow> ((int \<times> string) \<times> batch_row) list" where
  "batchesOf runID db = filter (\<lambda>((run, _), _). run = runID) (dd_batches db)"

definition pendingBatch :: "int \<Rightarrow> discovery_db \<Rightarrow> string list" where
  "pendingBatch runID db =
     sort (map (snd \<circ> fst) (filter (\<lambda>(_, b). bt_outcome b = ''pending'') (batchesOf runID db)))"

text \<open>\<^verbatim>\<open>candidate_pool\<close>: the candidates of links that are due, no sources yet, not blocked, undecided and not excluded.\<close>

definition admissible :: "string list \<Rightarrow> int \<Rightarrow> go_time \<Rightarrow> discovery_db \<Rightarrow> string \<times> candidate_row \<Rightarrow> bool" where
  "admissible patterns runID now db entry \<longleftrightarrow>
     (case entry of (o1, c) \<Rightarrow>
        hasEdge ''link'' db o1 \<and>
        (case cd_next_attempt_at c of None \<Rightarrow> True | Some t \<Rightarrow> t \<le> now) \<and>
        \<not> sourceFlag ss_automatically_discovered db o1 \<and> \<not> sourceFlag ss_crawl_blocked db o1 \<and>
        o1 \<notin> set (dd_schedule db) \<and> freshEvidence db o1 c \<and>
        o1 \<notin> set (map fst (dd_admissions db)) \<and> o1 \<notin> set (map (snd \<circ> fst) (batchesOf runID db)) \<and>
        \<not> sqlExcluded patterns o1)"

text \<open>\<^verbatim>\<open>COALESCE(MIN(run_candidate.run_id), runID)\<close>.\<close>

definition discoveredRun :: "int \<Rightarrow> discovery_db \<Rightarrow> string \<Rightarrow> int" where
  "discoveredRun runID db o1 =
     (case map fst (filter (\<lambda>(_, candidate, _). candidate = o1) (dd_run_candidates db)) of
        [] \<Rightarrow> runID | r # rs \<Rightarrow> fold min rs r)"

definition new_batch :: "int \<Rightarrow> batch_row" where
  "new_batch discovered =
     \<lparr>bt_discovered_run_id = discovered, bt_outcome = ''pending'', bt_consecutive_failures = 0,
      bt_last_failure_category = None, bt_next_attempt_at = None\<rparr>"

definition allocateBatch :: "string list \<Rightarrow> int \<Rightarrow> int \<Rightarrow> go_time \<Rightarrow> discovery_db \<Rightarrow> discovery_db" where
  "allocateBatch patterns runID maxPromotions now db =
     (let remainingBatch = maxPromotions - int (length (batchesOf runID db));
          pool = take (nat remainingBatch)
                   (sort (map fst (filter (admissible patterns runID now db) (dd_candidates db))))
      in if remainingBatch > 0
         then db\<lparr>dd_batches := dd_batches db @ map (\<lambda>o1. ((runID, o1), new_batch (discoveredRun runID db o1))) pool\<rparr>
         else db)"

text \<open>Candidates that were only ever redirect targets are probed but never promoted.\<close>

definition redirectOnly :: "string list \<Rightarrow> discovery_db \<Rightarrow> string \<Rightarrow> bool" where
  "redirectOnly patterns db o1 \<longleftrightarrow>
     probeEligible db o1 \<and> hasEdge ''redirect'' db o1 \<and> \<not> hasEdge ''link'' db o1 \<and> \<not> sqlExcluded patterns o1"

definition probeRedirects ::
    "automatic_config \<Rightarrow> string list \<Rightarrow> go_time \<Rightarrow> go_time \<Rightarrow> discovery_db \<Rightarrow> discovery_db" where
  "probeRedirects config patterns stamp now db =
     (let remainingProbes = maxPendingProbes config - pendingProbes stamp db
      in if remainingProbes > 0
         then fold (insertProbe now)
                (take (nat remainingProbes) (sort (filter (redirectOnly patterns db) (map fst (dd_candidates db))))) db
         else db)"

definition prepareFailed :: "go_error \<Rightarrow> go_error" where
  "prepareFailed err = Wrap ''store: prepare automatic candidates'' [err]"

definition PendingAutomaticCandidates ::
    "host_lib \<Rightarrow> discovery_handle option \<Rightarrow> ctx_value \<Rightarrow> go_error + go_time \<Rightarrow> go_time \<Rightarrow> go_error option \<Rightarrow> int \<Rightarrow>
     discovery_db \<Rightarrow> (go_error + candidate list) \<times> discovery_db" where
  "PendingAutomaticCandidates lib s ctx clock stamp dbErr runID db =
     (case discovery_validate s ctx of
        Some err \<Rightarrow> (Inl err, db)
      | None \<Rightarrow>
          if \<not> ac_Enabled (dh_automatic (the s)) then (Inr [], db)
          else if runID \<le> 0 then (Inl errInvalidCrawlRun, db)
          else (case clock of
                  Inl err \<Rightarrow> (Inl (prepareFailed (Wrap ''store: read automatic admission clock'' [err])), db)
                | Inr now \<Rightarrow>
                    (case dbErr of
                       Some err \<Rightarrow> (Inl (prepareFailed err), db)
                     | None \<Rightarrow>
                         (case activeRun db runID of
                            None \<Rightarrow> (Inl (prepareFailed errUnknownCrawlRun), db)
                          | Some run \<Rightarrow>
                              (let config = dh_automatic (the s);
                                   patterns = automaticExclusionPatterns (automaticExclusions db config);
                                   db1 = allocateBatch patterns runID (rn_max_automatic_promotions run) now db;
                                   db2 = probeRedirects config patterns stamp now db1
                               in case CollectRows (linkCandidate lib) (pendingBatch runID db2) of
                                    Inl err \<Rightarrow>
                                      (Inl (prepareFailed (Wrap ''collect pending automatic candidates'' [err])), db)
                                  | Inr pending \<Rightarrow> (Inr pending, db2))))))"

section \<open>Completing a batch\<close>

record automatic_result =
  ar_Candidate :: candidate
  ar_FailureCategory :: category

definition updateBatch :: "int \<Rightarrow> string \<Rightarrow> (batch_row \<Rightarrow> batch_row) \<Rightarrow> discovery_db \<Rightarrow> discovery_db" where
  "updateBatch runID o1 f db =
     db\<lparr>dd_batches := map (\<lambda>(k, b). (k, if k = (runID, o1) then f b else b)) (dd_batches db)\<rparr>"

definition setOutcome :: "int \<Rightarrow> string \<Rightarrow> string \<Rightarrow> discovery_db \<Rightarrow> discovery_db" where
  "setOutcome runID o1 outcome db = updateBatch runID o1 (\<lambda>b. b\<lparr>bt_outcome := outcome\<rparr>) db"

definition upsertDurableAdmissionOutcome :: "string \<Rightarrow> string \<Rightarrow> go_time \<Rightarrow> discovery_db \<Rightarrow> discovery_db" where
  "upsertDurableAdmissionOutcome o1 outcome updatedAt db =
     db\<lparr>dd_admissions := AList.update o1 (outcome, updatedAt) (dd_admissions db)\<rparr>"

definition updateCandidate :: "string \<Rightarrow> (candidate_row \<Rightarrow> candidate_row) \<Rightarrow> discovery_db \<Rightarrow> discovery_db" where
  "updateCandidate o1 f db =
     db\<lparr>dd_candidates := map (\<lambda>(k, c). (k, if k = o1 then f c else c)) (dd_candidates db)\<rparr>"

text \<open>The run with its promotions so far and the probes that are pending, while a batch is worked off.\<close>

record admission =
  ad_db :: discovery_db
  ad_promotions :: int
  ad_pendingProbes :: int

definition deferTransient ::
    "(int \<Rightarrow> duration \<Rightarrow> duration) \<Rightarrow> int \<Rightarrow> go_time \<Rightarrow> string \<Rightarrow> category \<Rightarrow> discovery_db \<Rightarrow> go_error + discovery_db" where
  "deferTransient retryDelay runID now o1 cat db =
     (case map_of (dd_candidates db) o1 of
        None \<Rightarrow> Inl (Wrap ''read admission retry streak'' [errNoRows])
      | Some c \<Rightarrow>
          (let failures = cd_consecutive_failures c + 1;
               nextAttempt = now + retryDelay failures 0
           in Inr (updateBatch runID o1
                (\<lambda>b. b\<lparr>bt_outcome := ''retry_deferred'', bt_consecutive_failures := failures,
                       bt_last_failure_category := Some cat, bt_next_attempt_at := Some nextAttempt\<rparr>)
                (updateCandidate o1
                  (\<lambda>c. c\<lparr>cd_consecutive_failures := failures, cd_last_failure_category := Some cat,
                         cd_next_attempt_at := Some nextAttempt\<rparr>) db))))"

definition resetStreak :: "string \<Rightarrow> discovery_db \<Rightarrow> discovery_db" where
  "resetStreak o1 db =
     updateCandidate o1 (\<lambda>c. c\<lparr>cd_consecutive_failures := 0, cd_last_failure_category := None,
                               cd_next_attempt_at := None\<rparr>) db"

definition staleTerminalEvidence :: "discovery_db \<Rightarrow> string \<Rightarrow> bool" where
  "staleTerminalEvidence db o1 \<longleftrightarrow>
     (case (effectiveRow (dd_store db) o1, map_of (dd_candidates db) o1) of
        (Some r, Some c) \<Rightarrow> ob_outcome r \<noteq> ''valid'' \<and> cd_last_discovered_at c \<le> ob_observed_at r
      | _ \<Rightarrow> False)"

definition promote :: "int \<Rightarrow> string \<Rightarrow> go_time \<Rightarrow> discovery_db \<Rightarrow> discovery_db" where
  "promote runID o1 now db =
     (let db = insertSchedule o1 db;
          db = updateSource o1 ((sourceOf db o1)\<lparr>ss_automatically_discovered := True\<rparr>) db
      in upsertDurableAdmissionOutcome o1 ''promoted'' now (setOutcome runID o1 ''promoted'' db))"

text \<open>A candidate whose addresses all resolved to public ones, from the reset of its streak on.\<close>

definition admitResolved ::
    "(string \<Rightarrow> string) \<Rightarrow> automatic_config \<Rightarrow> string \<Rightarrow> bool \<Rightarrow> int \<Rightarrow> int \<Rightarrow> go_time \<Rightarrow> string \<Rightarrow> origin \<Rightarrow> admission \<Rightarrow> admission" where
  "admitResolved lower config exclusions paused runID maxPromotions now o1 source ad =
     (let db = resetStreak o1 (ad_db ad);
          verified = currentlyVerified db o1;
          queueExists = (o1 \<in> set (map fst (dd_queue db)));
          probe = (\<not> queueExists \<and> ad_pendingProbes ad < maxPendingProbes config);
          queued = (if probe then insertProbe now o1 db else db);
          pendingProbes = (if probe then ad_pendingProbes ad + 1 else ad_pendingProbes ad)
      in if sourceFlag ss_crawl_blocked db o1 \<or> excludes lower exclusions (origin_Hostname source)
         then ad\<lparr>ad_db := setOutcome runID o1 ''policy_deferred'' db\<rparr>
         else if sourceFlag ss_automatically_discovered db o1 \<or> o1 \<in> set (dd_schedule db) \<or> verified
         then ad\<lparr>ad_db := upsertDurableAdmissionOutcome o1 ''existing'' now (setOutcome runID o1 ''existing'' db)\<rparr>
         else if staleTerminalEvidence db o1
         then ad\<lparr>ad_db := setOutcome runID o1 ''policy_deferred'' db\<rparr>
         else if \<not> queueExists \<and> \<not> probe
         then ad\<lparr>ad_db := setOutcome runID o1 ''capacity_deferred'' db\<rparr>
         else if paused
         then ad\<lparr>ad_db := setOutcome runID o1 ''expansion_paused'' queued, ad_pendingProbes := pendingProbes\<rparr>
         else if ad_promotions ad \<ge> maxPromotions
         then ad\<lparr>ad_db := setOutcome runID o1 ''capacity_deferred'' queued, ad_pendingProbes := pendingProbes\<rparr>
         else \<lparr>ad_db = promote runID o1 now queued, ad_promotions = ad_promotions ad + 1,
               ad_pendingProbes = pendingProbes\<rparr>)"

definition admitCandidate ::
    "host_lib \<Rightarrow> (string \<Rightarrow> string) \<Rightarrow> (int \<Rightarrow> duration \<Rightarrow> duration) \<Rightarrow> automatic_config \<Rightarrow> string \<Rightarrow> bool \<Rightarrow> int \<Rightarrow> int \<Rightarrow>
     (origin \<Rightarrow> category option) \<Rightarrow> go_time \<Rightarrow> string \<Rightarrow> admission \<Rightarrow> go_error + admission" where
  "admitCandidate lib lower retryDelay config exclusions paused runID maxPromotions decisions now o1 ad =
     (case Origin.Parse lib o1 of
        Inl err \<Rightarrow> Inl (Wrap ''invalid automatic admission candidate'' [err])
      | Inr source \<Rightarrow>
          (case decisions source of
             Some cat \<Rightarrow>
               if Transient cat
               then (case deferTransient retryDelay runID now o1 cat (ad_db ad) of
                       Inl err \<Rightarrow> Inl err | Inr db \<Rightarrow> Inr (ad\<lparr>ad_db := db\<rparr>))
               else if cat = CategoryUnsafeAddress
               then Inr (ad\<lparr>ad_db := upsertDurableAdmissionOutcome o1 ''network_rejected'' now
                                       (setOutcome runID o1 ''network_rejected'' (ad_db ad))\<rparr>)
               else Inr (admitResolved lower config exclusions paused runID maxPromotions now o1 source ad)
           | None \<Rightarrow>
               Inr (ad\<lparr>ad_db := upsertDurableAdmissionOutcome o1 ''network_rejected'' now
                                  (setOutcome runID o1 ''network_rejected'' (ad_db ad))\<rparr>)))"

fun admitBatch :: "(string \<Rightarrow> admission \<Rightarrow> go_error + admission) \<Rightarrow> string list \<Rightarrow> admission \<Rightarrow> go_error + admission" where
  "admitBatch step [] ad = Inr ad"
| "admitBatch step (o1 # os) ad = (case step o1 ad of Inl err \<Rightarrow> Inl err | Inr ad \<Rightarrow> admitBatch step os ad)"

text \<open>The promotion telemetry of the runs that discovered the candidates of the batch.\<close>

definition promotedOf :: "int \<Rightarrow> discovery_db \<Rightarrow> int" where
  "promotedOf run db =
     int (length (remdups (map (snd \<circ> fst)
       (filter (\<lambda>(_, b). bt_discovered_run_id b = run \<and> bt_outcome b = ''promoted'') (dd_batches db)))))"

definition firstLinkRun :: "discovery_db \<Rightarrow> string \<Rightarrow> int \<Rightarrow> bool" where
  "firstLinkRun db o1 run \<longleftrightarrow> list_all (\<lambda>(r, candidate, k). candidate = o1 \<and> k = ''link'' \<longrightarrow> run \<le> r) (dd_run_candidates db)"

definition discoveredLinks :: "int \<Rightarrow> discovery_db \<Rightarrow> int" where
  "discoveredLinks run db =
     int (length (filter (\<lambda>(r, candidate, k). r = run \<and> k = ''link'' \<and> firstLinkRun db candidate r)
       (dd_run_candidates db)))"

definition updatePromotionTelemetry :: "int \<Rightarrow> discovery_db \<Rightarrow> discovery_db" where
  "updatePromotionTelemetry runID db =
     (let affected = map (bt_discovered_run_id \<circ> snd) (batchesOf runID db)
      in db\<lparr>dd_runs := map (\<lambda>(n, run). (n, if n \<in> set affected
           then run\<lparr>rn_promotions_admitted := promotedOf n db,
                    rn_promotions_deferred := max (discoveredLinks n db - promotedOf n db) 0\<rparr>
           else run)) (dd_runs db)\<rparr>)"

definition setPromotions :: "int \<Rightarrow> int \<Rightarrow> discovery_db \<Rightarrow> discovery_db" where
  "setPromotions runID promotions db =
     db\<lparr>dd_runs := map (\<lambda>(n, run). (n, if n = runID then run\<lparr>rn_automatic_promotions := promotions\<rparr> else run)) (dd_runs db)\<rparr>"

definition validDecision :: "automatic_result \<Rightarrow> bool" where
  "validDecision r \<longleftrightarrow>
     c_Kind (ar_Candidate r) = KindLink \<and>
     (ar_FailureCategory r = CategoryNone \<or> ar_FailureCategory r = CategoryUnsafeAddress \<or> Transient (ar_FailureCategory r))"

definition CompleteAutomaticCandidates ::
    "host_lib \<Rightarrow> (string \<Rightarrow> string) \<Rightarrow> (int \<Rightarrow> duration \<Rightarrow> duration) \<Rightarrow> discovery_handle option \<Rightarrow> ctx_value \<Rightarrow>
     go_error + go_time \<Rightarrow> go_time \<Rightarrow> go_error option \<Rightarrow> int \<Rightarrow> automatic_result list \<Rightarrow> discovery_db \<Rightarrow>
     go_error option \<times> discovery_db" where
  "CompleteAutomaticCandidates lib lower retryDelay s ctx clock stamp dbErr runID results db =
     (case discovery_validate s ctx of
        Some err \<Rightarrow> (Some err, db)
      | None \<Rightarrow>
          if \<not> ac_Enabled (dh_automatic (the s)) then (None, db)
          else if runID \<le> 0 then (Some errInvalidCrawlRun, db)
          else (case prepareAdmissionCandidates (map ar_Candidate results) of
                  Inl err \<Rightarrow> (Some err, db)
                | Inr _ \<Rightarrow>
                    if \<not> list_all validDecision results then (Some errInvalidDiscoveryCandidate, db)
                    else (case dbErr of
                            Some err \<Rightarrow> (Some err, db)
                          | None \<Rightarrow>
                              (case activeRun db runID of
                                 None \<Rightarrow> (Some errUnknownCrawlRun, db)
                               | Some run \<Rightarrow>
                                   (case clock of
                                      Inl err \<Rightarrow> (Some (Wrap ''store: read discovery clock'' [err]), db)
                                    | Inr now \<Rightarrow>
                                        (let config = dh_automatic (the s);
                                             decisions = map_of (map (\<lambda>r. (c_Origin (ar_Candidate r), ar_FailureCategory r)) results);
                                             step = admitCandidate lib lower retryDelay config (automaticExclusions db config)
                                                      (cn_automatic_expansion_paused (dd_control db)) runID
                                                      (rn_max_automatic_promotions run) decisions now
                                         in case admitBatch step (pendingBatch runID db)
                                                   \<lparr>ad_db = db, ad_promotions = rn_automatic_promotions run,
                                                    ad_pendingProbes = pendingProbes stamp db\<rparr> of
                                              Inl err \<Rightarrow> (Some err, db)
                                            | Inr ad \<Rightarrow>
                                                (None, updatePromotionTelemetry runID
                                                   (setPromotions runID (ad_promotions ad) (ad_db ad)))))))))"

definition AdmitAutomaticCandidates ::
    "host_lib \<Rightarrow> (string \<Rightarrow> string) \<Rightarrow> (int \<Rightarrow> duration \<Rightarrow> duration) \<Rightarrow> discovery_handle option \<Rightarrow> ctx_value \<Rightarrow>
     go_error + go_time \<Rightarrow> go_time \<Rightarrow> go_error option \<Rightarrow> int \<Rightarrow> candidate list \<Rightarrow> discovery_db \<Rightarrow>
     go_error option \<times> discovery_db" where
  "AdmitAutomaticCandidates lib lower retryDelay s ctx clock stamp dbErr runID candidates db =
     CompleteAutomaticCandidates lib lower retryDelay s ctx clock stamp dbErr runID
       (map (\<lambda>c. \<lparr>ar_Candidate = c, ar_FailureCategory = CategoryNone\<rparr>) candidates) db"

section \<open>What a step of a batch does\<close>

text \<open>The tables that no admission writes.\<close>

definition framed :: "discovery_db \<Rightarrow> discovery_db \<Rightarrow> bool" where
  "framed db db' \<longleftrightarrow>
     dd_store db' = dd_store db \<and> dd_avoid db' = dd_avoid db \<and> dd_control db' = dd_control db \<and>
     dd_runs db' = dd_runs db \<and> dd_edges db' = dd_edges db \<and> dd_audit db' = dd_audit db"

lemma framed_refl [simp]: "framed db db"
  by (simp add: framed_def)

lemma framed_trans: "framed db db' \<Longrightarrow> framed db' db'' \<Longrightarrow> framed db db''"
  by (simp add: framed_def)

lemma admission_updates [simp]:
  "dd_sources (setOutcome runID o1 outcome db) = dd_sources db"
  "dd_schedule (setOutcome runID o1 outcome db) = dd_schedule db"
  "dd_queue (setOutcome runID o1 outcome db) = dd_queue db"
  "framed db (setOutcome runID o1 outcome db)"
  "dd_sources (upsertDurableAdmissionOutcome o1 outcome now db) = dd_sources db"
  "dd_schedule (upsertDurableAdmissionOutcome o1 outcome now db) = dd_schedule db"
  "dd_queue (upsertDurableAdmissionOutcome o1 outcome now db) = dd_queue db"
  "framed db (upsertDurableAdmissionOutcome o1 outcome now db)"
  "dd_sources (resetStreak o1 db) = dd_sources db" "dd_schedule (resetStreak o1 db) = dd_schedule db"
  "dd_queue (resetStreak o1 db) = dd_queue db" "framed db (resetStreak o1 db)"
  "dd_sources (insertProbe now o1 db) = dd_sources db" "dd_schedule (insertProbe now o1 db) = dd_schedule db"
  "framed db (insertProbe now o1 db)"
  by (simp_all add: setOutcome_def updateBatch_def upsertDurableAdmissionOutcome_def resetStreak_def updateCandidate_def
      insertProbe_def framed_def)

lemma deferTransient_frame:
  "deferTransient retryDelay runID now o1 cat db = Inr db' \<Longrightarrow>
   dd_sources db' = dd_sources db \<and> dd_schedule db' = dd_schedule db \<and> dd_queue db' = dd_queue db \<and> framed db db'"
  by (auto simp: deferTransient_def updateBatch_def updateCandidate_def framed_def Let_def split: option.splits)

lemma sourceFlag_sources: "dd_sources db' = dd_sources db \<Longrightarrow> sourceFlag f db' = sourceFlag f db"
  by (simp add: sourceFlag_def fun_eq_iff)

lemma sourceOf_sources: "dd_sources db' = dd_sources db \<Longrightarrow> sourceOf db' = sourceOf db"
  by (simp add: sourceOf_def fun_eq_iff)

text \<open>The queue after a step: as before, or with the probe of the candidate, which used up capacity.\<close>

definition probedBy :: "go_time \<Rightarrow> int \<Rightarrow> string \<Rightarrow> admission \<Rightarrow> admission \<Rightarrow> bool" where
  "probedBy now limit o1 ad ad' \<longleftrightarrow>
     dd_queue (ad_db ad') = dd_queue (ad_db ad) \<and> ad_pendingProbes ad' = ad_pendingProbes ad \<or>
     o1 \<notin> set (map fst (dd_queue (ad_db ad))) \<and> ad_pendingProbes ad < limit \<and>
     dd_queue (ad_db ad') = dd_queue (ad_db ad) @ [(o1, new_row now Probe)] \<and>
     ad_pendingProbes ad' = ad_pendingProbes ad + 1"

definition promotedBy ::
    "(string \<Rightarrow> string) \<Rightarrow> string \<Rightarrow> bool \<Rightarrow> int \<Rightarrow> go_time \<Rightarrow> string \<Rightarrow> origin \<Rightarrow> admission \<Rightarrow> admission \<Rightarrow> bool" where
  "promotedBy lower exclusions paused maxPromotions now o1 source ad ad' \<longleftrightarrow>
     (let db = ad_db ad; db' = ad_db ad'
      in \<not> paused \<and> ad_promotions ad < maxPromotions \<and> ad_promotions ad' = ad_promotions ad + 1 \<and>
         \<not> sourceFlag ss_crawl_blocked db o1 \<and> \<not> excludes lower exclusions (origin_Hostname source) \<and>
         \<not> sourceFlag ss_automatically_discovered db o1 \<and> o1 \<notin> set (dd_schedule db) \<and> \<not> currentlyVerified db o1 \<and>
         o1 \<in> set (map fst (dd_queue db')) \<and> dd_schedule db' = dd_schedule db @ [o1] \<and>
         dd_sources db' =
           AList.update o1 ((sourceOf db o1)\<lparr>ss_automatically_discovered := True\<rparr>) (dd_sources db) \<and>
         map_of (dd_admissions db') o1 = Some (''promoted'', now))"

lemma promote_parts:
  assumes "o1 \<notin> set (dd_schedule db)"
  shows "dd_queue (promote runID o1 now db) = dd_queue db" "framed db (promote runID o1 now db)"
    "dd_schedule (promote runID o1 now db) = dd_schedule db @ [o1]"
    "dd_sources (promote runID o1 now db) =
       AList.update o1 ((sourceOf db o1)\<lparr>ss_automatically_discovered := True\<rparr>) (dd_sources db)"
    "map_of (dd_admissions (promote runID o1 now db)) o1 = Some (''promoted'', now)"
  using assms
  by (simp_all add: promote_def Let_def insertSchedule_def updateSource_def upsertDurableAdmissionOutcome_def
      setOutcome_def updateBatch_def framed_def sourceOf_def update_conv')

lemma if_chain:
  assumes "(if b1 then x1 else if b2 then x2 else if b3 then x3 else if b4 then x4 else if b5 then x5
            else if b6 then x6 else x7) = y"
  shows "y = x1 \<or> y = x2 \<or> y = x3 \<or> y = x4 \<or> y = x5 \<or> y = x6 \<or>
         \<not> b1 \<and> \<not> b2 \<and> \<not> b3 \<and> \<not> b4 \<and> \<not> b5 \<and> \<not> b6 \<and> y = x7"
  using assms by metis

lemma admitResolved_cases:
  assumes "admitResolved lower config exclusions paused runID maxPromotions now o1 source ad = ad'"
  shows "framed (ad_db ad) (ad_db ad') \<and> probedBy now (maxPendingProbes config) o1 ad ad' \<and>
    (dd_sources (ad_db ad') = dd_sources (ad_db ad) \<and> dd_schedule (ad_db ad') = dd_schedule (ad_db ad) \<and>
       ad_promotions ad' = ad_promotions ad \<or>
     promotedBy lower exclusions paused maxPromotions now o1 source ad ad')"
proof -
  define db where "db = resetStreak o1 (ad_db ad)"
  define probe where
    "probe \<longleftrightarrow> o1 \<notin> set (map fst (dd_queue (ad_db ad))) \<and> ad_pendingProbes ad < maxPendingProbes config"
  define queued where "queued = (if probe then insertProbe now o1 db else db)"
  have same: "dd_sources db = dd_sources (ad_db ad)" "dd_schedule db = dd_schedule (ad_db ad)"
      "dd_queue db = dd_queue (ad_db ad)" "framed (ad_db ad) db" "dd_store db = dd_store (ad_db ad)"
    by (simp_all add: db_def resetStreak_def updateCandidate_def framed_def)
  have flags: "sourceFlag f db = sourceFlag f (ad_db ad)" "sourceOf db = sourceOf (ad_db ad)"
      "currentlyVerified db o1 = currentlyVerified (ad_db ad) o1" for f
    using sourceFlag_sources [OF same(1)] sourceOf_sources [OF same(1)] by (simp_all add: currentlyVerified_def same(5))
  have q: "dd_sources queued = dd_sources (ad_db ad)" "dd_schedule queued = dd_schedule (ad_db ad)"
      "framed (ad_db ad) queued"
    using same(4) framed_trans [OF same(4)] by (simp_all add: queued_def same)
  note qs = sourceOf_sources [OF q(1)]
  have qq: "dd_queue queued = (if probe then dd_queue (ad_db ad) @ [(o1, new_row now Probe)] else dd_queue (ad_db ad))"
    by (simp add: queued_def insertProbe_def same probe_def)
  note ad' = assms [unfolded admitResolved_def Let_def, folded db_def, unfolded same flags, folded probe_def,
      folded queued_def]
  have fr: "framed (ad_db ad) (setOutcome runID o1 x db)" "framed (ad_db ad) (setOutcome runID o1 x queued)"
      "framed (ad_db ad) (upsertDurableAdmissionOutcome o1 x now (setOutcome runID o1 x db))" for x
    using same(4) q(3) by (blast intro: framed_trans admission_updates)+
  from if_chain [OF ad'] show ?thesis
  proof (elim disjE conjE)
    assume "\<not> paused" "\<not> maxPromotions \<le> ad_promotions ad" and
      "\<not> (sourceFlag ss_crawl_blocked (ad_db ad) o1 \<or> excludes lower exclusions (origin_Hostname source))"
      "\<not> (sourceFlag ss_automatically_discovered (ad_db ad) o1 \<or> o1 \<in> set (dd_schedule (ad_db ad)) \<or>
          currentlyVerified (ad_db ad) o1)" "\<not> (o1 \<notin> set (map fst (dd_queue (ad_db ad))) \<and> \<not> probe)" and
      eq: "ad' = \<lparr>ad_db = promote runID o1 now queued, ad_promotions = ad_promotions ad + 1,
               ad_pendingProbes = if probe then ad_pendingProbes ad + 1 else ad_pendingProbes ad\<rparr>"
    then have p: "\<not> paused" "ad_promotions ad < maxPromotions" "\<not> sourceFlag ss_crawl_blocked (ad_db ad) o1"
        "\<not> excludes lower exclusions (origin_Hostname source)" "\<not> sourceFlag ss_automatically_discovered (ad_db ad) o1"
        "o1 \<notin> set (dd_schedule (ad_db ad))" "\<not> currentlyVerified (ad_db ad) o1"
        "o1 \<in> set (map fst (dd_queue (ad_db ad))) \<or> probe"
      by simp_all
    have "o1 \<notin> set (dd_schedule queued)" using p(6) q(2) by simp
    note pr = promote_parts [OF this, of runID now, unfolded q qs]
    have "promotedBy lower exclusions paused maxPromotions now o1 source ad ad'"
      using p pr qq by (auto simp: promotedBy_def Let_def eq)
    moreover have "probedBy now (maxPendingProbes config) o1 ad ad'"
      using pr(1) qq by (simp add: probedBy_def probe_def eq)
    moreover have "framed (ad_db ad) (ad_db ad')" using framed_trans [OF q(3) pr(2)] by (simp add: eq)
    ultimately show ?thesis by blast
  qed (use fr in \<open>simp_all add: probedBy_def same q qq probe_def\<close>)
qed

lemma admitCandidate_cases:
  assumes "admitCandidate lib lower retryDelay config exclusions paused runID maxPromotions decisions now o1 ad = Inr ad'"
  shows "framed (ad_db ad) (ad_db ad') \<and> probedBy now (maxPendingProbes config) o1 ad ad' \<and>
    (dd_sources (ad_db ad') = dd_sources (ad_db ad) \<and> dd_schedule (ad_db ad') = dd_schedule (ad_db ad) \<and>
       ad_promotions ad' = ad_promotions ad \<or>
     (\<exists>source cat. Origin.Parse lib o1 = Inr source \<and> decisions source = Some cat \<and> \<not> Transient cat \<and>
        cat \<noteq> CategoryUnsafeAddress \<and> promotedBy lower exclusions paused maxPromotions now o1 source ad ad'))"
proof -
  obtain source where source: "Origin.Parse lib o1 = Inr source"
    using assms by (auto simp: admitCandidate_def split: sum.splits)
  show ?thesis
  proof (cases "\<exists>cat. decisions source = Some cat \<and> \<not> Transient cat \<and> cat \<noteq> CategoryUnsafeAddress")
    case True
    with assms source have "admitResolved lower config exclusions paused runID maxPromotions now o1 source ad = ad'"
      by (auto simp: admitCandidate_def)
    from admitResolved_cases [OF this] True source show ?thesis by auto
  next
    case False
    with assms source have "(\<exists>cat db. deferTransient retryDelay runID now o1 cat (ad_db ad) = Inr db \<and> ad' = ad\<lparr>ad_db := db\<rparr>) \<or>
        ad' = ad\<lparr>ad_db := upsertDurableAdmissionOutcome o1 ''network_rejected'' now
                            (setOutcome runID o1 ''network_rejected'' (ad_db ad))\<rparr>"
      by (auto simp: admitCandidate_def split: option.splits if_splits sum.splits)
    moreover have "framed (ad_db ad) (upsertDurableAdmissionOutcome o1 x now (setOutcome runID o1 x (ad_db ad)))" for x
      by (blast intro: framed_trans admission_updates)
    ultimately show ?thesis
      by (elim disjE exE conjE) (auto simp: probedBy_def dest: deferTransient_frame)
  qed
qed

lemma admitBatch_rule:
  assumes "admitBatch step batch ad = Inr ad'" and "I ad"
    and "\<And>o1 ad ad'. o1 \<in> set batch \<Longrightarrow> I ad \<Longrightarrow> step o1 ad = Inr ad' \<Longrightarrow> I ad'"
  shows "I ad'"
  using assms
proof (induction batch arbitrary: ad)
  case Nil
  then show ?case by simp
next
  case (Cons o1 batch)
  from Cons.prems(1) obtain ad1 where "step o1 ad = Inr ad1" "admitBatch step batch ad1 = Inr ad'"
    by (auto split: sum.splits)
  with Cons show ?case by auto
qed

section \<open>The capacity for probes\<close>

lemma pendingProbes_append:
  "pendingProbes t (db\<lparr>dd_queue := dd_queue db @ new\<rparr>) \<le> pendingProbes t db + int (length new)"
  using length_filter_le [of "\<lambda>(_, row). activeProbe t row" new] by (simp add: pendingProbes_def)

lemma pendingProbes_queue: "dd_queue db' = dd_queue db \<Longrightarrow> pendingProbes t db' = pendingProbes t db"
  by (simp add: pendingProbes_def)

lemma insertProbe_pending: "pendingProbes t (insertProbe now o1 db) \<le> pendingProbes t db + 1"
  using pendingProbes_append [of t db "[(o1, new_row now Probe)]"] by (simp add: insertProbe_def)

lemma insertProbes_pending: "pendingProbes t (fold (insertProbe now) os db) \<le> pendingProbes t db + int (length os)"
proof (induction os arbitrary: db)
  case (Cons o1 os)
  from Cons [of "insertProbe now o1 db"] insertProbe_pending [of t now o1 db] show ?case by simp
qed simp

lemma int_take: "int (length (take (nat n) xs)) \<le> max n 0"
  by (simp add: min_def) linarith

lemma admitProbes_capacity:
  "pendingProbes stamp (snd (admitProbes config stamp availableAt eligible db)) \<le>
   max (maxPendingProbes config) (pendingProbes stamp db)"
proof -
  let ?chosen = "take (nat (max (maxPendingProbes config - pendingProbes stamp db) 0))
    (sort (filter (probeEligible db) eligible))"
  have "int (length ?chosen) \<le> max (maxPendingProbes config - pendingProbes stamp db) 0"
    using int_take [of "max (maxPendingProbes config - pendingProbes stamp db) 0"] by simp
  with insertProbes_pending [of stamp availableAt ?chosen db] show ?thesis
    unfolding admitProbes_def Let_def snd_conv by linarith
qed

lemma probeRedirects_capacity:
  "pendingProbes stamp (probeRedirects config patterns stamp now db) \<le>
   max (maxPendingProbes config) (pendingProbes stamp db)"
proof -
  let ?os = "take (nat (maxPendingProbes config - pendingProbes stamp db))
    (sort (filter (redirectOnly patterns db) (map fst (dd_candidates db))))"
  have "int (length ?os) \<le> max (maxPendingProbes config - pendingProbes stamp db) 0" by (rule int_take)
  with insertProbes_pending [of stamp now ?os db] show ?thesis
    unfolding probeRedirects_def Let_def by (smt (verit))
qed

lemma schedule_capacity:
  "pendingProbes (pb_stamp pb) (snd (scheduleProbeCandidatesCounted lower h pb candidates availableAt db)) \<le>
   max (maxPendingProbes (dh_automatic h))
     (max (pendingProbes (pb_stamp pb) db) (pendingProbes (pb_stamp pb) (pb_others pb db)))"
  using admitProbes_capacity [of "pb_stamp pb" "dh_automatic h" _ _ "pb_others pb db"]
  by (auto simp: scheduleProbeCandidatesCounted_def Let_def case_prod_beta le_max_iff_disj split: option.splits sum.splits)

lemma probedBy_capacity:
  assumes "probedBy now limit o1 ad ad'" and "pendingProbes t (ad_db ad) \<le> ad_pendingProbes ad"
    and "ad_pendingProbes ad \<le> max limit n"
  shows "pendingProbes t (ad_db ad') \<le> ad_pendingProbes ad' \<and> ad_pendingProbes ad' \<le> max limit n"
  using assms(1) unfolding probedBy_def
proof (elim disjE conjE)
  assume "dd_queue (ad_db ad') = dd_queue (ad_db ad) @ [(o1, new_row now Probe)]"
    and p: "ad_pendingProbes ad' = ad_pendingProbes ad + 1" "ad_pendingProbes ad < limit"
  then have "pendingProbes t (ad_db ad') \<le> pendingProbes t (ad_db ad) + 1"
    using pendingProbes_append [of t "ad_db ad" "[(o1, new_row now Probe)]"] by (simp add: pendingProbes_def)
  with p assms(2) show ?thesis by simp
qed (use assms pendingProbes_queue [of "ad_db ad'" "ad_db ad" t] in simp)

lemma admitBatch_capacity:
  assumes "admitBatch (admitCandidate lib lower retryDelay config exclusions paused runID maxPromotions decisions now) batch ad =
      Inr ad'" and "pendingProbes t (ad_db ad) \<le> ad_pendingProbes ad" and "ad_pendingProbes ad \<le> max (maxPendingProbes config) n"
  shows "pendingProbes t (ad_db ad') \<le> max (maxPendingProbes config) n"
proof -
  have "pendingProbes t (ad_db ad') \<le> ad_pendingProbes ad' \<and> ad_pendingProbes ad' \<le> max (maxPendingProbes config) n"
    using assms(1) by (rule admitBatch_rule) (use assms(2,3) admitCandidate_cases probedBy_capacity in blast)+
  then show ?thesis by linarith
qed

lemma promotion_counters [simp]:
  "dd_queue (updatePromotionTelemetry runID db) = dd_queue db"
  "dd_sources (updatePromotionTelemetry runID db) = dd_sources db"
  "dd_schedule (updatePromotionTelemetry runID db) = dd_schedule db"
  "dd_queue (setPromotions runID n db) = dd_queue db"
  "dd_sources (setPromotions runID n db) = dd_sources db"
  "dd_schedule (setPromotions runID n db) = dd_schedule db"
  "dd_avoid (updatePromotionTelemetry runID db) = dd_avoid db"
  "dd_avoid (setPromotions runID n db) = dd_avoid db"
  by (simp_all add: updatePromotionTelemetry_def setPromotions_def Let_def)

lemma CompleteAutomaticCandidates_cases:
  assumes "CompleteAutomaticCandidates lib lower retryDelay s ctx clock stamp dbErr runID results db = (err, db')"
  obtains (same) "db' = db"
  | (completed) run now ad where "err = None" "activeRun db runID = Some run" "clock = Inr now" "list_all validDecision results"
      "distinct (map (c_Origin \<circ> ar_Candidate) results)"
      "admitBatch (admitCandidate lib lower retryDelay (dh_automatic (the s)) (automaticExclusions db (dh_automatic (the s)))
         (cn_automatic_expansion_paused (dd_control db)) runID (rn_max_automatic_promotions run)
         (map_of (map (\<lambda>r. (c_Origin (ar_Candidate r), ar_FailureCategory r)) results)) now) (pendingBatch runID db)
         \<lparr>ad_db = db, ad_promotions = rn_automatic_promotions run, ad_pendingProbes = pendingProbes stamp db\<rparr> = Inr ad"
      "db' = updatePromotionTelemetry runID (setPromotions runID (ad_promotions ad) (ad_db ad))"
proof (cases "db' = db")
  case False
  with assms have "\<exists>run now ad. err = None \<and> activeRun db runID = Some run \<and> clock = Inr now \<and> list_all validDecision results \<and>
      distinct (map (c_Origin \<circ> ar_Candidate) results) \<and>
      admitBatch (admitCandidate lib lower retryDelay (dh_automatic (the s)) (automaticExclusions db (dh_automatic (the s)))
         (cn_automatic_expansion_paused (dd_control db)) runID (rn_max_automatic_promotions run)
         (map_of (map (\<lambda>r. (c_Origin (ar_Candidate r), ar_FailureCategory r)) results)) now) (pendingBatch runID db)
         \<lparr>ad_db = db, ad_promotions = rn_automatic_promotions run, ad_pendingProbes = pendingProbes stamp db\<rparr> = Inr ad \<and>
      db' = updatePromotionTelemetry runID (setPromotions runID (ad_promotions ad) (ad_db ad))"
    by (auto simp: CompleteAutomaticCandidates_def Let_def prepareAdmissionCandidates_def
        split: option.splits sum.splits if_splits)
  with completed show thesis by blast
qed (rule same)

section \<open>Promotions\<close>

definition newlyAutomatic :: "discovery_db \<Rightarrow> discovery_db \<Rightarrow> string set" where
  "newlyAutomatic db db' =
     {o1. sourceFlag ss_automatically_discovered db' o1 \<and> \<not> sourceFlag ss_automatically_discovered db o1}"

lemma sourceFlag_update:
  "dd_sources db' = AList.update o1 r (dd_sources db) \<Longrightarrow>
   sourceFlag f db' o2 = (if o2 = o1 then f r else sourceFlag f db o2)"
  by (simp add: sourceFlag_def update_conv')

lemma sourceFlag_sourceOf: "\<not> f source_state_default \<Longrightarrow> f (sourceOf db o1) = sourceFlag f db o1"
  by (simp add: sourceFlag_def sourceOf_def split: option.splits)

text \<open>What a promoted candidate satisfies in the database of the batch, and afterwards.\<close>

definition promotable ::
    "host_lib \<Rightarrow> (string \<Rightarrow> string) \<Rightarrow> string \<Rightarrow> (origin \<Rightarrow> category option) \<Rightarrow> string list \<Rightarrow> discovery_db \<Rightarrow> string \<Rightarrow> bool" where
  "promotable lib lower exclusions decisions batch db o1 \<longleftrightarrow>
     o1 \<in> set batch \<and> \<not> sourceFlag ss_crawl_blocked db o1 \<and> \<not> currentlyVerified db o1 \<and>
     \<not> cn_automatic_expansion_paused (dd_control db) \<and>
     (\<exists>source cat. Origin.Parse lib o1 = Inr source \<and> decisions source = Some cat \<and> \<not> Transient cat \<and>
        cat \<noteq> CategoryUnsafeAddress \<and> \<not> excludes lower exclusions (origin_Hostname source))"

definition batch_inv ::
    "(string \<Rightarrow> bool) \<Rightarrow> int \<Rightarrow> int \<Rightarrow> discovery_db \<Rightarrow> admission \<Rightarrow> bool" where
  "batch_inv good start maxPromotions db ad \<longleftrightarrow>
     (let db' = ad_db ad; new = newlyAutomatic db db'
      in framed db db' \<and> sourceFlag ss_crawl_blocked db' = sourceFlag ss_crawl_blocked db \<and>
         finite new \<and> ad_promotions ad = start + int (card new) \<and> ad_promotions ad \<le> max start maxPromotions \<and>
         (\<forall>o1. sourceFlag ss_automatically_discovered db o1 \<longrightarrow> sourceFlag ss_automatically_discovered db' o1) \<and>
         (\<forall>o1. o1 \<in> new \<longrightarrow> good o1 \<and> o1 \<in> set (map fst (dd_queue db')) \<and> o1 \<in> set (dd_schedule db')))"

lemma batch_inv_kept:
  assumes "batch_inv good start maxPromotions db ad" and "framed (ad_db ad) (ad_db ad')"
    and "dd_sources (ad_db ad') = dd_sources (ad_db ad)" and "dd_schedule (ad_db ad') = dd_schedule (ad_db ad)"
    and "ad_promotions ad' = ad_promotions ad" and "probedBy now limit o1 ad ad'"
  shows "batch_inv good start maxPromotions db ad'"
proof -
  have q: "set (map fst (dd_queue (ad_db ad))) \<subseteq> set (map fst (dd_queue (ad_db ad')))"
    using assms(6) by (auto simp: probedBy_def)
  have "newlyAutomatic db (ad_db ad') = newlyAutomatic db (ad_db ad)"
    using sourceFlag_sources [OF assms(3)] by (simp add: newlyAutomatic_def)
  then show ?thesis
    using assms(1,4,5) framed_trans [OF _ assms(2)] q sourceFlag_sources [OF assms(3)]
    unfolding batch_inv_def Let_def by auto
qed

lemma batch_inv_promoted:
  assumes "batch_inv good start maxPromotions db ad" and "framed (ad_db ad) (ad_db ad')"
    and "promotedBy lower exclusions paused maxPromotions now o1 source ad ad'" and "probedBy now limit o1 ad ad'"
    and "good o1"
  shows "batch_inv good start maxPromotions db ad'"
proof -
  note p = assms(3) [unfolded promotedBy_def Let_def] and inv = assms(1) [unfolded batch_inv_def Let_def]
  let ?r = "(sourceOf (ad_db ad) o1)\<lparr>ss_automatically_discovered := True\<rparr>"
  have upd: "dd_sources (ad_db ad') = AList.update o1 ?r (dd_sources (ad_db ad))" using p by simp
  have auto1: "sourceFlag ss_automatically_discovered (ad_db ad') o2 \<longleftrightarrow>
      o2 = o1 \<or> sourceFlag ss_automatically_discovered (ad_db ad) o2" for o2
    by (simp add: sourceFlag_update [OF upd])
  have "\<not> ss_crawl_blocked ?r"
    using p sourceFlag_sourceOf [of ss_crawl_blocked "ad_db ad" o1] by (simp add: source_state_default_def)
  then have blocked: "sourceFlag ss_crawl_blocked (ad_db ad') = sourceFlag ss_crawl_blocked (ad_db ad)"
    using p by (auto simp: sourceFlag_update [OF upd] fun_eq_iff)
  have fresh: "\<not> sourceFlag ss_automatically_discovered db o1" "o1 \<notin> newlyAutomatic db (ad_db ad)"
    using p inv by (auto simp: newlyAutomatic_def)
  then have new: "newlyAutomatic db (ad_db ad') = insert o1 (newlyAutomatic db (ad_db ad))"
    by (auto simp: newlyAutomatic_def auto1)
  have q: "set (map fst (dd_queue (ad_db ad))) \<subseteq> set (map fst (dd_queue (ad_db ad')))"
    using assms(4) by (auto simp: probedBy_def)
  show ?thesis
    unfolding batch_inv_def Let_def new blocked
    using inv p fresh(2) q assms(5) framed_trans [OF _ assms(2)] auto1 by auto
qed

lemma map_of_rows: "map_of (map (\<lambda>(k, v). (k, f k v)) xs) k = map_option (f k) (map_of xs k)"
  by (induction xs) auto

lemma setPromotions_run:
  "map_of (dd_runs (setPromotions runID n db)) k =
   map_option (\<lambda>run. if k = runID then run\<lparr>rn_automatic_promotions := n\<rparr> else run) (map_of (dd_runs db) k)"
  by (simp add: setPromotions_def map_of_rows)

lemma telemetry_run:
  "\<exists>f. map_of (dd_runs (updatePromotionTelemetry runID db)) k = map_option f (map_of (dd_runs db) k) \<and>
     (\<forall>run. rn_automatic_promotions (f run) = rn_automatic_promotions run)"
  by (auto simp: updatePromotionTelemetry_def Let_def map_of_rows)

lemma promotions_of_run:
  assumes "activeRun db runID = Some run" and "dd_runs db1 = dd_runs db"
  shows "\<exists>run'. map_of (dd_runs (updatePromotionTelemetry runID (setPromotions runID n db1))) runID = Some run' \<and>
    rn_automatic_promotions run' = n"
proof -
  from assms have "map_of (dd_runs db1) runID = Some run"
    by (auto simp: activeRun_def split: option.splits if_splits)
  then show ?thesis
    using telemetry_run [of runID "setPromotions runID n db1" runID] by (auto simp: setPromotions_run)
qed

section \<open>Evidence\<close>

text \<open>The evidence of one candidate: its row and its edge cover the time of the discovery.\<close>

definition evident :: "go_time \<Rightarrow> string \<Rightarrow> candidate \<Rightarrow> discovery_db \<Rightarrow> bool" where
  "evident now source c db \<longleftrightarrow>
     (case map_of (dd_candidates db) (origin_String (c_Origin c)) of
        None \<Rightarrow> False | Some row \<Rightarrow> cd_first_discovered_at row \<le> now \<and> now \<le> cd_last_discovered_at row) \<and>
     (case map_of (dd_edges db) (source, origin_String (c_Origin c), the (discoveryKindText (c_Kind c))) of
        None \<Rightarrow> False | Some e \<Rightarrow> ed_first_discovered_at e \<le> now \<and> now \<le> ed_last_discovered_at e)"

lemma recordCandidate_tables:
  "dd_candidates (recordCandidate source runID now c db) =
     AList.update (origin_String (c_Origin c))
       (storedCandidate now (map_of (dd_candidates db) (origin_String (c_Origin c)))) (dd_candidates db)"
  "dd_edges (recordCandidate source runID now c db) =
     (let key = (source, origin_String (c_Origin c), the (discoveryKindText (c_Kind c)))
      in AList.update key (storedEdge now (map_of (dd_edges db) key)) (dd_edges db))"
  by (simp_all add: recordCandidate_def attribute_def storeEdge_def reactivate_def insertSchedule_def storeEvidence_def Let_def)

lemma recordCandidate_evident:
  "evident now source c (recordCandidate source runID now c db)"
  "evident now source c db \<Longrightarrow> evident now source c (recordCandidate source runID now c' db)"
  by (auto simp: evident_def recordCandidate_tables Let_def update_conv' storedCandidate_def storedEdge_def split: option.splits)

lemma recordCandidates_evident:
  "c \<in> set cs \<or> evident now source c db \<Longrightarrow> evident now source c (fold (recordCandidate source runID now) cs db)"
  by (induction cs arbitrary: db) (auto simp: recordCandidate_evident)

lemma insertProbes_tables:
  "dd_candidates (fold (insertProbe t) os db) = dd_candidates db" "dd_edges (fold (insertProbe t) os db) = dd_edges db"
  "dd_sources (fold (insertProbe t) os db) = dd_sources db"
  by (induction os arbitrary: db) (simp_all add: insertProbe_def)

lemma schedule_evidence:
  assumes "dd_candidates (pb_others pb db) = dd_candidates db" "dd_edges (pb_others pb db) = dd_edges db"
  shows "dd_candidates (snd (scheduleProbeCandidatesCounted lower h pb cs availableAt db)) = dd_candidates db \<and>
    dd_edges (snd (scheduleProbeCandidatesCounted lower h pb cs availableAt db)) = dd_edges db"
  using assms
  by (auto simp: scheduleProbeCandidatesCounted_def admitProbes_def Let_def insertProbes_tables
      split: option.splits sum.splits)

section \<open>What admission keeps of the source table\<close>

lemma Complete_preserves:
  assumes "CompleteAutomaticCandidates lib lower retryDelay s ctx clock stamp dbErr runID results db = (err, db')" and "K db"
    and cong: "\<And>d d'. K d \<Longrightarrow> dd_sources d' = dd_sources d \<Longrightarrow> dd_avoid d' = dd_avoid d \<Longrightarrow> K d'"
    and promoted: "\<And>d o1 source. K d \<Longrightarrow> dd_avoid d = dd_avoid db \<Longrightarrow> Origin.Parse lib o1 = Inr source \<Longrightarrow>
      \<not> sourceFlag ss_crawl_blocked d o1 \<Longrightarrow>
      \<not> excludes lower (automaticExclusions db (dh_automatic (the s))) (origin_Hostname source) \<Longrightarrow>
      K (updateSource o1 ((sourceOf d o1)\<lparr>ss_automatically_discovered := True\<rparr>) d)"
  shows "K db'"
  using assms(1)
proof (cases rule: CompleteAutomaticCandidates_cases)
  case (completed run now ad)
  have "K (ad_db ad) \<and> dd_avoid (ad_db ad) = dd_avoid db"
    using completed(6)
  proof (rule admitBatch_rule)
    fix o1 ad1 ad2
    assume K: "K (ad_db ad1) \<and> dd_avoid (ad_db ad1) = dd_avoid db"
      and step: "admitCandidate lib lower retryDelay (dh_automatic (the s)) (automaticExclusions db (dh_automatic (the s)))
         (cn_automatic_expansion_paused (dd_control db)) runID (rn_max_automatic_promotions run)
         (map_of (map (\<lambda>r. (c_Origin (ar_Candidate r), ar_FailureCategory r)) results)) now o1 ad1 = Inr ad2"
    note c = admitCandidate_cases [OF step]
    have avoid: "dd_avoid (ad_db ad2) = dd_avoid (ad_db ad1)" using c by (simp add: framed_def)
    show "K (ad_db ad2) \<and> dd_avoid (ad_db ad2) = dd_avoid db"
    proof (cases "dd_sources (ad_db ad2) = dd_sources (ad_db ad1)")
      case True
      with cong K avoid show ?thesis by metis
    next
      case False
      with c obtain source where p: "Origin.Parse lib o1 = Inr source" "promotedBy lower
          (automaticExclusions db (dh_automatic (the s))) (cn_automatic_expansion_paused (dd_control db))
          (rn_max_automatic_promotions run) now o1 source ad1 ad2"
        by blast
      let ?d = "updateSource o1 ((sourceOf (ad_db ad1) o1)\<lparr>ss_automatically_discovered := True\<rparr>) (ad_db ad1)"
      have "K ?d"
        using p(2) K by (intro promoted [OF _ _ p(1)]) (simp_all add: promotedBy_def Let_def)
      moreover have "dd_sources (ad_db ad2) = dd_sources ?d" "dd_avoid (ad_db ad2) = dd_avoid ?d"
        using p(2) avoid by (simp_all add: promotedBy_def Let_def updateSource_def)
      ultimately show ?thesis using cong K avoid by metis
    qed
  qed (use assms(2) in simp)
  with cong [of "ad_db ad" db'] completed(7) show ?thesis by simp
qed (use assms(2) in simp)

lemma blocksHold_cong:
  "blocksHold lib lower config db \<Longrightarrow> dd_sources db' = dd_sources db \<Longrightarrow> dd_avoid db' = dd_avoid db \<Longrightarrow>
   blocksHold lib lower config db'"
  by (simp add: blocksHold_def automaticExclusions_def)

lemma Complete_blocks:
  assumes "blocksHold lib lower (dh_automatic (the s)) db"
    and "CompleteAutomaticCandidates lib lower retryDelay s ctx clock stamp dbErr runID results db = (err, db')"
  shows "blocksHold lib lower (dh_automatic (the s)) db'"
  using assms(2,1)
proof (rule Complete_preserves)
  fix d o1 source
  assume K: "blocksHold lib lower (dh_automatic (the s)) d" and av: "dd_avoid d = dd_avoid db"
    and p: "Origin.Parse lib o1 = Inr source" "\<not> sourceFlag ss_crawl_blocked d o1"
      "\<not> excludes lower (automaticExclusions db (dh_automatic (the s))) (origin_Hostname source)"
  have "\<not> ss_crawl_blocked (sourceOf d o1)" "\<not> ss_operator_blocked (sourceOf d o1)"
    using K p(2) unfolding blocksHold_def
    by (auto simp: sourceFlag_def sourceOf_def source_state_default_def split: option.splits)
  moreover have "automaticExclusions d (dh_automatic (the s)) = automaticExclusions db (dh_automatic (the s))"
    using av by (simp add: automaticExclusions_def)
  ultimately show "blocksHold lib lower (dh_automatic (the s))
      (updateSource o1 ((sourceOf d o1)\<lparr>ss_automatically_discovered := True\<rparr>) d)"
    using p by (intro blocksHold_update [OF K]) (simp_all add: dueBlock_def)
qed (rule blocksHold_cong)

lemma Complete_leases:
  "sameLeases db (snd (CompleteAutomaticCandidates lib lower retryDelay s ctx clock stamp dbErr runID results db))"
proof -
  obtain err db' where out: "CompleteAutomaticCandidates lib lower retryDelay s ctx clock stamp dbErr runID results db =
      (err, db')" by fastforce
  have "sameLeases db db'"
    using out sameLeases_refl
  proof (rule Complete_preserves)
    fix d o1 assume "sameLeases db d"
    then show "sameLeases db (updateSource o1 ((sourceOf d o1)\<lparr>ss_automatically_discovered := True\<rparr>) d)"
      by (rule sameLeases_trans) (rule sameLeases_update, simp_all)
  qed (use sameLeases_trans sameLeases_sources in blast)
  with out show ?thesis by simp
qed

section \<open>Properties\<close>

text \<open>
  The capacity for probes is never exceeded: no statement that queues probes (after evidence was recorded,
  when stranded candidates are drained, when a batch is prepared or completed) brings the number of active
  probes above the configured limit, unless it was there already.
\<close>
theorem probe_capacity_kept:
  "pendingProbes (pb_stamp pb) (snd (scheduleProbeCandidatesCounted lower h pb candidates availableAt db)) \<le>
     max (maxPendingProbes (dh_automatic h))
       (max (pendingProbes (pb_stamp pb) db) (pendingProbes (pb_stamp pb) (pb_others pb db))) \<and>
   pendingProbes stamp (snd (PendingAutomaticCandidates lib (Some h) ctx clock stamp dbErr runID db)) \<le>
     max (maxPendingProbes (dh_automatic h)) (pendingProbes stamp db) \<and>
   pendingProbes stamp (snd (CompleteAutomaticCandidates lib lower retryDelay (Some h) ctx clock stamp dbErr runID results db)) \<le>
     max (maxPendingProbes (dh_automatic h)) (pendingProbes stamp db)"
proof (intro conjI schedule_capacity)
  have "pendingProbes stamp (allocateBatch patterns runID m now db) = pendingProbes stamp db" for patterns m now
    by (rule pendingProbes_queue) (simp add: allocateBatch_def Let_def)
  then have "pendingProbes stamp (probeRedirects (dh_automatic h) patterns stamp now (allocateBatch patterns' runID m now' db)) \<le>
      max (maxPendingProbes (dh_automatic h)) (pendingProbes stamp db)" for patterns patterns' now now' m
    using probeRedirects_capacity [of stamp "dh_automatic h" patterns now "allocateBatch patterns' runID m now' db"] by simp
  then show "pendingProbes stamp (snd (PendingAutomaticCandidates lib (Some h) ctx clock stamp dbErr runID db)) \<le>
     max (maxPendingProbes (dh_automatic h)) (pendingProbes stamp db)"
    by (auto simp: PendingAutomaticCandidates_def Let_def split: option.splits sum.splits)
next
  obtain err db' where out: "CompleteAutomaticCandidates lib lower retryDelay (Some h) ctx clock stamp dbErr runID results db =
      (err, db')" by fastforce
  then have "pendingProbes stamp db' \<le> max (maxPendingProbes (dh_automatic h)) (pendingProbes stamp db)"
  proof (cases rule: CompleteAutomaticCandidates_cases)
    case (completed run now ad)
    from admitBatch_capacity [OF completed(6), of stamp "pendingProbes stamp db"] completed(7)
      pendingProbes_queue [of db' "ad_db ad" stamp] show ?thesis by simp
  qed simp
  with out show "pendingProbes stamp (snd (CompleteAutomaticCandidates lib lower retryDelay (Some h) ctx clock stamp dbErr
      runID results db)) \<le> max (maxPendingProbes (dh_automatic h)) (pendingProbes stamp db)" by simp
qed

lemma Complete_promotes:
  assumes "CompleteAutomaticCandidates lib lower retryDelay (Some h) ctx clock stamp dbErr runID results db = (err, db')"
    and "activeRun db runID = Some run"
  shows "finite (newlyAutomatic db db') \<and>
    int (card (newlyAutomatic db db')) \<le> max 0 (rn_max_automatic_promotions run - rn_automatic_promotions run) \<and>
    (\<exists>run'. map_of (dd_runs db') runID = Some run' \<and>
       rn_automatic_promotions run' = rn_automatic_promotions run + int (card (newlyAutomatic db db'))) \<and>
    (\<forall>o1. o1 \<in> newlyAutomatic db db' \<longrightarrow>
       o1 \<in> set (pendingBatch runID db) \<and> \<not> sourceFlag ss_crawl_blocked db' o1 \<and> \<not> currentlyVerified db o1 \<and>
       \<not> cn_automatic_expansion_paused (dd_control db) \<and> o1 \<in> set (map fst (dd_queue db')) \<and> o1 \<in> set (dd_schedule db') \<and>
       (\<exists>source r. Origin.Parse lib o1 = Inr source \<and> r \<in> set results \<and> c_Origin (ar_Candidate r) = source \<and>
          ar_FailureCategory r = CategoryNone \<and>
          \<not> excludes lower (automaticExclusions db (dh_automatic h)) (origin_Hostname source)))"
  using assms(1)
proof (cases rule: CompleteAutomaticCandidates_cases)
  case same
  with assms(2) show ?thesis
    by (auto simp: newlyAutomatic_def activeRun_def split: option.splits if_splits)
next
  case (completed run' now ad)
  let ?excl = "automaticExclusions db (dh_automatic h)"
  let ?dec = "map_of (map (\<lambda>r. (c_Origin (ar_Candidate r), ar_FailureCategory r)) results)"
  let ?good = "promotable lib lower ?excl ?dec (pendingBatch runID db) db"
  let ?inv = "batch_inv ?good (rn_automatic_promotions run) (rn_max_automatic_promotions run) db"
  have run: "run' = run" using completed(2) assms(2) by simp
  have "?inv ad"
    using completed(6) [unfolded run option.sel]
  proof (rule admitBatch_rule)
    show "?inv \<lparr>ad_db = db, ad_promotions = rn_automatic_promotions run, ad_pendingProbes = pendingProbes stamp db\<rparr>"
      by (simp add: batch_inv_def newlyAutomatic_def)
  next
    fix o1 ad1 ad2
    assume o1: "o1 \<in> set (pendingBatch runID db)" and inv: "?inv ad1"
      and step: "admitCandidate lib lower retryDelay (dh_automatic h) ?excl (cn_automatic_expansion_paused (dd_control db)) runID
        (rn_max_automatic_promotions run) ?dec now o1 ad1 = Inr ad2"
    note c = admitCandidate_cases [OF step]
    have st: "dd_store (ad_db ad1) = dd_store db" "sourceFlag ss_crawl_blocked (ad_db ad1) = sourceFlag ss_crawl_blocked db"
      using inv by (simp_all add: batch_inv_def Let_def framed_def)
    show "?inv ad2"
    proof (cases "dd_sources (ad_db ad2) = dd_sources (ad_db ad1) \<and> dd_schedule (ad_db ad2) = dd_schedule (ad_db ad1) \<and>
        ad_promotions ad2 = ad_promotions ad1")
      case True
      with batch_inv_kept [OF inv] c show ?thesis by blast
    next
      case False
      with c obtain source cat where p: "Origin.Parse lib o1 = Inr source" "?dec source = Some cat" "\<not> Transient cat"
          "cat \<noteq> CategoryUnsafeAddress" "promotedBy lower ?excl (cn_automatic_expansion_paused (dd_control db))
            (rn_max_automatic_promotions run) now o1 source ad1 ad2"
        by blast
      then have "?good o1"
        using o1 st by (auto simp: promotable_def promotedBy_def Let_def currentlyVerified_def)
      with batch_inv_promoted [OF inv _ p(5)] c show ?thesis by blast
    qed
  qed
  note inv = this [unfolded batch_inv_def Let_def]
  have srcs: "dd_sources db' = dd_sources (ad_db ad)" using completed(7) by simp
  have new: "newlyAutomatic db db' = newlyAutomatic db (ad_db ad)"
    using sourceFlag_sources [OF srcs] by (simp add: newlyAutomatic_def)
  have good: "\<exists>source r. Origin.Parse lib o1 = Inr source \<and> r \<in> set results \<and> c_Origin (ar_Candidate r) = source \<and>
      ar_FailureCategory r = CategoryNone \<and> \<not> excludes lower ?excl (origin_Hostname source)"
    if "?good o1" for o1
  proof -
    from that obtain source cat where s: "Origin.Parse lib o1 = Inr source" "?dec source = Some cat" "\<not> Transient cat"
        "cat \<noteq> CategoryUnsafeAddress" "\<not> excludes lower ?excl (origin_Hostname source)"
      by (auto simp: promotable_def)
    from map_of_SomeD [OF s(2)] obtain r where r: "r \<in> set results" "c_Origin (ar_Candidate r) = source"
        "ar_FailureCategory r = cat" by auto
    with completed(4) s have "cat = CategoryNone" by (auto simp: list_all_iff validDecision_def)
    with r s show ?thesis by blast
  qed
  have "dd_runs (ad_db ad) = dd_runs db" using inv by (simp add: framed_def)
  from promotions_of_run [OF assms(2) this, of "ad_promotions ad"] obtain r' where
    "map_of (dd_runs db') runID = Some r'" "rn_automatic_promotions r' = ad_promotions ad"
    using completed(7) by blast
  then show ?thesis
    using inv good new completed(7) sourceFlag_sources [OF srcs] by (auto simp: promotable_def)
qed

text \<open>
  C9. A candidate becomes an automatic crawl source only by admission, and only when it may: it was pending in the
  batch of this run, its addresses were found to be public, its host is neither excluded nor blocked, expansion is not
  paused, it has no valid declaration already, and a probe of it is queued. It is then scheduled. The promotions of the
  run grow by exactly the number of new sources and stay within its budget.
\<close>
theorem CompleteAutomaticCandidates_promotes:
  assumes "CompleteAutomaticCandidates lib lower retryDelay (Some h) ctx clock stamp dbErr runID results db = (err, db')"
    and "activeRun db runID = Some run"
  shows "finite (newlyAutomatic db db') \<and>
    int (card (newlyAutomatic db db')) \<le> max 0 (rn_max_automatic_promotions run - rn_automatic_promotions run) \<and>
    (\<exists>run'. map_of (dd_runs db') runID = Some run' \<and>
       rn_automatic_promotions run' = rn_automatic_promotions run + int (card (newlyAutomatic db db'))) \<and>
    (\<forall>o1. o1 \<in> newlyAutomatic db db' \<longrightarrow>
       o1 \<in> set (pendingBatch runID db) \<and> \<not> sourceFlag ss_crawl_blocked db' o1 \<and> \<not> currentlyVerified db o1 \<and>
       \<not> cn_automatic_expansion_paused (dd_control db) \<and> o1 \<in> set (map fst (dd_queue db')) \<and> o1 \<in> set (dd_schedule db') \<and>
       (\<exists>source r. Origin.Parse lib o1 = Inr source \<and> r \<in> set results \<and> c_Origin (ar_Candidate r) = source \<and>
          ar_FailureCategory r = CategoryNone \<and>
          \<not> excludes lower (automaticExclusions db (dh_automatic h)) (origin_Hostname source)))"
  by (rule Complete_promotes [OF assms])

definition exampleLink :: candidate where "exampleLink = \<lparr>c_Origin = exampleSource, c_Kind = KindLink\<rparr>"

definition exampleRunRow :: run_row where
  "exampleRunRow =
     \<lparr>rn_source_origin = ''https://a.example'', rn_started_at = 1, rn_finished_at = None, rn_outcome = ''running'',
      rn_stop_reason = [], rn_max_automatic_promotions = 2, rn_automatic_promotions = 1, rn_promotions_admitted = 0,
      rn_promotions_deferred = 0\<rparr>"

text \<open>A run with one promotion left and one candidate in its batch.\<close>

definition exampleBatch :: discovery_db where
  "exampleBatch = exampleSources\<lparr>dd_avoid := [], dd_schedule := [], dd_sources := [], dd_queue := [],
     dd_candidates := [(origin_String exampleSource, storedCandidate 3 None)],
     dd_runs := [(7, exampleRunRow)], dd_batches := [((7, origin_String exampleSource), new_batch 7)]\<rparr>"

definition automaticHandle :: discovery_handle where
  "automaticHandle = exampleHandle\<lparr>dh_automatic := automatic_config_zero\<lparr>ac_Enabled := True\<rparr>\<rparr>"

lemma exampleBatch_parts:
  "pendingBatch 7 exampleBatch = [origin_String exampleSource]" "activeRun exampleBatch 7 = Some exampleRunRow"
  "automaticExclusions exampleBatch config = Join (if TrimSpace (ac_ExcludedHostSuffixes config) \<noteq> []
     then [TrimSpace (ac_ExcludedHostSuffixes config)] else []) '',''"
  "sourceFlag f exampleBatch o1 = False" "pendingProbes t exampleBatch = 0" "dd_queue exampleBatch = []"
  "dd_schedule exampleBatch = []" "dd_store exampleBatch = emptyStore"
  "cn_automatic_expansion_paused (dd_control exampleBatch) = False" "dd_sources exampleBatch = []"
  by (simp_all add: exampleBatch_def exampleSources_def exampleRunRow_def pendingBatch_def batchesOf_def new_batch_def activeRun_def
      automaticExclusions_def sourceFlag_def pendingProbes_def)

lemma example_automatic:
  "dh_pool automaticHandle" "dh_clock automaticHandle" "ac_Enabled (dh_automatic automaticHandle)"
  "automaticExclusions exampleBatch (dh_automatic automaticHandle) = []"
  "rn_automatic_promotions exampleRunRow = 1" "rn_max_automatic_promotions exampleRunRow = 2"
  by (simp_all add: automaticHandle_def exampleHandle_def exampleBatch_parts automatic_config_zero_def example_TrimSpace
      exampleRunRow_def)

lemma exampleBatch_step:
  assumes "decisions exampleSource = Some CategoryNone"
  shows "\<exists>ad'. admitCandidate domainLib (map to_lower) d (dh_automatic automaticHandle) [] False 7 2 decisions 5 (origin_String exampleSource)
      \<lparr>ad_db = exampleBatch, ad_promotions = 1, ad_pendingProbes = 0\<rparr> = Inr ad' \<and>
    sourceFlag ss_automatically_discovered (ad_db ad') (origin_String exampleSource)"
proof -
  have eff: "effectiveRow emptyStore o1 = None" for o1
    by (simp add: effectiveRow_def emptyStore_def latestObservation_def)
  have cap: "0 < maxPendingProbes (dh_automatic automaticHandle)"
    by (simp add: automaticHandle_def maxPendingProbes_def automatic_config_zero_def defaultAutomaticCrawlMaxPendingProbes_def)
  have ex: "\<not> excludes (map to_lower) [] host" for host
    by (simp add: excludes_def example_TrimSpace)
  have st: "dd_store (resetStreak o1 exampleBatch) = emptyStore" for o1
    by (simp add: resetStreak_def updateCandidate_def exampleBatch_parts)
  have fl: "sourceFlag f (resetStreak o1 exampleBatch) = sourceFlag f exampleBatch" for f o1
    by (rule sourceFlag_sources) simp
  show ?thesis
    using assms exampleSource_parse cap
    by (simp add: admitCandidate_def admitResolved_def Let_def exampleBatch_parts eff ex st fl currentlyVerified_def
        staleTerminalEvidence_def Transient_def promote_def sourceFlag_def update_conv' updateSource_def)
qed

lemma exampleBatch_promoted:
  "origin_String exampleSource \<in> newlyAutomatic exampleBatch (snd (CompleteAutomaticCandidates domainLib (map to_lower) (\<lambda>_ _. 0)
     (Some automaticHandle) (Some None) (Inr 5) 5 None 7 [\<lparr>ar_Candidate = exampleLink, ar_FailureCategory = CategoryNone\<rparr>] exampleBatch))"
proof -
  let ?r = "[\<lparr>ar_Candidate = exampleLink, ar_FailureCategory = CategoryNone\<rparr>]"
  let ?out = "CompleteAutomaticCandidates domainLib (map to_lower) (\<lambda>_ _. 0) (Some automaticHandle) (Some None) (Inr 5) 5 None 7
    ?r exampleBatch"
  obtain ad' where step: "admitCandidate domainLib (map to_lower) (\<lambda>_ _. 0) (dh_automatic automaticHandle) [] False 7 2
        [exampleSource \<mapsto> CategoryNone] 5 (origin_String exampleSource)
        \<lparr>ad_db = exampleBatch, ad_promotions = 1, ad_pendingProbes = 0\<rparr> = Inr ad'"
      "sourceFlag ss_automatically_discovered (ad_db ad') (origin_String exampleSource)"
    using exampleBatch_step [of "[exampleSource \<mapsto> CategoryNone]"] by auto
  have "snd ?out = updatePromotionTelemetry 7 (setPromotions 7 (ad_promotions ad') (ad_db ad'))"
    using step(1)
    by (simp add: CompleteAutomaticCandidates_def discovery_validate_def prepareAdmissionCandidates_def validDecision_def
        exampleBatch_parts(1,2,5,9) example_automatic exampleLink_def exampleSource_def origin_String_def Let_def)
  with step(2) show ?thesis
    using sourceFlag_sources [of "snd ?out" "ad_db ad'"] by (simp add: newlyAutomatic_def exampleBatch_parts)
qed

theorem CompleteAutomaticCandidates_promotes_witness:
  "let db' = snd (CompleteAutomaticCandidates domainLib (map to_lower) (\<lambda>_ _. 0) (Some automaticHandle) (Some None) (Inr 5) 5 None 7
                    [\<lparr>ar_Candidate = exampleLink, ar_FailureCategory = CategoryNone\<rparr>] exampleBatch)
   in origin_String exampleSource \<in> newlyAutomatic exampleBatch db' \<and> \<not> sourceFlag ss_crawl_blocked db' (origin_String exampleSource) \<and>
      card (newlyAutomatic exampleBatch db') \<le> 1"
proof -
  let ?out = "CompleteAutomaticCandidates domainLib (map to_lower) (\<lambda>_ _. 0) (Some automaticHandle) (Some None) (Inr 5) 5 None 7
    [\<lparr>ar_Candidate = exampleLink, ar_FailureCategory = CategoryNone\<rparr>] exampleBatch"
  have out: "?out = (fst ?out, snd ?out)" by simp
  have "rn_max_automatic_promotions exampleRunRow - rn_automatic_promotions exampleRunRow = 1"
    by (simp add: exampleRunRow_def)
  with exampleBatch_promoted show ?thesis
    using CompleteAutomaticCandidates_promotes [OF out exampleBatch_parts(2)] unfolding Let_def by auto
qed

text \<open>
  C38. Evidence is durable before anything is scheduled from it: once a batch of candidates of a known source is
  accepted for recording, every one of them has its row and its edge covering the time of the discovery, also when the
  probes could not be scheduled and an error is returned; and the number reported is the number of candidates. (The other
  transactions that run in between do not touch the two tables.)
\<close>
theorem recordDiscovery_durable:
  assumes "recordDiscovery lower (Some h) ctx (Inr now) None pb others runID source candidates db = (res, db')"
    and "discovery_validate (Some h) ctx = None" and "prepareDiscoveryCandidates source candidates = Inr prepared"
    and "knownSource db (origin_String source)" and "validRuns db runID = 1"
    and "\<And>d. dd_candidates (others d) = dd_candidates d \<and> dd_edges (others d) = dd_edges d"
    and "\<And>d. dd_candidates (pb_others pb d) = dd_candidates d \<and> dd_edges (pb_others pb d) = dd_edges d"
  shows "(\<forall>c. c \<in> set candidates \<longrightarrow> evident now (origin_String source) c db') \<and>
    (case res of Inl _ \<Rightarrow> True | Inr n \<Rightarrow> n = int (length candidates))"
proof -
  have prepared: "set prepared = set candidates" "length prepared = length candidates"
    using assms(3) by (auto simp: prepareDiscoveryCandidates_def split: if_splits)
  let ?recorded = "fold (recordCandidate (origin_String source) runID now) prepared db"
  obtain r db1 where r: "scheduleProbeCandidatesCounted lower h pb prepared (Some now) (others ?recorded) = (r, db1)"
    by fastforce
  have kept: "dd_candidates db1 = dd_candidates ?recorded" "dd_edges db1 = dd_edges ?recorded"
    using schedule_evidence [of pb "others ?recorded" lower h prepared "Some now"] assms(6,7) r by simp_all
  have ev: "evident now (origin_String source) c ?recorded" if "c \<in> set candidates" for c
    using recordCandidates_evident that prepared(1) by auto
  show ?thesis
  proof (cases "prepared = []")
    case True
    with assms prepared show ?thesis by (auto simp: recordDiscovery_def)
  next
    case False
    with assms(1-5) r have "db' = db1" and "case res of Inl _ \<Rightarrow> True | Inr n \<Rightarrow> n = int (length candidates)"
      using prepared(2) by (auto simp: recordDiscovery_def scheduleProbeCandidates_def split: sum.splits)
    with ev kept show ?thesis by (simp add: evident_def)
  qed
qed

theorem recordDiscovery_durable_witness:
  "evident 9 (origin_String exampleSource) \<lparr>c_Origin = origin_zero\<lparr>serialization := ''https://b.example''\<rparr>, c_Kind = KindRedirect\<rparr>
     (snd (recordDiscovery (map to_lower) (Some exampleHandle) (Some None) (Inr 9) None
        \<lparr>pb_exclusionErr = Some (Sentinel ''lost''), pb_others = id, pb_clock = Inr 9, pb_dbErr = None, pb_stamp = 9\<rparr> id 0 exampleSource
        [\<lparr>c_Origin = origin_zero\<lparr>serialization := ''https://b.example''\<rparr>, c_Kind = KindRedirect\<rparr>] exampleSources))"
proof -
  let ?c = "\<lparr>c_Origin = origin_zero\<lparr>serialization := ''https://b.example''\<rparr>, c_Kind = KindRedirect\<rparr>"
  let ?pb = "\<lparr>pb_exclusionErr = Some (Sentinel ''lost''), pb_others = id, pb_clock = Inr 9, pb_dbErr = None, pb_stamp = 9\<rparr>"
  let ?out = "recordDiscovery (map to_lower) (Some exampleHandle) (Some None) (Inr 9) None ?pb id 0 exampleSource [?c] exampleSources"
  have out: "?out = (fst ?out, snd ?out)" by simp
  have ne: "c_Origin ?c \<noteq> exampleSource" "origin_String exampleSource \<noteq> []" "origin_String (c_Origin ?c) \<noteq> []"
    by (simp_all add: exampleSource_def origin_zero_def origin_String_def)
  have v: "discovery_validate (Some exampleHandle) (Some None) = None"
    by (simp add: discovery_validate_def exampleHandle_def)
  have prep: "prepareDiscoveryCandidates exampleSource [?c] = Inr [?c]"
    using ne by (simp add: prepareDiscoveryCandidates_def)
  have known: "knownSource exampleSources (origin_String exampleSource)" "validRuns exampleSources 0 = 1"
    by (simp_all add: knownSource_def exampleSources_def validRuns_def activeRun_def)
  from recordDiscovery_durable [OF out v prep known] show ?thesis by simp
qed

end
