(* ===== verification/Telemetry.thy ===== *)
theory Telemetry
  imports Crawler Admission
begin

text \<open>
  What the discovery store keeps of the crawls themselves, \<^verbatim>\<open>internal/store/crawl_observability.go\<close>: the runs, their
  pages, the heartbeats of the services and the pause state. The tables that only this file writes are columns of
  \<open>telemetry_db\<close> beside the discovery tables; \<open>now\<close> is the time of the statement and \<open>dbErr\<close> what the database answers.
\<close>

definition errInvalidPageAttempt where "errInvalidPageAttempt = Sentinel ''store: crawl page attempt is invalid''"
definition errInvalidRetention where "errInvalidRetention = Sentinel ''store: crawl retention is invalid''"

section \<open>Tables\<close>

text \<open>The columns of a run that no admission touches.\<close>

record run_summary =
  sm_max_depth :: int
  sm_max_pages :: int
  sm_max_page_bytes :: int
  sm_request_delay_milliseconds :: int
  sm_redirect_limit :: int
  sm_page_timeout_milliseconds :: int
  sm_pages_attempted :: int
  sm_pages_parsed :: int
  sm_candidates_discovered :: int
  sm_budget_exhausted :: bool
  sm_failure_category :: string
  sm_pages_blocked :: int
  sm_pages_failed :: int
  sm_urls_found :: int
  sm_urls_enqueued :: int
  sm_frontier_remaining :: int

record page_row =
  pr_attempt :: page_attempt
  pr_duration_milliseconds :: int
  pr_failure_category :: string

record service_heartbeat =
  hb_Service :: string
  hb_InstanceID :: string
  hb_State :: string
  hb_CurrentOrigin :: origin
  hb_Message :: string
  hb_BuildVersion :: string
  hb_BuildCommit :: string
  hb_StartedAt :: go_time
  hb_UpdatedAt :: go_time

record telemetry_db =
  tm_base :: discovery_db
  tm_sequence :: int
  tm_summaries :: "(int \<times> run_summary) list"
  tm_pages :: "((int \<times> int) \<times> page_row) list"
  tm_heartbeats :: "((string \<times> string) \<times> service_heartbeat) list"
  tm_control_updated_at :: go_time

section \<open>Validation\<close>

definition validTelemetryConfig :: "crawl_config \<Rightarrow> bool" where
  "validTelemetryConfig config \<longleftrightarrow>
     cc_MaxDepth config \<ge> 0 \<and> cc_MaxPages config > 0 \<and> cc_MaxPageBytes config > 0 \<and> cc_RequestDelay config \<ge> 0 \<and>
     cc_RedirectLimit config \<ge> 0 \<and> cc_PageTimeout config > 0 \<and> cc_MaxAutomaticPromotionsPerRun config \<ge> 0"

definition safeStoredPageURL :: "host_lib \<Rightarrow> string \<Rightarrow> bool" where
  "safeStoredPageURL lib raw =
     (case url_Parse lib raw of
        Inl _ \<Rightarrow> False
      | Inr parsed \<Rightarrow>
          u_User parsed = None \<and> u_Host parsed \<noteq> [] \<and> (u_Scheme parsed = ''http'' \<or> u_Scheme parsed = ''https'') \<and>
          u_RawQuery parsed = [] \<and> u_Fragment parsed = [] \<and> \<not> u_ForceQuery parsed)"

text \<open>The decisions and outcomes of the crawler are the valid ones; a value outside of them has no constructor.\<close>

definition validRobotsDecision :: "robots_decision \<Rightarrow> bool" where
  "validRobotsDecision decision \<longleftrightarrow> decision = RobotsAllowed \<or> decision = RobotsDenied \<or> decision = RobotsUnknown"

definition validPageOutcome :: "page_outcome \<Rightarrow> bool" where
  "validPageOutcome outcome \<longleftrightarrow>
     outcome \<in> set [PageComplete, PageRedirected, PageRobotsDenied, PageUnsupportedContent, PageTooLarge, PageHTTPError,
       PageTimeout, PageNetworkError, PageInvalidResponse]"

definition validRunOutcome :: "crawl_run_outcome \<Rightarrow> bool" where
  "validRunOutcome outcome \<longleftrightarrow>
     outcome = CrawlRunComplete \<or> outcome = CrawlRunBudgetExhausted \<or> outcome = CrawlRunCanceled \<or> outcome = CrawlRunFailed"

definition validStatusCode :: "int option \<Rightarrow> bool" where
  "validStatusCode status = (case status of None \<Rightarrow> True | Some n \<Rightarrow> n \<ge> 100 \<and> n \<le> 599)"

definition validPageAttempt :: "host_lib \<Rightarrow> page_attempt \<Rightarrow> bool" where
  "validPageAttempt lib a \<longleftrightarrow>
     pa_Sequence a > 0 \<and> pa_Depth a \<ge> 0 \<and> pa_StartedAt a \<noteq> 0 \<and> pa_Duration a \<ge> 0 \<and> pa_ResponseBytes a \<ge> 0 \<and>
     pa_RedirectCount a \<ge> 0 \<and> pa_InternalLinkCount a \<ge> 0 \<and> pa_ExternalLinkCount a \<ge> 0 \<and> pa_URLsFound a \<ge> 0 \<and>
     pa_URLsEnqueued a \<ge> 0 \<and> length (pa_ContentType a) \<le> 256 \<and> safeStoredPageURL lib (pa_RequestedURL a) \<and>
     safeStoredPageURL lib (pa_FinalURL a) \<and> validRobotsDecision (pa_RobotsDecision a) \<and>
     validPageOutcome (pa_Outcome a) \<and> validStatusCode (pa_StatusCode a) \<and> category_Valid (pa_FailureCategory a)"

definition storedFailureCategory :: "category \<Rightarrow> string" where
  "storedFailureCategory cat = (if cat = CategoryNone then ''none'' else cat)"

definition validHeartbeat :: "service_heartbeat \<Rightarrow> bool" where
  "validHeartbeat hb \<longleftrightarrow>
     (hb_Service hb = ''discovery'' \<or> hb_Service hb = ''worker'') \<and>
     (hb_State hb = ''starting'' \<or> hb_State hb = ''idle'' \<or> hb_State hb = ''running'' \<or> hb_State hb = ''paused'' \<or>
      hb_State hb = ''stopping'' \<or> hb_State hb = ''failed'') \<and>
     TrimSpace (hb_InstanceID hb) \<noteq> [] \<and> length (hb_InstanceID hb) \<le> 128 \<and> length (hb_Message hb) \<le> 256 \<and>
     hb_StartedAt hb \<noteq> 0 \<and> hb_UpdatedAt hb \<noteq> 0 \<and> \<not> hb_UpdatedAt hb < hb_StartedAt hb"

section \<open>Runs\<close>

definition milliseconds :: "duration \<Rightarrow> int" where "milliseconds d = d div 1000000"

definition automaticPromotionBudget :: "crawl_config \<Rightarrow> automatic_config \<Rightarrow> int" where
  "automaticPromotionBudget config automatic =
     (if cc_MaxAutomaticPromotionsPerRun config > 0 then cc_MaxAutomaticPromotionsPerRun config
      else maxAutomaticPromotionsPerRun automatic)"

definition startedRun :: "origin \<Rightarrow> go_time \<Rightarrow> int \<Rightarrow> run_row" where
  "startedRun source now budget =
     \<lparr>rn_source_origin = origin_String source, rn_started_at = now, rn_finished_at = None, rn_outcome = ''running'',
      rn_stop_reason = [], rn_max_automatic_promotions = budget, rn_automatic_promotions = 0, rn_promotions_admitted = 0,
      rn_promotions_deferred = 0\<rparr>"

definition startedSummary :: "crawl_config \<Rightarrow> run_summary" where
  "startedSummary config =
     \<lparr>sm_max_depth = cc_MaxDepth config, sm_max_pages = cc_MaxPages config, sm_max_page_bytes = cc_MaxPageBytes config,
      sm_request_delay_milliseconds = milliseconds (cc_RequestDelay config), sm_redirect_limit = cc_RedirectLimit config,
      sm_page_timeout_milliseconds = milliseconds (cc_PageTimeout config), sm_pages_attempted = 0, sm_pages_parsed = 0,
      sm_candidates_discovered = 0, sm_budget_exhausted = False, sm_failure_category = ''none'', sm_pages_blocked = 0,
      sm_pages_failed = 0, sm_urls_found = 0, sm_urls_enqueued = 0, sm_frontier_remaining = 0\<rparr>"

text \<open>The identity column gives every run the next number.\<close>

definition BeginCrawl ::
    "discovery_handle option \<Rightarrow> ctx_value \<Rightarrow> go_time \<Rightarrow> go_error option \<Rightarrow> origin \<Rightarrow> crawl_config \<Rightarrow> telemetry_db \<Rightarrow>
     (go_error + run_id) \<times> telemetry_db" where
  "BeginCrawl s ctx now dbErr source config db =
     (case discovery_validate s ctx of
        Some err \<Rightarrow> (Inl err, db)
      | None \<Rightarrow>
          if origin_String source = [] \<or> \<not> validTelemetryConfig config then (Inl errInvalidCrawlRun, db)
          else (case dbErr of
                  Some err \<Rightarrow> (Inl (Wrap ''store: begin crawl'' [err]), db)
                | None \<Rightarrow>
                    (let n = tm_sequence db + 1; base = tm_base db;
                         run = startedRun source now (automaticPromotionBudget config (dh_automatic (the s)))
                     in (Inr n, db\<lparr>tm_sequence := n, tm_base := base\<lparr>dd_runs := dd_runs base @ [(n, run)]\<rparr>,
                                  tm_summaries := tm_summaries db @ [(n, startedSummary config)]\<rparr>))))"

definition openRun :: "run_id \<Rightarrow> telemetry_db \<Rightarrow> bool" where
  "openRun runID db =
     (case map_of (dd_runs (tm_base db)) runID of None \<Rightarrow> False | Some run \<Rightarrow> rn_finished_at run = None)"

definition pageRow :: "page_attempt \<Rightarrow> page_row" where
  "pageRow a = \<lparr>pr_attempt = a, pr_duration_milliseconds = milliseconds (pa_Duration a),
                pr_failure_category = storedFailureCategory (pa_FailureCategory a)\<rparr>"

definition duplicateKey :: go_error where "duplicateKey = Sentinel ''duplicate key value violates unique constraint''"

text \<open>The primary key of a page is its run with its sequence number.\<close>

definition RecordPageAttempt ::
    "host_lib \<Rightarrow> discovery_handle option \<Rightarrow> ctx_value \<Rightarrow> go_error option \<Rightarrow> run_id \<Rightarrow> page_attempt \<Rightarrow> telemetry_db \<Rightarrow>
     go_error option \<times> telemetry_db" where
  "RecordPageAttempt lib s ctx dbErr runID a db =
     (case discovery_validate s ctx of
        Some err \<Rightarrow> (Some err, db)
      | None \<Rightarrow>
          if runID \<le> 0 \<or> \<not> validPageAttempt lib a then (Some errInvalidPageAttempt, db)
          else (case dbErr of
                  Some err \<Rightarrow> (Some (Wrap ''store: record crawl page'' [err]), db)
                | None \<Rightarrow>
                    if \<not> openRun runID db then (Some errUnknownCrawlRun, db)
                    else if map_of (tm_pages db) (runID, pa_Sequence a) \<noteq> None
                    then (Some (Wrap ''store: record crawl page'' [duplicateKey]), db)
                    else (None, db\<lparr>tm_pages := tm_pages db @ [((runID, pa_Sequence a), pageRow a)]\<rparr>)))"

definition pagesOf :: "run_id \<Rightarrow> telemetry_db \<Rightarrow> page_attempt list" where
  "pagesOf runID db = map (pr_attempt \<circ> snd) (filter (\<lambda>((r, _), _). r = runID) (tm_pages db))"

definition outcomeText :: "crawl_run_outcome \<Rightarrow> string" where
  "outcomeText outcome =
     (case outcome of CrawlRunComplete \<Rightarrow> ''complete'' | CrawlRunBudgetExhausted \<Rightarrow> ''budget_exhausted''
                    | CrawlRunCanceled \<Rightarrow> ''canceled'' | CrawlRunFailed \<Rightarrow> ''failed'')"

definition finishedRun :: "go_time \<Rightarrow> crawl_run_outcome \<Rightarrow> string \<Rightarrow> run_id \<Rightarrow> telemetry_db \<Rightarrow> run_row \<Rightarrow> run_row" where
  "finishedRun now outcome stopReason runID db run =
     run\<lparr>rn_finished_at := Some now, rn_outcome := outcomeText outcome, rn_stop_reason := stopReason,
         rn_promotions_admitted := promotedOf runID (tm_base db),
         rn_promotions_deferred := max (discoveredLinks runID (tm_base db) - promotedOf runID (tm_base db)) 0\<rparr>"

definition finishedSummary :: "crawl_result \<Rightarrow> int \<Rightarrow> page_attempt list \<Rightarrow> run_summary \<Rightarrow> run_summary" where
  "finishedSummary result frontierRemaining pages sm =
     sm\<lparr>sm_pages_attempted := cr_PagesAttempted result, sm_pages_parsed := cr_PagesParsed result,
        sm_candidates_discovered := cr_CandidatesDiscovered result, sm_budget_exhausted := cr_BudgetExhausted result,
        sm_failure_category := storedFailureCategory (cr_FailureCategory result),
        sm_pages_blocked := int (length (filter (\<lambda>a. pa_Outcome a = PageRobotsDenied) pages)),
        sm_pages_failed :=
          int (length (filter (\<lambda>a. pa_Outcome a \<notin> {PageComplete, PageRedirected, PageRobotsDenied}) pages)),
        sm_urls_found := sum_list (map pa_URLsFound pages), sm_urls_enqueued := sum_list (map pa_URLsEnqueued pages),
        sm_frontier_remaining := frontierRemaining\<rparr>"

definition updateAll :: "'k \<Rightarrow> ('v \<Rightarrow> 'v) \<Rightarrow> ('k \<times> 'v) list \<Rightarrow> ('k \<times> 'v) list" where
  "updateAll key f rows = map (\<lambda>(k, v). (k, if k = key then f v else v)) rows"

definition FinishCrawlSummary ::
    "discovery_handle option \<Rightarrow> ctx_value \<Rightarrow> go_time \<Rightarrow> go_error option \<Rightarrow> run_id \<Rightarrow> crawl_result \<Rightarrow> crawl_run_outcome \<Rightarrow>
     string \<Rightarrow> int \<Rightarrow> telemetry_db \<Rightarrow> go_error option \<times> telemetry_db" where
  "FinishCrawlSummary s ctx now dbErr runID result outcome stopReason frontierRemaining db =
     (case discovery_validate s ctx of
        Some err \<Rightarrow> (Some err, db)
      | None \<Rightarrow>
          if runID \<le> 0 \<or> \<not> validRunOutcome outcome \<or> length stopReason > 128 \<or> cr_PagesAttempted result < 0 \<or>
             cr_PagesParsed result < 0 \<or> cr_CandidatesDiscovered result < 0 \<or> frontierRemaining < 0
          then (Some errInvalidCrawlRun, db)
          else (case dbErr of
                  Some err \<Rightarrow> (Some (Wrap ''store: finish crawl'' [err]), db)
                | None \<Rightarrow>
                    if \<not> openRun runID db then (Some errUnknownCrawlRun, db)
                    else (let base = tm_base db
                          in (None, db\<lparr>tm_base := base\<lparr>dd_runs :=
                                         updateAll runID (finishedRun now outcome stopReason runID db) (dd_runs base)\<rparr>,
                                       tm_summaries :=
                                         updateAll runID (finishedSummary result frontierRemaining (pagesOf runID db))
                                           (tm_summaries db)\<rparr>))))"

definition FinishCrawl ::
    "discovery_handle option \<Rightarrow> ctx_value \<Rightarrow> go_time \<Rightarrow> go_error option \<Rightarrow> run_id \<Rightarrow> crawl_result \<Rightarrow> crawl_run_outcome \<Rightarrow>
     string \<Rightarrow> telemetry_db \<Rightarrow> go_error option \<times> telemetry_db" where
  "FinishCrawl s ctx now dbErr runID result outcome stopReason =
     FinishCrawlSummary s ctx now dbErr runID result outcome stopReason 0"

text \<open>
  Deleting a run deletes its pages, the candidates it found and the batches it admits or discovered; the retention is in
  whole nanoseconds here.
\<close>

definition PurgeCrawlTelemetry ::
    "discovery_handle option \<Rightarrow> ctx_value \<Rightarrow> go_time \<Rightarrow> go_error option \<Rightarrow> duration \<Rightarrow> telemetry_db \<Rightarrow>
     (go_error + int) \<times> telemetry_db" where
  "PurgeCrawlTelemetry s ctx now dbErr retention db =
     (case discovery_validate s ctx of
        Some err \<Rightarrow> (Inl err, db)
      | None \<Rightarrow>
          if retention \<le> 0 then (Inl errInvalidRetention, db)
          else (case dbErr of
                  Some err \<Rightarrow> (Inl (Wrap ''store: purge crawl telemetry'' [err]), db)
                | None \<Rightarrow>
                    (let base = tm_base db;
                         old = (\<lambda>run. case rn_finished_at run of None \<Rightarrow> False | Some t \<Rightarrow> t < now - retention);
                         kept = filter (\<lambda>(_, run). \<not> old run) (dd_runs base);
                         gone = map fst (filter (\<lambda>(_, run). old run) (dd_runs base))
                     in (Inr (int (length gone)),
                         db\<lparr>tm_base := base\<lparr>dd_runs := kept,
                                dd_run_candidates := filter (\<lambda>(r, _, _). r \<notin> set gone) (dd_run_candidates base),
                                dd_batches := filter (\<lambda>((r, _), b). r \<notin> set gone \<and> bt_discovered_run_id b \<notin> set gone)
                                                (dd_batches base)\<rparr>,
                            tm_summaries := filter (\<lambda>(r, _). r \<notin> set gone) (tm_summaries db),
                            tm_pages := filter (\<lambda>((r, _), _). r \<notin> set gone) (tm_pages db)\<rparr>))))"

section \<open>Control and heartbeats\<close>

record crawl_control =
  co_DiscoveryPaused :: bool
  co_VerificationPaused :: bool
  co_UpdatedAt :: go_time

definition CrawlControl ::
    "discovery_handle option \<Rightarrow> ctx_value \<Rightarrow> go_error option \<Rightarrow> telemetry_db \<Rightarrow> go_error + crawl_control" where
  "CrawlControl s ctx dbErr db =
     (case discovery_validate s ctx of
        Some err \<Rightarrow> Inl err
      | None \<Rightarrow>
          (case dbErr of
             Some err \<Rightarrow> Inl (Wrap ''store: read crawl control'' [err])
           | None \<Rightarrow> Inr \<lparr>co_DiscoveryPaused = cn_discovery_paused (dd_control (tm_base db)),
                           co_VerificationPaused = cn_verification_paused (dd_control (tm_base db)),
                           co_UpdatedAt = tm_control_updated_at db\<rparr>))"

definition DiscoveryPaused ::
    "discovery_handle option \<Rightarrow> ctx_value \<Rightarrow> go_error option \<Rightarrow> telemetry_db \<Rightarrow> go_error + bool" where
  "DiscoveryPaused s ctx dbErr db =
     (case CrawlControl s ctx dbErr db of Inl err \<Rightarrow> Inl err | Inr control \<Rightarrow> Inr (co_DiscoveryPaused control))"

definition heartbeatReplaces :: "service_heartbeat \<Rightarrow> service_heartbeat \<Rightarrow> bool" where
  "heartbeatReplaces new old \<longleftrightarrow>
     hb_StartedAt new > hb_StartedAt old \<or> hb_StartedAt new = hb_StartedAt old \<and> hb_UpdatedAt new \<ge> hb_UpdatedAt old"

definition upsertHeartbeat :: "service_heartbeat \<Rightarrow> telemetry_db \<Rightarrow> telemetry_db" where
  "upsertHeartbeat hb db =
     (let key = (hb_Service hb, hb_InstanceID hb)
      in case map_of (tm_heartbeats db) key of
           None \<Rightarrow> db\<lparr>tm_heartbeats := tm_heartbeats db @ [(key, hb)]\<rparr>
         | Some old \<Rightarrow>
             if heartbeatReplaces hb old then db\<lparr>tm_heartbeats := updateAll key (\<lambda>_. hb) (tm_heartbeats db)\<rparr> else db)"

definition UpsertServiceHeartbeat ::
    "discovery_handle option \<Rightarrow> ctx_value \<Rightarrow> go_error option \<Rightarrow> service_heartbeat \<Rightarrow> telemetry_db \<Rightarrow>
     go_error option \<times> telemetry_db" where
  "UpsertServiceHeartbeat s ctx dbErr hb db =
     (case discovery_validate s ctx of
        Some err \<Rightarrow> (Some err, db)
      | None \<Rightarrow>
          if \<not> validHeartbeat hb then (Some errInvalidServiceState, db)
          else (case dbErr of
                  Some err \<Rightarrow> (Some (Wrap ''store: write service heartbeat'' [err]), db)
                | None \<Rightarrow> (None, upsertHeartbeat hb db)))"

section \<open>What the crawler reports\<close>

text \<open>
  What \<^verbatim>\<open>net/url\<close> promises of serializations: a URL with the scheme and host of a parsed one, without credentials,
  query and fragment, is written such that it parses back to these; and a reference resolved against a URL with the
  scheme and host of a parsed web URL has the scheme and host its serialization parses to (a parsed scheme is lower case).
\<close>

definition plainURL :: "url \<Rightarrow> bool" where
  "plainURL u \<longleftrightarrow>
     u_User u = None \<and> u_RawQuery u = [] \<and> \<not> u_ForceQuery u \<and> u_Fragment u = [] \<and> u_RawFragment u = []"

definition string_law :: "host_lib \<Rightarrow> bool" where
  "string_law lib \<longleftrightarrow>
     (\<forall>s v u. url_Parse lib s = Inr v \<and> u_Host v \<noteq> [] \<and> u_Scheme u = u_Scheme v \<and> u_Host u = u_Host v \<and> plainURL u \<longrightarrow>
        (\<exists>p. url_Parse lib (url_String lib u) = Inr p \<and> u_Scheme p = u_Scheme u \<and> u_Host p = u_Host u \<and> plainURL p))"

definition webURL :: "url \<Rightarrow> bool" where
  "webURL u \<longleftrightarrow> (u_Scheme u = ''http'' \<or> u_Scheme u = ''https'') \<and> u_Host u \<noteq> []"

definition resolve_law :: "host_lib \<Rightarrow> bool" where
  "resolve_law lib \<longleftrightarrow>
     (\<forall>t v base s u p. url_Parse lib t = Inr v \<and> webURL v \<and> u_Scheme base = u_Scheme v \<and> u_Host base = u_Host v \<and>
        url_ParseRef lib base s = Inr u \<and>
        url_Parse lib (url_String lib (u\<lparr>u_Fragment := [], u_RawFragment := []\<rparr>)) = Inr p \<longrightarrow>
        u_Scheme p = u_Scheme u \<and> u_Host p = u_Host u)"

lemma Parse_webURL: "Origin.Parse lib raw = Inr o1 \<Longrightarrow> \<exists>u. url_Parse lib raw = Inr u \<and> webURL u"
  by (auto simp: Origin.Parse_def webURL_def Hostname_def splitHostPort_def Let_def split: sum.splits if_splits)

lemma safeStoredPageURL_telemetry:
  assumes "string_law lib" and "url_Parse lib s = Inr v" and "webURL v" and "u_Scheme u = u_Scheme v" and "u_Host u = u_Host v"
  shows "safeStoredPageURL lib (safeTelemetryURL lib u)"
proof -
  let ?u = "u\<lparr>u_User := None, u_RawQuery := [], u_ForceQuery := False, u_Fragment := [], u_RawFragment := []\<rparr>"
  have "\<exists>p. url_Parse lib (url_String lib ?u) = Inr p \<and> u_Scheme p = u_Scheme ?u \<and> u_Host p = u_Host ?u \<and> plainURL p"
    by (rule assms(1) [unfolded string_law_def, rule_format, of s v]) (use assms in \<open>simp add: plainURL_def webURL_def\<close>)
  then show ?thesis using assms(3-5) by (auto simp: safeStoredPageURL_def safeTelemetryURL_def webURL_def plainURL_def)
qed

text \<open>A source whose serialization parses, with and without the path of its root page.\<close>

definition crawlable :: "host_lib \<Rightarrow> origin \<Rightarrow> bool" where
  "crawlable lib source \<longleftrightarrow>
     string_law lib \<and> resolve_law lib \<and> (\<exists>v. url_Parse lib (origin_String source) = Inr v \<and> webURL v) \<and>
     (\<exists>r. url_Parse lib (origin_String source @ ''/'') = Inr r)"

lemma crawlable_page: "crawlable lib source \<Longrightarrow> onSource lib source u \<Longrightarrow> safeStoredPageURL lib (safeTelemetryURL lib u)"
  by (auto simp: crawlable_def onSource_def intro: safeStoredPageURL_telemetry)

lemma crawlable_canonical: "crawlable lib source \<Longrightarrow> \<exists>v. canonicalPageURL lib source u = Some v"
  by (auto simp: crawlable_def canonicalPageURL_def)

lemma crawlable_redirect:
  assumes "crawlable lib source" and "onSource lib source current" and "pageRedirectTarget lib current response = Inr u"
  shows "safeStoredPageURL lib (safeTelemetryURL lib u)"
proof -
  from assms(3) obtain next1 o1 where n: "url_ParseRef lib current (r_Header response ''Location'') = Inr next1"
      "u = next1\<lparr>u_Fragment := [], u_RawFragment := []\<rparr>" "Origin.Parse lib (url_String lib u) = Inr o1"
    by (auto simp: pageRedirectTarget_def Let_def split: if_splits sum.splits)
  from Parse_webURL [OF n(3)] obtain p where p: "url_Parse lib (url_String lib u) = Inr p" "webURL p" by auto
  obtain v where v: "url_Parse lib (origin_String source) = Inr v" "webURL v" "u_Scheme current = u_Scheme v"
      "u_Host current = u_Host v"
    using assms(1,2) by (auto simp: crawlable_def onSource_def)
  from assms(1) have "resolve_law lib" by (simp add: crawlable_def)
  from this [unfolded resolve_law_def, rule_format, of "origin_String source" v current _ next1 p] v p n(1,2)
  have "u_Scheme u = u_Scheme p" "u_Host u = u_Host p" by simp_all
  with assms(1) p show ?thesis by (auto simp: crawlable_def intro: safeStoredPageURL_telemetry)
qed

text \<open>What every attempt keeps while it is built, and what a page carries besides.\<close>

definition attemptSound :: "host_lib \<Rightarrow> page_attempt \<Rightarrow> bool" where
  "attemptSound lib a \<longleftrightarrow>
     pa_ResponseBytes a \<ge> 0 \<and> pa_RedirectCount a \<ge> 0 \<and> pa_InternalLinkCount a \<ge> 0 \<and> pa_ExternalLinkCount a \<ge> 0 \<and>
     length (pa_ContentType a) \<le> 256 \<and> safeStoredPageURL lib (pa_RequestedURL a) \<and> safeStoredPageURL lib (pa_FinalURL a)"

definition storableFailure :: "category \<Rightarrow> duration \<Rightarrow> bool" where
  "storableFailure cat retryAfter \<longleftrightarrow> category_Valid cat \<and> 0 \<le> retryAfter \<and> retryAfter \<le> MaxDelay"

definition pageStorable :: "host_lib \<Rightarrow> crawled_page \<Rightarrow> bool" where
  "pageStorable lib page \<longleftrightarrow>
     attemptSound lib (pg_attempt page) \<and> storableFailure (pg_failureCategory page) (pg_retryAfter page)"

lemma failedPage_storable: "attemptSound lib a \<Longrightarrow> category_Valid cat \<Longrightarrow> pageStorable lib (failedPage a cat)"
  by (simp add: pageStorable_def crawled_page_zero_def storableFailure_def MaxDelay_def duration_units)

lemma attemptSound_outcome [simp]: "attemptSound lib (a\<lparr>pa_Outcome := x\<rparr>) = attemptSound lib a"
  "attemptSound lib (a\<lparr>pa_RobotsDecision := d\<rparr>) = attemptSound lib a"
  "attemptSound lib (a\<lparr>pa_StatusCode := n\<rparr>) = attemptSound lib a"
  by (simp_all add: attemptSound_def)

lemma categories_valid:
  "category_Valid CategoryNone" "category_Valid CategoryTimeout" "category_Valid CategoryTransport"
  "category_Valid CategoryRobotsDenied" "category_Valid CategoryRobotsTemporary" "category_Valid CategoryDNS"
  "category_Valid CategoryUnsafeAddress" "category_Valid CategoryMalformedOrigin" "category_Valid CategoryUnsupportedOrigin"
  "category_Valid CategoryOversizedContent" "category_Valid CategoryUnsupportedContent" "category_Valid CategoryHTTP4xx"
  "category_Valid CategoryHTTP408" "category_Valid CategoryHTTP429" "category_Valid CategoryHTTP5xx"
  "category_Valid CategoryDeclarationAbsent" "category_Valid CategoryDeclarationUnavailable" "category_Valid CategoryProcessor"
  by (simp_all add: category_Valid_def)

abbreviation pageFailure :: "crawled_page \<Rightarrow> bool" where
  "pageFailure page \<equiv> storableFailure (pg_failureCategory page) (pg_retryAfter page)"

lemma pageFailure_simps [simp]:
  "pg_retryAfter (crawled_page_zero a) = 0" "pg_failureCategory (crawled_page_zero a) = CategoryNone"
  "storableFailure cat 0 = category_Valid cat"
  by (simp_all add: crawled_page_zero_def storableFailure_def categories_valid MaxDelay_def duration_units)

lemma getFailure_failure: "pageFailure (getFailure err expired a)"
  by (simp add: getFailure_def FailureCategory_def Let_def categories_valid)

lemma httpFailure_failure: "pageFailure (httpFailure pt response now a)"
proof -
  obtain cat transient where c: "HTTPStatusCategory (r_StatusCode response) = (cat, transient)" "category_Valid cat"
    using HTTPStatusCategory_spec [of "r_StatusCode response"] by (auto split: prod.splits)
  with ParseRetryAfter_bounds [of pt "r_Header response ''Retry-After''" now] show ?thesis
    by (simp add: httpFailure_def crawled_page_zero_def storableFailure_def categories_valid Let_def)
qed

lemma pageStorable_failures:
  assumes "attemptSound lib a"
  shows "pageStorable lib (getFailure err expired a)" "pageStorable lib (httpFailure pt response now a)"
  using assms getFailure_failure [of err expired a] httpFailure_failure [of pt response now a]
  by (simp_all add: pageStorable_def getFailure_def httpFailure_def crawled_page_zero_def Let_def split: prod.splits)

lemma extractedPage_storable:
  assumes "crawlable (lk_host lib) source" and "attemptSound (lk_host lib) a"
  obtains page commit where "extractedPage lib source current ct b a = Some (page, commit)" "pageStorable (lk_host lib) page"
proof -
  have "extractPageLinks lib source (Some current) ct b \<noteq> None"
    using assms(1) collectLinks_panic unfolding extractPageLinks_def Let_def crawlable_def
    by (fastforce split: if_splits option.splits sum.splits prod.splits)
  then obtain x where x: "ExtractPageLinks lib source (Some current) ct b = Some x"
    by (cases "ExtractPageLinks lib source (Some current) ct b") (auto simp: ExtractPageLinks_def split: option.splits sum.splits)
  have full: "pageStorable (lk_host lib) ((crawled_page_zero (a\<lparr>pa_InternalLinkCount := int n, pa_ExternalLinkCount := int m,
      pa_Outcome := PageComplete\<rparr>))\<lparr>pg_links := links, pg_parsed := True\<rparr>)" for n m links
    using assms(2) by (simp add: pageStorable_def crawled_page_zero_def attemptSound_def storableFailure_def categories_valid
        MaxDelay_def duration_units)
  have bad: "pageStorable (lk_host lib) (failedPage (a\<lparr>pa_Outcome := out\<rparr>) cat)" if "category_Valid cat" for out cat
    by (rule failedPage_storable) (simp_all add: assms(2) that)
  show thesis
    by (rule that [of "fst (the (extractedPage lib source current ct b a))" "snd (the (extractedPage lib source current ct b a))"])
      (use x full bad in \<open>auto simp: extractedPage_def categories_valid split: sum.splits prod.splits page_status.splits\<close>)
qed

lemma readPage_storable:
  assumes "crawlable (lk_host (ce_lib env)) source" and "attemptSound (lk_host (ce_lib env)) a"
  obtains page commit w' where "readPage env c ctx source current response b a w = (Some (page, commit), w')"
    "pageStorable (lk_host (ce_lib env)) page"
proof -
  obtain closeErr w1 where close: "ce_Close env response (ce_reading env w) = (closeErr, w1)" by fastforce
  let ?read = "readBounded b (nat (cc_MaxPageBytes (cw_config c)))"
  let ?data = "case ?read of Inl _ \<Rightarrow> [] | Inr (data, _) \<Rightarrow> data"
  let ?a = "a\<lparr>pa_ResponseBytes := int (length ?data)\<rparr>"
  have a: "attemptSound (lk_host (ce_lib env)) ?a" using assms(2) by (simp add: attemptSound_def)
  have bad: "pageStorable (lk_host (ce_lib env)) (failedPage (?a\<lparr>pa_Outcome := out\<rparr>) cat)" if "category_Valid cat" for out cat
    by (rule failedPage_storable) (simp_all add: a that)
  have cats: "category_Valid CategoryTimeout" "category_Valid CategoryTransport" "category_Valid CategoryOversizedContent"
    by (simp_all add: categories_valid)
  obtain page commit where p: "extractedPage (ce_lib env) source current (r_Header response ''Content-Type'') ?data ?a =
      Some (page, commit)" "pageStorable (lk_host (ce_lib env)) page"
    by (rule extractedPage_storable [OF assms(1) a])
  let ?good = "\<lambda>r. \<exists>page commit. r = Some (page, commit) \<and> pageStorable (lk_host (ce_lib env)) page"
  have "fst (readPage env c ctx source current response b a w) =
      (if r_StatusCode response < 200 \<or> r_StatusCode response \<ge> 300
       then Some (httpFailure (ce_ParseTime env) response (cw_clock c w1) ?a, False)
       else if isl ?read \<or> closeErr \<noteq> None
       then Some (if ctx w1 \<noteq> None then failedPage (?a\<lparr>pa_Outcome := PageTimeout\<rparr>) CategoryTimeout
                  else failedPage (?a\<lparr>pa_Outcome := PageNetworkError\<rparr>) CategoryTransport, False)
       else if snd (projr ?read) then Some (failedPage (?a\<lparr>pa_Outcome := PageTooLarge\<rparr>) CategoryOversizedContent, False)
       else Some (page, commit))"
    unfolding readPage_def Let_def close prod.case p(1) by simp
  moreover have "?good (Some (httpFailure (ce_ParseTime env) response (cw_clock c w1) ?a, False))"
    using pageStorable_failures(2) [OF a] by blast
  moreover have "?good (Some (if t then failedPage (?a\<lparr>pa_Outcome := PageTimeout\<rparr>) CategoryTimeout
                  else failedPage (?a\<lparr>pa_Outcome := PageNetworkError\<rparr>) CategoryTransport, False))" for t
    using bad cats by (cases t) auto
  moreover have "?good (Some (failedPage (?a\<lparr>pa_Outcome := PageTooLarge\<rparr>) CategoryOversizedContent, False))"
    using bad cats by blast
  moreover have "?good (Some (page, commit))" using p(2) by blast
  ultimately have "?good (fst (readPage env c ctx source current response b a w))" by presburger
  then show thesis using that by (metis prod.collapse)
qed

lemma redirectStep_storable:
  assumes "crawlable lib source" and "attemptSound lib (fs_attempt fs)" and "0 \<le> n" and "onSource lib source (fs_current fs)"
  obtains page commit where "redirectStep lib source limit visited n response fs = Some (Inl (page, commit))" "pageStorable lib page"
  | fs' where "redirectStep lib source limit visited n response fs = Some (Inr fs')" "attemptSound lib (fs_attempt fs')"
    "onSource lib source (fs_current fs')"
proof -
  have bad: "pageStorable lib (failedPage (fs_attempt fs) CategoryMalformedOrigin)"
    by (rule failedPage_storable) (simp_all add: assms(2) categories_valid)
  show thesis
  proof (cases "pageRedirectTarget lib (fs_current fs) response")
    case (Inl e)
    with that(1) [OF _ bad, of False] show thesis by (simp add: redirectStep_def)
  next
    case (Inr next1)
    note safe = crawlable_redirect [OF assms(1,4) Inr]
    obtain nextOrigin where o1: "Origin.Parse lib (url_String lib next1) = Inr nextOrigin"
      using Inr by (auto simp: pageRedirectTarget_def Let_def split: if_splits sum.splits)
    show thesis
    proof (cases "nextOrigin = source")
      case False
      let ?a = "(fs_attempt fs)\<lparr>pa_RedirectCount := n + 1, pa_FinalURL := safeTelemetryURL lib next1, pa_Outcome := PageRedirected\<rparr>"
      have "pageStorable lib ((crawled_page_zero ?a)\<lparr>pg_links := links\<rparr>)" for links
        using assms(2,3) safe by (simp add: pageStorable_def crawled_page_zero_def attemptSound_def storableFailure_def
            categories_valid MaxDelay_def duration_units)
      with that(1) Inr o1 False show thesis by (simp add: redirectStep_def)
    next
      case True
      from crawlable_canonical [OF assms(1)] obtain v where v: "canonicalPageURL lib source next1 = Some v" by blast
      note on = canonical_onSource [OF v]
      have "attemptSound lib ((fs_attempt fs)\<lparr>pa_RedirectCount := n + 1, pa_FinalURL := safeTelemetryURL lib v\<rparr>)"
        using assms(2,3) crawlable_page [OF assms(1) on] by (simp add: attemptSound_def)
      with that(1) [OF _ bad, of False] that(2) Inr o1 True v on show thesis
        by (cases "n < limit \<and> url_String lib v \<notin> fs_hops fs \<and> url_String lib v \<notin> visited") (simp_all add: redirectStep_def Let_def)
    qed
  qed
qed

text \<open>A fetch of a page never panics, and its page is storable.\<close>

definition hopSound :: "host_lib \<Rightarrow> origin \<Rightarrow> (crawled_page \<times> bool \<times> fetch_state) option + fetch_state \<Rightarrow> bool" where
  "hopSound lib source x =
     (case x of
        Inl r \<Rightarrow> \<exists>page commit fs. r = Some (page, commit, fs) \<and> pageStorable lib page
      | Inr fs \<Rightarrow> attemptSound lib (fs_attempt fs) \<and> onSource lib source (fs_current fs))"

lemma fetchHop_storable:
  assumes cr: "crawlable (lk_host (ce_lib env)) source" and a: "attemptSound (lk_host (ce_lib env)) (fs_attempt fs)"
    and on: "onSource (lk_host (ce_lib env)) source (fs_current fs)"
  shows "hopSound (lk_host (ce_lib env)) source (fst (fetchHop env c ctx source visited n fs w))"
proof -
  let ?host = "lk_host (ce_lib env)"
  obtain r w1 where g: "the (cw_getter c) ctx (fs_current fs) w = (r, w1)" by fastforce
  have bad: "pageStorable ?host (failedPage (fs_attempt fs) CategoryTransport)"
    by (rule failedPage_storable) (simp_all add: a categories_valid)
  consider (err) e where "r = Inl e" | (none) "r = Inr None" | (nobody) response where "r = Inr (Some response)" "r_Body response = None"
    | (some) response b where "r = Inr (Some response)" "r_Body response = Some b"
    by (metis not_None_eq obj_sumE)
  moreover have page: "hopSound ?host source (Inl (pageOf fs1 (Some (page, commit))))" if "pageStorable ?host page" for fs1 page commit
    using that by (simp add: hopSound_def pageOf_def)
  ultimately show ?thesis
  proof cases
    case err
    with g page [OF pageStorable_failures(1) [OF a]] show ?thesis by (simp add: fetchHop_def)
  next
    case none
    with g page [OF bad] show ?thesis by (simp add: fetchHop_def)
  next
    case nobody
    with g page [OF bad] show ?thesis by (simp add: fetchHop_def)
  next
    case some
    let ?a = "(fs_attempt fs)\<lparr>pa_RobotsDecision := RobotsAllowed, pa_StatusCode := Some (r_StatusCode response),
      pa_FinalURL := safeTelemetryURL ?host (fs_current fs),
      pa_ContentType := safeTelemetryContentType (ce_lib env) (r_Header response ''Content-Type'')\<rparr>"
    have sound: "attemptSound ?host ?a"
      using a crawlable_page [OF cr on] by (simp add: attemptSound_def safeTelemetryContentType_def split: sum.splits)
    show ?thesis
    proof (cases "isPageRedirect (r_StatusCode response)")
      case True
      show ?thesis
        by (rule redirectStep_storable [OF cr, of "fs\<lparr>fs_attempt := ?a\<rparr>" "int n" "cc_RedirectLimit (cw_config c)" visited response])
          (use sound on g some True page in \<open>auto simp: fetchHop_def Let_def hopSound_def split: prod.splits\<close>)
    next
      case False
      obtain page commit w2 where "readPage env c ctx source (fs_current fs) response b ?a w1 = (Some (page, commit), w2)"
          "pageStorable ?host page"
        by (rule readPage_storable [OF cr sound])
      with g some False page show ?thesis by (simp add: fetchHop_def Let_def)
    qed
  qed
qed

lemma fetchPage_storable:
  assumes cr: "crawlable (lk_host (ce_lib env)) source"
  obtains page visited' w' where "fetchPage env c ctx source u visited w = (Some (page, visited'), w')"
    "pageStorable (lk_host (ce_lib env)) page"
proof -
  let ?host = "lk_host (ce_lib env)"
  let ?good = "\<lambda>r. \<exists>page commit fs. r = Some (page, commit, fs) \<and> pageStorable ?host page"
  from crawlable_canonical [OF cr] obtain v where v: "canonicalPageURL ?host source u = Some v" by blast
  note on = canonical_onSource [OF v]
  let ?fs = "\<lparr>fs_current = v, fs_hops = {url_String ?host v}, fs_attempt = startAttempt ?host v (cw_clock c w)\<rparr>"
  have start: "attemptSound ?host (fs_attempt ?fs)"
    using crawlable_page [OF cr on] by (simp add: attemptSound_def startAttempt_def)
  have "case fetchLoop env c ctx source visited 0 ?fs w of (r, w') \<Rightarrow> ?good r"
  proof (rule fetch_loop.loop_rule [where I = "\<lambda>n fs w'. attemptSound ?host (fs_attempt fs) \<and> onSource ?host source (fs_current fs)"])
    show "attemptSound ?host (fs_attempt fs') \<and> onSource ?host source (fs_current fs')"
      if "attemptSound ?host (fs_attempt fs) \<and> onSource ?host source (fs_current fs)"
        "fetchHop env c ctx source visited n fs w = (Inr fs', w')" for n fs w fs' w'
      using fetchHop_storable [OF cr, of fs c ctx visited n w] that by (simp add: hopSound_def)
    show "?good r" if "attemptSound ?host (fs_attempt fs) \<and> onSource ?host source (fs_current fs)"
        "fetchHop env c ctx source visited n fs w = (Inl r, w')" for n fs w r w'
      using fetchHop_storable [OF cr, of fs c ctx visited n w] that by (simp add: hopSound_def)
  qed (use start on in simp)
  then obtain page commit fs w' where l: "fetchLoop env c ctx source visited 0 ?fs w = (Some (page, commit, fs), w')" "pageStorable ?host page"
    by (auto split: prod.splits)
  let ?page = "page\<lparr>pg_attempt := (pg_attempt page)\<lparr>pa_Duration := time_Sub (cw_clock c w') (cw_clock c w)\<rparr>\<rparr>"
  show thesis
  proof (rule that)
    show "fetchPage env c ctx source u visited w = (Some (?page, if commit then visited \<union> fs_hops fs else visited), w')"
      using v l by (simp add: fetchPage_def)
    show "pageStorable ?host ?page" using l(2) by (simp add: pageStorable_def attemptSound_def)
  qed
qed

lemma fetchAttempts_storable:
  assumes cr: "crawlable (lk_host (ce_lib env)) source"
  shows "\<exists>page e visited' w'. fetchAttempts env c ctx source u n visited w = (Some (page, e, visited'), w') \<and>
    pageStorable (lk_host (ce_lib env)) page"
proof (induction "MaxAttemptsPerCycle - n" arbitrary: n visited w rule: less_induct)
  case less
  let ?pc = "the (cw_timeoutFactory c) ctx (cc_PageTimeout (cw_config c)) w"
  obtain page v w1 where p: "fetchPage env c ?pc source u visited w = (Some (page, v), w1)" "pageStorable (lk_host (ce_lib env)) page"
    by (rule fetchPage_storable [OF cr])
  show ?case
  proof (cases "\<not> Transient (pg_failureCategory page) \<or> n \<ge> MaxAttemptsPerCycle \<or> pg_retryAfter page > 0")
    case True
    with p show ?thesis by (subst fetchAttempts.simps) simp
  next
    case False
    then have "MaxAttemptsPerCycle - Suc n < MaxAttemptsPerCycle - n" by linarith
    from less.hyps [OF this, of v w1] False p show ?thesis by (subst fetchAttempts.simps) simp
  qed
qed

subsection \<open>The result of a crawl\<close>

abbreviation resultStorable :: "crawl_result \<Rightarrow> bool" where
  "resultStorable r \<equiv> storableFailure (cr_FailureCategory r) (cr_RetryAfter r)"

lemma extractedPage_failure: "extractedPage lib source current ct b a = Some (page, commit) \<Longrightarrow> pageFailure page"
  by (auto simp: extractedPage_def categories_valid split: option.splits sum.splits prod.splits page_status.splits)

lemma readPage_failure: "readPage env c ctx source current response b a w = (Some (page, commit), w') \<Longrightarrow> pageFailure page"
  by (auto simp: readPage_def Let_def httpFailure_failure categories_valid split: prod.splits if_splits
      dest: extractedPage_failure)

lemma redirectStep_failure:
  "redirectStep lib source limit visited n response fs = Some (Inl (page, commit)) \<Longrightarrow> pageFailure page"
  by (auto simp: redirectStep_def Let_def categories_valid split: sum.splits if_splits option.splits)

lemma fetchHop_failure: "fetchHop env c ctx source visited n fs w = (Inl (Some (page, commit, fs')), w') \<Longrightarrow> pageFailure page"
  unfolding fetchHop_def Let_def pageOf_def
  by (auto simp: getFailure_failure categories_valid split: prod.splits sum.splits option.splits if_splits
      dest: readPage_failure redirectStep_failure)

lemma fetchPage_failure:
  assumes "fetchPage env c ctx source u visited w = (Some (page, visited'), w')"
  shows "pageFailure page"
proof -
  let ?Q = "\<lambda>r w'. \<forall>page commit fs'. r = Some (page, commit, fs') \<longrightarrow> pageFailure page"
  have "case fetchLoop env c ctx source visited 0 fs w of (r, w') \<Rightarrow> ?Q r w'" for fs
    by (rule fetch_loop.loop_rule [where I = "\<lambda>_ _ _. True"]) (auto dest: fetchHop_failure)
  with assms show ?thesis by (fastforce simp: fetchPage_def Let_def split: option.splits prod.splits)
qed

lemma fetchAttempts_failure:
  "fetchAttempts env c ctx source u n visited w = (Some (page, e, visited'), w') \<Longrightarrow> pageFailure page"
proof (induction "MaxAttemptsPerCycle - n" arbitrary: n visited w rule: less_induct)
  case less
  from less.prems show ?case
    by (subst (asm) fetchAttempts.simps)
      (fastforce simp: Let_def split: prod.splits option.splits if_splits dest: fetchPage_failure less.hyps [rotated])
qed

lemma noteFailure_storable: "pageFailure page \<Longrightarrow> resultStorable r \<Longrightarrow> resultStorable (noteFailure page r)"
  by (auto simp: noteFailure_def storableFailure_def max_def)

lemma enqueueInternal_failure:
  "cr_FailureCategory (st_result (enqueueInternal lib config d us st)) = cr_FailureCategory (st_result st)"
  "cr_RetryAfter (st_result (enqueueInternal lib config d us st)) = cr_RetryAfter (st_result st)"
  by (induction us arbitrary: st) (simp_all add: Let_def)

lemma processPage_failure:
  "processPage env c ctx runID source d page st w = (t, st', w') \<Longrightarrow>
   cr_FailureCategory (st_result st') = cr_FailureCategory (st_result st) \<and>
   cr_RetryAfter (st_result st') = cr_RetryAfter (st_result st) \<and> t \<noteq> Panic"
  by (auto simp: processPage_def countParsed_def noteCandidates_def enqueuePage_def enqueueInternal_failure Let_def
      split: prod.splits option.splits if_splits)

lemma reportPage_storable:
  assumes "reportPage env c ctx runID source d page perr st w = (t, st', w')" and "pageFailure page"
    and "resultStorable (st_result st)"
  shows "resultStorable (st_result st') \<and> t \<noteq> Panic"
  using assms(1) noteFailure_storable [OF assms(2,3)]
  by (auto simp: reportPage_def Let_def split: prod.splits option.splits if_splits dest: processPage_failure)

text \<open>A turn panics only over a URL of the source that does not parse.\<close>

lemma fetchEntry_storable:
  assumes f: "fetchEntry env c ctx runID source entry st w = (t, st', w')" and st: "resultStorable (st_result st)"
  shows "resultStorable (st_result st') \<and> (t = Panic \<longrightarrow> \<not> crawlable (lk_host (ce_lib env)) source)"
proof -
  obtain e w0 where wait: "pageDelay c ctx (cr_PagesAttempted (st_result st)) w = (e, w0)" by fastforce
  obtain r w1 where a: "fetchAttempts env c ctx source (fe_pageURL entry) 1 (st_visited st) w0 = (r, w1)" by fastforce
  show ?thesis
  proof (cases r)
    case None
    then have "\<not> crawlable (lk_host (ce_lib env)) source"
      using a fetchAttempts_storable [of env source c ctx "fe_pageURL entry" 1 "st_visited st" w0] by auto
    with f wait a None st show ?thesis by (auto simp: fetchEntry_def Let_def split: option.splits)
  next
    case (Some p)
    obtain page perr v where p: "p = (page, perr, v)" using prod_cases3 by blast
    have "pageFailure page" using fetchAttempts_failure [OF a [unfolded Some p]] .
    with f wait a Some p st reportPage_storable show ?thesis by (fastforce simp: fetchEntry_def Let_def split: option.splits)
  qed
qed

lemma crawlTurn_storable:
  assumes "crawlTurn env c ctx runID source st w = (t, st', w')" and "resultStorable (st_result st)"
  shows "resultStorable (st_result st') \<and> (t = Panic \<longrightarrow> \<not> crawlable (lk_host (ce_lib env)) source)"
  using assms by (auto simp: crawlTurn_def Let_def split: if_splits dest: fetchEntry_storable)

lemma crawlLoop_storable:
  assumes "resultStorable (st_result st)"
  shows "case crawlLoop env c ctx runID source st w of
    (t, st', w') \<Rightarrow> resultStorable (st_result st') \<and> (t = Panic \<longrightarrow> \<not> crawlable (lk_host (ce_lib env)) source)"
  by (rule crawlLoop_rule [where I = "\<lambda>st w. resultStorable (st_result st)"])
    (use assms crawlTurn_storable in \<open>fastforce+\<close>)

lemma Crawl_storable:
  "case fst (Crawl env crawler ctx source w) of
     None \<Rightarrow> \<not> crawlable (lk_host (ce_lib env)) source
   | Some (res, e) \<Rightarrow> resultStorable res"
proof -
  have zero: "resultStorable (crawl_result_zero o1)" for o1
    by (simp add: crawl_result_zero_def storableFailure_def categories_valid MaxDelay_def duration_units)
  show ?thesis
  proof (cases "crawl_validate crawler ctx source w")
    case (Some err)
    with zero show ?thesis by (simp add: Crawl_def)
  next
    case None
    let ?c = "the crawler" and ?host = "lk_host (ce_lib env)"
    obtain b w1 where b: "ct_BeginCrawl (the (cw_telemetry ?c)) (the ctx) source (cw_config ?c) w = (b, w1)" by fastforce
    show ?thesis
    proof (cases b)
      case (Inl e)
      with None b zero show ?thesis by (simp add: Crawl_def Let_def)
    next
      case (Inr runID)
      show ?thesis
      proof (cases "url_Parse ?host (origin_String source @ ''/'')")
        case Inl
        with None b Inr show ?thesis by (simp add: Crawl_def Let_def crawlable_def)
      next
        case root1: (Inr rootURL)
        obtain t st2 w2 where l: "crawlLoop env ?c (the ctx) runID source (crawlStart ?host source rootURL) w1 = (t, st2, w2)"
          by (metis prod.exhaust)
        have "resultStorable (st_result (crawlStart ?host source rootURL))" using zero by (simp add: crawlStart_def)
        from crawlLoop_storable [OF this, where env = env and c = ?c and ctx = "the ctx" and runID = runID and source = source and w = w1] l
        have "resultStorable (st_result st2)" "t = Panic \<Longrightarrow> \<not> crawlable ?host source" by auto
        with None b Inr root1 l show ?thesis by (cases t) (simp_all add: Crawl_def Let_def case_prod_beta)
      qed
    qed
  qed
qed

subsection \<open>The attempts of a crawl\<close>

definition reportedFrom :: "host_lib \<Rightarrow> crawl_config \<Rightarrow> page_attempt \<Rightarrow> bool" where
  "reportedFrom lib config a \<longleftrightarrow>
     (\<exists>visited queued n d page. a = reportedAttempt lib config visited queued n d page \<and> pageStorable lib page)"

context crawl_monitor
begin

lemma processPage_reports:
  "processPage env c ctx runID source d page st w = (t, st', w') \<Longrightarrow> attemptsOf (calls w') = attemptsOf (calls w)"
  by (auto simp: processPage_def Let_def callsOf_append split: prod.splits option.splits if_splits dest!: recordFresh_call)

lemma reportPage_reports:
  assumes "reportPage env c ctx runID source d page perr st w = (t, st', w')" and "pageStorable host page"
    and "list_all (reportedFrom host (cw_config c)) (attemptsOf (calls w))"
  shows "list_all (reportedFrom host (cw_config c)) (attemptsOf (calls w'))"
proof -
  define pa where "pa = reportedAttempt host (cw_config c) (st_visited st) (st_queued st)
    (cr_PagesAttempted (st_result st)) d page"
  have pa: "reportedFrom host (cw_config c) pa" unfolding reportedFrom_def pa_def using assms(2) by blast
  obtain e w1 where rec: "ct_RecordPageAttempt telemetry ctx runID pa w = (e, w1)" by fastforce
  have "attemptsOf (calls w') = attemptsOf (calls w1)"
    using assms(1) rec unfolding reportPage_def Let_def parts option.sel
    by (auto simp: pa_def [symmetric] split: option.splits if_splits dest: processPage_reports)
  with page_call [OF rec] assms(3) pa show ?thesis by (simp add: callsOf_append)
qed

lemma crawlTurn_reports:
  assumes cr: "crawlable host source" and t: "crawlTurn env c ctx runID source st w = (t, st', w')"
    and start: "list_all (reportedFrom host (cw_config c)) (attemptsOf (calls w))"
  shows "list_all (reportedFrom host (cw_config c)) (attemptsOf (calls w'))"
proof -
  have "list_all (reportedFrom host (cw_config c)) (attemptsOf (calls w2))"
    if f: "fetchEntry env c ctx runID source entry st1 w = (t2, st2, w2)" for entry st1 t2 st2 w2
  proof -
    obtain e w0 where wait: "pageDelay c ctx (cr_PagesAttempted (st_result st1)) w = (e, w0)" by fastforce
    then have c0: "calls w0 = calls w"
      using silent(3) [of ctx "cc_RequestDelay (cw_config c)" w] parts by (auto simp: pageDelay_def split: if_splits)
    obtain page perr v w3 where a: "fetchAttempts env c ctx source (fe_pageURL entry) 1 (st_visited st1) w0 = (Some (page, perr, v), w3)"
        "pageStorable host page"
      using fetchAttempts_storable [OF cr] by metis
    have "attemptsOf (calls w3) = attemptsOf (calls w)"
      using fetchAttempts_fetched [of 1 source w0 ctx "fe_pageURL entry" "st_visited st1"] a(1) c0
      by (auto simp: fetched_def callsOf_append MaxAttemptsPerCycle_def)
    with start c0 f wait a reportPage_reports show ?thesis
      by (fastforce simp: fetchEntry_def Let_def split: option.splits)
  qed
  with t start show ?thesis by (auto simp: crawlTurn_def Let_def split: if_splits)
qed

lemma crawlLoop_reports:
  assumes "crawlable host source" and "list_all (reportedFrom host (cw_config c)) (attemptsOf (calls w))"
  shows "case crawlLoop env c ctx runID source st w of (t, st', w') \<Rightarrow>
    list_all (reportedFrom host (cw_config c)) (attemptsOf (calls w'))"
  by (rule crawlLoop_rule [where I = "\<lambda>st w. list_all (reportedFrom host (cw_config c)) (attemptsOf (calls w))"])
    (use assms crawlTurn_reports in \<open>fastforce+\<close>)

lemma Crawl_reports:
  assumes cr: "crawlable host source" and "calls w = []"
  shows "list_all (reportedFrom host (cw_config c)) (attemptsOf (calls (snd (Crawl env (Some c) ctx source w))))"
proof (cases "crawl_validate (Some c) ctx source w")
  case (Some err)
  with assms(2) show ?thesis by (simp add: Crawl_def)
next
  case None
  obtain b w1 where b: "ct_BeginCrawl telemetry (the ctx) source (cw_config c) w = (b, w1)" by fastforce
  have c1: "calls w1 = []" using silent(4) [OF b] assms(2) by simp
  show ?thesis
  proof (cases b)
    case (Inl e)
    with None b parts c1 show ?thesis by (simp add: Crawl_def Let_def)
  next
    case (Inr runID)
    obtain rootURL where root1: "url_Parse host (origin_String source @ ''/'') = Inr rootURL" using cr by (auto simp: crawlable_def)
    obtain t st2 w2 where l: "crawlLoop env c (the ctx) runID source (crawlStart host source rootURL) w1 = (t, st2, w2)"
      by (metis prod.exhaust)
    have "calls (snd (Crawl env (Some c) ctx source w)) = calls w2"
      using None b Inr root1 l parts by (cases t) (simp_all add: Crawl_def Let_def case_prod_beta finish_silent finalize_silent)
    with crawlLoop_reports [OF cr, of w1 "the ctx" runID "crawlStart host source rootURL"] c1 l show ?thesis by simp
  qed
qed

end

section \<open>Heartbeats\<close>

definition beatKey :: "service_heartbeat \<Rightarrow> string \<times> string" where
  "beatKey hb = (hb_Service hb, hb_InstanceID hb)"

definition beatAt :: "telemetry_db \<Rightarrow> string \<times> string \<Rightarrow> service_heartbeat option" where
  "beatAt db key = map_of (tm_heartbeats db) key"

lemma map_of_updateAll: "map_of (updateAll key f rows) k = (if k = key then map_option f (map_of rows k) else map_of rows k)"
  by (induction rows) (auto simp: updateAll_def)

lemma beatAt_upsert:
  "beatAt (upsertHeartbeat hb db) key =
     (if key \<noteq> beatKey hb then beatAt db key
      else case beatAt db key of
             None \<Rightarrow> Some hb
           | Some old \<Rightarrow> if heartbeatReplaces hb old then Some hb else Some old)"
  by (auto simp: upsertHeartbeat_def beatAt_def beatKey_def Let_def map_of_updateAll map_add_def split: option.splits)

lemma heartbeatReplaces_linear:
  "heartbeatReplaces hb hb" "heartbeatReplaces a b \<Longrightarrow> heartbeatReplaces b x \<Longrightarrow> heartbeatReplaces a x"
  "\<not> heartbeatReplaces a b \<Longrightarrow> heartbeatReplaces b a"
  by (auto simp: heartbeatReplaces_def)

text \<open>A row of the table after some beats: one of them, and none of them newer.\<close>

lemma upserts_newest:
  assumes "key \<in> beatKey ` set hbs"
  shows "\<exists>hb. beatAt (fold upsertHeartbeat hbs db) key = Some hb \<and> (hb \<in> set hbs \<or> beatAt db key = Some hb) \<and>
    (\<forall>x \<in> set hbs. beatKey x = key \<longrightarrow> heartbeatReplaces hb x) \<and>
    (\<forall>old. beatAt db key = Some old \<longrightarrow> heartbeatReplaces hb old)"
  using assms
proof (induction hbs rule: rev_induct)
  case (snoc x hbs)
  let ?db = "fold upsertHeartbeat hbs db"
  have same: "beatAt ?db key = beatAt db key" if "key \<notin> beatKey ` set hbs"
    using that by (induction hbs rule: rev_induct) (auto simp: beatAt_upsert)
  show ?case
  proof (cases "key \<in> beatKey ` set hbs")
    case True
    from snoc.IH [OF this] obtain hb where hb: "beatAt ?db key = Some hb" "hb \<in> set hbs \<or> beatAt db key = Some hb"
        "\<forall>x \<in> set hbs. beatKey x = key \<longrightarrow> heartbeatReplaces hb x" "\<forall>old. beatAt db key = Some old \<longrightarrow> heartbeatReplaces hb old"
      by blast
    show ?thesis
    proof (cases "beatKey x = key \<and> heartbeatReplaces x hb")
      case True
      with hb show ?thesis
        by (intro exI [of _ x]) (auto simp: beatAt_upsert heartbeatReplaces_linear(1) intro: heartbeatReplaces_linear(2))
    next
      case False
      with hb show ?thesis
        by (intro exI [of _ hb]) (auto simp: beatAt_upsert dest: heartbeatReplaces_linear(3))
    qed
  next
    case False
    with snoc.prems have key: "beatKey x = key" and others: "\<forall>y \<in> set hbs. beatKey y \<noteq> key"
      by (simp, blast)
    show ?thesis
    proof (cases "beatAt db key")
      case None
      with same [OF False] key others show ?thesis by (auto simp: beatAt_upsert heartbeatReplaces_linear(1))
    next
      case (Some old)
      with same [OF False] key others show ?thesis
        by (cases "heartbeatReplaces x old") (auto simp: beatAt_upsert heartbeatReplaces_linear(1) dest: heartbeatReplaces_linear(3))
    qed
  qed
qed simp

section \<open>A library with paths\<close>

text \<open>Enough of \<^verbatim>\<open>net/url\<close> for pages: a host and a path, references that are absolute or relative to the root. The laws hold of it.\<close>

definition webParse :: "string \<Rightarrow> go_error + url" where
  "webParse s =
     (let parsed = (\<lambda>scheme r. Inr ((bareURL scheme (takeWhile (\<lambda>c. c \<noteq> CHR ''/'') r))
                                    \<lparr>u_Path := dropWhile (\<lambda>c. c \<noteq> CHR ''/'') r\<rparr>))
      in if HasPrefix s ''http://'' then parsed ''http'' (drop 7 s)
         else if HasPrefix s ''https://'' then parsed ''https'' (drop 8 s) else Inl (Sentinel ''parse''))"

definition webString :: "url \<Rightarrow> string" where
  "webString u =
     u_Scheme u @ ''://'' @ u_Host u @ (if u_Path u \<noteq> [] \<and> \<not> HasPrefix (u_Path u) ''/'' then ''/'' else []) @ u_Path u"

definition webLib :: host_lib where
  "webLib = domainLib
     \<lparr>url_Parse := webParse, url_String := webString,
      url_ParseRef := (\<lambda>base ref. if HasPrefix ref ''http://'' \<or> HasPrefix ref ''https://'' then webParse ref
                                 else Inr (base\<lparr>u_Path := (if HasPrefix ref ''/'' then ref else ''/'' @ ref)\<rparr>))\<rparr>"

lemma webParse_String:
  assumes "u_Scheme u = ''http'' \<or> u_Scheme u = ''https''" and "CHR ''/'' \<notin> set (u_Host u)"
  shows "\<exists>p. webParse (webString u) = Inr p \<and> u_Scheme p = u_Scheme u \<and> u_Host p = u_Host u \<and> plainURL p"
proof -
  define path where "path = (if u_Path u \<noteq> [] \<and> \<not> HasPrefix (u_Path u) ''/'' then ''/'' else []) @ u_Path u"
  have path: "webString u = u_Scheme u @ ''://'' @ u_Host u @ path" "path = [] \<or> path ! 0 = CHR ''/''"
    by (cases "u_Path u"; simp add: webString_def path_def HasPrefix_def)+
  have "takeWhile (\<lambda>c. c \<noteq> CHR ''/'') (u_Host u @ path) = u_Host u"
    using assms(2) path(2) by (cases path) (auto simp: takeWhile_append)
  with assms(1) path(1) show ?thesis by (auto simp: webParse_def HasPrefix_def Let_def bareURL_def plainURL_def)
qed

lemma webParse_form: "webParse s = Inr v \<Longrightarrow> (u_Scheme v = ''http'' \<or> u_Scheme v = ''https'') \<and> CHR ''/'' \<notin> set (u_Host v)"
  by (auto simp: webParse_def Let_def bareURL_def split: if_splits dest: set_takeWhileD)

lemma webLib_laws: "string_law webLib" "resolve_law webLib"
proof -
  have parse: "url_Parse webLib = webParse" "url_String webLib = webString" by (simp_all add: webLib_def)
  show "string_law webLib" unfolding string_law_def parse
  proof (intro allI impI)
    fix s v u
    assume a: "webParse s = Inr v \<and> u_Host v \<noteq> [] \<and> u_Scheme u = u_Scheme v \<and> u_Host u = u_Host v \<and> plainURL u"
    with webParse_form [of s v] show "\<exists>p. webParse (webString u) = Inr p \<and> u_Scheme p = u_Scheme u \<and> u_Host p = u_Host u \<and> plainURL p"
      by (intro webParse_String) simp_all
  qed
  show "resolve_law webLib" unfolding resolve_law_def parse
  proof (intro allI impI)
    fix t v base s u p
    assume a: "webParse t = Inr v \<and> webURL v \<and> u_Scheme base = u_Scheme v \<and> u_Host base = u_Host v \<and>
      url_ParseRef webLib base s = Inr u \<and> webParse (webString (u\<lparr>u_Fragment := [], u_RawFragment := []\<rparr>)) = Inr p"
    have "(u_Scheme u = ''http'' \<or> u_Scheme u = ''https'') \<and> CHR ''/'' \<notin> set (u_Host u)"
      using a webParse_form [of t v] webParse_form [of s u] by (auto simp: webLib_def split: if_splits)
    with a webParse_String [of "u\<lparr>u_Fragment := [], u_RawFragment := []\<rparr>"] show "u_Scheme p = u_Scheme u \<and> u_Host p = u_Host u"
      by auto
  qed
qed

lemma webLib_crawlable: "crawlable webLib exampleSource"
  using webLib_laws
  by (simp add: crawlable_def webURL_def) (simp add: webLib_def webParse_def exampleSource_def origin_String_def HasPrefix_def bareURL_def)

section \<open>Properties\<close>

text \<open>
  C19. Every page attempt a crawl reports has the form the store accepts, up to its clock and the status of the server: whatever
  the servers answer and whatever the sink and the store do, the store refuses an attempt only when its start is the zero
  time, its duration is negative, or the status code is outside 100 to 599. The source is one whose serialization parses as
  a web URL, also with the path of its root page, and \<^verbatim>\<open>net/url\<close> writes and resolves URLs as \<open>string_law\<close> and \<open>resolve_law\<close> say.
\<close>
theorem crawl_attempts_storable:
  assumes "crawlable (lk_host (ce_lib env)) source"
  shows "case Crawl (notedEnv env) (Some (notedCrawler getter sink config waiter timeoutFactory telemetry clock)) ctx source
          (w, []) of
     (_, (_, calls)) \<Rightarrow>
       list_all (\<lambda>a. validPageAttempt (lk_host (ce_lib env)) a \<longleftrightarrow>
                    pa_StartedAt a \<noteq> 0 \<and> 0 \<le> pa_Duration a \<and> validStatusCode (pa_StatusCode a)) (attemptsOf calls)"
proof -
  let ?c = "notedCrawler getter sink config waiter timeoutFactory telemetry clock" and ?lib = "lk_host (ce_lib env)"
  obtain r w' calls where out: "Crawl (notedEnv env) (Some ?c) ctx source (w, []) = (r, (w', calls))" by (metis prod.exhaust)
  have cfg: "cw_config ?c = config" "ce_lib (notedEnv env) = ce_lib env" by (simp_all add: notedCrawler_def notedEnv_def)
  have seq: "map pa_Sequence (attemptsOf calls) = map (\<lambda>i. int (Suc i)) [0..<length (attemptsOf calls)]"
      "list_all (\<lambda>d. 0 \<le> d \<and> d \<le> cc_MaxDepth config) (map pa_Depth (attemptsOf calls))"
    using notedCrawl_sound [OF out] by auto
  have pos: "0 < pa_Sequence a \<and> 0 \<le> pa_Depth a" if "a \<in> set (attemptsOf calls)" for a
  proof -
    from that have "pa_Sequence a \<in> set (map (\<lambda>i. int (Suc i)) [0..<length (attemptsOf calls)])" unfolding seq(1) [symmetric] by simp
    with that seq(2) show ?thesis by (auto simp: list_all_iff)
  qed
  have "list_all (reportedFrom ?lib config) (attemptsOf calls)"
    using noted.Crawl_reports [where w = "(w, [])" and env = env and source = source and ctx = ctx and getter = getter and sink = sink
        and config = config and waiter = waiter and timeoutFactory = timeoutFactory and telemetry = telemetry and clock = clock]
      assms out cfg by simp
  then have "validPageAttempt ?lib a \<longleftrightarrow> pa_StartedAt a \<noteq> 0 \<and> 0 \<le> pa_Duration a \<and> validStatusCode (pa_StatusCode a)"
    if "a \<in> set (attemptsOf calls)" for a
    using pos [OF that] that
    by (auto simp: list_all_iff reportedFrom_def validPageAttempt_def reportedAttempt_def pageStorable_def attemptSound_def
        storableFailure_def validRobotsDecision_def validPageOutcome_def
        intro: robots_decision.exhaust page_outcome.exhaust)
  then show ?thesis unfolding out by (simp add: list_all_iff)
qed

text \<open>A source that answers every request with one status, crawled at time 7 with a store that accepts everything.\<close>

definition answering :: "int \<Rightarrow> int page_getter" where
  "answering status = (\<lambda>_ _ t. (Inr (Some \<lparr>r_StatusCode = status, r_Header = (\<lambda>_. []), r_Body = Some (Body [] None)\<rparr>), t))"

definition exampleCrawlEnv :: "int crawl_env" where
  "exampleCrawlEnv =
     \<lparr>ce_lib = \<lparr>lk_host = webLib, lk_ParseMediaType = (\<lambda>_. Inl (Sentinel ''mime'')), lk_DetectContentType = (\<lambda>_. []),
                lk_charset_NewReader = (\<lambda>_ _. Inr (Body [] None)), lk_html_Parse = (\<lambda>_. Inr [])\<rparr>,
      ce_ParseTime = (\<lambda>_. None), ce_reading = id, ce_Close = (\<lambda>_ t. (None, t)), ce_finishContext = (\<lambda>_ _ _. None)\<rparr>"

definition exampleSink :: "int candidate_sink" where
  "exampleSink = \<lparr>cs_RecordCandidates = (\<lambda>_ _ _ t. (None, t)), cs_RecordCandidatesForRun = None, cs_FinalizeCandidates = None\<rparr>"

definition exampleCrawlConfig :: crawl_config where
  "exampleCrawlConfig =
     \<lparr>cc_MaxDepth = 1, cc_MaxPages = 2, cc_MaxPageBytes = 10, cc_RequestDelay = 0, cc_RedirectLimit = 1, cc_PageTimeout = 5,
      cc_MaxAutomaticPromotionsPerRun = 0\<rparr>"

definition exampleTelemetry :: "int crawl_telemetry" where
  "exampleTelemetry =
     \<lparr>ct_BeginCrawl = (\<lambda>_ _ _ t. (Inr 1, t)), ct_RecordPageAttempt = (\<lambda>_ _ _ t. (None, t)),
      ct_FinishCrawl = (\<lambda>_ _ _ _ _ t. (None, t)), ct_FinishCrawlSummary = None\<rparr>"

definition exampleCrawler :: "int \<Rightarrow> int noted crawler" where
  "exampleCrawler status =
     notedCrawler (answering status) exampleSink exampleCrawlConfig (\<lambda>_ d t. (None, t + d)) (\<lambda>ctx _ _. ctx) exampleTelemetry (\<lambda>t. t)"

definition exampleCrawlCalls :: "int \<Rightarrow> crawl_call list" where
  "exampleCrawlCalls status =
     snd (snd (Crawl (notedEnv exampleCrawlEnv) (Some (exampleCrawler status)) (Some (\<lambda>_. None)) exampleSource (7, [])))"

lemma exampleCrawl_statuses:
  "map (\<lambda>a. (pa_StatusCode a, pa_StartedAt a, pa_Duration a)) (attemptsOf (exampleCrawlCalls 404)) = [(Some 404, 7, 0)]"
  by code_simp

theorem crawl_attempts_storable_witness:
  "attemptsOf (exampleCrawlCalls 404) \<noteq> [] \<and> list_all (validPageAttempt webLib) (attemptsOf (exampleCrawlCalls 404))"
proof -
  have lib: "lk_host (ce_lib exampleCrawlEnv) = webLib" by (simp add: exampleCrawlEnv_def)
  from crawl_attempts_storable [of exampleCrawlEnv exampleSource, unfolded lib, OF webLib_crawlable,
      where getter = "answering 404" and sink = exampleSink and config = exampleCrawlConfig and waiter = "\<lambda>_ d t. (None, t + d)"
        and timeoutFactory = "\<lambda>ctx _ _. ctx" and telemetry = exampleTelemetry and clock = "\<lambda>t. t" and ctx = "Some (\<lambda>_. None)" and w = 7]
  have "list_all (\<lambda>a. validPageAttempt webLib a \<longleftrightarrow>
      pa_StartedAt a \<noteq> 0 \<and> 0 \<le> pa_Duration a \<and> validStatusCode (pa_StatusCode a)) (attemptsOf (exampleCrawlCalls 404))"
    unfolding exampleCrawlCalls_def exampleCrawler_def by (auto split: prod.splits)
  moreover obtain a where "attemptsOf (exampleCrawlCalls 404) = [a]" "pa_StatusCode a = Some 404" "pa_StartedAt a = 7" "pa_Duration a = 0"
    using exampleCrawl_statuses by auto
  ultimately show ?thesis by (simp add: validStatusCode_def)
qed

text \<open>
  A crawl never panics, and what it gives back can be stored: whatever the servers, the sink, the telemetry and the clock
  do, it returns a result, and the failure category and the delay of that result are ones the completion of the source
  accepts.
\<close>
theorem Crawl_result_storable:
  assumes "crawlable (lk_host (ce_lib env)) source"
  shows "case Crawl env crawler ctx source w of
    (r, _) \<Rightarrow> \<exists>res e. r = Some (res, e) \<and> category_Valid (cr_FailureCategory res) \<and> 0 \<le> cr_RetryAfter res \<and> cr_RetryAfter res \<le> MaxDelay"
  using assms Crawl_storable [where env = env and crawler = crawler and ctx = ctx and source = source and w = w]
  by (auto simp: storableFailure_def split: prod.splits option.splits)

theorem Crawl_result_storable_witness:
  "\<exists>res e. fst (Crawl (notedEnv exampleCrawlEnv) (Some (exampleCrawler 404)) (Some (\<lambda>_. None)) exampleSource (7, [])) = Some (res, e) \<and>
     category_Valid (cr_FailureCategory res)"
  using Crawl_result_storable [of "notedEnv exampleCrawlEnv" exampleSource "Some (exampleCrawler 404)" "Some (\<lambda>_. None)" "(7, [])"] webLib_crawlable
  by (auto simp: notedEnv_def exampleCrawlEnv_def split: prod.splits)

text \<open>
  Of the heartbeats of a service instance the newest one is kept, in whatever order they arrive: after any sequence of
  accepted updates the row is one of them or the row there was before, and none of these has a later start, or the same start
  and a later update.
\<close>
theorem UpsertServiceHeartbeat_newest:
  assumes "discovery_validate s ctx = None" and "list_all validHeartbeat hbs" and "hb0 \<in> set hbs"
  shows "\<exists>hb. beatAt (fold (\<lambda>hb db. snd (UpsertServiceHeartbeat s ctx None hb db)) hbs db) (beatKey hb0) = Some hb \<and>
    (hb \<in> set hbs \<or> beatAt db (beatKey hb0) = Some hb) \<and>
    (\<forall>x \<in> set hbs \<union> set_option (beatAt db (beatKey hb0)). beatKey x = beatKey hb0 \<longrightarrow>
       hb_StartedAt x < hb_StartedAt hb \<or> hb_StartedAt x = hb_StartedAt hb \<and> hb_UpdatedAt x \<le> hb_UpdatedAt hb)"
proof -
  have "fold (\<lambda>hb db. snd (UpsertServiceHeartbeat s ctx None hb db)) hbs db = fold upsertHeartbeat hbs db"
    using assms(1,2) by (induction hbs arbitrary: db) (simp_all add: UpsertServiceHeartbeat_def)
  moreover from upserts_newest [of "beatKey hb0" hbs db] assms(3) obtain hb where
      "beatAt (fold upsertHeartbeat hbs db) (beatKey hb0) = Some hb" "hb \<in> set hbs \<or> beatAt db (beatKey hb0) = Some hb"
      "\<forall>x \<in> set hbs. beatKey x = beatKey hb0 \<longrightarrow> heartbeatReplaces hb x"
      "\<forall>old. beatAt db (beatKey hb0) = Some old \<longrightarrow> heartbeatReplaces hb old"
    by auto
  ultimately show ?thesis by (intro exI [of _ hb]) (auto simp: heartbeatReplaces_def)
qed

definition exampleBeat :: "go_time \<Rightarrow> go_time \<Rightarrow> service_heartbeat" where
  "exampleBeat started updated =
     \<lparr>hb_Service = ''worker'', hb_InstanceID = ''w1'', hb_State = ''idle'', hb_CurrentOrigin = origin_zero, hb_Message = [],
      hb_BuildVersion = [], hb_BuildCommit = [], hb_StartedAt = started, hb_UpdatedAt = updated\<rparr>"

definition exampleTables :: telemetry_db where
  "exampleTables = \<lparr>tm_base = exampleSeeds, tm_sequence = 0, tm_summaries = [], tm_pages = [], tm_heartbeats = [], tm_control_updated_at = 1\<rparr>"

theorem UpsertServiceHeartbeat_newest_witness:
  "beatAt (fold (\<lambda>hb db. snd (UpsertServiceHeartbeat (Some exampleHandle) (Some None) None hb db))
     [exampleBeat 5 6, exampleBeat 2 9, exampleBeat 5 7] exampleTables) (''worker'', ''w1'') = Some (exampleBeat 5 7)"
proof -
  let ?hbs = "[exampleBeat 5 6, exampleBeat 2 9, exampleBeat 5 7]"
  have key: "beatKey (exampleBeat a b) = (''worker'', ''w1'')" for a b by (simp add: beatKey_def exampleBeat_def)
  have "list_all validHeartbeat ?hbs" by (simp add: validHeartbeat_def exampleBeat_def) code_simp
  moreover have "discovery_validate (Some exampleHandle) (Some None) = None" by (simp add: discovery_validate_def exampleHandle_def)
  ultimately obtain hb where hb: "beatAt (fold (\<lambda>hb db. snd (UpsertServiceHeartbeat (Some exampleHandle) (Some None) None hb db)) ?hbs exampleTables)
      (beatKey (exampleBeat 5 7)) = Some hb" "hb \<in> set ?hbs \<or> beatAt exampleTables (beatKey (exampleBeat 5 7)) = Some hb"
    "hb_StartedAt (exampleBeat 5 7) < hb_StartedAt hb \<or> hb_StartedAt (exampleBeat 5 7) = hb_StartedAt hb \<and> hb_UpdatedAt (exampleBeat 5 7) \<le> hb_UpdatedAt hb"
    using UpsertServiceHeartbeat_newest [of "Some exampleHandle" "Some None" ?hbs "exampleBeat 5 7" exampleTables] by auto
  then have "hb = exampleBeat 5 7" by (auto simp: beatAt_def exampleTables_def exampleBeat_def)
  with hb(1) key show ?thesis by simp
qed

text \<open>
  Finishing a run seals it: afterwards no page can be added to it and it cannot be finished again, whatever the arguments
  are, and nothing changes.
\<close>
theorem FinishCrawlSummary_seals:
  assumes "FinishCrawlSummary s ctx now dbErr runID result outcome stopReason remaining db = (None, db')"
  shows "\<not> openRun runID db' \<and>
    (\<exists>e. RecordPageAttempt lib s1 ctx1 dbErr1 runID a db' = (Some e, db')) \<and>
    (\<exists>e. FinishCrawlSummary s2 ctx2 now2 dbErr2 runID result2 outcome2 stopReason2 remaining2 db' = (Some e, db'))"
proof -
  from assms have "dd_runs (tm_base db') = updateAll runID (finishedRun now outcome stopReason runID db) (dd_runs (tm_base db))"
    by (auto simp: FinishCrawlSummary_def Let_def split: option.splits if_splits)
  then have "\<not> openRun runID db'"
    by (auto simp: openRun_def map_of_updateAll finishedRun_def split: option.splits)
  then show ?thesis
    by (auto simp: RecordPageAttempt_def FinishCrawlSummary_def split: option.splits)
qed

definition exampleRunning :: telemetry_db where
  "exampleRunning = snd (BeginCrawl (Some exampleHandle) (Some None) 3 None exampleSource exampleCrawlConfig exampleTables)"

theorem FinishCrawlSummary_seals_witness:
  "openRun 1 exampleRunning \<and>
   \<not> openRun 1 (snd (FinishCrawlSummary (Some exampleHandle) (Some None) 4 None 1 (crawl_result_zero exampleSource) CrawlRunComplete [] 0
     exampleRunning))"
proof -
  have v: "discovery_validate (Some exampleHandle) (Some None) = None" by (simp add: discovery_validate_def exampleHandle_def)
  have open1: "openRun 1 exampleRunning"
    by (simp add: exampleRunning_def BeginCrawl_def v openRun_def exampleTables_def exampleSeeds_def exampleSources_def startedRun_def exampleSource_def
        origin_String_def validTelemetryConfig_def exampleCrawlConfig_def Let_def)
  let ?out = "FinishCrawlSummary (Some exampleHandle) (Some None) 4 None 1 (crawl_result_zero exampleSource) CrawlRunComplete [] 0 exampleRunning"
  have "fst ?out = None" using open1 by (simp add: FinishCrawlSummary_def v crawl_result_zero_def validRunOutcome_def Let_def)
  then have "?out = (None, snd ?out)" by (metis prod.collapse)
  from FinishCrawlSummary_seals [OF this] open1 show ?thesis by blast
qed

end
