(* ===== verification/Crawl_Runner.thy ===== *)
theory Crawl_Runner
  imports Telemetry
begin

text \<open>
  The crawl runner, \<^verbatim>\<open>internal/discovery/crawl_runner.go\<close>: it claims a source, crawls it while a goroutine
  renews the lease, and completes the source with what the crawl found. The store, the crawler, the waiter and
  the observer act on a state of type \<open>'w\<close>. The two goroutines meet in the renewals: the argument
  \<open>firings\<close> lists, for each firing of the renewal timer that is taken, what the crawl did before it and whether
  the crawl returned while the renewal was under way; the rest of the crawl follows. Every interleaving of the
  crawl with the renewals is such a list.
\<close>

definition defaultCrawlSourceLeaseDuration :: duration where "defaultCrawlSourceLeaseDuration = 5 * minute"

definition errCrawlRunnerUnavailable where "errCrawlRunnerUnavailable = Sentinel ''discovery: crawl runner unavailable''"
definition errCrawlSourceStoreUnavailable where
  "errCrawlSourceStoreUnavailable = Sentinel ''discovery: crawl source store unavailable''"
definition errSourceCrawlerUnavailable where
  "errSourceCrawlerUnavailable = Sentinel ''discovery: source crawler unavailable''"
definition errCrawlRunnerWaiterUnavailable where
  "errCrawlRunnerWaiterUnavailable = Sentinel ''discovery: crawl runner waiter unavailable''"
definition errInvalidCrawlRunnerConfig where
  "errInvalidCrawlRunnerConfig = Sentinel ''discovery: invalid crawl runner configuration''"

section \<open>Interfaces and state\<close>

record 'w source_store =
  st_Claim :: "'w ctx_err \<Rightarrow> duration \<Rightarrow> duration \<Rightarrow> 'w \<Rightarrow> (go_error + source_lease option) \<times> 'w"
  st_Renew :: "'w ctx_err \<Rightarrow> source_lease \<Rightarrow> duration \<Rightarrow> 'w \<Rightarrow> (go_error + source_lease) \<times> 'w"
  st_Complete :: "'w ctx_err \<Rightarrow> source_lease \<Rightarrow> category \<Rightarrow> duration \<Rightarrow> 'w \<Rightarrow> go_error option \<times> 'w"
  st_DiscoveryPaused :: "('w ctx_err \<Rightarrow> 'w \<Rightarrow> (go_error + bool) \<times> 'w) option"

type_synonym 'w source_crawler = "'w ctx_err \<Rightarrow> origin \<Rightarrow> 'w \<Rightarrow> (crawl_result \<times> go_error option) \<times> 'w"

type_synonym 'w firing = "('w \<Rightarrow> 'w) \<times> bool"

record runner_config =
  rc_DiscoveryInterval :: duration
  rc_PollInterval :: duration
  rc_LeaseDuration :: duration

record crawl_report =
  rp_Worked :: bool
  rp_Source :: origin
  rp_PagesAttempted :: int
  rp_PagesParsed :: int
  rp_CandidatesDiscovered :: int
  rp_BudgetExhausted :: bool

record 'w crawl_runner =
  ru_store :: "'w source_store option"
  ru_crawler :: "'w source_crawler option"
  ru_config :: runner_config
  ru_waiter :: "('w ctx_err \<Rightarrow> duration \<Rightarrow> 'w \<Rightarrow> go_error option \<times> 'w) option"
  ru_observer :: "(string \<Rightarrow> origin \<Rightarrow> string \<Rightarrow> 'w \<Rightarrow> 'w) option"

definition crawl_report_zero :: crawl_report where
  "crawl_report_zero =
     \<lparr>rp_Worked = False, rp_Source = origin_zero, rp_PagesAttempted = 0, rp_PagesParsed = 0,
      rp_CandidatesDiscovered = 0, rp_BudgetExhausted = False\<rparr>"

definition runnerSetObserver ::
    "(string \<Rightarrow> origin \<Rightarrow> string \<Rightarrow> 'w \<Rightarrow> 'w) option \<Rightarrow> 'w crawl_runner option \<Rightarrow> 'w crawl_runner option" where
  "runnerSetObserver obs ru = map_option (\<lambda>r. r\<lparr>ru_observer := obs\<rparr>) ru"

definition runnerObserve :: "'w crawl_runner \<Rightarrow> string \<Rightarrow> origin \<Rightarrow> string \<Rightarrow> 'w \<Rightarrow> 'w" where
  "runnerObserve ru state source message w =
     (case ru_observer ru of None \<Rightarrow> w | Some obs \<Rightarrow> obs state source message w)"

section \<open>Validation\<close>

definition validCrawlRunnerConfig :: "runner_config \<Rightarrow> bool" where
  "validCrawlRunnerConfig config \<longleftrightarrow>
     rc_DiscoveryInterval config > 0 \<and> rc_PollInterval config > 0 \<and> rc_LeaseDuration config \<ge> 0"

definition runnerLeaseDuration :: "runner_config \<Rightarrow> duration" where
  "runnerLeaseDuration config =
     (if rc_LeaseDuration config > 0 then rc_LeaseDuration config else defaultCrawlSourceLeaseDuration)"

text \<open>The division of durations truncates; a lease duration is positive here.\<close>

definition discoveryLeaseRenewInterval :: "duration \<Rightarrow> duration" where
  "discoveryLeaseRenewInterval leaseDuration =
     (let interval = leaseDuration div 2 in if interval \<le> 0 then leaseDuration else interval)"

definition newCrawlRunner ::
    "'w source_store option \<Rightarrow> 'w source_crawler option \<Rightarrow> runner_config \<Rightarrow>
     ('w ctx_err \<Rightarrow> duration \<Rightarrow> 'w \<Rightarrow> go_error option \<times> 'w) option \<Rightarrow> go_error + 'w crawl_runner" where
  "newCrawlRunner store crawler config waiter =
     (if store = None then Inl errCrawlSourceStoreUnavailable
      else if crawler = None then Inl errSourceCrawlerUnavailable
      else if \<not> validCrawlRunnerConfig config then Inl errInvalidCrawlRunnerConfig
      else if waiter = None then Inl errCrawlRunnerWaiterUnavailable
      else Inr \<lparr>ru_store = store, ru_crawler = crawler, ru_config = config, ru_waiter = waiter, ru_observer = None\<rparr>)"

definition runner_validate :: "'w crawl_runner option \<Rightarrow> 'w go_context \<Rightarrow> bool \<Rightarrow> 'w \<Rightarrow> go_error option" where
  "runner_validate ru ctx requireWaiter w =
     (case ru of
        None \<Rightarrow> Some errCrawlRunnerUnavailable
      | Some r \<Rightarrow>
          (case ctx of
             None \<Rightarrow> Some errInvalidDiscoveryContext
           | Some ctx_Err \<Rightarrow>
               (case ctx_Err w of
                  Some err \<Rightarrow> Some err
                | None \<Rightarrow>
                    if ru_store r = None then Some errCrawlSourceStoreUnavailable
                    else if ru_crawler r = None then Some errSourceCrawlerUnavailable
                    else if \<not> validCrawlRunnerConfig (ru_config r) then Some errInvalidCrawlRunnerConfig
                    else if requireWaiter \<and> ru_waiter r = None then Some errCrawlRunnerWaiterUnavailable
                    else None)))"

section \<open>Crawling under a lease\<close>

text \<open>
  The renewal goroutine: the lease it ends with, the error of a failed renewal, and whether it canceled the
  crawl. A failure after its own context ended counts as none.
\<close>

fun renewCrawlSourceLease ::
    "'w source_store \<Rightarrow> 'w ctx_err \<Rightarrow> duration \<Rightarrow> source_lease \<Rightarrow> 'w firing list \<Rightarrow> 'w \<Rightarrow>
     (source_lease \<times> go_error option \<times> bool) \<times> 'w" where
  "renewCrawlSourceLease store ctx leaseDuration current [] w = ((current, None, False), w)"
| "renewCrawlSourceLease store ctx leaseDuration current ((part, returned) # firings) w =
     (case st_Renew store (\<lambda>w. if returned then Some Canceled else ctx w) current leaseDuration (part w) of
        (Inl err, w) \<Rightarrow>
          if returned \<or> ctx w \<noteq> None then ((current, None, False), w) else ((current, Some err, True), w)
      | (Inr renewed, w) \<Rightarrow>
          if returned then ((renewed, None, False), w)
          else renewCrawlSourceLease store ctx leaseDuration renewed firings w)"

definition crawlWithLease ::
    "'w crawl_runner \<Rightarrow> 'w ctx_err \<Rightarrow> (source_lease \<Rightarrow> 'w \<Rightarrow> 'w firing list) \<Rightarrow> source_lease \<Rightarrow> 'w \<Rightarrow>
     (crawl_result \<times> go_error option \<times> source_lease \<times> go_error option) \<times> 'w" where
  "crawlWithLease ru ctx firings l w =
     (case renewCrawlSourceLease (the (ru_store ru)) ctx (runnerLeaseDuration (ru_config ru)) l (firings l w) w of
        ((current, renewalErr, canceled), w) \<Rightarrow>
          (case the (ru_crawler ru) (\<lambda>w. if canceled then Some Canceled else ctx w) (sl_Origin l) w of
             ((result, crawlErr), w) \<Rightarrow> ((result, crawlErr, current, renewalErr), w)))"

definition noSource :: "'w crawl_runner \<Rightarrow> 'w ctx_err \<Rightarrow> 'w \<Rightarrow> (crawl_report \<times> go_error option) \<times> 'w" where
  "noSource ru ctx w =
     (case st_DiscoveryPaused (the (ru_store ru)) of
        None \<Rightarrow> ((crawl_report_zero, None), runnerObserve ru ''idle'' origin_zero [] w)
      | Some paused \<Rightarrow>
          (case paused ctx w of
             (Inl err, w) \<Rightarrow> ((crawl_report_zero, Some err), runnerObserve ru ''failed'' origin_zero ''control_read_failed'' w)
           | (Inr p, w) \<Rightarrow>
               ((crawl_report_zero, None), runnerObserve ru (if p then ''paused'' else ''idle'') origin_zero [] w)))"

definition completeFailed ::
    "'w crawl_runner \<Rightarrow> 'w ctx_err \<Rightarrow> crawl_report \<Rightarrow> source_lease \<Rightarrow> crawl_result \<Rightarrow> go_error \<Rightarrow> 'w \<Rightarrow>
     (crawl_report \<times> go_error option) \<times> 'w" where
  "completeFailed ru ctx report current result crawlErr w =
     (let source = rp_Source report;
          category1 = (if cr_FailureCategory result = CategoryNone then CategoryProcessor else cr_FailureCategory result)
      in case st_Complete (the (ru_store ru)) ctx current category1 (cr_RetryAfter result) w of
           (Some completionErr, w) \<Rightarrow>
             ((report, Some (Wrap ''discovery: complete failed crawl source'' [completionErr])),
              runnerObserve ru ''failed'' source ''completion_failed'' w)
         | (None, w) \<Rightarrow>
             ((report, Some (Wrap ''discovery: crawl source'' [crawlErr])),
              runnerObserve ru ''failed'' source ''crawl_failed'' w))"

definition completeCrawled ::
    "'w crawl_runner \<Rightarrow> 'w ctx_err \<Rightarrow> crawl_report \<Rightarrow> source_lease \<Rightarrow> crawl_result \<Rightarrow> 'w \<Rightarrow>
     (crawl_report \<times> go_error option) \<times> 'w" where
  "completeCrawled ru ctx report current result w =
     (let report = report\<lparr>rp_PagesAttempted := cr_PagesAttempted result, rp_PagesParsed := cr_PagesParsed result,
                          rp_CandidatesDiscovered := cr_CandidatesDiscovered result,
                          rp_BudgetExhausted := cr_BudgetExhausted result\<rparr>
      in case st_Complete (the (ru_store ru)) ctx current (cr_FailureCategory result) (cr_RetryAfter result) w of
           (Some err, w) \<Rightarrow>
             ((report, Some (Wrap ''discovery: complete crawl source'' [err])),
              runnerObserve ru ''failed'' (rp_Source report) ''completion_failed'' w)
         | (None, w) \<Rightarrow> ((report, None), runnerObserve ru ''idle'' origin_zero [] w))"

definition crawlLeased ::
    "'w crawl_runner \<Rightarrow> 'w ctx_err \<Rightarrow> (source_lease \<Rightarrow> 'w \<Rightarrow> 'w firing list) \<Rightarrow> source_lease \<Rightarrow> 'w \<Rightarrow>
     (crawl_report \<times> go_error option) \<times> 'w" where
  "crawlLeased ru ctx firings l w =
     (let report = crawl_report_zero\<lparr>rp_Worked := True, rp_Source := sl_Origin l\<rparr>
      in case crawlWithLease ru ctx firings l (runnerObserve ru ''running'' (sl_Origin l) [] w) of
           ((result, crawlErr, current, renewalErr), w) \<Rightarrow>
             (case ctx w of
                Some parentErr \<Rightarrow> ((report, Some parentErr), w)
              | None \<Rightarrow>
                  (case renewalErr of
                     Some err \<Rightarrow>
                       ((report, Some (Wrap ''discovery: renew crawl source lease'' [err])),
                        runnerObserve ru ''failed'' (sl_Origin l) ''lease_renewal_failed'' w)
                   | None \<Rightarrow>
                       (case crawlErr of
                          Some err \<Rightarrow> completeFailed ru ctx report current result err w
                        | None \<Rightarrow> completeCrawled ru ctx report current result w))))"

definition runOnceWithLease ::
    "'w crawl_runner \<Rightarrow> 'w ctx_err \<Rightarrow> (source_lease \<Rightarrow> 'w \<Rightarrow> 'w firing list) \<Rightarrow> 'w \<Rightarrow>
     (crawl_report \<times> go_error option) \<times> 'w" where
  "runOnceWithLease ru ctx firings w =
     (case st_Claim (the (ru_store ru)) ctx (rc_DiscoveryInterval (ru_config ru))
             (runnerLeaseDuration (ru_config ru)) w of
        (Inl err, w) \<Rightarrow>
          ((crawl_report_zero, Some (Wrap ''discovery: claim crawl source'' [err])),
           runnerObserve ru ''failed'' origin_zero ''claim_failed'' w)
      | (Inr None, w) \<Rightarrow> noSource ru ctx w
      | (Inr (Some l), w) \<Rightarrow> crawlLeased ru ctx firings l w)"

definition crawlRunOnce ::
    "'w crawl_runner option \<Rightarrow> 'w go_context \<Rightarrow> (source_lease \<Rightarrow> 'w \<Rightarrow> 'w firing list) \<Rightarrow> 'w \<Rightarrow>
     (crawl_report \<times> go_error option) \<times> 'w" where
  "crawlRunOnce ru ctx firings w =
     (case runner_validate ru ctx False w of
        Some err \<Rightarrow> ((crawl_report_zero, Some err), w)
      | None \<Rightarrow> runOnceWithLease (the ru) (the ctx) firings w)"

section \<open>The loop\<close>

definition crawlRunTurn ::
    "'w crawl_runner \<Rightarrow> 'w ctx_err \<Rightarrow> (source_lease \<Rightarrow> 'w \<Rightarrow> 'w firing list) \<Rightarrow> 'w \<Rightarrow> go_error option \<times> 'w" where
  "crawlRunTurn ru ctx firings w =
     (let pause = (\<lambda>w. the (ru_waiter ru) ctx (rc_PollInterval (ru_config ru)) w)
      in case crawlRunOnce (Some ru) (Some ctx) firings w of
           ((report, Some err), w) \<Rightarrow>
             (case ctx w of
                Some contextError \<Rightarrow> (Some contextError, w)
              | None \<Rightarrow> if rp_Worked report then (None, w) else pause w)
         | ((report, None), w) \<Rightarrow> if rp_Worked report then (None, w) else pause w)"

partial_function (option) crawlRunLoop ::
    "'w crawl_runner \<Rightarrow> 'w ctx_err \<Rightarrow> (source_lease \<Rightarrow> 'w \<Rightarrow> 'w firing list) \<Rightarrow> 'w \<Rightarrow> (go_error \<times> 'w) option" where
  "crawlRunLoop ru ctx firings w =
     (case crawlRunTurn ru ctx firings w of
        (Some err, w') \<Rightarrow> Some (err, w')
      | (None, w') \<Rightarrow> crawlRunLoop ru ctx firings w')"

definition crawlRun ::
    "'w crawl_runner option \<Rightarrow> 'w go_context \<Rightarrow> (source_lease \<Rightarrow> 'w \<Rightarrow> 'w firing list) \<Rightarrow> 'w \<Rightarrow> (go_error \<times> 'w) option" where
  "crawlRun ru ctx firings w =
     (case runner_validate ru ctx True w of
        Some err \<Rightarrow> Some (err, w)
      | None \<Rightarrow> crawlRunLoop (the ru) (the ctx) firings w)"

section \<open>The loop returns\<close>

interpretation crawl_run_loop: turn_loop "crawlRunTurn ru ctx firings" "crawlRunLoop ru ctx firings" ctx
  "\<lambda>err w'. ctx w' = Some err \<or> (\<exists>w0. the (ru_waiter ru) ctx (rc_PollInterval (ru_config ru)) w0 = (Some err, w'))"
  for ru ctx firings
proof
  show "crawlRunLoop ru ctx firings w =
      (case crawlRunTurn ru ctx firings w of (Some e, w') \<Rightarrow> Some (e, w') | (None, w') \<Rightarrow> crawlRunLoop ru ctx firings w')" for w
    by (rule crawlRunLoop.simps)
qed (auto simp: crawlRunTurn_def crawlRunOnce_def runner_validate_def Let_def split: prod.splits option.splits if_splits)

section \<open>The protocol of a runner\<close>

text \<open>
  The calls a runner makes, with what they gave it. A renewal that fails after its context ended is interrupted; the crawl
  is noted when it returns.
\<close>

datatype renewal = Renewed source_lease | RenewalFailed | RenewalInterrupted

datatype source_call =
    ClaimSource "source_lease option"
  | RenewSource source_lease renewal
  | CrawledSource origin
  | CompleteSource source_lease category duration bool

datatype runner_phase =
    Waiting
  | NoSource
  | Crawling source_lease
  | Ending source_lease
  | Crawled source_lease
  | LeaseLost source_lease
  | SourceDone source_lease
  | CompletionFailed source_lease

definition sameLease :: "source_lease \<Rightarrow> source_lease \<Rightarrow> bool" where
  "sameLease l l' \<longleftrightarrow> sl_Origin l' = sl_Origin l \<and> sl_Generation l' = sl_Generation l"

text \<open>
  The specification: a runner renews the lease it was given, always the latest one; it crawls the origin of the lease once; it
  completes the source at most once, after the crawl, under the latest lease and with what the table accepts; and once a
  renewal failed under way it completes nothing.
\<close>

fun runnerStep :: "runner_phase \<Rightarrow> source_call \<Rightarrow> runner_phase option" where
  "runnerStep Waiting (ClaimSource None) = Some NoSource"
| "runnerStep Waiting (ClaimSource (Some l)) = Some (Crawling l)"
| "runnerStep (Crawling l) (RenewSource l' r) =
     (if l' \<noteq> l then None
      else case r of
             Renewed l1 \<Rightarrow> if sameLease l l1 then Some (Crawling l1) else None
           | RenewalFailed \<Rightarrow> Some (LeaseLost l)
           | RenewalInterrupted \<Rightarrow> Some (Ending l))"
| "runnerStep (Crawling l) (CrawledSource source) = (if source = sl_Origin l then Some (Crawled l) else None)"
| "runnerStep (Ending l) (CrawledSource source) = (if source = sl_Origin l then Some (Crawled l) else None)"
| "runnerStep (LeaseLost l) (CrawledSource source) = (if source = sl_Origin l then Some (LeaseLost l) else None)"
| "runnerStep (Crawled l) (CompleteSource l' cat retryAfter ok) =
     (if l' = l \<and> storableFailure cat retryAfter then Some (if ok then SourceDone l else CompletionFailed l) else None)"
| "runnerStep _ _ = None"

definition runner_protocol :: "source_call list \<Rightarrow> runner_phase option" where
  "runner_protocol cs = foldl (\<lambda>p c. case p of None \<Rightarrow> None | Some q \<Rightarrow> runnerStep q c) (Some Waiting) cs"

lemma runner_protocol_Nil [simp]: "runner_protocol [] = Some Waiting"
  by (simp add: runner_protocol_def)

lemma runner_protocol_snoc: "runner_protocol cs = Some p \<Longrightarrow> runner_protocol (cs @ [c]) = runnerStep p c"
  by (simp add: runner_protocol_def)

text \<open>
  What a runner relies on: its store and its crawler note their calls, renewals keep the lease, results are storable. A
  context is blind when it does not depend on the note.
\<close>

locale source_contract =
  fixes store :: "'w source_store" and crawler :: "'w source_crawler" and ru :: "'w crawl_runner"
    and calls :: "'w \<Rightarrow> source_call list" and blind :: "'w ctx_err \<Rightarrow> bool"
  assumes claim_call: "st_Claim store ctx interval d w = (r, w') \<Longrightarrow>
      calls w' = calls w @ [ClaimSource (case r of Inl _ \<Rightarrow> None | Inr c \<Rightarrow> c)]"
    and blind_cancel: "blind ctx \<Longrightarrow> blind (\<lambda>w. if b then Some Canceled else ctx w)"
    and renew_call: "blind ctx \<Longrightarrow> st_Renew store ctx l d w = (r', w') \<Longrightarrow>
      calls w' = calls w @ [RenewSource l (case r' of Inr l' \<Rightarrow> Renewed l'
                                                    | Inl _ \<Rightarrow> if ctx w' = None then RenewalFailed else RenewalInterrupted)]"
    and renew_same: "st_Renew store ctx l d w = (Inr l', w') \<Longrightarrow> sameLease l l'"
    and complete_call: "st_Complete store ctx l cat retryAfter w = (e, w') \<Longrightarrow>
      calls w' = calls w @ [CompleteSource l cat retryAfter (e = None)]"
    and paused_call: "st_DiscoveryPaused store = Some f \<Longrightarrow> f ctx w = (p, w') \<Longrightarrow> calls w' = calls w"
    and crawl_call: "crawler ctx source w = ((res, e), w') \<Longrightarrow> calls w' = calls w @ [CrawledSource source]"
    and crawl_storable: "crawler ctx source w = ((res, e), w') \<Longrightarrow> storableFailure (cr_FailureCategory res) (cr_RetryAfter res)"
    and parts: "ru_store ru = Some store" "ru_crawler ru = Some crawler"
    and observe_silent: "calls (runnerObserve ru state source message w) = calls w"
begin

definition reaches :: "source_call list \<Rightarrow> 'w \<Rightarrow> runner_phase \<Rightarrow> bool" where
  "reaches before w p \<longleftrightarrow> (\<exists>cs. calls w = before @ cs \<and> runner_protocol cs = Some p)"

lemma reaches_start: "reaches (calls w) w Waiting"
  by (auto simp: reaches_def)

lemma reaches_step:
  assumes "reaches before w p" and "calls w' = calls w @ [c]" and "runnerStep p c = Some q"
  shows "reaches before w' q"
proof -
  from assms(1) obtain cs where cs: "calls w = before @ cs" "runner_protocol cs = Some p"
    by (auto simp: reaches_def)
  with assms(3) have "runner_protocol (cs @ [c]) = Some q" by (simp add: runner_protocol_snoc)
  moreover have "calls w' = before @ (cs @ [c])" using assms(2) cs by simp
  ultimately show ?thesis by (auto simp: reaches_def)
qed

lemma reaches_observe [simp]: "reaches before (runnerObserve ru state source message w) p = reaches before w p"
  by (simp add: reaches_def observe_silent)

text \<open>What the crawl does between the renewals is not a call of the runner.\<close>

definition silent :: "'w firing list \<Rightarrow> bool" where
  "silent firings \<longleftrightarrow> list_all (\<lambda>(part, _). \<forall>w. calls (part w) = calls w) firings"

text \<open>The renewals end under way, interrupted, or lost; only the last reports an error while the context goes on.\<close>

definition renewedTo :: "source_call list \<Rightarrow> 'w ctx_err \<Rightarrow> source_lease \<Rightarrow> (source_lease \<times> go_error option \<times> bool) \<times> 'w \<Rightarrow> bool" where
  "renewedTo before ctx l out \<longleftrightarrow>
     (case out of ((current, err, _), w') \<Rightarrow>
        sameLease l current \<and>
        (if err = None then reaches before w' (Crawling current) \<or> reaches before w' (Ending current)
         else reaches before w' (LeaseLost current)))"

lemma renew_reaches:
  assumes "blind ctx" and "reaches before w (Crawling l)" and "silent firings"
  shows "renewedTo before ctx l (renewCrawlSourceLease store ctx d l firings w)"
  using assms(2,3)
proof (induction firings arbitrary: l w)
  case Nil
  then show ?case by (simp add: renewedTo_def sameLease_def)
next
  case (Cons firing firings)
  obtain part returned where p: "firing = (part, returned)" by fastforce
  let ?ctx = "\<lambda>w. if returned then Some Canceled else ctx w"
  obtain r w1 where r: "st_Renew store ?ctx l d (part w) = (r, w1)" by fastforce
  have "calls (part w) = calls w" using Cons.prems(2) p by (simp add: silent_def)
  with Cons.prems(1) have start: "reaches before (part w) (Crawling l)" by (simp add: reaches_def)
  show ?case
  proof (cases r)
    case (Inl err)
    have "reaches before w1 (if ?ctx w1 = None then LeaseLost l else Ending l)"
      by (rule reaches_step [OF start renew_call [OF blind_cancel [OF assms(1)] r]]) (simp add: Inl)
    with p r Inl show ?thesis by (auto simp: renewedTo_def sameLease_def split: if_splits)
  next
    case (Inr l1)
    note same = renew_same [OF r [unfolded Inr]]
    have held: "reaches before w1 (Crawling l1)"
      by (rule reaches_step [OF start renew_call [OF blind_cancel [OF assms(1)] r]]) (simp add: Inr same)
    show ?thesis
    proof (cases returned)
      case True
      with p r Inr held same show ?thesis by (auto simp: renewedTo_def)
    next
      case False
      have "renewedTo before ctx l1 (renewCrawlSourceLease store ctx d l1 firings w1)"
        by (rule Cons.IH [OF held]) (use Cons.prems(2) in \<open>simp add: silent_def\<close>)
      with p r Inr False same show ?thesis by (auto simp: renewedTo_def sameLease_def)
    qed
  qed
qed

lemma crawlWithLease_reaches:
  assumes bl: "blind ctx" and "reaches before w (Crawling l)" and "silent (firings l w)"
    and "crawlWithLease ru ctx firings l w = ((res, crawlErr, current, renewalErr), w')"
  shows "reaches before w' (if renewalErr = None then Crawled current else LeaseLost current)"
    and "storableFailure (cr_FailureCategory res) (cr_RetryAfter res)" and "sl_Origin current = sl_Origin l"
proof -
  obtain cur err canceled w1 where
      rn: "renewCrawlSourceLease store ctx (runnerLeaseDuration (ru_config ru)) l (firings l w) w = ((cur, err, canceled), w1)"
    by (metis prod.exhaust)
  let ?ctx = "\<lambda>w. if canceled then Some Canceled else ctx w"
  obtain c: "crawler ?ctx (sl_Origin l) w1 = ((res, crawlErr), w')" and eq: "current = cur" "renewalErr = err"
    using assms(4) rn parts by (auto simp: crawlWithLease_def split: prod.splits)
  have "renewedTo before ctx l ((cur, err, canceled), w1)"
    unfolding rn [symmetric] by (rule renew_reaches [OF assms(1,2)]) (rule assms(3))
  then have same: "sl_Origin cur = sl_Origin l" and
      "if err = None then reaches before w1 (Crawling cur) \<or> reaches before w1 (Ending cur) else reaches before w1 (LeaseLost cur)"
    by (auto simp: renewedTo_def sameLease_def)
  then show "reaches before w' (if renewalErr = None then Crawled current else LeaseLost current)"
    using crawl_call [OF c] by (auto simp: eq intro: reaches_step split: if_splits)
  show "storableFailure (cr_FailureCategory res) (cr_RetryAfter res)" by (rule crawl_storable [OF c])
  show "sl_Origin current = sl_Origin l" by (simp add: eq same)
qed

text \<open>The report agrees with the phase the calls end in.\<close>

definition reported :: "source_call list \<Rightarrow> (crawl_report \<times> go_error option) \<times> 'w \<Rightarrow> bool" where
  "reported before out \<longleftrightarrow>
     (case out of ((report, err), w') \<Rightarrow>
        \<exists>p. reaches before w' p \<and> (rp_Worked report \<longleftrightarrow> p \<notin> {Waiting, NoSource}) \<and>
            (rp_Worked report \<and> err = None \<longrightarrow> (\<exists>l. p = SourceDone l \<and> sl_Origin l = rp_Source report)))"

lemma complete_reaches:
  assumes "reaches before w (Crawled l)" and "storableFailure cat retryAfter"
    and "st_Complete store ctx l cat retryAfter w = (e, w')"
  shows "reaches before w' (if e = None then SourceDone l else CompletionFailed l)"
  by (rule reaches_step [OF assms(1) complete_call [OF assms(3)]]) (simp add: assms(2))

lemma storable_processor: "storableFailure cat retryAfter \<Longrightarrow>
    storableFailure (if cat = CategoryNone then CategoryProcessor else cat) retryAfter"
  by (auto simp: storableFailure_def category_Valid_def)

lemma completeFailed_reported:
  assumes "reaches before w (Crawled l)" and "storableFailure (cr_FailureCategory res) (cr_RetryAfter res)" and "rp_Worked report"
  shows "reported before (completeFailed ru ctx report l res err w)"
proof -
  let ?cat = "if cr_FailureCategory res = CategoryNone then CategoryProcessor else cr_FailureCategory res"
  obtain e w1 where e: "st_Complete store ctx l ?cat (cr_RetryAfter res) w = (e, w1)" by fastforce
  from complete_reaches [OF assms(1) storable_processor [OF assms(2)] e] e assms(3) parts show ?thesis
    by (cases e) (auto simp: completeFailed_def reported_def Let_def)
qed

lemma completeCrawled_reported:
  assumes "reaches before w (Crawled l)" and "storableFailure (cr_FailureCategory res) (cr_RetryAfter res)" and "rp_Worked report"
    and "rp_Source report = sl_Origin l"
  shows "reported before (completeCrawled ru ctx report l res w)"
proof -
  obtain e w1 where e: "st_Complete store ctx l (cr_FailureCategory res) (cr_RetryAfter res) w = (e, w1)" by fastforce
  from complete_reaches [OF assms(1,2) e] e assms(3,4) parts show ?thesis
    by (cases e) (auto simp: completeCrawled_def reported_def Let_def)
qed

lemma crawlLeased_reported:
  assumes "blind ctx" and "reaches before w (Crawling l)" and "\<And>l w. silent (firings l w)"
  shows "reported before (crawlLeased ru ctx firings l w)"
proof -
  let ?w = "runnerObserve ru ''running'' (sl_Origin l) [] w"
  obtain res crawlErr current renewalErr w1 where
      out: "crawlWithLease ru ctx firings l ?w = ((res, crawlErr, current, renewalErr), w1)" by (metis prod.exhaust)
  have "reaches before ?w (Crawling l)" using assms(2) by simp
  note r = crawlWithLease_reaches [OF assms(1) this assms(3) out]
  consider (stopped) e where "ctx w1 = Some e" | (lost) e where "ctx w1 = None" "renewalErr = Some e"
    | (failed) e where "ctx w1 = None" "renewalErr = None" "crawlErr = Some e"
    | (crawled) "ctx w1 = None" "renewalErr = None" "crawlErr = None" by (cases "ctx w1"; cases renewalErr; cases crawlErr) auto
  then show ?thesis
  proof cases
    case stopped
    with out r(1) show ?thesis by (auto simp: crawlLeased_def reported_def Let_def split: if_splits)
  next
    case lost
    with out r(1) show ?thesis by (auto simp: crawlLeased_def reported_def Let_def)
  next
    case failed
    with out r completeFailed_reported show ?thesis by (simp add: crawlLeased_def Let_def)
  next
    case crawled
    with out r completeCrawled_reported show ?thesis by (simp add: crawlLeased_def Let_def)
  qed
qed

lemma noSource_reported: "reaches before w NoSource \<Longrightarrow> reported before (noSource ru ctx w)"
  using paused_call parts
  by (auto simp: noSource_def reported_def crawl_report_zero_def reaches_def observe_silent
      split: option.splits prod.splits sum.splits)

lemma crawlRunOnce_reported:
  assumes "\<And>cx. ctx = Some cx \<Longrightarrow> blind cx" and "\<And>l w. silent (firings l w)"
  shows "reported (calls w) (crawlRunOnce (Some ru) ctx firings w)"
proof (cases "runner_validate (Some ru) ctx False w")
  case (Some e)
  with reaches_start show ?thesis by (auto simp: crawlRunOnce_def reported_def crawl_report_zero_def)
next
  case None
  let ?cfg = "ru_config ru"
  obtain r w1 where r: "st_Claim store (the ctx) (rc_DiscoveryInterval ?cfg) (runnerLeaseDuration ?cfg) w = (r, w1)" by fastforce
  have at1: "reaches (calls w) w1 (case r of Inr (Some l) \<Rightarrow> Crawling l | _ \<Rightarrow> NoSource)"
    by (rule reaches_step [OF reaches_start claim_call [OF r]]) (simp split: sum.splits option.splits)
  consider (failed) e where "r = Inl e" | (none) "r = Inr None" | (some) l where "r = Inr (Some l)"
    by (cases r) auto
  then show ?thesis
  proof cases
    case failed
    with None r at1 parts show ?thesis by (auto simp: crawlRunOnce_def runOnceWithLease_def reported_def crawl_report_zero_def)
  next
    case none
    with None r noSource_reported at1 parts show ?thesis by (simp add: crawlRunOnce_def runOnceWithLease_def)
  next
    case some
    with at1 have "reaches (calls w) w1 (Crawling l)" by simp
    moreover have "blind (the ctx)" using None assms(1) by (auto simp: runner_validate_def split: option.splits)
    ultimately have "reported (calls w) (crawlLeased ru (the ctx) firings l w1)"
      using crawlLeased_reported assms(2) by blast
    with some None r parts show ?thesis
      by (simp add: crawlRunOnce_def runOnceWithLease_def)
  qed
qed

end

end
