(* ===== verification/Runtime.thy ===== *)
theory Runtime
  imports Crawl_Runner
begin

text \<open>
  The discovery runtime, \<^verbatim>\<open>cmd/joshbot/discovery.go\<close>: the sink that hands candidates to the store and resolves them
  before they are admitted, the store that schedules probes before it claims a source, and the construction and execution of
  the crawl runner. The store and the resolver act on a state of type \<open>'w\<close>.
\<close>

definition operationalHistoryRetention :: duration where "operationalHistoryRetention = 30 * 24 * hour"

definition errDiscoveryRunnerUnavailable where
  "errDiscoveryRunnerUnavailable = Sentinel ''discovery runner is unavailable''"
definition errDiscoveryLoggerUnavailable where
  "errDiscoveryLoggerUnavailable = Sentinel ''discovery logger is unavailable''"

definition discoveryAdmissionDNSRetryDelay :: duration where "discoveryAdmissionDNSRetryDelay = 100 * 1000000"

section \<open>The candidate sink\<close>

record 'w automatic_store =
  as_PendingAutomaticCandidates :: "'w ctx_err \<Rightarrow> run_id \<Rightarrow> 'w \<Rightarrow> (go_error + candidate list) \<times> 'w"
  as_CompleteAutomaticCandidates :: "'w ctx_err \<Rightarrow> run_id \<Rightarrow> automatic_result list \<Rightarrow> 'w \<Rightarrow> go_error option \<times> 'w"

text \<open>The two further interfaces a store may implement.\<close>

record 'w candidate_store =
  dc_RecordDiscovery :: "'w ctx_err \<Rightarrow> origin \<Rightarrow> candidate list \<Rightarrow> 'w \<Rightarrow> (go_error + int) \<times> 'w"
  dc_RecordDiscoveryForRun :: "('w ctx_err \<Rightarrow> run_id \<Rightarrow> origin \<Rightarrow> candidate list \<Rightarrow> 'w \<Rightarrow> (go_error + int) \<times> 'w) option"
  dc_automatic :: "'w automatic_store option"

record 'w runtime_sink =
  sk_store :: "'w candidate_store"
  sk_resolver :: "'w resolver option"
  sk_lib :: host_lib
  sk_sleep :: "'w ctx_err \<Rightarrow> duration \<Rightarrow> 'w \<Rightarrow> go_error option \<times> 'w"

definition errorOf :: "(go_error + 'a) \<times> 'w \<Rightarrow> go_error option \<times> 'w" where
  "errorOf out = (case out of (Inl err, w) \<Rightarrow> (Some err, w) | (Inr _, w) \<Rightarrow> (None, w))"

definition RecordCandidates :: "'w runtime_sink \<Rightarrow> 'w ctx_err \<Rightarrow> origin \<Rightarrow> candidate list \<Rightarrow> 'w \<Rightarrow> go_error option \<times> 'w" where
  "RecordCandidates sink ctx source candidates w = errorOf (dc_RecordDiscovery (sk_store sink) ctx source candidates w)"

definition RecordCandidatesForRun ::
    "'w runtime_sink \<Rightarrow> 'w ctx_err \<Rightarrow> run_id \<Rightarrow> origin \<Rightarrow> candidate list \<Rightarrow> 'w \<Rightarrow> go_error option \<times> 'w" where
  "RecordCandidatesForRun sink ctx runID source candidates w =
     (case dc_RecordDiscoveryForRun (sk_store sink) of
        None \<Rightarrow> RecordCandidates sink ctx source candidates w
      | Some recordForRun \<Rightarrow> errorOf (recordForRun ctx runID source candidates w))"

text \<open>The attempts to resolve one candidate (lines 139-168): the category of the last one, or the error of a wait.\<close>

function resolveAttempts ::
    "'w runtime_sink \<Rightarrow> 'w ctx_err \<Rightarrow> origin \<Rightarrow> nat \<Rightarrow> category \<Rightarrow> 'w \<Rightarrow> (go_error + category) \<times> 'w" where
  "resolveAttempts sink ctx source attempt cat w =
     (if attempt \<ge> MaxAttemptsPerCycle then (Inr cat, w)
      else (case Resolve (sk_lib sink) (Some ctx) source (sk_resolver sink) w of
              (Inr _, w) \<Rightarrow> (Inr CategoryNone, w)
            | (Inl resolveErr, w) \<Rightarrow>
                (let cat = FailureCategory resolveErr
                 in if \<not> Transient cat \<or> attempt + 1 \<ge> MaxAttemptsPerCycle then (Inr cat, w)
                    else (case sk_sleep sink ctx discoveryAdmissionDNSRetryDelay w of
                            (Some err, w) \<Rightarrow> (Inl err, w)
                          | (None, w) \<Rightarrow> resolveAttempts sink ctx source (attempt + 1) cat w))))"
  by pat_completeness auto
termination
  by (relation "measure (\<lambda>(_, _, _, attempt, _). MaxAttemptsPerCycle - attempt)") auto

declare resolveAttempts.simps [simp del]

fun decideCandidates ::
    "'w runtime_sink \<Rightarrow> 'w ctx_err \<Rightarrow> candidate list \<Rightarrow> 'w \<Rightarrow> (go_error + automatic_result list) \<times> 'w" where
  "decideCandidates sink ctx [] w = (Inr [], w)"
| "decideCandidates sink ctx (candidate # pending) w =
     (case resolveAttempts sink ctx (c_Origin candidate) 0 CategoryNone w of
        (Inl err, w) \<Rightarrow> (Inl err, w)
      | (Inr cat, w) \<Rightarrow>
          (case decideCandidates sink ctx pending w of
             (Inl err, w) \<Rightarrow> (Inl err, w)
           | (Inr decisions, w) \<Rightarrow> (Inr (\<lparr>ar_Candidate = candidate, ar_FailureCategory = cat\<rparr> # decisions), w)))"

definition FinalizeCandidates :: "'w runtime_sink \<Rightarrow> 'w ctx_err \<Rightarrow> run_id \<Rightarrow> 'w \<Rightarrow> go_error option \<times> 'w" where
  "FinalizeCandidates sink ctx runID w =
     (case dc_automatic (sk_store sink) of
        None \<Rightarrow> (None, w)
      | Some admissionStore \<Rightarrow>
          (case as_PendingAutomaticCandidates admissionStore ctx runID w of
             (Inl err, w) \<Rightarrow> (Some err, w)
           | (Inr pending, w) \<Rightarrow>
               (case decideCandidates sink ctx pending w of
                  (Inl err, w) \<Rightarrow> (Some err, w)
                | (Inr decisions, w) \<Rightarrow> as_CompleteAutomaticCandidates admissionStore ctx runID decisions w)))"

definition runtimeCandidateSink :: "'w runtime_sink \<Rightarrow> 'w candidate_sink" where
  "runtimeCandidateSink sink =
     \<lparr>cs_RecordCandidates = RecordCandidates sink, cs_RecordCandidatesForRun = Some (RecordCandidatesForRun sink),
      cs_FinalizeCandidates = Some (FinalizeCandidates sink)\<rparr>"

section \<open>Candidates are resolved before they are admitted\<close>

text \<open>
  A host is public when it is a public address, or the noted answers of the resolver hold one for it whose addresses are all
  public.
\<close>

definition publicHost :: "host_lib \<Rightarrow> (string \<times> addr list) list \<Rightarrow> string \<Rightarrow> bool" where
  "publicHost lib answers host =
     (case ParseAddr lib host of
        Inr a \<Rightarrow> publicAddr a
      | Inl _ \<Rightarrow> list_ex (\<lambda>(h, as). h = host \<and> as \<noteq> [] \<and> list_all publicAddr as) answers)"

text \<open>
  What the sink relies on: the resolver notes its answers, waiting and reading the batch note nothing, and neither the resolver
  nor waiting touches the tables.
\<close>

locale noted_resolver =
  fixes sink :: "'w runtime_sink" and answers :: "'w \<Rightarrow> (string \<times> addr list) list" and kept :: "'w \<Rightarrow> 'k"
  assumes lookup: "sk_resolver sink = Some f \<Longrightarrow> f w net host = (Inl e, w') \<Longrightarrow> answers w' = answers w"
      "sk_resolver sink = Some f \<Longrightarrow> f w net host = (Inr as, w') \<Longrightarrow> answers w' = answers w @ [(host, as)]"
    and lookup_kept: "sk_resolver sink = Some f \<Longrightarrow> kept (snd (f w net host)) = kept w"
    and sleep_silent: "answers (snd (sk_sleep sink ctx d w)) = answers w"
    and sleep_kept: "kept (snd (sk_sleep sink ctx d w)) = kept w"
    and pending_silent: "dc_automatic (sk_store sink) = Some st \<Longrightarrow>
      answers (snd (as_PendingAutomaticCandidates st ctx runID w)) = answers w"
begin

lemma Resolve_answers:
  assumes "Resolve (sk_lib sink) (Some ctx) source (sk_resolver sink) w = (r, w')"
  obtains new where "answers w' = answers w @ new" "length new \<le> 1"
    "r \<in> range Inr \<Longrightarrow> publicHost (sk_lib sink) new (origin_Hostname source)"
proof -
  have "\<exists>new. answers w' = answers w @ new \<and> length new \<le> 1 \<and>
      (r \<in> range Inr \<longrightarrow> publicHost (sk_lib sink) new (origin_Hostname source))"
  proof (cases "ctx w = None \<and> origin_Hostname source \<noteq> [] \<and> ParseAddr (sk_lib sink) (origin_Hostname source) \<in> range Inl \<and>
      sk_resolver sink \<noteq> None")
    case False
    with assms have w: "w' = w" and "r \<in> range Inr \<Longrightarrow> publicHost (sk_lib sink) [] (origin_Hostname source)"
      by (auto simp: Resolve_def publicHost_def ValidateAddr_public Let_def split: option.splits if_splits sum.splits)
    then show ?thesis by (intro exI [of _ "[]"]) simp
  next
    case True
    then obtain e f where p: "ctx w = None" "origin_Hostname source \<noteq> []" "ParseAddr (sk_lib sink) (origin_Hostname source) = Inl e"
        "sk_resolver sink = Some f" by auto
    obtain x w1 where x: "f w ''ip'' (origin_Hostname source) = (x, w1)" by fastforce
    show ?thesis
    proof (cases x)
      case (Inl err)
      with assms p x have "w' = w1" "r \<in> range Inl" by (auto simp: Resolve_def split: option.splits)
      with lookup(1) [OF p(4) x [unfolded Inl]] show ?thesis by (intro exI [of _ "[]"]) auto
    next
      case (Inr as)
      with assms p x have "w' = w1" "r \<in> range Inr \<Longrightarrow> as \<noteq> [] \<and> list_all publicAddr as"
        by (auto simp: Resolve_def validateAll_spec split: if_splits)
      with lookup(2) [OF p(4) x [unfolded Inr]] p(3) show ?thesis
        by (intro exI [of _ "[(origin_Hostname source, as)]"]) (auto simp: publicHost_def)
    qed
  qed
  with that show thesis by blast
qed

lemma FailureCategory_not_none: "FailureCategory err \<noteq> CategoryNone"
  by (simp add: FailureCategory_def)

lemma resolveAttempts_answers:
  assumes "resolveAttempts sink ctx source n cat0 w = (r, w')" and "n < MaxAttemptsPerCycle"
  shows "\<exists>new. answers w' = answers w @ new \<and> length new \<le> MaxAttemptsPerCycle - n \<and>
    (r = Inr CategoryNone \<longrightarrow> publicHost (sk_lib sink) new (origin_Hostname source))"
  using assms
proof (induction "MaxAttemptsPerCycle - n" arbitrary: n cat0 w rule: less_induct)
  case less
  obtain x w1 where x: "Resolve (sk_lib sink) (Some ctx) source (sk_resolver sink) w = (x, w1)" by fastforce
  obtain new where new: "answers w1 = answers w @ new" "length new \<le> 1"
      "x \<in> range Inr \<Longrightarrow> publicHost (sk_lib sink) new (origin_Hostname source)"
    using Resolve_answers [OF x] by blast
  show ?case
  proof (cases x)
    case (Inr d)
    with less.prems x new show ?thesis by (subst (asm) resolveAttempts.simps) auto
  next
    case (Inl err)
    let ?cat = "FailureCategory err"
    show ?thesis
    proof (cases "\<not> Transient ?cat \<or> n + 1 \<ge> MaxAttemptsPerCycle")
      case True
      with less.prems x Inl have "r = Inr ?cat" "w' = w1" by (subst (asm) resolveAttempts.simps, simp)+
      with new less.prems(2) FailureCategory_not_none show ?thesis by auto
    next
      case False
      obtain se w2 where sl: "sk_sleep sink ctx discoveryAdmissionDNSRetryDelay w1 = (se, w2)" by fastforce
      then have a2: "answers w2 = answers w1" using sleep_silent [of ctx discoveryAdmissionDNSRetryDelay w1] by simp
      show ?thesis
      proof (cases se)
        case (Some e)
        with less.prems x Inl False sl have "r = Inl e" "w' = w2" by (subst (asm) resolveAttempts.simps, simp add: Let_def)+
        with new a2 less.prems(2) show ?thesis by auto
      next
        case None
        with less.prems x Inl False sl have rest: "resolveAttempts sink ctx source (n + 1) ?cat w2 = (r, w')"
          by (subst (asm) resolveAttempts.simps) (simp add: Let_def)
        have "MaxAttemptsPerCycle - (n + 1) < MaxAttemptsPerCycle - n" "n + 1 < MaxAttemptsPerCycle" using False by linarith+
        from less.hyps [OF this(1) rest this(2)] obtain new2 where new2: "answers w' = answers w2 @ new2"
            "length new2 \<le> MaxAttemptsPerCycle - (n + 1)" "r = Inr CategoryNone \<longrightarrow> publicHost (sk_lib sink) new2 (origin_Hostname source)"
          by blast
        have "publicHost (sk_lib sink) (new @ new2) (origin_Hostname source)" if "r = Inr CategoryNone"
          using new2(3) that by (auto simp: publicHost_def split: sum.splits)
        with new new2 a2 False show ?thesis by (intro exI [of _ "new @ new2"]) auto
      qed
    qed
  qed
qed

lemma Resolve_kept: "kept (snd (Resolve lib ctx source (sk_resolver sink) w)) = kept w"
  using lookup_kept
  by (auto simp: Resolve_def Let_def split: option.splits sum.splits prod.splits) (metis snd_conv)+

lemma resolveAttempts_kept: "kept (snd (resolveAttempts sink ctx source n cat0 w)) = kept w"
proof (induction "MaxAttemptsPerCycle - n" arbitrary: n cat0 w rule: less_induct)
  case less
  obtain x w1 where x: "Resolve (sk_lib sink) (Some ctx) source (sk_resolver sink) w = (x, w1)" by fastforce
  obtain se w2 where sl: "sk_sleep sink ctx discoveryAdmissionDNSRetryDelay w1 = (se, w2)" by fastforce
  have k: "kept w1 = kept w" "kept w2 = kept w"
    using Resolve_kept [of "sk_lib sink" "Some ctx" source w] x sleep_kept [of ctx discoveryAdmissionDNSRetryDelay w1] sl by simp_all
  have "kept (snd (resolveAttempts sink ctx source (n + 1) cat w2)) = kept w2" if "n < MaxAttemptsPerCycle" for cat
    by (rule less) (use that in simp)
  with x sl k show ?case
    by (subst resolveAttempts.simps) (auto simp: Let_def split: sum.splits option.splits)
qed

lemma decideCandidates_kept: "kept (snd (decideCandidates sink ctx pending w)) = kept w"
proof (induction pending arbitrary: w)
  case (Cons candidate pending)
  obtain x w1 where x: "resolveAttempts sink ctx (c_Origin candidate) 0 CategoryNone w = (x, w1)" by fastforce
  then have "kept w1 = kept w" using resolveAttempts_kept [of ctx "c_Origin candidate" 0 CategoryNone w] by simp
  with x Cons.IH [of w1] show ?case by (auto split: sum.splits prod.splits)
qed simp

text \<open>The decisions are for the pending candidates, in their order, and only public hosts are accepted.\<close>

definition decidedFrom :: "(string \<times> addr list) list \<Rightarrow> automatic_result list \<Rightarrow> bool" where
  "decidedFrom new decisions \<longleftrightarrow>
     list_all (\<lambda>d. ar_FailureCategory d = CategoryNone \<longrightarrow>
       publicHost (sk_lib sink) new (origin_Hostname (c_Origin (ar_Candidate d)))) decisions"

lemma publicHost_mono: "publicHost lib answers1 host \<Longrightarrow> set answers1 \<subseteq> set answers2 \<Longrightarrow> publicHost lib answers2 host"
  by (auto simp: publicHost_def list_ex_iff split: sum.splits)

lemma decideCandidates_answers:
  assumes "decideCandidates sink ctx pending w = (r, w')"
  shows "\<exists>new. answers w' = answers w @ new \<and> length new \<le> MaxAttemptsPerCycle * length pending \<and>
    (\<forall>decisions. r = Inr decisions \<longrightarrow> map ar_Candidate decisions = pending \<and> decidedFrom new decisions)"
  using assms
proof (induction pending arbitrary: w r w')
  case Nil
  then show ?case by (auto simp: decidedFrom_def)
next
  case (Cons candidate pending)
  obtain x w1 where x: "resolveAttempts sink ctx (c_Origin candidate) 0 CategoryNone w = (x, w1)" by fastforce
  have "0 < MaxAttemptsPerCycle" by (simp add: MaxAttemptsPerCycle_def)
  from resolveAttempts_answers [OF x this] obtain new where new: "answers w1 = answers w @ new" "length new \<le> MaxAttemptsPerCycle"
      "x = Inr CategoryNone \<longrightarrow> publicHost (sk_lib sink) new (origin_Hostname (c_Origin candidate))" by auto
  obtain y w2 where y: "decideCandidates sink ctx pending w1 = (y, w2)" by fastforce
  from Cons.IH [OF y] obtain new2 where new2: "answers w2 = answers w1 @ new2" "length new2 \<le> MaxAttemptsPerCycle * length pending"
      "\<forall>decisions. y = Inr decisions \<longrightarrow> map ar_Candidate decisions = pending \<and> decidedFrom new2 decisions" by blast
  show ?case
  proof (cases x)
    case (Inl e)
    with Cons.prems x new show ?thesis by auto
  next
    case (Inr cat)
    have more: "decidedFrom (new @ new2) (\<lparr>ar_Candidate = candidate, ar_FailureCategory = cat\<rparr> # ds)" if "decidedFrom new2 ds" for ds
      using that new(3) Inr unfolding decidedFrom_def
      by (auto simp: list_all_iff intro: publicHost_mono [of _ new] publicHost_mono [of _ new2])
    with Cons.prems x Inr y new new2 show ?thesis
      by (intro exI [of _ "new @ new2"]) (auto split: sum.splits)
  qed
qed

text \<open>A finalization completes the batch, if at all, with decisions that rest on its own lookups.\<close>

lemma FinalizeCandidates_decides:
  assumes "FinalizeCandidates sink ctx runID w = (err, w')" and "dc_automatic (sk_store sink) = Some st"
  obtains (stopped) "kept w' = kept (snd (as_PendingAutomaticCandidates st ctx runID w))"
  | (completed) w1 new decisions where "as_CompleteAutomaticCandidates st ctx runID decisions w1 = (err, w')"
    "kept w1 = kept (snd (as_PendingAutomaticCandidates st ctx runID w))" "answers w1 = answers w @ new" "decidedFrom new decisions"
    "length new \<le> MaxAttemptsPerCycle * length decisions"
proof -
  obtain p w1 where p: "as_PendingAutomaticCandidates st ctx runID w = (p, w1)" by fastforce
  then have a1: "answers w1 = answers w" using pending_silent [OF assms(2), of ctx runID w] by simp
  show thesis
  proof (cases p)
    case (Inl e)
    with assms p stopped show thesis by (auto simp: FinalizeCandidates_def)
  next
    case (Inr pending)
    obtain d w2 where d: "decideCandidates sink ctx pending w1 = (d, w2)" by fastforce
    then have k: "kept w2 = kept w1" using decideCandidates_kept [of ctx pending w1] by simp
    from decideCandidates_answers [OF d] obtain new where new: "answers w2 = answers w1 @ new"
        "length new \<le> MaxAttemptsPerCycle * length pending"
        "\<forall>decisions. d = Inr decisions \<longrightarrow> map ar_Candidate decisions = pending \<and> decidedFrom new decisions" by blast
    show thesis
    proof (cases d)
      case (Inl e)
      with assms p Inr d k stopped show thesis by (auto simp: FinalizeCandidates_def)
    next
      case ok: (Inr decisions)
      with new(3) have "length decisions = length pending" "decidedFrom new decisions" by auto
      with assms p Inr d k ok new a1 completed show thesis by (simp add: FinalizeCandidates_def)
    qed
  qed
qed

end

section \<open>The runtime on its store\<close>

text \<open>
  A process on the discovery database: \<open>ds_others\<close> is what the other processes and time do before each of its transactions,
  \<open>ds_between\<close> what they do between the two transactions of one method; the other fields are what the database and the
  machine answer in a state of the environment. The noted answers of the resolver stand beside the tables.
\<close>

type_synonym 'e tables = "(telemetry_db \<times> 'e) \<times> (string \<times> addr list) list"

record 'e discovery_site =
  ds_lib :: host_lib
  ds_lower :: "string \<Rightarrow> string"
  ds_handle :: "discovery_handle option"
  ds_leaseOwner :: string
  ds_retryDelay :: "int \<Rightarrow> duration \<Rightarrow> duration"
  ds_others :: "telemetry_db \<times> 'e \<Rightarrow> telemetry_db \<times> 'e"
  ds_between :: "'e \<Rightarrow> discovery_db \<Rightarrow> discovery_db"
  ds_clock :: "'e \<Rightarrow> go_error + go_time"
  ds_stamp :: "'e \<Rightarrow> go_time"
  ds_dbErr :: "'e \<Rightarrow> go_error option"
  ds_locked :: "'e \<Rightarrow> string \<Rightarrow> bool"
  ds_probes :: "'e \<Rightarrow> probe_answers"
  ds_lookup :: "string \<Rightarrow> string \<Rightarrow> 'e \<Rightarrow> (go_error + addr list) \<times> 'e"
  ds_sleep :: "duration \<Rightarrow> 'e \<Rightarrow> go_error option \<times> 'e"
  ds_env :: "'e tables crawl_env"
  ds_now :: "'e tables \<Rightarrow> go_time"
  ds_timeout :: "'e tables ctx_err \<Rightarrow> duration \<Rightarrow> 'e tables \<Rightarrow> 'e tables ctx_err"
  ds_observe :: "string \<Rightarrow> origin \<Rightarrow> string \<Rightarrow> 'e \<Rightarrow> 'e"

text \<open>One transaction, on all the tables or on the discovery tables alone.\<close>

definition onTables ::
    "'e discovery_site \<Rightarrow> 'e tables ctx_err \<Rightarrow> (ctx_value \<Rightarrow> 'e \<Rightarrow> telemetry_db \<Rightarrow> 'r \<times> telemetry_db) \<Rightarrow> 'e tables \<Rightarrow> 'r \<times> 'e tables" where
  "onTables site ctx f x =
     (case ds_others site (fst x) of (db, e) \<Rightarrow>
        (case f (Some (ctx ((db, e), snd x))) e db of (r, db) \<Rightarrow> (r, ((db, e), snd x))))"

definition onBase :: "(discovery_db \<Rightarrow> 'r \<times> discovery_db) \<Rightarrow> telemetry_db \<Rightarrow> 'r \<times> telemetry_db" where
  "onBase f db = (case f (tm_base db) of (r, base) \<Rightarrow> (r, db\<lparr>tm_base := base\<rparr>))"

definition storeTelemetry :: "'e discovery_site \<Rightarrow> 'e tables crawl_telemetry" where
  "storeTelemetry site =
     \<lparr>ct_BeginCrawl = (\<lambda>ctx source config.
        onTables site ctx (\<lambda>cv e. BeginCrawl (ds_handle site) cv (ds_stamp site e) (ds_dbErr site e) source config)),
      ct_RecordPageAttempt = (\<lambda>ctx runID a.
        onTables site ctx (\<lambda>cv e. RecordPageAttempt (ds_lib site) (ds_handle site) cv (ds_dbErr site e) runID a)),
      ct_FinishCrawl = (\<lambda>ctx runID result outcome reason.
        onTables site ctx (\<lambda>cv e. FinishCrawl (ds_handle site) cv (ds_stamp site e) (ds_dbErr site e) runID result outcome reason)),
      ct_FinishCrawlSummary = Some (\<lambda>ctx runID result outcome reason remaining.
        onTables site ctx (\<lambda>cv e. FinishCrawlSummary (ds_handle site) cv (ds_stamp site e) (ds_dbErr site e) runID result outcome
          reason remaining))\<rparr>"

definition admissionStore :: "'e discovery_site \<Rightarrow> 'e tables automatic_store" where
  "admissionStore site =
     \<lparr>as_PendingAutomaticCandidates = (\<lambda>ctx runID.
        onTables site ctx (\<lambda>cv e. onBase (PendingAutomaticCandidates (ds_lib site) (ds_handle site) cv (ds_clock site e)
          (ds_stamp site e) (ds_dbErr site e) runID))),
      as_CompleteAutomaticCandidates = (\<lambda>ctx runID results.
        onTables site ctx (\<lambda>cv e. onBase (CompleteAutomaticCandidates (ds_lib site) (ds_lower site) (ds_retryDelay site)
          (ds_handle site) cv (ds_clock site e) (ds_stamp site e) (ds_dbErr site e) runID results)))\<rparr>"

definition candidateStore :: "'e discovery_site \<Rightarrow> 'e tables candidate_store" where
  "candidateStore site =
     \<lparr>dc_RecordDiscovery = (\<lambda>ctx source candidates.
        onTables site ctx (\<lambda>cv e. onBase (RecordDiscovery (ds_lower site) (ds_handle site) cv (ds_clock site e) (ds_dbErr site e)
          (ds_probes site e) (ds_between site e) source candidates))),
      dc_RecordDiscoveryForRun = Some (\<lambda>ctx runID source candidates.
        onTables site ctx (\<lambda>cv e. onBase (RecordDiscoveryForRun (ds_lower site) (ds_handle site) cv (ds_clock site e)
          (ds_dbErr site e) (ds_probes site e) (ds_between site e) runID source candidates))),
      dc_automatic = Some (admissionStore site)\<rparr>"

text \<open>The resolver notes its answers.\<close>

definition siteSink :: "'e discovery_site \<Rightarrow> 'e tables runtime_sink" where
  "siteSink site =
     \<lparr>sk_store = candidateStore site,
      sk_resolver = Some (\<lambda>((db, e), answers) net host.
        case ds_lookup site net host e of
          (Inl err, e) \<Rightarrow> (Inl err, ((db, e), answers))
        | (Inr as, e) \<Rightarrow> (Inr as, ((db, e), answers @ [(host, as)]))),
      sk_lib = ds_lib site,
      sk_sleep = (\<lambda>ctx d ((db, e), answers). case ds_sleep site d e of (err, e) \<Rightarrow> (err, ((db, e), answers)))\<rparr>"

interpretation site_sink: noted_resolver "siteSink site" snd "\<lambda>x. fst (fst x)" for site
  by unfold_locales
    (auto simp: siteSink_def candidateStore_def admissionStore_def onTables_def split: prod.splits sum.splits)

subsection \<open>Claiming and crawling\<close>

text \<open>\<^verbatim>\<open>ownedDiscoveryRuntimeStore.ClaimDiscoverySourceLease\<close>: pending probes are scheduled first.\<close>

definition ownedClaim ::
    "'e discovery_site \<Rightarrow> 'e tables ctx_err \<Rightarrow> duration \<Rightarrow> duration \<Rightarrow> 'e tables \<Rightarrow> (go_error + source_lease option) \<times> 'e tables" where
  "ownedClaim site ctx interval leaseDuration x =
     (case onTables site ctx (\<lambda>cv e. onBase (SchedulePendingDiscoveryProbes (ds_lib site) (ds_lower site) (ds_handle site) cv
             (ds_dbErr site e) (ds_probes site e) (ds_between site e))) x of
        (Inl err, x) \<Rightarrow> (Inl err, x)
      | (Inr _, x) \<Rightarrow>
          onTables site ctx (\<lambda>cv e. onBase (ClaimDiscoverySourceLease (ds_lib site) (ds_handle site) cv (ds_clock site e)
            (ds_dbErr site e) (ds_locked site e) (ds_leaseOwner site) interval leaseDuration)) x)"

type_synonym 'e runner_site = "'e tables \<times> source_call list"

text \<open>The store of the runner, with a note of its calls.\<close>

definition siteStore :: "'e discovery_site \<Rightarrow> 'e runner_site source_store" where
  "siteStore site =
     \<lparr>st_Claim = (\<lambda>ctx interval d (x, cs).
        case ownedClaim site (\<lambda>x. ctx (x, cs)) interval d x of
          (r, x) \<Rightarrow> (r, (x, cs @ [ClaimSource (case r of Inl _ \<Rightarrow> None | Inr c \<Rightarrow> c)]))),
      st_Renew = (\<lambda>ctx l d (x, cs).
        case onTables site (\<lambda>x. ctx (x, cs)) (\<lambda>cv e. onBase (RenewDiscoverySourceLease (ds_handle site) cv (ds_clock site e)
               (ds_dbErr site e) l d)) x of
          (r, x) \<Rightarrow> (r, (x, cs @ [RenewSource l (case r of Inr l' \<Rightarrow> Renewed l'
                       | Inl _ \<Rightarrow> if ctx (x, cs) = None then RenewalFailed else RenewalInterrupted)]))),
      st_Complete = (\<lambda>ctx l cat retryAfter (x, cs).
        case onTables site (\<lambda>x. ctx (x, cs)) (\<lambda>cv e. onBase (CompleteDiscoverySourceLeaseRetry (ds_retryDelay site) (ds_handle site) cv
               (ds_clock site e) (ds_dbErr site e) l cat retryAfter)) x of
          (r, x) \<Rightarrow> (r, (x, cs @ [CompleteSource l cat retryAfter (r = None)]))),
      st_DiscoveryPaused = Some (\<lambda>ctx (x, cs).
        case onTables site (\<lambda>x. ctx (x, cs)) (\<lambda>cv e db. (DiscoveryPaused (ds_handle site) cv (ds_dbErr site e) db, db)) x of
          (r, x) \<Rightarrow> (r, (x, cs)))\<rparr>"

text \<open>
  The crawler of the process works on the tables. A panic of it would end the process; the model reports it as an error
  instead, and \<^const>\<open>crawlable\<close> sources never cause one.
\<close>

definition errPanic :: go_error where "errPanic = Sentinel ''panic''"

definition siteCrawl :: "'e discovery_site \<Rightarrow> 'e tables crawler \<Rightarrow> 'e runner_site source_crawler" where
  "siteCrawl site crawler = (\<lambda>ctx source (x, cs).
     case Crawl (ds_env site) (Some crawler) (Some (\<lambda>x. ctx (x, cs))) source x of
       (Some out, x) \<Rightarrow> (out, (x, cs @ [CrawledSource source]))
     | (None, x) \<Rightarrow> ((crawl_result_zero source, Some errPanic), (x, cs @ [CrawledSource source])))"

definition siteRunner ::
    "'e discovery_site \<Rightarrow> 'e tables crawler \<Rightarrow> runner_config \<Rightarrow>
     ('e runner_site ctx_err \<Rightarrow> duration \<Rightarrow> 'e runner_site \<Rightarrow> go_error option \<times> 'e runner_site) option \<Rightarrow> 'e runner_site crawl_runner" where
  "siteRunner site crawler config waiter =
     \<lparr>ru_store = Some (siteStore site), ru_crawler = Some (siteCrawl site crawler), ru_config = config, ru_waiter = waiter,
      ru_observer = Some (\<lambda>state source message (((db, e), answers), cs). (((db, ds_observe site state source message e), answers), cs))\<rparr>"

interpretation site_runner: source_contract "siteStore site" "siteCrawl site crawler" "siteRunner site crawler config waiter" snd
  "\<lambda>ctx. \<forall>x cs cs'. ctx (x, cs) = ctx (x, cs')" for site crawler config waiter
proof unfold_locales
  fix ctx :: "'a runner_site ctx_err" and l d w r' w'
  assume blind: "\<forall>x cs cs'. ctx (x, cs) = ctx (x, cs')" and r: "st_Renew (siteStore site) ctx l d w = (r', w')"
  obtain x cs where w: "w = (x, cs)" by fastforce
  obtain x' where w': "w' = (x', cs @ [RenewSource l (case r' of Inr l' \<Rightarrow> Renewed l'
                       | Inl _ \<Rightarrow> if ctx (x', cs) = None then RenewalFailed else RenewalInterrupted)])"
    using r by (auto simp: w siteStore_def split: prod.splits)
  have "ctx w' = ctx (x', cs)" using blind by (metis w')
  with w w' show "snd w' = snd w @ [RenewSource l (case r' of Inr l' \<Rightarrow> Renewed l'
      | Inl _ \<Rightarrow> if ctx w' = None then RenewalFailed else RenewalInterrupted)]" by (cases r') simp_all
next
  fix ctx l d w l' w'
  assume "st_Renew (siteStore site) ctx l d w = (Inr l', w')"
  then show "sameLease l l'"
    by (auto simp: siteStore_def onTables_def onBase_def RenewDiscoverySourceLease_def heldSource_def sameLease_def Let_def
        split: prod.splits option.splits if_splits sum.splits)
next
  fix ctx :: "'a runner_site ctx_err" and source w res e w'
  assume c: "siteCrawl site crawler ctx source w = ((res, e), w')"
  have zero: "storableFailure (cr_FailureCategory (crawl_result_zero source)) (cr_RetryAfter (crawl_result_zero source))"
    by (simp add: crawl_result_zero_def categories_valid)
  obtain x cs where w: "w = (x, cs)" by fastforce
  from c zero Crawl_storable [where env = "ds_env site" and crawler = "Some crawler" and ctx = "Some (\<lambda>x. ctx (x, cs))" and source = source and w = x]
  show "storableFailure (cr_FailureCategory res) (cr_RetryAfter res)"
    by (auto simp: siteCrawl_def w split: prod.splits option.splits)
qed (auto simp: siteStore_def siteCrawl_def siteRunner_def runnerObserve_def split: prod.splits option.splits)

section \<open>Construction and execution\<close>

text \<open>\<^verbatim>\<open>newDiscoveryRuntimeWithStoreFactory\<close>: \<open>newStore\<close> and \<open>checker\<close> are what the store and the guarded checker are built to.\<close>

definition newDiscoveryRuntime ::
    "'e discovery_site \<Rightarrow> go_error + discovery_handle \<Rightarrow> go_error + 'e tables page_getter \<Rightarrow> crawl_config \<Rightarrow> runner_config \<Rightarrow>
     ('e tables ctx_err \<Rightarrow> duration \<Rightarrow> 'e tables \<Rightarrow> go_error option \<times> 'e tables) \<Rightarrow>
     ('e runner_site ctx_err \<Rightarrow> duration \<Rightarrow> 'e runner_site \<Rightarrow> go_error option \<times> 'e runner_site) \<Rightarrow> 'e tables ctx_err \<Rightarrow> 'e tables \<Rightarrow>
     (go_error + 'e runner_site crawl_runner) \<times> 'e tables" where
  "newDiscoveryRuntime site0 newStore checker crawlConfig runnerConfig crawlWait runnerWait ctx x =
     (case newStore of
        Inl err \<Rightarrow> (Inl (Wrap ''construct discovery store'' [err]), x)
      | Inr h \<Rightarrow>
          (let site = site0\<lparr>ds_handle := Some h\<rparr>
           in case onTables site ctx (\<lambda>cv e. onBase (ReconcileAutomaticCrawlPolicy (ds_lib site) (ds_lower site) (Some h) cv
                     (ds_dbErr site e))) x of
                (Inl err, x) \<Rightarrow> (Inl (Wrap ''reconcile automatic crawl policy'' [err]), x)
              | (Inr _, x) \<Rightarrow>
                  (case checker of
                     Inl err \<Rightarrow> (Inl err, x)
                   | Inr getter \<Rightarrow>
                       (case newMultiPageCrawler (ds_now site) None (Some getter) (Some (runtimeCandidateSink (siteSink site)))
                               crawlConfig (Some crawlWait) (Some (ds_timeout site)) (Some (storeTelemetry site)) of
                          Inl err \<Rightarrow> (Inl (Wrap ''construct multi-page crawler'' [err]), x)
                        | Inr crawler \<Rightarrow>
                            (case newCrawlRunner (Some (siteStore site)) (Some (siteCrawl site crawler)) runnerConfig (Some runnerWait) of
                               Inl err \<Rightarrow> (Inl (Wrap ''construct discovery runner'' [err]), x)
                             | Inr runner \<Rightarrow>
                                 (case onTables site ctx (\<lambda>cv e. onBase (EnsureSeededSourcesScheduled (Some h) cv (ds_dbErr site e))) x of
                                    (Inl err, x) \<Rightarrow> (Inl (Wrap ''ensure seeded sources scheduled'' [err]), x)
                                  | (Inr _, x) \<Rightarrow>
                                      (case onTables site ctx (\<lambda>cv e. onBase (SchedulePendingDiscoveryProbes (ds_lib site) (ds_lower site)
                                              (Some h) cv (ds_dbErr site e) (ds_probes site e) (ds_between site e))) x of
                                         (Inl err, x) \<Rightarrow> (Inl (Wrap ''schedule pending discovery probes'' [err]), x)
                                       | (Inr _, x) \<Rightarrow> (Inr runner, x))))))))"

text \<open>\<open>None\<close> when the loop never returns; \<open>info\<close> is the logger.\<close>

definition executeDiscovery ::
    "'w go_context \<Rightarrow> bool \<Rightarrow> 'w crawl_runner option \<Rightarrow> (string \<Rightarrow> 'w \<Rightarrow> 'w) option \<Rightarrow> (source_lease \<Rightarrow> 'w \<Rightarrow> 'w firing list) \<Rightarrow> 'w \<Rightarrow>
     (go_error option \<times> 'w) option" where
  "executeDiscovery ctx once runner logger firings w =
     (case runner of
        None \<Rightarrow> Some (Some errDiscoveryRunnerUnavailable, w)
      | Some ru \<Rightarrow>
          (case logger of
             None \<Rightarrow> Some (Some errDiscoveryLoggerUnavailable, w)
           | Some info \<Rightarrow>
               if once
               then (case crawlRunOnce (Some ru) ctx firings w of
                       ((_, Some err), w) \<Rightarrow> Some (Some (Wrap ''run one discovery attempt'' [err]), w)
                     | ((_, None), w) \<Rightarrow> Some (None, w))
               else (case crawlRun (Some ru) ctx firings (info ''discovery started'' w) of
                       None \<Rightarrow> None
                     | Some (err, w) \<Rightarrow>
                         (case the ctx w of
                            Some contextErr \<Rightarrow>
                              if errors_Is err contextErr then Some (None, info ''discovery stopped'' w)
                              else Some (Some (Wrap ''run discovery'' [err]), w)
                          | None \<Rightarrow> Some (Some (Wrap ''run discovery'' [err]), w)))))"

section \<open>Properties\<close>

text \<open>
  C16. A unit of crawling follows the protocol of a runner, whatever the other processes, the servers and the clocks do and
  however the crawl and the renewals interleave: the runner renews the lease it holds, always the latest one; it crawls the
  origin of the lease once; it completes the source at most once, after the crawl, under the latest lease and with a category
  and a delay the store accepts; once a renewal has failed under way it completes nothing. It reports work exactly when it
  claimed a source, and success only when the completion of that source was accepted.
\<close>
theorem crawlRunOnce_follows_protocol:
  "case crawlRunOnce (Some (siteRunner site crawler config waiter)) (map_option (\<lambda>cx (x, _). cx x) ctx)
          (\<lambda>l w. map (\<lambda>(part, returned). (apfst part, returned)) (firings l w)) (x, before) of
     ((report, err), (x', after)) \<Rightarrow>
       \<exists>cs p. after = before @ cs \<and> runner_protocol cs = Some p \<and> (rp_Worked report \<longleftrightarrow> p \<notin> {Waiting, NoSource}) \<and>
         (if rp_Worked report \<and> err = None then \<exists>l. p = SourceDone l \<and> sl_Origin l = rp_Source report else True)"
proof -
  let ?ctx = "map_option (\<lambda>cx (x :: 'a tables, _ :: source_call list). cx x) ctx"
  let ?firings = "\<lambda>l w. map (\<lambda>(part, returned). (apfst part, returned)) (firings l w)"
  let ?out = "crawlRunOnce (Some (siteRunner site crawler config waiter)) ?ctx ?firings (x, before)"
  have "site_runner.reported (snd (x, before)) ?out"
    by (rule site_runner.crawlRunOnce_reported) (auto simp: site_runner.silent_def list_all_iff)
  moreover obtain report err x' after where out: "?out = ((report, err), (x', after))" by (metis prod.exhaust)
  ultimately obtain cs p where "after = before @ cs" "runner_protocol cs = Some p" "rp_Worked report \<longleftrightarrow> p \<notin> {Waiting, NoSource}"
      "rp_Worked report \<and> err = None \<longrightarrow> (\<exists>l. p = SourceDone l \<and> sl_Origin l = rp_Source report)"
    unfolding site_runner.reported_def site_runner.reaches_def by auto
  then show ?thesis unfolding out prod.case by (intro exI [of _ cs] exI [of _ p]) presburger
qed

text \<open>What admission does to the flags of the sources: preparing a batch nothing, completing it as its decisions say.\<close>

abbreviation automaticFlags :: "telemetry_db \<Rightarrow> string \<Rightarrow> bool" where
  "automaticFlags db \<equiv> sourceFlag ss_automatically_discovered (tm_base db)"

lemma fold_dd_sources:
  "(\<And>x db. dd_sources (f x db) = dd_sources db) \<Longrightarrow> dd_sources (fold f xs db) = dd_sources db"
  by (induction xs arbitrary: db) simp_all

lemma Pending_sources: "dd_sources (snd (PendingAutomaticCandidates lib s ctx clock stamp dbErr runID db)) = dd_sources db"
proof -
  have "dd_sources (allocateBatch patterns runID n now d) = dd_sources d" for patterns n now d
    by (simp add: allocateBatch_def Let_def)
  moreover have "dd_sources (probeRedirects config patterns stamp now d) = dd_sources d" for config patterns now d
    by (simp add: probeRedirects_def Let_def) (simp add: fold_dd_sources insertProbe_def)
  ultimately show ?thesis by (simp add: PendingAutomaticCandidates_def Let_def split: option.splits sum.splits)
qed

lemma Complete_public:
  assumes "CompleteAutomaticCandidates lib lower retryDelay s ctx clock stamp dbErr runID results db = (err, db')"
    and "o1 \<in> newlyAutomatic db db'"
  shows "\<exists>source r. Origin.Parse lib o1 = Inr source \<and> r \<in> set results \<and> c_Origin (ar_Candidate r) = source \<and>
    ar_FailureCategory r = CategoryNone"
  using assms(1)
proof (cases rule: CompleteAutomaticCandidates_cases)
  case same
  with assms(2) show ?thesis by (simp add: newlyAutomatic_def)
next
  case (completed run now ad)
  then obtain h where "s = Some h" using assms(1)
    by (cases s) (auto simp: CompleteAutomaticCandidates_def discovery_validate_def)
  with Complete_promotes [OF _ completed(2)] assms show ?thesis by blast
qed

text \<open>
  C17. Every candidate that finalizing a crawl turns into an automatic source was found to be public just before: its host is a
  public address, or this finalization looked it up and every address it got is public. (The premise on the other
  processes says that none of them promotes a source meanwhile.)
\<close>
theorem FinalizeCandidates_admits_public:
  assumes "\<And>y. sourceFlag ss_automatically_discovered (tm_base (fst (ds_others site y))) = sourceFlag ss_automatically_discovered (tm_base (fst y))"
    and "FinalizeCandidates (siteSink site) ctx runID x = (err, x')"
    and "o1 \<in> newlyAutomatic (tm_base (fst (fst x))) (tm_base (fst (fst x')))"
  shows "\<exists>source new. Origin.Parse (ds_lib site) o1 = Inr source \<and> snd x' = snd x @ new \<and>
    publicHost (ds_lib site) new (origin_Hostname source)"
proof -
  let ?st = "admissionStore site"
  have st: "dc_automatic (sk_store (siteSink site)) = Some ?st" by (simp add: siteSink_def candidateStore_def)
  have pend: "automaticFlags (fst (fst (snd (as_PendingAutomaticCandidates ?st ctx runID x)))) = automaticFlags (fst (fst x))"
  proof -
    obtain db e where y: "ds_others site (fst x) = (db, e)" by fastforce
    let ?p = "PendingAutomaticCandidates (ds_lib site) (ds_handle site) (Some (ctx ((db, e), snd x))) (ds_clock site e) (ds_stamp site e)
      (ds_dbErr site e) runID (tm_base db)"
    have "tm_base (fst (fst (snd (as_PendingAutomaticCandidates ?st ctx runID x)))) = snd ?p"
      using y by (simp add: admissionStore_def onTables_def onBase_def case_prod_beta)
    then have "automaticFlags (fst (fst (snd (as_PendingAutomaticCandidates ?st ctx runID x)))) = automaticFlags db"
      by (simp only: sourceFlag_sources [OF Pending_sources])
    with assms(1) [of "fst x"] y show ?thesis by simp
  qed
  show ?thesis
    using assms(2) st
  proof (cases rule: site_sink.FinalizeCandidates_decides)
    case stopped
    with pend assms(3) show ?thesis by (simp add: newlyAutomatic_def)
  next
    case (completed x1 new decisions)
    obtain db e where y: "ds_others site (fst x1) = (db, e)" by fastforce
    obtain cv base' where c: "CompleteAutomaticCandidates (ds_lib site) (ds_lower site) (ds_retryDelay site) (ds_handle site) cv
        (ds_clock site e) (ds_stamp site e) (ds_dbErr site e) runID decisions (tm_base db) = (err, base')"
      and x': "x' = ((db\<lparr>tm_base := base'\<rparr>, e), snd x1)"
      using completed(1) y by (auto simp: admissionStore_def onTables_def onBase_def split: prod.splits)
    have "automaticFlags db = automaticFlags (fst (fst x))"
      using assms(1) [of "fst x1"] y completed(2) pend by simp
    with assms(3) x' have "o1 \<in> newlyAutomatic (tm_base db) base'" by (simp add: newlyAutomatic_def)
    from Complete_public [OF c this] completed(4) obtain source where
        "Origin.Parse (ds_lib site) o1 = Inr source" "publicHost (sk_lib (siteSink site)) new (origin_Hostname source)"
      by (auto simp: site_sink.decidedFrom_def list_all_iff)
    with completed(3) x' show ?thesis by (simp add: siteSink_def)
  qed
qed

text \<open>The batch of a run with one candidate, whose host resolves to one public address.\<close>

definition exampleSite :: "unit discovery_site" where
  "exampleSite =
     \<lparr>ds_lib = domainLib, ds_lower = map to_lower, ds_handle = Some automaticHandle, ds_leaseOwner = ''w1'', ds_retryDelay = (\<lambda>_ _. 0),
      ds_others = id, ds_between = (\<lambda>_. id), ds_clock = (\<lambda>_. Inr 5), ds_stamp = (\<lambda>_. 5), ds_dbErr = (\<lambda>_. None), ds_locked = (\<lambda>_ _. False),
      ds_probes = (\<lambda>_. \<lparr>pb_exclusionErr = None, pb_others = id, pb_clock = Inr 5, pb_dbErr = None, pb_stamp = 5\<rparr>),
      ds_lookup = (\<lambda>_ _ _. (Inr [Addr4 (word_of_nat (quad 93 184 216 34))], ())), ds_sleep = (\<lambda>_ _. (None, ())),
      ds_env = \<lparr>ce_lib = ce_lib exampleCrawlEnv, ce_ParseTime = (\<lambda>_. None), ce_reading = id, ce_Close = (\<lambda>_ t. (None, t)),
                ce_finishContext = (\<lambda>_ _ _. None)\<rparr>,
      ds_now = (\<lambda>_. 5), ds_timeout = (\<lambda>ctx _ _. ctx), ds_observe = (\<lambda>_ _ _ e. e)\<rparr>"

definition exampleAdmission :: "unit tables" where
  "exampleAdmission = ((exampleTables\<lparr>tm_base := exampleBatch\<rparr>, ()), [])"

lemma examplePending:
  "PendingAutomaticCandidates domainLib (Some automaticHandle) (Some None) (Inr 5) 5 None 7 exampleBatch = (Inr [exampleLink], exampleBatch)"
proof -
  have edges: "hasEdge k exampleBatch o1 = False" for k o1 by (simp add: hasEdge_def exampleBatch_def exampleSources_def)
  have none: "filter (admissible patterns 7 5 exampleBatch) xs = []" "filter (redirectOnly patterns exampleBatch) ys = []" for patterns xs ys
    by (simp_all add: filter_empty_conv admissible_def redirectOnly_def edges split: prod.splits)
  have "allocateBatch patterns 7 n 5 exampleBatch = exampleBatch" for patterns n by (simp add: allocateBatch_def none Let_def)
  moreover have "probeRedirects config patterns 5 5 exampleBatch = exampleBatch" for config patterns by (simp add: probeRedirects_def none Let_def)
  moreover have "linkCandidate domainLib (origin_String exampleSource) = Inr exampleLink"
    using exampleSource_parse by (simp add: linkCandidate_def exampleLink_def)
  ultimately show ?thesis
    by (simp add: PendingAutomaticCandidates_def discovery_validate_def example_automatic exampleBatch_parts(1,2) Let_def)
qed

lemma exampleResolve:
  "resolveAttempts (siteSink exampleSite) (\<lambda>_. None) exampleSource 0 CategoryNone ((db, ()), answers) =
     (Inr CategoryNone, ((db, ()), answers @ [(''example.com'', [Addr4 (word_of_nat (quad 93 184 216 34))])]))"
proof -
  have public: "publicAddr (Addr4 (word_of_nat (quad 93 184 216 34)))"
    by (simp add: publicAddr_def specialIPv4_def range4_def quad_def)
  have "Resolve domainLib (Some (\<lambda>_. None)) exampleSource (sk_resolver (siteSink exampleSite)) ((db, ()), answers) =
      (Inr \<lparr>d_addresses = sorted_list_of_set (Unmap ` set [Addr4 (word_of_nat (quad 93 184 216 34))]), d_port = origin_Port exampleSource\<rparr>,
       ((db, ()), answers @ [(''example.com'', [Addr4 (word_of_nat (quad 93 184 216 34))])]))"
    unfolding siteSink_def runtime_sink.select_convs
    by (subst Resolve_answer [where addresses = "[Addr4 (word_of_nat (quad 93 184 216 34))]"])
      (simp_all add: exampleSource_def origin_Hostname_def domainLib_def exampleSite_def public)
  then show ?thesis
    by (subst resolveAttempts.simps) (simp add: MaxAttemptsPerCycle_def siteSink_def exampleSite_def)
qed

theorem FinalizeCandidates_admits_public_witness:
  "\<exists>new. publicHost domainLib new ''example.com'' \<and>
     snd (snd (FinalizeCandidates (siteSink exampleSite) (\<lambda>_. None) 7 exampleAdmission)) = new \<and>
     origin_String exampleSource \<in> newlyAutomatic exampleBatch
       (tm_base (fst (fst (snd (FinalizeCandidates (siteSink exampleSite) (\<lambda>_. None) 7 exampleAdmission)))))"
proof -
  let ?out = "FinalizeCandidates (siteSink exampleSite) (\<lambda>_. None) 7 exampleAdmission"
  have pend: "as_PendingAutomaticCandidates (admissionStore exampleSite) (\<lambda>_. None) 7 exampleAdmission = (Inr [exampleLink], exampleAdmission)"
    using examplePending by (simp add: admissionStore_def onTables_def onBase_def exampleAdmission_def exampleSite_def)
  have dec: "decideCandidates (siteSink exampleSite) (\<lambda>_. None) [exampleLink] exampleAdmission =
      (Inr [\<lparr>ar_Candidate = exampleLink, ar_FailureCategory = CategoryNone\<rparr>],
       (fst exampleAdmission, [(''example.com'', [Addr4 (word_of_nat (quad 93 184 216 34))])]))"
    using exampleResolve [of "exampleTables\<lparr>tm_base := exampleBatch\<rparr>" "[]"] by (simp add: exampleLink_def exampleAdmission_def)
  let ?c = "CompleteAutomaticCandidates domainLib (map to_lower) (\<lambda>_ _. 0) (Some automaticHandle) (Some None) (Inr 5) 5 None 7
    [\<lparr>ar_Candidate = exampleLink, ar_FailureCategory = CategoryNone\<rparr>] exampleBatch"
  have st: "dc_automatic (sk_store (siteSink exampleSite)) = Some (admissionStore exampleSite)" by (simp add: siteSink_def candidateStore_def)
  have "tm_base (fst (fst (snd ?out))) = snd ?c"
    unfolding FinalizeCandidates_def st option.case pend prod.case sum.case dec
    by (simp add: admissionStore_def onTables_def onBase_def exampleAdmission_def exampleSite_def case_prod_beta)
  with exampleBatch_promoted have "origin_String exampleSource \<in> newlyAutomatic exampleBatch (tm_base (fst (fst (snd ?out))))" by simp
  then have new: "origin_String exampleSource \<in> newlyAutomatic (tm_base (fst (fst exampleAdmission))) (tm_base (fst (fst (snd ?out))))"
    by (simp add: exampleAdmission_def)
  have "\<exists>source new. Origin.Parse (ds_lib exampleSite) (origin_String exampleSource) = Inr source \<and> snd (snd ?out) = snd exampleAdmission @ new \<and>
      publicHost (ds_lib exampleSite) new (origin_Hostname source)"
    by (rule FinalizeCandidates_admits_public [OF _ prod.collapse [symmetric] new]) (simp add: exampleSite_def)
  moreover have "origin_Hostname exampleSource = ''example.com''" by (simp add: origin_Hostname_def exampleSource_def)
  ultimately show ?thesis
    using exampleSource_parse new by (auto simp: exampleSite_def exampleAdmission_def)
qed

lemma errors_Is_refl: "errors_Is err err"
  by (cases err) simp_all

text \<open>
  C18. The discovery service stops when it is told to: once its context is done after any number of turns of its runner, it
  returns, and it reports a clean stop unless the waiter itself failed; no failure of a crawl, a claim or a completion ends it.
\<close>
theorem executeDiscovery_stops:
  assumes "runner_validate (Some ru) (Some ctx) True (info ''discovery started'' w) = None"
    and "ctx (((\<lambda>w. snd (crawlRunTurn ru ctx firings w)) ^^ n) (info ''discovery started'' w)) \<noteq> None"
  shows "\<exists>r w'. executeDiscovery (Some ctx) False (Some ru) (Some info) firings w = Some (r, w') \<and>
    (r = None \<or> (\<exists>err w0 w1. r = Some (Wrap ''run discovery'' [err]) \<and>
       the (ru_waiter ru) ctx (rc_PollInterval (ru_config ru)) w0 = (Some err, w1)))"
proof -
  obtain err w1 where "crawlRunLoop ru ctx firings (info ''discovery started'' w) = Some (err, w1)"
      "ctx w1 = Some err \<or> (\<exists>w0. the (ru_waiter ru) ctx (rc_PollInterval (ru_config ru)) w0 = (Some err, w1))"
    using crawl_run_loop.loop_ends [where ru = ru and ctx = ctx and firings = firings and n = n, OF assms(2)] by blast
  then show ?thesis
    using assms(1) by (cases "ctx w1") (auto simp: executeDiscovery_def crawlRun_def errors_Is_refl)
qed

text \<open>A runner on a store without work, whose context ends at time 30: the state is the time.\<close>

definition idleRunner :: "int crawl_runner" where
  "idleRunner =
     \<lparr>ru_store = Some \<lparr>st_Claim = (\<lambda>_ _ _ t. (Inr None, t)), st_Renew = (\<lambda>_ l _ t. (Inr l, t)),
                      st_Complete = (\<lambda>_ _ _ _ t. (None, t)), st_DiscoveryPaused = None\<rparr>,
      ru_crawler = Some (\<lambda>_ source t. ((crawl_result_zero source, None), t)),
      ru_config = \<lparr>rc_DiscoveryInterval = hour, rc_PollInterval = 10, rc_LeaseDuration = 0\<rparr>,
      ru_waiter = Some (\<lambda>_ d t. (None, t + d)), ru_observer = None\<rparr>"

lemma idleRunner_valid: "t < 30 \<Longrightarrow> runner_validate (Some idleRunner) (Some until30) waits t = None"
  by (simp add: runner_validate_def idleRunner_def until30_def validCrawlRunnerConfig_def hour_def minute_def second_def)

lemma idleRunner_turn: "t < 30 \<Longrightarrow> crawlRunTurn idleRunner until30 firings t = (None, t + 10)"
  using idleRunner_valid [of t False]
  by (simp add: crawlRunTurn_def crawlRunOnce_def Let_def)
    (simp add: idleRunner_def runOnceWithLease_def noSource_def runnerObserve_def crawl_report_zero_def)

theorem executeDiscovery_stops_witness:
  "\<exists>t. executeDiscovery (Some until30) False (Some idleRunner) (Some (\<lambda>_ t. t)) (\<lambda>_ _. []) 0 = Some (None, t)"
proof -
  have "until30 (((\<lambda>t. snd (crawlRunTurn idleRunner until30 (\<lambda>_ _. []) t)) ^^ 3) 0) \<noteq> None"
    by (simp add: eval_nat_numeral idleRunner_turn) (simp add: until30_def)
  from executeDiscovery_stops [where info = "\<lambda>_ t. t" and n = 3, OF idleRunner_valid [of 0 True] this]
  show ?thesis by (auto simp: idleRunner_def)
qed

end
