(* ===== verification/Control_Store.thy ===== *)
theory Control_Store
  imports Admission
begin

text \<open>
  The operator's mutations, \<^verbatim>\<open>internal/store/control.go\<close>: each one changes the policy tables and appends its audit
  event in one transaction. \<open>dbErr\<close> is a transaction the database rejects; the constraints of the audit table, which it
  checks itself, are \<open>auditStorable\<close>.
\<close>

definition errControlStoreUnavailable where
  "errControlStoreUnavailable = Sentinel ''store: control store is unavailable''"

definition ResultSuccess :: string where "ResultSuccess = ''success''"
definition ResultRejected :: string where "ResultRejected = ''rejected''"

record control_handle =
  ch_pool :: bool
  ch_automatic :: automatic_config

definition newControlStore :: "bool \<Rightarrow> go_error + control_handle" where
  "newControlStore pool =
     (if \<not> pool then Inl errPoolUnavailable else Inr \<lparr>ch_pool = pool, ch_automatic = automatic_config_zero\<rparr>)"

definition NewControlStore :: "bool \<Rightarrow> go_error + control_handle" where
  "NewControlStore pool = (if \<not> pool then Inl errPoolUnavailable else newControlStore pool)"

definition ValidateCrawlExcludedHosts :: "(string \<Rightarrow> string) \<Rightarrow> string \<Rightarrow> go_error option" where
  "ValidateCrawlExcludedHosts lower value1 =
     (if \<not> validExcludedHostSuffixes lower value1 then Some (Sentinel ''store: invalid excluded crawl hosts'') else None)"

definition NewControlStoreWithExcludedHosts ::
    "(string \<Rightarrow> string) \<Rightarrow> bool \<Rightarrow> string \<Rightarrow> go_error + control_handle" where
  "NewControlStoreWithExcludedHosts lower pool excludedHosts =
     (case NewControlStore pool of
        Inl err \<Rightarrow> Inl err
      | Inr storage \<Rightarrow>
          (case ValidateCrawlExcludedHosts lower excludedHosts of
             Some err \<Rightarrow> Inl err
           | None \<Rightarrow> Inr (storage\<lparr>ch_automatic := (ch_automatic storage)\<lparr>ac_ExcludedHostSuffixes := excludedHosts\<rparr>\<rparr>)))"

definition control_validate :: "control_handle option \<Rightarrow> ctx_value \<Rightarrow> go_error option" where
  "control_validate s ctx =
     (case s of
        None \<Rightarrow> Some errControlStoreUnavailable
      | Some h \<Rightarrow>
          (case ctx of
             None \<Rightarrow> Some errInvalidContext
           | Some (Some err) \<Rightarrow> Some err
           | Some None \<Rightarrow> if \<not> ch_pool h then Some errPoolUnavailable else None))"

text \<open>
  What \<^verbatim>\<open>operator_audit_events\<close> accepts: a TEXT column of PostgreSQL takes valid UTF-8 without NUL, and the
  constraints are over the lengths in bytes.
\<close>

definition storableText :: "string \<Rightarrow> bool" where
  "storableText s \<longleftrightarrow> utf8_Valid s \<and> CHR 0x00 \<notin> set s"

definition auditStorable :: "audit_event \<Rightarrow> bool" where
  "auditStorable a \<longleftrightarrow>
     storableText (au_Action a) \<and> storableText (au_Target a) \<and> storableText (au_Caller a) \<and>
     storableText (au_Actor a) \<and> storableText (au_Reason a) \<and>
     1 \<le> length (au_Action a) \<and> length (au_Action a) \<le> 128 \<and> length (au_Target a) \<le> 2048 \<and>
     1 \<le> length (au_Caller a) \<and> length (au_Caller a) \<le> 256 \<and> 1 \<le> length (au_Actor a) \<and> length (au_Actor a) \<le> 128 \<and>
     (au_Result a = ''success'' \<or> au_Result a = ''rejected'') \<and> length (au_Reason a) \<le> 512"

definition violatesCheck :: go_error where
  "violatesCheck = Sentinel ''new row violates check constraint''"

definition insertControlAudit :: "audit_event \<Rightarrow> discovery_db \<Rightarrow> go_error + discovery_db" where
  "insertControlAudit audit db =
     (if auditStorable audit then Inr (db\<lparr>dd_audit := dd_audit db @ [audit]\<rparr>)
      else Inl (Wrap ''insert operator audit'' [violatesCheck]))"

definition controlAuditMatches :: "audit_event \<Rightarrow> string \<Rightarrow> string \<Rightarrow> bool" where
  "controlAuditMatches audit action target \<longleftrightarrow> au_Action audit = action \<and> au_Target audit = target"

definition mutate ::
    "control_handle option \<Rightarrow> ctx_value \<Rightarrow> go_error option \<Rightarrow> audit_event \<Rightarrow> (discovery_db \<Rightarrow> discovery_db) \<Rightarrow> discovery_db \<Rightarrow>
     go_error option \<times> discovery_db" where
  "mutate s ctx dbErr audit mutation db =
     (let failed = (\<lambda>err. Some (Wrap ''store: apply control mutation'' [err])) in
      case control_validate s ctx of
        Some err \<Rightarrow> (Some err, db)
      | None \<Rightarrow>
          if au_Result audit \<noteq> ResultSuccess
          then (Some (Sentinel ''store: successful control audit is invalid''), db)
          else (case dbErr of
                  Some err \<Rightarrow> (failed err, db)
                | None \<Rightarrow>
                    (case insertControlAudit audit (mutation db) of
                       Inl err \<Rightarrow> (failed err, db)
                     | Inr db' \<Rightarrow> (None, db'))))"

definition SetProcessorPaused ::
    "control_handle option \<Rightarrow> ctx_value \<Rightarrow> go_error option \<Rightarrow> string \<Rightarrow> bool \<Rightarrow> audit_event \<Rightarrow> discovery_db \<Rightarrow>
     go_error option \<times> discovery_db" where
  "SetProcessorPaused s ctx dbErr processor paused audit db =
     (if processor \<noteq> ''discovery'' \<and> processor \<noteq> ''verification'' then (Some errInvalidServiceState, db)
      else if \<not> controlAuditMatches audit (if paused then ''processor.pause'' else ''processor.resume'') processor
      then (Some (Sentinel ''store: processor control audit is inconsistent''), db)
      else mutate s ctx dbErr audit
             (\<lambda>db. db\<lparr>dd_control := (if processor = ''discovery''
                                     then (dd_control db)\<lparr>cn_discovery_paused := paused\<rparr>
                                     else (dd_control db)\<lparr>cn_verification_paused := paused\<rparr>)\<rparr>) db)"

definition SetAutomaticExpansionPaused ::
    "control_handle option \<Rightarrow> ctx_value \<Rightarrow> go_error option \<Rightarrow> bool \<Rightarrow> audit_event \<Rightarrow> discovery_db \<Rightarrow>
     go_error option \<times> discovery_db" where
  "SetAutomaticExpansionPaused s ctx dbErr paused audit db =
     (if \<not> controlAuditMatches audit (if paused then ''automatic-expansion.pause'' else ''automatic-expansion.resume'')
              ''automatic-expansion''
      then (Some (Sentinel ''store: automatic expansion control audit is inconsistent''), db)
      else mutate s ctx dbErr audit
             (\<lambda>db. db\<lparr>dd_control := (dd_control db)\<lparr>cn_automatic_expansion_paused := paused\<rparr>\<rparr>) db)"

text \<open>The rule a pattern names, if it is one.\<close>

definition avoidRule :: "(string \<Rightarrow> string) \<Rightarrow> string \<Rightarrow> string option" where
  "avoidRule lower pattern =
     (let pattern = lower (TrimSpace pattern)
      in if pattern = [] \<or> Contains pattern '','' \<or> \<not> validExcludedHostSuffixes lower pattern then None else Some pattern)"

definition errInvalidAvoidRule where
  "errInvalidAvoidRule = Sentinel ''store: crawl domain avoid rule is invalid''"

definition AddDomainAvoid ::
    "host_lib \<Rightarrow> (string \<Rightarrow> string) \<Rightarrow> control_handle option \<Rightarrow> ctx_value \<Rightarrow> go_error option \<Rightarrow> string \<Rightarrow> audit_event \<Rightarrow>
     discovery_db \<Rightarrow> go_error option \<times> discovery_db" where
  "AddDomainAvoid lib lower s ctx dbErr pattern audit db =
     (case avoidRule lower pattern of
        None \<Rightarrow> (Some errInvalidAvoidRule, db)
      | Some rule \<Rightarrow>
          if \<not> controlAuditMatches audit ''domain-avoid.add'' rule
          then (Some (Sentinel ''store: domain avoid audit is inconsistent''), db)
          else mutate s ctx dbErr audit
                 (\<lambda>db. snd (recomputeAutomaticCrawlBlocks lib lower (ch_automatic (the s))
                   (if rule \<in> set (dd_avoid db) then db else db\<lparr>dd_avoid := dd_avoid db @ [rule]\<rparr>))) db)"

definition RemoveDomainAvoid ::
    "host_lib \<Rightarrow> (string \<Rightarrow> string) \<Rightarrow> control_handle option \<Rightarrow> ctx_value \<Rightarrow> go_error option \<Rightarrow> string \<Rightarrow> audit_event \<Rightarrow>
     discovery_db \<Rightarrow> go_error option \<times> discovery_db" where
  "RemoveDomainAvoid lib lower s ctx dbErr pattern audit db =
     (case avoidRule lower pattern of
        None \<Rightarrow> (Some errInvalidAvoidRule, db)
      | Some rule \<Rightarrow>
          if \<not> controlAuditMatches audit ''domain-avoid.remove'' rule
          then (Some (Sentinel ''store: domain avoid audit is inconsistent''), db)
          else mutate s ctx dbErr audit
                 (\<lambda>db. snd (recomputeAutomaticCrawlBlocks lib lower (ch_automatic (the s))
                   (db\<lparr>dd_avoid := filter (\<lambda>p. p \<noteq> rule) (dd_avoid db)\<rparr>))) db)"

definition SetOriginBlocked ::
    "host_lib \<Rightarrow> (string \<Rightarrow> string) \<Rightarrow> control_handle option \<Rightarrow> ctx_value \<Rightarrow> go_error option \<Rightarrow> string \<Rightarrow> bool \<Rightarrow> audit_event \<Rightarrow>
     discovery_db \<Rightarrow> go_error option \<times> discovery_db" where
  "SetOriginBlocked lib lower s ctx dbErr rawOrigin blocked audit db =
     (case Origin.Parse lib rawOrigin of
        Inl _ \<Rightarrow> (Some errInvalidOrigin, db)
      | Inr source \<Rightarrow>
          if origin_String source \<noteq> rawOrigin then (Some errInvalidOrigin, db)
          else if \<not> controlAuditMatches audit (if blocked then ''origin.block'' else ''origin.allow'') rawOrigin
          then (Some (Sentinel ''store: origin control audit is inconsistent''), db)
          else mutate s ctx dbErr audit (setExactCrawlBlock lower (ch_automatic (the s)) source blocked) db)"

definition RecordRejected ::
    "control_handle option \<Rightarrow> ctx_value \<Rightarrow> go_error option \<Rightarrow> audit_event \<Rightarrow> discovery_db \<Rightarrow> go_error option \<times> discovery_db" where
  "RecordRejected s ctx dbErr audit db =
     (let failed = (\<lambda>err. Some (Wrap ''store: record rejected control audit'' [err])) in
      case control_validate s ctx of
        Some err \<Rightarrow> (Some err, db)
      | None \<Rightarrow>
          if au_Result audit \<noteq> ResultRejected then (Some (Sentinel ''store: rejected audit result is invalid''), db)
          else (case dbErr of
                  Some err \<Rightarrow> (failed err, db)
                | None \<Rightarrow>
                    (case insertControlAudit audit db of Inl err \<Rightarrow> (failed err, db) | Inr db' \<Rightarrow> (None, db'))))"

section \<open>A mutation and its audit\<close>

lemma mutate_cases:
  assumes "mutate s ctx dbErr audit mutation db = (err, db')"
  obtains (failed) e where "err = Some e" "db' = db"
    | (applied) h where "err = None" "s = Some h" "au_Result audit = ResultSuccess" "auditStorable audit"
        "db' = (mutation db)\<lparr>dd_audit := dd_audit (mutation db) @ [audit]\<rparr>"
  using assms
  by (auto simp: mutate_def insertControlAudit_def control_validate_def Let_def split: option.splits if_splits)

text \<open>An operation that leaves everything as it was, or changes the database by \<open>f\<close> and appends the audit.\<close>

definition audited :: "(discovery_db \<Rightarrow> discovery_db) \<Rightarrow> audit_event \<Rightarrow> discovery_db \<Rightarrow> go_error option \<times> discovery_db \<Rightarrow> bool" where
  "audited f audit db out \<longleftrightarrow>
     (case out of
        (Some _, db') \<Rightarrow> db' = db
      | (None, db') \<Rightarrow> au_Result audit = ResultSuccess \<and> auditStorable audit \<and>
                       db' = (f db)\<lparr>dd_audit := dd_audit (f db) @ [audit]\<rparr>)"

lemma audited_error: "audited f audit db (Some e, db)"
  by (simp add: audited_def)

lemma audited_mutate: "audited f audit db (mutate s ctx dbErr audit f db)"
proof -
  obtain err db' where out: "mutate s ctx dbErr audit f db = (err, db')" by fastforce
  from out have "audited f audit db (err, db')" by (rule mutate_cases) (simp_all add: audited_def)
  with out show ?thesis by simp
qed

section \<open>The block policy\<close>

lemma blocksHold_flags:
  assumes "blocksHold lib lower config db" and "ss_operator_blocked r = ss_operator_blocked (sourceOf db o1)"
    and "ss_crawl_blocked r = ss_crawl_blocked (sourceOf db o1)" and "ss_seeded r = ss_seeded (sourceOf db o1)"
    and "ss_automatically_discovered r = ss_automatically_discovered (sourceOf db o1)"
  shows "blocksHold lib lower config (updateSource o1 r db)"
proof (rule blocksHold_update [OF assms(1)])
  show "ss_crawl_blocked r" if "ss_operator_blocked r"
    using assms(1) that unfolding assms blocksHold_def
    by (auto simp: sourceOf_def source_state_default_def split: option.splits)
  show "ss_crawl_blocked r = dueBlock lib lower (automaticExclusions db config) o1 r" if "automaticSource r"
  proof (cases "map_of (dd_sources db) o1")
    case None
    with that assms(5) show ?thesis by (simp add: automaticSource_def sourceOf_def source_state_default_def)
  next
    case (Some r0)
    have "automaticSource r0" "dueBlock lib lower (automaticExclusions db config) o1 r =
        dueBlock lib lower (automaticExclusions db config) o1 r0"
      using that Some assms(2-5) by (simp_all add: automaticSource_def sourceOf_def dueBlock_def cong: sum.case_cong)
    with assms(1,3) Some show ?thesis by (auto simp: blocksHold_def sourceOf_def)
  qed
qed

lemma blocksHold_operator: "blocksHold lib lower config db \<Longrightarrow> map_of (dd_sources db) raw = Some r \<Longrightarrow>
    ss_operator_blocked r \<Longrightarrow> ss_crawl_blocked r"
  by (simp add: blocksHold_def)

lemma blocksHold_recomputed:
  assumes "blocksHold lib lower config db" and "distinct (map fst (dd_sources db))" and "dd_sources db0 = dd_sources db"
  shows "blocksHold lib lower config (snd (recomputeAutomaticCrawlBlocks lib lower config db0))"
proof -
  obtain n db1 where out: "recomputeAutomaticCrawlBlocks lib lower config db0 = (n, db1)" by fastforce
  have "distinct (map fst (dd_sources db0))" using assms(2,3) by simp
  then have "blocksHold lib lower config db1"
    using out
  proof (rule blocksHold_recompute)
    fix raw r assume "map_of (dd_sources db0) raw = Some r" and "ss_operator_blocked r"
    with assms(3) show "ss_crawl_blocked r" by (intro blocksHold_operator [OF assms(1), of raw r]) simp_all
  qed
  with out show ?thesis by simp
qed

lemma recompute_config:
  "ac_ExcludedHostSuffixes c = ac_ExcludedHostSuffixes c' \<Longrightarrow>
   recomputeAutomaticCrawlBlocks lib lower c db = recomputeAutomaticCrawlBlocks lib lower c' db"
  by (simp add: recomputeAutomaticCrawlBlocks_def automaticExclusions_def)

lemma blocks_config:
  "ac_ExcludedHostSuffixes c = ac_ExcludedHostSuffixes c' \<Longrightarrow> blocksHold lib lower c db = blocksHold lib lower c' db"
  by (simp add: blocksHold_def automaticExclusions_def)

lemma audited_blocks:
  assumes "audited f audit db out" and "blocksHold lib lower config db" and "blocksHold lib lower config (f db)"
  shows "blocksHold lib lower config (snd out)"
proof -
  have "blocksHold lib lower config (d\<lparr>dd_audit := as\<rparr>)" if "blocksHold lib lower config d" for d as
    using that by (rule blocksHold_cong) simp_all
  with assms show ?thesis by (auto simp: audited_def split: prod.splits option.splits)
qed

lemma SetOriginBlocked_blocks:
  assumes "blocksHold lib lower config db" and "ac_ExcludedHostSuffixes (ch_automatic (the c)) = ac_ExcludedHostSuffixes config"
  shows "blocksHold lib lower config (snd (SetOriginBlocked lib lower c ctx dbErr raw blocked audit db))"
proof (cases "Origin.Parse lib raw")
  case (Inr source)
  show ?thesis
  proof (cases "origin_String source = raw")
    case True
    have "blocksHold lib lower config (setExactCrawlBlock lower (ch_automatic (the c)) source blocked db)"
      using setExactCrawlBlock_holds [of lib lower "ch_automatic (the c)" db source] assms Inr True
        blocks_config [OF assms(2)] by simp
    then show ?thesis
      using Inr True assms(1) audited_blocks [OF audited_mutate] by (simp add: SetOriginBlocked_def)
  qed (use assms Inr in \<open>simp add: SetOriginBlocked_def\<close>)
qed (use assms in \<open>simp add: SetOriginBlocked_def\<close>)

lemma avoid_blocks:
  assumes "blocksHold lib lower config db" and "distinct (map fst (dd_sources db))"
    and "ac_ExcludedHostSuffixes (ch_automatic (the c)) = ac_ExcludedHostSuffixes config"
  shows "blocksHold lib lower config (snd (AddDomainAvoid lib lower c ctx dbErr pattern audit db))"
    and "blocksHold lib lower config (snd (RemoveDomainAvoid lib lower c ctx dbErr pattern audit db))"
proof -
  have r: "blocksHold lib lower config (snd (recomputeAutomaticCrawlBlocks lib lower (ch_automatic (the c)) db0))"
    if "dd_sources db0 = dd_sources db" for db0
    using blocksHold_recomputed [OF assms(1,2) that] recompute_config [OF assms(3)] by simp
  show "blocksHold lib lower config (snd (AddDomainAvoid lib lower c ctx dbErr pattern audit db))"
    "blocksHold lib lower config (snd (RemoveDomainAvoid lib lower c ctx dbErr pattern audit db))"
    using assms(1) by (auto simp: AddDomainAvoid_def RemoveDomainAvoid_def r split: option.splits
        intro!: audited_blocks [OF audited_mutate])
qed

lemma pause_blocks:
  assumes "blocksHold lib lower config db"
  shows "blocksHold lib lower config (snd (SetProcessorPaused c ctx dbErr processor paused audit db))"
    and "blocksHold lib lower config (snd (SetAutomaticExpansionPaused c ctx dbErr paused audit db))"
proof -
  have m: "blocksHold lib lower config (snd (mutate c ctx dbErr audit f db))"
    if "dd_sources (f db) = dd_sources db" "dd_avoid (f db) = dd_avoid db" for f
    using audited_mutate assms blocksHold_cong [OF assms that] by (rule audited_blocks)
  show "blocksHold lib lower config (snd (SetProcessorPaused c ctx dbErr processor paused audit db))"
    "blocksHold lib lower config (snd (SetAutomaticExpansionPaused c ctx dbErr paused audit db))"
    using assms by (simp_all add: SetProcessorPaused_def SetAutomaticExpansionPaused_def m)
qed

lemma lease_blocks:
  assumes "blocksHold lib lower config db"
  shows "blocksHold lib lower config (snd (ClaimDiscoverySourceLease plib s ctx clock dbErr locked owner interval d db))"
    and "blocksHold lib lower config (snd (RenewDiscoverySourceLease s ctx clock dbErr l d db))"
    and "blocksHold lib lower config (snd (CompleteDiscoverySourceLeaseRetry retryDelay s ctx clock dbErr l cat d db))"
proof -
  have cancel: "blocksHold lib lower config (cancelRuns which now reason db1)" if "blocksHold lib lower config db1"
    for which now reason db1
    using that by (rule blocksHold_cong) (simp_all add: cancelRuns_def)
  have held: "sourceOf db (origin_String (sl_Origin l)) = r" if "heldSource l now db = Some r" for now r
    using that by (auto simp: heldSource_Some sourceOf_def)
  have "blocksHold lib lower config (claimSource owner now e o1 db)" for now e o1
    unfolding claimSource_def Let_def
    by (intro cancel blocksHold_flags [OF assms]) (simp_all add: claimedSource_def)
  then show "blocksHold lib lower config (snd (ClaimDiscoverySourceLease plib s ctx clock dbErr locked owner interval d db))"
    using assms by (auto simp: ClaimDiscoverySourceLease_def split: option.splits sum.splits)
  obtain res db1 where out: "RenewDiscoverySourceLease s ctx clock dbErr l d db = (res, db1)" by fastforce
  then have "blocksHold lib lower config db1"
    by (rule RenewDiscoverySourceLease_cases) (use assms held in \<open>auto intro!: blocksHold_flags\<close>)
  with out show "blocksHold lib lower config (snd (RenewDiscoverySourceLease s ctx clock dbErr l d db))" by simp
  obtain err db2 where out: "CompleteDiscoverySourceLeaseRetry retryDelay s ctx clock dbErr l cat d db = (err, db2)" by fastforce
  then have "blocksHold lib lower config db2"
    by (rule CompleteDiscoverySourceLeaseRetry_cases)
      (use assms held in \<open>auto simp: completedSource_def Let_def intro!: cancel blocksHold_flags\<close>)
  with out show "blocksHold lib lower config (snd (CompleteDiscoverySourceLeaseRetry retryDelay s ctx clock dbErr l cat d db))"
    by simp
qed

lemma SetCrawlBlocked_blocks:
  assumes "blocksHold lib lower (dh_automatic (the s)) db" and "Origin.Parse lib (origin_String source) = Inr source"
  shows "blocksHold lib lower (dh_automatic (the s)) (snd (SetCrawlBlocked lower s ctx dbErr source blocked db))"
  using assms setExactCrawlBlock_holds [OF assms] by (simp add: SetCrawlBlocked_def split: option.splits)

lemma Reconcile_blocks:
  assumes "blocksHold lib lower (dh_automatic (the s)) db" and "distinct (map fst (dd_sources db))"
  shows "blocksHold lib lower (dh_automatic (the s)) (snd (ReconcileAutomaticCrawlPolicy lib lower s ctx dbErr db))"
  using assms(1) blocksHold_recomputed [OF assms refl]
  by (auto simp: ReconcileAutomaticCrawlPolicy_def split: option.splits prod.splits)

lemma AddCrawlSeed_blocks:
  assumes "blocksHold lib lower config db"
  shows "blocksHold lib lower config (snd (AddCrawlSeed s ctx dbErr source db))"
proof -
  let ?o = "origin_String source"
  have "blocksHold lib lower config (insertSchedule ?o db)"
    using assms by (rule blocksHold_cong) (simp_all add: insertSchedule_def)
  then have "blocksHold lib lower config (updateSource ?o ((sourceOf db ?o)\<lparr>ss_seeded := True\<rparr>) (insertSchedule ?o db))"
    by (rule blocksHold_update)
      (use assms in \<open>auto simp: automaticSource_def blocksHold_def sourceOf_def source_state_default_def split: option.splits\<close>)
  with assms show ?thesis by (simp add: AddCrawlSeed_def Let_def split: option.splits)
qed

section \<open>Properties\<close>

text \<open>
  C11. The crawl blocks follow the policy at all times: in every reachable state an operator's block is in force, and an
  automatic source is blocked exactly when the operator blocked it, or its host is on the avoid list or among the
  configured exclusions. The lease operations, the admission of candidates, new seeds, the operator's blocks, the pauses, the
  reconciliation and every change of the avoid list keep it. (Removing a seed does not: see
  \<open>RemoveCrawlSeed_keeps_excluded_source\<close>.)
\<close>
theorem block_policy_kept:
  assumes "blocksHold lib lower (dh_automatic h) db" and "distinct (map fst (dd_sources db))"
    and "ac_ExcludedHostSuffixes (ch_automatic c) = ac_ExcludedHostSuffixes (dh_automatic h)"
    and "Origin.Parse lib (origin_String source) = Inr source"
  shows "blocksHold lib lower (dh_automatic h)
      (snd (ClaimDiscoverySourceLease lib (Some h) ctx clock dbErr locked owner interval d db)) \<and>
    blocksHold lib lower (dh_automatic h) (snd (RenewDiscoverySourceLease (Some h) ctx clock dbErr l d db)) \<and>
    blocksHold lib lower (dh_automatic h)
      (snd (CompleteDiscoverySourceLeaseRetry retryDelay (Some h) ctx clock dbErr l cat d db)) \<and>
    blocksHold lib lower (dh_automatic h) (snd (AddCrawlSeed (Some h) ctx dbErr source db)) \<and>
    blocksHold lib lower (dh_automatic h) (snd (SetCrawlBlocked lower (Some h) ctx dbErr source blocked db)) \<and>
    blocksHold lib lower (dh_automatic h) (snd (ReconcileAutomaticCrawlPolicy lib lower (Some h) ctx dbErr db)) \<and>
    blocksHold lib lower (dh_automatic h)
      (snd (CompleteAutomaticCandidates lib lower retryDelay (Some h) ctx clock stamp dbErr runID results db)) \<and>
    blocksHold lib lower (dh_automatic h) (snd (AddDomainAvoid lib lower (Some c) ctx dbErr pattern audit db)) \<and>
    blocksHold lib lower (dh_automatic h) (snd (RemoveDomainAvoid lib lower (Some c) ctx dbErr pattern audit db)) \<and>
    blocksHold lib lower (dh_automatic h) (snd (SetOriginBlocked lib lower (Some c) ctx dbErr raw blocked audit db)) \<and>
    blocksHold lib lower (dh_automatic h) (snd (SetProcessorPaused (Some c) ctx dbErr processor paused audit db)) \<and>
    blocksHold lib lower (dh_automatic h) (snd (SetAutomaticExpansionPaused (Some c) ctx dbErr paused audit db))"
proof -
  have admit: "blocksHold lib lower (dh_automatic h)
      (snd (CompleteAutomaticCandidates lib lower retryDelay (Some h) ctx clock stamp dbErr runID results db))"
    using Complete_blocks [of lib lower "Some h" db] assms(1) by (metis option.sel prod.collapse)
  show ?thesis
    using lease_blocks [OF assms(1)] AddCrawlSeed_blocks [OF assms(1)] admit pause_blocks [OF assms(1)]
      SetCrawlBlocked_blocks [of lib lower "Some h" db source] Reconcile_blocks [of lib lower "Some h" db]
      avoid_blocks [of lib lower "dh_automatic h" db "Some c"] SetOriginBlocked_blocks [of lib lower "dh_automatic h" db "Some c"]
      assms
    by simp
qed

definition exampleAudit :: audit_event where
  "exampleAudit =
     \<lparr>au_OccurredAt = 5, au_Action = ''domain-avoid.add'', au_Target = ''example.com'', au_Caller = ''127.0.0.1'',
      au_Actor = ''operator-api'', au_Result = ''success'', au_Reason = []\<rparr>"

theorem block_policy_kept_witness:
  "blocksHold domainLib (map to_lower) (dh_automatic exampleHandle)
     (snd (AddDomainAvoid domainLib (map to_lower) (Some \<lparr>ch_pool = True, ch_automatic = automatic_config_zero\<rparr>) (Some None) None
        ''example.com'' exampleAudit exampleSeeds))"
proof -
  have blocks: "blocksHold domainLib (map to_lower) (dh_automatic exampleHandle) exampleSeeds"
    by (simp add: blocksHold_def exampleSeeds_def automaticSource_def source_state_default_def)
  have keys: "distinct (map fst (dd_sources exampleSeeds))" by (simp add: exampleSeeds_def)
  have cfg: "ac_ExcludedHostSuffixes (ch_automatic \<lparr>ch_pool = True, ch_automatic = automatic_config_zero\<rparr>) =
      ac_ExcludedHostSuffixes (dh_automatic exampleHandle)"
    by (simp add: exampleHandle_def)
  from block_policy_kept [OF blocks keys cfg exampleSource_parse] show ?thesis by blast
qed

end
