(* ===== verification/Control.thy ===== *)
theory Control
  imports Control_Store
begin

text \<open>
  The operator's HTTP interface, \<^verbatim>\<open>internal/control/control.go\<close>, with the token rules of
  \<^verbatim>\<open>internal/operatortoken\<close>. A handler takes a request and the state of the commander and gives the response
  and the next state. \<^verbatim>\<open>encoding/json\<close> behind \<^verbatim>\<open>http.MaxBytesReader\<close>, \<^verbatim>\<open>net.SplitHostPort\<close>, SHA-256 and what the multiplexer
  answers by itself (unknown paths, redirects to clean paths) are fields of the handler.
\<close>

definition DefaultActor :: string where "DefaultActor = ''operator-api''"
definition maxRequestBodyBytes :: int where "maxRequestBodyBytes = 4096"
definition maxActorBytes :: nat where "maxActorBytes = 128"
definition maxActionBytes :: nat where "maxActionBytes = 128"
definition maxCallerBytes :: nat where "maxCallerBytes = 256"
definition maxReasonBytes :: nat where "maxReasonBytes = 512"
definition maxTargetBytes :: nat where "maxTargetBytes = 2048"

definition errCommanderUnavailable where "errCommanderUnavailable = Sentinel ''control: commander is unavailable''"
definition errTokenUnavailable where "errTokenUnavailable = Sentinel ''control: authentication token is invalid''"

section \<open>Tokens\<close>

definition MinLength :: nat where "MinLength = 32"
definition MaxLength :: nat where "MaxLength = 4096"

text \<open>The token is read byte by byte: a rune outside ASCII is beyond \<open>~\<close>, as are its bytes.\<close>

definition token_Valid :: "string \<Rightarrow> bool" where
  "token_Valid token \<longleftrightarrow>
     \<not> (length token < MinLength \<or> length token > MaxLength \<or> TrimSpace token \<noteq> token \<or>
        ContainsAny token [CHR 0x0D, CHR 0x0A]) \<and>
     list_all (\<lambda>c. byte_of CHR ''!'' \<le> byte_of c \<and> byte_of c \<le> byte_of CHR ''~'') token \<and>
     length (remdups token) \<ge> 8"

section \<open>Requests and responses\<close>

text \<open>
  \<open>rq_Segments\<close> are the unescaped segments of the request path after the leading slash (a trailing slash gives an empty last
  one), which the patterns of the multiplexer match; \<open>rq_Clean\<close> says that the escaped path is already clean (or the method
  is CONNECT), since the multiplexer redirects any other path; \<open>rq_MediaType\<close> is what \<^verbatim>\<open>mime.ParseMediaType\<close> makes of the content type.
\<close>

record ctl_request =
  rq_ctx :: ctx_value
  rq_Method :: string
  rq_Path :: string
  rq_Segments :: "string list"
  rq_Clean :: bool
  rq_Authorization :: string
  rq_RemoteAddr :: string
  rq_MediaType :: "string option"
  rq_ContentLength :: int
  rq_Body :: body

record ctl_response =
  rs_Status :: int
  rs_Headers :: "(string \<times> string) list"
  rs_Body :: "string \<times> string"

datatype 'a decoded = Decoded 'a | BodyTooLarge | BodyInvalid

record 'w commander =
  cm_SetProcessorPaused :: "ctx_value \<Rightarrow> string \<Rightarrow> bool \<Rightarrow> audit_event \<Rightarrow> 'w \<Rightarrow> go_error option \<times> 'w"
  cm_SetAutomaticExpansionPaused :: "ctx_value \<Rightarrow> bool \<Rightarrow> audit_event \<Rightarrow> 'w \<Rightarrow> go_error option \<times> 'w"
  cm_AddDomainAvoid :: "ctx_value \<Rightarrow> string \<Rightarrow> audit_event \<Rightarrow> 'w \<Rightarrow> go_error option \<times> 'w"
  cm_RemoveDomainAvoid :: "ctx_value \<Rightarrow> string \<Rightarrow> audit_event \<Rightarrow> 'w \<Rightarrow> go_error option \<times> 'w"
  cm_SetOriginBlocked :: "ctx_value \<Rightarrow> string \<Rightarrow> bool \<Rightarrow> audit_event \<Rightarrow> 'w \<Rightarrow> go_error option \<times> 'w"
  cm_RecordRejected :: "ctx_value \<Rightarrow> audit_event \<Rightarrow> 'w \<Rightarrow> go_error option \<times> 'w"

record 'w handler =
  hd_commander :: "'w commander"
  hd_hash :: string
  hd_now :: "'w \<Rightarrow> go_time"
  hd_sha256 :: "string \<Rightarrow> string"
  hd_lower :: "string \<Rightarrow> string"
  hd_lib :: host_lib
  hd_splitHost :: "string \<Rightarrow> string option"
  hd_metadata :: "body \<Rightarrow> (string \<times> string) decoded"
  hd_domain :: "body \<Rightarrow> (string \<times> string \<times> string) decoded"
  hd_origin :: "body \<Rightarrow> (string \<times> string \<times> string) decoded"
  hd_mux :: "ctl_request \<Rightarrow> ctl_response"

definition writeJSON :: "int \<Rightarrow> string \<Rightarrow> string \<Rightarrow> ctl_response" where
  "writeJSON status key value1 =
     \<lparr>rs_Status = status, rs_Headers = [(''Content-Type'', ''application/json; charset=utf-8'')], rs_Body = (key, value1)\<rparr>"

definition writeError :: "int \<Rightarrow> string \<Rightarrow> ctl_response" where
  "writeError status code = writeJSON status ''error'' code"

section \<open>Bounds\<close>

text \<open>
  \<^verbatim>\<open>utf8.DecodeLastRuneInString\<close>: the size of the complete rune a string ends in, 0 when its last byte is part of none.
\<close>

definition lastRuneSize :: "string \<Rightarrow> nat" where
  "lastRuneSize s =
     (case filter (\<lambda>k. k \<le> length s \<and> rune_size (drop (length s - k) s) = k) [1, 2, 3, 4] of [] \<Rightarrow> 0 | k # _ \<Rightarrow> k)"

function dropBroken :: "string \<Rightarrow> string" where
  "dropBroken s = (if s = [] \<or> lastRuneSize s \<noteq> 0 then s else dropBroken (butlast s))"
  by pat_completeness auto
termination
  by (relation "measure length") simp_all

declare dropBroken.simps [simp del]

definition bounded :: "string \<Rightarrow> nat \<Rightarrow> string" where
  "bounded value1 limit = (if length value1 \<le> limit then value1 else dropBroken (take limit value1))"

definition boundedTarget :: "string \<Rightarrow> string" where
  "boundedTarget value1 = bounded value1 maxTargetBytes"

definition validBoundedText :: "string \<Rightarrow> nat \<Rightarrow> bool" where
  "validBoundedText value1 limit \<longleftrightarrow>
     0 < length value1 \<and> length value1 \<le> limit \<and> list_all (\<lambda>c. \<not> (byte_of c < 32 \<or> byte_of c = 127)) value1"

text \<open>A valid actor is kept also when the reason then proves invalid.\<close>

definition applyMetadata :: "audit_event \<Rightarrow> string \<Rightarrow> string \<Rightarrow> bool \<times> audit_event" where
  "applyMetadata audit actor reason =
     (if actor \<noteq> [] \<and> (\<not> validBoundedText actor maxActorBytes \<or> TrimSpace actor \<noteq> actor) then (False, audit)
      else (let audit = (if actor \<noteq> [] then audit\<lparr>au_Actor := actor\<rparr> else audit)
            in if reason \<noteq> [] \<and> (\<not> validBoundedText reason maxReasonBytes \<or> TrimSpace reason \<noteq> reason) then (False, audit)
               else (True, if reason \<noteq> [] then audit\<lparr>au_Reason := reason\<rparr> else audit)))"

definition normalizeDomainPattern :: "(string \<Rightarrow> string) \<Rightarrow> string \<Rightarrow> string" where
  "normalizeDomainPattern lower value1 = lower (TrimSuffix (TrimSpace value1) ''.'')"

definition is_alnum :: "char \<Rightarrow> bool" where "is_alnum c \<longleftrightarrow> is_lower c \<or> is_digit c"

text \<open>\<^verbatim>\<open>^[a-z0-9](?:[a-z0-9.-]*[a-z0-9])?(?:\.\*)?$\<close>: only the optional ending contains a star.\<close>

definition domainPattern :: "string \<Rightarrow> bool" where
  "domainPattern value1 \<longleftrightarrow>
     (let core = TrimSuffix value1 ''.*''
      in core \<noteq> [] \<and> is_alnum (core ! 0) \<and> is_alnum (core ! (length core - 1)) \<and>
         list_all (\<lambda>c. is_alnum c \<or> c = CHR ''.'' \<or> c = CHR ''-'') core)"

definition validDomainPattern :: "string \<Rightarrow> bool" where
  "validDomainPattern value1 \<longleftrightarrow>
     \<not> (length value1 < 1 \<or> length value1 > 253 \<or> \<not> domainPattern value1) \<and>
     list_all (\<lambda>label. \<not> (length label < 1 \<or> length label > 63 \<or> HasPrefix label ''-'' \<or> HasSuffix label ''-''))
       (Split (TrimSuffix value1 ''.*'') CHR ''.'')"

section \<open>Decoding\<close>

definition decodeJSON :: "(body \<Rightarrow> 'a decoded) \<Rightarrow> ctl_request \<Rightarrow> (int \<times> string) + 'a" where
  "decodeJSON decode rq =
     (if rq_MediaType rq \<noteq> Some ''application/json'' then Inl (415, ''unsupported_media_type'')
      else if rq_ContentLength rq > maxRequestBodyBytes then Inl (413, ''request_too_large'')
      else (case decode (rq_Body rq) of
              Decoded x \<Rightarrow> Inr x
            | BodyTooLarge \<Rightarrow> Inl (413, ''request_too_large'')
            | BodyInvalid \<Rightarrow> Inl (400, ''invalid_request'')))"

text \<open>A body of unknown length is peeked at; \<open>Body [] None\<close> ends at once.\<close>

definition decodeOptionalJSON :: "(body \<Rightarrow> 'a decoded) \<Rightarrow> 'a \<Rightarrow> ctl_request \<Rightarrow> (int \<times> string) + 'a" where
  "decodeOptionalJSON decode zero rq =
     (if rq_ContentLength rq = 0 then Inr zero
      else if rq_ContentLength rq < 0 \<and> rq_Body rq = Body [] None then Inr zero
      else decodeJSON decode rq)"

section \<open>Handlers\<close>

definition newAudit :: "'w handler \<Rightarrow> ctl_request \<Rightarrow> string \<Rightarrow> string \<Rightarrow> 'w \<Rightarrow> audit_event" where
  "newAudit h rq action target w =
     (let caller = (case hd_splitHost h (rq_RemoteAddr rq) of None \<Rightarrow> rq_RemoteAddr rq | Some host \<Rightarrow> host);
          caller = (if caller = [] then ''unknown'' else caller)
      in \<lparr>au_OccurredAt = hd_now h w, au_Action = bounded action maxActionBytes, au_Target = boundedTarget target,
          au_Caller = bounded caller maxCallerBytes, au_Actor = DefaultActor, au_Result = [], au_Reason = []\<rparr>)"

definition reject ::
    "'w handler \<Rightarrow> ctl_request \<Rightarrow> audit_event \<Rightarrow> int \<Rightarrow> string \<Rightarrow> 'w \<Rightarrow> ctl_response \<times> 'w" where
  "reject h rq audit status code w =
     (case cm_RecordRejected (hd_commander h) (rq_ctx rq) (audit\<lparr>au_Result := ResultRejected\<rparr>) w of
        (Some _, w) \<Rightarrow> (writeError 500 ''internal_error'', w)
      | (None, w) \<Rightarrow> (writeError status code, w))"

definition control_mutate ::
    "'w handler \<Rightarrow> ctl_request \<Rightarrow> audit_event \<Rightarrow> (audit_event \<Rightarrow> 'w \<Rightarrow> go_error option \<times> 'w) \<Rightarrow> 'w \<Rightarrow> ctl_response \<times> 'w" where
  "control_mutate h rq audit mutation w =
     (case mutation (audit\<lparr>au_Result := ResultSuccess\<rparr>) w of
        (Some _, w) \<Rightarrow>
          (writeError 500 ''internal_error'',
           snd (cm_RecordRejected (hd_commander h) (rq_ctx rq) (audit\<lparr>au_Result := ResultRejected\<rparr>) w))
      | (None, w) \<Rightarrow> (writeJSON 200 ''status'' ''ok'', w))"

definition processor :: "'w handler \<Rightarrow> string \<Rightarrow> string \<Rightarrow> ctl_request \<Rightarrow> 'w \<Rightarrow> ctl_response \<times> 'w" where
  "processor h name operation rq w =
     (let audit = newAudit h rq (''processor.'' @ operation) (boundedTarget name) w
      in if name \<noteq> ''discovery'' \<and> name \<noteq> ''verification'' \<or> operation \<noteq> ''pause'' \<and> operation \<noteq> ''resume''
         then reject h rq audit 404 ''not_found'' w
         else (case decodeOptionalJSON (hd_metadata h) ([], []) rq of
                 Inl (status, code) \<Rightarrow> reject h rq audit status code w
               | Inr (actor, reason) \<Rightarrow>
                   (case applyMetadata audit actor reason of
                      (False, audit) \<Rightarrow> reject h rq audit 400 ''invalid_request'' w
                    | (True, audit) \<Rightarrow>
                        control_mutate h rq audit
                          (cm_SetProcessorPaused (hd_commander h) (rq_ctx rq) name (operation = ''pause'')) w)))"

definition automaticExpansion :: "'w handler \<Rightarrow> string \<Rightarrow> ctl_request \<Rightarrow> 'w \<Rightarrow> ctl_response \<times> 'w" where
  "automaticExpansion h operation rq w =
     (let audit = newAudit h rq (''automatic-expansion.'' @ operation) ''automatic-expansion'' w
      in if operation \<noteq> ''pause'' \<and> operation \<noteq> ''resume'' then reject h rq audit 404 ''not_found'' w
         else (case decodeOptionalJSON (hd_metadata h) ([], []) rq of
                 Inl (status, code) \<Rightarrow> reject h rq audit status code w
               | Inr (actor, reason) \<Rightarrow>
                   (case applyMetadata audit actor reason of
                      (False, audit) \<Rightarrow> reject h rq audit 400 ''invalid_request'' w
                    | (True, audit) \<Rightarrow>
                        control_mutate h rq audit
                          (cm_SetAutomaticExpansionPaused (hd_commander h) (rq_ctx rq) (operation = ''pause'')) w)))"

definition addDomainAvoid :: "'w handler \<Rightarrow> ctl_request \<Rightarrow> 'w \<Rightarrow> ctl_response \<times> 'w" where
  "addDomainAvoid h rq w =
     (let audit = newAudit h rq ''domain-avoid.add'' [] w
      in case decodeJSON (hd_domain h) rq of
           Inl (status, code) \<Rightarrow> reject h rq audit status code w
         | Inr (raw, actor, reason) \<Rightarrow>
             (let pattern = normalizeDomainPattern (hd_lower h) raw
              in case applyMetadata (audit\<lparr>au_Target := boundedTarget pattern\<rparr>) actor reason of
                   (metadataValid, audit) \<Rightarrow>
                     if \<not> validDomainPattern pattern \<or> \<not> metadataValid then reject h rq audit 400 ''invalid_request'' w
                     else control_mutate h rq audit (cm_AddDomainAvoid (hd_commander h) (rq_ctx rq) pattern) w))"

definition removeDomainAvoid :: "'w handler \<Rightarrow> string \<Rightarrow> ctl_request \<Rightarrow> 'w \<Rightarrow> ctl_response \<times> 'w" where
  "removeDomainAvoid h raw rq w =
     (let pattern = normalizeDomainPattern (hd_lower h) raw;
          audit = newAudit h rq ''domain-avoid.remove'' (boundedTarget pattern) w
      in case decodeOptionalJSON (hd_metadata h) ([], []) rq of
           Inl (status, code) \<Rightarrow> reject h rq audit status code w
         | Inr (actor, reason) \<Rightarrow>
             (case applyMetadata audit actor reason of
                (metadataValid, audit) \<Rightarrow>
                  if \<not> validDomainPattern pattern \<or> \<not> metadataValid then reject h rq audit 400 ''invalid_request'' w
                  else control_mutate h rq audit (cm_RemoveDomainAvoid (hd_commander h) (rq_ctx rq) pattern) w))"

definition controlOrigin :: "'w handler \<Rightarrow> string \<Rightarrow> ctl_request \<Rightarrow> 'w \<Rightarrow> ctl_response \<times> 'w" where
  "controlOrigin h operation rq w =
     (let audit = newAudit h rq (''origin.'' @ operation) [] w
      in if operation \<noteq> ''block'' \<and> operation \<noteq> ''allow'' then reject h rq audit 404 ''not_found'' w
         else (case decodeJSON (hd_origin h) rq of
                 Inl (status, code) \<Rightarrow> reject h rq audit status code w
               | Inr (raw, actor, reason) \<Rightarrow>
                   (case Origin.Parse (hd_lib h) raw of
                      Inl _ \<Rightarrow> reject h rq (snd (applyMetadata audit actor reason)) 400 ''invalid_request'' w
                    | Inr source \<Rightarrow>
                        (case applyMetadata (audit\<lparr>au_Target := boundedTarget (origin_String source)\<rparr>) actor reason of
                           (False, audit) \<Rightarrow> reject h rq audit 400 ''invalid_request'' w
                         | (True, audit) \<Rightarrow>
                             control_mutate h rq audit (cm_SetOriginBlocked (hd_commander h) (rq_ctx rq)
                               (origin_String source) (operation = ''block'')) w))))"

definition knownControlPath :: "string \<Rightarrow> bool" where
  "knownControlPath path \<longleftrightarrow>
     (let avoid = ''/api/v1/control/domain-avoid/''; processors = ''/api/v1/control/processors/'';
          expansion = ''/api/v1/control/automatic-expansion/''
      in if path = ''/api/v1/control/domain-avoid'' then True
         else if HasPrefix path avoid then TrimPrefix path avoid \<noteq> []
         else if HasPrefix path processors
         then (case Split (TrimPrefix path processors) CHR ''/'' of
                 [name, operation] \<Rightarrow> (name = ''discovery'' \<or> name = ''verification'') \<and>
                                      (operation = ''pause'' \<or> operation = ''resume'')
               | _ \<Rightarrow> False)
         else if HasPrefix path expansion
         then TrimPrefix path expansion = ''pause'' \<or> TrimPrefix path expansion = ''resume''
         else path = ''/api/v1/control/origins/block'' \<or> path = ''/api/v1/control/origins/allow'')"

definition invalidControlRequest :: "'w handler \<Rightarrow> ctl_request \<Rightarrow> 'w \<Rightarrow> ctl_response \<times> 'w" where
  "invalidControlRequest h rq w =
     (let audit = newAudit h rq ''request.reject'' (boundedTarget (rq_Path rq)) w
      in if knownControlPath (rq_Path rq) then reject h rq audit 405 ''method_not_allowed'' w
         else reject h rq audit 404 ''not_found'' w)"

section \<open>Routing\<close>

text \<open>The patterns of the inner multiplexer; a wildcard matches one segment that is not empty.\<close>

definition apiServe :: "'w handler \<Rightarrow> ctl_request \<Rightarrow> 'w \<Rightarrow> ctl_response \<times> 'w" where
  "apiServe h rq w =
     (if take 3 (rq_Segments rq) \<noteq> [''api'', ''v1'', ''control''] \<or> length (rq_Segments rq) < 4 then (hd_mux h rq, w)
      else (case drop 3 (rq_Segments rq) of
              [part] \<Rightarrow>
                if rq_Method rq = ''POST'' \<and> part = ''domain-avoid'' then addDomainAvoid h rq w
                else invalidControlRequest h rq w
            | [part, operation] \<Rightarrow>
                if operation = [] then invalidControlRequest h rq w
                else if rq_Method rq = ''POST'' \<and> part = ''automatic-expansion'' then automaticExpansion h operation rq w
                else if rq_Method rq = ''DELETE'' \<and> part = ''domain-avoid'' then removeDomainAvoid h operation rq w
                else if rq_Method rq = ''POST'' \<and> part = ''origins'' then controlOrigin h operation rq w
                else invalidControlRequest h rq w
            | [part, name, operation] \<Rightarrow>
                if name \<noteq> [] \<and> operation \<noteq> [] \<and> rq_Method rq = ''POST'' \<and> part = ''processors''
                then processor h name operation rq w
                else invalidControlRequest h rq w
            | _ \<Rightarrow> invalidControlRequest h rq w))"

definition authorizationMatches :: "'w handler \<Rightarrow> string \<Rightarrow> bool" where
  "authorizationMatches h provided \<longleftrightarrow> hd_sha256 h provided = hd_hash h"

definition authorize :: "'w handler \<Rightarrow> ctl_request \<Rightarrow> 'w \<Rightarrow> ctl_response \<times> 'w" where
  "authorize h rq w =
     (if \<not> authorizationMatches h (rq_Authorization rq)
      then ((writeError 401 ''unauthorized'')\<lparr>rs_Headers := (''WWW-Authenticate'', ''Bearer realm=\"joshbot-operator\"'') #
              rs_Headers (writeError 401 ''unauthorized'')\<rparr>, w)
      else apiServe h rq w)"

definition withHeaders :: "ctl_response \<times> 'w \<Rightarrow> ctl_response \<times> 'w" where
  "withHeaders out =
     (case out of (rs, w) \<Rightarrow>
        (rs\<lparr>rs_Headers := [(''Cache-Control'', ''no-store''), (''X-Content-Type-Options'', ''nosniff''),
                          (''Referrer-Policy'', ''no-referrer'')] @ rs_Headers rs\<rparr>, w))"

definition serve :: "'w handler \<Rightarrow> ctl_request \<Rightarrow> 'w \<Rightarrow> ctl_response \<times> 'w" where
  "serve h rq w =
     withHeaders
       (if \<not> rq_Clean rq then (hd_mux h rq, w)
        else if (rq_Method rq = ''GET'' \<or> rq_Method rq = ''HEAD'') \<and> rq_Segments rq = [''healthz'']
        then (writeJSON 200 ''status'' ''ok'', w)
        else if take 1 (rq_Segments rq) = [''api''] \<and> length (rq_Segments rq) \<ge> 2 then authorize h rq w
        else (hd_mux h rq, w))"

text \<open>\<open>rest\<close> holds the libraries and the clock the handler is built with.\<close>

definition NewHandler :: "'w commander option \<Rightarrow> string \<Rightarrow> 'w handler \<Rightarrow> go_error + 'w handler" where
  "NewHandler commander token rest =
     (case commander of
        None \<Rightarrow> Inl errCommanderUnavailable
      | Some c \<Rightarrow>
          if \<not> token_Valid token then Inl errTokenUnavailable
          else Inr (rest\<lparr>hd_commander := c, hd_hash := hd_sha256 rest (''Bearer '' @ token)\<rparr>))"

section \<open>The audits of the handler\<close>

lemma dropBroken_length: "length (dropBroken s) \<le> length s"
proof (induction s rule: dropBroken.induct)
  case (1 s)
  show ?case
  proof (cases "s = [] \<or> lastRuneSize s \<noteq> 0")
    case False
    with 1 have "length (dropBroken (butlast s)) \<le> length (butlast s)" by simp
    with False show ?thesis by (subst dropBroken.simps) simp
  qed (subst dropBroken.simps, simp)
qed

lemma bounded_length: "length (bounded value1 limit) \<le> limit"
  using dropBroken_length [of "take limit value1"] by (auto simp: bounded_def)

subsection \<open>Cutting a text keeps it UTF-8\<close>

lemma rune_exclusive:
  "rune2 a b \<Longrightarrow> \<not> byte_of a < 128" "rune3 a b c \<Longrightarrow> \<not> byte_of a < 128 \<and> \<not> rune2 a b"
  "rune4 a b c d \<Longrightarrow> \<not> byte_of a < 128 \<and> \<not> rune2 a b \<and> \<not> rune3 a b c"
  by (auto simp: rune2_def rune3_def rune4_def in_range_def)

lemma rune_size_simps:
  "byte_of a < 128 \<Longrightarrow> rune_size (a # s) = 1"
  "rune2 a b \<Longrightarrow> rune_size (a # b # s) = 2"
  "rune3 a b c \<Longrightarrow> rune_size (a # b # c # s) = 3"
  "rune4 a b c d \<Longrightarrow> rune_size (a # b # c # d # s) = 4"
  by (simp_all add: rune_size_def rune_exclusive)

lemma rune_cases:
  assumes "rune_size s \<noteq> 0"
  obtains (one) a r where "s = a # r" "byte_of a < 128" "rune_size s = 1"
    | (two) a b r where "s = a # b # r" "rune2 a b" "rune_size s = 2"
    | (three) a b c r where "s = a # b # c # r" "rune3 a b c" "rune_size s = 3"
    | (four) a b c d r where "s = a # b # c # d # r" "rune4 a b c d" "rune_size s = 4"
proof -
  from assms obtain a s1 where s: "s = a # s1" by (cases s) (auto simp: rune_size_def)
  show thesis
  proof (cases "byte_of a < 128")
    case True
    with s show thesis by (intro one) (simp_all add: rune_size_simps)
  next
    case a: False
    with assms s obtain b s2 where s1: "s1 = b # s2" by (cases s1) (auto simp: rune_size_def)
    show thesis
    proof (cases "rune2 a b")
      case True
      with s s1 show thesis by (intro two) (simp_all add: rune_size_simps)
    next
      case ab: False
      with assms s s1 a obtain c s3 where s2: "s2 = c # s3" by (cases s2) (auto simp: rune_size_def)
      show thesis
      proof (cases "rune3 a b c")
        case True
        with s s1 s2 show thesis by (intro three) (simp_all add: rune_size_simps)
      next
        case abc: False
        with assms s s1 s2 a ab obtain d s4 where s3: "s3 = d # s4" by (cases s3) (auto simp: rune_size_def)
        with assms s s1 s2 a ab abc have "rune4 a b c d" by (auto simp: rune_size_def split: if_splits)
        with s s1 s2 s3 show thesis by (intro four) (simp_all add: rune_size_simps)
      qed
    qed
  qed
qed

text \<open>A byte inside a sequence starts none, nor does a sequence cut short.\<close>

lemma continuation_start: "128 \<le> byte_of c \<Longrightarrow> byte_of c \<le> 191 \<Longrightarrow> rune_size (c # s) = 0"
  by (auto simp: rune_size_def rune2_def rune3_def rune4_def in_range_def split: list.splits)

lemma rune_inside:
  assumes "0 < i" and "i < rune_size s"
  shows "rune_size (s ! i # t) = 0"
proof -
  from assms have "rune_size s \<noteq> 0" by simp
  then show ?thesis
    by (cases rule: rune_cases)
      (use assms in \<open>auto simp: rune2_def rune3_def rune4_def in_range_def numeral_eq_Suc less_Suc_eq
         split: if_splits intro!: continuation_start\<close>)
qed

lemma rune_tail:
  assumes "0 < i" and "i < n" and "n \<le> rune_size s"
  shows "rune_size (drop i (take n s) @ t) = 0"
proof -
  have "i < length (take n s)" using assms rune_size_le [of s] by simp
  then have "drop i (take n s) = take n s ! i # drop (Suc i) (take n s)" by (rule Cons_nth_drop_Suc [symmetric])
  moreover have "take n s ! i = s ! i" using assms(2) by simp
  ultimately show ?thesis using rune_inside [of i s] assms by simp
qed

lemma rune_prefix:
  assumes "rune_size s \<noteq> 0"
  shows "rune_size (take (rune_size s) s @ t) = rune_size s"
  using assms by (cases rule: rune_cases) (simp_all add: rune_size_simps)

lemma rune_cut:
  assumes "i < rune_size s"
  shows "rune_size (take i s) = 0"
proof -
  have none: "rune_size [] = 0" by (simp add: rune_size_def)
  have less: "i < 1 \<longleftrightarrow> i = 0" "i < 2 \<longleftrightarrow> i = 0 \<or> i = 1" "i < 3 \<longleftrightarrow> i = 0 \<or> i = 1 \<or> i = 2"
      "i < 4 \<longleftrightarrow> i = 0 \<or> i = 1 \<or> i = 2 \<or> i = 3"
    by arith+
  from assms have "rune_size s \<noteq> 0" by simp
  then show ?thesis
  proof (cases rule: rune_cases)
    case (one a r)
    with assms none show ?thesis by (simp add: less)
  next
    case (two a b r)
    with rune_exclusive(1) [OF two(2)] assms none show ?thesis by (auto simp: less rune_size_def)
  next
    case (three a b c r)
    with rune_exclusive(2) [OF three(2)] assms none show ?thesis by (auto simp: less rune_size_def)
  next
    case (four a b c d r)
    with rune_exclusive(3) [OF four(2)] assms none show ?thesis by (auto simp: less rune_size_def)
  qed
qed

lemma utf8_Valid_rune:
  "rune_size s \<noteq> 0 \<Longrightarrow> utf8_Valid (take (rune_size s) s @ t) \<longleftrightarrow> utf8_Valid t"
  using rune_prefix [of s t] rune_size_le [of s] by (subst utf8_Valid.simps) auto

lemma rune_size_4: "rune_size s \<le> 4"
proof (cases "rune_size s = 0")
  case False
  then show ?thesis by (cases rule: rune_cases) simp_all
qed simp

lemma lastRuneSize_0:
  "lastRuneSize s = 0 \<longleftrightarrow> (\<forall>k. 0 < k \<longrightarrow> k \<le> length s \<longrightarrow> rune_size (drop (length s - k) s) \<noteq> k)"
proof -
  have "lastRuneSize s = 0 \<longleftrightarrow> (\<forall>k \<in> {1, 2, 3, 4}. k \<le> length s \<longrightarrow> rune_size (drop (length s - k) s) \<noteq> k)"
    by (auto simp: lastRuneSize_def)
  also have "\<dots> \<longleftrightarrow> (\<forall>k. 0 < k \<longrightarrow> k \<le> length s \<longrightarrow> rune_size (drop (length s - k) s) \<noteq> k)"
  proof -
    have "k \<in> {1, 2, 3, 4}" if "0 < k" "rune_size (drop (length s - k) s) = k" for k
    proof -
      have "k \<le> 4" using rune_size_4 [of "drop (length s - k) s"] that(2) by simp
      with that(1) show ?thesis by auto
    qed
    moreover have "0 < k" if "k \<in> {1, 2, 3, 4}" for k :: nat using that by auto
    ultimately show ?thesis by metis
  qed
  finally show ?thesis .
qed

lemma lastRuneSize_append:
  assumes "rune_size r \<noteq> 0" and "length r = rune_size r" and "t \<noteq> []"
  shows "lastRuneSize (r @ t) = 0 \<longleftrightarrow> lastRuneSize t = 0"
proof -
  have "k \<le> length (r @ t) \<and> rune_size (drop (length (r @ t) - k) (r @ t)) = k \<longleftrightarrow>
      k \<le> length t \<and> rune_size (drop (length t - k) t) = k" if "0 < k" for k
  proof (cases "k \<le> length t")
    case True
    then show ?thesis by simp
  next
    case False
    have "rune_size (drop (length (r @ t) - k) (r @ t)) \<noteq> k" if "k \<le> length (r @ t)"
    proof (cases "length (r @ t) - k = 0")
      case True
      have "rune_size (r @ t) = rune_size r" using rune_prefix [OF assms(1), of t] assms(2) by simp
      then show ?thesis using True that assms(2,3) False by auto
    next
      case ne: False
      let ?i = "length (r @ t) - k"
      have "rune_size (drop ?i (take (rune_size r) r) @ t) = 0"
        using ne False assms(2) by (intro rune_tail) auto
      then show ?thesis using \<open>0 < k\<close> False assms(2) by simp
    qed
    with False show ?thesis by auto
  qed
  then show ?thesis unfolding lastRuneSize_0 by metis
qed

lemma lastRuneSize_rune:
  assumes "rune_size r \<noteq> 0" and "length r = rune_size r"
  shows "lastRuneSize r \<noteq> 0"
proof -
  show ?thesis unfolding lastRuneSize_0 using assms by (auto intro!: exI [of _ "rune_size r"])
qed

lemma dropBroken_append:
  assumes "rune_size r \<noteq> 0" and "length r = rune_size r"
  shows "dropBroken (r @ t) = r @ dropBroken t"
proof (induction "length t" arbitrary: t)
  case 0
  then have "t = []" by simp
  with lastRuneSize_rune [OF assms] show ?case by (simp add: dropBroken.simps)
next
  case (Suc n)
  then have t: "t \<noteq> []" by auto
  show ?case
  proof (cases "lastRuneSize t = 0")
    case True
    have "dropBroken (r @ butlast t) = r @ dropBroken (butlast t)" using Suc by simp
    with t True lastRuneSize_append [OF assms t] show ?thesis
      by (simp add: dropBroken.simps [of t] dropBroken.simps [of "r @ t"] butlast_append)
  next
    case False
    with t lastRuneSize_append [OF assms t] show ?thesis
      by (simp add: dropBroken.simps [of t] dropBroken.simps [of "r @ t"])
  qed
qed

lemma dropBroken_cut:
  "n < rune_size s \<Longrightarrow> dropBroken (take n s) = []"
proof (induction n)
  case (Suc n)
  let ?p = "take (Suc n) s"
  have len: "length ?p = Suc n" using Suc.prems rune_size_le [of s] by simp
  have "lastRuneSize ?p = 0"
    unfolding lastRuneSize_0
  proof (intro allI impI)
    fix k assume pos: "0 < k" and k: "k \<le> length ?p"
    show "rune_size (drop (length ?p - k) ?p) \<noteq> k"
    proof (cases "length ?p - k = 0")
      case True
      with rune_cut [OF Suc.prems] pos show ?thesis by simp
    next
      case False
      have "rune_size (drop (length ?p - k) ?p @ []) = 0"
        by (rule rune_tail) (use False pos len Suc.prems in simp_all)
      with pos show ?thesis by simp
    qed
  qed
  moreover have "butlast ?p = take n s" using len Suc.prems rune_size_le [of s] by (simp add: butlast_take)
  ultimately show ?case using Suc by (simp add: dropBroken.simps [of ?p])
qed (simp add: dropBroken.simps)

lemma dropBroken_Valid: "utf8_Valid s \<Longrightarrow> utf8_Valid (dropBroken (take n s))"
proof (induction s arbitrary: n rule: utf8_Valid.induct)
  case (1 s)
  show ?case
  proof (cases "n < rune_size s \<or> s = []")
    case True
    then show ?thesis by (auto simp: dropBroken_cut dropBroken.simps [of "[]"] utf8_Valid.simps [of "[]"])
  next
    case False
    with 1(2) have m: "rune_size s \<noteq> 0" and rest: "utf8_Valid (drop (rune_size s) s)"
      by (auto simp: utf8_Valid.simps [of s] split: if_splits)
    let ?r = "take (rune_size s) s" and ?t = "take (n - rune_size s) (drop (rune_size s) s)"
    have r: "rune_size ?r = rune_size s" "length ?r = rune_size s"
      using rune_prefix [OF m, of "[]"] rune_size_le [of s] by simp_all
    have "take n s = ?r @ ?t" using False by (metis le_add_diff_inverse not_less take_add)
    then have "dropBroken (take n s) = ?r @ dropBroken ?t"
      using dropBroken_append [of ?r ?t] m r by simp
    with 1(1) [OF _ m rest] False utf8_Valid_rune [OF m] show ?thesis by auto
  qed
qed

lemma dropBroken_set: "set (dropBroken s) \<subseteq> set s"
proof (induction s rule: dropBroken.induct)
  case (1 s)
  then show ?case by (subst dropBroken.simps) (auto dest: in_set_butlastD)
qed

lemma utf8_Valid_append: "utf8_Valid s \<Longrightarrow> utf8_Valid t \<Longrightarrow> utf8_Valid (s @ t)"
proof (induction s rule: utf8_Valid.induct)
  case (1 s)
  show ?case
  proof (cases "s = []")
    case False
    with 1(2) have m: "rune_size s \<noteq> 0" and rest: "utf8_Valid (drop (rune_size s) s)"
      by (auto simp: utf8_Valid.simps [of s] split: if_splits)
    have "s @ t = take (rune_size s) s @ drop (rune_size s) s @ t" by simp
    with 1(1) [OF False m rest 1(3)] utf8_Valid_rune [OF m, of "drop (rune_size s) s @ t"] show ?thesis by metis
  qed (use 1 in simp)
qed

lemma storableText_ascii: "list_all (\<lambda>c. 0 < byte_of c \<and> byte_of c < 128) s \<Longrightarrow> storableText s"
  by (auto simp: storableText_def list_all_iff byte_of_def intro!: utf8_Valid_ascii)

lemma storableText_append: "storableText s \<Longrightarrow> storableText t \<Longrightarrow> storableText (s @ t)"
  by (simp add: storableText_def utf8_Valid_append)

lemma storableText_bounded: "storableText s \<Longrightarrow> storableText (bounded s n)"
  using dropBroken_Valid [of s n] dropBroken_set [of "take n s"] set_take_subset [of n s]
  by (auto simp: storableText_def bounded_def)

subsection \<open>The shape of an audit\<close>

lemma lastRuneSize_ascii: "byte_of c < 128 \<Longrightarrow> lastRuneSize [c] = 1"
  by (simp add: lastRuneSize_def rune_size_ascii)

lemma dropBroken_ascii: "byte_of c < 128 \<Longrightarrow> dropBroken (c # s) \<noteq> []"
proof (induction "length s" arbitrary: s)
  case 0
  then show ?case by (subst dropBroken.simps) (simp add: lastRuneSize_ascii)
next
  case (Suc n)
  then have "dropBroken (c # butlast s) \<noteq> []" by simp
  with Suc show ?case by (subst dropBroken.simps) auto
qed

lemma bounded_ascii: "byte_of c < 128 \<Longrightarrow> 0 < limit \<Longrightarrow> bounded (c # s) limit \<noteq> []"
  by (cases limit) (auto simp: bounded_def dropBroken_ascii)

text \<open>What the table demands of an audit, but for its result.\<close>

definition auditShaped :: "audit_event \<Rightarrow> bool" where
  "auditShaped a \<longleftrightarrow> auditStorable (a\<lparr>au_Result := ResultRejected\<rparr>)"

lemma auditShaped_iff:
  "auditShaped a \<longleftrightarrow>
     storableText (au_Action a) \<and> storableText (au_Target a) \<and> storableText (au_Caller a) \<and>
     storableText (au_Actor a) \<and> storableText (au_Reason a) \<and>
     1 \<le> length (au_Action a) \<and> length (au_Action a) \<le> 128 \<and> length (au_Target a) \<le> 2048 \<and>
     1 \<le> length (au_Caller a) \<and> length (au_Caller a) \<le> 256 \<and> 1 \<le> length (au_Actor a) \<and> length (au_Actor a) \<le> 128 \<and>
     length (au_Reason a) \<le> 512"
  by (auto simp: auditShaped_def auditStorable_def ResultRejected_def)

lemma auditShaped_result: "auditShaped a \<Longrightarrow> auditStorable (a\<lparr>au_Result := ResultSuccess\<rparr>)"
  "auditShaped a \<Longrightarrow> auditStorable (a\<lparr>au_Result := ResultRejected\<rparr>)"
  by (auto simp: auditShaped_def auditStorable_def ResultSuccess_def ResultRejected_def)

lemma auditShaped_target:
  "auditShaped a \<Longrightarrow> storableText t \<Longrightarrow> auditShaped (a\<lparr>au_Target := boundedTarget t\<rparr>)"
  using bounded_length [of t maxTargetBytes]
  by (simp add: auditShaped_iff boundedTarget_def maxTargetBytes_def storableText_bounded)

lemma auditShaped_metadata:
  "auditShaped a \<Longrightarrow> storableText actor \<Longrightarrow> storableText reason \<Longrightarrow> applyMetadata a actor reason = (valid, a') \<Longrightarrow>
   auditShaped a'"
  by (auto simp: applyMetadata_def auditShaped_iff Suc_le_eq validBoundedText_def maxActorBytes_def maxReasonBytes_def Let_def
      split: if_splits)

definition callerOf :: "'w handler \<Rightarrow> ctl_request \<Rightarrow> string" where
  "callerOf h rq = (case hd_splitHost h (rq_RemoteAddr rq) of None \<Rightarrow> rq_RemoteAddr rq | Some host \<Rightarrow> host)"

text \<open>The texts of a request that its audit may carry.\<close>

definition requestTexts :: "'w handler \<Rightarrow> ctl_request \<Rightarrow> string list" where
  "requestTexts h rq =
     callerOf h rq # rq_Path rq # rq_Segments rq @ map (normalizeDomainPattern (hd_lower h)) (rq_Segments rq) @
     (case hd_metadata h (rq_Body rq) of Decoded (actor, reason) \<Rightarrow> [actor, reason] | _ \<Rightarrow> []) @
     (case hd_domain h (rq_Body rq) of
        Decoded (raw, actor, reason) \<Rightarrow> [normalizeDomainPattern (hd_lower h) raw, actor, reason] | _ \<Rightarrow> []) @
     (case hd_origin h (rq_Body rq) of
        Decoded (raw, actor, reason) \<Rightarrow>
          [actor, reason] @ (case Origin.Parse (hd_lib h) raw of Inl _ \<Rightarrow> [] | Inr source \<Rightarrow> [origin_String source])
      | _ \<Rightarrow> [])"

lemma requestTexts_storable:
  assumes "list_all storableText (requestTexts h rq)"
  shows "storableText (callerOf h rq)" "storableText (rq_Path rq)"
    "seg \<in> set (rq_Segments rq) \<Longrightarrow> storableText seg"
    "seg \<in> set (rq_Segments rq) \<Longrightarrow> storableText (normalizeDomainPattern (hd_lower h) seg)"
    "decodeOptionalJSON (hd_metadata h) ([], []) rq = Inr (actor, reason) \<Longrightarrow> storableText actor \<and> storableText reason"
    "decodeJSON (hd_domain h) rq = Inr (raw, actor, reason) \<Longrightarrow>
       storableText (normalizeDomainPattern (hd_lower h) raw) \<and> storableText actor \<and> storableText reason"
    "decodeJSON (hd_origin h) rq = Inr (raw, actor, reason) \<Longrightarrow> storableText actor \<and> storableText reason"
    "decodeJSON (hd_origin h) rq = Inr (raw, actor, reason) \<Longrightarrow> Origin.Parse (hd_lib h) raw = Inr source \<Longrightarrow>
       storableText (origin_String source)"
proof -
  have "storableText []" by (rule storableText_ascii) simp
  with assms show "decodeOptionalJSON (hd_metadata h) ([], []) rq = Inr (actor, reason) \<Longrightarrow>
      storableText actor \<and> storableText reason"
    by (auto simp: requestTexts_def decodeOptionalJSON_def decodeJSON_def split: if_splits decoded.splits)
qed (use assms in \<open>auto simp: requestTexts_def decodeJSON_def list_all_iff split: if_splits decoded.splits\<close>)

lemma newAudit_shaped:
  assumes "length (callerOf h rq) \<le> 256" and "storableText (callerOf h rq)" and "byte_of c < 128"
    and "storableText (c # action)" and "storableText target"
  shows "auditShaped (newAudit h rq (c # action) target w)"
proof -
  have a: "bounded (c # action) 128 \<noteq> []" by (rule bounded_ascii [OF assms(3)]) simp
  let ?caller = "if callerOf h rq = [] then ''unknown'' else callerOf h rq"
  have "bounded ?caller 256 = ?caller" using assms(1) by (simp add: bounded_def)
  then have b: "length (bounded ?caller 256) \<le> 256" "bounded ?caller 256 \<noteq> []" using assms(1) by auto
  have t: "storableText ''unknown''" "storableText ''operator-api''" "storableText []"
    by (rule storableText_ascii, simp add: byte_of_def)+
  show ?thesis
    using a b bounded_length [of "c # action" 128] bounded_length [of target 2048] assms(2,4,5) t
    by (simp add: auditShaped_iff newAudit_def Let_def boundedTarget_def maxTargetBytes_def maxActionBytes_def maxCallerBytes_def
        DefaultActor_def Suc_le_eq storableText_bounded flip: callerOf_def)
qed

lemma action_ascii: "byte_of CHR ''p'' < 128" "byte_of CHR ''a'' < 128" "byte_of CHR ''d'' < 128" "byte_of CHR ''o'' < 128"
    "byte_of CHR ''r'' < 128"
  by (simp_all add: byte_of_def)

section \<open>The contract of a commander\<close>

text \<open>
  An operation that fails leaves the log and everything else as they were; one that succeeds appends exactly the audit it
  was given.
\<close>

definition auditedOp ::
    "('w \<Rightarrow> audit_event list) \<Rightarrow> ('w \<Rightarrow> 'p) \<Rightarrow> (audit_event \<Rightarrow> 'w \<Rightarrow> go_error option \<times> 'w) \<Rightarrow> bool" where
  "auditedOp events rest f \<longleftrightarrow>
     (\<forall>a w. case f a w of
        (Some _, w') \<Rightarrow> events w' = events w \<and> rest w' = rest w
      | (None, w') \<Rightarrow> events w' = events w @ [a] \<and> auditStorable a)"

locale audited_commander =
  fixes cm :: "'w commander" and events :: "'w \<Rightarrow> audit_event list" and rest :: "'w \<Rightarrow> 'p"
  assumes operations: "auditedOp events rest (cm_SetProcessorPaused cm ctx name b)"
      "auditedOp events rest (cm_SetAutomaticExpansionPaused cm ctx b)"
      "auditedOp events rest (cm_AddDomainAvoid cm ctx pattern)" "auditedOp events rest (cm_RemoveDomainAvoid cm ctx pattern)"
      "auditedOp events rest (cm_SetOriginBlocked cm ctx raw b)" "auditedOp events rest (cm_RecordRejected cm ctx)"
    and rejected_rest: "rest (snd (cm_RecordRejected cm ctx a w)) = rest w"
begin

text \<open>A response agrees with what happened: no event; a success; or a rejection, which changes nothing else.\<close>

definition accounted :: "'w \<Rightarrow> ctl_response \<times> 'w \<Rightarrow> bool" where
  "accounted w out =
     (case out of (rs, w') \<Rightarrow>
        events w' = events w \<and> rest w' = rest w \<and> rs_Status rs \<noteq> 200 \<or>
        (\<exists>a. events w' = events w @ [a] \<and> auditStorable a \<and>
          (au_Result a = ResultSuccess \<and> rs_Status rs = 200 \<or>
           au_Result a = ResultRejected \<and> rs_Status rs \<noteq> 200 \<and> rest w' = rest w)))"

lemma RecordRejected_cases:
  "case cm_RecordRejected cm ctx a w of
     (Some _, w') \<Rightarrow> events w' = events w \<and> rest w' = rest w
   | (None, w') \<Rightarrow> events w' = events w @ [a] \<and> auditStorable a \<and> rest w' = rest w"
  using operations(6) [where ctx = ctx, unfolded auditedOp_def, rule_format, where a = a and w = w]
    rejected_rest [where ctx = ctx and a = a and w = w]
  by (auto split: prod.splits option.splits)

lemma reject_accounted:
  assumes "hd_commander h = cm" and "status \<noteq> 200"
  shows "accounted w (reject h rq audit status code w)"
  using RecordRejected_cases [where ctx = "rq_ctx rq" and a = "audit\<lparr>au_Result := ResultRejected\<rparr>" and w = w] assms
  by (auto simp: reject_def accounted_def writeError_def writeJSON_def split: prod.splits option.splits)

lemma mutate_accounted:
  assumes "hd_commander h = cm" and "auditedOp events rest f"
  shows "accounted w (control_mutate h rq audit f w)"
proof -
  obtain e w1 where f: "f (audit\<lparr>au_Result := ResultSuccess\<rparr>) w = (e, w1)" by fastforce
  note a = assms(2) [unfolded auditedOp_def, rule_format,
      where a = "audit\<lparr>au_Result := ResultSuccess\<rparr>" and w = w, unfolded f prod.case]
  show ?thesis
  proof (cases e)
    case None
    with a f show ?thesis by (auto simp: control_mutate_def accounted_def writeJSON_def)
  next
    case (Some err)
    with a f RecordRejected_cases [where ctx = "rq_ctx rq" and a = "audit\<lparr>au_Result := ResultRejected\<rparr>" and w = w1] assms(1) show ?thesis
      by (auto simp: control_mutate_def accounted_def writeError_def writeJSON_def split: prod.splits option.splits)
  qed
qed

lemma decode_status:
  "decodeJSON decode rq = Inl (status, code) \<Longrightarrow> status \<noteq> 200"
  "decodeOptionalJSON decode zero rq = Inl (status, code) \<Longrightarrow> status \<noteq> 200"
  by (auto simp: decodeJSON_def decodeOptionalJSON_def split: if_splits decoded.splits)

lemmas accounting = reject_accounted mutate_accounted operations

lemma handlers_accounted:
  assumes "hd_commander h = cm"
  shows "accounted w (processor h name operation rq w)" "accounted w (automaticExpansion h operation rq w)"
    "accounted w (addDomainAvoid h rq w)" "accounted w (removeDomainAvoid h raw rq w)"
    "accounted w (controlOrigin h operation rq w)" "accounted w (invalidControlRequest h rq w)"
  using assms
  by (auto simp: processor_def automaticExpansion_def addDomainAvoid_def removeDomainAvoid_def controlOrigin_def
      invalidControlRequest_def Let_def accounting decode_status split: sum.splits prod.splits bool.splits)

lemma apiServe_accounted:
  assumes "hd_commander h = cm" and "\<And>rq. rs_Status (hd_mux h rq) \<noteq> 200"
  shows "accounted w (apiServe h rq w)"
  using handlers_accounted [OF assms(1)] assms(2)
  by (auto simp: apiServe_def accounted_def [of w "(hd_mux h rq, w)"] split: list.splits)

end

text \<open>A commander that works records every rejection the table accepts, and keeps working.\<close>

locale working_commander = audited_commander cm events rest
  for cm :: "'w commander" and events :: "'w \<Rightarrow> audit_event list" and rest :: "'w \<Rightarrow> 'p" +
  fixes works :: "'w \<Rightarrow> bool" and ctx :: ctx_value
  assumes rejects: "works w \<Longrightarrow> auditStorable a \<Longrightarrow> au_Result a = ResultRejected \<Longrightarrow>
      fst (cm_RecordRejected cm ctx a w) = None"
    and keeps_working: "works w \<Longrightarrow> works (snd (cm_SetProcessorPaused cm ctx name b a w))"
      "works w \<Longrightarrow> works (snd (cm_SetAutomaticExpansionPaused cm ctx b a w))"
      "works w \<Longrightarrow> works (snd (cm_AddDomainAvoid cm ctx pattern a w))"
      "works w \<Longrightarrow> works (snd (cm_RemoveDomainAvoid cm ctx pattern a w))"
      "works w \<Longrightarrow> works (snd (cm_SetOriginBlocked cm ctx raw b a w))"
begin

definition grew :: "'w \<Rightarrow> ctl_response \<times> 'w \<Rightarrow> bool" where
  "grew w out \<longleftrightarrow> (\<exists>a. events (snd out) = events w @ [a])"

lemma rejected_grew:
  assumes "works w" and "auditShaped a"
  shows "grew w (x, snd (cm_RecordRejected cm ctx (a\<lparr>au_Result := ResultRejected\<rparr>) w))"
  using RecordRejected_cases [where ctx = ctx and a = "a\<lparr>au_Result := ResultRejected\<rparr>" and w = w]
    rejects [OF assms(1) auditShaped_result(2) [OF assms(2)]]
  by (auto simp: grew_def split: prod.splits)

lemma reject_grew:
  assumes "hd_commander h = cm" and "rq_ctx rq = ctx" and "works w" and "auditShaped audit"
  shows "grew w (reject h rq audit status code w)"
  using rejected_grew [OF assms(3,4)] assms(1,2)
  by (auto simp: reject_def grew_def split: prod.splits option.splits)

lemma mutate_grew:
  assumes "hd_commander h = cm" and "rq_ctx rq = ctx" and "works w" and "auditShaped audit"
    and "auditedOp events rest f" and "\<And>a w. works w \<Longrightarrow> works (snd (f a w))"
  shows "grew w (control_mutate h rq audit f w)"
proof -
  obtain e w1 where f: "f (audit\<lparr>au_Result := ResultSuccess\<rparr>) w = (e, w1)" by fastforce
  note a = assms(5) [unfolded auditedOp_def, rule_format,
      where a = "audit\<lparr>au_Result := ResultSuccess\<rparr>" and w = w, unfolded f prod.case]
  have "works w1" using assms(6) [OF assms(3), of "audit\<lparr>au_Result := ResultSuccess\<rparr>"] f by simp
  from rejected_grew [OF this assms(4)] a f assms(1,2) show ?thesis
    by (cases e) (auto simp: control_mutate_def grew_def)
qed

lemma handlers_grew:
  assumes "hd_commander h = cm" and "rq_ctx rq = ctx" and "works w" and "length (callerOf h rq) \<le> 256"
    and texts: "list_all storableText (requestTexts h rq)"
    and segments: "{name, operation, raw} \<subseteq> set (rq_Segments rq)"
  shows "grew w (processor h name operation rq w)" "grew w (automaticExpansion h operation rq w)"
    "grew w (addDomainAvoid h rq w)" "grew w (removeDomainAvoid h raw rq w)"
    "grew w (controlOrigin h operation rq w)" "grew w (invalidControlRequest h rq w)"
proof -
  note text1 = requestTexts_storable [OF texts]
  have seg: "storableText name" "storableText operation" "storableText (normalizeDomainPattern (hd_lower h) raw)"
    using segments text1(3,4) by auto
  have lit: "storableText ''processor.''" "storableText ''automatic-expansion.''" "storableText ''automatic-expansion''"
      "storableText ''domain-avoid.add''" "storableText ''domain-avoid.remove''" "storableText ''origin.''"
      "storableText ''request.reject''" "storableText []"
    by (rule storableText_ascii, simp add: byte_of_def)+
  note action = storableText_append [OF lit(1) seg(2)] storableText_append [OF lit(2) seg(2)]
    storableText_append [OF lit(6) seg(2)]
  note shaped = newAudit_shaped [OF assms(4) text1(1)]
  have meta: "auditShaped (snd (applyMetadata a actor reason))"
    if "auditShaped a" "storableText actor" "storableText reason" for a actor reason
    using auditShaped_metadata [OF that] by (metis prod.collapse)
  have target: "storableText (boundedTarget t)" if "storableText t" for t
    using storableText_bounded [OF that] by (simp add: boundedTarget_def)
  have p: "auditShaped (newAudit h rq (''processor.'' @ operation) (boundedTarget name) w)"
    and e: "auditShaped (newAudit h rq (''automatic-expansion.'' @ operation) ''automatic-expansion'' w)"
    and d: "auditShaped (newAudit h rq ''domain-avoid.add'' [] w)"
    and m: "auditShaped (newAudit h rq ''domain-avoid.remove'' (boundedTarget (normalizeDomainPattern (hd_lower h) raw)) w)"
    and o1: "auditShaped (newAudit h rq (''origin.'' @ operation) [] w)"
    and i: "auditShaped (newAudit h rq ''request.reject'' (boundedTarget (rq_Path rq)) w)"
    using action lit seg target text1(2) action_ascii by (auto intro!: shaped)
  note rejected = reject_grew [OF assms(1-3)] and mutated = mutate_grew [OF assms(1-3)]
  have optional: "\<exists>valid a'. applyMetadata a actor reason = (valid, a') \<and> auditShaped a'"
    if "decodeOptionalJSON (hd_metadata h) ([], []) rq = Inr (actor, reason)" "auditShaped a" for actor reason a
    using auditShaped_metadata [OF that(2)] text1(5) [OF that(1)] by (metis prod.exhaust)
  show "grew w (processor h name operation rq w)" "grew w (automaticExpansion h operation rq w)"
    "grew w (removeDomainAvoid h raw rq w)"
  proof -
    define ap where "ap = newAudit h rq (''processor.'' @ operation) (boundedTarget name) w"
    define ae where "ae = newAudit h rq (''automatic-expansion.'' @ operation) ''automatic-expansion'' w"
    define am where "am =
      newAudit h rq ''domain-avoid.remove'' (boundedTarget (normalizeDomainPattern (hd_lower h) raw)) w"
    note audits = ap_def [symmetric] ae_def [symmetric] am_def [symmetric]
    note shapes = p [unfolded audits] e [unfolded audits] m [unfolded audits]
    consider (bad) status code where "decodeOptionalJSON (hd_metadata h) ([], []) rq = Inl (status, code)"
      | (ok) actor reason where "decodeOptionalJSON (hd_metadata h) ([], []) rq = Inr (actor, reason)"
      by (metis old.sum.exhaust prod.exhaust)
    then have "grew w (processor h name operation rq w) \<and> grew w (automaticExpansion h operation rq w) \<and>
        grew w (removeDomainAvoid h raw rq w)"
    proof cases
      case bad
      with shapes show ?thesis
        unfolding processor_def automaticExpansion_def removeDomainAvoid_def Let_def audits by (simp add: rejected)
    next
      case ok
      from optional [OF ok shapes(1)] optional [OF ok shapes(2)] optional [OF ok shapes(3)] shapes show ?thesis
        using operations(1,2,4) keeps_working(1,2,4)
        unfolding processor_def automaticExpansion_def removeDomainAvoid_def Let_def audits
        by (auto simp: ok rejected mutated assms(1,2) split: bool.splits)
    qed
    then show "grew w (processor h name operation rq w)" "grew w (automaticExpansion h operation rq w)"
      "grew w (removeDomainAvoid h raw rq w)" by simp_all
  qed
  show "grew w (invalidControlRequest h rq w)"
    using i by (simp add: invalidControlRequest_def Let_def rejected)
  show "grew w (addDomainAvoid h rq w)"
  proof (cases "decodeJSON (hd_domain h) rq")
    case (Inl x)
    with d show ?thesis by (cases x) (simp add: addDomainAvoid_def Let_def rejected)
  next
    case (Inr y)
    obtain raw actor reason where y: "y = (raw, actor, reason)" by (metis prod.exhaust)
    note t = text1(6) [OF Inr [unfolded y]]
    let ?a = "(newAudit h rq ''domain-avoid.add'' [] w)\<lparr>au_Target := boundedTarget (normalizeDomainPattern (hd_lower h) raw)\<rparr>"
    obtain valid a' where "applyMetadata ?a actor reason = (valid, a')" by fastforce
    moreover from auditShaped_metadata [OF auditShaped_target [OF d] _ _ this] t have "auditShaped a'" by simp
    ultimately show ?thesis
      using Inr operations(3) keeps_working(3)
      by (auto simp: addDomainAvoid_def Let_def y rejected mutated assms(1,2))
  qed
  show "grew w (controlOrigin h operation rq w)"
  proof (cases "decodeJSON (hd_origin h) rq")
    case (Inl x)
    with o1 show ?thesis by (cases x) (simp add: controlOrigin_def Let_def rejected)
  next
    case (Inr y)
    obtain raw actor reason where y: "y = (raw, actor, reason)" by (metis prod.exhaust)
    note t = text1(7) [OF Inr [unfolded y]]
    show ?thesis
    proof (cases "Origin.Parse (hd_lib h) raw")
      case (Inl e)
      with Inr o1 t show ?thesis by (simp add: controlOrigin_def Let_def y rejected meta)
    next
      case parsed: (Inr source)
      let ?a = "(newAudit h rq (''origin.'' @ operation) [] w)\<lparr>au_Target := boundedTarget (origin_String source)\<rparr>"
      obtain valid a' where "applyMetadata ?a actor reason = (valid, a')" by fastforce
      moreover from auditShaped_metadata [OF auditShaped_target [OF o1] _ _ this] t text1(8) [OF Inr [unfolded y] parsed]
      have "auditShaped a'" by simp
      ultimately show ?thesis
        using Inr parsed o1 operations(5) keeps_working(5)
        by (auto simp: controlOrigin_def Let_def y rejected mutated assms(1,2) split: bool.splits)
    qed
  qed
qed

end

section \<open>The control store as the commander\<close>

text \<open>
  The operator's service on the control store: \<open>ow_dbErr\<close> is whether the database rejects the next transaction, and
  \<open>ow_next\<close> moves on to the one after it.
\<close>

record 'e operator_world =
  ow_lib :: host_lib
  ow_lower :: "string \<Rightarrow> string"
  ow_handle :: "control_handle option"
  ow_dbErr :: "'e \<Rightarrow> go_error option"
  ow_next :: "'e \<Rightarrow> 'e"

definition onStore ::
    "'e operator_world \<Rightarrow> (go_error option \<Rightarrow> discovery_db \<Rightarrow> go_error option \<times> discovery_db) \<Rightarrow> discovery_db \<times> 'e \<Rightarrow>
     go_error option \<times> (discovery_db \<times> 'e)" where
  "onStore ow f w = (case f (ow_dbErr ow (snd w)) (fst w) of (r, db) \<Rightarrow> (r, (db, ow_next ow (snd w))))"

definition storeCommander :: "'e operator_world \<Rightarrow> (discovery_db \<times> 'e) commander" where
  "storeCommander ow =
     \<lparr>cm_SetProcessorPaused = (\<lambda>ctx name b a. onStore ow (\<lambda>e. SetProcessorPaused (ow_handle ow) ctx e name b a)),
      cm_SetAutomaticExpansionPaused = (\<lambda>ctx b a. onStore ow (\<lambda>e. SetAutomaticExpansionPaused (ow_handle ow) ctx e b a)),
      cm_AddDomainAvoid = (\<lambda>ctx p a. onStore ow (\<lambda>e. AddDomainAvoid (ow_lib ow) (ow_lower ow) (ow_handle ow) ctx e p a)),
      cm_RemoveDomainAvoid =
        (\<lambda>ctx p a. onStore ow (\<lambda>e. RemoveDomainAvoid (ow_lib ow) (ow_lower ow) (ow_handle ow) ctx e p a)),
      cm_SetOriginBlocked =
        (\<lambda>ctx raw b a. onStore ow (\<lambda>e. SetOriginBlocked (ow_lib ow) (ow_lower ow) (ow_handle ow) ctx e raw b a)),
      cm_RecordRejected = (\<lambda>ctx a. onStore ow (\<lambda>e. RecordRejected (ow_handle ow) ctx e a))\<rparr>"

definition storeEvents :: "discovery_db \<times> 'e \<Rightarrow> audit_event list" where "storeEvents w = dd_audit (fst w)"

definition storePolicy :: "discovery_db \<times> 'e \<Rightarrow> discovery_db" where "storePolicy w = (fst w)\<lparr>dd_audit := []\<rparr>"

lemma recompute_audit: "dd_audit (snd (recomputeAutomaticCrawlBlocks lib lower config db)) = dd_audit db"
proof -
  have "dd_audit (snd (fold (recomputeBlock lib lower e) xs acc)) = dd_audit (snd acc)" for e xs acc
    by (induction xs arbitrary: acc)
      (auto simp: recomputeBlock_def Let_def updateSource_def split: prod.splits sum.splits)
  then show ?thesis by (simp add: recomputeAutomaticCrawlBlocks_def)
qed

text \<open>An operation that runs one mutation, which leaves the log alone, or fails.\<close>

lemma audited_onStore:
  assumes "\<And>db. dd_audit (f db) = dd_audit db"
    and "\<And>a e db. op e a db = mutate s ctx e a f db \<or> (\<exists>err. op e a db = (Some err, db))"
  shows "auditedOp storeEvents storePolicy (\<lambda>a. onStore ow (\<lambda>e. op e a))"
  unfolding auditedOp_def
proof (intro allI)
  fix a w
  have "audited f a (fst w) (op (ow_dbErr ow (snd w)) a (fst w))"
    using assms(2) [of "ow_dbErr ow (snd w)" a "fst w"] audited_mutate audited_error by metis
  then show "case onStore ow (\<lambda>e. op e a) w of
      (None, w') \<Rightarrow> storeEvents w' = storeEvents w @ [a] \<and> auditStorable a
    | (Some _, w') \<Rightarrow> storeEvents w' = storeEvents w \<and> storePolicy w' = storePolicy w"
    using assms(1) by (auto simp: onStore_def audited_def storeEvents_def storePolicy_def split: prod.splits option.splits)
qed

lemma avoid_onStore:
  "auditedOp storeEvents storePolicy (\<lambda>a. onStore ow (\<lambda>e. AddDomainAvoid lib lower s ctx e p a))" (is ?A)
  "auditedOp storeEvents storePolicy (\<lambda>a. onStore ow (\<lambda>e. RemoveDomainAvoid lib lower s ctx e p a))" (is ?R)
proof -
  let ?recompute = "\<lambda>db. snd (recomputeAutomaticCrawlBlocks lib lower (ch_automatic (the s)) db)"
  have "?A \<and> ?R"
  proof (cases "avoidRule lower p")
    case None
    then show ?thesis
      by (intro conjI audited_onStore [where s = s and ctx = ctx and f = id])
        (simp_all add: AddDomainAvoid_def RemoveDomainAvoid_def)
  next
    case (Some rule)
    have ?A
      by (rule audited_onStore [where s = s and ctx = ctx and
            f = "\<lambda>db. ?recompute (if rule \<in> set (dd_avoid db) then db else db\<lparr>dd_avoid := dd_avoid db @ [rule]\<rparr>)"])
        (simp_all add: recompute_audit AddDomainAvoid_def Some)
    moreover have ?R
      by (rule audited_onStore [where s = s and ctx = ctx and
            f = "\<lambda>db. ?recompute (db\<lparr>dd_avoid := filter (\<lambda>q. q \<noteq> rule) (dd_avoid db)\<rparr>)"])
        (simp_all add: recompute_audit RemoveDomainAvoid_def Some)
    ultimately show ?thesis ..
  qed
  then show ?A ?R by simp_all
qed

lemma origin_onStore:
  "auditedOp storeEvents storePolicy (\<lambda>a. onStore ow (\<lambda>e. SetOriginBlocked lib lower s ctx e raw b a))"
  by (rule audited_onStore [where s = s and ctx = ctx and
        f = "setExactCrawlBlock lower (ch_automatic (the s)) (projr (Origin.Parse lib raw)) b"])
    (auto simp: setExactCrawlBlock_def updateSource_def Let_def SetOriginBlocked_def split: sum.splits)

lemma pause_onStore:
  "auditedOp storeEvents storePolicy (\<lambda>a. onStore ow (\<lambda>e. SetProcessorPaused s ctx e name b a))"
  "auditedOp storeEvents storePolicy (\<lambda>a. onStore ow (\<lambda>e. SetAutomaticExpansionPaused s ctx e b a))"
  by (rule audited_onStore [where s = s and ctx = ctx and
        f = "\<lambda>db. db\<lparr>dd_control := (if name = ''discovery'' then (dd_control db)\<lparr>cn_discovery_paused := b\<rparr>
                                  else (dd_control db)\<lparr>cn_verification_paused := b\<rparr>)\<rparr>"];
      simp add: SetProcessorPaused_def)
    (rule audited_onStore [where s = s and ctx = ctx and
        f = "\<lambda>db. db\<lparr>dd_control := (dd_control db)\<lparr>cn_automatic_expansion_paused := b\<rparr>\<rparr>"];
      simp add: SetAutomaticExpansionPaused_def)

lemma rejected_onStore:
  "auditedOp storeEvents storePolicy (\<lambda>a. onStore ow (\<lambda>e. RecordRejected s ctx e a))"
  "storePolicy (snd (onStore ow (\<lambda>e. RecordRejected s ctx e a) w)) = storePolicy w"
  by (auto simp: auditedOp_def onStore_def RecordRejected_def insertControlAudit_def storeEvents_def storePolicy_def Let_def
      split: prod.splits option.splits if_splits)

interpretation control_store: audited_commander "storeCommander ow" storeEvents storePolicy for ow
  by unfold_locales (simp_all add: storeCommander_def avoid_onStore origin_onStore pause_onStore rejected_onStore)

definition storeWorks :: "'e operator_world \<Rightarrow> ctx_value \<Rightarrow> discovery_db \<times> 'e \<Rightarrow> bool" where
  "storeWorks ow ctx w \<longleftrightarrow> control_validate (ow_handle ow) ctx = None \<and> (\<forall>n. ow_dbErr ow ((ow_next ow ^^ n) (snd w)) = None)"

lemma storeWorks_next: "storeWorks ow ctx w \<Longrightarrow> storeWorks ow ctx (snd (onStore ow f w))"
  unfolding storeWorks_def onStore_def
  by (auto split: prod.splits) (metis comp_apply funpow_Suc_right)

interpretation working_store: working_commander "storeCommander ow" storeEvents storePolicy "storeWorks ow ctx" ctx for ow ctx
proof
  fix w a
  assume "storeWorks ow ctx w" and "auditStorable a" and "au_Result a = ResultRejected"
  then show "fst (cm_RecordRejected (storeCommander ow) ctx a w) = None"
    by (auto simp: storeWorks_def storeCommander_def onStore_def RecordRejected_def insertControlAudit_def
        dest: spec [where x = 0] split: prod.splits)
qed (simp_all add: storeCommander_def storeWorks_next)

section \<open>Properties\<close>

text \<open>
  C14. Every change the operator's interface makes is audited. Without the operator's token nothing changes; otherwise a
  response of success comes with exactly one new event, a success, and any other response with at most one new event, a
  rejection, and with all policy as it was. This holds for every request and whatever transactions the database rejects; the
  multiplexer itself is only assumed never to answer 200 (it answers unknown paths with redirects and errors).
\<close>
theorem control_changes_audited:
  assumes "hd_commander h = storeCommander ow" and "\<And>rq. rs_Status (hd_mux h rq) \<noteq> 200"
  shows "case authorize h rq (db, e) of
    (rs, (db', e')) \<Rightarrow>
      (\<not> authorizationMatches h (rq_Authorization rq) \<longrightarrow> db' = db \<and> rs_Status rs = 401) \<and>
      (dd_audit db' = dd_audit db \<and> db' = db \<and> rs_Status rs \<noteq> 200 \<or>
       (\<exists>a. dd_audit db' = dd_audit db @ [a] \<and> auditStorable a \<and>
          (au_Result a = ResultSuccess \<and> rs_Status rs = 200 \<or>
           au_Result a = ResultRejected \<and> rs_Status rs \<noteq> 200 \<and> db' = db\<lparr>dd_audit := dd_audit db @ [a]\<rparr>)))"
proof -
  obtain rs db' e' where out: "authorize h rq (db, e) = (rs, (db', e'))" by (metis prod.exhaust)
  have same_but: "d = d'" if "d\<lparr>dd_audit := []\<rparr> = d'\<lparr>dd_audit := []\<rparr>" "dd_audit d = dd_audit d'" for d d' :: discovery_db
    using that by (cases d; cases d') simp
  show ?thesis
  proof (cases "authorizationMatches h (rq_Authorization rq)")
    case False
    with out show ?thesis by (auto simp: authorize_def writeError_def writeJSON_def)
  next
    case True
    with out have "apiServe h rq (db, e) = (rs, (db', e'))" by (simp add: authorize_def)
    with control_store.apiServe_accounted [OF assms, where rq = rq and w = "(db, e)"]
    have "control_store.accounted (db, e) (rs, (db', e'))" by simp
    then consider
        (same) "db'\<lparr>dd_audit := []\<rparr> = db\<lparr>dd_audit := []\<rparr>" "dd_audit db' = dd_audit db" "rs_Status rs \<noteq> 200"
      | (ok) a where "dd_audit db' = dd_audit db @ [a]" "auditStorable a" "au_Result a = ResultSuccess" "rs_Status rs = 200"
      | (bad) a where "db'\<lparr>dd_audit := []\<rparr> = db\<lparr>dd_audit := []\<rparr>" "dd_audit db' = dd_audit db @ [a]" "auditStorable a"
          "au_Result a = ResultRejected" "rs_Status rs \<noteq> 200"
      unfolding control_store.accounted_def prod.case storeEvents_def storePolicy_def fst_conv by blast
    then show ?thesis
    proof cases
      case same
      have "db' = db" by (rule same_but [OF same(1,2)])
      with True out same(3) show ?thesis by simp
    next
      case ok
      have "\<exists>a. dd_audit db' = dd_audit db @ [a] \<and> auditStorable a \<and> au_Result a = ResultSuccess"
        by (intro exI conjI) (rule ok)+
      with True out ok(4) show ?thesis by (simp only: prod.case) blast
    next
      case bad
      have "db' = db\<lparr>dd_audit := dd_audit db @ [a]\<rparr>"
        by (rule same_but) (simp_all add: bad(1,2))
      with True out bad(3-5) show ?thesis by simp
    qed
  qed
qed

text \<open>The operator's service on an empty database, and a request that pauses discovery.\<close>

definition demoWorld :: "unit operator_world" where
  "demoWorld = \<lparr>ow_lib = domainLib, ow_lower = map to_lower,
     ow_handle = Some \<lparr>ch_pool = True, ch_automatic = automatic_config_zero\<rparr>, ow_dbErr = (\<lambda>_. None), ow_next = id\<rparr>"

definition demoToken :: string where "demoToken = ''abcdefghijklmnopqrstuvwxyz0123456789''"

definition demoRest :: "(discovery_db \<times> unit) handler" where
  "demoRest =
     \<lparr>hd_commander = storeCommander demoWorld, hd_hash = [], hd_now = (\<lambda>_. 5), hd_sha256 = id, hd_lower = map to_lower,
      hd_lib = domainLib, hd_splitHost = (\<lambda>_. Some ''127.0.0.1''), hd_metadata = (\<lambda>_. BodyInvalid),
      hd_domain = (\<lambda>_. BodyInvalid), hd_origin = (\<lambda>_. BodyInvalid), hd_mux = (\<lambda>_. writeError 404 ''not_found'')\<rparr>"

definition demoHandler :: "(discovery_db \<times> unit) handler" where
  "demoHandler = demoRest\<lparr>hd_hash := ''Bearer '' @ demoToken\<rparr>"

definition demoPause :: ctl_request where
  "demoPause = \<lparr>rq_ctx = Some None, rq_Method = ''POST'', rq_Path = ''/api/v1/control/processors/discovery/pause'',
     rq_Segments = [''api'', ''v1'', ''control'', ''processors'', ''discovery'', ''pause''], rq_Clean = True,
     rq_Authorization = ''Bearer '' @ demoToken, rq_RemoteAddr = ''127.0.0.1:9'', rq_MediaType = None, rq_ContentLength = 0,
     rq_Body = Body [] None\<rparr>"

lemma demo_storable: "storableText ''operator-api''" "storableText ''127.0.0.1''" "storableText ''discovery''"
    "storableText ''processor.pause''" "storableText []"
  by (rule storableText_ascii, simp add: byte_of_def)+

lemma demo_authorize: "rs_Status (fst (authorize demoHandler demoPause (exampleSeeds, ()))) = 200"
  by (simp add: demo_storable authorize_def authorizationMatches_def demoHandler_def demoRest_def demoPause_def apiServe_def processor_def
      Let_def newAudit_def bounded_def boundedTarget_def maxActionBytes_def maxTargetBytes_def maxCallerBytes_def
      decodeOptionalJSON_def applyMetadata_def control_mutate_def storeCommander_def onStore_def demoWorld_def
      SetProcessorPaused_def mutate_def control_validate_def insertControlAudit_def auditStorable_def DefaultActor_def
      ResultSuccess_def controlAuditMatches_def writeJSON_def)

theorem control_changes_audited_witness:
  "\<exists>a. dd_audit (fst (snd (authorize demoHandler demoPause (exampleSeeds, ())))) = dd_audit exampleSeeds @ [a] \<and>
       au_Result a = ResultSuccess"
proof -
  have c: "hd_commander demoHandler = storeCommander demoWorld" by (simp add: demoHandler_def demoRest_def)
  have m: "rs_Status (hd_mux demoHandler rq) \<noteq> 200" for rq
    by (simp add: demoHandler_def demoRest_def writeError_def writeJSON_def)
  from control_changes_audited [OF c m, where rq = demoPause and db = exampleSeeds and e = "()"] demo_authorize
  show ?thesis by (auto split: prod.splits)
qed

text \<open>
  C15. Requests to the operator's interface are accountable: when the database accepts every transaction, a request that carries the token the
  service was started with and is addressed to a clean path below \<^verbatim>\<open>/api/v1/control/\<close> appends exactly one event to the log, whether
  it is carried out or rejected, whatever its path, method and body, provided the caller's address is at most 256 bytes and
  every text of the request that its audit may carry (caller, path, segments, pattern, origin, actor, reason) is storable text of the
  database: valid UTF-8 without NUL. What happens otherwise is \<open>unstorable_path_unaudited\<close>.
\<close>
theorem control_requests_accountable:
  assumes "NewHandler (Some (storeCommander ow)) token rest = Inr h" and "rq_Authorization rq = ''Bearer '' @ token"
    and "take 3 (rq_Segments rq) = [''api'', ''v1'', ''control'']" and "length (rq_Segments rq) \<ge> 4" and "rq_Clean rq"
    and "length (callerOf h rq) \<le> 256" and "list_all storableText (requestTexts h rq)"
    and "storeWorks ow (rq_ctx rq) (db, e)"
  shows "\<exists>a. dd_audit (fst (snd (serve h rq (db, e)))) = dd_audit db @ [a]"
proof -
  have h: "hd_commander h = storeCommander ow" "authorizationMatches h (rq_Authorization rq)"
    using assms(1,2) by (auto simp: NewHandler_def authorizationMatches_def split: if_splits)
  obtain part more where seg: "rq_Segments rq = [''api'', ''v1'', ''control''] @ part # more"
    using assms(3,4) append_take_drop_id [of 3 "rq_Segments rq", symmetric]
    by (cases "drop 3 (rq_Segments rq)") (auto simp del: append_take_drop_id)
  note grew = working_store.handlers_grew [OF h(1) refl assms(8) assms(6,7)]
  have "working_store.grew (db, e) (apiServe h rq (db, e))"
  proof -
    have all: "working_store.grew (db, e) (addDomainAvoid h rq (db, e))"
        "working_store.grew (db, e) (invalidControlRequest h rq (db, e))"
      using grew(3,6) [of part part part] seg by simp_all
    consider "more = []" | operation where "more = [operation]" | name operation where "more = [name, operation]"
      | a b c rest' where "more = a # b # c # rest'"
      by (cases more rule: remdups_adj.cases) (auto, metis list.exhaust)
    then show ?thesis
    proof cases
      case (2 operation)
      with grew(2,4,5) [of operation operation operation] seg all show ?thesis by (simp add: apiServe_def)
    next
      case (3 name operation)
      with grew(1) [of name operation operation] seg all show ?thesis by (simp add: apiServe_def)
    qed (use seg all in \<open>simp_all add: apiServe_def\<close>)
  qed
  then obtain a where "storeEvents (snd (apiServe h rq (db, e))) = storeEvents (db, e) @ [a]"
    unfolding working_store.grew_def by blast
  then show ?thesis
    using h(2) seg assms(5) by (auto simp: serve_def withHeaders_def authorize_def storeEvents_def split: prod.splits)
qed

lemma demo_TrimSpace: "TrimSpace ''abcdefghijklmnopqrstuvwxyz0123456789'' = ''abcdefghijklmnopqrstuvwxyz0123456789''"
  by code_simp

lemma demo_NewHandler: "NewHandler (Some (storeCommander demoWorld)) demoToken demoRest = Inr demoHandler"
  by (simp add: NewHandler_def demoHandler_def demoRest_def token_Valid_def demoToken_def MinLength_def MaxLength_def
      demo_TrimSpace ContainsAny_def byte_of_def)

theorem control_requests_accountable_witness:
  "\<exists>a. dd_audit (fst (snd (serve demoHandler (demoPause\<lparr>rq_Method := ''PUT''\<rparr>) (exampleSeeds, ())))) =
       dd_audit exampleSeeds @ [a]"
proof (rule control_requests_accountable [OF demo_NewHandler])
  let ?segments = "[''api'', ''v1'', ''control'', ''processors'', ''discovery'', ''pause'']"
  have lower: "map (normalizeDomainPattern (map to_lower)) ?segments = ?segments" by code_simp
  have "list_all (list_all (\<lambda>c. 0 < byte_of c \<and> byte_of c < 128))
      (requestTexts demoHandler (demoPause\<lparr>rq_Method := ''PUT''\<rparr>))"
    using lower by (simp add: requestTexts_def callerOf_def demoPause_def demoHandler_def demoRest_def byte_of_def)
  then show "list_all storableText (requestTexts demoHandler (demoPause\<lparr>rq_Method := ''PUT''\<rparr>))"
    by (auto simp: list_all_iff intro!: storableText_ascii)
qed (simp_all add: demoPause_def callerOf_def demoHandler_def demoRest_def storeWorks_def demoWorld_def control_validate_def)

text \<open>
  A request whose path the database cannot store leaves no trace: an authorized request to a clean path below
  \<^verbatim>\<open>/api/v1/control/\<close> with a method other than POST and DELETE, whose unescaped path (cut to 2048 bytes) is not valid UTF-8
  or contains NUL, as \<^verbatim>\<open>PUT /api/v1/control/%00\<close>, appends no event and is answered 500 instead of 404 or 405, even when the database
  accepts every transaction.
\<close>
theorem unstorable_path_unaudited:
  assumes "NewHandler (Some (storeCommander ow)) token rest = Inr h" and "rq_Authorization rq = ''Bearer '' @ token"
    and "take 3 (rq_Segments rq) = [''api'', ''v1'', ''control'']" and "length (rq_Segments rq) \<ge> 4" and "rq_Clean rq"
    and "rq_Method rq \<noteq> ''POST''" and "rq_Method rq \<noteq> ''DELETE''"
    and "\<not> storableText (boundedTarget (rq_Path rq))"
  shows "fst (snd (serve h rq (db, e))) = db \<and> rs_Status (fst (serve h rq (db, e))) = 500"
proof -
  have h: "hd_commander h = storeCommander ow" "authorizationMatches h (rq_Authorization rq)"
    using assms(1,2) by (auto simp: NewHandler_def authorizationMatches_def split: if_splits)
  obtain part more where seg: "rq_Segments rq = [''api'', ''v1'', ''control''] @ part # more"
    using assms(3,4) append_take_drop_id [of 3 "rq_Segments rq", symmetric]
    by (cases "drop 3 (rq_Segments rq)") (auto simp del: append_take_drop_id)
  have api: "apiServe h rq (db, e) = invalidControlRequest h rq (db, e)"
    unfolding apiServe_def seg using assms(6,7) by (auto split: list.splits)
  have twice: "boundedTarget (boundedTarget (rq_Path rq)) = boundedTarget (rq_Path rq)"
    using bounded_length [of "rq_Path rq" maxTargetBytes] by (simp add: boundedTarget_def bounded_def)
  have "\<not> auditStorable ((newAudit h rq action (boundedTarget (rq_Path rq)) w)\<lparr>au_Result := r\<rparr>)" for action w r
    using assms(8) by (simp add: auditStorable_def newAudit_def Let_def twice)
  then have out: "\<exists>e'. apiServe h rq (db, e) = (writeError 500 ''internal_error'', (db, e'))"
    unfolding api by (auto simp: invalidControlRequest_def Let_def reject_def h(1) storeCommander_def onStore_def
        RecordRejected_def insertControlAudit_def split: option.splits prod.splits)
  then show ?thesis
    using h(2) seg assms(5)
    by (auto simp: serve_def withHeaders_def authorize_def writeError_def writeJSON_def split: prod.splits)
qed

theorem unstorable_path_unaudited_witness:
  "rs_Status (fst (serve demoHandler (demoPause\<lparr>rq_Method := ''PUT'', rq_Path := ''/api/v1/control/'' @ [CHR 0x00],
     rq_Segments := [''api'', ''v1'', ''control'', [CHR 0x00]]\<rparr>) (exampleSeeds, ()))) = 500"
proof -
  let ?rq = "demoPause\<lparr>rq_Method := ''PUT'', rq_Path := ''/api/v1/control/'' @ [CHR 0x00],
     rq_Segments := [''api'', ''v1'', ''control'', [CHR 0x00]]\<rparr>"
  have "\<not> storableText (boundedTarget (rq_Path ?rq))"
    by (simp add: storableText_def boundedTarget_def bounded_def maxTargetBytes_def)
  from unstorable_path_unaudited [OF demo_NewHandler _ _ _ _ _ _ this, where db = exampleSeeds and e = "()"]
  show ?thesis by (simp add: demoPause_def)
qed

end
