(* ===== verification/Files.thy ===== *)
theory Files
  imports Prelude "HOL-Library.AList" "HOL-Library.Sublist"
begin

text \<open>
  Path names and the file system the program writes its snapshots to: \<^verbatim>\<open>path.Clean\<close> and its relatives on strings,
  and the calls of package \<^verbatim>\<open>os\<close> on a tree of nodes. A tree is an association list from the segments of an
  absolute path to its node; names are taken with the symbolic links of their directories resolved. Modes and
  times are left out. A call may fail by a fault of the machine, which leaves part of its work done.
\<close>

section \<open>Path names\<close>

definition cleanStep :: "bool \<Rightarrow> string list \<Rightarrow> string \<Rightarrow> string list" where
  "cleanStep rooted acc seg =
     (if seg = [] \<or> seg = ''.'' then acc
      else if seg = ''..''
      then (case acc of
              a # rest \<Rightarrow> if a \<noteq> ''..'' then rest else if rooted then acc else seg # acc
            | [] \<Rightarrow> if rooted then [] else [seg])
      else seg # acc)"

definition isAbs :: "string \<Rightarrow> bool" where "isAbs p = HasPrefix p ''/''"

fun joinSlash :: "string list \<Rightarrow> string" where
  "joinSlash [] = []"
| "joinSlash [s] = s"
| "joinSlash (s # t # segs) = s @ CHR ''/'' # joinSlash (t # segs)"

definition Clean :: "string \<Rightarrow> string" where
  "Clean p =
     (let segs = rev (foldl (cleanStep (isAbs p)) [] (Split p (CHR ''/'')))
      in if isAbs p then CHR ''/'' # joinSlash segs else if segs = [] then ''.'' else joinSlash segs)"

definition path_Join :: "string \<Rightarrow> string \<Rightarrow> string" where
  "path_Join a b = (if a = [] then (if b = [] then [] else Clean b) else Clean (a @ CHR ''/'' # b))"

text \<open>Up to and including the last slash, and what follows it.\<close>

definition path_Dir :: "string \<Rightarrow> string" where
  "path_Dir p = Clean (rev (dropWhile (\<lambda>c. c \<noteq> CHR ''/'') (rev p)))"

definition path_Base :: "string \<Rightarrow> string" where
  "path_Base p =
     (if p = [] then ''.''
      else (let q = TrimRight p ''/'' in if q = [] then ''/'' else rev (takeWhile (\<lambda>c. c \<noteq> CHR ''/'') (rev q))))"

section \<open>Trees\<close>

datatype node = Directory | Regular string | Irregular (symlink: bool)

type_synonym path_key = "string list"
type_synonym tree = "(path_key \<times> node) list"

text \<open>The key of a path name for a process in the directory \<open>cwd\<close>.\<close>

definition keyOf :: "path_key \<Rightarrow> string \<Rightarrow> path_key" where
  "keyOf cwd p = rev (foldl (cleanStep True) (if isAbs p then [] else rev cwd) (Split p (CHR ''/'')))"

definition errNotExist :: go_error where "errNotExist = Sentinel ''file does not exist''"
definition errExist :: go_error where "errExist = Sentinel ''file already exists''"
definition errNotDir :: go_error where "errNotDir = Sentinel ''not a directory''"
definition errIsDir :: go_error where "errIsDir = Sentinel ''is a directory''"

definition statTree :: "path_key \<Rightarrow> tree \<Rightarrow> go_error + node" where
  "statTree k t =
     (case map_of t k of
        Some n \<Rightarrow> Inr n
      | None \<Rightarrow> if list_ex (\<lambda>p. map_of t p \<noteq> None \<and> map_of t p \<noteq> Some Directory) (prefixes k) then Inl errNotDir
                else Inl errNotExist)"

fun mkdirs :: "path_key list \<Rightarrow> tree \<Rightarrow> go_error option \<times> tree" where
  "mkdirs [] t = (None, t)"
| "mkdirs (k # ks) t =
     (case map_of t k of
        None \<Rightarrow> mkdirs ks (AList.update k Directory t)
      | Some n \<Rightarrow> if n = Directory then mkdirs ks t else (Some errNotDir, t))"

text \<open>Writing through a link or to a device changes nothing here.\<close>

definition writeTree :: "path_key \<Rightarrow> string \<Rightarrow> tree \<Rightarrow> go_error option \<times> tree" where
  "writeTree k data t =
     (if k = [] then (Some errIsDir, t)
      else (case statTree (butlast k) t of
              Inl err \<Rightarrow> (Some err, t)
            | Inr parent \<Rightarrow>
                if parent \<noteq> Directory then (Some errNotDir, t)
                else (case map_of t k of
                        Some Directory \<Rightarrow> (Some errIsDir, t)
                      | Some (Irregular _) \<Rightarrow> (None, t)
                      | _ \<Rightarrow> (None, AList.update k (Regular data) t))))"

definition removeTree :: "path_key \<Rightarrow> tree \<Rightarrow> tree" where
  "removeTree k t = filter (\<lambda>(q, _). \<not> prefix k q) t"

definition moveKey :: "path_key \<Rightarrow> path_key \<Rightarrow> path_key \<Rightarrow> path_key" where
  "moveKey old new k = (if prefix old k then new @ drop (length old) k else k)"

text \<open>
  \<^verbatim>\<open>os.Rename\<close>: an existing directory is never replaced, a directory replaces nothing, and a file replaces
  what is not a directory.
\<close>

definition renameTree :: "path_key \<Rightarrow> path_key \<Rightarrow> tree \<Rightarrow> go_error option \<times> tree" where
  "renameTree old new t =
     (case statTree old t of
        Inl err \<Rightarrow> (Some err, t)
      | Inr n \<Rightarrow>
          if new = [] \<or> map_of t new = Some Directory then (Some errExist, t)
          else if prefix old new then (if old = new then (None, t) else (Some (Sentinel ''invalid argument''), t))
          else (case statTree (butlast new) t of
                  Inl err \<Rightarrow> (Some err, t)
                | Inr parent \<Rightarrow>
                    if parent \<noteq> Directory \<or> n = Directory \<and> map_of t new \<noteq> None then (Some errNotDir, t)
                    else (None, map (\<lambda>(k, v). (moveKey old new k, v)) (removeTree new t))))"

text \<open>The names of a directory in lexical order.\<close>

definition namesIn :: "path_key \<Rightarrow> tree \<Rightarrow> string list" where
  "namesIn k t = sort (remdups (map (last \<circ> fst) (filter (\<lambda>(q, _). q \<noteq> [] \<and> butlast q = k) t)))"

section \<open>The calls of a process\<close>

text \<open>
  The machine of a process: its working directory, the faults of its calls and the random names it draws, in a
  state of the environment. A fault carries its error, how much of the work was done and what a removal kept.
  The trees the disk went through are noted beside it.
\<close>

record machine_fault =
  mf_err :: go_error
  mf_done :: nat
  mf_kept :: "path_key \<Rightarrow> bool"

record 'e machine =
  mc_cwd :: path_key
  mc_fault :: "'e \<Rightarrow> machine_fault option"
  mc_random :: "'e \<Rightarrow> string"
  mc_tick :: "'e \<Rightarrow> 'e"

type_synonym 'e disk = "(tree \<times> 'e) \<times> tree list"

text \<open>One call: \<open>good\<close> is its result and tree, \<open>bad\<close> its tree after a fault.\<close>

definition diskCall ::
    "'e machine \<Rightarrow> (tree \<Rightarrow> 'r \<times> tree) \<Rightarrow> (go_error \<Rightarrow> 'r) \<Rightarrow> (machine_fault \<Rightarrow> tree \<Rightarrow> tree) \<Rightarrow> 'e disk \<Rightarrow> 'r \<times> 'e disk" where
  "diskCall mc good failed bad x =
     (case x of ((t, e), past) \<Rightarrow>
        (case mc_fault mc e of
           Some f \<Rightarrow> (failed (mf_err f), ((bad f t, mc_tick mc e), past @ [bad f t]))
         | None \<Rightarrow> (case good t of (r, t) \<Rightarrow> (r, ((t, mc_tick mc e), past @ [t])))))"

definition os_Lstat :: "'e machine \<Rightarrow> string \<Rightarrow> 'e disk \<Rightarrow> (go_error + node) \<times> 'e disk" where
  "os_Lstat mc p = diskCall mc (\<lambda>t. (statTree (keyOf (mc_cwd mc) p) t, t)) Inl (\<lambda>_ t. t)"

definition os_MkdirTemp :: "'e machine \<Rightarrow> string \<Rightarrow> string \<Rightarrow> 'e disk \<Rightarrow> (go_error + string) \<times> 'e disk" where
  "os_MkdirTemp mc dir pattern x =
     (let name = dir @ (if HasSuffix dir ''/'' then [] else ''/'') @ pattern @ mc_random mc (snd (fst x));
          k = keyOf (mc_cwd mc) name
      in diskCall mc
           (\<lambda>t. case statTree (butlast k) t of
                  Inl err \<Rightarrow> (Inl err, t)
                | Inr parent \<Rightarrow>
                    if parent \<noteq> Directory then (Inl errNotDir, t)
                    else if map_of t k \<noteq> None then (Inl errExist, t)
                    else (Inr name, AList.update k Directory t))
           Inl (\<lambda>_ t. t) x)"

definition os_Chmod :: "'e machine \<Rightarrow> string \<Rightarrow> nat \<Rightarrow> 'e disk \<Rightarrow> go_error option \<times> 'e disk" where
  "os_Chmod mc p mode =
     diskCall mc (\<lambda>t. (case statTree (keyOf (mc_cwd mc) p) t of Inl err \<Rightarrow> Some err | Inr _ \<Rightarrow> None, t)) Some (\<lambda>_ t. t)"

definition os_MkdirAll :: "'e machine \<Rightarrow> string \<Rightarrow> nat \<Rightarrow> 'e disk \<Rightarrow> go_error option \<times> 'e disk" where
  "os_MkdirAll mc p mode =
     (let ks = prefixes (keyOf (mc_cwd mc) p)
      in diskCall mc (mkdirs ks) Some (\<lambda>f t. snd (mkdirs (take (mf_done f) ks) t)))"

definition os_WriteFile :: "'e machine \<Rightarrow> string \<Rightarrow> string \<Rightarrow> nat \<Rightarrow> 'e disk \<Rightarrow> go_error option \<times> 'e disk" where
  "os_WriteFile mc p data mode =
     (let k = keyOf (mc_cwd mc) p
      in diskCall mc (writeTree k data) Some
           (\<lambda>f t. if mf_done f = 0 then t else snd (writeTree k (take (mf_done f - 1) data) t)))"

definition os_Rename :: "'e machine \<Rightarrow> string \<Rightarrow> string \<Rightarrow> 'e disk \<Rightarrow> go_error option \<times> 'e disk" where
  "os_Rename mc old new =
     diskCall mc (renameTree (keyOf (mc_cwd mc) old) (keyOf (mc_cwd mc) new)) Some (\<lambda>_ t. t)"

text \<open>A removal that fails keeps whatever it keeps below the name, but no node without its directory.\<close>

definition os_RemoveAll :: "'e machine \<Rightarrow> string \<Rightarrow> 'e disk \<Rightarrow> go_error option \<times> 'e disk" where
  "os_RemoveAll mc p =
     (let k = keyOf (mc_cwd mc) p
      in diskCall mc (\<lambda>t. (None, removeTree k t)) Some
           (\<lambda>f t. filter (\<lambda>(q, _). prefix k q \<longrightarrow> list_all (mf_kept f) (filter (prefix k) (prefixes q))) t))"

definition os_ReadFile :: "'e machine \<Rightarrow> string \<Rightarrow> 'e disk \<Rightarrow> (go_error + string) \<times> 'e disk" where
  "os_ReadFile mc p =
     diskCall mc
       (\<lambda>t. (case statTree (keyOf (mc_cwd mc) p) t of
               Inl err \<Rightarrow> Inl err
             | Inr (Regular data) \<Rightarrow> Inr data
             | Inr Directory \<Rightarrow> Inl errIsDir
             | Inr (Irregular _) \<Rightarrow> Inl (Sentinel ''irregular file''), t))
       Inl (\<lambda>_ t. t)"

definition os_ReadDir :: "'e machine \<Rightarrow> string \<Rightarrow> 'e disk \<Rightarrow> (go_error + (string \<times> node) list) \<times> 'e disk" where
  "os_ReadDir mc p =
     diskCall mc
       (\<lambda>t. let k = keyOf (mc_cwd mc) p
            in (case statTree k t of
                  Inl err \<Rightarrow> Inl err
                | Inr n \<Rightarrow> if n \<noteq> Directory then Inl errNotDir
                           else Inr (map (\<lambda>name. (name, the (map_of t (k @ [name])))) (namesIn k t)), t))
       Inl (\<lambda>_ t. t)"

section \<open>Facts on path names\<close>

definition plainSeg :: "string \<Rightarrow> bool" where
  "plainSeg s \<longleftrightarrow> s \<noteq> [] \<and> s \<noteq> ''.'' \<and> s \<noteq> ''..'' \<and> CHR ''/'' \<notin> set s"

abbreviation splitPath :: "string \<Rightarrow> string list" where "splitPath p \<equiv> Split p (CHR ''/'')"

lemma Split_append: "Split (a @ sep # b) sep = Split a sep @ Split b sep"
proof (induction a)
  case (Cons c a)
  then show ?case by (cases "Split a sep") (auto split: list.splits)
qed simp

lemma Split_single: "sep \<notin> set s \<Longrightarrow> Split s sep = [s]"
  by (induction s) auto

lemma joinSlash_Cons: "segs \<noteq> [] \<Longrightarrow> joinSlash (s # segs) = s @ CHR ''/'' # joinSlash segs"
  by (cases segs) auto

lemma splitPath_join: "segs \<noteq> [] \<Longrightarrow> list_all (\<lambda>s. CHR ''/'' \<notin> set s) segs \<Longrightarrow> splitPath (joinSlash segs) = segs"
proof (induction segs)
  case (Cons s segs)
  then show ?case by (cases "segs = []") (auto simp: Split_single joinSlash_Cons Split_append)
qed simp

lemma joinSlash_split: "joinSlash (splitPath p) = p"
proof (induction p)
  case (Cons c p)
  obtain w ws where w: "splitPath p = w # ws" by (cases "splitPath p") auto
  then have "joinSlash ((c # w) # ws) = c # joinSlash (w # ws)" by (cases ws) auto
  with Cons w show ?case by (cases "c = CHR ''/''") (auto simp: joinSlash_Cons)
qed simp

lemma splitPath_inject: "splitPath p = splitPath q \<Longrightarrow> p = q"
  by (metis joinSlash_split)

lemma foldl_plain: "list_all plainSeg segs \<Longrightarrow> foldl (cleanStep b) acc segs = rev segs @ acc"
  by (induction segs arbitrary: acc) (auto simp: cleanStep_def plainSeg_def)

lemma foldl_clean_mem:
  "x \<in> set (foldl (cleanStep b) acc segs) \<Longrightarrow> x \<in> set acc \<or> x \<in> set segs \<and> x \<noteq> [] \<and> x \<noteq> ''.''"
proof (induction segs arbitrary: acc)
  case (Cons s segs)
  have "set (cleanStep b acc s) \<subseteq> set acc \<union> ({s} - {[], ''.''})"
    by (cases acc) (auto simp: cleanStep_def)
  with Cons.IH [of "cleanStep b acc s"] Cons.prems show ?case by auto
qed simp

lemma foldl_clean_rooted: "''..'' \<notin> set acc \<Longrightarrow> ''..'' \<notin> set (foldl (cleanStep True) acc segs)"
proof (induction segs arbitrary: acc)
  case (Cons s segs)
  have "''..'' \<notin> set (cleanStep True acc s)" using Cons.prems by (cases acc) (auto simp: cleanStep_def)
  with Cons.IH show ?case by simp
qed simp

text \<open>Cleaning a relative name first changes nothing.\<close>

lemma foldl_clean_again:
  assumes "list_all (\<lambda>s. s \<noteq> [] \<and> s \<noteq> ''.'') acc"
  shows "foldl (cleanStep True) b (rev (foldl (cleanStep False) acc xs)) = foldl (cleanStep True) b (rev acc @ xs)"
  using assms
proof (induction xs arbitrary: acc)
  case (Cons x xs)
  have ok: "list_all (\<lambda>s. s \<noteq> [] \<and> s \<noteq> ''.'') (cleanStep False acc x)"
    using Cons.prems by (cases acc) (auto simp: cleanStep_def)
  have "foldl (cleanStep True) b (rev (cleanStep False acc x)) = foldl (cleanStep True) b (rev acc @ [x])"
    using Cons.prems by (cases acc) (auto simp: cleanStep_def)
  with Cons.IH [OF ok] show ?case by simp
qed simp

lemma Clean_form:
  obtains segs where "Clean p = (if isAbs p then CHR ''/'' # joinSlash segs else if segs = [] then ''.'' else joinSlash segs)"
    "segs = rev (foldl (cleanStep (isAbs p)) [] (splitPath p))" "list_all (\<lambda>s. s \<noteq> [] \<and> s \<noteq> ''.'' \<and> CHR ''/'' \<notin> set s) segs"
proof -
  let ?segs = "rev (foldl (cleanStep (isAbs p)) [] (splitPath p))"
  have "list_all (\<lambda>s. s \<noteq> [] \<and> s \<noteq> ''.'' \<and> CHR ''/'' \<notin> set s) ?segs"
    using foldl_clean_mem [of _ "isAbs p" "[]" "splitPath p"] Split_no_sep [of _ p "CHR ''/''"] by (fastforce simp: list_all_iff)
  moreover have "Clean p = (if isAbs p then CHR ''/'' # joinSlash ?segs else if ?segs = [] then ''.'' else joinSlash ?segs)"
    by (simp add: Clean_def Let_def)
  ultimately show thesis using that [of ?segs] by blast
qed

lemma joinSlash_first: "segs \<noteq> [] \<Longrightarrow> hd segs \<noteq> [] \<Longrightarrow> joinSlash segs \<noteq> [] \<and> hd (joinSlash segs) = hd (hd segs)"
  by (cases segs rule: joinSlash.cases) auto

lemma isAbs_iff: "isAbs p \<longleftrightarrow> p \<noteq> [] \<and> hd p = CHR ''/''"
  by (cases p) (auto simp: isAbs_def HasPrefix_def)

lemma isAbs_Clean: "isAbs (Clean p) = isAbs p"
proof -
  obtain segs where c: "Clean p = (if isAbs p then CHR ''/'' # joinSlash segs else if segs = [] then ''.'' else joinSlash segs)"
      and s: "list_all (\<lambda>s. s \<noteq> [] \<and> s \<noteq> ''.'' \<and> CHR ''/'' \<notin> set s) segs" by (rule Clean_form)
  have "hd (joinSlash segs) \<noteq> CHR ''/''" if "segs \<noteq> []"
  proof -
    have "hd segs \<noteq> []" "CHR ''/'' \<notin> set (hd segs)" using s that by (auto simp: list_all_iff)
    then show ?thesis using joinSlash_first [OF that] by (metis hd_in_set)
  qed
  with c show ?thesis by (auto simp: isAbs_iff)
qed

lemma keyOf_Clean: "keyOf cwd (Clean p) = keyOf cwd p"
proof -
  obtain segs where c: "Clean p = (if isAbs p then CHR ''/'' # joinSlash segs else if segs = [] then ''.'' else joinSlash segs)"
      "segs = rev (foldl (cleanStep (isAbs p)) [] (splitPath p))"
      and s: "list_all (\<lambda>s. s \<noteq> [] \<and> s \<noteq> ''.'' \<and> CHR ''/'' \<notin> set s) segs" by (rule Clean_form)
  have split: "splitPath (joinSlash segs) = segs" if "segs \<noteq> []"
    using s that by (intro splitPath_join) (auto simp: list_all_iff)
  show ?thesis
  proof (cases "isAbs p")
    case True
    have plain: "list_all plainSeg segs"
      using s foldl_clean_rooted [of "[]" "splitPath p"] c(2) True by (auto simp: list_all_iff plainSeg_def)
    have "foldl (cleanStep True) [] (splitPath (CHR ''/'' # joinSlash segs)) = rev segs"
      using split foldl_plain [OF plain, of True "[]"] by (cases "segs = []") (auto simp: cleanStep_def)
    moreover have "isAbs (CHR ''/'' # joinSlash segs)" by (simp add: isAbs_iff)
    ultimately show ?thesis using True c by (simp add: keyOf_def)
  next
    case False
    have "foldl (cleanStep True) (rev cwd) (splitPath (Clean p)) = foldl (cleanStep True) (rev cwd) segs"
      using split False c(1) by (cases "segs = []") (auto simp: cleanStep_def)
    with foldl_clean_again [of "[]" "rev cwd" "splitPath p"] False c(2) isAbs_Clean [of p] show ?thesis by (simp add: keyOf_def)
  qed
qed

lemma isAbs_append: "a \<noteq> [] \<Longrightarrow> isAbs (a @ b) = isAbs a"
  by (simp add: isAbs_iff)

lemma keyOf_append: "a \<noteq> [] \<Longrightarrow> list_all plainSeg (splitPath b) \<Longrightarrow> keyOf cwd (a @ CHR ''/'' # b) = keyOf cwd a @ splitPath b"
  by (simp add: keyOf_def Split_append isAbs_append foldl_plain)

lemma keyOf_Join: "a \<noteq> [] \<Longrightarrow> list_all plainSeg (splitPath b) \<Longrightarrow> keyOf cwd (path_Join a b) = keyOf cwd a @ splitPath b"
  by (simp add: path_Join_def keyOf_Clean keyOf_append)

text \<open>A name below a directory name, with or without a slash at its end.\<close>

lemma keyOf_child:
  assumes "a \<noteq> []" and "plainSeg s"
  shows "keyOf cwd (a @ (if HasSuffix a ''/'' then [] else ''/'') @ s) = keyOf cwd a @ [s]"
proof (cases "HasSuffix a ''/''")
  case True
  define b where "b = TrimSuffix a ''/''"
  have a: "a = b @ [CHR ''/'']" using HasSuffix_D [OF True] by (simp add: b_def)
  have "isAbs (a @ s) = isAbs a" using assms(1) by (rule isAbs_append)
  moreover have "splitPath (a @ s) = splitPath b @ [s]" "splitPath a = splitPath b @ [[]]"
    using assms(2) by (simp_all add: a Split_append Split_single plainSeg_def)
  ultimately show ?thesis using True assms(2) by (simp add: keyOf_def cleanStep_def plainSeg_def)
next
  case False
  with assms show ?thesis using keyOf_append [of a s cwd] by (simp add: Split_single plainSeg_def)
qed

lemma upToSlash:
  "rev (dropWhile (\<lambda>c. c \<noteq> CHR ''/'') (rev p)) = (if CHR ''/'' \<in> set p then joinSlash (butlast (splitPath p)) @ ''/'' else []) \<and>
   rev (takeWhile (\<lambda>c. c \<noteq> CHR ''/'') (rev p)) = last (splitPath p)"
proof (cases "CHR ''/'' \<in> set p")
  case True
  then obtain a b where p: "p = a @ CHR ''/'' # b" "CHR ''/'' \<notin> set b" by (meson split_list_last)
  then have "splitPath p = splitPath a @ [b]" by (simp add: Split_append Split_single)
  moreover have "dropWhile (\<lambda>c. c \<noteq> CHR ''/'') (rev p) = CHR ''/'' # rev a" "takeWhile (\<lambda>c. c \<noteq> CHR ''/'') (rev p) = rev b"
  proof -
    have "\<forall>x\<in>set (rev b). x \<noteq> CHR ''/''" using p(2) by auto
    then show "dropWhile (\<lambda>c. c \<noteq> CHR ''/'') (rev p) = CHR ''/'' # rev a" "takeWhile (\<lambda>c. c \<noteq> CHR ''/'') (rev p) = rev b"
      using p(1) by (simp_all add: dropWhile_append takeWhile_append)
  qed
  ultimately show ?thesis using True by (simp add: joinSlash_split)
next
  case False
  then have "\<forall>x\<in>set (rev p). x \<noteq> CHR ''/''" by auto
  then have "takeWhile (\<lambda>c. c \<noteq> CHR ''/'') (rev p) = rev p" "dropWhile (\<lambda>c. c \<noteq> CHR ''/'') (rev p) = []"
    unfolding takeWhile_eq_all_conv dropWhile_eq_Nil_conv by blast+
  then show ?thesis using False by (simp only: Split_single rev_rev_ident last.simps if_False rev.simps if_True simp_thms)
qed

lemma keyOf_last:
  assumes "plainSeg (last (splitPath p))"
  shows "keyOf cwd p = rev (foldl (cleanStep True) (if isAbs p then [] else rev cwd) (butlast (splitPath p))) @ [last (splitPath p)]"
proof -
  have s: "splitPath p = butlast (splitPath p) @ [last (splitPath p)]" by simp
  show ?thesis unfolding keyOf_def by (subst s, subst foldl_append) (use assms foldl_plain [of "[last (splitPath p)]" True] in simp)
qed

lemma keyOf_Dir:
  assumes "plainSeg (last (splitPath p))"
  shows "keyOf cwd (path_Dir p) = butlast (keyOf cwd p)"
proof -
  let ?q = "rev (dropWhile (\<lambda>c. c \<noteq> CHR ''/'') (rev p))"
  have "keyOf cwd ?q = rev (foldl (cleanStep True) (if isAbs p then [] else rev cwd) (butlast (splitPath p)))"
  proof (cases "CHR ''/'' \<in> set p")
    case True
    let ?a = "joinSlash (butlast (splitPath p))"
    from True have q: "?q = ?a @ CHR ''/'' # []" using upToSlash [of p] by simp
    obtain a b where p: "p = a @ CHR ''/'' # b" "CHR ''/'' \<notin> set b" using True by (meson split_list_last)
    then have s: "splitPath p = splitPath a @ [b]" by (simp add: Split_append Split_single)
    have "isAbs (a @ ''/'') = isAbs p" using p by (cases a) (auto simp: isAbs_iff)
    with q s show ?thesis by (simp add: keyOf_def Split_append joinSlash_split cleanStep_def)
  next
    case False
    then have "\<not> isAbs p" by (cases p) (auto simp: isAbs_iff)
    moreover have "?q = []" "splitPath p = [p]" using False upToSlash [of p] by (simp_all add: Split_single)
    moreover have "\<not> isAbs []" by (simp add: isAbs_iff)
    ultimately show ?thesis unfolding keyOf_def by (simp only: Split.simps foldl.simps butlast.simps if_False) (simp add: cleanStep_def)
  qed
  with keyOf_last [OF assms] show ?thesis by (simp add: path_Dir_def keyOf_Clean)
qed

lemma last_Join:
  assumes "a \<noteq> []" and "list_all plainSeg (splitPath b)"
  shows "last (splitPath (path_Join a b)) = last (splitPath b)"
proof -
  let ?p = "a @ CHR ''/'' # b"
  obtain segs where c: "Clean ?p = (if isAbs ?p then CHR ''/'' # joinSlash segs else if segs = [] then ''.'' else joinSlash segs)"
      "segs = rev (foldl (cleanStep (isAbs ?p)) [] (splitPath ?p))"
      and s: "list_all (\<lambda>s. s \<noteq> [] \<and> s \<noteq> ''.'' \<and> CHR ''/'' \<notin> set s) segs" by (rule Clean_form)
  have segs: "segs = rev (foldl (cleanStep (isAbs ?p)) [] (splitPath a)) @ splitPath b"
    unfolding c(2) Split_append foldl_append foldl_plain [OF assms(2)] by simp
  then have "segs \<noteq> []" "last segs = last (splitPath b)" by simp_all
  moreover have "splitPath (joinSlash segs) = segs" using s \<open>segs \<noteq> []\<close> by (intro splitPath_join) (auto simp: list_all_iff)
  ultimately show ?thesis using c(1) assms(1) by (simp add: path_Join_def)
qed

lemma keyOf_Join_Dir:
  assumes "a \<noteq> []" and "list_all plainSeg (splitPath b)"
  shows "keyOf cwd (path_Dir (path_Join a b)) = keyOf cwd a @ butlast (splitPath b)"
proof -
  have "plainSeg (last (splitPath (path_Join a b)))" unfolding last_Join [OF assms] using assms(2) by (simp add: list_all_iff)
  from keyOf_Dir [OF this] show ?thesis by (simp add: keyOf_Join [OF assms] butlast_append)
qed

lemma keyOf_plain: "list_all plainSeg cwd \<Longrightarrow> list_all plainSeg (keyOf cwd p)"
proof -
  assume cwd: "list_all plainSeg cwd"
  let ?acc = "if isAbs p then [] else rev cwd"
  have acc: "list_all plainSeg ?acc" using cwd by simp
  then have "''..'' \<notin> set ?acc" unfolding list_all_iff plainSeg_def by blast
  from foldl_clean_rooted [OF this] have "''..'' \<notin> set (foldl (cleanStep True) ?acc (splitPath p))" .
  moreover have "plainSeg x \<or> CHR ''/'' \<notin> set x \<and> x \<noteq> [] \<and> x \<noteq> ''.''" if "x \<in> set (foldl (cleanStep True) ?acc (splitPath p))" for x
    using foldl_clean_mem [OF that] acc Split_no_sep [of x p "CHR ''/''"] unfolding list_all_iff by blast
  ultimately show ?thesis unfolding keyOf_def list_all_iff plainSeg_def set_rev by blast
qed

section \<open>Facts on trees\<close>

text \<open>Every node has its directory.\<close>

definition wfTree :: "tree \<Rightarrow> bool" where
  "wfTree t \<longleftrightarrow> map_of t [] = Some Directory \<and> (\<forall>k. k \<noteq> [] \<and> map_of t k \<noteq> None \<longrightarrow> map_of t (butlast k) = Some Directory)"

lemma wfTree_prefix:
  assumes "wfTree t" and "map_of t q \<noteq> None" and "strict_prefix k q"
  shows "map_of t k = Some Directory"
  using assms(2,3)
proof (induction q rule: rev_induct)
  case (snoc x q)
  from assms(1) snoc.prems(1) have q: "map_of t q = Some Directory" unfolding wfTree_def by (metis append_is_Nil_conv butlast_snoc not_Cons_self2)
  from snoc.prems(2) have "k = q \<or> strict_prefix k q" by (auto simp: strict_prefix_def)
  with snoc.IH q show ?case by auto
qed simp

lemma absent_below: "wfTree t \<Longrightarrow> map_of t k = None \<Longrightarrow> prefix k q \<Longrightarrow> map_of t q = None"
  by (metis option.distinct(1) prefix_order.le_neq_trans wfTree_prefix)

lemma map_of_removeTree: "map_of (removeTree k t) q = (if prefix k q then None else map_of t q)"
  by (induction t) (auto simp: removeTree_def)

lemma map_of_filter_keys: "map_of (filter (\<lambda>(q, _). P q) t) q = (if P q then map_of t q else None)"
  by (induction t) auto

lemma mkdirs_keeps: "mkdirs ks t = (r, t') \<Longrightarrow> map_of t q \<noteq> None \<or> q \<notin> set ks \<Longrightarrow> map_of t' q = map_of t q"
proof (induction ks arbitrary: t)
  case (Cons k ks)
  from Cons.IH [of "AList.update k Directory t"] Cons.IH [of t] Cons.prems show ?case
    by (auto simp: update_conv' split: option.splits if_splits)
qed simp

lemma mkdirs_makes: "mkdirs ks t = (r, t') \<Longrightarrow> map_of t' q = map_of t q \<or> map_of t' q = Some Directory"
proof (induction ks arbitrary: t)
  case (Cons k ks)
  from Cons.IH [of "AList.update k Directory t"] Cons.IH [of t] Cons.prems show ?case
    by (auto simp: update_conv' split: option.splits if_splits)
qed simp

lemma mkdirs_made:
  "mkdirs ks t = (None, t') \<Longrightarrow> q \<in> set ks \<Longrightarrow> map_of t' q = Some Directory \<and> (map_of t q = None \<or> map_of t q = Some Directory)"
proof (induction ks arbitrary: t)
  case (Cons k ks)
  show ?case
  proof (cases "map_of t k")
    case None
    with Cons.prems have m: "mkdirs ks (AList.update k Directory t) = (None, t')" by simp
    show ?thesis
    proof (cases "q = k")
      case True
      with mkdirs_keeps [OF m, of k] None show ?thesis by (simp add: update_conv')
    next
      case False
      with Cons.IH [OF m] Cons.prems show ?thesis by (simp add: update_conv')
    qed
  next
    case (Some n)
    with Cons.prems have m: "mkdirs ks t = (None, t')" "n = Directory" by (auto split: if_splits)
    show ?thesis
    proof (cases "q = k")
      case True
      with mkdirs_keeps [OF m(1), of k] Some m(2) show ?thesis by simp
    next
      case False
      with Cons.IH [OF m(1)] Cons.prems show ?thesis by simp
    qed
  qed
qed simp

lemma wfTree_update:
  assumes "wfTree t" and "k \<noteq> []" and "map_of t (butlast k) = Some Directory" and "map_of t k \<noteq> Some Directory \<or> n = Directory"
  shows "wfTree (AList.update k n t)"
proof -
  have "butlast q \<noteq> k" if "q \<noteq> []" "map_of t q \<noteq> None" "n \<noteq> Directory" for q
    using assms(1,4) that unfolding wfTree_def by metis
  moreover have "butlast k \<noteq> k" using assms(2) by (metis append_butlast_last_id append_self_conv not_Cons_self2)
  ultimately show ?thesis using assms unfolding wfTree_def update_conv' by (metis fun_upd_apply option.distinct(1))
qed

lemma nth_prefixes: "n \<le> length k \<Longrightarrow> prefixes k ! n = take n k"
  by (induction k arbitrary: n) (auto simp: nth_Cons split: nat.splits)

lemma mkdirs_prefixes_wf:
  assumes "wfTree t" and "mkdirs (take n (prefixes k)) t = (r, t')"
  shows "wfTree t'"
  using assms
proof (induction n arbitrary: r t')
  case (Suc n)
  obtain r1 t1 where m: "mkdirs (take n (prefixes k)) t = (r1, t1)" by fastforce
  have wf1: "wfTree t1" using Suc.IH [OF Suc.prems(1) m] .
  have app: "mkdirs (ks @ ks') u = (case mkdirs ks u of (None, v) \<Rightarrow> mkdirs ks' v | (Some e, v) \<Rightarrow> (Some e, v))" for ks ks' u
    by (induction ks arbitrary: u) (auto split: option.splits)
  show ?case
  proof (cases "n < length (prefixes k)")
    case False
    with Suc.prems(2) m wf1 show ?thesis by simp
  next
    case True
    then have nth: "prefixes k ! n = take n k" by (simp add: nth_prefixes)
    have t: "take (Suc n) (prefixes k) = take n (prefixes k) @ [take n k]"
      using True by (simp add: take_Suc_conv_app_nth nth)
    show ?thesis
    proof (cases r1)
      case None
      show ?thesis
      proof (cases "map_of t1 (take n k)")
        case u: None
        with wf1 have "take n k \<noteq> []" unfolding wfTree_def by (metis option.distinct(1))
        then obtain i where n: "n = Suc i" by (cases n) auto
        have "butlast (take n k) = take i k" using True n by (simp add: butlast_take)
        moreover have "take i k \<in> set (take n (prefixes k))"
          using True n nth_prefixes [of i k] by (auto simp: in_set_conv_nth intro!: exI [of _ i])
        ultimately have "map_of t1 (butlast (take n k)) = Some Directory"
          using mkdirs_made [OF m [unfolded None]] by simp
        then have "wfTree (AList.update (take n k) Directory t1)" using wf1 \<open>take n k \<noteq> []\<close> by (intro wfTree_update) auto
        with u Suc.prems(2) show ?thesis by (simp add: t app m None)
      next
        case (Some d)
        with Suc.prems(2) wf1 show ?thesis by (auto simp: t app m None split: if_splits)
      qed
    next
      case (Some e)
      with Suc.prems(2) wf1 show ?thesis by (simp add: t app m)
    qed
  qed
qed simp

lemma writeTree_cases:
  assumes "writeTree k data t = (r, t')"
  obtains (same) "t' = t" "r \<noteq> None \<or> (\<exists>b. map_of t k = Some (Irregular b))"
  | (written) "r = None" "t' = AList.update k (Regular data) t" "k \<noteq> []" "map_of t (butlast k) = Some Directory" "map_of t k \<noteq> Some Directory"
  using assms by (auto simp: writeTree_def statTree_def split: if_splits option.splits sum.splits node.splits)

lemma writeTree_wf: "wfTree t \<Longrightarrow> writeTree k data t = (r, t') \<Longrightarrow> wfTree t'"
  by (erule writeTree_cases) (auto intro: wfTree_update)

lemma writeTree_other: "writeTree k data t = (r, t') \<Longrightarrow> q \<noteq> k \<Longrightarrow> map_of t' q = map_of t q"
  by (erule writeTree_cases) (simp_all add: update_conv')

lemma prune_wf:
  assumes "wfTree t" and "\<And>p q. P q \<Longrightarrow> prefix p q \<Longrightarrow> P p"  and "P []"
  shows "wfTree (filter (\<lambda>(q, _). P q) t)"
  using assms(1,3) unfolding wfTree_def map_of_filter_keys by (metis assms(2) prefixeq_butlast)

lemma removeTree_wf: "wfTree t \<Longrightarrow> k \<noteq> [] \<Longrightarrow> wfTree (removeTree k t)"
  unfolding removeTree_def by (rule prune_wf) (auto dest: prefix_order.trans)

lemma map_of_moved:
  assumes "\<And>k. k \<in> fst ` set t \<Longrightarrow> \<not> prefix new k"
  shows "map_of (map (\<lambda>(k, v). (moveKey old new k, v)) t) q =
    (if prefix new q then map_of t (old @ drop (length new) q) else if prefix old q then None else map_of t q)"
  using assms
proof (induction t)
  case (Cons x t)
  obtain k v where x: "x = (k, v)" by fastforce
  have new: "\<not> prefix new k" using Cons.prems x by simp
  have "moveKey old new k = q \<longleftrightarrow> (if prefix new q then k = old @ drop (length new) q else \<not> prefix old q \<and> k = q)"
    using new by (auto simp: moveKey_def prefix_def)
  note eq = this
  have IH: "map_of (map (\<lambda>(k, v). (moveKey old new k, v)) t) q =
      (if prefix new q then map_of t (old @ drop (length new) q) else if prefix old q then None else map_of t q)"
    using Cons by simp
  show ?case
  proof (cases "moveKey old new k = q")
    case True
    moreover from this eq have "if prefix new q then k = old @ drop (length new) q else \<not> prefix old q \<and> k = q" by simp
    ultimately show ?thesis by (simp add: x split: if_splits)
  next
    case False
    moreover from this eq have "\<not> (if prefix new q then k = old @ drop (length new) q else \<not> prefix old q \<and> k = q)" by simp
    ultimately show ?thesis using IH by (cases "prefix new q"; cases "prefix old q") (simp_all add: x)
  qed
qed auto

text \<open>What a renaming that succeeds does.\<close>

lemma renameTree_lookup:
  assumes "renameTree old new t = (None, t')" and "old \<noteq> new" and "wfTree t"
  shows "map_of t' q = (if prefix new q then map_of t (old @ drop (length new) q) else if prefix old q then None else map_of t q)"
    and "\<not> prefix old new" and "\<not> prefix new old" and "map_of t old \<noteq> None" and "map_of t (butlast new) = Some Directory"
    and "map_of t new \<noteq> Some Directory" and "map_of t old = Some Directory \<longrightarrow> map_of t new = None" and "new \<noteq> []"
proof -
  have p: "\<not> prefix old new" "map_of t old \<noteq> None" "map_of t (butlast new) = Some Directory" "new \<noteq> []"
      "map_of t new \<noteq> Some Directory" "map_of t old = Some Directory \<longrightarrow> map_of t new = None"
      "t' = map (\<lambda>(k, v). (moveKey old new k, v)) (removeTree new t)"
    using assms(1,2) by (auto simp: renameTree_def statTree_def split: option.splits if_splits)
  show np: "\<not> prefix new old"
  proof
    assume "prefix new old"
    with assms(2) have "strict_prefix new old" by (simp add: strict_prefix_def)
    from wfTree_prefix [OF assms(3) p(2) this] p(5) show False by contradiction
  qed
  have "\<not> prefix new k" if "k \<in> fst ` set (removeTree new t)" for k using that by (auto simp: removeTree_def)
  then have moved: "map_of (map (\<lambda>(k, v). (moveKey old new k, v)) (removeTree new t)) q =
      (if prefix new q then map_of (removeTree new t) (old @ drop (length new) q) else if prefix old q then None
       else map_of (removeTree new t) q)" by (rule map_of_moved)
  show "map_of t' q = (if prefix new q then map_of t (old @ drop (length new) q) else if prefix old q then None else map_of t q)"
    using np p(1) unfolding p(7) moved
    by (cases "prefix new q"; cases "prefix old q") (auto simp: map_of_removeTree prefix_def append_eq_append_conv2)
  show "\<not> prefix old new" "map_of t old \<noteq> None" "map_of t (butlast new) = Some Directory" "map_of t new \<noteq> Some Directory"
    "map_of t old = Some Directory \<longrightarrow> map_of t new = None" "new \<noteq> []" by (use p in auto)
qed

lemma renameTree_wf:
  assumes "renameTree old new t = (r, t')" and "wfTree t"
  shows "wfTree t'"
proof (cases "r = None \<and> old \<noteq> new")
  case False
  with assms show ?thesis by (auto simp: renameTree_def statTree_def split: sum.splits option.splits if_splits)
next
  case True
  with assms(1) have r: "renameTree old new t = (None, t')" by simp
  note facts = renameTree_lookup [OF r _ assms(2)]
  have ne: "old \<noteq> new" using True by simp
  have root: "old \<noteq> []" using facts(2) [OF ne] by auto
  show ?thesis
    unfolding wfTree_def
  proof (intro conjI allI impI)
    show "map_of t' [] = Some Directory"
      using assms(2) facts(1) [OF ne, of "[]"] facts(8) [OF ne] root by (simp add: wfTree_def)
    fix k assume k: "k \<noteq> [] \<and> map_of t' k \<noteq> None"
    show "map_of t' (butlast k) = Some Directory"
    proof (cases "prefix new k")
      case True
      then obtain s where s: "k = new @ s" by (auto simp: prefix_def)
      show ?thesis
      proof (cases "s = []")
        case True
        have "\<not> prefix new (butlast new)" using facts(8) [OF ne] prefix_length_le [of new "butlast new"] by (cases new) auto
        moreover have "\<not> prefix old (butlast new)" using facts(2) [OF ne] by (meson prefix_order.trans prefixeq_butlast)
        ultimately show ?thesis using s True facts(1,5) [OF ne] by simp
      next
        case False
        from k s facts(1) [OF ne, of k] have "map_of t (old @ s) \<noteq> None" by simp
        with assms(2) False have "map_of t (old @ butlast s) = Some Directory" unfolding wfTree_def
          by (metis append_is_Nil_conv butlast_append)
        with s False facts(1) [OF ne, of "new @ butlast s"] show ?thesis by (simp add: butlast_append)
      qed
    next
      case False
      with k facts(1) [OF ne, of k] have old: "\<not> prefix old k" "map_of t k \<noteq> None" by (auto split: if_splits)
      then have "map_of t (butlast k) = Some Directory" using assms(2) k unfolding wfTree_def by blast
      moreover have "\<not> prefix old (butlast k)" using old(1) by (meson prefix_order.trans prefixeq_butlast)
      moreover have "\<not> prefix new (butlast k)" using False by (meson prefix_order.trans prefixeq_butlast)
      ultimately show ?thesis using facts(1) [OF ne] by simp
    qed
  qed
qed

section \<open>Calls and the trees they leave\<close>

lemma diskCall_cases:
  assumes "diskCall mc good failed bad x = (r, x')"
  obtains (faulty) f where "mc_fault mc (snd (fst x)) = Some f" "r = failed (mf_err f)" "fst (fst x') = bad f (fst (fst x))"
    "snd x' = snd x @ [fst (fst x')]"
  | (works) "good (fst (fst x)) = (r, fst (fst x'))" "snd x' = snd x @ [fst (fst x')]"
  using assms by (auto simp: diskCall_def split: prod.splits option.splits)

text \<open>From one disk to another, every tree on the way satisfies \<open>Q\<close>.\<close>

definition stays :: "(tree \<Rightarrow> bool) \<Rightarrow> 'e disk \<Rightarrow> 'e disk \<Rightarrow> bool" where
  "stays Q x x' \<longleftrightarrow> Q (fst (fst x')) \<and> (\<exists>new. snd x' = snd x @ new \<and> list_all Q new)"

lemma stays_refl: "Q (fst (fst x)) \<Longrightarrow> stays Q x x"
  by (simp add: stays_def)

lemma stays_trans: "stays Q x y \<Longrightarrow> stays Q y z \<Longrightarrow> stays Q x z"
  by (auto simp: stays_def)

lemma stays_mono: "stays Q x y \<Longrightarrow> (\<And>t. Q t \<Longrightarrow> R t) \<Longrightarrow> stays R x y"
  by (auto simp: stays_def list_all_iff)

lemma diskCall_stays:
  assumes "diskCall mc good failed bad x = (r, x')" and "\<And>f. Q (bad f (fst (fst x)))" and "\<And>r t. good (fst (fst x)) = (r, t) \<Longrightarrow> Q t"
  shows "stays Q x x'"
  using assms(1) by (rule diskCall_cases) (use assms(2,3) in \<open>auto simp: stays_def\<close>)

text \<open>The trees that differ from \<open>t0\<close> below \<open>k\<close> only.\<close>

definition onlyBelow :: "path_key \<Rightarrow> tree \<Rightarrow> tree \<Rightarrow> bool" where
  "onlyBelow k t0 t \<longleftrightarrow> wfTree t \<and> (\<forall>q. \<not> prefix k q \<longrightarrow> map_of t q = map_of t0 q)"

lemma os_Lstat_same:
  "os_Lstat mc p x = (r, x') \<Longrightarrow> Q (fst (fst x)) \<Longrightarrow> stays Q x x'"
  "os_Lstat mc p x = (r, x') \<Longrightarrow> fst (fst x') = fst (fst x)"
  unfolding os_Lstat_def by (auto elim!: diskCall_stays) (auto elim!: diskCall_cases)

lemma os_Chmod_same:
  "os_Chmod mc p m x = (r, x') \<Longrightarrow> Q (fst (fst x)) \<Longrightarrow> stays Q x x'"
  "os_Chmod mc p m x = (r, x') \<Longrightarrow> fst (fst x') = fst (fst x)"
  unfolding os_Chmod_def by (auto elim!: diskCall_stays) (auto elim!: diskCall_cases)

lemma mkdirs_below:
  assumes "onlyBelow k t0 t" and "map_of t k = Some Directory" and "prefix k q" and "mkdirs (take n (prefixes q)) t = (r, t')"
  shows "onlyBelow k t0 t' \<and> map_of t' k = Some Directory"
proof -
  have wf: "wfTree t" using assms(1) by (simp add: onlyBelow_def)
  have "map_of t' p = map_of t p" if "\<not> prefix k p" for p
  proof (cases "p \<in> set (take n (prefixes q))")
    case True
    then have "prefix p q" using in_set_prefixes [of p q] by (meson in_set_takeD)
    with assms(3) that have "strict_prefix p k" by (metis prefix_same_cases strict_prefixI prefix_order.refl)
    with wfTree_prefix [OF wf _ this] assms(2) mkdirs_keeps [OF assms(4), of p] show ?thesis by simp
  next
    case False
    with mkdirs_keeps [OF assms(4)] show ?thesis by simp
  qed
  with assms(1,2) mkdirs_prefixes_wf [OF wf assms(4)] mkdirs_keeps [OF assms(4), of k] show ?thesis by (simp add: onlyBelow_def)
qed

lemma os_MkdirAll_below:
  assumes "os_MkdirAll mc p m x = (r, x')" and "onlyBelow k t0 (fst (fst x))" "map_of (fst (fst x)) k = Some Directory"
    and "prefix k (keyOf (mc_cwd mc) p)"
  shows "stays (\<lambda>t. onlyBelow k t0 t \<and> map_of t k = Some Directory) x x'"
proof -
  let ?ks = "prefixes (keyOf (mc_cwd mc) p)"
  have "onlyBelow k t0 t' \<and> map_of t' k = Some Directory" if "mkdirs (take n ?ks) (fst (fst x)) = (r', t')" for n r' t'
    by (rule mkdirs_below [OF assms(2-4) that])
  from this [of "length ?ks"] this show ?thesis
    by (intro diskCall_stays [OF assms(1) [unfolded os_MkdirAll_def Let_def]]) (auto, (metis prod.collapse)+)
qed

lemma os_WriteFile_below:
  assumes "os_WriteFile mc p data m x = (r, x')" and "onlyBelow k t0 (fst (fst x))" "map_of (fst (fst x)) k = Some Directory"
    and "strict_prefix k (keyOf (mc_cwd mc) p)"
  shows "stays (\<lambda>t. onlyBelow k t0 t \<and> map_of t k = Some Directory) x x'"
proof -
  let ?q = "keyOf (mc_cwd mc) p"
  have "onlyBelow k t0 t' \<and> map_of t' k = Some Directory" if "writeTree ?q d (fst (fst x)) = (r', t')" for d r' t'
    using assms(2-4) writeTree_wf [OF _ that] writeTree_other [OF that] unfolding onlyBelow_def
    by (metis prefix_order.less_imp_le prefix_order.less_irrefl)
  with assms(2,3) show ?thesis
    by (intro diskCall_stays [OF assms(1) [unfolded os_WriteFile_def Let_def]]) (auto, (metis prod.collapse)+)
qed

lemma os_RemoveAll_below:
  assumes "os_RemoveAll mc p x = (r, x')" and "onlyBelow k t0 (fst (fst x))" and "keyOf (mc_cwd mc) p = k" "k \<noteq> []"
  shows "stays (\<lambda>t. onlyBelow k t0 t \<and> (map_of (fst (fst x)) k = None \<longrightarrow> (\<forall>q. map_of t q = map_of (fst (fst x)) q))) x x'"
proof (rule diskCall_stays [OF assms(1) [unfolded os_RemoveAll_def Let_def assms(3)]])
  let ?t = "fst (fst x)"
  have wf: "wfTree ?t" using assms(2) by (simp add: onlyBelow_def)
  have none: "map_of ?t q = None" if "map_of ?t k = None" "prefix k q" for q using absent_below [OF wf that] .
  fix f
  let ?P = "\<lambda>q. prefix k q \<longrightarrow> list_all (mf_kept f) (filter (prefix k) (prefixes q))"
  have closed: "?P p" if q: "?P q" and p: "prefix p q" for p q
    using q p by (auto simp: list_all_iff intro: prefix_order.trans)
  have "wfTree (filter (\<lambda>(q, _). ?P q) ?t)" by (rule prune_wf [OF wf closed]) (use assms(4) in auto)
  with assms(2) none show "onlyBelow k t0 (filter (\<lambda>(q, _). ?P q) ?t) \<and>
      (map_of ?t k = None \<longrightarrow> (\<forall>q. map_of (filter (\<lambda>(q, _). ?P q) ?t) q = map_of ?t q))"
    unfolding onlyBelow_def map_of_filter_keys [of ?P] by simp
next
  fix r t assume "(None, removeTree k (fst (fst x))) = (r, t)"
  with assms(2,4) removeTree_wf absent_below [of "fst (fst x)" k] show "onlyBelow k t0 t \<and>
      (map_of (fst (fst x)) k = None \<longrightarrow> (\<forall>q. map_of t q = map_of (fst (fst x)) q))"
    by (auto simp: onlyBelow_def map_of_removeTree)
qed

end
