(* ===== verification/Encoding.thy ===== *)
theory Encoding
  imports Prelude
begin

text \<open>
  What the program uses of the text formats of the standard library: the civil calendar with the layouts of
  \<^verbatim>\<open>time.Time.Format\<close>, hexadecimal digits, and \<^verbatim>\<open>json.MarshalIndent\<close> of the values the program writes. A
  time counts the nanoseconds since the start of the year 1 in UTC.
\<close>

section \<open>The calendar\<close>

definition isLeap :: "int \<Rightarrow> bool" where
  "isLeap year \<longleftrightarrow> year mod 4 = 0 \<and> (year mod 100 \<noteq> 0 \<or> year mod 400 = 0)"

definition monthLengths :: "bool \<Rightarrow> int list" where
  "monthLengths leap = [31, if leap then 29 else 28, 31, 30, 31, 30, 31, 31, 30, 31, 30, 31]"

text \<open>The year of a day and the day of that year: cycles of 400, 100, 4 and 1 years are cut off.\<close>

definition yearOf :: "int \<Rightarrow> int \<times> int" where
  "yearOf day =
     (let n400 = day div 146097; d = day mod 146097;
          n100 = d div 36524; n100 = n100 - n100 div 4; d = d - 36524 * n100;
          n4 = d div 1461; d = d mod 1461;
          n1 = d div 365; n1 = n1 - n1 div 4
      in (400 * n400 + 100 * n100 + 4 * n4 + n1 + 1, d - 365 * n1))"

fun monthOf :: "int \<Rightarrow> int \<Rightarrow> int list \<Rightarrow> int \<times> int" where
  "monthOf month day [] = (month, day)"
| "monthOf month day (n # lengths) = (if day < n then (month, day) else monthOf (month + 1) (day - n) lengths)"

definition civil :: "int \<Rightarrow> int \<times> int \<times> int" where
  "civil day =
     (let (year, d) = yearOf day; (month, d) = monthOf 1 d (monthLengths (isLeap year)) in (year, month, d + 1))"

definition dayLength :: duration where "dayLength = 24 * hour"

definition pad :: "nat \<Rightarrow> int \<Rightarrow> string" where
  "pad width n = (let s = FormatUint (nat n) in replicate (width - length s) (CHR ''0'') @ s)"

text \<open>The layout \<^verbatim>\<open>20060102T150405Z\<close>; years outside 0 to 9999 are written with a sign or more digits.\<close>

definition yearText :: "int \<Rightarrow> string" where
  "yearText year = (if year < 0 then CHR ''-'' # pad 4 (- year) else pad 4 year)"

definition FormatCompact :: "go_time \<Rightarrow> string" where
  "FormatCompact t =
     (case civil (t div dayLength) of
        (year, month, day) \<Rightarrow>
          (let s = (t mod dayLength) div second
           in yearText year @ pad 2 month @ pad 2 day @ ''T'' @ pad 2 (s div 3600) @ pad 2 (s div 60 mod 60) @
              pad 2 (s mod 60) @ ''Z''))"

text \<open>\<^verbatim>\<open>time.RFC3339Nano\<close>: the fraction without its trailing zeros.\<close>

definition fractionText :: "int \<Rightarrow> string" where
  "fractionText nanos =
     (let digits = TrimRight (pad 9 nanos) ''0'' in if digits = [] then [] else CHR ''.'' # digits)"

definition FormatRFC3339Nano :: "go_time \<Rightarrow> string" where
  "FormatRFC3339Nano t =
     (case civil (t div dayLength) of
        (year, month, day) \<Rightarrow>
          (let s = (t mod dayLength) div second
           in yearText year @ ''-'' @ pad 2 month @ ''-'' @ pad 2 day @ ''T'' @ pad 2 (s div 3600) @ '':'' @
              pad 2 (s div 60 mod 60) @ '':'' @ pad 2 (s mod 60) @ fractionText (t mod second) @ ''Z''))"

section \<open>Hexadecimal digits\<close>

definition hexDigit :: "nat \<Rightarrow> char" where
  "hexDigit n = ''0123456789abcdef'' ! n"

text \<open>\<^verbatim>\<open>hex.EncodeToString\<close>.\<close>

definition hexText :: "string \<Rightarrow> string" where
  "hexText s = concat (map (\<lambda>c. [hexDigit (byte_of c div 16), hexDigit (byte_of c mod 16)]) s)"

section \<open>JSON\<close>

datatype json = JInt int | JBool bool | JText string | JTime go_time | JArray "json list" | JObject "(string \<times> json) list"

definition escapeByte :: "char \<Rightarrow> string" where
  "escapeByte c =
     (let n = byte_of c
      in if c = CHR 0x22 \<or> c = CHR 0x5C then [CHR 0x5C, c]
         else if n = 8 then [CHR 0x5C, CHR ''b''] else if n = 12 then [CHR 0x5C, CHR ''f'']
         else if n = 10 then [CHR 0x5C, CHR ''n''] else if n = 13 then [CHR 0x5C, CHR ''r'']
         else if n = 9 then [CHR 0x5C, CHR ''t'']
         else if n < 32 \<or> c \<in> set ''<>&'' then CHR 0x5C # ''u00'' @ hexText [c]
         else [c])"

text \<open>Broken UTF-8 becomes U+FFFD, and the line separators U+2028 and U+2029 are escaped.\<close>

function escapeText :: "string \<Rightarrow> string" where
  "escapeText s =
     (case s of
        [] \<Rightarrow> []
      | c # r \<Rightarrow>
          if byte_of c < 128 then escapeByte c @ escapeText r
          else if rune_size s = 0 then CHR 0x5C # ''ufffd'' @ escapeText r
          else if take 3 s = [CHR 0xE2, CHR 0x80, CHR 0xA8] then CHR 0x5C # ''u2028'' @ escapeText (drop 3 s)
          else if take 3 s = [CHR 0xE2, CHR 0x80, CHR 0xA9] then CHR 0x5C # ''u2029'' @ escapeText (drop 3 s)
          else take (rune_size s) s @ escapeText (drop (rune_size s) s))"
  by pat_completeness auto
termination
  by (relation "measure length") (use rune_size_le in auto)

declare escapeText.simps [simp del]

definition quoteText :: "string \<Rightarrow> string" where
  "quoteText s = [CHR 0x22] @ escapeText s @ [CHR 0x22]"

fun sepBy :: "'a list \<Rightarrow> 'a list list \<Rightarrow> 'a list" where
  "sepBy sep [] = []"
| "sepBy sep [x] = x"
| "sepBy sep (x # y # xs) = x @ sep @ sepBy sep (y # xs)"

definition newline :: "nat \<Rightarrow> string" where
  "newline depth = CHR 0x0A # replicate (2 * depth) (CHR '' '')"

definition bracketed :: "char \<Rightarrow> char \<Rightarrow> nat \<Rightarrow> string list \<Rightarrow> string" where
  "bracketed l r depth items =
     (if items = [] then [l, r]
      else [l] @ newline (depth + 1) @ sepBy (CHR '','' # newline (depth + 1)) items @ newline depth @ [r])"

definition allSome :: "'a option list \<Rightarrow> 'a list option" where
  "allSome xs = (if None \<in> set xs then None else Some (map the xs))"

text \<open>\<open>None\<close> is the error of the encoder: a time outside the years 0 to 9999.\<close>

definition timeText :: "go_time \<Rightarrow> string option" where
  "timeText t =
     (let year = fst (civil (t div dayLength))
      in if year < 0 \<or> year > 9999 then None else Some (quoteText (FormatRFC3339Nano t)))"

fun MarshalIndent :: "nat \<Rightarrow> json \<Rightarrow> string option" where
  "MarshalIndent depth (JInt n) = Some (if n < 0 then CHR ''-'' # FormatUint (nat (- n)) else FormatUint (nat n))"
| "MarshalIndent depth (JBool b) = Some (if b then ''true'' else ''false'')"
| "MarshalIndent depth (JText s) = Some (quoteText s)"
| "MarshalIndent depth (JTime t) = timeText t"
| "MarshalIndent depth (JArray xs) =
     map_option (bracketed (CHR ''['') (CHR '']'') depth) (allSome (map (MarshalIndent (depth + 1)) xs))"
| "MarshalIndent depth (JObject fields) =
     map_option (bracketed (CHR ''{'') (CHR ''}'') depth)
       (allSome (map (\<lambda>(name, v). map_option (\<lambda>s. quoteText name @ '': '' @ s) (MarshalIndent (depth + 1) v)) fields))"

section \<open>Calendar\<close>

lemma pad_digits: "list_all is_digit (pad w n)"
  using FormatUint_digits [of "nat n"] by (auto simp: pad_def Let_def list_all_iff is_digit_def byte_of_def)

lemma FormatUint_length: "n < 10 ^ Suc k \<Longrightarrow> length (FormatUint n) \<le> Suc k"
proof (induction k arbitrary: n)
  case 0
  then show ?case by (simp add: FormatUint.simps)
next
  case (Suc k)
  then have "n div 10 < 10 ^ Suc k" by (simp add: less_mult_imp_div_less mult.commute)
  with Suc.IH [of "n div 10"] show ?case by (subst FormatUint.simps) simp
qed

lemma pad_length: "nat n < 10 ^ Suc k \<Longrightarrow> length (pad (Suc k) n) = Suc k"
  using FormatUint_length [of "nat n" k] by (simp add: pad_def Let_def)

lemma monthOf_bounds:
  "0 \<le> day \<Longrightarrow> day < sum_list lengths \<Longrightarrow> list_all (\<lambda>n. 0 < n \<and> n \<le> 31) lengths \<Longrightarrow>
   (case monthOf month day lengths of (m, d) \<Rightarrow> month \<le> m \<and> m < month + int (length lengths) \<and> 0 \<le> d \<and> d < 31)"
proof (induction lengths arbitrary: month day)
  case (Cons n lengths)
  show ?case
  proof (cases "day < n")
    case True
    with Cons.prems show ?thesis by auto
  next
    case False
    with Cons.IH [of "day - n" "month + 1"] Cons.prems show ?thesis by (auto split: prod.splits)
  qed
qed auto

lemma div_bounds: "0 < c \<Longrightarrow> c * (a div c) \<le> a \<and> a < c * (a div c) + c" for a c :: int
  using pos_mod_sign [of c a] pos_mod_bound [of c a] mult_div_mod_eq [of c a] by linarith

text \<open>A cycle of three or four periods: the last one has a day more.\<close>

lemma cycle_bounds:
  fixes d c n :: int
  assumes "0 \<le> d" "d \<le> 4 * c" "1 < c" and "n = d div c - d div c div 4"
  shows "0 \<le> n \<and> n \<le> 3 \<and> 0 \<le> d - c * n \<and> d - c * n \<le> c \<and> (n < 3 \<longrightarrow> d - c * n < c) \<and> (d < 4 * c \<longrightarrow> d - c * n < c)"
proof -
  let ?k = "d div c"
  have b: "c * ?k \<le> d" "d < c * ?k + c" using div_bounds [of c d] assms(3) by auto
  have k: "0 \<le> ?k" using assms(1,3) by (simp add: pos_imp_zdiv_nonneg_iff)
  have "?k < 5"
  proof (rule ccontr)
    assume "\<not> ?k < 5"
    then have "c * 5 \<le> c * ?k" using assms(3) by (intro mult_left_mono) auto
    with b(1) assms(2,3) show False by linarith
  qed
  with k consider "?k = 0" | "?k = 1" | "?k = 2" | "?k = 3" | "?k = 4" by linarith
  then show ?thesis
    by cases (use b assms in \<open>simp_all add: assms(4)\<close>)
qed

lemma yearOf_day: "0 \<le> snd (yearOf day) \<and> snd (yearOf day) < (if isLeap (fst (yearOf day)) then 366 else 365)"
proof -
  define n400 d0 n100 d1 n4 d2 n1 where
    "n400 = day div 146097" "d0 = day mod 146097" "n100 = d0 div 36524 - d0 div 36524 div 4" "d1 = d0 - 36524 * n100"
    "n4 = d1 div 1461" "d2 = d1 mod 1461" "n1 = d2 div 365 - d2 div 365 div 4"
  note defs = this
  have y: "yearOf day = (400 * n400 + 100 * n100 + 4 * n4 + n1 + 1, d2 - 365 * n1)"
    unfolding yearOf_def Let_def defs by (rule refl)
  have d0: "0 \<le> d0" "d0 < 146097" by (simp_all add: defs(2))
  then have n100: "0 \<le> n100" "n100 \<le> 3" "0 \<le> d1" "d1 \<le> 36524" "n100 < 3 \<Longrightarrow> d1 < 36524"
    using cycle_bounds [of d0 36524 n100] by (simp_all add: defs(3,4))
  have d1: "d1 = 1461 * n4 + d2" "0 \<le> d2" "d2 < 1461" by (simp_all add: defs(5,6))
  then have n4: "0 \<le> n4" "n4 \<le> 24" "n100 < 3 \<Longrightarrow> n4 = 24 \<Longrightarrow> d2 < 1460" using n100 by linarith+
  have n1: "0 \<le> n1" "n1 \<le> 3" "0 \<le> d2 - 365 * n1" "d2 - 365 * n1 \<le> 365" "n1 < 3 \<Longrightarrow> d2 - 365 * n1 < 365"
      "d2 < 1460 \<Longrightarrow> d2 - 365 * n1 < 365"
    using cycle_bounds [of d2 365 n1] d1(2,3) by (simp_all add: defs(7))
  have leap: "isLeap (400 * n400 + 100 * n100 + 4 * n4 + n1 + 1)" if "n1 = 3" "\<not> (n100 < 3 \<and> n4 = 24)"
  proof -
    have eq: "400 * n400 + 100 * n100 + 4 * n4 + n1 + 1 = 4 * (100 * n400 + 25 * n100 + n4 + 1)" using that(1) by simp
    have r: "(400 * n400 + 100 * n100 + 4 * n4 + n1 + 1) mod 100 = (4 * n4 + 4) mod 100"
    proof -
      have "400 * n400 + 100 * n100 + 4 * n4 + n1 + 1 = (4 * n4 + 4) + (4 * n400 + n100) * 100" using that(1) by simp
      then show ?thesis by (simp only: mod_mult_self1)
    qed
    have "n4 < 24 \<or> n4 = 24 \<and> n100 = 3" using \<open>\<not> (n100 < 3 \<and> n4 = 24)\<close> n100(2) n4(2) by linarith
    then consider "n4 < 24" | "n4 = 24" "n100 = 3" by blast
    then show ?thesis
    proof cases
      case 1
      then have "(4 * n4 + 4) mod 100 \<noteq> 0" using n4(1) by simp
      moreover have "(400 * n400 + 100 * n100 + 4 * n4 + n1 + 1) mod 4 = 0" unfolding eq by simp
      ultimately show ?thesis unfolding isLeap_def r by blast
    next
      case 2
      then have e: "400 * n400 + 100 * n100 + 4 * n4 + n1 + 1 = 400 * (n400 + 1)" using that(1) by simp
      have "(400 * (n400 + 1)) mod 4 = 0" using eq e by simp
      then show ?thesis unfolding isLeap_def e by simp
    qed
  qed
  show ?thesis
    using n1 n4(3) leap unfolding y by (cases "n1 = 3"; cases "n100 < 3 \<and> n4 = 24") (auto split: if_splits)
qed

lemma civil_bounds:
  assumes "civil day = (year, month, d)"
  shows "1 \<le> month" "month \<le> 12" "1 \<le> d" "d \<le> 31"
proof -
  obtain y r where y: "yearOf day = (y, r)" by fastforce
  have r: "0 \<le> r" "r < sum_list (monthLengths (isLeap y))"
    using yearOf_day [of day] y by (auto simp: monthLengths_def split: if_splits)
  have "list_all (\<lambda>n. 0 < n \<and> n \<le> 31) (monthLengths (isLeap y))" "length (monthLengths (isLeap y)) = 12" by (simp_all add: monthLengths_def)
  with monthOf_bounds [OF r, of 1] assms y show "1 \<le> month" "month \<le> 12" "1 \<le> d" "d \<le> 31"
    by (auto simp: civil_def split: prod.splits)
qed

end
