(* ===== verification/History.thy ===== *)
theory History
  imports Discovery_Store
begin

text \<open>
  The reads of the public registry and the retention of operational history:
  \<^verbatim>\<open>internal/store/history.go\<close>, \<^verbatim>\<open>verified.go\<close>, \<^verbatim>\<open>registry.go\<close> and \<^verbatim>\<open>retention.go\<close>. The rows of the
  observations table are a list in the order of their ids; the map of the origins table does not list its
  keys, so the read of the whole table takes them as the argument \<open>names\<close>. A query, a row or a transaction that
  the database rejects is an argument.
\<close>

definition MaxObservationHistory :: int where "MaxObservationHistory = 100"

definition errInvalidHistoryLimit where
  "errInvalidHistoryLimit = Sentinel ''store: history limit is invalid''"
definition errInvalidStoredVerifiedOrigin where
  "errInvalidStoredVerifiedOrigin = Sentinel ''store: stored verified origin is invalid''"
definition errInvalidStoredRegistryOrigin where
  "errInvalidStoredRegistryOrigin = Sentinel ''store: stored registry origin is invalid''"
definition errInvalidOperationalHistoryRetention where
  "errInvalidOperationalHistoryRetention = Sentinel ''store: operational history retention is invalid''"
text \<open>The driver's error for a NULL in a column that is scanned into a value; the name of the column is left out.\<close>

definition scanNullColumn where "scanNullColumn = Sentinel ''cannot scan NULL''"

section \<open>Observations\<close>

text \<open>\<^verbatim>\<open>ORDER BY observed_at DESC, id DESC\<close>.\<close>

definition newestFirst :: "observation_row list \<Rightarrow> observation_row list" where
  "newestFirst rows = sort_key (\<lambda>r. - ob_observed_at r) (rev rows)"

definition Observations ::
    "bool \<Rightarrow> ctx_value \<Rightarrow> bool \<Rightarrow> go_error option \<Rightarrow> (observation_row \<Rightarrow> go_error option) \<Rightarrow> origin \<Rightarrow> int \<Rightarrow>
     store_db \<Rightarrow> go_error + observation list" where
  "Observations present ctx pool dbErr rowErr source limit db =
     (case store_validate present ctx pool of
        Some err \<Rightarrow> Inl err
      | None \<Rightarrow>
          if origin_String source = [] then Inl errInvalidOrigin
          else if limit < 1 \<or> limit > MaxObservationHistory then Inl errInvalidHistoryLimit
          else (case dbErr of
                  Some err \<Rightarrow> Inl (Wrap ''store: query observation history'' [err])
                | None \<Rightarrow>
                    CollectRows (\<lambda>r. case rowErr r of Some err \<Rightarrow> Inl err | None \<Rightarrow> Inr (observationFromStored r))
                      (take (nat limit)
                         (newestFirst (filter (\<lambda>r. ob_origin r = origin_String source) (db_observations db))))))"

section \<open>Verified origins\<close>

record verified_origin =
  vo_Origin :: origin
  vo_Declaration :: josh_declaration

text \<open>The keys of the maps \<^verbatim>\<open>identityFromText\<close> and \<^verbatim>\<open>outcomeFromText\<close>.\<close>

definition knownIdentity :: "string \<Rightarrow> bool" where
  "knownIdentity t \<longleftrightarrow> t \<in> {''undeclared'', ''affirmed'', ''declined''}"

definition knownOutcome :: "string \<Rightarrow> bool" where
  "knownOutcome t \<longleftrightarrow>
     t \<in> {''valid'', ''absent'', ''invalid'', ''unsupported_version'', ''unavailable'', ''robots_denied'',
          ''cross_origin_redirect''}"

definition verifiedRows :: "store_db \<Rightarrow> observation_row list" where
  "verifiedRows db =
     filter (\<lambda>r. ob_outcome r = ''valid'')
       (List.map_filter (effectiveRow db) (sort (remdups (map ob_origin
          (filter (\<lambda>r. authoritativeText (ob_outcome r)) (db_observations db))))))"

definition scanVerifiedOrigin ::
    "host_lib \<Rightarrow> (observation_row \<Rightarrow> go_error option) \<Rightarrow> observation_row \<Rightarrow> go_error + verified_origin" where
  "scanVerifiedOrigin lib rowErr r =
     (case (rowErr r, ob_version r, ob_identity r) of
        (None, Some version, Some storedIdentity) \<Rightarrow>
          (case Origin.Parse lib (ob_origin r) of
             Inl _ \<Rightarrow> Inl (Wrap ''origin'' [errInvalidStoredVerifiedOrigin])
           | Inr source \<Rightarrow>
               if version \<noteq> 1 \<or> \<not> knownIdentity storedIdentity
               then Inl (Wrap ''declaration'' [errInvalidStoredVerifiedOrigin])
               else Inr \<lparr>vo_Origin = source,
                         vo_Declaration = \<lparr>Version = version, Identity = identityFromText storedIdentity\<rparr>\<rparr>)
      | (Some err, _, _) \<Rightarrow> Inl (Wrap ''store: scan verified origin'' [err])
      | _ \<Rightarrow> Inl (Wrap ''store: scan verified origin'' [scanNullColumn]))"

definition VerifiedOrigins ::
    "host_lib \<Rightarrow> bool \<Rightarrow> ctx_value \<Rightarrow> bool \<Rightarrow> go_error option \<Rightarrow> (observation_row \<Rightarrow> go_error option) \<Rightarrow> store_db \<Rightarrow>
     go_error + verified_origin list" where
  "VerifiedOrigins lib present ctx pool dbErr rowErr db =
     (case store_validate present ctx pool of
        Some err \<Rightarrow> Inl err
      | None \<Rightarrow>
          (case dbErr of
             Some err \<Rightarrow> Inl (Wrap ''store: query verified origins'' [err])
           | None \<Rightarrow>
               (case CollectRows (scanVerifiedOrigin lib rowErr) (verifiedRows db) of
                  Inl err \<Rightarrow> Inl (Wrap ''store: collect verified origins'' [err])
                | Inr verified \<Rightarrow> Inr verified)))"

section \<open>Registry origins\<close>

record registry_origin =
  ro_Origin :: origin
  ro_FirstParticipatedAt :: go_time
  ro_InitialDeclaration :: josh_declaration
  ro_LatestDeclarationCheckAt :: go_time
  ro_LatestDeclarationCheckOutcome :: outcome
  ro_CurrentDeclaration :: "josh_declaration option"

text \<open>A row of the query: the key, the row of the origins table and the joined columns.\<close>

record registry_row =
  rr_origin :: string
  rr_stored :: origin_row
  rr_effective :: "observation_row option"

definition registryRows :: "string list \<Rightarrow> store_db \<Rightarrow> registry_row list" where
  "registryRows names db =
     List.map_filter
       (\<lambda>o1. case db_origins db o1 of
               None \<Rightarrow> None
             | Some row \<Rightarrow>
                 if or_first_participated_at row = None then None
                 else Some \<lparr>rr_origin = o1, rr_stored = row, rr_effective = effectiveRow db o1\<rparr>)
       (sort names)"

definition registryError :: "string \<Rightarrow> go_error" where
  "registryError what = Wrap what [errInvalidStoredRegistryOrigin]"

text \<open>The declaration that the latest authoritative observation gives.\<close>

definition currentDeclaration :: "observation_row option \<Rightarrow> go_error + josh_declaration option" where
  "currentDeclaration joined =
     (case joined of
        None \<Rightarrow> Inl (registryError ''authoritative declaration state'')
      | Some eff \<Rightarrow>
          if \<not> knownOutcome (ob_outcome eff) \<or>
             outcomeFromText (ob_outcome eff) \<in> {OutcomeUnavailable, OutcomeRobotsDenied}
          then Inl (registryError ''authoritative declaration outcome'')
          else if outcomeFromText (ob_outcome eff) = OutcomeValid then
            (case (ob_version eff, ob_identity eff) of
               (Some version, Some t) \<Rightarrow>
                 if version \<noteq> 1 \<or> \<not> knownIdentity t then Inl (registryError ''current declaration'')
                 else Inr (Some \<lparr>Version = version, Identity = identityFromText t\<rparr>)
             | _ \<Rightarrow> Inl (registryError ''current declaration''))
          else if ob_version eff \<noteq> None \<or> ob_identity eff \<noteq> None
          then Inl (registryError ''non-valid authoritative declaration'')
          else Inr None)"

definition scanRegistryOrigin ::
    "host_lib \<Rightarrow> (registry_row \<Rightarrow> go_error option) \<Rightarrow> registry_row \<Rightarrow> go_error + registry_origin" where
  "scanRegistryOrigin lib rowErr r =
     (case (rowErr r, or_first_participated_at (rr_stored r), or_initial_version (rr_stored r),
            or_initial_identity (rr_stored r), or_latest_check_at (rr_stored r),
            or_latest_check_outcome (rr_stored r)) of
        (None, Some first, Some version, Some identity, Some latestAt, Some latestText) \<Rightarrow>
          (case Origin.Parse lib (rr_origin r) of
             Inl _ \<Rightarrow> Inl (registryError ''origin'')
           | Inr source \<Rightarrow>
               if version \<noteq> 1 \<or> \<not> knownIdentity identity then Inl (registryError ''initial declaration'')
               else if \<not> knownOutcome latestText then Inl (registryError ''latest declaration check outcome'')
               else if first > latestAt then Inl (registryError ''participation times'')
               else (case currentDeclaration (rr_effective r) of
                       Inl err \<Rightarrow> Inl err
                     | Inr current \<Rightarrow>
                         Inr \<lparr>ro_Origin = source, ro_FirstParticipatedAt = first,
                              ro_InitialDeclaration =
                                \<lparr>Version = version, Identity = identityFromText identity\<rparr>,
                              ro_LatestDeclarationCheckAt = latestAt,
                              ro_LatestDeclarationCheckOutcome = outcomeFromText latestText,
                              ro_CurrentDeclaration = current\<rparr>))
      | (Some err, _) \<Rightarrow> Inl (Wrap ''store: scan registry origin'' [err])
      | _ \<Rightarrow> Inl (Wrap ''store: scan registry origin'' [scanNullColumn]))"

definition RegistryOrigins ::
    "host_lib \<Rightarrow> bool \<Rightarrow> ctx_value \<Rightarrow> bool \<Rightarrow> go_error option \<Rightarrow> (registry_row \<Rightarrow> go_error option) \<Rightarrow> string list \<Rightarrow>
     store_db \<Rightarrow> go_error + registry_origin list" where
  "RegistryOrigins lib present ctx pool dbErr rowErr names db =
     (case store_validate present ctx pool of
        Some err \<Rightarrow> Inl err
      | None \<Rightarrow>
          (case dbErr of
             Some err \<Rightarrow> Inl (Wrap ''store: query registry origins'' [err])
           | None \<Rightarrow>
               (case CollectRows (scanRegistryOrigin lib rowErr) (registryRows names db) of
                  Inl err \<Rightarrow> Inl (Wrap ''store: collect registry origins'' [err])
                | Inr registry \<Rightarrow> Inr registry)))"

section \<open>Retention\<close>

text \<open>The tables the retention deletes from, beside the observations: the events of the queue and the heartbeats.\<close>

record queue_event_row =
  qe_origin :: string
  qe_occurred_at :: go_time
  qe_event :: string

record heartbeat_row =
  hb_service :: string
  hb_instance_id :: string
  hb_updated_at :: go_time

record history_db =
  hd_store :: store_db
  hd_events :: "queue_event_row list"
  hd_heartbeats :: "heartbeat_row list"

text \<open>
  A row is the first of a list by \<^verbatim>\<open>observed_at DESC, id DESC\<close> when no row before it is newer and every row
  after it is older; \<open>sieve\<close> keeps the rows that pass a test which sees the rows around them.
\<close>

definition newestAmong :: "observation_row list \<Rightarrow> observation_row \<Rightarrow> observation_row list \<Rightarrow> bool" where
  "newestAmong before r after \<longleftrightarrow>
     list_all (\<lambda>x. ob_observed_at x \<le> ob_observed_at r) before \<and>
     list_all (\<lambda>x. ob_observed_at x < ob_observed_at r) after"

fun sieve :: "('a list \<Rightarrow> 'a \<Rightarrow> 'a list \<Rightarrow> bool) \<Rightarrow> 'a list \<Rightarrow> 'a list \<Rightarrow> 'a list" where
  "sieve keep before [] = []"
| "sieve keep before (r # after) =
     (if keep before r after then r # sieve keep (before @ [r]) after else sieve keep (before @ [r]) after)"

text \<open>The newest row of the origin, and the newest authoritative one, of every origin of the origins table.\<close>

definition protectedObservation ::
    "store_db \<Rightarrow> observation_row list \<Rightarrow> observation_row \<Rightarrow> observation_row list \<Rightarrow> bool" where
  "protectedObservation db before r after \<longleftrightarrow>
     (let same = filter (\<lambda>x. ob_origin x = ob_origin r);
          authoritative = filter (\<lambda>x. authoritativeText (ob_outcome x))
      in db_origins db (ob_origin r) \<noteq> None \<and>
         (newestAmong (same before) r (same after) \<or>
          authoritativeText (ob_outcome r) \<and>
          newestAmong (authoritative (same before)) r (authoritative (same after))))"

definition purgeObservations :: "go_time \<Rightarrow> store_db \<Rightarrow> store_db" where
  "purgeObservations cutoff db =
     db\<lparr>db_observations :=
          sieve (\<lambda>before r after. \<not> (ob_observed_at r < cutoff \<and> \<not> protectedObservation db before r after))
            [] (db_observations db)\<rparr>"

definition PurgeOperationalHistory ::
    "discovery_handle option \<Rightarrow> ctx_value \<Rightarrow> go_error option \<Rightarrow> go_time \<Rightarrow> duration \<Rightarrow> history_db \<Rightarrow>
     go_error option \<times> history_db" where
  "PurgeOperationalHistory s ctx dbErr now retention tables =
     (case discovery_validate s ctx of
        Some err \<Rightarrow> (Some err, tables)
      | None \<Rightarrow>
          if retention \<le> 0 then (Some errInvalidOperationalHistoryRetention, tables)
          else (case dbErr of
                  Some err \<Rightarrow> (Some (Wrap ''store: purge operational history'' [err]), tables)
                | None \<Rightarrow>
                    (None, tables\<lparr>hd_store := purgeObservations (now - retention) (hd_store tables),
                              hd_events := filter (\<lambda>e. \<not> qe_occurred_at e < now - retention) (hd_events tables),
                              hd_heartbeats :=
                                filter (\<lambda>h. \<not> hb_updated_at h < now - retention) (hd_heartbeats tables)\<rparr>)))"


section \<open>The newest row\<close>

lemma latestObservation_last:
  assumes "newestAmong xs b ys"
  shows "latestObservation (xs @ b # ys) = Some b"
  using assms
proof (induction ys rule: rev_induct)
  case Nil
  then show ?case
    using latestObservation_max [of xs]
    by (auto simp: latestObservation_append newestAmong_def list_all_iff split: option.splits)
next
  case (snoc y ys)
  then have "latestObservation (xs @ b # ys) = Some b" "ob_observed_at y < ob_observed_at b"
    by (simp_all add: newestAmong_def)
  then show ?case using latestObservation_append [of "xs @ b # ys" y] by simp
qed

lemma latestObservation_split:
  "latestObservation rows = Some b \<Longrightarrow> \<exists>xs ys. rows = xs @ b # ys \<and> newestAmong xs b ys"
proof (induction rows rule: rev_induct)
  case Nil
  then show ?case by (simp add: latestObservation_def)
next
  case (snoc r rows)
  show ?case
  proof (cases "latestObservation rows")
    case None
    then have "rows = []" by (simp add: latestObservation_None)
    with snoc.prems show ?thesis
      by (intro exI [of _ "[]"] exI [of _ "[]"]) (simp add: latestObservation_def newestAmong_def)
  next
    case (Some b')
    show ?thesis
    proof (cases "ob_observed_at r \<ge> ob_observed_at b'")
      case True
      with Some snoc.prems latestObservation_max [OF Some] show ?thesis
        by (intro exI [of _ rows] exI [of _ "[]"])
          (fastforce simp: latestObservation_append newestAmong_def list_all_iff)
    next
      case False
      with Some snoc.prems have b': "b = b'" by (simp add: latestObservation_append)
      with snoc.IH Some obtain xs ys where "rows = xs @ b # ys" "newestAmong xs b ys" by blast
      with b' False show ?thesis
        by (intro exI [of _ xs] exI [of _ "ys @ [r]"]) (simp add: newestAmong_def)
    qed
  qed
qed

lemma filter_split:
  "filter P rows = us @ b # vs \<Longrightarrow> \<exists>xs ys. rows = xs @ b # ys \<and> filter P xs = us \<and> filter P ys = vs \<and> P b"
proof (induction rows arbitrary: us)
  case (Cons r rows)
  show ?case
  proof (cases "P r \<and> us = []")
    case True
    with Cons.prems show ?thesis by (intro exI [of _ "[]"] exI [of _ rows]) simp
  next
    case False
    with Cons.prems obtain us' where us': "filter P rows = us' @ b # vs" "us = filter P [r] @ us'"
      by (cases us) (auto split: if_splits)
    from Cons.IH [OF us'(1)] obtain xs ys where
      "rows = xs @ b # ys \<and> filter P xs = us' \<and> filter P ys = vs \<and> P b" by blast
    with us'(2) show ?thesis by (intro exI [of _ "r # xs"] exI [of _ ys]) simp
  qed
qed simp

lemma set_sieve: "set (sieve keep before rows) \<subseteq> set rows"
  by (induction rows arbitrary: before) auto

lemma subseq_sieve: "subseq (sieve keep before rows) rows"
  by (induction rows arbitrary: before) auto

lemma sieve_split:
  "keep (before @ xs) b ys \<Longrightarrow>
   \<exists>xs' ys'. sieve keep before (xs @ b # ys) = xs' @ b # ys' \<and> set xs' \<subseteq> set xs \<and> set ys' \<subseteq> set ys"
proof (induction xs arbitrary: before)
  case Nil
  then show ?case using set_sieve [of keep "before @ [b]" ys]
    by (intro exI [of _ "[]"] exI [of _ "sieve keep (before @ [b]) ys"]) simp
next
  case (Cons x xs)
  from Cons.prems obtain xs' ys' where "sieve keep (before @ [x]) (xs @ b # ys) = xs' @ b # ys'"
    "set xs' \<subseteq> set xs" "set ys' \<subseteq> set ys"
    using Cons.IH [of "before @ [x]"] by auto
  then show ?case
    by (intro exI [of _ "if keep before x (xs @ b # ys) then x # xs' else xs'"] exI [of _ ys']) auto
qed

lemma filter_sieve: "filter P (sieve keep before rows) = sieve (\<lambda>bef r aft. P r \<and> keep bef r aft) before rows"
  by (induction rows arbitrary: before) auto

lemma length_sieve_mono:
  "(\<And>bef r aft. keep bef r aft \<Longrightarrow> keep' bef r aft \<or> keep'' bef r aft) \<Longrightarrow>
   length (sieve keep before rows) \<le> length (sieve keep' before rows) + length (sieve keep'' before rows)"
  by (induction rows arbitrary: before) (auto simp: le_SucI)

text \<open>A sieve keeps the newest row with a property when its test passes that row.\<close>

lemma sieve_latest:
  assumes keep: "\<And>before b after. \<lbrakk>b \<in> set rows; P b; newestAmong (filter P before) b (filter P after)\<rbrakk> \<Longrightarrow>
      keep before b after"
  shows "latestObservation (filter P (sieve keep [] rows)) = latestObservation (filter P rows)"
proof (cases "latestObservation (filter P rows)")
  case None
  then have "filter P rows = []" by (simp add: latestObservation_None)
  then have "filter P (sieve keep [] rows) = []" using set_sieve [of keep "[]" rows] by (auto simp: filter_empty_conv)
  with None show ?thesis by (simp add: latestObservation_None)
next
  case (Some b)
  then obtain us vs where us: "filter P rows = us @ b # vs" "newestAmong us b vs"
    using latestObservation_split by blast
  from filter_split [OF us(1)] us(2)
  obtain xs ys where split: "rows = xs @ b # ys" "newestAmong (filter P xs) b (filter P ys)" "P b" by auto
  then have "keep ([] @ xs) b ys" using keep [of b xs ys] by simp
  then obtain xs' ys' where kept: "sieve keep [] rows = xs' @ b # ys'" "set xs' \<subseteq> set xs" "set ys' \<subseteq> set ys"
    unfolding split(1) using sieve_split [of keep "[]" xs b ys] by auto
  then have "newestAmong (filter P xs') b (filter P ys')"
    using split(2) by (auto simp: newestAmong_def list_all_iff)
  with kept(1) split(3) Some show ?thesis by (simp add: latestObservation_last)
qed

text \<open>At most one row is the newest with a property.\<close>

lemma sieve_newest_none:
  "x \<in> set before \<Longrightarrow> P x \<Longrightarrow> (\<And>y. y \<in> set rows \<Longrightarrow> P y \<Longrightarrow> ob_observed_at y < ob_observed_at x) \<Longrightarrow>
   sieve (\<lambda>bef r aft. P r \<and> newestAmong (filter P bef) r (filter P aft)) before rows = []"
  by (induction rows arbitrary: before) (fastforce simp: newestAmong_def list_all_iff)+

lemma sieve_newest_unique:
  "length (sieve (\<lambda>bef r aft. P r \<and> newestAmong (filter P bef) r (filter P aft)) before rows) \<le> 1"
proof (induction rows arbitrary: before)
  case (Cons r rows)
  show ?case
  proof (cases "P r \<and> newestAmong (filter P before) r (filter P rows)")
    case True
    then have "sieve (\<lambda>bef r aft. P r \<and> newestAmong (filter P bef) r (filter P aft)) (before @ [r]) rows = []"
      by (intro sieve_newest_none [of r]) (auto simp: newestAmong_def list_all_iff)
    then show ?thesis by (simp add: True)
  qed (use Cons.IH [of "before @ [r]"] in auto)
qed simp

section \<open>What a purge keeps\<close>

abbreviation originRow :: "string \<Rightarrow> observation_row \<Rightarrow> bool" where
  "originRow o1 r \<equiv> ob_origin r = o1"

abbreviation authoritativeRow :: "string \<Rightarrow> observation_row \<Rightarrow> bool" where
  "authoritativeRow o1 r \<equiv> authoritativeText (ob_outcome r) \<and> ob_origin r = o1"

definition observationsKnown :: "store_db \<Rightarrow> bool" where
  "observationsKnown db \<longleftrightarrow> list_all (\<lambda>r. db_origins db (ob_origin r) \<noteq> None) (db_observations db)"

lemma effectiveRow_eq: "effectiveRow db o1 = latestObservation (filter (authoritativeRow o1) (db_observations db))"
  by (simp add: effectiveRow_def filter_filter conj_commute)

lemma purge_observations:
  "db_observations (purgeObservations cutoff db) =
     sieve (\<lambda>before r after. \<not> (ob_observed_at r < cutoff \<and> \<not> protectedObservation db before r after)) []
       (db_observations db)"
  by (simp add: purgeObservations_def)

lemma purge_tables [simp]:
  "db_origins (purgeObservations cutoff db) = db_origins db" "db_reprobe (purgeObservations cutoff db) = db_reprobe db"
  by (simp_all add: purgeObservations_def)

lemma purge_latest_origin:
  assumes "observationsKnown db"
  shows "latestObservation (filter (originRow o1) (db_observations (purgeObservations cutoff db))) =
    latestObservation (filter (originRow o1) (db_observations db))"
  unfolding purge_observations
  by (rule sieve_latest) (use assms in \<open>auto simp: observationsKnown_def list_all_iff protectedObservation_def Let_def\<close>)

lemma purge_effectiveRow:
  assumes "observationsKnown db"
  shows "effectiveRow (purgeObservations cutoff db) o1 = effectiveRow db o1"
  unfolding effectiveRow_eq purge_observations
  by (rule sieve_latest)
    (use assms in \<open>auto simp: observationsKnown_def list_all_iff protectedObservation_def Let_def filter_filter conj_commute\<close>)

lemma authoritative_origins:
  "set (map ob_origin (filter (\<lambda>r. authoritativeText (ob_outcome r)) (db_observations db))) =
     {o1. effectiveRow db o1 \<noteq> None}"
  by (force simp: effectiveRow_eq latestObservation_None filter_empty_conv)

lemma purge_verifiedRows:
  assumes "observationsKnown db"
  shows "verifiedRows (purgeObservations cutoff db) = verifiedRows db"
proof -
  have "sort (remdups (map ob_origin (filter (\<lambda>r. authoritativeText (ob_outcome r))
          (db_observations (purgeObservations cutoff db))))) =
        sort (remdups (map ob_origin (filter (\<lambda>r. authoritativeText (ob_outcome r)) (db_observations db))))"
    using authoritative_origins [of db] authoritative_origins [of "purgeObservations cutoff db"]
    by (intro sorted_distinct_set_unique) (simp_all add: purge_effectiveRow [OF assms] del: set_map set_filter)
  moreover have "effectiveRow (purgeObservations cutoff db) = effectiveRow db"
    using purge_effectiveRow [OF assms] by blast
  ultimately show ?thesis by (simp add: verifiedRows_def)
qed

lemma purge_OriginState:
  assumes "observationsKnown db"
  shows "OriginState present ctx pool dbErr source (purgeObservations cutoff db) = OriginState present ctx pool dbErr source db"
proof -
  let ?rows = "\<lambda>db. filter (originRow (origin_String source)) (db_observations db)"
  have eff: "effectiveOf (?rows d) =
      (case effectiveRow d (origin_String source) of
         None \<Rightarrow> \<lparr>eff_State = StateUnknown, eff_Observation = observation_zero\<rparr>
       | Some row \<Rightarrow> \<lparr>eff_State = effectiveStateForOutcome (outcomeFromText (ob_outcome row)),
                      eff_Observation = observationFromStored row\<rparr>)" for d
    by (simp add: effectiveOf_def effectiveRow_def)
  show ?thesis
    unfolding OriginState_def Let_def eff
    using purge_latest_origin [OF assms, of "origin_String source" cutoff]
      purge_effectiveRow [OF assms, of cutoff "origin_String source"]
    by (simp only: purge_tables)
qed

lemma purge_registryRows:
  assumes "observationsKnown db"
  shows "registryRows names (purgeObservations cutoff db) = registryRows names db"
  unfolding registryRows_def purge_tables purge_effectiveRow [OF assms] ..

lemma purge_subseq: "subseq (db_observations (purgeObservations cutoff db)) (db_observations db)"
  by (simp add: purge_observations subseq_sieve)

lemma purge_recent:
  "filter (\<lambda>r. cutoff \<le> ob_observed_at r) (db_observations (purgeObservations cutoff db)) =
     filter (\<lambda>r. cutoff \<le> ob_observed_at r) (db_observations db)"
proof -
  have "filter (\<lambda>r. cutoff \<le> ob_observed_at r)
          (sieve (\<lambda>bef r aft. \<not> (ob_observed_at r < cutoff \<and> \<not> K bef r aft)) before rows) =
        filter (\<lambda>r. cutoff \<le> ob_observed_at r) rows" for K before rows
    by (induction rows arbitrary: before) auto
  then show ?thesis by (simp add: purge_observations)
qed

lemma purge_old_bounded:
  "length (filter (\<lambda>r. originRow o1 r \<and> ob_observed_at r < cutoff) (db_observations (purgeObservations cutoff db))) \<le> 2"
proof -
  let ?K = "\<lambda>bef r aft. (originRow o1 r \<and> ob_observed_at r < cutoff) \<and>
      \<not> (ob_observed_at r < cutoff \<and> \<not> protectedObservation db bef r aft)"
  let ?N = "\<lambda>P bef r aft. P r \<and> newestAmong (filter P bef) r (filter P aft)"
  have "length (sieve ?K [] (db_observations db)) \<le>
      length (sieve (?N (originRow o1)) [] (db_observations db)) + length (sieve (?N (authoritativeRow o1)) [] (db_observations db))"
    by (rule length_sieve_mono) (auto simp: protectedObservation_def Let_def filter_filter conj_commute)
  then show ?thesis
    using sieve_newest_unique [of "originRow o1" "[]" "db_observations db"]
      sieve_newest_unique [of "authoritativeRow o1" "[]" "db_observations db"]
    by (simp add: purge_observations filter_sieve)
qed


section \<open>What a recorded store yields\<close>

lemma CollectRows_all:
  "list_all (\<lambda>r. isl (scan r) = False) rows \<Longrightarrow> CollectRows scan rows = Inr (map (projr \<circ> scan) rows)"
  by (induction rows) (auto split: sum.splits)

text \<open>A row that a recording writes for a valid result of a parsed origin.\<close>

definition recordedRow :: "host_lib \<Rightarrow> observation_row \<Rightarrow> bool" where
  "recordedRow lib r \<longleftrightarrow>
     (\<exists>t res. validVerificationResult res \<and>
        Origin.Parse lib (origin_String (vr_Origin res)) = Inr (vr_Origin res) \<and> r = observationOf t res)"

lemma recordedRow_facts:
  assumes "recordedRow lib r"
  shows "knownOutcome (ob_outcome r)"
    and "authoritativeText (ob_outcome r) \<longleftrightarrow>
      outcomeFromText (ob_outcome r) \<notin> {OutcomeUnavailable, OutcomeRobotsDenied}"
    and "outcomeFromText (ob_outcome r) = OutcomeValid \<longleftrightarrow> ob_outcome r = ''valid''"
    and "\<exists>source. Origin.Parse lib (ob_origin r) = Inr source \<and> origin_String source = ob_origin r"
    and "ob_outcome r = ''valid'' \<Longrightarrow> ob_version r = Some 1 \<and> (\<exists>t. ob_identity r = Some t \<and> knownIdentity t)"
    and "ob_outcome r \<noteq> ''valid'' \<Longrightarrow> ob_version r = None \<and> ob_identity r = None"
proof -
  obtain t res where res: "validVerificationResult res"
      "Origin.Parse lib (origin_String (vr_Origin res)) = Inr (vr_Origin res)" "r = observationOf t res"
    using assms by (auto simp: recordedRow_def)
  have row: "ob_outcome r = outcomeText (vr_Outcome res)" "ob_origin r = origin_String (vr_Origin res)"
      "(ob_version r, ob_identity r) = storedDeclarationValues res"
    by (simp_all add: res(3) observationOf_def split: prod.splits)
  have known: "outcomeToText (vr_Outcome res) \<noteq> None"
    using res(1) by (auto simp: validVerificationResult_def split: if_splits)
  then show "knownOutcome (ob_outcome r)"
    and "authoritativeText (ob_outcome r) \<longleftrightarrow>
      outcomeFromText (ob_outcome r) \<notin> {OutcomeUnavailable, OutcomeRobotsDenied}"
    and valid: "outcomeFromText (ob_outcome r) = OutcomeValid \<longleftrightarrow> ob_outcome r = ''valid''"
    by (cases "vr_Outcome res";
        simp add: row(1) outcomeText_def knownOutcome_def authoritativeText_def outcomeFromText_def)+
  show "\<exists>source. Origin.Parse lib (ob_origin r) = Inr source \<and> origin_String source = ob_origin r"
    using res(2) row(2) by auto
  have iff: "vr_Outcome res = OutcomeValid \<longleftrightarrow> ob_outcome r = ''valid''"
    using known by (cases "vr_Outcome res") (simp_all add: row(1) outcomeText_def)
  show "ob_outcome r = ''valid'' \<Longrightarrow> ob_version r = Some 1 \<and> (\<exists>t. ob_identity r = Some t \<and> knownIdentity t)"
    using iff row(3) res(1)
    by (auto simp: storedDeclarationValues_def validVerificationResult_def validIdentity_def knownIdentity_def)
  show "ob_outcome r \<noteq> ''valid'' \<Longrightarrow> ob_version r = None \<and> ob_identity r = None"
    using iff row(3) by (auto simp: storedDeclarationValues_def)
qed

lemma effectiveRow_mem:
  "effectiveRow db o1 = Some r \<Longrightarrow>
   r \<in> set (db_observations db) \<and> ob_origin r = o1 \<and> authoritativeText (ob_outcome r)"
  using latestObservation_max by (fastforce simp: effectiveRow_eq)

text \<open>The current declaration of an origin: that of its latest authoritative row, if it is valid.\<close>

definition declaredBy :: "observation_row option \<Rightarrow> josh_declaration option" where
  "declaredBy joined =
     (case joined of
        None \<Rightarrow> None
      | Some r \<Rightarrow> if ob_outcome r = ''valid'' then Some (obs_Declaration (observationFromStored r)) else None)"

lemma currentDeclaration_recorded:
  assumes "recordedRow lib r" "authoritativeText (ob_outcome r)"
  shows "currentDeclaration (Some r) = Inr (declaredBy (Some r))"
  using recordedRow_facts [OF assms(1)] assms(2)
  by (cases "ob_outcome r = ''valid''")
    (auto simp: currentDeclaration_def declaredBy_def observationFromStored_def)

lemma scanVerifiedOrigin_recorded:
  assumes "recordedRow lib r" "ob_outcome r = ''valid''"
  shows "\<exists>source. Origin.Parse lib (ob_origin r) = Inr source \<and> origin_String source = ob_origin r \<and>
    scanVerifiedOrigin lib (\<lambda>_. None) r =
      Inr \<lparr>vo_Origin = source, vo_Declaration = obs_Declaration (observationFromStored r)\<rparr>"
  using recordedRow_facts(4,5) [OF assms(1)] assms(2)
  by (auto simp: scanVerifiedOrigin_def observationFromStored_def)

lemma scanRegistryOrigin_recorded:
  assumes sum: "summarized db" and rec: "list_all (recordedRow lib) (db_observations db)"
    and e: "earliestValid (observationsOf db o1) = Some e"
  shows "\<exists>source entry. Origin.Parse lib o1 = Inr source \<and> origin_String source = o1 \<and>
    scanRegistryOrigin lib (\<lambda>_. None)
      \<lparr>rr_origin = o1, rr_stored = originSummary (observationsOf db o1), rr_effective = effectiveRow db o1\<rparr> = Inr entry \<and>
    ro_Origin entry = source \<and> ro_FirstParticipatedAt entry = ob_observed_at e \<and>
    ro_CurrentDeclaration entry = declaredBy (effectiveRow db o1)"
proof -
  have mem: "r \<in> set (observationsOf db o1) \<Longrightarrow> recordedRow lib r \<and> ob_origin r = o1" for r
    using rec by (auto simp: observationsOf_def list_all_iff)
  have ev: "e \<in> set (observationsOf db o1)" "ob_outcome e = ''valid''"
    using earliestValid_min [OF e] by blast+
  then obtain l where l: "latestObservation (observationsOf db o1) = Some l"
    using latestObservation_None [of "observationsOf db o1"] by (cases "latestObservation (observationsOf db o1)") auto
  have "authoritativeRow o1 e" "e \<in> set (db_observations db)"
    using ev(1) by (simp_all add: ev(2) authoritativeText_def observationsOf_def)
  then obtain r where r: "effectiveRow db o1 = Some r"
    using latestObservation_None by (fastforce simp: effectiveRow_eq filter_empty_conv)
  then have "currentDeclaration (effectiveRow db o1) = Inr (declaredBy (effectiveRow db o1))"
    using effectiveRow_mem [OF r] rec currentDeclaration_recorded [of lib r] by (simp add: list_all_iff)
  moreover have "l \<in> set (observationsOf db o1)" "ob_observed_at e \<le> ob_observed_at l"
    using latestObservation_max [OF l] ev(1) by simp_all
  moreover from this(1) have "knownOutcome (ob_outcome l)" using mem recordedRow_facts(1) by metis
  moreover obtain source where "Origin.Parse lib o1 = Inr source" "origin_String source = o1"
    using recordedRow_facts(4) mem [OF ev(1)] by metis
  moreover have "ob_version e = Some 1 \<and> (\<exists>t. ob_identity e = Some t \<and> knownIdentity t)"
    using recordedRow_facts(5) mem [OF ev(1)] ev(2) by blast
  ultimately show ?thesis
    by (auto simp: scanRegistryOrigin_def originSummary_def e l)
qed


lemma map_filter_conv: "List.map_filter f xs = map (the \<circ> f) (filter (\<lambda>x. f x \<noteq> None) xs)"
  by (induction xs) (auto simp: List.map_filter_simps split: option.splits)

definition currentlyValid :: "store_db \<Rightarrow> string \<Rightarrow> bool" where
  "currentlyValid db o1 \<longleftrightarrow> declaredBy (effectiveRow db o1) \<noteq> None"

lemma currentlyValid_row: "currentlyValid db o1 \<longleftrightarrow> (\<exists>r. effectiveRow db o1 = Some r \<and> ob_outcome r = ''valid'')"
  by (auto simp: currentlyValid_def declaredBy_def split: option.splits if_splits)

lemma currentlyValid_participated: "currentlyValid db o1 \<Longrightarrow> earliestValid (observationsOf db o1) \<noteq> None"
  by (auto simp: currentlyValid_row earliestValid_None observationsOf_def dest!: effectiveRow_mem)

text \<open>The rows of the two queries, over the names in order.\<close>

lemma verifiedRows_names:
  assumes "distinct names" and "\<And>o1. currentlyValid db o1 \<Longrightarrow> o1 \<in> set names"
  shows "verifiedRows db = map (the \<circ> effectiveRow db) (filter (currentlyValid db) (sort names))"
proof -
  let ?S = "sort (remdups (map ob_origin (filter (\<lambda>r. authoritativeText (ob_outcome r)) (db_observations db))))"
  have "verifiedRows db = map (the \<circ> effectiveRow db) (filter (currentlyValid db) ?S)"
    unfolding verifiedRows_def map_filter_conv filter_map filter_filter
    by (rule arg_cong [where f = "map (the \<circ> effectiveRow db)"], rule filter_cong)
      (auto simp: currentlyValid_row)
  moreover have "set (filter (currentlyValid db) ?S) = set (filter (currentlyValid db) (sort names))"
  proof -
    have "set ?S = {o1. effectiveRow db o1 \<noteq> None}" using authoritative_origins [of db] by (simp del: set_map set_filter)
    then show ?thesis using assms(2) by (auto simp: currentlyValid_row simp del: set_map)
  qed
  then have "filter (currentlyValid db) ?S = filter (currentlyValid db) (sort names)"
    using assms(1) by (intro sorted_distinct_set_unique) (simp_all add: sorted_filter [where f = "\<lambda>x. x", simplified])
  ultimately show ?thesis by simp
qed

lemma registryRows_names:
  assumes sum: "summarized db" and names: "set names = dom (db_origins db)"
  shows "registryRows names db =
    map (\<lambda>o1. \<lparr>rr_origin = o1, rr_stored = originSummary (observationsOf db o1), rr_effective = effectiveRow db o1\<rparr>)
      (filter (\<lambda>o1. earliestValid (observationsOf db o1) \<noteq> None) (sort names))"
proof -
  have row: "db_origins db o1 = Some (originSummary (observationsOf db o1))" if "o1 \<in> set names" for o1
    using that names sum by (metis domIff option.distinct(1) summarized_def)
  show ?thesis
    unfolding registryRows_def map_filter_conv
  proof (rule map_cong)
    show "filter (\<lambda>o1. (case db_origins db o1 of None \<Rightarrow> None
             | Some row \<Rightarrow> if or_first_participated_at row = None then None
                 else Some \<lparr>rr_origin = o1, rr_stored = row, rr_effective = effectiveRow db o1\<rparr>) \<noteq> None) (sort names) =
          filter (\<lambda>o1. earliestValid (observationsOf db o1) \<noteq> None) (sort names)"
      by (rule filter_cong) (auto simp: row originSummary_def)
  qed (auto simp: row originSummary_def)
qed


section \<open>Properties\<close>

text \<open>
  C13. Retention never changes what is known: after a purge, the state of every origin, the verified origins and
  the registry read as before, every observation within the retention is still there and nothing is added,
  while of each origin at most two older observations remain when the purge succeeds.
\<close>
theorem PurgeOperationalHistory_preserves_state:
  assumes "observationsKnown (hd_store tables)"
    and "PurgeOperationalHistory s ctx dbErr now retention tables = (err, tables')"
  shows "OriginState present ctx' pool dbErr' source (hd_store tables') =
      OriginState present ctx' pool dbErr' source (hd_store tables) \<and>
    VerifiedOrigins lib present ctx' pool dbErr' rowErr (hd_store tables') =
      VerifiedOrigins lib present ctx' pool dbErr' rowErr (hd_store tables) \<and>
    RegistryOrigins lib present ctx' pool dbErr' rowErr' names (hd_store tables') =
      RegistryOrigins lib present ctx' pool dbErr' rowErr' names (hd_store tables) \<and>
    subseq (db_observations (hd_store tables')) (db_observations (hd_store tables)) \<and>
    filter (\<lambda>r. now - retention \<le> ob_observed_at r) (db_observations (hd_store tables')) =
      filter (\<lambda>r. now - retention \<le> ob_observed_at r) (db_observations (hd_store tables)) \<and>
    (err = None \<longrightarrow>
      length (filter (\<lambda>r. ob_origin r = o1 \<and> ob_observed_at r < now - retention)
                (db_observations (hd_store tables'))) \<le> 2)"
proof -
  consider "hd_store tables' = hd_store tables" "err \<noteq> None"
    | "hd_store tables' = purgeObservations (now - retention) (hd_store tables)"
    using assms(2) by (auto simp: PurgeOperationalHistory_def dest: sym split: option.splits if_splits)
  then show ?thesis
  proof cases
    case 2
    show ?thesis
      unfolding 2 VerifiedOrigins_def RegistryOrigins_def purge_OriginState [OF assms(1)]
        purge_verifiedRows [OF assms(1)] purge_registryRows [OF assms(1)]
      by (intro conjI refl impI purge_subseq purge_recent purge_old_bounded)
  qed auto
qed

definition exampleDiscovery :: discovery_handle where
  "exampleDiscovery = \<lparr>dh_pool = True, dh_clock = True, dh_automatic = automatic_config_zero\<rparr>"

text \<open>The origin of the example was observed valid, absent and valid again; a purge removes the first of them.\<close>

definition exampleHistory :: history_db where
  "exampleHistory =
     \<lparr>hd_store = fold (\<lambda>(t, res) db. recordObservation (observationOf t res) False db)
          [(5, exampleResult), (6, resultOf exampleOrigin OutcomeAbsent), (9, exampleResult)] emptyStore,
      hd_events = [], hd_heartbeats = []\<rparr>"

theorem PurgeOperationalHistory_preserves_state_witness:
  "OriginState True (Some None) True None exampleOrigin
     (hd_store (snd (PurgeOperationalHistory (Some exampleDiscovery) (Some None) None 20 5 exampleHistory))) =
   OriginState True (Some None) True None exampleOrigin (hd_store exampleHistory) \<and>
   map ob_observed_at (db_observations (hd_store exampleHistory)) = [5, 6, 9] \<and>
   map ob_observed_at (db_observations
     (hd_store (snd (PurgeOperationalHistory (Some exampleDiscovery) (Some None) None 20 5 exampleHistory)))) = [9]"
proof -
  have known: "observationsKnown (hd_store exampleHistory)"
    by (simp add: observationsKnown_def exampleHistory_def recordObservation_def emptyStore_def)
  have "map ob_observed_at (db_observations (hd_store exampleHistory)) = [5, 6, 9]"
    "map ob_observed_at (db_observations
      (hd_store (snd (PurgeOperationalHistory (Some exampleDiscovery) (Some None) None 20 5 exampleHistory)))) = [9]"
    by (auto simp: PurgeOperationalHistory_def discovery_validate_def exampleDiscovery_def purgeObservations_def exampleHistory_def
        recordObservation_def observationOf_def protectedObservation_def newestAmong_def exampleResult_def
        resultOf_def storedDeclarationValues_def emptyStore_def outcomeText_def authoritativeText_def)
  then show ?thesis
    using PurgeOperationalHistory_preserves_state [OF known prod.collapse [symmetric]] by blast
qed

text \<open>
  The registry agrees with the verification state: when the store holds what recordings wrote, both reads
  succeed; the registry lists, in order, exactly the origins with a valid observation ever, and the verified
  origins are exactly its entries with a current declaration, with that declaration.
\<close>
theorem registry_agrees_with_verified:
  assumes "summarized db" and "list_all (recordedRow lib) (db_observations db)"
    and "distinct names" and "set names = dom (db_origins db)"
  shows "\<exists>registry. RegistryOrigins lib True (Some None) True None (\<lambda>_. None) names db = Inr registry \<and>
    map (\<lambda>e. origin_String (ro_Origin e)) registry =
      filter (\<lambda>o1. earliestValid (observationsOf db o1) \<noteq> None) (sort names) \<and>
    VerifiedOrigins lib True (Some None) True None (\<lambda>_. None) db =
      Inr (List.map_filter (\<lambda>e. map_option (\<lambda>d. \<lparr>vo_Origin = ro_Origin e, vo_Declaration = d\<rparr>) (ro_CurrentDeclaration e))
             registry)"
proof -
  let ?P = "\<lambda>o1. earliestValid (observationsOf db o1) \<noteq> None"
  let ?row = "\<lambda>o1. \<lparr>rr_origin = o1, rr_stored = originSummary (observationsOf db o1), rr_effective = effectiveRow db o1\<rparr>"
  let ?e = "\<lambda>o1. projr (scanRegistryOrigin lib (\<lambda>_. None) (?row o1))"
  let ?v = "\<lambda>e. map_option (\<lambda>d. \<lparr>vo_Origin = ro_Origin e, vo_Declaration = d\<rparr>) (ro_CurrentDeclaration e)"
  have entry: "\<not> isl (scanRegistryOrigin lib (\<lambda>_. None) (?row o1)) \<and>
      Origin.Parse lib o1 = Inr (ro_Origin (?e o1)) \<and> origin_String (ro_Origin (?e o1)) = o1 \<and>
      ro_CurrentDeclaration (?e o1) = declaredBy (effectiveRow db o1)" if "?P o1" for o1
    using scanRegistryOrigin_recorded [OF assms(1,2), of o1] that by (cases "earliestValid (observationsOf db o1)") auto
  have registry: "RegistryOrigins lib True (Some None) True None (\<lambda>_. None) names db = Inr (map ?e (filter ?P (sort names)))"
    using CollectRows_all [of "scanRegistryOrigin lib (\<lambda>_. None)" "registryRows names db"] entry
    by (simp add: RegistryOrigins_def store_validate_def registryRows_names [OF assms(1,4)] list_all_iff o_def)
  have dom: "currentlyValid db o1 \<Longrightarrow> o1 \<in> set names" for o1
    using currentlyValid_participated [of db o1] assms(1,4) by (auto simp: summarized_def earliestValid_def dom_def)
  have scan: "\<not> isl (scanVerifiedOrigin lib (\<lambda>_. None) (the (effectiveRow db o1))) \<and>
      projr (scanVerifiedOrigin lib (\<lambda>_. None) (the (effectiveRow db o1))) = the (?v (?e o1))" if valid: "currentlyValid db o1" for o1
  proof -
    obtain r where r: "effectiveRow db o1 = Some r" "ob_outcome r = ''valid''" using valid by (auto simp: currentlyValid_row)
    with effectiveRow_mem [OF r(1)] assms(2) have "recordedRow lib r" "ob_origin r = o1" by (simp_all add: list_all_iff)
    with scanVerifiedOrigin_recorded [of lib r] r entry [OF currentlyValid_participated [OF valid]]
    show ?thesis by (auto simp: declaredBy_def)
  qed
  have "VerifiedOrigins lib True (Some None) True None (\<lambda>_. None) db =
      Inr (map (\<lambda>o1. the (?v (?e o1))) (filter (currentlyValid db) (sort names)))"
    using CollectRows_all [of "scanVerifiedOrigin lib (\<lambda>_. None)" "verifiedRows db"] scan
    by (simp add: VerifiedOrigins_def store_validate_def verifiedRows_names [OF assms(3) dom] list_all_iff o_def)
  moreover have "List.map_filter ?v (map ?e (filter ?P (sort names))) =
      map (\<lambda>o1. the (?v (?e o1))) (filter (currentlyValid db) (sort names))"
    unfolding map_filter_conv filter_map filter_filter map_map o_def
    by (rule map_cong, rule filter_cong)
      (use entry currentlyValid_participated in \<open>auto simp: currentlyValid_def\<close>)
  moreover have "map (\<lambda>e. origin_String (ro_Origin e)) (map ?e (filter ?P (sort names))) = filter ?P (sort names)"
    unfolding map_map by (rule map_idI) (use entry in auto)
  ultimately show ?thesis using registry by (intro exI [of _ "map ?e (filter ?P (sort names))"]) simp
qed


definition exampleParticipant :: verification_result where
  "exampleParticipant = exampleResult\<lparr>vr_Origin := exampleSource\<rparr>"

definition exampleRegistry :: store_db where
  "exampleRegistry = recordObservation (observationOf 5 exampleParticipant) False emptyStore"

theorem registry_agrees_with_verified_witness:
  "\<exists>e. RegistryOrigins domainLib True (Some None) True None (\<lambda>_. None) [origin_String exampleSource] exampleRegistry = Inr [e] \<and>
     origin_String (ro_Origin e) = origin_String exampleSource"
proof -
  have row: "db_observations exampleRegistry = [observationOf 5 exampleParticipant]"
    "dom (db_origins exampleRegistry) = {origin_String exampleSource}"
    by (simp_all add: exampleRegistry_def recordObservation_def emptyStore_def exampleParticipant_def observationOf_def
        split: prod.splits)
  have "summarized emptyStore" by (simp add: summarized_def emptyStore_def observationsOf_def)
  then have sum: "summarized exampleRegistry" by (simp add: exampleRegistry_def recordObservation_summarized)
  have "validVerificationResult exampleParticipant"
    by (simp add: validVerificationResult_def exampleParticipant_def exampleResult_def resultOf_def validIdentity_def)
  then have "recordedRow domainLib (observationOf 5 exampleParticipant)"
    using exampleSource_parse unfolding recordedRow_def
    by (intro exI [of _ 5] exI [of _ exampleParticipant]) (simp add: exampleParticipant_def)
  then have rec: "list_all (recordedRow domainLib) (db_observations exampleRegistry)" by (simp add: row)
  have "filter (\<lambda>o1. earliestValid (observationsOf exampleRegistry o1) \<noteq> None) (sort [origin_String exampleSource]) =
      [origin_String exampleSource]"
    by (simp add: observationsOf_def row(1) earliestValid_def observationOf_def exampleParticipant_def exampleResult_def
        resultOf_def outcomeText_def storedDeclarationValues_def)
  then show ?thesis
    using registry_agrees_with_verified [OF sum rec, of "[origin_String exampleSource]"] row(2)
    by (auto simp: map_eq_Cons_conv)
qed

end
