(* ===== verification/Public_Data.thy ===== *)
theory Public_Data
  imports Files Encoding History "HOL-Library.Multiset"
begin

text \<open>
  The public registry, package \<^verbatim>\<open>internal/publicdata\<close>: \<^verbatim>\<open>publicdata.go\<close> and \<^verbatim>\<open>registry.go\<close> project the registry
  origins of the store to the files of a snapshot, \<^verbatim>\<open>writer.go\<close> materializes a snapshot in a staging directory and
  renames it into place. SHA-256 is the argument \<open>sha256\<close>, from bytes to the 32 bytes of the digest.
\<close>

section \<open>Files and documents\<close>

definition FormatVersion :: int where "FormatVersion = 1"

definition ErrDuplicateOrigin where "ErrDuplicateOrigin = Sentinel ''publicdata: duplicate origin''"
definition ErrInvalidRegistryOrigin where "ErrInvalidRegistryOrigin = Sentinel ''publicdata: registry origin is invalid''"

record snapshot_entry =
  f_Path :: string
  f_Data :: string

record declaration_document =
  doc_Version :: int
  doc_Josh :: "bool option"

definition declarationJSON :: "declaration_document \<Rightarrow> json" where
  "declarationJSON doc =
     JObject ((''version'', JInt (doc_Version doc)) # (case doc_Josh doc of None \<Rightarrow> [] | Some b \<Rightarrow> [(''josh'', JBool b)]))"

fun validPublicIdentity :: "identity \<Rightarrow> bool" where
  "validPublicIdentity IdentityUndeclared = True"
| "validPublicIdentity IdentityAffirmed = True"
| "validPublicIdentity IdentityDeclined = True"
| "validPublicIdentity (IdentityOther _) = False"

definition projectDeclaration :: "josh_declaration \<Rightarrow> declaration_document" where
  "projectDeclaration source =
     \<lparr>doc_Version = Version source,
      doc_Josh = (case Identity source of IdentityAffirmed \<Rightarrow> Some True | IdentityDeclined \<Rightarrow> Some False | _ \<Rightarrow> None)\<rparr>"

definition pathForOrigin :: "(string \<Rightarrow> string) \<Rightarrow> string \<Rightarrow> string" where
  "pathForOrigin sha256 canonical =
     (let encoded = hexText (sha256 canonical) in ''nodes/'' @ take 2 encoded @ ''/'' @ encoded @ ''.json'')"

text \<open>The error of the encoder is dropped, with its empty output.\<close>

definition marshalPublicJSON :: "json \<Rightarrow> string" where
  "marshalPublicJSON value = (case MarshalIndent 0 value of Some data \<Rightarrow> data | None \<Rightarrow> []) @ [CHR 0x0A]"

section \<open>The registry\<close>

fun publicOutcomeTexts :: "outcome \<Rightarrow> string" where
  "publicOutcomeTexts OutcomeValid = ''valid''"
| "publicOutcomeTexts OutcomeAbsent = ''absent''"
| "publicOutcomeTexts OutcomeInvalid = ''invalid''"
| "publicOutcomeTexts OutcomeUnsupportedVersion = ''unsupported_version''"
| "publicOutcomeTexts OutcomeUnavailable = ''unavailable''"
| "publicOutcomeTexts OutcomeRobotsDenied = ''robots_denied''"
| "publicOutcomeTexts OutcomeCrossOriginRedirect = ''cross_origin_redirect''"
| "publicOutcomeTexts _ = []"

definition validRegistryDeclaration :: "josh_declaration \<Rightarrow> bool" where
  "validRegistryDeclaration source \<longleftrightarrow> Version source = 1 \<and> validPublicIdentity (Identity source)"

definition validRegistryOrigin :: "registry_origin \<Rightarrow> bool" where
  "validRegistryOrigin p =
     (if origin_String (ro_Origin p) = [] \<or> ro_FirstParticipatedAt p = 0 \<or> ro_LatestDeclarationCheckAt p = 0 \<or>
         ro_FirstParticipatedAt p > ro_LatestDeclarationCheckAt p \<or> \<not> validRegistryDeclaration (ro_InitialDeclaration p)
      then False
      else if (case ro_CurrentDeclaration p of None \<Rightarrow> False | Some d \<Rightarrow> \<not> validRegistryDeclaration d) then False
      else (case ro_LatestDeclarationCheckOutcome p of
              OutcomeValid \<Rightarrow> ro_CurrentDeclaration p \<noteq> None
            | OutcomeAbsent \<Rightarrow> ro_CurrentDeclaration p = None
            | OutcomeInvalid \<Rightarrow> ro_CurrentDeclaration p = None
            | OutcomeUnsupportedVersion \<Rightarrow> ro_CurrentDeclaration p = None
            | OutcomeCrossOriginRedirect \<Rightarrow> ro_CurrentDeclaration p = None
            | OutcomeUnavailable \<Rightarrow> True
            | OutcomeRobotsDenied \<Rightarrow> True
            | _ \<Rightarrow> False))"

definition projectOptionalDeclaration :: "josh_declaration option \<Rightarrow> declaration_document option" where
  "projectOptionalDeclaration source = map_option projectDeclaration source"

text \<open>The fields an entry of the registry and the document of a node share, in their order.\<close>

definition historyFields :: "registry_origin \<Rightarrow> (string \<times> json) list" where
  "historyFields p =
     [(''first_participated_at'', JTime (ro_FirstParticipatedAt p)),
      (''initial_declaration'', declarationJSON (projectDeclaration (ro_InitialDeclaration p))),
      (''latest_declaration_check_at'', JTime (ro_LatestDeclarationCheckAt p)),
      (''latest_declaration_check_outcome'', JText (publicOutcomeTexts (ro_LatestDeclarationCheckOutcome p)))] @
     (case projectOptionalDeclaration (ro_CurrentDeclaration p) of
        None \<Rightarrow> [] | Some doc \<Rightarrow> [(''declaration'', declarationJSON doc)])"

definition historyRegistryEntry :: "(string \<Rightarrow> string) \<Rightarrow> registry_origin \<Rightarrow> json" where
  "historyRegistryEntry sha256 p =
     JObject ([(''origin'', JText (origin_String (ro_Origin p))),
               (''path'', JText (pathForOrigin sha256 (origin_String (ro_Origin p))))] @ historyFields p)"

definition historyNodeDocument :: "registry_origin \<Rightarrow> json" where
  "historyNodeDocument p =
     JObject ([(''format_version'', JInt FormatVersion), (''origin'', JText (origin_String (ro_Origin p)))] @ historyFields p)"

definition historyRegistryDocument :: "(string \<Rightarrow> string) \<Rightarrow> registry_origin list \<Rightarrow> json" where
  "historyRegistryDocument sha256 ordered =
     JObject [(''format_version'', JInt FormatVersion), (''nodes'', JArray (map (historyRegistryEntry sha256) ordered))]"

fun checkParticipants :: "string list \<Rightarrow> registry_origin list \<Rightarrow> go_error option" where
  "checkParticipants seen [] = None"
| "checkParticipants seen (p # ps) =
     (if \<not> validRegistryOrigin p then Some (Wrap [] [ErrInvalidRegistryOrigin])
      else if origin_String (ro_Origin p) \<in> set seen then Some (Wrap (origin_String (ro_Origin p)) [ErrDuplicateOrigin])
      else checkParticipants (origin_String (ro_Origin p) # seen) ps)"

definition nodeFile :: "(string \<Rightarrow> string) \<Rightarrow> registry_origin \<Rightarrow> snapshot_entry" where
  "nodeFile sha256 p =
     \<lparr>f_Path = pathForOrigin sha256 (origin_String (ro_Origin p)), f_Data = marshalPublicJSON (historyNodeDocument p)\<rparr>"

text \<open>The origins are distinct here, so the order of equal keys does not arise; equal paths need a collision of SHA-256.\<close>

definition BuildRegistry :: "(string \<Rightarrow> string) \<Rightarrow> registry_origin list \<Rightarrow> go_error + snapshot_entry list" where
  "BuildRegistry sha256 participants =
     (case checkParticipants [] participants of
        Some err \<Rightarrow> Inl err
      | None \<Rightarrow>
          (let ordered = sort_key (\<lambda>p. origin_String (ro_Origin p)) participants
           in Inr (sort_key f_Path
                (map (nodeFile sha256) ordered @
                 [\<lparr>f_Path = ''registry.json'', f_Data = marshalPublicJSON (historyRegistryDocument sha256 ordered)\<rparr>]))))"

section \<open>The writer\<close>

definition ErrInvalidContext where "ErrInvalidContext = Sentinel ''publicdata: context is nil''"
definition ErrInvalidOutputRoot where "ErrInvalidOutputRoot = Sentinel ''publicdata: output root is invalid''"
definition ErrDestinationExists where "ErrDestinationExists = Sentinel ''publicdata: destination exists''"
definition ErrInvalidOutputPath where "ErrInvalidOutputPath = Sentinel ''publicdata: output path is invalid''"
definition ErrDuplicateOutputPath where "ErrDuplicateOutputPath = Sentinel ''publicdata: duplicate output path''"

record 'w file_system =
  fs_Stat :: "string \<Rightarrow> 'w \<Rightarrow> (go_error + node) \<times> 'w"
  fs_Lstat :: "string \<Rightarrow> 'w \<Rightarrow> (go_error + node) \<times> 'w"
  fs_MkdirTemp :: "string \<Rightarrow> string \<Rightarrow> 'w \<Rightarrow> (go_error + string) \<times> 'w"
  fs_Chmod :: "string \<Rightarrow> nat \<Rightarrow> 'w \<Rightarrow> go_error option \<times> 'w"
  fs_MkdirAll :: "string \<Rightarrow> nat \<Rightarrow> 'w \<Rightarrow> go_error option \<times> 'w"
  fs_WriteFile :: "string \<Rightarrow> string \<Rightarrow> nat \<Rightarrow> 'w \<Rightarrow> go_error option \<times> 'w"
  fs_Rename :: "string \<Rightarrow> string \<Rightarrow> 'w \<Rightarrow> go_error option \<times> 'w"
  fs_RemoveAll :: "string \<Rightarrow> 'w \<Rightarrow> go_error option \<times> 'w"

text \<open>
  The calls of package \<^verbatim>\<open>os\<close>. \<^verbatim>\<open>Stat\<close> is asked only for the parent of the destination, and the names of a tree have the
  links of their directories resolved, so that following a final link and not following it give the same answer there
  unless the name is a dangling link or one to a file, which \<^verbatim>\<open>WriteDirectory\<close> refuses either way.
\<close>

definition osFileSystem :: "'e machine \<Rightarrow> 'e disk file_system" where
  "osFileSystem mc =
     \<lparr>fs_Stat = os_Lstat mc, fs_Lstat = os_Lstat mc, fs_MkdirTemp = os_MkdirTemp mc, fs_Chmod = os_Chmod mc,
      fs_MkdirAll = os_MkdirAll mc, fs_WriteFile = os_WriteFile mc, fs_Rename = os_Rename mc, fs_RemoveAll = os_RemoveAll mc\<rparr>"

lemma osFileSystem_calls:
  "fs_Stat (osFileSystem mc) = os_Lstat mc" "fs_Lstat (osFileSystem mc) = os_Lstat mc" "fs_MkdirTemp (osFileSystem mc) = os_MkdirTemp mc"
  "fs_Chmod (osFileSystem mc) = os_Chmod mc" "fs_MkdirAll (osFileSystem mc) = os_MkdirAll mc"
  "fs_WriteFile (osFileSystem mc) = os_WriteFile mc" "fs_Rename (osFileSystem mc) = os_Rename mc"
  "fs_RemoveAll (osFileSystem mc) = os_RemoveAll mc"
  by (simp_all add: osFileSystem_def)

definition checkWriterContext :: "'w go_context \<Rightarrow> 'w \<Rightarrow> go_error option" where
  "checkWriterContext ctx w = (case ctx of None \<Rightarrow> Some ErrInvalidContext | Some ctx_Err \<Rightarrow> ctx_Err w)"

definition hasRootDotSegment :: "string \<Rightarrow> bool" where
  "hasRootDotSegment p = list_ex (\<lambda>segment. segment = ''.'' \<or> segment = ''..'') (Split p (CHR ''/''))"

definition outputRootParts :: "string \<Rightarrow> go_error + string \<times> string \<times> string" where
  "outputRootParts p =
     (let cleanRoot = Clean p
      in if p = [] \<or> cleanRoot \<noteq> p \<or> cleanRoot = ''.'' \<or> cleanRoot = ''/'' \<or> CHR 0x5C \<in> set p \<or> hasRootDotSegment p
         then Inl ErrInvalidOutputRoot
         else Inr (cleanRoot, path_Dir cleanRoot, path_Base cleanRoot))"

definition validLogicalPath :: "string \<Rightarrow> bool" where
  "validLogicalPath p =
     (if p = [] \<or> p = ''.'' \<or> isAbs p \<or> HasPrefix p ''/'' \<or> CHR 0x5C \<in> set p \<or> Clean p \<noteq> p then False
      else list_all (\<lambda>segment. \<not> (segment = [] \<or> segment = ''.'' \<or> segment = ''..'')) (Split p (CHR ''/'')))"

fun validateFiles :: "string list \<Rightarrow> snapshot_entry list \<Rightarrow> go_error option" where
  "validateFiles seen [] = None"
| "validateFiles seen (f # files) =
     (if \<not> validLogicalPath (f_Path f) then Some (Wrap (f_Path f) [ErrInvalidOutputPath])
      else if f_Path f \<in> set seen then Some (Wrap (f_Path f) [ErrDuplicateOutputPath])
      else validateFiles (f_Path f # seen) files)"

definition validateLogicalFiles :: "snapshot_entry list \<Rightarrow> go_error option" where
  "validateLogicalFiles files = validateFiles [] files"

definition ensureDestinationAvailable :: "'w file_system \<Rightarrow> string \<Rightarrow> string \<Rightarrow> 'w \<Rightarrow> go_error option \<times> 'w" where
  "ensureDestinationAvailable fs parent rootName w =
     (case fs_Stat fs parent w of
        (Inl err, w) \<Rightarrow> (Some (Wrap ''parent'' [ErrInvalidOutputRoot]), w)
      | (Inr info, w) \<Rightarrow>
          if info \<noteq> Directory then (Some (Wrap ''parent is not a directory'' [ErrInvalidOutputRoot]), w)
          else (case fs_Lstat fs rootName w of
                  (Inr _, w) \<Rightarrow> (Some ErrDestinationExists, w)
                | (Inl err, w) \<Rightarrow>
                    if \<not> errors_Is err errNotExist then (Some (Wrap ''publicdata: inspect destination'' [err]), w)
                    else (None, w)))"

fun writeFiles :: "'w file_system \<Rightarrow> 'w go_context \<Rightarrow> string \<Rightarrow> snapshot_entry list \<Rightarrow> 'w \<Rightarrow> go_error option \<times> 'w" where
  "writeFiles fs ctx staging [] w = (None, w)"
| "writeFiles fs ctx staging (f # files) w =
     (case checkWriterContext ctx w of
        Some err \<Rightarrow> (Some err, w)
      | None \<Rightarrow>
          (let destination = path_Join staging (f_Path f)
           in case fs_MkdirAll fs (path_Dir destination) 0x1ED w of
                (Some err, w) \<Rightarrow> (Some (Wrap ''publicdata: create snapshot directory'' [err]), w)
              | (None, w) \<Rightarrow>
                  (case fs_WriteFile fs destination (f_Data f) 0x1A4 w of
                     (Some err, w) \<Rightarrow> (Some (Wrap ''publicdata: write snapshot file'' [err]), w)
                   | (None, w) \<Rightarrow> writeFiles fs ctx staging files w)))"

text \<open>The work in the staging directory, up to its renaming.\<close>

definition publishStaging ::
    "'w file_system \<Rightarrow> 'w go_context \<Rightarrow> string \<Rightarrow> string \<Rightarrow> string \<Rightarrow> snapshot_entry list \<Rightarrow> 'w \<Rightarrow> go_error option \<times> 'w" where
  "publishStaging fs ctx staging parent cleanRoot files w =
     (case fs_Chmod fs staging 0x1ED w of
        (Some err, w) \<Rightarrow> (Some (Wrap ''publicdata: set staging permissions'' [err]), w)
      | (None, w) \<Rightarrow>
          (case writeFiles fs ctx staging files w of
             (Some err, w) \<Rightarrow> (Some err, w)
           | (None, w) \<Rightarrow>
               (case checkWriterContext ctx w of
                  Some err \<Rightarrow> (Some err, w)
                | None \<Rightarrow>
                    (case ensureDestinationAvailable fs parent cleanRoot w of
                       (Some err, w) \<Rightarrow> (Some err, w)
                     | (None, w) \<Rightarrow>
                         (case fs_Rename fs staging cleanRoot w of
                            (Some err, w) \<Rightarrow> (Some (Wrap ''publicdata: publish snapshot directory'' [err]), w)
                          | (None, w) \<Rightarrow> (None, w))))))"

definition writeDirectory ::
    "'w go_context \<Rightarrow> string \<Rightarrow> snapshot_entry list \<Rightarrow> 'w file_system \<Rightarrow> 'w \<Rightarrow> go_error option \<times> 'w" where
  "writeDirectory ctx rootName files fs w =
     (case checkWriterContext ctx w of
        Some err \<Rightarrow> (Some err, w)
      | None \<Rightarrow>
          (case outputRootParts rootName of
             Inl err \<Rightarrow> (Some err, w)
           | Inr (cleanRoot, parent, base) \<Rightarrow>
               (case validateLogicalFiles files of
                  Some err \<Rightarrow> (Some err, w)
                | None \<Rightarrow>
                    (case ensureDestinationAvailable fs parent cleanRoot w of
                       (Some err, w) \<Rightarrow> (Some err, w)
                     | (None, w) \<Rightarrow>
                         (case checkWriterContext ctx w of
                            Some err \<Rightarrow> (Some err, w)
                          | None \<Rightarrow>
                              (case fs_MkdirTemp fs parent (''.'' @ base @ ''.tmp-'') w of
                                 (Inl err, w) \<Rightarrow> (Some (Wrap ''publicdata: create staging directory'' [err]), w)
                               | (Inr staging, w) \<Rightarrow>
                                   (case publishStaging fs ctx staging parent cleanRoot files w of
                                      (r, w) \<Rightarrow> (r, snd (fs_RemoveAll fs staging w)))))))))"

definition WriteDirectory :: "'e machine \<Rightarrow> 'e disk go_context \<Rightarrow> string \<Rightarrow> snapshot_entry list \<Rightarrow> 'e disk \<Rightarrow> go_error option \<times> 'e disk" where
  "WriteDirectory mc ctx rootName files = writeDirectory ctx rootName files (osFileSystem mc)"

section \<open>What a snapshot looks like on disk\<close>

definition fileMap :: "snapshot_entry list \<Rightarrow> (path_key \<times> string) list" where
  "fileMap files = map (\<lambda>f. (splitPath (f_Path f), f_Data f)) files"

definition snapshotTree :: "snapshot_entry list \<Rightarrow> path_key \<Rightarrow> node option" where
  "snapshotTree files s =
     (case map_of (fileMap files) s of
        Some d \<Rightarrow> Some (Regular d)
      | None \<Rightarrow> if s = [] \<or> list_ex (\<lambda>f. strict_prefix s (splitPath (f_Path f))) files then Some Directory else None)"

definition holdsSnapshot :: "path_key \<Rightarrow> snapshot_entry list \<Rightarrow> tree \<Rightarrow> bool" where
  "holdsSnapshot k files t \<longleftrightarrow> (\<forall>s. map_of t (k @ s) = snapshotTree files s)"

lemma strict_prefix_butlast: "segs \<noteq> [] \<Longrightarrow> strict_prefix s segs \<longleftrightarrow> prefix s (butlast segs)"
  by (cases segs rule: rev_cases) (auto simp: strict_prefix_def dest: prefix_length_le)

text \<open>One more file: its directories are made, and then it is written.\<close>

lemma snapshot_grows:
  assumes "holdsSnapshot k files t" and "wfTree t"
    and "mkdirs (prefixes (k @ butlast (splitPath (f_Path f)))) t = (None, t1)"
    and "writeTree (k @ splitPath (f_Path f)) (f_Data f) t1 = (None, t2)"
    and "f_Path f \<notin> f_Path ` set files"
  shows "holdsSnapshot k (files @ [f]) t2"
  unfolding holdsSnapshot_def
proof
  fix s
  let ?segs = "splitPath (f_Path f)"
  have fresh: "map_of (fileMap files) ?segs = None"
    using assms(5) splitPath_inject by (fastforce simp: map_of_eq_None_iff fileMap_def)
  have t1: "map_of t1 (k @ s) = (if strict_prefix s ?segs then Some Directory else snapshotTree files s)"
  proof (cases "strict_prefix s ?segs")
    case True
    then have "k @ s \<in> set (prefixes (k @ butlast ?segs))" by (simp add: strict_prefix_butlast)
    from mkdirs_made [OF assms(3) this] True show ?thesis by simp
  next
    case False
    then have "k @ s \<notin> set (prefixes (k @ butlast ?segs))" by (simp add: strict_prefix_butlast)
    with mkdirs_keeps [OF assms(3)] assms(1) False show ?thesis by (simp add: holdsSnapshot_def)
  qed
  have dirs: "map_of (fileMap files) s = None" if "strict_prefix s ?segs"
  proof -
    from that have "k @ s \<in> set (prefixes (k @ butlast ?segs))" by (simp add: strict_prefix_butlast)
    from mkdirs_made [OF assms(3) this] assms(1) have "snapshotTree files s \<in> {None, Some Directory}" by (simp add: holdsSnapshot_def)
    then show ?thesis by (auto simp: snapshotTree_def split: option.splits)
  qed
  have app: "map_of (fileMap (files @ [f])) s = (case map_of (fileMap files) s of Some d \<Rightarrow> Some d | None \<Rightarrow> if s = ?segs then Some (f_Data f) else None)"
    by (auto simp: fileMap_def map_add_def split: option.splits)
  from assms(4) show "map_of t2 (k @ s) = snapshotTree (files @ [f]) s"
  proof (cases rule: writeTree_cases)
    case same
    then obtain b where "map_of t1 (k @ ?segs) = Some (Irregular b)" by auto
    with mkdirs_makes [OF assms(3), of "k @ ?segs"] assms(1) show ?thesis
      by (auto simp: holdsSnapshot_def snapshotTree_def split: option.splits if_splits)
  next
    case written
    with t1 app fresh dirs show ?thesis
      by (cases "s = ?segs") (auto simp: update_conv' snapshotTree_def split: option.splits)
  qed
qed

section \<open>Snapshots are published whole or not at all\<close>

abbreviation staged :: "path_key \<Rightarrow> tree \<Rightarrow> tree \<Rightarrow> bool" where
  "staged k t0 t \<equiv> onlyBelow k t0 t \<and> map_of t k = Some Directory"

definition logicalFiles :: "snapshot_entry list \<Rightarrow> bool" where
  "logicalFiles files \<longleftrightarrow> list_all (\<lambda>f. list_all plainSeg (splitPath (f_Path f))) files \<and> distinct (map f_Path files)"

lemma validLogicalPath_plain: "validLogicalPath p \<Longrightarrow> list_all plainSeg (splitPath p)"
  using Split_no_sep [of _ p "CHR ''/''"] by (auto simp: validLogicalPath_def plainSeg_def list_all_iff split: if_splits)

lemma validateFiles_logical:
  "validateFiles seen files = None \<Longrightarrow> logicalFiles files \<and> set seen \<inter> f_Path ` set files = {}"
proof (induction files arbitrary: seen)
  case (Cons f files)
  then have "validateFiles (f_Path f # seen) files = None" "validLogicalPath (f_Path f)" "f_Path f \<notin> set seen" by (auto split: if_splits)
  with Cons.IH [of "f_Path f # seen"] validLogicalPath_plain show ?case by (auto simp: logicalFiles_def)
qed (simp add: logicalFiles_def)

lemma writeFiles_staged:
  fixes mc :: "'e machine" and staging :: string
  defines "k \<equiv> keyOf (mc_cwd mc) staging"
  assumes "writeFiles (osFileSystem mc) ctx staging files x = (r, x')" and "staging \<noteq> []" and "staged k t0 (fst (fst x))"
    and "holdsSnapshot k before (fst (fst x))" and "logicalFiles (before @ files)"
  shows "stays (staged k t0) x x' \<and> (r = None \<longrightarrow> holdsSnapshot k (before @ files) (fst (fst x')))"
  using assms(2,4-6)
proof (induction files arbitrary: x before)
  case Nil
  then show ?case by (auto intro: stays_refl)
next
  case (Cons f files)
  let ?segs = "splitPath (f_Path f)" and ?dest = "path_Join staging (f_Path f)"
  have plain: "list_all plainSeg ?segs" and fresh: "f_Path f \<notin> f_Path ` set before"
    using Cons.prems(4) by (auto simp: logicalFiles_def)
  have keys: "keyOf (mc_cwd mc) (path_Dir ?dest) = k @ butlast ?segs" "keyOf (mc_cwd mc) ?dest = k @ ?segs"
    using keyOf_Join_Dir [OF assms(3) plain] keyOf_Join [OF assms(3) plain] by (simp_all add: k_def)
  obtain r1 x1 where mk: "os_MkdirAll mc (path_Dir ?dest) 0x1ED x = (r1, x1)" by (meson surj_pair)
  obtain r2 x2 where wr: "os_WriteFile mc ?dest (f_Data f) 0x1A4 x1 = (r2, x2)" by (meson surj_pair)
  have s1: "stays (staged k t0) x x1"
    using os_MkdirAll_below [OF mk] Cons.prems(2) keys(1) by simp
  then have q1: "staged k t0 (fst (fst x1))" by (simp add: stays_def)
  have s2: "stays (staged k t0) x1 x2"
    using os_WriteFile_below [OF wr] q1 keys(2) by (simp add: strict_prefix_def)
  then have q2: "staged k t0 (fst (fst x2))" by (simp add: stays_def)
  have stay: "stays (staged k t0) x x" using Cons.prems(2) by (rule stays_refl)
  consider (ctx) e where "checkWriterContext ctx x = Some e" | (mkdir) e where "checkWriterContext ctx x = None" "r1 = Some e"
    | (wrote) e where "checkWriterContext ctx x = None" "r1 = None" "r2 = Some e"
    | (more) "checkWriterContext ctx x = None" "r1 = None" "r2 = None" by (meson option.exhaust)
  then show ?case
  proof cases
    case ctx
    with Cons.prems(1) stay show ?thesis by auto
  next
    case mkdir
    with Cons.prems(1) mk s1 show ?thesis by (auto simp: osFileSystem_def)
  next
    case wrote
    with Cons.prems(1) mk wr stays_trans [OF s1 s2] show ?thesis by (auto simp: osFileSystem_def)
  next
    case more
    from mk [unfolded more] have m: "mkdirs (prefixes (k @ butlast ?segs)) (fst (fst x)) = (None, fst (fst x1))"
      unfolding os_MkdirAll_def Let_def keys by (auto elim: diskCall_cases)
    from wr [unfolded more] have w: "writeTree (k @ ?segs) (f_Data f) (fst (fst x1)) = (None, fst (fst x2))"
      unfolding os_WriteFile_def Let_def keys by (auto elim: diskCall_cases)
    have wf: "wfTree (fst (fst x))" using Cons.prems(2) by (simp add: onlyBelow_def)
    have h: "holdsSnapshot k (before @ [f]) (fst (fst x2))"
      by (rule snapshot_grows [OF Cons.prems(3) wf m w fresh])
    have "writeFiles (osFileSystem mc) ctx staging files x2 = (r, x')"
      using Cons.prems(1) more mk wr by (simp add: osFileSystem_def Let_def)
    from Cons.IH [OF this q2 h] Cons.prems(4) stays_trans [OF stays_trans [OF s1 s2]] show ?thesis by simp
  qed
qed

lemma ensureDestination_same:
  assumes "ensureDestinationAvailable (osFileSystem mc) parent p x = (r, x')" and "Q (fst (fst x))"
  shows "stays Q x x' \<and> fst (fst x') = fst (fst x)"
proof -
  obtain r1 x1 where l1: "os_Lstat mc parent x = (r1, x1)" by (meson surj_pair)
  obtain r2 x2 where l2: "os_Lstat mc p x1 = (r2, x2)" by (meson surj_pair)
  have t1: "fst (fst x1) = fst (fst x)" and t2: "fst (fst x2) = fst (fst x)" using os_Lstat_same(2) [OF l1] os_Lstat_same(2) [OF l2] by simp_all
  have s1: "stays Q x x1" and s2: "stays Q x1 x2" using os_Lstat_same(1) [OF l1] os_Lstat_same(1) [OF l2] assms(2) t1 by simp_all
  from assms(1) l1 l2 have "x' = x1 \<or> x' = x2"
    by (auto simp: ensureDestinationAvailable_def osFileSystem_def split: sum.splits if_splits)
  with t1 t2 s1 stays_trans [OF s1 s2] show ?thesis by auto
qed

text \<open>The trees after the renaming: the snapshot under the root, everything else as before.\<close>

definition publishedAt :: "path_key \<Rightarrow> snapshot_entry list \<Rightarrow> tree \<Rightarrow> tree \<Rightarrow> bool" where
  "publishedAt k files t0 t \<longleftrightarrow> wfTree t \<and> holdsSnapshot k files t \<and> (\<forall>q. \<not> prefix k q \<longrightarrow> map_of t q = map_of t0 q)"

lemma stays_parts: "stays Q x x' \<longleftrightarrow> Q (fst (fst x')) \<and> (\<exists>new. snd x' = snd x @ new \<and> list_all Q new)"
  by (rule stays_def)

lemma publishStaging_atomic:
  fixes mc :: "'e machine" and staging cleanRoot :: string
  defines "k \<equiv> keyOf (mc_cwd mc) staging" and "R \<equiv> keyOf (mc_cwd mc) cleanRoot"
  assumes "publishStaging (osFileSystem mc) ctx staging parent cleanRoot files x = (r, x')" and "staging \<noteq> []"
    and "staged k t0 (fst (fst x))" and "holdsSnapshot k [] (fst (fst x))" and "logicalFiles files"
    and "length k = length R" "k \<noteq> R" and "map_of t0 k = None" "wfTree t0"
  shows "r \<noteq> None \<and> stays (staged k t0) x x' \<or>
    r = None \<and> map_of t0 R = None \<and> (\<exists>y. stays (staged k t0) x y \<and> stays (publishedAt R files t0) y x')"
proof -
  have apart: "\<not> prefix k R" "\<not> prefix R k" using assms(8,9) by (auto simp: prefix_def)
  obtain r1 x1 where ch: "os_Chmod mc staging 0x1ED x = (r1, x1)" by (meson surj_pair)
  obtain r2 x2 where wf: "writeFiles (osFileSystem mc) ctx staging files x1 = (r2, x2)" by (meson surj_pair)
  obtain r3 x3 where ed: "ensureDestinationAvailable (osFileSystem mc) parent cleanRoot x2 = (r3, x3)" by (meson surj_pair)
  obtain r4 x4 where rn: "os_Rename mc staging cleanRoot x3 = (r4, x4)" by (meson surj_pair)
  have t1: "fst (fst x1) = fst (fst x)" using os_Chmod_same(2) [OF ch] .
  have s1: "stays (staged k t0) x x1" using os_Chmod_same(1) [OF ch] assms(5) by simp
  have w: "stays (staged k t0) x1 x2 \<and> (r2 = None \<longrightarrow> holdsSnapshot k files (fst (fst x2)))"
    using writeFiles_staged [OF wf assms(4), of t0 "[]"] assms(5-7) t1 by (simp add: k_def)
  then have s2: "stays (staged k t0) x x2" using stays_trans [OF s1] by blast
  have e: "stays (staged k t0) x2 x3" "fst (fst x3) = fst (fst x2)"
    using ensureDestination_same [OF ed, of "staged k t0"] s2 by (simp_all add: stays_parts)
  have s3: "stays (staged k t0) x x3" using stays_trans [OF s2 e(1)] .
  have q3: "staged k t0 (fst (fst x3))" using s3 by (simp add: stays_parts)
  from assms(3) ch wf ed rn consider (chmod) "r \<noteq> None" "x' = x1" | (wrote) "r \<noteq> None" "x' = x2"
    | (ensure) "r \<noteq> None" "x' = x3" | (rename) "r \<noteq> None" "r4 \<noteq> None" "x' = x4"
    | (ok) "r = None" "r2 = None" "r4 = None" "x' = x4"
    by (auto simp: publishStaging_def osFileSystem_calls split: option.splits) (metis option.distinct(1))
  then show ?thesis
  proof cases
    case rename
    have "fst (fst x4) = fst (fst x3) \<and> stays (staged k t0) x3 x4"
      using rn q3 rename(2) unfolding os_Rename_def
      by (auto elim!: diskCall_cases simp: stays_parts renameTree_def statTree_def split: sum.splits option.splits if_splits)
    with rename stays_trans [OF s3] show ?thesis by blast
  next
    case ok
    let ?t3 = "fst (fst x3)" and ?t4 = "fst (fst x4)"
    have ren: "renameTree k R ?t3 = (None, ?t4)" "snd x4 = snd x3 @ [?t4]"
      using rn ok unfolding os_Rename_def k_def R_def by (auto elim!: diskCall_cases)
    have wf3: "wfTree ?t3" using q3 by (simp add: onlyBelow_def)
    note facts = renameTree_lookup [OF ren(1) assms(9) wf3]
    have "map_of ?t3 R = None" using facts(7) q3 by simp
    then have none: "map_of t0 R = None" using q3 apart by (simp add: onlyBelow_def)
    have h3: "holdsSnapshot k files ?t3" using w ok(2) e(2) by simp
    have "publishedAt R files t0 ?t4"
      unfolding publishedAt_def
    proof (intro conjI allI impI)
      show "wfTree ?t4" by (rule renameTree_wf [OF ren(1) wf3])
      show "holdsSnapshot R files ?t4" using h3 facts(1) by (simp add: holdsSnapshot_def)
      fix q assume q: "\<not> prefix R q"
      show "map_of ?t4 q = map_of t0 q"
        using q facts(1) [of q] q3 absent_below [OF assms(11,10), of q] by (simp add: onlyBelow_def)
    qed
    then have "stays (publishedAt R files t0) x3 x4" using ren(2) by (simp add: stays_parts)
    with ok none s3 show ?thesis by blast
  qed (use s1 s2 s3 in auto)
qed

lemma outputRootParts_plain:
  assumes "outputRootParts p = Inr (cleanRoot, parent, base)"
  shows "cleanRoot = p" "plainSeg (last (splitPath p))" "parent = path_Dir p" "parent \<noteq> []" "base = last (splitPath p)"
proof -
  from assms have c: "Clean p = p" "p \<noteq> ''.''" "p \<noteq> ''/''" "\<not> hasRootDotSegment p" "parent = path_Dir p" "base = path_Base p" "cleanRoot = p" "p \<noteq> []"
    by (auto simp: outputRootParts_def Let_def split: if_splits)
  obtain segs where f: "Clean p = (if isAbs p then CHR ''/'' # joinSlash segs else if segs = [] then ''.'' else joinSlash segs)"
      "list_all (\<lambda>s. s \<noteq> [] \<and> s \<noteq> ''.'' \<and> CHR ''/'' \<notin> set s) segs"
    by (rule Clean_form [of p])
  have segs: "segs \<noteq> []" using f(1) c(1-3) by (metis joinSlash.simps(1))
  have split: "splitPath (joinSlash segs) = segs" using f(2) segs by (intro splitPath_join) (auto simp: list_all_iff)
  then have lst: "last (splitPath p) = last segs" and sub: "set segs \<subseteq> set (splitPath p)"
  proof -
    have "p = CHR ''/'' # joinSlash segs \<or> p = joinSlash segs" using f(1) c(1) segs by metis
    then show "last (splitPath p) = last segs" "set segs \<subseteq> set (splitPath p)" using split segs by auto
  qed
  have "last segs \<noteq> ''..''" using c(4) sub segs unfolding hasRootDotSegment_def list_ex_iff by (meson in_mono last_in_set)
  then show plain: "plainSeg (last (splitPath p))" using f(2) segs unfolding lst list_all_iff plainSeg_def by auto
  have "TrimRight p ''/'' = p"
  proof -
    have "last (splitPath p) = rev (takeWhile (\<lambda>c. c \<noteq> CHR ''/'') (rev p))" using upToSlash [of p] by simp
    with plain have "takeWhile (\<lambda>c. c \<noteq> CHR ''/'') (rev p) \<noteq> []" by (metis plainSeg_def rev.simps(1))
    then have "rev p \<noteq> [] \<and> hd (rev p) \<noteq> CHR ''/''" by (cases "rev p") auto
    then show ?thesis unfolding TrimRight_def by (cases "rev p") (auto simp: rev_swap)
  qed
  with c(6,8) show "base = last (splitPath p)" using upToSlash [of p] by (simp add: path_Base_def)
  have "Clean q \<noteq> []" for q
  proof -
    obtain segs where "Clean q = (if isAbs q then CHR ''/'' # joinSlash segs else if segs = [] then ''.'' else joinSlash segs)"
      "list_all (\<lambda>s. s \<noteq> [] \<and> s \<noteq> ''.'' \<and> CHR ''/'' \<notin> set s) segs" by (rule Clean_form [of q]) blast
    then show ?thesis by (cases segs rule: joinSlash.cases) auto
  qed
  with c(5) show "parent \<noteq> []" by (simp add: path_Dir_def)
qed (use assms in \<open>auto simp: outputRootParts_def Let_def split: if_splits\<close>)

text \<open>The staging directory is removed in the end, whatever happened.\<close>

lemma finishStaging_atomic:
  fixes mc :: "'e machine" and staging cleanRoot :: string
  defines "k \<equiv> keyOf (mc_cwd mc) staging" and "R \<equiv> keyOf (mc_cwd mc) cleanRoot"
  assumes "publishStaging (osFileSystem mc) ctx staging parent cleanRoot files x = (r, x1)" "os_RemoveAll mc staging x1 = (r', x')"
    and "staging \<noteq> []" and "staged k t0 (fst (fst x))" and "holdsSnapshot k [] (fst (fst x))" and "logicalFiles files"
    and "length k = length R" "k \<noteq> R" "k \<noteq> []" and "map_of t0 k = None" "wfTree t0"
  obtains (failed) "r \<noteq> None" "stays (onlyBelow k t0) x x'"
  | (published) y where "r = None" "map_of t0 R = None" "stays (onlyBelow k t0) x y" "stays (publishedAt R files t0) y x'"
proof -
  from publishStaging_atomic [OF assms(3,5), of t0] assms(6-13)
  consider (no) "r \<noteq> None" "stays (staged k t0) x x1"
    | (yes) y where "r = None" "map_of t0 R = None" "stays (staged k t0) x y" "stays (publishedAt R files t0) y x1"
    unfolding R_def k_def by auto
  then show thesis
  proof cases
    case no
    have "onlyBelow k t0 (fst (fst x1))" using no(2) by (simp add: stays_parts)
    from os_RemoveAll_below [OF assms(4) this meta_eq_to_obj_eq [OF k_def, symmetric] assms(11)] have "stays (onlyBelow k t0) x1 x'" by (rule stays_mono) blast
    moreover have "stays (onlyBelow k t0) x x1" using no(2) by (rule stays_mono) blast
    ultimately show thesis using failed no(1) stays_trans by blast
  next
    case yes
    have pub: "publishedAt R files t0 (fst (fst x1))" using yes(4) by (simp add: stays_parts)
    have "\<not> prefix R k" using assms(9,10) by (auto simp: prefix_def)
    with pub assms(12) have none: "map_of (fst (fst x1)) k = None" by (simp add: publishedAt_def)
    have "onlyBelow k (fst (fst x1)) (fst (fst x1))" using pub by (simp add: onlyBelow_def publishedAt_def)
    from os_RemoveAll_below [OF assms(4) this meta_eq_to_obj_eq [OF k_def, symmetric] assms(11)] have "stays (publishedAt R files t0) x1 x'"
      by (rule stays_mono) (use pub none in \<open>auto simp: publishedAt_def onlyBelow_def holdsSnapshot_def\<close>)
    with yes(4) have "stays (publishedAt R files t0) y x'" using stays_trans by blast
    moreover have "stays (onlyBelow k t0) x y" using yes(3) by (rule stays_mono) blast
    ultimately show thesis using published yes(1,2) by blast
  qed
qed

text \<open>The hidden sibling a snapshot is built in.\<close>

definition stagingKey :: "path_key \<Rightarrow> string \<Rightarrow> path_key" where
  "stagingKey R random = butlast R @ [''.'' @ last R @ ''.tmp-'' @ random]"

lemma writeDirectory_atomic:
  fixes mc :: "'e machine" and p :: string
  defines "R \<equiv> keyOf (mc_cwd mc) p"
  assumes "writeDirectory ctx p files (osFileSystem mc) x = (r, x')" and "wfTree (fst (fst x))" and "\<And>e. CHR ''/'' \<notin> set (mc_random mc e)"
  obtains (failed) random where "r \<noteq> None" "stays (onlyBelow (stagingKey R random) (fst (fst x))) x x'"
  | (published) random y where "r = None" "map_of (fst (fst x)) R = None" "stays (onlyBelow (stagingKey R random) (fst (fst x))) x y"
      "stays (publishedAt R files (fst (fst x))) y x'"
proof -
  let ?t = "fst (fst x)"
  have refl: "onlyBelow k ?t ?t" for k using assms(3) by (simp add: onlyBelow_def)
  show thesis
  proof (cases "checkWriterContext ctx x = None \<and> outputRootParts p \<in> range Inr \<and> validateLogicalFiles files = None")
    case False
    then have "r \<noteq> None \<and> x' = x" using assms(2)
      by (auto simp: writeDirectory_def split: option.splits sum.splits) (metis option.distinct(1))+
    with failed refl show thesis by (blast intro: stays_refl)
  next
    case True
    then obtain cleanRoot parent base where o: "outputRootParts p = Inr (cleanRoot, parent, base)" by (auto simp: image_iff) 
    note parts = outputRootParts_plain [OF o]
    obtain r1 x1 where ed: "ensureDestinationAvailable (osFileSystem mc) parent cleanRoot x = (r1, x1)" by (meson surj_pair)
    have s1: "stays (onlyBelow k ?t) x x1" and t1: "fst (fst x1) = ?t" for k
      using ensureDestination_same [OF ed, of "onlyBelow k ?t"] refl by auto
    let ?random = "mc_random mc (snd (fst x1))"
    let ?k = "stagingKey R ?random"
    obtain r2 x2 where mk: "os_MkdirTemp mc parent (''.'' @ base @ ''.tmp-'') x1 = (r2, x2)" by (meson surj_pair)
    have key: "keyOf (mc_cwd mc) parent = butlast R" "last R = base" "R \<noteq> []"
      using keyOf_Dir [OF parts(2)] keyOf_last [OF parts(2), of "mc_cwd mc"] parts(3,5) by (simp_all add: R_def)
    have "plainSeg (''.'' @ base @ ''.tmp-'' @ ?random)" using parts(2,5) assms(4) by (auto simp: plainSeg_def)
    from keyOf_child [OF parts(4) this, of "mc_cwd mc"] key
    have name: "keyOf (mc_cwd mc) (parent @ (if HasSuffix parent ''/'' then [] else ''/'') @ (''.'' @ base @ ''.tmp-'') @ ?random) = ?k"
      by (simp add: stagingKey_def)
    have k: "length ?k = length R" "?k \<noteq> R"
    proof -
      have "length (last R) < length (last ?k)" by (simp add: stagingKey_def)
      then show "?k \<noteq> R" by auto
    qed (use key(3) in \<open>simp add: stagingKey_def\<close>)
    show thesis
    proof (cases "r1 = None \<and> checkWriterContext ctx x1 = None \<and> r2 \<in> range Inr")
      case False
      have s2: "stays (onlyBelow ?k ?t) x1 x2" if "r2 \<notin> range Inr"
        using mk that refl unfolding os_MkdirTemp_def Let_def
        by (auto elim!: diskCall_cases simp: stays_parts t1 split: sum.splits if_splits)
      have "r \<noteq> None \<and> (x' = x1 \<or> r2 \<notin> range Inr \<and> x' = x2)"
        using assms(2) True o ed mk parts(1) False
        by (auto simp: writeDirectory_def osFileSystem_calls split: option.splits sum.splits) (metis option.distinct(1))+
      with failed s1 s2 stays_trans [OF s1] show thesis by blast
    next
      case ok: True
      then obtain staging where st: "r2 = Inr staging" by auto
      from mk [unfolded st] have made: "staging = parent @ (if HasSuffix parent ''/'' then [] else ''/'') @ (''.'' @ base @ ''.tmp-'') @ ?random"
          "map_of ?t ?k = None" "map_of ?t (butlast ?k) = Some Directory" "fst (fst x2) = AList.update ?k Directory ?t"
          "snd x2 = snd x1 @ [fst (fst x2)]"
        unfolding os_MkdirTemp_def Let_def name
        by (auto elim!: diskCall_cases simp: t1 statTree_def split: sum.splits if_splits option.splits)
      have kne: "?k \<noteq> []" by (simp add: stagingKey_def)
      have stg: "staged ?k ?t (fst (fst x2))"
        using wfTree_update [OF assms(3) kne made(3)] made(2,4) by (auto simp: onlyBelow_def update_conv')
      have empty: "holdsSnapshot ?k [] (fst (fst x2))"
        using made(2,4) absent_below [OF assms(3) made(2)] by (auto simp: holdsSnapshot_def snapshotTree_def fileMap_def update_conv')
      have s2: "stays (onlyBelow ?k ?t) x x2"
        using stg made(5) by (intro stays_trans [OF s1]) (simp add: stays_parts)
      obtain r3 x3 where ps: "publishStaging (osFileSystem mc) ctx staging parent cleanRoot files x2 = (r3, x3)" by (meson surj_pair)
      obtain r4 x4 where rm: "os_RemoveAll mc staging x3 = (r4, x4)" by (meson surj_pair)
      have out: "r = r3" "x' = x4"
        using assms(2) True o ed mk ok st ps rm by (auto simp: writeDirectory_def osFileSystem_calls)
      have skey: "keyOf (mc_cwd mc) staging = ?k" using name made(1) by simp
      have lf: "logicalFiles files" using True validateFiles_logical [of "[]" files] by (simp add: validateLogicalFiles_def)
      have "staging \<noteq> []" using made(1) by simp
      note ending = finishStaging_atomic [OF ps rm this, of ?t, unfolded skey parts(1), folded R_def, OF stg empty lf k kne made(2) assms(3)]
      show thesis
      proof (rule ending)
        assume a: "r3 \<noteq> None" "stays (onlyBelow ?k ?t) x2 x4"
        show thesis by (rule failed [unfolded out, OF a(1) stays_trans [OF s2 a(2)]])
      next
        fix y assume a: "r3 = None" "map_of ?t R = None" "stays (onlyBelow ?k ?t) x2 y" "stays (publishedAt R files ?t) y x4"
        show thesis by (rule published [unfolded out, OF a(1,2) stays_trans [OF s2 a(3)] a(4)])
      qed
    qed
  qed
qed

section \<open>The order of the participants does not matter\<close>

abbreviation originText :: "registry_origin \<Rightarrow> string" where "originText p \<equiv> origin_String (ro_Origin p)"

lemma checkParticipants_None:
  "checkParticipants seen ps = None \<longleftrightarrow>
     list_all validRegistryOrigin ps \<and> distinct (map originText ps) \<and> set seen \<inter> originText ` set ps = {}"
  by (induction ps arbitrary: seen) auto

lemma distinct_map_mset: "mset xs = mset ys \<Longrightarrow> distinct (map f xs) = distinct (map f ys)"
  by (metis mset_eq_imp_distinct_iff mset_map)

text \<open>
  The registry is a function of the set of its participants: a successful build does not depend on the order in which they
  are given, its files are in lexical order, and they are the registry document and one document per participant, each under
  the path of its origin.
\<close>
theorem BuildRegistry_deterministic:
  assumes "mset ps' = mset ps" and "BuildRegistry sha256 ps = Inr files"
  shows "BuildRegistry sha256 ps' = Inr files \<and> sorted (map f_Path files) \<and>
    mset (map f_Path files) = add_mset ''registry.json'' (image_mset (\<lambda>p. pathForOrigin sha256 (originText p)) (mset ps))"
proof -
  from assms(2) have ok: "checkParticipants [] ps = None" by (auto simp: BuildRegistry_def split: option.splits)
  then have valid: "list_all validRegistryOrigin ps" "distinct (map originText ps)" by (simp_all add: checkParticipants_None)
  then have ok': "checkParticipants [] ps' = None"
    using distinct_map_mset [OF assms(1), of originText] mset_eq_setD [OF assms(1)] by (simp add: checkParticipants_None list_all_iff)
  have "sort_key originText ps' = sort_key originText ps"
    by (rule sort_key_inj_key_eq) (use assms(1) valid(2) mset_eq_setD [OF assms(1)] in \<open>auto simp: distinct_map\<close>)
  with assms(2) ok ok' have same: "BuildRegistry sha256 ps' = Inr files" by (simp add: BuildRegistry_def Let_def)
  from assms(2) ok have files: "files = sort_key f_Path (map (nodeFile sha256) (sort_key originText ps) @
      [\<lparr>f_Path = ''registry.json'', f_Data = marshalPublicJSON (historyRegistryDocument sha256 (sort_key originText ps))\<rparr>])"
    by (simp add: BuildRegistry_def Let_def)
  then show ?thesis using same by (simp add: nodeFile_def image_mset.compositionality comp_def)
qed

definition participant :: "string \<Rightarrow> registry_origin" where
  "participant host =
     \<lparr>ro_Origin = \<lparr>serialization = ''https://'' @ host, hostname = host, port = 443\<rparr>, ro_FirstParticipatedAt = 5,
      ro_InitialDeclaration = \<lparr>Version = 1, Identity = IdentityAffirmed\<rparr>, ro_LatestDeclarationCheckAt = 7,
      ro_LatestDeclarationCheckOutcome = OutcomeAbsent, ro_CurrentDeclaration = None\<rparr>"

lemma participants_checked: "checkParticipants [] [participant ''b.example'', participant ''a.example''] = None"
  by (simp add: participant_def validRegistryOrigin_def validRegistryDeclaration_def origin_String_def)

theorem BuildRegistry_deterministic_witness:
  "\<exists>files. BuildRegistry (\<lambda>s. s) [participant ''b.example'', participant ''a.example''] = Inr files \<and>
     BuildRegistry (\<lambda>s. s) [participant ''a.example'', participant ''b.example''] = Inr files \<and> sorted (map f_Path files)"
proof -
  obtain files where f: "BuildRegistry (\<lambda>s. s) [participant ''b.example'', participant ''a.example''] = Inr files"
    using participants_checked by (simp add: BuildRegistry_def Let_def)
  have "mset [participant ''a.example'', participant ''b.example''] = mset [participant ''b.example'', participant ''a.example'']" by simp
  from BuildRegistry_deterministic [OF this f] f show ?thesis by blast
qed

section \<open>Writing a snapshot\<close>

text \<open>
  C20. A snapshot is published whole or not at all, whatever faults the machine has and however far each call got: until the
  renaming only a hidden sibling of the root differs from the tree before the call; from the renaming on the root, which was
  absent, holds exactly the files of the snapshot, and everything else is as it was; an error means that the renaming did not
  happen.
\<close>
theorem WriteDirectory_atomic:
  assumes "WriteDirectory mc ctx p files x = (r, x')" and "wfTree (fst (fst x))" and "\<And>e. CHR ''/'' \<notin> set (mc_random mc e)"
  shows "\<exists>random y. stays (onlyBelow (stagingKey (keyOf (mc_cwd mc) p) random) (fst (fst x))) x y \<and>
    (if r = None
     then map_of (fst (fst x)) (keyOf (mc_cwd mc) p) = None \<and> stays (publishedAt (keyOf (mc_cwd mc) p) files (fst (fst x))) y x'
     else y = x')"
  using writeDirectory_atomic [OF assms(1) [unfolded WriteDirectory_def] assms(2,3)] by metis

definition exampleMachine :: "unit machine" where
  "exampleMachine = \<lparr>mc_cwd = [], mc_fault = (\<lambda>_. None), mc_random = (\<lambda>_. ''1''), mc_tick = id\<rparr>"

definition exampleFiles :: "snapshot_entry list" where
  "exampleFiles = [\<lparr>f_Path = ''nodes/a.json'', f_Data = ''1''\<rparr>, \<lparr>f_Path = ''registry.json'', f_Data = ''2''\<rparr>]"

lemma exampleWrite: "fst (WriteDirectory exampleMachine (Some (\<lambda>_. None)) ''/out'' exampleFiles (([([], Directory)], ()), [])) = None"
  by code_simp

theorem WriteDirectory_atomic_witness:
  "holdsSnapshot [''out''] exampleFiles
     (fst (fst (snd (WriteDirectory exampleMachine (Some (\<lambda>_. None)) ''/out'' exampleFiles (([([], Directory)], ()), [])))))"
proof -
  let ?w = "WriteDirectory exampleMachine (Some (\<lambda>_. None)) ''/out'' exampleFiles (([([], Directory)], ()), [])"
  have w: "?w = (None, snd ?w)" using exampleWrite by (metis prod.collapse)
  have wf: "wfTree [([], Directory)]" by (simp add: wfTree_def)
  have key: "keyOf (mc_cwd exampleMachine) ''/out'' = [''out'']" by code_simp
  from WriteDirectory_atomic [OF w, unfolded key] wf show ?thesis
    by (auto simp: exampleMachine_def stays_def publishedAt_def)
qed

end
