(* ===== verification/Snapshot_Reader.thy ===== *)
theory Snapshot_Reader
  imports Public_Data
begin

text \<open>
  The reader of a snapshot, \<^verbatim>\<open>internal/publicdata/reader.go\<close>: it walks a directory, accepts only the files a
  snapshot may have, within fixed limits, and returns them in lexical order. The directory is an interface on a
  state of type \<open>'w\<close>; an opened file delivers its bytes in pieces.
\<close>

definition maxSnapshotFiles :: int where "maxSnapshotFiles = 4097"
definition maxSnapshotFileBytes :: int where "maxSnapshotFileBytes = 8 * 1024 * 1024"
definition maxSnapshotTotalBytes :: int where "maxSnapshotTotalBytes = 32 * 1024 * 1024"

definition ErrInvalidSnapshotRoot where "ErrInvalidSnapshotRoot = Sentinel ''publicdata: snapshot root is invalid''"
definition ErrInvalidSnapshotEntry where "ErrInvalidSnapshotEntry = Sentinel ''publicdata: snapshot entry is invalid''"
definition ErrMissingRegistry where "ErrMissingRegistry = Sentinel ''publicdata: registry.json is missing''"
definition ErrSnapshotLimitExceeded where "ErrSnapshotLimitExceeded = Sentinel ''publicdata: snapshot resource limit exceeded''"

record reader_limits =
  maxFiles :: int
  maxFileBytes :: int
  maxTotalBytes :: int

definition defaultReaderLimits :: reader_limits where
  "defaultReaderLimits =
     \<lparr>maxFiles = maxSnapshotFiles, maxFileBytes = maxSnapshotFileBytes, maxTotalBytes = maxSnapshotTotalBytes\<rparr>"

section \<open>Names\<close>

definition isLowerHexByte :: "char \<Rightarrow> bool" where
  "isLowerHexByte c \<longleftrightarrow> in_range 48 57 c \<or> in_range 97 102 c"

definition isLowerHex :: "string \<Rightarrow> bool" where
  "isLowerHex value = list_all isLowerHexByte value"

definition validSnapshotDirectory :: "string \<Rightarrow> bool" where
  "validSnapshotDirectory p =
     (if p = ''nodes'' then True
      else (let parts = Split p (CHR ''/'')
            in length parts = 2 \<and> parts ! 0 = ''nodes'' \<and> length (parts ! 1) = 2 \<and> isLowerHex (parts ! 1)))"

definition validSnapshotPath :: "string \<Rightarrow> bool" where
  "validSnapshotPath p =
     (if p = ''registry.json'' then True
      else (let parts = Split p (CHR ''/'')
            in if length parts \<noteq> 3 \<or> parts ! 0 \<noteq> ''nodes'' \<or> length (parts ! 1) \<noteq> 2 \<or> \<not> isLowerHex (parts ! 1) \<or>
                  \<not> HasSuffix (parts ! 2) ''.json''
               then False
               else (let hash = TrimSuffix (parts ! 2) ''.json''
                     in length hash = 64 \<and> isLowerHex hash \<and> HasPrefix hash (parts ! 1))))"

section \<open>The directory\<close>

text \<open>What reads deliver, one after the other, with what they do to the state; then the end of the file or an error.\<close>

record 'w snapshot_file =
  sf_Stat :: "'w \<Rightarrow> (go_error + node) \<times> 'w"
  sf_pieces :: "(string \<times> ('w \<Rightarrow> 'w)) list"
  sf_end :: "go_error option"

record 'w snapshot_directory =
  sd_Stat :: "'w \<Rightarrow> (go_error + node) \<times> 'w"
  sd_ReadDir :: "string \<Rightarrow> 'w \<Rightarrow> (go_error + (string \<times> node) list) \<times> 'w"
  sd_Lstat :: "string \<Rightarrow> 'w \<Rightarrow> (go_error + node) \<times> 'w"
  sd_Open :: "string \<Rightarrow> 'w \<Rightarrow> (go_error + 'w snapshot_file) \<times> 'w"
  sd_Close :: "'w \<Rightarrow> 'w"

definition checkReaderContext :: "'w go_context \<Rightarrow> 'w \<Rightarrow> go_error option" where
  "checkReaderContext ctx w = (case ctx of None \<Rightarrow> Some ErrInvalidContext | Some ctx_Err \<Rightarrow> ctx_Err w)"

text \<open>\<^verbatim>\<open>io.ReadAll(io.LimitReader(contextSnapshotReader{ctx, file}, n))\<close>: the context is read before every piece.\<close>

fun contextRead ::
    "('w \<Rightarrow> go_error option) \<Rightarrow> (string \<times> ('w \<Rightarrow> 'w)) list \<Rightarrow> go_error option \<Rightarrow> nat \<Rightarrow> 'w \<Rightarrow> (go_error + string) \<times> 'w" where
  "contextRead ctx_Err pieces fin n w =
     (if n = 0 then (Inr [], w)
      else (case ctx_Err w of
              Some err \<Rightarrow> (Inl err, w)
            | None \<Rightarrow>
                (case pieces of
                   [] \<Rightarrow> (case fin of Some err \<Rightarrow> Inl err | None \<Rightarrow> Inr [], w)
                 | (piece, act) # rest \<Rightarrow>
                     (case contextRead ctx_Err rest fin (n - length (take n piece)) (act w) of
                        (Inl err, w) \<Rightarrow> (Inl err, w)
                      | (Inr data, w) \<Rightarrow> (Inr (take n piece @ data), w)))))"

declare contextRead.simps [simp del]

definition regular :: "node \<Rightarrow> bool" where "regular n = (case n of Regular _ \<Rightarrow> True | _ \<Rightarrow> False)"

definition readSnapshotFile ::
    "('w \<Rightarrow> go_error option) \<Rightarrow> 'w snapshot_directory \<Rightarrow> string \<Rightarrow> int \<Rightarrow> 'w \<Rightarrow> (go_error + string) \<times> 'w" where
  "readSnapshotFile ctx_Err directory logicalPath maxBytes w =
     (case sd_Open directory logicalPath w of
        (Inl err, w) \<Rightarrow> (Inl (Wrap ''publicdata: open snapshot entry'' [err]), w)
      | (Inr f, w) \<Rightarrow>
          (case sf_Stat f w of
             (Inl err, w) \<Rightarrow> (Inl (Wrap ''publicdata: inspect opened snapshot entry'' [err]), w)
           | (Inr info, w) \<Rightarrow>
               if \<not> regular info then (Inl (Wrap ''changed before it was read'' [ErrInvalidSnapshotEntry]), w)
               else (case contextRead ctx_Err (sf_pieces f) (sf_end f) (nat (maxBytes + 1)) w of
                       (Inl err, w) \<Rightarrow> (Inl (Wrap ''publicdata: read snapshot entry'' [err]), w)
                     | (Inr data, w) \<Rightarrow>
                         if int (length data) > maxBytes then (Inl (Wrap logicalPath [ErrSnapshotLimitExceeded]), w)
                         else (Inr data, w))))"

section \<open>The walk\<close>

record walk_state =
  ws_files :: "snapshot_entry list"
  ws_totalBytes :: int
  ws_hasRegistry :: bool

definition walk_start :: walk_state where
  "walk_start = \<lparr>ws_files = [], ws_totalBytes = 0, ws_hasRegistry = False\<rparr>"

text \<open>The function passed to \<^verbatim>\<open>fs.WalkDir\<close> (lines 155-270).\<close>

definition visitEntry ::
    "'w go_context \<Rightarrow> reader_limits \<Rightarrow> 'w snapshot_directory \<Rightarrow> string \<Rightarrow> node \<Rightarrow> go_error option \<Rightarrow> walk_state \<Rightarrow> 'w \<Rightarrow>
     (go_error + walk_state) \<times> 'w" where
  "visitEntry ctx limits directory logicalPath entry entryErr st w =
     (case checkReaderContext ctx w of
        Some err \<Rightarrow> (Inl err, w)
      | None \<Rightarrow>
          (case entryErr of
             Some err \<Rightarrow> (Inl (Wrap ''publicdata: walk snapshot'' [err]), w)
           | None \<Rightarrow>
               if logicalPath = ''.'' then (Inr st, w)
               else if entry = Irregular True then (Inl (Wrap ''is a symbolic link'' [ErrInvalidSnapshotEntry]), w)
               else if entry = Directory
               then (if \<not> validSnapshotDirectory logicalPath
                     then (Inl (Wrap ''unexpected directory'' [ErrInvalidSnapshotEntry]), w) else (Inr st, w))
               else if \<not> validSnapshotPath logicalPath then (Inl (Wrap ''unexpected path'' [ErrInvalidSnapshotEntry]), w)
               else (case sd_Lstat directory logicalPath w of
                       (Inl err, w) \<Rightarrow> (Inl (Wrap ''publicdata: inspect snapshot entry'' [err]), w)
                     | (Inr info, w) \<Rightarrow>
                         if \<not> regular info then (Inl (Wrap ''is not a regular file'' [ErrInvalidSnapshotEntry]), w)
                         else if int (length (ws_files st)) \<ge> maxFiles limits
                         then (Inl (Wrap ''file count'' [ErrSnapshotLimitExceeded]), w)
                         else (let remainingBytes = maxTotalBytes limits - ws_totalBytes st;
                                   readLimit = (if remainingBytes < maxFileBytes limits then remainingBytes else maxFileBytes limits)
                               in case readSnapshotFile (the ctx) directory logicalPath readLimit w of
                                    (Inl err, w) \<Rightarrow> (Inl err, w)
                                  | (Inr data, w) \<Rightarrow>
                                      (Inr \<lparr>ws_files = ws_files st @ [\<lparr>f_Path = logicalPath, f_Data = data\<rparr>],
                                            ws_totalBytes = ws_totalBytes st + int (length data),
                                            ws_hasRegistry = (ws_hasRegistry st \<or> logicalPath = ''registry.json'')\<rparr>, w)))))"

text \<open>
  \<^verbatim>\<open>fs.WalkDir\<close> below one entry: \<open>None\<close> when the entries nest deeper than \<open>depth\<close>. The visited function never
  returns \<^verbatim>\<open>fs.SkipDir\<close>.
\<close>

type_synonym ('s, 'w) visitor = "string \<Rightarrow> node \<Rightarrow> go_error option \<Rightarrow> 's \<Rightarrow> 'w \<Rightarrow> (go_error + 's) \<times> 'w"

fun walkDir ::
    "nat \<Rightarrow> ('s, 'w) visitor \<Rightarrow> (string \<Rightarrow> 'w \<Rightarrow> (go_error + (string \<times> node) list) \<times> 'w) \<Rightarrow> string \<Rightarrow> node \<Rightarrow> 's \<Rightarrow> 'w \<Rightarrow>
     (go_error + 's) option \<times> 'w"
and walkEntries ::
    "nat \<Rightarrow> ('s, 'w) visitor \<Rightarrow> (string \<Rightarrow> 'w \<Rightarrow> (go_error + (string \<times> node) list) \<times> 'w) \<Rightarrow> string \<Rightarrow> (string \<times> node) list \<Rightarrow> 's \<Rightarrow>
     'w \<Rightarrow> (go_error + 's) option \<times> 'w" where
  "walkDir 0 visit rd name d s w = (None, w)"
| "walkDir (Suc depth) visit rd name d s w =
     (case visit name d None s w of
        (Inl err, w) \<Rightarrow> (Some (Inl err), w)
      | (Inr s, w) \<Rightarrow>
          if d \<noteq> Directory then (Some (Inr s), w)
          else (case rd name w of
                  (Inl err, w) \<Rightarrow>
                    (case visit name d (Some err) s w of
                       (Inl err, w) \<Rightarrow> (Some (Inl err), w) | (Inr s, w) \<Rightarrow> walkEntries depth visit rd name [] s w)
                | (Inr entries, w) \<Rightarrow> walkEntries depth visit rd name entries s w))"
| "walkEntries depth visit rd name [] s w = (Some (Inr s), w)"
| "walkEntries depth visit rd name ((child, d) # entries) s w =
     (case walkDir depth visit rd (path_Join name child) d s w of
        (Some (Inr s), w) \<Rightarrow> walkEntries depth visit rd name entries s w
      | out \<Rightarrow> out)"

section \<open>Reading a snapshot\<close>

text \<open>\<open>None\<close> when the directory nests deeper than \<open>depth\<close>.\<close>

definition readDirectory ::
    "nat \<Rightarrow> 'w go_context \<Rightarrow> string \<Rightarrow> reader_limits \<Rightarrow> (string \<Rightarrow> 'w \<Rightarrow> (go_error + 'w snapshot_directory) \<times> 'w) \<Rightarrow> 'w \<Rightarrow>
     (go_error + snapshot_entry list) option \<times> 'w" where
  "readDirectory depth ctx rootName limits openDirectory w =
     (case checkReaderContext ctx w of
        Some err \<Rightarrow> (Some (Inl err), w)
      | None \<Rightarrow>
          if rootName = [] then (Some (Inl ErrInvalidSnapshotRoot), w)
          else (case openDirectory rootName w of
                  (Inl err, w) \<Rightarrow> (Some (Inl (Wrap [] [ErrInvalidSnapshotRoot, err])), w)
                | (Inr directory, w) \<Rightarrow>
                    (let visit = visitEntry ctx limits directory
                     in case (case sd_Stat directory w of
                                (Inl err, w) \<Rightarrow> apfst Some (visit ''.'' Directory (Some err) walk_start w)
                              | (Inr info, w) \<Rightarrow> walkDir depth visit (sd_ReadDir directory) ''.'' info walk_start w) of
                          (None, w) \<Rightarrow> (None, sd_Close directory w)
                        | (Some (Inl err), w) \<Rightarrow> (Some (Inl err), sd_Close directory w)
                        | (Some (Inr st), w) \<Rightarrow>
                            if \<not> ws_hasRegistry st then (Some (Inl ErrMissingRegistry), sd_Close directory w)
                            else (Some (Inr (sort_key f_Path (ws_files st))), sd_Close directory w))))"

text \<open>The directory of the operating system: names are below the key of the opened root.\<close>

definition osSnapshotDirectory :: "'e machine \<Rightarrow> path_key \<Rightarrow> 'e disk snapshot_directory" where
  "osSnapshotDirectory mc k =
     (let sub = mc\<lparr>mc_cwd := k\<rparr>
      in \<lparr>sd_Stat = os_Lstat sub ''.'', sd_ReadDir = os_ReadDir sub, sd_Lstat = os_Lstat sub,
          sd_Open = (\<lambda>name x.
            case os_Lstat sub name x of
              (Inl err, x) \<Rightarrow> (Inl err, x)
            | (Inr n, x) \<Rightarrow>
                (Inr \<lparr>sf_Stat = (\<lambda>x. (Inr n, x)), sf_pieces = (case n of Regular data \<Rightarrow> [(data, id)] | _ \<Rightarrow> []),
                      sf_end = (if regular n then None else Some errIsDir)\<rparr>, x)),
          sd_Close = id\<rparr>)"

definition openSnapshotDirectory :: "'e machine \<Rightarrow> string \<Rightarrow> 'e disk \<Rightarrow> (go_error + 'e disk snapshot_directory) \<times> 'e disk" where
  "openSnapshotDirectory mc rootName x =
     (case os_Lstat mc rootName x of
        (Inl err, x) \<Rightarrow> (Inl (Wrap [] [ErrInvalidSnapshotRoot]), x)
      | (Inr info, x) \<Rightarrow>
          if info \<noteq> Directory then (Inl ErrInvalidSnapshotRoot, x)
          else (case os_Lstat mc rootName x of
                  (Inl err, x) \<Rightarrow> (Inl err, x)
                | (Inr _, x) \<Rightarrow> (Inr (osSnapshotDirectory mc (keyOf (mc_cwd mc) rootName)), x)))"

text \<open>A snapshot has three levels below its root.\<close>

definition ReadDirectory :: "'e machine \<Rightarrow> 'e disk go_context \<Rightarrow> string \<Rightarrow> 'e disk \<Rightarrow> (go_error + snapshot_entry list) option \<times> 'e disk" where
  "ReadDirectory mc ctx rootName = readDirectory 4 ctx rootName defaultReaderLimits (openSnapshotDirectory mc)"

section \<open>The limits hold\<close>

definition totalBytes :: "snapshot_entry list \<Rightarrow> int" where
  "totalBytes files = sum_list (map (\<lambda>f. int (length (f_Data f))) files)"

lemma totalBytes_simps [simp]: "totalBytes [] = 0" "totalBytes (f # files) = int (length (f_Data f)) + totalBytes files"
    "totalBytes (files @ files2) = totalBytes files + totalBytes files2"
  by (simp_all add: totalBytes_def)

lemma contextRead_length: "contextRead ctx_Err pieces fin n w = (Inr data, w') \<Longrightarrow> length data \<le> n"
proof (induction pieces arbitrary: n w data)
  case Nil
  then show ?case by (subst (asm) contextRead.simps) (auto split: if_splits option.splits)
next
  case (Cons pa pieces)
  obtain piece act where pa: "pa = (piece, act)" by fastforce
  obtain r w1 where r: "contextRead ctx_Err pieces fin (n - length (take n piece)) (act w) = (r, w1)" by fastforce
  show ?case
    using Cons.prems Cons.IH [of "n - length (take n piece)" "act w"] r
    by (subst (asm) contextRead.simps) (force simp: pa split: if_splits option.splits sum.splits)
qed

definition walkBounded :: "reader_limits \<Rightarrow> walk_state \<Rightarrow> bool" where
  "walkBounded limits st \<longleftrightarrow>
     list_all (\<lambda>f. validSnapshotPath (f_Path f) \<and> int (length (f_Data f)) \<le> maxFileBytes limits) (ws_files st) \<and>
     ws_totalBytes st = totalBytes (ws_files st) \<and>
     (ws_files st \<noteq> [] \<longrightarrow> int (length (ws_files st)) \<le> maxFiles limits \<and> ws_totalBytes st \<le> maxTotalBytes limits) \<and>
     (ws_hasRegistry st \<longrightarrow> ''registry.json'' \<in> f_Path ` set (ws_files st))"

lemma readSnapshotFile_length:
  "readSnapshotFile ctx_Err directory p n w = (Inr data, w') \<Longrightarrow> int (length data) \<le> n"
  by (auto simp: readSnapshotFile_def split: prod.splits sum.splits if_splits)

lemma visitEntry_bounded:
  assumes "visitEntry ctx limits directory p entry entryErr st w = (Inr st', w')" and "walkBounded limits st"
  shows "walkBounded limits st'"
proof -
  from assms(1) consider "st' = st"
    | data w0 w1 readLimit where "validSnapshotPath p" "int (length (ws_files st)) < maxFiles limits"
        "readLimit = min (maxTotalBytes limits - ws_totalBytes st) (maxFileBytes limits)"
        "readSnapshotFile (the ctx) directory p readLimit w0 = (Inr data, w1)"
        "st' = \<lparr>ws_files = ws_files st @ [\<lparr>f_Path = p, f_Data = data\<rparr>], ws_totalBytes = ws_totalBytes st + int (length data),
                ws_hasRegistry = (ws_hasRegistry st \<or> p = ''registry.json'')\<rparr>"
    by (fastforce simp: visitEntry_def Let_def split: option.splits if_splits prod.splits sum.splits)
  then show ?thesis
  proof cases
    case 2
    from readSnapshotFile_length [OF 2(4)] 2(1-3,5) assms(2) show ?thesis by (auto simp: walkBounded_def)
  qed (use assms(2) in simp)
qed

lemma walk_invariant:
  fixes visit :: "('s, 'w) visitor"
  shows "walkDir n visit rd name d s w = (Some (Inr s'), w') \<Longrightarrow>
      (\<And>name d e s w s' w'. visit name d e s w = (Inr s', w') \<Longrightarrow> I s \<Longrightarrow> I s') \<Longrightarrow> I s \<Longrightarrow> I s'"
    and "walkEntries n visit rd name entries s w = (Some (Inr s'), w') \<Longrightarrow>
      (\<And>name d e s w s' w'. visit name d e s w = (Inr s', w') \<Longrightarrow> I s \<Longrightarrow> I s') \<Longrightarrow> I s \<Longrightarrow> I s'"
proof (induction n visit rd name d s w and n visit rd name entries s w arbitrary: s' w' and s' w' rule: walkDir_walkEntries.induct)
  case (2 depth visit rd name d s w)
  obtain r1 w1 where v: "visit name d None s w = (r1, w1)" by fastforce
  show ?case
  proof (cases r1)
    case (Inr s1)
    then have I1: "I s1" using 2(4,5) v by blast
    obtain r2 w2 where rd: "rd name w1 = (r2, w2)" by fastforce
    obtain r3 w3 where v2: "visit name d (Some (projl r2)) s1 w2 = (r3, w3)" by fastforce
    from 2(3) v Inr rd v2 consider "s' = s1" | "r3 = Inr s'" | en where "r2 = Inr en" "d = Directory" "walkEntries depth visit rd name en s1 w2 = (Some (Inr s'), w')"
      by (cases r2; cases r3) (auto split: if_splits)
    then show ?thesis
    proof cases
      case 2
      with v2 have "visit name d (Some (projl r2)) s1 w2 = (Inr s', w3)" by simp
      from \<open>\<And>name d e s w s' w'. visit name d e s w = (Inr s', w') \<Longrightarrow> I s \<Longrightarrow> I s'\<close> [OF this I1] show ?thesis .
    next
      case en: 3
      show ?thesis by (rule 2(2) [OF v [symmetric] Inr _ rd [symmetric] en(1,3) 2(4) I1]) (use en(2) in auto)
    qed (use I1 in simp)
  qed (use 2(3) v in simp)
next
  case (4 depth visit rd name child d entries s w)
  obtain r1 w1 where v: "walkDir depth visit rd (path_Join name child) d s w = (r1, w1)" by fastforce
  from 4(3) v obtain s1 where s1: "r1 = Some (Inr s1)" "walkEntries depth visit rd name entries s1 w1 = (Some (Inr s'), w')"
    by (auto split: option.splits sum.splits)
  from 4(1) [OF v [unfolded s1(1)] 4(4,5)] have "I s1" .
  show ?case by (rule 4(2) [OF v [symmetric] s1(1) refl s1(2) 4(4) \<open>I s1\<close>])
qed simp_all

lemma readDirectory_bounded:
  assumes "fst (readDirectory depth ctx p limits openDirectory w) = Some (Inr files)"
  shows "sorted (map f_Path files) \<and> ''registry.json'' \<in> f_Path ` set files \<and> int (length files) \<le> maxFiles limits \<and>
    totalBytes files \<le> maxTotalBytes limits \<and>
    list_all (\<lambda>f. validSnapshotPath (f_Path f) \<and> int (length (f_Data f)) \<le> maxFileBytes limits) files"
proof -
  have start: "walkBounded limits walk_start" by (simp add: walkBounded_def walk_start_def)
  have walked: "walkBounded limits st" if "walkDir n (visitEntry ctx limits directory) rd name d walk_start w0 = (Some (Inr st), w1)"
    for n directory rd name d w0 w1 and st
    using that visitEntry_bounded start by (rule walk_invariant(1) [where I = "walkBounded limits"])
  obtain directory w1 where w1: "openDirectory p w = (Inr directory, w1)"
    using assms by (auto simp: readDirectory_def split: option.splits if_splits sum.splits prod.splits)
  obtain r w2 where w2: "sd_Stat directory w1 = (r, w2)" by fastforce
  obtain st where st: "walkBounded limits st" "ws_hasRegistry st" "files = sort_key f_Path (ws_files st)"
  proof (cases r)
    case (Inl err)
    obtain v w3 where "visitEntry ctx limits directory ''.'' Directory (Some err) walk_start w2 = (v, w3)" by fastforce
    then have False using assms w1 w2 Inl by (auto simp: readDirectory_def visitEntry_def split: option.splits if_splits)
    then show thesis ..
  next
    case (Inr info)
    obtain v w3 where wd: "walkDir depth (visitEntry ctx limits directory) (sd_ReadDir directory) ''.'' info walk_start w2 = (v, w3)" by fastforce
    with assms w1 w2 Inr obtain st where st: "v = Some (Inr st)" "ws_hasRegistry st" "files = sort_key f_Path (ws_files st)"
      by (cases v) (auto simp: readDirectory_def split: option.splits if_splits sum.splits)
    show thesis by (rule that [OF walked [OF wd [unfolded st(1)]] st(2,3)])
  qed
  have "totalBytes files = totalBytes (ws_files st)"
    by (simp add: st(3) totalBytes_def flip: sum_mset_sum_list)
  with st show ?thesis by (auto simp: walkBounded_def list_all_iff)
qed

section \<open>What was written is read back\<close>

text \<open>A machine without faults, and the names the walk gives the keys below the root.\<close>

definition calm :: "'e machine \<Rightarrow> bool" where "calm mc \<longleftrightarrow> (\<forall>e. mc_fault mc e = None)"

definition pathName :: "path_key \<Rightarrow> string" where "pathName s = (if s = [] then ''.'' else joinSlash s)"

lemma diskCall_calm:
  "calm mc \<Longrightarrow> \<exists>x'. diskCall mc good failed bad x = (fst (good (fst (fst x))), x') \<and> fst (fst x') = snd (good (fst (fst x)))"
  by (cases x; cases "fst x") (auto simp: calm_def diskCall_def split: prod.splits)

lemma splitPath_plain: "list_all plainSeg s \<Longrightarrow> s \<noteq> [] \<Longrightarrow> splitPath (joinSlash s) = s"
  by (rule splitPath_join) (auto simp: list_all_iff plainSeg_def)

lemma pathName_relative: "list_all plainSeg s \<Longrightarrow> \<not> isAbs (pathName s)"
  using joinSlash_first [of s] by (cases s; cases "hd s") (auto simp: pathName_def isAbs_iff plainSeg_def)

lemma keyOf_pathName:
  assumes "list_all plainSeg s"
  shows "keyOf k (pathName s) = k @ s"
proof (cases "s = []")
  case True
  then show ?thesis by (simp add: pathName_def keyOf_def cleanStep_def isAbs_iff)
next
  case False
  with assms pathName_relative [OF assms] show ?thesis
    by (simp add: keyOf_def pathName_def splitPath_plain foldl_plain)
qed

lemma Clean_relative:
  assumes "list_all plainSeg s" and "s \<noteq> []"
  shows "Clean (joinSlash s) = joinSlash s"
  using assms pathName_relative [OF assms(1)] by (simp add: Clean_def pathName_def splitPath_plain foldl_plain)

lemma path_Join_pathName:
  assumes "list_all plainSeg s" and "plainSeg child"
  shows "path_Join (pathName s) child = pathName (s @ [child])"
proof (cases "s = []")
  case True
  have "\<not> isAbs (''.'' @ CHR ''/'' # child)" by (simp add: isAbs_iff)
  with True assms(2) show ?thesis
    by (simp add: path_Join_def pathName_def Clean_def Split_single plainSeg_def cleanStep_def isAbs_iff)
next
  case False
  have "joinSlash (s @ [child]) = joinSlash s @ CHR ''/'' # child"
    using False by (induction s rule: joinSlash.induct) auto
  moreover have "joinSlash s \<noteq> []" using joinSlash_first [OF False] assms(1) False by (cases s) (auto simp: plainSeg_def)
  ultimately show ?thesis
    using Clean_relative [of "s @ [child]"] assms False by (simp add: path_Join_def pathName_def)
qed

definition extendWalk :: "walk_state \<Rightarrow> snapshot_entry list \<Rightarrow> walk_state" where
  "extendWalk st files =
     \<lparr>ws_files = ws_files st @ files, ws_totalBytes = ws_totalBytes st + totalBytes files,
      ws_hasRegistry = (ws_hasRegistry st \<or> ''registry.json'' \<in> f_Path ` set files)\<rparr>"

lemma extendWalk_simps [simp]: "extendWalk st [] = st" "extendWalk (extendWalk st as) bs = extendWalk st (as @ bs)"
  by (auto simp: extendWalk_def)

definition roomFor :: "reader_limits \<Rightarrow> walk_state \<Rightarrow> snapshot_entry list \<Rightarrow> bool" where
  "roomFor limits st files \<longleftrightarrow>
     int (length (ws_files st) + length files) \<le> maxFiles limits \<and> ws_totalBytes st + totalBytes files \<le> maxTotalBytes limits \<and>
     list_all (\<lambda>f. int (length (f_Data f)) \<le> maxFileBytes limits) files"

lemma totalBytes_nonneg: "0 \<le> totalBytes files"
  by (induction files) auto

lemma roomFor_append: "roomFor limits st (as @ bs) \<Longrightarrow> roomFor limits st as \<and> roomFor limits (extendWalk st as) bs"
  using totalBytes_nonneg [of bs] by (auto simp: roomFor_def extendWalk_def)

lemma contextRead_whole:
  "length data \<le> n \<Longrightarrow> contextRead (\<lambda>_. None) [(data, id)] None (Suc n) w = (Inr data, w)"
  by (subst contextRead.simps) (simp, subst contextRead.simps, simp)

lemma os_Lstat_calm:
  assumes "calm mc"
  obtains x' where "os_Lstat (mc\<lparr>mc_cwd := k\<rparr>) p x = (statTree (keyOf k p) (fst (fst x)), x')" "fst (fst x') = fst (fst x)"
proof -
  have "calm (mc\<lparr>mc_cwd := k\<rparr>)" using assms by (simp add: calm_def)
  from diskCall_calm [OF this, of "\<lambda>t. (statTree (keyOf k p) t, t)" Inl "\<lambda>_ t. t" x] that show thesis
    by (auto simp: os_Lstat_def)
qed

lemma visit_file:
  assumes "calm mc" and "map_of (fst (fst x)) (k @ s) = Some (Regular data)" and "list_all plainSeg s" "s \<noteq> []"
    and "validSnapshotPath (joinSlash s)" and "roomFor limits st [\<lparr>f_Path = joinSlash s, f_Data = data\<rparr>]"
  shows "\<exists>x'. visitEntry (Some (\<lambda>_. None)) limits (osSnapshotDirectory mc k) (pathName s) (Regular data) None st x =
      (Inr (extendWalk st [\<lparr>f_Path = joinSlash s, f_Data = data\<rparr>]), x') \<and> fst (fst x') = fst (fst x)"
proof -
  have name: "pathName s = joinSlash s" "joinSlash s \<noteq> ''.''"
    using assms(4,5) by (auto simp: pathName_def validSnapshotPath_def Let_def split: if_splits)
  have key: "keyOf k (joinSlash s) = k @ s" using keyOf_pathName [OF assms(3)] name by simp
  have stat: "statTree (k @ s) (fst (fst x)) = Inr (Regular data)" using assms(2) by (simp add: statTree_def)
  obtain x1 where x1: "os_Lstat (mc\<lparr>mc_cwd := k\<rparr>) (joinSlash s) x = (Inr (Regular data), x1)" "fst (fst x1) = fst (fst x)"
    using os_Lstat_calm [OF assms(1), of k "joinSlash s" x] key stat by metis
  obtain x2 where x2: "os_Lstat (mc\<lparr>mc_cwd := k\<rparr>) (joinSlash s) x1 = (Inr (Regular data), x2)" "fst (fst x2) = fst (fst x)"
    using os_Lstat_calm [OF assms(1), of k "joinSlash s" x1] key stat x1(2) by metis
  let ?limit = "min (maxTotalBytes limits - ws_totalBytes st) (maxFileBytes limits)"
  have fits: "int (length data) \<le> ?limit" "int (length (ws_files st)) < maxFiles limits" using assms(6) by (auto simp: roomFor_def)
  then have "nat (?limit + 1) = Suc (nat ?limit)" "length data \<le> nat ?limit" by linarith+
  then have "contextRead (\<lambda>_. None) [(data, id)] None (nat (?limit + 1)) x2 = (Inr data, x2)" by (metis contextRead_whole)
  then have "readSnapshotFile (\<lambda>_. None) (osSnapshotDirectory mc k) (joinSlash s) ?limit x1 = (Inr data, x2)"
    using x2 fits by (auto simp: readSnapshotFile_def osSnapshotDirectory_def Let_def regular_def min_def split: if_splits)
  moreover have "(if maxTotalBytes limits - ws_totalBytes st < maxFileBytes limits then maxTotalBytes limits - ws_totalBytes st
      else maxFileBytes limits) = ?limit" by simp
  ultimately show ?thesis
    using x1 x2 name fits assms(5)
    by (auto simp: visitEntry_def checkReaderContext_def osSnapshotDirectory_def Let_def regular_def extendWalk_def)
qed

lemma ReadDir_calm:
  assumes "calm mc" and "map_of (fst (fst x)) (k @ s) = Some Directory" and "list_all plainSeg s"
  obtains x' where "sd_ReadDir (osSnapshotDirectory mc k) (pathName s) x =
    (Inr (map (\<lambda>child. (child, the (map_of (fst (fst x)) (k @ s @ [child])))) (namesIn (k @ s) (fst (fst x)))), x')"
    "fst (fst x') = fst (fst x)"
proof -
  have "calm (mc\<lparr>mc_cwd := k\<rparr>)" using assms(1) by (simp add: calm_def)
  from diskCall_calm [OF this, of "\<lambda>t. (case statTree (k @ s) t of Inl err \<Rightarrow> Inl err
      | Inr n \<Rightarrow> if n \<noteq> Directory then Inl errNotDir
                 else Inr (map (\<lambda>name. (name, the (map_of t ((k @ s) @ [name])))) (namesIn (k @ s) t)), t)" Inl "\<lambda>_ t. t" x]
  obtain x' where "sd_ReadDir (osSnapshotDirectory mc k) (pathName s) x =
      (Inr (map (\<lambda>child. (child, the (map_of (fst (fst x)) (k @ s @ [child])))) (namesIn (k @ s) (fst (fst x)))), x')"
      "fst (fst x') = fst (fst x)"
    using assms(2) by (auto simp: osSnapshotDirectory_def os_ReadDir_def Let_def keyOf_pathName [OF assms(3)] statTree_def)
  with that show thesis by blast
qed

text \<open>The files below an entry in the order of the walk.\<close>

fun walkFiles :: "nat \<Rightarrow> tree \<Rightarrow> path_key \<Rightarrow> path_key \<Rightarrow> node \<Rightarrow> snapshot_entry list" where
  "walkFiles 0 t k s d = []"
| "walkFiles (Suc n) t k s d =
     (case d of
        Regular data \<Rightarrow> [\<lparr>f_Path = joinSlash s, f_Data = data\<rparr>]
      | Directory \<Rightarrow> concat (map (\<lambda>child. walkFiles n t k (s @ [child]) (the (map_of t (k @ s @ [child])))) (namesIn (k @ s) t))
      | Irregular _ \<Rightarrow> [])"

text \<open>The shape of a snapshot: its directories and files have the names the reader accepts.\<close>

definition readableTree :: "tree \<Rightarrow> path_key \<Rightarrow> bool" where
  "readableTree t k \<longleftrightarrow>
     (\<forall>s n. map_of t (k @ s) = Some n \<longrightarrow> list_all plainSeg s \<and> length s \<le> 3 \<and>
        (case n of
           Directory \<Rightarrow> length s \<le> 2 \<and> (s = [] \<or> validSnapshotDirectory (joinSlash s))
         | Regular _ \<Rightarrow> s \<noteq> [] \<and> validSnapshotPath (joinSlash s)
         | Irregular _ \<Rightarrow> False))"

lemma namesIn_mem: "child \<in> set (namesIn k t) \<longleftrightarrow> map_of t (k @ [child]) \<noteq> None"
proof -
  have "(\<exists>v. (k @ [child], v) \<in> set t) \<longleftrightarrow> child \<in> (last \<circ> fst) ` {x \<in> set t. fst x \<noteq> [] \<and> butlast (fst x) = k}"
    by (force simp: image_iff intro: exI [of _ "snd _"])
  then show ?thesis
    by (simp add: namesIn_def map_of_eq_None_iff image_iff case_prod_beta) force
qed

lemma walkDir_reads:
  assumes calm: "calm mc" and tree: "readableTree t k"
  shows "fst (fst x) = t \<Longrightarrow> map_of t (k @ s) = Some d \<Longrightarrow> n + length s = 4 \<Longrightarrow> roomFor limits st (walkFiles n t k s d) \<Longrightarrow>
    \<exists>x'. walkDir n (visitEntry (Some (\<lambda>_. None)) limits (osSnapshotDirectory mc k)) (sd_ReadDir (osSnapshotDirectory mc k))
      (pathName s) d st x = (Some (Inr (extendWalk st (walkFiles n t k s d))), x') \<and> fst (fst x') = t"
proof (induction n arbitrary: s d st x)
  case 0
  then show ?case using tree unfolding readableTree_def by fastforce
next
  case (Suc n)
  let ?dir = "osSnapshotDirectory mc k"
  let ?visit = "visitEntry (Some (\<lambda>_. None)) limits ?dir"
  have plain: "list_all plainSeg s" using Suc.prems(2) tree by (simp add: readableTree_def)
  show ?case
  proof (cases d)
    case Directory
    let ?go = "\<lambda>child. walkFiles n t k (s @ [child]) (the (map_of t (k @ s @ [child])))"
    have "s = [] \<or> validSnapshotDirectory (joinSlash s)" using Suc.prems(2) tree Directory by (fastforce simp: readableTree_def)
    then have visited: "?visit (pathName s) d None st x = (Inr st, x)"
      by (auto simp: visitEntry_def checkReaderContext_def Directory pathName_def)
    obtain x1 where rd: "sd_ReadDir ?dir (pathName s) x =
        (Inr (map (\<lambda>child. (child, the (map_of t (k @ s @ [child])))) (namesIn (k @ s) t)), x1)" "fst (fst x1) = t"
      by (rule ReadDir_calm [OF calm _ plain, of x]) (use Suc.prems(1,2) Directory in auto)
    have walk: "\<exists>x'. walkEntries n ?visit (sd_ReadDir ?dir) (pathName s) (map (\<lambda>child. (child, the (map_of t (k @ s @ [child])))) names) st y =
        (Some (Inr (extendWalk st (concat (map ?go names)))), x') \<and> fst (fst x') = t"
      if "set names \<subseteq> set (namesIn (k @ s) t)" "fst (fst y) = t" "roomFor limits st (concat (map ?go names))" for names st y
      using that
    proof (induction names arbitrary: st y)
      case (Cons child names)
      then have some: "map_of t (k @ s @ [child]) \<noteq> None" by (simp add: namesIn_mem)
      then obtain d1 where d1: "map_of t (k @ s @ [child]) = Some d1" by auto
      then have "plainSeg child" using tree by (fastforce simp: readableTree_def)
      then have name: "path_Join (pathName s) child = pathName (s @ [child])" by (rule path_Join_pathName [OF plain])
      have room: "roomFor limits st (?go child)" "roomFor limits (extendWalk st (?go child)) (concat (map ?go names))"
        using roomFor_append [of limits st "?go child" "concat (map ?go names)"] Cons.prems(3) by auto
      obtain y1 where y1: "walkDir n ?visit (sd_ReadDir ?dir) (pathName (s @ [child])) d1 st y =
          (Some (Inr (extendWalk st (?go child))), y1)" "fst (fst y1) = t"
        using Suc.IH [of y "s @ [child]" d1 st] Cons.prems(2) d1 Suc.prems(3) room(1) by auto
      from Cons.IH [of y1 "extendWalk st (?go child)"] Cons.prems(1) y1(2) room(2) obtain y2 where
        "walkEntries n ?visit (sd_ReadDir ?dir) (pathName s) (map (\<lambda>child. (child, the (map_of t (k @ s @ [child])))) names)
          (extendWalk st (?go child)) y1 = (Some (Inr (extendWalk st (?go child @ concat (map ?go names)))), y2)" "fst (fst y2) = t"
        by auto
      with y1 name d1 show ?case by simp
    qed simp
    from walk [of "namesIn (k @ s) t" x1 st] rd(2) Suc.prems(4) Directory obtain x2 where
      "walkEntries n ?visit (sd_ReadDir ?dir) (pathName s) (map (\<lambda>child. (child, the (map_of t (k @ s @ [child])))) (namesIn (k @ s) t)) st x1 =
        (Some (Inr (extendWalk st (concat (map ?go (namesIn (k @ s) t))))), x2)" "fst (fst x2) = t" by auto
    with visited rd Directory show ?thesis by simp
  next
    case (Regular data)
    have "validSnapshotPath (joinSlash s)" "s \<noteq> []"
      using tree [unfolded readableTree_def, rule_format, OF Suc.prems(2)] Regular by auto
    then obtain x' where "?visit (pathName s) d None st x = (Inr (extendWalk st [\<lparr>f_Path = joinSlash s, f_Data = data\<rparr>]), x')" "fst (fst x') = t"
      using visit_file [OF calm, of x k s data limits st] Suc.prems plain Regular by auto
    with Regular show ?thesis by simp
  next
    case (Irregular b)
    with Suc.prems(2) tree show ?thesis by (fastforce simp: readableTree_def)
  qed
qed

lemma walkFiles_set:
  assumes "wfTree t" and "readableTree t k"
  shows "map_of t (k @ s) = Some d \<Longrightarrow> n + length s = 4 \<Longrightarrow>
    set (walkFiles n t k s d) = {\<lparr>f_Path = joinSlash (s @ r), f_Data = data\<rparr> | r data. map_of t (k @ s @ r) = Some (Regular data)}"
proof (induction n arbitrary: s d)
  case 0
  then show ?case using assms(2) unfolding readableTree_def by fastforce
next
  case (Suc n)
  have below: "r = []" if "map_of t (k @ s @ r) = Some v" "d \<noteq> Directory" for r v
    using that wfTree_prefix [OF assms(1), of "k @ s @ r" "k @ s"] Suc.prems(1) by (cases "r = []") (auto simp: strict_prefix_def)
  show ?case
  proof (cases d)
    case (Regular data)
    have eq: "map_of t (k @ s @ r) = Some (Regular data') \<longleftrightarrow> r = [] \<and> data' = data" for r data'
      using below [of r "Regular data'"] Suc.prems(1) Regular by (cases "r = []") auto
    show ?thesis unfolding eq by (simp add: Regular)
  next
    case (Irregular b)
    have "map_of t (k @ s @ r) \<noteq> Some (Regular data')" for r data'
      using below [of r "Regular data'"] Suc.prems(1) Irregular by auto
    with Irregular show ?thesis by simp
  next
    case Directory
    have child: "set (walkFiles n t k (s @ [child]) (the (map_of t (k @ s @ [child])))) =
        {\<lparr>f_Path = joinSlash (s @ child # r), f_Data = data\<rparr> | r data. map_of t (k @ s @ child # r) = Some (Regular data)}"
      if "child \<in> set (namesIn (k @ s) t)" for child
      using that Suc.IH [of "s @ [child]"] Suc.prems(2) by (auto simp: namesIn_mem)
    have some: "child \<in> set (namesIn (k @ s) t)" if "map_of t (k @ s @ child # r) = Some v" for child r v
      using that wfTree_prefix [OF assms(1), of "k @ s @ child # r" "k @ s @ [child]"]
      by (cases "r = []") (auto simp: namesIn_mem strict_prefix_def prefix_def)
    have "set (walkFiles (Suc n) t k s d) =
        (\<Union>child \<in> set (namesIn (k @ s) t).
          {\<lparr>f_Path = joinSlash (s @ child # r), f_Data = data\<rparr> | r data. map_of t (k @ s @ child # r) = Some (Regular data)})"
      using child Directory by simp
    also have "\<dots> = {\<lparr>f_Path = joinSlash (s @ r), f_Data = data\<rparr> | r data. map_of t (k @ s @ r) = Some (Regular data)}"
    proof (intro equalityI subsetI)
      fix f assume "f \<in> {\<lparr>f_Path = joinSlash (s @ r), f_Data = data\<rparr> | r data. map_of t (k @ s @ r) = Some (Regular data)}"
      then obtain r data where f: "f = \<lparr>f_Path = joinSlash (s @ r), f_Data = data\<rparr>" "map_of t (k @ s @ r) = Some (Regular data)" by auto
      then obtain c r' where "r = c # r'" using Suc.prems(1) Directory by (cases r) auto
      with f some show "f \<in> (\<Union>child \<in> set (namesIn (k @ s) t).
          {\<lparr>f_Path = joinSlash (s @ child # r), f_Data = data\<rparr> | r data. map_of t (k @ s @ child # r) = Some (Regular data)})" by blast
    qed blast
    finally show ?thesis .
  qed
qed

lemma walkFiles_distinct:
  assumes "wfTree t" and "readableTree t k"
  shows "map_of t (k @ s) = Some d \<Longrightarrow> n + length s = 4 \<Longrightarrow> distinct (map f_Path (walkFiles n t k s d))"
proof (induction n arbitrary: s d)
  case (Suc n)
  let ?go = "\<lambda>child. walkFiles n t k (s @ [child]) (the (map_of t (k @ s @ [child])))"
  have nth: "splitPath (f_Path f) ! length s = child" if "f \<in> set (?go child)" "child \<in> set (namesIn (k @ s) t)" for f child
  proof -
    from that(2) have "map_of t (k @ s @ [child]) \<noteq> None" by (simp add: namesIn_mem)
    then have "set (?go child) = {\<lparr>f_Path = joinSlash ((s @ [child]) @ r), f_Data = data\<rparr> | r data.
        map_of t (k @ (s @ [child]) @ r) = Some (Regular data)}"
      using Suc.prems(2) by (intro walkFiles_set [OF assms]) auto
    with that(1) have "f \<in> {\<lparr>f_Path = joinSlash ((s @ [child]) @ r), f_Data = data\<rparr> | r data.
        map_of t (k @ (s @ [child]) @ r) = Some (Regular data)}" by (simp only:)
    then obtain r data where "f_Path f = joinSlash (s @ child # r)" "map_of t (k @ s @ child # r) = Some (Regular data)" by auto
    moreover from this(2) have "list_all plainSeg (s @ child # r)" using assms(2) unfolding readableTree_def by blast
    ultimately show ?thesis by (simp add: splitPath_plain)
  qed
  have "distinct (map f_Path (concat (map ?go names)))" if "distinct names" "set names \<subseteq> set (namesIn (k @ s) t)" for names
    using that
  proof (induction names)
    case (Cons child names)
    then have "distinct (map f_Path (?go child))" using Suc.IH [of "s @ [child]"] Suc.prems(2) by (auto simp: namesIn_mem)
    moreover have "f_Path ` set (?go child) \<inter> f_Path ` set (concat (map ?go names)) = {}"
    proof (rule ccontr)
      assume "f_Path ` set (?go child) \<inter> f_Path ` set (concat (map ?go names)) \<noteq> {}"
      then obtain f g other where "f \<in> set (?go child)" "other \<in> set names" "g \<in> set (?go other)" "f_Path f = f_Path g" by auto
      with nth [of f child] nth [of g other] Cons.prems show False by auto
    qed
    ultimately show ?case using Cons by (simp add: distinct_append)
  qed simp
  from this [of "namesIn (k @ s) t"] show ?case by (cases d) (auto simp: namesIn_def)
qed simp

lemma hex_plain: "isLowerHex s \<Longrightarrow> CHR ''/'' \<notin> set s"
  by (auto simp: isLowerHex_def isLowerHexByte_def list_all_iff in_range_def byte_of_def)

lemma validSnapshotPath_split:
  assumes "validSnapshotPath p"
  shows "splitPath p = [''registry.json''] \<or>
    (\<exists>h f. splitPath p = [''nodes'', h, f] \<and> length h = 2 \<and> isLowerHex h)"
proof (cases "p = ''registry.json''")
  case False
  then have "length (splitPath p) = 3" "splitPath p ! 0 = ''nodes''" "length (splitPath p ! 1) = 2" "isLowerHex (splitPath p ! 1)"
    using assms by (auto simp: validSnapshotPath_def Let_def split: if_splits)
  then show ?thesis by (cases "splitPath p" rule: list.exhaust; cases "tl (splitPath p)"; cases "tl (tl (splitPath p))") auto
qed (simp add: Split_single)

lemma snapshot_readable:
  assumes "holdsSnapshot k files t" and "logicalFiles files" and "list_all (\<lambda>f. validSnapshotPath (f_Path f)) files"
  shows "readableTree t k"
  unfolding readableTree_def
proof (intro allI impI)
  fix s n assume "map_of t (k @ s) = Some n"
  with assms(1) have n: "snapshotTree files s = Some n" by (simp add: holdsSnapshot_def)
  show "list_all plainSeg s \<and> length s \<le> 3 \<and> (case n of Directory \<Rightarrow> length s \<le> 2 \<and> (s = [] \<or> validSnapshotDirectory (joinSlash s))
      | Regular _ \<Rightarrow> s \<noteq> [] \<and> validSnapshotPath (joinSlash s) | Irregular _ \<Rightarrow> False)"
  proof (cases "map_of (fileMap files) s")
    case (Some d)
    then obtain f where f: "f \<in> set files" "s = splitPath (f_Path f)" by (auto simp: fileMap_def dest!: map_of_SomeD)
    then have "validSnapshotPath (f_Path f)" "list_all plainSeg s" using assms(2,3) by (auto simp: logicalFiles_def list_all_iff)
    moreover have "joinSlash s = f_Path f" "n = Regular d" using f(2) n Some by (simp_all add: joinSlash_split snapshotTree_def)
    moreover have "s \<noteq> [] \<and> length s \<le> 3" using validSnapshotPath_split [of "f_Path f"] calculation f(2) by auto
    ultimately show ?thesis by simp
  next
    case None
    then consider "s = []" "n = Directory" | f where "f \<in> set files" "strict_prefix s (splitPath (f_Path f))" "n = Directory"
      using n by (auto simp: snapshotTree_def list_ex_iff split: if_splits)
    then show ?thesis
    proof cases
      case 2
      have v: "validSnapshotPath (f_Path f)" "list_all plainSeg (splitPath (f_Path f))"
        using assms(2,3) 2(1) by (auto simp: logicalFiles_def list_all_iff)
      obtain r where r: "splitPath (f_Path f) = s @ r" "r \<noteq> []" using 2(2) by (auto simp: strict_prefix_def prefix_def)
      from validSnapshotPath_split [OF v(1)] r consider "s = []" | "s = [''nodes'']"
        | h where "s = [''nodes'', h]" "length h = 2" "isLowerHex h"
        by (auto simp: append_eq_Cons_conv Cons_eq_append_conv)
      then show ?thesis
      proof cases
        case 3
        then have "splitPath (''nodes/'' @ h) = [''nodes'', h]" by (simp add: Split_single hex_plain)
        with 3 v(2) r 2(3) show ?thesis by (simp add: validSnapshotDirectory_def)
      qed (use v(2) r 2(3) in \<open>auto simp: validSnapshotDirectory_def\<close>)
    qed simp
  qed
qed

lemma hexText_hex: "isLowerHex (hexText s)" "length (hexText s) = 2 * length s"
proof -
  have "list_all (\<lambda>n. isLowerHexByte (hexDigit n)) [0..<16]" by code_simp
  then have digit: "isLowerHexByte (hexDigit n)" if "n < 16" for n using that by (simp add: list_all_iff)
  have "byte_of c div 16 < 16" for c using byte_of_less [of c] by simp
  with digit show "isLowerHex (hexText s)" by (auto simp: isLowerHex_def hexText_def list_all_iff)
  show "length (hexText s) = 2 * length s" by (induction s) (simp_all add: hexText_def)
qed

lemma pathForOrigin_valid:
  assumes "length (sha256 canonical) = 32"
  shows "validSnapshotPath (pathForOrigin sha256 canonical)"
proof -
  let ?e = "hexText (sha256 canonical)"
  have e: "isLowerHex ?e" "length ?e = 64" using hexText_hex assms by simp_all
  then have h: "isLowerHex (take 2 ?e)" by (auto simp: isLowerHex_def list_all_iff dest: in_set_takeD)
  have slash: "CHR ''/'' \<notin> set (?e @ ''.json'')" using hex_plain [OF e(1)] by auto
  have split: "splitPath (pathForOrigin sha256 canonical) = [''nodes'', take 2 ?e, ?e @ ''.json'']"
    using Split_append [of "''nodes''" "CHR ''/''" "take 2 ?e @ CHR ''/'' # (?e @ ''.json'')"] hex_plain [OF h] Split_single [OF slash]
    by (simp add: pathForOrigin_def Let_def Split_append Split_single)
  show ?thesis
    unfolding validSnapshotPath_def split Let_def using e h by (auto simp: HasPrefix_def)
qed

lemma BuildRegistry_files:
  assumes "BuildRegistry sha256 ps = Inr files" and "\<And>s. length (sha256 s) = 32"
  shows "sorted (map f_Path files)" "''registry.json'' \<in> f_Path ` set files" "list_all (\<lambda>f. validSnapshotPath (f_Path f)) files"
proof -
  obtain ordered data where files: "files = sort_key f_Path (map (nodeFile sha256) ordered @ [\<lparr>f_Path = ''registry.json'', f_Data = data\<rparr>])"
    using assms(1) by (auto simp: BuildRegistry_def Let_def split: option.splits)
  show "sorted (map f_Path files)" by (simp add: files)
  show "''registry.json'' \<in> f_Path ` set files" by (simp add: files)
  have "validSnapshotPath ''registry.json''" by (simp add: validSnapshotPath_def)
  with pathForOrigin_valid [of sha256] assms(2) show "list_all (\<lambda>f. validSnapshotPath (f_Path f)) files"
    by (auto simp: files list_all_iff nodeFile_def)
qed

text \<open>Reading a tree that holds a snapshot.\<close>

definition withinLimits :: "reader_limits \<Rightarrow> snapshot_entry list \<Rightarrow> bool" where
  "withinLimits limits files \<longleftrightarrow>
     int (length files) \<le> maxFiles limits \<and> totalBytes files \<le> maxTotalBytes limits \<and>
     list_all (\<lambda>f. int (length (f_Data f)) \<le> maxFileBytes limits) files"

lemma holdsSnapshot_root: "holdsSnapshot k files t \<Longrightarrow> map_of t k = Some Directory"
proof -
  assume "holdsSnapshot k files t"
  then have "map_of t (k @ []) = snapshotTree files []" unfolding holdsSnapshot_def by blast
  moreover have "map_of (fileMap files) [] = None" by (auto simp: fileMap_def map_of_eq_None_iff) (metis Split_nonempty)
  ultimately show ?thesis by (simp add: snapshotTree_def)
qed

lemma snapshot_walked:
  assumes "wfTree t" and "holdsSnapshot k files t" and "logicalFiles files" and "list_all (\<lambda>f. validSnapshotPath (f_Path f)) files"
  shows "mset (walkFiles 4 t k [] Directory) = mset files"
proof -
  note readable = snapshot_readable [OF assms(2-4)]
  have k: "map_of t (k @ []) = Some Directory" using holdsSnapshot_root [OF assms(2)] by simp
  have "distinct (walkFiles 4 t k [] Directory)"
    using walkFiles_distinct [OF assms(1) readable k, of 4] by (simp add: distinct_map)
  moreover have "distinct files" using assms(3) by (simp add: logicalFiles_def distinct_map)
  moreover have "set (walkFiles 4 t k [] Directory) = set files"
  proof -
    have keys: "distinct (map fst (fileMap files))"
      using assms(3) splitPath_inject by (auto simp: logicalFiles_def fileMap_def distinct_map comp_def inj_on_def)
    have "map_of t (k @ r) = Some (Regular data) \<longleftrightarrow> (r, data) \<in> set (fileMap files)" for r data
    proof -
      have "map_of t (k @ r) = snapshotTree files r" using assms(2) by (simp add: holdsSnapshot_def)
      moreover have "(r, data) \<in> set (fileMap files) \<longleftrightarrow> map_of (fileMap files) r = Some data" using keys by simp
      ultimately show ?thesis by (auto simp: snapshotTree_def split: option.splits)
    qed
    with walkFiles_set [OF assms(1) readable k, of 4] have "set (walkFiles 4 t k [] Directory) =
        {\<lparr>f_Path = joinSlash r, f_Data = data\<rparr> | r data. (r, data) \<in> set (fileMap files)}" by simp
    also have "\<dots> = (\<lambda>f. \<lparr>f_Path = joinSlash (splitPath (f_Path f)), f_Data = f_Data f\<rparr>) ` set files"
      by (auto simp: fileMap_def)
    also have "\<dots> = set files"
    proof -
      have "\<lparr>f_Path = joinSlash (splitPath (f_Path f)), f_Data = f_Data f\<rparr> = f" for f :: snapshot_entry
        by (simp add: joinSlash_split)
      then show ?thesis by simp
    qed
    finally show ?thesis .
  qed
  ultimately show ?thesis by (simp add: set_eq_iff_mset_eq_distinct)
qed

lemma ReadDirectory_snapshot:
  assumes "wfTree (fst (fst x))" and "holdsSnapshot (keyOf (mc_cwd mc) p) files (fst (fst x))" and "logicalFiles files" and "calm mc" and "p \<noteq> []"
    and "list_all (\<lambda>f. validSnapshotPath (f_Path f)) files" and "withinLimits defaultReaderLimits files"
    and "''registry.json'' \<in> f_Path ` set files" and "sorted (map f_Path files)"
  shows "fst (ReadDirectory mc (Some (\<lambda>_. None)) p x) = Some (Inr files)"
proof -
  let ?k = "keyOf (mc_cwd mc) p" and ?t = "fst (fst x)"
  let ?dir = "osSnapshotDirectory mc ?k" and ?files = "walkFiles 4 ?t ?k [] Directory"
  note walked = snapshot_walked [OF assms(1-3,6)]
  have k: "map_of ?t ?k = Some Directory" by (rule holdsSnapshot_root [OF assms(2)])
  then have stat: "statTree ?k ?t = Inr Directory" by (simp add: statTree_def)
  have mc: "mc\<lparr>mc_cwd := mc_cwd mc\<rparr> = mc" by simp
  obtain x1 where x1: "os_Lstat mc p x = (Inr Directory, x1)" "fst (fst x1) = ?t"
    using os_Lstat_calm [OF assms(4), of "mc_cwd mc" p x] stat mc by metis
  obtain x2 where x2: "os_Lstat mc p x1 = (Inr Directory, x2)" "fst (fst x2) = ?t"
    using os_Lstat_calm [OF assms(4), of "mc_cwd mc" p x1] stat mc x1(2) by metis
  obtain x3 where x3: "os_Lstat (mc\<lparr>mc_cwd := ?k\<rparr>) ''.'' x2 = (Inr Directory, x3)" "fst (fst x3) = ?t"
    using os_Lstat_calm [OF assms(4), of ?k "''.''" x2] stat keyOf_pathName [of "[]" ?k] x2(2) by (auto simp: pathName_def)
  have len: "length ?files = length files" using walked by (metis size_mset)
  have total: "totalBytes ?files = totalBytes files" using walked by (simp add: totalBytes_def flip: sum_mset_sum_list)
  have set: "set ?files = set files" using walked by (rule mset_eq_setD)
  have "roomFor defaultReaderLimits walk_start ?files"
    using assms(7) len total set by (simp add: roomFor_def withinLimits_def walk_start_def list_all_iff)
  from walkDir_reads [OF assms(4) snapshot_readable [OF assms(2,3,6)] x3(2), of "[]" Directory 4, OF _ _ this] k
  obtain x4 where "walkDir 4 (visitEntry (Some (\<lambda>_. None)) defaultReaderLimits ?dir) (sd_ReadDir ?dir) ''.'' Directory walk_start x3 =
      (Some (Inr (extendWalk walk_start ?files)), x4)" by (auto simp: pathName_def)
  moreover have "sd_Stat ?dir x2 = (Inr Directory, x3)" using x3(1) by (simp add: osSnapshotDirectory_def Let_def)
  moreover have "sort_key f_Path ?files = files"
    using walked assms(9) set assms(3) by (intro sort_key_inj_key_eq) (auto simp: logicalFiles_def distinct_map)
  ultimately show ?thesis
    using x1(1) x2(1) assms(5,8) set
    by (simp add: ReadDirectory_def readDirectory_def checkReaderContext_def openSnapshotDirectory_def extendWalk_def walk_start_def)
qed

lemma writeDirectory_checked:
  assumes "writeDirectory ctx p files fs w = (None, w')"
  shows "outputRootParts p \<in> range Inr" "validateLogicalFiles files = None"
  using assms by (auto simp: writeDirectory_def split: option.splits sum.splits)

section \<open>Properties\<close>

text \<open>
  C21. The reader returns bounded snapshots only: whatever the directory answers, and whatever happens to it during the walk, the
  files it returns are in lexical order, include the registry, have the paths a snapshot may have, and keep the limits on the
  number of files, the bytes of each file and the bytes of all.
\<close>
theorem readDirectory_limits:
  "case fst (readDirectory depth ctx p limits openDirectory w) of
     Some (Inr files) \<Rightarrow>
       sorted (map f_Path files) \<and> ''registry.json'' \<in> f_Path ` set files \<and> int (length files) \<le> maxFiles limits \<and>
       totalBytes files \<le> maxTotalBytes limits \<and>
       list_all (\<lambda>f. validSnapshotPath (f_Path f) \<and> int (length (f_Data f)) \<le> maxFileBytes limits) files
   | _ \<Rightarrow> True"
  using readDirectory_bounded [of depth ctx p limits openDirectory w] by (auto split: option.splits sum.splits)

text \<open>
  What was exported is read back: when a registry was built and its snapshot was written, a machine without faults reads
  exactly the built files from it, in their order, as long as the registry keeps the limits of the reader.
\<close>
theorem export_then_read:
  assumes "BuildRegistry sha256 ps = Inr files" and "\<And>s. length (sha256 s) = 32"
    and "WriteDirectory mc ctx p files x = (None, x')" and "wfTree (fst (fst x))" and "\<And>e. CHR ''/'' \<notin> set (mc_random mc e)"
    and "withinLimits defaultReaderLimits files" and "calm mc'" and "mc_cwd mc' = mc_cwd mc"
  shows "fst (ReadDirectory mc' (Some (\<lambda>_. None)) p x') = Some (Inr files)"
proof (rule ReadDirectory_snapshot)
  from assms(3) have ok: "outputRootParts p \<in> range Inr" "validateLogicalFiles files = None"
    unfolding WriteDirectory_def by (rule writeDirectory_checked)+
  then show "logicalFiles files" using validateFiles_logical [of "[]" files] by (simp add: validateLogicalFiles_def)
  show "p \<noteq> []" using ok(1) by (auto simp: outputRootParts_def Let_def)
  from writeDirectory_atomic [OF assms(3) [unfolded WriteDirectory_def] assms(4,5)]
  have "publishedAt (keyOf (mc_cwd mc) p) files (fst (fst x)) (fst (fst x'))" by (auto simp: stays_def)
  then show "wfTree (fst (fst x'))" "holdsSnapshot (keyOf (mc_cwd mc') p) files (fst (fst x'))"
    using assms(8) by (simp_all add: publishedAt_def)
qed (use assms(6,7) BuildRegistry_files [OF assms(1,2)] in auto)

text \<open>One participant, exported to an empty disk; the digest of the example pads its input to 32 bytes.\<close>

definition exampleDigest :: "string \<Rightarrow> string" where "exampleDigest s = take 32 (s @ replicate 32 (CHR ''x''))"

definition exampleBuilt :: "snapshot_entry list" where
  "exampleBuilt = projr (BuildRegistry exampleDigest [participant ''a.example''])"

lemma exampleBuilt_facts:
  "BuildRegistry exampleDigest [participant ''a.example''] = Inr exampleBuilt" "withinLimits defaultReaderLimits exampleBuilt"
  "fst (WriteDirectory exampleMachine (Some (\<lambda>_. None)) ''/out'' exampleBuilt (([([], Directory)], ()), [])) = None"
proof -
  show "BuildRegistry exampleDigest [participant ''a.example''] = Inr exampleBuilt"
    by (simp add: exampleBuilt_def BuildRegistry_def Let_def participant_def validRegistryOrigin_def validRegistryDeclaration_def
        origin_String_def)
  show "withinLimits defaultReaderLimits exampleBuilt" by code_simp
  show "fst (WriteDirectory exampleMachine (Some (\<lambda>_. None)) ''/out'' exampleBuilt (([([], Directory)], ()), [])) = None" by code_simp
qed

theorem export_then_read_witness:
  "fst (ReadDirectory exampleMachine (Some (\<lambda>_. None)) ''/out''
     (snd (WriteDirectory exampleMachine (Some (\<lambda>_. None)) ''/out'' exampleBuilt (([([], Directory)], ()), [])))) = Some (Inr exampleBuilt)"
proof -
  let ?w = "WriteDirectory exampleMachine (Some (\<lambda>_. None)) ''/out'' exampleBuilt (([([], Directory)], ()), [])"
  have w: "?w = (None, snd ?w)" using exampleBuilt_facts(3) by (metis prod.collapse)
  have digest: "length (exampleDigest s) = 32" for s by (simp add: exampleDigest_def)
  show ?thesis
    by (rule export_then_read [OF exampleBuilt_facts(1) digest w]) (simp_all add: wfTree_def exampleMachine_def calm_def exampleBuilt_facts(2))
qed

end
