(* ===== verification/Export_Loop.thy ===== *)
theory Export_Loop
  imports Snapshot_Reader
begin

text \<open>
  The two services around the registry, \<^verbatim>\<open>cmd/joshbot/registry_interval.go\<close>: the exporter writes a new snapshot at
  intervals, points to it by a file it replaces atomically and removes the snapshots that are no longer needed; the
  publisher follows the pointer. Both work on the disk; the rest of their process (database, clock, entropy, waiting,
  log) is a state of type \<open>'e\<close>. \<^verbatim>\<open>time.ParseDuration\<close> is the argument \<open>ParseDuration\<close>.
\<close>

definition defaultRegistryPublishInterval :: duration where "defaultRegistryPublishInterval = 15 * minute"
definition defaultRegistryExportRoot :: string where "defaultRegistryExportRoot = ''/exports''"
definition registryCurrentName :: string where "registryCurrentName = ''registry-current''"
definition automaticSnapshotPrefix :: string where "automaticSnapshotPrefix = ''.joshbot-automatic-''"
definition registryPublishFollowInterval :: duration where "registryPublishFollowInterval = 5 * second"
definition registryPublishMaxBackoff :: duration where "registryPublishMaxBackoff = 5 * minute"

definition errInvalidRegistryInterval where "errInvalidRegistryInterval = Sentinel ''registry publish interval is invalid''"
definition errInvalidRegistryExportRoot where "errInvalidRegistryExportRoot = Sentinel ''registry export root is invalid''"
definition errRegistryLoggerUnavailable where "errRegistryLoggerUnavailable = Sentinel ''registry logger is unavailable''"
definition errRegistryEntropyUnavailable where
  "errRegistryEntropyUnavailable = Sentinel ''registry snapshot entropy is unavailable''"
definition errInvalidRegistryPointer where "errInvalidRegistryPointer = Sentinel ''registry snapshot pointer is invalid''"

section \<open>Names and configuration\<close>

text \<open>The regular expression \<^verbatim>\<open>^\.joshbot-automatic-[0-9]{8}T[0-9]{6}Z-[0-9a-f]{32}$\<close>.\<close>

definition validAutomaticSnapshotName :: "string \<Rightarrow> bool" where
  "validAutomaticSnapshotName name \<longleftrightarrow>
     HasPrefix name automaticSnapshotPrefix \<and>
     (let r = drop (length automaticSnapshotPrefix) name
      in length r = 49 \<and> list_all is_digit (take 8 r) \<and> r ! 8 = CHR ''T'' \<and> list_all is_digit (take 6 (drop 9 r)) \<and>
         r ! 15 = CHR ''Z'' \<and> r ! 16 = CHR ''-'' \<and> isLowerHex (drop 17 r))"

text \<open>\<open>entropy\<close> is what 16 bytes of the reader are, \<open>None\<close> when it fails.\<close>

definition automaticSnapshotNameFor :: "go_time \<Rightarrow> string option \<Rightarrow> go_error + string" where
  "automaticSnapshotNameFor now entropy =
     (case entropy of
        None \<Rightarrow> Inl errRegistryEntropyUnavailable
      | Some bytes \<Rightarrow> Inr (automaticSnapshotPrefix @ FormatCompact now @ ''-'' @ hexText bytes))"

definition loadRegistryPublishInterval :: "(string \<Rightarrow> duration option) \<Rightarrow> (string \<Rightarrow> string) option \<Rightarrow> go_error + duration" where
  "loadRegistryPublishInterval ParseDuration getenv =
     (case getenv of
        None \<Rightarrow> Inl errInvalidRegistryInterval
      | Some get \<Rightarrow>
          (let value = get ''JOSHBOT_REGISTRY_PUBLISH_INTERVAL''
           in if value = [] then Inr defaultRegistryPublishInterval
              else (case ParseDuration value of
                      None \<Rightarrow> Inl errInvalidRegistryInterval
                    | Some interval \<Rightarrow> if interval \<le> 0 then Inl errInvalidRegistryInterval else Inr interval)))"

definition validRegistryExportRoot :: "string \<Rightarrow> bool" where
  "validRegistryExportRoot p =
     (let clean = Clean p
      in if p = [] \<or> clean \<noteq> p \<or> \<not> isAbs p \<or> clean = ''/'' \<or> sublist ''..'' p then False else True)"

definition loadRegistryExportRoot :: "(string \<Rightarrow> string) option \<Rightarrow> go_error + string" where
  "loadRegistryExportRoot getenv =
     (case getenv of
        None \<Rightarrow> Inl errInvalidRegistryExportRoot
      | Some get \<Rightarrow>
          (let p = get ''JOSHBOT_REGISTRY_EXPORT_ROOT'';
               p = (if p = [] then defaultRegistryExportRoot else p)
           in if \<not> validRegistryExportRoot p then Inl errInvalidRegistryExportRoot else Inr p))"

section \<open>The pointer\<close>

definition writeRegistryPointer :: "'e machine \<Rightarrow> string \<Rightarrow> string \<Rightarrow> 'e disk \<Rightarrow> go_error option \<times> 'e disk" where
  "writeRegistryPointer mc p name x =
     (if \<not> validAutomaticSnapshotName name then (Some errInvalidRegistryPointer, x)
      else (let pointer = path_Join p registryCurrentName; temporary = pointer @ ''.tmp''
            in case os_WriteFile mc temporary (name @ [CHR 0x0A]) 0x1A4 x of
                 (Some err, x) \<Rightarrow> (Some err, x)
               | (None, x) \<Rightarrow>
                   (case os_Rename mc temporary pointer x of
                      (Some err, x) \<Rightarrow> (Some err, x)
                    | (None, x) \<Rightarrow> (None, x))))"

definition readRegistryPointer :: "'e machine \<Rightarrow> string \<Rightarrow> 'e disk \<Rightarrow> (go_error + string) \<times> 'e disk" where
  "readRegistryPointer mc p x =
     (case os_ReadFile mc (path_Join p registryCurrentName) x of
        (Inl err, x) \<Rightarrow> (Inl err, x)
      | (Inr data, x) \<Rightarrow>
          (let name = TrimSuffix data [CHR 0x0A]
           in if \<not> HasSuffix data [CHR 0x0A] \<or> CHR 0x0A \<in> set name \<or> \<not> validAutomaticSnapshotName name
              then (Inl errInvalidRegistryPointer, x) else (Inr name, x)))"

definition usableAutomaticSnapshot :: "'e machine \<Rightarrow> string \<Rightarrow> 'e disk \<Rightarrow> go_error option \<times> 'e disk" where
  "usableAutomaticSnapshot mc p x =
     (case os_Lstat mc p x of
        (Inl err, x) \<Rightarrow> (Some err, x)
      | (Inr info, x) \<Rightarrow> if info \<noteq> Directory then (Some errInvalidRegistryPointer, x) else (None, x))"

fun removeSnapshots :: "'e machine \<Rightarrow> string \<Rightarrow> string \<Rightarrow> string \<Rightarrow> (string \<times> node) list \<Rightarrow> 'e disk \<Rightarrow> go_error option \<times> 'e disk" where
  "removeSnapshots mc p current previous [] x = (None, x)"
| "removeSnapshots mc p current previous ((name, _) # entries) x =
     (if \<not> validAutomaticSnapshotName name then removeSnapshots mc p current previous entries x
      else if name = current \<or> name = previous then removeSnapshots mc p current previous entries x
      else (case os_RemoveAll mc (path_Join p name) x of
              (Some err, x) \<Rightarrow> (Some err, x)
            | (None, x) \<Rightarrow> removeSnapshots mc p current previous entries x))"

definition removeOldAutomaticSnapshots :: "'e machine \<Rightarrow> string \<Rightarrow> string \<Rightarrow> string \<Rightarrow> 'e disk \<Rightarrow> go_error option \<times> 'e disk" where
  "removeOldAutomaticSnapshots mc p current previous x =
     (case os_ReadDir mc p x of
        (Inl err, x) \<Rightarrow> (Some err, x)
      | (Inr entries, x) \<Rightarrow> removeSnapshots mc p current previous entries x)"

section \<open>The exporter\<close>

text \<open>\<open>ex_registry\<close> is what the store answers to \<^verbatim>\<open>RegistryOrigins\<close>.\<close>

record 'e exporter =
  ex_machine :: "'e machine"
  ex_sha256 :: "string \<Rightarrow> string"
  ex_openDatabase :: "'e \<Rightarrow> go_error option"
  ex_registry :: "'e \<Rightarrow> go_error + registry_origin list"
  ex_now :: "'e \<Rightarrow> go_time"
  ex_entropy :: "'e \<Rightarrow> string option"
  ex_sleep :: "duration \<Rightarrow> 'e \<Rightarrow> go_error option \<times> 'e"
  ex_log :: "string \<Rightarrow> 'e \<Rightarrow> 'e"

definition onEnv :: "('e \<Rightarrow> 'e) \<Rightarrow> 'e disk \<Rightarrow> 'e disk" where
  "onEnv f x = (case x of ((t, e), past) \<Rightarrow> ((t, f e), past))"

definition sleepRegistryInterval :: "'e exporter \<Rightarrow> duration \<Rightarrow> 'e disk \<Rightarrow> go_error option \<times> 'e disk" where
  "sleepRegistryInterval ex delay x = (case x of ((t, e), past) \<Rightarrow> (case ex_sleep ex delay e of (r, e) \<Rightarrow> (r, ((t, e), past))))"

text \<open>\<^verbatim>\<open>runtimeOperations.export\<close> in \<^verbatim>\<open>cmd/joshbot/runtime.go\<close>.\<close>

definition export :: "'e exporter \<Rightarrow> ('e disk \<Rightarrow> go_error option) \<Rightarrow> string \<Rightarrow> 'e disk \<Rightarrow> go_error option \<times> 'e disk" where
  "export ex ctx p x =
     (case ex_openDatabase ex (snd (fst x)) of
        Some err \<Rightarrow> (Some err, x)
      | None \<Rightarrow>
          (case ex_registry ex (snd (fst x)) of
             Inl err \<Rightarrow> (Some (Wrap ''query registry origins'' [err]), x)
           | Inr registry \<Rightarrow>
               (case BuildRegistry (ex_sha256 ex) registry of
                  Inl err \<Rightarrow> (Some (Wrap ''build public registry'' [err]), x)
                | Inr files \<Rightarrow> WriteDirectory (ex_machine ex) (Some ctx) p files x)))"

text \<open>
  One round of the exporter; the first component is the return of the loop, if it returns. The messages before a clean
  return are left to the caller.
\<close>

definition drawName :: "'e exporter \<Rightarrow> 'e disk \<Rightarrow> go_error + string" where
  "drawName ex x = automaticSnapshotNameFor (ex_now ex (snd (fst x))) (ex_entropy ex (snd (fst x)))"

definition exportPause :: "'e exporter \<Rightarrow> duration \<Rightarrow> string \<Rightarrow> string \<Rightarrow> 'e disk \<Rightarrow> go_error option option \<times> string \<times> 'e disk" where
  "exportPause ex interval message previous x =
     (case sleepRegistryInterval ex interval (onEnv (ex_log ex message) x) of
        (Some _, x) \<Rightarrow> (Some None, (previous, x))
      | (None, x) \<Rightarrow> (None, (previous, x)))"

definition exportSnapshot :: "'e exporter \<Rightarrow> ('e disk \<Rightarrow> go_error option) \<Rightarrow> string \<Rightarrow> string \<Rightarrow> 'e disk \<Rightarrow> go_error option \<times> 'e disk" where
  "exportSnapshot ex ctx p name x =
     (case export ex ctx (path_Join p name) x of
        (Some err, x) \<Rightarrow> (Some err, x)
      | (None, x) \<Rightarrow> writeRegistryPointer (ex_machine ex) p name x)"

definition exportTurn ::
    "'e exporter \<Rightarrow> ('e disk \<Rightarrow> go_error option) \<Rightarrow> duration \<Rightarrow> string \<Rightarrow> string \<times> 'e disk \<Rightarrow>
     go_error option option \<times> string \<times> 'e disk" where
  "exportTurn ex ctx interval p s =
     (case s of (previous, x) \<Rightarrow>
        if ctx x \<noteq> None then (Some None, (previous, x))
        else (case drawName ex x of
                Inl err \<Rightarrow> exportPause ex interval ''registry snapshot name failed'' previous (onEnv (mc_tick (ex_machine ex)) x)
              | Inr name \<Rightarrow>
                  (case exportSnapshot ex ctx p name (onEnv (mc_tick (ex_machine ex)) x) of
                     (Some exportErr, x) \<Rightarrow>
                       (case os_RemoveAll (ex_machine ex) (path_Join p name) x of
                          (Some cleanupErr, x) \<Rightarrow>
                            (Some (Some (Wrap [] [exportErr, Wrap ''remove failed registry snapshot'' [cleanupErr]])), (previous, x))
                        | (None, x) \<Rightarrow>
                            if ctx x \<noteq> None then (Some None, (previous, x))
                            else exportPause ex interval ''registry export failed'' previous x)
                   | (None, x) \<Rightarrow>
                       (case removeOldAutomaticSnapshots (ex_machine ex) p name previous x of
                          (Some err, x) \<Rightarrow> (Some (Some (Wrap ''registry snapshot cleanup failed'' [err])), (previous, x))
                        | (None, x) \<Rightarrow> exportPause ex interval ''registry snapshot exported'' name x))))"

text \<open>Before the loop: the return of the exporter, or the snapshot the pointer names.\<close>

definition exportStart ::
    "'e exporter \<Rightarrow> ('e disk \<Rightarrow> go_error option) \<Rightarrow> string \<Rightarrow> 'e disk \<Rightarrow> (go_error option + string) \<times> 'e disk" where
  "exportStart ex ctx p x =
     (if ctx x \<noteq> None then (Inl None, x)
      else (case readRegistryPointer (ex_machine ex) p x of
              (r, x) \<Rightarrow>
                (case (case r of Inl err \<Rightarrow> if errors_Is err errNotExist then Inr [] else Inl err | Inr name \<Rightarrow> Inr name) of
                   Inl err \<Rightarrow> (Inl (Some (Wrap ''read registry snapshot before export'' [err])), x)
                 | Inr previous \<Rightarrow>
                     (case removeOldAutomaticSnapshots (ex_machine ex) p previous [] x of
                        (Some err, x) \<Rightarrow>
                          if \<not> errors_Is err errNotExist then (Inl (Some (Wrap ''registry snapshot cleanup failed'' [err])), x)
                          else (Inr previous, x)
                      | (None, x) \<Rightarrow> (Inr previous, x)))))"

partial_function (option) exportLoop ::
    "'e exporter \<Rightarrow> ('e disk \<Rightarrow> go_error option) \<Rightarrow> duration \<Rightarrow> string \<Rightarrow> string \<times> 'e disk \<Rightarrow>
     (go_error option \<times> string \<times> 'e disk) option" where
  "exportLoop ex ctx interval p s =
     (case exportTurn ex ctx interval p s of
        (Some r, s') \<Rightarrow> Some (r, s')
      | (None, s') \<Rightarrow> exportLoop ex ctx interval p s')"

definition stopped :: "'e exporter \<Rightarrow> string \<Rightarrow> go_error option \<Rightarrow> 'e disk \<Rightarrow> go_error option \<times> 'e disk" where
  "stopped ex message r x = (r, if r = None then onEnv (ex_log ex message) x else x)"

definition runRegistryExport ::
    "'e exporter \<Rightarrow> ('e disk \<Rightarrow> go_error option) \<Rightarrow> duration \<Rightarrow> string \<Rightarrow> 'e disk \<Rightarrow> (go_error option \<times> 'e disk) option" where
  "runRegistryExport ex ctx interval p x =
     (case exportStart ex ctx p (onEnv (ex_log ex ''registry export started'') x) of
        (Inl r, x) \<Rightarrow> Some (stopped ex ''registry export stopped'' r x)
      | (Inr previous, x) \<Rightarrow>
          map_option (\<lambda>(r, _, x). stopped ex ''registry export stopped'' r x) (exportLoop ex ctx interval p (previous, x)))"

definition exportRegistry ::
    "'e exporter \<Rightarrow> (string \<Rightarrow> duration option) \<Rightarrow> (string \<Rightarrow> string) option \<Rightarrow> bool \<Rightarrow> ('e disk \<Rightarrow> go_error option) \<Rightarrow> 'e disk \<Rightarrow>
     (go_error option \<times> 'e disk) option" where
  "exportRegistry ex ParseDuration getenv logger ctx x =
     (case loadRegistryPublishInterval ParseDuration getenv of
        Inl err \<Rightarrow> Some (Some err, x)
      | Inr interval \<Rightarrow>
          (case loadRegistryExportRoot getenv of
             Inl err \<Rightarrow> Some (Some err, x)
           | Inr p \<Rightarrow>
               if \<not> logger then Some (Some errRegistryLoggerUnavailable, x) else runRegistryExport ex ctx interval p x))"

section \<open>The publisher\<close>

text \<open>
  \<open>publish\<close> uploads a snapshot and tells whether anything changed. The state of the loop is the name it published last and its
  backoff.
\<close>

type_synonym 'e publish = "('e disk \<Rightarrow> go_error option) \<Rightarrow> string \<Rightarrow> 'e disk \<Rightarrow> (go_error + bool) \<times> 'e disk"

record 'e publish_state =
  pu_published :: string
  pu_backoff :: duration
  pu_disk :: "'e disk"

definition nextBackoff :: "duration \<Rightarrow> duration" where
  "nextBackoff backoff = (let doubled = backoff * 2 in if doubled > registryPublishMaxBackoff then registryPublishMaxBackoff else doubled)"

text \<open>What a round does before it waits: the delay, or \<open>None\<close> when the context ended during the upload.\<close>

definition publishOnce ::
    "'e exporter \<Rightarrow> 'e publish \<Rightarrow> ('e disk \<Rightarrow> go_error option) \<Rightarrow> string \<Rightarrow> 'e publish_state \<Rightarrow> duration option \<times> 'e publish_state" where
  "publishOnce ex publish ctx p s =
     (let note = (\<lambda>message x. onEnv (ex_log ex message) x)
      in case readRegistryPointer (ex_machine ex) p (pu_disk s) of
           (Inl err, x) \<Rightarrow>
             (Some registryPublishFollowInterval,
              s\<lparr>pu_disk := if errors_Is err errNotExist then x else note ''registry snapshot pointer failed'' x\<rparr>)
         | (Inr name, x) \<Rightarrow>
             if name = pu_published s then (Some registryPublishFollowInterval, s\<lparr>pu_disk := x\<rparr>)
             else (case usableAutomaticSnapshot (ex_machine ex) (path_Join p name) x of
                     (Some err, x) \<Rightarrow>
                       (Some registryPublishFollowInterval, s\<lparr>pu_disk := note ''registry snapshot is not publishable'' x\<rparr>)
                   | (None, x) \<Rightarrow>
                       (case publish ctx (path_Join p name) x of
                          (Inl err, x) \<Rightarrow>
                            if ctx x \<noteq> None then (None, s\<lparr>pu_disk := x\<rparr>)
                            else (Some (pu_backoff s), s\<lparr>pu_backoff := nextBackoff (pu_backoff s), pu_disk := note ''registry publish failed'' x\<rparr>)
                        | (Inr changed, x) \<Rightarrow>
                            (Some registryPublishFollowInterval,
                             s\<lparr>pu_published := name, pu_backoff := registryPublishFollowInterval,
                               pu_disk := note (if changed then ''registry published'' else ''registry unchanged'') x\<rparr>))))"

definition publishTurn ::
    "'e exporter \<Rightarrow> 'e publish \<Rightarrow> ('e disk \<Rightarrow> go_error option) \<Rightarrow> string \<Rightarrow> 'e publish_state \<Rightarrow> go_error option option \<times> 'e publish_state" where
  "publishTurn ex publish ctx p s =
     (if ctx (pu_disk s) \<noteq> None then (Some None, s)
      else (case publishOnce ex publish ctx p s of
              (None, s) \<Rightarrow> (Some None, s)
            | (Some delay, s) \<Rightarrow>
                (case sleepRegistryInterval ex delay (pu_disk s) of
                   (Some _, x) \<Rightarrow> (Some None, s\<lparr>pu_disk := x\<rparr>)
                 | (None, x) \<Rightarrow> (None, s\<lparr>pu_disk := x\<rparr>))))"

partial_function (option) publishLoop ::
    "'e exporter \<Rightarrow> 'e publish \<Rightarrow> ('e disk \<Rightarrow> go_error option) \<Rightarrow> string \<Rightarrow> 'e publish_state \<Rightarrow> (go_error option \<times> 'e publish_state) option" where
  "publishLoop ex publish ctx p s =
     (case publishTurn ex publish ctx p s of
        (Some r, s') \<Rightarrow> Some (r, s')
      | (None, s') \<Rightarrow> publishLoop ex publish ctx p s')"

definition publishStart :: "'e disk \<Rightarrow> 'e publish_state" where
  "publishStart x = \<lparr>pu_published = [], pu_backoff = registryPublishFollowInterval, pu_disk = x\<rparr>"

definition runRegistryPublish ::
    "'e exporter \<Rightarrow> 'e publish \<Rightarrow> ('e disk \<Rightarrow> go_error option) \<Rightarrow> string \<Rightarrow> 'e disk \<Rightarrow> (go_error option \<times> 'e disk) option" where
  "runRegistryPublish ex publish ctx p x =
     map_option (\<lambda>(r, s). stopped ex ''registry publish stopped'' r (pu_disk s))
       (publishLoop ex publish ctx p (publishStart (onEnv (ex_log ex ''registry publish started'') x)))"

definition publishRegistry ::
    "'e exporter \<Rightarrow> 'e publish \<Rightarrow> (string \<Rightarrow> duration option) \<Rightarrow> (string \<Rightarrow> string) option \<Rightarrow> bool \<Rightarrow> ('e disk \<Rightarrow> go_error option) \<Rightarrow>
     'e disk \<Rightarrow> (go_error option \<times> 'e disk) option" where
  "publishRegistry ex publish ParseDuration getenv logger ctx x =
     (case loadRegistryPublishInterval ParseDuration getenv of
        Inl err \<Rightarrow> Some (Some err, x)
      | Inr interval \<Rightarrow>
          (case loadRegistryExportRoot getenv of
             Inl err \<Rightarrow> Some (Some err, x)
           | Inr p \<Rightarrow>
               if \<not> logger then Some (Some errRegistryLoggerUnavailable, x) else runRegistryPublish ex publish ctx p x))"

section \<open>The loops return\<close>

interpretation export_loop: turn_loop "exportTurn ex ctx interval p" "exportLoop ex ctx interval p"
  "\<lambda>s. if ctx (snd s) = None then None else Some None"
  "\<lambda>r s. r = None \<or> (\<exists>err. r = Some (Wrap ''registry snapshot cleanup failed'' [err])) \<or>
     (\<exists>err err'. r = Some (Wrap [] [err, Wrap ''remove failed registry snapshot'' [err']]))" for ex ctx interval p
proof
  show "exportLoop ex ctx interval p s =
      (case exportTurn ex ctx interval p s of (Some r, s') \<Rightarrow> Some (r, s') | (None, s') \<Rightarrow> exportLoop ex ctx interval p s')" for s
    by (rule exportLoop.simps)
qed (auto simp: exportTurn_def exportPause_def split: prod.splits option.splits if_splits sum.splits)

interpretation publish_loop: turn_loop "publishTurn ex publish ctx p" "publishLoop ex publish ctx p"
  "\<lambda>s. if ctx (pu_disk s) = None then None else Some None" "\<lambda>r s. r = None" for ex publish ctx p
proof
  show "publishLoop ex publish ctx p s =
      (case publishTurn ex publish ctx p s of (Some r, s') \<Rightarrow> Some (r, s') | (None, s') \<Rightarrow> publishLoop ex publish ctx p s')" for s
    by (rule publishLoop.simps)
qed (auto simp: publishTurn_def split: prod.splits option.splits if_splits)

section \<open>Names of snapshots\<close>

lemma validAutomaticSnapshotName_chars:
  assumes "validAutomaticSnapshotName name"
  shows "name = automaticSnapshotPrefix @ drop (length automaticSnapshotPrefix) name" "CHR ''/'' \<notin> set name" "length name = 68"
proof -
  define r where "r = drop (length automaticSnapshotPrefix) name"
  have p: "take (length automaticSnapshotPrefix) name = automaticSnapshotPrefix" "length r = 49"
      "list_all is_digit (take 8 r)" "r ! 8 = CHR ''T''" "list_all is_digit (take 6 (drop 9 r))" "r ! 15 = CHR ''Z''" "r ! 16 = CHR ''-''"
      "isLowerHex (drop 17 r)"
    using assms unfolding validAutomaticSnapshotName_def Let_def HasPrefix_def r_def by blast+
  have eq: "name = automaticSnapshotPrefix @ r" using p(1) unfolding r_def by (metis append_take_drop_id)
  then show "name = automaticSnapshotPrefix @ drop (length automaticSnapshotPrefix) name" by (simp add: r_def)
  have "r = take 8 r @ r ! 8 # drop 9 r" using p(2) id_take_nth_drop [of 8 r] by simp
  moreover have "drop 9 r = take 6 (drop 9 r) @ r ! 15 # drop 16 r" using p(2) id_take_nth_drop [of 6 "drop 9 r"] by simp
  moreover have "drop 16 r = r ! 16 # drop 17 r" using p(2) Cons_nth_drop_Suc [of 16 r] by simp
  ultimately have parts: "set r = set (take 8 r) \<union> {CHR ''T''} \<union> set (take 6 (drop 9 r)) \<union> {CHR ''Z'', CHR ''-''} \<union> set (drop 17 r)"
    using p(4,6,7) by (metis (no_types, lifting) Un_insert_right insert_is_Un list.simps(15) set_append sup_assoc sup_bot.right_neutral)
  have "\<not> is_digit (CHR ''/'')" by (simp add: is_digit_def byte_of_def)
  with p(3,5) hex_plain [OF p(8)] have "CHR ''/'' \<notin> set r" unfolding parts list_all_iff by auto
  moreover have "CHR ''/'' \<notin> set automaticSnapshotPrefix" by (simp add: automaticSnapshotPrefix_def)
  ultimately show "CHR ''/'' \<notin> set name" by (simp add: eq)
  show "length name = 68" using p(2) by (simp add: eq automaticSnapshotPrefix_def)
qed

lemma snapshot_names:
  assumes "validAutomaticSnapshotName name" and "validAutomaticSnapshotName name'"
  shows "plainSeg name" "name \<noteq> registryCurrentName" "name \<noteq> registryCurrentName @ ''.tmp''" "name \<noteq> ''.'' @ name' @ ''.tmp-'' @ random"
proof -
  obtain r where r: "name = ''.joshbot-automatic-'' @ r" "length name = 68" "CHR ''/'' \<notin> set name"
    using validAutomaticSnapshotName_chars [OF assms(1)] by (metis automaticSnapshotPrefix_def)
  then show "plainSeg name" "name \<noteq> registryCurrentName" "name \<noteq> registryCurrentName @ ''.tmp''"
    by (auto simp: plainSeg_def registryCurrentName_def)
  obtain r' where "name' = ''.joshbot-automatic-'' @ r'"
    using validAutomaticSnapshotName_chars [OF assms(2)] by (metis automaticSnapshotPrefix_def)
  with r(1) show "name \<noteq> ''.'' @ name' @ ''.tmp-'' @ random" by simp
qed

lemma snapshot_name_plain: "validAutomaticSnapshotName name \<Longrightarrow> plainSeg name \<and> name \<noteq> registryCurrentName \<and> name \<noteq> registryCurrentName @ ''.tmp''"
  using snapshot_names(1-3) by blast

lemma splitPath_tail: "CHR ''/'' \<notin> set b \<Longrightarrow> splitPath (a @ b) = butlast (splitPath a) @ [last (splitPath a) @ b]"
proof (cases "CHR ''/'' \<in> set a")
  case True
  then obtain a1 a2 where a: "a = a1 @ CHR ''/'' # a2" "CHR ''/'' \<notin> set a2" by (meson split_list_last)
  assume b: "CHR ''/'' \<notin> set b"
  have "splitPath a = splitPath a1 @ [a2]" "splitPath (a @ b) = splitPath a1 @ [a2 @ b]"
    using a b Split_append [of a1 "CHR ''/''" "a2 @ b"] by (simp_all add: Split_append Split_single)
  then show ?thesis by simp
qed (simp add: Split_single)

section \<open>The pointer names a complete snapshot\<close>

definition pointsAt :: "string \<Rightarrow> (string \<Rightarrow> string) \<Rightarrow> path_key \<Rightarrow> tree \<Rightarrow> bool" where
  "pointsAt name sha256 R t \<longleftrightarrow>
     validAutomaticSnapshotName name \<and>
     (\<exists>ps files. BuildRegistry sha256 ps = Inr files \<and> logicalFiles files \<and> holdsSnapshot (R @ [name]) files t)"

definition soundTree :: "(string \<Rightarrow> string) \<Rightarrow> path_key \<Rightarrow> tree \<Rightarrow> bool" where
  "soundTree sha256 R t \<longleftrightarrow>
     wfTree t \<and>
     (\<forall>data. map_of t (R @ [registryCurrentName]) = Some (Regular data) \<longrightarrow> (\<exists>name. data = name @ [CHR 0x0A] \<and> pointsAt name sha256 R t))"

lemma pointsAt_exists: "pointsAt name sha256 R t \<Longrightarrow> map_of t (R @ [name]) = Some Directory"
  by (auto simp: pointsAt_def dest: holdsSnapshot_root)

lemma pointsAt_cong: "pointsAt name sha256 R t0 \<Longrightarrow> (\<And>s. map_of t (R @ name # s) = map_of t0 (R @ name # s)) \<Longrightarrow> pointsAt name sha256 R t"
  unfolding pointsAt_def holdsSnapshot_def by simp

text \<open>Changes below another name of the directory do no harm.\<close>

lemma soundTree_below:
  assumes "soundTree sha256 R t0" and "onlyBelow (R @ [c]) t0 t" and "c \<noteq> registryCurrentName"
    and "map_of t0 (R @ [registryCurrentName]) \<noteq> Some (Regular (c @ [CHR 0x0A]))"
  shows "soundTree sha256 R t \<and> map_of t (R @ [registryCurrentName]) = map_of t0 (R @ [registryCurrentName])"
proof -
  have same: "map_of t (R @ n # s) = map_of t0 (R @ n # s)" if "n \<noteq> c" for n s
    using assms(2) that by (simp add: onlyBelow_def)
  have cur: "map_of t (R @ [registryCurrentName]) = map_of t0 (R @ [registryCurrentName])" using same [of registryCurrentName "[]"] assms(3) by simp
  have "\<exists>name. data = name @ [CHR 0x0A] \<and> pointsAt name sha256 R t" if d: "map_of t (R @ [registryCurrentName]) = Some (Regular data)" for data
  proof -
    from assms(1) d cur obtain name where n: "data = name @ [CHR 0x0A]" "pointsAt name sha256 R t0" by (auto simp: soundTree_def)
    then have "name \<noteq> c" using assms(4) d cur by auto
    with n pointsAt_cong [OF n(2) same] show ?thesis by blast
  qed
  with assms(2) cur show ?thesis by (simp add: soundTree_def onlyBelow_def)
qed

lemma onlyBelow_self: "wfTree t \<Longrightarrow> onlyBelow k t t"
  by (simp add: onlyBelow_def)

text \<open>Removing another snapshot.\<close>

lemma RemoveAll_sound:
  fixes mc :: "'e machine" and p :: string
  defines "R \<equiv> keyOf (mc_cwd mc) p"
  assumes "os_RemoveAll mc (path_Join p name) x = (r, x')" and "p \<noteq> []" and "soundTree sha256 R (fst (fst x))"
    and "validAutomaticSnapshotName name" and "map_of (fst (fst x)) (R @ [registryCurrentName]) \<noteq> Some (Regular (name @ [CHR 0x0A]))"
  shows "stays (\<lambda>t. soundTree sha256 R t \<and> map_of t (R @ [registryCurrentName]) = map_of (fst (fst x)) (R @ [registryCurrentName])) x x'"
proof -
  note plain = snapshot_name_plain [OF assms(5)]
  have key: "keyOf (mc_cwd mc) (path_Join p name) = R @ [name]"
    using keyOf_Join [OF assms(3), of name "mc_cwd mc"] plain by (simp add: R_def Split_single plainSeg_def)
  have wf: "wfTree (fst (fst x))" using assms(4) by (simp add: soundTree_def)
  have "R @ [name] \<noteq> []" by simp
  from os_RemoveAll_below [OF assms(2) onlyBelow_self [OF wf] key this] show ?thesis
    by (rule stays_mono) (use soundTree_below [OF assms(4) _ _ assms(6)] plain in auto)
qed

lemma removeSnapshots_sound:
  fixes mc :: "'e machine" and p :: string
  defines "R \<equiv> keyOf (mc_cwd mc) p"
  assumes "removeSnapshots mc p current previous entries x = (r, x')" and "p \<noteq> []" and "soundTree sha256 R (fst (fst x))"
    and "\<And>name. map_of (fst (fst x)) (R @ [registryCurrentName]) = Some (Regular (name @ [CHR 0x0A])) \<Longrightarrow> name = current"
  shows "stays (soundTree sha256 R) x x'"
  using assms(2,4,5)
proof (induction entries arbitrary: x)
  case Nil
  then show ?case by (simp add: stays_refl)
next
  case (Cons entry entries)
  obtain name n where e: "entry = (name, n)" by fastforce
  show ?case
  proof (cases "validAutomaticSnapshotName name \<and> name \<noteq> current \<and> name \<noteq> previous")
    case False
    with Cons.IH [OF _ Cons.prems(2,3)] Cons.prems(1) e show ?thesis by (auto split: if_splits)
  next
    case True
    obtain r1 x1 where rm: "os_RemoveAll mc (path_Join p name) x = (r1, x1)" by (meson surj_pair)
    have s: "stays (\<lambda>t. soundTree sha256 R t \<and> map_of t (R @ [registryCurrentName]) = map_of (fst (fst x)) (R @ [registryCurrentName])) x x1"
      unfolding R_def by (rule RemoveAll_sound [OF rm assms(3)]) (use Cons.prems(2,3) True in \<open>auto simp: R_def\<close>)
    then have s1: "stays (soundTree sha256 R) x x1" by (rule stays_mono) simp
    have x1: "soundTree sha256 R (fst (fst x1))" "map_of (fst (fst x1)) (R @ [registryCurrentName]) = map_of (fst (fst x)) (R @ [registryCurrentName])"
      using s by (simp_all add: stays_def)
    show ?thesis
    proof (cases r1)
      case None
      with Cons.prems(1) e rm True have "removeSnapshots mc p current previous entries x1 = (r, x')" by simp
      from stays_trans [OF s1 Cons.IH [OF this x1(1)]] Cons.prems(3) x1(2) show ?thesis by simp
    next
      case (Some err)
      with Cons.prems(1) e rm True s1 show ?thesis by simp
    qed
  qed
qed

lemma os_ReadDir_same:
  "os_ReadDir mc p x = (r, x') \<Longrightarrow> Q (fst (fst x)) \<Longrightarrow> stays Q x x'"
  "os_ReadDir mc p x = (r, x') \<Longrightarrow> fst (fst x') = fst (fst x)"
  unfolding os_ReadDir_def Let_def by (auto elim!: diskCall_stays) (auto elim!: diskCall_cases)

lemma os_ReadFile_same:
  "os_ReadFile mc p x = (r, x') \<Longrightarrow> Q (fst (fst x)) \<Longrightarrow> stays Q x x'"
  "os_ReadFile mc p x = (r, x') \<Longrightarrow> fst (fst x') = fst (fst x)"
  unfolding os_ReadFile_def by (auto elim!: diskCall_stays) (auto elim!: diskCall_cases)

lemma removeOld_sound:
  fixes mc :: "'e machine" and p :: string
  defines "R \<equiv> keyOf (mc_cwd mc) p"
  assumes "removeOldAutomaticSnapshots mc p current previous x = (r, x')" and "p \<noteq> []" and "soundTree sha256 R (fst (fst x))"
    and "\<And>name. map_of (fst (fst x)) (R @ [registryCurrentName]) = Some (Regular (name @ [CHR 0x0A])) \<Longrightarrow> name = current"
  shows "stays (soundTree sha256 R) x x'"
proof -
  obtain r1 x1 where rd: "os_ReadDir mc p x = (r1, x1)" by (meson surj_pair)
  note same = os_ReadDir_same(1) [OF rd, of "soundTree sha256 R", OF assms(4)] os_ReadDir_same(2) [OF rd]
  show ?thesis
  proof (cases r1)
    case (Inl err)
    with assms(2) rd same show ?thesis by (simp add: removeOldAutomaticSnapshots_def)
  next
    case (Inr entries)
    with assms(2) rd have "removeSnapshots mc p current previous entries x1 = (r, x')" by (simp add: removeOldAutomaticSnapshots_def)
    from removeSnapshots_sound [OF this assms(3)] assms(4,5) same(2) have "stays (soundTree sha256 R) x1 x'" by (simp add: R_def)
    with same(1) show ?thesis using stays_trans by blast
  qed
qed

lemma keyOf_suffix:
  assumes "plainSeg (last (splitPath a))" and "CHR ''/'' \<notin> set b" and "plainSeg (last (splitPath a) @ b)"
  shows "keyOf cwd (a @ b) = butlast (keyOf cwd a) @ [last (splitPath a) @ b]"
proof -
  have "a \<noteq> []" using assms(1) by (auto simp: plainSeg_def)
  note split = splitPath_tail [OF assms(2), of a]
  have "plainSeg (last (splitPath (a @ b)))" using assms(3) by (simp add: split)
  from keyOf_last [OF this, of cwd] keyOf_last [OF assms(1), of cwd] isAbs_append [OF \<open>a \<noteq> []\<close>, of b] show ?thesis by (simp add: split)
qed

lemma soundTree_pointer:
  "soundTree sha256 R t \<Longrightarrow> map_of t (R @ [registryCurrentName]) = Some (Regular (name @ [CHR 0x0A])) \<Longrightarrow> pointsAt name sha256 R t"
  by (auto simp: soundTree_def)

lemma keyOf_snapshot:
  "p \<noteq> [] \<Longrightarrow> validAutomaticSnapshotName name \<Longrightarrow> keyOf cwd (path_Join p name) = keyOf cwd p @ [name]"
  using keyOf_Join [of p name cwd] snapshot_name_plain [of name] by (simp add: Split_single plainSeg_def)

lemma keyOf_pointer:
  assumes "p \<noteq> []"
  shows "keyOf cwd (path_Join p registryCurrentName) = keyOf cwd p @ [registryCurrentName]"
    and "keyOf cwd (path_Join p registryCurrentName @ ''.tmp'') = keyOf cwd p @ [registryCurrentName @ ''.tmp'']"
proof -
  have plain: "list_all plainSeg (splitPath registryCurrentName)" "splitPath registryCurrentName = [registryCurrentName]"
      "plainSeg (registryCurrentName @ ''.tmp'')"
    by (simp_all add: registryCurrentName_def plainSeg_def)
  show 1: "keyOf cwd (path_Join p registryCurrentName) = keyOf cwd p @ [registryCurrentName]"
    using keyOf_Join [OF assms plain(1)] plain(2) by simp
  have l: "last (splitPath (path_Join p registryCurrentName)) = registryCurrentName" using last_Join [OF assms plain(1)] plain(2) by simp
  have "keyOf cwd (path_Join p registryCurrentName @ ''.tmp'') =
      butlast (keyOf cwd (path_Join p registryCurrentName)) @ [last (splitPath (path_Join p registryCurrentName)) @ ''.tmp'']"
    by (rule keyOf_suffix) (use plain l in simp_all)
  with 1 l show "keyOf cwd (path_Join p registryCurrentName @ ''.tmp'') = keyOf cwd p @ [registryCurrentName @ ''.tmp'']" by simp
qed

text \<open>A snapshot is built beside the pointed one; the pointer stays as it is.\<close>

lemma WriteDirectory_sound:
  fixes mc :: "'e machine" and p :: string
  defines "R \<equiv> keyOf (mc_cwd mc) p" and "cur \<equiv> keyOf (mc_cwd mc) p @ [registryCurrentName]"
  assumes "WriteDirectory mc ctx (path_Join p name) files x = (r, x')" and "p \<noteq> []" and "validAutomaticSnapshotName name"
    and "soundTree sha256 R (fst (fst x))" and "\<And>e. CHR ''/'' \<notin> set (mc_random mc e)" and "BuildRegistry sha256 ps = Inr files"
  shows "stays (\<lambda>t. soundTree sha256 R t \<and> map_of t cur = map_of (fst (fst x)) cur) x x' \<and>
    (r = None \<longrightarrow> pointsAt name sha256 R (fst (fst x')))"
proof -
  let ?t = "fst (fst x)" and ?Q = "\<lambda>t. soundTree sha256 R t \<and> map_of t cur = map_of (fst (fst x)) cur"
  have wf: "wfTree ?t" using assms(6) by (simp add: soundTree_def)
  have key: "keyOf (mc_cwd mc) (path_Join p name) = R @ [name]" using keyOf_snapshot [OF assms(4,5)] by (simp add: R_def)
  have hidden: "?Q t" if "onlyBelow (stagingKey (R @ [name]) random) ?t t" for t random
  proof -
    let ?c = "''.'' @ name @ ''.tmp-'' @ random"
    have "map_of ?t cur \<noteq> Some (Regular (?c @ [CHR 0x0A]))"
      using soundTree_pointer [OF assms(6), of ?c] snapshot_names(4) [of ?c name random] assms(5) unfolding pointsAt_def cur_def R_def by blast
    moreover have "?c \<noteq> registryCurrentName" by (simp add: registryCurrentName_def)
    moreover have "onlyBelow (R @ [?c]) ?t t" using that by (simp add: stagingKey_def)
    ultimately show ?thesis using soundTree_below [OF assms(6), of ?c t] by (simp add: cur_def R_def)
  qed
  have shown: "?Q t \<and> pointsAt name sha256 R t" if "map_of ?t (R @ [name]) = None" "logicalFiles files" "publishedAt (R @ [name]) files ?t t" for t
  proof -
    have "map_of ?t cur \<noteq> Some (Regular (name @ [CHR 0x0A]))"
      using soundTree_pointer [OF assms(6), of name] pointsAt_exists that(1) unfolding cur_def R_def by fastforce
    moreover have "onlyBelow (R @ [name]) ?t t" using that(3) by (simp add: publishedAt_def onlyBelow_def)
    moreover have "pointsAt name sha256 R t" using that(2,3) assms(5,8) by (auto simp: pointsAt_def publishedAt_def)
    ultimately show ?thesis using soundTree_below [OF assms(6), of name t] snapshot_name_plain [OF assms(5)] by (simp add: cur_def R_def)
  qed
  from assms(3) [unfolded WriteDirectory_def] show ?thesis
  proof (cases rule: writeDirectory_atomic [OF _ wf assms(7), consumes 1])
    case (1 random)
    then show ?thesis unfolding key using hidden by (auto elim: stays_mono)
  next
    case (2 random y)
    have lf: "logicalFiles files"
      using writeDirectory_checked(2) [OF assms(3) [unfolded WriteDirectory_def 2(1)]] validateFiles_logical [of "[]" files]
      by (simp add: validateLogicalFiles_def)
    have "stays ?Q x y" using 2(3) [unfolded key] by (rule stays_mono) (rule hidden)
    moreover have "stays (\<lambda>t. ?Q t \<and> pointsAt name sha256 R t) y x'"
      using 2(4) [unfolded key] by (rule stays_mono) (rule shown [OF 2(2) [unfolded key] lf])
    ultimately show ?thesis using stays_trans [of ?Q x y x'] by (auto simp: stays_def list_all_iff)
  qed
qed

lemma writeRegistryPointer_sound:
  fixes mc :: "'e machine" and p :: string
  defines "R \<equiv> keyOf (mc_cwd mc) p" and "cur \<equiv> keyOf (mc_cwd mc) p @ [registryCurrentName]"
  assumes "writeRegistryPointer mc p name x = (r, x')" and "p \<noteq> []" and "soundTree sha256 R (fst (fst x))" and "pointsAt name sha256 R (fst (fst x))"
  shows "stays (soundTree sha256 R) x x' \<and>
    (if r = None then \<forall>data. map_of (fst (fst x')) cur = Some (Regular data) \<longrightarrow> data = name @ [CHR 0x0A]
     else map_of (fst (fst x')) cur = map_of (fst (fst x)) cur)"
proof -
  let ?t = "fst (fst x)" and ?tmp = "R @ [registryCurrentName @ ''.tmp'']" and ?pointer = "path_Join p registryCurrentName"
  note keys = keyOf_pointer [OF assms(4), of "mc_cwd mc", folded R_def]
  have valid: "validAutomaticSnapshotName name" using assms(6) by (simp add: pointsAt_def)
  obtain r1 x1 where wr: "os_WriteFile mc (?pointer @ ''.tmp'') (name @ [CHR 0x0A]) 0x1A4 x = (r1, x1)" by (meson surj_pair)
  obtain r2 x2 where rn: "os_Rename mc (?pointer @ ''.tmp'') ?pointer x1 = (r2, x2)" by (meson surj_pair)
  have wf: "wfTree ?t" using assms(5) by (simp add: soundTree_def)
  have below: "onlyBelow ?tmp ?t t'" if "writeTree ?tmp d ?t = (q, t')" for d q t'
    using that writeTree_wf [OF wf that] writeTree_other [OF that] by (auto simp: onlyBelow_def)
  have wrote: "stays (onlyBelow ?tmp ?t) x x1"
    by (rule diskCall_stays [OF wr [unfolded os_WriteFile_def Let_def keys]])
      (use below onlyBelow_self [OF wf] in \<open>auto, (metis prod.collapse)+\<close>)
  have ne: "registryCurrentName @ ''.tmp'' \<noteq> registryCurrentName" by simp
  have other: "map_of ?t (R @ [registryCurrentName]) \<noteq> Some (Regular ((registryCurrentName @ ''.tmp'') @ [CHR 0x0A]))"
    using soundTree_pointer [OF assms(5), of "registryCurrentName @ ''.tmp''"] snapshot_name_plain unfolding pointsAt_def by blast
  have kept: "soundTree sha256 R t \<and> map_of t cur = map_of ?t cur \<and> pointsAt name sha256 R t" if "onlyBelow ?tmp ?t t" for t
  proof -
    have "pointsAt name sha256 R t"
      by (rule pointsAt_cong [OF assms(6)]) (use that snapshot_name_plain [OF valid] in \<open>auto simp: onlyBelow_def\<close>)
    with soundTree_below [OF assms(5) that ne other] show ?thesis by (simp add: cur_def R_def)
  qed
  have s1: "stays (\<lambda>t. soundTree sha256 R t \<and> map_of t cur = map_of ?t cur \<and> pointsAt name sha256 R t) x x1"
    using wrote by (rule stays_mono) (rule kept)
  have out: "(r, x') = (case r1 of Some e \<Rightarrow> (Some e, x1) | None \<Rightarrow> (r2, x2))"
    using assms(3) valid wr rn by (auto simp: writeRegistryPointer_def Let_def split: option.splits)
  show ?thesis
  proof (cases "r1 = None \<and> r2 = None")
    case False
    have "r1 = None \<Longrightarrow> fst (fst x2) = fst (fst x1) \<and> snd x2 = snd x1 @ [fst (fst x1)]"
      using rn False unfolding os_Rename_def keys
      by (auto elim!: diskCall_cases simp: renameTree_def statTree_def split: option.splits if_splits)
    with s1 out False show ?thesis by (auto simp: stays_def list_all_iff split: option.splits)
  next
    case True
    let ?t1 = "fst (fst x1)" and ?t2 = "fst (fst x2)"
    have ren: "renameTree ?tmp cur ?t1 = (None, ?t2)" "snd x2 = snd x1 @ [?t2]"
      using rn True unfolding os_Rename_def keys cur_def by (auto elim!: diskCall_cases simp: R_def)
    have t1: "soundTree sha256 R ?t1" "pointsAt name sha256 R ?t1" using s1 by (simp_all add: stays_def)
    have wf1: "wfTree ?t1" using t1(1) by (simp add: soundTree_def)
    have w: "writeTree ?tmp (name @ [CHR 0x0A]) ?t = (None, ?t1)"
      using wr True unfolding os_WriteFile_def Let_def keys by (auto elim: diskCall_cases)
    have tmp: "map_of ?t1 ?tmp = Some (Regular data) \<Longrightarrow> data = name @ [CHR 0x0A]" for data
      using w by (rule writeTree_cases) (auto simp: update_conv')
    have apart: "?tmp \<noteq> cur" by (simp add: cur_def R_def)
    note look = renameTree_lookup(1) [OF ren(1) apart wf1]
    have new: "map_of ?t2 cur = map_of ?t1 ?tmp" using look [of cur] by simp
    have "map_of ?t2 (R @ name # s) = map_of ?t1 (R @ name # s)" for s
      using look [of "R @ name # s"] snapshot_name_plain [OF valid] by (auto simp: cur_def R_def)
    then have pts: "pointsAt name sha256 R ?t2" by (rule pointsAt_cong [OF t1(2)])
    have "soundTree sha256 R ?t2"
      using renameTree_wf [OF ren(1) wf1] new tmp pts by (auto simp: soundTree_def cur_def R_def)
    with s1 ren(2) out True new tmp show ?thesis by (auto simp: stays_def list_all_iff)
  qed
qed

lemma exportSnapshot_sound:
  fixes ex :: "'e exporter" and p :: string
  defines "R \<equiv> keyOf (mc_cwd (ex_machine ex)) p" and "cur \<equiv> keyOf (mc_cwd (ex_machine ex)) p @ [registryCurrentName]"
  assumes "exportSnapshot ex ctx p name x = (r, x')" and "p \<noteq> []" and "validAutomaticSnapshotName name"
    and "soundTree (ex_sha256 ex) R (fst (fst x))" and "\<And>e. CHR ''/'' \<notin> set (mc_random (ex_machine ex) e)"
  shows "stays (soundTree (ex_sha256 ex) R) x x' \<and>
    (if r = None then \<forall>data. map_of (fst (fst x')) cur = Some (Regular data) \<longrightarrow> data = name @ [CHR 0x0A]
     else map_of (fst (fst x')) cur = map_of (fst (fst x)) cur)"
proof -
  let ?Q = "soundTree (ex_sha256 ex) R"
  obtain r1 x1 where e: "export ex ctx (path_Join p name) x = (r1, x1)" by (meson surj_pair)
  have e1: "stays (\<lambda>t. ?Q t \<and> map_of t cur = map_of (fst (fst x)) cur) x x1 \<and> (r1 = None \<longrightarrow> pointsAt name (ex_sha256 ex) R (fst (fst x1)))"
    using e assms(6) WriteDirectory_sound [OF _ assms(4,5), of "ex_machine ex" "Some ctx" _ x r1 x1 "ex_sha256 ex"] assms(7)
    unfolding export_def R_def cur_def
    by (auto split: option.splits sum.splits intro!: stays_refl)
  then have s1: "stays ?Q x x1" "map_of (fst (fst x1)) cur = map_of (fst (fst x)) cur" "?Q (fst (fst x1))"
    by (auto simp: stays_def list_all_iff)
  show ?thesis
  proof (cases r1)
    case (Some err)
    with assms(3) e s1 show ?thesis by (auto simp: exportSnapshot_def)
  next
    case None
    with assms(3) e have "writeRegistryPointer (ex_machine ex) p name x1 = (r, x')" by (simp add: exportSnapshot_def)
    from writeRegistryPointer_sound [OF this assms(4), of "ex_sha256 ex"] e1 s1 None stays_trans [OF s1(1)] show ?thesis
      by (simp add: R_def cur_def)
  qed
qed

lemma sleepRegistryInterval_same: "sleepRegistryInterval ex d x = (r, x') \<Longrightarrow> fst (fst x') = fst (fst x) \<and> snd x' = snd x"
  by (auto simp: sleepRegistryInterval_def split: prod.splits)

lemma onEnv_same [simp]: "fst (fst (onEnv f x)) = fst (fst x)" "snd (onEnv f x) = snd x"
  by (auto simp: onEnv_def split: prod.splits)

lemma exportPause_same: "exportPause ex interval message previous x = (r, (previous', x')) \<Longrightarrow> fst (fst x') = fst (fst x) \<and> snd x' = snd x"
  using sleepRegistryInterval_same [of ex interval "onEnv (ex_log ex message) x"]
  by (auto simp: exportPause_def split: prod.splits option.splits)

lemma stays_same: "stays Q x y \<Longrightarrow> fst (fst z) = fst (fst y) \<Longrightarrow> snd z = snd y \<Longrightarrow> stays Q x z"
  by (simp add: stays_def)

text \<open>One round keeps the pointer sound, as long as it does not draw the name of a snapshot that exists.\<close>

lemma exportTurn_sound:
  fixes ex :: "'e exporter" and p :: string
  defines "R \<equiv> keyOf (mc_cwd (ex_machine ex)) p"
  assumes "exportTurn ex ctx interval p (previous, x) = (r, (previous', x'))" and "p \<noteq> []"
    and "soundTree (ex_sha256 ex) R (fst (fst x))" and "\<And>e. CHR ''/'' \<notin> set (mc_random (ex_machine ex) e)"
    and "\<And>name. drawName ex x = Inr name \<Longrightarrow> validAutomaticSnapshotName name \<and> map_of (fst (fst x)) (R @ [name]) = None"
  shows "stays (soundTree (ex_sha256 ex) R) x x'"
proof (cases "ctx x = None \<and> drawName ex x \<in> range Inr")
  case False
  then have "fst (fst x') = fst (fst x) \<and> snd x' = snd x"
    using assms(2) exportPause_same [of ex interval _ previous "onEnv (mc_tick (ex_machine ex)) x" r previous' x']
    by (auto simp: exportTurn_def split: if_splits sum.splits)
  with stays_same [OF stays_refl [of "soundTree (ex_sha256 ex) R" x, OF assms(4)]] show ?thesis by simp
next
  case True
  then obtain name where draw: "drawName ex x = Inr name" by auto
  let ?Q = "soundTree (ex_sha256 ex) R" and ?cur = "R @ [registryCurrentName]"
  let ?x0 = "onEnv (mc_tick (ex_machine ex)) x" and ?mc = "ex_machine ex"
  note name = assms(6) [OF draw]
  obtain r1 x1 where e: "exportSnapshot ex ctx p name ?x0 = (r1, x1)" by (meson surj_pair)
  from exportSnapshot_sound [OF e assms(3)] name assms(4,5)
  have s1: "stays ?Q ?x0 x1" and p1: "if r1 = None then \<forall>data. map_of (fst (fst x1)) ?cur = Some (Regular data) \<longrightarrow> data = name @ [CHR 0x0A]
      else map_of (fst (fst x1)) ?cur = map_of (fst (fst x)) ?cur"
    unfolding R_def by auto
  have q1: "?Q (fst (fst x1))" and s1': "stays ?Q x x1" using s1 by (simp_all add: stays_def)
  show ?thesis
  proof (cases r1)
    case (Some err)
    obtain r2 x2 where rm: "os_RemoveAll ?mc (path_Join p name) x1 = (r2, x2)" by (meson surj_pair)
    have "map_of (fst (fst x1)) ?cur \<noteq> Some (Regular (name @ [CHR 0x0A]))"
      using p1 Some name soundTree_pointer [OF assms(4), of name] pointsAt_exists by fastforce
    from RemoveAll_sound [OF rm assms(3) _ _ this [unfolded R_def], of "ex_sha256 ex"] q1 name
    have "stays (\<lambda>t. ?Q t \<and> map_of t ?cur = map_of (fst (fst x1)) ?cur) x1 x2" by (simp add: R_def)
    then have "stays ?Q x1 x2" by (rule stays_mono) blast
    from stays_trans [OF s1' this] have s2: "stays ?Q x x2" .
    have "fst (fst x') = fst (fst x2) \<and> snd x' = snd x2"
      using assms(2) True draw e Some rm exportPause_same [of ex interval _ previous x2 r previous' x']
      by (auto simp: exportTurn_def split: option.splits if_splits)
    with stays_same [OF s2] show ?thesis by blast
  next
    case None
    obtain r2 x2 where rm: "removeOldAutomaticSnapshots ?mc p name previous x1 = (r2, x2)" by (meson surj_pair)
    from removeOld_sound [OF rm assms(3)] q1 p1 None have "stays ?Q x1 x2" unfolding R_def by fastforce
    from stays_trans [OF s1' this] have s2: "stays ?Q x x2" .
    have "fst (fst x') = fst (fst x2) \<and> snd x' = snd x2"
      using assms(2) True draw e None rm exportPause_same [of ex interval _ name x2 r previous' x']
      by (auto simp: exportTurn_def split: option.splits)
    with stays_same [OF s2] show ?thesis by blast
  qed
qed

lemma exportStart_sound:
  fixes ex :: "'e exporter" and p :: string
  defines "R \<equiv> keyOf (mc_cwd (ex_machine ex)) p"
  assumes "exportStart ex ctx p x = (r, x')" and "p \<noteq> []" and "soundTree (ex_sha256 ex) R (fst (fst x))"
    and "\<And>e f. mc_fault (ex_machine ex) e = Some f \<Longrightarrow> \<not> errors_Is (mf_err f) errNotExist"
  shows "stays (soundTree (ex_sha256 ex) R) x x'"
proof (cases "ctx x")
  case (Some err)
  with assms(2,4) show ?thesis by (simp add: exportStart_def stays_refl)
next
  case None
  let ?Q = "soundTree (ex_sha256 ex) R" and ?cur = "R @ [registryCurrentName]" and ?mc = "ex_machine ex"
  note key = keyOf_pointer(1) [OF assms(3), of "mc_cwd ?mc", folded R_def]
  obtain r0 x1 where rf: "os_ReadFile ?mc (path_Join p registryCurrentName) x = (r0, x1)" by (meson surj_pair)
  note same = os_ReadFile_same(1) [OF rf, of ?Q, OF assms(4)] os_ReadFile_same(2) [OF rf]
  have names: "n = previous" if prev: "(case (case r0 of Inl err \<Rightarrow> Inl err | Inr data \<Rightarrow>
        if \<not> HasSuffix data [CHR 0x0A] \<or> CHR 0x0A \<in> set (TrimSuffix data [CHR 0x0A]) \<or> \<not> validAutomaticSnapshotName (TrimSuffix data [CHR 0x0A])
        then Inl errInvalidRegistryPointer else Inr (TrimSuffix data [CHR 0x0A])) of
        Inl err \<Rightarrow> if errors_Is err errNotExist then Inr [] else Inl err | Inr name \<Rightarrow> Inr name) = Inr previous"
      and n: "map_of (fst (fst x)) ?cur = Some (Regular (n @ [CHR 0x0A]))" for previous n
  proof -
    from rf [unfolded os_ReadFile_def key] show ?thesis
    proof (rule diskCall_cases)
      fix f assume "mc_fault ?mc (snd (fst x)) = Some f" "r0 = Inl (mf_err f)"
      with prev assms(5) show ?thesis by (auto split: if_splits)
    next
      assume "(case statTree ?cur (fst (fst x)) of Inl err \<Rightarrow> Inl err | Inr Directory \<Rightarrow> Inl errIsDir | Inr (Regular data) \<Rightarrow> Inr data
          | Inr (Irregular _) \<Rightarrow> Inl (Sentinel ''irregular file''), fst (fst x)) = (r0, fst (fst x1))"
      with n have "r0 = Inr (n @ [CHR 0x0A])" by (simp add: statTree_def)
      with prev show ?thesis by (auto split: if_splits simp: errInvalidRegistryPointer_def errNotExist_def)
    qed
  qed
  obtain q where q: "readRegistryPointer ?mc p x = (q, x1)" "q = (case r0 of Inl err \<Rightarrow> Inl err | Inr data \<Rightarrow>
        if \<not> HasSuffix data [CHR 0x0A] \<or> CHR 0x0A \<in> set (TrimSuffix data [CHR 0x0A]) \<or> \<not> validAutomaticSnapshotName (TrimSuffix data [CHR 0x0A])
        then Inl errInvalidRegistryPointer else Inr (TrimSuffix data [CHR 0x0A]))"
    using rf by (cases r0) (auto simp: readRegistryPointer_def Let_def)
  let ?prev = "case q of Inl err \<Rightarrow> if errors_Is err errNotExist then Inr [] else Inl err | Inr name \<Rightarrow> Inr name"
  show ?thesis
  proof (cases ?prev)
    case (Inl err)
    with assms(2) None q(1) same show ?thesis by (auto simp: exportStart_def)
  next
    case (Inr previous)
    obtain r2 x2 where rm: "removeOldAutomaticSnapshots ?mc p previous [] x1 = (r2, x2)" by (meson surj_pair)
    have "n = previous" if "map_of (fst (fst x1)) ?cur = Some (Regular (n @ [CHR 0x0A]))" for n
      by (rule names [OF Inr [unfolded q(2)]]) (use that same(2) in simp)
    from removeOld_sound [OF rm assms(3) _ this [unfolded R_def], of "ex_sha256 ex"] same(2) assms(4)
    have "stays ?Q x1 x2" by (simp add: R_def)
    from stays_trans [OF same(1) this] assms(2) None q(1) Inr rm show ?thesis
      by (auto simp: exportStart_def split: option.splits if_splits)
  qed
qed

section \<open>Drawn names\<close>

text \<open>A time of the years 0 to 9999 and 16 bytes give a name the pattern accepts.\<close>

lemma automaticSnapshotNameFor_valid:
  assumes "automaticSnapshotNameFor now (Some bytes) = Inr name" and "length bytes = 16"
    and "0 \<le> fst (civil (now div dayLength))" "fst (civil (now div dayLength)) \<le> 9999"
  shows "validAutomaticSnapshotName name"
proof -
  obtain year month day where c: "civil (now div dayLength) = (year, month, day)" by (metis prod.exhaust)
  let ?s = "(now mod dayLength) div second"
  have L: "dayLength = 86400 * second" "0 < second" by (simp_all add: dayLength_def hour_def minute_def second_def)
  then have m: "0 \<le> now mod dayLength" "now mod dayLength < 86400 * second" by simp_all
  have s0: "0 \<le> ?s" using m(1) L(2) by (simp add: pos_imp_zdiv_nonneg_iff)
  have "second * ?s < second * 86400" using div_bounds [OF L(2), of "now mod dayLength"] m(2) by linarith
  then have s: "0 \<le> ?s" "?s < 86400" using L(2) s0 mult_less_cancel_left_pos by blast+
  let ?date = "pad 4 year @ pad 2 month @ pad 2 day" and ?clock = "pad 2 (?s div 3600) @ pad 2 (?s div 60 mod 60) @ pad 2 (?s mod 60)"
  have two: "length (pad 2 n) = 2" if "n < 100" for n
  proof -
    have "nat n < 10 ^ Suc 1" using that by simp
    then show ?thesis using pad_length [of n 1] unfolding Suc_1 by blast
  qed
  have four: "length (pad 4 year) = 4"
  proof -
    have "nat year < 10 ^ Suc 3" using assms(4) c by simp
    then show ?thesis using pad_length [of year 3] by simp
  qed
  have "?s div 3600 < 100" using s(2) div_bounds [of 3600 ?s] by linarith
  moreover have "?s div 60 mod 60 < 100" "?s mod 60 < 100"
    using pos_mod_bound [of 60 "?s div 60"] pos_mod_bound [of 60 ?s] by linarith+
  ultimately have len: "length ?date = 8" "length ?clock = 6" using four civil_bounds [OF c] by (simp_all add: two del: length_0_conv)
  have digits: "list_all is_digit ?date" "list_all is_digit ?clock" by (simp_all add: pad_digits)
  have f: "FormatCompact now = ?date @ ''T'' @ ?clock @ ''Z''"
    using assms(3) c by (simp add: FormatCompact_def Let_def yearText_def)
  let ?r = "?date @ ''T'' @ ?clock @ ''Z-'' @ hexText bytes"
  have n: "name = automaticSnapshotPrefix @ ?r" using assms(1) f by (simp add: automaticSnapshotNameFor_def)
  have parts: "take 8 ?r = ?date" "?r ! 8 = CHR ''T''" "take 6 (drop 9 ?r) = ?clock" "?r ! 15 = CHR ''Z''" "?r ! 16 = CHR ''-''"
      "drop 17 ?r = hexText bytes" "length ?r = 49"
  proof -
    obtain a where a: "?date = a" "length a = 8" using len by blast
    obtain b where b: "?clock = b" "length b = 6" using len by blast
    have "?r = a @ CHR ''T'' # b @ CHR ''Z'' # CHR ''-'' # hexText bytes" unfolding a(1) b(1) by simp
    then show "take 8 ?r = ?date" "?r ! 8 = CHR ''T''" "take 6 (drop 9 ?r) = ?clock" "?r ! 15 = CHR ''Z''" "?r ! 16 = CHR ''-''"
      "drop 17 ?r = hexText bytes" "length ?r = 49"
      unfolding a(1) b(1) using a(2) b(2) hexText_hex(2) [of bytes] assms(2) by (simp_all add: nth_append nth_Cons')
  qed
  have "HasPrefix name automaticSnapshotPrefix" "drop (length automaticSnapshotPrefix) name = ?r" by (simp_all add: n HasPrefix_def)
  then show ?thesis
    unfolding validAutomaticSnapshotName_def Let_def using parts digits hexText_hex(1) [of bytes] by presburger
qed

section \<open>The exporter over time\<close>

text \<open>The states between two rounds, as long as the entropy does not repeat the name of a snapshot that is still there.\<close>

inductive exportReachable ::
    "'e exporter \<Rightarrow> ('e disk \<Rightarrow> go_error option) \<Rightarrow> duration \<Rightarrow> string \<Rightarrow> 'e disk \<Rightarrow> string \<times> 'e disk \<Rightarrow> bool"
  for ex ctx interval p x0 where
  started: "exportStart ex ctx p x0 = (Inr previous, x) \<Longrightarrow> exportReachable ex ctx interval p x0 (previous, x)"
| turned: "exportReachable ex ctx interval p x0 (previous, x) \<Longrightarrow>
    (\<And>name. drawName ex x = Inr name \<Longrightarrow> map_of (fst (fst x)) (keyOf (mc_cwd (ex_machine ex)) p @ [name]) = None) \<Longrightarrow>
    exportTurn ex ctx interval p (previous, x) = (r, s) \<Longrightarrow> exportReachable ex ctx interval p x0 s"

lemma drawName_valid:
  assumes "drawName ex x = Inr name" and "\<And>e bytes. ex_entropy ex e = Some bytes \<Longrightarrow> length bytes = 16"
    and "\<And>e. 0 \<le> fst (civil (ex_now ex e div dayLength)) \<and> fst (civil (ex_now ex e div dayLength)) \<le> 9999"
  shows "validAutomaticSnapshotName name"
proof (cases "ex_entropy ex (snd (fst x))")
  case None
  with assms(1) show ?thesis by (simp add: drawName_def automaticSnapshotNameFor_def)
next
  case (Some bytes)
  with automaticSnapshotNameFor_valid [of "ex_now ex (snd (fst x))" bytes name] assms show ?thesis by (simp add: drawName_def)
qed

lemma reachable_sound:
  assumes "exportReachable ex ctx interval p x0 (previous, x)" and "p \<noteq> []"
    and "soundTree (ex_sha256 ex) (keyOf (mc_cwd (ex_machine ex)) p) (fst (fst x0))"
    and "\<And>e. CHR ''/'' \<notin> set (mc_random (ex_machine ex) e)"
    and "\<And>e f. mc_fault (ex_machine ex) e = Some f \<Longrightarrow> \<not> errors_Is (mf_err f) errNotExist"
    and "\<And>e bytes. ex_entropy ex e = Some bytes \<Longrightarrow> length bytes = 16"
    and "\<And>e. 0 \<le> fst (civil (ex_now ex e div dayLength)) \<and> fst (civil (ex_now ex e div dayLength)) \<le> 9999"
  shows "stays (soundTree (ex_sha256 ex) (keyOf (mc_cwd (ex_machine ex)) p)) x0 x"
  using assms(1)
proof (induction "(previous, x)" arbitrary: previous x)
  case (started previous x)
  with exportStart_sound [OF started assms(2,3,5)] show ?case by simp
next
  case (turned previous x r previous' x')
  from turned.hyps(2) have now: "soundTree (ex_sha256 ex) (keyOf (mc_cwd (ex_machine ex)) p) (fst (fst x))" by (simp add: stays_def)
  have "validAutomaticSnapshotName name" if "drawName ex x = Inr name" for name
    by (rule drawName_valid [OF that]) (use assms(6,7) in blast)+
  with turned.hyps(3) have "stays (soundTree (ex_sha256 ex) (keyOf (mc_cwd (ex_machine ex)) p)) x x'"
    by (intro exportTurn_sound [OF turned.hyps(4) assms(2) now assms(4)]) blast
  with turned.hyps(2) show ?case using stays_trans by blast
qed

text \<open>
  C22. The pointer of the registry is never dangling: however the exporter runs, through failed exports, failed removals and
  faults of the disk in the middle of a call, in every tree the disk goes through the file \<^verbatim>\<open>registry-current\<close>, when it
  exists, holds the name of a snapshot that is complete and consists of the files of some built registry.
\<close>
theorem exporter_pointer_sound:
  assumes "exportReachable ex ctx interval p x0 (previous, x)" and "p \<noteq> []"
    and "soundTree (ex_sha256 ex) (keyOf (mc_cwd (ex_machine ex)) p) (fst (fst x0))"
    and "\<And>e. CHR ''/'' \<notin> set (mc_random (ex_machine ex) e)"
    and "\<And>e f. mc_fault (ex_machine ex) e = Some f \<Longrightarrow> \<not> errors_Is (mf_err f) errNotExist"
    and "\<And>e bytes. ex_entropy ex e = Some bytes \<Longrightarrow> length bytes = 16"
    and "\<And>e. 0 \<le> fst (civil (ex_now ex e div dayLength)) \<and> fst (civil (ex_now ex e div dayLength)) \<le> 9999"
  shows "stays (soundTree (ex_sha256 ex) (keyOf (mc_cwd (ex_machine ex)) p)) x0 x"
  by (rule reachable_sound [OF assms])

definition exampleExporter :: "unit exporter" where
  "exampleExporter = \<lparr>ex_machine = exampleMachine, ex_sha256 = exampleDigest, ex_openDatabase = (\<lambda>_. None),
     ex_registry = (\<lambda>_. Inr [participant ''a.example'']), ex_now = (\<lambda>_. 0), ex_entropy = (\<lambda>_. Some (replicate 16 (CHR ''a''))),
     ex_sleep = (\<lambda>_ e. (None, e)), ex_log = (\<lambda>_ e. e)\<rparr>"

definition exampleRoot :: "unit disk" where "exampleRoot = (([([], Directory), ([''out''], Directory)], ()), [])"

definition exampleTurn where "exampleTurn = exportTurn exampleExporter (\<lambda>_. None) minute ''/out'' ([], snd (exportStart exampleExporter (\<lambda>_. None) ''/out'' exampleRoot))"

lemma exampleTurn_facts:
  "fst (exportStart exampleExporter (\<lambda>_. None) ''/out'' exampleRoot) = Inr []"
  "fst (exampleTurn) = None"
  "map_of (fst (fst (snd (snd exampleTurn)))) [''out'', registryCurrentName] \<noteq> None"
  "(case drawName exampleExporter (snd (exportStart exampleExporter (\<lambda>_. None) ''/out'' exampleRoot)) of Inl _ \<Rightarrow> True
    | Inr name \<Rightarrow> map_of (fst (fst (snd (exportStart exampleExporter (\<lambda>_. None) ''/out'' exampleRoot)))) [''out'', name] = None)"
  "keyOf (mc_cwd exampleMachine) ''/out'' = [''out'']" "fst (civil 0) = 1"
  by code_simp+

lemma exampleReachable:
  "exportReachable exampleExporter (\<lambda>_. None) minute ''/out'' exampleRoot (fst (snd exampleTurn), snd (snd exampleTurn))"
proof -
  let ?s = "exportStart exampleExporter (\<lambda>_. None) ''/out'' exampleRoot"
  have "?s = (Inr [], snd ?s)" using exampleTurn_facts(1) by (metis prod.collapse)
  then have "exportReachable exampleExporter (\<lambda>_. None) minute ''/out'' exampleRoot ([], snd ?s)" by (rule exportReachable.started)
  then show ?thesis
  proof (rule exportReachable.turned)
    show "exportTurn exampleExporter (\<lambda>_. None) minute ''/out'' ([], snd ?s) = (fst exampleTurn, (fst (snd exampleTurn), snd (snd exampleTurn)))"
      by (simp add: exampleTurn_def)
    show "map_of (fst (fst (snd ?s))) (keyOf (mc_cwd (ex_machine exampleExporter)) ''/out'' @ [name]) = None"
      if "drawName exampleExporter (snd ?s) = Inr name" for name
      using exampleTurn_facts(4,5) that by (simp add: exampleExporter_def)
  qed
qed

lemma exampleRoot_sound: "soundTree exampleDigest [''out''] (fst (fst exampleRoot))"
  by (simp add: exampleRoot_def soundTree_def wfTree_def registryCurrentName_def)

lemma exampleTurn_sound: "soundTree exampleDigest [''out''] (fst (fst (snd (snd exampleTurn))))"
  using reachable_sound [OF exampleReachable] exampleRoot_sound exampleTurn_facts(5,6)
  by (simp add: exampleExporter_def exampleMachine_def stays_def)

theorem exporter_pointer_sound_witness:
  "stays (soundTree exampleDigest [''out'']) exampleRoot (snd (snd exampleTurn)) \<and>
   map_of (fst (fst (snd (snd exampleTurn)))) [''out'', registryCurrentName] \<noteq> None"
  using exporter_pointer_sound [OF exampleReachable] exampleRoot_sound exampleTurn_facts(3,5,6)
  by (simp add: exampleExporter_def exampleMachine_def)

section \<open>The publisher over time\<close>

text \<open>What is uploaded, in a disk the exporter keeps: only complete snapshots.\<close>

lemma readRegistryPointer_same: "readRegistryPointer mc p x = (r, x') \<Longrightarrow> fst (fst x') = fst (fst x)"
  using os_ReadFile_same(2) [of mc "path_Join p registryCurrentName" x]
  by (auto simp: readRegistryPointer_def Let_def split: prod.splits sum.splits if_splits)

lemma readRegistryPointer_name:
  assumes "readRegistryPointer mc p x = (Inr name, x')" and "p \<noteq> []"
  shows "map_of (fst (fst x)) (keyOf (mc_cwd mc) p @ [registryCurrentName]) = Some (Regular (name @ [CHR 0x0A]))"
proof -
  obtain data where rf: "os_ReadFile mc (path_Join p registryCurrentName) x = (Inr data, x')"
    and d: "HasSuffix data [CHR 0x0A]" "name = TrimSuffix data [CHR 0x0A]"
    using assms(1) by (auto simp: readRegistryPointer_def Let_def split: prod.splits sum.splits if_splits)
  from d have "data = name @ [CHR 0x0A]" by (auto simp: HasSuffix_def TrimSuffix_def) (metis append_take_drop_id)
  moreover from rf [unfolded os_ReadFile_def keyOf_pointer(1) [OF assms(2)]]
  have "map_of (fst (fst x)) (keyOf (mc_cwd mc) p @ [registryCurrentName]) = Some (Regular data)"
    by (auto elim!: diskCall_cases simp: statTree_def split: option.splits node.splits if_splits)
  ultimately show ?thesis by simp
qed

text \<open>
  C23. The publisher follows the exporter: on a disk the exporter keeps sound, the upload is called at most with the directory
  of a complete snapshot other than the one published last (so a round is the same with any other behaviour of the upload
  elsewhere); an upload that fails is tried again after at least 5 seconds and at most 5 minutes.
\<close>
theorem publisher_uploads_complete:
  assumes "soundTree sha256 (keyOf (mc_cwd (ex_machine ex)) p) (fst (fst (pu_disk s)))" and "p \<noteq> []"
    and "registryPublishFollowInterval \<le> pu_backoff s" "pu_backoff s \<le> registryPublishMaxBackoff"
  shows "publishOnce ex publish ctx p s =
      publishOnce ex (\<lambda>ctx q x. if \<exists>name. q = path_Join p name \<and> name \<noteq> pu_published s \<and>
          pointsAt name sha256 (keyOf (mc_cwd (ex_machine ex)) p) (fst (fst x)) then publish ctx q x else elsewhere ctx q x) ctx p s \<and>
    (case publishOnce ex publish ctx p s of (delay, s') \<Rightarrow>
       (case delay of None \<Rightarrow> True | Some d \<Rightarrow> registryPublishFollowInterval \<le> d \<and> d \<le> registryPublishMaxBackoff) \<and>
       registryPublishFollowInterval \<le> pu_backoff s' \<and> pu_backoff s' \<le> registryPublishMaxBackoff)"
proof -
  let ?R = "keyOf (mc_cwd (ex_machine ex)) p"
  have five: "registryPublishFollowInterval \<le> registryPublishMaxBackoff" "0 < registryPublishFollowInterval"
    by (simp_all add: registryPublishFollowInterval_def registryPublishMaxBackoff_def minute_def second_def)
  have next_b: "registryPublishFollowInterval \<le> nextBackoff (pu_backoff s)" "nextBackoff (pu_backoff s) \<le> registryPublishMaxBackoff"
    using assms(3) five by (auto simp: nextBackoff_def Let_def)
  have same: "publishOnce ex publish ctx p s =
      publishOnce ex (\<lambda>ctx q x. if \<exists>name. q = path_Join p name \<and> name \<noteq> pu_published s \<and>
          pointsAt name sha256 ?R (fst (fst x)) then publish ctx q x else elsewhere ctx q x) ctx p s"
  proof -
    have "\<exists>name'. path_Join p name = path_Join p name' \<and> name' \<noteq> pu_published s \<and> pointsAt name' sha256 ?R (fst (fst y))"
      if "readRegistryPointer (ex_machine ex) p (pu_disk s) = (Inr name, x)" "name \<noteq> pu_published s"
        "usableAutomaticSnapshot (ex_machine ex) (path_Join p name) x = (None, y)" for name x y
    proof -
      have "fst (fst y) = fst (fst (pu_disk s))"
        using that(3) readRegistryPointer_same [OF that(1)] os_Lstat_same(2) [of "ex_machine ex" "path_Join p name" x]
        by (auto simp: usableAutomaticSnapshot_def split: prod.splits sum.splits if_splits)
      moreover from soundTree_pointer [OF assms(1)] readRegistryPointer_name [OF that(1) assms(2)]
      have "pointsAt name sha256 ?R (fst (fst (pu_disk s)))" by blast
      ultimately show ?thesis using that(2) by auto
    qed
    then have agree: "(if \<exists>name'. path_Join p name = path_Join p name' \<and> name' \<noteq> pu_published s \<and> pointsAt name' sha256 ?R (fst (fst y))
        then publish c (path_Join p name) y else elsewhere c (path_Join p name) y) = publish c (path_Join p name) y"
      if "readRegistryPointer (ex_machine ex) p (pu_disk s) = (Inr name, x)" "name \<noteq> pu_published s"
        "usableAutomaticSnapshot (ex_machine ex) (path_Join p name) x = (None, y)" for name x y c
      using that by presburger
    obtain q x1 where q: "readRegistryPointer (ex_machine ex) p (pu_disk s) = (q, x1)" by (meson surj_pair)
    show ?thesis
    proof (cases q)
      case (Inr name)
      obtain u y where u: "usableAutomaticSnapshot (ex_machine ex) (path_Join p name) x1 = (u, y)" by (meson surj_pair)
      show ?thesis
      proof (cases "name \<noteq> pu_published s \<and> u = None")
        case True
        with q Inr u have "readRegistryPointer (ex_machine ex) p (pu_disk s) = (Inr name, x1)" "name \<noteq> pu_published s"
          "usableAutomaticSnapshot (ex_machine ex) (path_Join p name) x1 = (None, y)" by simp_all
        then show ?thesis using agree unfolding publishOnce_def by simp
      qed (use q Inr u in \<open>auto simp: publishOnce_def\<close>)
    qed (simp add: publishOnce_def q)
  qed
  moreover have "case publishOnce ex publish ctx p s of (delay, s') \<Rightarrow>
       (case delay of None \<Rightarrow> True | Some d \<Rightarrow> registryPublishFollowInterval \<le> d \<and> d \<le> registryPublishMaxBackoff) \<and>
       registryPublishFollowInterval \<le> pu_backoff s' \<and> pu_backoff s' \<le> registryPublishMaxBackoff"
    using assms(3,4) five next_b by (auto simp: publishOnce_def Let_def split: prod.splits sum.splits option.splits)
  ultimately show ?thesis by blast
qed

definition exampleSnapshot :: string where "exampleSnapshot = projr (drawName exampleExporter exampleRoot)"

lemma exampleSnapshot_facts:
  "map_of (fst (fst (snd (snd exampleTurn)))) [''out'', registryCurrentName] = Some (Regular (exampleSnapshot @ [CHR 0x0A]))"
  "validAutomaticSnapshotName exampleSnapshot"
  by code_simp+

text \<open>After the round of the example an upload that succeeds is called for the new snapshot and for nothing else.\<close>

theorem publisher_uploads_complete_witness:
  "pu_published (snd (publishOnce exampleExporter (\<lambda>_ _ x. (Inr True, x)) (\<lambda>_. None) ''/out'' (publishStart (snd (snd exampleTurn))))) =
     exampleSnapshot \<and>
   publishOnce exampleExporter (\<lambda>_ _ x. (Inr True, x)) (\<lambda>_. None) ''/out'' (publishStart (snd (snd exampleTurn))) =
   publishOnce exampleExporter
     (\<lambda>_ q x. if \<exists>name. q = path_Join ''/out'' name \<and> name \<noteq> [] \<and> pointsAt name exampleDigest [''out''] (fst (fst x)) then (Inr True, x)
       else (Inl errNotExist, x)) (\<lambda>_. None) ''/out'' (publishStart (snd (snd exampleTurn)))"
proof -
  have key: "keyOf (mc_cwd (ex_machine exampleExporter)) ''/out'' = [''out'']" using exampleTurn_facts(5) by (simp add: exampleExporter_def)
  let ?s = "publishStart (snd (snd exampleTurn))"
  have b: "registryPublishFollowInterval \<le> pu_backoff ?s" "pu_backoff ?s \<le> registryPublishMaxBackoff"
    by (simp_all add: publishStart_def registryPublishFollowInterval_def registryPublishMaxBackoff_def minute_def second_def)
  have s: "soundTree exampleDigest (keyOf (mc_cwd (ex_machine exampleExporter)) ''/out'') (fst (fst (pu_disk ?s)))"
    using exampleTurn_sound by (simp add: key publishStart_def)
  have "pu_published (snd (publishOnce exampleExporter (\<lambda>_ _ x. (Inr True, x)) (\<lambda>_. None) ''/out'' ?s)) = exampleSnapshot" by code_simp
  with publisher_uploads_complete [OF s _ b, of "\<lambda>_ _ x. (Inr True, x)" "\<lambda>_. None" "\<lambda>_ _ x. (Inl errNotExist, x)"] key
  show ?thesis by (simp add: publishStart_def)
qed

text \<open>
  The exporter ends: once the context has ended by the time of some later round, the exporter returns; it then has either
  nothing to report or a snapshot it could not remove.
\<close>
theorem runRegistryExport_ends:
  assumes "exportStart ex ctx p (onEnv (ex_log ex ''registry export started'') x) = (Inr previous, x1)"
    and "ctx (snd (((\<lambda>s. snd (exportTurn ex ctx interval p s)) ^^ n) (previous, x1))) \<noteq> None"
  shows "\<exists>r x'. runRegistryExport ex ctx interval p x = Some (r, x') \<and>
    (r = None \<or> (\<exists>err. r = Some (Wrap ''registry snapshot cleanup failed'' [err])) \<or>
     (\<exists>err err'. r = Some (Wrap [] [err, Wrap ''remove failed registry snapshot'' [err']])))"
proof -
  obtain r s where "exportLoop ex ctx interval p (previous, x1) = Some (r, s)"
    and "r = None \<or> (\<exists>err. r = Some (Wrap ''registry snapshot cleanup failed'' [err])) \<or>
     (\<exists>err err'. r = Some (Wrap [] [err, Wrap ''remove failed registry snapshot'' [err']]))"
    using export_loop.loop_ends [where ex = ex and ctx = ctx and interval = interval and p = p and n = n and w = "(previous, x1)"] assms(2) by auto
  moreover have "runRegistryExport ex ctx interval p x =
      map_option (\<lambda>(r, _, x). stopped ex ''registry export stopped'' r x) (exportLoop ex ctx interval p (previous, x1))"
    by (simp add: runRegistryExport_def assms(1))
  ultimately show ?thesis by (cases s) (auto simp: stopped_def)
qed

text \<open>An exporter whose database is down and whose context ends after its third call of the disk.\<close>

definition endingExporter :: "nat exporter" where
  "endingExporter = \<lparr>ex_machine = \<lparr>mc_cwd = [], mc_fault = (\<lambda>_. None), mc_random = (\<lambda>_. ''1''), mc_tick = Suc\<rparr>, ex_sha256 = exampleDigest,
     ex_openDatabase = (\<lambda>_. Some errNotExist), ex_registry = (\<lambda>_. Inr []), ex_now = (\<lambda>_. 0), ex_entropy = (\<lambda>_. Some (replicate 16 (CHR ''a''))),
     ex_sleep = (\<lambda>_ e. (None, e)), ex_log = (\<lambda>_ e. e)\<rparr>"

definition endingContext :: "nat disk \<Rightarrow> go_error option" where
  "endingContext x = (if snd (fst x) \<ge> 3 then Some Canceled else None)"

definition endingRoot :: "nat disk" where "endingRoot = (([([], Directory), ([''out''], Directory)], 0), [])"

theorem runRegistryExport_ends_witness:
  "\<exists>r x'. runRegistryExport endingExporter endingContext minute ''/out'' endingRoot = Some (r, x') \<and>
    (r = None \<or> (\<exists>err. r = Some (Wrap ''registry snapshot cleanup failed'' [err])) \<or>
     (\<exists>err err'. r = Some (Wrap [] [err, Wrap ''remove failed registry snapshot'' [err']])))"
proof -
  let ?s = "exportStart endingExporter endingContext ''/out'' (onEnv (ex_log endingExporter ''registry export started'') endingRoot)"
  have "fst ?s = Inr []" by code_simp
  then have s: "?s = (Inr [], snd ?s)" by (metis prod.collapse)
  have "endingContext (snd (((\<lambda>s. snd (exportTurn endingExporter endingContext minute ''/out'' s)) ^^ 1) ([], snd ?s))) \<noteq> None" by code_simp
  with runRegistryExport_ends [OF s, of 1 minute] show ?thesis by blast
qed

text \<open>The publisher ends as well, with nothing to report.\<close>

lemma runRegistryPublish_ends:
  assumes "ctx (pu_disk (((\<lambda>s. snd (publishTurn ex publish ctx p s)) ^^ n)
      (publishStart (onEnv (ex_log ex ''registry publish started'') x)))) \<noteq> None"
  shows "\<exists>x'. runRegistryPublish ex publish ctx p x = Some (None, x')"
  using publish_loop.loop_ends [where ex = ex and publish = publish and ctx = ctx and p = p and n = n
      and w = "publishStart (onEnv (ex_log ex ''registry publish started'') x)"] assms
  by (fastforce simp: runRegistryPublish_def stopped_def)

section \<open>What the cleanup leaves behind\<close>

text \<open>
  C24. The directory a snapshot is built in is not one the cleanup knows: whatever a failed removal or a killed process leaves of
  it stays, whatever later rounds and restarts of the exporter remove, although the cleanup at the start of the exporter is
  meant for what earlier processes abandoned.
\<close>
theorem staging_never_removed:
  assumes "removeSnapshots mc p current previous entries x = (r, x')" and "p \<noteq> []" and "validAutomaticSnapshotName name"
    and "wfTree (fst (fst x))"
  shows "map_of (fst (fst x')) (keyOf (mc_cwd mc) p @ (''.'' @ name @ ''.tmp-'' @ random) # s) =
         map_of (fst (fst x)) (keyOf (mc_cwd mc) p @ (''.'' @ name @ ''.tmp-'' @ random) # s)"
  using assms(1,4)
proof (induction entries arbitrary: x)
  case (Cons entry entries)
  obtain name' n where e: "entry = (name', n)" by fastforce
  show ?case
  proof (cases "validAutomaticSnapshotName name' \<and> name' \<noteq> current \<and> name' \<noteq> previous")
    case False
    with Cons.IH [OF _ Cons.prems(2)] Cons.prems(1) e show ?thesis by (auto split: if_splits)
  next
    case True
    obtain r1 x1 where rm: "os_RemoveAll mc (path_Join p name') x = (r1, x1)" by (meson surj_pair)
    have key: "keyOf (mc_cwd mc) (path_Join p name') = keyOf (mc_cwd mc) p @ [name']" using keyOf_snapshot [OF assms(2)] True by blast
    have x1: "onlyBelow (keyOf (mc_cwd mc) p @ [name']) (fst (fst x)) (fst (fst x1))"
      using os_RemoveAll_below [OF rm onlyBelow_self [OF Cons.prems(2)] key] by (simp add: stays_def)
    have ne: "name' \<noteq> ''.'' @ name @ ''.tmp-'' @ random" using snapshot_names(4) [OF _ assms(3)] True by blast
    have same: "map_of (fst (fst x1)) (keyOf (mc_cwd mc) p @ (''.'' @ name @ ''.tmp-'' @ random) # s) =
         map_of (fst (fst x)) (keyOf (mc_cwd mc) p @ (''.'' @ name @ ''.tmp-'' @ random) # s)"
      using x1 ne by (simp add: onlyBelow_def)
    show ?thesis
    proof (cases r1)
      case None
      with Cons.prems(1) e rm True have "removeSnapshots mc p current previous entries x1 = (r, x')" by simp
      with Cons.IH [OF this] x1 same show ?thesis by (simp add: onlyBelow_def)
    next
      case (Some err)
      with Cons.prems(1) e rm True same show ?thesis by simp
    qed
  qed
qed simp

theorem staging_never_removed_witness:
  "map_of (fst (fst (snd (removeSnapshots exampleMachine ''/out'' [] [] [(exampleSnapshot, Directory), (''.'' @ exampleSnapshot @ ''.tmp-1'', Directory)]
      (([([], Directory), ([''out''], Directory), ([''out'', ''.'' @ exampleSnapshot @ ''.tmp-1''], Directory)], ()), [])))))
     [''out'', ''.'' @ exampleSnapshot @ ''.tmp-1''] = Some Directory"
proof -
  let ?x = "(([([], Directory), ([''out''], Directory), ([''out'', ''.'' @ exampleSnapshot @ ''.tmp-1''], Directory)], ()), []) :: unit disk"
  let ?w = "removeSnapshots exampleMachine ''/out'' [] [] [(exampleSnapshot, Directory), (''.'' @ exampleSnapshot @ ''.tmp-1'', Directory)] ?x"
  have wf: "wfTree (fst (fst ?x))" by (auto simp: wfTree_def)
  have w: "?w = (fst ?w, snd ?w)" by (rule prod.collapse [symmetric])
  have "map_of (fst (fst (snd ?w))) (keyOf (mc_cwd exampleMachine) ''/out'' @ [''.'' @ exampleSnapshot @ ''.tmp-'' @ ''1'']) =
      map_of (fst (fst ?x)) (keyOf (mc_cwd exampleMachine) ''/out'' @ [''.'' @ exampleSnapshot @ ''.tmp-'' @ ''1''])"
    by (rule staging_never_removed [OF w _ exampleSnapshot_facts(2) wf]) simp
  then show ?thesis unfolding exampleTurn_facts(5) by (simp del: removeSnapshots.simps)
qed

end
