(* ===== verification/Web_Encoding.thy ===== *)
theory Web_Encoding
  imports Encoding Urls
begin

text \<open>
  More of Go's standard library for the clients of web services: \<^verbatim>\<open>base64.StdEncoding\<close>, \<^verbatim>\<open>json.Marshal\<close> and the escaping of
  path segments and URLs by \<^verbatim>\<open>net/url\<close>.
\<close>

section \<open>Base64\<close>

definition encodeStd :: string where
  "encodeStd = ''ABCDEFGHIJKLMNOPQRSTUVWXYZabcdefghijklmnopqrstuvwxyz0123456789+/''"

definition sextetChar :: "nat \<Rightarrow> char" where "sextetChar n = encodeStd ! n"

definition sextet :: "char \<Rightarrow> nat option" where
  "sextet c =
     (if in_range 65 90 c then Some (byte_of c - 65)
      else if in_range 97 122 c then Some (byte_of c - 97 + 26)
      else if in_range 48 57 c then Some (byte_of c - 48 + 52)
      else if c = CHR ''+'' then Some 62
      else if c = CHR ''/'' then Some 63
      else None)"

fun EncodeToString :: "string \<Rightarrow> string" where
  "EncodeToString [] = []"
| "EncodeToString [a] = [sextetChar (byte_of a div 4), sextetChar (byte_of a mod 4 * 16), CHR ''='', CHR ''='']"
| "EncodeToString [a, b] =
     [sextetChar (byte_of a div 4), sextetChar (byte_of a mod 4 * 16 + byte_of b div 16), sextetChar (byte_of b mod 16 * 4), CHR ''='']"
| "EncodeToString (a # b # c # s) =
     sextetChar (byte_of a div 4) # sextetChar (byte_of a mod 4 * 16 + byte_of b div 16) #
     sextetChar (byte_of b mod 16 * 4 + byte_of c div 64) # sextetChar (byte_of c mod 64) # EncodeToString s"

text \<open>Groups of four; only the last may be padded, and the bits a padded group leaves over are not looked at.\<close>

fun decodeGroups :: "string \<Rightarrow> string option" where
  "decodeGroups [] = Some []"
| "decodeGroups (a # b # c # d # s) =
     (case (sextet a, sextet b) of
        (Some i, Some j) \<Rightarrow>
          (if c = CHR ''='' then (if d = CHR ''='' \<and> s = [] then Some [char_of (i * 4 + j div 16)] else None)
           else (case sextet c of
                   None \<Rightarrow> None
                 | Some k \<Rightarrow>
                     if d = CHR ''='' then (if s = [] then Some [char_of (i * 4 + j div 16), char_of (j mod 16 * 16 + k div 4)] else None)
                     else (case sextet d of
                             None \<Rightarrow> None
                           | Some l \<Rightarrow>
                               map_option (\<lambda>r. char_of (i * 4 + j div 16) # char_of (j mod 16 * 16 + k div 4) # char_of (k mod 4 * 64 + l) # r)
                                 (decodeGroups s))))
      | _ \<Rightarrow> None)"
| "decodeGroups _ = None"

definition DecodeString :: "string \<Rightarrow> string option" where
  "DecodeString s = decodeGroups (filter (\<lambda>c. c \<noteq> CHR 0x0A \<and> c \<noteq> CHR 0x0D) s)"

lemma sextetChars:
  "list_all (\<lambda>n. sextet (sextetChar n) = Some n \<and> sextetChar n \<noteq> CHR ''='' \<and> sextetChar n \<noteq> CHR 0x0A \<and> sextetChar n \<noteq> CHR 0x0D) [0..<64]"
  by code_simp

lemma sextetChar_facts [simp]:
  assumes "n < 64"
  shows "sextet (sextetChar n) = Some n" "sextetChar n \<noteq> CHR ''=''" "sextetChar n \<noteq> CHR 0x0A" "sextetChar n \<noteq> CHR 0x0D"
  using sextetChars assms by (auto simp: list_all_iff)

lemma byte_parts [simp]:
  "byte_of c div 4 < 64" "byte_of c mod 4 * 16 < 64" "byte_of c mod 4 * 16 + byte_of d div 16 < 64" "byte_of c mod 16 * 4 < 64"
  "byte_of c mod 16 * 4 + byte_of d div 64 < 64" "byte_of c mod 64 < 64"
  using byte_of_less [of c] byte_of_less [of d] by auto

lemma byte_joins [simp]:
  "byte_of b div 16 div 16 = 0" "byte_of b div 16 mod 16 = byte_of b div 16" "byte_of b div 64 div 4 = 0" "byte_of b div 64 mod 4 = byte_of b div 64"
  using byte_of_less [of b] by auto

lemma EncodeToString_plain: "filter (\<lambda>c. c \<noteq> CHR 0x0A \<and> c \<noteq> CHR 0x0D) (EncodeToString s) = EncodeToString s"
  by (induction s rule: EncodeToString.induct) simp_all

lemma decodeGroups_Encode: "decodeGroups (EncodeToString s) = Some s"
  by (induction s rule: EncodeToString.induct) simp_all

lemma DecodeString_EncodeToString: "DecodeString (EncodeToString s) = Some s"
  by (simp add: DecodeString_def EncodeToString_plain decodeGroups_Encode)

text \<open>\<^verbatim>\<open>base64.RawURLEncoding\<close>: two other characters, and no padding.\<close>

definition toURL :: "char \<Rightarrow> char" where
  "toURL c = (if c = CHR ''+'' then CHR ''-'' else if c = CHR ''/'' then CHR ''_'' else c)"

definition fromURL :: "char \<Rightarrow> char" where
  "fromURL c = (if c = CHR ''-'' then CHR ''+'' else if c = CHR ''_'' then CHR ''/'' else c)"

definition RawURLEncode :: "string \<Rightarrow> string" where
  "RawURLEncode s = map toURL (filter (\<lambda>c. c \<noteq> CHR ''='') (EncodeToString s))"

definition padGroups :: "string \<Rightarrow> string" where
  "padGroups s = s @ replicate (if length s mod 4 = 2 then 2 else if length s mod 4 = 3 then 1 else 0) (CHR ''='')"

definition RawURLDecode :: "string \<Rightarrow> string option" where
  "RawURLDecode raw =
     (let s = filter (\<lambda>c. c \<noteq> CHR 0x0A \<and> c \<noteq> CHR 0x0D) raw
      in if list_ex (\<lambda>c. c = CHR ''+'' \<or> c = CHR ''/'' \<or> c = CHR ''='') s then None else decodeGroups (padGroups (map fromURL s)))"

lemma sextetURL:
  "list_all (\<lambda>n. fromURL (toURL (sextetChar n)) = sextetChar n \<and> toURL (sextetChar n) \<notin> set [CHR ''+'', CHR ''/'', CHR ''='', CHR 0x0A, CHR 0x0D]) [0..<64]"
  by code_simp

lemma sextetURL_facts [simp]:
  assumes "n < 64"
  shows "fromURL (toURL (sextetChar n)) = sextetChar n" "toURL (sextetChar n) \<noteq> CHR ''+''" "toURL (sextetChar n) \<noteq> CHR ''/''"
    "toURL (sextetChar n) \<noteq> CHR ''=''" "toURL (sextetChar n) \<noteq> CHR 0x0A" "toURL (sextetChar n) \<noteq> CHR 0x0D"
  using sextetURL assms by (auto simp: list_all_iff)

lemma RawURLEncode_plain:
  "list_all (\<lambda>c. c \<notin> set [CHR ''+'', CHR ''/'', CHR ''='', CHR 0x0A, CHR 0x0D]) (RawURLEncode s) \<and>
   map fromURL (RawURLEncode s) = filter (\<lambda>c. c \<noteq> CHR ''='') (EncodeToString s)"
  by (induction s rule: EncodeToString.induct) (simp_all add: RawURLEncode_def)

lemma padGroups_quad: "padGroups (a # b # c # d # s) = a # b # c # d # padGroups s"
  by (simp add: padGroups_def)

lemma padGroups_Encode: "padGroups (filter (\<lambda>c. c \<noteq> CHR ''='') (EncodeToString s)) = EncodeToString s"
  by (induction s rule: EncodeToString.induct) (simp_all add: padGroups_quad, simp_all add: padGroups_def numeral_2_eq_2)

lemma RawURLDecode_Encode: "RawURLDecode (RawURLEncode s) = Some s"
proof -
  have "filter (\<lambda>c. c \<noteq> CHR 0x0A \<and> c \<noteq> CHR 0x0D) (RawURLEncode s) = RawURLEncode s"
    using RawURLEncode_plain [of s] by (simp add: filter_id_conv list_all_iff)
  with RawURLEncode_plain [of s] show ?thesis
    by (simp add: RawURLDecode_def list_ex_iff list_all_iff padGroups_Encode decodeGroups_Encode)
qed

lemma RawURLEncode_empty: "RawURLEncode s = [] \<longleftrightarrow> s = []"
  by (cases s rule: EncodeToString.cases) (simp_all add: RawURLEncode_def)

section \<open>Compact JSON\<close>

fun Marshal :: "json \<Rightarrow> string option" where
  "Marshal (JInt n) = Some (if n < 0 then CHR ''-'' # FormatUint (nat (- n)) else FormatUint (nat n))"
| "Marshal (JBool b) = Some (if b then ''true'' else ''false'')"
| "Marshal (JText s) = Some (quoteText s)"
| "Marshal (JTime t) = timeText t"
| "Marshal (JArray xs) = map_option (\<lambda>items. ''['' @ sepBy '','' items @ '']'') (allSome (map Marshal xs))"
| "Marshal (JObject members) =
     map_option (\<lambda>items. ''{'' @ sepBy '','' items @ ''}'')
       (allSome (map (\<lambda>(name, v). map_option (\<lambda>s. quoteText name @ '':'' @ s) (Marshal v)) members))"

section \<open>Escaping\<close>

text \<open>\<^verbatim>\<open>shouldEscape(c, encodePathSegment)\<close> and \<^verbatim>\<open>shouldEscape(c, encodeHost)\<close>.\<close>

definition shouldEscapeSegment :: "char \<Rightarrow> bool" where
  "shouldEscapeSegment c =
     (if isUnreserved c then False
      else if c \<in> set ''$&+,/:;=?@'' then c \<in> set ''/;,?''
      else True)"

definition PathEscape :: "string \<Rightarrow> string" where
  "PathEscape s = concat (map (\<lambda>c. if shouldEscapeSegment c then percentEncoded c else [c]) s)"

definition shouldEscapeHost :: "char \<Rightarrow> bool" where
  "shouldEscapeHost c = (\<not> (isUnreserved c \<or> c \<in> set ''!$&()*+,;=:[]<>'' \<or> c = CHR 0x27 \<or> c = CHR 0x22))"

definition escapeHost :: "string \<Rightarrow> string" where
  "escapeHost s = concat (map (\<lambda>c. if shouldEscapeHost c then percentEncoded c else [c]) s)"

text \<open>What a server makes of an escaped path is the path that was escaped.\<close>

lemma unescapePath_encoded: "unescapePath (percentEncoded c @ s) = map_option (\<lambda>t. c # t) (unescapePath s)"
  using percentEncoded_octet [of c] by (simp add: percentEncoded_def)

lemma unescapePath_escape:
  assumes "P (CHR ''%'')"
  shows "unescapePath (concat (map (\<lambda>c. if P c then percentEncoded c else [c]) s)) = Some s"
proof (induction s)
  case (Cons c s)
  then show ?case using assms by (cases "P c") (auto simp: unescapePath_encoded)
qed simp

lemma unescapePath_escapePath: "unescapePath (escapePath s) = Some s"
  unfolding escapePath_def by (rule unescapePath_escape) (simp add: shouldEscapePath_def isUnreserved_def in_range_def byte_of_def)

lemma unescapePath_PathEscape: "unescapePath (PathEscape s) = Some s"
  unfolding PathEscape_def by (rule unescapePath_escape) (simp add: shouldEscapeSegment_def isUnreserved_def in_range_def byte_of_def)

lemma PathEscape_id: "PathEscape s = s \<longleftrightarrow> list_all (\<lambda>c. \<not> shouldEscapeSegment c) s"
proof -
  have len: "length (PathEscape s) = length s + 2 * length (filter shouldEscapeSegment s)" for s
    by (induction s) (auto simp: PathEscape_def percentEncoded_def)
  have "PathEscape s = s" if "list_all (\<lambda>c. \<not> shouldEscapeSegment c) s"
    using that by (induction s) (auto simp: PathEscape_def)
  moreover have "list_all (\<lambda>c. \<not> shouldEscapeSegment c) s" if "PathEscape s = s"
    using len [of s] that by (simp add: filter_empty_conv list_all_iff)
  ultimately show ?thesis by blast
qed

end
