(* ===== verification/Github_Publish.thy ===== *)
theory Github_Publish
  imports Export_Loop Web_Encoding Http
begin

text \<open>
  \<^verbatim>\<open>internal/githubpublish/publisher.go\<close>: a snapshot becomes one commit on a branch of a GitHub repository. The requests go
  through a client on a state of type \<open>'w\<close>; what GitHub answers is arbitrary. The decoders of the answers (\<^verbatim>\<open>encoding/json\<close>
  into the structures of the source), \<^verbatim>\<open>url.Parse\<close> and \<^verbatim>\<open>http.NewRequestWithContext\<close> are arguments.
\<close>

definition githubAPIBase :: string where "githubAPIBase = ''https://api.github.com''"
definition githubAPIVersion :: string where "githubAPIVersion = ''2026-03-10''"
definition githubAccept :: string where "githubAccept = ''application/vnd.github+json''"
definition githubUserAgent :: string where "githubUserAgent = ''Joshternet-Joshbot''"
definition publicationCommitMessage :: string where "publicationCommitMessage = ''Publish Joshternet registry''"
definition sentinelPath :: string where "sentinelPath = ''.joshbot-registry-target''"
definition sentinelContents :: string where "sentinelContents = ''joshbot-registry-v1'' @ [CHR 0x0A]"
definition maxPublicationFiles :: int where "maxPublicationFiles = 4097"
definition maxPublicationFileBytes :: int where "maxPublicationFileBytes = 8 * 1024 * 1024"
definition maxPublicationTotalBytes :: int where "maxPublicationTotalBytes = 32 * 1024 * 1024"
definition maxGitHubResponseBytes :: int where "maxGitHubResponseBytes = 4 * 1024 * 1024"
definition githubRequestTimeout :: duration where "githubRequestTimeout = 30 * second"

definition ErrInvalidConfig where "ErrInvalidConfig = Sentinel ''githubpublish: configuration is invalid''"
definition ErrInvalidToken where "ErrInvalidToken = Sentinel ''githubpublish: token is invalid''"
definition ErrInvalidPublisher where "ErrInvalidPublisher = Sentinel ''githubpublish: publisher is invalid''"
definition ErrInvalidSnapshot where "ErrInvalidSnapshot = Sentinel ''githubpublish: snapshot is invalid''"
definition ErrUnsafeTarget where "ErrUnsafeTarget = Sentinel ''githubpublish: publication target is unsafe''"
definition ErrRedirect where "ErrRedirect = Sentinel ''githubpublish: authenticated redirect rejected''"
definition ErrInvalidGitHubResponse where "ErrInvalidGitHubResponse = Sentinel ''githubpublish: GitHub response is invalid''"
definition ErrGitHubResponseTooLarge where "ErrGitHubResponseTooLarge = Sentinel ''githubpublish: GitHub response is too large''"
definition ErrPublicationConflict where "ErrPublicationConflict = Sentinel ''githubpublish: publication conflict''"

section \<open>Configuration\<close>

record publish_config =
  gc_Owner :: string
  gc_Repository :: string
  gc_Branch :: string

record publish_result =
  pr_Changed :: bool
  pr_CommitSHA :: string

definition hasControlCharacter :: "string \<Rightarrow> bool" where
  "hasControlCharacter value1 = list_ex (\<lambda>c. byte_of c < 0x20 \<or> byte_of c = 0x7F) value1"

definition validPathComponent :: "string \<Rightarrow> bool" where
  "validPathComponent value1 \<longleftrightarrow>
     value1 \<noteq> [] \<and> TrimSpace value1 = value1 \<and> value1 \<noteq> ''.'' \<and> value1 \<noteq> ''..'' \<and>
     \<not> ContainsAny value1 [CHR ''/'', CHR 0x5C] \<and> \<not> hasControlCharacter value1"

definition validBranch :: "string \<Rightarrow> bool" where
  "validBranch value1 \<longleftrightarrow> validPathComponent value1 \<and> \<not> sublist ''..'' value1 \<and> \<not> HasPrefix value1 ''refs/''"

definition validConfig :: "publish_config \<Rightarrow> bool" where
  "validConfig config \<longleftrightarrow>
     validPathComponent (gc_Owner config) \<and> validPathComponent (gc_Repository config) \<and> validBranch (gc_Branch config)"

definition validToken :: "string \<Rightarrow> bool" where
  "validToken token \<longleftrightarrow> token \<noteq> [] \<and> TrimSpace token = token \<and> \<not> hasControlCharacter token"

text \<open>The publisher; its client uses no proxy, has one timeout and refuses redirects (below).\<close>

record publisher =
  gp_config :: publish_config
  gp_token :: string
  gp_apiBase :: "url option"
  gp_timeout :: "duration option"

definition newPublisher :: "host_lib \<Rightarrow> publish_config \<Rightarrow> string \<Rightarrow> string \<Rightarrow> go_error + publisher" where
  "newPublisher lib config token apiBaseValue =
     (if \<not> validConfig config then Inl ErrInvalidConfig
      else if \<not> validToken token then Inl ErrInvalidToken
      else (case url_Parse lib apiBaseValue of
              Inl _ \<Rightarrow> Inl ErrInvalidConfig
            | Inr apiBase \<Rightarrow>
                if (u_Scheme apiBase \<noteq> ''https'' \<and> u_Scheme apiBase \<noteq> ''http'') \<or> u_Host apiBase = [] \<or> u_User apiBase \<noteq> None \<or>
                   u_RawQuery apiBase \<noteq> [] \<or> u_Fragment apiBase \<noteq> [] \<or> (u_Path apiBase \<noteq> [] \<and> u_Path apiBase \<noteq> ''/'')
                then Inl ErrInvalidConfig
                else Inr \<lparr>gp_config = config, gp_token = token, gp_apiBase = Some apiBase, gp_timeout = Some githubRequestTimeout\<rparr>))"

definition New :: "host_lib \<Rightarrow> publish_config \<Rightarrow> string \<Rightarrow> go_error + publisher" where
  "New lib config token = newPublisher lib config token githubAPIBase"

definition publisher_valid :: "publisher option \<Rightarrow> bool" where
  "publisher_valid publisher =
     (case publisher of
        None \<Rightarrow> False
      | Some pub \<Rightarrow> validConfig (gp_config pub) \<and> validToken (gp_token pub) \<and> gp_apiBase pub \<noteq> None \<and> gp_timeout pub \<noteq> None)"

section \<open>The snapshot\<close>

definition lowerHex :: "string \<Rightarrow> bool" where
  "lowerHex value1 \<longleftrightarrow> value1 \<noteq> [] \<and> list_all (\<lambda>c. \<not> ((byte_of c < 48 \<or> byte_of c > 57) \<and> (byte_of c < 97 \<or> byte_of c > 102))) value1"

definition validPublicationPath :: "string \<Rightarrow> bool" where
  "validPublicationPath p =
     (if p = ''registry.json'' then True
      else (let parts = Split p (CHR ''/'')
            in if length parts \<noteq> 3 \<or> parts ! 0 \<noteq> ''nodes'' \<or> length (parts ! 1) \<noteq> 2 \<or> \<not> lowerHex (parts ! 1) \<or>
                  \<not> HasSuffix (parts ! 2) ''.json''
               then False
               else (let hash = TrimSuffix (parts ! 2) ''.json''
                     in length hash = 64 \<and> lowerHex hash \<and> HasPrefix hash (parts ! 1))))"

text \<open>The loop of \<^verbatim>\<open>prepareSnapshot\<close>; the bytes of at most 4097 sizes below the limit is far from overflowing.\<close>

fun checkPublication :: "bool \<Rightarrow> int \<Rightarrow> string \<Rightarrow> snapshot_entry list \<Rightarrow> bool" where
  "checkPublication hasRegistry bytes previousPath [] = hasRegistry"
| "checkPublication hasRegistry bytes previousPath (f # files) =
     (if \<not> validPublicationPath (f_Path f) \<or> f_Path f = previousPath \<or> int (length (f_Data f)) > maxPublicationFileBytes then False
      else if bytes + int (length (f_Data f)) > maxPublicationTotalBytes then False
      else checkPublication (hasRegistry \<or> f_Path f = ''registry.json'') (bytes + int (length (f_Data f))) (f_Path f) files)"

definition prepareSnapshot :: "snapshot_entry list \<Rightarrow> go_error + snapshot_entry list" where
  "prepareSnapshot files =
     (if files = [] \<or> int (length files) > maxPublicationFiles then Inl ErrInvalidSnapshot
      else (let ordered = sort_key f_Path files
            in if checkPublication False 0 [] ordered then Inr ordered else Inl ErrInvalidSnapshot))"

section \<open>Requests\<close>

record github_request =
  gq_Method :: string
  gq_URL :: string
  gq_Header :: "(string \<times> string) list"
  gq_Body :: "string option"

record tree_entry =
  te_Path :: string
  te_Mode :: string
  te_Type :: string
  te_SHA :: string

record reference_response =
  fr_Ref :: string
  fr_Type :: string
  fr_SHA :: string

record commit_response =
  mr_SHA :: string
  mr_Tree :: string

record tree_response =
  lr_SHA :: string
  lr_Tree :: "tree_entry list"
  lr_Truncated :: bool

record blob_response =
  br_SHA :: string
  br_Content :: string
  br_Encoding :: string
  br_Size :: int

definition treeEntryJSON :: "tree_entry \<Rightarrow> json" where
  "treeEntryJSON e =
     JObject [(''path'', JText (te_Path e)), (''mode'', JText (te_Mode e)), (''type'', JText (te_Type e)), (''sha'', JText (te_SHA e))]"

definition createBlobRequest :: "string \<Rightarrow> json" where
  "createBlobRequest data = JObject [(''content'', JText (EncodeToString data)), (''encoding'', JText ''base64'')]"

definition createTreeRequest :: "tree_entry list \<Rightarrow> json" where
  "createTreeRequest entries = JObject [(''tree'', JArray (map treeEntryJSON entries))]"

definition createCommitRequest :: "string \<Rightarrow> string \<Rightarrow> json" where
  "createCommitRequest treeSHA parentSHA =
     JObject [(''message'', JText publicationCommitMessage), (''tree'', JText treeSHA), (''parents'', JArray [JText parentSHA])]"

definition updateReferenceRequest :: "string \<Rightarrow> json" where
  "updateReferenceRequest commitSHA = JObject [(''sha'', JText commitSHA), (''force'', JBool False)]"

text \<open>A failed request: a status GitHub should not have answered with, or any other error.\<close>

datatype request_error = StatusError string int | OtherError go_error

fun errorOf :: "request_error \<Rightarrow> go_error" where
  "errorOf (StatusError operation statusCode) =
     Sentinel (''githubpublish: '' @ operation @ '': GitHub returned HTTP '' @ FormatUint (nat statusCode))"
| "errorOf (OtherError err) = err"

fun isReferenceConflict :: "request_error \<Rightarrow> bool" where
  "isReferenceConflict (StatusError _ statusCode) = (statusCode = 409 \<or> statusCode = 422)"
| "isReferenceConflict (OtherError _) = False"

record 'w github =
  gh_NewRequest :: "string \<Rightarrow> string \<Rightarrow> go_error option"
  gh_RoundTrip :: "github_request \<Rightarrow> 'w \<Rightarrow> (go_error + response) \<times> 'w"
  gh_badLocation :: "string \<Rightarrow> go_error option"
  gh_reference :: "string \<Rightarrow> reference_response option"
  gh_commit :: "string \<Rightarrow> commit_response option"
  gh_tree :: "string \<Rightarrow> tree_response option"
  gh_blob :: "string \<Rightarrow> blob_response option"
  gh_object :: "string \<Rightarrow> string option"

text \<open>
  The client of \<^verbatim>\<open>newPublisher\<close>: an answer that redirects is an error, whatever its target (lines 156-165). The last two
  decoders give the only field the source reads.
\<close>

definition client_Do :: "'w github \<Rightarrow> github_request \<Rightarrow> 'w \<Rightarrow> (go_error + response) \<times> 'w" where
  "client_Do gh request w =
     (case gh_RoundTrip gh request w of
        (Inl err, w) \<Rightarrow> (Inl (Wrap (gq_URL request) [err]), w)
      | (Inr response, w) \<Rightarrow>
          (let location = r_Header response ''Location''
           in if r_StatusCode response \<in> {301, 302, 303, 307, 308} \<and> location \<noteq> []
              then (case gh_badLocation gh location of
                      Some err \<Rightarrow> (Inl (Wrap (gq_URL request) [err]), w)
                    | None \<Rightarrow> (Inl (Wrap (gq_URL request) [ErrRedirect]), w))
              else (Inr response, w)))"

definition repositoryPath :: "publisher \<Rightarrow> string" where
  "repositoryPath pub = ''/repos/'' @ PathEscape (gc_Owner (gp_config pub)) @ ''/'' @ PathEscape (gc_Repository (gp_config pub))"

definition endpoint :: "publisher \<Rightarrow> string \<Rightarrow> url" where
  "endpoint pub p =
     (let base = the (gp_apiBase pub)
      in base\<lparr>u_Path := rev (dropWhile (\<lambda>c. c = CHR ''/'') (rev (u_Path base))) @ p, u_RawPath := [], u_RawQuery := [], u_Fragment := []\<rparr>)"

definition endpointText :: "url \<Rightarrow> string" where
  "endpointText u = u_Scheme u @ ''://'' @ escapeHost (u_Host u) @ EscapedPath u"

definition githubRequest :: "publisher \<Rightarrow> string \<Rightarrow> string \<Rightarrow> string option \<Rightarrow> github_request" where
  "githubRequest pub verb p body =
     \<lparr>gq_Method = verb, gq_URL = endpointText (endpoint pub p),
      gq_Header =
        [(''Accept'', githubAccept), (''Authorization'', ''Bearer '' @ gp_token pub), (''X-GitHub-Api-Version'', githubAPIVersion),
         (''User-Agent'', githubUserAgent)] @ (if body \<noteq> None then [(''Content-Type'', ''application/json'')] else []),
      gq_Body = body\<rparr>"

text \<open>What the source makes of an answer: its value, if it has the expected status and can be read and decoded.\<close>

definition readAnswer :: "string \<Rightarrow> int \<Rightarrow> (string \<Rightarrow> 'a option) \<Rightarrow> response \<Rightarrow> request_error + 'a" where
  "readAnswer operation expectedStatus decode response =
     (if r_StatusCode response \<noteq> expectedStatus then Inl (StatusError operation (r_StatusCode response))
      else (case ReadAll_limited (case r_Body response of Some b \<Rightarrow> b | None \<Rightarrow> Body [] None) (nat (maxGitHubResponseBytes + 1)) of
              Inl err \<Rightarrow> Inl (OtherError (Wrap (''githubpublish: '' @ operation @ '': read response'') [err]))
            | Inr responseBody \<Rightarrow>
                if int (length responseBody) > maxGitHubResponseBytes then Inl (OtherError (Wrap operation [ErrGitHubResponseTooLarge]))
                else (case decode responseBody of
                        None \<Rightarrow> Inl (OtherError (Wrap operation [ErrInvalidGitHubResponse]))
                      | Some output \<Rightarrow> Inr output)))"

text \<open>The same without cutting the body, for evaluation.\<close>

lemma readAnswer_code [code]:
  "readAnswer operation expectedStatus decode response =
     (if r_StatusCode response \<noteq> expectedStatus then Inl (StatusError operation (r_StatusCode response))
      else (let b = (case r_Body response of Some b \<Rightarrow> b | None \<Rightarrow> Body [] None)
            in if int (length (body_bytes b)) > maxGitHubResponseBytes then Inl (OtherError (Wrap operation [ErrGitHubResponseTooLarge]))
               else (case body_error b of
                       Some err \<Rightarrow> Inl (OtherError (Wrap (''githubpublish: '' @ operation @ '': read response'') [err]))
                     | None \<Rightarrow>
                         (case decode (body_bytes b) of
                            None \<Rightarrow> Inl (OtherError (Wrap operation [ErrInvalidGitHubResponse])) | Some output \<Rightarrow> Inr output))))"
proof -
  have limit: "nat (maxGitHubResponseBytes + 1) \<le> length bytes \<longleftrightarrow> int (length bytes) > maxGitHubResponseBytes" for bytes :: string
    by (simp add: maxGitHubResponseBytes_def) linarith
  show ?thesis
  proof (cases "r_Body response")
    case None
    then show ?thesis by (auto simp: readAnswer_def Let_def ReadAll_limited_def limit maxGitHubResponseBytes_def)
  next
    case (Some b)
    then show ?thesis
      by (cases "int (length (body_bytes b)) > maxGitHubResponseBytes")
        (auto simp: readAnswer_def Let_def ReadAll_limited_def limit min_def maxGitHubResponseBytes_def split: option.splits)
  qed
qed

definition requestJSON ::
    "'w github \<Rightarrow> ('w \<Rightarrow> go_error option) \<Rightarrow> publisher \<Rightarrow> string \<Rightarrow> string \<Rightarrow> string \<Rightarrow> json option \<Rightarrow> int \<Rightarrow>
     (string \<Rightarrow> 'a option) \<Rightarrow> 'w \<Rightarrow> (request_error + 'a) \<times> 'w" where
  "requestJSON gh ctx_Err pub operation verb p input expectedStatus decode w =
     (case ctx_Err w of
        Some err \<Rightarrow> (Inl (OtherError err), w)
      | None \<Rightarrow>
          (case (case input of None \<Rightarrow> Some None | Some v \<Rightarrow> map_option Some (Marshal v)) of
             None \<Rightarrow> (Inl (OtherError (Sentinel (''githubpublish: '' @ operation @ '': encode request''))), w)
           | Some body \<Rightarrow>
               (let request = githubRequest pub verb p body
                in case gh_NewRequest gh verb (gq_URL request) of
                     Some err \<Rightarrow> (Inl (OtherError (Wrap (''githubpublish: '' @ operation @ '': create request'') [err])), w)
                   | None \<Rightarrow>
                       (case client_Do gh request w of
                          (Inl err, w) \<Rightarrow>
                            (case ctx_Err w of
                               Some ctxErr \<Rightarrow> (Inl (OtherError ctxErr), w)
                             | None \<Rightarrow> (Inl (OtherError (Wrap (''githubpublish: '' @ operation @ '': request failed'') [err])), w))
                        | (Inr response, w) \<Rightarrow> (readAnswer operation expectedStatus decode response, w)))))"

section \<open>The steps of a publication\<close>

definition headPath :: "publisher \<Rightarrow> string" where
  "headPath pub = repositoryPath pub @ ''/git/ref/heads/'' @ PathEscape (gc_Branch (gp_config pub))"

definition checkedHead :: "request_error + reference_response \<Rightarrow> request_error + string" where
  "checkedHead r =
     (case r of
        Inl err \<Rightarrow> Inl err
      | Inr response \<Rightarrow>
          if fr_Type response \<noteq> ''commit'' \<or> fr_SHA response = [] then Inl (OtherError ErrInvalidGitHubResponse) else Inr (fr_SHA response))"

definition currentHead :: "'w github \<Rightarrow> ('w \<Rightarrow> go_error option) \<Rightarrow> publisher \<Rightarrow> 'w \<Rightarrow> (request_error + string) \<times> 'w" where
  "currentHead gh ctx_Err pub w =
     apfst checkedHead (requestJSON gh ctx_Err pub ''get branch reference'' ''GET'' (headPath pub) None 200 (gh_reference gh) w)"

definition commitPath :: "publisher \<Rightarrow> string \<Rightarrow> string" where
  "commitPath pub commitSHA = repositoryPath pub @ ''/git/commits/'' @ PathEscape commitSHA"

definition checkedTree :: "request_error + commit_response \<Rightarrow> request_error + string" where
  "checkedTree r =
     (case r of
        Inl err \<Rightarrow> Inl err
      | Inr response \<Rightarrow> if mr_SHA response = [] \<or> mr_Tree response = [] then Inl (OtherError ErrInvalidGitHubResponse) else Inr (mr_Tree response))"

definition commitTree :: "'w github \<Rightarrow> ('w \<Rightarrow> go_error option) \<Rightarrow> publisher \<Rightarrow> string \<Rightarrow> 'w \<Rightarrow> (request_error + string) \<times> 'w" where
  "commitTree gh ctx_Err pub commitSHA w =
     apfst checkedTree (requestJSON gh ctx_Err pub ''get current commit'' ''GET'' (commitPath pub commitSHA) None 200 (gh_commit gh) w)"

fun findSentinel :: "string \<Rightarrow> tree_entry list \<Rightarrow> string option" where
  "findSentinel sentinelSHA [] = Some sentinelSHA"
| "findSentinel sentinelSHA (entry # entries) =
     (if te_Path entry \<noteq> sentinelPath then findSentinel sentinelSHA entries
      else if sentinelSHA \<noteq> [] \<or> te_Mode entry \<noteq> ''100644'' \<or> te_Type entry \<noteq> ''blob'' \<or> te_SHA entry = [] then None
      else findSentinel (te_SHA entry) entries)"

definition treePath :: "publisher \<Rightarrow> string \<Rightarrow> string" where
  "treePath pub treeSHA = repositoryPath pub @ ''/git/trees/'' @ PathEscape treeSHA"

definition listedSentinel :: "request_error + tree_response \<Rightarrow> request_error + string" where
  "listedSentinel r =
     (case r of
        Inl err \<Rightarrow> Inl err
      | Inr response \<Rightarrow>
          if lr_SHA response = [] \<or> lr_Truncated response then Inl (OtherError ErrUnsafeTarget)
          else (case findSentinel [] (lr_Tree response) of
                  None \<Rightarrow> Inl (OtherError ErrUnsafeTarget)
                | Some sentinelSHA \<Rightarrow> if sentinelSHA = [] then Inl (OtherError ErrUnsafeTarget) else Inr sentinelSHA))"

definition blobPath :: "publisher \<Rightarrow> string \<Rightarrow> string" where
  "blobPath pub blobSHA = repositoryPath pub @ ''/git/blobs/'' @ PathEscape blobSHA"

definition checkedSentinel :: "request_error + blob_response \<Rightarrow> request_error + unit" where
  "checkedSentinel r =
     (case r of
        Inl err \<Rightarrow> Inl err
      | Inr blob \<Rightarrow>
          if br_Encoding blob \<noteq> ''base64'' \<or> br_Size blob \<noteq> int (length sentinelContents) then Inl (OtherError ErrUnsafeTarget)
          else if DecodeString (br_Content blob) \<noteq> Some sentinelContents then Inl (OtherError ErrUnsafeTarget)
          else Inr ())"

definition verifySentinel :: "'w github \<Rightarrow> ('w \<Rightarrow> go_error option) \<Rightarrow> publisher \<Rightarrow> string \<Rightarrow> 'w \<Rightarrow> (request_error + string) \<times> 'w" where
  "verifySentinel gh ctx_Err pub treeSHA w =
     (case apfst listedSentinel (requestJSON gh ctx_Err pub ''get current root tree'' ''GET'' (treePath pub treeSHA) None 200 (gh_tree gh) w) of
        (Inl err, w) \<Rightarrow> (Inl err, w)
      | (Inr sentinelSHA, w) \<Rightarrow>
          (case apfst checkedSentinel
                  (requestJSON gh ctx_Err pub ''get publication sentinel'' ''GET'' (blobPath pub sentinelSHA) None 200 (gh_blob gh) w) of
             (Inl err, w) \<Rightarrow> (Inl err, w)
           | (Inr _, w) \<Rightarrow> (Inr sentinelSHA, w)))"

definition checkedObject :: "request_error + string \<Rightarrow> request_error + string" where
  "checkedObject r = (case r of Inl err \<Rightarrow> Inl err | Inr sha \<Rightarrow> if sha = [] then Inl (OtherError ErrInvalidGitHubResponse) else Inr sha)"

definition createBlob :: "'w github \<Rightarrow> ('w \<Rightarrow> go_error option) \<Rightarrow> publisher \<Rightarrow> string \<Rightarrow> 'w \<Rightarrow> (request_error + string) \<times> 'w" where
  "createBlob gh ctx_Err pub data w =
     apfst checkedObject
       (requestJSON gh ctx_Err pub ''create registry blob'' ''POST'' (repositoryPath pub @ ''/git/blobs'') (Some (createBlobRequest data)) 201
          (gh_object gh) w)"

definition createTree :: "'w github \<Rightarrow> ('w \<Rightarrow> go_error option) \<Rightarrow> publisher \<Rightarrow> tree_entry list \<Rightarrow> 'w \<Rightarrow> (request_error + string) \<times> 'w" where
  "createTree gh ctx_Err pub entries w =
     apfst checkedObject
       (requestJSON gh ctx_Err pub ''create exact registry tree'' ''POST'' (repositoryPath pub @ ''/git/trees'')
          (Some (createTreeRequest entries)) 201 (gh_object gh) w)"

definition createCommit ::
    "'w github \<Rightarrow> ('w \<Rightarrow> go_error option) \<Rightarrow> publisher \<Rightarrow> string \<Rightarrow> string \<Rightarrow> 'w \<Rightarrow> (request_error + string) \<times> 'w" where
  "createCommit gh ctx_Err pub treeSHA parentSHA w =
     apfst checkedObject
       (requestJSON gh ctx_Err pub ''create registry commit'' ''POST'' (repositoryPath pub @ ''/git/commits'')
          (Some (createCommitRequest treeSHA parentSHA)) 201 (gh_object gh) w)"

definition updatePath :: "publisher \<Rightarrow> string" where
  "updatePath pub = repositoryPath pub @ ''/git/refs/heads/'' @ PathEscape (gc_Branch (gp_config pub))"

definition checkedUpdate :: "string \<Rightarrow> request_error + reference_response \<Rightarrow> request_error + unit" where
  "checkedUpdate commitSHA r =
     (case r of
        Inl err \<Rightarrow> Inl err
      | Inr response \<Rightarrow>
          if fr_Type response \<noteq> ''commit'' \<or> fr_SHA response \<noteq> commitSHA then Inl (OtherError ErrInvalidGitHubResponse) else Inr ())"

definition updateReference :: "'w github \<Rightarrow> ('w \<Rightarrow> go_error option) \<Rightarrow> publisher \<Rightarrow> string \<Rightarrow> 'w \<Rightarrow> (request_error + unit) \<times> 'w" where
  "updateReference gh ctx_Err pub commitSHA w =
     apfst (checkedUpdate commitSHA)
       (requestJSON gh ctx_Err pub ''update publication reference'' ''PATCH'' (updatePath pub) (Some (updateReferenceRequest commitSHA)) 200
          (gh_reference gh) w)"

definition reconcileReferenceConflict ::
    "'w github \<Rightarrow> ('w \<Rightarrow> go_error option) \<Rightarrow> publisher \<Rightarrow> string \<Rightarrow> 'w \<Rightarrow> (go_error + publish_result) \<times> 'w" where
  "reconcileReferenceConflict gh ctx_Err pub desiredTreeSHA w =
     (case currentHead gh ctx_Err pub w of
        (Inl err, w) \<Rightarrow> (Inl (errorOf err), w)
      | (Inr currentHeadSHA, w) \<Rightarrow>
          (case commitTree gh ctx_Err pub currentHeadSHA w of
             (Inl err, w) \<Rightarrow> (Inl (errorOf err), w)
           | (Inr currentTreeSHA, w) \<Rightarrow>
               if currentTreeSHA \<noteq> desiredTreeSHA then (Inl ErrPublicationConflict, w)
               else (Inr \<lparr>pr_Changed = False, pr_CommitSHA = currentHeadSHA\<rparr>, w)))"

definition blobEntry :: "string \<Rightarrow> string \<Rightarrow> tree_entry" where
  "blobEntry p sha = \<lparr>te_Path = p, te_Mode = ''100644'', te_Type = ''blob'', te_SHA = sha\<rparr>"

fun createBlobs ::
    "'w github \<Rightarrow> ('w \<Rightarrow> go_error option) \<Rightarrow> publisher \<Rightarrow> tree_entry list \<Rightarrow> snapshot_entry list \<Rightarrow> 'w \<Rightarrow>
     (request_error + tree_entry list) \<times> 'w" where
  "createBlobs gh ctx_Err pub treeEntries [] w = (Inr treeEntries, w)"
| "createBlobs gh ctx_Err pub treeEntries (f # files) w =
     (case createBlob gh ctx_Err pub (f_Data f) w of
        (Inl err, w) \<Rightarrow> (Inl err, w)
      | (Inr blobSHA, w) \<Rightarrow> createBlobs gh ctx_Err pub (treeEntries @ [blobEntry (f_Path f) blobSHA]) files w)"

text \<open>The end of \<^verbatim>\<open>Publish\<close>: the tree, the commit and the reference (lines 248-293).\<close>

definition commitEntries ::
    "'w github \<Rightarrow> ('w \<Rightarrow> go_error option) \<Rightarrow> publisher \<Rightarrow> string \<Rightarrow> string \<Rightarrow> tree_entry list \<Rightarrow> 'w \<Rightarrow> (go_error + publish_result) \<times> 'w" where
  "commitEntries gh ctx_Err pub headSHA currentTreeSHA treeEntries w =
     (case createTree gh ctx_Err pub treeEntries w of
        (Inl err, w) \<Rightarrow> (Inl (errorOf err), w)
      | (Inr newTreeSHA, w) \<Rightarrow>
          if newTreeSHA = currentTreeSHA then (Inr \<lparr>pr_Changed = False, pr_CommitSHA = headSHA\<rparr>, w)
          else (case createCommit gh ctx_Err pub newTreeSHA headSHA w of
                  (Inl err, w) \<Rightarrow> (Inl (errorOf err), w)
                | (Inr commitSHA, w) \<Rightarrow>
                    (case updateReference gh ctx_Err pub commitSHA w of
                       (Inl updateErr, w) \<Rightarrow>
                         if \<not> isReferenceConflict updateErr then (Inl (errorOf updateErr), w)
                         else reconcileReferenceConflict gh ctx_Err pub newTreeSHA w
                     | (Inr _, w) \<Rightarrow> (Inr \<lparr>pr_Changed = True, pr_CommitSHA = commitSHA\<rparr>, w))))"

definition Publish ::
    "'w github \<Rightarrow> 'w go_context \<Rightarrow> publisher option \<Rightarrow> snapshot_entry list \<Rightarrow> 'w \<Rightarrow> (go_error + publish_result) \<times> 'w" where
  "Publish gh ctx publisher files w =
     (case ctx of
        None \<Rightarrow> (Inl Canceled, w)
      | Some ctx_Err \<Rightarrow>
          (case ctx_Err w of
             Some err \<Rightarrow> (Inl err, w)
           | None \<Rightarrow>
               if \<not> publisher_valid publisher then (Inl ErrInvalidPublisher, w)
               else (let pub = the publisher
                     in case prepareSnapshot files of
                          Inl err \<Rightarrow> (Inl err, w)
                        | Inr orderedFiles \<Rightarrow>
                            (case currentHead gh ctx_Err pub w of
                               (Inl err, w) \<Rightarrow> (Inl (errorOf err), w)
                             | (Inr headSHA, w) \<Rightarrow>
                                 (case commitTree gh ctx_Err pub headSHA w of
                                    (Inl err, w) \<Rightarrow> (Inl (errorOf err), w)
                                  | (Inr currentTreeSHA, w) \<Rightarrow>
                                      (case verifySentinel gh ctx_Err pub currentTreeSHA w of
                                         (Inl err, w) \<Rightarrow> (Inl (errorOf err), w)
                                       | (Inr sentinelSHA, w) \<Rightarrow>
                                           (case createBlobs gh ctx_Err pub [blobEntry sentinelPath sentinelSHA] orderedFiles w of
                                              (Inl err, w) \<Rightarrow> (Inl (errorOf err), w)
                                            | (Inr treeEntries, w) \<Rightarrow>
                                                commitEntries gh ctx_Err pub headSHA currentTreeSHA treeEntries w)))))))"


section \<open>What is published\<close>

lemma lowerHex_iff: "lowerHex v \<longleftrightarrow> v \<noteq> [] \<and> isLowerHex v"
  by (auto simp: lowerHex_def isLowerHex_def isLowerHexByte_def in_range_def list_all_iff)

text \<open>The reader and the publisher accept the same names.\<close>

lemma validPublicationPath_iff: "validPublicationPath p \<longleftrightarrow> validSnapshotPath p"
  by (auto simp: validPublicationPath_def validSnapshotPath_def lowerHex_iff Let_def)

lemma payloadBytes_nonneg: "0 \<le> totalBytes files"
  by (induction files) auto

lemma totalBytes_mset: "totalBytes files = (\<Sum>f\<in>#mset files. int (length (f_Data f)))"
  by (induction files) auto

lemma checkPublication_iff:
  assumes "sorted (previous # map f_Path files)" and "bytes \<le> maxPublicationTotalBytes"
  shows "checkPublication hasRegistry bytes previous files \<longleftrightarrow>
    list_all (\<lambda>f. validSnapshotPath (f_Path f) \<and> int (length (f_Data f)) \<le> maxPublicationFileBytes) files \<and>
    bytes + totalBytes files \<le> maxPublicationTotalBytes \<and> distinct (previous # map f_Path files) \<and>
    (hasRegistry \<or> ''registry.json'' \<in> f_Path ` set files)"
  using assms
proof (induction files arbitrary: hasRegistry bytes previous)
  case (Cons f files)
  let ?b = "bytes + int (length (f_Data f))" and ?h = "hasRegistry \<or> f_Path f = ''registry.json''"
  have sorted: "sorted (f_Path f # map f_Path files)" using Cons.prems(1) by simp
  show ?case
  proof (cases "?b \<le> maxPublicationTotalBytes \<and> f_Path f \<noteq> previous")
    case False
    then show ?thesis using payloadBytes_nonneg [of files] by auto
  next
    case True
    then have "previous < f_Path f" using Cons.prems(1) by (auto simp: less_le)
    then have new: "previous \<notin> f_Path ` set files" using sorted by auto
    have step: "checkPublication hasRegistry bytes previous (f # files) \<longleftrightarrow>
        validSnapshotPath (f_Path f) \<and> int (length (f_Data f)) \<le> maxPublicationFileBytes \<and> checkPublication ?h ?b (f_Path f) files"
      using True by (auto simp: validPublicationPath_iff)
    have "(?h \<or> ''registry.json'' \<in> f_Path ` set files) \<longleftrightarrow> (hasRegistry \<or> ''registry.json'' \<in> f_Path ` set (f # files))" by auto
    then show ?thesis
      unfolding step Cons.IH [OF sorted conjunct1 [OF True], of ?h] using True new by (simp add: add.assoc) blast
  qed
qed simp

lemma prepareSnapshot_iff:
  "prepareSnapshot files = Inr ordered \<longleftrightarrow>
     ordered = sort_key f_Path files \<and> int (length files) \<le> maxPublicationFiles \<and> distinct (map f_Path files) \<and>
     list_all (\<lambda>f. validSnapshotPath (f_Path f) \<and> int (length (f_Data f)) \<le> maxPublicationFileBytes) files \<and>
     totalBytes files \<le> maxPublicationTotalBytes \<and> ''registry.json'' \<in> f_Path ` set files"
proof -
  let ?o = "sort_key f_Path files"
  have perm: "mset (map f_Path ?o) = mset (map f_Path files)" by (simp only: mset_map mset_sort)
  have d: "distinct (map f_Path ?o) = distinct (map f_Path files)" using mset_eq_imp_distinct_iff [OF perm] .
  have t: "totalBytes ?o = totalBytes files"
    unfolding totalBytes_mset by (simp only: mset_sort)
  have ne: "[] \<notin> f_Path ` set files" if "list_all (\<lambda>f. validSnapshotPath (f_Path f) \<and> int (length (f_Data f)) \<le> maxPublicationFileBytes) files"
    using that by (auto simp: list_all_iff validSnapshotPath_def Let_def)
  have le: "sorted ([] # map f_Path ?o)" by simp
  have "(0::int) \<le> maxPublicationTotalBytes" by (simp add: maxPublicationTotalBytes_def)
  from checkPublication_iff [OF le this, of False] have check: "checkPublication False 0 [] ?o \<longleftrightarrow>
      list_all (\<lambda>f. validSnapshotPath (f_Path f) \<and> int (length (f_Data f)) \<le> maxPublicationFileBytes) files \<and>
      totalBytes files \<le> maxPublicationTotalBytes \<and> distinct (map f_Path files) \<and> ''registry.json'' \<in> f_Path ` set files"
    using ne by (simp add: d t list_all_iff) blast
  show ?thesis unfolding prepareSnapshot_def Let_def check by auto
qed


section \<open>The protocol of a publication\<close>

text \<open>The client with a record of what it sent and what came back.\<close>

type_synonym exchange = "github_request \<times> (go_error + response)"

definition recording :: "'w github \<Rightarrow> ('w \<times> exchange list) github" where
  "recording gh =
     \<lparr>gh_NewRequest = gh_NewRequest gh,
      gh_RoundTrip = (\<lambda>request (w, past). case gh_RoundTrip gh request w of (answer, w) \<Rightarrow> (answer, (w, past @ [(request, answer)]))),
      gh_badLocation = gh_badLocation gh, gh_reference = gh_reference gh, gh_commit = gh_commit gh, gh_tree = gh_tree gh,
      gh_blob = gh_blob gh, gh_object = gh_object gh\<rparr>"

lemma recording_simps [simp]:
  "gh_NewRequest (recording gh) = gh_NewRequest gh" "gh_badLocation (recording gh) = gh_badLocation gh"
  "gh_reference (recording gh) = gh_reference gh" "gh_commit (recording gh) = gh_commit gh" "gh_tree (recording gh) = gh_tree gh"
  "gh_blob (recording gh) = gh_blob gh" "gh_object (recording gh) = gh_object gh"
  by (simp_all add: recording_def)

text \<open>What an answer means to the source.\<close>

definition answerOf :: "int \<Rightarrow> (string \<Rightarrow> 'a option) \<Rightarrow> go_error + response \<Rightarrow> request_error + 'a" where
  "answerOf expectedStatus decode answer =
     (case answer of
        Inl err \<Rightarrow> Inl (OtherError err)
      | Inr response \<Rightarrow>
          if r_StatusCode response \<in> {301, 302, 303, 307, 308} \<and> r_Header response ''Location'' \<noteq> [] then Inl (OtherError ErrRedirect)
          else readAnswer [] expectedStatus decode response)"

text \<open>Equal up to the texts of errors.\<close>

fun agree :: "request_error + 'a \<Rightarrow> request_error + 'a \<Rightarrow> bool" where
  "agree (Inr a) (Inr b) = (a = b)"
| "agree (Inl (StatusError _ m)) (Inl (StatusError _ n)) = (m = n)"
| "agree (Inl (OtherError _)) (Inl (OtherError _)) = True"
| "agree _ _ = False"

lemma agree_simps [simp]:
  "agree (Inr a) y \<longleftrightarrow> y = Inr a" "agree x (Inr b) \<longleftrightarrow> x = Inr b"
  by (cases y; simp; metis agree.simps request_error.exhaust) (cases x; simp; metis agree.simps request_error.exhaust)

lemma readAnswer_agree: "agree (readAnswer operation status decode response) (readAnswer [] status decode response)"
  by (auto simp: readAnswer_def split: sum.splits option.splits)

definition sends ::
    "publisher \<Rightarrow> string \<Rightarrow> string \<Rightarrow> json option \<Rightarrow> int \<Rightarrow> (string \<Rightarrow> 'a option) \<Rightarrow> request_error + 'a \<Rightarrow> exchange list \<Rightarrow> exchange list \<Rightarrow> bool" where
  "sends pub verb p input status decode r past past' \<longleftrightarrow>
     past' = past \<and> (\<exists>err. r = Inl (OtherError err)) \<or>
     (\<exists>body answer. (case input of None \<Rightarrow> Some None | Some v \<Rightarrow> map_option Some (Marshal v)) = Some body \<and>
        past' = past @ [(githubRequest pub verb p body, answer)] \<and> agree r (answerOf status decode answer))"

lemma requestJSON_sends:
  assumes "requestJSON (recording gh) ctx_Err pub operation verb p input status decode (w, past) = (r, (w', past'))"
  shows "sends pub verb p input status decode r past past'"
proof -
  define answer w1 where "answer = (\<lambda>q. fst (gh_RoundTrip gh q w))" "w1 = (\<lambda>q. snd (gh_RoundTrip gh q w))"
  then have t: "gh_RoundTrip gh q w = (answer q, w1 q)" for q by simp
  have d: "client_Do (recording gh) q (w, past) =
      (case answer q of Inl err \<Rightarrow> Inl (Wrap (gq_URL q) [err])
       | Inr response \<Rightarrow> if r_StatusCode response \<in> {301, 302, 303, 307, 308} \<and> r_Header response ''Location'' \<noteq> []
           then (case gh_badLocation gh (r_Header response ''Location'') of Some err \<Rightarrow> Inl (Wrap (gq_URL q) [err]) | None \<Rightarrow> Inl (Wrap (gq_URL q) [ErrRedirect]))
           else Inr response, (w1 q, past @ [(q, answer q)]))" for q
    by (auto simp: client_Do_def recording_def Let_def t split: sum.splits option.splits)
  let ?input = "case input of None \<Rightarrow> Some None | Some v \<Rightarrow> map_option Some (Marshal v)"
  show ?thesis
  proof (cases "ctx_Err (w, past) = None \<and> (\<exists>body. ?input = Some body \<and> gh_NewRequest gh verb (gq_URL (githubRequest pub verb p body)) = None)")
    case False
    then have "past' = past \<and> (\<exists>err. r = Inl (OtherError err))"
      using assms by (auto simp: requestJSON_def Let_def split: option.splits)
    then show ?thesis by (simp add: sends_def)
  next
    case True
    then obtain body where body: "?input = Some body" "gh_NewRequest gh verb (gq_URL (githubRequest pub verb p body)) = None" by blast
    let ?q = "githubRequest pub verb p body"
    have sent: "(r, (w', past')) = (case client_Do (recording gh) ?q (w, past) of
        (Inl err, w) \<Rightarrow> (case ctx_Err w of Some ctxErr \<Rightarrow> (Inl (OtherError ctxErr), w)
                          | None \<Rightarrow> (Inl (OtherError (Wrap (''githubpublish: '' @ operation @ '': request failed'') [err])), w))
      | (Inr response, w) \<Rightarrow> (readAnswer operation status decode response, w))"
      using assms True body unfolding requestJSON_def Let_def by simp
    have "agree r (answerOf status decode (answer ?q)) \<and> past' = past @ [(?q, answer ?q)]"
    proof (cases "answer ?q")
      case (Inl err)
      with sent d [of ?q] show ?thesis by (auto simp: answerOf_def split: option.splits)
    next
      case (Inr response)
      show ?thesis
      proof (cases "r_StatusCode response \<in> {301, 302, 303, 307, 308} \<and> r_Header response ''Location'' \<noteq> []")
        case redirected: True
        with Inr have a: "answerOf status decode (answer ?q) = Inl (OtherError ErrRedirect)" by (simp only: answerOf_def sum.case if_True simp_thms)
        obtain err where "client_Do (recording gh) ?q (w, past) = (Inl err, (w1 ?q, past @ [(?q, answer ?q)]))"
          using d [of ?q] Inr redirected by (cases "gh_badLocation gh (r_Header response ''Location'')") auto
        with sent a show ?thesis by (auto split: option.splits)
      next
        case direct: False
        with Inr have a: "answerOf status decode (answer ?q) = readAnswer [] status decode response" by (simp only: answerOf_def sum.case if_False simp_thms)
        have "client_Do (recording gh) ?q (w, past) = (Inr response, (w1 ?q, past @ [(?q, answer ?q)]))"
          unfolding d [of ?q] using Inr direct by (simp only: sum.case if_False)
        with sent have "r = readAnswer operation status decode response" "past' = past @ [(?q, answer ?q)]" by simp_all
        with a readAnswer_agree show ?thesis by metis
      qed
    qed
    with body(1) show ?thesis unfolding sends_def by blast
  qed
qed


text \<open>
  The phases of a publication, with what was learned: the head of the branch, its tree, the sentinel and the blobs made so far; then
  the tree that was built, its commit, and the end, directly or through a conflict.
\<close>

datatype publication =
    Unread
  | HeadRead string
  | TreeRead string string
  | SentinelListed string string string
  | SentinelVerified string string string "string list"
  | TreeBuilt string string string
  | CommitBuilt string string
  | Advanced string
  | Conflicted string
  | HeadReread string string
  | TreeReread string string string
  | Broken

definition getRequest :: "publisher \<Rightarrow> string \<Rightarrow> github_request" where
  "getRequest pub p = githubRequest pub ''GET'' p None"

definition postRequest :: "publisher \<Rightarrow> string \<Rightarrow> string \<Rightarrow> json \<Rightarrow> github_request" where
  "postRequest pub verb p v = githubRequest pub verb p (Some (the (Marshal v)))"

definition exactEntries :: "snapshot_entry list \<Rightarrow> string \<Rightarrow> string list \<Rightarrow> tree_entry list" where
  "exactEntries files sentinelSHA shas = blobEntry sentinelPath sentinelSHA # map2 (\<lambda>f sha. blobEntry (f_Path f) sha) files shas"

text \<open>The exchange that may come next, and the phase its answer leads to.\<close>

definition onAnswer :: "('a \<Rightarrow> publication) \<Rightarrow> request_error + 'a \<Rightarrow> publication" where
  "onAnswer proceed r = (case r of Inr a \<Rightarrow> proceed a | Inl _ \<Rightarrow> Broken)"

fun advance :: "'w github \<Rightarrow> publisher \<Rightarrow> snapshot_entry list \<Rightarrow> publication \<Rightarrow> exchange \<Rightarrow> publication option" where
  "advance gh pub files Unread (q, a) =
     (if q = getRequest pub (headPath pub) then Some (onAnswer HeadRead (checkedHead (answerOf 200 (gh_reference gh) a))) else None)"
| "advance gh pub files (HeadRead h) (q, a) =
     (if q = getRequest pub (commitPath pub h) then Some (onAnswer (TreeRead h) (checkedTree (answerOf 200 (gh_commit gh) a))) else None)"
| "advance gh pub files (TreeRead h t) (q, a) =
     (if q = getRequest pub (treePath pub t) then Some (onAnswer (SentinelListed h t) (listedSentinel (answerOf 200 (gh_tree gh) a))) else None)"
| "advance gh pub files (SentinelListed h t s) (q, a) =
     (if q = getRequest pub (blobPath pub s)
      then Some (onAnswer (\<lambda>_. SentinelVerified h t s []) (checkedSentinel (answerOf 200 (gh_blob gh) a))) else None)"
| "advance gh pub files (SentinelVerified h t s shas) (q, a) =
     (if length shas < length files
      then (if q = postRequest pub ''POST'' (repositoryPath pub @ ''/git/blobs'') (createBlobRequest (f_Data (files ! length shas)))
            then Some (onAnswer (\<lambda>sha. SentinelVerified h t s (shas @ [sha])) (checkedObject (answerOf 201 (gh_object gh) a))) else None)
      else (if q = postRequest pub ''POST'' (repositoryPath pub @ ''/git/trees'') (createTreeRequest (exactEntries files s shas))
            then Some (onAnswer (TreeBuilt h t) (checkedObject (answerOf 201 (gh_object gh) a))) else None))"
| "advance gh pub files (TreeBuilt h t t') (q, a) =
     (if t' \<noteq> t \<and> q = postRequest pub ''POST'' (repositoryPath pub @ ''/git/commits'') (createCommitRequest t' h)
      then Some (onAnswer (CommitBuilt t') (checkedObject (answerOf 201 (gh_object gh) a))) else None)"
| "advance gh pub files (CommitBuilt t' c) (q, a) =
     (if q = postRequest pub ''PATCH'' (updatePath pub) (updateReferenceRequest c)
      then Some (case checkedUpdate c (answerOf 200 (gh_reference gh) a) of
                   Inr _ \<Rightarrow> Advanced c | Inl err \<Rightarrow> if isReferenceConflict err then Conflicted t' else Broken) else None)"
| "advance gh pub files (Conflicted t') (q, a) =
     (if q = getRequest pub (headPath pub) then Some (onAnswer (HeadReread t') (checkedHead (answerOf 200 (gh_reference gh) a))) else None)"
| "advance gh pub files (HeadReread t' h) (q, a) =
     (if q = getRequest pub (commitPath pub h) then Some (onAnswer (TreeReread t' h) (checkedTree (answerOf 200 (gh_commit gh) a))) else None)"
| "advance gh pub files _ _ = None"

definition protocol :: "'w github \<Rightarrow> publisher \<Rightarrow> snapshot_entry list \<Rightarrow> exchange list \<Rightarrow> publication option" where
  "protocol gh pub files exchanges =
     foldl (\<lambda>phase x. case phase of None \<Rightarrow> None | Some ph \<Rightarrow> advance gh pub files ph x) (Some Unread) exchanges"

fun publishedResult :: "publication \<Rightarrow> publish_result option" where
  "publishedResult (TreeBuilt h t t') = (if t' = t then Some \<lparr>pr_Changed = False, pr_CommitSHA = h\<rparr> else None)"
| "publishedResult (Advanced c) = Some \<lparr>pr_Changed = True, pr_CommitSHA = c\<rparr>"
| "publishedResult (TreeReread t' h t) = (if t = t' then Some \<lparr>pr_Changed = False, pr_CommitSHA = h\<rparr> else None)"
| "publishedResult _ = None"

lemma protocol_snoc: "protocol gh pub files (xs @ [x]) = (case protocol gh pub files xs of None \<Rightarrow> None | Some ph \<Rightarrow> advance gh pub files ph x)"
  by (simp add: protocol_def)

text \<open>
  \<open>reaches\<close>: after a step of the source the record is accepted, in the phase its value leads to, or the step failed and left the
  record where it was or broken.
\<close>

definition reaches :: "'w github \<Rightarrow> publisher \<Rightarrow> snapshot_entry list \<Rightarrow> (request_error + 'a) \<Rightarrow> ('a \<Rightarrow> publication) \<Rightarrow> exchange list \<Rightarrow> bool" where
  "reaches gh pub files r proceed past \<longleftrightarrow>
     (case r of
        Inr a \<Rightarrow> protocol gh pub files past = Some (proceed a)
      | Inl _ \<Rightarrow> \<exists>ph. protocol gh pub files past = Some ph \<and> publishedResult ph = None)"

text \<open>A step that sends one request, the next of the protocol.\<close>

lemma step_reaches:
  assumes "sends pub verb p input status decode r past past'"
    and "protocol gh pub files past = Some ph" and "publishedResult ph = None"
    and "\<And>body a. (case input of None \<Rightarrow> Some None | Some v \<Rightarrow> map_option Some (Marshal v)) = Some body \<Longrightarrow>
           advance gh pub files ph (githubRequest pub verb p body, a) = Some (onAnswer proceed (check (answerOf status decode a)))"
    and "\<And>err. check (Inl err) = Inl err"
  shows "reaches gh pub files (check r) proceed past'"
proof (cases "past' = past \<and> (\<exists>err. r = Inl (OtherError err))")
  case True
  with assms(2,3,5) show ?thesis by (auto simp: reaches_def)
next
  case False
  with assms(1) obtain body a where b: "(case input of None \<Rightarrow> Some None | Some v \<Rightarrow> map_option Some (Marshal v)) = Some body"
    and p: "past' = past @ [(githubRequest pub verb p body, a)]" "agree r (answerOf status decode a)"
    unfolding sends_def by blast
  have next_ph: "protocol gh pub files past' = Some (onAnswer proceed (check (answerOf status decode a)))"
    using p(1) assms(2) assms(4) [OF b] by (simp add: protocol_snoc)
  show ?thesis
  proof (cases r)
    case (Inr v)
    with p(2) have "answerOf status decode a = r" by simp
    with next_ph show ?thesis by (auto simp: reaches_def onAnswer_def split: sum.splits)
  next
    case (Inl err)
    with p(2) obtain err' where "answerOf status decode a = Inl err'" by (cases "answerOf status decode a") auto
    with next_ph Inl assms(5) show ?thesis by (simp add: reaches_def onAnswer_def)
  qed
qed


lemma requestJSON_pair:
  assumes "apfst check (requestJSON (recording gh) ctx_Err pub operation verb p input status decode (w, past)) = (r, (w', past'))"
  obtains r0 where "requestJSON (recording gh) ctx_Err pub operation verb p input status decode (w, past) = (r0, (w', past'))" "r = check r0"
  using assms by (cases "requestJSON (recording gh) ctx_Err pub operation verb p input status decode (w, past)") auto

lemma checks_errors:
  "checkedHead (Inl err) = Inl err" "checkedTree (Inl err) = Inl err" "listedSentinel (Inl err) = Inl err" "checkedSentinel (Inl err) = Inl err"
  "checkedObject (Inl err) = Inl err" "checkedUpdate c (Inl err) = Inl err"
  by (simp_all add: checkedHead_def checkedTree_def listedSentinel_def checkedSentinel_def checkedObject_def checkedUpdate_def)

lemma currentHead_reaches:
  assumes "currentHead (recording gh) ctx_Err pub (w, past) = (r, (w', past'))" and "protocol gh pub files past = Some ph"
    and "ph = Unread \<and> proceed = HeadRead \<or> (\<exists>t. ph = Conflicted t \<and> proceed = HeadReread t)"
  shows "reaches gh pub files r proceed past'"
proof -
  from assms(1) [unfolded currentHead_def] obtain r0
    where q: "requestJSON (recording gh) ctx_Err pub ''get branch reference'' ''GET'' (headPath pub) None 200 (gh_reference (recording gh)) (w, past) = (r0, (w', past'))"
      and r: "r = checkedHead r0" by (rule requestJSON_pair)
  from step_reaches [OF requestJSON_sends [OF q] assms(2), of proceed checkedHead] assms(3) show ?thesis
    unfolding r by (auto simp: checks_errors getRequest_def)
qed

lemma commitTree_reaches:
  assumes "commitTree (recording gh) ctx_Err pub h (w, past) = (r, (w', past'))" and "protocol gh pub files past = Some ph"
    and "ph = HeadRead h \<and> proceed = TreeRead h \<or> (\<exists>t. ph = HeadReread t h \<and> proceed = TreeReread t h)"
  shows "reaches gh pub files r proceed past'"
proof -
  from assms(1) [unfolded commitTree_def] obtain r0
    where q: "requestJSON (recording gh) ctx_Err pub ''get current commit'' ''GET'' (commitPath pub h) None 200 (gh_commit (recording gh)) (w, past) = (r0, (w', past'))"
      and r: "r = checkedTree r0" by (rule requestJSON_pair)
  from step_reaches [OF requestJSON_sends [OF q] assms(2), of proceed checkedTree] assms(3) show ?thesis
    unfolding r by (auto simp: checks_errors getRequest_def)
qed

lemma verifySentinel_reaches:
  assumes "verifySentinel (recording gh) ctx_Err pub t (w, past) = (r, (w', past'))" and "protocol gh pub files past = Some (TreeRead h t)"
  shows "reaches gh pub files r (\<lambda>s. SentinelVerified h t s []) past'"
proof -
  obtain r1 w1 past1 where l: "apfst listedSentinel (requestJSON (recording gh) ctx_Err pub ''get current root tree'' ''GET'' (treePath pub t) None 200
      (gh_tree (recording gh)) (w, past)) = (r1, (w1, past1))" by (metis prod.collapse)
  from l obtain r0 where q: "requestJSON (recording gh) ctx_Err pub ''get current root tree'' ''GET'' (treePath pub t) None 200
      (gh_tree (recording gh)) (w, past) = (r0, (w1, past1))" and r1: "r1 = listedSentinel r0" by (rule requestJSON_pair)
  have s1: "reaches gh pub files r1 (SentinelListed h t) past1"
    unfolding r1 by (rule step_reaches [OF requestJSON_sends [OF q] assms(2)]) (auto simp: checks_errors getRequest_def)
  show ?thesis
  proof (cases r1)
    case (Inl err)
    with assms(1) l s1 show ?thesis by (auto simp: verifySentinel_def reaches_def)
  next
    case (Inr s)
    obtain r2 w2 past2 where b: "apfst checkedSentinel (requestJSON (recording gh) ctx_Err pub ''get publication sentinel'' ''GET'' (blobPath pub s) None 200
        (gh_blob (recording gh)) (w1, past1)) = (r2, (w2, past2))" by (metis prod.collapse)
    from b obtain r0' where q2: "requestJSON (recording gh) ctx_Err pub ''get publication sentinel'' ''GET'' (blobPath pub s) None 200
        (gh_blob (recording gh)) (w1, past1) = (r0', (w2, past2))" and r2: "r2 = checkedSentinel r0'" by (rule requestJSON_pair)
    have p1: "protocol gh pub files past1 = Some (SentinelListed h t s)" using s1 Inr by (simp add: reaches_def)
    have "reaches gh pub files r2 (\<lambda>_. SentinelVerified h t s []) past2"
      unfolding r2 by (rule step_reaches [OF requestJSON_sends [OF q2] p1]) (auto simp: checks_errors getRequest_def)
    with assms(1) l b Inr show ?thesis by (auto simp: verifySentinel_def reaches_def split: sum.splits)
  qed
qed

lemma exactEntries_snoc:
  "length xs = length shas \<Longrightarrow> exactEntries (xs @ [f]) s (shas @ [sha]) = exactEntries xs s shas @ [blobEntry (f_Path f) sha]"
  by (simp add: exactEntries_def)

lemma createBlobs_reaches:
  assumes "createBlobs (recording gh) ctx_Err pub entries rest (w, past) = (r, (w', past'))"
    and "protocol gh pub files past = Some (SentinelVerified h t s shas)" and "files = made @ rest" and "length shas = length made"
    and "entries = exactEntries made s shas"
  shows "case r of Inr entries' \<Rightarrow> \<exists>shas'. protocol gh pub files past' = Some (SentinelVerified h t s shas') \<and> length shas' = length files \<and>
             entries' = exactEntries files s shas'
         | Inl _ \<Rightarrow> \<exists>ph. protocol gh pub files past' = Some ph \<and> publishedResult ph = None"
  using assms
proof (induction rest arbitrary: entries w past shas made)
  case Nil
  then show ?case by auto
next
  case (Cons f rest)
  obtain r1 w1 past1 where b: "createBlob (recording gh) ctx_Err pub (f_Data f) (w, past) = (r1, (w1, past1))" by (metis prod.collapse)
  from b [unfolded createBlob_def] obtain r0
    where q: "requestJSON (recording gh) ctx_Err pub ''create registry blob'' ''POST'' (repositoryPath pub @ ''/git/blobs'')
        (Some (createBlobRequest (f_Data f))) 201 (gh_object (recording gh)) (w, past) = (r0, (w1, past1))"
      and r1: "r1 = checkedObject r0" by (rule requestJSON_pair)
  have at: "files ! length shas = f" "length shas < length files" using Cons.prems(3,4) by simp_all
  have s1: "reaches gh pub files r1 (\<lambda>sha. SentinelVerified h t s (shas @ [sha])) past1"
    unfolding r1 by (rule step_reaches [OF requestJSON_sends [OF q] Cons.prems(2)]) (use at in \<open>auto simp: checks_errors postRequest_def\<close>)
  show ?case
  proof (cases r1)
    case (Inl err)
    with Cons.prems(1) b s1 show ?thesis by (auto simp: reaches_def)
  next
    case (Inr sha)
    have p1: "protocol gh pub files past1 = Some (SentinelVerified h t s (shas @ [sha]))" using s1 Inr by (simp add: reaches_def)
    have "createBlobs (recording gh) ctx_Err pub (entries @ [blobEntry (f_Path f) sha]) rest (w1, past1) = (r, (w', past'))"
      using Cons.prems(1) b Inr by simp
    from Cons.IH [OF this p1, of "made @ [f]"] show ?thesis
      using Cons.prems(3-5) exactEntries_snoc [of made shas f s sha] by simp
  qed
qed

lemma agree_conflict: "agree (Inl err) (Inl err') \<Longrightarrow> isReferenceConflict err = isReferenceConflict err'"
  by (cases err; cases err') auto


lemma updateReference_reaches:
  assumes "updateReference (recording gh) ctx_Err pub c (w, past) = (r, (w', past'))" and "protocol gh pub files past = Some (CommitBuilt t' c)"
  shows "case r of Inr _ \<Rightarrow> protocol gh pub files past' = Some (Advanced c)
    | Inl err \<Rightarrow> if isReferenceConflict err then protocol gh pub files past' = Some (Conflicted t')
                 else (\<exists>ph. protocol gh pub files past' = Some ph \<and> publishedResult ph = None)"
proof -
  from assms(1) [unfolded updateReference_def] obtain r0
    where q: "requestJSON (recording gh) ctx_Err pub ''update publication reference'' ''PATCH'' (updatePath pub) (Some (updateReferenceRequest c)) 200
        (gh_reference (recording gh)) (w, past) = (r0, (w', past'))"
      and r: "r = checkedUpdate c r0" by (rule requestJSON_pair)
  from requestJSON_sends [OF q] consider err where "past' = past" "r0 = Inl (OtherError err)"
    | a where "past' = past @ [(postRequest pub ''PATCH'' (updatePath pub) (updateReferenceRequest c), a)]"
        "agree r0 (answerOf 200 (gh_reference gh) a)"
    by (auto simp: sends_def postRequest_def)
  then show ?thesis
  proof cases
    case 1
    with assms(2) show ?thesis by (simp add: r checks_errors)
  next
    case 2
    have next_ph: "protocol gh pub files past' = Some (case checkedUpdate c (answerOf 200 (gh_reference gh) a) of
        Inr _ \<Rightarrow> Advanced c | Inl err \<Rightarrow> if isReferenceConflict err then Conflicted t' else Broken)"
      using assms(2) by (simp add: 2(1) protocol_snoc)
    show ?thesis
    proof (cases r0)
      case (Inr v)
      with 2(2) have "answerOf 200 (gh_reference gh) a = Inr v" by simp
      with next_ph Inr show ?thesis by (auto simp: r checkedUpdate_def)
    next
      case (Inl err)
      with 2(2) obtain err' where "answerOf 200 (gh_reference gh) a = Inl err'" "isReferenceConflict err = isReferenceConflict err'"
        using agree_conflict by (cases "answerOf 200 (gh_reference gh) a") auto
      with next_ph Inl show ?thesis by (simp add: r checks_errors)
    qed
  qed
qed

definition concludes :: "'w github \<Rightarrow> publisher \<Rightarrow> snapshot_entry list \<Rightarrow> go_error + publish_result \<Rightarrow> exchange list \<Rightarrow> bool" where
  "concludes gh pub files r exchanges \<longleftrightarrow>
     (\<exists>phase. protocol gh pub files exchanges = Some phase \<and> publishedResult phase = (case r of Inr result \<Rightarrow> Some result | Inl _ \<Rightarrow> None))"

lemma reaches_concludes: "reaches gh pub files (Inl err) proceed past \<Longrightarrow> concludes gh pub files (Inl err') past"
  by (simp add: reaches_def concludes_def)

lemma reconcile_concludes:
  assumes "reconcileReferenceConflict (recording gh) ctx_Err pub t' (w, past) = (r, (w', past'))" and "protocol gh pub files past = Some (Conflicted t')"
  shows "concludes gh pub files r past'"
proof -
  obtain r1 w1 past1 where h: "currentHead (recording gh) ctx_Err pub (w, past) = (r1, (w1, past1))" by (metis prod.collapse)
  have s1: "reaches gh pub files r1 (HeadReread t') past1" by (rule currentHead_reaches [OF h assms(2)]) simp
  show ?thesis
  proof (cases r1)
    case (Inl err)
    with assms(1) h s1 reaches_concludes show ?thesis by (auto simp: reconcileReferenceConflict_def)
  next
    case (Inr hd1)
    obtain r2 w2 past2 where c: "commitTree (recording gh) ctx_Err pub hd1 (w1, past1) = (r2, (w2, past2))" by (metis prod.collapse)
    have s2: "reaches gh pub files r2 (TreeReread t' hd1) past2"
      by (rule commitTree_reaches [OF c]) (use s1 Inr in \<open>auto simp: reaches_def\<close>)
    show ?thesis
    proof (cases r2)
      case (Inl err)
      with assms(1) h c s2 Inr reaches_concludes show ?thesis by (auto simp: reconcileReferenceConflict_def)
    next
      case tree: (Inr t)
      with assms(1) h c s2 Inr show ?thesis
        by (auto simp: reconcileReferenceConflict_def reaches_def concludes_def split: if_splits)
    qed
  qed
qed

lemma commitEntries_concludes:
  assumes "commitEntries (recording gh) ctx_Err pub h t entries (w, past) = (r, (w', past'))"
    and "protocol gh pub files past = Some (SentinelVerified h t s shas)" and "length shas = length files" and "entries = exactEntries files s shas"
  shows "concludes gh pub files r past'"
proof -
  obtain r1 w1 past1 where tr: "createTree (recording gh) ctx_Err pub entries (w, past) = (r1, (w1, past1))" by (metis prod.collapse)
  from tr [unfolded createTree_def] obtain r0
    where q: "requestJSON (recording gh) ctx_Err pub ''create exact registry tree'' ''POST'' (repositoryPath pub @ ''/git/trees'')
        (Some (createTreeRequest entries)) 201 (gh_object (recording gh)) (w, past) = (r0, (w1, past1))"
      and r1: "r1 = checkedObject r0" by (rule requestJSON_pair)
  have s1: "reaches gh pub files r1 (TreeBuilt h t) past1"
    unfolding r1 by (rule step_reaches [OF requestJSON_sends [OF q] assms(2)]) (use assms(3,4) in \<open>auto simp: checks_errors postRequest_def\<close>)
  show ?thesis
  proof (cases r1)
    case (Inl err)
    with assms(1) tr s1 reaches_concludes show ?thesis by (auto simp: commitEntries_def)
  next
    case (Inr t')
    then have p1: "protocol gh pub files past1 = Some (TreeBuilt h t t')" using s1 by (simp add: reaches_def)
    show ?thesis
    proof (cases "t' = t")
      case True
      with assms(1) tr Inr p1 show ?thesis by (auto simp: commitEntries_def concludes_def)
    next
      case new: False
      obtain r2 w2 past2 where c: "createCommit (recording gh) ctx_Err pub t' h (w1, past1) = (r2, (w2, past2))" by (metis prod.collapse)
      from c [unfolded createCommit_def] obtain r0'
        where q2: "requestJSON (recording gh) ctx_Err pub ''create registry commit'' ''POST'' (repositoryPath pub @ ''/git/commits'')
            (Some (createCommitRequest t' h)) 201 (gh_object (recording gh)) (w1, past1) = (r0', (w2, past2))"
          and r2: "r2 = checkedObject r0'" by (rule requestJSON_pair)
      have s2: "reaches gh pub files r2 (CommitBuilt t') past2"
        unfolding r2 by (rule step_reaches [OF requestJSON_sends [OF q2] p1]) (use new in \<open>auto simp: checks_errors postRequest_def\<close>)
      show ?thesis
      proof (cases r2)
        case (Inl err)
        with assms(1) tr c s2 Inr new reaches_concludes show ?thesis by (auto simp: commitEntries_def)
      next
        case commit: (Inr c')
        then have p2: "protocol gh pub files past2 = Some (CommitBuilt t' c')" using s2 by (simp add: reaches_def)
        obtain r3 w3 past3 where u: "updateReference (recording gh) ctx_Err pub c' (w2, past2) = (r3, (w3, past3))" by (metis prod.collapse)
        note s3 = updateReference_reaches [OF u p2]
        show ?thesis
        proof (cases "\<exists>err. r3 = Inl err \<and> isReferenceConflict err")
          case True
          then have "reconcileReferenceConflict (recording gh) ctx_Err pub t' (w3, past3) = (r, (w', past'))"
            using assms(1) tr c Inr new commit u by (auto simp: commitEntries_def)
          from reconcile_concludes [OF this] s3 True show ?thesis by auto
        next
          case False
          with assms(1) tr c Inr new commit u s3 show ?thesis
            by (auto simp: commitEntries_def concludes_def split: sum.splits)
        qed
      qed
    qed
  qed
qed

lemma Publish_concludes:
  assumes "Publish (recording gh) ctx (Some pub) files (w, []) = (r, (w', exchanges))"
  shows "concludes gh pub (sort_key f_Path files) r exchanges"
proof (cases "\<exists>ctx_Err. ctx = Some ctx_Err \<and> ctx_Err (w, []) = None \<and> publisher_valid (Some pub) \<and> prepareSnapshot files = Inr (sort_key f_Path files)")
  case False
  have "prepareSnapshot files = Inr (sort_key f_Path files) \<or> (\<exists>err. prepareSnapshot files = Inl err)"
    by (auto simp: prepareSnapshot_def Let_def)
  with False have "exchanges = [] \<and> (\<exists>err. r = Inl err)"
    using assms by (auto simp: Publish_def Let_def split: option.splits if_splits)
  then show ?thesis by (auto simp: concludes_def protocol_def)
next
  case True
  then obtain ctx_Err where ctx: "ctx = Some ctx_Err" "ctx_Err (w, []) = None" "publisher_valid (Some pub)"
    "prepareSnapshot files = Inr (sort_key f_Path files)" by blast
  let ?files = "sort_key f_Path files"
  obtain r1 w1 past1 where h: "currentHead (recording gh) ctx_Err pub (w, []) = (r1, (w1, past1))" by (metis prod.collapse)
  have s1: "reaches gh pub ?files r1 HeadRead past1" by (rule currentHead_reaches [OF h, where ph = Unread]) (simp_all add: protocol_def)
  show ?thesis
  proof (cases r1)
    case (Inl err)
    with assms ctx h s1 reaches_concludes show ?thesis by (auto simp: Publish_def)
  next
    case (Inr hd1)
    obtain r2 w2 past2 where c: "commitTree (recording gh) ctx_Err pub hd1 (w1, past1) = (r2, (w2, past2))" by (metis prod.collapse)
    have s2: "reaches gh pub ?files r2 (TreeRead hd1) past2" by (rule commitTree_reaches [OF c]) (use s1 Inr in \<open>auto simp: reaches_def\<close>)
    show ?thesis
    proof (cases r2)
      case (Inl err)
      with assms ctx h c Inr s2 reaches_concludes show ?thesis by (auto simp: Publish_def)
    next
      case tree: (Inr t)
      obtain r3 w3 past3 where v: "verifySentinel (recording gh) ctx_Err pub t (w2, past2) = (r3, (w3, past3))" by (metis prod.collapse)
      have s3: "reaches gh pub ?files r3 (\<lambda>s. SentinelVerified hd1 t s []) past3"
        by (rule verifySentinel_reaches [OF v]) (use s2 tree in \<open>auto simp: reaches_def\<close>)
      show ?thesis
      proof (cases r3)
        case (Inl err)
        with assms ctx h c Inr tree v s3 reaches_concludes show ?thesis by (auto simp: Publish_def)
      next
        case sentinel: (Inr s)
        obtain r4 w4 past4 where b: "createBlobs (recording gh) ctx_Err pub [blobEntry sentinelPath s] ?files (w3, past3) = (r4, (w4, past4))"
          by (metis prod.collapse)
        have p3: "protocol gh pub ?files past3 = Some (SentinelVerified hd1 t s [])" using s3 sentinel by (simp add: reaches_def)
        note s4 = createBlobs_reaches [OF b p3, of "[]", simplified exactEntries_def, simplified]
        show ?thesis
        proof (cases r4)
          case (Inl err)
          with assms ctx h c Inr tree v sentinel b s4 show ?thesis by (auto simp: Publish_def concludes_def)
        next
          case blobs: (Inr entries)
          have "commitEntries (recording gh) ctx_Err pub hd1 t entries (w4, past4) = (r, (w', exchanges))"
            using assms ctx h c Inr tree v sentinel b blobs by (simp add: Publish_def)
          with s4 blobs show ?thesis
            by (auto intro: commitEntries_concludes simp: exactEntries_def)
        qed
      qed
    qed
  qed
qed

text \<open>
  C25. Whatever GitHub answers, and whenever the context ends, the requests of a publication follow its protocol: the head of the
  branch, its tree, the sentinel, a blob for each file in order, the exact tree, a commit on the head that was read, one
  reference update, and after a refused update one more look at the branch; and the result of the publication is the one the
  answers stand for.
\<close>
theorem Publish_follows_protocol:
  assumes "Publish (recording gh) ctx (Some pub) files (w, []) = (r, (w', exchanges))"
  shows "\<exists>phase. protocol gh pub (sort_key f_Path files) exchanges = Some phase \<and>
    publishedResult phase = (case r of Inr result \<Rightarrow> Some result | Inl _ \<Rightarrow> None)"
  by (rule Publish_concludes [OF assms, unfolded concludes_def])


text \<open>A repository with one branch, answering every request; its decoders read the bytes of the example answers.\<close>

definition exampleGithub :: "unit github" where
  "exampleGithub =
     \<lparr>gh_NewRequest = (\<lambda>_ _. None),
      gh_RoundTrip = (\<lambda>q w. (Inr \<lparr>r_StatusCode = (if gq_Method q = ''POST'' then 201 else 200), r_Header = (\<lambda>_. []), r_Body = Some (Body ''n'' None)\<rparr>, w)),
      gh_badLocation = (\<lambda>_. None), gh_reference = (\<lambda>b. Some \<lparr>fr_Ref = [], fr_Type = ''commit'', fr_SHA = b\<rparr>),
      gh_commit = (\<lambda>b. Some \<lparr>mr_SHA = b, mr_Tree = ''t''\<rparr>),
      gh_tree = (\<lambda>b. Some \<lparr>lr_SHA = b, lr_Tree = [blobEntry sentinelPath ''s''], lr_Truncated = False\<rparr>),
      gh_blob = (\<lambda>b. Some \<lparr>br_SHA = b, br_Content = EncodeToString sentinelContents, br_Encoding = ''base64'', br_Size = 20\<rparr>),
      gh_object = Some\<rparr>"

definition exampleBase :: url where
  "exampleBase = \<lparr>u_Scheme = ''https'', u_User = None, u_Host = ''h'', u_Path = [], u_RawPath = [], u_ForceQuery = False, u_RawQuery = [],
     u_Fragment = [], u_RawFragment = []\<rparr>"

definition examplePublisher :: "string \<Rightarrow> publisher" where
  "examplePublisher branch =
     \<lparr>gp_config = \<lparr>gc_Owner = ''j'', gc_Repository = ''r'', gc_Branch = branch\<rparr>, gp_token = ''t'',
      gp_apiBase = Some exampleBase, gp_timeout = Some githubRequestTimeout\<rparr>"

definition exampleRegistry :: "snapshot_entry list" where "exampleRegistry = [\<lparr>f_Path = ''registry.json'', f_Data = ''{}''\<rparr>]"

definition examplePublication where
  "examplePublication = Publish (recording exampleGithub) (Some (\<lambda>_. None)) (Some (examplePublisher ''main'')) exampleRegistry ((), [])"

lemma examplePublication_facts:
  "case examplePublication of (r, (_, exchanges)) \<Rightarrow>
     r = Inr \<lparr>pr_Changed = True, pr_CommitSHA = ''n''\<rparr> \<and> length exchanges = 8 \<and> gq_Method (fst (exchanges ! 7)) = ''PATCH''"
  by code_simp

lemma examplePublication_log:
  obtains exchanges where "Publish (recording exampleGithub) (Some (\<lambda>_. None)) (Some (examplePublisher ''main'')) exampleRegistry ((), []) =
      (Inr \<lparr>pr_Changed = True, pr_CommitSHA = ''n''\<rparr>, ((), exchanges))"
    "snd (snd examplePublication) = exchanges" "7 < length exchanges" "gq_Method (fst (exchanges ! 7)) \<noteq> ''GET''"
  using examplePublication_facts unfolding examplePublication_def by (auto split: prod.splits)

theorem Publish_follows_protocol_witness:
  "\<exists>phase. protocol exampleGithub (examplePublisher ''main'') (sort_key f_Path exampleRegistry) (snd (snd examplePublication)) = Some phase \<and>
     publishedResult phase = Some \<lparr>pr_Changed = True, pr_CommitSHA = ''n''\<rparr>"
  by (rule examplePublication_log) (use Publish_follows_protocol in fastforce)

section \<open>The branch is protected\<close>

lemma findSentinel_unique:
  assumes "findSentinel sha entries = Some s"
  shows "if sha = [] then filter (\<lambda>e. te_Path e = sentinelPath) entries = (if s = [] then [] else [blobEntry sentinelPath s])
         else s = sha \<and> filter (\<lambda>e. te_Path e = sentinelPath) entries = []"
  using assms
proof (induction entries arbitrary: sha)
  case (Cons e entries)
  show ?case
  proof (cases "te_Path e = sentinelPath")
    case False
    with Cons.IH [of sha] Cons.prems show ?thesis by simp
  next
    case True
    with Cons.prems have e: "sha = []" "te_Mode e = ''100644''" "te_Type e = ''blob''" "te_SHA e \<noteq> []" "findSentinel (te_SHA e) entries = Some s"
      by (auto split: if_splits)
    with Cons.IH [OF e(5)] True show ?thesis by (cases e) (auto simp: blobEntry_def)
  qed
qed auto

text \<open>The third exchange listed exactly one sentinel, a regular file, and the fourth delivered its contents.\<close>

definition sentinelSeen :: "'w github \<Rightarrow> publisher \<Rightarrow> exchange list \<Rightarrow> bool" where
  "sentinelSeen gh pub xs \<longleftrightarrow>
     4 \<le> length xs \<and>
     (\<exists>listing s blob. answerOf 200 (gh_tree gh) (snd (xs ! 2)) = Inr listing \<and> \<not> lr_Truncated listing \<and>
        filter (\<lambda>e. te_Path e = sentinelPath) (lr_Tree listing) = [blobEntry sentinelPath s] \<and> s \<noteq> [] \<and>
        fst (xs ! 3) = getRequest pub (blobPath pub s) \<and> answerOf 200 (gh_blob gh) (snd (xs ! 3)) = Inr blob \<and>
        DecodeString (br_Content blob) = Some sentinelContents)"

definition listedSeen :: "'w github \<Rightarrow> exchange list \<Rightarrow> string \<Rightarrow> bool" where
  "listedSeen gh xs s \<longleftrightarrow>
     length xs = 3 \<and> s \<noteq> [] \<and>
     (\<exists>listing. answerOf 200 (gh_tree gh) (snd (xs ! 2)) = Inr listing \<and> \<not> lr_Truncated listing \<and>
        filter (\<lambda>e. te_Path e = sentinelPath) (lr_Tree listing) = [blobEntry sentinelPath s])"

fun phaseSeen :: "'w github \<Rightarrow> publisher \<Rightarrow> exchange list \<Rightarrow> publication \<Rightarrow> bool" where
  "phaseSeen gh pub xs Unread = (xs = [])"
| "phaseSeen gh pub xs (HeadRead _) = (length xs = 1)"
| "phaseSeen gh pub xs (TreeRead _ _) = (length xs = 2)"
| "phaseSeen gh pub xs (SentinelListed h t s) = listedSeen gh xs s"
| "phaseSeen gh pub xs Broken = True"
| "phaseSeen gh pub xs _ = sentinelSeen gh pub xs"

lemma sentinelSeen_snoc: "sentinelSeen gh pub xs \<Longrightarrow> sentinelSeen gh pub (xs @ ys)"
  by (auto simp: sentinelSeen_def nth_append)

lemma onAnswer_cases: "onAnswer proceed r = Broken \<or> (\<exists>v. r = Inr v \<and> onAnswer proceed r = proceed v)"
  by (cases r) (auto simp: onAnswer_def)

lemma protocol_seen: "protocol gh pub files xs = Some ph \<Longrightarrow> phaseSeen gh pub xs ph"
proof (induction xs arbitrary: ph rule: rev_induct)
  case Nil
  then show ?case by (simp add: protocol_def)
next
  case (snoc x xs)
  obtain q a where x: "x = (q, a)" by fastforce
  from snoc.prems obtain ph0 where p: "protocol gh pub files xs = Some ph0" and adv: "advance gh pub files ph0 (q, a) = Some ph"
    by (auto simp: protocol_snoc x split: option.splits)
  note seen = snoc.IH [OF p]
  show ?case
  proof (cases ph0)
    case (TreeRead h t)
    show ?thesis
    proof (cases "ph = Broken")
      case False
      with adv TreeRead obtain listing s where l: "answerOf 200 (gh_tree gh) a = Inr listing" "\<not> lr_Truncated listing"
          "findSentinel [] (lr_Tree listing) = Some s" "s \<noteq> []" "ph = SentinelListed h t s"
        by (auto simp: onAnswer_def listedSentinel_def split: if_splits sum.splits option.splits)
      with findSentinel_unique [OF l(3)] seen TreeRead show ?thesis by (auto simp: listedSeen_def x nth_append)
    qed simp
  next
    case (SentinelListed h t s)
    show ?thesis
    proof (cases "ph = Broken")
      case False
      with adv SentinelListed obtain blob where b: "answerOf 200 (gh_blob gh) a = Inr blob" "DecodeString (br_Content blob) = Some sentinelContents"
          "q = getRequest pub (blobPath pub s)" "ph = SentinelVerified h t s []"
        by (auto simp: onAnswer_def checkedSentinel_def split: if_splits sum.splits)
      with seen SentinelListed show ?thesis by (auto simp: listedSeen_def sentinelSeen_def x nth_append)
    qed simp
  qed (use adv seen sentinelSeen_snoc in \<open>auto simp: onAnswer_def x split: if_splits sum.splits\<close>)
qed

lemma protocol_prefix: "protocol gh pub files (xs @ ys) = Some ph \<Longrightarrow> \<exists>ph0. protocol gh pub files xs = Some ph0"
proof (induction ys arbitrary: ph rule: rev_induct)
  case (snoc y ys)
  then show ?case by (metis append_assoc option.case_eq_if option.discI option.exhaust protocol_snoc)
qed simp

lemma advance_writes:
  assumes "advance gh pub files ph (q, a) = Some ph'" and "gq_Method q \<noteq> ''GET''" and "phaseSeen gh pub xs ph"
  shows "sentinelSeen gh pub xs \<and> (gq_Method q = ''PATCH'' \<longrightarrow> (\<exists>t c. ph = CommitBuilt t c \<and> q = postRequest pub ''PATCH'' (updatePath pub) (updateReferenceRequest c)))"
  using assms by (cases ph) (auto simp: getRequest_def postRequest_def githubRequest_def split: if_splits)


text \<open>
  C26. The branch is only ever written to when it was proven to be a target of the bot: every request of a publication that is not a
  GET comes after GitHub listed exactly one sentinel in the root of the current tree, a regular file, and delivered its exact
  contents; and the reference is only updated without force.
\<close>
theorem Publish_guarded:
  assumes "Publish (recording gh) ctx (Some pub) files (w, []) = (r, (w', exchanges))"
    and "i < length exchanges" and "gq_Method (fst (exchanges ! i)) \<noteq> ''GET''"
  shows "4 \<le> i \<and> sentinelSeen gh pub exchanges \<and>
    (gq_Method (fst (exchanges ! i)) = ''PATCH'' \<longrightarrow>
       (\<exists>c. gq_Body (fst (exchanges ! i)) = Some (the (Marshal (JObject [(''sha'', JText c), (''force'', JBool False)])))))"
proof -
  obtain q a where x: "exchanges ! i = (q, a)" by fastforce
  have split: "exchanges = (take i exchanges @ [(q, a)]) @ drop (Suc i) exchanges"
    using id_take_nth_drop [OF assms(2)] x by simp
  from Publish_concludes [OF assms(1)] obtain ph where "protocol gh pub (sort_key f_Path files) exchanges = Some ph"
    unfolding concludes_def by blast
  then have "protocol gh pub (sort_key f_Path files) ((take i exchanges @ [(q, a)]) @ drop (Suc i) exchanges) = Some ph" using split by simp
  from protocol_prefix [OF this] obtain ph1 where "protocol gh pub (sort_key f_Path files) (take i exchanges @ [(q, a)]) = Some ph1" by blast
  then obtain ph0 where p0: "protocol gh pub (sort_key f_Path files) (take i exchanges) = Some ph0"
    and adv: "advance gh pub (sort_key f_Path files) ph0 (q, a) = Some ph1"
    by (auto simp: protocol_snoc split: option.splits)
  have m: "gq_Method q \<noteq> ''GET''" using assms(3) x by simp
  note facts = advance_writes [OF adv m protocol_seen [OF p0]]
  then have seen: "sentinelSeen gh pub (take i exchanges)" by blast
  then have "4 \<le> i" by (simp add: sentinelSeen_def)
  moreover have "sentinelSeen gh pub exchanges" using sentinelSeen_snoc [OF seen, of "drop i exchanges"] by simp
  moreover have "gq_Method q = ''PATCH'' \<longrightarrow> (\<exists>c. gq_Body q = Some (the (Marshal (JObject [(''sha'', JText c), (''force'', JBool False)]))))"
    using facts by (auto simp: postRequest_def githubRequest_def updateReferenceRequest_def simp del: Marshal.simps)
  ultimately show ?thesis by (simp add: x del: Marshal.simps)
qed

theorem Publish_guarded_witness:
  "sentinelSeen exampleGithub (examplePublisher ''main'') (snd (snd examplePublication))"
  by (rule examplePublication_log) (use Publish_guarded in metis)

section \<open>From the exporter to the branch\<close>

text \<open>The regular files below a directory of the disk, by their paths relative to it, in lexical order.\<close>

definition regularFile :: "tree \<Rightarrow> path_key \<Rightarrow> string option" where
  "regularFile t key = (case map_of t key of Some (Regular data) \<Rightarrow> Some data | _ \<Rightarrow> None)"

definition filesUnder :: "path_key \<Rightarrow> tree \<Rightarrow> snapshot_entry list" where
  "filesUnder k t =
     sort_key f_Path
       (map (\<lambda>key. \<lparr>f_Path = joinSlash (drop (length k) key), f_Data = the (regularFile t key)\<rparr>)
         (filter (\<lambda>key. take (length k) key = k \<and> regularFile t key \<noteq> None) (remdups (map fst t))))"

lemma filesUnder_snapshot:
  assumes held: "holdsSnapshot k files t" and logical: "logicalFiles files" and "sorted (map f_Path files)"
  shows "filesUnder k t = files"
proof -
  let ?keys = "filter (\<lambda>key. take (length k) key = k \<and> regularFile t key \<noteq> None) (remdups (map fst t))"
  let ?entry = "\<lambda>key. \<lparr>f_Path = joinSlash (drop (length k) key), f_Data = the (regularFile t key)\<rparr>"
  have dist: "distinct (map fst (fileMap files))" "distinct files" "inj_on f_Path (set files)"
    using logical splitPath_inject
    by (auto simp: logicalFiles_def fileMap_def distinct_map comp_def inj_on_def)
  have regular: "regularFile t (k @ r) = Some data \<longleftrightarrow> (\<exists>f \<in> set files. r = splitPath (f_Path f) \<and> data = f_Data f)" for r data
  proof -
    have "map_of t (k @ r) = snapshotTree files r" using held by (simp add: holdsSnapshot_def)
    then have "regularFile t (k @ r) = Some data \<longleftrightarrow> map_of (fileMap files) r = Some data"
      by (auto simp: regularFile_def snapshotTree_def split: option.splits)
    also have "\<dots> \<longleftrightarrow> (r, data) \<in> set (fileMap files)" using dist(1) by simp
    finally show ?thesis by (auto simp: fileMap_def)
  qed
  have key: "key \<in> set ?keys \<longleftrightarrow> (\<exists>f \<in> set files. key = k @ splitPath (f_Path f))" for key
  proof -
    have "key \<in> set ?keys \<longleftrightarrow> (\<exists>r data. key = k @ r \<and> regularFile t (k @ r) = Some data)"
    proof
      assume "key \<in> set ?keys"
      then have "key = k @ drop (length k) key" "regularFile t key \<noteq> None" by (auto, metis append_take_drop_id)
      then show "\<exists>r data. key = k @ r \<and> regularFile t (k @ r) = Some data" by (metis option.exhaust)
    next
      assume "\<exists>r data. key = k @ r \<and> regularFile t (k @ r) = Some data"
      then obtain r data where r: "key = k @ r" "regularFile t key = Some data" by blast
      then have "map_of t key \<noteq> None" by (auto simp: regularFile_def split: option.splits)
      then have "key \<in> fst ` set t" by (simp add: map_of_eq_None_iff)
      with r show "key \<in> set ?keys" by simp
    qed
    then show ?thesis unfolding regular by blast
  qed
  have entry: "?entry (k @ splitPath (f_Path f)) = f" if "f \<in> set files" for f
  proof -
    have "regularFile t (k @ splitPath (f_Path f)) = Some (f_Data f)" using that by (auto simp: regular)
    then show ?thesis by (simp add: joinSlash_split)
  qed
  have "set (map ?entry ?keys) = set files"
  proof
    show "set (map ?entry ?keys) \<subseteq> set files"
    proof
      fix x assume "x \<in> set (map ?entry ?keys)"
      then obtain key' where k': "key' \<in> set ?keys" "x = ?entry key'" by auto
      then obtain f where f: "f \<in> set files" "key' = k @ splitPath (f_Path f)" unfolding key by blast
      with k'(2) entry [OF f(1)] show "x \<in> set files" by (simp only:)
    qed
    show "set files \<subseteq> set (map ?entry ?keys)"
    proof
      fix f assume f: "f \<in> set files"
      with key have "k @ splitPath (f_Path f) \<in> set ?keys" by blast
      then have "?entry (k @ splitPath (f_Path f)) \<in> ?entry ` set ?keys" by (rule imageI)
      then show "f \<in> set (map ?entry ?keys)" unfolding entry [OF f] set_map .
    qed
  qed
  moreover have "distinct (map ?entry ?keys)"
    unfolding distinct_map
  proof
    show "inj_on ?entry (set ?keys)"
    proof (rule inj_onI)
      fix x y assume "x \<in> set ?keys" "y \<in> set ?keys" and eq: "?entry x = ?entry y"
      then obtain f g where "f \<in> set files" "x = k @ splitPath (f_Path f)" "g \<in> set files" "y = k @ splitPath (f_Path g)"
        unfolding key by blast
      with eq entry show "x = y" by (metis (no_types, lifting))
    qed
  qed simp
  ultimately have "mset (map ?entry ?keys) = mset files" using dist(2) set_eq_iff_mset_eq_distinct by blast
  with assms(3) dist(3) \<open>set (map ?entry ?keys) = set files\<close> show ?thesis
    unfolding filesUnder_def by (intro sort_key_inj_key_eq) auto
qed

text \<open>
  C27. What the exporter points at can be published: on a sound disk the regular files of the directory the pointer names are the
  files of a built registry, and as long as these files keep the limits, reading the directory gives exactly these files, and
  they are accepted for publication unchanged.
\<close>
theorem pointed_snapshot_publishable:
  assumes "soundTree sha256 (keyOf (mc_cwd mc) p) (fst (fst x))" and "p \<noteq> []" and "calm mc" and "\<And>s. length (sha256 s) = 32"
    and "map_of (fst (fst x)) (keyOf (mc_cwd mc) p @ [registryCurrentName]) = Some (Regular (name @ [CHR 0x0A]))"
  shows "let files = filesUnder (keyOf (mc_cwd mc) p @ [name]) (fst (fst x))
    in (\<exists>ps. BuildRegistry sha256 ps = Inr files) \<and>
       (withinLimits defaultReaderLimits files \<longrightarrow>
          fst (ReadDirectory mc (Some (\<lambda>_. None)) (path_Join p name) x) = Some (Inr files) \<and> prepareSnapshot files = Inr files)"
proof -
  from soundTree_pointer [OF assms(1,5)] obtain ps files where name: "validAutomaticSnapshotName name"
    and built: "BuildRegistry sha256 ps = Inr files" "logicalFiles files" and held: "holdsSnapshot (keyOf (mc_cwd mc) p @ [name]) files (fst (fst x))"
    by (auto simp: pointsAt_def)
  note files = BuildRegistry_files [OF built(1) assms(4)]
  have under: "filesUnder (keyOf (mc_cwd mc) p @ [name]) (fst (fst x)) = files"
    by (rule filesUnder_snapshot [OF held built(2) files(1)])
  have "fst (ReadDirectory mc (Some (\<lambda>_. None)) (path_Join p name) x) = Some (Inr files) \<and> prepareSnapshot files = Inr files"
    if fits: "withinLimits defaultReaderLimits files"
  proof
    have key: "keyOf (mc_cwd mc) (path_Join p name) = keyOf (mc_cwd mc) p @ [name]" by (rule keyOf_snapshot [OF assms(2) name])
    have "last (splitPath (path_Join p name)) = name" "name \<noteq> []"
      using last_Join [OF assms(2), of name] snapshot_name_plain [OF name] by (simp_all add: Split_single plainSeg_def)
    then have "path_Join p name \<noteq> []" by auto
    then show "fst (ReadDirectory mc (Some (\<lambda>_. None)) (path_Join p name) x) = Some (Inr files)"
      using ReadDirectory_snapshot [of x mc "path_Join p name" files] assms(1,3) key held built(2) files fits by (simp add: soundTree_def)
    have "sort_key f_Path files = files" using files(1) by (simp add: sort_key_id_if_sorted)
    with fits built(2) files(2,3) show "prepareSnapshot files = Inr files"
      by (simp add: prepareSnapshot_iff withinLimits_def logicalFiles_def defaultReaderLimits_def maxSnapshotFiles_def maxPublicationFiles_def
          maxSnapshotFileBytes_def maxPublicationFileBytes_def maxSnapshotTotalBytes_def maxPublicationTotalBytes_def list_all_iff)
  qed
  with built(1) show ?thesis unfolding under Let_def by blast
qed

lemma exampleTurn_files:
  "filesUnder [''out'', exampleSnapshot] (fst (fst (snd (snd exampleTurn)))) = exampleBuilt"
  by code_simp

text \<open>The round of the example publishes the registry of its one participant.\<close>

theorem pointed_snapshot_publishable_witness:
  "fst (ReadDirectory exampleMachine (Some (\<lambda>_. None)) (path_Join ''/out'' exampleSnapshot) (snd (snd exampleTurn))) = Some (Inr exampleBuilt) \<and>
   prepareSnapshot exampleBuilt = Inr exampleBuilt"
proof -
  have digest: "length (exampleDigest s) = 32" for s by (simp add: exampleDigest_def)
  have "calm exampleMachine" by (simp add: calm_def exampleMachine_def)
  with pointed_snapshot_publishable [of exampleDigest exampleMachine "''/out''" "snd (snd exampleTurn)" exampleSnapshot] digest
    exampleTurn_sound exampleTurn_facts(5) exampleSnapshot_facts(1) exampleTurn_files exampleBuilt_facts(2)
  show ?thesis by (simp add: Let_def)
qed

section \<open>The path of the branch\<close>

lemma PathEscape_length: "length (PathEscape s) = length s + 2 * length (filter shouldEscapeSegment s)"
  by (induction s) (auto simp: PathEscape_def percentEncoded_def)

text \<open>
  C28. The names in the path are escaped twice, by \<^verbatim>\<open>url.PathEscape\<close> and again when the URL is written: the path GitHub decodes
  names the configured branch only when nothing in the owner, the repository and the branch needs escaping, although the
  configuration accepts other names.
\<close>
theorem branch_escaped_twice:
  assumes "gp_apiBase pub = Some base" and "u_Path base = []"
  shows "unescapePath (EscapedPath (endpoint pub (headPath pub))) =
           Some (''/repos/'' @ gc_Owner (gp_config pub) @ ''/'' @ gc_Repository (gp_config pub) @ ''/git/ref/heads/'' @ gc_Branch (gp_config pub)) \<longleftrightarrow>
         list_all (\<lambda>c. \<not> shouldEscapeSegment c) (gc_Owner (gp_config pub) @ gc_Repository (gp_config pub) @ gc_Branch (gp_config pub))"
    (is "?decoded = Some ?meant \<longleftrightarrow> ?plain")
proof -
  let ?o = "gc_Owner (gp_config pub)" and ?r = "gc_Repository (gp_config pub)" and ?b = "gc_Branch (gp_config pub)"
  have "headPath pub \<noteq> ''*''" by (simp add: headPath_def repositoryPath_def)
  then have decoded: "?decoded = Some (headPath pub)"
    using assms by (simp add: endpoint_def Let_def EscapedPath_def unescapePath_escapePath)
  have path: "headPath pub = ''/repos/'' @ PathEscape ?o @ ''/'' @ PathEscape ?r @ ''/git/ref/heads/'' @ PathEscape ?b"
    by (simp add: headPath_def repositoryPath_def)
  show ?thesis
  proof
    assume "?decoded = Some ?meant"
    then have "length (headPath pub) = length ?meant" using decoded by simp
    then have "length (filter shouldEscapeSegment ?o) + length (filter shouldEscapeSegment ?r) + length (filter shouldEscapeSegment ?b) = 0"
      unfolding path by (simp add: PathEscape_length)
    then show ?plain by (auto simp: filter_empty_conv list_all_iff)
  next
    assume ?plain
    then have "PathEscape ?o = ?o" "PathEscape ?r = ?r" "PathEscape ?b = ?b" by (simp_all add: PathEscape_id list_all_append)
    then show "?decoded = Some ?meant" using decoded path by simp
  qed
qed

text \<open>A branch name that is valid for git and for the configuration, and cannot be published to.\<close>

theorem branch_escaped_twice_witness:
  "validConfig (gp_config (examplePublisher ''release#1'')) \<and>
   unescapePath (EscapedPath (endpoint (examplePublisher ''release#1'') (headPath (examplePublisher ''release#1'')))) \<noteq>
     Some ''/repos/j/r/git/ref/heads/release#1''"
proof -
  have c: "validConfig (gp_config (examplePublisher ''release#1''))" by code_simp
  have "shouldEscapeSegment (CHR ''#'')" by code_simp
  with branch_escaped_twice [of "examplePublisher ''release#1''" exampleBase] c show ?thesis
    by (simp add: examplePublisher_def exampleBase_def)
qed

section \<open>The publish operation\<close>

text \<open>
  \<^verbatim>\<open>cmd/joshbot/publish_config.go\<close> and \<^verbatim>\<open>runtimeOperations.publish\<close> in \<^verbatim>\<open>cmd/joshbot/runtime.go\<close>. \<open>os_Open\<close> gives the contents of the token
  file, \<open>None\<close> when it cannot be opened.
\<close>

definition publishOwnerEnvironment :: string where "publishOwnerEnvironment = ''JOSHBOT_PUBLISH_GITHUB_OWNER''"
definition publishRepositoryEnvironment :: string where "publishRepositoryEnvironment = ''JOSHBOT_PUBLISH_GITHUB_REPOSITORY''"
definition publishBranchEnvironment :: string where "publishBranchEnvironment = ''JOSHBOT_PUBLISH_GITHUB_BRANCH''"
definition githubTokenFileEnvironment :: string where "githubTokenFileEnvironment = ''JOSHBOT_GITHUB_TOKEN_FILE''"
definition defaultPublishBranch :: string where "defaultPublishBranch = ''main''"
definition maxGitHubTokenSize :: nat where "maxGitHubTokenSize = 4096"

definition errInvalidPublishConfiguration where "errInvalidPublishConfiguration = Sentinel ''publication configuration is invalid''"
definition errOpenGitHubTokenFile where "errOpenGitHubTokenFile = Sentinel ''cannot open GitHub token file''"
definition errReadGitHubTokenFile where "errReadGitHubTokenFile = Sentinel ''cannot read GitHub token file''"
definition errEmptyGitHubToken where "errEmptyGitHubToken = Sentinel ''GitHub token file is empty''"
definition errGitHubTokenTooLarge where "errGitHubTokenTooLarge = Sentinel ''GitHub token file is too large''"
definition errInvalidGitHubToken where "errInvalidGitHubToken = Sentinel ''GitHub token file is invalid''"

record publish_settings =
  ps_target :: publish_config
  ps_token :: string

definition validGitHubTokenFileValue :: "string \<Rightarrow> bool" where
  "validGitHubTokenFileValue token =
     (if \<not> utf8_Valid token \<or> TrimSpace token \<noteq> token then False
      else list_all (\<lambda>c. \<not> (byte_of c < 0x20 \<or> byte_of c = 0x7F)) token)"

definition dropLast :: "char \<Rightarrow> string \<Rightarrow> string" where
  "dropLast c data = (if data \<noteq> [] \<and> last data = c then butlast data else data)"

definition readGitHubToken :: "body \<Rightarrow> go_error + string" where
  "readGitHubToken reader =
     (case ReadAll_limited reader (maxGitHubTokenSize + 2) of
        Inl _ \<Rightarrow> Inl errReadGitHubTokenFile
      | Inr data \<Rightarrow>
          (let data = dropLast (CHR 0x0D) (dropLast (CHR 0x0A) data)
           in if data = [] then Inl errEmptyGitHubToken
              else if length data > maxGitHubTokenSize then Inl errGitHubTokenTooLarge
              else if \<not> validGitHubTokenFileValue data then Inl errInvalidGitHubToken
              else Inr data))"

definition readGitHubTokenFile :: "(string \<Rightarrow> body option) \<Rightarrow> string \<Rightarrow> go_error + string" where
  "readGitHubTokenFile os_Open p = (case os_Open p of None \<Rightarrow> Inl errOpenGitHubTokenFile | Some reader \<Rightarrow> readGitHubToken reader)"

definition loadPublishSettings :: "(string \<Rightarrow> body option) \<Rightarrow> (string \<Rightarrow> string) \<Rightarrow> go_error + publish_settings" where
  "loadPublishSettings os_Open getenv =
     (let owner = getenv publishOwnerEnvironment; repository = getenv publishRepositoryEnvironment;
          branch = getenv publishBranchEnvironment; tokenFile = getenv githubTokenFileEnvironment
      in if owner = [] \<or> repository = [] \<or> tokenFile = [] then Inl errInvalidPublishConfiguration
         else (let branch = (if branch = [] then defaultPublishBranch else branch)
               in case readGitHubTokenFile os_Open tokenFile of
                    Inl err \<Rightarrow> Inl err
                  | Inr token \<Rightarrow>
                      Inr \<lparr>ps_target = \<lparr>gc_Owner = owner, gc_Repository = repository, gc_Branch = branch\<rparr>, ps_token = token\<rparr>))"

text \<open>\<open>None\<close> when the directory nests deeper than the reader of the model goes.\<close>

definition publish ::
    "host_lib \<Rightarrow> 'e machine \<Rightarrow> 'e disk github \<Rightarrow> (string \<Rightarrow> body option) \<Rightarrow> (string \<Rightarrow> string) \<Rightarrow> 'e disk go_context \<Rightarrow> string \<Rightarrow> 'e disk \<Rightarrow>
     (go_error + publish_result) option \<times> 'e disk" where
  "publish lib mc gh os_Open getenv ctx rootName x =
     (case loadPublishSettings os_Open getenv of
        Inl err \<Rightarrow> (Some (Inl (Wrap ''load publication configuration'' [err])), x)
      | Inr settings \<Rightarrow>
          (case ReadDirectory mc ctx rootName x of
             (None, x) \<Rightarrow> (None, x)
           | (Some (Inl err), x) \<Rightarrow> (Some (Inl (Wrap ''read public registry snapshot'' [err])), x)
           | (Some (Inr files), x) \<Rightarrow>
               (case New lib (ps_target settings) (ps_token settings) of
                  Inl err \<Rightarrow> (Some (Inl (Wrap ''construct GitHub publisher'' [err])), x)
                | Inr publisher \<Rightarrow>
                    (case Publish gh ctx (Some publisher) files x of
                       (Inl err, x) \<Rightarrow> (Some (Inl (Wrap ''publish public registry'' [err])), x)
                     | (Inr result, x) \<Rightarrow> (Some (Inr result), x)))))"

text \<open>A token that was read can be sent: the publisher never refuses it.\<close>

lemma readGitHubToken_valid: "readGitHubToken reader = Inr token \<Longrightarrow> validToken token \<and> length token \<le> maxGitHubTokenSize"
  by (auto simp: readGitHubToken_def Let_def validToken_def validGitHubTokenFileValue_def hasControlCharacter_def list_ex_iff list_all_iff
      split: sum.splits if_splits)

lemma loaded_token_accepted:
  assumes "loadPublishSettings os_Open getenv = Inr settings"
  shows "New lib (ps_target settings) (ps_token settings) \<noteq> Inl ErrInvalidToken"
proof -
  have "validToken (ps_token settings)"
    using assms readGitHubToken_valid
    by (auto simp: loadPublishSettings_def readGitHubTokenFile_def Let_def split: if_splits sum.splits option.splits)
  then show ?thesis by (auto simp: New_def newPublisher_def ErrInvalidConfig_def ErrInvalidToken_def split: sum.splits)
qed

end
