(* ===== verification/Reporting.thy ===== *)
theory Reporting
  imports Telemetry Web_Encoding "HOL-Library.Product_Lexorder"
begin

text \<open>
  The private reports, package \<^verbatim>\<open>internal/reporting\<close>: the read model over the tables of the store (\<^verbatim>\<open>postgres.go\<close>,
  \<^verbatim>\<open>postgres_pagination.go\<close>, \<^verbatim>\<open>postgres_audit.go\<close>, \<^verbatim>\<open>postgres_source_detail.go\<close>) and the cursors of \<^verbatim>\<open>pagination.go\<close>. A query
  runs on the state of the tables at one statement; \<open>dbErr\<close> is what the database answers to it instead, if it fails.
\<close>

definition defaultLimit :: int where "defaultLimit = 100"
definition maxLimit :: int where "maxLimit = 1000"

definition errInvalidLimit where "errInvalidLimit = Sentinel ''reporting: invalid limit''"
definition errInvalidCursor where "errInvalidCursor = Sentinel ''reporting: invalid cursor''"
definition errInvalidFilter where "errInvalidFilter = Sentinel ''reporting: invalid filter''"
definition errInvalidOriginFilter where "errInvalidOriginFilter = Sentinel ''reporting: invalid origin filter''"
definition errInvalidCrawlID where "errInvalidCrawlID = Sentinel ''reporting: crawl ID is invalid''"
definition errInvalidSourceOrigin where "errInvalidSourceOrigin = Sentinel ''reporting: source origin is invalid''"

section \<open>Rows\<close>

record source_report =
  so_Origin :: string
  so_Seeded :: bool
  so_AutomaticallyDiscovered :: bool
  so_Blocked :: bool
  so_Verified :: bool
  so_CrawlEligible :: bool
  so_FirstDiscoveredAt :: "go_time option"
  so_LastDiscoveredAt :: "go_time option"
  so_LeaseGeneration :: int
  so_LeaseOwner :: string
  so_LeaseExpiresAt :: "go_time option"
  so_LastClaimedAt :: "go_time option"

record crawl_run =
  cx_ID :: int
  cx_SourceOrigin :: string
  cx_StartedAt :: go_time
  cx_FinishedAt :: "go_time option"
  cx_Outcome :: string
  cx_StopReason :: string
  cx_PromotionsAdmitted :: int
  cx_PromotionsDeferred :: int
  cx_Summary :: run_summary

record queue_item =
  qi_Origin :: string
  qi_Mode :: queue_mode
  qi_AvailableAt :: go_time
  qi_LeaseGeneration :: int
  qi_LeaseOwner :: string
  qi_LeaseExpiresAt :: "go_time option"
  qi_LastClaimedAt :: "go_time option"

record queue_event =
  qv_ID :: int
  qv_Origin :: string
  qv_OccurredAt :: go_time
  qv_Event :: string
  qv_Mode :: queue_mode
  qv_AvailableAt :: "go_time option"
  qv_LeaseOwner :: string
  qv_LeaseGeneration :: int
  qv_LeaseExpiresAt :: "go_time option"

record audit_report =
  ae_ID :: int
  ae_Event :: audit_event

record service_status =
  sv_Service :: string
  sv_InstanceID :: string
  sv_State :: string
  sv_CurrentOrigin :: string
  sv_Message :: string
  sv_StartedAt :: go_time
  sv_UpdatedAt :: go_time

record control_status =
  cl_DiscoveryPaused :: bool
  cl_VerificationPaused :: bool
  cl_AutomaticExpansionPaused :: bool
  cl_UpdatedAt :: go_time

record backpressure_status =
  bp_AutomaticCrawlEnabled :: bool
  bp_Active :: bool
  bp_PendingProbes :: int
  bp_MaxPendingProbes :: int

record queue_summary =
  qt_Total :: int
  qt_Probe :: int
  qt_Reprobe :: int
  qt_Recurring :: int
  qt_Leased :: int
  qt_OldestAvailableAt :: "go_time option"

record source_summary =
  su_Total :: int
  su_Seeded :: int
  su_Automatic :: int
  su_Verified :: int
  su_Blocked :: int
  su_CrawlEligible :: int

record report_status =
  re_GeneratedAt :: go_time
  re_Control :: control_status
  re_Backpressure :: backpressure_status
  re_Queue :: queue_summary
  re_Sources :: source_summary
  re_Services :: "service_status list"

record crawl_detail =
  de_Run :: crawl_run
  de_Pages :: "(int \<times> page_row) list"
  de_NextCursor :: string

record discovery_provenance =
  dv_SourceOrigin :: string
  dv_Kind :: string
  dv_FirstDiscoveredAt :: go_time
  dv_LastDiscoveredAt :: go_time

record robots_observation =
  rv_CrawlRunID :: int
  rv_Sequence :: int
  rv_ObservedAt :: go_time
  rv_Decision :: robots_decision

record source_detail =
  sx_Source :: source_report
  sx_DiscoveredBy :: "discovery_provenance list"
  sx_Queue :: "queue_item option"
  sx_LatestCrawl :: "crawl_run option"
  sx_LatestRobotsObservation :: "robots_observation option"

text \<open>The tables: those of the store, and the events the triggers of the queue table write.\<close>

record report_db =
  rb_base :: telemetry_db
  rb_events :: "queue_event list"

abbreviation rb_discovery :: "report_db \<Rightarrow> discovery_db" where "rb_discovery db \<equiv> tm_base (rb_base db)"

section \<open>Cursors\<close>

definition cursorVersion :: int where "cursorVersion = 1"

record cursor_payload =
  cu_Version :: int
  cu_Kind :: string
  cu_Origin :: string
  cu_At :: string
  cu_ID :: int

definition cursorJSON :: "cursor_payload \<Rightarrow> json" where
  "cursorJSON p =
     JObject ([(''v'', JInt (cu_Version p)), (''kind'', JText (cu_Kind p))] @
       (if cu_Origin p = [] then [] else [(''origin'', JText (cu_Origin p))]) @ (if cu_At p = [] then [] else [(''at'', JText (cu_At p))]) @
       (if cu_ID p = 0 then [] else [(''id'', JInt (cu_ID p))]))"

definition cursorText :: "cursor_payload \<Rightarrow> string" where
  "cursorText p = (case Marshal (cursorJSON p) of Some encoded \<Rightarrow> encoded | None \<Rightarrow> [])"

definition encodeCursor :: "cursor_payload \<Rightarrow> string" where
  "encodeCursor p = RawURLEncode (cursorText p)"

text \<open>
  The strict decoder of \<^verbatim>\<open>encoding/json\<close> (no unknown fields, nothing after the value), \<^verbatim>\<open>time.Parse(time.RFC3339Nano, _)\<close> in UTC and
  the host library of \<^verbatim>\<open>origin.Parse\<close>.
\<close>

record codec =
  co_Decode :: "string \<Rightarrow> cursor_payload option"
  co_ParseTime :: "string \<Rightarrow> go_time option"
  co_lib :: host_lib

definition decodeCursor :: "codec \<Rightarrow> string \<Rightarrow> string \<Rightarrow> go_error + cursor_payload" where
  "decodeCursor cd raw kind =
     (case RawURLDecode raw of
        None \<Rightarrow> Inl errInvalidCursor
      | Some decoded \<Rightarrow>
          (case co_Decode cd decoded of
             None \<Rightarrow> Inl errInvalidCursor
           | Some payload \<Rightarrow>
               if cu_Version payload \<noteq> cursorVersion \<or> cu_Kind payload \<noteq> kind then Inl errInvalidCursor else Inr payload))"

definition canonicalCursorOrigin :: "codec \<Rightarrow> string \<Rightarrow> bool" where
  "canonicalCursorOrigin cd raw =
     (if raw = [] then False
      else (case Origin.Parse (co_lib cd) raw of Inl _ \<Rightarrow> False | Inr parsed \<Rightarrow> origin_String parsed = raw))"

definition decodeSourceCursor :: "codec \<Rightarrow> string \<Rightarrow> go_error + string option" where
  "decodeSourceCursor cd raw =
     (if raw = [] then Inr None
      else (case decodeCursor cd raw ''sources'' of
              Inl _ \<Rightarrow> Inl errInvalidCursor
            | Inr payload \<Rightarrow>
                if cu_At payload \<noteq> [] \<or> cu_ID payload \<noteq> 0 \<or> \<not> canonicalCursorOrigin cd (cu_Origin payload) then Inl errInvalidCursor
                else Inr (Some (cu_Origin payload))))"

text \<open>The cursors with a time and an identifier: of the crawls, the queue events and the audit events.\<close>

definition decodeTimedCursor :: "codec \<Rightarrow> string \<Rightarrow> string \<Rightarrow> go_error + (go_time \<times> int) option" where
  "decodeTimedCursor cd kind raw =
     (if raw = [] then Inr None
      else (case decodeCursor cd raw kind of
              Inl _ \<Rightarrow> Inl errInvalidCursor
            | Inr payload \<Rightarrow>
                if cu_Origin payload \<noteq> [] \<or> cu_ID payload \<le> 0 then Inl errInvalidCursor
                else (case co_ParseTime cd (cu_At payload) of
                        None \<Rightarrow> Inl errInvalidCursor
                      | Some t \<Rightarrow> if t = 0 then Inl errInvalidCursor else Inr (Some (t, cu_ID payload)))))"

definition decodeCrawlCursor :: "codec \<Rightarrow> string \<Rightarrow> go_error + (go_time \<times> int) option" where
  "decodeCrawlCursor cd = decodeTimedCursor cd ''crawls''"

definition decodeQueueEventCursor :: "codec \<Rightarrow> string \<Rightarrow> go_error + (go_time \<times> int) option" where
  "decodeQueueEventCursor cd = decodeTimedCursor cd ''queue_events''"

definition decodeAuditCursor :: "codec \<Rightarrow> string \<Rightarrow> go_error + (go_time \<times> int) option" where
  "decodeAuditCursor cd = decodeTimedCursor cd ''audit''"

definition decodeQueueCursor :: "codec \<Rightarrow> string \<Rightarrow> go_error + (go_time \<times> string) option" where
  "decodeQueueCursor cd raw =
     (if raw = [] then Inr None
      else (case decodeCursor cd raw ''queue'' of
              Inl _ \<Rightarrow> Inl errInvalidCursor
            | Inr payload \<Rightarrow>
                if cu_ID payload \<noteq> 0 \<or> \<not> canonicalCursorOrigin cd (cu_Origin payload) then Inl errInvalidCursor
                else (case co_ParseTime cd (cu_At payload) of
                        None \<Rightarrow> Inl errInvalidCursor
                      | Some t \<Rightarrow> if t = 0 then Inl errInvalidCursor else Inr (Some (t, cu_Origin payload)))))"

definition sourcePayload :: "string \<Rightarrow> cursor_payload" where
  "sourcePayload o1 = \<lparr>cu_Version = cursorVersion, cu_Kind = ''sources'', cu_Origin = o1, cu_At = [], cu_ID = 0\<rparr>"

definition timedPayload :: "string \<Rightarrow> go_time \<Rightarrow> int \<Rightarrow> cursor_payload" where
  "timedPayload kind t i = \<lparr>cu_Version = cursorVersion, cu_Kind = kind, cu_Origin = [], cu_At = FormatRFC3339Nano t, cu_ID = i\<rparr>"

definition queuePayload :: "go_time \<Rightarrow> string \<Rightarrow> cursor_payload" where
  "queuePayload t o1 = \<lparr>cu_Version = cursorVersion, cu_Kind = ''queue'', cu_Origin = o1, cu_At = FormatRFC3339Nano t, cu_ID = 0\<rparr>"

definition sourceNextCursor :: "source_report \<Rightarrow> string" where
  "sourceNextCursor item = encodeCursor (sourcePayload (so_Origin item))"

definition crawlNextCursor :: "crawl_run \<Rightarrow> string" where
  "crawlNextCursor item = encodeCursor (timedPayload ''crawls'' (cx_StartedAt item) (cx_ID item))"

definition queueNextCursor :: "queue_item \<Rightarrow> string" where
  "queueNextCursor item = encodeCursor (queuePayload (qi_AvailableAt item) (qi_Origin item))"

definition queueEventNextCursor :: "queue_event \<Rightarrow> string" where
  "queueEventNextCursor item = encodeCursor (timedPayload ''queue_events'' (qv_OccurredAt item) (qv_ID item))"

definition auditNextCursor :: "audit_report \<Rightarrow> string" where
  "auditNextCursor item = encodeCursor (timedPayload ''audit'' (au_OccurredAt (ae_Event item)) (ae_ID item))"

section \<open>Pages\<close>

definition pageLimit :: "int \<Rightarrow> go_error + int" where
  "pageLimit limit = (if limit < 1 \<or> limit > maxLimit then Inl errInvalidLimit else Inr (limit + 1))"

text \<open>The five trim functions are one: they differ in the type of the items and in the cursor of the last one.\<close>

definition trimPage :: "('a \<Rightarrow> string) \<Rightarrow> 'a list \<Rightarrow> int \<Rightarrow> 'a list \<times> string" where
  "trimPage nextCursor items limit =
     (if int (length items) \<le> limit then (items, [])
      else (take (nat limit) items, nextCursor (last (take (nat limit) items))))"

definition trimSourcePage where "trimSourcePage = trimPage sourceNextCursor"
definition trimCrawlPage where "trimCrawlPage = trimPage crawlNextCursor"
definition trimQueuePage where "trimQueuePage = trimPage queueNextCursor"
definition trimQueueEventPage where "trimQueueEventPage = trimPage queueEventNextCursor"
definition trimAuditPage where "trimAuditPage = trimPage auditNextCursor"


section \<open>The read model\<close>

record postgres_config =
  pg_AutomaticCrawlEnabled :: bool
  pg_MaxPendingProbes :: int

definition validPostgresConfig :: "postgres_config \<Rightarrow> bool" where
  "validPostgresConfig config \<longleftrightarrow> pg_MaxPendingProbes config > 0"

definition errPostgresPoolUnavailable where "errPostgresPoolUnavailable = Sentinel ''reporting: PostgreSQL pool is unavailable''"
definition errInvalidPostgresConfig where "errInvalidPostgresConfig = Sentinel ''reporting: PostgreSQL configuration is invalid''"

definition NewPostgresReader :: "bool \<Rightarrow> postgres_config \<Rightarrow> go_error + postgres_config" where
  "NewPostgresReader pool config =
     (if \<not> pool then Inl errPostgresPoolUnavailable
      else if \<not> validPostgresConfig config then Inl errInvalidPostgresConfig
      else Inr config)"

definition validReaderLimit :: "int \<Rightarrow> bool" where
  "validReaderLimit limit \<longleftrightarrow> limit \<ge> 1 \<and> limit \<le> maxLimit"

text \<open>\<open>source_universe\<close>, and one row of the classification the statements join to it.\<close>

definition sourceUniverse :: "discovery_db \<Rightarrow> string list" where
  "sourceUniverse db = remdups (map fst (dd_sources db) @ dd_schedule db)"

definition classified :: "discovery_db \<Rightarrow> string \<Rightarrow> source_report" where
  "classified db o1 =
     (let state = map_of (dd_sources db) o1; candidate = map_of (dd_candidates db) o1
      in \<lparr>so_Origin = o1, so_Seeded = sourceFlag ss_seeded db o1, so_AutomaticallyDiscovered = sourceFlag ss_automatically_discovered db o1,
          so_Blocked = sourceFlag ss_crawl_blocked db o1,
          so_Verified = (case effectiveRow (dd_store db) o1 of None \<Rightarrow> False | Some r \<Rightarrow> ob_outcome r = ''valid''),
          so_CrawlEligible = (\<not> sourceFlag ss_crawl_blocked db o1 \<and> o1 \<in> set (dd_schedule db)),
          so_FirstDiscoveredAt = map_option cd_first_discovered_at candidate,
          so_LastDiscoveredAt = map_option cd_last_discovered_at candidate,
          so_LeaseGeneration = (case state of None \<Rightarrow> 0 | Some r \<Rightarrow> ss_lease_generation r),
          so_LeaseOwner = (case state of None \<Rightarrow> [] | Some r \<Rightarrow> (case ss_lease_owner r of None \<Rightarrow> [] | Some w \<Rightarrow> w)),
          so_LeaseExpiresAt = (case state of None \<Rightarrow> None | Some r \<Rightarrow> ss_lease_expires_at r),
          so_LastClaimedAt = (case state of None \<Rightarrow> None | Some r \<Rightarrow> ss_last_claimed_at r)\<rparr>)"

definition sourceRows :: "report_db \<Rightarrow> source_report list" where
  "sourceRows db = map (classified (rb_discovery db)) (sourceUniverse (rb_discovery db))"

text \<open>The columns of a run are in two tables of the model; every run has both.\<close>

definition scanCrawlRun :: "int \<Rightarrow> run_row \<Rightarrow> run_summary \<Rightarrow> crawl_run" where
  "scanCrawlRun i row summary =
     \<lparr>cx_ID = i, cx_SourceOrigin = rn_source_origin row, cx_StartedAt = rn_started_at row, cx_FinishedAt = rn_finished_at row,
      cx_Outcome = rn_outcome row, cx_StopReason = rn_stop_reason row, cx_PromotionsAdmitted = rn_promotions_admitted row,
      cx_PromotionsDeferred = rn_promotions_deferred row, cx_Summary = summary\<rparr>"

definition crawlRows :: "report_db \<Rightarrow> crawl_run list" where
  "crawlRows db =
     concat (map (\<lambda>(i, row). case map_of (tm_summaries (rb_base db)) i of None \<Rightarrow> [] | Some summary \<Rightarrow> [scanCrawlRun i row summary])
       (dd_runs (rb_discovery db)))"

definition queueItemOf :: "string \<times> queue_row \<Rightarrow> queue_item" where
  "queueItemOf entry =
     (case entry of (o1, row) \<Rightarrow>
        \<lparr>qi_Origin = o1, qi_Mode = q_mode row, qi_AvailableAt = q_available_at row, qi_LeaseGeneration = q_lease_generation row,
         qi_LeaseOwner = (case q_lease_owner row of None \<Rightarrow> [] | Some w \<Rightarrow> w), qi_LeaseExpiresAt = q_lease_expires_at row,
         qi_LastClaimedAt = q_last_claimed_at row\<rparr>)"

text \<open>\<^verbatim>\<open>lease_owner IS NOT NULL AND lease_expires_at > statement_timestamp()\<close>.\<close>

definition leasedRow :: "go_time \<Rightarrow> queue_row \<Rightarrow> bool" where
  "leasedRow now row \<longleftrightarrow> q_lease_owner row \<noteq> None \<and> (case q_lease_expires_at row of None \<Rightarrow> False | Some t \<Rightarrow> t > now)"

text \<open>The identifiers of the audit table are given in the order of the insertions, from 1.\<close>

definition auditRows :: "report_db \<Rightarrow> audit_report list" where
  "auditRows db = map2 (\<lambda>i e. \<lparr>ae_ID = i, ae_Event = e\<rparr>) (map int [1..<Suc (length (dd_audit (rb_discovery db)))]) (dd_audit (rb_discovery db))"

section \<open>Queries\<close>

text \<open>
  A statement fails when it is sent, or later while its rows are collected. A page wraps either error, a plain list only the first.
\<close>

datatype query_fault = ReadFault go_error | CollectFault go_error

definition pageStatement :: "query_fault option \<Rightarrow> string \<Rightarrow> 'a list \<Rightarrow> go_error + 'a list" where
  "pageStatement fault what rows =
     (case fault of
        None \<Rightarrow> Inr rows
      | Some (ReadFault err) \<Rightarrow> Inl (Wrap (''reporting: read '' @ what) [err])
      | Some (CollectFault err) \<Rightarrow> Inl (Wrap (''reporting: collect '' @ what) [err]))"

definition listStatement :: "query_fault option \<Rightarrow> string \<Rightarrow> 'a list \<Rightarrow> go_error + 'a list" where
  "listStatement fault what rows =
     (case fault of
        None \<Rightarrow> Inr rows
      | Some (ReadFault err) \<Rightarrow> Inl (Wrap (''reporting: read '' @ what) [err])
      | Some (CollectFault err) \<Rightarrow> Inl err)"

record source_query =
  sy_Limit :: int
  sy_Cursor :: "string option"
  sy_Origin :: string
  sy_Seeded :: "bool option"
  sy_Automatic :: "bool option"
  sy_Verified :: "bool option"
  sy_Blocked :: "bool option"
  sy_CrawlEligible :: "bool option"

record crawl_query =
  cy_Limit :: int
  cy_Cursor :: "(go_time \<times> int) option"
  cy_Origin :: string
  cy_Outcome :: string

record queue_query =
  qy_Limit :: int
  qy_Cursor :: "(go_time \<times> string) option"
  qy_Origin :: string
  qy_Mode :: string
  qy_Leased :: "bool option"

record queue_event_query =
  ey_Limit :: int
  ey_Cursor :: "(go_time \<times> int) option"
  ey_Origin :: string
  ey_Event :: string
  ey_Mode :: string

record audit_query =
  ay_Limit :: int
  ay_Cursor :: "(go_time \<times> int) option"

fun modeText :: "queue_mode \<Rightarrow> string" where
  "modeText Recurring = ''recurring''"
| "modeText Probe = ''probe''"
| "modeText Reprobe = ''reprobe''"

text \<open>The conditions \<^verbatim>\<open>$n = '' OR column = $n\<close> and \<^verbatim>\<open>$n IS NULL OR column = $n\<close>.\<close>

definition textFilter :: "string \<Rightarrow> string \<Rightarrow> bool" where "textFilter wanted value1 \<longleftrightarrow> wanted = [] \<or> value1 = wanted"
definition boolFilter :: "bool option \<Rightarrow> bool \<Rightarrow> bool" where "boolFilter wanted value1 \<longleftrightarrow> (case wanted of None \<Rightarrow> True | Some b \<Rightarrow> value1 = b)"

definition sourceMatches :: "source_query \<Rightarrow> source_report \<Rightarrow> bool" where
  "sourceMatches q r \<longleftrightarrow>
     textFilter (sy_Origin q) (so_Origin r) \<and> boolFilter (sy_Seeded q) (so_Seeded r) \<and>
     boolFilter (sy_Automatic q) (so_AutomaticallyDiscovered r) \<and> boolFilter (sy_Verified q) (so_Verified r) \<and>
     boolFilter (sy_Blocked q) (so_Blocked r) \<and> boolFilter (sy_CrawlEligible q) (so_CrawlEligible r)"

definition crawlMatches :: "crawl_query \<Rightarrow> crawl_run \<Rightarrow> bool" where
  "crawlMatches q r \<longleftrightarrow> textFilter (cy_Origin q) (cx_SourceOrigin r) \<and> textFilter (cy_Outcome q) (cx_Outcome r)"

definition queueMatches :: "queue_query \<Rightarrow> go_time \<Rightarrow> string \<times> queue_row \<Rightarrow> bool" where
  "queueMatches q now entry \<longleftrightarrow>
     textFilter (qy_Origin q) (fst entry) \<and> textFilter (qy_Mode q) (modeText (q_mode (snd entry))) \<and>
     boolFilter (qy_Leased q) (leasedRow now (snd entry))"

definition eventMatches :: "queue_event_query \<Rightarrow> queue_event \<Rightarrow> bool" where
  "eventMatches q r \<longleftrightarrow>
     textFilter (ey_Origin q) (qv_Origin r) \<and> textFilter (ey_Event q) (qv_Event r) \<and> textFilter (ey_Mode q) (modeText (qv_Mode r))"

text \<open>The orders: by origin, by availability and origin, and newest first by time and identifier.\<close>

definition crawlKey :: "crawl_run \<Rightarrow> int \<times> int" where "crawlKey r = (- cx_StartedAt r, - cx_ID r)"
definition queueKey :: "queue_item \<Rightarrow> int \<times> string" where "queueKey r = (qi_AvailableAt r, qi_Origin r)"
definition eventKey :: "queue_event \<Rightarrow> int \<times> int" where "eventKey r = (- qv_OccurredAt r, - qv_ID r)"
definition auditKey :: "audit_report \<Rightarrow> int \<times> int" where "auditKey r = (- au_OccurredAt (ae_Event r), - ae_ID r)"

definition SourcesPage :: "query_fault option \<Rightarrow> report_db \<Rightarrow> source_query \<Rightarrow> go_error + source_report list \<times> string" where
  "SourcesPage fault db q =
     (case pageLimit (sy_Limit q) of
        Inl err \<Rightarrow> Inl err
      | Inr fetchLimit \<Rightarrow>
          (case pageStatement fault ''source page'' (take (nat fetchLimit) (sort_key so_Origin
                 (filter (\<lambda>r. sourceMatches q r \<and> (case sy_Cursor q of None \<Rightarrow> True | Some o1 \<Rightarrow> o1 = [] \<or> so_Origin r > o1)) (sourceRows db)))) of
             Inl err \<Rightarrow> Inl err
           | Inr items \<Rightarrow> Inr (trimSourcePage items (sy_Limit q))))"

definition CrawlsPage :: "query_fault option \<Rightarrow> report_db \<Rightarrow> crawl_query \<Rightarrow> go_error + crawl_run list \<times> string" where
  "CrawlsPage fault db q =
     (case pageLimit (cy_Limit q) of
        Inl err \<Rightarrow> Inl err
      | Inr fetchLimit \<Rightarrow>
          (case pageStatement fault ''crawl page'' (take (nat fetchLimit) (sort_key crawlKey
                 (filter (\<lambda>r. crawlMatches q r \<and> (case cy_Cursor q of None \<Rightarrow> True | Some (t, i) \<Rightarrow> (cx_StartedAt r, cx_ID r) < (t, i))) (crawlRows db)))) of
             Inl err \<Rightarrow> Inl err
           | Inr items \<Rightarrow> Inr (trimCrawlPage items (cy_Limit q))))"

definition QueuePage :: "query_fault option \<Rightarrow> go_time \<Rightarrow> report_db \<Rightarrow> queue_query \<Rightarrow> go_error + queue_item list \<times> string" where
  "QueuePage fault now db q =
     (case pageLimit (qy_Limit q) of
        Inl err \<Rightarrow> Inl err
      | Inr fetchLimit \<Rightarrow>
          (case pageStatement fault ''queue page'' (take (nat fetchLimit) (sort_key queueKey
                 (filter (\<lambda>r. case qy_Cursor q of None \<Rightarrow> True | Some c \<Rightarrow> (qi_AvailableAt r, qi_Origin r) > c)
                   (map queueItemOf (filter (queueMatches q now) (dd_queue (rb_discovery db))))))) of
             Inl err \<Rightarrow> Inl err
           | Inr items \<Rightarrow> Inr (trimQueuePage items (qy_Limit q))))"

definition QueueEventsPage :: "query_fault option \<Rightarrow> report_db \<Rightarrow> queue_event_query \<Rightarrow> go_error + queue_event list \<times> string" where
  "QueueEventsPage fault db q =
     (case pageLimit (ey_Limit q) of
        Inl err \<Rightarrow> Inl err
      | Inr fetchLimit \<Rightarrow>
          (case pageStatement fault ''queue event page'' (take (nat fetchLimit) (sort_key eventKey
                 (filter (\<lambda>r. eventMatches q r \<and> (case ey_Cursor q of None \<Rightarrow> True | Some (t, i) \<Rightarrow> (qv_OccurredAt r, qv_ID r) < (t, i))) (rb_events db)))) of
             Inl err \<Rightarrow> Inl err
           | Inr items \<Rightarrow> Inr (trimQueueEventPage items (ey_Limit q))))"

definition AuditsPage :: "query_fault option \<Rightarrow> report_db \<Rightarrow> audit_query \<Rightarrow> go_error + audit_report list \<times> string" where
  "AuditsPage fault db q =
     (case pageLimit (ay_Limit q) of
        Inl err \<Rightarrow> Inl err
      | Inr fetchLimit \<Rightarrow>
          (case pageStatement fault ''audit page'' (take (nat fetchLimit) (sort_key auditKey
                 (filter (\<lambda>r. case ay_Cursor q of None \<Rightarrow> True | Some (t, i) \<Rightarrow> (au_OccurredAt (ae_Event r), ae_ID r) < (t, i)) (auditRows db)))) of
             Inl err \<Rightarrow> Inl err
           | Inr items \<Rightarrow> Inr (trimAuditPage items (ay_Limit q))))"

section \<open>Following the cursors\<close>

text \<open>A client that asks for the next page as long as it is given a cursor; \<open>None\<close> when it gives up after \<open>n\<close> pages.\<close>

fun followPages :: "(string \<Rightarrow> go_error + 'a list \<times> string) \<Rightarrow> nat \<Rightarrow> string \<Rightarrow> go_error + 'a list option" where
  "followPages fetch 0 cursor = Inr None"
| "followPages fetch (Suc n) cursor =
     (case fetch cursor of
        Inl err \<Rightarrow> Inl err
      | Inr (items, nextCursor) \<Rightarrow>
          if nextCursor = [] then Inr (Some items)
          else (case followPages fetch n nextCursor of
                  Inl err \<Rightarrow> Inl err
                | Inr rest \<Rightarrow> Inr (map_option (\<lambda>more. items @ more) rest)))"

text \<open>What a handler makes of a cursor: it is decoded and the page after it is read.\<close>

definition cursorFetch :: "(string \<Rightarrow> go_error + 'c option) \<Rightarrow> ('c option \<Rightarrow> int \<Rightarrow> go_error + 'a list \<times> string) \<Rightarrow> int \<Rightarrow> string \<Rightarrow> go_error + 'a list \<times> string" where
  "cursorFetch decode page limit cursor = (case decode cursor of Inl err \<Rightarrow> Inl err | Inr c \<Rightarrow> page c limit)"

text \<open>
  The contract of a paged report: a page is cut from the matching rows in the order of their keys, after the key of the cursor, and
  the cursor of a row that can be encoded leads back to its key. Then the pages contain every row exactly once, in order.
\<close>

locale keyset =
  fixes rows :: "'a list" and key :: "'a \<Rightarrow> 'k::linorder" and page :: "'c option \<Rightarrow> int \<Rightarrow> go_error + 'a list \<times> string"
    and cursorKey :: "'c \<Rightarrow> 'k" and encode :: "'a \<Rightarrow> string" and decode :: "string \<Rightarrow> go_error + 'c option" and encodable :: "'a \<Rightarrow> bool"
  assumes page_cut: "1 \<le> limit \<Longrightarrow> limit \<le> maxLimit \<Longrightarrow>
      (case c of None \<Rightarrow> True | Some k \<Rightarrow> \<exists>r. encodable r \<and> decode (encode r) = Inr (Some k)) \<Longrightarrow>
      page c limit = Inr (trimPage encode (take (nat (limit + 1)) (sort_key key
        (filter (\<lambda>r. case c of None \<Rightarrow> True | Some k \<Rightarrow> cursorKey k < key r) rows))) limit)"
    and decode_none: "decode [] = Inr None"
    and decode_encode: "encodable r \<Longrightarrow> \<exists>k. decode (encode r) = Inr (Some k) \<and> cursorKey k = key r"
begin

lemma after_split:
  assumes "sort_key key rows = front @ r # remaining" and "distinct (map key rows)"
  shows "sort_key key (filter (\<lambda>x. key r < key x) rows) = remaining"
proof -
  have s: "sorted (map key (front @ r # remaining))" using assms(1) by (metis sorted_sort_key)
  have "mset (map key (sort_key key rows)) = mset (map key rows)" by (simp only: mset_map mset_sort)
  then have d: "distinct (map key (front @ r # remaining))" using assms mset_eq_imp_distinct_iff by metis
  have "sort_key key (filter (\<lambda>x. key r < key x) rows) = filter (\<lambda>x. key r < key x) (sort_key key rows)"
    by (simp add: filter_sort)
  also have "\<dots> = filter (\<lambda>x. key r < key x) (front @ r # remaining)" by (simp only: assms(1))
  also have "\<dots> = remaining"
  proof -
    have "filter (\<lambda>x. key r < key x) front = []" using s by (auto simp: filter_empty_conv sorted_append)
    moreover have "filter (\<lambda>x. key r < key x) remaining = remaining" using s d by (auto simp: filter_id_conv sorted_append less_le)
    ultimately show ?thesis by simp
  qed
  finally show ?thesis .
qed

lemma follow_rest:
  assumes "distinct (map key rows)" and "list_all encodable rows" and "1 \<le> limit" "limit \<le> maxLimit"
    and "sort_key key rows = front @ remaining" "cursor = (if front = [] then [] else encode (last front))" "length remaining < n"
  shows "followPages (cursorFetch decode page limit) n cursor = Inr (Some remaining)"
  using assms(5-7)
proof (induction n arbitrary: front remaining cursor)
  case (Suc n)
  have enc: "encodable r" if "r \<in> set (sort_key key rows)" for r using assms(2) that by (simp add: list_all_iff)
  obtain c where c: "decode cursor = Inr c" "case c of None \<Rightarrow> True | Some k \<Rightarrow> \<exists>r. encodable r \<and> decode (encode r) = Inr (Some k)"
    and rest: "sort_key key (filter (\<lambda>r. case c of None \<Rightarrow> True | Some k \<Rightarrow> cursorKey k < key r) rows) = remaining"
  proof (cases front rule: rev_cases)
    case Nil
    with Suc.prems that [of None] decode_none show thesis by simp
  next
    case (snoc front' r)
    with enc [of r] Suc.prems(1) have "encodable r" by simp
    from decode_encode [OF this] obtain k where k: "decode (encode r) = Inr (Some k)" "cursorKey k = key r" by blast
    from after_split [of front' r remaining] Suc.prems(1) snoc assms(1) k(2)
    have "sort_key key (filter (\<lambda>x. cursorKey k < key x) rows) = remaining" by simp
    with that [of "Some k"] k(1) Suc.prems(2) snoc \<open>encodable r\<close> show thesis by auto
  qed
  have page: "cursorFetch decode page limit cursor = Inr (trimPage encode (take (nat (limit + 1)) remaining) limit)"
    using page_cut [OF assms(3,4) c(2)] rest c(1) by (simp add: cursorFetch_def)
  show ?case
  proof (cases "int (length remaining) \<le> limit")
    case True
    then have "trimPage encode (take (nat (limit + 1)) remaining) limit = (remaining, [])" by (simp add: trimPage_def)
    with page show ?thesis by simp
  next
    case False
    let ?n = "nat limit"
    have more: "trimPage encode (take (nat (limit + 1)) remaining) limit = (take ?n remaining, encode (last (take ?n remaining)))"
      using False assms(3) by (simp add: trimPage_def min_def)
    have ne: "take ?n remaining \<noteq> []" using False assms(3) by auto
    then have "encodable (last (take ?n remaining))"
      using enc Suc.prems(1) by (metis Un_iff in_set_takeD last_in_set set_append)
    from decode_encode [OF this] decode_none have nonempty: "encode (last (take ?n remaining)) \<noteq> []" by auto
    have "followPages (cursorFetch decode page limit) n (encode (last (take ?n remaining))) = Inr (Some (drop ?n remaining))"
    proof (rule Suc.IH [of "front @ take ?n remaining"])
      show "length (drop ?n remaining) < n" using Suc.prems(3) False assms(3) by auto
    qed (use Suc.prems(1) ne in auto)
    with page more nonempty show ?thesis by simp
  qed
qed simp

theorem pages_complete:
  assumes "distinct (map key rows)" and "list_all encodable rows" and "1 \<le> limit" "limit \<le> maxLimit"
  shows "followPages (cursorFetch decode page limit) (length rows + 1) [] = Inr (Some (sort_key key rows))"
  using follow_rest [OF assms, of "[]" "sort_key key rows" "[]" "length rows + 1"] by simp

end


section \<open>The five reports keep the contract\<close>

text \<open>What the theorems below ask of the decoders, for one payload: what was encoded is decoded.\<close>

definition payloadSafe :: "codec \<Rightarrow> cursor_payload \<Rightarrow> bool" where
  "payloadSafe cd payload \<longleftrightarrow> co_Decode cd (cursorText payload) = Some payload"

definition timeSafe :: "codec \<Rightarrow> go_time \<Rightarrow> bool" where
  "timeSafe cd t \<longleftrightarrow> co_ParseTime cd (FormatRFC3339Nano t) = Some t \<and> t \<noteq> 0"

definition timedSafe :: "codec \<Rightarrow> string \<Rightarrow> go_time \<Rightarrow> int \<Rightarrow> bool" where
  "timedSafe cd kind t i \<longleftrightarrow> payloadSafe cd (timedPayload kind t i) \<and> timeSafe cd t \<and> i > 0"

lemma cursorText_nonempty: "cursorText p \<noteq> []"
  by (cases "cu_Origin p = []"; cases "cu_At p = []"; cases "cu_ID p = 0") (simp_all add: cursorText_def cursorJSON_def allSome_def)

lemma encodeCursor_nonempty: "encodeCursor p \<noteq> []"
  by (simp add: encodeCursor_def RawURLEncode_empty cursorText_nonempty)

lemma decodeCursor_encode:
  "payloadSafe cd p \<Longrightarrow> cu_Version p = cursorVersion \<Longrightarrow> decodeCursor cd (encodeCursor p) (cu_Kind p) = Inr p"
  by (simp add: decodeCursor_def encodeCursor_def RawURLDecode_Encode payloadSafe_def)

lemma decodeTimedCursor_encode:
  assumes "timedSafe cd kind t i"
  shows "decodeTimedCursor cd kind (encodeCursor (timedPayload kind t i)) = Inr (Some (t, i))"
  using assms decodeCursor_encode [of cd "timedPayload kind t i"]
  by (simp add: decodeTimedCursor_def encodeCursor_nonempty timedSafe_def timeSafe_def timedPayload_def)

text \<open>The key of a cursor that runs from the newest row to the oldest.\<close>

definition cursorRank :: "int \<times> int \<Rightarrow> int \<times> int" where "cursorRank c = (- fst c, - snd c)"

lemmas page_defs = pageLimit_def pageStatement_def

interpretation source_pages: keyset "filter (sourceMatches q) (sourceRows db)" so_Origin "\<lambda>c n. SourcesPage None db (q\<lparr>sy_Cursor := c, sy_Limit := n\<rparr>)"
  "\<lambda>c. c" sourceNextCursor "decodeSourceCursor cd" "\<lambda>r. payloadSafe cd (sourcePayload (so_Origin r)) \<and> canonicalCursorOrigin cd (so_Origin r)" for q db cd
proof
  have same: "sourceMatches (q\<lparr>sy_Cursor := c, sy_Limit := n\<rparr>) = sourceMatches q" for c n by (simp add: sourceMatches_def fun_eq_iff)
  have decodes: "decodeSourceCursor cd (sourceNextCursor r) = Inr (Some (so_Origin r))"
    if "payloadSafe cd (sourcePayload (so_Origin r)) \<and> canonicalCursorOrigin cd (so_Origin r)" for r
    using that decodeCursor_encode [of cd "sourcePayload (so_Origin r)"]
    by (simp add: decodeSourceCursor_def sourceNextCursor_def encodeCursor_nonempty sourcePayload_def)
  then show "\<exists>k. decodeSourceCursor cd (sourceNextCursor r) = Inr (Some k) \<and> k = so_Origin r"
    if "payloadSafe cd (sourcePayload (so_Origin r)) \<and> canonicalCursorOrigin cd (so_Origin r)" for r
    using that by blast
  show "SourcesPage None db (q\<lparr>sy_Cursor := c, sy_Limit := n\<rparr>) = Inr (trimPage sourceNextCursor (take (nat (n + 1)) (sort_key so_Origin
      (filter (\<lambda>r. case c of None \<Rightarrow> True | Some k \<Rightarrow> k < so_Origin r) (filter (sourceMatches q) (sourceRows db))))) n)"
    if "1 \<le> n" "n \<le> maxLimit"
      "case c of None \<Rightarrow> True | Some k \<Rightarrow> \<exists>r. (payloadSafe cd (sourcePayload (so_Origin r)) \<and> canonicalCursorOrigin cd (so_Origin r)) \<and>
         decodeSourceCursor cd (sourceNextCursor r) = Inr (Some k)" for n c
  proof -
    have "c \<noteq> Some []" using that(3) decodes by (auto simp: canonicalCursorOrigin_def)
    then have "(\<lambda>r. sourceMatches q r \<and> (case c of None \<Rightarrow> True | Some k \<Rightarrow> k = [] \<or> k < so_Origin r)) =
        (\<lambda>r. sourceMatches q r \<and> (case c of None \<Rightarrow> True | Some k \<Rightarrow> k < so_Origin r))"
      by (auto simp: fun_eq_iff split: option.splits)
    with that same show ?thesis by (simp add: SourcesPage_def page_defs trimSourcePage_def conj_commute)
  qed
  show "decodeSourceCursor cd [] = Inr None" by (simp add: decodeSourceCursor_def)
qed

interpretation crawl_pages: keyset "filter (crawlMatches q) (crawlRows db)" crawlKey "\<lambda>c n. CrawlsPage None db (q\<lparr>cy_Cursor := c, cy_Limit := n\<rparr>)"
  cursorRank crawlNextCursor "decodeCrawlCursor cd" "\<lambda>r. timedSafe cd ''crawls'' (cx_StartedAt r) (cx_ID r)" for q db cd
proof
  have same: "crawlMatches (q\<lparr>cy_Cursor := c, cy_Limit := n\<rparr>) = crawlMatches q" for c n by (simp add: crawlMatches_def fun_eq_iff)
  have cut: "(\<lambda>r. crawlMatches q r \<and> (case c of None \<Rightarrow> True | Some (t, i) \<Rightarrow> (cx_StartedAt r, cx_ID r) < (t, i))) =
      (\<lambda>r. crawlMatches q r \<and> (case c of None \<Rightarrow> True | Some k \<Rightarrow> cursorRank k < crawlKey r))" for c
    by (auto simp: fun_eq_iff cursorRank_def crawlKey_def split: option.splits)
  show "CrawlsPage None db (q\<lparr>cy_Cursor := c, cy_Limit := n\<rparr>) = Inr (trimPage crawlNextCursor (take (nat (n + 1)) (sort_key crawlKey
      (filter (\<lambda>r. case c of None \<Rightarrow> True | Some k \<Rightarrow> cursorRank k < crawlKey r) (filter (crawlMatches q) (crawlRows db))))) n)"
    if "1 \<le> n" "n \<le> maxLimit" for n c
    using that same cut by (simp add: CrawlsPage_def page_defs trimCrawlPage_def conj_commute)
  show "decodeCrawlCursor cd [] = Inr None" by (simp add: decodeCrawlCursor_def decodeTimedCursor_def)
  show "\<exists>k. decodeCrawlCursor cd (crawlNextCursor r) = Inr (Some k) \<and> cursorRank k = crawlKey r"
    if "timedSafe cd ''crawls'' (cx_StartedAt r) (cx_ID r)" for r
    using decodeTimedCursor_encode [OF that] by (auto simp: decodeCrawlCursor_def crawlNextCursor_def cursorRank_def crawlKey_def)
qed

interpretation queue_pages: keyset "map queueItemOf (filter (queueMatches q now) (dd_queue (rb_discovery db)))" queueKey
  "\<lambda>c n. QueuePage None now db (q\<lparr>qy_Cursor := c, qy_Limit := n\<rparr>)" "\<lambda>c. c" queueNextCursor "decodeQueueCursor cd"
  "\<lambda>r. payloadSafe cd (queuePayload (qi_AvailableAt r) (qi_Origin r)) \<and> timeSafe cd (qi_AvailableAt r) \<and> canonicalCursorOrigin cd (qi_Origin r)" for q now db cd
proof
  have same: "queueMatches (q\<lparr>qy_Cursor := c, qy_Limit := n\<rparr>) = queueMatches q" for c n by (simp add: queueMatches_def fun_eq_iff)
  show "QueuePage None now db (q\<lparr>qy_Cursor := c, qy_Limit := n\<rparr>) = Inr (trimPage queueNextCursor (take (nat (n + 1)) (sort_key queueKey
      (filter (\<lambda>r. case c of None \<Rightarrow> True | Some k \<Rightarrow> k < queueKey r) (map queueItemOf (filter (queueMatches q now) (dd_queue (rb_discovery db))))))) n)"
    if "1 \<le> n" "n \<le> maxLimit" for n c
    using that same by (cases c) (simp_all add: QueuePage_def page_defs trimQueuePage_def flip: queueKey_def)
  show "decodeQueueCursor cd [] = Inr None" by (simp add: decodeQueueCursor_def)
  show "\<exists>k. decodeQueueCursor cd (queueNextCursor r) = Inr (Some k) \<and> k = queueKey r"
    if "payloadSafe cd (queuePayload (qi_AvailableAt r) (qi_Origin r)) \<and> timeSafe cd (qi_AvailableAt r) \<and> canonicalCursorOrigin cd (qi_Origin r)" for r
    using that decodeCursor_encode [of cd "queuePayload (qi_AvailableAt r) (qi_Origin r)"]
    by (simp add: decodeQueueCursor_def queueNextCursor_def encodeCursor_nonempty queuePayload_def queueKey_def timeSafe_def)
qed

interpretation event_pages: keyset "filter (eventMatches q) (rb_events db)" eventKey "\<lambda>c n. QueueEventsPage None db (q\<lparr>ey_Cursor := c, ey_Limit := n\<rparr>)"
  cursorRank queueEventNextCursor "decodeQueueEventCursor cd" "\<lambda>r. timedSafe cd ''queue_events'' (qv_OccurredAt r) (qv_ID r)" for q db cd
proof
  have same: "eventMatches (q\<lparr>ey_Cursor := c, ey_Limit := n\<rparr>) = eventMatches q" for c n by (simp add: eventMatches_def fun_eq_iff)
  have cut: "(\<lambda>r. eventMatches q r \<and> (case c of None \<Rightarrow> True | Some (t, i) \<Rightarrow> (qv_OccurredAt r, qv_ID r) < (t, i))) =
      (\<lambda>r. eventMatches q r \<and> (case c of None \<Rightarrow> True | Some k \<Rightarrow> cursorRank k < eventKey r))" for c
    by (auto simp: fun_eq_iff cursorRank_def eventKey_def split: option.splits)
  show "QueueEventsPage None db (q\<lparr>ey_Cursor := c, ey_Limit := n\<rparr>) = Inr (trimPage queueEventNextCursor (take (nat (n + 1)) (sort_key eventKey
      (filter (\<lambda>r. case c of None \<Rightarrow> True | Some k \<Rightarrow> cursorRank k < eventKey r) (filter (eventMatches q) (rb_events db))))) n)"
    if "1 \<le> n" "n \<le> maxLimit" for n c
    using that same cut by (simp add: QueueEventsPage_def page_defs trimQueueEventPage_def conj_commute)
  show "decodeQueueEventCursor cd [] = Inr None" by (simp add: decodeQueueEventCursor_def decodeTimedCursor_def)
  show "\<exists>k. decodeQueueEventCursor cd (queueEventNextCursor r) = Inr (Some k) \<and> cursorRank k = eventKey r"
    if "timedSafe cd ''queue_events'' (qv_OccurredAt r) (qv_ID r)" for r
    using decodeTimedCursor_encode [OF that] by (auto simp: decodeQueueEventCursor_def queueEventNextCursor_def cursorRank_def eventKey_def)
qed

interpretation audit_pages: keyset "auditRows db" auditKey "\<lambda>c n. AuditsPage None db \<lparr>ay_Limit = n, ay_Cursor = c\<rparr>"
  cursorRank auditNextCursor "decodeAuditCursor cd" "\<lambda>r. timedSafe cd ''audit'' (au_OccurredAt (ae_Event r)) (ae_ID r)" for db cd
proof
  have cut: "(\<lambda>r. case c of None \<Rightarrow> True | Some (t, i) \<Rightarrow> (au_OccurredAt (ae_Event r), ae_ID r) < (t, i)) =
      (\<lambda>r. case c of None \<Rightarrow> True | Some k \<Rightarrow> cursorRank k < auditKey r)" for c
    by (auto simp: fun_eq_iff cursorRank_def auditKey_def split: option.splits)
  show "AuditsPage None db \<lparr>ay_Limit = n, ay_Cursor = c\<rparr> = Inr (trimPage auditNextCursor (take (nat (n + 1)) (sort_key auditKey
      (filter (\<lambda>r. case c of None \<Rightarrow> True | Some k \<Rightarrow> cursorRank k < auditKey r) (auditRows db)))) n)"
    if "1 \<le> n" "n \<le> maxLimit" for n c
    using that cut by (simp add: AuditsPage_def page_defs trimAuditPage_def)
  show "decodeAuditCursor cd [] = Inr None" by (simp add: decodeAuditCursor_def decodeTimedCursor_def)
  show "\<exists>k. decodeAuditCursor cd (auditNextCursor r) = Inr (Some k) \<and> cursorRank k = auditKey r"
    if "timedSafe cd ''audit'' (au_OccurredAt (ae_Event r)) (ae_ID r)" for r
    using decodeTimedCursor_encode [OF that] by (auto simp: decodeAuditCursor_def auditNextCursor_def cursorRank_def auditKey_def)
qed

end
