(* ===== verification/Reporting_Status.thy ===== *)
theory Reporting_Status
  imports Reporting
begin

text \<open>
  The reports that are not paged through the query filters: the plain lists, the status, one crawl with its page attempts, one source
  with its provenance, and the metrics (\<^verbatim>\<open>postgres.go\<close>, \<^verbatim>\<open>crawl_detail_pagination.go\<close>, \<^verbatim>\<open>postgres_source_detail.go\<close> and
  \<^verbatim>\<open>postgres_metrics.go\<close> of \<^verbatim>\<open>internal/reporting\<close>).
\<close>

section \<open>Lists\<close>

definition Sources :: "query_fault option \<Rightarrow> report_db \<Rightarrow> int \<Rightarrow> go_error + source_report list" where
  "Sources fault db limit =
     (if \<not> validReaderLimit limit then Inl errInvalidLimit
      else listStatement fault ''sources'' (take (nat limit) (sort_key so_Origin (sourceRows db))))"

definition Crawls :: "query_fault option \<Rightarrow> report_db \<Rightarrow> int \<Rightarrow> go_error + crawl_run list" where
  "Crawls fault db limit =
     (if \<not> validReaderLimit limit then Inl errInvalidLimit
      else listStatement fault ''crawl runs'' (take (nat limit) (sort_key crawlKey (crawlRows db))))"

definition reader_Queue :: "query_fault option \<Rightarrow> report_db \<Rightarrow> int \<Rightarrow> go_error + queue_item list" where
  "reader_Queue fault db limit =
     (if \<not> validReaderLimit limit then Inl errInvalidLimit
      else listStatement fault ''queue'' (take (nat limit) (sort_key queueKey (map queueItemOf (dd_queue (rb_discovery db))))))"

definition QueueEvents :: "query_fault option \<Rightarrow> report_db \<Rightarrow> int \<Rightarrow> go_error + queue_event list" where
  "QueueEvents fault db limit =
     (if \<not> validReaderLimit limit then Inl errInvalidLimit
      else listStatement fault ''queue events'' (take (nat limit) (sort_key eventKey (rb_events db))))"

definition Audits :: "query_fault option \<Rightarrow> report_db \<Rightarrow> int \<Rightarrow> go_error + audit_report list" where
  "Audits fault db limit =
     (if \<not> validReaderLimit limit then Inl errInvalidLimit
      else pageStatement fault ''audits'' (take (nat limit) (sort_key auditKey (auditRows db))))"

definition serviceOf :: "service_heartbeat \<Rightarrow> service_status" where
  "serviceOf h =
     \<lparr>sv_Service = hb_Service h, sv_InstanceID = hb_InstanceID h, sv_State = hb_State h, sv_CurrentOrigin = origin_String (hb_CurrentOrigin h),
      sv_Message = hb_Message h, sv_StartedAt = hb_StartedAt h, sv_UpdatedAt = hb_UpdatedAt h\<rparr>"

definition Services :: "query_fault option \<Rightarrow> report_db \<Rightarrow> go_error + service_status list" where
  "Services fault db =
     listStatement fault ''services''
       (sort_key (\<lambda>s. (sv_Service s, sv_InstanceID s)) (map (\<lambda>(_, h). serviceOf h) (tm_heartbeats (rb_base db))))"

section \<open>Status\<close>

definition countOf :: "('a \<Rightarrow> bool) \<Rightarrow> 'a list \<Rightarrow> int" where
  "countOf P rows = int (length (filter P rows))"

definition queueSummary :: "go_time \<Rightarrow> (string \<times> queue_row) list \<Rightarrow> queue_summary" where
  "queueSummary now queue =
     \<lparr>qt_Total = int (length queue), qt_Probe = countOf (\<lambda>e. q_mode (snd e) = Probe) queue,
      qt_Reprobe = countOf (\<lambda>e. q_mode (snd e) = Reprobe) queue, qt_Recurring = countOf (\<lambda>e. q_mode (snd e) = Recurring) queue,
      qt_Leased = countOf (\<lambda>e. leasedRow now (snd e)) queue,
      qt_OldestAvailableAt = (if queue = [] then None else Some (Min (set (map (\<lambda>e. q_available_at (snd e)) queue))))\<rparr>"

text \<open>The classification of the status statement has the columns of the source rows it counts.\<close>

definition sourceSummary :: "discovery_db \<Rightarrow> source_summary" where
  "sourceSummary db =
     (let origins = sourceUniverse db
      in \<lparr>su_Total = int (length origins), su_Seeded = countOf (sourceFlag ss_seeded db) origins,
          su_Automatic = countOf (sourceFlag ss_automatically_discovered db) origins,
          su_Verified = countOf (\<lambda>o1. case effectiveRow (dd_store db) o1 of None \<Rightarrow> False | Some r \<Rightarrow> ob_outcome r = ''valid'') origins,
          su_Blocked = countOf (sourceFlag ss_crawl_blocked db) origins,
          su_CrawlEligible = countOf (\<lambda>o1. \<not> sourceFlag ss_crawl_blocked db o1 \<and> o1 \<in> set (dd_schedule db)) origins\<rparr>)"

definition controlStatus :: "telemetry_db \<Rightarrow> control_status" where
  "controlStatus db =
     \<lparr>cl_DiscoveryPaused = cn_discovery_paused (dd_control (tm_base db)), cl_VerificationPaused = cn_verification_paused (dd_control (tm_base db)),
      cl_AutomaticExpansionPaused = cn_automatic_expansion_paused (dd_control (tm_base db)), cl_UpdatedAt = tm_control_updated_at db\<rparr>"

definition backpressureOf :: "postgres_config \<Rightarrow> queue_summary \<Rightarrow> backpressure_status" where
  "backpressureOf config queue =
     \<lparr>bp_AutomaticCrawlEnabled = pg_AutomaticCrawlEnabled config,
      bp_Active = (pg_AutomaticCrawlEnabled config \<and> qt_Probe queue \<ge> pg_MaxPendingProbes config),
      bp_PendingProbes = qt_Probe queue, bp_MaxPendingProbes = pg_MaxPendingProbes config\<rparr>"

text \<open>The two statements see the tables one after the other; here both see \<open>db\<close>. The time of generation is set by the handler.\<close>

definition Status :: "postgres_config \<Rightarrow> go_error option \<Rightarrow> query_fault option \<Rightarrow> go_time \<Rightarrow> report_db \<Rightarrow> go_error + report_status" where
  "Status config dbErr fault now db =
     (case dbErr of
        Some err \<Rightarrow> Inl (Wrap ''reporting: read status'' [err])
      | None \<Rightarrow>
          (let queue = queueSummary now (dd_queue (rb_discovery db))
           in case Services fault db of
                Inl err \<Rightarrow> Inl err
              | Inr services \<Rightarrow>
                  Inr \<lparr>re_GeneratedAt = 0, re_Control = controlStatus (rb_base db), re_Backpressure = backpressureOf config queue,
                       re_Queue = queue, re_Sources = sourceSummary (rb_discovery db), re_Services = services\<rparr>))"

section \<open>One crawl\<close>

definition runAttempts :: "report_db \<Rightarrow> int \<Rightarrow> (int \<times> page_row) list" where
  "runAttempts db runID = map (\<lambda>((_, sequence), row). (sequence, row)) (filter (\<lambda>((run, _), _). run = runID) (tm_pages (rb_base db)))"

definition crawlPages :: "query_fault option \<Rightarrow> report_db \<Rightarrow> int \<Rightarrow> int \<Rightarrow> int \<Rightarrow> go_error + (int \<times> page_row) list" where
  "crawlPages fault db runID limit after =
     listStatement fault ''crawl pages'' (take (nat limit) (sort_key fst (filter (\<lambda>p. fst p > after) (runAttempts db runID))))"

text \<open>\<^verbatim>\<open>strconv.FormatInt(_, 10)\<close>.\<close>

definition FormatInt :: "int \<Rightarrow> string" where
  "FormatInt n = (if n < 0 then CHR ''-'' # FormatUint (nat (- n)) else FormatUint (nat n))"

definition detailPayload :: "int \<Rightarrow> int \<Rightarrow> cursor_payload" where
  "detailPayload runID sequence =
     \<lparr>cu_Version = cursorVersion, cu_Kind = ''crawl_pages'', cu_Origin = FormatInt runID, cu_At = [], cu_ID = sequence\<rparr>"

definition boundedCrawlDetail :: "crawl_detail \<Rightarrow> int \<Rightarrow> int \<Rightarrow> int \<Rightarrow> crawl_detail" where
  "boundedCrawlDetail detail runID limit after =
     (let pages = dropWhile (\<lambda>p. fst p \<le> after) (de_Pages detail)
      in if int (length pages) > limit
         then detail\<lparr>de_Pages := take (nat limit) pages,
                     de_NextCursor := encodeCursor (detailPayload runID (fst (last (take (nat limit) pages))))\<rparr>
         else detail\<lparr>de_Pages := pages, de_NextCursor := []\<rparr>)"

text \<open>\<open>Inr None\<close> is the answer that there is no such crawl.\<close>

definition CrawlPage ::
    "go_error option \<Rightarrow> query_fault option \<Rightarrow> report_db \<Rightarrow> int \<Rightarrow> int \<Rightarrow> int \<Rightarrow> go_error + crawl_detail option" where
  "CrawlPage dbErr fault db runID limit after =
     (if \<not> validReaderLimit limit then Inl errInvalidLimit
      else if after < 0 then Inl errInvalidCursor
      else if runID \<le> 0 then Inl errInvalidCrawlID
      else (case (case dbErr of
                    Some err \<Rightarrow> Inl err
                  | None \<Rightarrow> (case filter (\<lambda>r. cx_ID r = runID) (crawlRows db) of [] \<Rightarrow> Inl errNoRows | run # _ \<Rightarrow> Inr run)) of
              Inl err \<Rightarrow> if errors_Is err errNoRows then Inr None else Inl (Wrap ''reporting: read crawl'' [err])
            | Inr run \<Rightarrow>
                (case crawlPages fault db runID (limit + 1) after of
                   Inl err \<Rightarrow> Inl err
                 | Inr pages \<Rightarrow>
                     Inr (Some (boundedCrawlDetail \<lparr>de_Run = run, de_Pages = pages, de_NextCursor = []\<rparr> runID limit after)))))"

definition reader_Crawl :: "go_error option \<Rightarrow> query_fault option \<Rightarrow> report_db \<Rightarrow> int \<Rightarrow> go_error + crawl_detail option" where
  "reader_Crawl dbErr fault db runID = CrawlPage dbErr fault db runID defaultLimit 0"

section \<open>One source\<close>

definition latestCrawl :: "report_db \<Rightarrow> string \<Rightarrow> crawl_run option" where
  "latestCrawl db o1 =
     (case sort_key crawlKey (filter (\<lambda>r. cx_SourceOrigin r = o1) (crawlRows db)) of [] \<Rightarrow> None | r # _ \<Rightarrow> Some r)"

definition robotsRows :: "report_db \<Rightarrow> string \<Rightarrow> robots_observation list" where
  "robotsRows db o1 =
     map (\<lambda>((run, sequence), row). \<lparr>rv_CrawlRunID = run, rv_Sequence = sequence, rv_ObservedAt = pa_StartedAt (pr_attempt row),
            rv_Decision = pa_RobotsDecision (pr_attempt row)\<rparr>)
       (filter (\<lambda>((run, _), _). case map_of (dd_runs (rb_discovery db)) run of None \<Rightarrow> False | Some r \<Rightarrow> rn_source_origin r = o1)
         (tm_pages (rb_base db)))"

definition latestRobots :: "report_db \<Rightarrow> string \<Rightarrow> robots_observation option" where
  "latestRobots db o1 =
     (case sort_key (\<lambda>r. (- rv_ObservedAt r, - rv_CrawlRunID r, - rv_Sequence r)) (robotsRows db o1) of [] \<Rightarrow> None | r # _ \<Rightarrow> Some r)"

definition sourceDetailBase :: "go_error option \<Rightarrow> report_db \<Rightarrow> string \<Rightarrow> go_error + source_detail option" where
  "sourceDetailBase dbErr db o1 =
     (case (case dbErr of
              Some err \<Rightarrow> Inl err
            | None \<Rightarrow> if o1 \<notin> set (sourceUniverse (rb_discovery db)) then Inl errNoRows
                      else Inr \<lparr>sx_Source = classified (rb_discovery db) o1, sx_DiscoveredBy = [],
                                sx_Queue = map_option (\<lambda>row. queueItemOf (o1, row)) (map_of (dd_queue (rb_discovery db)) o1),
                                sx_LatestCrawl = latestCrawl db o1, sx_LatestRobotsObservation = latestRobots db o1\<rparr>) of
        Inl err \<Rightarrow> if errors_Is err errNoRows then Inr None else Inl (Wrap ''reporting: read source detail'' [err])
      | Inr detail \<Rightarrow> Inr (Some detail))"

definition sourceProvenance :: "query_fault option \<Rightarrow> report_db \<Rightarrow> string \<Rightarrow> int \<Rightarrow> go_error + discovery_provenance list" where
  "sourceProvenance fault db o1 limit =
     listStatement fault ''source provenance''
       (take (nat limit) (sort_key (\<lambda>p. (- dv_LastDiscoveredAt p, dv_SourceOrigin p, dv_Kind p))
         (map (\<lambda>((source, _, kind), row). \<lparr>dv_SourceOrigin = source, dv_Kind = kind, dv_FirstDiscoveredAt = ed_first_discovered_at row,
                  dv_LastDiscoveredAt = ed_last_discovered_at row\<rparr>)
           (filter (\<lambda>((_, candidate, _), _). candidate = o1) (dd_edges (rb_discovery db))))))"

definition Source ::
    "host_lib \<Rightarrow> go_error option \<Rightarrow> query_fault option \<Rightarrow> report_db \<Rightarrow> string \<Rightarrow> int \<Rightarrow> go_error + source_detail option" where
  "Source lib dbErr fault db rawOrigin provenanceLimit =
     (if \<not> validReaderLimit provenanceLimit then Inl errInvalidLimit
      else (case Origin.Parse lib rawOrigin of
              Inl _ \<Rightarrow> Inl errInvalidSourceOrigin
            | Inr parsed \<Rightarrow>
                if origin_String parsed = [] then Inl errInvalidSourceOrigin
                else (case sourceDetailBase dbErr db (origin_String parsed) of
                        Inl err \<Rightarrow> Inl err
                      | Inr None \<Rightarrow> Inr None
                      | Inr (Some detail) \<Rightarrow>
                          (case sourceProvenance fault db (origin_String parsed) provenanceLimit of
                             Inl err \<Rightarrow> Inl err
                           | Inr provenance \<Rightarrow> Inr (Some (detail\<lparr>sx_DiscoveredBy := provenance\<rparr>))))))"

section \<open>Metrics\<close>

record operational_metrics =
  om_Candidates :: int
  om_DiscoveryEdges :: int
  om_CrawlRuns :: int
  om_UnfinishedCrawlRuns :: int
  om_PagesAttempted :: int
  om_PagesParsed :: int
  om_OriginsFound :: int
  om_OriginsPromoted :: int
  om_OriginsDeferred :: int
  om_Failures :: int
  om_RobotsDenials :: int
  om_PageFailureCategories :: "(string \<times> int) list"
  om_HTTPStatuses :: "(string \<times> int) list"
  om_VerificationQueueFailureCategories :: "(string \<times> int) list"

definition metricKindPageFailureCategory :: string where "metricKindPageFailureCategory = ''page_failure_category''"
definition metricKindHTTPStatus :: string where "metricKindHTTPStatus = ''http_status''"
definition metricKindVerificationQueueFailureCategory :: string where
  "metricKindVerificationQueueFailureCategory = ''verification_queue_failure_category''"

text \<open>\<^verbatim>\<open>GROUP BY label\<close> with the number of rows of each group.\<close>

definition groupCounts :: "string \<Rightarrow> string list \<Rightarrow> (string \<times> string \<times> int) list" where
  "groupCounts kind labels = map (\<lambda>l. (kind, l, int (count_list labels l))) (remdups labels)"

definition metricRows :: "report_db \<Rightarrow> (string \<times> string \<times> int) list" where
  "metricRows db =
     sort_key (\<lambda>(kind, label, _). (kind, label))
       (groupCounts metricKindPageFailureCategory
          (filter (\<lambda>c. c \<noteq> ''none'') (map (\<lambda>(_, row). pr_failure_category row) (tm_pages (rb_base db)))) @
        groupCounts metricKindHTTPStatus
          (map FormatInt (List.map_filter (\<lambda>(_, row). pa_StatusCode (pr_attempt row)) (tm_pages (rb_base db)))) @
        groupCounts metricKindVerificationQueueFailureCategory
          (List.map_filter (\<lambda>(_, row). q_last_failure_category row) (dd_queue (rb_discovery db))))"

definition addBreakdown :: "string \<times> string \<times> int \<Rightarrow> operational_metrics \<Rightarrow> operational_metrics" where
  "addBreakdown row metrics =
     (case row of (kind, breakdown) \<Rightarrow>
        if kind = metricKindPageFailureCategory
        then metrics\<lparr>om_PageFailureCategories := om_PageFailureCategories metrics @ [breakdown]\<rparr>
        else if kind = metricKindHTTPStatus then metrics\<lparr>om_HTTPStatuses := om_HTTPStatuses metrics @ [breakdown]\<rparr>
        else if kind = metricKindVerificationQueueFailureCategory
        then metrics\<lparr>om_VerificationQueueFailureCategories := om_VerificationQueueFailureCategories metrics @ [breakdown]\<rparr>
        else metrics)"

definition metricTotals :: "report_db \<Rightarrow> operational_metrics" where
  "metricTotals db =
     (let runs = crawlRows db
      in \<lparr>om_Candidates = int (length (dd_candidates (rb_discovery db))), om_DiscoveryEdges = int (length (dd_edges (rb_discovery db))),
          om_CrawlRuns = int (length runs), om_UnfinishedCrawlRuns = countOf (\<lambda>r. cx_FinishedAt r = None) runs,
          om_PagesAttempted = sum_list (map (\<lambda>r. sm_pages_attempted (cx_Summary r)) runs),
          om_PagesParsed = sum_list (map (\<lambda>r. sm_pages_parsed (cx_Summary r)) runs),
          om_OriginsFound = sum_list (map (\<lambda>r. sm_candidates_discovered (cx_Summary r)) runs),
          om_OriginsPromoted = sum_list (map cx_PromotionsAdmitted runs), om_OriginsDeferred = sum_list (map cx_PromotionsDeferred runs),
          om_Failures = sum_list (map (\<lambda>r. sm_pages_failed (cx_Summary r)) runs),
          om_RobotsDenials = sum_list (map (\<lambda>r. sm_pages_blocked (cx_Summary r)) runs),
          om_PageFailureCategories = [], om_HTTPStatuses = [], om_VerificationQueueFailureCategories = []\<rparr>)"

definition Metrics :: "go_error option \<Rightarrow> query_fault option \<Rightarrow> report_db \<Rightarrow> go_error + operational_metrics" where
  "Metrics dbErr fault db =
     (case dbErr of
        Some err \<Rightarrow> Inl (Wrap ''reporting: read metrics'' [err])
      | None \<Rightarrow>
          (case fault of
             Some (ReadFault err) \<Rightarrow> Inl (Wrap ''reporting: read metric breakdowns'' [err])
           | Some (CollectFault err) \<Rightarrow> Inl (Wrap ''reporting: read metric breakdown rows'' [err])
           | None \<Rightarrow> Inr (fold addBreakdown (metricRows db) (metricTotals db))))"

section \<open>What the reports say\<close>

lemma countOf_le: "(\<And>x. P x \<Longrightarrow> Q x) \<Longrightarrow> countOf P xs \<le> countOf Q xs"
  unfolding countOf_def by (induction xs) auto

lemma countOf_map: "countOf P (map f xs) = countOf (\<lambda>x. P (f x)) xs"
  by (simp add: countOf_def filter_map comp_def)

lemma queue_modes_partition:
  "qt_Total (queueSummary now queue) = qt_Probe (queueSummary now queue) + qt_Reprobe (queueSummary now queue) + qt_Recurring (queueSummary now queue)"
proof (induction queue)
  case (Cons e queue)
  then show ?case by (cases "q_mode (snd e)") (simp_all add: queueSummary_def countOf_def)
qed (simp add: queueSummary_def countOf_def)

lemma sourceSummary_counts:
  "su_Total (sourceSummary (rb_discovery db)) = int (length (sourceRows db))"
  "su_Seeded (sourceSummary (rb_discovery db)) = countOf so_Seeded (sourceRows db)"
  "su_Automatic (sourceSummary (rb_discovery db)) = countOf so_AutomaticallyDiscovered (sourceRows db)"
  "su_Verified (sourceSummary (rb_discovery db)) = countOf so_Verified (sourceRows db)"
  "su_Blocked (sourceSummary (rb_discovery db)) = countOf so_Blocked (sourceRows db)"
  "su_CrawlEligible (sourceSummary (rb_discovery db)) = countOf so_CrawlEligible (sourceRows db)"
  by (simp_all add: sourceSummary_def sourceRows_def classified_def Let_def countOf_map cong: option.case_cong)

lemma pendingProbes_counted: "pendingProbes now db \<le> qt_Probe (queueSummary now (dd_queue db))"
  using countOf_le [of "\<lambda>(_, row). activeProbe now row" "\<lambda>e. q_mode (snd e) = Probe" "dd_queue db"]
  by (auto simp: pendingProbes_def queueSummary_def countOf_def activeProbe_def)

lemma inactive_has_room:
  assumes "Status config dbErr fault now db = Inr st" and "pg_AutomaticCrawlEnabled config" and "\<not> bp_Active (re_Backpressure st)"
  shows "pendingProbes now (rb_discovery db) < pg_MaxPendingProbes config"
  using assms pendingProbes_counted [of now "rb_discovery db"]
  by (auto simp: Status_def Let_def backpressureOf_def split: option.splits sum.splits)

text \<open>Probes that wait for their time: not available yet, and not leased.\<close>

definition waitingProbe :: "go_time \<Rightarrow> queue_row \<Rightarrow> bool" where
  "waitingProbe now row \<longleftrightarrow> q_mode row = Probe \<and> q_available_at row > now \<and> q_lease_expires_at row = None"

lemma waiting_not_pending: "list_all (\<lambda>e. waitingProbe now (snd e)) (dd_queue db) \<Longrightarrow> pendingProbes now db = 0"
  by (auto simp: pendingProbes_def activeProbe_def waitingProbe_def list_all_iff filter_empty_conv)

lemma waiting_all_probes: "list_all (\<lambda>e. waitingProbe now (snd e)) queue \<Longrightarrow> qt_Probe (queueSummary now queue) = int (length queue)"
  by (simp add: queueSummary_def countOf_def waitingProbe_def list_all_iff filter_id_conv)

text \<open>
  C31. A backpressure that is reported as active does not prevent automatic discovery from creating probe work. The report counts every
  probe of the queue, the admission only those that are due or leased: when as many probes as the limit allows wait for their time, the
  status says that the limit is reached, and the same tables admit another probe.
\<close>
theorem backpressure_active_still_admits:
  assumes "list_all (\<lambda>e. waitingProbe now (snd e)) (dd_queue (rb_discovery db))"
    and "maxPendingProbes config \<le> int (length (dd_queue (rb_discovery db)))" and "0 < maxPendingProbes config"
    and "probeEligible (rb_discovery db) o1"
  shows "(\<exists>st. Status \<lparr>pg_AutomaticCrawlEnabled = True, pg_MaxPendingProbes = maxPendingProbes config\<rparr> None None now db = Inr st \<and>
            bp_Active (re_Backpressure st)) \<and>
    admitProbes config now availableAt [o1] (rb_discovery db) = (1, insertProbe availableAt o1 (rb_discovery db))"
proof (rule conjI)
  show "\<exists>st. Status \<lparr>pg_AutomaticCrawlEnabled = True, pg_MaxPendingProbes = maxPendingProbes config\<rparr> None None now db = Inr st \<and>
      bp_Active (re_Backpressure st)"
    using assms(2) waiting_all_probes [OF assms(1)] by (simp add: Status_def Services_def listStatement_def backpressureOf_def Let_def)
  obtain n where "nat (maxPendingProbes config) = Suc n" using assms(3) by (cases "nat (maxPendingProbes config)") auto
  then show "admitProbes config now availableAt [o1] (rb_discovery db) = (1, insertProbe availableAt o1 (rb_discovery db))"
    using waiting_not_pending [OF assms(1)] assms(3,4) by (simp add: admitProbes_def insertProbe_def probeEligible_def)
qed

text \<open>One probe that was put back to a later time, and a limit of one.\<close>

definition waitingTables :: report_db where
  "waitingTables =
     \<lparr>rb_base = \<lparr>tm_base = exampleSources\<lparr>dd_queue := [(''https://a.example'', new_row 9 Probe)]\<rparr>, tm_sequence = 0, tm_summaries = [],
        tm_pages = [], tm_heartbeats = [], tm_control_updated_at = 0\<rparr>, rb_events = []\<rparr>"

theorem backpressure_active_still_admits_witness:
  "(\<exists>st. Status \<lparr>pg_AutomaticCrawlEnabled = True, pg_MaxPendingProbes = 1\<rparr> None None 5 waitingTables = Inr st \<and> bp_Active (re_Backpressure st)) \<and>
    fst (admitProbes (automatic_config_zero\<lparr>ac_MaxPendingProbes := 1\<rparr>) 5 5 [''https://b.example''] (rb_discovery waitingTables)) = 1"
proof -
  let ?config = "automatic_config_zero\<lparr>ac_MaxPendingProbes := 1\<rparr>"
  have limit: "maxPendingProbes ?config = 1" by (simp add: maxPendingProbes_def automatic_config_zero_def)
  have "list_all (\<lambda>e. waitingProbe 5 (snd e)) (dd_queue (rb_discovery waitingTables))"
    "maxPendingProbes ?config \<le> int (length (dd_queue (rb_discovery waitingTables)))"
    by (simp_all add: waitingTables_def waitingProbe_def new_row_def limit)
  moreover have "probeEligible (rb_discovery waitingTables) ''https://b.example''"
    by (simp add: waitingTables_def probeEligible_def sourceFlag_def exampleSources_def exampleSource_def origin_String_def)
  ultimately show ?thesis
    using backpressure_active_still_admits [of 5 waitingTables ?config "''https://b.example''" 5] limit by simp
qed

section \<open>The breakdowns of the metrics\<close>

lemma fold_addBreakdown:
  "om_PageFailureCategories (fold addBreakdown rows m) =
     om_PageFailureCategories m @ map snd (filter (\<lambda>r. fst r = metricKindPageFailureCategory) rows)"
  "om_HTTPStatuses (fold addBreakdown rows m) = om_HTTPStatuses m @ map snd (filter (\<lambda>r. fst r = metricKindHTTPStatus) rows)"
  "om_VerificationQueueFailureCategories (fold addBreakdown rows m) =
     om_VerificationQueueFailureCategories m @ map snd (filter (\<lambda>r. fst r = metricKindVerificationQueueFailureCategory) rows)"
  by (induction rows arbitrary: m)
    (auto simp: addBreakdown_def metricKindPageFailureCategory_def metricKindHTTPStatus_def metricKindVerificationQueueFailureCategory_def)

lemma groupCounts_kind: "filter (\<lambda>r. fst r = kind) (groupCounts kind' labels) = (if kind' = kind then groupCounts kind' labels else [])"
  by (auto simp: groupCounts_def filter_map comp_def)

lemma insort_key_map: "insort_key f (g x) (map g ys) = map g (insort_key (\<lambda>y. f (g y)) x ys)"
  by (induction ys) auto

lemma sort_key_map: "sort_key f (map g xs) = map g (sort_key (\<lambda>x. f (g x)) xs)"
  by (induction xs) (simp_all add: insort_key_map)

lemma insort_paired: "insort_key (\<lambda>l. (kind, l)) x ys = insort x ys"
  by (induction ys) auto

lemma sort_paired: "sort_key (\<lambda>l. (kind, l)) xs = sort xs"
  by (induction xs) (simp_all add: insort_paired)

lemma sort_groupCounts:
  "map snd (sort_key (\<lambda>(kind, label, _). (kind, label)) (groupCounts kind labels)) =
   map (\<lambda>l. (l, int (count_list labels l))) (sort (remdups labels))"
  by (simp add: groupCounts_def sort_key_map sort_paired)

text \<open>
  The three breakdowns that are read in one statement are the counts of their own rows: every label once, in order.
\<close>
theorem Metrics_breakdowns:
  assumes "Metrics dbErr fault db = Inr metrics"
  shows "om_PageFailureCategories metrics =
       (let labels = filter (\<lambda>c. c \<noteq> ''none'') (map (\<lambda>(_, row). pr_failure_category row) (tm_pages (rb_base db)))
        in map (\<lambda>l. (l, int (count_list labels l))) (sort (remdups labels)))"
    and "om_HTTPStatuses metrics =
       (let labels = map FormatInt (List.map_filter (\<lambda>(_, row). pa_StatusCode (pr_attempt row)) (tm_pages (rb_base db)))
        in map (\<lambda>l. (l, int (count_list labels l))) (sort (remdups labels)))"
    and "om_VerificationQueueFailureCategories metrics =
       (let labels = List.map_filter (\<lambda>(_, row). q_last_failure_category row) (dd_queue (rb_discovery db))
        in map (\<lambda>l. (l, int (count_list labels l))) (sort (remdups labels)))"
  using assms sort_groupCounts
  by (auto simp: Metrics_def metricTotals_def fold_addBreakdown metricRows_def filter_sort groupCounts_kind Let_def
      metricKindPageFailureCategory_def metricKindHTTPStatus_def metricKindVerificationQueueFailureCategory_def
      simp del: fold_simps split: option.splits query_fault.splits)

end
