(* ===== verification/Reporting_Api.thy ===== *)
theory Reporting_Api
  imports Reporting_Status Control
begin

text \<open>
  The HTTP interface of the reports: \<^verbatim>\<open>reporting.go\<close>, the query parsers and paged handlers of \<^verbatim>\<open>pagination.go\<close>, and the handler
  of \<^verbatim>\<open>source_detail.go\<close>, in \<^verbatim>\<open>internal/reporting\<close>. A response carries the value its JSON encodes. The reader is an interface of the
  source, here a record of functions of a world \<open>'w\<close>; the PostgreSQL reader is its instance at the end of the definitions.
\<close>

section \<open>Requests and responses\<close>

definition nextCursorHeader :: string where "nextCursorHeader = ''X-JoshBot-Next-Cursor''"

definition errReaderUnavailable where "errReaderUnavailable = Sentinel ''reporting: reader is unavailable''"
definition errReportTokenUnavailable where "errReportTokenUnavailable = Sentinel ''reporting: authentication token is unavailable''"

text \<open>
  \<open>rr_Path\<close> is the unescaped path; \<open>rr_Segments\<close> and \<open>rr_Clean\<close> are what the multiplexer makes of it, as in \<open>Control\<close>; \<open>rr_Values\<close>
  are the values of the query.
\<close>

record report_request =
  rr_Method :: string
  rr_Path :: string
  rr_Segments :: "string list"
  rr_Clean :: bool
  rr_Authorization :: string
  rr_Values :: "(string \<times> string list) list"

datatype report_body =
    ErrorBody string
  | HealthBody
  | StatusBody report_status
  | SourcesBody "source_report list"
  | SourceBody source_detail
  | CrawlsBody "crawl_run list"
  | CrawlBody crawl_detail
  | QueueBody "queue_item list"
  | QueueEventsBody "queue_event list"
  | ServicesBody "service_status list"
  | AuditsBody "audit_report list"
  | TextBody string

record report_response =
  ro_Status :: int
  ro_Headers :: "(string \<times> string) list"
  ro_Body :: report_body

definition report_writeJSON :: "int \<Rightarrow> report_body \<Rightarrow> report_response" where
  "report_writeJSON status value1 =
     \<lparr>ro_Status = status, ro_Headers = [(''Content-Type'', ''application/json; charset=utf-8'')], ro_Body = value1\<rparr>"

definition report_writeError :: "int \<Rightarrow> string \<Rightarrow> report_response" where
  "report_writeError status code = report_writeJSON status (ErrorBody code)"

definition writeInternalError :: report_response where
  "writeInternalError = report_writeError 500 ''internal_error''"

definition setHeader :: "string \<times> string \<Rightarrow> report_response \<Rightarrow> report_response" where
  "setHeader header rs = rs\<lparr>ro_Headers := header # ro_Headers rs\<rparr>"

definition writeQueryError :: "go_error \<Rightarrow> report_response" where
  "writeQueryError err =
     report_writeError 400
       (if errors_Is err errInvalidLimit then ''invalid_limit''
        else if errors_Is err errInvalidCursor then ''invalid_cursor''
        else if errors_Is err errInvalidOriginFilter then ''invalid_origin''
        else ''invalid_filter'')"

definition writePage :: "string \<Rightarrow> report_body \<Rightarrow> report_response" where
  "writePage nextCursor items =
     (let rs = report_writeJSON 200 items
      in if nextCursor \<noteq> [] then setHeader (nextCursorHeader, nextCursor) rs else rs)"

section \<open>Queries\<close>

definition queryValue :: "(string \<times> string list) list \<Rightarrow> string \<Rightarrow> string" where
  "queryValue values1 name =
     (case map_of values1 name of
        None \<Rightarrow> []
      | Some items \<Rightarrow> if items = [] then [] else if length items \<noteq> 1 then [CHR 0x00] else items ! 0)"

text \<open>\<^verbatim>\<open>url.Values.Get\<close>: the first value.\<close>

definition values_Get :: "(string \<times> string list) list \<Rightarrow> string \<Rightarrow> string" where
  "values_Get values1 name = (case map_of values1 name of Some (first # _) \<Rightarrow> first | _ \<Rightarrow> [])"

definition requestLimit :: "report_request \<Rightarrow> go_error + int" where
  "requestLimit rq =
     (let raw = values_Get (rr_Values rq) ''limit''
      in if raw = [] then Inr defaultLimit
         else (case ParseInt64 raw of
                 None \<Rightarrow> Inl errInvalidLimit
               | Some limit \<Rightarrow> if limit < 1 \<or> limit > maxLimit then Inl errInvalidLimit else Inr limit))"

definition queryOrigin :: "codec \<Rightarrow> (string \<times> string list) list \<Rightarrow> go_error + string" where
  "queryOrigin cd values1 =
     (let raw = queryValue values1 ''origin''
      in if raw = [] then Inr []
         else if raw = [CHR 0x00] then Inl errInvalidOriginFilter
         else (case Origin.Parse (co_lib cd) raw of
                 Inl _ \<Rightarrow> Inl errInvalidOriginFilter
               | Inr parsed \<Rightarrow> if origin_String parsed = [] then Inl errInvalidOriginFilter else Inr (origin_String parsed)))"

definition queryBool :: "(string \<times> string list) list \<Rightarrow> string \<Rightarrow> go_error + bool option" where
  "queryBool values1 name =
     (let raw = queryValue values1 name
      in if raw = [] then Inr None
         else if raw = ''true'' then Inr (Some True)
         else if raw = ''false'' then Inr (Some False)
         else Inl errInvalidFilter)"

definition queryEnum :: "(string \<times> string list) list \<Rightarrow> string \<Rightarrow> string list \<Rightarrow> go_error + string" where
  "queryEnum values1 name allowed =
     (let raw = queryValue values1 name
      in if raw = [] then Inr [] else if raw \<notin> set allowed then Inl errInvalidFilter else Inr raw)"

definition crawlOutcomes :: "string list" where
  "crawlOutcomes = [''running'', ''complete'', ''budget_exhausted'', ''canceled'', ''failed'']"

definition queueModes :: "string list" where "queueModes = [''probe'', ''reprobe'', ''recurring'']"

definition queueEventNames :: "string list" where
  "queueEventNames = [''scheduled'', ''claimed'', ''renewed'', ''rescheduled'', ''completed'', ''removed'']"

definition parseSourceQuery :: "codec \<Rightarrow> report_request \<Rightarrow> go_error + source_query" where
  "parseSourceQuery cd rq =
     (let values1 = rr_Values rq
      in case requestLimit rq of Inl err \<Rightarrow> Inl err | Inr limit \<Rightarrow>
        (case queryOrigin cd values1 of Inl err \<Rightarrow> Inl err | Inr originFilter \<Rightarrow>
        (case queryBool values1 ''seeded'' of Inl err \<Rightarrow> Inl err | Inr seeded \<Rightarrow>
        (case queryBool values1 ''automatic'' of Inl err \<Rightarrow> Inl err | Inr automatic \<Rightarrow>
        (case queryBool values1 ''verified'' of Inl err \<Rightarrow> Inl err | Inr verified \<Rightarrow>
        (case queryBool values1 ''blocked'' of Inl err \<Rightarrow> Inl err | Inr blocked \<Rightarrow>
        (case queryBool values1 ''crawl_eligible'' of Inl err \<Rightarrow> Inl err | Inr crawlEligible \<Rightarrow>
        (case decodeSourceCursor cd (queryValue values1 ''cursor'') of Inl err \<Rightarrow> Inl err | Inr cursor \<Rightarrow>
           Inr \<lparr>sy_Limit = limit, sy_Cursor = cursor, sy_Origin = originFilter, sy_Seeded = seeded, sy_Automatic = automatic,
                sy_Verified = verified, sy_Blocked = blocked, sy_CrawlEligible = crawlEligible\<rparr>))))))))"

definition parseCrawlQuery :: "codec \<Rightarrow> report_request \<Rightarrow> go_error + crawl_query" where
  "parseCrawlQuery cd rq =
     (let values1 = rr_Values rq
      in case requestLimit rq of Inl err \<Rightarrow> Inl err | Inr limit \<Rightarrow>
        (case queryOrigin cd values1 of Inl err \<Rightarrow> Inl err | Inr originFilter \<Rightarrow>
        (case queryEnum values1 ''outcome'' crawlOutcomes of Inl err \<Rightarrow> Inl err | Inr outcome \<Rightarrow>
        (case decodeCrawlCursor cd (queryValue values1 ''cursor'') of Inl err \<Rightarrow> Inl err | Inr cursor \<Rightarrow>
           Inr \<lparr>cy_Limit = limit, cy_Cursor = cursor, cy_Origin = originFilter, cy_Outcome = outcome\<rparr>))))"

definition parseQueueQuery :: "codec \<Rightarrow> report_request \<Rightarrow> go_error + queue_query" where
  "parseQueueQuery cd rq =
     (let values1 = rr_Values rq
      in case requestLimit rq of Inl err \<Rightarrow> Inl err | Inr limit \<Rightarrow>
        (case queryOrigin cd values1 of Inl err \<Rightarrow> Inl err | Inr originFilter \<Rightarrow>
        (case queryEnum values1 ''mode'' queueModes of Inl err \<Rightarrow> Inl err | Inr mode \<Rightarrow>
        (case queryBool values1 ''leased'' of Inl err \<Rightarrow> Inl err | Inr leasedFilter \<Rightarrow>
        (case decodeQueueCursor cd (queryValue values1 ''cursor'') of Inl err \<Rightarrow> Inl err | Inr cursor \<Rightarrow>
           Inr \<lparr>qy_Limit = limit, qy_Cursor = cursor, qy_Origin = originFilter, qy_Mode = mode, qy_Leased = leasedFilter\<rparr>)))))"

definition parseQueueEventQuery :: "codec \<Rightarrow> report_request \<Rightarrow> go_error + queue_event_query" where
  "parseQueueEventQuery cd rq =
     (let values1 = rr_Values rq
      in case requestLimit rq of Inl err \<Rightarrow> Inl err | Inr limit \<Rightarrow>
        (case queryOrigin cd values1 of Inl err \<Rightarrow> Inl err | Inr originFilter \<Rightarrow>
        (case queryEnum values1 ''event'' queueEventNames of Inl err \<Rightarrow> Inl err | Inr event \<Rightarrow>
        (case queryEnum values1 ''mode'' queueModes of Inl err \<Rightarrow> Inl err | Inr mode \<Rightarrow>
        (case decodeQueueEventCursor cd (queryValue values1 ''cursor'') of Inl err \<Rightarrow> Inl err | Inr cursor \<Rightarrow>
           Inr \<lparr>ey_Limit = limit, ey_Cursor = cursor, ey_Origin = originFilter, ey_Event = event, ey_Mode = mode\<rparr>)))))"

definition crawlDetailQuery :: "codec \<Rightarrow> report_request \<Rightarrow> int \<Rightarrow> go_error + int \<times> int" where
  "crawlDetailQuery cd rq runID =
     (case requestLimit rq of
        Inl err \<Rightarrow> Inl err
      | Inr limit \<Rightarrow>
          (let raw = queryValue (rr_Values rq) ''cursor''
           in if raw = [] then Inr (limit, 0)
              else (case decodeCursor cd raw ''crawl_pages'' of
                      Inl _ \<Rightarrow> Inl errInvalidCursor
                    | Inr cursor \<Rightarrow>
                        if cu_Origin cursor \<noteq> FormatInt runID \<or> cu_At cursor \<noteq> [] \<or> cu_ID cursor \<le> 0 then Inl errInvalidCursor
                        else Inr (limit, cu_ID cursor))))"

definition requestSourceOrigin :: "codec \<Rightarrow> report_request \<Rightarrow> go_error + string" where
  "requestSourceOrigin cd rq =
     (let raw = TrimSpace (values_Get (rr_Values rq) ''origin'')
      in if raw = [] then Inl errInvalidSourceOrigin
         else (case Origin.Parse (co_lib cd) raw of
                 Inl _ \<Rightarrow> Inl errInvalidSourceOrigin
               | Inr parsed \<Rightarrow> if origin_String parsed = [] then Inl errInvalidSourceOrigin else Inr (origin_String parsed)))"

section \<open>The reader and the handler\<close>

record 'w paged_reader =
  pd_SourcesPage :: "'w \<Rightarrow> source_query \<Rightarrow> go_error + source_report list \<times> string"
  pd_CrawlsPage :: "'w \<Rightarrow> crawl_query \<Rightarrow> go_error + crawl_run list \<times> string"
  pd_QueuePage :: "'w \<Rightarrow> queue_query \<Rightarrow> go_error + queue_item list \<times> string"
  pd_QueueEventsPage :: "'w \<Rightarrow> queue_event_query \<Rightarrow> go_error + queue_event list \<times> string"
  pd_AuditsPage :: "'w \<Rightarrow> audit_query \<Rightarrow> go_error + audit_report list \<times> string"

text \<open>The last three are the interfaces a reader may implement beyond \<^verbatim>\<open>Reader\<close>.\<close>

record 'w reader =
  rd_Status :: "'w \<Rightarrow> go_error + report_status"
  rd_Sources :: "'w \<Rightarrow> int \<Rightarrow> go_error + source_report list"
  rd_Source :: "'w \<Rightarrow> string \<Rightarrow> int \<Rightarrow> go_error + source_detail option"
  rd_Crawls :: "'w \<Rightarrow> int \<Rightarrow> go_error + crawl_run list"
  rd_Crawl :: "'w \<Rightarrow> int \<Rightarrow> go_error + crawl_detail option"
  rd_Queue :: "'w \<Rightarrow> int \<Rightarrow> go_error + queue_item list"
  rd_QueueEvents :: "'w \<Rightarrow> int \<Rightarrow> go_error + queue_event list"
  rd_Audits :: "'w \<Rightarrow> int \<Rightarrow> go_error + audit_report list"
  rd_Services :: "'w \<Rightarrow> go_error + service_status list"
  rd_Paged :: "'w paged_reader option"
  rd_CrawlPage :: "('w \<Rightarrow> int \<Rightarrow> int \<Rightarrow> int \<Rightarrow> go_error + crawl_detail option) option"
  rd_Metrics :: "('w \<Rightarrow> go_error + operational_metrics) option"

text \<open>\<open>rh_formatAge\<close> is \<^verbatim>\<open>%g\<close> of the seconds of a duration; \<open>rh_mux\<close> what the multiplexer itself answers.\<close>

record 'w report_handler =
  rh_reader :: "'w reader"
  rh_hash :: string
  rh_now :: "'w \<Rightarrow> go_time"
  rh_sha256 :: "string \<Rightarrow> string"
  rh_codec :: codec
  rh_formatAge :: "duration \<Rightarrow> string"
  rh_mux :: "report_request \<Rightarrow> report_response"

definition reportingAuthorizationMatches :: "(string \<Rightarrow> string) \<Rightarrow> string \<Rightarrow> string \<Rightarrow> bool" where
  "reportingAuthorizationMatches sha256 expected provided \<longleftrightarrow> sha256 provided = expected"

definition report_authorize :: "'w report_handler \<Rightarrow> report_request \<Rightarrow> report_response \<Rightarrow> report_response" where
  "report_authorize h rq next =
     (if \<not> reportingAuthorizationMatches (rh_sha256 h) (rh_hash h) (rr_Authorization rq)
      then setHeader (''WWW-Authenticate'', ''Bearer realm=\"joshbot-reporting\"'') (report_writeError 401 ''unauthorized'')
      else next)"

section \<open>The handlers\<close>

definition health :: report_response where "health = report_writeJSON 200 HealthBody"

definition status_handler :: "'w report_handler \<Rightarrow> 'w \<Rightarrow> report_response" where
  "status_handler h w =
     (case rd_Status (rh_reader h) w of
        Inl _ \<Rightarrow> writeInternalError
      | Inr status \<Rightarrow> report_writeJSON 200 (StatusBody (status\<lparr>re_GeneratedAt := rh_now h w\<rparr>)))"

text \<open>The handlers of the plain lists differ in the list they read.\<close>

definition listed :: "report_request \<Rightarrow> (int \<Rightarrow> go_error + 'a list) \<Rightarrow> ('a list \<Rightarrow> report_body) \<Rightarrow> report_response" where
  "listed rq read body =
     (case requestLimit rq of
        Inl _ \<Rightarrow> report_writeError 400 ''invalid_limit''
      | Inr limit \<Rightarrow> (case read limit of Inl _ \<Rightarrow> writeInternalError | Inr items \<Rightarrow> report_writeJSON 200 (body items)))"

definition sources_handler where "sources_handler h rq w = listed rq (rd_Sources (rh_reader h) w) SourcesBody"
definition crawls_handler where "crawls_handler h rq w = listed rq (rd_Crawls (rh_reader h) w) CrawlsBody"
definition queue_handler where "queue_handler h rq w = listed rq (rd_Queue (rh_reader h) w) QueueBody"
definition queueEvents_handler where "queueEvents_handler h rq w = listed rq (rd_QueueEvents (rh_reader h) w) QueueEventsBody"
definition audits_handler where "audits_handler h rq w = listed rq (rd_Audits (rh_reader h) w) AuditsBody"

definition services_handler :: "'w report_handler \<Rightarrow> 'w \<Rightarrow> report_response" where
  "services_handler h w =
     (case rd_Services (rh_reader h) w of Inl _ \<Rightarrow> writeInternalError | Inr services \<Rightarrow> report_writeJSON 200 (ServicesBody services))"

definition sourceDetail :: "'w report_handler \<Rightarrow> report_request \<Rightarrow> 'w \<Rightarrow> report_response" where
  "sourceDetail h rq w =
     (case requestSourceOrigin (rh_codec h) rq of
        Inl _ \<Rightarrow> report_writeError 400 ''invalid_origin''
      | Inr sourceOrigin \<Rightarrow>
          (case requestLimit rq of
             Inl _ \<Rightarrow> report_writeError 400 ''invalid_limit''
           | Inr limit \<Rightarrow>
               (case rd_Source (rh_reader h) w sourceOrigin limit of
                  Inl _ \<Rightarrow> writeInternalError
                | Inr None \<Rightarrow> report_writeError 404 ''source_not_found''
                | Inr (Some detail) \<Rightarrow> report_writeJSON 200 (SourceBody detail))))"

definition crawl_handler :: "'w report_handler \<Rightarrow> string \<Rightarrow> report_request \<Rightarrow> 'w \<Rightarrow> report_response" where
  "crawl_handler h pathID rq w =
     (case ParseInt64 pathID of
        None \<Rightarrow> report_writeError 400 ''invalid_crawl_id''
      | Some runID \<Rightarrow>
          if runID \<le> 0 then report_writeError 400 ''invalid_crawl_id''
          else (case crawlDetailQuery (rh_codec h) rq runID of
                  Inl err \<Rightarrow> writeQueryError err
                | Inr (limit, after) \<Rightarrow>
                    (case (case rd_CrawlPage (rh_reader h) of
                             Some page \<Rightarrow> page w runID limit after
                           | None \<Rightarrow> map_sum (\<lambda>err. err) (map_option (\<lambda>detail. boundedCrawlDetail detail runID limit after))
                                       (rd_Crawl (rh_reader h) w runID)) of
                       Inl _ \<Rightarrow> writeInternalError
                     | Inr None \<Rightarrow> report_writeError 404 ''crawl_not_found''
                     | Inr (Some detail) \<Rightarrow> writePage (de_NextCursor detail) (CrawlBody detail))))"

text \<open>The paged handlers differ in the query they parse and the page they read.\<close>

definition paged :: "go_error + 'q \<Rightarrow> ('q \<Rightarrow> go_error + 'a list \<times> string) \<Rightarrow> ('a list \<Rightarrow> report_body) \<Rightarrow> report_response" where
  "paged query read body =
     (case query of
        Inl err \<Rightarrow> writeQueryError err
      | Inr q \<Rightarrow> (case read q of Inl _ \<Rightarrow> writeInternalError | Inr (items, nextCursor) \<Rightarrow> writePage nextCursor (body items)))"

definition pagedSources where
  "pagedSources h rq p w = paged (parseSourceQuery (rh_codec h) rq) (pd_SourcesPage p w) SourcesBody"

definition pagedCrawls where
  "pagedCrawls h rq p w = paged (parseCrawlQuery (rh_codec h) rq) (pd_CrawlsPage p w) CrawlsBody"

definition pagedQueue where
  "pagedQueue h rq p w = paged (parseQueueQuery (rh_codec h) rq) (pd_QueuePage p w) QueueBody"

definition pagedQueueEvents where
  "pagedQueueEvents h rq p w = paged (parseQueueEventQuery (rh_codec h) rq) (pd_QueueEventsPage p w) QueueEventsBody"

definition pagedAudits :: "'w report_handler \<Rightarrow> report_request \<Rightarrow> 'w paged_reader \<Rightarrow> 'w \<Rightarrow> report_response" where
  "pagedAudits h rq p w =
     (case requestLimit rq of
        Inl err \<Rightarrow> writeQueryError err
      | Inr limit \<Rightarrow>
          (case decodeAuditCursor (rh_codec h) (queryValue (rr_Values rq) ''cursor'') of
             Inl err \<Rightarrow> writeQueryError err
           | Inr cursor \<Rightarrow> paged (Inr \<lparr>ay_Limit = limit, ay_Cursor = cursor\<rparr>) (pd_AuditsPage p w) AuditsBody))"

section \<open>Metrics\<close>

definition metricBool :: "bool \<Rightarrow> int" where "metricBool value1 = (if value1 then 1 else 0)"

text \<open>A \<^verbatim>\<open>strings.Replacer\<close> whose old strings are single bytes.\<close>

definition escapedByte :: "char \<Rightarrow> string" where
  "escapedByte c =
     (if c = CHR 0x5C then [CHR 0x5C, CHR 0x5C] else if c = CHR 0x0A then [CHR 0x5C, CHR ''n''] else if c = CHR 0x22 then [CHR 0x5C, CHR 0x22]
      else [c])"

definition metricLabel :: "string \<Rightarrow> string" where
  "metricLabel value1 = concat (map escapedByte value1)"

text \<open>The lines of a family, of one gauge without labels, and of a sample with labels.\<close>

definition familyLines :: "string \<Rightarrow> string \<Rightarrow> string list" where
  "familyLines name help = [''# HELP '' @ name @ '' '' @ help, ''# TYPE '' @ name @ '' gauge'']"

definition gaugeLines :: "string \<Rightarrow> string \<Rightarrow> int \<Rightarrow> string list" where
  "gaugeLines name help value1 = familyLines name help @ [name @ '' '' @ FormatInt value1]"

definition labelText :: "string \<times> string \<Rightarrow> string" where
  "labelText l = fst l @ [CHR ''='', CHR 0x22] @ metricLabel (snd l) @ [CHR 0x22]"

fun labelTexts :: "(string \<times> string) list \<Rightarrow> string" where
  "labelTexts [] = []"
| "labelTexts [l] = labelText l"
| "labelTexts (l # ls) = labelText l @ '','' @ labelTexts ls"

definition sampleLine :: "string \<Rightarrow> (string \<times> string) list \<Rightarrow> string \<Rightarrow> string" where
  "sampleLine name labels value1 = name @ ''{'' @ labelTexts labels @ ''} '' @ value1"

definition labelled :: "string \<Rightarrow> string \<Rightarrow> (string \<times> int) list \<Rightarrow> string list" where
  "labelled name key rows = map (\<lambda>(label, n). sampleLine name [(key, label)] (FormatInt n)) rows"

text \<open>The instance of each service that reported last, the services in the order of the list.\<close>

definition newer :: "service_status \<Rightarrow> service_status \<Rightarrow> service_status" where
  "newer current service = (if sv_UpdatedAt service > sv_UpdatedAt current then service else current)"

fun latestServices :: "service_status list \<Rightarrow> (string \<times> service_status) list \<Rightarrow> (string \<times> service_status) list" where
  "latestServices [] latest = latest"
| "latestServices (s # rest) latest =
     latestServices rest
       (case map_of latest (sv_Service s) of
          None \<Rightarrow> latest @ [(sv_Service s, s)]
        | Some current \<Rightarrow> map (\<lambda>e. if fst e = sv_Service s then (fst e, newer (snd e) s) else e) latest)"

definition heartbeatLines :: "(duration \<Rightarrow> string) \<Rightarrow> go_time \<Rightarrow> service_status list \<Rightarrow> string list" where
  "heartbeatLines formatAge now services =
     map (\<lambda>(_, s). sampleLine ''joshbot_service_heartbeat_age_seconds'' [(''service'', sv_Service s), (''state'', sv_State s)]
            (formatAge (max 0 (time_Sub now (sv_UpdatedAt s)))))
       (latestServices services [])"

definition statusLines :: "report_status \<Rightarrow> string list" where
  "statusLines status =
     (let control = re_Control status; backpressure = re_Backpressure status; queue = re_Queue status; sources = re_Sources status
      in gaugeLines ''joshbot_discovery_paused'' ''Whether discovery is administratively paused.'' (metricBool (cl_DiscoveryPaused control)) @
         gaugeLines ''joshbot_verification_paused'' ''Whether verification is administratively paused.''
           (metricBool (cl_VerificationPaused control)) @
         gaugeLines ''joshbot_automatic_expansion_paused'' ''Whether automatic crawl-source expansion is administratively paused.''
           (metricBool (cl_AutomaticExpansionPaused control)) @
         gaugeLines ''joshbot_automatic_crawl_enabled'' ''Whether automatic crawl-source promotion is enabled.''
           (metricBool (bp_AutomaticCrawlEnabled backpressure)) @
         gaugeLines ''joshbot_backpressure_active'' ''Whether automatic discovery is currently backpressured.''
           (metricBool (bp_Active backpressure)) @
         gaugeLines ''joshbot_pending_probes'' ''Current verification probe backlog.'' (bp_PendingProbes backpressure) @
         gaugeLines ''joshbot_pending_probe_limit'' ''Configured automatic-discovery backpressure limit.'' (bp_MaxPendingProbes backpressure) @
         familyLines ''joshbot_verification_queue'' ''Current verification queue entries.'' @
         labelled ''joshbot_verification_queue'' ''mode''
           [(''all'', qt_Total queue), (''probe'', qt_Probe queue), (''reprobe'', qt_Reprobe queue), (''recurring'', qt_Recurring queue)] @
         gaugeLines ''joshbot_verification_leases'' ''Current active verification leases.'' (qt_Leased queue) @
         familyLines ''joshbot_crawl_sources'' ''Private crawl-source counts by classification.'' @
         labelled ''joshbot_crawl_sources'' ''classification''
           [(''all'', su_Total sources), (''seeded'', su_Seeded sources), (''automatic'', su_Automatic sources),
            (''verified'', su_Verified sources), (''blocked'', su_Blocked sources), (''crawl_eligible'', su_CrawlEligible sources)])"

definition durableLines :: "operational_metrics \<Rightarrow> string list" where
  "durableLines durable =
     gaugeLines ''joshbot_retained_candidates'' ''Retained discovery candidates.'' (om_Candidates durable) @
     gaugeLines ''joshbot_retained_discovery_edges'' ''Retained discovery edges.'' (om_DiscoveryEdges durable) @
     gaugeLines ''joshbot_retained_crawl_runs'' ''Retained crawl runs.'' (om_CrawlRuns durable) @
     gaugeLines ''joshbot_unfinished_crawl_runs'' ''Current unfinished crawl runs.'' (om_UnfinishedCrawlRuns durable) @
     gaugeLines ''joshbot_retained_pages_attempted'' ''Retained pages attempted.'' (om_PagesAttempted durable) @
     gaugeLines ''joshbot_retained_pages_parsed'' ''Retained pages parsed.'' (om_PagesParsed durable) @
     gaugeLines ''joshbot_retained_origins_found'' ''Retained origins found by crawls.'' (om_OriginsFound durable) @
     gaugeLines ''joshbot_retained_origins_promoted'' ''Retained origins admitted automatically.'' (om_OriginsPromoted durable) @
     gaugeLines ''joshbot_retained_origins_deferred'' ''Retained non-admitted original link candidates.'' (om_OriginsDeferred durable) @
     gaugeLines ''joshbot_retained_failures'' ''Retained failed page attempts.'' (om_Failures durable) @
     gaugeLines ''joshbot_retained_robots_denials'' ''Retained robots denials.'' (om_RobotsDenials durable)"

definition breakdownLines :: "operational_metrics \<Rightarrow> string list" where
  "breakdownLines durable =
     familyLines ''joshbot_retained_page_attempt_failures'' ''Retained page attempts by failure category.'' @
     labelled ''joshbot_retained_page_attempt_failures'' ''failure_category'' (om_PageFailureCategories durable) @
     familyLines ''joshbot_retained_page_http_statuses'' ''Retained page attempts by HTTP status.'' @
     labelled ''joshbot_retained_page_http_statuses'' ''status'' (om_HTTPStatuses durable) @
     familyLines ''joshbot_verification_queue_failures'' ''Current verification queue failures by category.'' @
     labelled ''joshbot_verification_queue_failures'' ''failure_category'' (om_VerificationQueueFailureCategories durable)"

definition metricLines :: "(duration \<Rightarrow> string) \<Rightarrow> go_time \<Rightarrow> report_status \<Rightarrow> operational_metrics \<Rightarrow> string list" where
  "metricLines formatAge now status durable =
     statusLines status @ durableLines durable @ breakdownLines durable @
     familyLines ''joshbot_service_heartbeat_age_seconds'' ''Age of the latest service heartbeat.'' @
     heartbeatLines formatAge now (re_Services status) @ [''# EOF'']"

definition noMetrics :: operational_metrics where
  "noMetrics =
     \<lparr>om_Candidates = 0, om_DiscoveryEdges = 0, om_CrawlRuns = 0, om_UnfinishedCrawlRuns = 0, om_PagesAttempted = 0, om_PagesParsed = 0,
      om_OriginsFound = 0, om_OriginsPromoted = 0, om_OriginsDeferred = 0, om_Failures = 0, om_RobotsDenials = 0,
      om_PageFailureCategories = [], om_HTTPStatuses = [], om_VerificationQueueFailureCategories = []\<rparr>"

definition metrics_handler :: "'w report_handler \<Rightarrow> 'w \<Rightarrow> report_response" where
  "metrics_handler h w =
     (case rd_Status (rh_reader h) w of
        Inl _ \<Rightarrow> writeInternalError
      | Inr status \<Rightarrow>
          (case (case rd_Metrics (rh_reader h) of None \<Rightarrow> Inr noMetrics | Some metrics \<Rightarrow> metrics w) of
             Inl _ \<Rightarrow> writeInternalError
           | Inr durable \<Rightarrow>
               \<lparr>ro_Status = 200, ro_Headers = [(''Content-Type'', ''application/openmetrics-text; version=1.0.0; charset=utf-8'')],
                ro_Body = TextBody (concat (map (\<lambda>l. l @ [CHR 0x0A]) (metricLines (rh_formatAge h) (rh_now h w) status durable)))\<rparr>))"

section \<open>Routing\<close>

definition readMethod :: "report_request \<Rightarrow> bool" where
  "readMethod rq \<longleftrightarrow> rr_Method rq = ''GET'' \<or> rr_Method rq = ''HEAD''"

text \<open>A pattern with the method GET also matches HEAD; every pattern but the first is behind \<open>report_authorize\<close>.\<close>

definition muxRoute :: "'w report_handler \<Rightarrow> report_request \<Rightarrow> 'w \<Rightarrow> report_response option" where
  "muxRoute h rq w =
     (if \<not> rr_Clean rq \<or> \<not> readMethod rq then None
      else (let segments = rr_Segments rq
            in if segments = [''metrics''] then Some (metrics_handler h w)
               else if take 2 segments \<noteq> [''api'', ''v1''] then None
               else (case drop 2 segments of
                       [part] \<Rightarrow>
                         if part = ''status'' then Some (status_handler h w)
                         else if part = ''sources'' then Some (sources_handler h rq w)
                         else if part = ''crawls'' then Some (crawls_handler h rq w)
                         else if part = ''queue'' then Some (queue_handler h rq w)
                         else if part = ''services'' then Some (services_handler h w)
                         else if part = ''audit'' then Some (audits_handler h rq w)
                         else None
                     | [part, name] \<Rightarrow>
                         if part = ''sources'' \<and> name = ''detail'' then Some (sourceDetail h rq w)
                         else if part = ''crawls'' \<and> name \<noteq> [] then Some (crawl_handler h name rq w)
                         else if part = ''queue'' \<and> name = ''events'' then Some (queueEvents_handler h rq w)
                         else None
                     | _ \<Rightarrow> None)))"

definition muxServe :: "'w report_handler \<Rightarrow> report_request \<Rightarrow> 'w \<Rightarrow> report_response" where
  "muxServe h rq w =
     (if rr_Clean rq \<and> readMethod rq \<and> rr_Segments rq = [''healthz''] then health
      else (case muxRoute h rq w of None \<Rightarrow> rh_mux h rq | Some rs \<Rightarrow> report_authorize h rq rs))"

definition pageRoute :: "'w report_handler \<Rightarrow> report_request \<Rightarrow> 'w paged_reader \<Rightarrow> 'w \<Rightarrow> report_response option" where
  "pageRoute h rq p w =
     (if rr_Path rq = ''/api/v1/sources'' then Some (pagedSources h rq p w)
      else if rr_Path rq = ''/api/v1/crawls'' then Some (pagedCrawls h rq p w)
      else if rr_Path rq = ''/api/v1/queue'' then Some (pagedQueue h rq p w)
      else if rr_Path rq = ''/api/v1/queue/events'' then Some (pagedQueueEvents h rq p w)
      else if rr_Path rq = ''/api/v1/audit'' then Some (pagedAudits h rq p w)
      else None)"

definition withPagination :: "'w report_handler \<Rightarrow> report_request \<Rightarrow> 'w \<Rightarrow> report_response" where
  "withPagination h rq w =
     (case rd_Paged (rh_reader h) of
        None \<Rightarrow> muxServe h rq w
      | Some p \<Rightarrow>
          if \<not> readMethod rq then muxServe h rq w
          else (case pageRoute h rq p w of None \<Rightarrow> muxServe h rq w | Some rs \<Rightarrow> report_authorize h rq rs))"

definition report_withHeaders :: "report_response \<Rightarrow> report_response" where
  "report_withHeaders rs =
     rs\<lparr>ro_Headers := [(''Cache-Control'', ''no-store''), (''X-Content-Type-Options'', ''nosniff'')] @ ro_Headers rs\<rparr>"

definition report_serve :: "'w report_handler \<Rightarrow> report_request \<Rightarrow> 'w \<Rightarrow> report_response" where
  "report_serve h rq w = report_withHeaders (withPagination h rq w)"

text \<open>\<open>rest\<close> holds the libraries and the clock the handler is built with.\<close>

definition newReportHandler :: "'w reader option \<Rightarrow> string \<Rightarrow> 'w report_handler \<Rightarrow> go_error + 'w report_handler" where
  "newReportHandler reader1 token rest =
     (case reader1 of
        None \<Rightarrow> Inl errReaderUnavailable
      | Some r \<Rightarrow>
          if \<not> token_Valid token then Inl errReportTokenUnavailable
          else Inr (rest\<lparr>rh_reader := r, rh_hash := rh_sha256 rest (''Bearer '' @ token)\<rparr>))"

section \<open>The PostgreSQL reader\<close>

text \<open>A world for one request: the tables, the time of the statements, and what they fail with.\<close>

record report_world =
  rw_db :: report_db
  rw_now :: go_time
  rw_dbErr :: "go_error option"
  rw_fault :: "query_fault option"

definition postgresPages :: "report_world paged_reader" where
  "postgresPages =
     \<lparr>pd_SourcesPage = (\<lambda>w. SourcesPage (rw_fault w) (rw_db w)), pd_CrawlsPage = (\<lambda>w. CrawlsPage (rw_fault w) (rw_db w)),
      pd_QueuePage = (\<lambda>w. QueuePage (rw_fault w) (rw_now w) (rw_db w)), pd_QueueEventsPage = (\<lambda>w. QueueEventsPage (rw_fault w) (rw_db w)),
      pd_AuditsPage = (\<lambda>w. AuditsPage (rw_fault w) (rw_db w))\<rparr>"

definition postgresReader :: "postgres_config \<Rightarrow> host_lib \<Rightarrow> report_world reader" where
  "postgresReader config lib =
     \<lparr>rd_Status = (\<lambda>w. Status config (rw_dbErr w) (rw_fault w) (rw_now w) (rw_db w)), rd_Sources = (\<lambda>w. Sources (rw_fault w) (rw_db w)),
      rd_Source = (\<lambda>w. Source lib (rw_dbErr w) (rw_fault w) (rw_db w)), rd_Crawls = (\<lambda>w. Crawls (rw_fault w) (rw_db w)),
      rd_Crawl = (\<lambda>w. reader_Crawl (rw_dbErr w) (rw_fault w) (rw_db w)), rd_Queue = (\<lambda>w. reader_Queue (rw_fault w) (rw_db w)),
      rd_QueueEvents = (\<lambda>w. QueueEvents (rw_fault w) (rw_db w)), rd_Audits = (\<lambda>w. Audits (rw_fault w) (rw_db w)),
      rd_Services = (\<lambda>w. Services (rw_fault w) (rw_db w)), rd_Paged = Some postgresPages,
      rd_CrawlPage = Some (\<lambda>w. CrawlPage (rw_dbErr w) (rw_fault w) (rw_db w)),
      rd_Metrics = Some (\<lambda>w. Metrics (rw_dbErr w) (rw_fault w) (rw_db w))\<rparr>"

section \<open>Authorization\<close>

lemma muxRoute_None: "muxRoute h rq w = None \<longleftrightarrow> muxRoute h rq w' = None"
  by (auto simp: muxRoute_def Let_def split: list.splits if_splits)

lemma pageRoute_None: "pageRoute h rq p w = None \<longleftrightarrow> pageRoute h rq p w' = None"
  by (simp add: pageRoute_def)

definition unauthorized :: report_response where
  "unauthorized = setHeader (''WWW-Authenticate'', ''Bearer realm=\"joshbot-reporting\"'') (report_writeError 401 ''unauthorized'')"

lemma unauthorized_status: "ro_Status (report_withHeaders unauthorized) = 401"
  by (simp add: unauthorized_def setHeader_def report_writeError_def report_writeJSON_def report_withHeaders_def)

lemma muxServe_unauthorized:
  assumes "\<not> reportingAuthorizationMatches (rh_sha256 h) (rh_hash h) (rr_Authorization rq)"
  shows "muxServe h rq w \<in> {health, rh_mux h rq, unauthorized} \<and> muxServe h rq w = muxServe h rq w'"
  using assms muxRoute_None [of h rq w w']
  by (cases "muxRoute h rq w"; cases "muxRoute h rq w'") (auto simp: muxServe_def report_authorize_def unauthorized_def)

lemma withPagination_unauthorized:
  assumes "\<not> reportingAuthorizationMatches (rh_sha256 h) (rh_hash h) (rr_Authorization rq)"
  shows "withPagination h rq w \<in> {health, rh_mux h rq, unauthorized} \<and> withPagination h rq w = withPagination h rq w'"
proof (cases "rd_Paged (rh_reader h)")
  case (Some p)
  then show ?thesis
    using assms muxServe_unauthorized [OF assms, of w w'] pageRoute_None [of h rq p w w']
    by (cases "pageRoute h rq p w"; cases "pageRoute h rq p w'") (auto simp: withPagination_def report_authorize_def unauthorized_def)
qed (use muxServe_unauthorized [OF assms] in \<open>simp add: withPagination_def\<close>)

text \<open>
  C29. Without the token a request learns nothing of the private state: what it is answered is the liveness report, an answer of the
  multiplexer itself or the status 401, and it is the same whatever the tables hold and whatever fails.
\<close>
theorem reports_need_token:
  assumes "newReportHandler reader1 token rest = Inr h"
    and "rh_sha256 rest (rr_Authorization rq) \<noteq> rh_sha256 rest (''Bearer '' @ token)"
  shows "report_serve h rq w = report_serve h rq w' \<and>
    (report_serve h rq w = report_withHeaders health \<or> report_serve h rq w = report_withHeaders (rh_mux h rq) \<or> ro_Status (report_serve h rq w) = 401)"
proof -
  have "\<not> reportingAuthorizationMatches (rh_sha256 h) (rh_hash h) (rr_Authorization rq)"
    using assms by (auto simp: newReportHandler_def reportingAuthorizationMatches_def split: option.splits if_splits)
  from withPagination_unauthorized [OF this, of w w'] unauthorized_status show ?thesis by (auto simp: report_serve_def)
qed

section \<open>Pages over HTTP\<close>

text \<open>What a client takes from a response, and the request for the page after a cursor.\<close>

definition nextCursorOf :: "report_response \<Rightarrow> string" where
  "nextCursorOf rs = (case map_of (ro_Headers rs) nextCursorHeader of None \<Rightarrow> [] | Some c \<Rightarrow> c)"

definition crawlsOf :: "report_response \<Rightarrow> go_error + crawl_run list \<times> string" where
  "crawlsOf rs = (case ro_Body rs of CrawlsBody items \<Rightarrow> Inr (items, nextCursorOf rs) | _ \<Rightarrow> Inl (Sentinel ''report unavailable''))"

definition auditsOf :: "report_response \<Rightarrow> go_error + audit_report list \<times> string" where
  "auditsOf rs = (case ro_Body rs of AuditsBody items \<Rightarrow> Inr (items, nextCursorOf rs) | _ \<Rightarrow> Inl (Sentinel ''report unavailable''))"

definition withCursor :: "report_request \<Rightarrow> string \<Rightarrow> report_request" where
  "withCursor rq cursor = rq\<lparr>rr_Values := (''cursor'', [cursor]) # rr_Values rq\<rparr>"

lemma withCursor_fields [simp]:
  "rr_Method (withCursor rq c) = rr_Method rq" "rr_Path (withCursor rq c) = rr_Path rq" "rr_Authorization (withCursor rq c) = rr_Authorization rq"
  "readMethod (withCursor rq c) = readMethod rq"
  by (simp_all add: withCursor_def readMethod_def)

lemma withCursor_values [simp]:
  "queryValue (rr_Values (withCursor rq c)) ''cursor'' = c"
  "name \<noteq> ''cursor'' \<Longrightarrow> queryValue (rr_Values (withCursor rq c)) name = queryValue (rr_Values rq) name"
  "requestLimit (withCursor rq c) = requestLimit rq"
  by (simp_all add: withCursor_def queryValue_def requestLimit_def values_Get_def)

lemma requestLimit_range: "requestLimit rq = Inr limit \<Longrightarrow> 1 \<le> limit \<and> limit \<le> maxLimit"
  by (auto simp: requestLimit_def defaultLimit_def maxLimit_def Let_def split: if_splits option.splits)

lemma writePage_next: "nextCursorOf (report_withHeaders (writePage c body)) = c" "ro_Body (report_withHeaders (writePage c body)) = body"
  by (simp_all add: nextCursorOf_def report_withHeaders_def writePage_def setHeader_def report_writeJSON_def nextCursorHeader_def Let_def)

lemma followPages_transfer:
  assumes "\<And>c p. fetch c = Inr p \<Longrightarrow> fetch' c = Inr p" and "followPages fetch n c = Inr (Some items)"
  shows "followPages fetch' n c = Inr (Some items)"
  using assms(2)
proof (induction n arbitrary: c items)
  case (Suc n)
  then obtain page nextCursor where p: "fetch c = Inr (page, nextCursor)" by (auto split: sum.splits)
  from Suc assms(1) [OF p] p show ?case by (auto split: sum.splits if_splits)
qed simp

lemma authorized:
  assumes "newReportHandler (Some r) token rest = Inr h" and "rr_Authorization rq = ''Bearer '' @ token"
  shows "report_authorize h rq rs = rs" and "rh_reader h = r" and "rh_codec h = rh_codec rest"
  using assms by (auto simp: newReportHandler_def report_authorize_def reportingAuthorizationMatches_def split: if_splits)

lemma parseCrawlQuery_cursor:
  assumes "parseCrawlQuery cd (withCursor rq []) = Inr q" and "decodeCrawlCursor cd c = Inr k"
  shows "parseCrawlQuery cd (withCursor rq c) = Inr (q\<lparr>cy_Cursor := k, cy_Limit := cy_Limit q\<rparr>)" and "1 \<le> cy_Limit q" and "cy_Limit q \<le> maxLimit"
  using assms requestLimit_range [of rq]
  by (auto simp: parseCrawlQuery_def queryOrigin_def queryEnum_def Let_def split: sum.splits if_splits)

text \<open>
  C30. A client that follows the cursors of the crawl report over HTTP is given every crawl that matches its filters exactly once, newest
  first, whatever the size of its pages: as long as the tables stay as they are, it ends with all of them after at most one request more
  than there are crawls.
\<close>
theorem crawls_reported_once:
  assumes "newReportHandler (Some (postgresReader config lib)) token rest = Inr h" and "rr_Authorization rq = ''Bearer '' @ token"
    and "readMethod rq" and "rr_Path rq = ''/api/v1/crawls''" and "rw_fault w = None"
    and "parseCrawlQuery (rh_codec rest) (withCursor rq []) = Inr q"
    and "distinct (map cx_ID (filter (crawlMatches q) (crawlRows (rw_db w))))"
    and "list_all (\<lambda>r. timedSafe (rh_codec rest) ''crawls'' (cx_StartedAt r) (cx_ID r)) (filter (crawlMatches q) (crawlRows (rw_db w)))"
  shows "followPages (\<lambda>c. crawlsOf (report_serve h (withCursor rq c) w)) (length (filter (crawlMatches q) (crawlRows (rw_db w))) + 1) [] =
    Inr (Some (sort_key crawlKey (filter (crawlMatches q) (crawlRows (rw_db w)))))"
proof (rule followPages_transfer)
  let ?page = "\<lambda>c n. CrawlsPage None (rw_db w) (q\<lparr>cy_Cursor := c, cy_Limit := n\<rparr>)"
  have none: "decodeCrawlCursor (rh_codec rest) [] = Inr None" by (simp add: decodeCrawlCursor_def decodeTimedCursor_def)
  have "distinct (map crawlKey (filter (crawlMatches q) (crawlRows (rw_db w))))"
    using assms(7) by (auto simp: distinct_map inj_on_def crawlKey_def)
  from crawl_pages.pages_complete [OF this assms(8) parseCrawlQuery_cursor(2,3) [OF assms(6) none]]
  show "followPages (cursorFetch (decodeCrawlCursor (rh_codec rest)) ?page (cy_Limit q))
      (length (filter (crawlMatches q) (crawlRows (rw_db w))) + 1) [] = Inr (Some (sort_key crawlKey (filter (crawlMatches q) (crawlRows (rw_db w)))))" .
  fix c p assume "cursorFetch (decodeCrawlCursor (rh_codec rest)) ?page (cy_Limit q) c = Inr p"
  then obtain k where k: "decodeCrawlCursor (rh_codec rest) c = Inr k" and p: "?page k (cy_Limit q) = Inr p"
    by (auto simp: cursorFetch_def split: sum.splits)
  have "report_serve h (withCursor rq c) w = report_withHeaders (pagedCrawls h (withCursor rq c) postgresPages w)"
    using assms(3,4) authorized [OF assms(1), of "withCursor rq c"] assms(2)
    by (simp add: report_serve_def withPagination_def postgresReader_def pageRoute_def)
  then show "crawlsOf (report_serve h (withCursor rq c) w) = Inr p"
    using p parseCrawlQuery_cursor(1) [OF assms(6) k] authorized(3) [OF assms(1,2)] assms(5)
    by (cases p) (simp add: pagedCrawls_def paged_def postgresPages_def crawlsOf_def writePage_next)
qed

text \<open>The same holds of the audit log: no event escapes the operator who reads it page by page.\<close>

theorem audits_reported_once:
  assumes "newReportHandler (Some (postgresReader config lib)) token rest = Inr h" and "rr_Authorization rq = ''Bearer '' @ token"
    and "readMethod rq" and "rr_Path rq = ''/api/v1/audit''" and "rw_fault w = None" and "requestLimit rq = Inr limit"
    and "list_all (\<lambda>r. timedSafe (rh_codec rest) ''audit'' (au_OccurredAt (ae_Event r)) (ae_ID r)) (auditRows (rw_db w))"
  shows "followPages (\<lambda>c. auditsOf (report_serve h (withCursor rq c) w)) (length (auditRows (rw_db w)) + 1) [] =
    Inr (Some (sort_key auditKey (auditRows (rw_db w))))"
proof (rule followPages_transfer)
  let ?page = "\<lambda>c n. AuditsPage None (rw_db w) \<lparr>ay_Limit = n, ay_Cursor = c\<rparr>"
  have "map ae_ID (auditRows (rw_db w)) = map int [1..<Suc (length (dd_audit (rb_discovery (rw_db w))))]"
    by (simp add: auditRows_def map2_map_map [symmetric] comp_def case_prod_unfold del: upt_Suc)
  then have "distinct (map ae_ID (auditRows (rw_db w)))" by (simp add: distinct_map del: upt_Suc)
  then have "distinct (map auditKey (auditRows (rw_db w)))" by (auto simp: distinct_map inj_on_def auditKey_def)
  from audit_pages.pages_complete [OF this assms(7), of limit] requestLimit_range [OF assms(6)]
  show "followPages (cursorFetch (decodeAuditCursor (rh_codec rest)) ?page limit) (length (auditRows (rw_db w)) + 1) [] =
      Inr (Some (sort_key auditKey (auditRows (rw_db w))))" by simp
  fix c p assume "cursorFetch (decodeAuditCursor (rh_codec rest)) ?page limit c = Inr p"
  then obtain k where k: "decodeAuditCursor (rh_codec rest) c = Inr k" and p: "?page k limit = Inr p"
    by (auto simp: cursorFetch_def split: sum.splits)
  have "report_serve h (withCursor rq c) w = report_withHeaders (pagedAudits h (withCursor rq c) postgresPages w)"
    using assms(3,4) authorized [OF assms(1), of "withCursor rq c"] assms(2)
    by (simp add: report_serve_def withPagination_def postgresReader_def pageRoute_def)
  then show "auditsOf (report_serve h (withCursor rq c) w) = Inr p"
    using p k assms(5,6) authorized(3) [OF assms(1,2)]
    by (cases p) (simp add: pagedAudits_def paged_def postgresPages_def auditsOf_def writePage_next)
qed

text \<open>The handler on two crawls that started at the same time, and a client that asks for pages of one.\<close>

definition demoRow :: run_row where
  "demoRow = \<lparr>rn_source_origin = ''https://a.example'', rn_started_at = 1000000000, rn_finished_at = None, rn_outcome = ''running'',
     rn_stop_reason = [], rn_max_automatic_promotions = 0, rn_automatic_promotions = 0, rn_promotions_admitted = 0, rn_promotions_deferred = 0\<rparr>"

definition demoSummary :: run_summary where
  "demoSummary = \<lparr>sm_max_depth = 1, sm_max_pages = 1, sm_max_page_bytes = 1, sm_request_delay_milliseconds = 0, sm_redirect_limit = 0,
     sm_page_timeout_milliseconds = 1, sm_pages_attempted = 0, sm_pages_parsed = 0, sm_candidates_discovered = 0, sm_budget_exhausted = False,
     sm_failure_category = [], sm_pages_blocked = 0, sm_pages_failed = 0, sm_urls_found = 0, sm_urls_enqueued = 0, sm_frontier_remaining = 0\<rparr>"

definition demoReports :: report_world where
  "demoReports =
     \<lparr>rw_db = \<lparr>rb_base = \<lparr>tm_base = exampleSources\<lparr>dd_runs := [(1, demoRow), (2, demoRow)]\<rparr>, tm_sequence = 2,
        tm_summaries = [(1, demoSummary), (2, demoSummary)], tm_pages = [], tm_heartbeats = [], tm_control_updated_at = 0\<rparr>, rb_events = []\<rparr>,
      rw_now = 5, rw_dbErr = None, rw_fault = None\<rparr>"

text \<open>Decoders that know the cursors of these crawls.\<close>

definition demoCodec :: codec where
  "demoCodec =
     \<lparr>co_Decode = (\<lambda>s. find (\<lambda>p. cursorText p = s) [timedPayload ''crawls'' 1000000000 1, timedPayload ''crawls'' 1000000000 2]),
      co_ParseTime = (\<lambda>s. if s = FormatRFC3339Nano 1000000000 then Some 1000000000 else None), co_lib = domainLib\<rparr>"

definition demoReportRest :: "report_world report_handler" where
  "demoReportRest =
     \<lparr>rh_reader = postgresReader \<lparr>pg_AutomaticCrawlEnabled = True, pg_MaxPendingProbes = 1\<rparr> domainLib, rh_hash = [], rh_now = rw_now,
      rh_sha256 = id, rh_codec = demoCodec, rh_formatAge = (\<lambda>_. ''0''), rh_mux = (\<lambda>_. report_writeError 404 ''not_found'')\<rparr>"

definition demoReportHandler :: "report_world report_handler" where
  "demoReportHandler = demoReportRest\<lparr>rh_hash := ''Bearer '' @ demoToken\<rparr>"

definition demoCrawls :: report_request where
  "demoCrawls = \<lparr>rr_Method = ''GET'', rr_Path = ''/api/v1/crawls'', rr_Segments = [''api'', ''v1'', ''crawls''], rr_Clean = True,
     rr_Authorization = ''Bearer '' @ demoToken, rr_Values = [(''limit'', [''1''])]\<rparr>"

lemma demoToken_valid: "token_Valid demoToken"
  by code_simp

lemma demoHandler_new:
  "newReportHandler (Some (postgresReader \<lparr>pg_AutomaticCrawlEnabled = True, pg_MaxPendingProbes = 1\<rparr> domainLib)) demoToken demoReportRest =
   Inr demoReportHandler"
  by (simp add: newReportHandler_def demoToken_valid demoReportHandler_def demoReportRest_def)

theorem reports_need_token_witness:
  "report_serve demoReportHandler (demoCrawls\<lparr>rr_Authorization := ''Bearer guess''\<rparr>) demoReports =
   report_serve demoReportHandler (demoCrawls\<lparr>rr_Authorization := ''Bearer guess''\<rparr>) (demoReports\<lparr>rw_fault := Some (ReadFault errNoRows)\<rparr>)"
proof -
  have "rh_sha256 demoReportRest (rr_Authorization (demoCrawls\<lparr>rr_Authorization := ''Bearer guess''\<rparr>)) \<noteq>
      rh_sha256 demoReportRest (''Bearer '' @ demoToken)"
    by (simp add: demoReportRest_def demoToken_def)
  from reports_need_token [OF demoHandler_new this] show ?thesis by blast
qed

lemma demo_texts_differ: "cursorText (timedPayload ''crawls'' 1000000000 1) \<noteq> cursorText (timedPayload ''crawls'' 1000000000 2)"
  by (cases "FormatRFC3339Nano 1000000000 = []") (simp_all add: timedPayload_def cursorText_def cursorJSON_def allSome_def FormatUint.simps [of "Suc 0"] FormatUint.simps [of 2])

lemma demo_query:
  "parseCrawlQuery demoCodec (withCursor demoCrawls []) = Inr \<lparr>cy_Limit = 1, cy_Cursor = None, cy_Origin = [], cy_Outcome = []\<rparr>"
proof -
  have "ParseInt64 ''1'' = Some 1"
    by (simp add: ParseInt64_def ParseUint_def dec_value_def digit_value_def is_digit_def byte_of_def max_int64_def)
  then have "requestLimit demoCrawls = Inr 1" by (simp add: requestLimit_def demoCrawls_def values_Get_def maxLimit_def)
  moreover have "queryValue (rr_Values demoCrawls) name = []" if "name \<noteq> ''limit''" for name
    using that by (simp add: queryValue_def demoCrawls_def)
  ultimately show ?thesis
    by (simp add: parseCrawlQuery_def queryOrigin_def queryEnum_def Let_def decodeCrawlCursor_def decodeTimedCursor_def)
qed

lemma demo_rows:
  "filter (crawlMatches \<lparr>cy_Limit = 1, cy_Cursor = None, cy_Origin = [], cy_Outcome = []\<rparr>) (crawlRows (rw_db demoReports)) =
   [scanCrawlRun 1 demoRow demoSummary, scanCrawlRun 2 demoRow demoSummary]"
  by (simp add: crawlRows_def demoReports_def crawlMatches_def textFilter_def)

theorem crawls_reported_once_witness:
  "followPages (\<lambda>c. crawlsOf (report_serve demoReportHandler (withCursor demoCrawls c) demoReports)) 3 [] =
   Inr (Some [scanCrawlRun 2 demoRow demoSummary, scanCrawlRun 1 demoRow demoSummary])"
proof -
  have safe: "timedSafe demoCodec ''crawls'' 1000000000 i" if "i \<in> {1, 2}" for i
    using that demo_texts_differ by (auto simp: timedSafe_def payloadSafe_def timeSafe_def demoCodec_def)
  have "list_all (\<lambda>r. timedSafe (rh_codec demoReportRest) ''crawls'' (cx_StartedAt r) (cx_ID r))
      [scanCrawlRun 1 demoRow demoSummary, scanCrawlRun 2 demoRow demoSummary]"
    using safe by (simp add: scanCrawlRun_def demoRow_def demoReportRest_def)
  moreover have "parseCrawlQuery (rh_codec demoReportRest) (withCursor demoCrawls []) =
      Inr \<lparr>cy_Limit = 1, cy_Cursor = None, cy_Origin = [], cy_Outcome = []\<rparr>"
    using demo_query by (simp add: demoReportRest_def)
  moreover have "sort_key crawlKey [scanCrawlRun 1 demoRow demoSummary, scanCrawlRun 2 demoRow demoSummary] =
      [scanCrawlRun 2 demoRow demoSummary, scanCrawlRun 1 demoRow demoSummary]"
    by (simp add: crawlKey_def scanCrawlRun_def)
  moreover have "rr_Authorization demoCrawls = ''Bearer '' @ demoToken" "readMethod demoCrawls" "rr_Path demoCrawls = ''/api/v1/crawls''"
    "rw_fault demoReports = None" "distinct (map cx_ID [scanCrawlRun 1 demoRow demoSummary, scanCrawlRun 2 demoRow demoSummary])"
    by (simp_all add: demoCrawls_def readMethod_def demoReports_def scanCrawlRun_def)
  ultimately have "followPages (\<lambda>c. crawlsOf (report_serve demoReportHandler (withCursor demoCrawls c) demoReports))
      (length [scanCrawlRun 1 demoRow demoSummary, scanCrawlRun 2 demoRow demoSummary] + 1) [] =
      Inr (Some [scanCrawlRun 2 demoRow demoSummary, scanCrawlRun 1 demoRow demoSummary])"
    using crawls_reported_once [OF demoHandler_new, of demoCrawls demoReports "\<lparr>cy_Limit = 1, cy_Cursor = None, cy_Origin = [], cy_Outcome = []\<rparr>"]
    unfolding demo_rows by metis
  then show ?thesis by (simp only: list.size) (simp only: numeral_3_eq_3 add_Suc_right add_0_right One_nat_def)
qed

section \<open>Events that cannot be asked for\<close>

text \<open>The name the trigger of the queue table gives to the change of a row (migration 0027); \<open>None\<close> for a row that is not there.\<close>

definition queueEventName :: "queue_row option \<Rightarrow> queue_row option \<Rightarrow> string" where
  "queueEventName before after =
     (case (before, after) of
        (_, None) \<Rightarrow> ''removed''
      | (None, Some _) \<Rightarrow> ''scheduled''
      | (Some old, Some new) \<Rightarrow>
          if q_lease_owner old = None \<and> q_lease_owner new \<noteq> None then ''claimed''
          else if q_lease_owner old \<noteq> None \<and> q_lease_owner new = None then
            (if q_available_at new \<noteq> q_available_at old then ''rescheduled''
             else if q_mode new \<noteq> q_mode old \<or> q_consecutive_failures new \<noteq> q_consecutive_failures old \<or>
                     q_next_attempt_at new \<noteq> q_next_attempt_at old \<or> q_last_failure_category new \<noteq> q_last_failure_category old
             then ''completed'' else ''abandoned'')
          else if q_lease_expires_at new \<noteq> q_lease_expires_at old then ''renewed''
          else ''scheduled'')"

lemma event_filter_rejected:
  assumes "queryValue (rr_Values rq) ''event'' = event" and "event \<noteq> []" and "event \<notin> set queueEventNames"
    and "requestLimit rq = Inr limit" and "queryValue (rr_Values rq) ''origin'' = []"
  shows "parseQueueEventQuery cd rq = Inl errInvalidFilter"
  using assms by (simp add: parseQueueEventQuery_def queryOrigin_def queryEnum_def)

lemma writeQueryError_filter: "writeQueryError errInvalidFilter = report_writeError 400 ''invalid_filter''"
  by (simp add: writeQueryError_def errInvalidFilter_def errInvalidLimit_def errInvalidCursor_def errInvalidOriginFilter_def)

text \<open>
  C32. Abandoned leases cannot be asked for: a lease that is given up is recorded as the event \<^verbatim>\<open>abandoned\<close>, but a request for the queue
  events of that name is answered with the status 400 and \<^verbatim>\<open>invalid_filter\<close>, since the parser does not know the name.
\<close>
theorem abandoned_events_not_filterable:
  assumes "AbandonVerification q ctx (Inr now) dbErr l db = (None, db')"
    and "newReportHandler (Some (postgresReader config lib)) token rest = Inr h" and "rr_Authorization rq = ''Bearer '' @ token"
    and "readMethod rq" and "rr_Path rq = ''/api/v1/queue/events''" and "requestLimit rq = Inr limit"
    and "queryValue (rr_Values rq) ''origin'' = []"
    and "queryValue (rr_Values rq) ''event'' =
      queueEventName (queue_row_of db (origin_String (l_Origin l))) (queue_row_of db' (origin_String (l_Origin l)))"
  shows "queryValue (rr_Values rq) ''event'' = ''abandoned'' \<and> ro_Status (report_serve h rq w) = 400 \<and>
    ro_Body (report_serve h rq w) = ErrorBody ''invalid_filter''"
proof -
  obtain row where "heldRow l now db = Some row" and db': "db' = set_row (origin_String (l_Origin l)) (release_lease row) db"
    using assms(1) by (auto simp: AbandonVerification_def split: option.splits if_splits)
  then have "queue_row_of db (origin_String (l_Origin l)) = Some row" "q_lease_owner row = Some (l_WorkerID l)"
    by (auto simp: heldRow_def holdsLease_def split: option.splits if_splits)
  then have event: "queryValue (rr_Values rq) ''event'' = ''abandoned''"
    using assms(8) db' by (simp add: queueEventName_def queue_row_of_def set_row_def release_lease_def update_conv)
  have "report_serve h rq w = report_withHeaders (pagedQueueEvents h rq postgresPages w)"
    using assms(4,5) authorized [OF assms(2,3)] by (simp add: report_serve_def withPagination_def postgresReader_def pageRoute_def)
  moreover have "parseQueueEventQuery (rh_codec h) rq = Inl errInvalidFilter"
    using event_filter_rejected [OF event _ _ assms(6,7)] by (simp add: queueEventNames_def)
  ultimately show ?thesis
    using event by (simp add: pagedQueueEvents_def paged_def writeQueryError_filter report_writeError_def report_writeJSON_def report_withHeaders_def)
qed

definition demoEvents :: report_request where
  "demoEvents = \<lparr>rr_Method = ''GET'', rr_Path = ''/api/v1/queue/events'', rr_Segments = [''api'', ''v1'', ''queue'', ''events''], rr_Clean = True,
     rr_Authorization = ''Bearer '' @ demoToken, rr_Values = [(''event'', [''abandoned''])]\<rparr>"

theorem abandoned_events_not_filterable_witness:
  "ro_Status (report_serve demoReportHandler demoEvents demoReports) = 400"
proof -
  let ?db = "snd (AbandonVerification (Some exampleQueue) (Some None) (Inr 510) None exampleLease exampleClaimed)"
  have row: "queue_row_of exampleClaimed (origin_String (l_Origin exampleLease)) = Some (snd (hd (qd_queue exampleClaimed)))"
    by (simp add: queue_row_of_def exampleClaimed_def exampleLease_def exampleSource_def origin_String_def)
  then have held: "heldRow exampleLease 510 exampleClaimed = Some (snd (hd (qd_queue exampleClaimed)))"
    by (simp add: heldRow_def holdsLease_def exampleClaimed_def exampleLease_def)
  then have op: "AbandonVerification (Some exampleQueue) (Some None) (Inr 510) None exampleLease exampleClaimed = (None, ?db)"
    using exampleQueue_valid exampleLease_valid by (simp add: AbandonVerification_def)
  have "queueEventName (queue_row_of exampleClaimed (origin_String (l_Origin exampleLease))) (queue_row_of ?db (origin_String (l_Origin exampleLease))) =
      ''abandoned''"
    using held row exampleQueue_valid exampleLease_valid
    by (simp add: AbandonVerification_def set_row_def release_lease_def queueEventName_def update_conv queue_row_of_def) (simp add: exampleClaimed_def)
  moreover have "rr_Authorization demoEvents = ''Bearer '' @ demoToken" "readMethod demoEvents" "rr_Path demoEvents = ''/api/v1/queue/events''"
    "requestLimit demoEvents = Inr defaultLimit" "queryValue (rr_Values demoEvents) ''origin'' = []"
    "queryValue (rr_Values demoEvents) ''event'' = ''abandoned''"
    by (simp_all add: demoEvents_def readMethod_def requestLimit_def values_Get_def queryValue_def)
  ultimately show ?thesis using abandoned_events_not_filterable [OF op demoHandler_new, of demoEvents] by metis
qed

section \<open>The lines of the metrics\<close>

definition plainLine :: "string \<Rightarrow> bool" where "plainLine l \<longleftrightarrow> CHR 0x0A \<notin> set l \<and> l \<noteq> ''# EOF''"

definition metricName :: "string \<Rightarrow> bool" where "metricName name \<longleftrightarrow> take 8 name = ''joshbot_'' \<and> CHR 0x0A \<notin> set name"

lemma metricName_plain: "metricName name \<Longrightarrow> CHR 0x0A \<notin> set rest \<Longrightarrow> plainLine (name @ rest)"
  by (cases name) (auto simp: plainLine_def metricName_def)

lemma FormatInt_line: "CHR 0x0A \<notin> set (FormatInt n)"
proof -
  have "\<not> is_digit (CHR 0x0A)" by (simp add: is_digit_def byte_of_def)
  then have "CHR 0x0A \<notin> set (FormatUint k)" for k using FormatUint_digits [of k] by (auto simp: list_all_iff)
  then show ?thesis by (simp add: FormatInt_def)
qed

lemma metricLabel_line: "CHR 0x0A \<notin> set (metricLabel value1)"
  by (auto simp: metricLabel_def escapedByte_def split: if_splits)

lemma labelTexts_line: "list_all (\<lambda>l. CHR 0x0A \<notin> set (fst l)) labels \<Longrightarrow> CHR 0x0A \<notin> set (labelTexts labels)"
  by (induction labels rule: labelTexts.induct) (simp_all add: labelText_def metricLabel_line)

lemma sampleLine_plain:
  "metricName name \<Longrightarrow> list_all (\<lambda>l. CHR 0x0A \<notin> set (fst l)) labels \<Longrightarrow> CHR 0x0A \<notin> set value1 \<Longrightarrow> plainLine (sampleLine name labels value1)"
  unfolding sampleLine_def by (rule metricName_plain) (simp_all add: labelTexts_line)

lemma familyLines_plain: "metricName name \<Longrightarrow> CHR 0x0A \<notin> set help \<Longrightarrow> list_all plainLine (familyLines name help)"
  by (simp add: familyLines_def plainLine_def metricName_def)

lemma gaugeLines_plain: "metricName name \<Longrightarrow> CHR 0x0A \<notin> set help \<Longrightarrow> list_all plainLine (gaugeLines name help n)"
  using metricName_plain [of name "'' '' @ FormatInt n"] by (simp add: gaugeLines_def familyLines_plain FormatInt_line)

lemma labelled_plain: "metricName name \<Longrightarrow> CHR 0x0A \<notin> set key \<Longrightarrow> list_all plainLine (labelled name key rows)"
  by (auto simp: labelled_def list_all_iff intro!: sampleLine_plain simp: FormatInt_line)

lemmas plain_lines = familyLines_plain gaugeLines_plain labelled_plain

lemma statusLines_plain: "list_all plainLine (statusLines status)"
  by (simp add: statusLines_def Let_def plain_lines metricName_def)

lemma durableLines_plain: "list_all plainLine (durableLines durable)" "list_all plainLine (breakdownLines durable)"
  by (simp_all add: durableLines_def breakdownLines_def plain_lines metricName_def)

lemma heartbeatLines_plain: "(\<And>d. CHR 0x0A \<notin> set (formatAge d)) \<Longrightarrow> list_all plainLine (heartbeatLines formatAge now services)"
  by (auto simp: heartbeatLines_def list_all_iff intro!: sampleLine_plain simp: metricName_def)

text \<open>
  The metrics cannot be forged from inside: whatever names the services, states and failure categories have, line breaks and
  quotation marks included, the text consists of the lines of the exporter, each ended by one line break, and the marker of its end
  is its last line and no other.
\<close>
theorem metrics_lines_sound:
  assumes "\<And>d. CHR 0x0A \<notin> set (rh_formatAge h d)" and "ro_Status (metrics_handler h w) = 200"
  shows "\<exists>lines. list_all plainLine lines \<and>
    ro_Body (metrics_handler h w) = TextBody (concat (map (\<lambda>l. l @ [CHR 0x0A]) (lines @ [''# EOF''])))"
proof -
  have bad: "ro_Status writeInternalError \<noteq> 200" by (simp add: writeInternalError_def report_writeError_def report_writeJSON_def)
  then obtain status durable where
    body: "ro_Body (metrics_handler h w) = TextBody (concat (map (\<lambda>l. l @ [CHR 0x0A]) (metricLines (rh_formatAge h) (rh_now h w) status durable)))"
    using assms(2) by (auto simp: metrics_handler_def split: sum.splits)
  let ?lines = "statusLines status @ durableLines durable @ breakdownLines durable @
     familyLines ''joshbot_service_heartbeat_age_seconds'' ''Age of the latest service heartbeat.'' @
     heartbeatLines (rh_formatAge h) (rh_now h w) (re_Services status)"
  have "list_all plainLine ?lines"
    using statusLines_plain [of status] durableLines_plain [of durable] heartbeatLines_plain [OF assms(1)]
    by (simp add: familyLines_plain metricName_def)
  with body show ?thesis by (intro exI [of _ ?lines]) (simp add: metricLines_def)
qed

theorem metrics_lines_sound_witness:
  "\<exists>lines. list_all plainLine lines \<and>
    ro_Body (metrics_handler demoReportHandler demoReports) = TextBody (concat (map (\<lambda>l. l @ [CHR 0x0A]) (lines @ [''# EOF''])))"
proof (rule metrics_lines_sound)
  show "CHR 0x0A \<notin> set (rh_formatAge demoReportHandler d)" for d by (simp add: demoReportHandler_def demoReportRest_def)
  show "ro_Status (metrics_handler demoReportHandler demoReports) = 200"
    by (simp add: metrics_handler_def demoReportHandler_def demoReportRest_def postgresReader_def Status_def Services_def listStatement_def
        Metrics_def demoReports_def Let_def)
qed

end
