(* ===== verification/Spec2Isabelle.thy ===== *)
theory Spec2Isabelle
  imports Runtime Control Github_Publish Reporting_Api
begin

text \<open>
  JoshBot: a verification library.

  \<^bold>\<open>The program.\<close> JoshBot is a polite crawler written in Go. It looks for sites that publish a JSON declaration at a well-known
  path and keeps a public registry of them. Its parts and how they interact:

  \<^item> The \<^emph>\<open>worker\<close> claims an origin from the \<^emph>\<open>verification queue\<close> under a lease, asks the \<^emph>\<open>verifier\<close> for the declaration of the
    origin, and completes the lease with the result, which the \<^emph>\<open>store\<close> summarizes and which sets the time of the next check.
  \<^item> The \<^emph>\<open>crawl runner\<close> claims a crawl source under a lease it renews, lets the \<^emph>\<open>crawler\<close> visit the source breadth first, and hands
    the origins found to the \<^emph>\<open>discovery store\<close>, which turns them into probes of the queue and, within its limits, into new
    sources.
  \<^item> Every request of either goes through the \<^emph>\<open>robots checker\<close>, which obtains the policy of the origin, applies it, and waits for
    the \<^emph>\<open>request scheduler\<close>; connections are made by the \<^emph>\<open>netguard\<close>, to public addresses only. Failures are classified by the
    \<^emph>\<open>retry policy\<close>.
  \<^item> The \<^emph>\<open>exporter\<close> writes the registry as a directory of files and points at it; the \<^emph>\<open>publisher\<close> reads what is pointed at and
    commits it to a branch on GitHub.
  \<^item> The operator steers the program through the \<^emph>\<open>control API\<close>, whose requests are audited, and reads it through the
    \<^emph>\<open>reporting API\<close>.

  \<^bold>\<open>The theories.\<close> A theory follows the order of the source it models; a definition has the name of the function where Isabelle
  allows it. Below, the sources are named without \<^verbatim>\<open>src/internal/\<close>.

  \<^item> \<open>Prelude\<close>: Go's errors, times as nanoseconds, contexts, string functions, integers and the results \<open>go_error + 'a\<close>;
    lemmas on lists and on \<open>bind_sum\<close>; the locale \<open>turn_loop\<close> of the services that repeat a turn until their context ends.
    \<open>Urls\<close>, \<open>Addresses\<close>, \<open>Encoding\<close>, \<open>Web_Encoding\<close>, \<open>Files\<close> and \<open>Http\<close> hold what the program uses of the standard library: URL
    structures and escaping, IP addresses and prefixes, calendar, SHA-256 digests in hexadecimal, JSON and base64, path names and a
    file system, responses and redirects (locale \<open>redirect_loop\<close>).
  \<^item> \<open>Retry\<close> (\<^verbatim>\<open>retry/policy.go\<close>), \<open>Origin\<close> (\<^verbatim>\<open>origin/origin.go\<close>), \<open>Netguard\<close> (\<^verbatim>\<open>netguard/netguard.go\<close>): pure policies. The lemmas
    bound the delays, show for which origins the text parses back, and that only validated addresses are dialled. What the
    round trip assumes of \<^verbatim>\<open>net/url\<close>, \<^verbatim>\<open>net/netip\<close> and the IDNA profile are the predicates \<open>url_law\<close>, \<open>address_text\<close>, \<open>address_law\<close> and
    \<open>idna_law\<close>, each shown to hold of a concrete library.
  \<^item> \<open>Robots_Policy\<close>, \<open>Robots_Http\<close>, \<open>Scheduler\<close>, \<open>Checker\<close> (\<^verbatim>\<open>robots/\<close>): the parser and matcher of robots.txt with the
    specification of RFC 9309, retrieval through redirects (the guarded client sends only identified requests to public
    addresses), the scheduler as a transition system whose steps are its critical sections and whose log shows that crawl delays
    are respected and that the requests of an origin and of its neighborhood are spaced, and the checker that composes them and
    asks for a target only under the policy in force (\<open>inForce\<close>).
  \<^item> \<open>Declaration\<close>, \<open>Verifier\<close> (\<^verbatim>\<open>declaration/\<close>), \<open>Store\<close> (\<^verbatim>\<open>store/store.go\<close>), \<open>Queue\<close> (\<^verbatim>\<open>store/queue.go\<close>), \<open>Worker\<close>
    (\<^verbatim>\<open>worker/worker.go\<close>): verification. The tables are association lists and maps in records; a transaction is a function of the
    database and of the failure it meets, if any. The lemmas show that a lease is exclusive and fenced by its generation, that
    origins are not claimed early while their row exists (the logs of \<open>queue_step\<close> are complete and carry the number of deletions of
    the row; what a deletion forgets is proved beside them), that the summary of an origin is the one its observations stand for, and that a worker
    follows the protocol of a lease (locales \<open>lease_queue\<close>, \<open>declaration_verifier\<close>, \<open>worker_contract\<close>).
  \<^item> \<open>Links\<close>, \<open>Crawler\<close> (\<^verbatim>\<open>discovery/discovery.go\<close>, \<^verbatim>\<open>crawler.go\<close>), \<open>Discovery_Store\<close>, \<open>Discovery_Lease\<close>, \<open>Admission\<close>
    (\<^verbatim>\<open>store/discovery*.go\<close>), \<open>Telemetry\<close> (\<^verbatim>\<open>store/crawl_observability.go\<close>), \<open>Crawl_Runner\<close> (\<^verbatim>\<open>discovery/crawl_runner.go\<close>),
    \<open>Runtime\<close> (\<^verbatim>\<open>cmd/joshbot/discovery.go\<close>): discovery. The lemmas bound a crawl and keep it in its source, show that leases of
    sources are exclusive, that the policy of the operator decides which sources exist, that only candidates that resolved to public
    addresses are admitted and only so many, and that the telemetry a crawl writes is accepted by the store. The locales
    \<open>crawl_monitor\<close>, \<open>generation_fence\<close>, \<open>source_contract\<close> and \<open>noted_resolver\<close> state what one part relies on of another; each is
    interpreted on the definitions of the part that provides it.
  \<^item> \<open>History\<close> (\<^verbatim>\<open>store/history.go\<close>, \<^verbatim>\<open>verified.go\<close>, \<^verbatim>\<open>registry.go\<close>, \<^verbatim>\<open>retention.go\<close>): the reads of the registry and the purge.
    \<open>Control_Store\<close> and \<open>Control\<close> (\<^verbatim>\<open>store/control.go\<close>, \<^verbatim>\<open>control/control.go\<close>, \<^verbatim>\<open>operatortoken/token.go\<close>): the operator's
    mutations with their audit, which the table accepts only as storable text of bounded length, and the HTTP interface above them (locales \<open>audited_commander\<close>, \<open>working_commander\<close>).
  \<^item> \<open>Public_Data\<close>, \<open>Snapshot_Reader\<close> (\<^verbatim>\<open>publicdata/\<close>), \<open>Export_Loop\<close> (\<^verbatim>\<open>cmd/joshbot/registry_interval.go\<close>), \<open>Github_Publish\<close>
    (\<^verbatim>\<open>githubpublish/publisher.go\<close>, \<^verbatim>\<open>cmd/joshbot/publish_config.go\<close>): publication. Every call of the disk may fail with a partial
    effect, every answer of GitHub is arbitrary. The lemmas show that a snapshot appears whole or not at all, that the pointer
    always names a complete snapshot, that the reader keeps its limits, that what was exported is what is published, and that the
    branch is only written to after its sentinel was read.
  \<^item> \<open>Reporting\<close>, \<open>Reporting_Status\<close>, \<open>Reporting_Api\<close> (\<^verbatim>\<open>reporting/\<close>): the reports over the tables above. The first has the cursors, the
    filters and the five paged reports; the locale \<open>keyset\<close> states the contract of a page (it is cut from the matching rows after the key of
    its cursor, and the cursor of a row leads back to its key) and proves that following the cursors yields every row once; it is
    interpreted on all five. The second has the status, single crawls and sources, and the metrics; the third the HTTP interface, whose
    lemmas show that nothing of the tables is answered without the token, that the pages are complete over HTTP, and that the text of the
    metrics cannot be forged through names.
  \<^bold>\<open>Reading the model.\<close> What the program calls and does not define is an argument: the clock, the entropy, the resolver, the dialer,
  the TLS round trip, the HTML and JSON decoders, the public suffix list, IDNA, SHA-256, the failures of PostgreSQL and of the disk.
  Arguments that act on the world take and return a state of arbitrary type. A theorem assumes of them only what its statement says,
  and its witness instantiates them with concrete functions. Concurrency appears as sequences of atomic steps: transactions of the
  database (\<open>queue_step\<close>, \<open>discovery_step\<close>), steps under the mutex of the scheduler (\<open>sched_step\<close>), turns of the exporter
  (\<open>exportReachable\<close>), lease renewals that interleave with a crawl (an argument of the runner).

  \<^bold>\<open>Bounds and fuel.\<close> The loops of the services (\<open>runLoop\<close>, \<open>crawlRunLoop\<close>, \<open>exportLoop\<close>, \<open>publishLoop\<close>) may run forever and are
  partial functions into \<open>option\<close>; \<open>turn_loop\<close> proves once that they return when the context ends. Loops over timers take the list of
  firings they see. Recursion over directories is bounded by the depth the reader allows, redirects and retries by the limits of the
  source; the crawl of one source is a recursion over its remaining page budget. No other fuel occurs but that of \<open>followPages\<close>, a client
  that gives up after so many pages: one more than there are rows is enough.

  \<^bold>\<open>What the model found.\<close> Properties of kind \<open>error\<close> state what the code does where its comments say otherwise: abandoned staging
  directories, names escaped twice, rules detached by an invalid token, huge \<^verbatim>\<open>Retry-After\<close> values, excluded hosts kept as
  sources,
  backpressure that is reported while probes are admitted, events that no filter accepts. Three more come out of the safety properties: origins with braces in their name that do not parse back, queue rows
  that start over after a probe was completed (\<open>deleted_row_starts_over\<close>), and requests of the operator whose path no audit can
  hold (\<open>unstorable_path_unaudited\<close>).

  \<^bold>\<open>Not modelled.\<close> Web bot authentication (\<^verbatim>\<open>webbotauth/\<close>) is Ed25519 signatures and key handling of the standard library; the
  requests carry its signer as a parameter. The command line and its configuration (the rest of \<^verbatim>\<open>cmd/joshbot\<close>) read environment
  variables, open pools and start the services above. The access to the database (\<^verbatim>\<open>database/\<close>, migrations, advisory locks) is input
  and output of the driver. Of the reporting API, the JSON text of
  the bodies is left to the encoder. The bodies of responses are not closed and log lines are not written in the model.
\<close>

end
